(* ===== verification/Focus_Prelude.thy ===== *)
theory Focus_Prelude
  imports Complex_Main "HOL-Library.AList" "HOL-Library.Char_ord"
    "HOL-Library.List_Lexorder" "HOL-Library.Product_Lexorder"
begin

text \<open>
  What every component of the development shares.

  \<^item> Python text: a \<open>str\<close> is a \<open>string\<close> whose characters are read as the code points
    0..255, the range on which \<open>str.strip\<close> and \<open>str.lower\<close> are given exactly.
  \<^item> Python dictionaries: association lists in insertion order. Assignment keeps the
    place of an old key and appends a new one (\<open>AList.update\<close>), \<open>pop\<close> removes the key
    (\<open>AList.delete\<close>), \<open>d.get(k)\<close> is \<open>map_of d k\<close>.
  \<^item> Stateful calls that may raise: a function from the state to the state after the call
    and either the exception or the result; what was mutated before a raise stays mutated.
  \<^item> The step-system interface: components whose operations all keep one invariant.
\<close>

named_theorems text_simps \<open>normalised Python text\<close>
named_theorems dict_simps \<open>insertion-ordered dictionaries\<close>
named_theorems call_simps \<open>sequencing of stateful calls that may raise\<close>

section \<open>Python text\<close>

definition py_space :: "char \<Rightarrow> bool" where
  "py_space c = (let n = (of_char c :: nat)
     in (9 \<le> n \<and> n \<le> 13) \<or> (28 \<le> n \<and> n \<le> 32) \<or> n = 133 \<or> n = 160)"

definition strip_by :: "(char \<Rightarrow> bool) \<Rightarrow> string \<Rightarrow> string" where
  "strip_by p s = rev (dropWhile p (rev (dropWhile p s)))"

definition strip :: "string \<Rightarrow> string" where
  "strip s = strip_by py_space s"

definition lower_char :: "char \<Rightarrow> char" where
  "lower_char c = (let n = (of_char c :: nat)
     in if (65 \<le> n \<and> n \<le> 90) \<or> (192 \<le> n \<and> n \<le> 222 \<and> n \<noteq> 215)
        then char_of (n + 32) else c)"

definition lower :: "string \<Rightarrow> string" where
  "lower s = map lower_char s"

lemma dropWhile_fix: "dropWhile p s = s \<longleftrightarrow> s = [] \<or> \<not> p (hd s)"
proof (cases s)
  case (Cons a t)
  have "dropWhile p t \<noteq> a # t"
    using length_dropWhile_le [of p t] by (metis impossible_Cons)
  then show ?thesis using Cons by simp
qed simp

lemma hd_rev_dropWhile_rev:
  "rev (dropWhile p (rev t)) \<noteq> [] \<Longrightarrow> hd (rev (dropWhile p (rev t))) = hd t"
proof -
  assume ne: "rev (dropWhile p (rev t)) \<noteq> []"
  have "t = rev (dropWhile p (rev t)) @ rev (takeWhile p (rev t))"
    by (metis rev_append rev_rev_ident takeWhile_dropWhile_id)
  then show ?thesis using ne by (metis hd_append2)
qed

lemma dropWhile_rev_dropWhile:
  "dropWhile p (rev (dropWhile p (rev (dropWhile p s)))) = rev (dropWhile p (rev (dropWhile p s)))"
proof (cases "rev (dropWhile p (rev (dropWhile p s))) = []")
  case False
  then have "dropWhile p s \<noteq> []" by (metis dropWhile.simps(1) rev.simps(1))
  then have "\<not> p (hd (dropWhile p s))" by (rule hd_dropWhile)
  then show ?thesis
    using False by (simp add: dropWhile_fix hd_rev_dropWhile_rev)
next
  case True
  then show ?thesis by (simp only: dropWhile.simps)
qed

lemma strip_by_idem [simp, text_simps]: "strip_by p (strip_by p s) = strip_by p s"
  unfolding strip_by_def
  by (metis dropWhile_idem dropWhile_rev_dropWhile rev_rev_ident)

lemma strip_idem [simp, text_simps]: "strip (strip s) = strip s"
  by (simp add: strip_def)

lemma strip_Nil [simp, text_simps]: "strip [] = []"
  by (simp add: strip_def strip_by_def)

lemma strip_by_fix:
  "strip_by p s = s \<longleftrightarrow> s = [] \<or> (\<not> p (hd s) \<and> \<not> p (last s))"
proof
  assume fixed: "strip_by p s = s"
  show "s = [] \<or> (\<not> p (hd s) \<and> \<not> p (last s))"
  proof (cases "s = []")
    case False
    have "dropWhile p s = s"
      using fixed by (metis dropWhile_idem dropWhile_rev_dropWhile strip_by_def)
    moreover from this have "dropWhile p (rev s) = rev s"
      using fixed by (metis rev_rev_ident strip_by_def)
    ultimately show ?thesis
      using False by (simp add: dropWhile_fix hd_rev)
  qed simp
next
  assume "s = [] \<or> (\<not> p (hd s) \<and> \<not> p (last s))"
  then show "strip_by p s = s"
    by (auto simp: strip_by_def dropWhile_fix [THEN iffD2] hd_rev)
qed

lemma strip_fix: "strip s = s \<longleftrightarrow> s = [] \<or> (\<not> py_space (hd s) \<and> \<not> py_space (last s))"
  by (simp add: strip_def strip_by_fix)

lemma of_char_less_256 [simp]: "(of_char c :: nat) < 256"
  by (metis nat_of_char_less_256)

lemma of_char_lower_char:
  "(of_char (lower_char c) :: nat) =
     (let n = of_char c in if (65 \<le> n \<and> n \<le> 90) \<or> (192 \<le> n \<and> n \<le> 222 \<and> n \<noteq> 215) then n + 32 else n)"
  by (auto simp: lower_char_def Let_def)

lemma lower_char_idem [simp]: "lower_char (lower_char c) = lower_char c"
proof -
  have "(of_char (lower_char (lower_char c)) :: nat) = of_char (lower_char c)"
    unfolding of_char_lower_char [of "lower_char c"] by (simp add: of_char_lower_char Let_def)
  then show ?thesis by (simp only: of_char_eq_iff)
qed

lemma py_space_lower_char [simp]: "py_space (lower_char c) = py_space c"
  by (auto simp: py_space_def of_char_lower_char Let_def)

lemma lower_idem [simp, text_simps]: "lower (lower s) = lower s"
  by (simp add: lower_def)

lemma lower_eq_Nil [simp]: "lower s = [] \<longleftrightarrow> s = []"
  by (simp add: lower_def)

lemma strip_lower [text_simps]: "strip (lower s) = lower (strip s)"
  by (simp add: strip_def strip_by_def lower_def dropWhile_map rev_map comp_def)

lemma strip_lower_strip [simp, text_simps]: "strip (lower (strip s)) = lower (strip s)"
  by (simp add: strip_lower)

section \<open>Decimal numerals\<close>

fun show_nat :: "nat \<Rightarrow> string" where
  "show_nat n = (if n < 10 then [char_of (48 + n)] else show_nat (n div 10) @ [char_of (48 + n mod 10)])"

declare show_nat.simps [simp del]

definition show_int :: "int \<Rightarrow> string" where
  "show_int n = (if n < 0 then ''-'' @ show_nat (nat (- n)) else show_nat (nat n))"

definition digit_char :: "char \<Rightarrow> bool" where
  "digit_char c = (48 \<le> (of_char c :: nat) \<and> of_char c \<le> (57 :: nat))"

definition read_nat :: "string \<Rightarrow> nat" where
  "read_nat s = foldl (\<lambda>a c. 10 * a + (of_char c - 48)) 0 s"

lemma show_nat_digits: "list_all digit_char (show_nat n)"
proof (induction n rule: show_nat.induct)
  case (1 n)
  have d: "digit_char (char_of (48 + k :: nat))" if "k < 10" for k
    using that by (simp add: digit_char_def)
  show ?case
    using 1 d [of n] d [of "n mod 10"] by (simp add: show_nat.simps [of n])
qed

lemma show_nat_nonempty [simp]: "show_nat n \<noteq> []"
  by (simp add: show_nat.simps [of n])

lemma read_show_nat: "read_nat (show_nat n) = n"
proof (induction n rule: show_nat.induct)
  case (1 n)
  show ?case
  proof (cases "n < 10")
    case True
    then show ?thesis by (simp add: show_nat.simps [of n] read_nat_def)
  next
    case False
    have "(48 + n mod 10) mod 256 = 48 + n mod 10" by (rule mod_less) linarith
    then show ?thesis using False 1 by (simp add: show_nat.simps [of n] read_nat_def)
  qed
qed

lemma show_nat_inject [simp]: "show_nat m = show_nat n \<longleftrightarrow> m = n"
  by (metis read_show_nat)

lemma show_int_inject [simp]: "show_int m = show_int n \<longleftrightarrow> m = n"
proof -
  have "hd (show_nat k) \<noteq> CHR ''-''" for k
  proof -
    have "digit_char (hd (show_nat k))"
      using show_nat_digits [of k] by (metis list.pred_set list.set_sel(1) show_nat_nonempty)
    then show ?thesis by (auto simp: digit_char_def)
  qed
  then have "CHR ''-'' # show_nat i \<noteq> show_nat k" and "show_nat k \<noteq> CHR ''-'' # show_nat i" for i k
    by (metis list.sel(1))+
  then show ?thesis
    by (auto simp: show_int_def eq_nat_nat_iff split: if_splits)
qed

text \<open>A digit prefix closed by a non-digit is determined by the whole text.\<close>

lemma split_at_mark:
  assumes "list_all p xs" "list_all p ys" "\<not> p c" "xs @ c # us = ys @ c # vs"
  shows "xs = ys \<and> us = vs"
  using assms
proof (induction xs arbitrary: ys)
  case Nil
  then show ?case by (cases ys) auto
next
  case (Cons x xs)
  then show ?case by (cases ys) auto
qed

section \<open>Insertion-ordered dictionaries\<close>

type_synonym ('k, 'v) dict = "('k \<times> 'v) list"

definition dkeys :: "('k, 'v) dict \<Rightarrow> 'k list" where
  "dkeys d = map fst d"

definition dict_wf :: "('k, 'v) dict \<Rightarrow> bool" where
  "dict_wf d = distinct (map fst d)"

lemma dict_wf_Nil [simp, dict_simps]: "dict_wf []"
  by (simp add: dict_wf_def)

lemma dict_wf_update [simp, dict_simps]: "dict_wf d \<Longrightarrow> dict_wf (AList.update k v d)"
  by (simp add: dict_wf_def distinct_update)

lemma dict_wf_delete [simp, dict_simps]: "dict_wf d \<Longrightarrow> dict_wf (AList.delete k d)"
  by (simp add: dict_wf_def distinct_delete)

lemmas dict_get [dict_simps] = update_conv' delete_conv'

lemma in_update: "p \<in> set (AList.update k v d) \<Longrightarrow> p = (k, v) \<or> p \<in> set d"
  by (induction d) (auto split: if_splits)

lemma update_append: "k \<notin> fst ` set d \<Longrightarrow> AList.update k v d = d @ [(k, v)]"
  by (induction d) auto

lemma dkeys_iff: "k \<in> set (dkeys d) \<longleftrightarrow> map_of d k \<noteq> None"
  by (simp add: dkeys_def map_of_eq_None_iff)

lemma map_of_filter_key: "map_of (filter (\<lambda>p. P (fst p)) d) k = (if P k then map_of d k else None)"
  by (induction d) auto

lemma map_of_filter_wf:
  "dict_wf d \<Longrightarrow> map_of (filter P d) k =
     (case map_of d k of None \<Rightarrow> None | Some v \<Rightarrow> if P (k, v) then Some v else None)"
proof (induction d)
  case (Cons p d)
  have "map_of d (fst p) = None" if "dict_wf (p # d)"
    using that by (auto simp: dict_wf_def map_of_eq_None_iff)
  with Cons show ?case by (auto simp: dict_wf_def split: option.splits)
qed simp

lemma dict_wf_filter [simp]: "dict_wf d \<Longrightarrow> dict_wf (filter P d)"
  by (simp add: dict_wf_def distinct_map_filter)

lemma map_of_sort_key:
  "dict_wf d \<Longrightarrow> map_of (sort_key fst d) = map_of (d :: ('k::linorder, 'v) dict)"
proof -
  assume wf: "dict_wf d"
  have "set (sort_key fst d) = set d" by simp
  moreover have "distinct (map fst (sort_key fst d))"
    using wf by (metis dict_wf_def distinct_map distinct_sort set_sort)
  ultimately show "map_of (sort_key fst d) = map_of d"
    using wf by (metis dict_wf_def map_of_eqI map_of_inject_set)
qed

lemma dict_wf_sort_key [simp]: "dict_wf d \<Longrightarrow> dict_wf (sort_key fst (d :: ('k::linorder, 'v) dict))"
  by (metis dict_wf_def distinct_map distinct_sort set_sort)

section \<open>Stateful calls that may raise\<close>

definition bindc :: "'s \<times> ('e + 'a) \<Rightarrow> ('s \<Rightarrow> 'a \<Rightarrow> 's \<times> ('e + 'b)) \<Rightarrow> 's \<times> ('e + 'b)" where
  "bindc r k = (case r of (s, Inl e) \<Rightarrow> (s, Inl e) | (s, Inr x) \<Rightarrow> k s x)"

lemma bindc_simps [simp, call_simps]:
  "bindc (s, Inl e) k = (s, Inl e)"
  "bindc (s, Inr x) k = k s x"
  by (simp_all add: bindc_def)

lemma bindc_eq_Inr:
  "bindc r k = (t, Inr y) \<longleftrightarrow> (\<exists>s x. r = (s, Inr x) \<and> k s x = (t, Inr y))"
  by (auto simp: bindc_def split: prod.splits sum.splits)

lemma bindc_eq_Inl:
  "bindc r k = (t, Inl e) \<longleftrightarrow> r = (t, Inl e) \<or> (\<exists>s x. r = (s, Inr x) \<and> k s x = (t, Inl e))"
  by (auto simp: bindc_def split: prod.splits sum.splits)

section \<open>Computations that may raise\<close>

definition bindr :: "'e + 'a \<Rightarrow> ('a \<Rightarrow> 'e + 'b) \<Rightarrow> 'e + 'b" where
  "bindr r k = (case r of Inl e \<Rightarrow> Inl e | Inr x \<Rightarrow> k x)"

definition require :: "'e \<Rightarrow> bool \<Rightarrow> 'e + unit" where
  "require e b = (if b then Inr () else Inl e)"

lemma bindr_simps [simp, call_simps]:
  "bindr (Inl e) k = Inl e"
  "bindr (Inr x) k = k x"
  by (simp_all add: bindr_def)

lemma require_simps [simp, call_simps]:
  "require e True = Inr ()"
  "require e False = Inl e"
  by (simp_all add: require_def)

lemma bindr_eq_Inr: "bindr r k = Inr y \<longleftrightarrow> (\<exists>x. r = Inr x \<and> k x = Inr y)"
  by (cases r) auto

lemma require_eq_Inr: "require e b = Inr u \<longleftrightarrow> b"
  by (simp add: require_def)

lemma bindr_map_sum: "bindr (map_sum id f r) k = bindr r (\<lambda>x. k (f x))"
  by (cases r) auto

lemma bindr_cong: "r = r' \<Longrightarrow> (\<And>x. r' = Inr x \<Longrightarrow> k x = k' x) \<Longrightarrow> bindr r k = bindr r' k'"
  by (cases r') auto

lemmas bindr_elims = bindr_eq_Inr require_eq_Inr

section \<open>Step systems\<close>

fun run_ops :: "('s \<Rightarrow> 'op \<Rightarrow> 's) \<Rightarrow> 's \<Rightarrow> 'op list \<Rightarrow> 's" where
  "run_ops step s [] = s"
| "run_ops step s (x # xs) = run_ops step (step s x) xs"

lemma run_ops_append: "run_ops step s (xs @ ys) = run_ops step (run_ops step s xs) ys"
  by (induction xs arbitrary: s) auto

text \<open>
  The contract of a component whose operations keep an invariant. The client part is the
  lift from one operation to every sequence of operations from the initial state.
\<close>

locale step_system =
  fixes step :: "'s \<Rightarrow> 'op \<Rightarrow> 's"
    and init :: 's
    and inv :: "'s \<Rightarrow> bool"
  assumes init_inv: "inv init"
    and step_inv: "inv s \<Longrightarrow> inv (step s x)"
begin

lemma run_inv: "inv s \<Longrightarrow> inv (run_ops step s xs)"
  by (induction xs arbitrary: s) (auto intro: step_inv)

lemma reach_inv: "inv (run_ops step init xs)"
  by (rule run_inv [OF init_inv])

end

text \<open>
  A fact that holds from some moment on: every operation that is allowed keeps it, so it is
  still there after any number of them (a settled receipt, a consumed capability, a barrier).
\<close>

locale standing_fact = step_system +
  fixes fact :: "'s \<Rightarrow> bool"
    and allowed :: "'op \<Rightarrow> bool"
  assumes fact_step: "inv s \<Longrightarrow> fact s \<Longrightarrow> allowed x \<Longrightarrow> fact (step s x)"
begin

lemma fact_run: "inv s \<Longrightarrow> fact s \<Longrightarrow> list_all allowed xs \<Longrightarrow> fact (run_ops step s xs)"
  by (induction xs arbitrary: s) (auto intro: fact_step step_inv)

end

text \<open>
  A step system with a counter that never moves backwards (a binding epoch, an outbound
  epoch, a connection generation): what was issued under an older value is never current
  again once the counter has passed it.
\<close>

locale epoch_system = step_system +
  fixes epoch :: "'s \<Rightarrow> int"
  assumes epoch_mono: "inv s \<Longrightarrow> epoch s \<le> epoch (step s x)"
begin

lemma run_epoch_mono: "inv s \<Longrightarrow> epoch s \<le> epoch (run_ops step s xs)"
proof (induction xs arbitrary: s)
  case (Cons x xs)
  then have "epoch s \<le> epoch (step s x)" and "inv (step s x)"
    by (auto intro: epoch_mono step_inv)
  with Cons.IH show ?case by fastforce
qed simp

lemma passed_epoch_stays_passed:
  assumes "inv s" and "n < epoch s"
  shows "epoch (run_ops step s xs) \<noteq> n"
  using run_epoch_mono [OF assms(1), of xs] assms(2) by simp

end

end
