(* ===== verification/Py_Json.thy ===== *)
theory Py_Json
  imports Focus_Prelude
begin

text \<open>
  The JSON values the record stores exchange with their files, and the parts of the Python
  standard library the stores apply to them: \<open>float\<close> on an integer (rounding to 53 bits,
  \<open>OverflowError\<close> beyond the largest double), the equality of parsed values, the key order
  \<open>json.dumps(..., sort_keys=True)\<close> writes, and the normal form of \<open>str(uuid.UUID(s))\<close>.

  A parsed object is the list of its pairs as the parser saw them, so a text with a repeated
  key is a value of the model too. A finite double is its exact rational value; the two
  zeros are one value.
\<close>

section \<open>Values\<close>

datatype pyfloat = Fin rat | PosInf | NegInf | NaN

datatype json =
    JNull
  | JBool bool
  | JInt int
  | JFloat pyfloat
  | JStr string
  | JArr "json list"
  | JObj "(string \<times> json) list"

type_synonym jdict = "(string, json) dict"

fun is_JObj :: "json \<Rightarrow> bool" where
  "is_JObj (JObj ps) = True"
| "is_JObj _ = False"

fun is_JStr :: "json \<Rightarrow> bool" where
  "is_JStr (JStr s) = True"
| "is_JStr _ = False"

lemma json_pair_size [termination_simp]:
  "(k, v) \<in> set ps \<Longrightarrow> size v < Suc (size_list (size_prod (\<lambda>_. 0) size) ps)"
  by (induction ps) auto

lemma json_zip_size [termination_simp]:
  "(a, b) \<in> set (zip xs ys) \<Longrightarrow> size b < Suc (size_list size ys)"
  "(a, b) \<in> set (zip xs ys) \<Longrightarrow> size a < Suc (size_list size xs)"
  by (induction xs ys rule: list_induct2') auto

fun has_dup_keys :: "json \<Rightarrow> bool" where
  "has_dup_keys (JObj ps) =
     (\<not> distinct (map fst ps) \<or> (\<exists>p \<in> set ps. has_dup_keys (snd p)))"
| "has_dup_keys (JArr xs) = (\<exists>x \<in> set xs. has_dup_keys x)"
| "has_dup_keys _ = False"

text \<open>
  What reading back \<open>json.dumps(v, sort_keys=True)\<close> gives: the same value with the keys of
  every object in ascending order.
\<close>

fun sort_keys :: "json \<Rightarrow> json" where
  "sort_keys (JObj ps) = JObj (sort_key fst (map (\<lambda>p. (fst p, sort_keys (snd p))) ps))"
| "sort_keys (JArr xs) = JArr (map sort_keys xs)"
| "sort_keys j = j"

section \<open>Numbers\<close>

fun bit_len :: "nat \<Rightarrow> nat" where
  "bit_len n = (if n = 0 then 0 else Suc (bit_len (n div 2)))"

declare bit_len.simps [simp del]

text \<open>\<open>float(n)\<close>: nearest double, ties to even; \<open>None\<close> is \<open>OverflowError\<close>.\<close>

definition float_of_int :: "int \<Rightarrow> rat option" where
  "float_of_int n =
     (let a = nat \<bar>n\<bar>; k = bit_len a - 53; q = a div 2 ^ k; r = a mod 2 ^ k;
          q' = (if 2 ^ k < 2 * r \<or> (2 * r = 2 ^ k \<and> odd q) then q + 1 else q);
          v = q' * 2 ^ k
      in if 2 ^ 1024 \<le> v then None else Some (of_int (sgn n * int v)))"

fun num_of :: "json \<Rightarrow> pyfloat option" where
  "num_of (JBool b) = Some (Fin (if b then 1 else 0))"
| "num_of (JInt n) = Some (Fin (of_int n))"
| "num_of (JFloat f) = Some f"
| "num_of _ = None"

definition float_eq :: "pyfloat \<Rightarrow> pyfloat \<Rightarrow> bool" where
  "float_eq x y = (x \<noteq> NaN \<and> x = y)"

fun py_eq :: "json \<Rightarrow> json \<Rightarrow> bool" where
  "py_eq (JStr s) (JStr t) = (s = t)"
| "py_eq JNull JNull = True"
| "py_eq (JArr xs) (JArr ys) =
     (length xs = length ys \<and> (\<forall>p \<in> set (zip xs ys). py_eq (fst p) (snd p)))"
| "py_eq (JObj ps) (JObj qs) =
     (set (map fst ps) = set (map fst qs) \<and>
      (\<forall>p \<in> set ps. \<forall>q \<in> set qs. fst p = fst q \<longrightarrow> py_eq (snd p) (snd q)))"
| "py_eq a b = (case num_of a of None \<Rightarrow> False
                | Some x \<Rightarrow> (case num_of b of None \<Rightarrow> False | Some y \<Rightarrow> float_eq x y))"

lemma bit_len_bound: "n < 2 ^ bit_len n"
proof (induction n rule: bit_len.induct)
  case (1 n)
  show ?case
  proof (cases "n = 0")
    case False
    with 1 have "n div 2 < 2 ^ bit_len (n div 2)" by simp
    then have "n < 2 * 2 ^ bit_len (n div 2)" by linarith
    then show ?thesis using False by (simp add: bit_len.simps [of n])
  qed simp
qed

lemma bit_len_le: "n < 2 ^ m \<Longrightarrow> bit_len n \<le> m"
proof (induction m arbitrary: n)
  case 0
  then show ?case by (simp add: bit_len.simps)
next
  case (Suc m)
  then have "n div 2 < 2 ^ m" by simp
  then have "bit_len (n div 2) \<le> m" by (rule Suc.IH)
  then show ?case by (simp add: bit_len.simps [of n])
qed

text \<open>Integers of at most 53 bits are exact.\<close>

lemma float_of_int_exact:
  assumes "\<bar>n\<bar> < 2 ^ 53"
  shows "float_of_int n = Some (of_int n)"
proof -
  have "nat \<bar>n\<bar> < nat (2 ^ 53)"
    by (rule nat_less_iff [THEN iffD2]) (use assms in auto)
  then have small: "nat \<bar>n\<bar> < 2 ^ 53" by (simp add: nat_power_eq)
  then have k: "bit_len (nat \<bar>n\<bar>) - 53 = 0" by (simp add: bit_len_le)
  have "\<not> 2 ^ 1024 \<le> nat \<bar>n\<bar>"
  proof -
    have "(2 ^ 53 :: nat) \<le> 2 ^ 1024" by (rule power_increasing) auto
    then show ?thesis using small by linarith
  qed
  moreover have "sgn n * \<bar>n\<bar> = n" by (simp add: sgn_mult_abs)
  ultimately show ?thesis
    by (simp add: float_of_int_def k Let_def del: power_eq_0_iff)
qed

section \<open>Objects\<close>

lemma map_of_sort_keys_obj:
  assumes "dict_wf ps"
  shows "map_of (sort_key fst (map (\<lambda>p. (fst p, sort_keys (snd p))) ps)) k =
         map_option sort_keys (map_of ps k)"
proof -
  have "dict_wf (map (\<lambda>p. (fst p, sort_keys (snd p))) ps)"
    using assms by (simp add: dict_wf_def comp_def)
  moreover have "map_of (map (\<lambda>p. (fst p, sort_keys (snd p))) ps) k = map_option sort_keys (map_of ps k)"
    by (induction ps) auto
  ultimately show ?thesis by (simp add: map_of_sort_key)
qed

lemma keys_sort_keys_obj:
  "fst ` set (sort_key fst (map (\<lambda>p. (fst p, sort_keys (snd p))) ps)) = fst ` set ps"
  by (simp add: image_image)

lemma dict_wf_sort_keys_obj:
  "dict_wf ps \<Longrightarrow> dict_wf (sort_key fst (map (\<lambda>p. (fst p, sort_keys (snd p))) ps))"
  by (rule dict_wf_sort_key) (simp add: dict_wf_def comp_def)

lemma is_JStr_sort_keys [simp]: "is_JStr (sort_keys j) = is_JStr j"
  by (cases j) auto

lemma is_JObj_sort_keys [simp]: "is_JObj (sort_keys j) = is_JObj j"
  by (cases j) auto

lemma has_dup_keys_sort_keys: "\<not> has_dup_keys j \<Longrightarrow> \<not> has_dup_keys (sort_keys j)"
proof (induction j rule: sort_keys.induct)
  case (1 ps)
  then have "dict_wf ps" by (simp add: dict_wf_def)
  then have "distinct (map fst (sort_key fst (map (\<lambda>p. (fst p, sort_keys (snd p))) ps)))"
    using dict_wf_sort_keys_obj by (simp add: dict_wf_def)
  with 1 show ?case by auto
qed auto

lemma sort_keys_scalar [simp]:
  "\<not> is_JObj j \<Longrightarrow> (\<forall>xs. j \<noteq> JArr xs) \<Longrightarrow> sort_keys j = j"
  by (cases j) auto

section \<open>Typed access to the fields of an object\<close>

text \<open>What decoding may raise: \<open>ValueError\<close>, or \<open>OverflowError\<close> from \<open>float\<close>.\<close>

datatype dec_exn = BadValue | BadFloat

fun as_obj :: "json option \<Rightarrow> dec_exn + jdict" where
  "as_obj (Some (JObj ps)) = Inr ps"
| "as_obj _ = Inl BadValue"

fun as_arr :: "json option \<Rightarrow> dec_exn + json list" where
  "as_arr (Some (JArr xs)) = Inr xs"
| "as_arr _ = Inl BadValue"

fun as_str :: "json option \<Rightarrow> dec_exn + string" where
  "as_str (Some (JStr s)) = Inr s"
| "as_str _ = Inl BadValue"

text \<open>An \<open>int\<close> that is not a \<open>bool\<close>.\<close>

fun as_int :: "json option \<Rightarrow> dec_exn + int" where
  "as_int (Some (JInt n)) = Inr n"
| "as_int _ = Inl BadValue"

text \<open>\<open>float(x)\<close> of an \<open>int\<close> or \<open>float\<close> that is not a \<open>bool\<close>.\<close>

fun as_float :: "json option \<Rightarrow> dec_exn + pyfloat" where
  "as_float (Some (JInt n)) = (case float_of_int n of None \<Rightarrow> Inl BadFloat | Some q \<Rightarrow> Inr (Fin q))"
| "as_float (Some (JFloat f)) = Inr f"
| "as_float _ = Inl BadValue"

text \<open>\<open>math.isfinite(f)\<close> and \<open>f >= 0\<close>.\<close>

fun finite_nonneg :: "pyfloat \<Rightarrow> dec_exn + rat" where
  "finite_nonneg (Fin q) = (if q < 0 then Inl BadValue else Inr q)"
| "finite_nonneg _ = Inl BadValue"

text \<open>\<open>raw.get(f, "")\<close> of a field that is a string where present.\<close>

fun the_str :: "json option \<Rightarrow> string" where
  "the_str (Some (JStr s)) = s"
| "the_str _ = []"

definition opt_str_field :: "jdict \<Rightarrow> string \<Rightarrow> bool" where
  "opt_str_field raw f = (case map_of raw f of None \<Rightarrow> True | Some j \<Rightarrow> is_JStr j)"

text \<open>
  \<open>str(x or "").strip()\<close> of a field; \<open>txt\<close> is \<open>str\<close> of a value that is neither text nor falsy.
\<close>

fun falsy :: "json \<Rightarrow> bool" where
  "falsy JNull = True"
| "falsy (JBool b) = (\<not> b)"
| "falsy (JInt n) = (n = 0)"
| "falsy (JFloat f) = (f = Fin 0)"
| "falsy (JStr s) = (s = [])"
| "falsy (JArr xs) = (xs = [])"
| "falsy (JObj ps) = (ps = [])"

definition field_text :: "(json \<Rightarrow> string) \<Rightarrow> json option \<Rightarrow> string" where
  "field_text txt v =
     (case v of
        None \<Rightarrow> []
      | Some j \<Rightarrow> if falsy j then [] else (case j of JStr s \<Rightarrow> strip s | _ \<Rightarrow> strip (txt j)))"

text \<open>\<open>required <= set(raw) <= required | optional\<close>.\<close>

definition has_fields :: "string list \<Rightarrow> string list \<Rightarrow> jdict \<Rightarrow> bool" where
  "has_fields needed extra raw =
     (set needed \<subseteq> fst ` set raw \<and> fst ` set raw \<subseteq> set needed \<union> set extra)"

abbreviation sorted_obj :: "jdict \<Rightarrow> jdict" where
  "sorted_obj ps \<equiv> sort_key fst (map (\<lambda>p. (fst p, sort_keys (snd p))) ps)"

named_theorems json_sort \<open>reading is insensitive to the order of the keys\<close>

lemma as_sort [json_sort]:
  "as_obj (map_option sort_keys x) = map_sum id sorted_obj (as_obj x)"
  "as_arr (map_option sort_keys x) = map_sum id (map sort_keys) (as_arr x)"
  "as_str (map_option sort_keys x) = as_str x"
  "as_int (map_option sort_keys x) = as_int x"
  "as_float (map_option sort_keys x) = as_float x"
  "the_str (map_option sort_keys x) = the_str x"
  by (cases x rule: option.exhaust; case_tac x2 rule: json.exhaust; simp)+

lemma opt_str_field_sort [json_sort]: "dict_wf ps \<Longrightarrow> opt_str_field (sorted_obj ps) = opt_str_field ps"
  by (rule ext) (simp add: opt_str_field_def map_of_sort_keys_obj split: option.splits)

lemma has_fields_sort [json_sort]: "has_fields needed extra (sorted_obj ps) = has_fields needed extra ps"
  by (simp add: has_fields_def image_image)

lemma as_obj_nodup:
  assumes "\<not> has_dup_keys (JObj raw)" and "as_obj (map_of raw k) = Inr ps"
  shows "dict_wf ps \<and> \<not> has_dup_keys (JObj ps)"
proof -
  have "map_of raw k = Some (JObj ps)"
    using assms(2) by (cases "map_of raw k" rule: as_obj.cases) auto
  then have "(k, JObj ps) \<in> set raw" by (rule map_of_SomeD)
  then have "\<not> has_dup_keys (JObj ps)" using assms(1) by fastforce
  then show ?thesis by (simp add: dict_wf_def)
qed

end
