(* ===== verification/Versioned_Records.thy ===== *)
theory Versioned_Records
  imports Py_Json
begin

text \<open>
  The strict envelope shared by the local JSON record stores
  (\<open>bot/stores/versioned_records.py\<close>), the file it is kept in, and the interface between
  the envelope and a store: a codec for one record and a rule for dropping stale records.

  The file is either absent, not readable as JSON, or a JSON text. A replacement of the
  file may fail before the rename (the old text stays) or after it (the directory sync of
  \<open>atomic_write_text\<close> raises although the new text is in place); each write takes its
  outcome from the list \<open>faults\<close>, and succeeds once the list is used up.
\<close>

section \<open>The file\<close>

datatype state_file = Absent | Unreadable | Text json

datatype write_outcome = WriteOk | FailedBefore | FailedAfter

record disk =
  content :: state_file
  faults :: "write_outcome list"

definition atomic_write :: "disk \<Rightarrow> json \<Rightarrow> disk \<times> bool" where
  "atomic_write d j =
     (let d' = d\<lparr>faults := tl (faults d)\<rparr>
      in case (case faults d of [] \<Rightarrow> WriteOk | w # _ \<Rightarrow> w) of
           WriteOk \<Rightarrow> (d'\<lparr>content := Text j\<rparr>, True)
         | FailedBefore \<Rightarrow> (d', False)
         | FailedAfter \<Rightarrow> (d'\<lparr>content := Text j\<rparr>, False))"

section \<open>The envelope\<close>

definition read_versioned_records :: "state_file \<Rightarrow> int \<Rightarrow> bool \<Rightarrow> string + jdict" where
  "read_versioned_records f schema accept_unversioned =
     (case f of
        Absent \<Rightarrow> Inr []
      | Unreadable \<Rightarrow> Inl ''invalid or unreadable JSON''
      | Text j \<Rightarrow>
          (if has_dup_keys j then Inl ''duplicate JSON key''
           else case j of
             JObj raw \<Rightarrow>
               (case map_of raw ''schema_version'' of
                  None \<Rightarrow> if accept_unversioned then Inr raw else Inl ''missing schema version''
                | Some version \<Rightarrow>
                    if version \<noteq> JInt schema \<or> fst ` set raw \<noteq> {''schema_version'', ''records''}
                    then Inl ''unsupported or invalid schema''
                    else (case map_of raw ''records'' of
                            Some (JObj records) \<Rightarrow> Inr records
                          | _ \<Rightarrow> Inl ''records is not an object''))
           | _ \<Rightarrow> Inl ''top level is not an object''))"

definition envelope :: "jdict \<Rightarrow> int \<Rightarrow> json" where
  "envelope records schema =
     sort_keys (JObj [(''schema_version'', JInt schema), (''records'', JObj (sort_key fst records))])"

definition write_versioned_records :: "disk \<Rightarrow> jdict \<Rightarrow> int \<Rightarrow> disk \<times> bool" where
  "write_versioned_records d records schema = atomic_write d (envelope records schema)"

section \<open>Reading, pruning and writing the records of one store\<close>

text \<open>What a store's own calls may raise.\<close>

datatype store_exn =
    Unavailable string
  | ValueErr
  | TypeErr
  | OverflowErr

fun collect :: "(string \<Rightarrow> json \<Rightarrow> dec_exn + 'a option) \<Rightarrow> jdict \<Rightarrow> jdict \<Rightarrow> store_exn + jdict" where
  "collect dec records [] = Inr records"
| "collect dec records ((thread_id, value) # rest) =
     (let t = strip thread_id
      in if t = [] \<or> t \<in> fst ` set records
         then Inl (Unavailable ''invalid or duplicate thread key'')
         else if \<not> is_JObj value then Inl (Unavailable ''invalid lease record'')
         else (case dec t value of
                 Inl BadValue \<Rightarrow> Inl (Unavailable ''invalid lease record'')
               | Inl BadFloat \<Rightarrow> Inl OverflowErr
               | Inr _ \<Rightarrow> collect dec (records @ [(t, value)]) rest))"

definition read_all :: "(string \<Rightarrow> json \<Rightarrow> dec_exn + 'a option) \<Rightarrow> state_file \<Rightarrow> store_exn + jdict" where
  "read_all dec f =
     (case read_versioned_records f 1 True of
        Inl reason \<Rightarrow> Inl (Unavailable reason)
      | Inr raw \<Rightarrow> collect dec [] raw)"

definition write_all :: "disk \<Rightarrow> jdict \<Rightarrow> disk \<times> (store_exn + unit)" where
  "write_all d data =
     (case write_versioned_records d data 1 of
        (d', ok) \<Rightarrow> (d', if ok then Inr () else Inl (Unavailable ''write failed'')))"

text \<open>
  The body of a \<open>with self._locked_data()\<close> block starts with the records read under the
  file lock, after the stale ones were dropped and, if any was, the file was rewritten.
\<close>

definition locked_data ::
  "(string \<Rightarrow> json \<Rightarrow> dec_exn + 'a option) \<Rightarrow> (jdict \<Rightarrow> bool \<times> jdict) \<Rightarrow> disk
    \<Rightarrow> disk \<times> (store_exn + jdict)" where
  "locked_data dec prune d =
     (case read_all dec (content d) of
        Inl e \<Rightarrow> (d, Inl e)
      | Inr data \<Rightarrow>
          (case prune data of
             (changed, data') \<Rightarrow>
               if changed then bindc (write_all d data') (\<lambda>d' _. (d', Inr data'))
               else (d, Inr data')))"

section \<open>What a file means\<close>

definition record_view ::
  "(string \<Rightarrow> json \<Rightarrow> dec_exn + 'a option) \<Rightarrow> ('a \<Rightarrow> bool) \<Rightarrow> jdict \<Rightarrow> string \<Rightarrow> 'a option" where
  "record_view dec live data k =
     (case map_of data k of
        None \<Rightarrow> None
      | Some j \<Rightarrow> (case dec k j of
                    Inr (Some x) \<Rightarrow> if live x then Some x else None
                  | _ \<Rightarrow> None))"

definition record_ok :: "(string \<Rightarrow> json \<Rightarrow> dec_exn + 'a option) \<Rightarrow> string \<Rightarrow> json \<Rightarrow> bool" where
  "record_ok dec k j =
     (strip k = k \<and> k \<noteq> [] \<and> is_JObj j \<and> \<not> has_dup_keys j \<and> (\<exists>r. dec k j = Inr r))"

definition records_ok :: "(string \<Rightarrow> json \<Rightarrow> dec_exn + 'a option) \<Rightarrow> jdict \<Rightarrow> bool" where
  "records_ok dec data = (dict_wf data \<and> (\<forall>p \<in> set data. record_ok dec (fst p) (snd p)))"

definition readable :: "(string \<Rightarrow> json \<Rightarrow> dec_exn + 'a option) \<Rightarrow> disk \<Rightarrow> bool" where
  "readable dec d = (\<exists>data. read_all dec (content d) = Inr data)"

definition ledger ::
  "(string \<Rightarrow> json \<Rightarrow> dec_exn + 'a option) \<Rightarrow> ('a \<Rightarrow> bool) \<Rightarrow> disk \<Rightarrow> string \<Rightarrow> 'a option" where
  "ledger dec live d =
     (case read_all dec (content d) of Inl _ \<Rightarrow> (\<lambda>_. None) | Inr data \<Rightarrow> record_view dec live data)"

text \<open>
  The contract of an operation on the ledger \<open>L\<close> with specification \<open>S\<close> (the next ledger and
  the result): a result is the specified one and is committed, and an exception leaves the
  ledger as it was or as specified, never in between.
\<close>

definition commits_or_keeps :: "('k \<Rightarrow> 'a option) \<Rightarrow> ('k \<Rightarrow> 'a option) \<times> 'r \<Rightarrow> ('k \<Rightarrow> 'a option) \<Rightarrow> store_exn + 'r \<Rightarrow> bool" where
  "commits_or_keeps L S L' r = (case r of Inr x \<Rightarrow> (L', x) = S | Inl _ \<Rightarrow> L' = L \<or> L' = fst S)"

section \<open>The envelope round trip\<close>

lemma atomic_write_cases:
  assumes "atomic_write d j = (d', ok)"
  shows "(ok \<and> content d' = Text j) \<or> (\<not> ok \<and> (content d' = content d \<or> content d' = Text j))"
  using assms by (auto simp: atomic_write_def Let_def split: write_outcome.splits)

lemma atomic_write_no_faults:
  "faults d = [] \<Longrightarrow> atomic_write d j = (d\<lparr>content := Text j\<rparr>, True)"
  by (simp add: atomic_write_def)

lemma strings_less: "''records'' < ''schema_version''"
  by (simp add: less_char_def)

lemma read_envelope:
  assumes "dict_wf data" and "\<forall>p \<in> set data. \<not> has_dup_keys (snd p)"
  shows "read_versioned_records (Text (envelope data n)) n b =
    Inr (sort_key fst (map (\<lambda>p. (fst p, sort_keys (snd p))) (sort_key fst data)))"
proof -
  let ?rs = "sort_key fst data"
  have wf: "dict_wf ?rs" using assms(1) by simp
  let ?raw = "JObj [(''schema_version'', JInt n), (''records'', JObj ?rs)]"
  let ?sorted = "sort_key fst (map (\<lambda>p. (fst p, sort_keys (snd p)))
    [(''schema_version'', JInt n), (''records'', JObj ?rs)])"
  have "\<not> has_dup_keys ?raw" using assms wf by (auto simp: dict_wf_def)
  then have nodup: "\<not> has_dup_keys (envelope data n)"
    unfolding envelope_def by (rule has_dup_keys_sort_keys)
  have e: "envelope data n = JObj ?sorted" by (simp add: envelope_def)
  have pairs: "dict_wf [(''schema_version'', JInt n), (''records'', JObj ?rs)]"
    by (simp add: dict_wf_def)
  have v: "map_of ?sorted ''schema_version'' = Some (JInt n)"
    unfolding map_of_sort_keys_obj [OF pairs] by simp
  have r: "map_of ?sorted ''records'' = Some (sort_keys (JObj ?rs))"
    unfolding map_of_sort_keys_obj [OF pairs] by simp
  have ks: "fst ` set ?sorted = {''schema_version'', ''records''}"
    unfolding keys_sort_keys_obj by simp
  show ?thesis
    using nodup unfolding e read_versioned_records_def state_file.case json.case v option.case ks r
    by simp
qed

section \<open>Collecting the records\<close>

lemma fst_image_snoc [simp]: "fst ` set (ps @ [p]) = insert (fst p) (fst ` set ps)"
  by auto

lemma collect_ok:
  assumes "collect dec acc raw = Inr data"
    and "records_ok dec acc" and "\<forall>p \<in> set raw. \<not> has_dup_keys (snd p)"
  shows "records_ok dec data"
  using assms
proof (induction dec acc raw rule: collect.induct)
  case (2 dec records k v rest)
  let ?t = "strip k"
  from "2.prems"(1) have t: "?t \<noteq> []" "?t \<notin> fst ` set records" "is_JObj v"
    by (auto simp: Let_def split: if_splits)
  from "2.prems"(1) t obtain r where r: "dec ?t v = Inr r"
    by (auto simp: Let_def split: sum.splits dec_exn.splits)
  have ok: "record_ok dec ?t v"
    using t r "2.prems"(3) by (simp add: record_ok_def)
  then have "records_ok dec (records @ [(?t, v)])"
    using "2.prems"(2) t by (auto simp: records_ok_def dict_wf_def)
  with "2.IH" [OF refl] "2.prems" t r show ?case
    by (simp add: Let_def)
qed simp

lemma collect_all:
  assumes "records_ok dec (acc @ raw)"
  shows "collect dec acc raw = Inr (acc @ raw)"
  using assms
proof (induction dec acc raw rule: collect.induct)
  case (2 dec records k v rest)
  from "2.prems" have ok: "record_ok dec k v"
    and notin: "k \<notin> fst ` set records"
    by (auto simp: records_ok_def dict_wf_def)
  from ok obtain r where t: "strip k = k" "k \<noteq> []" "is_JObj v"
    and r: "dec k v = Inr r"
    by (auto simp: record_ok_def)
  have "collect dec (records @ [(k, v)]) rest = Inr ((records @ [(k, v)]) @ rest)"
    using "2.IH" [of k r] "2.prems" t r notin by simp
  then show ?case using t r notin by (simp add: Let_def)
qed simp

lemma nested_nodup:
  assumes "\<not> has_dup_keys (JObj raw)" and "p \<in> set raw"
  shows "\<not> has_dup_keys (snd p)"
  using assms by auto

lemma read_versioned_nodup:
  assumes "read_versioned_records f n b = Inr raw" and "p \<in> set raw"
  shows "\<not> has_dup_keys (snd p)"
proof -
  obtain j where j: "f = Absent \<or> (f = Text j \<and> \<not> has_dup_keys j)"
    using assms by (auto simp: read_versioned_records_def split: state_file.splits if_splits)
  show ?thesis
  proof (cases "f = Absent")
    case True
    then show ?thesis using assms by (simp add: read_versioned_records_def)
  next
    case False
    with j have nd: "\<not> has_dup_keys j" and f: "f = Text j" by auto
    obtain top where top: "j = JObj top"
      using assms(1) nd f by (auto simp: read_versioned_records_def split: json.splits)
    have "raw = top \<or> map_of top ''records'' = Some (JObj raw)"
      using assms(1) nd f top
      by (auto simp: read_versioned_records_def split: option.splits if_splits json.splits)
    then show ?thesis
    proof
      assume "raw = top"
      then show ?thesis using nested_nodup nd top assms(2) by blast
    next
      assume "map_of top ''records'' = Some (JObj raw)"
      then have "\<not> has_dup_keys (JObj raw)"
        using nested_nodup [of top] nd top map_of_SomeD by fastforce
      then show ?thesis using nested_nodup assms(2) by blast
    qed
  qed
qed

lemma read_all_ok: "read_all dec f = Inr data \<Longrightarrow> records_ok dec data"
proof -
  assume "read_all dec f = Inr data"
  then obtain raw where "read_versioned_records f 1 True = Inr raw" "collect dec [] raw = Inr data"
    by (auto simp: read_all_def split: sum.splits)
  then show ?thesis
    using collect_ok [of dec "[]" raw data] read_versioned_nodup by (auto simp: records_ok_def)
qed

lemma read_all_not_type_error:
  "read_all dec f = Inl e \<Longrightarrow> e = OverflowErr \<or> (\<exists>why. e = Unavailable why)"
proof -
  have "collect dec acc raw = Inl e \<Longrightarrow> e = OverflowErr \<or> (\<exists>why. e = Unavailable why)" for acc raw
    by (induction dec acc raw rule: collect.induct)
      (auto simp: Let_def split: if_splits sum.splits dec_exn.splits)
  then show "read_all dec f = Inl e \<Longrightarrow> e = OverflowErr \<or> (\<exists>why. e = Unavailable why)"
    by (auto simp: read_all_def split: sum.splits)
qed

lemma records_ok_delete [simp]: "records_ok dec data \<Longrightarrow> records_ok dec (AList.delete k data)"
  by (auto simp: records_ok_def AList.delete_eq dict_wf_def distinct_map_filter)

lemma records_ok_update [simp]:
  "records_ok dec data \<Longrightarrow> record_ok dec k j \<Longrightarrow> records_ok dec (AList.update k j data)"
proof -
  have sub: "set (AList.update k j data) \<subseteq> insert (k, j) (set data)"
    by (induction data) auto
  show "records_ok dec data \<Longrightarrow> record_ok dec k j \<Longrightarrow> records_ok dec (AList.update k j data)"
    using sub by (fastforce simp: records_ok_def)
qed

lemma record_view_delete [simp]:
  "record_view dec live (AList.delete k data) = (record_view dec live data)(k := None)"
  by (auto simp: record_view_def delete_conv' fun_eq_iff)

lemma write_all_cases:
  assumes "write_all d data = (d', r)"
  shows "(r = Inr () \<and> content d' = Text (envelope data 1)) \<or>
    (r = Inl (Unavailable ''write failed'') \<and>
      (content d' = content d \<or> content d' = Text (envelope data 1)))"
proof -
  obtain ok where "atomic_write d (envelope data 1) = (d', ok)"
    and "r = (if ok then Inr () else Inl (Unavailable ''write failed''))"
    using assms by (auto simp: write_all_def write_versioned_records_def split: prod.splits)
  then show ?thesis using atomic_write_cases [of d "envelope data 1" d' ok] by auto
qed

lemma write_all_no_faults:
  "faults d = [] \<Longrightarrow> write_all d data = (d\<lparr>content := Text (envelope data 1)\<rparr>, Inr ())"
  by (simp add: write_all_def write_versioned_records_def atomic_write_no_faults)

section \<open>The interface of a record store\<close>

text \<open>
  \<open>dec e k j\<close> reads the record of key \<open>k\<close> in the process environment \<open>e\<close>, \<open>enc\<close> writes one,
  \<open>wf\<close> holds of the records \<open>dec\<close> produces, \<open>live e\<close> of those whose owner may still exist.
  The laws: an encoded live record reads back as itself, key order in the text is
  irrelevant, and whether a record is valid does not depend on the environment.
\<close>

locale record_codec =
  fixes dec :: "'env \<Rightarrow> string \<Rightarrow> json \<Rightarrow> dec_exn + 'a option"
    and enc :: "'a \<Rightarrow> json"
    and key :: "'a \<Rightarrow> string"
    and wf :: "'a \<Rightarrow> bool"
    and live :: "'env \<Rightarrow> 'a \<Rightarrow> bool"
  assumes enc_obj: "is_JObj (enc x)"
    and enc_nodup: "\<not> has_dup_keys (enc x)"
    and dec_enc: "wf x \<Longrightarrow> live e x \<Longrightarrow> dec e (key x) (enc x) = Inr (Some x)"
    and dec_sort: "\<not> has_dup_keys j \<Longrightarrow> dec e k (sort_keys j) = dec e k j"
    and dec_valid_env: "dec e k j = Inr r \<Longrightarrow> \<exists>r'. dec e' k j = Inr r'"
    and dec_wf: "dec e k j = Inr (Some x) \<Longrightarrow> k \<noteq> [] \<Longrightarrow> strip k = k \<Longrightarrow> wf x \<and> key x = k"
    and wf_key: "wf x \<Longrightarrow> strip (key x) = key x \<and> key x \<noteq> []"
begin

lemma record_ok_env: "record_ok (dec e) k j \<Longrightarrow> record_ok (dec e') k j"
  using dec_valid_env unfolding record_ok_def by blast

lemma records_ok_env: "records_ok (dec e) data \<Longrightarrow> records_ok (dec e') data"
  using record_ok_env by (auto simp: records_ok_def)

lemma record_ok_enc: "wf x \<Longrightarrow> live e x \<Longrightarrow> record_ok (dec e) (key x) (enc x)"
  using dec_enc enc_obj enc_nodup wf_key by (auto simp: record_ok_def)

lemma view_enc:
  "wf x \<Longrightarrow> live e x \<Longrightarrow>
    record_view (dec e) (live e) (AList.update (key x) (enc x) data) =
      (record_view (dec e) (live e) data)(key x \<mapsto> x)"
  using dec_enc by (auto simp: record_view_def update_conv' fun_eq_iff)

lemma view_wf:
  "records_ok (dec e) data \<Longrightarrow> record_view (dec e) l data k = Some x \<Longrightarrow> wf x \<and> key x = k"
proof -
  assume ok: "records_ok (dec e) data" and v: "record_view (dec e) l data k = Some x"
  then obtain j where j: "map_of data k = Some j" "dec e k j = Inr (Some x)"
    by (auto simp: record_view_def split: option.splits sum.splits if_splits)
  from ok j(1) have "k \<noteq> []" "strip k = k"
    by (auto simp: records_ok_def record_ok_def dest!: map_of_SomeD)
  with j(2) show ?thesis by (intro dec_wf)
qed

lemma record_ok_sort: "record_ok (dec e) k j \<Longrightarrow> record_ok (dec e) k (sort_keys j)"
  using dec_sort has_dup_keys_sort_keys by (auto simp: record_ok_def)

lemma read_all_envelope:
  assumes ok: "records_ok (dec e) data"
  shows "\<exists>data'. read_all (dec e) (Text (envelope data 1)) = Inr data' \<and>
    record_view (dec e) l data' = record_view (dec e) l data"
proof -
  let ?data = "sort_key fst (map (\<lambda>p. (fst p, sort_keys (snd p))) (sort_key fst data))"
  have wf: "dict_wf data" and nodup: "\<forall>p \<in> set data. \<not> has_dup_keys (snd p)"
    using ok by (auto simp: records_ok_def record_ok_def)
  have look: "map_of ?data k = map_option sort_keys (map_of data k)" for k
    using wf by (simp add: map_of_sort_keys_obj map_of_sort_key)
  have "records_ok (dec e) ?data"
    using ok wf record_ok_sort dict_wf_sort_keys_obj [of "sort_key fst data"]
    by (auto simp: records_ok_def)
  then have "collect (dec e) [] ?data = Inr ?data"
    using collect_all [of "dec e" "[]"] by simp
  moreover have "record_view (dec e) l ?data k = record_view (dec e) l data k" for k
    using nodup by (auto simp: record_view_def look dec_sort dest!: map_of_SomeD split: option.splits)
  ultimately show ?thesis
    using read_envelope [OF wf nodup, of 1 True] by (auto simp: read_all_def)
qed

lemma stored_view:
  assumes ok: "records_ok (dec e) data" and "content d = Text (envelope data 1)"
  shows "readable (dec e') d \<and> ledger (dec e') (live e') d = record_view (dec e') (live e') data"
  using read_all_envelope [OF records_ok_env [OF ok, of e'], of "live e'"] assms(2)
  by (auto simp: readable_def ledger_def)

lemma readable_env: "readable (dec e) d \<Longrightarrow> readable (dec e') d"
proof -
  have "collect (dec e) acc raw = Inr data \<Longrightarrow> collect (dec e') acc raw = Inr data" for acc raw data
  proof (induction "dec e" acc raw rule: collect.induct)
    case (2 records k v rest)
    then obtain r where "dec e (strip k) v = Inr r"
      by (auto simp: Let_def split: if_splits sum.splits dec_exn.splits)
    moreover from this obtain r' where "dec e' (strip k) v = Inr r'"
      using dec_valid_env by blast
    ultimately show ?case
      using 2 by (auto simp: Let_def split: if_splits)
  qed simp
  then show "readable (dec e) d \<Longrightarrow> readable (dec e') d"
    by (auto simp: readable_def read_all_def split: sum.splits)
qed

end

text \<open>
  A store adds its pruning rule: the records it drops or rewrites are those that no longer
  count, so pruning never changes what the file means.
\<close>

locale record_store = record_codec +
  fixes prune :: "'env \<Rightarrow> jdict \<Rightarrow> bool \<times> jdict"
  assumes prune_ok: "records_ok (dec e) data \<Longrightarrow> records_ok (dec e) (snd (prune e data))"
    and prune_view: "records_ok (dec e) data \<Longrightarrow>
      record_view (dec e) (live e) (snd (prune e data)) = record_view (dec e) (live e) data"
begin

lemma locked_data_ok:
  assumes "locked_data (dec e) (prune e) d = (d', Inr data)"
  shows "records_ok (dec e) data \<and> record_view (dec e) (live e) data = ledger (dec e) (live e) d \<and>
    readable (dec e) d \<and> readable (dec e) d' \<and> ledger (dec e) (live e) d' = ledger (dec e) (live e) d"
proof -
  obtain data0 where r: "read_all (dec e) (content d) = Inr data0"
    using assms by (auto simp: locked_data_def split: sum.splits)
  have ok: "records_ok (dec e) data0" by (rule read_all_ok [OF r])
  have led: "ledger (dec e) (live e) d = record_view (dec e) (live e) data0"
    by (simp add: ledger_def r)
  obtain ch data1 where p: "prune e data0 = (ch, data1)" by fastforce
  have ok1: "records_ok (dec e) data1" and v1: "record_view (dec e) (live e) data1 = ledger (dec e) (live e) d"
    using prune_ok [OF ok] prune_view [OF ok] p led by auto
  show ?thesis
  proof (cases ch)
    case True
    then have "write_all d data1 = (d', Inr ())" and data: "data = data1"
      using assms r p by (auto simp: locked_data_def bindc_eq_Inr)
    then have "content d' = Text (envelope data1 1)"
      using write_all_cases by fastforce
    with stored_view [OF ok1, of d' e] ok1 v1 data r show ?thesis by (auto simp: readable_def)
  next
    case False
    with assms r p ok1 v1 show ?thesis by (auto simp: locked_data_def readable_def)
  qed
qed

lemma locked_data_atomic:
  assumes "locked_data (dec e) (prune e) d = (d', r)" and "readable (dec e) d"
  shows "readable (dec e) d' \<and> ledger (dec e) (live e) d' = ledger (dec e) (live e) d"
proof (cases r)
  case (Inr data)
  with assms locked_data_ok show ?thesis by blast
next
  case (Inl x)
  obtain data0 where rd: "read_all (dec e) (content d) = Inr data0"
    using assms(2) by (auto simp: readable_def)
  have ok: "records_ok (dec e) data0" by (rule read_all_ok [OF rd])
  obtain ch data1 where p: "prune e data0 = (ch, data1)" by fastforce
  have w: "write_all d data1 = (d', Inl x)"
    using assms(1) rd p Inl by (auto simp: locked_data_def bindc_eq_Inl split: if_splits)
  have ok1: "records_ok (dec e) data1"
    and v1: "record_view (dec e) (live e) data1 = record_view (dec e) (live e) data0"
    using prune_ok [OF ok] prune_view [OF ok] p by auto
  from write_all_cases [OF w] have "content d' = content d \<or> content d' = Text (envelope data1 1)" by blast
  then show ?thesis
  proof
    assume "content d' = content d"
    then show ?thesis using assms(2) by (simp add: readable_def ledger_def)
  next
    assume "content d' = Text (envelope data1 1)"
    then show ?thesis using stored_view [OF ok1, of d' e] v1 rd by (simp add: ledger_def)
  qed
qed

lemma locked_data_unreadable:
  "\<not> readable (dec e) d \<Longrightarrow> \<exists>x. locked_data (dec e) (prune e) d = (d, Inl x)"
  by (auto simp: readable_def locked_data_def split: sum.splits)

lemma locked_data_runs:
  assumes "readable (dec e) d" and "faults d = []"
  shows "\<exists>d' data. locked_data (dec e) (prune e) d = (d', Inr data) \<and> faults d' = []"
  using assms by (auto simp: readable_def locked_data_def write_all_no_faults split: prod.splits)

lemma committed:
  assumes "write_all d data = (d', Inr ())" and "records_ok (dec e) data"
  shows "readable (dec e) d' \<and> ledger (dec e) (live e) d' = record_view (dec e) (live e) data"
  using write_all_cases [OF assms(1)] stored_view [OF assms(2)] by blast

lemma write_all_atomic:
  assumes "write_all d data = (d', r)" and "records_ok (dec e) data" and "readable (dec e) d"
  shows "readable (dec e) d' \<and>
    (ledger (dec e) (live e) d' = ledger (dec e) (live e) d \<or>
     ledger (dec e) (live e) d' = record_view (dec e) (live e) data)"
  using write_all_cases [OF assms(1)] stored_view [OF assms(2), of d' e] assms(3)
  by (auto simp: readable_def ledger_def)

lemma ledger_wf: "ledger (dec e) (live e) d k = Some x \<Longrightarrow> wf x \<and> key x = k"
  by (auto simp: ledger_def split: sum.splits dest: read_all_ok view_wf)

lemma locked_outcome:
  assumes run: "bindc (locked_data (dec e) (prune e) d) k = (d', r)"
    and rd: "readable (dec e) d"
    and step: "\<And>d1 data. locked_data (dec e) (prune e) d = (d1, Inr data) \<Longrightarrow> records_ok (dec e) data \<Longrightarrow>
      record_view (dec e) (live e) data = ledger (dec e) (live e) d \<Longrightarrow> readable (dec e) d1 \<Longrightarrow>
      ledger (dec e) (live e) d1 = ledger (dec e) (live e) d \<Longrightarrow> k d1 data = (d', r) \<Longrightarrow>
      commits_or_keeps (ledger (dec e) (live e) d) S (ledger (dec e) (live e) d') r \<and> readable (dec e) d'"
  shows "commits_or_keeps (ledger (dec e) (live e) d) S (ledger (dec e) (live e) d') r \<and> readable (dec e) d'"
proof -
  obtain d1 q where q: "locked_data (dec e) (prune e) d = (d1, q)" by fastforce
  show ?thesis
  proof (cases q)
    case (Inl x)
    with run q have "d' = d1" "r = Inl x" by auto
    with locked_data_atomic [OF q rd] show ?thesis by (simp add: commits_or_keeps_def)
  next
    case (Inr data)
    with q have l: "locked_data (dec e) (prune e) d = (d1, Inr data)" by simp
    from run l have "k d1 data = (d', r)" by simp
    with locked_data_ok [OF l] l show ?thesis by (intro step) auto
  qed
qed

lemma keep_outcome:
  "readable (dec e) d1 \<Longrightarrow> ledger (dec e) (live e) d1 = L \<Longrightarrow>
    commits_or_keeps L (L, y) (ledger (dec e) (live e) d1) (Inr y) \<and> readable (dec e) d1"
  by (simp add: commits_or_keeps_def)

lemma put_outcome:
  assumes ok: "records_ok (dec e) data" and v: "record_view (dec e) (live e) data = L"
    and d1: "readable (dec e) d1" "ledger (dec e) (live e) d1 = L"
    and x: "wf x" "live e x" "key x = t"
    and run: "bindc (write_all d1 (AList.update t (enc x) data)) (\<lambda>d _. (d, Inr y)) = (d', r)"
  shows "commits_or_keeps L (L(t \<mapsto> x), y) (ledger (dec e) (live e) d') r \<and> readable (dec e) d'"
proof -
  obtain q where q: "write_all d1 (AList.update t (enc x) data) = (d', q)"
    using run by (auto simp: bindc_def split: prod.splits sum.splits)
  have ok': "records_ok (dec e) (AList.update t (enc x) data)"
    using ok record_ok_enc [OF x(1,2)] x(3) by simp
  have v': "record_view (dec e) (live e) (AList.update t (enc x) data) = L(t \<mapsto> x)"
    using view_enc [OF x(1,2), of data] x(3) v by simp
  show ?thesis
  proof (cases q)
    case (Inl ex)
    then have "r = Inl ex" using run q by simp
    then show ?thesis
      using write_all_atomic [OF q ok' d1(1)] v' d1(2) by (auto simp: commits_or_keeps_def)
  next
    case (Inr u)
    then have "r = Inr y" using run q by simp
    then show ?thesis
      using committed [of d1 _ d' e] q Inr ok' v' by (simp add: commits_or_keeps_def)
  qed
qed

lemma del_outcome:
  assumes ok: "records_ok (dec e) data" and v: "record_view (dec e) (live e) data = L"
    and d1: "readable (dec e) d1" "ledger (dec e) (live e) d1 = L"
    and run: "bindc (write_all d1 (AList.delete t data)) (\<lambda>d _. (d, Inr y)) = (d', r)"
  shows "commits_or_keeps L (L(t := None), y) (ledger (dec e) (live e) d') r \<and> readable (dec e) d'"
proof -
  obtain q where q: "write_all d1 (AList.delete t data) = (d', q)"
    using run by (auto simp: bindc_def split: prod.splits sum.splits)
  have ok': "records_ok (dec e) (AList.delete t data)" using ok by simp
  have v': "record_view (dec e) (live e) (AList.delete t data) = L(t := None)" using v by simp
  show ?thesis
  proof (cases q)
    case (Inl ex)
    then have "r = Inl ex" using run q by simp
    then show ?thesis
      using write_all_atomic [OF q ok' d1(1)] v' d1(2) by (auto simp: commits_or_keeps_def)
  next
    case (Inr u)
    then have "r = Inr y" using run q by simp
    then show ?thesis
      using committed [of d1 _ d' e] q Inr ok' v' by (simp add: commits_or_keeps_def)
  qed
qed

end

text \<open>An empty store on a disk that takes every write, for the witnesses.\<close>

definition demo_disk :: disk where
  "demo_disk = \<lparr>content = Absent, faults = []\<rparr>"

end
