(* ===== verification/Process_Utils.thy ===== *)
theory Process_Utils
  imports Focus_Prelude
begin

text \<open>
  Process existence and incarnation (\<open>bot/process_utils.py\<close>) on a Linux host. What the
  kernel answers is the environment: the texts under \<open>/proc\<close> (\<open>None\<close> where the read raises
  \<open>OSError\<close>) and the outcome of \<open>os.kill(pid, 0)\<close>. The code that interprets the answers is
  modelled in full. The environment is read once per store operation.
\<close>

datatype kill_outcome = Signalled | NoSuchProcess | NotPermitted

record proc_env =
  boot_id_text :: "string option"
  stat_text :: "int \<Rightarrow> string option"
  status_lines :: "int \<Rightarrow> string list option"
  kill_zero :: "int \<Rightarrow> kill_outcome"
  self_pid :: int

text \<open>\<open>s.split()\<close>: the maximal runs of non-space characters.\<close>

function py_split :: "string \<Rightarrow> string list" where
  "py_split [] = []"
| "py_split (c # cs) =
     (if py_space c then py_split cs
      else (c # takeWhile (\<lambda>d. \<not> py_space d) cs) # py_split (dropWhile (\<lambda>d. \<not> py_space d) cs))"
  by pat_completeness auto
termination
  by (relation "measure length") (auto simp: le_imp_less_Suc length_dropWhile_le)

definition py_digit :: "char \<Rightarrow> bool" where
  "py_digit c = (let n = (of_char c :: nat)
     in (48 \<le> n \<and> n \<le> 57) \<or> n = 178 \<or> n = 179 \<or> n = 185)"

text \<open>The part after the last closing parenthesis; \<open>None\<close> when there is none.\<close>

definition after_last_paren :: "string \<Rightarrow> string option" where
  "after_last_paren s =
     (if CHR '')'' \<in> set s then Some (rev (takeWhile (\<lambda>c. c \<noteq> CHR '')'') (rev s))) else None)"

definition linux_process_identity :: "proc_env \<Rightarrow> int \<Rightarrow> string" where
  "linux_process_identity e pid =
     (case boot_id_text e of None \<Rightarrow> []
      | Some b \<Rightarrow>
          (case stat_text e pid of None \<Rightarrow> []
           | Some stat \<Rightarrow>
               (let boot_id = strip b
                in case after_last_paren stat of None \<Rightarrow> []
                   | Some suffix \<Rightarrow>
                       (if boot_id = [] then []
                        else let fields = py_split (strip suffix)
                             in if length fields \<le> 19 then []
                                else let start_ticks = strip (fields ! 19)
                                     in if start_ticks = [] \<or> \<not> list_all py_digit start_ticks then []
                                        else ''linux:'' @ boot_id @ '':'' @ start_ticks))))"

definition process_identity :: "proc_env \<Rightarrow> int \<Rightarrow> string" where
  "process_identity e pid = (if pid \<le> 0 then [] else linux_process_identity e pid)"

fun upper_char :: "char \<Rightarrow> char" where
  "upper_char c = (let n = (of_char c :: nat) in if 97 \<le> n \<and> n \<le> 122 then char_of (n - 32) else c)"

fun linux_process_state :: "string list \<Rightarrow> string" where
  "linux_process_state [] = []"
| "linux_process_state (line # rest) =
     (if take 6 line = ''State:''
      then (case py_split line of _ # state # _ \<Rightarrow> map upper_char (strip state) | _ \<Rightarrow> [])
      else linux_process_state rest)"

definition process_exists :: "proc_env \<Rightarrow> int \<Rightarrow> bool" where
  "process_exists e pid =
     (if pid \<le> 0 then False
      else case kill_zero e pid of
             NoSuchProcess \<Rightarrow> False
           | NotPermitted \<Rightarrow> True
           | Signalled \<Rightarrow>
               (case status_lines e pid of None \<Rightarrow> True
                | Some ls \<Rightarrow> linux_process_state ls \<noteq> ''Z''))"

text \<open>An identity carries no surrounding white space, so stores keep it unchanged.\<close>

lemma py_digit_not_space: "py_digit c \<Longrightarrow> \<not> py_space c"
  by (auto simp: py_digit_def py_space_def Let_def)

lemma strip_process_identity [simp, text_simps]: "strip (process_identity e pid) = process_identity e pid"
proof (cases "process_identity e pid = []")
  case False
  then obtain boot ticks where id: "process_identity e pid = ''linux:'' @ boot @ '':'' @ ticks"
    and t: "ticks \<noteq> []" "list_all py_digit ticks"
    unfolding process_identity_def linux_process_identity_def
    by (auto simp: Let_def split: if_splits option.splits)
  have "py_digit (last ticks)" using t by (simp add: list_all_iff)
  then show ?thesis
    using t id by (simp add: strip_fix py_digit_not_space) (simp add: py_space_def)
qed simp

lemma process_identity_nonpos [simp]: "pid \<le> 0 \<Longrightarrow> process_identity e pid = []"
  by (simp add: process_identity_def)

lemma process_exists_nonpos [simp]: "pid \<le> 0 \<Longrightarrow> \<not> process_exists e pid"
  by (simp add: process_exists_def)

text \<open>A concrete host, on which processes 7 and 8 run, for the witnesses.\<close>

definition demo_procs :: proc_env where
  "demo_procs = \<lparr>boot_id_text = Some ''b1'', stat_text = (\<lambda>_. Some ''1 (focus) S 0 1 2 3 4 5 6 7 8 9 0 1 2 3 4 5 6 7 42''),
     status_lines = (\<lambda>_. None), kill_zero = (\<lambda>pid. if pid = 7 \<or> pid = 8 then Signalled else NoSuchProcess), self_pid = 7\<rparr>"

lemma demo_identity: "process_identity demo_procs 7 = ''linux:b1:42''"
  by code_simp

lemma demo_strip: "strip ''t1'' = ''t1''" "strip ''u1'' = ''u1''" "lower ''i1'' = ''i1''" "strip ''i1'' = ''i1''"
  by code_simp+

end
