(* ===== verification/Py_Uuid.thy ===== *)
theory Py_Uuid
  imports Focus_Prelude
begin

text \<open>
  \<open>str(uuid.UUID(s))\<close>, the normal form in which a lease generation id is read: the
  \<open>urn:\<close> and \<open>uuid:\<close> markers and the hyphens are dropped, surrounding braces are
  stripped, the remaining 32 characters are read by \<open>int(_, 16)\<close> and printed back in the
  8-4-4-4-12 form. The result is \<open>None\<close> where the constructor raises \<open>ValueError\<close>.
\<close>

fun is_prefix :: "string \<Rightarrow> string \<Rightarrow> bool" where
  "is_prefix [] s = True"
| "is_prefix (c # cs) [] = False"
| "is_prefix (c # cs) (d # ds) = (c = d \<and> is_prefix cs ds)"

text \<open>\<open>s.replace(pat, "")\<close> for a non-empty \<open>pat\<close>.\<close>

function remove_all :: "string \<Rightarrow> string \<Rightarrow> string" where
  "remove_all pat [] = []"
| "remove_all pat (c # cs) =
     (if pat \<noteq> [] \<and> is_prefix pat (c # cs) then remove_all pat (drop (length pat) (c # cs))
      else c # remove_all pat cs)"
  by pat_completeness auto
termination
  by (relation "measure (\<lambda>(pat, s). length s)") auto

definition hex_digit :: "char \<Rightarrow> nat option" where
  "hex_digit c = (let n = (of_char c :: nat)
     in if 48 \<le> n \<and> n \<le> 57 then Some (n - 48)
        else if 97 \<le> n \<and> n \<le> 102 then Some (n - 87)
        else if 65 \<le> n \<and> n \<le> 70 then Some (n - 55) else None)"

text \<open>Digits with single underscores between them, as \<open>int\<close> accepts them.\<close>

fun hex_digits :: "nat \<Rightarrow> string \<Rightarrow> nat option" where
  "hex_digits acc [] = Some acc"
| "hex_digits acc (c # cs) =
     (case hex_digit c of
        Some d \<Rightarrow> hex_digits (16 * acc + d) cs
      | None \<Rightarrow>
          (if c = CHR ''_'' then
             (case cs of [] \<Rightarrow> None
              | d # ds \<Rightarrow> (case hex_digit d of None \<Rightarrow> None
                          | Some v \<Rightarrow> hex_digits (16 * acc + v) ds))
           else None))"

definition hex_body :: "string \<Rightarrow> nat option" where
  "hex_body s = (case s of [] \<Rightarrow> None
     | c # cs \<Rightarrow> (case hex_digit c of None \<Rightarrow> None | Some d \<Rightarrow> hex_digits d cs))"

definition drop_radix :: "string \<Rightarrow> string" where
  "drop_radix s =
     (if is_prefix ''0x'' s \<or> is_prefix ''0X'' s
      then (case drop 2 s of [] \<Rightarrow> [] | c # cs \<Rightarrow> if c = CHR ''_'' then cs else c # cs)
      else s)"

definition int_base16 :: "string \<Rightarrow> int option" where
  "int_base16 s =
     (let t = strip s
      in if is_prefix ''-'' t then map_option (\<lambda>n. - int n) (hex_body (drop_radix (tl t)))
         else if is_prefix ''+'' t then map_option int (hex_body (drop_radix (tl t)))
         else map_option int (hex_body (drop_radix t)))"

definition hex_char :: "nat \<Rightarrow> char" where
  "hex_char d = (if d < 10 then char_of (48 + d) else char_of (87 + d))"

fun to_hex :: "nat \<Rightarrow> nat \<Rightarrow> string" where
  "to_hex 0 n = []"
| "to_hex (Suc w) n = to_hex w (n div 16) @ [hex_char (n mod 16)]"

definition hyphenate :: "string \<Rightarrow> string" where
  "hyphenate h = take 8 h @ ''-'' @ take 4 (drop 8 h) @ ''-'' @ take 4 (drop 12 h) @ ''-''
     @ take 4 (drop 16 h) @ ''-'' @ drop 20 h"

definition canon_uuid :: "string \<Rightarrow> string option" where
  "canon_uuid s =
     (let h = remove_all ''uuid:'' (remove_all ''urn:'' s);
          h = remove_all ''-'' (strip_by (\<lambda>c. c = CHR ''{'' \<or> c = CHR ''}'') h)
      in if length h \<noteq> 32 then None
         else (case int_base16 h of
                 None \<Rightarrow> None
               | Some n \<Rightarrow> if 0 \<le> n \<and> n < 2 ^ 128
                           then Some (hyphenate (to_hex 32 (nat n))) else None))"

section \<open>The normal form is a fixed point\<close>

lemma remove_all_absent: "p \<notin> set s \<Longrightarrow> remove_all (p # ps) s = s"
  by (induction s) auto

lemma remove_all_char: "remove_all [c] s = filter (\<lambda>d. d \<noteq> c) s"
  by (induction s) auto

lemma hex_digit_hex_char [simp]: "d < 16 \<Longrightarrow> hex_digit (hex_char d) = Some d"
  by (auto simp: hex_digit_def hex_char_def Let_def)

lemma of_char_hex_char:
  "d < 16 \<Longrightarrow> (of_char (hex_char d) :: nat) = (if d < 10 then 48 + d else 87 + d)"
  by (auto simp: hex_char_def)

lemma length_to_hex [simp]: "length (to_hex w n) = w"
  by (induction w arbitrary: n) auto

lemma set_to_hex: "c \<in> set (to_hex w n) \<Longrightarrow> \<exists>d < 16. c = hex_char d"
proof (induction w arbitrary: n)
  case (Suc w)
  have "n mod 16 < 16" by simp
  with Suc show ?case by fastforce
qed simp

definition hex_text :: "string \<Rightarrow> bool" where
  "hex_text s = (\<forall>c \<in> set s. \<exists>d < 16. c = hex_char d)"

lemma hex_text_to_hex: "hex_text (to_hex w n)"
  unfolding hex_text_def using set_to_hex by blast

lemma hex_text_range:
  assumes "hex_text s" "c \<in> set s"
  shows "(48 \<le> (of_char c :: nat) \<and> of_char c \<le> (57 :: nat)) \<or> (97 \<le> (of_char c :: nat) \<and> of_char c \<le> (102 :: nat))"
proof -
  obtain d where "d < 16" "c = hex_char d" using assms unfolding hex_text_def by blast
  then show ?thesis by (auto simp: of_char_hex_char)
qed

lemma hex_text_absent:
  assumes "hex_text s"
    and "\<not> (48 \<le> (of_char c :: nat) \<and> of_char c \<le> (57 :: nat))"
    and "\<not> (97 \<le> (of_char c :: nat) \<and> of_char c \<le> (102 :: nat))"
  shows "c \<notin> set s"
  using hex_text_range [OF assms(1), of c] assms(2,3) by blast

lemma hex_digits_hex_text:
  "hex_text s \<Longrightarrow> hex_digits acc (s @ t) = hex_digits (foldl (\<lambda>a c. 16 * a + the (hex_digit c)) acc s) t"
proof (induction s arbitrary: acc)
  case (Cons c s)
  then obtain d where "d < 16" "c = hex_char d" "hex_text s"
    by (auto simp: hex_text_def)
  with Cons.IH show ?case by simp
qed simp

lemma hex_digits_to_hex: "hex_digits acc (to_hex w n) = Some (acc * 16 ^ w + n mod 16 ^ w)"
proof (induction w arbitrary: n)
  case (Suc w)
  have "hex_digits acc (to_hex w (n div 16)) = Some (foldl (\<lambda>a c. 16 * a + the (hex_digit c)) acc (to_hex w (n div 16)))"
    using hex_digits_hex_text [OF hex_text_to_hex, of acc w "n div 16" "[]"] by simp
  with Suc.IH have f: "foldl (\<lambda>a c. 16 * a + the (hex_digit c)) acc (to_hex w (n div 16)) = acc * 16 ^ w + n div 16 mod 16 ^ w"
    by simp
  have "n mod 16 ^ Suc w = 16 * (n div 16 mod 16 ^ w) + n mod 16"
    by (simp add: mod_mult2_eq)
  then show ?case
    by (simp add: hex_digits_hex_text [OF hex_text_to_hex] f add_mult_distrib2)
qed simp

lemma hex_body_hex_text:
  "hex_text s \<Longrightarrow> s \<noteq> [] \<Longrightarrow> hex_body s = hex_digits 0 s"
proof (cases s)
  case (Cons c cs)
  moreover assume "hex_text s"
  ultimately obtain d where "d < 16" "c = hex_char d" by (auto simp: hex_text_def)
  with Cons show ?thesis by (simp add: hex_body_def)
qed simp

lemma is_prefix_mem: "is_prefix p s \<Longrightarrow> set p \<subseteq> set s"
  by (induction p s rule: is_prefix.induct) auto

lemma strip_hex_text: "hex_text s \<Longrightarrow> strip s = s"
proof -
  assume h: "hex_text s"
  have "\<not> py_space c" if "c \<in> set s" for c
    using hex_text_range [OF h that] by (auto simp: py_space_def Let_def)
  then show ?thesis by (auto simp: strip_fix)
qed

lemma int_base16_to_hex:
  assumes "n < 16 ^ w" and "0 < w"
  shows "int_base16 (to_hex w n) = Some (int n)"
proof -
  let ?h = "to_hex w n"
  have h: "hex_text ?h" by (rule hex_text_to_hex)
  have "CHR ''-'' \<notin> set ?h" "CHR ''+'' \<notin> set ?h" "CHR ''x'' \<notin> set ?h" "CHR ''X'' \<notin> set ?h"
    by (rule hex_text_absent [OF h]; simp)+
  then have "\<not> is_prefix ''-'' ?h" "\<not> is_prefix ''+'' ?h"
    "\<not> is_prefix ''0x'' ?h" "\<not> is_prefix ''0X'' ?h"
    by (auto dest: is_prefix_mem)
  moreover have "hex_body ?h = Some n"
    using assms by (simp add: hex_body_hex_text [OF h] hex_digits_to_hex flip: length_0_conv)
  ultimately show ?thesis
    by (simp add: int_base16_def drop_radix_def strip_hex_text [OF h] Let_def)
qed

lemma set_hyphenate: "set (hyphenate h) \<subseteq> insert (CHR ''-'') (set h)"
  unfolding hyphenate_def by (auto dest: in_set_takeD in_set_dropD)

lemma split_at: "take a (drop k h) @ drop (k + a) h = drop k h"
  by (metis append_take_drop_id drop_drop add.commute)

lemma filter_hyphenate:
  assumes "CHR ''-'' \<notin> set h"
  shows "filter (\<lambda>d. d \<noteq> CHR ''-'') (hyphenate h) = h"
proof -
  have id: "filter (\<lambda>d. d \<noteq> CHR ''-'') s = s" if "set s \<subseteq> set h" for s
    using that assms by (auto simp: filter_id_conv)
  have "take 8 h @ take 4 (drop 8 h) @ take 4 (drop 12 h) @ take 4 (drop 16 h) @ drop 20 h = h"
    using split_at [of 4 16 h] split_at [of 4 12 h] split_at [of 4 8 h] by simp
  moreover have "set (take 8 h) \<subseteq> set h" "set (take 4 (drop 8 h)) \<subseteq> set h"
    "set (take 4 (drop 12 h)) \<subseteq> set h" "set (take 4 (drop 16 h)) \<subseteq> set h" "set (drop 20 h) \<subseteq> set h"
    by (auto dest: in_set_takeD in_set_dropD)
  ultimately show ?thesis
    by (simp add: hyphenate_def id)
qed

lemma canon_uuid_hyphenate:
  assumes "n < 2 ^ 128"
  shows "canon_uuid (hyphenate (to_hex 32 n)) = Some (hyphenate (to_hex 32 n))"
proof -
  let ?h = "to_hex 32 n" let ?u = "hyphenate ?h"
  have h: "hex_text ?h" by (rule hex_text_to_hex)
  have absent: "c \<notin> set ?u" if "c \<noteq> CHR ''-''" "c \<notin> set ?h" for c
    using that set_hyphenate by blast
  have "CHR ''u'' \<notin> set ?u" "CHR ''{'' \<notin> set ?u" "CHR ''}'' \<notin> set ?u"
    by (rule absent, simp, rule hex_text_absent [OF h]; simp)+
  then have 1: "remove_all ''uuid:'' (remove_all ''urn:'' ?u) = ?u"
    and 2: "strip_by (\<lambda>c. c = CHR ''{'' \<or> c = CHR ''}'') ?u = ?u"
    by (auto simp: remove_all_absent strip_by_fix hd_in_set) (metis hd_in_set last_in_set)+
  have "CHR ''-'' \<notin> set ?h" by (rule hex_text_absent [OF h]; simp)
  then have 3: "remove_all ''-'' ?u = ?h"
    by (simp add: remove_all_char filter_hyphenate)
  have "int_base16 ?h = Some (int n)"
    by (rule int_base16_to_hex) (use assms in simp_all)
  then show ?thesis
    using assms by (simp only: canon_uuid_def Let_def 1 2 3) simp
qed

theorem canon_uuid_idem: "canon_uuid s = Some u \<Longrightarrow> canon_uuid u = Some u"
  by (auto simp: canon_uuid_def [of s] Let_def canon_uuid_hyphenate nat_less_iff
      split: if_splits option.splits)

lemma canon_uuid_nonempty: "canon_uuid s = Some u \<Longrightarrow> u \<noteq> []"
  by (auto simp: canon_uuid_def hyphenate_def Let_def split: if_splits option.splits)

lemma canon_uuid_strip:
  assumes "canon_uuid s = Some u"
  shows "strip u = u"
proof -
  obtain n where u: "u = hyphenate (to_hex 32 n)"
    using assms by (auto simp: canon_uuid_def Let_def split: if_splits option.splits)
  have h: "hex_text (to_hex 32 n)" by (rule hex_text_to_hex)
  have "\<not> py_space c" if "c \<in> set u" for c
  proof (cases "c = CHR ''-''")
    case False
    then have "c \<in> set (to_hex 32 n)" using that u set_hyphenate by blast
    from hex_text_range [OF h this] show ?thesis by (auto simp: py_space_def Let_def)
  qed (simp add: py_space_def)
  then show ?thesis by (auto simp: strip_fix)
qed

end
