(* ===== verification/Interaction_Lease.thy ===== *)
theory Interaction_Lease
  imports Versioned_Records Process_Utils Py_Uuid
begin

text \<open>
  The cross-frontend main-turn lease (\<open>bot/stores/interaction_lease_store.py\<close>): which
  frontend holds the interactive control lease of a live thread turn.

  Each public operation of \<open>InteractionLeaseStore\<close> is a function of the environment, its
  arguments and the disk. A fresh generation id (\<open>uuid4\<close>) is an argument, given by its
  128-bit value; the value of the \<open>uuid5\<close> digest of a record without a generation id is
  the field \<open>legacy_uuid5\<close> of the environment, since it is a hash.
\<close>

section \<open>Data\<close>

record interaction_lease_holder =
  ih_kind :: string
  ih_holder_id :: string
  ih_owner_pid :: int
  ih_sender_id :: string
  ih_chat_id :: string
  ih_participant_id :: string
  ih_connection_id :: string
  ih_owner_process_identity :: string

record interaction_lease =
  il_thread_id :: string
  il_holder :: interaction_lease_holder
  il_lease_id :: string
  il_updated_at :: rat
  il_turn_id :: string

record acquire_result =
  ar_granted :: bool
  ar_lease :: "interaction_lease option"
  ar_acquired :: bool

record backend_stop_capture =
  bc_owner_pid :: int
  bc_owner_process_identity :: string
  bc_leases :: "interaction_lease list"

record backend_stop_receipt =
  br_retired_thread_ids :: "string list"
  br_preserved_thread_ids :: "string list"

record lease_env =
  procs :: proc_env
  legacy_uuid5 :: "string \<Rightarrow> interaction_lease_holder \<Rightarrow> rat \<Rightarrow> nat"

definition same_holder :: "interaction_lease_holder \<Rightarrow> interaction_lease_holder \<Rightarrow> bool" where
  "same_holder h other = (ih_kind h = ih_kind other \<and> ih_holder_id h = ih_holder_id other)"

text \<open>\<open>str(uuid.UUID(int=n))\<close>.\<close>

definition uuid_str :: "nat \<Rightarrow> string" where
  "uuid_str n = hyphenate (to_hex 32 (n mod 2 ^ 128))"

section \<open>Holder identities of the three frontends\<close>

definition make_feishu_interaction_holder :: "proc_env \<Rightarrow> string \<Rightarrow> string \<Rightarrow> int \<Rightarrow> interaction_lease_holder" where
  "make_feishu_interaction_holder e sender_id chat_id owner_pid =
     \<lparr>ih_kind = ''feishu'',
      ih_holder_id = strip sender_id @ '':'' @ strip chat_id,
      ih_owner_pid = owner_pid,
      ih_sender_id = strip sender_id,
      ih_chat_id = strip chat_id,
      ih_participant_id = [],
      ih_connection_id = [],
      ih_owner_process_identity = process_identity e owner_pid\<rparr>"

definition make_fcodex_interaction_holder ::
  "proc_env \<Rightarrow> string \<Rightarrow> string \<Rightarrow> int \<Rightarrow> store_exn + interaction_lease_holder" where
  "make_fcodex_interaction_holder e participant_id connection_id owner_pid =
     (let p = strip participant_id; c = strip connection_id
      in if p = [] then Inl ValueErr
         else Inr \<lparr>ih_kind = ''fcodex'',
                   ih_holder_id = (if c \<noteq> [] then show_nat (length p) @ '':'' @ p @ c else p),
                   ih_owner_pid = owner_pid,
                   ih_sender_id = [],
                   ih_chat_id = [],
                   ih_participant_id = p,
                   ih_connection_id = c,
                   ih_owner_process_identity = process_identity e owner_pid\<rparr>)"

definition make_web_interaction_holder ::
  "proc_env \<Rightarrow> string \<Rightarrow> int \<Rightarrow> store_exn + interaction_lease_holder" where
  "make_web_interaction_holder e client_id owner_pid =
     (let c = strip client_id
      in if c = [] then Inl ValueErr
         else Inr \<lparr>ih_kind = ''web'',
                   ih_holder_id = ''web:'' @ c,
                   ih_owner_pid = owner_pid,
                   ih_sender_id = [],
                   ih_chat_id = [],
                   ih_participant_id = [],
                   ih_connection_id = [],
                   ih_owner_process_identity = process_identity e owner_pid\<rparr>)"

definition feishu_binding_from_holder :: "interaction_lease_holder \<Rightarrow> (string \<times> string) option" where
  "feishu_binding_from_holder h =
     (if ih_kind h \<noteq> ''feishu'' then None
      else let s = strip (ih_sender_id h); c = strip (ih_chat_id h)
           in if s = [] \<or> c = [] then None else Some (s, c))"

definition normalize_holder :: "proc_env \<Rightarrow> interaction_lease_holder \<Rightarrow> store_exn + interaction_lease_holder" where
  "normalize_holder e h =
     (let kind = strip (ih_kind h); holder_id = strip (ih_holder_id h); pid = ih_owner_pid h
      in if kind = [] \<or> holder_id = [] \<or> pid < 0 then Inl ValueErr
         else let ident = strip (ih_owner_process_identity h)
              in Inr \<lparr>ih_kind = kind,
                      ih_holder_id = holder_id,
                      ih_owner_pid = pid,
                      ih_sender_id = strip (ih_sender_id h),
                      ih_chat_id = strip (ih_chat_id h),
                      ih_participant_id = strip (ih_participant_id h),
                      ih_connection_id = strip (ih_connection_id h),
                      ih_owner_process_identity =
                        (if 0 < pid \<and> ident = [] then process_identity e pid else ident)\<rparr>)"

section \<open>One record\<close>

definition serialize_holder :: "interaction_lease_holder \<Rightarrow> json" where
  "serialize_holder h = JObj
     [(''kind'', JStr (ih_kind h)),
      (''holder_id'', JStr (ih_holder_id h)),
      (''owner_pid'', JInt (ih_owner_pid h)),
      (''sender_id'', JStr (ih_sender_id h)),
      (''chat_id'', JStr (ih_chat_id h)),
      (''participant_id'', JStr (ih_participant_id h)),
      (''connection_id'', JStr (ih_connection_id h)),
      (''owner_process_identity'', JStr (ih_owner_process_identity h))]"

definition serialize_lease :: "interaction_lease \<Rightarrow> json" where
  "serialize_lease l = JObj
     [(''thread_id'', JStr (il_thread_id l)),
      (''holder'', serialize_holder (il_holder l)),
      (''lease_id'', JStr (il_lease_id l)),
      (''updated_at'', JFloat (Fin (il_updated_at l))),
      (''turn_id'', JStr (il_turn_id l))]"

definition holder_from_data :: "jdict \<Rightarrow> int \<Rightarrow> interaction_lease_holder" where
  "holder_from_data raw pid =
     \<lparr>ih_kind = strip (the_str (map_of raw ''kind'')),
      ih_holder_id = strip (the_str (map_of raw ''holder_id'')),
      ih_owner_pid = pid,
      ih_sender_id = strip (the_str (map_of raw ''sender_id'')),
      ih_chat_id = strip (the_str (map_of raw ''chat_id'')),
      ih_participant_id = strip (the_str (map_of raw ''participant_id'')),
      ih_connection_id = strip (the_str (map_of raw ''connection_id'')),
      ih_owner_process_identity = strip (the_str (map_of raw ''owner_process_identity''))\<rparr>"

text \<open>The generation id of a record: the stored one in normal form, or the digest.\<close>

definition lease_id_from_data ::
  "lease_env \<Rightarrow> string \<Rightarrow> interaction_lease_holder \<Rightarrow> rat \<Rightarrow> json option \<Rightarrow> dec_exn + string" where
  "lease_id_from_data e t h ts raw =
     (case raw of
        None \<Rightarrow> Inr (uuid_str (legacy_uuid5 e t h ts))
      | Some JNull \<Rightarrow> Inr (uuid_str (legacy_uuid5 e t h ts))
      | Some (JStr s) \<Rightarrow>
          (if strip s = [] then Inl BadValue
           else case canon_uuid (strip s) of None \<Rightarrow> Inl BadValue | Some u \<Rightarrow> Inr u)
      | Some _ \<Rightarrow> Inl BadValue)"

definition lease_from_data :: "lease_env \<Rightarrow> string \<Rightarrow> json \<Rightarrow> dec_exn + interaction_lease option" where
  "lease_from_data e thread_id j =
     bindr (as_obj (Some j)) (\<lambda>raw.
     bindr (require BadValue
       (has_fields [''thread_id'', ''holder'', ''updated_at''] [''lease_id'', ''turn_id''] raw)) (\<lambda>_.
     bindr (as_str (map_of raw ''thread_id'')) (\<lambda>tid.
     bindr (require BadValue (strip tid \<noteq> [] \<and> strip tid = thread_id)) (\<lambda>_.
     bindr (as_obj (map_of raw ''holder'')) (\<lambda>holder_raw.
     bindr (require BadValue
       (has_fields [''kind'', ''holder_id'', ''owner_pid'', ''sender_id'', ''chat_id'']
          [''participant_id'', ''connection_id'', ''owner_process_identity''] holder_raw
        \<and> list_all (opt_str_field holder_raw)
            [''kind'', ''holder_id'', ''sender_id'', ''chat_id'', ''participant_id'',
             ''connection_id'', ''owner_process_identity'']
        \<and> strip (the_str (map_of holder_raw ''kind'')) \<noteq> []
        \<and> strip (the_str (map_of holder_raw ''holder_id'')) \<noteq> [])) (\<lambda>_.
     bindr (as_int (map_of holder_raw ''owner_pid'')) (\<lambda>pid.
     bindr (as_float (map_of raw ''updated_at'')) (\<lambda>updated_at.
     bindr (require BadValue (0 \<le> pid)) (\<lambda>_.
     bindr (finite_nonneg updated_at) (\<lambda>ts.
     bindr (lease_id_from_data e thread_id (holder_from_data holder_raw pid) ts
             (map_of raw ''lease_id'')) (\<lambda>lease_id.
     bindr (require BadValue (opt_str_field raw ''turn_id'')) (\<lambda>_.
       Inr (Some
         \<lparr>il_thread_id = strip thread_id,
          il_holder = holder_from_data holder_raw pid,
          il_lease_id = lease_id,
          il_updated_at = ts,
          il_turn_id = strip (the_str (map_of raw ''turn_id''))\<rparr>)))))))))))))"

section \<open>Staleness\<close>

definition holder_live :: "proc_env \<Rightarrow> interaction_lease_holder \<Rightarrow> bool" where
  "holder_live e h =
     (let pid = ih_owner_pid h; ident = ih_owner_process_identity h; current = process_identity e pid
      in \<not> (0 < pid \<and> \<not> process_exists e pid)
         \<and> \<not> (0 < pid \<and> ident \<noteq> [] \<and> current \<noteq> [] \<and> current \<noteq> ident))"

definition lease_live :: "lease_env \<Rightarrow> interaction_lease \<Rightarrow> bool" where
  "lease_live e l = holder_live (procs e) (il_holder l)"

definition record_stale :: "lease_env \<Rightarrow> string \<Rightarrow> json \<Rightarrow> bool" where
  "record_stale e k j =
     (case lease_from_data e k j of Inr (Some l) \<Rightarrow> \<not> lease_live e l | _ \<Rightarrow> True)"

definition prune_stale_leases :: "lease_env \<Rightarrow> jdict \<Rightarrow> bool \<times> jdict" where
  "prune_stale_leases e data =
     (\<exists>p \<in> set data. record_stale e (fst p) (snd p),
      filter (\<lambda>p. \<not> record_stale e (fst p) (snd p)) data)"

definition no_prune :: "lease_env \<Rightarrow> jdict \<Rightarrow> bool \<times> jdict" where
  "no_prune e data = (False, data)"

section \<open>The operations of the store\<close>

definition il_locked :: "lease_env \<Rightarrow> disk \<Rightarrow> disk \<times> (store_exn + jdict)" where
  "il_locked e d = locked_data (lease_from_data e) (prune_stale_leases e) d"

definition il_locked_raw :: "lease_env \<Rightarrow> disk \<Rightarrow> disk \<times> (store_exn + jdict)" where
  "il_locked_raw e d = locked_data (lease_from_data e) (no_prune e) d"

text \<open>\<open>self._lease_from_data(k, data.get(k))\<close> inside an operation.\<close>

definition decode_at :: "lease_env \<Rightarrow> string \<Rightarrow> json \<Rightarrow> store_exn + interaction_lease option" where
  "decode_at e k j =
     (case lease_from_data e k j of
        Inl BadValue \<Rightarrow> Inl ValueErr
      | Inl BadFloat \<Rightarrow> Inl OverflowErr
      | Inr l \<Rightarrow> Inr l)"

definition lease_at :: "lease_env \<Rightarrow> jdict \<Rightarrow> string \<Rightarrow> store_exn + interaction_lease option" where
  "lease_at e data k = (case map_of data k of None \<Rightarrow> Inr None | Some j \<Rightarrow> decode_at e k j)"

fun leases_of :: "lease_env \<Rightarrow> jdict \<Rightarrow> store_exn + interaction_lease list" where
  "leases_of e [] = Inr []"
| "leases_of e ((k, j) # rest) =
     (case decode_at e k j of
        Inl ex \<Rightarrow> Inl ex
      | Inr l \<Rightarrow> (case leases_of e rest of
                    Inl ex \<Rightarrow> Inl ex
                  | Inr ls \<Rightarrow> Inr ((case l of None \<Rightarrow> [] | Some x \<Rightarrow> [x]) @ ls)))"

definition il_load :: "lease_env \<Rightarrow> string \<Rightarrow> disk \<Rightarrow> disk \<times> (store_exn + interaction_lease option)" where
  "il_load e thread_id d =
     (let t = strip thread_id
      in if t = [] then (d, Inr None)
         else bindc (il_locked e d) (\<lambda>d data. (d, lease_at e data t)))"

definition il_list :: "lease_env \<Rightarrow> disk \<Rightarrow> disk \<times> (store_exn + interaction_lease list)" where
  "il_list e d =
     bindc (il_locked e d) (\<lambda>d data.
       (d, case leases_of e data of
             Inl ex \<Rightarrow> Inl ex | Inr ls \<Rightarrow> Inr (sort_key il_thread_id ls)))"

definition new_lease :: "string \<Rightarrow> interaction_lease_holder \<Rightarrow> nat \<Rightarrow> rat \<Rightarrow> interaction_lease" where
  "new_lease t h fresh now =
     \<lparr>il_thread_id = t, il_holder = h, il_lease_id = uuid_str fresh, il_updated_at = now, il_turn_id = []\<rparr>"

text \<open>The body of \<open>acquire\<close> under the file lock, then the whole operation.\<close>

definition il_acquire_locked ::
  "lease_env \<Rightarrow> string \<Rightarrow> interaction_lease_holder \<Rightarrow> nat \<Rightarrow> rat \<Rightarrow> disk \<Rightarrow> jdict
    \<Rightarrow> disk \<times> (store_exn + acquire_result)" where
  "il_acquire_locked e t h fresh now d data =
     (case lease_at e data t of
        Inl ex \<Rightarrow> (d, Inl ex)
      | Inr None \<Rightarrow>
          (let lease = new_lease t h fresh now
           in bindc (write_all d (AList.update t (serialize_lease lease) data))
                (\<lambda>d _. (d, Inr \<lparr>ar_granted = True, ar_lease = Some lease, ar_acquired = True\<rparr>)))
      | Inr (Some current) \<Rightarrow>
          (if same_holder (il_holder current) h
           then let refreshed = current\<lparr>il_holder := h\<rparr>;
                    result = \<lparr>ar_granted = True, ar_lease = Some refreshed, ar_acquired = False\<rparr>
                in if refreshed \<noteq> current
                   then bindc (write_all d (AList.update t (serialize_lease refreshed) data))
                          (\<lambda>d _. (d, Inr result))
                   else (d, Inr result)
           else (d, Inr \<lparr>ar_granted = False, ar_lease = Some current, ar_acquired = False\<rparr>)))"

definition il_acquire ::
  "lease_env \<Rightarrow> string \<Rightarrow> interaction_lease_holder \<Rightarrow> nat \<Rightarrow> rat \<Rightarrow> disk
    \<Rightarrow> disk \<times> (store_exn + acquire_result)" where
  "il_acquire e thread_id holder fresh now d =
     (let t = strip thread_id
      in if t = [] then (d, Inr \<lparr>ar_granted = False, ar_lease = None, ar_acquired = False\<rparr>)
         else case normalize_holder (procs e) holder of
           Inl ex \<Rightarrow> (d, Inl ex)
         | Inr h \<Rightarrow> bindc (il_locked e d) (il_acquire_locked e t h fresh now))"

definition il_force_acquire ::
  "lease_env \<Rightarrow> string \<Rightarrow> interaction_lease_holder \<Rightarrow> nat \<Rightarrow> rat \<Rightarrow> disk
    \<Rightarrow> disk \<times> (store_exn + interaction_lease)" where
  "il_force_acquire e thread_id holder fresh now d =
     (let t = strip thread_id
      in if t = [] then (d, Inl ValueErr)
         else case normalize_holder (procs e) holder of
           Inl ex \<Rightarrow> (d, Inl ex)
         | Inr h \<Rightarrow>
             (let lease = new_lease t h fresh now
              in bindc (il_locked e d) (\<lambda>d data.
                   bindc (write_all d (AList.update t (serialize_lease lease) data))
                     (\<lambda>d _. (d, Inr lease)))))"

definition drop_record :: "jdict \<Rightarrow> string \<Rightarrow> disk \<Rightarrow> disk \<times> (store_exn + bool)" where
  "drop_record data t d = bindc (write_all d (AList.delete t data)) (\<lambda>d _. (d, Inr True))"

text \<open>Under the lock: release the lease of \<open>t\<close> if it is the one the caller means.\<close>

definition drop_when ::
  "lease_env \<Rightarrow> string \<Rightarrow> (interaction_lease \<Rightarrow> bool) \<Rightarrow> disk \<Rightarrow> jdict \<Rightarrow> disk \<times> (store_exn + bool)" where
  "drop_when e t matches d data =
     (case lease_at e data t of
        Inl ex \<Rightarrow> (d, Inl ex)
      | Inr None \<Rightarrow> (d, Inr False)
      | Inr (Some current) \<Rightarrow> if matches current then drop_record data t d else (d, Inr False))"

definition il_release :: "lease_env \<Rightarrow> string \<Rightarrow> interaction_lease_holder \<Rightarrow> disk \<Rightarrow> disk \<times> (store_exn + bool)" where
  "il_release e thread_id holder d =
     (let t = strip thread_id
      in if t = [] then (d, Inr False)
         else bindc (il_locked e d) (drop_when e t (\<lambda>current. same_holder (il_holder current) holder)))"

definition release_expected ::
  "(disk \<Rightarrow> disk \<times> (store_exn + jdict)) \<Rightarrow> lease_env \<Rightarrow> interaction_lease \<Rightarrow> disk
    \<Rightarrow> disk \<times> (store_exn + bool)" where
  "release_expected locked e expected d =
     (let t = strip (il_thread_id expected)
      in if t = [] \<or> t \<noteq> il_thread_id expected then (d, Inr False)
         else bindc (locked d) (drop_when e t
           (\<lambda>current. \<not> (il_lease_id current \<noteq> il_lease_id expected \<or> current \<noteq> expected))))"

definition il_release_if_matches :: "lease_env \<Rightarrow> interaction_lease \<Rightarrow> disk \<Rightarrow> disk \<times> (store_exn + bool)" where
  "il_release_if_matches e expected d = release_expected (il_locked e) e expected d"

definition il_release_if_matches_raw :: "lease_env \<Rightarrow> interaction_lease \<Rightarrow> disk \<Rightarrow> disk \<times> (store_exn + bool)" where
  "il_release_if_matches_raw e expected d = release_expected (il_locked_raw e) e expected d"

definition il_activate_locked ::
  "lease_env \<Rightarrow> interaction_lease \<Rightarrow> string \<Rightarrow> string \<Rightarrow> disk \<Rightarrow> jdict
    \<Rightarrow> disk \<times> (store_exn + interaction_lease option)" where
  "il_activate_locked e expected t turn d data =
     (case lease_at e data t of
        Inl ex \<Rightarrow> (d, Inl ex)
      | Inr None \<Rightarrow> (d, Inr None)
      | Inr (Some current) \<Rightarrow>
          if il_lease_id current \<noteq> il_lease_id expected
             \<or> \<not> same_holder (il_holder current) (il_holder expected)
             \<or> (il_turn_id current \<noteq> [] \<and> il_turn_id current \<noteq> turn) then (d, Inr None)
          else if il_turn_id current = turn then (d, Inr (Some current))
          else let active = current\<lparr>il_turn_id := turn\<rparr>
               in bindc (write_all d (AList.update t (serialize_lease active) data))
                    (\<lambda>d _. (d, Inr (Some active))))"

definition il_activate_turn ::
  "lease_env \<Rightarrow> interaction_lease \<Rightarrow> string \<Rightarrow> disk \<Rightarrow> disk \<times> (store_exn + interaction_lease option)" where
  "il_activate_turn e expected turn_id d =
     (let t = strip (il_thread_id expected); turn = strip turn_id
      in if t = [] \<or> t \<noteq> il_thread_id expected \<or> turn = [] then (d, Inl ValueErr)
         else bindc (il_locked e d) (il_activate_locked e expected t turn))"

definition il_release_turn :: "lease_env \<Rightarrow> string \<Rightarrow> string \<Rightarrow> disk \<Rightarrow> disk \<times> (store_exn + bool)" where
  "il_release_turn e thread_id turn_id d =
     (let t = strip thread_id; turn = strip turn_id
      in if t = [] \<or> turn = [] then (d, Inr False)
         else bindc (il_locked e d) (drop_when e t (\<lambda>current. il_turn_id current = turn)))"

definition il_clear_thread :: "lease_env \<Rightarrow> string \<Rightarrow> disk \<Rightarrow> disk \<times> (store_exn + bool)" where
  "il_clear_thread e thread_id d =
     (let t = strip thread_id
      in if t = [] then (d, Inr False)
         else bindc (il_locked e d) (\<lambda>d data.
           if map_of data t = None then (d, Inr False) else drop_record data t d))"

section \<open>Backend stop: capture and retirement\<close>

definition current_process_incarnation :: "lease_env \<Rightarrow> store_exn + (int \<times> string)" where
  "current_process_incarnation e =
     (let pid = self_pid (procs e); ident = strip (process_identity (procs e) pid)
      in if pid \<le> 0 \<or> ident = [] then Inl (Unavailable ''current process incarnation is unavailable'')
         else Inr (pid, ident))"

definition il_capture_for_backend_stop :: "lease_env \<Rightarrow> disk \<Rightarrow> disk \<times> (store_exn + backend_stop_capture)" where
  "il_capture_for_backend_stop e d =
     (case current_process_incarnation e of
        Inl ex \<Rightarrow> (d, Inl ex)
      | Inr (pid, ident) \<Rightarrow>
          bindc (il_locked_raw e d) (\<lambda>d data.
            (d, case leases_of e data of
                  Inl ex \<Rightarrow> Inl ex
                | Inr ls \<Rightarrow>
                    (if \<exists>l \<in> set ls. ih_owner_pid (il_holder l) = pid
                                 \<and> ih_owner_process_identity (il_holder l) = []
                     then Inl (Unavailable ''current-PID lease has no process incarnation'')
                     else Inr \<lparr>bc_owner_pid = pid,
                               bc_owner_process_identity = ident,
                               bc_leases = sort_key il_thread_id
                                 (filter (\<lambda>l. ih_owner_pid (il_holder l) = pid
                                          \<and> ih_owner_process_identity (il_holder l) = ident) ls)\<rparr>))))"

definition valid_capture :: "lease_env \<Rightarrow> backend_stop_capture \<Rightarrow> store_exn + unit" where
  "valid_capture e c =
     (case current_process_incarnation e of
        Inl ex \<Rightarrow> Inl ex
      | Inr (pid, ident) \<Rightarrow>
          (if bc_owner_pid c \<noteq> pid \<or> bc_owner_process_identity c \<noteq> ident then Inl ValueErr
           else if \<not> distinct (map il_thread_id (bc_leases c))
                   \<or> (\<exists>l \<in> set (bc_leases c). ih_owner_pid (il_holder l) \<noteq> pid
                        \<or> ih_owner_process_identity (il_holder l) \<noteq> ident) then Inl ValueErr
           else Inr ()))"

definition il_load_raw :: "lease_env \<Rightarrow> string \<Rightarrow> disk \<Rightarrow> disk \<times> (store_exn + interaction_lease option)" where
  "il_load_raw e thread_id d =
     (let t = strip thread_id
      in if t = [] then (d, Inr None)
         else bindc (il_locked_raw e d) (\<lambda>d data. (d, lease_at e data t)))"

fun il_retire ::
  "lease_env \<Rightarrow> interaction_lease list \<Rightarrow> string list \<Rightarrow> string list \<Rightarrow> disk
    \<Rightarrow> disk \<times> (store_exn + backend_stop_receipt)" where
  "il_retire e [] retired preserved d =
     (d, Inr \<lparr>br_retired_thread_ids = retired, br_preserved_thread_ids = preserved\<rparr>)"
| "il_retire e (expected # rest) retired preserved d =
     bindc (il_release_if_matches_raw e expected d) (\<lambda>d ok.
       if ok then il_retire e rest (retired @ [il_thread_id expected]) preserved d
       else bindc (il_load_raw e (il_thread_id expected) d) (\<lambda>d current.
         if current \<noteq> Some expected then il_retire e rest retired (preserved @ [il_thread_id expected]) d
         else (d, Inl (Unavailable ''exact backend-stop lease retirement was not confirmed''))))"

definition il_retire_after_backend_stop ::
  "lease_env \<Rightarrow> backend_stop_capture \<Rightarrow> disk \<Rightarrow> disk \<times> (store_exn + backend_stop_receipt)" where
  "il_retire_after_backend_stop e c d =
     (case valid_capture e c of
        Inl ex \<Rightarrow> (d, Inl ex)
      | Inr _ \<Rightarrow> il_retire e (bc_leases c) [] [] d)"

section \<open>The codec: key order, round trip, well-formed results\<close>

lemma lease_id_sort [json_sort]:
  "lease_id_from_data e t h ts (map_option sort_keys x) = lease_id_from_data e t h ts x"
proof (cases x)
  case (Some j)
  then show ?thesis by (cases j) (auto simp: lease_id_from_data_def)
qed simp

lemma holder_from_data_sort [json_sort]:
  "dict_wf ps \<Longrightarrow> holder_from_data (sorted_obj ps) pid = holder_from_data ps pid"
  by (simp add: holder_from_data_def map_of_sort_keys_obj json_sort)

lemma lease_from_data_sort:
  assumes "\<not> has_dup_keys j"
  shows "lease_from_data e k (sort_keys j) = lease_from_data e k j"
proof (cases "as_obj (Some j)")
  case (Inl x)
  then show ?thesis
    using as_sort(1) [of "Some j"] by (simp add: lease_from_data_def)
next
  case (Inr raw)
  then have j: "j = JObj raw" by (cases j) auto
  then have wf: "dict_wf raw" using assms by (simp add: dict_wf_def)
  have hw: "dict_wf h" if "as_obj (map_of raw ''holder'') = Inr h" for h
    using as_obj_nodup [OF _ that] assms j by blast
  show ?thesis
    unfolding j sort_keys.simps lease_from_data_def as_obj.simps bindr_simps
      map_of_sort_keys_obj [OF wf] json_sort bindr_map_sum opt_str_field_sort [OF wf]
    by (intro bindr_cong refl) (simp_all only: hw map_of_sort_keys_obj json_sort)
qed

section \<open>Well-formed leases\<close>

definition holder_wf :: "interaction_lease_holder \<Rightarrow> bool" where
  "holder_wf h =
     (strip (ih_kind h) = ih_kind h \<and> ih_kind h \<noteq> []
      \<and> strip (ih_holder_id h) = ih_holder_id h \<and> ih_holder_id h \<noteq> []
      \<and> 0 \<le> ih_owner_pid h
      \<and> strip (ih_sender_id h) = ih_sender_id h
      \<and> strip (ih_chat_id h) = ih_chat_id h
      \<and> strip (ih_participant_id h) = ih_participant_id h
      \<and> strip (ih_connection_id h) = ih_connection_id h
      \<and> strip (ih_owner_process_identity h) = ih_owner_process_identity h)"

definition lease_wf :: "interaction_lease \<Rightarrow> bool" where
  "lease_wf l =
     (strip (il_thread_id l) = il_thread_id l \<and> il_thread_id l \<noteq> []
      \<and> holder_wf (il_holder l)
      \<and> canon_uuid (il_lease_id l) = Some (il_lease_id l)
      \<and> 0 \<le> il_updated_at l
      \<and> strip (il_turn_id l) = il_turn_id l)"

lemma canon_uuid_str [simp]: "canon_uuid (uuid_str n) = Some (uuid_str n)"
  unfolding uuid_str_def by (rule canon_uuid_hyphenate) simp

lemma lease_id_canon:
  "lease_id_from_data e t h ts raw = Inr u \<Longrightarrow> canon_uuid u = Some u"
  by (auto simp: lease_id_from_data_def canon_uuid_idem split: option.splits json.splits if_splits)

lemma finite_nonneg_Inr: "finite_nonneg f = Inr q \<Longrightarrow> f = Fin q \<and> 0 \<le> q"
  by (cases f) (auto split: if_splits)

lemma lease_from_data_wf:
  assumes "lease_from_data e k j = Inr (Some l)" and "k \<noteq> []" and "strip k = k"
  shows "lease_wf l \<and> il_thread_id l = k"
  using assms
  by (auto simp: lease_from_data_def bindr_elims lease_wf_def holder_wf_def holder_from_data_def
      dest: lease_id_canon finite_nonneg_Inr)

lemma lease_from_data_valid_env:
  "lease_from_data e k j = Inr r \<Longrightarrow> \<exists>r'. lease_from_data e' k j = Inr r'"
proof -
  have id: "\<exists>u'. lease_id_from_data e' t h ts raw = Inr u'" if "lease_id_from_data e t h ts raw = Inr u" for t h ts raw u
    using that by (auto simp: lease_id_from_data_def split: option.splits json.splits if_splits)
  assume "lease_from_data e k j = Inr r"
  then show "\<exists>r'. lease_from_data e' k j = Inr r'"
    unfolding lease_from_data_def bindr_elims by (elim exE conjE) (drule id, auto)
qed

lemma serialize_holder_lookup:
  assumes "as_obj (Some (serialize_holder h)) = Inr raw"
  shows "map_of raw ''kind'' = Some (JStr (ih_kind h))"
    "map_of raw ''holder_id'' = Some (JStr (ih_holder_id h))"
    "map_of raw ''owner_pid'' = Some (JInt (ih_owner_pid h))"
    "map_of raw ''sender_id'' = Some (JStr (ih_sender_id h))"
    "map_of raw ''chat_id'' = Some (JStr (ih_chat_id h))"
    "map_of raw ''participant_id'' = Some (JStr (ih_participant_id h))"
    "map_of raw ''connection_id'' = Some (JStr (ih_connection_id h))"
    "map_of raw ''owner_process_identity'' = Some (JStr (ih_owner_process_identity h))"
    "has_fields [''kind'', ''holder_id'', ''owner_pid'', ''sender_id'', ''chat_id'']
          [''participant_id'', ''connection_id'', ''owner_process_identity''] raw"
  using assms by (auto simp: serialize_holder_def has_fields_def)

lemma serialize_lease_lookup:
  assumes "as_obj (Some (serialize_lease l)) = Inr raw"
  shows "map_of raw ''thread_id'' = Some (JStr (il_thread_id l))"
    "map_of raw ''holder'' = Some (serialize_holder (il_holder l))"
    "map_of raw ''lease_id'' = Some (JStr (il_lease_id l))"
    "map_of raw ''updated_at'' = Some (JFloat (Fin (il_updated_at l)))"
    "map_of raw ''turn_id'' = Some (JStr (il_turn_id l))"
    "has_fields [''thread_id'', ''holder'', ''updated_at''] [''lease_id'', ''turn_id''] raw"
  using assms by (auto simp: serialize_lease_def has_fields_def)

lemma lease_from_serialized:
  assumes wf: "lease_wf l"
  shows "lease_from_data e (il_thread_id l) (serialize_lease l) = Inr (Some l)"
proof -
  obtain raw where raw: "as_obj (Some (serialize_lease l)) = Inr raw" by (simp add: serialize_lease_def)
  obtain h where h: "as_obj (Some (serialize_holder (il_holder l))) = Inr h" by (simp add: serialize_holder_def)
  have hw: "holder_wf (il_holder l)" using wf by (simp add: lease_wf_def)
  have hd: "holder_from_data h (ih_owner_pid (il_holder l)) = il_holder l"
    using hw by (simp add: holder_from_data_def serialize_holder_lookup [OF h] holder_wf_def)
  have id: "lease_id_from_data e' t h' ts (Some (JStr (il_lease_id l))) = Inr (il_lease_id l)" for e' t h' ts
    using wf canon_uuid_strip [of "il_lease_id l"] canon_uuid_nonempty [of "il_lease_id l"]
    by (simp add: lease_id_from_data_def lease_wf_def)
  show ?thesis
    using wf hw unfolding lease_from_data_def raw
    by (simp add: h serialize_lease_lookup [OF raw] serialize_holder_lookup [OF h] hd id
        opt_str_field_def lease_wf_def holder_wf_def)
qed

lemma serialize_lease_obj: "is_JObj (serialize_lease l)" "\<not> has_dup_keys (serialize_lease l)"
  by (auto simp: serialize_lease_def serialize_holder_def)

section \<open>The store as a record store\<close>

abbreviation il_ledger :: "lease_env \<Rightarrow> disk \<Rightarrow> string \<Rightarrow> interaction_lease option" where
  "il_ledger e d \<equiv> ledger (lease_from_data e) (lease_live e) d"

abbreviation il_readable :: "lease_env \<Rightarrow> disk \<Rightarrow> bool" where
  "il_readable e d \<equiv> readable (lease_from_data e) d"

text \<open>The ledger without regard to whether the owners are still alive.\<close>

abbreviation il_stored :: "lease_env \<Rightarrow> disk \<Rightarrow> string \<Rightarrow> interaction_lease option" where
  "il_stored e d \<equiv> ledger (lease_from_data e) (\<lambda>_. True) d"

lemma prune_stale_view:
  "dict_wf data \<Longrightarrow> record_view (lease_from_data e) (lease_live e) (snd (prune_stale_leases e data)) =
   record_view (lease_from_data e) (lease_live e) data"
  by (rule ext)
    (auto simp: record_view_def prune_stale_leases_def map_of_filter_wf record_stale_def
      split: option.splits sum.splits if_splits)

lemma records_ok_filter: "records_ok dec data \<Longrightarrow> records_ok dec (filter P data)"
  by (auto simp: records_ok_def)

interpretation il: record_store lease_from_data serialize_lease il_thread_id lease_wf lease_live prune_stale_leases
proof unfold_locales
  fix e data
  assume ok: "records_ok (lease_from_data e) data"
  then show "records_ok (lease_from_data e) (snd (prune_stale_leases e data))"
    by (simp add: prune_stale_leases_def records_ok_filter)
  from ok show "record_view (lease_from_data e) (lease_live e) (snd (prune_stale_leases e data)) =
      record_view (lease_from_data e) (lease_live e) data"
    by (intro prune_stale_view) (simp add: records_ok_def)
qed (auto simp: serialize_lease_obj lease_from_serialized lease_from_data_sort lease_wf_def
    dest: lease_from_data_valid_env lease_from_data_wf)

interpretation il_raw: record_store lease_from_data serialize_lease il_thread_id lease_wf "\<lambda>_ _. True" no_prune
  by unfold_locales (auto simp: serialize_lease_obj lease_from_serialized lease_from_data_sort lease_wf_def no_prune_def
    dest: lease_from_data_valid_env lease_from_data_wf)

lemma il_locked_all_live:
  assumes "il_locked e d = (d', Inr data)" and "map_of data k = Some j"
  shows "\<exists>l. lease_from_data e k j = Inr (Some l) \<and> lease_live e l"
proof -
  have "\<exists>data0. data = filter (\<lambda>p. \<not> record_stale e (fst p) (snd p)) data0"
    using assms(1)
    by (auto simp: il_locked_def locked_data_def prune_stale_leases_def bindc_eq_Inr filter_id_conv
        split: sum.splits if_splits intro: exI [of _ data])
  then have "\<not> record_stale e k j" using map_of_SomeD [OF assms(2)] by auto
  then show ?thesis by (auto simp: record_stale_def split: sum.splits option.splits)
qed

lemma il_lease_at:
  assumes "il_locked e d = (d', Inr data)"
  shows "lease_at e data t = Inr (record_view (lease_from_data e) (lease_live e) data t)"
  using il_locked_all_live [OF assms, of t]
  by (auto simp: lease_at_def decode_at_def record_view_def split: option.splits)

lemma il_raw_lease_at:
  assumes "records_ok (lease_from_data e) data"
  shows "lease_at e data t = Inr (record_view (lease_from_data e) (\<lambda>_. True) data t)"
proof (cases "map_of data t")
  case (Some j)
  then have "record_ok (lease_from_data e) t j"
    using assms map_of_SomeD by (fastforce simp: records_ok_def)
  then obtain r where "lease_from_data e t j = Inr r" by (auto simp: record_ok_def)
  then show ?thesis using Some by (auto simp: lease_at_def decode_at_def record_view_def split: option.splits)
qed (simp add: lease_at_def record_view_def)

end
