(* ===== verification/Interaction_Lease_Ledger.thy ===== *)
theory Interaction_Lease_Ledger
  imports Interaction_Lease
begin

text \<open>
  What the interaction lease store promises: the file stands for a ledger, a map from
  threads to leases, and every operation either commits what the abstract operation on the
  ledger says or, when it raises, leaves the ledger before or after that operation. Then
  the facts about sequences of operations, the exact retirement of a stopping service's
  leases, and the identities of the frontends.
\<close>

section \<open>The abstract ledger\<close>

type_synonym lease_ledger = "string \<Rightarrow> interaction_lease option"

definition spec_acquire :: "lease_ledger \<Rightarrow> string \<Rightarrow> interaction_lease_holder \<Rightarrow> interaction_lease
    \<Rightarrow> lease_ledger \<times> acquire_result" where
  "spec_acquire L t h new =
     (case L t of
        None \<Rightarrow> (L(t \<mapsto> new), \<lparr>ar_granted = True, ar_lease = Some new, ar_acquired = True\<rparr>)
      | Some c \<Rightarrow>
          if same_holder (il_holder c) h
          then (L(t \<mapsto> c\<lparr>il_holder := h\<rparr>),
                \<lparr>ar_granted = True, ar_lease = Some (c\<lparr>il_holder := h\<rparr>), ar_acquired = False\<rparr>)
          else (L, \<lparr>ar_granted = False, ar_lease = Some c, ar_acquired = False\<rparr>))"

definition spec_drop_if :: "lease_ledger \<Rightarrow> string \<Rightarrow> (interaction_lease \<Rightarrow> bool) \<Rightarrow> lease_ledger \<times> bool" where
  "spec_drop_if L t P =
     (case L t of None \<Rightarrow> (L, False) | Some c \<Rightarrow> if P c then (L(t := None), True) else (L, False))"

definition spec_activate :: "lease_ledger \<Rightarrow> interaction_lease \<Rightarrow> string \<Rightarrow> lease_ledger \<times> interaction_lease option" where
  "spec_activate L expected turn =
     (let t = il_thread_id expected
      in case L t of
           None \<Rightarrow> (L, None)
         | Some c \<Rightarrow>
             if il_lease_id c = il_lease_id expected \<and> same_holder (il_holder c) (il_holder expected)
                \<and> (il_turn_id c = [] \<or> il_turn_id c = turn)
             then (L(t \<mapsto> c\<lparr>il_turn_id := turn\<rparr>), Some (c\<lparr>il_turn_id := turn\<rparr>))
             else (L, None))"

text \<open>A holder that an operation may install: it normalises, and its process is there.\<close>

lemma normalize_holder_wf: "normalize_holder e h = Inr h' \<Longrightarrow> holder_wf h'"
  by (auto simp: normalize_holder_def holder_wf_def Let_def split: if_splits)

lemma new_lease_wf:
  "holder_wf h \<Longrightarrow> strip t = t \<Longrightarrow> t \<noteq> [] \<Longrightarrow> 0 \<le> now \<Longrightarrow> lease_wf (new_lease t h fresh now)"
  by (simp add: lease_wf_def new_lease_def)

lemma il_holder_update_wf: "lease_wf c \<Longrightarrow> holder_wf h \<Longrightarrow> lease_wf (c\<lparr>il_holder := h\<rparr>)"
  by (simp add: lease_wf_def)

lemma il_turn_update_wf: "lease_wf c \<Longrightarrow> strip turn = turn \<Longrightarrow> lease_wf (c\<lparr>il_turn_id := turn\<rparr>)"
  by (simp add: lease_wf_def)

lemma il_live_update [simp]:
  "lease_live e (c\<lparr>il_holder := h\<rparr>) = holder_live (procs e) h"
  "lease_live e (c\<lparr>il_turn_id := x\<rparr>) = lease_live e c"
  "lease_live e (new_lease t h fresh now) = holder_live (procs e) h"
  "il_thread_id (new_lease t h fresh now) = t"
  by (simp_all add: lease_live_def new_lease_def)

lemma il_ledger_live: "il_ledger e d t = Some l \<Longrightarrow> lease_live e l"
  by (auto simp: ledger_def record_view_def split: sum.splits option.splits if_splits)

text \<open>What the body of a locked block may rely on.\<close>

definition il_ctx :: "lease_env \<Rightarrow> lease_ledger \<Rightarrow> disk \<Rightarrow> jdict \<Rightarrow> bool" where
  "il_ctx e L d data =
     (records_ok (lease_from_data e) data \<and> record_view (lease_from_data e) (lease_live e) data = L
      \<and> il_readable e d \<and> il_ledger e d = L \<and> (\<forall>t. lease_at e data t = Inr (L t))
      \<and> (\<forall>t. map_of data t = None \<longleftrightarrow> L t = None))"

lemma il_locked_outcome:
  assumes "bindc (il_locked e d) k = (d', r)" and rd: "il_readable e d"
    and step: "\<And>d1 data. il_ctx e (il_ledger e d) d1 data \<Longrightarrow> k d1 data = (d', r) \<Longrightarrow>
      commits_or_keeps (il_ledger e d) S (il_ledger e d') r \<and> il_readable e d'"
  shows "commits_or_keeps (il_ledger e d) S (il_ledger e d') r \<and> il_readable e d'"
proof (rule il.locked_outcome [OF _ rd])
  show "bindc (locked_data (lease_from_data e) (prune_stale_leases e) d) k = (d', r)"
    using assms(1) by (simp add: il_locked_def)
next
  fix d1 data
  assume l: "locked_data (lease_from_data e) (prune_stale_leases e) d = (d1, Inr data)"
    and ok: "records_ok (lease_from_data e) data"
    and v: "record_view (lease_from_data e) (lease_live e) data = il_ledger e d"
    and d1: "il_readable e d1" "il_ledger e d1 = il_ledger e d"
    and k: "k d1 data = (d', r)"
  have l': "il_locked e d = (d1, Inr data)" using l by (simp add: il_locked_def)
  have "map_of data t = None \<longleftrightarrow> il_ledger e d t = None" for t
    using il_locked_all_live [OF l', of t] unfolding v [symmetric]
    by (auto simp: record_view_def split: option.splits)
  then have "il_ctx e (il_ledger e d) d1 data"
    using ok v d1 il_lease_at [OF l'] by (simp add: il_ctx_def)
  then show "commits_or_keeps (il_ledger e d) S (il_ledger e d') r \<and> il_readable e d'"
    using k by (rule step)
qed

lemma il_put:
  assumes "il_ctx e L d1 data" and "lease_wf x" and "lease_live e x" and "il_thread_id x = t"
    and "bindc (write_all d1 (AList.update t (serialize_lease x) data)) (\<lambda>d _. (d, Inr y)) = (d', r)"
  shows "commits_or_keeps L (L(t \<mapsto> x), y) (il_ledger e d') r \<and> il_readable e d'"
  using assms by (intro il.put_outcome [where data = data]) (auto simp: il_ctx_def)

lemma il_keep:
  assumes "il_ctx e L d1 data" and "(d1, Inr y) = (d', r)"
  shows "commits_or_keeps L (L, y) (il_ledger e d') r \<and> il_readable e d'"
  using assms by (auto simp: il_ctx_def commits_or_keeps_def)

lemma il_drop:
  assumes "il_ctx e L d1 data" and "drop_record data t d1 = (d', r)"
  shows "commits_or_keeps L (L(t := None), True) (il_ledger e d') r \<and> il_readable e d'"
  using assms unfolding drop_record_def by (intro il.del_outcome [where data = data]) (auto simp: il_ctx_def)

lemma il_drop_when:
  assumes c: "il_ctx e L d1 data" and k: "drop_when e t P d1 data = (d', r)"
  shows "commits_or_keeps L (spec_drop_if L t P) (il_ledger e d') r \<and> il_readable e d'"
  using k c il_keep [OF c, of False d' r] il_drop [OF c, of t d' r]
  by (auto simp: drop_when_def spec_drop_if_def il_ctx_def split: option.splits if_splits)

lemma il_acquire_outcome:
  assumes run: "il_acquire e thread_id holder fresh now d = (d', r)"
    and rd: "il_readable e d"
    and t: "strip thread_id \<noteq> []"
    and h: "normalize_holder (procs e) holder = Inr h" and live: "holder_live (procs e) h" and now: "0 \<le> now"
  shows "commits_or_keeps (il_ledger e d)
      (spec_acquire (il_ledger e d) (strip thread_id) h (new_lease (strip thread_id) h fresh now))
      (il_ledger e d') r \<and> il_readable e d'"
proof (rule il_locked_outcome [OF _ rd])
  show "bindc (il_locked e d) (il_acquire_locked e (strip thread_id) h fresh now) = (d', r)"
    using run t h by (simp add: il_acquire_def)
next
  fix d1 data
  let ?t = "strip thread_id" let ?L = "il_ledger e d"
  assume c: "il_ctx e ?L d1 data" and k: "il_acquire_locked e ?t h fresh now d1 data = (d', r)"
  have hw: "holder_wf h" by (rule normalize_holder_wf [OF h])
  have nw: "lease_wf (new_lease ?t h fresh now)" by (rule new_lease_wf [OF hw _ t now]) simp
  have at: "lease_at e data ?t = Inr (?L ?t)" using c by (simp add: il_ctx_def)
  show "commits_or_keeps ?L (spec_acquire ?L ?t h (new_lease ?t h fresh now)) (il_ledger e d') r \<and> il_readable e d'"
  proof (cases "?L ?t")
    case None
    then show ?thesis
      using k at il_put [OF c nw, of ?t _ d' r] live
      by (simp add: il_acquire_locked_def spec_acquire_def Let_def)
  next
    case (Some cur)
    have cw: "lease_wf cur" "il_thread_id cur = ?t" using il.ledger_wf [OF Some] by auto
    have rw: "lease_wf (cur\<lparr>il_holder := h\<rparr>)" by (rule il_holder_update_wf [OF cw(1) hw])
    have same: "?L(?t \<mapsto> cur) = ?L" using Some by auto
    show ?thesis
      using k at Some il_put [OF c rw, of ?t _ d' r] il_keep [OF c, of _ d' r] live cw same
      by (auto simp: il_acquire_locked_def spec_acquire_def Let_def split: if_splits)
  qed
qed

lemma il_force_acquire_outcome:
  assumes run: "il_force_acquire e thread_id holder fresh now d = (d', r)"
    and rd: "il_readable e d"
    and t: "strip thread_id \<noteq> []"
    and h: "normalize_holder (procs e) holder = Inr h" and live: "holder_live (procs e) h" and now: "0 \<le> now"
  shows "commits_or_keeps (il_ledger e d)
      ((il_ledger e d)(strip thread_id \<mapsto> new_lease (strip thread_id) h fresh now),
       new_lease (strip thread_id) h fresh now)
      (il_ledger e d') r \<and> il_readable e d'"
proof (rule il_locked_outcome [OF _ rd])
  let ?t = "strip thread_id" let ?new = "new_lease (strip thread_id) h fresh now"
  show "bindc (il_locked e d) (\<lambda>d data. bindc (write_all d (AList.update ?t (serialize_lease ?new) data))
      (\<lambda>d _. (d, Inr ?new))) = (d', r)"
    using run t h by (simp add: il_force_acquire_def Let_def)
  have nw: "lease_wf ?new" by (rule new_lease_wf [OF normalize_holder_wf [OF h] _ t now]) simp
  fix d1 data
  assume "il_ctx e (il_ledger e d) d1 data"
    and "bindc (write_all d1 (AList.update ?t (serialize_lease ?new) data)) (\<lambda>d _. (d, Inr ?new)) = (d', r)"
  then show "commits_or_keeps (il_ledger e d) ((il_ledger e d)(?t \<mapsto> ?new), ?new) (il_ledger e d') r \<and> il_readable e d'"
    by (intro il_put [OF _ nw]) (auto simp: live)
qed

lemma il_drop_outcome:
  assumes "bindc (il_locked e d) (drop_when e t P) = (d', r)" and "il_readable e d"
  shows "commits_or_keeps (il_ledger e d) (spec_drop_if (il_ledger e d) t P) (il_ledger e d') r \<and> il_readable e d'"
  using assms by (rule il_locked_outcome) (rule il_drop_when)

lemma il_release_outcome:
  assumes "il_release e thread_id holder d = (d', r)" and "il_readable e d" and "strip thread_id \<noteq> []"
  shows "commits_or_keeps (il_ledger e d)
      (spec_drop_if (il_ledger e d) (strip thread_id) (\<lambda>c. same_holder (il_holder c) holder))
      (il_ledger e d') r \<and> il_readable e d'"
  using assms by (intro il_drop_outcome) (simp_all add: il_release_def)

lemma il_release_if_matches_outcome:
  assumes run: "il_release_if_matches e expected d = (d', r)" and rd: "il_readable e d"
  shows "commits_or_keeps (il_ledger e d)
      (spec_drop_if (il_ledger e d) (il_thread_id expected) (\<lambda>c. c = expected))
      (il_ledger e d') r \<and> il_readable e d'"
proof (cases "strip (il_thread_id expected) = [] \<or> strip (il_thread_id expected) \<noteq> il_thread_id expected")
  case True
  have "il_ledger e d (il_thread_id expected) \<noteq> Some expected"
    using True il.ledger_wf [of e d "il_thread_id expected" expected] by (auto simp: lease_wf_def)
  then show ?thesis
    using True run rd
    by (auto simp: il_release_if_matches_def release_expected_def spec_drop_if_def commits_or_keeps_def split: option.splits)
next
  case False
  then have "bindc (il_locked e d) (drop_when e (il_thread_id expected)
      (\<lambda>current. \<not> (il_lease_id current \<noteq> il_lease_id expected \<or> current \<noteq> expected))) = (d', r)"
    using run by (auto simp: il_release_if_matches_def release_expected_def Let_def)
  moreover have "(\<lambda>current. \<not> (il_lease_id current \<noteq> il_lease_id expected \<or> current \<noteq> expected)) = (\<lambda>c. c = expected)"
    by auto
  ultimately show ?thesis using il_drop_outcome [OF _ rd] by simp
qed

lemma il_release_turn_outcome:
  assumes "il_release_turn e thread_id turn_id d = (d', r)" and "il_readable e d"
    and "strip thread_id \<noteq> []" and "strip turn_id \<noteq> []"
  shows "commits_or_keeps (il_ledger e d)
      (spec_drop_if (il_ledger e d) (strip thread_id) (\<lambda>c. il_turn_id c = strip turn_id))
      (il_ledger e d') r \<and> il_readable e d'"
  using assms by (intro il_drop_outcome) (simp_all add: il_release_turn_def)

lemma il_clear_thread_outcome:
  assumes run: "il_clear_thread e thread_id d = (d', r)" and rd: "il_readable e d" and t: "strip thread_id \<noteq> []"
  shows "commits_or_keeps (il_ledger e d) (spec_drop_if (il_ledger e d) (strip thread_id) (\<lambda>_. True))
      (il_ledger e d') r \<and> il_readable e d'"
proof (rule il_locked_outcome [OF _ rd])
  show "bindc (il_locked e d) (\<lambda>d data. if map_of data (strip thread_id) = None then (d, Inr False)
      else drop_record data (strip thread_id) d) = (d', r)"
    using run t by (simp add: il_clear_thread_def Let_def)
  fix d1 data
  assume c: "il_ctx e (il_ledger e d) d1 data"
    and k: "(if map_of data (strip thread_id) = None then (d1, Inr False)
      else drop_record data (strip thread_id) d1) = (d', r)"
  show "commits_or_keeps (il_ledger e d) (spec_drop_if (il_ledger e d) (strip thread_id) (\<lambda>_. True))
      (il_ledger e d') r \<and> il_readable e d'"
    using c k il_keep [OF c, of False d' r] il_drop [OF c, of "strip thread_id" d' r]
    by (auto simp: spec_drop_if_def il_ctx_def split: option.splits if_splits)
qed

lemma il_activate_turn_outcome:
  assumes run: "il_activate_turn e expected turn_id d = (d', r)" and rd: "il_readable e d"
    and exp: "strip (il_thread_id expected) = il_thread_id expected" "il_thread_id expected \<noteq> []"
    and turn: "strip turn_id \<noteq> []"
  shows "commits_or_keeps (il_ledger e d) (spec_activate (il_ledger e d) expected (strip turn_id))
      (il_ledger e d') r \<and> il_readable e d'"
proof (rule il_locked_outcome [OF _ rd])
  let ?t = "il_thread_id expected" let ?L = "il_ledger e d" let ?turn = "strip turn_id"
  show "bindc (il_locked e d) (il_activate_locked e expected ?t ?turn) = (d', r)"
    using run exp turn by (simp add: il_activate_turn_def)
  fix d1 data
  assume c: "il_ctx e ?L d1 data" and k: "il_activate_locked e expected ?t ?turn d1 data = (d', r)"
  have at: "lease_at e data ?t = Inr (?L ?t)" using c by (simp add: il_ctx_def)
  show "commits_or_keeps ?L (spec_activate ?L expected ?turn) (il_ledger e d') r \<and> il_readable e d'"
  proof (cases "?L ?t")
    case None
    then show ?thesis using k at il_keep [OF c, of None d' r] by (simp add: il_activate_locked_def spec_activate_def)
  next
    case (Some cur)
    have cw: "lease_wf cur" "il_thread_id cur = ?t" using il.ledger_wf [OF Some] by auto
    have rw: "lease_wf (cur\<lparr>il_turn_id := ?turn\<rparr>)" by (rule il_turn_update_wf [OF cw(1)]) simp
    have same: "il_turn_id cur = ?turn \<Longrightarrow> cur\<lparr>il_turn_id := ?turn\<rparr> = cur" by simp
    have keep: "?L(?t \<mapsto> cur) = ?L" using Some by auto
    have lv: "lease_live e cur" by (rule il_ledger_live [OF Some])
    show ?thesis
    proof (cases "il_turn_id cur = ?turn")
      case True
      then show ?thesis
        using k at Some il_keep [OF c, of _ d' r] keep
        by (auto simp: il_activate_locked_def spec_activate_def same [OF True] split: if_splits)
    next
      case False
      then show ?thesis
        using k at Some il_put [OF c rw, of ?t _ d' r] il_keep [OF c, of _ d' r] lv cw
        by (auto simp: il_activate_locked_def spec_activate_def Let_def split: if_splits)
    qed
  qed
qed

section \<open>Sequences of operations\<close>

datatype il_op =
    OpLoad string
  | OpList
  | OpAcquire string interaction_lease_holder nat rat
  | OpForceAcquire string interaction_lease_holder nat rat
  | OpRelease string interaction_lease_holder
  | OpReleaseIfMatches interaction_lease
  | OpActivateTurn interaction_lease string
  | OpReleaseTurn string string
  | OpClearThread string

definition forget_result :: "disk \<times> (store_exn + 'a) \<Rightarrow> disk \<times> (store_exn + unit)" where
  "forget_result r = (fst r, map_sum id (\<lambda>_. ()) (snd r))"

fun il_exec :: "lease_env \<Rightarrow> il_op \<Rightarrow> disk \<Rightarrow> disk \<times> (store_exn + unit)" where
  "il_exec e (OpLoad t) d = forget_result (il_load e t d)"
| "il_exec e OpList d = forget_result (il_list e d)"
| "il_exec e (OpAcquire t h fresh now) d = forget_result (il_acquire e t h fresh now d)"
| "il_exec e (OpForceAcquire t h fresh now) d = forget_result (il_force_acquire e t h fresh now d)"
| "il_exec e (OpRelease t h) d = forget_result (il_release e t h d)"
| "il_exec e (OpReleaseIfMatches x) d = forget_result (il_release_if_matches e x d)"
| "il_exec e (OpActivateTurn x turn) d = forget_result (il_activate_turn e x turn d)"
| "il_exec e (OpReleaseTurn t turn) d = forget_result (il_release_turn e t turn d)"
| "il_exec e (OpClearThread t) d = forget_result (il_clear_thread e t d)"

definition il_step :: "lease_env \<Rightarrow> disk \<Rightarrow> il_op \<Rightarrow> disk" where
  "il_step e d x = fst (il_exec e x d)"

text \<open>The operations that are refused before the file is opened: blank arguments.\<close>

fun refused_early :: "lease_env \<Rightarrow> il_op \<Rightarrow> bool" where
  "refused_early e (OpLoad t) = (strip t = [])"
| "refused_early e OpList = False"
| "refused_early e (OpAcquire t h fresh now) = (strip t = [])"
| "refused_early e (OpForceAcquire t h fresh now) = False"
| "refused_early e (OpRelease t h) = (strip t = [])"
| "refused_early e (OpReleaseIfMatches x) = (strip (il_thread_id x) = [] \<or> strip (il_thread_id x) \<noteq> il_thread_id x)"
| "refused_early e (OpActivateTurn x turn) = False"
| "refused_early e (OpReleaseTurn t turn) = (strip t = [] \<or> strip turn = [])"
| "refused_early e (OpClearThread t) = (strip t = [])"

lemma forget_simps [simp]: "forget_result (d, Inl ex) = (d, Inl ex)" "forget_result (d, Inr x) = (d, Inr ())"
  by (simp_all add: forget_result_def)

lemma il_locked_unreadable:
  "\<not> il_readable e d \<Longrightarrow> \<exists>ex. bindc (il_locked e d) k = (d, Inl ex)"
  using il.locked_data_unreadable [of e d] by (auto simp: il_locked_def)

lemma forget_unreadable:
  "\<not> il_readable e d \<Longrightarrow> \<exists>ex. forget_result (bindc (il_locked e d) k) = (d, Inl ex)"
  using il_locked_unreadable [of e d k] by auto

lemma il_exec_unreadable:
  assumes "\<not> il_readable e d" and "\<not> refused_early e x"
  shows "\<exists>ex. il_exec e x d = (d, Inl ex)"
  using assms(2)
  by (cases x)
    (auto simp: il_load_def il_list_def il_acquire_def il_force_acquire_def il_release_def
      il_release_if_matches_def release_expected_def il_activate_turn_def il_release_turn_def
      il_clear_thread_def Let_def intro: forget_unreadable [OF assms(1)] split: sum.splits)

text \<open>An installing operation comes from a process that is there, at a time after the epoch.\<close>

fun op_ok :: "lease_env \<Rightarrow> il_op \<Rightarrow> bool" where
  "op_ok e (OpAcquire t h fresh now) =
     (0 \<le> now \<and> (case normalize_holder (procs e) h of Inl _ \<Rightarrow> True | Inr h' \<Rightarrow> holder_live (procs e) h'))"
| "op_ok e (OpForceAcquire t h fresh now) =
     (0 \<le> now \<and> (case normalize_holder (procs e) h of Inl _ \<Rightarrow> True | Inr h' \<Rightarrow> holder_live (procs e) h'))"
| "op_ok e _ = True"

text \<open>The operations that can end the lease \<open>l\<close>.\<close>

fun may_end :: "il_op \<Rightarrow> interaction_lease \<Rightarrow> bool" where
  "may_end (OpForceAcquire t h fresh now) l = (strip t = il_thread_id l)"
| "may_end (OpRelease t h) l = (strip t = il_thread_id l \<and> same_holder (il_holder l) h)"
| "may_end (OpReleaseIfMatches x) l = (il_thread_id x = il_thread_id l \<and> il_lease_id x = il_lease_id l)"
| "may_end (OpReleaseTurn t turn) l = (strip t = il_thread_id l)"
| "may_end (OpClearThread t) l = (strip t = il_thread_id l)"
| "may_end _ l = False"

text \<open>\<open>l'\<close> is the generation of \<open>l\<close>: same lease id, same logical holder.\<close>

definition same_generation :: "interaction_lease \<Rightarrow> interaction_lease \<Rightarrow> bool" where
  "same_generation l l' =
     (il_thread_id l' = il_thread_id l \<and> il_lease_id l' = il_lease_id l
      \<and> same_holder (il_holder l') (il_holder l))"

definition held :: "lease_env \<Rightarrow> interaction_lease \<Rightarrow> disk \<Rightarrow> bool" where
  "held e l d = (il_readable e d \<and> (\<exists>l'. il_ledger e d (il_thread_id l) = Some l' \<and> same_generation l l'))"

lemma same_holder_sym: "same_holder a b = same_holder b a"
  by (auto simp: same_holder_def)

lemma same_holder_trans: "same_holder a b \<Longrightarrow> same_holder b c \<Longrightarrow> same_holder a c"
  by (simp add: same_holder_def)

lemma outcome_held:
  assumes "commits_or_keeps (il_ledger e d) S L' r"
    and "il_ledger e d t = Some l" and "\<exists>l'. fst S t = Some l' \<and> same_generation l0 l'" and "same_generation l0 l"
  shows "\<exists>l'. L' t = Some l' \<and> same_generation l0 l'"
  using assms by (auto simp: commits_or_keeps_def split: sum.splits)

lemma spec_drop_if_held:
  assumes "L t0 = Some l" and "t0 = t \<Longrightarrow> \<not> P l"
  shows "fst (spec_drop_if L t P) t0 = Some l"
  using assms by (auto simp: spec_drop_if_def split: option.splits)

lemma il_load_outcome:
  assumes run: "il_load e thread_id d = (d', r)" and rd: "il_readable e d" and t: "strip thread_id \<noteq> []"
  shows "commits_or_keeps (il_ledger e d) (il_ledger e d, il_ledger e d (strip thread_id)) (il_ledger e d') r
    \<and> il_readable e d'"
proof (rule il_locked_outcome [OF _ rd])
  show "bindc (il_locked e d) (\<lambda>d data. (d, lease_at e data (strip thread_id))) = (d', r)"
    using run t by (simp add: il_load_def)
  fix d1 data
  assume "il_ctx e (il_ledger e d) d1 data" and "(d1, lease_at e data (strip thread_id)) = (d', r)"
  then show "commits_or_keeps (il_ledger e d) (il_ledger e d, il_ledger e d (strip thread_id)) (il_ledger e d') r
    \<and> il_readable e d'"
    by (auto simp: il_ctx_def commits_or_keeps_def)
qed

lemma il_list_keeps:
  assumes run: "il_list e d = (d', r)" and rd: "il_readable e d"
  shows "il_ledger e d' = il_ledger e d \<and> il_readable e d'"
proof -
  obtain d1 q where l: "il_locked e d = (d1, q)" by fastforce
  then have "d' = d1" using run by (cases q) (auto simp: il_list_def)
  then show ?thesis using il.locked_data_atomic [OF _ rd] l by (auto simp: il_locked_def)
qed

lemma held_outcome:
  assumes "held e l d"
    and "commits_or_keeps (il_ledger e d) S (il_ledger e d') r \<and> il_readable e d'"
    and "\<And>c. il_ledger e d (il_thread_id l) = Some c \<Longrightarrow> same_generation l c \<Longrightarrow>
      \<exists>l'. fst S (il_thread_id l) = Some l' \<and> same_generation l l'"
  shows "held e l d'"
  using assms by (auto simp: held_def commits_or_keeps_def split: sum.splits)

lemma same_generation_holder:
  "same_generation l c \<Longrightarrow> same_holder (il_holder c) h \<Longrightarrow> same_generation l (c\<lparr>il_holder := h\<rparr>)"
  by (simp add: same_generation_def same_holder_def)

lemma same_generation_turn: "same_generation l c \<Longrightarrow> same_generation l (c\<lparr>il_turn_id := x\<rparr>)"
  by (simp add: same_generation_def)

lemma il_step_fst:
  "il_step e d (OpLoad t) = fst (il_load e t d)"
  "il_step e d OpList = fst (il_list e d)"
  "il_step e d (OpAcquire t h fresh now) = fst (il_acquire e t h fresh now d)"
  "il_step e d (OpForceAcquire t h fresh now) = fst (il_force_acquire e t h fresh now d)"
  "il_step e d (OpRelease t h) = fst (il_release e t h d)"
  "il_step e d (OpReleaseIfMatches x) = fst (il_release_if_matches e x d)"
  "il_step e d (OpActivateTurn x turn) = fst (il_activate_turn e x turn d)"
  "il_step e d (OpReleaseTurn t turn) = fst (il_release_turn e t turn d)"
  "il_step e d (OpClearThread t) = fst (il_clear_thread e t d)"
  by (simp_all add: il_step_def forget_result_def)

lemma held_acquire:
  assumes h: "held e l d" and ok: "op_ok e (OpAcquire t ho fresh now)"
  shows "held e l (fst (il_acquire e t ho fresh now d))"
proof (cases "strip t = [] \<or> (\<exists>ex. normalize_holder (procs e) ho = Inl ex)")
  case True
  then show ?thesis using h by (auto simp: il_acquire_def Let_def)
next
  case False
  then obtain h' where n: "normalize_holder (procs e) ho = Inr h'" and t: "strip t \<noteq> []" by (metis sumE)
  obtain d' r where run: "il_acquire e t ho fresh now d = (d', r)" by fastforce
  have "held e l d'"
    by (rule held_outcome [OF h il_acquire_outcome [OF run _ t n]])
      (use h ok n in \<open>auto simp: held_def spec_acquire_def same_generation_holder split: option.splits\<close>)
  then show ?thesis by (simp add: run)
qed

lemma held_force_acquire:
  assumes h: "held e l d" and ok: "op_ok e (OpForceAcquire t ho fresh now)" and ne: "strip t \<noteq> il_thread_id l"
  shows "held e l (fst (il_force_acquire e t ho fresh now d))"
proof (cases "strip t = [] \<or> (\<exists>ex. normalize_holder (procs e) ho = Inl ex)")
  case True
  then show ?thesis using h by (auto simp: il_force_acquire_def Let_def)
next
  case False
  then obtain h' where n: "normalize_holder (procs e) ho = Inr h'" and t: "strip t \<noteq> []" by (metis sumE)
  obtain d' r where run: "il_force_acquire e t ho fresh now d = (d', r)" by fastforce
  have "held e l d'"
    by (rule held_outcome [OF h il_force_acquire_outcome [OF run _ t n]])
      (use h ok n ne in \<open>auto simp: held_def\<close>)
  then show ?thesis by (simp add: run)
qed

lemma held_drop:
  assumes h: "held e l d"
    and out: "il_readable e d \<Longrightarrow>
      commits_or_keeps (il_ledger e d) (spec_drop_if (il_ledger e d) t P) (il_ledger e d') r \<and> il_readable e d'"
    and ne: "\<And>c. t = il_thread_id l \<Longrightarrow> same_generation l c \<Longrightarrow> \<not> P c"
  shows "held e l d'"
proof (rule held_outcome [OF h])
  show "commits_or_keeps (il_ledger e d) (spec_drop_if (il_ledger e d) t P) (il_ledger e d') r \<and> il_readable e d'"
    using out h by (simp add: held_def)
  fix c
  assume c: "il_ledger e d (il_thread_id l) = Some c" "same_generation l c"
  then have "fst (spec_drop_if (il_ledger e d) t P) (il_thread_id l) = Some c"
    using ne by (intro spec_drop_if_held) auto
  then show "\<exists>l'. fst (spec_drop_if (il_ledger e d) t P) (il_thread_id l) = Some l' \<and> same_generation l l'"
    using c by blast
qed

lemma held_release:
  assumes "held e l d" and "\<not> may_end (OpRelease t h) l"
  shows "held e l (fst (il_release e t h d))"
proof (cases "strip t = []")
  case True
  then show ?thesis using assms by (simp add: il_release_def)
next
  case False
  obtain d' r where run: "il_release e t h d = (d', r)" by fastforce
  have "held e l d'"
    by (rule held_drop [OF assms(1) il_release_outcome [OF run _ False]])
      (use assms in \<open>auto simp: same_generation_def same_holder_def\<close>)
  then show ?thesis by (simp add: run)
qed

lemma held_release_if_matches:
  assumes "held e l d" and "\<not> may_end (OpReleaseIfMatches x) l"
  shows "held e l (fst (il_release_if_matches e x d))"
proof -
  obtain d' r where run: "il_release_if_matches e x d = (d', r)" by fastforce
  have "held e l d'"
    by (rule held_drop [OF assms(1) il_release_if_matches_outcome [OF run]])
      (use assms in \<open>auto simp: same_generation_def\<close>)
  then show ?thesis by (simp add: run)
qed

lemma held_release_turn:
  assumes "held e l d" and "\<not> may_end (OpReleaseTurn t turn) l"
  shows "held e l (fst (il_release_turn e t turn d))"
proof (cases "strip t = [] \<or> strip turn = []")
  case True
  then show ?thesis using assms by (auto simp: il_release_turn_def)
next
  case False
  obtain d' r where run: "il_release_turn e t turn d = (d', r)" by fastforce
  have "held e l d'"
    by (rule held_drop [OF assms(1) il_release_turn_outcome [OF run]])
      (use False assms in auto)
  then show ?thesis by (simp add: run)
qed

lemma held_clear_thread:
  assumes "held e l d" and "\<not> may_end (OpClearThread t) l"
  shows "held e l (fst (il_clear_thread e t d))"
proof (cases "strip t = []")
  case True
  then show ?thesis using assms by (simp add: il_clear_thread_def)
next
  case False
  obtain d' r where run: "il_clear_thread e t d = (d', r)" by fastforce
  have "held e l d'"
    by (rule held_drop [OF assms(1) il_clear_thread_outcome [OF run _ False]])
      (use assms in auto)
  then show ?thesis by (simp add: run)
qed

lemma held_activate_turn:
  assumes h: "held e l d"
  shows "held e l (fst (il_activate_turn e x turn d))"
proof (cases "strip (il_thread_id x) = [] \<or> strip (il_thread_id x) \<noteq> il_thread_id x \<or> strip turn = []")
  case True
  then show ?thesis using h by (auto simp: il_activate_turn_def Let_def)
next
  case False
  obtain d' r where run: "il_activate_turn e x turn d = (d', r)" by fastforce
  have "held e l d'"
    by (rule held_outcome [OF h il_activate_turn_outcome [OF run]])
      (use False h in \<open>auto simp: held_def spec_activate_def Let_def same_generation_turn split: option.splits\<close>)
  then show ?thesis by (simp add: run)
qed

lemma held_load:
  assumes h: "held e l d"
  shows "held e l (fst (il_load e t d))"
proof (cases "strip t = []")
  case True
  then show ?thesis using h by (simp add: il_load_def)
next
  case False
  obtain d' r where run: "il_load e t d = (d', r)" by fastforce
  have "held e l d'"
    by (rule held_outcome [OF h il_load_outcome [OF run _ False]]) (use h in \<open>auto simp: held_def\<close>)
  then show ?thesis by (simp add: run)
qed

lemma held_list:
  assumes h: "held e l d"
  shows "held e l (fst (il_list e d))"
  using il_list_keeps [of e d] h by (cases "il_list e d") (auto simp: held_def)

lemma il_step_held:
  assumes "held e l d" and "op_ok e x" and "\<not> may_end x l"
  shows "held e l (il_step e d x)"
  using assms
  by (cases x)
    (simp_all only: il_step_fst held_load held_list held_acquire held_force_acquire held_release
      held_release_if_matches held_activate_turn held_release_turn held_clear_thread may_end.simps not_False_eq_True)

section \<open>Exact retirement\<close>

lemma no_prune_view: "il_locked_raw e d = (d1, Inr data) \<Longrightarrow>
    records_ok (lease_from_data e) data \<and> record_view (lease_from_data e) (\<lambda>_. True) data = il_stored e d
    \<and> il_readable e d1 \<and> il_stored e d1 = il_stored e d"
  using il_raw.locked_data_ok [of e d d1 data] by (simp add: il_locked_raw_def)

lemma il_release_if_matches_raw_outcome:
  assumes run: "il_release_if_matches_raw e expected d = (d', r)" and rd: "il_readable e d"
  shows "commits_or_keeps (il_stored e d)
      (spec_drop_if (il_stored e d) (il_thread_id expected) (\<lambda>c. c = expected))
      (il_stored e d') r \<and> il_readable e d'"
proof (cases "strip (il_thread_id expected) = [] \<or> strip (il_thread_id expected) \<noteq> il_thread_id expected")
  case True
  have "il_stored e d (il_thread_id expected) \<noteq> Some expected"
    using True il_raw.ledger_wf [of e d "il_thread_id expected" expected] by (auto simp: lease_wf_def)
  then show ?thesis
    using True run rd
    by (auto simp: il_release_if_matches_raw_def release_expected_def spec_drop_if_def commits_or_keeps_def split: option.splits)
next
  case False
  let ?t = "il_thread_id expected"
  have r: "bindc (locked_data (lease_from_data e) (no_prune e) d) (drop_when e ?t
      (\<lambda>current. \<not> (il_lease_id current \<noteq> il_lease_id expected \<or> current \<noteq> expected))) = (d', r)"
    using run False by (auto simp: il_release_if_matches_raw_def release_expected_def il_locked_raw_def Let_def)
  show ?thesis
  proof (rule il_raw.locked_outcome [OF r rd])
    fix d1 data
    assume ok: "records_ok (lease_from_data e) data"
      and v: "record_view (lease_from_data e) (\<lambda>_. True) data = il_stored e d"
      and d1: "il_readable e d1" "il_stored e d1 = il_stored e d"
      and k: "drop_when e ?t (\<lambda>current. \<not> (il_lease_id current \<noteq> il_lease_id expected \<or> current \<noteq> expected)) d1 data = (d', r)"
    have at: "lease_at e data ?t = Inr (il_stored e d ?t)" using il_raw_lease_at [OF ok] v by simp
    show "commits_or_keeps (il_stored e d) (spec_drop_if (il_stored e d) ?t (\<lambda>c. c = expected)) (il_stored e d') r
        \<and> il_readable e d'"
    proof (cases "il_stored e d ?t = Some expected")
      case True
      then have "bindc (write_all d1 (AList.delete ?t data)) (\<lambda>d _. (d, Inr True)) = (d', r)"
        using k at by (simp add: drop_when_def drop_record_def)
      from il_raw.del_outcome [OF ok v d1 this] show ?thesis by (simp add: True spec_drop_if_def)
    next
      case False
      then show ?thesis
        using k at d1 by (auto simp: drop_when_def spec_drop_if_def commits_or_keeps_def split: option.splits if_splits)
    qed
  qed
qed

lemma il_load_raw_keeps:
  assumes "il_load_raw e t d = (d', r)" and "il_readable e d"
  shows "il_stored e d' = il_stored e d \<and> il_readable e d' \<and>
    (\<forall>c. r = Inr c \<longrightarrow> c = (if strip t = [] then None else il_stored e d (strip t)))"
proof (cases "strip t = []")
  case True
  then show ?thesis using assms by (auto simp: il_load_raw_def)
next
  case False
  obtain d1 q where q: "il_locked_raw e d = (d1, q)" by fastforce
  then have a: "il_stored e d1 = il_stored e d \<and> il_readable e d1"
    using il_raw.locked_data_atomic [OF _ assms(2)] by (simp add: il_locked_raw_def)
  show ?thesis
  proof (cases q)
    case (Inl ex)
    then show ?thesis using q a assms False by (auto simp: il_load_raw_def)
  next
    case (Inr data)
    with q have l: "il_locked_raw e d = (d1, Inr data)" by simp
    then show ?thesis
      using no_prune_view [OF l] a assms False il_raw_lease_at [of e data "strip t"]
      by (auto simp: il_load_raw_def)
  qed
qed

text \<open>What retirement does to the stored leases, all of which it compares exactly.\<close>

definition retired_leases :: "lease_ledger \<Rightarrow> interaction_lease list \<Rightarrow> interaction_lease list" where
  "retired_leases L ls = filter (\<lambda>l. L (il_thread_id l) = Some l) ls"

definition preserved_leases :: "lease_ledger \<Rightarrow> interaction_lease list \<Rightarrow> interaction_lease list" where
  "preserved_leases L ls = filter (\<lambda>l. L (il_thread_id l) \<noteq> Some l) ls"

definition without_leases :: "lease_ledger \<Rightarrow> interaction_lease list \<Rightarrow> lease_ledger" where
  "without_leases L ls = (\<lambda>t. if \<exists>l \<in> set ls. il_thread_id l = t \<and> L t = Some l then None else L t)"

lemma retired_after_drop:
  assumes "distinct (map il_thread_id (l # ls))"
  shows "retired_leases (L(il_thread_id l := x)) ls = retired_leases L ls"
    "preserved_leases (L(il_thread_id l := x)) ls = preserved_leases L ls"
    "without_leases (L(il_thread_id l := x)) ls = (without_leases L ls)(il_thread_id l := x)"
  using assms by (auto simp: retired_leases_def preserved_leases_def without_leases_def fun_eq_iff image_iff intro!: filter_cong)

lemma without_leases_Cons:
  "without_leases L (l # ls) =
    (if L (il_thread_id l) = Some l then (without_leases L ls)(il_thread_id l := None) else without_leases L ls)"
  by (auto simp: without_leases_def fun_eq_iff)

lemma il_retire_result:
  assumes "il_retire e ls ret pres d = (d', Inr receipt)" and "il_readable e d" and "distinct (map il_thread_id ls)"
  shows "il_readable e d' \<and> il_stored e d' = without_leases (il_stored e d) ls
    \<and> br_retired_thread_ids receipt = ret @ map il_thread_id (retired_leases (il_stored e d) ls)
    \<and> br_preserved_thread_ids receipt = pres @ map il_thread_id (preserved_leases (il_stored e d) ls)"
  using assms
proof (induction ls arbitrary: ret pres d)
  case Nil
  then show ?case by (auto simp: without_leases_def retired_leases_def preserved_leases_def)
next
  case (Cons l ls)
  let ?L = "il_stored e d" let ?t = "il_thread_id l"
  obtain d1 ok where m: "il_release_if_matches_raw e l d = (d1, Inr ok)"
    using Cons.prems(1) by (auto simp: bindc_eq_Inr)
  note out = il_release_if_matches_raw_outcome [OF m Cons.prems(2)]
  have dist: "distinct (map il_thread_id ls)" using Cons.prems(3) by simp
  show ?case
  proof (cases "?L ?t = Some l")
    case True
    then have ok and s1: "il_stored e d1 = ?L(?t := None)" and r1: "il_readable e d1"
      using out by (auto simp: commits_or_keeps_def spec_drop_if_def)
    then have "il_retire e ls (ret @ [?t]) pres d1 = (d', Inr receipt)" using Cons.prems(1) m by simp
    note ih = Cons.IH [OF this r1 dist, unfolded s1 retired_after_drop [OF Cons.prems(3)]]
    have "retired_leases ?L (l # ls) = l # retired_leases ?L ls" "preserved_leases ?L (l # ls) = preserved_leases ?L ls"
      by (simp_all add: retired_leases_def preserved_leases_def True)
    with ih True show ?thesis by (simp only: without_leases_Cons if_True append_assoc append.simps list.map simp_thms)
  next
    case False
    then have "\<not> ok" and s1: "il_stored e d1 = ?L" and r1: "il_readable e d1"
      using out by (auto simp: commits_or_keeps_def spec_drop_if_def split: option.splits)
    then obtain d2 c where ld: "il_load_raw e ?t d1 = (d2, Inr c)"
      and k: "(if c \<noteq> Some l then il_retire e ls ret (pres @ [?t]) d2
        else (d2, Inl (Unavailable ''exact backend-stop lease retirement was not confirmed''))) = (d', Inr receipt)"
      using Cons.prems(1) m by (auto simp: bindc_eq_Inr)
    then have k: "il_retire e ls ret (pres @ [?t]) d2 = (d', Inr receipt)" by (auto split: if_splits)
    from il_load_raw_keeps [OF ld r1] s1 have s2: "il_stored e d2 = ?L" and r2: "il_readable e d2" by auto
    from Cons.IH [OF k r2 dist] show ?thesis
      by (simp add: s2 without_leases_Cons False)
        (simp add: retired_leases_def preserved_leases_def False)
  qed
qed

lemma il_retire_frame:
  assumes "il_retire e ls ret pres d = (d', r)" and "il_readable e d"
    and "\<forall>l \<in> set ls. il_thread_id l = t \<longrightarrow> il_stored e d t \<noteq> Some l"
  shows "il_readable e d' \<and> il_stored e d' t = il_stored e d t"
  using assms
proof (induction ls arbitrary: ret pres d)
  case (Cons l ls)
  obtain d1 q where m: "il_release_if_matches_raw e l d = (d1, q)" by fastforce
  note out = il_release_if_matches_raw_outcome [OF m Cons.prems(2)]
  have s1: "il_stored e d1 t = il_stored e d t" and r1: "il_readable e d1"
    using out Cons.prems(3) by (auto simp: commits_or_keeps_def spec_drop_if_def split: sum.splits option.splits if_splits)
  have next_ok: "il_readable e d' \<and> il_stored e d' t = il_stored e d t"
    if "il_retire e ls a b d2 = (d', r)" "il_readable e d2" "il_stored e d2 = il_stored e d1" for a b d2
    using Cons.IH [OF that(1,2)] Cons.prems(3) s1 that(3) by simp
  obtain d2 c where ld: "il_load_raw e (il_thread_id l) d1 = (d2, c)" by fastforce
  note l2 = il_load_raw_keeps [OF ld r1]
  show ?case
    using Cons.prems(1) m ld l2 next_ok [OF _ r1 refl] next_ok [of _ _ d2] s1 r1
    by (cases q; cases c) (auto split: if_splits)
qed simp

section \<open>Holder identities\<close>

text \<open>A length prefix makes the fcodex identity of a participant and a connection injective.\<close>

lemma length_prefixed_inject:
  assumes "show_nat (length p) @ '':'' @ p @ c = show_nat (length q) @ '':'' @ q @ c'"
  shows "p = q \<and> c = c'"
proof -
  have mark: "\<not> digit_char (CHR '':'')" by (simp add: digit_char_def)
  have "show_nat (length p) @ CHR '':'' # (p @ c) = show_nat (length q) @ CHR '':'' # (q @ c')"
    using assms by simp
  from split_at_mark [OF show_nat_digits show_nat_digits mark this] show ?thesis by (auto simp: append_eq_append_conv)
qed

lemma fcodex_holder_id_inject:
  assumes "make_fcodex_interaction_holder e p c pid = Inr h"
    and "make_fcodex_interaction_holder e' p' c' pid' = Inr h'"
    and "strip c \<noteq> []" and "strip c' \<noteq> []"
    and "same_holder h h'"
  shows "strip p = strip p' \<and> strip c = strip c'"
  using assms length_prefixed_inject [of "strip p" "strip c" "strip p'" "strip c'"]
  by (auto simp: make_fcodex_interaction_holder_def same_holder_def Let_def split: if_splits)

lemma frontend_holders_apart:
  assumes "make_fcodex_interaction_holder e p c pid = Inr hf" and "make_web_interaction_holder e w pid = Inr hw"
  shows "\<not> same_holder hf hw" and "\<not> same_holder (make_feishu_interaction_holder e s ch pid) hf"
    and "\<not> same_holder (make_feishu_interaction_holder e s ch pid) hw"
  using assms
  by (auto simp: make_fcodex_interaction_holder_def make_web_interaction_holder_def
      make_feishu_interaction_holder_def same_holder_def Let_def split: if_splits)

section \<open>Sequences: mutual exclusion\<close>

lemma run_held:
  assumes "held e l d" and "\<forall>x \<in> set xs. op_ok e x \<and> \<not> may_end x l"
  shows "held e l (run_ops (il_step e) d xs)"
  using assms by (induction xs arbitrary: d) (auto intro: il_step_held)

lemma acquired_held:
  assumes run: "il_acquire e t ho fresh now d = (d', Inr res)" and rd: "il_readable e d" and ok: "op_ok e (OpAcquire t ho fresh now)"
    and g: "ar_granted res"
  shows "\<exists>l. ar_lease res = Some l \<and> il_thread_id l = strip t \<and> held e l d'
    \<and> (\<exists>h. normalize_holder (procs e) ho = Inr h \<and> il_holder l = h)"
proof -
  have t: "strip t \<noteq> []" using run g by (auto simp: il_acquire_def)
  then obtain h where n: "normalize_holder (procs e) ho = Inr h"
    using run by (cases "normalize_holder (procs e) ho") (auto simp: il_acquire_def)
  have out: "commits_or_keeps (il_ledger e d)
      (spec_acquire (il_ledger e d) (strip t) h (new_lease (strip t) h fresh now))
      (il_ledger e d') (Inr res) \<and> il_readable e d'"
    by (rule il_acquire_outcome [OF run rd t n]) (use ok n in auto)
  have "il_ledger e d (strip t) = Some c \<Longrightarrow> il_thread_id c = strip t" for c
    using il.ledger_wf by blast
  then show ?thesis
    using out g n
    by (auto simp: commits_or_keeps_def spec_acquire_def held_def same_generation_def same_holder_def new_lease_def
        split: option.splits if_splits)
qed

lemma held_refuses:
  assumes h: "held e l d" and run: "il_acquire e t ho fresh now d = (d', Inr res)"
    and ok: "op_ok e (OpAcquire t ho fresh now)" and t: "strip t = il_thread_id l"
    and n: "normalize_holder (procs e) ho = Inr h'" and other: "\<not> same_holder (il_holder l) h'"
  shows "\<not> ar_granted res \<and> (\<exists>c. ar_lease res = Some c \<and> same_generation l c) \<and> held e l d'"
proof -
  obtain c where c: "il_ledger e d (strip t) = Some c" "same_generation l c" and rd: "il_readable e d"
    using h t by (auto simp: held_def)
  have "strip t \<noteq> []" using il.ledger_wf [OF c(1)] by (auto simp: lease_wf_def)
  then have "commits_or_keeps (il_ledger e d)
      (spec_acquire (il_ledger e d) (strip t) h' (new_lease (strip t) h' fresh now))
      (il_ledger e d') (Inr res) \<and> il_readable e d'"
    by (rule il_acquire_outcome [OF run rd _ n]) (use ok n in auto)
  moreover have "\<not> same_holder (il_holder c) h'"
    using c(2) other by (auto simp: same_generation_def same_holder_def)
  ultimately show ?thesis
    using c t by (auto simp: commits_or_keeps_def spec_acquire_def held_def)
qed

lemma il_acquire_returns:
  assumes "il_readable e d" and "faults d = []" and "normalize_holder (procs e) ho = Inr h"
  shows "\<exists>d' res. il_acquire e t ho fresh now d = (d', Inr res)"
proof (cases "strip t = []")
  case False
  obtain d1 data where l: "il_locked e d = (d1, Inr data)" and f: "faults d1 = []"
    using il.locked_data_runs [OF assms(1,2)] by (auto simp: il_locked_def)
  obtain c where "lease_at e data (strip t) = Inr c" using il_lease_at [OF l] by blast
  with f have "\<exists>d' res. il_acquire_locked e (strip t) h fresh now d1 data = (d', Inr res)"
    by (cases c) (auto simp: il_acquire_locked_def Let_def write_all_no_faults)
  with l assms(3) False show ?thesis by (simp add: il_acquire_def)
qed (simp add: il_acquire_def)

lemma il_locked_raw_runs:
  assumes "il_readable e d" and "faults d = []"
  shows "\<exists>data. il_locked_raw e d = (d, Inr data) \<and> (\<forall>t. lease_at e data t = Inr (il_stored e d t))"
proof -
  obtain data where "il_locked_raw e d = (d, Inr data)"
    using assms by (auto simp: il_locked_raw_def locked_data_def no_prune_def readable_def)
  with no_prune_view [OF this] il_raw_lease_at show ?thesis by metis
qed

lemma il_release_raw_returns:
  assumes "il_readable e d" and "faults d = []"
  shows "\<exists>d' ok. il_release_if_matches_raw e x d = (d', Inr ok) \<and> faults d' = []"
proof -
  obtain data where l: "il_locked_raw e d = (d, Inr data)" and at: "\<And>t. lease_at e data t = Inr (il_stored e d t)"
    using il_locked_raw_runs [OF assms] by blast
  show ?thesis
    using assms(2)
    by (auto simp: il_release_if_matches_raw_def release_expected_def l drop_when_def at drop_record_def
        write_all_no_faults Let_def split: option.splits)
qed

lemma il_retire_returns:
  assumes "il_readable e d" and "faults d = []"
  shows "\<exists>d' receipt. il_retire e ls ret pres d = (d', Inr receipt)"
  using assms
proof (induction ls arbitrary: ret pres d)
  case (Cons l ls)
  obtain d1 ok where m: "il_release_if_matches_raw e l d = (d1, Inr ok)" and f: "faults d1 = []"
    using il_release_raw_returns [OF Cons.prems] by blast
  note out = il_release_if_matches_raw_outcome [OF m Cons.prems(1)]
  then have r: "il_readable e d1" by simp
  show ?case
  proof (cases ok)
    case True
    then show ?thesis using m Cons.IH [OF r f] by simp
  next
    case False
    have ne: "il_stored e d1 (il_thread_id l) \<noteq> Some l"
      using out False by (auto simp: commits_or_keeps_def spec_drop_if_def split: option.splits if_splits)
    obtain data where k: "il_locked_raw e d1 = (d1, Inr data)" and at: "\<And>t. lease_at e data t = Inr (il_stored e d1 t)"
      using il_locked_raw_runs [OF r f] by blast
    have "il_stored e d1 (strip (il_thread_id l)) = Some l \<Longrightarrow> strip (il_thread_id l) = il_thread_id l"
      using il_raw.ledger_wf by (blast intro: sym)
    with ne have c: "(if strip (il_thread_id l) = [] then None else il_stored e d1 (strip (il_thread_id l))) \<noteq> Some l"
      by auto
    have "il_load_raw e (il_thread_id l) d1 =
        (d1, Inr (if strip (il_thread_id l) = [] then None else il_stored e d1 (strip (il_thread_id l))))"
      by (simp add: il_load_raw_def k at)
    then show ?thesis using m False c Cons.IH [OF r f] by simp
  qed
qed simp

section \<open>Concrete inputs\<close>

definition demo_env :: lease_env where
  "demo_env = \<lparr>procs = demo_procs, legacy_uuid5 = (\<lambda>_ _ _. 0)\<rparr>"

definition demo_web :: interaction_lease_holder where
  "demo_web = \<lparr>ih_kind = ''web'', ih_holder_id = ''web:c1'', ih_owner_pid = 7, ih_sender_id = [], ih_chat_id = [],
     ih_participant_id = [], ih_connection_id = [], ih_owner_process_identity = []\<rparr>"

definition demo_feishu :: interaction_lease_holder where
  "demo_feishu = demo_web\<lparr>ih_kind := ''feishu'', ih_holder_id := ''u1:c1''\<rparr>"

lemma demo_readable: "il_readable e demo_disk"
  by (simp add: readable_def read_all_def read_versioned_records_def demo_disk_def)

lemma demo_normal: "normalize_holder demo_procs demo_web = Inr (demo_web\<lparr>ih_owner_process_identity := ''linux:b1:42''\<rparr>)"
  "normalize_holder demo_procs demo_feishu = Inr (demo_feishu\<lparr>ih_owner_process_identity := ''linux:b1:42''\<rparr>)"
  by code_simp+

lemma demo_live: "holder_live demo_procs (demo_web\<lparr>ih_owner_process_identity := ''linux:b1:42''\<rparr>)"
  "holder_live demo_procs (demo_feishu\<lparr>ih_owner_process_identity := ''linux:b1:42''\<rparr>)"
  by code_simp+


definition demo_lease :: interaction_lease where
  "demo_lease = new_lease ''t1'' (demo_web\<lparr>ih_owner_process_identity := ''linux:b1:42''\<rparr>) 5 10"

lemma demo_locked: "il_locked demo_env demo_disk = (demo_disk, Inr [])"
  by (simp add: il_locked_def locked_data_def read_all_def read_versioned_records_def demo_disk_def prune_stale_leases_def)

lemma demo_fields: "procs demo_env = demo_procs" "faults demo_disk = []"
  by (simp_all add: demo_env_def demo_disk_def)

lemma demo_acquired:
  "il_acquire demo_env ''t1'' demo_web 5 10 demo_disk =
     (demo_disk\<lparr>content := Text (envelope [(''t1'', serialize_lease demo_lease)] 1)\<rparr>,
      Inr \<lparr>ar_granted = True, ar_lease = Some demo_lease, ar_acquired = True\<rparr>)"
  by (simp add: il_acquire_def demo_strip demo_fields demo_normal demo_locked il_acquire_locked_def
      lease_at_def demo_lease_def write_all_no_faults Let_def)

lemma demo_lease_wf: "lease_wf demo_lease" "lease_live demo_env demo_lease" "il_thread_id demo_lease = ''t1''"
proof -
  have "holder_wf (demo_web\<lparr>ih_owner_process_identity := ''linux:b1:42''\<rparr>)"
    by (rule normalize_holder_wf [OF demo_normal(1)])
  then show "lease_wf demo_lease"
    unfolding demo_lease_def by (rule new_lease_wf) (simp_all add: demo_strip)
qed (simp_all add: demo_lease_def demo_live demo_fields)

lemma demo_op_ok: "op_ok demo_env (OpAcquire ''t1'' demo_web 5 10)" "op_ok demo_env (OpAcquire ''t1'' demo_feishu 6 11)"
  by (simp_all add: demo_fields demo_normal demo_live)

lemma demo_other: "\<not> same_holder (il_holder demo_lease) (demo_feishu\<lparr>ih_owner_process_identity := ''linux:b1:42''\<rparr>)"
  by (simp add: same_holder_def demo_lease_def new_lease_def demo_feishu_def demo_web_def)

definition demo_held_disk :: disk where
  "demo_held_disk = demo_disk\<lparr>content := Text (envelope [(''t1'', serialize_lease demo_lease)] 1)\<rparr>"

lemma demo_held: "il_readable demo_env demo_held_disk" "il_ledger demo_env demo_held_disk = [''t1'' \<mapsto> demo_lease]"
  "il_stored demo_env demo_held_disk = [''t1'' \<mapsto> demo_lease]"
proof -
  have ok: "records_ok (lease_from_data demo_env) (AList.update ''t1'' (serialize_lease demo_lease) [])"
    using il.record_ok_enc [OF demo_lease_wf(1,2)] by (intro records_ok_update) (simp_all add: demo_lease_wf(3) records_ok_def)
  have c: "content demo_held_disk = Text (envelope (AList.update ''t1'' (serialize_lease demo_lease) []) 1)"
    by (simp add: demo_held_disk_def)
  have e: "record_view (lease_from_data demo_env) l [] = Map.empty" for l
    by (auto simp: record_view_def)
  show "il_readable demo_env demo_held_disk" "il_ledger demo_env demo_held_disk = [''t1'' \<mapsto> demo_lease]"
    "il_stored demo_env demo_held_disk = [''t1'' \<mapsto> demo_lease]"
    using il.stored_view [OF ok c, of demo_env] il_raw.stored_view [OF ok c, of demo_env]
      il.view_enc [OF demo_lease_wf(1,2), of "[]"] il_raw.view_enc [OF demo_lease_wf(1), of demo_env "[]"]
    by (auto simp: demo_lease_wf(3) e)
qed

lemma demo_empty: "[''t1'' \<mapsto> x](''t1'' := None) = Map.empty"
  by auto

definition demo_capture :: backend_stop_capture where
  "demo_capture = \<lparr>bc_owner_pid = 7, bc_owner_process_identity = ''linux:b1:42'', bc_leases = [demo_lease]\<rparr>"

lemma demo_capture_valid: "valid_capture demo_env demo_capture = Inr ()"
proof -
  have "current_process_incarnation demo_env = Inr (7, ''linux:b1:42'')"
    by code_simp
  then show ?thesis
    by (simp add: valid_capture_def demo_capture_def demo_lease_def new_lease_def demo_web_def)
qed

section \<open>Properties\<close>

text \<open>
  C1. \<open>acquire\<close> implements the abstract ledger: a thread without a lease goes to the caller
  with a fresh generation, the same logical holder keeps its generation and has its process
  data refreshed, and any other holder is refused without a change. When the call raises,
  the ledger is either unchanged or already the specified one.
\<close>

theorem acquire_refines_ledger:
  assumes "il_acquire e thread_id holder fresh now d = (d', r)" and "il_readable e d"
    and "strip thread_id \<noteq> []" and "normalize_holder (procs e) holder = Inr h"
    and "holder_live (procs e) h" and "0 \<le> now"
  shows "commits_or_keeps (il_ledger e d)
      (spec_acquire (il_ledger e d) (strip thread_id) h (new_lease (strip thread_id) h fresh now))
      (il_ledger e d') r \<and> il_readable e d'"
  using assms by (rule il_acquire_outcome)

theorem acquire_refines_ledger_witness:
  "il_ledger demo_env (fst (il_acquire demo_env ''t1'' demo_web 5 10 demo_disk)) = [''t1'' \<mapsto> demo_lease]"
proof -
  have "il_ledger demo_env demo_disk = Map.empty"
    by (auto simp: ledger_def read_all_def read_versioned_records_def demo_disk_def record_view_def)
  then show ?thesis
    using acquire_refines_ledger [OF demo_acquired demo_readable _ _ demo_live(1) [folded demo_fields(1)]]
    by (simp add: demo_strip demo_normal demo_fields demo_acquired demo_lease_def commits_or_keeps_def spec_acquire_def)
qed





text \<open>
  \<open>release_if_matches\<close> is exact: it removes the lease only if the stored one equals the
  expected generation in every field, so a reacquired lease of the same holder survives a
  late release of the previous generation.
\<close>

theorem release_if_matches_exact:
  assumes "il_release_if_matches e expected d = (d', r)" and "il_readable e d"
  shows "commits_or_keeps (il_ledger e d)
      (if il_ledger e d (il_thread_id expected) = Some expected
       then ((il_ledger e d)(il_thread_id expected := None), True) else (il_ledger e d, False))
      (il_ledger e d') r \<and> il_readable e d'"
  using il_release_if_matches_outcome [OF assms] by (auto simp: spec_drop_if_def split: option.splits if_splits)

theorem release_if_matches_exact_witness:
  "commits_or_keeps [''t1'' \<mapsto> demo_lease] (Map.empty, True)
     (il_ledger demo_env (fst (il_release_if_matches demo_env demo_lease demo_held_disk)))
     (snd (il_release_if_matches demo_env demo_lease demo_held_disk))"
  using release_if_matches_exact [OF prod.collapse [symmetric] demo_held(1), of demo_lease] demo_held(2)
  by (simp add: demo_lease_wf(3) demo_empty)

text \<open>
  \<open>activate_turn\<close> binds a turn to exactly the expected generation: a different generation,
  another holder or another bound turn leaves the ledger as it is and yields no lease.
\<close>

theorem activate_turn_refines_ledger:
  assumes "il_activate_turn e expected turn_id d = (d', r)" and "il_readable e d"
    and "strip (il_thread_id expected) = il_thread_id expected" and "il_thread_id expected \<noteq> []"
    and "strip turn_id \<noteq> []"
  shows "commits_or_keeps (il_ledger e d) (spec_activate (il_ledger e d) expected (strip turn_id))
      (il_ledger e d') r \<and> il_readable e d'"
  using assms by (rule il_activate_turn_outcome)

theorem activate_turn_refines_ledger_witness:
  "commits_or_keeps [''t1'' \<mapsto> demo_lease]
     ([''t1'' \<mapsto> demo_lease\<lparr>il_turn_id := ''u1''\<rparr>], Some (demo_lease\<lparr>il_turn_id := ''u1''\<rparr>))
     (il_ledger demo_env (fst (il_activate_turn demo_env demo_lease ''u1'' demo_held_disk)))
     (snd (il_activate_turn demo_env demo_lease ''u1'' demo_held_disk))"
proof -
  have turn: "il_turn_id demo_lease = []" by (simp add: demo_lease_def new_lease_def)
  show ?thesis
    using activate_turn_refines_ledger [OF prod.collapse [symmetric] demo_held(1), of demo_lease "''u1''"]
    by (simp add: demo_held(2) demo_lease_wf(3) demo_strip spec_activate_def same_holder_def turn)
qed

text \<open>
  C4. Retirement after a backend stop removes exactly the captured generations that are still
  stored, reports them in capture order, and reports the others as preserved.
\<close>

theorem retirement_is_exact:
  assumes "il_retire_after_backend_stop e c d = (d', Inr receipt)" and "il_readable e d"
  shows "il_stored e d' = without_leases (il_stored e d) (bc_leases c)
    \<and> br_retired_thread_ids receipt = map il_thread_id (retired_leases (il_stored e d) (bc_leases c))
    \<and> br_preserved_thread_ids receipt = map il_thread_id (preserved_leases (il_stored e d) (bc_leases c))"
proof -
  have "distinct (map il_thread_id (bc_leases c))" and "il_retire e (bc_leases c) [] [] d = (d', Inr receipt)"
    using assms(1) by (auto simp: il_retire_after_backend_stop_def valid_capture_def split: sum.splits prod.splits if_splits)
  from il_retire_result [OF this(2) assms(2) this(1)] show ?thesis by simp
qed

theorem retirement_is_exact_witness:
  "\<exists>d' receipt. il_retire_after_backend_stop demo_env demo_capture demo_held_disk = (d', Inr receipt)
    \<and> br_retired_thread_ids receipt = [''t1''] \<and> br_preserved_thread_ids receipt = []"
proof -
  have f: "faults demo_held_disk = []" by (simp add: demo_held_disk_def demo_fields)
  obtain d' receipt where r: "il_retire_after_backend_stop demo_env demo_capture demo_held_disk = (d', Inr receipt)"
    using il_retire_returns [OF demo_held(1) f] by (simp add: il_retire_after_backend_stop_def demo_capture_valid) blast
  have "bc_leases demo_capture = [demo_lease]" by (simp add: demo_capture_def)
  with r retirement_is_exact [OF r demo_held(1)] show ?thesis
    by (simp add: demo_held(3) retired_leases_def preserved_leases_def demo_lease_wf(3))
qed



text \<open>
  The fcodex identity of a participant and its connection is unambiguous: two holders that
  count as the same owner come from the same participant and the same connection.
\<close>

theorem fcodex_identity_injective:
  assumes "make_fcodex_interaction_holder e p c pid = Inr h"
    and "make_fcodex_interaction_holder e' p' c' pid' = Inr h'"
    and "strip c \<noteq> []" and "strip c' \<noteq> []" and "same_holder h h'"
  shows "strip p = strip p' \<and> strip c = strip c'"
  using assms by (rule fcodex_holder_id_inject)

theorem fcodex_identity_injective_witness:
  "\<exists>h. make_fcodex_interaction_holder demo_procs ''t1'' ''u1'' 7 = Inr h \<and> strip ''t1'' = ''t1''"
proof -
  obtain h where h: "make_fcodex_interaction_holder demo_procs ''t1'' ''u1'' 7 = Inr h"
    by (simp add: make_fcodex_interaction_holder_def demo_strip Let_def)
  have "strip ''t1'' = strip ''t1'' \<and> strip ''u1'' = strip ''u1''"
    by (rule fcodex_identity_injective [OF h h]) (simp_all add: demo_strip same_holder_def)
  with h show ?thesis by (simp add: demo_strip)
qed

text \<open>
  C39. Whatever JSON stands under a key of the file, a lease that is decoded from it is well-formed: its
  thread is the key, its generation is a canonical UUID, its ids are trimmed, the
  holder is named, and times and process ids are not negative.
\<close>

theorem decoded_lease_is_well_formed:
  assumes "lease_from_data e k j = Inr (Some l)" and "strip k = k" and "k \<noteq> []"
  shows "il_thread_id l = k \<and> canon_uuid (il_lease_id l) = Some (il_lease_id l) \<and> 0 \<le> il_updated_at l
    \<and> strip (il_turn_id l) = il_turn_id l \<and> ih_kind (il_holder l) \<noteq> [] \<and> ih_holder_id (il_holder l) \<noteq> []
    \<and> 0 \<le> ih_owner_pid (il_holder l) \<and> strip (ih_holder_id (il_holder l)) = ih_holder_id (il_holder l)"
  using lease_from_data_wf [OF assms(1,3,2)] by (simp add: lease_wf_def holder_wf_def)

theorem decoded_lease_is_well_formed_witness:
  "il_thread_id demo_lease = ''t1'' \<and> canon_uuid (il_lease_id demo_lease) = Some (il_lease_id demo_lease)"
proof -
  have d: "lease_from_data demo_env ''t1'' (serialize_lease demo_lease) = Inr (Some demo_lease)"
    using lease_from_serialized [OF demo_lease_wf(1)] by (simp add: demo_lease_wf(3))
  show ?thesis using decoded_lease_is_well_formed [OF d] by (simp add: demo_strip)
qed

end
