(* ===== verification/Thread_Runtime_Lease.thy ===== *)
theory Thread_Runtime_Lease
  imports Versioned_Records Process_Utils
begin

text \<open>
  The machine-level lease of live backend residency
  (\<open>bot/stores/thread_runtime_lease_store.py\<close>): which instance, with which holders, keeps a
  thread loaded. Several holders of one instance and one service generation share a lease;
  holders of another instance or generation are refused.

  The file, its envelope and the file lock are those of \<open>Versioned_Records\<close>. Reading a
  record already drops the holders whose process is gone, so a record stands for the lease
  of its live holders, and for nothing when there are none.
\<close>

section \<open>Data\<close>

record thread_runtime_lease_holder =
  trh_holder_id :: string
  trh_holder_type :: string
  trh_instance_name :: string
  trh_owner_pid :: int
  trh_owner_service_token :: string
  trh_control_endpoint :: string
  trh_backend_url :: string
  trh_updated_at :: rat
  trh_owner_process_identity :: string

record thread_runtime_lease =
  trl_thread_id :: string
  trl_owner_instance :: string
  trl_owner_service_token :: string
  trl_control_endpoint :: string
  trl_backend_url :: string
  trl_attached_at :: rat
  trl_holders :: "thread_runtime_lease_holder list"

record thread_runtime_acquire_result =
  tra_granted :: bool
  tra_acquired :: bool
  tra_lease :: "thread_runtime_lease option"

text \<open>\<open>a or b\<close> on strings.\<close>

definition or_else :: "string \<Rightarrow> string \<Rightarrow> string" where
  "or_else a b = (if a = [] then b else a)"

definition trh_normalize :: "proc_env \<Rightarrow> rat \<Rightarrow> thread_runtime_lease_holder \<Rightarrow> store_exn + thread_runtime_lease_holder" where
  "trh_normalize e clock h =
     (let holder_id = strip (trh_holder_id h);
          instance_name = lower (strip (trh_instance_name h));
          pid = trh_owner_pid h;
          token = strip (trh_owner_service_token h);
          updated_at = (if trh_updated_at h = 0 then clock else trh_updated_at h)
      in if holder_id = [] \<or> instance_name = [] \<or> pid < 0 \<or> token = [] \<or> updated_at < 0 then Inl ValueErr
         else let ident = strip (trh_owner_process_identity h)
              in Inr \<lparr>trh_holder_id = holder_id,
                      trh_holder_type = or_else (strip (trh_holder_type h)) ''unknown'',
                      trh_instance_name = instance_name,
                      trh_owner_pid = pid,
                      trh_owner_service_token = token,
                      trh_control_endpoint = strip (trh_control_endpoint h),
                      trh_backend_url = strip (trh_backend_url h),
                      trh_updated_at = updated_at,
                      trh_owner_process_identity =
                        (if 0 < pid \<and> ident = [] then process_identity e pid else ident)\<rparr>)"

section \<open>One record\<close>

definition serialize_runtime_holder :: "thread_runtime_lease_holder \<Rightarrow> json" where
  "serialize_runtime_holder h = JObj
     [(''holder_id'', JStr (trh_holder_id h)),
      (''holder_type'', JStr (trh_holder_type h)),
      (''instance_name'', JStr (trh_instance_name h)),
      (''owner_pid'', JInt (trh_owner_pid h)),
      (''owner_service_token'', JStr (trh_owner_service_token h)),
      (''control_endpoint'', JStr (trh_control_endpoint h)),
      (''backend_url'', JStr (trh_backend_url h)),
      (''updated_at'', JFloat (Fin (trh_updated_at h))),
      (''owner_process_identity'', JStr (trh_owner_process_identity h))]"

definition serialize_runtime_lease :: "thread_runtime_lease \<Rightarrow> json" where
  "serialize_runtime_lease l = JObj
     [(''thread_id'', JStr (trl_thread_id l)),
      (''owner_instance'', JStr (trl_owner_instance l)),
      (''owner_service_token'', JStr (trl_owner_service_token l)),
      (''control_endpoint'', JStr (trl_control_endpoint l)),
      (''backend_url'', JStr (trl_backend_url l)),
      (''attached_at'', JFloat (Fin (trl_attached_at l))),
      (''holders'', JArr (map serialize_runtime_holder (trl_holders l)))]"

definition runtime_holder_from_data :: "json \<Rightarrow> dec_exn + thread_runtime_lease_holder" where
  "runtime_holder_from_data j =
     bindr (as_obj (Some j)) (\<lambda>raw.
     bindr (require BadValue
       (has_fields [''holder_id'', ''holder_type'', ''instance_name'', ''owner_pid'',
          ''owner_service_token'', ''control_endpoint'', ''backend_url'', ''updated_at'']
          [''owner_process_identity''] raw)) (\<lambda>_.
     bindr (as_str (map_of raw ''holder_id'')) (\<lambda>holder_id.
     bindr (as_str (map_of raw ''holder_type'')) (\<lambda>holder_type.
     bindr (as_str (map_of raw ''instance_name'')) (\<lambda>instance_name.
     bindr (as_str (map_of raw ''owner_service_token'')) (\<lambda>token.
     bindr (as_str (map_of raw ''control_endpoint'')) (\<lambda>control_endpoint.
     bindr (as_str (map_of raw ''backend_url'')) (\<lambda>backend_url.
     bindr (require BadValue (opt_str_field raw ''owner_process_identity'')) (\<lambda>_.
     bindr (as_int (map_of raw ''owner_pid'')) (\<lambda>pid.
     bindr (as_float (map_of raw ''updated_at'')) (\<lambda>updated_at.
     bindr (require BadValue
       (strip holder_id \<noteq> [] \<and> strip instance_name \<noteq> [] \<and> 0 \<le> pid \<and> strip token \<noteq> [])) (\<lambda>_.
     bindr (finite_nonneg updated_at) (\<lambda>ts.
       Inr \<lparr>trh_holder_id = strip holder_id,
            trh_holder_type = or_else (strip holder_type) ''unknown'',
            trh_instance_name = lower (strip instance_name),
            trh_owner_pid = pid,
            trh_owner_service_token = strip token,
            trh_control_endpoint = strip control_endpoint,
            trh_backend_url = strip backend_url,
            trh_updated_at = ts,
            trh_owner_process_identity = strip (the_str (map_of raw ''owner_process_identity''))\<rparr>)))))))))))))"

fun parse_holders ::
  "string \<Rightarrow> string list \<Rightarrow> json list \<Rightarrow> dec_exn + thread_runtime_lease_holder list" where
  "parse_holders owner seen [] = Inr []"
| "parse_holders owner seen (item # rest) =
     bindr (runtime_holder_from_data item) (\<lambda>h.
       if trh_holder_id h \<in> set seen then Inl BadValue
       else if trh_instance_name h \<noteq> owner then Inl BadValue
       else bindr (parse_holders owner (trh_holder_id h # seen) rest) (\<lambda>hs. Inr (h # hs)))"

definition runtime_holder_live :: "proc_env \<Rightarrow> thread_runtime_lease_holder \<Rightarrow> bool" where
  "runtime_holder_live e h =
     (let pid = trh_owner_pid h; ident = trh_owner_process_identity h; current = process_identity e pid
      in \<not> (0 < pid \<and> \<not> process_exists e pid)
         \<and> \<not> (0 < pid \<and> ident \<noteq> [] \<and> current \<noteq> [] \<and> current \<noteq> ident))"

definition runtime_lease_from_data :: "proc_env \<Rightarrow> string \<Rightarrow> json \<Rightarrow> dec_exn + thread_runtime_lease option" where
  "runtime_lease_from_data e thread_id j =
     bindr (as_obj (Some j)) (\<lambda>raw.
     bindr (require BadValue
       (has_fields [''thread_id'', ''owner_instance'', ''owner_service_token'', ''control_endpoint'',
          ''backend_url'', ''attached_at'', ''holders''] [''transfer''] raw)) (\<lambda>_.
     bindr (as_str (map_of raw ''thread_id'')) (\<lambda>tid.
     bindr (as_str (map_of raw ''owner_instance'')) (\<lambda>owner_instance.
     bindr (as_str (map_of raw ''owner_service_token'')) (\<lambda>token.
     bindr (as_str (map_of raw ''control_endpoint'')) (\<lambda>control_endpoint.
     bindr (as_str (map_of raw ''backend_url'')) (\<lambda>backend_url.
     bindr (require BadValue (strip tid \<noteq> [] \<and> strip tid = thread_id)) (\<lambda>_.
     bindr (as_float (map_of raw ''attached_at'')) (\<lambda>attached_at.
     bindr (require BadValue (strip owner_instance \<noteq> [] \<and> strip token \<noteq> [])) (\<lambda>_.
     bindr (finite_nonneg attached_at) (\<lambda>ts.
     bindr (as_arr (map_of raw ''holders'')) (\<lambda>holders_raw.
     bindr (require BadValue (holders_raw \<noteq> [])) (\<lambda>_.
     bindr (parse_holders (lower (strip owner_instance)) [] holders_raw) (\<lambda>parsed.
       let holders = filter (runtime_holder_live e) parsed
       in Inr (if holders = [] then None
               else Some \<lparr>trl_thread_id = thread_id,
                          trl_owner_instance = lower (strip owner_instance),
                          trl_owner_service_token = strip token,
                          trl_control_endpoint = strip control_endpoint,
                          trl_backend_url = strip backend_url,
                          trl_attached_at = ts,
                          trl_holders = sort_key trh_holder_id holders\<rparr>)))))))))))))))"

section \<open>Pruning\<close>

text \<open>Every record is rewritten to the serialisation of what it stands for.\<close>

definition clean_record :: "proc_env \<Rightarrow> string \<Rightarrow> json \<Rightarrow> json option" where
  "clean_record e k j =
     (case runtime_lease_from_data e k j of
        Inr (Some l) \<Rightarrow> (if py_eq j (serialize_runtime_lease l) then Some j else Some (serialize_runtime_lease l))
      | _ \<Rightarrow> None)"

definition prune_runtime_leases :: "proc_env \<Rightarrow> jdict \<Rightarrow> bool \<times> jdict" where
  "prune_runtime_leases e data =
     (\<exists>p \<in> set data. case runtime_lease_from_data e (fst p) (snd p) of
          Inr (Some l) \<Rightarrow> \<not> py_eq (snd p) (serialize_runtime_lease l) | _ \<Rightarrow> True,
      List.map_filter (\<lambda>p. map_option (Pair (fst p)) (clean_record e (fst p) (snd p))) data)"

definition trl_locked :: "proc_env \<Rightarrow> disk \<Rightarrow> disk \<times> (store_exn + jdict)" where
  "trl_locked e d = locked_data (runtime_lease_from_data e) (prune_runtime_leases e) d"

definition trl_decode :: "proc_env \<Rightarrow> string \<Rightarrow> json option \<Rightarrow> store_exn + thread_runtime_lease option" where
  "trl_decode e k raw =
     (case raw of
        None \<Rightarrow> Inr None
      | Some j \<Rightarrow>
          (case runtime_lease_from_data e k j of
             Inl BadValue \<Rightarrow> Inl ValueErr
           | Inl BadFloat \<Rightarrow> Inl OverflowErr
           | Inr l \<Rightarrow> Inr l))"

section \<open>The operations of the store\<close>

definition drop_key :: "jdict \<Rightarrow> string \<Rightarrow> 'a \<Rightarrow> disk \<Rightarrow> disk \<times> (store_exn + 'a)" where
  "drop_key data t result d = bindc (write_all d (AList.delete t data)) (\<lambda>d _. (d, Inr result))"

definition put_lease :: "jdict \<Rightarrow> string \<Rightarrow> thread_runtime_lease \<Rightarrow> 'a \<Rightarrow> disk \<Rightarrow> disk \<times> (store_exn + 'a)" where
  "put_lease data t l result d =
     bindc (write_all d (AList.update t (serialize_runtime_lease l) data)) (\<lambda>d _. (d, Inr result))"

definition trl_load :: "proc_env \<Rightarrow> string \<Rightarrow> disk \<Rightarrow> disk \<times> (store_exn + thread_runtime_lease option)" where
  "trl_load e thread_id d =
     (let t = strip thread_id
      in if t = [] then (d, Inr None)
         else bindc (trl_locked e d) (\<lambda>d data.
           case trl_decode e t (map_of data t) of
             Inl ex \<Rightarrow> (d, Inl ex)
           | Inr None \<Rightarrow> (if map_of data t \<noteq> None then drop_key data t None d else (d, Inr None))
           | Inr (Some lease) \<Rightarrow>
               (case map_of data t of
                  None \<Rightarrow> (d, Inr None)
                | Some raw \<Rightarrow>
                    (if \<not> py_eq raw (serialize_runtime_lease lease)
                     then put_lease data t lease (Some lease) d else (d, Inr (Some lease))))))"

text \<open>\<open>{item.holder_id: item for item in lease.holders}\<close> and \<open>sorted(holders.values(), ...)\<close>.\<close>

definition holders_by_id :: "thread_runtime_lease \<Rightarrow> (string, thread_runtime_lease_holder) dict" where
  "holders_by_id l = foldl (\<lambda>m h. AList.update (trh_holder_id h) h m) [] (trl_holders l)"

definition ordered_holders :: "(string, thread_runtime_lease_holder) dict \<Rightarrow> thread_runtime_lease_holder list" where
  "ordered_holders m = sort_key trh_holder_id (map snd m)"

definition first_lease :: "string \<Rightarrow> thread_runtime_lease_holder \<Rightarrow> thread_runtime_lease" where
  "first_lease t h =
     \<lparr>trl_thread_id = t, trl_owner_instance = trh_instance_name h,
      trl_owner_service_token = trh_owner_service_token h,
      trl_control_endpoint = trh_control_endpoint h, trl_backend_url = trh_backend_url h,
      trl_attached_at = trh_updated_at h, trl_holders = [h]\<rparr>"

definition joined_lease :: "string \<Rightarrow> thread_runtime_lease \<Rightarrow> thread_runtime_lease_holder \<Rightarrow> thread_runtime_lease" where
  "joined_lease t current h =
     \<lparr>trl_thread_id = t, trl_owner_instance = trl_owner_instance current,
      trl_owner_service_token = or_else (trh_owner_service_token h) (trl_owner_service_token current),
      trl_control_endpoint = or_else (trh_control_endpoint h) (trl_control_endpoint current),
      trl_backend_url = or_else (trh_backend_url h) (trl_backend_url current),
      trl_attached_at = (if trl_attached_at current = 0 then trh_updated_at h else trl_attached_at current),
      trl_holders = ordered_holders (AList.update (trh_holder_id h) h (holders_by_id current))\<rparr>"

text \<open>The lease of the retained holders, owned by the first of them.\<close>

definition retained_lease :: "string \<Rightarrow> thread_runtime_lease \<Rightarrow> thread_runtime_lease_holder list \<Rightarrow> thread_runtime_lease" where
  "retained_lease t lease retained =
     (let first = hd retained
      in \<lparr>trl_thread_id = t, trl_owner_instance = trh_instance_name first,
          trl_owner_service_token = trh_owner_service_token first,
          trl_control_endpoint = trh_control_endpoint first, trl_backend_url = trh_backend_url first,
          trl_attached_at = trl_attached_at lease, trl_holders = retained\<rparr>)"

definition trl_acquire_locked ::
  "proc_env \<Rightarrow> string \<Rightarrow> thread_runtime_lease_holder \<Rightarrow> disk \<Rightarrow> jdict
    \<Rightarrow> disk \<times> (store_exn + thread_runtime_acquire_result)" where
  "trl_acquire_locked e t h d data =
     (case trl_decode e t (map_of data t) of
        Inl ex \<Rightarrow> (d, Inl ex)
      | Inr None \<Rightarrow>
          (let lease = first_lease t h
           in put_lease data t lease \<lparr>tra_granted = True, tra_acquired = True, tra_lease = Some lease\<rparr> d)
      | Inr (Some current) \<Rightarrow>
          (if trl_owner_instance current \<noteq> trh_instance_name h
           then (d, Inr \<lparr>tra_granted = False, tra_acquired = False, tra_lease = Some current\<rparr>)
           else if trl_owner_service_token current \<noteq> trh_owner_service_token h
           then (d, Inr \<lparr>tra_granted = False, tra_acquired = False, tra_lease = Some current\<rparr>)
           else let acquired = (map_of (holders_by_id current) (trh_holder_id h) = None);
                    lease = joined_lease t current h
                in put_lease data t lease \<lparr>tra_granted = True, tra_acquired = acquired, tra_lease = Some lease\<rparr> d))"

definition trl_acquire ::
  "proc_env \<Rightarrow> rat \<Rightarrow> string \<Rightarrow> thread_runtime_lease_holder \<Rightarrow> disk
    \<Rightarrow> disk \<times> (store_exn + thread_runtime_acquire_result)" where
  "trl_acquire e clock thread_id holder d =
     (let t = strip thread_id
      in if t = [] then (d, Inl ValueErr)
         else case trh_normalize e clock holder of
           Inl ex \<Rightarrow> (d, Inl ex)
         | Inr h \<Rightarrow> bindc (trl_locked e d) (trl_acquire_locked e t h))"

text \<open>Under the lock: remove the holder with this id if \<open>matches\<close> accepts its record.\<close>

definition remove_holder ::
  "proc_env \<Rightarrow> string \<Rightarrow> string \<Rightarrow> (thread_runtime_lease_holder \<Rightarrow> bool) \<Rightarrow> disk \<Rightarrow> jdict \<Rightarrow> disk \<times> (store_exn + bool)" where
  "remove_holder e t holder_id matches d data =
     (case trl_decode e t (map_of data t) of
        Inl ex \<Rightarrow> (d, Inl ex)
      | Inr None \<Rightarrow> (if map_of data t \<noteq> None then drop_key data t False d else (d, Inr False))
      | Inr (Some lease) \<Rightarrow>
          (case map_of (holders_by_id lease) holder_id of
             None \<Rightarrow> (d, Inr False)
           | Some current \<Rightarrow>
               (if \<not> matches current then (d, Inr False)
                else let holders = AList.delete holder_id (holders_by_id lease)
                     in if holders = [] then drop_key data t True d
                        else put_lease data t (retained_lease t lease (ordered_holders holders)) True d)))"

definition trl_release :: "proc_env \<Rightarrow> string \<Rightarrow> string \<Rightarrow> disk \<Rightarrow> disk \<times> (store_exn + bool)" where
  "trl_release e thread_id holder_id d =
     (let t = strip thread_id; hid = strip holder_id
      in if t = [] \<or> hid = [] then (d, Inr False)
         else bindc (trl_locked e d) (remove_holder e t hid (\<lambda>_. True)))"

definition trl_release_if_matches ::
  "proc_env \<Rightarrow> rat \<Rightarrow> string \<Rightarrow> thread_runtime_lease_holder \<Rightarrow> disk \<Rightarrow> disk \<times> (store_exn + bool)" where
  "trl_release_if_matches e clock thread_id expected_holder d =
     (let t = strip thread_id
      in if t = [] then (d, Inr False)
         else case trh_normalize e clock expected_holder of
           Inl ex \<Rightarrow> (d, Inl ex)
         | Inr h \<Rightarrow> bindc (trl_locked e d) (remove_holder e t (trh_holder_id h) (\<lambda>current. current = h)))"

fun trl_leases :: "proc_env \<Rightarrow> jdict \<Rightarrow> string list \<Rightarrow> store_exn + thread_runtime_lease list" where
  "trl_leases e data [] = Inr []"
| "trl_leases e data (k # ks) =
     bindr (trl_decode e k (map_of data k)) (\<lambda>l.
     bindr (trl_leases e data ks) (\<lambda>ls. Inr ((case l of None \<Rightarrow> [] | Some x \<Rightarrow> [x]) @ ls)))"

definition trl_list :: "proc_env \<Rightarrow> disk \<Rightarrow> disk \<times> (store_exn + thread_runtime_lease list)" where
  "trl_list e d = bindc (trl_locked e d) (\<lambda>d data. (d, trl_leases e data (sort (dkeys data))))"

section \<open>Sweeps over all threads\<close>

text \<open>
  The loops \<open>for thread_id in list(data)\<close>: each thread is left, removed or rewritten, and
  reported when it is changed. They look only at the thread's own record.
\<close>

datatype sweep_outcome = Untouched | Removed | Rewritten thread_runtime_lease

fun sweep ::
  "(string \<Rightarrow> json \<Rightarrow> store_exn + sweep_outcome) \<Rightarrow> jdict \<Rightarrow> store_exn + (jdict \<times> string list)" where
  "sweep f [] = Inr ([], [])"
| "sweep f ((k, j) # rest) =
     bindr (f k j) (\<lambda>out.
     bindr (sweep f rest) (\<lambda>(data, changed).
       Inr (case out of
              Untouched \<Rightarrow> ((k, j) # data, changed)
            | Removed \<Rightarrow> (data, k # changed)
            | Rewritten l \<Rightarrow> ((k, serialize_runtime_lease l) # data, k # changed))))"

definition run_sweep ::
  "proc_env \<Rightarrow> (string \<Rightarrow> json \<Rightarrow> store_exn + sweep_outcome) \<Rightarrow> disk \<Rightarrow> disk \<times> (store_exn + string list)" where
  "run_sweep e f d =
     bindc (trl_locked e d) (\<lambda>d data.
       case sweep f data of
         Inl ex \<Rightarrow> (d, Inl ex)
       | Inr (data', changed) \<Rightarrow>
           (if changed \<noteq> [] then bindc (write_all d data') (\<lambda>d _. (d, Inr changed)) else (d, Inr changed)))"

definition sweep_generation :: "proc_env \<Rightarrow> string \<Rightarrow> string \<Rightarrow> string \<Rightarrow> json \<Rightarrow> store_exn + sweep_outcome" where
  "sweep_generation e inst token k j =
     bindr (trl_decode e k (Some j)) (\<lambda>l.
       case l of
         None \<Rightarrow> Inr Untouched
       | Some lease \<Rightarrow>
           (if trl_owner_instance lease \<noteq> inst then Inr Untouched
            else let retained = filter (\<lambda>h. trh_owner_service_token h \<noteq> token) (trl_holders lease)
                 in if length retained = length (trl_holders lease) then Inr Untouched
                    else if retained = [] then Inr Removed
                    else Inr (Rewritten (retained_lease k lease (sort_key trh_holder_id retained)))))"

definition trl_release_generation ::
  "proc_env \<Rightarrow> string \<Rightarrow> string \<Rightarrow> disk \<Rightarrow> disk \<times> (store_exn + string list)" where
  "trl_release_generation e instance_name owner_service_token d =
     (let inst = lower (strip instance_name); token = strip owner_service_token
      in if inst = [] \<or> token = [] then (d, Inr [])
         else bindc (run_sweep e (sweep_generation e inst token) d) (\<lambda>d changed. (d, Inr (sort changed))))"

text \<open>
  The retired \<open>transfer\<close> field of version-0 records. \<open>str(x or "")\<close> is written out for texts,
  integers and booleans; pruning has removed the field before any operation looks for it.
\<close>

fun legacy_text :: "json option \<Rightarrow> string" where
  "legacy_text (Some (JStr s)) = s"
| "legacy_text (Some (JInt n)) = (if n = 0 then [] else show_int n)"
| "legacy_text (Some (JBool b)) = (if b then ''True'' else [])"
| "legacy_text _ = []"

definition legacy_transfer_touches_instance :: "json option \<Rightarrow> string \<Rightarrow> bool" where
  "legacy_transfer_touches_instance raw inst =
     (case raw of
        Some (JObj ps) \<Rightarrow>
          (case map_of ps ''transfer'' of
             Some (JObj payload) \<Rightarrow>
               lower (strip (legacy_text (map_of payload ''owner_instance''))) = inst
               \<or> lower (strip (legacy_text (map_of payload ''target_instance''))) = inst
           | _ \<Rightarrow> False)
      | _ \<Rightarrow> False)"

definition other_instances :: "string \<Rightarrow> thread_runtime_lease \<Rightarrow> thread_runtime_lease_holder list" where
  "other_instances inst lease = filter (\<lambda>h. trh_instance_name h \<noteq> inst) (trl_holders lease)"

definition trl_purge_instance :: "proc_env \<Rightarrow> string \<Rightarrow> string \<Rightarrow> disk \<Rightarrow> disk \<times> (store_exn + bool)" where
  "trl_purge_instance e thread_id instance_name d =
     (let t = strip thread_id; inst = lower (strip instance_name)
      in if t = [] \<or> inst = [] then (d, Inr False)
         else bindc (trl_locked e d) (\<lambda>d data.
           let raw = map_of data t; clears = legacy_transfer_touches_instance raw inst
           in case trl_decode e t raw of
                Inl ex \<Rightarrow> (d, Inl ex)
              | Inr None \<Rightarrow> (if \<not> clears then (d, Inr False) else drop_key data t True d)
              | Inr (Some lease) \<Rightarrow>
                  (let retained = other_instances inst lease
                   in if length retained = length (trl_holders lease) \<and> \<not> clears then (d, Inr False)
                      else if retained = [] then drop_key data t True d
                      else put_lease data t (retained_lease t lease retained) True d)))"

definition sweep_instance :: "proc_env \<Rightarrow> string \<Rightarrow> string \<Rightarrow> json \<Rightarrow> store_exn + sweep_outcome" where
  "sweep_instance e inst k j =
     bindr (trl_decode e k (Some j)) (\<lambda>l.
       let clears = legacy_transfer_touches_instance (Some j) inst
       in case l of
            None \<Rightarrow> Inr (if clears then Removed else Untouched)
          | Some lease \<Rightarrow>
              (let retained = other_instances inst lease
               in if length retained = length (trl_holders lease) \<and> \<not> clears then Inr Untouched
                  else if retained = [] then Inr Removed
                  else Inr (Rewritten (retained_lease k lease retained))))"

definition trl_purge_all_for_instance :: "proc_env \<Rightarrow> string \<Rightarrow> disk \<Rightarrow> disk \<times> (store_exn + string list)" where
  "trl_purge_all_for_instance e instance_name d =
     (let inst = lower (strip instance_name)
      in if inst = [] then (d, Inr []) else run_sweep e (sweep_instance e inst) d)"

section \<open>The codec\<close>

lemma runtime_holder_sort:
  assumes "\<not> has_dup_keys j"
  shows "runtime_holder_from_data (sort_keys j) = runtime_holder_from_data j"
proof (cases "as_obj (Some j)")
  case (Inl x)
  then show ?thesis using as_sort(1) [of "Some j"] by (simp add: runtime_holder_from_data_def)
next
  case (Inr raw)
  then have j: "j = JObj raw" by (cases j) auto
  then have wf: "dict_wf raw" using assms by (simp add: dict_wf_def)
  show ?thesis
    unfolding j sort_keys.simps runtime_holder_from_data_def as_obj.simps bindr_simps
      map_of_sort_keys_obj [OF wf] json_sort opt_str_field_sort [OF wf]
    by (rule refl)
qed

lemma parse_holders_sort:
  "\<forall>x \<in> set xs. \<not> has_dup_keys x \<Longrightarrow> parse_holders owner seen (map sort_keys xs) = parse_holders owner seen xs"
  by (induction xs arbitrary: seen) (auto simp: runtime_holder_sort intro!: bindr_cong)

lemma as_arr_nodup:
  "\<not> has_dup_keys (JObj raw) \<Longrightarrow> as_arr (map_of raw k) = Inr xs \<Longrightarrow> \<forall>x \<in> set xs. \<not> has_dup_keys x"
proof -
  assume nd: "\<not> has_dup_keys (JObj raw)" and "as_arr (map_of raw k) = Inr xs"
  then have "map_of raw k = Some (JArr xs)" by (cases "map_of raw k" rule: as_arr.cases) auto
  then have "(k, JArr xs) \<in> set raw" by (rule map_of_SomeD)
  then show ?thesis using nd by fastforce
qed

lemma runtime_lease_sort:
  assumes "\<not> has_dup_keys j"
  shows "runtime_lease_from_data e k (sort_keys j) = runtime_lease_from_data e k j"
proof (cases "as_obj (Some j)")
  case (Inl x)
  then show ?thesis using as_sort(1) [of "Some j"] by (simp add: runtime_lease_from_data_def)
next
  case (Inr raw)
  then have j: "j = JObj raw" by (cases j) auto
  then have wf: "dict_wf raw" using assms by (simp add: dict_wf_def)
  have arr: "\<forall>x \<in> set xs. \<not> has_dup_keys x" if "as_arr (map_of raw ''holders'') = Inr xs" for xs
    using as_arr_nodup [OF _ that] assms j by blast
  show ?thesis
    unfolding j sort_keys.simps runtime_lease_from_data_def as_obj.simps bindr_simps
      map_of_sort_keys_obj [OF wf] json_sort bindr_map_sum opt_str_field_sort [OF wf]
    by (intro bindr_cong refl) (simp_all add: arr parse_holders_sort)
qed

section \<open>Well-formed leases\<close>

definition runtime_holder_wf :: "thread_runtime_lease_holder \<Rightarrow> bool" where
  "runtime_holder_wf h =
     (strip (trh_holder_id h) = trh_holder_id h \<and> trh_holder_id h \<noteq> []
      \<and> strip (trh_holder_type h) = trh_holder_type h \<and> trh_holder_type h \<noteq> []
      \<and> lower (strip (trh_instance_name h)) = trh_instance_name h \<and> trh_instance_name h \<noteq> []
      \<and> 0 \<le> trh_owner_pid h
      \<and> strip (trh_owner_service_token h) = trh_owner_service_token h \<and> trh_owner_service_token h \<noteq> []
      \<and> strip (trh_control_endpoint h) = trh_control_endpoint h
      \<and> strip (trh_backend_url h) = trh_backend_url h
      \<and> 0 \<le> trh_updated_at h
      \<and> strip (trh_owner_process_identity h) = trh_owner_process_identity h)"

definition runtime_lease_wf :: "thread_runtime_lease \<Rightarrow> bool" where
  "runtime_lease_wf l =
     (strip (trl_thread_id l) = trl_thread_id l \<and> trl_thread_id l \<noteq> []
      \<and> lower (strip (trl_owner_instance l)) = trl_owner_instance l \<and> trl_owner_instance l \<noteq> []
      \<and> strip (trl_owner_service_token l) = trl_owner_service_token l \<and> trl_owner_service_token l \<noteq> []
      \<and> strip (trl_control_endpoint l) = trl_control_endpoint l
      \<and> strip (trl_backend_url l) = trl_backend_url l
      \<and> 0 \<le> trl_attached_at l
      \<and> trl_holders l \<noteq> []
      \<and> sorted (map trh_holder_id (trl_holders l)) \<and> distinct (map trh_holder_id (trl_holders l))
      \<and> (\<forall>h \<in> set (trl_holders l). runtime_holder_wf h \<and> trh_instance_name h = trl_owner_instance l))"

definition runtime_lease_live :: "proc_env \<Rightarrow> thread_runtime_lease \<Rightarrow> bool" where
  "runtime_lease_live e l = list_all (runtime_holder_live e) (trl_holders l)"

lemma strip_or_else [simp]: "strip (or_else (strip a) ''unknown'') = or_else (strip a) ''unknown''"
proof -
  have "strip ''unknown'' = ''unknown''" by code_simp
  then show ?thesis by (simp add: or_else_def)
qed

lemma or_else_nonempty [simp]: "or_else a ''unknown'' \<noteq> []"
  by (simp add: or_else_def)

lemma finite_nonneg_le: "finite_nonneg f = Inr q \<Longrightarrow> 0 \<le> q"
  by (cases f) (auto split: if_splits)

lemma runtime_holder_from_data_wf: "runtime_holder_from_data j = Inr h \<Longrightarrow> runtime_holder_wf h"
  unfolding runtime_holder_from_data_def bindr_elims
  by (elim exE conjE) (auto simp: runtime_holder_wf_def strip_lower finite_nonneg_le)

lemma parse_holders_wf:
  assumes "parse_holders owner seen xs = Inr hs"
  shows "(\<forall>h \<in> set hs. runtime_holder_wf h \<and> trh_instance_name h = owner \<and> trh_holder_id h \<notin> set seen)
     \<and> distinct (map trh_holder_id hs)"
  using assms
proof (induction xs arbitrary: seen hs)
  case (Cons x xs)
  obtain h hs' where h: "runtime_holder_from_data x = Inr h" and hs: "hs = h # hs'"
    and n: "trh_holder_id h \<notin> set seen" "trh_instance_name h = owner"
    and r: "parse_holders owner (trh_holder_id h # seen) xs = Inr hs'"
    using Cons.prems by (auto simp: bindr_eq_Inr split: if_splits)
  show ?case
    using Cons.IH [OF r] runtime_holder_from_data_wf [OF h] n by (auto simp: hs image_iff)
qed simp

lemma distinct_map_sort_key: "distinct (map f (sort_key g xs)) = distinct (map f xs)"
  by (metis distinct_map distinct_sort set_sort)

lemma runtime_lease_from_dataE:
  assumes "runtime_lease_from_data e k j = Inr (Some l)"
  obtains owner token endpoint url ts xs parsed where
    "parse_holders (lower (strip owner)) [] xs = Inr parsed" and "strip owner \<noteq> []" and "strip token \<noteq> []" and "0 \<le> ts"
    and "filter (runtime_holder_live e) parsed \<noteq> []"
    and "l = \<lparr>trl_thread_id = k, trl_owner_instance = lower (strip owner), trl_owner_service_token = strip token,
      trl_control_endpoint = strip endpoint, trl_backend_url = strip url, trl_attached_at = ts,
      trl_holders = sort_key trh_holder_id (filter (runtime_holder_live e) parsed)\<rparr>"
  using assms unfolding runtime_lease_from_data_def bindr_elims Let_def
  apply (elim exE conjE)
  subgoal for raw u tid owner token endpoint url v at w ts xs x parsed
    apply (rule that [of owner xs parsed token ts endpoint url])
         apply (simp_all only: finite_nonneg_le)
    apply (simp_all split: if_splits)
    done
  done

lemma runtime_lease_from_data_wf:
  assumes "runtime_lease_from_data e k j = Inr (Some l)" and "k \<noteq> []" and "strip k = k"
  shows "runtime_lease_wf l \<and> trl_thread_id l = k \<and> runtime_lease_live e l"
  using assms(1)
proof (rule runtime_lease_from_dataE)
  fix owner token endpoint url ts xs parsed
  assume p: "parse_holders (lower (strip owner)) [] xs = Inr parsed" and ne: "strip owner \<noteq> []" "strip token \<noteq> []" "0 \<le> ts"
    and f: "filter (runtime_holder_live e) parsed \<noteq> []"
    and l: "l = \<lparr>trl_thread_id = k, trl_owner_instance = lower (strip owner), trl_owner_service_token = strip token,
      trl_control_endpoint = strip endpoint, trl_backend_url = strip url, trl_attached_at = ts,
      trl_holders = sort_key trh_holder_id (filter (runtime_holder_live e) parsed)\<rparr>"
  have d: "distinct (map trh_holder_id (sort_key trh_holder_id (filter (runtime_holder_live e) parsed)))"
    unfolding distinct_map_sort_key using parse_holders_wf [OF p] by (simp add: distinct_map_filter)
  have ne': "sort_key trh_holder_id (filter (runtime_holder_live e) parsed) \<noteq> []"
    using f by (metis length_0_conv length_sort)
  have h: "\<forall>h \<in> set parsed. runtime_holder_wf h \<and> trh_instance_name h = lower (strip owner)"
    using parse_holders_wf [OF p] by blast
  show ?thesis
    unfolding runtime_lease_wf_def runtime_lease_live_def list_all_iff l
    using assms(2,3) ne d h ne' by (simp only: thread_runtime_lease.simps strip_lower_strip strip_idem lower_idem
        lower_eq_Nil sorted_sort_key set_sort set_filter) simp
qed

lemma runtime_lease_valid_env:
  "runtime_lease_from_data e k j = Inr r \<Longrightarrow> \<exists>r'. runtime_lease_from_data e' k j = Inr r'"
  unfolding runtime_lease_from_data_def bindr_elims Let_def by (elim exE conjE) auto

lemma or_else_fix: "a \<noteq> [] \<Longrightarrow> or_else a b = a"
  by (simp add: or_else_def)

lemma runtime_holder_from_serialized:
  assumes "runtime_holder_wf h"
  shows "runtime_holder_from_data (serialize_runtime_holder h) = Inr h"
proof -
  have ne: "strip (trh_instance_name h) \<noteq> []"
    using assms by (metis runtime_holder_wf_def lower_eq_Nil)
  show ?thesis
  using assms ne
  by (auto simp: runtime_holder_from_data_def serialize_runtime_holder_def runtime_holder_wf_def has_fields_def
      opt_str_field_def or_else_def)
qed

lemma parse_serialized:
  assumes "\<forall>h \<in> set hs. runtime_holder_wf h \<and> trh_instance_name h = owner" and "distinct (map trh_holder_id hs)"
    and "\<forall>h \<in> set hs. trh_holder_id h \<notin> set seen"
  shows "parse_holders owner seen (map serialize_runtime_holder hs) = Inr hs"
  using assms
proof (induction hs arbitrary: seen)
  case (Cons h hs)
  have "parse_holders owner (trh_holder_id h # seen) (map serialize_runtime_holder hs) = Inr hs"
  proof (rule Cons.IH)
    show "\<forall>x \<in> set hs. trh_holder_id x \<notin> set (trh_holder_id h # seen)"
      using Cons.prems(2,3) by (metis distinct.simps(2) image_eqI list.set_map list.simps(9) set_ConsD list.set_intros(2))
  qed (use Cons.prems(1,2) in simp_all)
  then show ?case using Cons.prems(1,3) by (simp add: runtime_holder_from_serialized)
qed simp

lemma serialize_runtime_lookup:
  assumes "as_obj (Some (serialize_runtime_lease l)) = Inr raw"
  shows "map_of raw ''thread_id'' = Some (JStr (trl_thread_id l))"
    "map_of raw ''owner_instance'' = Some (JStr (trl_owner_instance l))"
    "map_of raw ''owner_service_token'' = Some (JStr (trl_owner_service_token l))"
    "map_of raw ''control_endpoint'' = Some (JStr (trl_control_endpoint l))"
    "map_of raw ''backend_url'' = Some (JStr (trl_backend_url l))"
    "map_of raw ''attached_at'' = Some (JFloat (Fin (trl_attached_at l)))"
    "map_of raw ''holders'' = Some (JArr (map serialize_runtime_holder (trl_holders l)))"
    "has_fields [''thread_id'', ''owner_instance'', ''owner_service_token'', ''control_endpoint'',
          ''backend_url'', ''attached_at'', ''holders''] [''transfer''] raw"
proof -
  have raw: "raw = [(''thread_id'', JStr (trl_thread_id l)),
      (''owner_instance'', JStr (trl_owner_instance l)),
      (''owner_service_token'', JStr (trl_owner_service_token l)),
      (''control_endpoint'', JStr (trl_control_endpoint l)),
      (''backend_url'', JStr (trl_backend_url l)),
      (''attached_at'', JFloat (Fin (trl_attached_at l))),
      (''holders'', JArr (map serialize_runtime_holder (trl_holders l)))]"
    using assms unfolding serialize_runtime_lease_def as_obj.simps sum.inject by (rule sym)
  show "map_of raw ''thread_id'' = Some (JStr (trl_thread_id l))"
    "map_of raw ''owner_instance'' = Some (JStr (trl_owner_instance l))"
    "map_of raw ''owner_service_token'' = Some (JStr (trl_owner_service_token l))"
    "map_of raw ''control_endpoint'' = Some (JStr (trl_control_endpoint l))"
    "map_of raw ''backend_url'' = Some (JStr (trl_backend_url l))"
    "map_of raw ''attached_at'' = Some (JFloat (Fin (trl_attached_at l)))"
    "map_of raw ''holders'' = Some (JArr (map serialize_runtime_holder (trl_holders l)))"
    unfolding raw by simp_all
  show "has_fields [''thread_id'', ''owner_instance'', ''owner_service_token'', ''control_endpoint'',
          ''backend_url'', ''attached_at'', ''holders''] [''transfer''] raw"
    unfolding raw has_fields_def by simp
qed

lemma runtime_lease_from_serialized:
  assumes wf: "runtime_lease_wf l" and live: "runtime_lease_live e l"
  shows "runtime_lease_from_data e (trl_thread_id l) (serialize_runtime_lease l) = Inr (Some l)"
proof -
  obtain raw where raw: "as_obj (Some (serialize_runtime_lease l)) = Inr raw" by (simp add: serialize_runtime_lease_def)
  have p: "parse_holders (trl_owner_instance l) [] (map serialize_runtime_holder (trl_holders l)) = Inr (trl_holders l)"
    using wf by (intro parse_serialized) (auto simp: runtime_lease_wf_def)
  have f: "filter (runtime_holder_live e) (trl_holders l) = trl_holders l"
    using live by (simp add: runtime_lease_live_def list_all_iff filter_id_conv)
  have ne: "strip (trl_owner_instance l) \<noteq> []"
    using wf by (metis runtime_lease_wf_def lower_eq_Nil)
  show ?thesis
    using wf ne unfolding runtime_lease_from_data_def raw
    by (simp add: serialize_runtime_lookup [OF raw] p f sort_key_id_if_sorted runtime_lease_wf_def)
qed

lemma serialize_runtime_obj: "is_JObj (serialize_runtime_lease l)" "\<not> has_dup_keys (serialize_runtime_lease l)"
  by (auto simp: serialize_runtime_lease_def serialize_runtime_holder_def)


section \<open>The store as a record store\<close>

abbreviation trl_ledger :: "proc_env \<Rightarrow> disk \<Rightarrow> string \<Rightarrow> thread_runtime_lease option" where
  "trl_ledger e d \<equiv> ledger (runtime_lease_from_data e) (runtime_lease_live e) d"

abbreviation trl_readable :: "proc_env \<Rightarrow> disk \<Rightarrow> bool" where
  "trl_readable e d \<equiv> readable (runtime_lease_from_data e) d"

lemma record_ok_serialized:
  "runtime_lease_wf l \<Longrightarrow> runtime_lease_live e l \<Longrightarrow>
    record_ok (runtime_lease_from_data e) (trl_thread_id l) (serialize_runtime_lease l)"
  using serialize_runtime_obj runtime_lease_from_serialized
  by (auto simp: record_ok_def runtime_lease_wf_def)

text \<open>A cleaned record has exactly the fields of the current shape.\<close>

definition clean_shape :: "json \<Rightarrow> thread_runtime_lease \<Rightarrow> bool" where
  "clean_shape j l = (j = serialize_runtime_lease l \<or> py_eq j (serialize_runtime_lease l))"

lemma clean_shape_no_transfer: "clean_shape j l \<Longrightarrow> \<not> legacy_transfer_touches_instance (Some j) inst"
proof -
  assume c: "clean_shape j l"
  have "''transfer'' \<notin> fst ` set qs" if "serialize_runtime_lease l = JObj qs" for qs
    using that unfolding serialize_runtime_lease_def json.inject by (elim subst) simp
  then have "''transfer'' \<notin> fst ` set ps" if "j = JObj ps" for ps
    using c that unfolding clean_shape_def
    by (cases "serialize_runtime_lease l") (auto simp del: set_map simp add: set_map [symmetric])
  then have "map_of ps ''transfer'' = None" if "j = JObj ps" for ps
    using that by (simp add: map_of_eq_None_iff)
  then show ?thesis by (cases j) (auto simp: legacy_transfer_touches_instance_def)
qed

lemma clean_record_ok:
  assumes "record_ok (runtime_lease_from_data e) k j" and "clean_record e k j = Some j'"
  shows "record_ok (runtime_lease_from_data e) k j' \<and> runtime_lease_from_data e k j' = runtime_lease_from_data e k j
    \<and> (\<exists>l. runtime_lease_from_data e k j' = Inr (Some l) \<and> clean_shape j' l)"
proof -
  have k: "strip k = k" "k \<noteq> []" using assms(1) by (simp_all add: record_ok_def)
  obtain l where l: "runtime_lease_from_data e k j = Inr (Some l)"
    and j': "(j' = j \<and> py_eq j (serialize_runtime_lease l)) \<or> j' = serialize_runtime_lease l"
    using assms(2) by (auto simp: clean_record_def split: sum.splits option.splits if_splits)
  from runtime_lease_from_data_wf [OF l k(2,1)]
  have w: "runtime_lease_wf l" "trl_thread_id l = k" "runtime_lease_live e l" by auto
  from record_ok_serialized [OF w(1,3)] runtime_lease_from_serialized [OF w(1,3)] w(2) l j' assms(1)
  show ?thesis by (auto simp: clean_shape_def)
qed

lemma map_of_map_filter:
  "dict_wf data \<Longrightarrow> map_of (List.map_filter (\<lambda>p. map_option (Pair (fst p)) (f (fst p) (snd p))) data) k =
     (case map_of data k of None \<Rightarrow> None | Some j \<Rightarrow> f k j)"
proof (induction data)
  case (Cons p data)
  have n: "map_of data (fst p) = None" using Cons.prems by (auto simp: dict_wf_def map_of_eq_None_iff)
  show ?case using Cons n by (auto simp: List.map_filter_simps dict_wf_def split: option.splits)
qed (simp add: List.map_filter_simps)

lemma in_map_filter:
  "(k, j') \<in> set (List.map_filter (\<lambda>p. map_option (Pair (fst p)) (f (fst p) (snd p))) data) \<Longrightarrow>
     \<exists>j. (k, j) \<in> set data \<and> f k j = Some j'"
  by (auto simp: List.map_filter_def)

lemma dict_wf_map_filter:
  assumes "dict_wf data"
  shows "dict_wf (List.map_filter (\<lambda>p. map_option (Pair (fst p)) (f (fst p) (snd p))) data)"
  using assms
proof (induction data)
  case (Cons p data)
  let ?rest = "List.map_filter (\<lambda>p. map_option (Pair (fst p)) (f (fst p) (snd p))) data"
  have "fst p \<notin> fst ` set ?rest"
  proof
    assume "fst p \<in> fst ` set ?rest"
    then obtain j' where "(fst p, j') \<in> set ?rest" by auto
    from in_map_filter [OF this] show False using Cons.prems by (auto simp: dict_wf_def image_iff)
  qed
  then show ?case
    using Cons by (simp add: List.map_filter_simps dict_wf_def split: option.splits)
qed (simp add: List.map_filter_simps)

lemma prune_runtime_ok:
  assumes ok: "records_ok (runtime_lease_from_data e) data"
  shows "records_ok (runtime_lease_from_data e) (snd (prune_runtime_leases e data))"
    and "record_view (runtime_lease_from_data e) (runtime_lease_live e) (snd (prune_runtime_leases e data)) =
      record_view (runtime_lease_from_data e) (runtime_lease_live e) data"
proof -
  let ?data = "List.map_filter (\<lambda>p. map_option (Pair (fst p)) (clean_record e (fst p) (snd p))) data"
  have wf: "dict_wf data" using ok by (simp add: records_ok_def)
  have rok: "record_ok (runtime_lease_from_data e) k j" if "(k, j) \<in> set data" for k j
    using ok that by (auto simp: records_ok_def)
  have "record_ok (runtime_lease_from_data e) k j'" if m: "(k, j') \<in> set ?data" for k j'
  proof -
    obtain j where "(k, j) \<in> set data" and c: "clean_record e k j = Some j'"
      using in_map_filter [OF m] by blast
    from clean_record_ok [OF rok [OF this(1)] c] show ?thesis by simp
  qed
  then show "records_ok (runtime_lease_from_data e) (snd (prune_runtime_leases e data))"
    using dict_wf_map_filter [OF wf] by (auto simp: records_ok_def prune_runtime_leases_def)
  have "record_view (runtime_lease_from_data e) (runtime_lease_live e) ?data k =
      record_view (runtime_lease_from_data e) (runtime_lease_live e) data k" for k
  proof (cases "map_of data k")
    case None
    then show ?thesis by (simp add: record_view_def map_of_map_filter [OF wf])
  next
    case (Some j)
    have r: "record_ok (runtime_lease_from_data e) k j" by (rule rok [OF map_of_SomeD [OF Some]])
    show ?thesis
    proof (cases "clean_record e k j")
      case None
      have "map_of ?data k = None" using None Some by (simp add: map_of_map_filter [OF wf])
      moreover have "runtime_lease_from_data e k j = Inr None"
        using None r by (auto simp: clean_record_def record_ok_def split: sum.splits option.splits if_splits)
      ultimately show ?thesis using Some by (simp add: record_view_def)
    next
      case (Some j')
      from clean_record_ok [OF r this] show ?thesis
        using Some \<open>map_of data k = Some j\<close> by (simp add: record_view_def map_of_map_filter [OF wf])
    qed
  qed
  then show "record_view (runtime_lease_from_data e) (runtime_lease_live e) (snd (prune_runtime_leases e data)) =
      record_view (runtime_lease_from_data e) (runtime_lease_live e) data"
    by (auto simp: prune_runtime_leases_def)
qed

interpretation trl: record_store runtime_lease_from_data serialize_runtime_lease trl_thread_id runtime_lease_wf
  runtime_lease_live prune_runtime_leases
proof unfold_locales
  show "runtime_lease_from_data e k j = Inr r \<Longrightarrow> \<exists>r'. runtime_lease_from_data e' k j = Inr r'" for e e' k j r
    by (rule runtime_lease_valid_env)
  show "runtime_lease_from_data e k j = Inr (Some x) \<Longrightarrow> k \<noteq> [] \<Longrightarrow> strip k = k \<Longrightarrow>
      runtime_lease_wf x \<and> trl_thread_id x = k" for e k j x
    using runtime_lease_from_data_wf by blast
qed (simp_all add: serialize_runtime_obj runtime_lease_from_serialized runtime_lease_sort prune_runtime_ok runtime_lease_wf_def)

lemma trl_locked_all_live:
  assumes l: "trl_locked e d = (d', Inr data)" and "map_of data k = Some j"
  shows "\<exists>l. runtime_lease_from_data e k j = Inr (Some l) \<and> clean_shape j l"
proof -
  obtain data0 where r: "read_all (runtime_lease_from_data e) (content d) = Inr data0"
    using l by (auto simp: trl_locked_def locked_data_def split: sum.splits)
  have ok0: "records_ok (runtime_lease_from_data e) data0" by (rule read_all_ok [OF r])
  have "data = snd (prune_runtime_leases e data0) \<or> (data = data0 \<and> \<not> fst (prune_runtime_leases e data0))"
    using l r by (auto simp: trl_locked_def locked_data_def bindc_eq_Inr split: prod.splits if_splits)
  then show ?thesis
  proof
    assume "data = data0 \<and> \<not> fst (prune_runtime_leases e data0)"
    then have "\<not> (case runtime_lease_from_data e k j of
        Inr (Some l) \<Rightarrow> \<not> py_eq j (serialize_runtime_lease l) | _ \<Rightarrow> True)"
      using map_of_SomeD [OF assms(2)] unfolding prune_runtime_leases_def fst_conv bex_simps by (metis fst_conv snd_conv)
    then show ?thesis by (auto simp: clean_shape_def split: sum.splits option.splits)
  next
    assume d: "data = snd (prune_runtime_leases e data0)"
    then have "(k, j) \<in> set (List.map_filter (\<lambda>p. map_option (Pair (fst p)) (clean_record e (fst p) (snd p))) data0)"
      using map_of_SomeD [OF assms(2)] by (simp add: prune_runtime_leases_def)
    from in_map_filter [OF this] obtain j0 where "(k, j0) \<in> set data0" and c: "clean_record e k j0 = Some j"
      by blast
    moreover from this ok0 have "record_ok (runtime_lease_from_data e) k j0" by (auto simp: records_ok_def)
    ultimately show ?thesis using clean_record_ok by blast
  qed
qed

text \<open>What the body of a locked block may rely on.\<close>

type_synonym runtime_ledger = "string \<Rightarrow> thread_runtime_lease option"

definition trl_ctx :: "proc_env \<Rightarrow> runtime_ledger \<Rightarrow> disk \<Rightarrow> jdict \<Rightarrow> bool" where
  "trl_ctx e L d data =
     (records_ok (runtime_lease_from_data e) data
      \<and> record_view (runtime_lease_from_data e) (runtime_lease_live e) data = L
      \<and> trl_readable e d \<and> trl_ledger e d = L
      \<and> (\<forall>t. trl_decode e t (map_of data t) = Inr (L t)) \<and> (\<forall>t. map_of data t = None \<longleftrightarrow> L t = None)
      \<and> (\<forall>t inst. \<not> legacy_transfer_touches_instance (map_of data t) inst))"

lemma trl_locked_ctx:
  assumes l: "trl_locked e d = (d1, Inr data)"
  shows "trl_ctx e (trl_ledger e d) d1 data"
proof -
  have ok: "records_ok (runtime_lease_from_data e) data"
    and v: "record_view (runtime_lease_from_data e) (runtime_lease_live e) data = trl_ledger e d"
    and d1: "trl_readable e d1" "trl_ledger e d1 = trl_ledger e d"
    using trl.locked_data_ok [of e d d1 data] l by (simp_all add: trl_locked_def)
  have "trl_decode e t (map_of data t) = Inr (trl_ledger e d t) \<and> (map_of data t = None \<longleftrightarrow> trl_ledger e d t = None)
      \<and> (\<forall>inst. \<not> legacy_transfer_touches_instance (map_of data t) inst)" for t
  proof (cases "map_of data t")
    case None
    then show ?thesis using v [symmetric]
      by (simp add: trl_decode_def record_view_def legacy_transfer_touches_instance_def)
  next
    case (Some j)
    obtain x where x: "runtime_lease_from_data e t j = Inr (Some x)" and c: "clean_shape j x"
      using trl_locked_all_live [OF l Some] by blast
    have "record_ok (runtime_lease_from_data e) t j" using ok map_of_SomeD [OF Some] by (auto simp: records_ok_def)
    then have "runtime_lease_live e x" using runtime_lease_from_data_wf [OF x] by (simp add: record_ok_def)
    then show ?thesis using Some x v [symmetric] clean_shape_no_transfer [OF c]
      by (simp add: trl_decode_def record_view_def)
  qed
  with ok v d1 show ?thesis by (simp add: trl_ctx_def)
qed

lemma trl_locked_outcome:
  assumes run: "bindc (trl_locked e d) k = (d', r)" and rd: "trl_readable e d"
    and step: "\<And>d1 data. trl_ctx e (trl_ledger e d) d1 data \<Longrightarrow> k d1 data = (d', r) \<Longrightarrow>
      commits_or_keeps (trl_ledger e d) S (trl_ledger e d') r \<and> trl_readable e d'"
  shows "commits_or_keeps (trl_ledger e d) S (trl_ledger e d') r \<and> trl_readable e d'"
proof (rule trl.locked_outcome [OF _ rd])
  show "bindc (locked_data (runtime_lease_from_data e) (prune_runtime_leases e) d) k = (d', r)"
    using run by (simp add: trl_locked_def)
  fix d1 data
  assume "locked_data (runtime_lease_from_data e) (prune_runtime_leases e) d = (d1, Inr data)" and "k d1 data = (d', r)"
  then show "commits_or_keeps (trl_ledger e d) S (trl_ledger e d') r \<and> trl_readable e d'"
    by (intro step trl_locked_ctx) (simp_all add: trl_locked_def)
qed

lemma trl_put:
  assumes "trl_ctx e L d1 data" and "runtime_lease_wf x" and "runtime_lease_live e x" and "trl_thread_id x = t"
    and "put_lease data t x y d1 = (d', r)"
  shows "commits_or_keeps L (L(t \<mapsto> x), y) (trl_ledger e d') r \<and> trl_readable e d'"
  using assms unfolding put_lease_def by (intro trl.put_outcome [where data = data]) (auto simp: trl_ctx_def)

lemma trl_drop:
  assumes "trl_ctx e L d1 data" and "drop_key data t y d1 = (d', r)"
  shows "commits_or_keeps L (L(t := None), y) (trl_ledger e d') r \<and> trl_readable e d'"
  using assms unfolding drop_key_def by (intro trl.del_outcome [where data = data]) (auto simp: trl_ctx_def)

lemma trl_keep:
  assumes "trl_ctx e L d1 data" and "(d1, Inr y) = (d', r)"
  shows "commits_or_keeps L (L, y) (trl_ledger e d') r \<and> trl_readable e d'"
  using assms by (auto simp: trl_ctx_def commits_or_keeps_def)

end
