(* ===== verification/Thread_Runtime_Ledger.thy ===== *)
theory Thread_Runtime_Ledger
  imports Thread_Runtime_Lease
begin

text \<open>
  What the thread runtime lease store promises: a ledger from threads to leases whose
  holders share one instance, and operations that add a holder, remove one, or sweep the
  holders of a generation or an instance, each committed as a whole or not at all.
\<close>

section \<open>The holders of a lease\<close>

definition keyed :: "(string, thread_runtime_lease_holder) dict \<Rightarrow> bool" where
  "keyed m = (dict_wf m \<and> (\<forall>p \<in> set m. fst p = trh_holder_id (snd p)))"

lemma keyed_update [intro]: "keyed m \<Longrightarrow> keyed (AList.update (trh_holder_id h) h m)"
  by (auto simp: keyed_def dest: in_update)

lemma keyed_delete [intro]: "keyed m \<Longrightarrow> keyed (AList.delete i m)"
  by (auto simp: keyed_def AList.delete_eq dict_wf_def distinct_map_filter)

lemma keyed_fold: "keyed m \<Longrightarrow> keyed (foldl (\<lambda>m h. AList.update (trh_holder_id h) h m) m hs)"
  by (induction hs arbitrary: m) auto

lemma keyed_holders: "keyed (holders_by_id l)"
  unfolding holders_by_id_def by (rule keyed_fold) (simp add: keyed_def)

lemma holders_by_id_set: "snd ` set (holders_by_id l) \<subseteq> set (trl_holders l)"
proof -
  have "snd ` set (foldl (\<lambda>m h. AList.update (trh_holder_id h) h m) m hs) \<subseteq> snd ` set m \<union> set hs" for m hs
  proof (induction hs arbitrary: m)
    case (Cons h hs)
    have "snd ` set (AList.update (trh_holder_id h) h m) \<subseteq> insert h (snd ` set m)"
      by (auto dest!: in_update)
    with Cons.IH [of "AList.update (trh_holder_id h) h m"] show ?case by auto
  qed simp
  from this [of "[]"] show ?thesis by (simp add: holders_by_id_def)
qed

lemma map_of_holders:
  "distinct (map trh_holder_id (trl_holders l)) \<Longrightarrow>
    map_of (holders_by_id l) i = find (\<lambda>h. trh_holder_id h = i) (trl_holders l)"
proof -
  have "distinct (map trh_holder_id hs) \<Longrightarrow>
      map_of (foldl (\<lambda>m h. AList.update (trh_holder_id h) h m) m hs) i =
      (case find (\<lambda>h. trh_holder_id h = i) hs of None \<Rightarrow> map_of m i | Some h \<Rightarrow> Some h)" for m hs
  proof (induction hs arbitrary: m)
    case (Cons h hs)
    have "find (\<lambda>x. trh_holder_id x = i) hs = None" if "trh_holder_id h = i"
      using Cons.prems that by (auto simp: find_None_iff image_iff)
    with Cons show ?case by (auto simp: update_conv' split: option.splits)
  qed simp
  from this [of "trl_holders l" "[]"] show "distinct (map trh_holder_id (trl_holders l)) \<Longrightarrow> ?thesis"
    by (cases "find (\<lambda>h. trh_holder_id h = i) (trl_holders l)") (simp_all add: holders_by_id_def)
qed

lemma keyed_ordered:
  assumes "keyed m"
  shows "distinct (map trh_holder_id (ordered_holders m))" and "sorted (map trh_holder_id (ordered_holders m))"
    and "set (ordered_holders m) = snd ` set m" and "ordered_holders m = [] \<longleftrightarrow> m = []"
    and "find (\<lambda>h. trh_holder_id h = i) (ordered_holders m) = map_of m i"
proof -
  have "map trh_holder_id (map snd m) = map fst m"
    using assms by (simp add: keyed_def)
  then have d: "distinct (map trh_holder_id (map snd m))"
    using assms by (simp only: keyed_def dict_wf_def)
  then show dd: "distinct (map trh_holder_id (ordered_holders m))"
    unfolding ordered_holders_def distinct_map_sort_key .
  show "sorted (map trh_holder_id (ordered_holders m))" by (simp add: ordered_holders_def)
  show s: "set (ordered_holders m) = snd ` set m" by (simp add: ordered_holders_def)
  show "ordered_holders m = [] \<longleftrightarrow> m = []"
    unfolding ordered_holders_def by (metis length_0_conv length_map length_sort)
  show "find (\<lambda>h. trh_holder_id h = i) (ordered_holders m) = map_of m i"
  proof (cases "map_of m i")
    case None
    then have "\<forall>h \<in> set (ordered_holders m). trh_holder_id h \<noteq> i"
      using assms s by (fastforce simp: keyed_def map_of_eq_None_iff)
    then show ?thesis using None by (simp add: find_None_iff)
  next
    case (Some h)
    then have mem: "(i, h) \<in> set m" by (rule map_of_SomeD)
    then have h: "h \<in> set (ordered_holders m)" "trh_holder_id h = i" using assms s by (force simp: keyed_def)+
    have "find (\<lambda>h. trh_holder_id h = i) (ordered_holders m) \<noteq> None" using h by (auto simp: find_None_iff)
    then obtain h' where f: "find (\<lambda>h. trh_holder_id h = i) (ordered_holders m) = Some h'" by blast
    then have "h' \<in> set (ordered_holders m)" "trh_holder_id h' = i" by (auto simp: find_Some_iff)
    then have "h' = h" using h dd by (metis distinct_map inj_onD)
    then show ?thesis using Some f by simp
  qed
qed

text \<open>The holder with an id, of a lease and of a thread in a ledger.\<close>

definition holder_with :: "thread_runtime_lease \<Rightarrow> string \<Rightarrow> thread_runtime_lease_holder option" where
  "holder_with l i = find (\<lambda>h. trh_holder_id h = i) (trl_holders l)"

definition holder_of :: "runtime_ledger \<Rightarrow> string \<Rightarrow> string \<Rightarrow> thread_runtime_lease_holder option" where
  "holder_of L t i = (case L t of None \<Rightarrow> None | Some l \<Rightarrow> holder_with l i)"

lemma wf_holder_map: "runtime_lease_wf l \<Longrightarrow> map_of (holders_by_id l) = holder_with l"
  by (rule ext) (simp add: map_of_holders holder_with_def runtime_lease_wf_def)

lemma holder_with_first [simp]: "holder_with (first_lease t h) = [trh_holder_id h \<mapsto> h]"
  by (auto simp: holder_with_def first_lease_def)

lemma holder_with_joined:
  assumes "runtime_lease_wf c"
  shows "holder_with (joined_lease t c h) = (holder_with c)(trh_holder_id h \<mapsto> h)"
proof
  fix i
  have "keyed (AList.update (trh_holder_id h) h (holders_by_id c))" by (intro keyed_update keyed_holders)
  from keyed_ordered(5) [OF this] show "holder_with (joined_lease t c h) i = ((holder_with c)(trh_holder_id h \<mapsto> h)) i"
    unfolding holder_with_def [of "joined_lease t c h"]
    by (simp add: joined_lease_def update_conv' wf_holder_map [OF assms])
qed

lemma trh_normalize_wf:
  "trh_normalize e clock h = Inr h' \<Longrightarrow> runtime_holder_wf h'"
  by (auto simp: trh_normalize_def runtime_holder_wf_def strip_lower Let_def split: if_splits)

lemma first_lease_wf:
  "runtime_holder_wf h \<Longrightarrow> strip t = t \<Longrightarrow> t \<noteq> [] \<Longrightarrow> runtime_lease_wf (first_lease t h)"
  by (simp add: first_lease_def runtime_lease_wf_def runtime_holder_wf_def)

lemma retained_lease_wf:
  assumes "runtime_lease_wf l" and "retained \<noteq> []" and "set retained \<subseteq> set (trl_holders l)"
    and "sorted (map trh_holder_id retained)" and "distinct (map trh_holder_id retained)" and "trl_thread_id l = t"
  shows "runtime_lease_wf (retained_lease t l retained)"
proof -
  have h: "hd retained \<in> set retained" using assms(2) by simp
  then have "hd retained \<in> set (trl_holders l)" using assms(3) by auto
  then have w: "runtime_holder_wf (hd retained)" and "trh_instance_name (hd retained) = trl_owner_instance l"
    using assms(1) unfolding runtime_lease_wf_def by simp_all
  moreover have "\<forall>h \<in> set retained. runtime_holder_wf h \<and> trh_instance_name h = trl_owner_instance l"
    using assms(1,3) unfolding runtime_lease_wf_def by auto
  ultimately show ?thesis
    using assms by (simp add: runtime_lease_wf_def retained_lease_def Let_def) (simp add: runtime_holder_wf_def)
qed

lemma joined_lease_wf:
  assumes c: "runtime_lease_wf c" "trl_thread_id c = t" and h: "runtime_holder_wf h"
    and inst: "trl_owner_instance c = trh_instance_name h"
  shows "runtime_lease_wf (joined_lease t c h)"
proof -
  let ?m = "AList.update (trh_holder_id h) h (holders_by_id c)"
  have k: "keyed ?m" by (intro keyed_update keyed_holders)
  have "snd ` set ?m \<subseteq> insert h (set (trl_holders c))" using holders_by_id_set [of c] by (auto dest!: in_update)
  then have s: "set (ordered_holders ?m) \<subseteq> insert h (set (trl_holders c))" using keyed_ordered(3) [OF k] by simp
  have "?m \<noteq> []" by (cases "holders_by_id c") auto
  then have ne: "ordered_holders ?m \<noteq> []" using keyed_ordered(4) [OF k] by simp
  have tok: "or_else (trh_owner_service_token h) x = trh_owner_service_token h" for x
    using h by (simp add: or_else_def runtime_holder_wf_def)
  have ends: "strip (or_else (trh_control_endpoint h) (trl_control_endpoint c)) = or_else (trh_control_endpoint h) (trl_control_endpoint c)"
    "strip (or_else (trh_backend_url h) (trl_backend_url c)) = or_else (trh_backend_url h) (trl_backend_url c)"
    using c h by (simp_all add: or_else_def runtime_lease_wf_def runtime_holder_wf_def)
  show ?thesis
    using c h inst s keyed_ordered(1,2) [OF k] ne
    unfolding runtime_lease_wf_def joined_lease_def tok
    by (auto simp: runtime_holder_wf_def ends)
qed

lemma joined_lease_live:
  assumes "runtime_lease_live e c" and "runtime_holder_live e h"
  shows "runtime_lease_live e (joined_lease t c h)"
proof -
  have k: "keyed (AList.update (trh_holder_id h) h (holders_by_id c))" by (intro keyed_update keyed_holders)
  have "snd ` set (AList.update (trh_holder_id h) h (holders_by_id c)) \<subseteq> insert h (set (trl_holders c))"
    using holders_by_id_set [of c] by (auto dest!: in_update)
  then show ?thesis
    using assms keyed_ordered(3) [OF k] by (auto simp: runtime_lease_live_def joined_lease_def list_all_iff)
qed


section \<open>The abstract ledger\<close>

definition spec_trl_acquire ::
  "runtime_ledger \<Rightarrow> string \<Rightarrow> thread_runtime_lease_holder \<Rightarrow> runtime_ledger \<times> thread_runtime_acquire_result" where
  "spec_trl_acquire L t h =
     (case L t of
        None \<Rightarrow> (L(t \<mapsto> first_lease t h), \<lparr>tra_granted = True, tra_acquired = True, tra_lease = Some (first_lease t h)\<rparr>)
      | Some c \<Rightarrow>
          if trl_owner_instance c \<noteq> trh_instance_name h \<or> trl_owner_service_token c \<noteq> trh_owner_service_token h
          then (L, \<lparr>tra_granted = False, tra_acquired = False, tra_lease = Some c\<rparr>)
          else (L(t \<mapsto> joined_lease t c h),
                \<lparr>tra_granted = True, tra_acquired = (holder_with c (trh_holder_id h) = None),
                 tra_lease = Some (joined_lease t c h)\<rparr>))"

text \<open>What remains of a lease when some holders go; it is owned by the first that stays.\<close>

definition keep_holders :: "(thread_runtime_lease_holder \<Rightarrow> bool) \<Rightarrow> thread_runtime_lease \<Rightarrow> thread_runtime_lease option" where
  "keep_holders P l =
     (let retained = filter P (trl_holders l)
      in if list_all P (trl_holders l) then Some l
         else if retained = [] then None else Some (retained_lease (trl_thread_id l) l retained))"

definition spec_trl_remove ::
  "runtime_ledger \<Rightarrow> string \<Rightarrow> string \<Rightarrow> (thread_runtime_lease_holder \<Rightarrow> bool) \<Rightarrow> runtime_ledger \<times> bool" where
  "spec_trl_remove L t i P =
     (case L t of
        None \<Rightarrow> (L, False)
      | Some l \<Rightarrow>
          (case holder_with l i of
             None \<Rightarrow> (L, False)
           | Some h \<Rightarrow> if P h then (L(t := keep_holders (\<lambda>x. trh_holder_id x \<noteq> i) l), True) else (L, False)))"

lemma trl_ledger_wf: "trl_ledger e d t = Some l \<Longrightarrow> runtime_lease_wf l \<and> trl_thread_id l = t"
  by (rule trl.ledger_wf)

lemma trl_ledger_live: "trl_ledger e d t = Some l \<Longrightarrow> runtime_lease_live e l"
  by (auto simp: ledger_def record_view_def split: sum.splits option.splits if_splits)

lemma keep_holdersE:
  assumes k: "keep_holders P l = Some l'"
  obtains "l' = l" and "list_all P (trl_holders l)"
  | "filter P (trl_holders l) \<noteq> []" and "l' = retained_lease (trl_thread_id l) l (filter P (trl_holders l))"
proof (cases "list_all P (trl_holders l)")
  case True
  then show ?thesis using k that(1) by (simp add: keep_holders_def)
next
  case False
  show ?thesis
  proof (rule that(2))
    show "filter P (trl_holders l) \<noteq> []" using k False by (auto simp: keep_holders_def Let_def)
    then show "l' = retained_lease (trl_thread_id l) l (filter P (trl_holders l))"
      using k False by (simp add: keep_holders_def Let_def)
  qed
qed

lemma keep_holders_wf:
  assumes l: "runtime_lease_wf l" and k: "keep_holders P l = Some l'"
  shows "runtime_lease_wf l' \<and> trl_thread_id l' = trl_thread_id l"
  using k
proof (cases rule: keep_holdersE)
  case 2
  then have "runtime_lease_wf l'"
    using l unfolding 2(2) by (intro retained_lease_wf) (auto simp: runtime_lease_wf_def sorted_filter distinct_map_filter)
  then show ?thesis by (simp add: 2(2) retained_lease_def Let_def)
qed (simp add: l)

lemma keep_holders_live: "runtime_lease_live e l \<Longrightarrow> keep_holders P l = Some l' \<Longrightarrow> runtime_lease_live e l'"
  by (erule keep_holdersE) (auto simp: runtime_lease_live_def retained_lease_def Let_def list_all_iff)

lemma holder_with_retained [simp]: "holder_with (retained_lease t l hs) i = find (\<lambda>h. trh_holder_id h = i) hs"
  by (simp add: holder_with_def retained_lease_def Let_def)

lemma find_filter: "find P (filter Q xs) = find (\<lambda>x. P x \<and> Q x) xs"
  by (induction xs) auto

lemma holder_with_keep:
  assumes "runtime_lease_wf l"
  shows "(case keep_holders P l of None \<Rightarrow> None | Some l' \<Rightarrow> holder_with l' i) =
    (case holder_with l i of None \<Rightarrow> None | Some h \<Rightarrow> if P h then Some h else None)"
proof -
  have d: "distinct (map trh_holder_id (trl_holders l))" using assms by (simp add: runtime_lease_wf_def)
  have "find (\<lambda>h. trh_holder_id h = i) (filter P hs) =
      (case find (\<lambda>h. trh_holder_id h = i) hs of None \<Rightarrow> None | Some h \<Rightarrow> if P h then Some h else None)"
    if "distinct (map trh_holder_id hs)" for hs
    using that
  proof (induction hs)
    case (Cons h hs)
    have "find (\<lambda>x. trh_holder_id x = i \<and> P x) hs = None" if "trh_holder_id h = i"
      using Cons.prems that by (auto simp: find_None_iff image_iff)
    with Cons show ?case by (auto simp: find_filter)
  qed simp
  then have f: "find (\<lambda>h. trh_holder_id h = i) (filter P (trl_holders l)) =
      (case holder_with l i of None \<Rightarrow> None | Some h \<Rightarrow> if P h then Some h else None)"
    unfolding holder_with_def using d .
  show ?thesis
  proof (cases "keep_holders P l")
    case None
    then have "filter P (trl_holders l) = []" by (auto simp: keep_holders_def Let_def split: if_splits)
    then show ?thesis using None f by simp
  next
    case (Some l')
    then show ?thesis
    proof (cases rule: keep_holdersE)
      case 1
      then have "filter P (trl_holders l) = trl_holders l" by (simp add: filter_id_conv list_all_iff)
      with f 1 Some show ?thesis by (simp add: holder_with_def)
    next
      case 2
      then show ?thesis using f Some by simp
    qed
  qed
qed

lemma ordered_delete:
  assumes "runtime_lease_wf l"
  shows "ordered_holders (AList.delete i (holders_by_id l)) = filter (\<lambda>x. trh_holder_id x \<noteq> i) (trl_holders l)"
proof -
  have id: "foldl (\<lambda>m h. AList.update (trh_holder_id h) h m) m hs = m @ map (\<lambda>h. (trh_holder_id h, h)) hs"
    if "distinct (map fst m @ map trh_holder_id hs)" for m hs
    using that
  proof (induction hs arbitrary: m)
    case (Cons h hs)
    have "AList.update (trh_holder_id h) h m = m @ [(trh_holder_id h, h)]"
      using Cons.prems by (intro update_append) auto
    with Cons show ?case by simp
  qed simp
  have "holders_by_id l = map (\<lambda>h. (trh_holder_id h, h)) (trl_holders l)"
    unfolding holders_by_id_def using id [of "[]" "trl_holders l"] assms by (simp add: runtime_lease_wf_def)
  then have "map snd (AList.delete i (holders_by_id l)) = filter (\<lambda>x. trh_holder_id x \<noteq> i) (trl_holders l)"
    by (simp add: AList.delete_eq filter_map comp_def eq_commute [of i])
  then show ?thesis
    using assms by (simp add: ordered_holders_def sort_key_id_if_sorted sorted_filter runtime_lease_wf_def)
qed


section \<open>The operations implement it\<close>

lemma trl_acquire_outcome:
  assumes run: "trl_acquire e clock thread_id holder d = (d', r)" and rd: "trl_readable e d"
    and t: "strip thread_id \<noteq> []" and h: "trh_normalize e clock holder = Inr h" and live: "runtime_holder_live e h"
  shows "commits_or_keeps (trl_ledger e d) (spec_trl_acquire (trl_ledger e d) (strip thread_id) h) (trl_ledger e d') r
    \<and> trl_readable e d'"
proof (rule trl_locked_outcome [OF _ rd])
  let ?t = "strip thread_id" let ?L = "trl_ledger e d"
  show "bindc (trl_locked e d) (trl_acquire_locked e ?t h) = (d', r)"
    using run t h by (simp add: trl_acquire_def)
  fix d1 data
  assume c: "trl_ctx e ?L d1 data" and k: "trl_acquire_locked e ?t h d1 data = (d', r)"
  have hw: "runtime_holder_wf h" by (rule trh_normalize_wf [OF h])
  have at: "trl_decode e ?t (map_of data ?t) = Inr (?L ?t)" using c by (simp add: trl_ctx_def)
  show "commits_or_keeps ?L (spec_trl_acquire ?L ?t h) (trl_ledger e d') r \<and> trl_readable e d'"
  proof (cases "?L ?t")
    case None
    have "runtime_lease_wf (first_lease ?t h)" by (rule first_lease_wf [OF hw _ t]) simp
    moreover have "runtime_lease_live e (first_lease ?t h)" "trl_thread_id (first_lease ?t h) = ?t"
      using live by (simp_all add: runtime_lease_live_def first_lease_def)
    ultimately show ?thesis
      using k at None trl_put [OF c, of "first_lease ?t h" ?t _ d' r]
      by (simp add: trl_acquire_locked_def spec_trl_acquire_def Let_def)
  next
    case (Some cur)
    have cw: "runtime_lease_wf cur" "trl_thread_id cur = ?t" using trl_ledger_wf [OF Some] by auto
    show ?thesis
    proof (cases "trl_owner_instance cur \<noteq> trh_instance_name h \<or> trl_owner_service_token cur \<noteq> trh_owner_service_token h")
      case True
      then show ?thesis
        using k at Some trl_keep [OF c, of _ d' r] by (auto simp: trl_acquire_locked_def spec_trl_acquire_def split: if_splits)
    next
      case False
      then have w: "runtime_lease_wf (joined_lease ?t cur h)" by (intro joined_lease_wf [OF cw hw]) simp
      have l: "runtime_lease_live e (joined_lease ?t cur h)"
        by (rule joined_lease_live [OF trl_ledger_live [OF Some] live])
      have i: "trl_thread_id (joined_lease ?t cur h) = ?t" by (simp add: joined_lease_def)
      show ?thesis
        using k at Some False trl_put [OF c w l i, of _ d' r]
        by (simp add: trl_acquire_locked_def spec_trl_acquire_def Let_def wf_holder_map [OF cw(1)])
    qed
  qed
qed

lemma trl_remove_outcome:
  assumes run: "bindc (trl_locked e d) (remove_holder e t i P) = (d', r)" and rd: "trl_readable e d"
  shows "commits_or_keeps (trl_ledger e d) (spec_trl_remove (trl_ledger e d) t i P) (trl_ledger e d') r
    \<and> trl_readable e d'"
proof (rule trl_locked_outcome [OF run rd])
  let ?L = "trl_ledger e d"
  fix d1 data
  assume c: "trl_ctx e ?L d1 data" and k: "remove_holder e t i P d1 data = (d', r)"
  have at: "trl_decode e t (map_of data t) = Inr (?L t)" and none: "map_of data t = None \<longleftrightarrow> ?L t = None"
    using c by (simp_all add: trl_ctx_def)
  show "commits_or_keeps ?L (spec_trl_remove ?L t i P) (trl_ledger e d') r \<and> trl_readable e d'"
  proof (cases "?L t")
    case None
    then show ?thesis
      using k at none trl_keep [OF c, of False d' r] by (simp add: remove_holder_def spec_trl_remove_def)
  next
    case (Some l)
    have w: "runtime_lease_wf l" "trl_thread_id l = t" using trl_ledger_wf [OF Some] by auto
    have hm: "map_of (holders_by_id l) i = holder_with l i" using wf_holder_map [OF w(1)] by simp
    show ?thesis
    proof (cases "\<exists>h. holder_with l i = Some h \<and> P h")
      case False
      then show ?thesis
        using k at Some hm trl_keep [OF c, of False d' r]
        by (auto simp: remove_holder_def spec_trl_remove_def split: option.splits)
    next
      case True
      then obtain h where h: "holder_with l i = Some h" "P h" by blast
      let ?Q = "\<lambda>x. trh_holder_id x \<noteq> i"
      have mem: "h \<in> set (trl_holders l)" "trh_holder_id h = i"
        using h(1) by (auto simp: holder_with_def find_Some_iff)
      then have some: "\<not> list_all ?Q (trl_holders l)" by (auto simp: list_all_iff)
      have e: "AList.delete i (holders_by_id l) = [] \<longleftrightarrow> filter ?Q (trl_holders l) = []"
        using keyed_ordered(4) [OF keyed_delete [OF keyed_holders]] ordered_delete [OF w(1)] by metis
      show ?thesis
      proof (cases "keep_holders ?Q l")
        case None
        then have "filter ?Q (trl_holders l) = []" using some by (auto simp: keep_holders_def Let_def split: if_splits)
        then show ?thesis
          using k at Some hm h e trl_drop [OF c, of t True d' r] None
          by (simp add: remove_holder_def spec_trl_remove_def Let_def fun_upd_def)
      next
        case (Some l')
        then have ne: "filter ?Q (trl_holders l) \<noteq> []" and l': "l' = retained_lease t l (filter ?Q (trl_holders l))"
          using some w(2) by (auto simp: keep_holders_def Let_def split: if_splits)
        have "put_lease data t l' True d1 = (d', r)"
          using k at \<open>?L t = Some l\<close> hm h e ne l' ordered_delete [OF w(1), of i]
          by (simp add: remove_holder_def Let_def)
        moreover have "runtime_lease_wf l'" "trl_thread_id l' = t" "runtime_lease_live e l'"
          using keep_holders_wf [OF w(1) Some] keep_holders_live [OF trl_ledger_live [OF \<open>?L t = Some l\<close>] Some] w(2) by auto
        ultimately show ?thesis
          using trl_put [OF c, of l' t True d' r] h Some \<open>?L t = Some l\<close>
          by (simp add: spec_trl_remove_def)
      qed
    qed
  qed
qed


lemma trl_release_outcome:
  assumes "trl_release e thread_id holder_id d = (d', r)" and "trl_readable e d"
    and "strip thread_id \<noteq> []" and "strip holder_id \<noteq> []"
  shows "commits_or_keeps (trl_ledger e d)
      (spec_trl_remove (trl_ledger e d) (strip thread_id) (strip holder_id) (\<lambda>_. True)) (trl_ledger e d') r
    \<and> trl_readable e d'"
  using assms by (intro trl_remove_outcome) (simp_all add: trl_release_def)

lemma trl_release_if_matches_outcome:
  assumes "trl_release_if_matches e clock thread_id expected d = (d', r)" and "trl_readable e d"
    and "strip thread_id \<noteq> []" and "trh_normalize e clock expected = Inr h"
  shows "commits_or_keeps (trl_ledger e d)
      (spec_trl_remove (trl_ledger e d) (strip thread_id) (trh_holder_id h) (\<lambda>c. c = h)) (trl_ledger e d') r
    \<and> trl_readable e d'"
  using assms by (intro trl_remove_outcome) (simp_all add: trl_release_if_matches_def)

lemma trl_load_outcome:
  assumes run: "trl_load e thread_id d = (d', r)" and rd: "trl_readable e d" and t: "strip thread_id \<noteq> []"
  shows "commits_or_keeps (trl_ledger e d) (trl_ledger e d, trl_ledger e d (strip thread_id)) (trl_ledger e d') r
    \<and> trl_readable e d'"
proof -
  let ?L = "trl_ledger e d" let ?t = "strip thread_id"
  obtain d1 q where q: "trl_locked e d = (d1, q)" by fastforce
  show ?thesis
  proof (cases q)
    case (Inl ex)
    then show ?thesis
      using q run t trl.locked_data_atomic [OF _ rd] by (auto simp: trl_load_def trl_locked_def commits_or_keeps_def)
  next
    case (Inr data)
    with q have c: "trl_ctx e ?L d1 data" by (intro trl_locked_ctx) simp
    then have at: "trl_decode e ?t (map_of data ?t) = Inr (?L ?t)" and none: "map_of data ?t = None \<longleftrightarrow> ?L ?t = None"
      by (simp_all add: trl_ctx_def)
    show ?thesis
    proof (cases "?L ?t")
      case None
      then show ?thesis
        using run t q Inr at none trl_keep [OF c, of None d' r] by (simp add: trl_load_def)
    next
      case (Some l)
      obtain raw where raw: "map_of data ?t = Some raw" using none Some by auto
      have w: "runtime_lease_wf l" "trl_thread_id l = ?t" using trl_ledger_wf [OF Some] by auto
      have same: "?L(?t \<mapsto> l) = ?L" using Some by auto
      show ?thesis
        using run t q Inr at Some raw same trl_keep [OF c, of "Some l" d' r]
          trl_put [OF c w(1) trl_ledger_live [OF Some] w(2), of "Some l" d' r]
        by (auto simp: trl_load_def split: if_splits)
    qed
  qed
qed

section \<open>Sweeps\<close>

lemma sweep_pointwise:
  assumes "\<forall>p \<in> set data. f (fst p) (snd p) = Inr (g (fst p))" and "dict_wf data"
  obtains data' where "sweep f data = Inr (data', filter (\<lambda>k. g k \<noteq> Untouched) (map fst data))"
    and "dict_wf data'"
    and "\<forall>k. map_of data' k = (case map_of data k of None \<Rightarrow> None | Some j \<Rightarrow>
      (case g k of Untouched \<Rightarrow> Some j | Removed \<Rightarrow> None | Rewritten l \<Rightarrow> Some (serialize_runtime_lease l)))"
    and "fst ` set data' \<subseteq> fst ` set data"
    and "(\<forall>p \<in> set data. g (fst p) = Untouched) \<longrightarrow> data' = data"
  using assms
proof (induction data arbitrary: thesis)
  case Nil
  show ?case by (rule Nil(1) [of "[]"]) simp_all
next
  case (Cons p data)
  obtain k j where p: "p = (k, j)" by fastforce
  have kn: "k \<notin> fst ` set data" using Cons.prems(3) p by (simp add: dict_wf_def)
  then have n: "map_of data k = None" by (simp add: map_of_eq_None_iff)
  obtain data' where s: "sweep f data = Inr (data', filter (\<lambda>k. g k \<noteq> Untouched) (map fst data))"
    and wf: "dict_wf data'" and look: "\<forall>k. map_of data' k = (case map_of data k of None \<Rightarrow> None | Some j \<Rightarrow>
      (case g k of Untouched \<Rightarrow> Some j | Removed \<Rightarrow> None | Rewritten l \<Rightarrow> Some (serialize_runtime_lease l)))"
    and sub: "fst ` set data' \<subseteq> fst ` set data" and id: "(\<forall>p \<in> set data. g (fst p) = Untouched) \<longrightarrow> data' = data"
    using Cons.IH Cons.prems(2,3) by (auto simp: dict_wf_def)
  have f: "f k j = Inr (g k)" using Cons.prems(2) p by simp
  have kn': "k \<notin> fst ` set data'" using kn sub by blast
  then have n': "map_of data' k = None" by (simp add: map_of_eq_None_iff)
  show ?case
  proof (cases "g k")
    case Untouched
    show ?thesis
      by (rule Cons.prems(1) [of "(k, j) # data'"])
        (use s f Untouched p wf look kn' sub id n in \<open>auto simp: dict_wf_def\<close>)
  next
    case Removed
    show ?thesis
      by (rule Cons.prems(1) [of data']) (use s f Removed p wf look kn' sub n n' in \<open>auto split: option.splits\<close>)
  next
    case (Rewritten l)
    show ?thesis
      by (rule Cons.prems(1) [of "(k, serialize_runtime_lease l) # data'"])
        (use s f Rewritten p wf look kn' sub n in \<open>auto simp: dict_wf_def\<close>)
  qed
qed

text \<open>A sweep that keeps some holders of some leases, as an operation on the ledger.\<close>

definition spec_sweep ::
  "(thread_runtime_lease \<Rightarrow> bool) \<Rightarrow> (thread_runtime_lease_holder \<Rightarrow> bool) \<Rightarrow> runtime_ledger \<Rightarrow> runtime_ledger" where
  "spec_sweep C P L t = (case L t of None \<Rightarrow> None | Some l \<Rightarrow> if C l then keep_holders P l else Some l)"

definition swept :: "(thread_runtime_lease \<Rightarrow> bool) \<Rightarrow> (thread_runtime_lease_holder \<Rightarrow> bool) \<Rightarrow> runtime_ledger \<Rightarrow> string set" where
  "swept C P L = {t. \<exists>l. L t = Some l \<and> C l \<and> \<not> list_all P (trl_holders l)}"

definition sweep_result ::
  "(thread_runtime_lease \<Rightarrow> bool) \<Rightarrow> (thread_runtime_lease_holder \<Rightarrow> bool) \<Rightarrow> thread_runtime_lease \<Rightarrow> sweep_outcome" where
  "sweep_result C P l =
     (if \<not> C l \<or> list_all P (trl_holders l) then Untouched
      else case keep_holders P l of None \<Rightarrow> Removed | Some l' \<Rightarrow> Rewritten l')"

lemma run_sweep_outcome:
  assumes run: "run_sweep e f d = (d', r)" and rd: "trl_readable e d"
    and f: "\<And>k j l. trl_decode e k (Some j) = Inr (Some l) \<Longrightarrow> runtime_lease_wf l \<Longrightarrow> trl_thread_id l = k \<Longrightarrow>
      \<not> (\<exists>inst. legacy_transfer_touches_instance (Some j) inst) \<Longrightarrow> f k j = Inr (sweep_result C P l)"
  shows "trl_readable e d' \<and> (case r of
      Inl ex \<Rightarrow> trl_ledger e d' = trl_ledger e d \<or> trl_ledger e d' = spec_sweep C P (trl_ledger e d)
    | Inr changed \<Rightarrow> trl_ledger e d' = spec_sweep C P (trl_ledger e d) \<and> distinct changed
        \<and> set changed = swept C P (trl_ledger e d))"
proof -
  let ?L = "trl_ledger e d"
  obtain d1 q where q: "trl_locked e d = (d1, q)" by fastforce
  show ?thesis
  proof (cases q)
    case (Inl ex)
    then show ?thesis
      using q run trl.locked_data_atomic [OF _ rd] by (auto simp: run_sweep_def trl_locked_def)
  next
    case (Inr data)
    with q have c: "trl_ctx e ?L d1 data" by (intro trl_locked_ctx) simp
    then have at: "\<And>t. trl_decode e t (map_of data t) = Inr (?L t)" and none: "\<And>t. map_of data t = None \<longleftrightarrow> ?L t = None"
      and ok: "records_ok (runtime_lease_from_data e) data" and d1: "trl_readable e d1" "trl_ledger e d1 = ?L"
      and nt: "\<And>t inst. \<not> legacy_transfer_touches_instance (map_of data t) inst"
      and v: "record_view (runtime_lease_from_data e) (runtime_lease_live e) data = ?L"
      unfolding trl_ctx_def by blast+
    have wf: "dict_wf data" using ok by (simp add: records_ok_def)
    let ?g = "\<lambda>k. sweep_result C P (the (?L k))"
    have pt: "\<forall>p \<in> set data. f (fst p) (snd p) = Inr (?g (fst p))"
    proof
      fix p assume "p \<in> set data"
      then have m: "map_of data (fst p) = Some (snd p)" using wf by (simp add: dict_wf_def)
      then obtain l where l: "?L (fst p) = Some l" using none by (metis not_None_eq)
      show "f (fst p) (snd p) = Inr (?g (fst p))"
        using f [of "fst p" "snd p" l] at [of "fst p"] m l trl_ledger_wf [OF l] nt [of "fst p"] by simp
    qed
    obtain data' where s: "sweep f data = Inr (data', filter (\<lambda>k. ?g k \<noteq> Untouched) (map fst data))"
      and wf': "dict_wf data'" and look: "\<forall>k. map_of data' k = (case map_of data k of None \<Rightarrow> None | Some j \<Rightarrow>
        (case ?g k of Untouched \<Rightarrow> Some j | Removed \<Rightarrow> None | Rewritten l \<Rightarrow> Some (serialize_runtime_lease l)))"
      and sub: "fst ` set data' \<subseteq> fst ` set data"
      and id: "(\<forall>p \<in> set data. ?g (fst p) = Untouched) \<longrightarrow> data' = data"
      by (rule sweep_pointwise [OF pt wf])
    let ?ch = "filter (\<lambda>k. ?g k \<noteq> Untouched) (map fst data)"
    have dom: "k \<in> fst ` set data \<longleftrightarrow> ?L k \<noteq> None" for k
      using none [of k] by (metis map_of_eq_None_iff)
    have gu: "?g k = Untouched \<longleftrightarrow> \<not> C l \<or> list_all P (trl_holders l)" if "?L k = Some l" for k l
      using that by (auto simp: sweep_result_def split: option.splits)
    have ch: "set ?ch = swept C P ?L"
    proof (rule set_eqI)
      fix k
      have "k \<in> set ?ch \<longleftrightarrow> ?L k \<noteq> None \<and> ?g k \<noteq> Untouched" using dom [of k] by simp
      then show "k \<in> set ?ch \<longleftrightarrow> k \<in> swept C P ?L"
        using gu [of k] by (cases "?L k") (simp_all add: swept_def)
    qed
    have rec: "record_ok (runtime_lease_from_data e) k (serialize_runtime_lease l')
        \<and> runtime_lease_from_data e k (serialize_runtime_lease l') = Inr (Some l') \<and> runtime_lease_live e l'"
      if "?L k = Some l" "keep_holders P l = Some l'" for k l l'
    proof -
      have "runtime_lease_wf l'" "trl_thread_id l' = k" "runtime_lease_live e l'"
        using trl_ledger_wf [OF that(1)] keep_holders_wf [OF _ that(2)]
          keep_holders_live [OF trl_ledger_live [OF that(1)] that(2)] by auto
      then show ?thesis using record_ok_serialized [of l' e] runtime_lease_from_serialized [of l' e] by simp
    qed
    have ok': "records_ok (runtime_lease_from_data e) data'"
    proof -
      have "record_ok (runtime_lease_from_data e) k j'" if "(k, j') \<in> set data'" for k j'
      proof -
        have m: "map_of data' k = Some j'" using that wf' by (simp add: dict_wf_def)
        then obtain j where j: "map_of data k = Some j" using look [THEN spec, of k] by (auto split: option.splits)
        then obtain l where l: "?L k = Some l" using none by (metis not_None_eq)
        have okj: "record_ok (runtime_lease_from_data e) k j" using ok map_of_SomeD [OF j] by (auto simp: records_ok_def)
        show ?thesis
          using m j l okj rec [OF l] look [THEN spec, of k] by (auto simp: sweep_result_def split: if_splits option.splits)
      qed
      then show ?thesis using wf' by (auto simp: records_ok_def)
    qed
    have v': "record_view (runtime_lease_from_data e) (runtime_lease_live e) data' = spec_sweep C P ?L"
    proof
      fix k
      show "record_view (runtime_lease_from_data e) (runtime_lease_live e) data' k = spec_sweep C P ?L k"
      proof (cases "map_of data k")
        case None
        then show ?thesis using look [THEN spec, of k] none [of k] by (simp add: record_view_def spec_sweep_def)
      next
        case (Some j)
        then obtain l where l: "?L k = Some l" using none by (metis not_None_eq)
        have vk: "record_view (runtime_lease_from_data e) (runtime_lease_live e) data k = Some l" using v l by simp
        have kk: "list_all P (trl_holders l) \<Longrightarrow> keep_holders P l = Some l" by (simp add: keep_holders_def)
        show ?thesis
          using Some l vk look [THEN spec, of k] rec [OF l] kk
          by (auto simp: sweep_result_def spec_sweep_def record_view_def split: if_splits option.splits)
      qed
    qed
    show ?thesis
    proof (cases "?ch = []")
      case True
      then have "swept C P ?L = {}" using ch by simp
      moreover have "data' = data" using True by (intro id [rule_format]) (auto simp: filter_empty_conv)
      ultimately show ?thesis
        using run q Inr s True v v' d1 by (auto simp: run_sweep_def)
    next
      case False
      have dc: "distinct ?ch" using wf by (simp add: dict_wf_def)
      obtain d2 w where w: "write_all d1 data' = (d2, w)" by fastforce
      show ?thesis
      proof (cases w)
        case (Inl ex)
        then have "d' = d2" "r = Inl ex" using run q Inr s False w by (auto simp: run_sweep_def)
        then show ?thesis using trl.write_all_atomic [OF w ok' d1(1)] v' d1(2) by auto
      next
        case (Inr u)
        then have "d' = d2" "r = Inr ?ch" using run q \<open>q = Inr data\<close> s False w by (auto simp: run_sweep_def)
        then show ?thesis using trl.committed [of d1 data' d2 e] w Inr ok' v' ch dc by simp
      qed
    qed
  qed
qed


text \<open>What a sweep result says about the ledger.\<close>

definition sweeps_or_keeps :: "runtime_ledger \<Rightarrow> runtime_ledger \<Rightarrow> string set \<Rightarrow> runtime_ledger \<Rightarrow> store_exn + string list \<Rightarrow> bool" where
  "sweeps_or_keeps L S ids L' r =
     (case r of Inl _ \<Rightarrow> L' = L \<or> L' = S | Inr changed \<Rightarrow> L' = S \<and> distinct changed \<and> set changed = ids)"

lemma filter_keeps_all: "length (filter P xs) = length xs \<longleftrightarrow> list_all P xs"
proof (cases "list_all P xs")
  case True
  then have "filter P xs = xs" by (simp add: filter_id_conv list_all_iff)
  with True show ?thesis by simp
next
  case False
  then obtain x where "x \<in> set xs" "\<not> P x" by (auto simp: list_all_iff)
  then have "length (filter P xs) < length xs" by (rule length_filter_less)
  with False show ?thesis by simp
qed

lemma sweep_generation_result:
  assumes "trl_decode e k (Some j) = Inr (Some l)" and "runtime_lease_wf l" and "trl_thread_id l = k"
  shows "sweep_generation e inst token k j =
    Inr (sweep_result (\<lambda>l. trl_owner_instance l = inst) (\<lambda>h. trh_owner_service_token h \<noteq> token) l)"
proof -
  let ?P = "\<lambda>h. trh_owner_service_token h \<noteq> token"
  have all: "length (filter ?P (trl_holders l)) = length (trl_holders l) \<longleftrightarrow> list_all ?P (trl_holders l)"
    by (rule filter_keeps_all)
  have "sort_key trh_holder_id (filter ?P (trl_holders l)) = filter ?P (trl_holders l)"
    using assms(2) by (simp add: sort_key_id_if_sorted sorted_filter runtime_lease_wf_def)
  then show ?thesis
    using assms(1,3) all by (simp add: sweep_generation_def sweep_result_def keep_holders_def Let_def)
qed

lemma sweep_instance_result:
  assumes "trl_decode e k (Some j) = Inr (Some l)" and "trl_thread_id l = k"
    and "\<not> (\<exists>inst. legacy_transfer_touches_instance (Some j) inst)"
  shows "sweep_instance e inst k j = Inr (sweep_result (\<lambda>_. True) (\<lambda>h. trh_instance_name h \<noteq> inst) l)"
proof -
  let ?P = "\<lambda>h. trh_instance_name h \<noteq> inst"
  have all: "length (filter ?P (trl_holders l)) = length (trl_holders l) \<longleftrightarrow> list_all ?P (trl_holders l)"
    by (rule filter_keeps_all)
  then show ?thesis
    using assms by (simp add: sweep_instance_def sweep_result_def keep_holders_def other_instances_def Let_def)
qed

lemma trl_release_generation_outcome:
  assumes run: "trl_release_generation e instance_name token d = (d', r)" and rd: "trl_readable e d"
    and ne: "strip instance_name \<noteq> []" "strip token \<noteq> []"
  shows "trl_readable e d' \<and> sweeps_or_keeps (trl_ledger e d)
    (spec_sweep (\<lambda>l. trl_owner_instance l = lower (strip instance_name))
       (\<lambda>h. trh_owner_service_token h \<noteq> strip token) (trl_ledger e d))
    (swept (\<lambda>l. trl_owner_instance l = lower (strip instance_name))
       (\<lambda>h. trh_owner_service_token h \<noteq> strip token) (trl_ledger e d))
    (trl_ledger e d') r"
proof -
  obtain d1 q where q: "run_sweep e (sweep_generation e (lower (strip instance_name)) (strip token)) d = (d1, q)"
    by fastforce
  have run': "bindc (d1, q) (\<lambda>d changed. (d, Inr (sort changed))) = (d', r)"
    using run ne q by (simp add: trl_release_generation_def)
  let ?C = "\<lambda>l. trl_owner_instance l = lower (strip instance_name)"
  let ?P = "\<lambda>h. trh_owner_service_token h \<noteq> strip token"
  have out: "trl_readable e d1 \<and> (case q of
      Inl ex \<Rightarrow> trl_ledger e d1 = trl_ledger e d \<or> trl_ledger e d1 = spec_sweep ?C ?P (trl_ledger e d)
    | Inr changed \<Rightarrow> trl_ledger e d1 = spec_sweep ?C ?P (trl_ledger e d) \<and> distinct changed
        \<and> set changed = swept ?C ?P (trl_ledger e d))"
    by (rule run_sweep_outcome [OF q rd]) (rule sweep_generation_result)
  show ?thesis
  proof (cases q)
    case (Inl ex)
    then have "d' = d1" "r = Inl ex" using run' by simp_all
    then show ?thesis using out Inl by (simp add: sweeps_or_keeps_def)
  next
    case (Inr changed)
    then have "d' = d1" "r = Inr (sort changed)" using run' by simp_all
    then show ?thesis using out Inr by (simp add: sweeps_or_keeps_def)
  qed
qed

lemma trl_purge_all_outcome:
  assumes run: "trl_purge_all_for_instance e instance_name d = (d', r)" and rd: "trl_readable e d"
    and ne: "strip instance_name \<noteq> []"
  shows "trl_readable e d' \<and> sweeps_or_keeps (trl_ledger e d)
    (spec_sweep (\<lambda>_. True) (\<lambda>h. trh_instance_name h \<noteq> lower (strip instance_name)) (trl_ledger e d))
    (swept (\<lambda>_. True) (\<lambda>h. trh_instance_name h \<noteq> lower (strip instance_name)) (trl_ledger e d))
    (trl_ledger e d') r"
proof -
  have q: "run_sweep e (sweep_instance e (lower (strip instance_name))) d = (d', r)"
    using run ne by (simp add: trl_purge_all_for_instance_def)
  show ?thesis
    unfolding sweeps_or_keeps_def by (rule run_sweep_outcome [OF q rd]) (rule sweep_instance_result)
qed

lemma trl_purge_instance_outcome:
  assumes run: "trl_purge_instance e thread_id instance_name d = (d', r)" and rd: "trl_readable e d"
    and ne: "strip thread_id \<noteq> []" "strip instance_name \<noteq> []"
  shows "commits_or_keeps (trl_ledger e d)
      (case trl_ledger e d (strip thread_id) of
         None \<Rightarrow> (trl_ledger e d, False)
       | Some l \<Rightarrow>
           if trl_owner_instance l = lower (strip instance_name)
           then ((trl_ledger e d)(strip thread_id := None), True) else (trl_ledger e d, False))
      (trl_ledger e d') r \<and> trl_readable e d'"
proof (rule trl_locked_outcome [OF _ rd])
  let ?t = "strip thread_id" let ?inst = "lower (strip instance_name)" let ?L = "trl_ledger e d"
  let ?body = "\<lambda>d data.
      let raw = map_of data ?t; clears = legacy_transfer_touches_instance raw ?inst
      in case trl_decode e ?t raw of
           Inl ex \<Rightarrow> (d, Inl ex)
         | Inr None \<Rightarrow> (if \<not> clears then (d, Inr False) else drop_key data ?t True d)
         | Inr (Some lease) \<Rightarrow>
             (let retained = other_instances ?inst lease
              in if length retained = length (trl_holders lease) \<and> \<not> clears then (d, Inr False)
                 else if retained = [] then drop_key data ?t True d
                 else put_lease data ?t (retained_lease ?t lease retained) True d)"
  show "bindc (trl_locked e d) ?body = (d', r)"
    using run ne by (simp add: trl_purge_instance_def Let_def)
  fix d1 data
  assume c: "trl_ctx e ?L d1 data" and k: "?body d1 data = (d', r)"
  have at: "trl_decode e ?t (map_of data ?t) = Inr (?L ?t)"
    and nt: "\<not> legacy_transfer_touches_instance (map_of data ?t) ?inst"
    using c unfolding trl_ctx_def by blast+
  show "commits_or_keeps ?L
      (case ?L ?t of None \<Rightarrow> (?L, False)
       | Some l \<Rightarrow> if trl_owner_instance l = ?inst then (?L(?t := None), True) else (?L, False))
      (trl_ledger e d') r \<and> trl_readable e d'"
  proof (cases "?L ?t")
    case None
    then show ?thesis using k at nt trl_keep [OF c, of False d' r] by simp
  next
    case (Some l)
    have inst: "\<forall>h \<in> set (trl_holders l). trh_instance_name h = trl_owner_instance l" and "trl_holders l \<noteq> []"
      using trl_ledger_wf [OF Some] by (simp_all add: runtime_lease_wf_def)
    then have "other_instances ?inst l = (if trl_owner_instance l = ?inst then [] else trl_holders l)"
      by (auto simp: other_instances_def filter_empty_conv filter_id_conv)
    then show ?thesis
      using k at nt Some \<open>trl_holders l \<noteq> []\<close> trl_keep [OF c, of False d' r] trl_drop [OF c, of ?t True d' r]
      by (simp split: if_splits)
  qed
qed

section \<open>Sequences of operations\<close>

datatype trl_op =
    TLoad string
  | TList
  | TAcquire string thread_runtime_lease_holder
  | TRelease string string
  | TReleaseIf string thread_runtime_lease_holder
  | TReleaseGeneration string string
  | TPurge string string
  | TPurgeAll string

text \<open>A holder is registered by its own process, which is there at that time.\<close>

definition registers_live :: "proc_env \<Rightarrow> rat \<Rightarrow> thread_runtime_lease_holder \<Rightarrow> bool" where
  "registers_live e clock h =
     (case trh_normalize e clock h of Inl _ \<Rightarrow> True | Inr h' \<Rightarrow> runtime_holder_live e h')"

fun trl_step :: "proc_env \<Rightarrow> rat \<Rightarrow> disk \<Rightarrow> trl_op \<Rightarrow> disk" where
  "trl_step e clock d (TLoad t) = fst (trl_load e t d)"
| "trl_step e clock d TList = fst (trl_list e d)"
| "trl_step e clock d (TAcquire t h) = (if registers_live e clock h then fst (trl_acquire e clock t h d) else d)"
| "trl_step e clock d (TRelease t i) = fst (trl_release e t i d)"
| "trl_step e clock d (TReleaseIf t h) = fst (trl_release_if_matches e clock t h d)"
| "trl_step e clock d (TReleaseGeneration inst token) = fst (trl_release_generation e inst token d)"
| "trl_step e clock d (TPurge t inst) = fst (trl_purge_instance e t inst d)"
| "trl_step e clock d (TPurgeAll inst) = fst (trl_purge_all_for_instance e inst d)"

definition single_generation :: "runtime_ledger \<Rightarrow> bool" where
  "single_generation L =
     (\<forall>t l. L t = Some l \<longrightarrow> (\<forall>h \<in> set (trl_holders l). trh_owner_service_token h = trl_owner_service_token l))"

definition trl_inv :: "proc_env \<Rightarrow> disk \<Rightarrow> bool" where
  "trl_inv e d = (trl_readable e d \<and> single_generation (trl_ledger e d))"

definition same_token :: "thread_runtime_lease \<Rightarrow> bool" where
  "same_token l = (\<forall>h \<in> set (trl_holders l). trh_owner_service_token h = trl_owner_service_token l)"

lemma single_generationD: "single_generation L \<Longrightarrow> L t = Some l \<Longrightarrow> same_token l"
  by (simp add: single_generation_def same_token_def)

lemma single_generation_upd: "single_generation L \<Longrightarrow> same_token l \<Longrightarrow> single_generation (L(t \<mapsto> l))"
  by (simp add: single_generation_def same_token_def)

lemma single_generation_del: "single_generation L \<Longrightarrow> single_generation (L(t := None))"
  by (simp add: single_generation_def)

lemma same_token_keep:
  assumes "same_token l" and "keep_holders P l = Some l'"
  shows "same_token l'"
  using assms(2)
proof (cases rule: keep_holdersE)
  case 2
  then have "hd (filter P (trl_holders l)) \<in> set (trl_holders l)" by (metis filter_is_subset hd_in_set subsetD)
  then show ?thesis using assms(1) 2(2) by (simp add: same_token_def retained_lease_def Let_def)
qed (simp add: assms(1))

lemma same_token_joined:
  assumes "same_token c" and "trl_owner_service_token c = trh_owner_service_token h"
  shows "same_token (joined_lease t c h)"
proof -
  have k: "keyed (AList.update (trh_holder_id h) h (holders_by_id c))" by (intro keyed_update keyed_holders)
  have "set (trl_holders (joined_lease t c h)) \<subseteq> insert h (set (trl_holders c))"
    using keyed_ordered(3) [OF k] holders_by_id_set [of c] by (auto simp: joined_lease_def dest!: in_update)
  moreover have "trl_owner_service_token (joined_lease t c h) = trh_owner_service_token h"
    using assms(2) by (simp add: joined_lease_def or_else_def)
  ultimately show ?thesis using assms by (auto simp: same_token_def)
qed

lemma spec_acquire_single:
  assumes "single_generation L"
  shows "single_generation (fst (spec_trl_acquire L t h))"
proof (cases "L t")
  case None
  have "same_token (first_lease t h)" by (simp add: same_token_def first_lease_def)
  then show ?thesis using assms None by (simp add: spec_trl_acquire_def single_generation_upd)
next
  case (Some c)
  then show ?thesis
    using assms same_token_joined [OF single_generationD [OF assms Some]]
    by (auto simp: spec_trl_acquire_def single_generation_upd)
qed

lemma spec_remove_single:
  assumes "single_generation L"
  shows "single_generation (fst (spec_trl_remove L t i P))"
proof (cases "\<exists>l h. L t = Some l \<and> holder_with l i = Some h \<and> P h")
  case True
  then obtain l h where l: "L t = Some l" "holder_with l i = Some h" "P h" by blast
  show ?thesis
  proof (cases "keep_holders (\<lambda>x. trh_holder_id x \<noteq> i) l")
    case None
    then show ?thesis using assms l single_generation_del [of L t] by (simp add: spec_trl_remove_def fun_upd_def)
  next
    case (Some l')
    then show ?thesis
      using assms l same_token_keep [OF single_generationD [OF assms l(1)] Some]
      by (simp add: spec_trl_remove_def single_generation_upd)
  qed
next
  case False
  then show ?thesis using assms by (auto simp: spec_trl_remove_def split: option.splits)
qed

lemma spec_sweep_single: "single_generation L \<Longrightarrow> single_generation (spec_sweep C P L)"
  unfolding single_generation_def [of "spec_sweep C P L"] same_token_def [symmetric]
  by (auto simp: spec_sweep_def dest: single_generationD same_token_keep split: option.splits if_splits)

lemma trl_list_keeps:
  assumes "trl_readable e d"
  shows "trl_readable e (fst (trl_list e d)) \<and> trl_ledger e (fst (trl_list e d)) = trl_ledger e d"
proof -
  obtain d1 q where q: "trl_locked e d = (d1, q)" by fastforce
  then have "trl_readable e d1 \<and> trl_ledger e d1 = trl_ledger e d"
    using trl.locked_data_atomic [OF _ assms] by (simp add: trl_locked_def)
  then show ?thesis using q by (cases q) (simp_all add: trl_list_def)
qed

lemma inv_outcome:
  assumes "trl_inv e d" and "commits_or_keeps (trl_ledger e d) S (trl_ledger e d') r \<and> trl_readable e d'"
    and "single_generation (fst S)"
  shows "trl_inv e d'"
  using assms by (auto simp: trl_inv_def commits_or_keeps_def split: sum.splits)

lemma trl_step_inv:
  assumes inv: "trl_inv e d"
  shows "trl_inv e (trl_step e clock d x)"
proof -
  have rd: "trl_readable e d" and sg: "single_generation (trl_ledger e d)" using inv by (simp_all add: trl_inv_def)
  show ?thesis
  proof (cases x)
    case (TLoad t)
    show ?thesis
    proof (cases "strip t = []")
      case False
      show ?thesis
        using inv_outcome [OF inv trl_load_outcome [OF prod.collapse [symmetric] rd False]] sg TLoad by simp
    qed (use inv TLoad in \<open>simp add: trl_load_def\<close>)
  next
    case TList
    then show ?thesis using trl_list_keeps [OF rd] sg by (simp add: trl_inv_def)
  next
    case (TAcquire t h)
    show ?thesis
    proof (cases "\<exists>h'. trh_normalize e clock h = Inr h' \<and> registers_live e clock h \<and> strip t \<noteq> []")
      case True
      then obtain h' where h': "trh_normalize e clock h = Inr h'" "registers_live e clock h" "strip t \<noteq> []" by blast
      then have "runtime_holder_live e h'" by (simp add: registers_live_def)
      from inv_outcome [OF inv trl_acquire_outcome [OF prod.collapse [symmetric] rd h'(3,1) this] spec_acquire_single [OF sg]]
      show ?thesis using TAcquire h' by simp
    next
      case False
      then show ?thesis using inv TAcquire by (auto simp: trl_acquire_def Let_def split: sum.splits)
    qed
  next
    case (TRelease t i)
    show ?thesis
    proof (cases "strip t = [] \<or> strip i = []")
      case False
      then show ?thesis
        using inv_outcome [OF inv trl_release_outcome [OF prod.collapse [symmetric] rd] spec_remove_single [OF sg]] TRelease
        by simp
    qed (use inv TRelease in \<open>auto simp: trl_release_def Let_def\<close>)
  next
    case (TReleaseIf t h)
    show ?thesis
    proof (cases "\<exists>h'. trh_normalize e clock h = Inr h' \<and> strip t \<noteq> []")
      case True
      then obtain h' where h': "trh_normalize e clock h = Inr h'" "strip t \<noteq> []" by blast
      from inv_outcome [OF inv trl_release_if_matches_outcome [OF prod.collapse [symmetric] rd h'(2,1)] spec_remove_single [OF sg]]
      show ?thesis using TReleaseIf by simp
    qed (use inv TReleaseIf in \<open>auto simp: trl_release_if_matches_def Let_def split: sum.splits\<close>)
  next
    case (TReleaseGeneration inst token)
    show ?thesis
    proof (cases "strip inst = [] \<or> strip token = []")
      case False
      then have ne: "strip inst \<noteq> []" "strip token \<noteq> []" by auto
      from trl_release_generation_outcome [OF prod.collapse [symmetric] rd ne] show ?thesis
        using spec_sweep_single [OF sg] sg TReleaseGeneration
        by (auto simp: trl_inv_def sweeps_or_keeps_def split: sum.splits)
    qed (use inv TReleaseGeneration in \<open>auto simp: trl_release_generation_def Let_def\<close>)
  next
    case (TPurge t inst)
    show ?thesis
    proof (cases "strip t = [] \<or> strip inst = []")
      case False
      then have ne: "strip t \<noteq> []" "strip inst \<noteq> []" by auto
      have "single_generation (fst (case trl_ledger e d (strip t) of
         None \<Rightarrow> (trl_ledger e d, False)
       | Some l \<Rightarrow>
           if trl_owner_instance l = lower (strip inst)
           then ((trl_ledger e d)(strip t := None), True) else (trl_ledger e d, False)))"
        using sg single_generation_del [OF sg] by (auto split: option.splits)
      from inv_outcome [OF inv trl_purge_instance_outcome [OF prod.collapse [symmetric] rd ne] this] show ?thesis
        using TPurge by simp
    qed (use inv TPurge in \<open>auto simp: trl_purge_instance_def Let_def\<close>)
  next
    case (TPurgeAll inst)
    show ?thesis
    proof (cases "strip inst = []")
      case False
      from trl_purge_all_outcome [OF prod.collapse [symmetric] rd False] show ?thesis
        using spec_sweep_single [OF sg] sg TPurgeAll
        by (auto simp: trl_inv_def sweeps_or_keeps_def split: sum.splits)
    qed (use inv TPurgeAll in \<open>auto simp: trl_purge_all_for_instance_def Let_def\<close>)
  qed
qed

lemma trl_empty_inv: "trl_inv e \<lparr>content = Absent, faults = fs\<rparr>"
  by (simp add: trl_inv_def readable_def read_all_def read_versioned_records_def ledger_def single_generation_def record_view_def)

interpretation trl_steps: step_system "trl_step e clock" "\<lparr>content = Absent, faults = fs\<rparr>" "trl_inv e" for e clock fs
  by unfold_locales (auto intro: trl_empty_inv trl_step_inv)

section \<open>Without write faults the operations return\<close>

lemma trl_locked_runs:
  assumes "trl_readable e d" and "faults d = []"
  obtains d1 data where "trl_locked e d = (d1, Inr data)" and "faults d1 = []"
  using trl.locked_data_runs [OF assms] by (auto simp: trl_locked_def)

lemma run_sweep_returns:
  assumes rd: "trl_readable e d" and f: "faults d = []"
    and total: "\<And>k j l. trl_decode e k (Some j) = Inr (Some l) \<Longrightarrow> \<exists>out. f k j = Inr out"
  shows "\<exists>d' changed. run_sweep e f d = (d', Inr changed)"
proof -
  obtain d1 data where l: "trl_locked e d = (d1, Inr data)" and f1: "faults d1 = []"
    by (rule trl_locked_runs [OF rd f])
  have c: "trl_ctx e (trl_ledger e d) d1 data" by (rule trl_locked_ctx [OF l])
  then have at: "\<And>t. trl_decode e t (map_of data t) = Inr (trl_ledger e d t)"
    and none: "\<And>t. map_of data t = None \<longleftrightarrow> trl_ledger e d t = None" and wf: "dict_wf data"
    unfolding trl_ctx_def records_ok_def by blast+
  have "\<exists>out. f k j = Inr out" if "(k, j) \<in> set data" for k j
  proof -
    have m: "map_of data k = Some j" using that wf by (simp add: dict_wf_def)
    then obtain x where "trl_ledger e d k = Some x" using none by (metis not_None_eq)
    then show ?thesis using total [of k j x] at [of k] m by simp
  qed
  then have "\<exists>q. sweep f data = Inr q"
  proof (induction data)
    case (Cons p data)
    obtain q where "sweep f data = Inr q" using Cons by auto
    moreover obtain out where "f (fst p) (snd p) = Inr out" using Cons.prems [of "fst p" "snd p"] by auto
    ultimately show ?case by (cases p; cases q) simp
  qed simp
  then obtain data' changed where "sweep f data = Inr (data', changed)" by fast
  then show ?thesis using l f1 by (simp add: run_sweep_def write_all_no_faults)
qed

lemma release_generation_returns:
  assumes "trl_readable e d" and "faults d = []"
  shows "\<exists>d' changed. trl_release_generation e inst token d = (d', Inr changed)"
proof -
  have "\<exists>d' ch. run_sweep e (sweep_generation e (lower (strip inst)) (strip token)) d = (d', Inr ch)"
  proof (rule run_sweep_returns [OF assms])
    fix k j l
    assume "trl_decode e k (Some j) = Inr (Some l)"
    then show "\<exists>out. sweep_generation e (lower (strip inst)) (strip token) k j = Inr out"
      by (simp add: sweep_generation_def Let_def)
  qed
  then obtain d' ch where "run_sweep e (sweep_generation e (lower (strip inst)) (strip token)) d = (d', Inr ch)"
    by (elim exE)
  then show ?thesis by (simp add: trl_release_generation_def Let_def)
qed

lemma release_if_matches_returns:
  assumes rd: "trl_readable e d" and f: "faults d = []" and n: "trh_normalize e clock x = Inr h"
  shows "\<exists>d' ok. trl_release_if_matches e clock t x d = (d', Inr ok)"
proof -
  obtain d1 data where l: "trl_locked e d = (d1, Inr data)" and f1: "faults d1 = []"
    by (rule trl_locked_runs [OF rd f])
  have "\<And>t. trl_decode e t (map_of data t) = Inr (trl_ledger e d t)"
    using trl_locked_ctx [OF l] unfolding trl_ctx_def by blast
  then show ?thesis
    using l f1 n
    by (auto simp: trl_release_if_matches_def remove_holder_def drop_key_def put_lease_def write_all_no_faults Let_def
        split: option.splits)
qed

section \<open>Concrete inputs\<close>

definition demo_holder :: thread_runtime_lease_holder where
  "demo_holder = \<lparr>trh_holder_id = ''u1'', trh_holder_type = ''t1'', trh_instance_name = ''i1'', trh_owner_pid = 7,
     trh_owner_service_token = ''t1'', trh_control_endpoint = [], trh_backend_url = [], trh_updated_at = 5,
     trh_owner_process_identity = ''linux:b1:42''\<rparr>"

definition demo_runtime_disk :: disk where
  "demo_runtime_disk = demo_disk\<lparr>content := Text (envelope [(''t1'', serialize_runtime_lease (first_lease ''t1'' demo_holder))] 1)\<rparr>"

lemma demo_holder_facts: "trh_normalize demo_procs 9 demo_holder = Inr demo_holder" "runtime_holder_live demo_procs demo_holder"
  by code_simp+

lemma demo_holder_wf: "runtime_holder_wf demo_holder"
  by (rule trh_normalize_wf [OF demo_holder_facts(1)])

lemma demo_first_lease: "runtime_lease_wf (first_lease ''t1'' demo_holder)"
  "runtime_lease_live demo_procs (first_lease ''t1'' demo_holder)" "trl_thread_id (first_lease ''t1'' demo_holder) = ''t1''"
proof -
  show "runtime_lease_wf (first_lease ''t1'' demo_holder)"
    by (rule first_lease_wf [OF demo_holder_wf]) (simp_all add: demo_strip)
qed (simp_all add: runtime_lease_live_def first_lease_def demo_holder_facts)

lemma demo_disk_readable: "trl_readable e demo_disk"
  by (simp add: readable_def read_all_def read_versioned_records_def demo_disk_def)

lemma demo_runtime_acquired:
  "trl_acquire demo_procs 9 ''t1'' demo_holder demo_disk =
     (demo_runtime_disk, Inr \<lparr>tra_granted = True, tra_acquired = True, tra_lease = Some (first_lease ''t1'' demo_holder)\<rparr>)"
proof -
  have "trl_locked demo_procs demo_disk = (demo_disk, Inr [])"
    by (simp add: trl_locked_def locked_data_def read_all_def read_versioned_records_def demo_disk_def prune_runtime_leases_def)
  moreover have "faults demo_disk = []" by (simp add: demo_disk_def)
  ultimately show ?thesis
    by (simp add: trl_acquire_def demo_strip demo_holder_facts trl_acquire_locked_def trl_decode_def put_lease_def
        write_all_no_faults demo_runtime_disk_def Let_def)
qed

lemma demo_runtime_ledger: "trl_readable demo_procs demo_runtime_disk"
  "trl_ledger demo_procs demo_runtime_disk = [''t1'' \<mapsto> first_lease ''t1'' demo_holder]"
proof -
  let ?l = "first_lease ''t1'' demo_holder"
  have ok: "records_ok (runtime_lease_from_data demo_procs) (AList.update ''t1'' (serialize_runtime_lease ?l) [])"
    using trl.record_ok_enc [OF demo_first_lease(1,2)] by (intro records_ok_update) (simp_all add: demo_first_lease(3) records_ok_def)
  have c: "content demo_runtime_disk = Text (envelope (AList.update ''t1'' (serialize_runtime_lease ?l) []) 1)"
    by (simp add: demo_runtime_disk_def)
  have e: "record_view (runtime_lease_from_data demo_procs) l [] = Map.empty" for l
    by (auto simp: record_view_def)
  show "trl_readable demo_procs demo_runtime_disk" "trl_ledger demo_procs demo_runtime_disk = [''t1'' \<mapsto> ?l]"
    using trl.stored_view [OF ok c, of demo_procs] trl.view_enc [OF demo_first_lease(1,2), of "[]"]
    by (auto simp: demo_first_lease(3) e)
qed

lemma demo_holder_of:
  "holder_of [''t1'' \<mapsto> first_lease ''t1'' demo_holder] t i = (if t = ''t1'' \<and> i = ''u1'' then Some demo_holder else None)"
  by (simp add: holder_of_def demo_holder_def)

section \<open>Properties\<close>

text \<open>
  \<open>acquire\<close> of the machine-level runtime lease adds the caller's holder to the thread's
  lease exactly when the thread is free or leased to the same instance and service
  generation, and refuses it otherwise without a change. An exception leaves the ledger
  unchanged or as specified.
\<close>

theorem runtime_acquire_refines_ledger:
  assumes "trl_acquire e clock thread_id holder d = (d', r)" and "trl_readable e d"
    and "strip thread_id \<noteq> []" and "trh_normalize e clock holder = Inr h" and "runtime_holder_live e h"
  shows "commits_or_keeps (trl_ledger e d) (spec_trl_acquire (trl_ledger e d) (strip thread_id) h) (trl_ledger e d') r
    \<and> trl_readable e d'"
  using assms by (rule trl_acquire_outcome)

theorem runtime_acquire_refines_ledger_witness:
  "trl_ledger demo_procs demo_runtime_disk ''t1'' = Some (first_lease ''t1'' demo_holder)"
proof -
  have "trl_ledger demo_procs demo_disk = Map.empty"
    by (auto simp: ledger_def read_all_def read_versioned_records_def demo_disk_def record_view_def)
  then show ?thesis
    using runtime_acquire_refines_ledger [OF demo_runtime_acquired demo_disk_readable _ _ demo_holder_facts(2)]
    by (simp add: demo_strip demo_holder_facts commits_or_keeps_def spec_trl_acquire_def)
qed



text \<open>
  Releasing a stopped service generation removes exactly the holders of that instance and
  that generation, and reports exactly the threads that lost one, in sorted order.
\<close>

theorem release_generation_exact:
  assumes "trl_release_generation e inst token d = (d', Inr changed)" and "trl_readable e d"
    and "strip inst \<noteq> []" and "strip token \<noteq> []"
  shows "holder_of (trl_ledger e d') t i =
      (case holder_of (trl_ledger e d) t i of
         None \<Rightarrow> None
       | Some h \<Rightarrow> if trh_instance_name h = lower (strip inst) \<and> trh_owner_service_token h = strip token
                   then None else Some h)
    \<and> sorted changed \<and> (t \<in> set changed \<longleftrightarrow>
         (\<exists>i h. holder_of (trl_ledger e d) t i = Some h \<and> trh_instance_name h = lower (strip inst)
               \<and> trh_owner_service_token h = strip token))"
proof -
  let ?L = "trl_ledger e d" let ?I = "lower (strip inst)" let ?T = "strip token"
  let ?C = "\<lambda>l. trl_owner_instance l = ?I" let ?P = "\<lambda>h. trh_owner_service_token h \<noteq> ?T"
  have L': "trl_ledger e d' = spec_sweep ?C ?P ?L" and ids: "set changed = swept ?C ?P ?L"
    using trl_release_generation_outcome [OF assms] by (simp_all add: sweeps_or_keeps_def)
  have sorted: "sorted changed"
    using assms(1,3,4) by (auto simp: trl_release_generation_def bindc_eq_Inr)
  show ?thesis
  proof (cases "?L t")
    case None
    then show ?thesis using L' ids sorted by (simp add: spec_sweep_def holder_of_def swept_def)
  next
    case (Some l)
    have w: "runtime_lease_wf l" using trl_ledger_wf [OF Some] by simp
    have inst: "h \<in> set (trl_holders l) \<Longrightarrow> trh_instance_name h = trl_owner_instance l" for h
      using w by (simp add: runtime_lease_wf_def)
    have mem: "holder_with l i = Some h \<Longrightarrow> h \<in> set (trl_holders l)" for i h
      by (auto simp: holder_with_def find_Some_iff)
    have id: "h \<in> set (trl_holders l) \<Longrightarrow> \<exists>i. holder_with l i = Some h" for h
    proof -
      assume h: "h \<in> set (trl_holders l)"
      then obtain h' where f: "holder_with l (trh_holder_id h) = Some h'"
        unfolding holder_with_def by (metis (mono_tags, lifting) find_None_iff not_None_eq)
      then have "h' \<in> set (trl_holders l)" "trh_holder_id h' = trh_holder_id h"
        by (auto simp: holder_with_def find_Some_iff)
      then have "h' = h" using h w by (metis distinct_map inj_onD runtime_lease_wf_def)
      then show ?thesis using f by blast
    qed
    have "t \<in> set changed \<longleftrightarrow> (\<exists>h \<in> set (trl_holders l). ?C l \<and> trh_owner_service_token h = ?T)"
      using Some ids by (auto simp: swept_def list_all_iff)
    then have 1: "t \<in> set changed \<longleftrightarrow> (\<exists>i h. holder_of ?L t i = Some h \<and> trh_instance_name h = ?I \<and> trh_owner_service_token h = ?T)"
      using Some inst mem id by (simp add: holder_of_def) metis
    have 2: "holder_of (trl_ledger e d') t i =
        (if ?C l then (case holder_with l i of None \<Rightarrow> None | Some h \<Rightarrow> if ?P h then Some h else None)
         else holder_with l i)"
      using Some holder_with_keep [OF w, where P = ?P and i = i] by (simp add: L' spec_sweep_def holder_of_def)
    have 3: "holder_with l i = Some h \<Longrightarrow> trh_instance_name h = trl_owner_instance l" for h
      using mem inst by blast
    show ?thesis
      using 1 2 3 sorted Some by (auto simp: holder_of_def split: option.splits)
  qed
qed

theorem release_generation_exact_witness:
  "\<exists>d' changed. trl_release_generation demo_procs ''i1'' ''t1'' demo_runtime_disk = (d', Inr changed)
     \<and> holder_of (trl_ledger demo_procs d') ''t1'' ''u1'' = None \<and> ''t1'' \<in> set changed"
proof -
  have f: "faults demo_runtime_disk = []" by (simp add: demo_runtime_disk_def demo_disk_def)
  obtain d' ch where r: "trl_release_generation demo_procs ''i1'' ''t1'' demo_runtime_disk = (d', Inr ch)"
    using release_generation_returns [OF demo_runtime_ledger(1) f] by blast
  from release_generation_exact [OF r demo_runtime_ledger(1), of "''t1''" "''u1''"] r show ?thesis
    by (simp add: demo_strip demo_runtime_ledger(2) demo_holder_of) (simp add: demo_holder_def)
qed

text \<open>
\<open>release_if_matches\<close> compares the complete holder record: a refreshed record under the
  same holder id is not released by a caller that captured the previous one.
\<close>

theorem runtime_release_if_matches_exact:
  assumes "trl_release_if_matches e clock thread_id expected d = (d', Inr released)" and "trl_readable e d"
    and "strip thread_id \<noteq> []" and "trh_normalize e clock expected = Inr h"
  shows "released = (holder_of (trl_ledger e d) (strip thread_id) (trh_holder_id h) = Some h)
    \<and> holder_of (trl_ledger e d') t i =
       (if released \<and> t = strip thread_id \<and> i = trh_holder_id h then None else holder_of (trl_ledger e d) t i)"
proof -
  let ?L = "trl_ledger e d" let ?t = "strip thread_id" let ?i = "trh_holder_id h"
  have out: "(trl_ledger e d', released) = spec_trl_remove ?L ?t ?i (\<lambda>c. c = h)"
    using trl_release_if_matches_outcome [OF assms] by (simp add: commits_or_keeps_def)
  show ?thesis
  proof (cases "holder_of ?L ?t ?i = Some h")
    case True
    then obtain l where l: "?L ?t = Some l" "holder_with l ?i = Some h" by (auto simp: holder_of_def split: option.splits)
    have w: "runtime_lease_wf l" using trl_ledger_wf [OF l(1)] by simp
    have o: "trl_ledger e d' = ?L(?t := keep_holders (\<lambda>x. trh_holder_id x \<noteq> ?i) l)" and rel: released
      using out l by (simp_all add: spec_trl_remove_def)
    have at: "holder_of (trl_ledger e d') ?t i = (if i = ?i then None else holder_with l i)"
    proof -
      have idx: "holder_with l i = Some x \<Longrightarrow> trh_holder_id x = i" for x by (auto simp: holder_with_def find_Some_iff)
      have "holder_of (trl_ledger e d') ?t i =
          (case keep_holders (\<lambda>x. trh_holder_id x \<noteq> ?i) l of None \<Rightarrow> None | Some l' \<Rightarrow> holder_with l' i)"
        by (simp add: o holder_of_def)
      also have "\<dots> = (case holder_with l i of None \<Rightarrow> None | Some x \<Rightarrow> if trh_holder_id x \<noteq> ?i then Some x else None)"
        by (rule holder_with_keep [OF w])
      also have "\<dots> = (if i = ?i then None else holder_with l i)"
        by (cases "holder_with l i") (simp_all add: idx)
      finally show ?thesis .
    qed
    have other: "t \<noteq> ?t \<Longrightarrow> holder_of (trl_ledger e d') t i = holder_of ?L t i" using o by (simp add: holder_of_def)
    have "holder_of ?L ?t i = holder_with l i" using l by (simp add: holder_of_def)
    with at other have "holder_of (trl_ledger e d') t i = (if t = ?t \<and> i = ?i then None else holder_of ?L t i)"
      by (cases "t = ?t") simp_all
    with True rel show ?thesis by simp
  next
    case False
    then have "trl_ledger e d' = ?L" "\<not> released"
      using out by (auto simp: spec_trl_remove_def holder_of_def split: option.splits if_splits)
    then show ?thesis using False by simp
  qed
qed

theorem runtime_release_if_matches_exact_witness:
  "\<exists>d'. trl_release_if_matches demo_procs 9 ''t1'' demo_holder demo_runtime_disk = (d', Inr True)
     \<and> holder_of (trl_ledger demo_procs d') ''t1'' ''u1'' = None"
proof -
  have f: "faults demo_runtime_disk = []" by (simp add: demo_runtime_disk_def demo_disk_def)
  obtain d' ok where r: "trl_release_if_matches demo_procs 9 ''t1'' demo_holder demo_runtime_disk = (d', Inr ok)"
    using release_if_matches_returns [OF demo_runtime_ledger(1) f demo_holder_facts(1)] by blast
  have id: "trh_holder_id demo_holder = ''u1''" by (simp add: demo_holder_def)
  have ok and "holder_of (trl_ledger demo_procs d') ''t1'' ''u1'' = None"
    using runtime_release_if_matches_exact [OF r demo_runtime_ledger(1) _ demo_holder_facts(1), of "''t1''" "''u1''"]
    by (simp_all add: demo_strip demo_runtime_ledger(2) demo_holder_of id)
  with r show ?thesis by (intro exI [of _ d']) simp
qed

end
