(* ===== verification/Runtime_Coordination.thy ===== *)
theory Runtime_Coordination
  imports Thread_Runtime_Ledger
begin

text \<open>
  Coordination of the instances on one machine before a thread is loaded
  (\<open>bot/thread_runtime_coordination.py\<close>): the preflight that every other running instance
  reports the thread as not loaded, and the acquisition of the machine-level lease with its
  conflict reasons.

  What the outside answers is the environment \<open>gate_env\<close>: the instance registry, the reply
  of each instance's control plane to \<open>thread/loaded-status\<close>, and the successive readings
  of the monotonic clock. Reason texts are constructors with the parts the code puts into
  the sentence; the Chinese wording around them is not modelled.
\<close>

section \<open>Data\<close>

definition STATUS_IDLE :: string where "STATUS_IDLE = ''idle''"
definition STATUS_ACTIVE :: string where "STATUS_ACTIVE = ''active''"
definition STATUS_NOT_LOADED :: string where "STATUS_NOT_LOADED = ''notLoaded''"
definition STATUS_SYSTEM_ERROR :: string where "STATUS_SYSTEM_ERROR = ''systemError''"
definition STATUS_UNKNOWN :: string where "STATUS_UNKNOWN = ''unknown''"

definition LOADED_STATUSES :: "string set" where
  "LOADED_STATUSES = {STATUS_IDLE, STATUS_ACTIVE, STATUS_SYSTEM_ERROR}"

definition is_confirmed_inactive_status :: "string \<Rightarrow> bool" where
  "is_confirmed_inactive_status value' = (strip value' \<in> {STATUS_IDLE, STATUS_NOT_LOADED})"

definition DENIED_BY_LIVE_OWNER :: string where
  "DENIED_BY_LIVE_OWNER = ''prompt_denied_by_live_runtime_owner''"

datatype reason_text =
    NoReason
  | RegistryUnverifiable string
  | InstanceUnverifiable string string
  | StillLoaded string string
  | StatusUnverifiable string string
  | StoreUnavailable string
  | NoRuntime
  | HeldByInstance string
  | StaleOwnGeneration string
  | FcodexHolder string
  | ExternalHolder string
  | ServiceOwner string

record acquire_preview =
  ap_allowed :: bool
  ap_reason_code :: string
  ap_reason_text :: reason_text

record gate_preview =
  gp_allowed :: bool
  gp_reason_code :: string
  gp_reason_text :: reason_text
  gp_blocking_instance :: string
  gp_blocking_status :: string

record loaded_presence =
  lp_verified_clear :: bool
  lp_blocking_instance :: string
  lp_blocking_status :: string
  lp_diagnostic :: string

record instance_entry =
  ie_instance_name :: string
  ie_data_dir :: string

record gate_env =
  registry :: "string + instance_entry list"
  control_reply :: "instance_entry \<Rightarrow> string \<Rightarrow> string + json"
  clock_at :: "nat \<Rightarrow> rat"
  text_of :: "json \<Rightarrow> string"

text \<open>
  The running-instances argument and the registry: a given list wins over the registry.
\<close>

datatype running_source = FromRegistry | Given "instance_entry list"

section \<open>The remote status of a thread\<close>

text \<open>
  \<open>str(x or "").strip() or UNKNOWN\<close> of the reply's field. A reply that is not an object raises.
\<close>

definition remote_backend_thread_status :: "gate_env \<Rightarrow> instance_entry \<Rightarrow> string \<Rightarrow> string + string" where
  "remote_backend_thread_status e owner thread_id =
     (case control_reply e owner thread_id of
        Inl ex \<Rightarrow> Inl ex
      | Inr (JObj ps) \<Rightarrow> Inr (or_else (field_text (text_of e) (map_of ps ''backend_thread_status'')) STATUS_UNKNOWN)
      | Inr _ \<Rightarrow> Inl ''RuntimeError'')"

section \<open>The loaded gate\<close>

text \<open>
  One pass over the entries; \<open>n\<close> counts the clock readings. An exception without a text is
  reported by its type name, which the environment's text already is.
\<close>

fun probe_entries ::
  "gate_env \<Rightarrow> string \<Rightarrow> string list \<Rightarrow> rat \<Rightarrow> nat \<Rightarrow> instance_entry list \<Rightarrow> loaded_presence" where
  "probe_entries e t excluded deadline n [] =
     \<lparr>lp_verified_clear = True, lp_blocking_instance = [], lp_blocking_status = [], lp_diagnostic = []\<rparr>"
| "probe_entries e t excluded deadline n (entry # rest) =
     (if ie_instance_name entry \<in> set excluded then probe_entries e t excluded deadline n rest
      else if deadline - clock_at e n \<le> 0 then
        \<lparr>lp_verified_clear = False, lp_blocking_instance = ie_instance_name entry,
         lp_blocking_status = STATUS_UNKNOWN, lp_diagnostic = ''preflight exceeded its total timeout''\<rparr>
      else case remote_backend_thread_status e entry t of
          Inl ex \<Rightarrow>
            \<lparr>lp_verified_clear = False, lp_blocking_instance = ie_instance_name entry,
             lp_blocking_status = STATUS_UNKNOWN, lp_diagnostic = or_else ex ''Exception''\<rparr>
        | Inr status \<Rightarrow>
            (if status = STATUS_NOT_LOADED then probe_entries e t excluded deadline (Suc n) rest
             else \<lparr>lp_verified_clear = False, lp_blocking_instance = ie_instance_name entry,
                   lp_blocking_status = or_else status STATUS_UNKNOWN, lp_diagnostic = []\<rparr>))"

definition inspect_thread_global_loaded_presence ::
  "gate_env \<Rightarrow> string \<Rightarrow> running_source \<Rightarrow> string list \<Rightarrow> rat \<Rightarrow> loaded_presence" where
  "inspect_thread_global_loaded_presence e thread_id running excluded_names timeout =
     (let t = strip thread_id
      in if t = [] then
           \<lparr>lp_verified_clear = True, lp_blocking_instance = [], lp_blocking_status = [], lp_diagnostic = []\<rparr>
         else let excluded = map (\<lambda>s. lower (strip s)) (filter (\<lambda>s. strip s \<noteq> []) excluded_names)
              in case (case running of FromRegistry \<Rightarrow> registry e | Given xs \<Rightarrow> Inr xs) of
                   Inl ex \<Rightarrow>
                     \<lparr>lp_verified_clear = False, lp_blocking_instance = [],
                      lp_blocking_status = STATUS_UNKNOWN, lp_diagnostic = ex\<rparr>
                 | Inr entries \<Rightarrow>
                     probe_entries e t excluded (clock_at e 0 + max timeout (1 / 10)) 1 entries)"

definition preview_thread_global_loaded_gate ::
  "gate_env \<Rightarrow> string \<Rightarrow> string \<Rightarrow> running_source \<Rightarrow> rat \<Rightarrow> gate_preview" where
  "preview_thread_global_loaded_gate e thread_id current_instance running timeout =
     (let t = strip thread_id; current = lower (strip current_instance);
          allowed = \<lparr>gp_allowed = True, gp_reason_code = [], gp_reason_text = NoReason,
                     gp_blocking_instance = [], gp_blocking_status = []\<rparr>
      in if t = [] then allowed
         else let p = inspect_thread_global_loaded_presence e t running
                        (if current = [] then [] else [current]) timeout;
                  inst = lp_blocking_instance p; status = lp_blocking_status p; diag = lp_diagnostic p
              in if lp_verified_clear p then allowed
                 else if diag \<noteq> [] then
                   (if inst = [] then
                      \<lparr>gp_allowed = False, gp_reason_code = DENIED_BY_LIVE_OWNER,
                       gp_reason_text = RegistryUnverifiable diag,
                       gp_blocking_instance = [], gp_blocking_status = status\<rparr>
                    else
                      \<lparr>gp_allowed = False, gp_reason_code = DENIED_BY_LIVE_OWNER,
                       gp_reason_text = InstanceUnverifiable inst diag,
                       gp_blocking_instance = inst, gp_blocking_status = status\<rparr>)
                 else if status \<in> LOADED_STATUSES then
                   \<lparr>gp_allowed = False, gp_reason_code = DENIED_BY_LIVE_OWNER,
                    gp_reason_text = StillLoaded inst status,
                    gp_blocking_instance = inst, gp_blocking_status = status\<rparr>
                 else
                   \<lparr>gp_allowed = False, gp_reason_code = DENIED_BY_LIVE_OWNER,
                    gp_reason_text = StatusUnverifiable inst (or_else status STATUS_UNKNOWN),
                    gp_blocking_instance = inst, gp_blocking_status = or_else status STATUS_UNKNOWN\<rparr>)"

section \<open>Acquiring the lease\<close>

definition has_non_service_holders :: "thread_runtime_lease \<Rightarrow> bool" where
  "has_non_service_holders l = list_ex (\<lambda>h. trh_holder_type h \<noteq> ''service'') (trl_holders l)"

definition external_holder_conflict :: "thread_runtime_lease \<Rightarrow> reason_text" where
  "external_holder_conflict l =
     (if list_ex (\<lambda>h. trh_holder_type h = ''fcodex'') (trl_holders l)
      then FcodexHolder (trl_owner_instance l) else ExternalHolder (trl_owner_instance l))"

definition preview_holder_conflict ::
  "thread_runtime_lease_holder \<Rightarrow> thread_runtime_lease \<Rightarrow> acquire_preview" where
  "preview_holder_conflict holder current =
     (if trl_owner_instance current = trh_instance_name holder
         \<and> trl_owner_service_token current \<noteq> trh_owner_service_token holder
      then \<lparr>ap_allowed = False, ap_reason_code = DENIED_BY_LIVE_OWNER,
            ap_reason_text = StaleOwnGeneration (trl_owner_instance current)\<rparr>
      else if has_non_service_holders current
      then \<lparr>ap_allowed = False, ap_reason_code = DENIED_BY_LIVE_OWNER,
            ap_reason_text = external_holder_conflict current\<rparr>
      else \<lparr>ap_allowed = False, ap_reason_code = DENIED_BY_LIVE_OWNER,
            ap_reason_text = ServiceOwner (trl_owner_instance current)\<rparr>)"

text \<open>The store's own errors that are not \<open>Unavailable\<close> pass through unchanged.\<close>

definition preview_thread_runtime_holder_acquire ::
  "proc_env \<Rightarrow> string \<Rightarrow> thread_runtime_lease_holder \<Rightarrow> disk \<Rightarrow> disk \<times> (store_exn + acquire_preview)" where
  "preview_thread_runtime_holder_acquire e thread_id holder d =
     (case trl_load e thread_id d of
        (d', Inl (Unavailable reason)) \<Rightarrow>
          (d', Inr \<lparr>ap_allowed = False, ap_reason_code = DENIED_BY_LIVE_OWNER,
                    ap_reason_text = StoreUnavailable reason\<rparr>)
      | (d', Inl ex) \<Rightarrow> (d', Inl ex)
      | (d', Inr None) \<Rightarrow>
          (d', Inr \<lparr>ap_allowed = True, ap_reason_code = [], ap_reason_text = NoReason\<rparr>)
      | (d', Inr (Some current)) \<Rightarrow>
          (d', Inr (if trl_owner_instance current = trh_instance_name holder
                       \<and> trl_owner_service_token current = trh_owner_service_token holder
                    then \<lparr>ap_allowed = True, ap_reason_code = [], ap_reason_text = NoReason\<rparr>
                    else preview_holder_conflict holder current)))"

datatype admission_exn =
    AdmissionError reason_text string string string
  | StoreRaised store_exn

definition acquire_thread_runtime_holder_or_raise ::
  "proc_env \<Rightarrow> rat \<Rightarrow> string \<Rightarrow> thread_runtime_lease_holder \<Rightarrow> disk
    \<Rightarrow> disk \<times> (admission_exn + thread_runtime_acquire_result)" where
  "acquire_thread_runtime_holder_or_raise e clock thread_id holder d =
     (case trl_acquire e clock thread_id holder d of
        (d', Inl (Unavailable reason)) \<Rightarrow>
          (d', Inl (AdmissionError (StoreUnavailable reason) [] [] DENIED_BY_LIVE_OWNER))
      | (d', Inl ex) \<Rightarrow> (d', Inl (StoreRaised ex))
      | (d', Inr result) \<Rightarrow>
          (if tra_granted result then (d', Inr result)
           else case tra_lease result of
             None \<Rightarrow> (d', Inl (AdmissionError NoRuntime [] [] DENIED_BY_LIVE_OWNER))
           | Some current \<Rightarrow>
               (let preview = preview_holder_conflict holder current
                in if \<not> ap_allowed preview
                   then (d', Inl (AdmissionError (ap_reason_text preview) (strip (trl_owner_instance current))
                                    STATUS_UNKNOWN (ap_reason_code preview)))
                   else (d', Inl (AdmissionError (HeldByInstance (trl_owner_instance current))
                                    (strip (trl_owner_instance current)) STATUS_UNKNOWN DENIED_BY_LIVE_OWNER)))))"

section \<open>The gate is a proof of absence\<close>

text \<open>
  The clock reading for the entry at a position: one for each probed entry before it.
\<close>

fun all_report_not_loaded ::
  "gate_env \<Rightarrow> string \<Rightarrow> string list \<Rightarrow> rat \<Rightarrow> nat \<Rightarrow> instance_entry list \<Rightarrow> bool" where
  "all_report_not_loaded e t excluded deadline n [] = True"
| "all_report_not_loaded e t excluded deadline n (entry # rest) =
     (if ie_instance_name entry \<in> set excluded then all_report_not_loaded e t excluded deadline n rest
      else clock_at e n < deadline \<and> remote_backend_thread_status e entry t = Inr STATUS_NOT_LOADED
           \<and> all_report_not_loaded e t excluded deadline (Suc n) rest)"

lemma probe_clear_iff:
  "lp_verified_clear (probe_entries e t excluded deadline n entries) = all_report_not_loaded e t excluded deadline n entries"
  by (induction e t excluded deadline n entries rule: probe_entries.induct) (auto split: sum.splits)

lemma all_report_each:
  "all_report_not_loaded e t excluded deadline n entries \<Longrightarrow> entry \<in> set entries \<Longrightarrow>
     ie_instance_name entry \<notin> set excluded \<Longrightarrow> remote_backend_thread_status e entry t = Inr STATUS_NOT_LOADED"
  by (induction entries arbitrary: n) (auto split: if_splits)

lemma not_loaded_reply:
  assumes "remote_backend_thread_status e entry t = Inr STATUS_NOT_LOADED"
  shows "\<exists>ps. control_reply e entry t = Inr (JObj ps) \<and> field_text (text_of e) (map_of ps ''backend_thread_status'') = STATUS_NOT_LOADED"
  using assms
  by (auto simp: remote_backend_thread_status_def or_else_def STATUS_UNKNOWN_def STATUS_NOT_LOADED_def
      split: sum.splits json.splits if_splits)

lemma probe_blocked:
  "\<not> lp_verified_clear (probe_entries e t excluded deadline n entries) \<Longrightarrow>
     \<exists>entry \<in> set entries. ie_instance_name entry = lp_blocking_instance (probe_entries e t excluded deadline n entries)
       \<and> ie_instance_name entry \<notin> set excluded"
  by (induction e t excluded deadline n entries rule: probe_entries.induct) (auto split: sum.splits if_splits)

section \<open>Preview and acquisition agree\<close>

lemma trl_load_faultless:
  assumes rd: "trl_readable e d" and f: "faults d = []"
  shows "\<exists>d' l. trl_load e t d = (d', Inr l) \<and> faults d' = []"
proof -
  obtain d1 data where l: "trl_locked e d = (d1, Inr data)" and f1: "faults d1 = []"
    by (rule trl_locked_runs [OF rd f])
  have "\<And>t. trl_decode e t (map_of data t) = Inr (trl_ledger e d t)"
    using trl_locked_ctx [OF l] unfolding trl_ctx_def by blast
  then show ?thesis
    using l f1 f
    by (auto simp: trl_load_def drop_key_def put_lease_def write_all_no_faults Let_def split: option.splits)
qed

lemma trl_acquire_faultless:
  assumes rd: "trl_readable e d" and f: "faults d = []" and n: "trh_normalize e clock h = Inr h'" and t: "strip t \<noteq> []"
  shows "\<exists>d' r. trl_acquire e clock t h d = (d', Inr r)"
proof -
  obtain d1 data where l: "trl_locked e d = (d1, Inr data)" and f1: "faults d1 = []"
    by (rule trl_locked_runs [OF rd f])
  have "\<And>t. trl_decode e t (map_of data t) = Inr (trl_ledger e d t)"
    using trl_locked_ctx [OF l] unfolding trl_ctx_def by blast
  then show ?thesis
    using l f1 n t
    by (auto simp: trl_acquire_def trl_acquire_locked_def put_lease_def write_all_no_faults Let_def split: option.splits)
qed

lemma conflict_denies: "\<not> ap_allowed (preview_holder_conflict h c)"
  by (simp add: preview_holder_conflict_def)

section \<open>Properties\<close>

text \<open>
  C7. The loaded gate is a proof of absence: when it allows a thread, every other running
  instance was asked within the deadline and its control plane answered with an object whose
  status is \<open>notLoaded\<close>; no silence, error or unknown value lets the thread through.
\<close>

theorem gate_allows_only_proved_absence:
  assumes "gp_allowed (preview_thread_global_loaded_gate e thread_id current running timeout)"
    and "strip thread_id \<noteq> []"
    and "(case running of FromRegistry \<Rightarrow> registry e | Given xs \<Rightarrow> Inr xs) = Inr entries"
    and "entry \<in> set entries" and "ie_instance_name entry \<noteq> lower (strip current)"
  shows "\<exists>ps. control_reply e entry (strip thread_id) = Inr (JObj ps)
    \<and> field_text (text_of e) (map_of ps ''backend_thread_status'') = STATUS_NOT_LOADED"
proof -
  define excl where "excl = (if lower (strip current) = [] then [] else [lower (strip current)])"
  define excl' where "excl' = map (\<lambda>s. lower (strip s)) (filter (\<lambda>s. strip s \<noteq> []) excl)"
  have sub: "set excl' \<subseteq> {lower (strip current)}"
    by (auto simp: excl'_def excl_def)
  have "lp_verified_clear (inspect_thread_global_loaded_presence e (strip thread_id) running excl timeout)"
    using assms(1,2) by (simp add: preview_thread_global_loaded_gate_def excl_def Let_def split: if_splits)
  then have "all_report_not_loaded e (strip thread_id) excl' (clock_at e 0 + max timeout (1 / 10)) 1 entries"
    using assms(2,3) by (simp add: inspect_thread_global_loaded_presence_def excl'_def probe_clear_iff Let_def)
  from all_report_each [OF this assms(4)] sub assms(5) have
    "remote_backend_thread_status e entry (strip thread_id) = Inr STATUS_NOT_LOADED" by blast
  then show ?thesis by (rule not_loaded_reply)
qed

definition demo_gate :: gate_env where
  "demo_gate = \<lparr>registry = Inr [\<lparr>ie_instance_name = ''u1'', ie_data_dir = ''d''\<rparr>],
     control_reply = (\<lambda>_ _. Inr (JObj [(''backend_thread_status'', JStr ''notLoaded'')])),
     clock_at = (\<lambda>n. of_nat n / 100), text_of = (\<lambda>_. [])\<rparr>"

theorem gate_allows_only_proved_absence_witness:
  "gp_allowed (preview_thread_global_loaded_gate demo_gate ''t1'' ''i1'' FromRegistry 3)
   \<and> (\<exists>ps. control_reply demo_gate \<lparr>ie_instance_name = ''u1'', ie_data_dir = ''d''\<rparr> (strip ''t1'') = Inr (JObj ps)
      \<and> field_text (text_of demo_gate) (map_of ps ''backend_thread_status'') = STATUS_NOT_LOADED)"
proof -
  have nl: "strip ''notLoaded'' = ''notLoaded''" by code_simp
  have st: "remote_backend_thread_status demo_gate x t = Inr STATUS_NOT_LOADED" for x t
    by (simp add: remote_backend_thread_status_def demo_gate_def field_text_def nl or_else_def STATUS_NOT_LOADED_def)
  have a: "gp_allowed (preview_thread_global_loaded_gate demo_gate ''t1'' ''i1'' FromRegistry 3)"
    by (simp add: preview_thread_global_loaded_gate_def inspect_thread_global_loaded_presence_def demo_strip
        demo_gate_def [THEN arg_cong, of registry] demo_gate_def [THEN arg_cong, of clock_at] st Let_def)
  have "\<exists>ps. control_reply demo_gate \<lparr>ie_instance_name = ''u1'', ie_data_dir = ''d''\<rparr> (strip ''t1'') = Inr (JObj ps)
      \<and> field_text (text_of demo_gate) (map_of ps ''backend_thread_status'') = STATUS_NOT_LOADED"
    by (rule gate_allows_only_proved_absence [OF a]) (auto simp: demo_strip demo_gate_def)
  with a show ?thesis by blast
qed

text \<open>
  The preview of an acquisition decides it: on a readable store without write faults, a
  normalised holder whose preview is allowed acquires the lease right after it, and a denied
  one is refused with the reason the preview gave.
\<close>

theorem preview_decides_acquire:
  assumes "trl_readable e d" and "faults d = []" and "strip t \<noteq> []"
    and "trh_normalize e clock h = Inr h" and "runtime_holder_live e h"
    and "preview_thread_runtime_holder_acquire e t h d = (d1, Inr p)"
  shows "if ap_allowed p
    then \<exists>d2 r. acquire_thread_runtime_holder_or_raise e clock t h d1 = (d2, Inr r) \<and> tra_granted r
    else \<exists>d2 inst status. acquire_thread_runtime_holder_or_raise e clock t h d1 =
      (d2, Inl (AdmissionError (ap_reason_text p) inst status (ap_reason_code p)))"
proof -
  let ?L = "trl_ledger e d" let ?t = "strip t"
  obtain l where ld: "trl_load e t d = (d1, Inr l)" and f1: "faults d1 = []"
    using trl_load_faultless [OF assms(1,2), of t] assms(6)
    by (auto simp: preview_thread_runtime_holder_acquire_def split: option.splits)
  from trl_load_outcome [OF ld assms(1,3)] have l: "l = ?L ?t" and L1: "trl_ledger e d1 = ?L" and r1: "trl_readable e d1"
    by (simp_all add: commits_or_keeps_def)
  obtain d2 r where acq: "trl_acquire e clock t h d1 = (d2, Inr r)"
    using trl_acquire_faultless [OF r1 f1 assms(4,3)] by blast
  from trl_acquire_outcome [OF acq r1 assms(3,4,5)] L1
  have out: "(trl_ledger e d2, r) = spec_trl_acquire ?L ?t h" by (simp add: commits_or_keeps_def)
  show ?thesis
  proof (cases "?L ?t")
    case None
    then show ?thesis
      using assms(6) ld l out acq
      by (auto simp: preview_thread_runtime_holder_acquire_def spec_trl_acquire_def acquire_thread_runtime_holder_or_raise_def)
  next
    case (Some c)
    show ?thesis
    proof (cases "trl_owner_instance c = trh_instance_name h \<and> trl_owner_service_token c = trh_owner_service_token h")
      case True
      then show ?thesis
        using Some assms(6) ld l out acq
        by (auto simp: preview_thread_runtime_holder_acquire_def spec_trl_acquire_def acquire_thread_runtime_holder_or_raise_def)
    next
      case False
      then have p: "p = preview_holder_conflict h c"
        using Some assms(6) ld l by (auto simp: preview_thread_runtime_holder_acquire_def)
      have "r = \<lparr>tra_granted = False, tra_acquired = False, tra_lease = Some c\<rparr>"
        using False Some out by (auto simp: spec_trl_acquire_def)
      then show ?thesis
        using acq conflict_denies [of h c] by (simp add: p acquire_thread_runtime_holder_or_raise_def Let_def)
    qed
  qed
qed

theorem preview_decides_acquire_witness:
  "\<exists>d2 r. acquire_thread_runtime_holder_or_raise demo_procs 9 ''t1'' demo_holder demo_disk = (d2, Inr r) \<and> tra_granted r"
proof -
  have f: "faults demo_disk = []" by (simp add: demo_disk_def)
  have l: "trl_load demo_procs ''t1'' demo_disk = (demo_disk, Inr None)"
    by (simp add: trl_load_def demo_strip trl_locked_def locked_data_def read_all_def read_versioned_records_def
        demo_disk_def prune_runtime_leases_def trl_decode_def)
  then have p: "preview_thread_runtime_holder_acquire demo_procs ''t1'' demo_holder demo_disk =
      (demo_disk, Inr \<lparr>ap_allowed = True, ap_reason_code = [], ap_reason_text = NoReason\<rparr>)"
    by (simp add: preview_thread_runtime_holder_acquire_def)
  from preview_decides_acquire [OF demo_disk_readable f _ demo_holder_facts p] show ?thesis
    by (simp add: demo_strip)
qed

end
