(* ===== verification/Jsonrpc_Id.thy ===== *)
theory Jsonrpc_Id
  imports Py_Json
begin

text \<open>
  The transport-safe keys of JSON-RPC request ids (\<open>bot/jsonrpc_id.py\<close>): a text id is
  UTF-8 encoded and written in base64url without padding, a number keeps a prefix of its
  own type, so that the number 1 and the text "1" never share a key. The rendering of a
  float (\<open>repr\<close>) is the parameter \<open>float_repr\<close>.
\<close>

section \<open>UTF-8 and base64url\<close>

definition utf8_char :: "char \<Rightarrow> nat list" where
  "utf8_char c = (let n = (of_char c :: nat) in if n < 128 then [n] else [192 + n div 64, 128 + n mod 64])"

definition utf8 :: "string \<Rightarrow> nat list" where
  "utf8 s = concat (map utf8_char s)"

definition b64_char :: "nat \<Rightarrow> char" where
  "b64_char n =
     (if n < 26 then char_of (65 + n)
      else if n < 52 then char_of (71 + n)
      else if n < 62 then char_of (n - 4)
      else if n = 62 then CHR ''-'' else CHR ''_'')"

fun b64 :: "nat list \<Rightarrow> string" where
  "b64 [] = []"
| "b64 [a] = [b64_char (a div 4), b64_char (a mod 4 * 16), CHR ''='', CHR ''='']"
| "b64 [a, b] = [b64_char (a div 4), b64_char (a mod 4 * 16 + b div 16), b64_char (b mod 16 * 4), CHR ''='']"
| "b64 (a # b # c # rest) =
     b64_char (a div 4) # b64_char (a mod 4 * 16 + b div 16) # b64_char (b mod 16 * 4 + c div 64) # b64_char (c mod 64)
       # b64 rest"

definition rstrip_char :: "char \<Rightarrow> string \<Rightarrow> string" where
  "rstrip_char c s = rev (dropWhile (\<lambda>d. d = c) (rev s))"

definition b64url :: "string \<Rightarrow> string" where
  "b64url s = rstrip_char (CHR ''='') (b64 (utf8 s))"

section \<open>Keys\<close>

definition jsonrpc_id_key :: "(pyfloat \<Rightarrow> string) \<Rightarrow> json \<Rightarrow> string option" where
  "jsonrpc_id_key float_repr v =
     (case v of
        JStr s \<Rightarrow> (if s = [] then None else Some (''string:'' @ b64url s))
      | JInt n \<Rightarrow> Some (''integer:'' @ show_int n)
      | JFloat f \<Rightarrow> Some (''number:'' @ float_repr f)
      | _ \<Rightarrow> None)"

definition optional_jsonrpc_id_key :: "(pyfloat \<Rightarrow> string) \<Rightarrow> json \<Rightarrow> string" where
  "optional_jsonrpc_id_key float_repr v = (case jsonrpc_id_key float_repr v of None \<Rightarrow> [] | Some k \<Rightarrow> k)"

section \<open>Decoding\<close>

definition b64_value :: "char \<Rightarrow> nat" where
  "b64_value c =
     (let n = (of_char c :: nat)
      in if c = CHR ''-'' then 62 else if c = CHR ''_'' then 63
         else if n < 58 then n + 4 else if n < 91 then n - 65 else n - 71)"

fun unb64 :: "string \<Rightarrow> nat list" where
  "unb64 (a # b # c # d # rest) =
     (let w = b64_value a; x = b64_value b; y = b64_value c; z = b64_value d
      in (w * 4 + x div 16) # (x mod 16 * 16 + y div 4) # (y mod 4 * 64 + z) # unb64 rest)"
| "unb64 [a, b, c] =
     (let w = b64_value a; x = b64_value b; y = b64_value c in [w * 4 + x div 16, x mod 16 * 16 + y div 4])"
| "unb64 [a, b] = [b64_value a * 4 + b64_value b div 16]"
| "unb64 _ = []"

fun un_utf8 :: "nat list \<Rightarrow> string" where
  "un_utf8 [] = []"
| "un_utf8 (a # rest) =
     (if a < 128 then char_of a # un_utf8 rest
      else case rest of [] \<Rightarrow> [] | b # rest' \<Rightarrow> char_of ((a - 192) * 64 + (b - 128)) # un_utf8 rest')"

fun b64_bare :: "nat list \<Rightarrow> string" where
  "b64_bare [] = []"
| "b64_bare [a] = [b64_char (a div 4), b64_char (a mod 4 * 16)]"
| "b64_bare [a, b] = [b64_char (a div 4), b64_char (a mod 4 * 16 + b div 16), b64_char (b mod 16 * 4)]"
| "b64_bare (a # b # c # rest) =
     b64_char (a div 4) # b64_char (a mod 4 * 16 + b div 16) # b64_char (b mod 16 * 4 + c div 64) # b64_char (c mod 64)
       # b64_bare rest"

lemma of_char_b64_char:
  "n < 64 \<Longrightarrow> (of_char (b64_char n) :: nat) =
    (if n < 26 then 65 + n else if n < 52 then 71 + n else if n < 62 then n - 4 else if n = 62 then 45 else 95)"
  by (auto simp: b64_char_def)

lemma b64_char_cases: "b64_char n \<noteq> CHR ''=''"
proof -
  have "(of_char (b64_char n) :: nat) \<noteq> 61"
    by (auto simp: b64_char_def)
  moreover have "(of_char (CHR ''='') :: nat) = 61" by simp
  ultimately show ?thesis by metis
qed

lemma b64_value_char [simp]: "n < 64 \<Longrightarrow> b64_value (b64_char n) = n"
proof -
  assume n: "n < 64"
  have e: "b64_char n = c \<longleftrightarrow> (of_char (b64_char n) :: nat) = of_char c" for c by simp
  show ?thesis
    unfolding b64_value_def Let_def e of_char_b64_char [OF n] using n by auto
qed

lemma rstrip_b64: "rstrip_char (CHR ''='') (b64 bs) = b64_bare bs"
proof -
  have step: "rstrip_char c (x # s) = x # rstrip_char c s" if "x \<noteq> c" for x c s
  proof (cases "dropWhile (\<lambda>d. d = c) (rev s) = []")
    case True
    then have "dropWhile (\<lambda>d. d = c) (rev s @ [x]) = [x]"
      using that by (subst dropWhile_append2) (auto simp: dropWhile_eq_Nil_conv)
    then show ?thesis using True by (simp add: rstrip_char_def)
  next
    case False
    then have "\<exists>y \<in> set (rev s). y \<noteq> c" by (auto simp: dropWhile_eq_Nil_conv)
    then have "dropWhile (\<lambda>d. d = c) (rev s @ [x]) = dropWhile (\<lambda>d. d = c) (rev s) @ [x]"
      using dropWhile_append1 by fastforce
    then show ?thesis by (simp add: rstrip_char_def)
  qed
  have pad: "rstrip_char c [c] = []" "rstrip_char c [c, c] = []" "rstrip_char c [] = []" for c
    by (simp_all add: rstrip_char_def)
  show ?thesis
    by (induction bs rule: b64.induct) (simp_all add: step b64_char_cases pad)
qed

lemma unb64_bare: "\<forall>b \<in> set bs. b < 256 \<Longrightarrow> unb64 (b64_bare bs) = bs"
proof (induction bs rule: b64_bare.induct)
  case (2 a)
  then have "a div 4 < 64" "a mod 4 * 16 < 64" by auto
  then show ?case by simp
next
  case (3 a b)
  then have s: "a div 4 < 64" "a mod 4 * 16 + b div 16 < 64" "b mod 16 * 4 < 64" by auto
  have "(a mod 4 * 16 + b div 16) div 16 = a mod 4" "(a mod 4 * 16 + b div 16) mod 16 = b div 16"
    using 3 by auto
  with s show ?case by simp
next
  case (4 a b c rest)
  then have s: "a div 4 < 64" "a mod 4 * 16 + b div 16 < 64" "b mod 16 * 4 + c div 64 < 64" "c mod 64 < 64" by auto
  have "(a mod 4 * 16 + b div 16) div 16 = a mod 4" "(a mod 4 * 16 + b div 16) mod 16 = b div 16"
    "(b mod 16 * 4 + c div 64) div 4 = b mod 16" "(b mod 16 * 4 + c div 64) mod 4 = c div 64"
    using 4 by auto
  with s 4 show ?case by simp
qed simp

lemma utf8_bytes: "b \<in> set (utf8 s) \<Longrightarrow> b < 256"
proof -
  have "b < 256" if "b \<in> set (utf8_char c)" for c
  proof -
    have c: "(of_char c :: nat) < 256" by simp
    then have "(of_char c :: nat) div 64 < 4" by (intro less_mult_imp_div_less) simp
    then show ?thesis using that c by (auto simp: utf8_char_def Let_def split: if_splits)
  qed
  then show "b \<in> set (utf8 s) \<Longrightarrow> b < 256" by (auto simp: utf8_def)
qed

lemma un_utf8_utf8: "un_utf8 (utf8 s) = s"
proof (induction s)
  case (Cons c s)
  have c: "(of_char c :: nat) < 256" by simp
  have "(of_char c :: nat) div 64 * 64 + of_char c mod 64 = of_char c" by simp
  with Cons c show ?case by (auto simp: utf8_def utf8_char_def Let_def)
qed (simp add: utf8_def)

lemma b64url_inject [simp]: "b64url s = b64url t \<longleftrightarrow> s = t"
  unfolding b64url_def rstrip_b64 by (metis unb64_bare utf8_bytes un_utf8_utf8)

section \<open>Properties\<close>

text \<open>
  Request ids are kept apart: two ids with the same key are the same JSON value, for text
  and integer ids of any content; in particular the number 1 and the text "1" differ.
\<close>

theorem jsonrpc_id_key_injective:
  assumes "jsonrpc_id_key float_repr v = Some k" and "jsonrpc_id_key float_repr w = Some k"
    and "\<forall>f. v \<noteq> JFloat f"
  shows "v = w"
  using assms by (auto simp: jsonrpc_id_key_def split: json.splits if_splits)

theorem jsonrpc_id_key_injective_witness:
  "\<exists>k. jsonrpc_id_key (\<lambda>_. []) (JStr ''1'') = Some k \<and> jsonrpc_id_key (\<lambda>_. []) (JInt 1) \<noteq> Some k"
proof -
  obtain k where k: "jsonrpc_id_key (\<lambda>_. []) (JStr ''1'') = Some k" by (simp add: jsonrpc_id_key_def)
  have "jsonrpc_id_key (\<lambda>_. []) (JInt 1) = Some k \<Longrightarrow> JStr ''1'' = JInt 1"
    by (rule jsonrpc_id_key_injective [OF k]) simp_all
  with k show ?thesis by auto
qed

end
