(* ===== verification/Server_Request_Registry.thy ===== *)
theory Server_Request_Registry
  imports Jsonrpc_Id
begin

text \<open>
  Pending server requests of the current app-server connection
  (\<open>bot/server_request_contract.py\<close>, \<open>bot/server_request_registry.py\<close>): the identity of one
  request, its registration, the single response it may get, and its settlement with a
  bounded memory of resolved requests.

  An identity is a frozen object and the registry compares objects with \<open>is\<close>. A reference
  is a number, the objects are the fixed heap \<open>H\<close>, and \<open>is\<close> is equality of references.
\<close>

section \<open>Identities\<close>

record server_request_identity =
  sr_request_id :: json
  sr_request_key :: string
  sr_connection_generation :: int
  sr_method :: string
  sr_thread_id :: string
  sr_turn_id :: string
  sr_params :: jdict

type_synonym identity_heap = "nat \<Rightarrow> server_request_identity"

text \<open>The constructor; \<open>None\<close> is \<open>ValueError\<close>.\<close>

definition make_server_request_identity ::
  "(pyfloat \<Rightarrow> string) \<Rightarrow> (json \<Rightarrow> string) \<Rightarrow> json \<Rightarrow> int \<Rightarrow> string \<Rightarrow> json \<Rightarrow> server_request_identity option" where
  "make_server_request_identity float_repr txt request_id generation method params =
     (if generation \<le> 0 then None
      else case params of
        JObj ps \<Rightarrow>
          (if strip method = [] then None
           else case jsonrpc_id_key float_repr request_id of
             None \<Rightarrow> None
           | Some k \<Rightarrow>
               Some \<lparr>sr_request_id = request_id, sr_request_key = k, sr_connection_generation = generation,
                     sr_method = strip method, sr_thread_id = field_text txt (map_of ps ''threadId''),
                     sr_turn_id = field_text txt (map_of ps ''turnId''), sr_params = ps\<rparr>)
      | _ \<Rightarrow> None)"

definition same_identity_as :: "server_request_identity \<Rightarrow> server_request_identity \<Rightarrow> bool" where
  "same_identity_as a b =
     (sr_request_key a = sr_request_key b
      \<and> sr_connection_generation a = sr_connection_generation b
      \<and> sr_method a = sr_method b
      \<and> sr_thread_id a = sr_thread_id b
      \<and> sr_turn_id a = sr_turn_id b
      \<and> py_eq (JObj (sr_params a)) (JObj (sr_params b)))"

section \<open>The registry\<close>

datatype response_phase = PhasePending | PhaseProcessing | PhaseSubmitted | PhaseUnknown

datatype registration_outcome = RegNew | RegReplay | RegResolved | RegConflict | RegEpochMismatch

datatype settlement_outcome = Settled | AlreadyResolved | SettleMissing | SettleConflict | SettleInvalid

datatype admission_outcome =
    Admitted
  | NotPending
  | AdmissionConflict
  | AdmissionPhase response_phase
  | AdmissionRevoked

datatype finish_outcome = NotSent | FinishSubmitted | FinishUnknown

datatype registry_exn = RegistryValueError | RegistryRuntimeError

record server_request_registry =
  rg_resolved_limit :: nat
  rg_connection_generation :: int
  rg_pending :: "(string, nat) dict"
  rg_dispatch_unknown :: "string set"
  rg_response_status :: "(string, response_phase) dict"
  rg_response_revoked :: "string set"
  rg_resolved :: "(string, nat) dict"

definition new_registry :: "int \<Rightarrow> registry_exn + server_request_registry" where
  "new_registry limit =
     (if limit \<le> 0 then Inl RegistryValueError
      else Inr \<lparr>rg_resolved_limit = nat limit, rg_connection_generation = 0, rg_pending = [],
                rg_dispatch_unknown = {}, rg_response_status = [], rg_response_revoked = {}, rg_resolved = []\<rparr>)"

definition clear_epoch_state :: "server_request_registry \<Rightarrow> int \<Rightarrow> server_request_registry" where
  "clear_epoch_state s generation =
     s\<lparr>rg_connection_generation := generation, rg_pending := [], rg_dispatch_unknown := {},
       rg_response_status := [], rg_response_revoked := {}, rg_resolved := []\<rparr>"

definition activate_connection_epoch ::
  "server_request_registry \<Rightarrow> int \<Rightarrow> server_request_registry \<times> (registry_exn + unit)" where
  "activate_connection_epoch s generation =
     (if generation \<le> 0 then (s, Inl RegistryValueError)
      else if generation < rg_connection_generation s then (s, Inl RegistryRuntimeError)
      else if generation = rg_connection_generation s then (s, Inr ())
      else (clear_epoch_state s generation, Inr ()))"

definition clear_connection_epoch :: "server_request_registry \<Rightarrow> server_request_registry \<times> nat list" where
  "clear_connection_epoch s = (clear_epoch_state s 0, map snd (rg_pending s))"

definition register ::
  "identity_heap \<Rightarrow> server_request_registry \<Rightarrow> nat \<Rightarrow> server_request_registry \<times> registration_outcome \<times> nat option" where
  "register H s r =
     (let identity = H r; k = sr_request_key identity
      in if sr_connection_generation identity \<noteq> rg_connection_generation s then (s, RegEpochMismatch, None)
         else case map_of (rg_resolved s) k of
           Some t \<Rightarrow> (s, RegResolved, Some t)
         | None \<Rightarrow>
             (case map_of (rg_pending s) k of
                None \<Rightarrow>
                  (s\<lparr>rg_pending := AList.update k r (rg_pending s),
                     rg_response_status := AList.update k PhasePending (rg_response_status s)\<rparr>, RegNew, Some r)
              | Some current \<Rightarrow>
                  (if same_identity_as (H current) identity then (s, RegReplay, Some current)
                   else (s, RegConflict, Some current))))"

text \<open>
  \<open>self._resolved[k] = identity\<close>, \<open>move_to_end\<close>, and eviction from the front; the loop is the
  removal of the excess, since each round removes one entry.
\<close>

definition remember_resolved :: "server_request_registry \<Rightarrow> string \<Rightarrow> nat \<Rightarrow> server_request_registry" where
  "remember_resolved s k r =
     (let moved = AList.delete k (rg_resolved s) @ [(k, r)]
      in s\<lparr>rg_resolved := drop (length moved - rg_resolved_limit s) moved\<rparr>)"

definition retire_pending :: "server_request_registry \<Rightarrow> string \<Rightarrow> nat \<Rightarrow> server_request_registry" where
  "retire_pending s k r =
     remember_resolved
       (s\<lparr>rg_pending := AList.delete k (rg_pending s),
          rg_dispatch_unknown := rg_dispatch_unknown s - {k},
          rg_response_status := AList.delete k (rg_response_status s),
          rg_response_revoked := rg_response_revoked s - {k}\<rparr>) k r"

definition settle ::
  "identity_heap \<Rightarrow> server_request_registry \<Rightarrow> string \<Rightarrow> string
    \<Rightarrow> server_request_registry \<times> settlement_outcome \<times> nat option" where
  "settle H s request_key thread_id =
     (let k = strip request_key; t = strip thread_id
      in if k = [] \<or> t = [] then (s, SettleInvalid, None)
         else case map_of (rg_pending s) k of
           None \<Rightarrow>
             (case map_of (rg_resolved s) k of
                None \<Rightarrow> (s, SettleMissing, None)
              | Some r \<Rightarrow> if sr_thread_id (H r) \<noteq> t then (s, SettleConflict, Some r)
                          else (s, AlreadyResolved, Some r))
         | Some current \<Rightarrow>
             (if sr_thread_id (H current) \<noteq> t then (s, SettleConflict, Some current)
              else (retire_pending s k current, Settled, Some current)))"

definition active :: "identity_heap \<Rightarrow> server_request_registry \<Rightarrow> nat \<Rightarrow> bool" where
  "active H s r = (map_of (rg_pending s) (sr_request_key (H r)) = Some r)"

definition settle_identity :: "identity_heap \<Rightarrow> server_request_registry \<Rightarrow> nat \<Rightarrow> server_request_registry \<times> bool" where
  "settle_identity H s r =
     (if \<not> active H s r then (s, False) else (retire_pending s (sr_request_key (H r)) r, True))"

definition settle_thread ::
  "identity_heap \<Rightarrow> server_request_registry \<Rightarrow> string \<Rightarrow> server_request_registry \<times> nat list" where
  "settle_thread H s thread_id =
     (let t = strip thread_id
      in if t = [] then (s, [])
         else let settled = filter (\<lambda>r. sr_thread_id (H r) = t) (map snd (rg_pending s))
              in (foldl (\<lambda>s r. retire_pending s (sr_request_key (H r)) r) s settled, settled))"

definition begin_response ::
  "identity_heap \<Rightarrow> server_request_registry \<Rightarrow> nat
    \<Rightarrow> server_request_registry \<times> (registry_exn + admission_outcome \<times> nat option)" where
  "begin_response H s r =
     (let k = sr_request_key (H r)
      in case map_of (rg_pending s) k of
           None \<Rightarrow> (s, Inr (NotPending, None))
         | Some current \<Rightarrow>
             (if current \<noteq> r then (s, Inr (AdmissionConflict, Some current))
              else if k \<in> rg_response_revoked s then (s, Inr (AdmissionRevoked, Some r))
              else case map_of (rg_response_status s) k of
                  Some PhasePending \<Rightarrow>
                    (s\<lparr>rg_response_status := AList.update k PhaseProcessing (rg_response_status s)\<rparr>,
                     Inr (Admitted, Some r))
                | Some phase \<Rightarrow> (s, Inr (AdmissionPhase phase, Some r))
                | None \<Rightarrow> (s, Inl RegistryRuntimeError)))"

definition finish_phase :: "finish_outcome \<Rightarrow> response_phase" where
  "finish_phase out = (case out of NotSent \<Rightarrow> PhasePending | FinishSubmitted \<Rightarrow> PhaseSubmitted | FinishUnknown \<Rightarrow> PhaseUnknown)"

definition finish_response ::
  "identity_heap \<Rightarrow> server_request_registry \<Rightarrow> nat \<Rightarrow> finish_outcome \<Rightarrow> server_request_registry \<times> bool" where
  "finish_response H s r out =
     (let k = sr_request_key (H r)
      in if \<not> active H s r then (s, False)
         else if map_of (rg_response_status s) k \<noteq> Some PhaseProcessing then (s, False)
         else (s\<lparr>rg_response_status := AList.update k (finish_phase out) (rg_response_status s)\<rparr>, True))"

definition active_identity :: "server_request_registry \<Rightarrow> string \<Rightarrow> nat option" where
  "active_identity s request_key = map_of (rg_pending s) (strip request_key)"

definition revoke_response_authority :: "identity_heap \<Rightarrow> server_request_registry \<Rightarrow> nat \<Rightarrow> server_request_registry \<times> bool" where
  "revoke_response_authority H s r =
     (if \<not> active H s r then (s, False)
      else (s\<lparr>rg_response_revoked := insert (sr_request_key (H r)) (rg_response_revoked s)\<rparr>, True))"

definition response_phase_of :: "identity_heap \<Rightarrow> server_request_registry \<Rightarrow> nat \<Rightarrow> registry_exn + response_phase option" where
  "response_phase_of H s r =
     (if \<not> active H s r then Inr None
      else case map_of (rg_response_status s) (sr_request_key (H r)) of
             None \<Rightarrow> Inl RegistryRuntimeError | Some p \<Rightarrow> Inr (Some p))"

definition response_authority_is_revoked :: "identity_heap \<Rightarrow> server_request_registry \<Rightarrow> nat \<Rightarrow> bool" where
  "response_authority_is_revoked H s r = (active H s r \<and> sr_request_key (H r) \<in> rg_response_revoked s)"

definition response_authority_is_open :: "identity_heap \<Rightarrow> server_request_registry \<Rightarrow> nat \<Rightarrow> bool" where
  "response_authority_is_open H s r = (active H s r \<and> sr_request_key (H r) \<notin> rg_response_revoked s)"

definition request_response_authority_is_revoked :: "server_request_registry \<Rightarrow> string \<Rightarrow> bool" where
  "request_response_authority_is_revoked s request_key =
     (let k = strip request_key in k \<noteq> [] \<and> map_of (rg_pending s) k \<noteq> None \<and> k \<in> rg_response_revoked s)"

definition resolved_identity :: "server_request_registry \<Rightarrow> string \<Rightarrow> nat option" where
  "resolved_identity s request_key = map_of (rg_resolved s) (strip request_key)"

definition mark_dispatch_unknown :: "identity_heap \<Rightarrow> server_request_registry \<Rightarrow> nat \<Rightarrow> server_request_registry \<times> bool" where
  "mark_dispatch_unknown H s r =
     (if \<not> active H s r then (s, False)
      else (s\<lparr>rg_dispatch_unknown := insert (sr_request_key (H r)) (rg_dispatch_unknown s)\<rparr>, True))"

definition dispatch_is_unknown :: "identity_heap \<Rightarrow> server_request_registry \<Rightarrow> nat \<Rightarrow> bool" where
  "dispatch_is_unknown H s r = (active H s r \<and> sr_request_key (H r) \<in> rg_dispatch_unknown s)"

definition request_is_resolved :: "server_request_registry \<Rightarrow> string \<Rightarrow> bool" where
  "request_is_resolved s request_key = (map_of (rg_resolved s) (strip request_key) \<noteq> None)"

definition pending_count :: "server_request_registry \<Rightarrow> nat" where
  "pending_count s = length (rg_pending s)"

section \<open>The invariant\<close>

definition registry_inv :: "identity_heap \<Rightarrow> server_request_registry \<Rightarrow> bool" where
  "registry_inv H s =
     (dict_wf (rg_pending s) \<and> dict_wf (rg_resolved s) \<and> 0 < rg_resolved_limit s
      \<and> (\<forall>k r. map_of (rg_pending s) k = Some r \<longrightarrow>
            sr_request_key (H r) = k \<and> sr_connection_generation (H r) = rg_connection_generation s)
      \<and> (\<forall>k r. map_of (rg_resolved s) k = Some r \<longrightarrow>
            sr_request_key (H r) = k \<and> sr_connection_generation (H r) = rg_connection_generation s)
      \<and> (\<forall>k. map_of (rg_response_status s) k = None \<longleftrightarrow> map_of (rg_pending s) k = None)
      \<and> (\<forall>k \<in> rg_response_revoked s. map_of (rg_pending s) k \<noteq> None)
      \<and> (\<forall>k \<in> rg_dispatch_unknown s. map_of (rg_pending s) k \<noteq> None)
      \<and> (\<forall>k. map_of (rg_pending s) k \<noteq> None \<longrightarrow> map_of (rg_resolved s) k = None)
      \<and> length (rg_resolved s) \<le> rg_resolved_limit s)"

datatype registry_op =
    ActivateEpoch int
  | ClearEpoch
  | Register nat
  | Settle string string
  | SettleIdentity nat
  | SettleThread string
  | BeginResponse nat
  | FinishResponse nat finish_outcome
  | RevokeResponse nat
  | MarkDispatchUnknown nat

fun registry_step :: "identity_heap \<Rightarrow> server_request_registry \<Rightarrow> registry_op \<Rightarrow> server_request_registry" where
  "registry_step H s (ActivateEpoch g) = fst (activate_connection_epoch s g)"
| "registry_step H s ClearEpoch = fst (clear_connection_epoch s)"
| "registry_step H s (Register r) = fst (register H s r)"
| "registry_step H s (Settle k t) = fst (settle H s k t)"
| "registry_step H s (SettleIdentity r) = fst (settle_identity H s r)"
| "registry_step H s (SettleThread t) = fst (settle_thread H s t)"
| "registry_step H s (BeginResponse r) = fst (begin_response H s r)"
| "registry_step H s (FinishResponse r out) = fst (finish_response H s r out)"
| "registry_step H s (RevokeResponse r) = fst (revoke_response_authority H s r)"
| "registry_step H s (MarkDispatchUnknown r) = fst (mark_dispatch_unknown H s r)"

lemma map_of_drop:
  assumes "dict_wf xs" and "map_of (drop n xs) k = Some v"
  shows "map_of xs k = Some v"
proof -
  have "(k, v) \<in> set xs" using map_of_SomeD [OF assms(2)] by (rule in_set_dropD)
  then show ?thesis using assms(1) by (simp add: dict_wf_def)
qed

lemma dict_wf_drop: "dict_wf xs \<Longrightarrow> dict_wf (drop n xs)"
  by (simp add: dict_wf_def drop_map [symmetric] distinct_drop)

lemma dict_wf_snoc: "dict_wf xs \<Longrightarrow> dict_wf (AList.delete k xs @ [(k, v)])"
  by (auto simp: dict_wf_def AList.delete_eq distinct_map_filter)

lemma registry_invD:
  assumes "registry_inv H s"
  shows "dict_wf (rg_pending s)" "dict_wf (rg_resolved s)" "0 < rg_resolved_limit s"
    "\<And>k r. map_of (rg_pending s) k = Some r \<Longrightarrow>
      sr_request_key (H r) = k \<and> sr_connection_generation (H r) = rg_connection_generation s"
    "\<And>k r. map_of (rg_resolved s) k = Some r \<Longrightarrow>
      sr_request_key (H r) = k \<and> sr_connection_generation (H r) = rg_connection_generation s"
    "\<And>k. map_of (rg_response_status s) k = None \<longleftrightarrow> map_of (rg_pending s) k = None"
    "\<And>k. k \<in> rg_response_revoked s \<Longrightarrow> map_of (rg_pending s) k \<noteq> None"
    "\<And>k. k \<in> rg_dispatch_unknown s \<Longrightarrow> map_of (rg_pending s) k \<noteq> None"
    "\<And>k. map_of (rg_pending s) k \<noteq> None \<Longrightarrow> map_of (rg_resolved s) k = None"
    "length (rg_resolved s) \<le> rg_resolved_limit s"
  using assms unfolding registry_inv_def by blast+

lemma registry_invI:
  assumes "dict_wf (rg_pending s)" "dict_wf (rg_resolved s)" "0 < rg_resolved_limit s"
    "\<And>k r. map_of (rg_pending s) k = Some r \<Longrightarrow>
      sr_request_key (H r) = k \<and> sr_connection_generation (H r) = rg_connection_generation s"
    "\<And>k r. map_of (rg_resolved s) k = Some r \<Longrightarrow>
      sr_request_key (H r) = k \<and> sr_connection_generation (H r) = rg_connection_generation s"
    "\<And>k. map_of (rg_response_status s) k = None \<longleftrightarrow> map_of (rg_pending s) k = None"
    "\<And>k. k \<in> rg_response_revoked s \<Longrightarrow> map_of (rg_pending s) k \<noteq> None"
    "\<And>k. k \<in> rg_dispatch_unknown s \<Longrightarrow> map_of (rg_pending s) k \<noteq> None"
    "\<And>k. map_of (rg_pending s) k \<noteq> None \<Longrightarrow> map_of (rg_resolved s) k = None"
    "length (rg_resolved s) \<le> rg_resolved_limit s"
  shows "registry_inv H s"
  using assms unfolding registry_inv_def by blast

lemma retire_pending_fields:
  "map_of (rg_pending (retire_pending s k r)) = (map_of (rg_pending s))(k := None)"
  "rg_pending (retire_pending s k r) = AList.delete k (rg_pending s)"
  "map_of (rg_response_status (retire_pending s k r)) = (map_of (rg_response_status s))(k := None)"
  "rg_response_revoked (retire_pending s k r) = rg_response_revoked s - {k}"
  "rg_dispatch_unknown (retire_pending s k r) = rg_dispatch_unknown s - {k}"
  "rg_connection_generation (retire_pending s k r) = rg_connection_generation s"
  "rg_resolved_limit (retire_pending s k r) = rg_resolved_limit s"
  "rg_resolved (retire_pending s k r) =
    (let moved = AList.delete k (rg_resolved s) @ [(k, r)] in drop (length moved - rg_resolved_limit s) moved)"
  by (simp_all add: retire_pending_def remember_resolved_def delete_conv' Let_def)

lemma retire_resolved_Some:
  assumes "dict_wf (rg_resolved s)" and "map_of (rg_resolved (retire_pending s k r)) k' = Some v"
  shows "(k' = k \<and> v = r) \<or> map_of (rg_resolved s) k' = Some v"
proof -
  let ?moved = "AList.delete k (rg_resolved s) @ [(k, r)]"
  have "map_of ?moved k' = Some v"
    using assms(2) unfolding retire_pending_fields Let_def by (rule map_of_drop [OF dict_wf_snoc [OF assms(1)]])
  then show ?thesis by (auto simp: map_add_def delete_conv' split: option.splits if_splits)
qed

lemma retire_pending_inv:
  assumes inv: "registry_inv H s" and p: "map_of (rg_pending s) k = Some r"
  shows "registry_inv H (retire_pending s k r)"
proof (rule registry_invI)
  note d = registry_invD [OF inv]
  let ?s = "retire_pending s k r"
  show "dict_wf (rg_pending ?s)" unfolding retire_pending_fields by (rule dict_wf_delete [OF d(1)])
  show "dict_wf (rg_resolved ?s)" unfolding retire_pending_fields Let_def by (rule dict_wf_drop [OF dict_wf_snoc [OF d(2)]])
  show "0 < rg_resolved_limit ?s" unfolding retire_pending_fields by (rule d(3))
  show "sr_request_key (H r') = k' \<and> sr_connection_generation (H r') = rg_connection_generation ?s"
    if "map_of (rg_pending ?s) k' = Some r'" for k' r'
    using that d(4) [of k' r'] unfolding retire_pending_fields by (simp add: delete_conv' split: if_splits)
  show "sr_request_key (H r') = k' \<and> sr_connection_generation (H r') = rg_connection_generation ?s"
    if "map_of (rg_resolved ?s) k' = Some r'" for k' r'
    using retire_resolved_Some [OF d(2) that] d(4) [OF p] d(5) [of k' r'] unfolding retire_pending_fields by blast
  show "map_of (rg_response_status ?s) k' = None \<longleftrightarrow> map_of (rg_pending ?s) k' = None" for k'
    unfolding retire_pending_fields using d(6) [of k'] by (simp add: delete_conv')
  show "map_of (rg_pending ?s) k' \<noteq> None" if "k' \<in> rg_response_revoked ?s" for k'
    using that d(7) [of k'] unfolding retire_pending_fields by (simp add: delete_conv')
  show "map_of (rg_pending ?s) k' \<noteq> None" if "k' \<in> rg_dispatch_unknown ?s" for k'
    using that d(8) [of k'] unfolding retire_pending_fields by (simp add: delete_conv')
  show "map_of (rg_resolved ?s) k' = None" if n: "map_of (rg_pending ?s) k' \<noteq> None" for k'
  proof (cases "map_of (rg_resolved ?s) k'")
    case (Some v)
    from retire_resolved_Some [OF d(2) Some] n d(9) [of k'] show ?thesis
      unfolding retire_pending_fields by (auto simp: delete_conv' split: if_splits)
  qed simp
  show "length (rg_resolved ?s) \<le> rg_resolved_limit ?s"
    unfolding retire_pending_fields Let_def by simp
qed

lemma settle_thread_fold_inv:
  assumes "registry_inv H s" and "\<forall>r \<in> set rs. map_of (rg_pending s) (sr_request_key (H r)) = Some r" and "distinct rs"
  shows "registry_inv H (foldl (\<lambda>s r. retire_pending s (sr_request_key (H r)) r) s rs)"
  using assms
proof (induction rs arbitrary: s)
  case (Cons r rs)
  have p: "map_of (rg_pending s) (sr_request_key (H r)) = Some r" using Cons.prems(2) by simp
  have "map_of (rg_pending (retire_pending s (sr_request_key (H r)) r)) (sr_request_key (H x)) = Some x" if "x \<in> set rs" for x
  proof -
    have x: "map_of (rg_pending s) (sr_request_key (H x)) = Some x"
      using bspec [OF Cons.prems(2), of x] that by (simp only: list.set_intros)
    have "x \<noteq> r" using Cons.prems(3) that by auto
    then have "sr_request_key (H x) \<noteq> sr_request_key (H r)" using x p by (metis option.inject)
    with x show ?thesis unfolding retire_pending_fields delete_conv' by (simp only: fun_upd_apply if_False)
  qed
  then have "registry_inv H (foldl (\<lambda>s r. retire_pending s (sr_request_key (H r)) r)
      (retire_pending s (sr_request_key (H r)) r) rs)"
    using Cons.prems(3) by (intro Cons.IH retire_pending_inv [OF Cons.prems(1) p] ballI) simp_all
  then show ?case by simp
qed simp

lemma pending_values:
  assumes "registry_inv H s"
  shows "\<forall>r \<in> set (map snd (rg_pending s)). map_of (rg_pending s) (sr_request_key (H r)) = Some r"
    and "distinct (map snd (rg_pending s))"
proof -
  have wf: "distinct (map fst (rg_pending s))" using assms by (simp add: registry_inv_def dict_wf_def)
  have k: "sr_request_key (H (snd p)) = fst p" "map_of (rg_pending s) (fst p) = Some (snd p)" if "p \<in> set (rg_pending s)" for p
  proof -
    show m: "map_of (rg_pending s) (fst p) = Some (snd p)" using wf that by simp
    then show "sr_request_key (H (snd p)) = fst p" using assms unfolding registry_inv_def by blast
  qed
  then show "\<forall>r \<in> set (map snd (rg_pending s)). map_of (rg_pending s) (sr_request_key (H r)) = Some r" by auto
  have "inj_on snd (set (rg_pending s))"
    by (rule inj_onI) (metis k(1) prod_eqI)
  moreover have "distinct (rg_pending s)" using wf by (simp add: distinct_map)
  ultimately show "distinct (map snd (rg_pending s))" by (simp add: distinct_map)
qed

lemma settle_thread_inv:
  assumes inv: "registry_inv H s"
  shows "registry_inv H (fst (settle_thread H s t))"
proof -
  let ?rs = "filter (\<lambda>r. sr_thread_id (H r) = strip t) (map snd (rg_pending s))"
  have "registry_inv H (foldl (\<lambda>s r. retire_pending s (sr_request_key (H r)) r) s ?rs)"
    using pending_values [OF inv] by (intro settle_thread_fold_inv [OF inv]) auto
  then show ?thesis using inv by (simp add: settle_thread_def Let_def)
qed

lemma clear_epoch_inv: "registry_inv H s \<Longrightarrow> registry_inv H (clear_epoch_state s g)"
  by (simp add: registry_inv_def clear_epoch_state_def)

lemma register_new_inv:
  assumes inv: "registry_inv H s" and g: "sr_connection_generation (H r) = rg_connection_generation s"
    and n: "map_of (rg_resolved s) (sr_request_key (H r)) = None" "map_of (rg_pending s) (sr_request_key (H r)) = None"
  shows "registry_inv H (s\<lparr>rg_pending := AList.update (sr_request_key (H r)) r (rg_pending s),
     rg_response_status := AList.update (sr_request_key (H r)) PhasePending (rg_response_status s)\<rparr>)"
proof (rule registry_invI)
  note d = registry_invD [OF inv]
  let ?k = "sr_request_key (H r)"
  let ?s = "s\<lparr>rg_pending := AList.update ?k r (rg_pending s),
     rg_response_status := AList.update ?k PhasePending (rg_response_status s)\<rparr>"
  have p: "map_of (rg_pending ?s) = (map_of (rg_pending s))(?k \<mapsto> r)" by (simp add: update_conv')
  show "dict_wf (rg_pending ?s)" using d(1) by simp
  show "dict_wf (rg_resolved ?s)" using d(2) by simp
  show "0 < rg_resolved_limit ?s" using d(3) by simp
  show "sr_request_key (H r') = k' \<and> sr_connection_generation (H r') = rg_connection_generation ?s"
    if m: "map_of (rg_pending ?s) k' = Some r'" for k' r'
  proof (cases "k' = ?k")
    case True
    with m p g show ?thesis by simp
  next
    case False
    with m p have "map_of (rg_pending s) k' = Some r'" by simp
    from d(4) [OF this] show ?thesis by simp
  qed
  show "sr_request_key (H r') = k' \<and> sr_connection_generation (H r') = rg_connection_generation ?s"
    if "map_of (rg_resolved ?s) k' = Some r'" for k' r'
    using d(5) [of k' r'] that by simp
  show "map_of (rg_response_status ?s) k' = None \<longleftrightarrow> map_of (rg_pending ?s) k' = None" for k'
    using d(6) [of k'] by (simp add: update_conv')
  show "map_of (rg_pending ?s) k' \<noteq> None" if "k' \<in> rg_response_revoked ?s" for k'
    using that d(7) [of k'] by (simp add: update_conv')
  show "map_of (rg_pending ?s) k' \<noteq> None" if "k' \<in> rg_dispatch_unknown ?s" for k'
    using that d(8) [of k'] by (simp add: update_conv')
  show "map_of (rg_resolved ?s) k' = None" if "map_of (rg_pending ?s) k' \<noteq> None" for k'
    using that d(9) [of k'] n by (simp add: update_conv' split: if_splits)
  show "length (rg_resolved ?s) \<le> rg_resolved_limit ?s" using d(10) by simp
qed

lemma register_inv: "registry_inv H s \<Longrightarrow> registry_inv H (fst (register H s r))"
  using register_new_inv [of H s r] by (simp add: register_def Let_def split: option.splits)

lemma status_update_inv:
  assumes "registry_inv H s" and "map_of (rg_pending s) k \<noteq> None"
  shows "registry_inv H (s\<lparr>rg_response_status := AList.update k p (rg_response_status s)\<rparr>)"
proof -
  have "map_of (AList.update k p (rg_response_status s)) k' = None \<longleftrightarrow> map_of (rg_pending s) k' = None" for k'
    using registry_invD(6) [OF assms(1), of k'] assms(2) by (simp add: update_conv')
  then show ?thesis using assms(1) unfolding registry_inv_def by simp
qed

lemma mark_inv:
  assumes "registry_inv H s" and "map_of (rg_pending s) k \<noteq> None"
  shows "registry_inv H (s\<lparr>rg_response_revoked := insert k (rg_response_revoked s)\<rparr>)"
    and "registry_inv H (s\<lparr>rg_dispatch_unknown := insert k (rg_dispatch_unknown s)\<rparr>)"
  using assms unfolding registry_inv_def by simp_all

lemma registry_step_inv:
  assumes inv: "registry_inv H s"
  shows "registry_inv H (registry_step H s x)"
proof (cases x)
  case (Settle k t)
  then show ?thesis using inv retire_pending_inv [OF inv, of "strip k"]
    by (simp add: settle_def Let_def split: option.splits)
next
  case (SettleIdentity r)
  then show ?thesis using inv retire_pending_inv [OF inv] by (simp add: settle_identity_def active_def)
next
  case (BeginResponse r)
  then show ?thesis using inv status_update_inv [OF inv]
    by (simp add: begin_response_def Let_def split: option.splits response_phase.splits)
next
  case (FinishResponse r out)
  then show ?thesis using inv status_update_inv [OF inv] by (simp add: finish_response_def Let_def active_def)
next
  case (RevokeResponse r)
  then show ?thesis using inv mark_inv(1) [OF inv] by (simp add: revoke_response_authority_def active_def)
next
  case (MarkDispatchUnknown r)
  then show ?thesis using inv mark_inv(2) [OF inv] by (simp add: mark_dispatch_unknown_def active_def)
qed (use inv in \<open>simp_all add: activate_connection_epoch_def clear_connection_epoch_def clear_epoch_inv register_inv settle_thread_inv\<close>)

definition empty_registry :: "nat \<Rightarrow> server_request_registry" where
  "empty_registry limit =
     \<lparr>rg_resolved_limit = Suc limit, rg_connection_generation = 0, rg_pending = [],
      rg_dispatch_unknown = {}, rg_response_status = [], rg_response_revoked = {}, rg_resolved = []\<rparr>"

interpretation registry: step_system "registry_step H" "empty_registry limit" "registry_inv H" for H limit
proof unfold_locales
  show "registry_inv H (empty_registry limit)" by (simp add: empty_registry_def registry_inv_def)
qed (rule registry_step_inv)

section \<open>At most one response\<close>

text \<open>How many requests an operation settles, and a sequence of them.\<close>

fun settled_by :: "identity_heap \<Rightarrow> server_request_registry \<Rightarrow> registry_op \<Rightarrow> nat" where
  "settled_by H s (Settle k t) = (if fst (snd (settle H s k t)) = Settled then 1 else 0)"
| "settled_by H s (SettleIdentity r) = (if snd (settle_identity H s r) then 1 else 0)"
| "settled_by H s (SettleThread t) = length (snd (settle_thread H s t))"
| "settled_by H s _ = 0"

fun settled_total :: "identity_heap \<Rightarrow> server_request_registry \<Rightarrow> registry_op list \<Rightarrow> nat" where
  "settled_total H s [] = 0"
| "settled_total H s (x # xs) = settled_by H s x + settled_total H (registry_step H s x) xs"

text \<open>Operations of one epoch that do not report the response of \<open>k\<close> as not sent.\<close>

fun keeps_attempt :: "identity_heap \<Rightarrow> string \<Rightarrow> registry_op \<Rightarrow> bool" where
  "keeps_attempt H k (ActivateEpoch g) = False"
| "keeps_attempt H k ClearEpoch = False"
| "keeps_attempt H k (FinishResponse r out) = (out = NotSent \<longrightarrow> sr_request_key (H r) \<noteq> k)"
| "keeps_attempt H k _ = True"

text \<open>
  The response of \<open>k\<close> is taken: it is being answered, or it is resolved and its tombstone
  survives \<open>n\<close> more settlements.
\<close>

definition taken :: "server_request_registry \<Rightarrow> string \<Rightarrow> nat \<Rightarrow> bool" where
  "taken s k n =
     (n < rg_resolved_limit s
      \<and> ((map_of (rg_pending s) k \<noteq> None \<and> map_of (rg_response_status s) k \<noteq> Some PhasePending)
         \<or> (\<exists>pre v post. rg_resolved s = pre @ (k, v) # post \<and> length post + n < rg_resolved_limit s)))"

lemma taken_resolvedI:
  "rg_resolved s = pre @ (k, v) # post \<Longrightarrow> length post + n < rg_resolved_limit s \<Longrightarrow> taken s k n"
  unfolding taken_def by force

lemma drop_keeps_tail:
  assumes "length post < L" and "length pre + length post \<le> L"
  shows "\<exists>pre'. drop (length (pre @ x # post) - L) (pre @ x # post) = pre' @ x # post"
proof -
  have "length (pre @ x # post) - L \<le> length pre" using assms by simp
  then show ?thesis by (intro exI [of _ "drop (length (pre @ x # post) - L) pre"]) simp
qed

lemma retire_taken:
  assumes inv: "registry_inv H s" and p: "map_of (rg_pending s) k' = Some r" and t: "taken s k (Suc n)"
  shows "taken (retire_pending s k' r) k n"
proof -
  note d = registry_invD [OF inv]
  let ?L = "rg_resolved_limit s"
  have n: "n < ?L" using t by (simp add: taken_def)
  show ?thesis
  proof (cases "k' = k")
    case True
    have len: "length (AList.delete k (rg_resolved s)) \<le> ?L"
      using d(10) length_delete_le [of k "rg_resolved s"] by linarith
    obtain pre' where m: "rg_resolved (retire_pending s k r) = pre' @ [(k, r)]"
      using drop_keeps_tail [of "[]" ?L "AList.delete k (rg_resolved s)" "(k, r)"] d(3) len
      unfolding retire_pending_fields Let_def by auto
    show ?thesis
      unfolding True by (rule taken_resolvedI [OF m]) (simp add: n retire_pending_fields(7))
  next
    case False
    from t consider (pending) "map_of (rg_pending s) k \<noteq> None" "map_of (rg_response_status s) k \<noteq> Some PhasePending"
      | (resolved) pre v post where "rg_resolved s = pre @ (k, v) # post" "length post + Suc n < ?L"
      unfolding taken_def by blast
    then show ?thesis
    proof cases
      case pending
      then show ?thesis using n False unfolding taken_def retire_pending_fields by (simp add: delete_conv')
    next
      case resolved
      let ?pre = "AList.delete k' pre" let ?post = "AList.delete k' post @ [(k', r)]"
      have app: "AList.delete k' (xs @ ys) = AList.delete k' xs @ AList.delete k' ys" for xs ys
        by (simp add: AList.delete_eq)
      have m: "AList.delete k' (rg_resolved s) @ [(k', r)] = ?pre @ (k, v) # ?post"
        using False by (simp add: resolved(1) app)
      have lp: "length ?post \<le> Suc (length post)" using length_delete_le [of k' post] by simp
      have "length ?pre + length ?post \<le> ?L"
        using d(10) resolved(1) length_delete_le [of k' pre] length_delete_le [of k' post] by simp
      then obtain pre' where e: "rg_resolved (retire_pending s k' r) = pre' @ (k, v) # ?post"
        using drop_keeps_tail [of ?post ?L ?pre "(k, v)"] lp resolved(2)
        unfolding retire_pending_fields Let_def m by auto
      show ?thesis
        by (rule taken_resolvedI [OF e]) (use lp resolved(2) in \<open>simp add: retire_pending_fields(7)\<close>)
    qed
  qed
qed

lemma retire_all_taken:
  assumes "registry_inv H s" and "\<forall>r \<in> set rs. map_of (rg_pending s) (sr_request_key (H r)) = Some r" and "distinct rs"
    and "taken s k (length rs + n)"
  shows "taken (foldl (\<lambda>s r. retire_pending s (sr_request_key (H r)) r) s rs) k n"
  using assms
proof (induction rs arbitrary: s)
  case (Cons r rs)
  have p: "map_of (rg_pending s) (sr_request_key (H r)) = Some r" using Cons.prems(2) by simp
  have rest: "map_of (rg_pending (retire_pending s (sr_request_key (H r)) r)) (sr_request_key (H x)) = Some x" if "x \<in> set rs" for x
  proof -
    have x: "map_of (rg_pending s) (sr_request_key (H x)) = Some x"
      using bspec [OF Cons.prems(2), of x] that by (simp only: list.set_intros)
    have "x \<noteq> r" using Cons.prems(3) that by auto
    then have "sr_request_key (H x) \<noteq> sr_request_key (H r)" using x p by (metis option.inject)
    with x show ?thesis unfolding retire_pending_fields delete_conv' by (simp only: fun_upd_apply if_False)
  qed
  have "taken (retire_pending s (sr_request_key (H r)) r) k (length rs + n)"
    using Cons.prems(4) by (intro retire_taken [OF Cons.prems(1) p]) simp
  then have "taken (foldl (\<lambda>s r. retire_pending s (sr_request_key (H r)) r) (retire_pending s (sr_request_key (H r)) r) rs) k n"
    using Cons.prems(3) rest by (intro Cons.IH retire_pending_inv [OF Cons.prems(1) p] ballI) simp_all
  then show ?case by simp
qed simp

lemma resolved_not_pending:
  assumes inv: "registry_inv H s" and "rg_resolved s = pre @ (k, v) # post"
  shows "map_of (rg_resolved s) k \<noteq> None" and "map_of (rg_pending s) k = None"
proof -
  show r: "map_of (rg_resolved s) k \<noteq> None"
    using assms(2) by (auto simp: map_of_eq_None_iff)
  then show "map_of (rg_pending s) k = None"
    using registry_invD(9) [OF inv, of k] by (cases "map_of (rg_pending s) k") auto
qed

lemma taken_known:
  assumes "registry_inv H s" and "taken s k n"
  shows "map_of (rg_pending s) k \<noteq> None \<or> map_of (rg_resolved s) k \<noteq> None"
  using assms resolved_not_pending(1) [OF assms(1)] unfolding taken_def by blast

lemma taken_status:
  assumes "taken s k n" and "k' = k \<longrightarrow> p \<noteq> PhasePending"
  shows "taken (s\<lparr>rg_response_status := AList.update k' p (rg_response_status s)\<rparr>) k n"
  using assms by (auto simp: taken_def update_conv')

lemma step_taken:
  assumes inv: "registry_inv H s" and t: "taken s k (settled_by H s x + n)" and ok: "keeps_attempt H k x"
  shows "taken (registry_step H s x) k n"
proof (cases x)
  case (Register r)
  then have t: "taken s k n" using t by simp
  show ?thesis
  proof (cases "sr_request_key (H r) = k")
    case True
    have "fst (register H s r) = s"
      using taken_known [OF inv t] registry_invD(9) [OF inv, of k] True
      by (auto simp: register_def Let_def split: option.splits)
    then show ?thesis using t Register by simp
  next
    case False
    then show ?thesis
      using t Register by (auto simp: register_def taken_def update_conv' Let_def split: option.splits)
  qed
next
  case (Settle k' t')
  show ?thesis
  proof (cases "fst (snd (settle H s k' t')) = Settled")
    case True
    then obtain r where p: "map_of (rg_pending s) (strip k') = Some r"
      and f: "fst (settle H s k' t') = retire_pending s (strip k') r"
      by (auto simp: settle_def Let_def split: option.splits if_splits)
    have "taken s k (Suc n)" using t Settle True by simp
    from retire_taken [OF inv p this] show ?thesis using Settle f by simp
  next
    case False
    then have "fst (settle H s k' t') = s" by (auto simp: settle_def Let_def split: option.splits if_splits)
    then show ?thesis using t Settle False by simp
  qed
next
  case (SettleIdentity r)
  show ?thesis
  proof (cases "active H s r")
    case True
    have "taken s k (Suc n)" using t SettleIdentity True by (simp add: settle_identity_def)
    from retire_taken [OF inv True [unfolded active_def] this] show ?thesis
      using SettleIdentity True by (simp add: settle_identity_def)
  next
    case False
    then show ?thesis using t SettleIdentity by (simp add: settle_identity_def)
  qed
next
  case (SettleThread t')
  show ?thesis
  proof (cases "strip t' = []")
    case True
    then show ?thesis using t SettleThread by (simp add: settle_thread_def)
  next
    case False
    let ?rs = "filter (\<lambda>r. sr_thread_id (H r) = strip t') (map snd (rg_pending s))"
    have "taken s k (length ?rs + n)" using t SettleThread False by (simp add: settle_thread_def Let_def)
    then have "taken (foldl (\<lambda>s r. retire_pending s (sr_request_key (H r)) r) s ?rs) k n"
      using pending_values [OF inv] by (intro retire_all_taken [OF inv]) auto
    then show ?thesis using SettleThread False by (simp add: settle_thread_def Let_def)
  qed
next
  case (BeginResponse r)
  then show ?thesis using t taken_status [of s k n _ PhaseProcessing]
    by (simp add: begin_response_def Let_def split: option.splits response_phase.splits)
next
  case (FinishResponse r out)
  have "sr_request_key (H r) = k \<longrightarrow> finish_phase out \<noteq> PhasePending"
    using ok FinishResponse by (cases out) (auto simp: finish_phase_def)
  then show ?thesis using FinishResponse t taken_status [of s k n "sr_request_key (H r)" "finish_phase out"]
    by (simp add: finish_response_def Let_def)
next
  case (RevokeResponse r)
  then show ?thesis using t by (simp add: revoke_response_authority_def taken_def)
next
  case (MarkDispatchUnknown r)
  then show ?thesis using t by (simp add: mark_dispatch_unknown_def taken_def)
qed (use ok in simp_all)

lemma run_taken:
  assumes "registry_inv H s" and "taken s k (settled_total H s xs)" and "\<forall>x \<in> set xs. keeps_attempt H k x"
  shows "taken (run_ops (registry_step H) s xs) k 0"
  using assms
proof (induction xs arbitrary: s)
  case (Cons x xs)
  have "taken (registry_step H s x) k (settled_total H (registry_step H s x) xs)"
    using Cons.prems by (intro step_taken) simp_all
  then show ?case using Cons by (simp add: registry_step_inv)
qed simp

lemma taken_not_admitted:
  assumes "registry_inv H s" and "taken s (sr_request_key (H r)) n" and "begin_response H s r = (s', Inr (out, q))"
  shows "out \<noteq> Admitted"
  using assms resolved_not_pending(2) [OF assms(1), of _ "sr_request_key (H r)"]
  by (auto simp: begin_response_def taken_def Let_def split: option.splits response_phase.splits if_splits)

lemma begin_admitted:
  assumes "begin_response H s r = (s1, Inr (Admitted, q))"
  shows "map_of (rg_pending s) (sr_request_key (H r)) = Some r"
    and "s1 = s\<lparr>rg_response_status := AList.update (sr_request_key (H r)) PhaseProcessing (rg_response_status s)\<rparr>"
  using assms by (auto simp: begin_response_def Let_def split: option.splits response_phase.splits if_splits)

lemma registry_limit_step: "rg_resolved_limit (registry_step H s x) = rg_resolved_limit s"
proof -
  have "rg_resolved_limit (foldl (\<lambda>s r. retire_pending s (sr_request_key (H r)) r) s rs) = rg_resolved_limit s" for rs s
    by (induction rs arbitrary: s) (simp_all add: retire_pending_fields)
  then show ?thesis
    by (cases x) (auto simp: activate_connection_epoch_def clear_connection_epoch_def clear_epoch_state_def register_def
        settle_def settle_identity_def settle_thread_def begin_response_def finish_response_def Let_def
        revoke_response_authority_def mark_dispatch_unknown_def retire_pending_fields
        split: option.splits response_phase.splits)
qed

lemma registry_limit_run: "rg_resolved_limit (run_ops (registry_step H) s xs) = rg_resolved_limit s"
  by (induction xs arbitrary: s) (simp_all add: registry_limit_step)

section \<open>Properties\<close>

text \<open>
  Consistent bookkeeping: in every reachable state the pending and the resolved requests
  are disjoint, belong to the current connection, are filed under their own keys, have a
  response phase exactly while pending, and the resolved memory stays within its limit.
\<close>

theorem registry_reachable_inv:
  "registry_inv H (run_ops (registry_step H) (empty_registry limit) xs)"
  by (rule registry.reach_inv)

text \<open>
  One response: once a response to a request is admitted, no other attempt for the same
  request key is admitted in the same connection epoch, whatever is registered, replayed,
  settled or revoked in between, unless the attempt is reported as not sent or as many
  requests as the resolved memory holds are settled in between.
\<close>

theorem response_admitted_once:
  assumes "begin_response H (run_ops (registry_step H) (empty_registry limit) ys) r = (s1, Inr (Admitted, q))"
    and "\<forall>x \<in> set xs. keeps_attempt H (sr_request_key (H r)) x"
    and "settled_total H s1 xs \<le> limit"
    and "sr_request_key (H r') = sr_request_key (H r)"
    and "begin_response H (run_ops (registry_step H) s1 xs) r' = (s2, Inr (out, q'))"
  shows "out \<noteq> Admitted"
proof -
  let ?s = "run_ops (registry_step H) (empty_registry limit) ys" let ?k = "sr_request_key (H r)"
  have inv: "registry_inv H ?s" by (rule registry.reach_inv)
  have lim: "rg_resolved_limit ?s = Suc limit" by (simp add: registry_limit_run empty_registry_def)
  have s1: "s1 = registry_step H ?s (BeginResponse r)" using assms(1) by simp
  have inv1: "registry_inv H s1" unfolding s1 by (rule registry_step_inv [OF inv])
  have "map_of (rg_pending s1) ?k \<noteq> None" "map_of (rg_response_status s1) ?k = Some PhaseProcessing"
    "rg_resolved_limit s1 = Suc limit"
    using begin_admitted [OF assms(1)] lim by (simp_all add: update_conv')
  then have "taken s1 ?k (settled_total H s1 xs)" using assms(3) by (simp add: taken_def)
  from run_taken [OF inv1 this assms(2)] have "taken (run_ops (registry_step H) s1 xs) (sr_request_key (H r')) 0"
    using assms(4) by simp
  from taken_not_admitted [OF registry.run_inv [OF inv1] this assms(5)] show ?thesis .
qed

definition demo_identities :: identity_heap where
  "demo_identities n = \<lparr>sr_request_id = JInt 1, sr_request_key = ''integer:1'', sr_connection_generation = 1,
     sr_method = ''m'', sr_thread_id = ''t1'', sr_turn_id = [], sr_params = []\<rparr>"

theorem response_admitted_once_witness:
  "\<exists>s1 out s2. begin_response demo_identities (run_ops (registry_step demo_identities) (empty_registry 1)
      [ActivateEpoch 1, Register 0]) 0 = (s1, Inr (Admitted, Some 0))
    \<and> begin_response demo_identities (run_ops (registry_step demo_identities) s1
      [Register 1, FinishResponse 0 FinishSubmitted]) 0 = (s2, Inr (out, Some 0)) \<and> out \<noteq> Admitted"
proof -
  let ?H = demo_identities
  obtain s1 where s1: "begin_response ?H (run_ops (registry_step ?H) (empty_registry 1) [ActivateEpoch 1, Register 0]) 0
      = (s1, Inr (Admitted, Some 0))"
    by (simp add: activate_connection_epoch_def clear_epoch_state_def register_def begin_response_def demo_identities_def
        empty_registry_def Let_def)
  then have "\<exists>out s2. begin_response ?H (run_ops (registry_step ?H) s1 [Register 1, FinishResponse 0 FinishSubmitted]) 0
      = (s2, Inr (out, Some 0))"
    by (auto simp: activate_connection_epoch_def clear_epoch_state_def register_def begin_response_def demo_identities_def
        empty_registry_def finish_response_def active_def same_identity_as_def Let_def finish_phase_def)
  then obtain out s2 where b: "begin_response ?H (run_ops (registry_step ?H) s1 [Register 1, FinishResponse 0 FinishSubmitted]) 0
      = (s2, Inr (out, Some 0))" by blast
  have "out \<noteq> Admitted"
    by (rule response_admitted_once [OF s1 _ _ refl b]) simp_all
  with s1 b show ?thesis by blast
qed

end
