(* ===== verification/Request_Authority.thy ===== *)
theory Request_Authority
  imports Py_Json
begin

text \<open>
  Response authority for upstream JSON-RPC requests
  (\<open>bot/codex_protocol/server_request_authority.py\<close>): the websocket generations on which a
  request was received, and one claim per request, generation and epoch.

  Whether the lock is obtained before the deadline is an argument of \<open>claim\<close>; the other
  operations wait for it. A Python set of integers is a HOL set.
\<close>

section \<open>State\<close>

datatype request_id_key = IntKey int | StrKey string

type_synonym response_authority = "request_id_key \<times> int \<times> int"

datatype authority_exn =
    AuthorityValueError
  | AuthorityTimeout
  | NoReceivingGeneration
  | NotReceivedOnGeneration
  | AlreadyConsumed

record authority_registry =
  au_epoch :: int
  au_generations :: "(request_id_key, int set) dict"
  au_consumed :: "response_authority set"

record rotation_receipt =
  rr_retired_epoch :: int
  rr_active_epoch :: int
  rr_remembered_request_count :: nat
  rr_consumed_authority_count :: nat

definition new_authority_registry :: authority_registry where
  "new_authority_registry = \<lparr>au_epoch = 1, au_generations = [], au_consumed = {}\<rparr>"

fun request_key :: "json \<Rightarrow> authority_exn + request_id_key" where
  "request_key (JInt n) = Inr (IntKey n)"
| "request_key (JStr s) = Inr (StrKey s)"
| "request_key _ = Inl AuthorityValueError"

definition generations_of :: "authority_registry \<Rightarrow> request_id_key \<Rightarrow> int set" where
  "generations_of s k = (case map_of (au_generations s) k of None \<Rightarrow> {} | Some gs \<Rightarrow> gs)"

section \<open>Operations\<close>

definition remember :: "authority_registry \<Rightarrow> json \<Rightarrow> int \<Rightarrow> authority_registry \<times> (authority_exn + unit)" where
  "remember s request_id generation =
     (if generation \<le> 0 then (s, Inl AuthorityValueError)
      else case request_key request_id of
        Inl ex \<Rightarrow> (s, Inl ex)
      | Inr k \<Rightarrow>
          (s\<lparr>au_generations := AList.update k (insert generation (generations_of s k)) (au_generations s)\<rparr>, Inr ()))"

definition claim ::
  "authority_registry \<Rightarrow> json \<Rightarrow> int \<Rightarrow> bool \<Rightarrow> authority_registry \<times> (authority_exn + response_authority)" where
  "claim s request_id generation lock_in_time =
     (case request_key request_id of
        Inl ex \<Rightarrow> (s, Inl ex)
      | Inr k \<Rightarrow>
          (if generation \<le> 0 then (s, Inl AuthorityValueError)
           else if \<not> lock_in_time then (s, Inl AuthorityTimeout)
           else if generations_of s k = {} then (s, Inl NoReceivingGeneration)
           else if generation \<notin> generations_of s k then (s, Inl NotReceivedOnGeneration)
           else let authority = (k, generation, au_epoch s)
                in if authority \<in> au_consumed s then (s, Inl AlreadyConsumed)
                   else (s\<lparr>au_consumed := insert authority (au_consumed s)\<rparr>, Inr authority)))"

definition release :: "authority_registry \<Rightarrow> response_authority \<Rightarrow> authority_registry" where
  "release s authority = s\<lparr>au_consumed := au_consumed s - {authority}\<rparr>"

text \<open>\<open>generations.discard(g)\<close>, and \<open>pop\<close> of a key whose set became empty.\<close>

definition discard_generation ::
  "(request_id_key, int set) dict \<Rightarrow> request_id_key \<Rightarrow> int \<Rightarrow> (request_id_key, int set) dict" where
  "discard_generation gens k generation =
     (case map_of gens k of
        None \<Rightarrow> gens
      | Some gs \<Rightarrow>
          (if gs - {generation} = {} then AList.delete k gens else AList.update k (gs - {generation}) gens))"

definition retire :: "authority_registry \<Rightarrow> response_authority \<Rightarrow> authority_registry" where
  "retire s authority =
     (case authority of (k, generation, epoch) \<Rightarrow>
        if epoch \<noteq> au_epoch s \<or> authority \<notin> au_consumed s then s
        else s\<lparr>au_consumed := au_consumed s - {authority},
               au_generations := discard_generation (au_generations s) k generation\<rparr>)"

definition remembered_request_count :: "authority_registry \<Rightarrow> nat" where
  "remembered_request_count s = sum_list (map (card \<circ> snd) (au_generations s))"

definition retire_request_generation ::
  "authority_registry \<Rightarrow> json \<Rightarrow> int \<Rightarrow> authority_registry \<times> (authority_exn + bool)" where
  "retire_request_generation s request_id generation =
     (if generation \<le> 0 then (s, Inl AuthorityValueError)
      else case request_key request_id of
        Inl ex \<Rightarrow> (s, Inl ex)
      | Inr k \<Rightarrow>
          (if generation \<notin> generations_of s k then (s, Inr False)
           else (s\<lparr>au_generations := discard_generation (au_generations s) k generation,
                   au_consumed := {a \<in> au_consumed s. \<not> (fst a = k \<and> fst (snd a) = generation)}\<rparr>, Inr True)))"

text \<open>The loop over \<open>tuple(self._generations.items())\<close>.\<close>

fun retire_connection_loop ::
  "(request_id_key, int set) dict \<Rightarrow> int \<Rightarrow> (request_id_key, int set) dict \<Rightarrow> nat \<Rightarrow> (request_id_key, int set) dict \<times> nat" where
  "retire_connection_loop [] generation gens retired = (gens, retired)"
| "retire_connection_loop ((k, gs) # rest) generation gens retired =
     (if generation \<notin> gs then retire_connection_loop rest generation gens retired
      else retire_connection_loop rest generation (discard_generation gens k generation) (Suc retired))"

definition retire_connection_generation :: "authority_registry \<Rightarrow> int \<Rightarrow> authority_registry \<times> (authority_exn + nat)" where
  "retire_connection_generation s generation =
     (if generation \<le> 0 then (s, Inl AuthorityValueError)
      else case retire_connection_loop (au_generations s) generation (au_generations s) 0 of
        (gens, retired) \<Rightarrow>
          (s\<lparr>au_generations := gens, au_consumed := {a \<in> au_consumed s. fst (snd a) \<noteq> generation}\<rparr>, Inr retired))"

definition rotate_after_backend_stop :: "authority_registry \<Rightarrow> authority_registry \<times> rotation_receipt" where
  "rotate_after_backend_stop s =
     (\<lparr>au_epoch = au_epoch s + 1, au_generations = [], au_consumed = {}\<rparr>,
      \<lparr>rr_retired_epoch = au_epoch s, rr_active_epoch = au_epoch s + 1,
       rr_remembered_request_count = remembered_request_count s,
       rr_consumed_authority_count = card (au_consumed s)\<rparr>)"

section \<open>Invariant\<close>

definition authority_inv :: "authority_registry \<Rightarrow> bool" where
  "authority_inv s =
     (dict_wf (au_generations s)
      \<and> (\<forall>k gs. map_of (au_generations s) k = Some gs \<longrightarrow> gs \<noteq> {} \<and> finite gs \<and> (\<forall>g \<in> gs. 0 < g))
      \<and> finite (au_consumed s)
      \<and> (\<forall>(k, g, ep) \<in> au_consumed s. ep = au_epoch s \<and> g \<in> generations_of s k))"

datatype authority_op =
    Remember json int
  | Claim json int bool
  | Release response_authority
  | Retire response_authority
  | RetireRequest json int
  | RetireConnection int
  | Rotate

fun authority_step :: "authority_registry \<Rightarrow> authority_op \<Rightarrow> authority_registry" where
  "authority_step s (Remember i g) = fst (remember s i g)"
| "authority_step s (Claim i g b) = fst (claim s i g b)"
| "authority_step s (Release a) = release s a"
| "authority_step s (Retire a) = retire s a"
| "authority_step s (RetireRequest i g) = fst (retire_request_generation s i g)"
| "authority_step s (RetireConnection g) = fst (retire_connection_generation s g)"
| "authority_step s Rotate = fst (rotate_after_backend_stop s)"

lemma discard_lookup:
  "map_of (discard_generation gens k g) k' =
    (if k' = k then (case map_of gens k of None \<Rightarrow> None | Some gs \<Rightarrow> if gs - {g} = {} then None else Some (gs - {g}))
     else map_of gens k')"
  by (auto simp: discard_generation_def update_conv' delete_conv' split: option.splits)

lemma discard_wf: "dict_wf gens \<Longrightarrow> dict_wf (discard_generation gens k g)"
  by (auto simp: discard_generation_def split: option.splits)

definition gens_of :: "(request_id_key, int set) dict \<Rightarrow> request_id_key \<Rightarrow> int set" where
  "gens_of gens k = (case map_of gens k of None \<Rightarrow> {} | Some gs \<Rightarrow> gs)"

definition gens_ok :: "(request_id_key, int set) dict \<Rightarrow> bool" where
  "gens_ok gens = (dict_wf gens \<and> (\<forall>k gs. map_of gens k = Some gs \<longrightarrow> gs \<noteq> {} \<and> finite gs \<and> (\<forall>g \<in> gs. 0 < g)))"

lemma generations_gens: "generations_of s = gens_of (au_generations s)"
  by (rule ext) (simp add: generations_of_def gens_of_def)

lemma discard_ok: "gens_ok gens \<Longrightarrow> gens_ok (discard_generation gens k g)"
proof -
  assume ok: "gens_ok gens"
  have "gs \<noteq> {} \<and> finite gs \<and> (\<forall>g \<in> gs. 0 < g)" if "map_of (discard_generation gens k g) k' = Some gs" for k' gs
  proof -
    have all: "map_of gens k'' = Some gs' \<Longrightarrow> gs' \<noteq> {} \<and> finite gs' \<and> (\<forall>g \<in> gs'. 0 < g)" for k'' gs'
      using ok by (simp add: gens_ok_def)
    show ?thesis
      using that all [of k'] all [of k] unfolding discard_lookup
      by (auto split: if_splits option.splits)
  qed
  then show ?thesis using ok discard_wf by (simp add: gens_ok_def)
qed

lemma discard_gens_of: "gens_of (discard_generation gens k g) k' = (if k' = k then gens_of gens k - {g} else gens_of gens k')"
  by (auto simp: gens_of_def discard_lookup split: option.splits)

text \<open>The loop removes the generation from every set and counts the sets that had it.\<close>

lemma retire_loop:
  "gens_ok gens \<Longrightarrow> retire_connection_loop items g gens n = (gens', n') \<Longrightarrow>
    gens_ok gens' \<and> n' = n + length (filter (\<lambda>p. g \<in> snd p) items)
    \<and> (\<forall>k. gens_of gens' k = (if \<exists>gs. (k, gs) \<in> set items \<and> g \<in> gs then gens_of gens k - {g} else gens_of gens k))"
proof (induction items g gens n rule: retire_connection_loop.induct)
  case (2 k gs rest g gens n)
  show ?case
  proof (cases "g \<in> gs")
    case False
    then show ?thesis using 2 by auto
  next
    case True
    have r: "retire_connection_loop rest g (discard_generation gens k g) (Suc n) = (gens', n')"
      using 2(4) True by simp
    have ih: "gens_ok gens' \<and> n' = Suc n + length (filter (\<lambda>p. g \<in> snd p) rest)
      \<and> (\<forall>k'. gens_of gens' k' = (if \<exists>gs. (k', gs) \<in> set rest \<and> g \<in> gs
          then gens_of (discard_generation gens k g) k' - {g} else gens_of (discard_generation gens k g) k'))"
      using 2(2) True discard_ok [OF 2(3)] r by simp
    then show ?thesis using True unfolding discard_gens_of by auto
  qed
qed auto

lemma authority_inv_gens: "authority_inv s \<longleftrightarrow> gens_ok (au_generations s) \<and> finite (au_consumed s)
    \<and> (\<forall>(k, g, ep) \<in> au_consumed s. ep = au_epoch s \<and> g \<in> gens_of (au_generations s) k)"
  by (simp add: authority_inv_def gens_ok_def generations_gens)

lemma authority_invI:
  assumes "gens_ok (au_generations s)" and "finite (au_consumed s)"
    and "\<And>k g ep. (k, g, ep) \<in> au_consumed s \<Longrightarrow> ep = au_epoch s \<and> g \<in> gens_of (au_generations s) k"
  shows "authority_inv s"
  using assms unfolding authority_inv_gens by blast

lemma authority_invD:
  assumes "authority_inv s"
  shows "gens_ok (au_generations s)" and "finite (au_consumed s)"
    and "\<And>k g ep. (k, g, ep) \<in> au_consumed s \<Longrightarrow> ep = au_epoch s \<and> g \<in> gens_of (au_generations s) k"
  using assms unfolding authority_inv_gens by blast+

lemma insert_generation_ok:
  assumes "gens_ok gens" and "0 < g"
  shows "gens_ok (AList.update k (insert g (gens_of gens k)) gens)"
proof -
  have all: "map_of gens k' = Some gs \<Longrightarrow> gs \<noteq> {} \<and> finite gs \<and> (\<forall>g \<in> gs. 0 < g)" for k' gs
    using assms(1) by (simp add: gens_ok_def)
  have "finite (gens_of gens k) \<and> (\<forall>g \<in> gens_of gens k. 0 < g)"
    using all [of k] by (cases "map_of gens k") (simp_all add: gens_of_def)
  then show ?thesis
    using assms all by (simp add: gens_ok_def update_conv')
qed

lemma insert_generation_gens:
  "gens_of (AList.update k (insert g (gens_of gens k)) gens) k' = (if k' = k then insert g (gens_of gens k) else gens_of gens k')"
  by (simp add: gens_of_def [of "AList.update k (insert g (gens_of gens k)) gens"] update_conv') (simp add: gens_of_def)

lemma remember_inv: "authority_inv s \<Longrightarrow> authority_inv (fst (remember s i g))"
proof -
  assume inv: "authority_inv s"
  note d = authority_invD [OF inv]
  show ?thesis
  proof (cases "g \<le> 0 \<or> (\<exists>ex. request_key i = Inl ex)")
    case True
    then show ?thesis using inv by (auto simp: remember_def)
  next
    case False
    then obtain k where k: "request_key i = Inr k" and g: "0 < g" by (metis not_le sumE)
    show ?thesis
    proof (rule authority_invI)
      show "gens_ok (au_generations (fst (remember s i g)))"
        using k g insert_generation_ok [OF d(1) g] by (simp add: remember_def generations_gens)
      show "finite (au_consumed (fst (remember s i g)))" using d(2) k g by (simp add: remember_def)
      show "ep = au_epoch (fst (remember s i g)) \<and> g' \<in> gens_of (au_generations (fst (remember s i g))) k'"
        if "(k', g', ep) \<in> au_consumed (fst (remember s i g))" for k' g' ep
        using that d(3) [of k' g' ep] k g by (auto simp: remember_def generations_gens insert_generation_gens)
    qed
  qed
qed

lemma retire_inv: "authority_inv s \<Longrightarrow> authority_inv (retire s a)"
proof -
  assume inv: "authority_inv s"
  note d = authority_invD [OF inv]
  obtain k g ep where a: "a = (k, g, ep)" by (metis prod_cases3)
  show ?thesis
  proof (cases "ep \<noteq> au_epoch s \<or> a \<notin> au_consumed s")
    case False
    show ?thesis
    proof (rule authority_invI)
      show "gens_ok (au_generations (retire s a))" using d(1) False discard_ok by (simp add: retire_def a)
      show "finite (au_consumed (retire s a))" using d(2) False by (simp add: retire_def a)
      show "ep' = au_epoch (retire s a) \<and> g' \<in> gens_of (au_generations (retire s a)) k'"
        if "(k', g', ep') \<in> au_consumed (retire s a)" for k' g' ep'
        using that d(3) [of k' g' ep'] False by (auto simp: retire_def a discard_gens_of)
    qed
  qed (use inv in \<open>auto simp: retire_def a\<close>)
qed

lemma retire_request_inv: "authority_inv s \<Longrightarrow> authority_inv (fst (retire_request_generation s i g))"
proof -
  assume inv: "authority_inv s"
  note d = authority_invD [OF inv]
  show ?thesis
  proof (cases "\<exists>k. 0 < g \<and> request_key i = Inr k \<and> g \<in> generations_of s k")
    case True
    then obtain k where k: "0 < g" "request_key i = Inr k" "g \<in> generations_of s k" by blast
    let ?s = "s\<lparr>au_generations := discard_generation (au_generations s) k g,
                au_consumed := {a \<in> au_consumed s. \<not> (fst a = k \<and> fst (snd a) = g)}\<rparr>"
    have "authority_inv ?s"
    proof (rule authority_invI)
      show "gens_ok (au_generations ?s)" using discard_ok [OF d(1)] by simp
      show "finite (au_consumed ?s)" using d(2) by simp
      show "ep' = au_epoch ?s \<and> g' \<in> gens_of (au_generations ?s) k'" if "(k', g', ep') \<in> au_consumed ?s" for k' g' ep'
        using that d(3) [of k' g' ep'] by (auto simp: discard_gens_of)
    qed
    then show ?thesis using k by (simp add: retire_request_generation_def)
  next
    case False
    then show ?thesis using inv by (auto simp: retire_request_generation_def split: sum.splits)
  qed
qed

lemma retire_connection_inv: "authority_inv s \<Longrightarrow> authority_inv (fst (retire_connection_generation s g))"
proof -
  assume inv: "authority_inv s"
  note d = authority_invD [OF inv]
  show ?thesis
  proof (cases "g \<le> 0")
    case True
    then show ?thesis using inv by (simp add: retire_connection_generation_def)
  next
    case False
    obtain gens' n' where l: "retire_connection_loop (au_generations s) g (au_generations s) 0 = (gens', n')" by fastforce
    from retire_loop [OF d(1) l] have ok: "gens_ok gens'" and sub: "\<And>k. gens_of (au_generations s) k - {g} \<subseteq> gens_of gens' k"
      by auto
    let ?s = "s\<lparr>au_generations := gens', au_consumed := {a \<in> au_consumed s. fst (snd a) \<noteq> g}\<rparr>"
    have "authority_inv ?s"
    proof (rule authority_invI)
      show "ep' = au_epoch ?s \<and> g' \<in> gens_of (au_generations ?s) k'" if "(k', g', ep') \<in> au_consumed ?s" for k' g' ep'
        using that d(3) [of k' g' ep'] sub [of k'] by auto
    qed (use ok d(2) in simp_all)
    then show ?thesis using l False by (simp add: retire_connection_generation_def)
  qed
qed

lemma claim_inv: "authority_inv s \<Longrightarrow> authority_inv (fst (claim s i g b))"
  unfolding authority_inv_gens by (auto simp: claim_def generations_gens Let_def split: sum.splits)

lemma release_inv: "authority_inv s \<Longrightarrow> authority_inv (release s a)"
  unfolding authority_inv_gens by (auto simp: release_def)

lemma rotate_inv: "authority_inv (fst (rotate_after_backend_stop s))"
  by (simp add: rotate_after_backend_stop_def authority_inv_gens gens_ok_def)

lemma authority_step_inv: "authority_inv s \<Longrightarrow> authority_inv (authority_step s x)"
  by (cases x) (simp_all only: authority_step.simps remember_inv claim_inv release_inv retire_inv retire_request_inv
      retire_connection_inv rotate_inv)

lemma authority_new_inv: "authority_inv new_authority_registry"
  by (simp add: new_authority_registry_def authority_inv_def)

interpretation authority: epoch_system authority_step new_authority_registry authority_inv au_epoch
proof unfold_locales
  show "authority_inv new_authority_registry" by (rule authority_new_inv)
  show "authority_inv s \<Longrightarrow> authority_inv (authority_step s x)" for s x by (rule authority_step_inv)
  show "au_epoch s \<le> au_epoch (authority_step s x)" for s x
    by (cases x) (auto simp: remember_def claim_def release_def retire_def retire_request_generation_def
        retire_connection_generation_def rotate_after_backend_stop_def Let_def split: sum.splits prod.splits)
qed

section \<open>One claim\<close>

text \<open>The operations that give up a claim, or the whole connection or backend it stands on.\<close>

fun ends_claim :: "response_authority \<Rightarrow> authority_op \<Rightarrow> bool" where
  "ends_claim a (Release b) = (b = a)"
| "ends_claim a (Retire b) = (b = a)"
| "ends_claim a (RetireRequest i g) = (request_key i = Inr (fst a) \<and> g = fst (snd a))"
| "ends_claim a (RetireConnection g) = (g = fst (snd a))"
| "ends_claim a Rotate = True"
| "ends_claim a _ = False"

lemma step_keeps_claim:
  "a \<in> au_consumed s \<Longrightarrow> \<not> ends_claim a x \<Longrightarrow> a \<in> au_consumed (authority_step s x) \<and> au_epoch (authority_step s x) = au_epoch s"
  by (cases x)
    (auto simp: remember_def claim_def release_def retire_def retire_request_generation_def
      retire_connection_generation_def Let_def split: sum.splits prod.splits)

lemma run_keeps_claim:
  "a \<in> au_consumed s \<Longrightarrow> \<forall>x \<in> set xs. \<not> ends_claim a x \<Longrightarrow>
    a \<in> au_consumed (run_ops authority_step s xs) \<and> au_epoch (run_ops authority_step s xs) = au_epoch s"
proof (induction xs arbitrary: s)
  case (Cons x xs)
  then have "a \<in> au_consumed (authority_step s x) \<and> au_epoch (authority_step s x) = au_epoch s"
    by (intro step_keeps_claim) simp_all
  with Cons show ?case by simp
qed simp

lemma claimed:
  assumes "claim s i g b = (s1, Inr a)"
  shows "a \<in> au_consumed s1" and "au_epoch s1 = au_epoch s" and "request_key i = Inr (fst a)" and "snd a = (g, au_epoch s)"
  using assms by (auto simp: claim_def Let_def split: sum.splits if_splits)

section \<open>Properties\<close>

text \<open>
  One-shot authority: after a claim succeeds, the same request on the same generation
  cannot be claimed again until that very claim is released or retired, the request or its
  connection is retired, or the backend generation is rotated.
\<close>

theorem claim_is_one_shot:
  assumes "claim s i g b = (s1, Inr a)" and "\<forall>x \<in> set xs. \<not> ends_claim a x"
    and "claim (run_ops authority_step s1 xs) j g b' = (s2, r)" and "request_key j = request_key i"
  shows "s2 = run_ops authority_step s1 xs \<and> (\<exists>ex. r = Inl ex)"
proof -
  let ?s = "run_ops authority_step s1 xs"
  have "a \<in> au_consumed ?s" and "au_epoch ?s = au_epoch s"
    using run_keeps_claim [OF claimed(1) [OF assms(1)] assms(2)] claimed(2) [OF assms(1)] by simp_all
  moreover have "a = (fst a, g, au_epoch s)" using claimed(4) [OF assms(1)] by (metis prod.collapse)
  ultimately have "(fst a, g, au_epoch ?s) \<in> au_consumed ?s" by simp
  then show ?thesis
    using assms(3,4) claimed(3) [OF assms(1)] by (auto simp: claim_def Let_def split: if_splits)
qed

theorem claim_is_one_shot_witness:
  "\<exists>s1 a. claim (run_ops authority_step new_authority_registry [Remember (JInt 1) 3]) (JInt 1) 3 True = (s1, Inr a)
    \<and> (\<exists>ex. snd (claim (run_ops authority_step s1 [Remember (JInt 1) 3]) (JInt 1) 3 True) = Inl ex)"
proof -
  obtain s1 a where c: "claim (run_ops authority_step new_authority_registry [Remember (JInt 1) 3]) (JInt 1) 3 True = (s1, Inr a)"
    by (simp add: claim_def remember_def new_authority_registry_def generations_of_def Let_def)
  obtain s2 r where d: "claim (run_ops authority_step s1 [Remember (JInt 1) 3]) (JInt 1) 3 True = (s2, r)" by fastforce
  have "s2 = run_ops authority_step s1 [Remember (JInt 1) 3] \<and> (\<exists>ex. r = Inl ex)"
    by (rule claim_is_one_shot [OF c _ d]) simp_all
  then obtain ex where "r = Inl ex" by blast
  then have "snd (claim (run_ops authority_step s1 [Remember (JInt 1) 3]) (JInt 1) 3 True) = Inl ex" using d by simp
  with c show ?thesis by blast
qed

text \<open>
  Authorities of a stopped backend are dead: after the rotation, whatever happens next,
  an authority issued before is neither consumed nor issued again, and releasing or
  retiring it changes nothing.
\<close>

theorem rotated_authority_is_dead:
  assumes "authority_inv s" and "snd (snd a) \<le> au_epoch s"
    and "s' = run_ops authority_step (fst (rotate_after_backend_stop s)) xs"
  shows "a \<notin> au_consumed s' \<and> release s' a = s' \<and> retire s' a = s' \<and> snd (claim s' i g b) \<noteq> Inr a"
proof -
  let ?s = "fst (rotate_after_backend_stop s)"
  have inv: "authority_inv ?s" using authority_step_inv [OF assms(1), of Rotate] by simp
  have inv': "authority_inv s'" unfolding assms(3) by (rule authority.run_inv [OF inv])
  have "snd (snd a) < au_epoch ?s" using assms(2) by (simp add: rotate_after_backend_stop_def)
  from authority.passed_epoch_stays_passed [OF inv this, of xs] have ne: "snd (snd a) \<noteq> au_epoch s'"
    using assms(3) by simp
  have nc: "a \<notin> au_consumed s'" using inv' ne by (auto simp: authority_inv_def)
  have "snd (claim s' i g b) \<noteq> Inr a"
    using ne by (auto simp: claim_def Let_def split: sum.splits)
  then show ?thesis
    using nc ne by (cases a) (simp add: release_def retire_def)
qed

theorem rotated_authority_is_dead_witness:
  "(IntKey 1, 3, 1) \<notin> au_consumed (run_ops authority_step (fst (rotate_after_backend_stop new_authority_registry))
     [Remember (JInt 1) 3, Claim (JInt 1) 3 True])"
proof -
  have "snd (snd (IntKey 1, 3, 1)) \<le> au_epoch new_authority_registry" by (simp add: new_authority_registry_def)
  from rotated_authority_is_dead [OF authority_new_inv this refl] show ?thesis by blast
qed

text \<open>
  A physical disconnect retires every capability of the connection and counts them: no
  request keeps the generation, no claim of it is left, and the other generations keep theirs.
\<close>

theorem disconnect_retires_generation:
  assumes "authority_inv s" and "retire_connection_generation s g = (s', Inr n)"
  shows "generations_of s' k = generations_of s k - {g}
    \<and> au_consumed s' = {a \<in> au_consumed s. fst (snd a) \<noteq> g}
    \<and> n = length (filter (\<lambda>p. g \<in> snd p) (au_generations s))"
proof -
  obtain gens' where l: "retire_connection_loop (au_generations s) g (au_generations s) 0 = (gens', n)"
    and s': "s' = s\<lparr>au_generations := gens', au_consumed := {a \<in> au_consumed s. fst (snd a) \<noteq> g}\<rparr>"
    using assms(2) by (auto simp: retire_connection_generation_def split: if_splits prod.splits)
  have ok: "gens_ok (au_generations s)" using assms(1) by (simp add: authority_inv_gens)
  have wf: "distinct (map fst (au_generations s))" using ok by (simp add: gens_ok_def dict_wf_def)
  have "(\<exists>gs. (k, gs) \<in> set (au_generations s) \<and> g \<in> gs) \<longleftrightarrow> g \<in> gens_of (au_generations s) k"
    unfolding map_of_eq_Some_iff [OF wf, symmetric] gens_of_def by (simp split: option.splits)
  then show ?thesis
    using retire_loop [OF ok l] by (auto simp: s' generations_gens)
qed

theorem disconnect_retires_generation_witness:
  "snd (retire_connection_generation (run_ops authority_step new_authority_registry [Remember (JInt 1) 3, Remember (JInt 1) 4]) 3) = Inr 1
   \<and> generations_of (fst (retire_connection_generation
        (run_ops authority_step new_authority_registry [Remember (JInt 1) 3, Remember (JInt 1) 4]) 3)) (IntKey 1) = {4}"
proof -
  let ?s = "run_ops authority_step new_authority_registry [Remember (JInt 1) 3, Remember (JInt 1) 4]"
  have r: "retire_connection_generation ?s 3 = (fst (retire_connection_generation ?s 3), Inr 1)"
    by (simp add: retire_connection_generation_def remember_def new_authority_registry_def generations_of_def)
  have "generations_of ?s (IntKey 1) = {4, 3}"
    by (simp add: remember_def new_authority_registry_def generations_of_def)
  then have "generations_of (fst (retire_connection_generation ?s 3)) (IntKey 1) = {4, 3} - {3}"
    using disconnect_retires_generation [OF authority.run_inv [OF authority_new_inv] r, of "IntKey 1"] by simp
  moreover have "({4, 3} - {3} :: int set) = {4}" by auto
  ultimately show ?thesis using r by (metis snd_conv)
qed

end
