(* ===== verification/Execution_Queue.thy ===== *)
theory Execution_Queue
  imports Py_Json
begin

text \<open>
  The FIFO transaction for the continuations of Feishu bindings
  (\<open>bot/feishu_execution_queue.py\<close>): the queue of every binding, its generation (epoch and
  root), and the drain that hands the head out as an effect with a receipt and settles it
  exactly once.

  Objects compared with \<open>is\<close> have an identity of their own: a queued item is created with a
  fresh \<open>item_nonce\<close>, so \<open>is\<close> on items is equality of nonces; a receipt has the address
  \<open>rc_addr\<close> of the object, so that a second receipt with the same fields is another one. A
  drain object is shared by the two active maps and mutated through both: it lives in the
  store \<open>q_drains\<close> under the number of its receipt, and the maps hold that number.

  The RuntimeLoop guard and the order in which Python walks a set are the environment of
  a call; a rank on the keys, of the call's own, can describe every order.
\<close>

section \<open>Data\<close>

type_synonym binding = "string \<times> string"

datatype queue_exn =
    NotOnLoop
  | QueueValueError
  | QueueKeyError
  | UnknownDisplayMode
  | NotAttached
  | NoRoot
  | OtherBindingOwnsRoot
  | MirrorPresent
  | NoContinuity
  | ForeignSender
  | ForeignReceipt
  | DeadReceipt
  | HeadVanished

record execution_snapshot =
  xs_binding :: binding
  xs_root :: string
  xs_active :: bool
  xs_attached :: bool
  xs_inflight :: bool
  xs_turn :: string

record message_origin =
  mo_chat_type :: string
  mo_sender_open_id :: string
  mo_sender_user_id :: string
  mo_sender_type :: string
  mo_feishu_thread_id :: string
  mo_context_mode :: string
  mo_created_at :: int
  mo_seq :: int
  mo_sender_name :: string

record drain_receipt =
  rc_addr :: nat
  rc_issuer :: nat
  rc_token :: nat

datatype item_kind = PromptItem | CompactItem

record queued_item =
  qi_nonce :: nat
  qi_kind :: item_kind
  qi_binding :: binding
  qi_epoch :: int
  qi_root :: string
  qi_sender :: string
  qi_chat :: string
  qi_message :: string
  qi_actor :: string
  qi_origin :: message_origin
  qi_text :: string
  qi_inputs :: "jdict list"
  qi_source :: string
  qi_display :: string
  qi_surface :: bool

record start_prompt_effect =
  sp_receipt :: drain_receipt
  sp_binding :: binding
  sp_root :: string
  sp_sender :: string
  sp_chat :: string
  sp_message :: string
  sp_text :: string
  sp_actor :: string
  sp_origin :: message_origin
  sp_inputs :: "jdict list"
  sp_source :: string
  sp_display :: string
  sp_surface :: bool

record start_compact_effect =
  sc_receipt :: drain_receipt
  sc_binding :: binding
  sc_root :: string
  sc_sender :: string
  sc_chat :: string
  sc_message :: string
  sc_actor :: string
  sc_origin :: message_origin

datatype start_effect = StartPrompt start_prompt_effect | StartCompact start_compact_effect

datatype cancel_reason = NotCancelled | BindingInvalidation | Recall

record active_drain =
  ad_receipt :: drain_receipt
  ad_item :: queued_item
  ad_cancel :: cancel_reason

record queue_admission =
  qa_binding :: binding
  qa_root :: string
  qa_epoch :: int
  qa_position :: nat

record queue_invalidation =
  iv_binding :: binding
  iv_root :: string
  iv_epoch :: int
  iv_removed :: nat
  iv_cancelled :: bool

definition had_continuation :: "queue_invalidation \<Rightarrow> bool" where
  "had_continuation v = (iv_removed v \<noteq> 0 \<or> iv_cancelled v)"

record recall_outcome =
  ro_removed :: nat
  ro_roots :: "string list"

record drain_completion =
  dc_binding :: binding
  dc_root :: string
  dc_outcome :: string
  dc_invalidated :: bool
  dc_continue :: bool
  dc_reconcile_root :: string

record queue_snapshot =
  qs_binding :: binding
  qs_epoch :: int
  qs_root :: string
  qs_pending :: nat
  qs_draining :: bool
  qs_cancelled :: bool
  qs_messages :: "string list"

definition has_pending_or_draining :: "queue_snapshot \<Rightarrow> bool" where
  "has_pending_or_draining q = (qs_pending q \<noteq> 0 \<or> (qs_draining q \<and> \<not> qs_cancelled q))"

record queue_env =
  on_loop :: bool
  set_rank :: "binding \<Rightarrow> nat"

record execution_queue =
  q_issuer :: nat
  q_next_item :: nat
  q_next_receipt :: nat
  q_epoch :: "(binding, int) dict"
  q_root :: "(binding, string) dict"
  q_items :: "(binding, queued_item list) dict"
  q_by_binding :: "(binding, nat) dict"
  q_by_receipt :: "(nat, nat) dict"
  q_drains :: "nat \<Rightarrow> active_drain option"

definition new_execution_queue :: "nat \<Rightarrow> execution_queue" where
  "new_execution_queue issuer =
     \<lparr>q_issuer = issuer, q_next_item = 0, q_next_receipt = 0, q_epoch = [], q_root = [],
      q_items = [], q_by_binding = [], q_by_receipt = [], q_drains = (\<lambda>_. None)\<rparr>"

definition GROUP_SHARED_BINDING_OWNER_ID :: string where
  "GROUP_SHARED_BINDING_OWNER_ID = ''__group__''"

section \<open>Values\<close>

definition as_binding :: "binding \<Rightarrow> queue_exn + binding" where
  "as_binding value =
     (let owner_id = strip (fst value); chat_id = strip (snd value)
      in if owner_id = [] \<or> chat_id = [] then Inl QueueValueError else Inr (owner_id, chat_id))"

text \<open>\<open>int(text)\<close>: decimal digits with single underscores between them and an optional sign.\<close>

fun digits_ok :: "bool \<Rightarrow> string \<Rightarrow> bool" where
  "digits_ok after_digit [] = after_digit"
| "digits_ok after_digit (c # cs) =
     (if digit_char c then digits_ok True cs else c = CHR ''_'' \<and> after_digit \<and> digits_ok False cs)"

definition int_of_text :: "string \<Rightarrow> int option" where
  "int_of_text s =
     (let t = strip s;
          signed = t \<noteq> [] \<and> (hd t = CHR ''+'' \<or> hd t = CHR ''-'');
          body = (if signed then tl t else t);
          digits = filter digit_char body
      in if \<not> digits_ok False body \<or> length digits > 4300 then None
         else Some (if signed \<and> hd t = CHR ''-'' then - int (read_nat digits) else int (read_nat digits)))"

text \<open>\<open>None\<close> is the \<open>OverflowError\<close> of an infinite float, which the code does not catch.\<close>

fun non_negative_int :: "json \<Rightarrow> int option" where
  "non_negative_int (JInt n) = Some (max n 0)"
| "non_negative_int (JBool b) = Some (if b then 1 else 0)"
| "non_negative_int (JFloat (Fin x)) = Some (max (if x < 0 then \<lceil>x\<rceil> else \<lfloor>x\<rfloor>) 0)"
| "non_negative_int (JFloat NaN) = Some 0"
| "non_negative_int (JFloat _) = None"
| "non_negative_int (JStr s) = Some (case int_of_text s of None \<Rightarrow> 0 | Some n \<Rightarrow> max n 0)"
| "non_negative_int _ = Some 0"

definition int_field :: "jdict \<Rightarrow> string \<Rightarrow> int option" where
  "int_field source f = (case map_of source f of None \<Rightarrow> Some 0 | Some v \<Rightarrow> non_negative_int v)"

definition origin_of_context :: "(json \<Rightarrow> string) \<Rightarrow> jdict option \<Rightarrow> message_origin option" where
  "origin_of_context txt context =
     (let source = (case context of None \<Rightarrow> [] | Some d \<Rightarrow> d); t = (\<lambda>f. field_text txt (map_of source f))
      in case int_field source ''created_at'' of
           None \<Rightarrow> None
         | Some created_at \<Rightarrow>
             (case int_field source ''assistant_context_seq'' of
                None \<Rightarrow> None
              | Some sequence \<Rightarrow> Some
                  \<lparr>mo_chat_type = t ''chat_type'', mo_sender_open_id = t ''sender_open_id'',
                   mo_sender_user_id = t ''sender_user_id'', mo_sender_type = t ''sender_type'',
                   mo_feishu_thread_id = t ''thread_id'', mo_context_mode = t ''assistant_context_mode'',
                   mo_created_at = created_at, mo_seq = sequence, mo_sender_name = t ''sender_name''\<rparr>))"

definition empty_origin :: message_origin where
  "empty_origin =
     \<lparr>mo_chat_type = [], mo_sender_open_id = [], mo_sender_user_id = [], mo_sender_type = [],
      mo_feishu_thread_id = [], mo_context_mode = [], mo_created_at = 0, mo_seq = 0, mo_sender_name = []\<rparr>"

definition message_context :: "message_origin \<Rightarrow> jdict" where
  "message_context m = filter (\<lambda>(k, v). \<not> falsy v)
     [(''chat_type'', JStr (mo_chat_type m)),
      (''sender_open_id'', JStr (mo_sender_open_id m)),
      (''sender_user_id'', JStr (mo_sender_user_id m)),
      (''sender_type'', JStr (mo_sender_type m)),
      (''thread_id'', JStr (mo_feishu_thread_id m)),
      (''assistant_context_mode'', JStr (mo_context_mode m)),
      (''created_at'', JInt (mo_created_at m)),
      (''assistant_context_seq'', JInt (mo_seq m)),
      (''sender_name'', JStr (mo_sender_name m))]"

section \<open>Private operations\<close>

definition epoch_of :: "execution_queue \<Rightarrow> binding \<Rightarrow> int" where
  "epoch_of s b = (case map_of (q_epoch s) b of None \<Rightarrow> 0 | Some n \<Rightarrow> n)"

definition root_of :: "execution_queue \<Rightarrow> binding \<Rightarrow> string" where
  "root_of s b = (case map_of (q_root s) b of None \<Rightarrow> [] | Some r \<Rightarrow> r)"

definition items_of :: "execution_queue \<Rightarrow> binding \<Rightarrow> queued_item list" where
  "items_of s b = (case map_of (q_items s) b of None \<Rightarrow> [] | Some is \<Rightarrow> is)"

definition active_of :: "execution_queue \<Rightarrow> binding \<Rightarrow> active_drain option" where
  "active_of s b = (case map_of (q_by_binding s) b of None \<Rightarrow> None | Some t \<Rightarrow> q_drains s t)"

text \<open>\<open>self._items[b] = q\<close>, or \<open>pop\<close> when the deque became empty.\<close>

definition put_items :: "execution_queue \<Rightarrow> binding \<Rightarrow> queued_item list \<Rightarrow> execution_queue" where
  "put_items s b is =
     s\<lparr>q_items := (if is = [] then AList.delete b (q_items s) else AList.update b is (q_items s))\<rparr>"

definition set_cancel :: "execution_queue \<Rightarrow> binding \<Rightarrow> cancel_reason \<Rightarrow> execution_queue" where
  "set_cancel s b reason =
     (case map_of (q_by_binding s) b of
        None \<Rightarrow> s
      | Some t \<Rightarrow>
          (case q_drains s t of
             None \<Rightarrow> s
           | Some d \<Rightarrow> s\<lparr>q_drains := (q_drains s)(t := Some (d\<lparr>ad_cancel := reason\<rparr>))\<rparr>))"

definition invalidate_private ::
  "execution_queue \<Rightarrow> binding \<Rightarrow> string \<Rightarrow> execution_queue \<times> queue_invalidation" where
  "invalidate_private s b replacement_root =
     (let previous_root = root_of s b;
          removed = length (items_of s b);
          cancelled_active = (case active_of s b of None \<Rightarrow> False | Some d \<Rightarrow> ad_cancel d \<noteq> BindingInvalidation);
          s1 = set_cancel (s\<lparr>q_items := AList.delete b (q_items s)\<rparr>) b BindingInvalidation;
          next_epoch = epoch_of s b + 1;
          replacement = strip replacement_root
      in (s1\<lparr>q_epoch := AList.update b next_epoch (q_epoch s1),
             q_root := (if replacement \<noteq> [] then AList.update b replacement (q_root s1)
                        else AList.delete b (q_root s1))\<rparr>,
          \<lparr>iv_binding = b, iv_root = previous_root, iv_epoch = next_epoch,
           iv_removed = removed, iv_cancelled = cancelled_active\<rparr>))"

definition require_receipt :: "execution_queue \<Rightarrow> drain_receipt option \<Rightarrow> queue_exn + active_drain" where
  "require_receipt s receipt =
     (case receipt of
        None \<Rightarrow> Inl ForeignReceipt
      | Some rc \<Rightarrow>
          if rc_issuer rc \<noteq> q_issuer s then Inl ForeignReceipt
          else (case Option.bind (map_of (q_by_receipt s) (rc_token rc)) (q_drains s) of
                  None \<Rightarrow> Inl DeadReceipt
                | Some d \<Rightarrow> if rc_addr (ad_receipt d) \<noteq> rc_addr rc then Inl DeadReceipt else Inr d))"

definition head_is_item :: "execution_queue \<Rightarrow> queued_item \<Rightarrow> bool" where
  "head_is_item s item =
     (case items_of s (qi_binding item) of [] \<Rightarrow> False | i # _ \<Rightarrow> qi_nonce i = qi_nonce item)"

definition stale_item :: "execution_queue \<Rightarrow> binding \<Rightarrow> queued_item \<Rightarrow> bool" where
  "stale_item s b i = (qi_epoch i \<noteq> epoch_of s b \<or> qi_root i \<noteq> root_of s b)"

definition drop_stale_heads :: "execution_queue \<Rightarrow> binding \<Rightarrow> execution_queue" where
  "drop_stale_heads s b =
     (case map_of (q_items s) b of
        None \<Rightarrow> s
      | Some is \<Rightarrow> if is = [] then s else put_items s b (dropWhile (stale_item s b) is))"

definition has_current_pending :: "execution_queue \<Rightarrow> binding \<Rightarrow> execution_queue \<times> bool" where
  "has_current_pending s b = (let s1 = drop_stale_heads s b in (s1, items_of s1 b \<noteq> []))"

definition item_is_current :: "execution_queue \<Rightarrow> queued_item \<Rightarrow> bool" where
  "item_is_current s item =
     (epoch_of s (qi_binding item) = qi_epoch item \<and> root_of s (qi_binding item) = qi_root item)"

definition has_current_drain :: "execution_queue \<Rightarrow> binding \<Rightarrow> bool" where
  "has_current_drain s b =
     (case active_of s b of
        None \<Rightarrow> False
      | Some d \<Rightarrow>
          ad_cancel d = NotCancelled
          \<and> epoch_of s b = qi_epoch (ad_item d) \<and> root_of s b = qi_root (ad_item d)
          \<and> head_is_item s (ad_item d))"

text \<open>\<open>set(self._binding_root) | set(self._items)\<close>, updated with \<open>self._active_by_binding\<close>.\<close>

definition continuity_keys :: "execution_queue \<Rightarrow> binding list" where
  "continuity_keys s = remdups (dkeys (q_root s) @ dkeys (q_items s) @ dkeys (q_by_binding s))"

definition owned_keys :: "execution_queue \<Rightarrow> binding list" where
  "owned_keys s =
     remdups (dkeys (q_epoch s) @ dkeys (q_root s) @ dkeys (q_items s) @ dkeys (q_by_binding s))"

fun other_continuity_loop ::
  "execution_queue \<Rightarrow> binding list \<Rightarrow> binding \<Rightarrow> string \<Rightarrow> execution_queue \<times> bool" where
  "other_continuity_loop s [] b root_id = (s, False)"
| "other_continuity_loop s (c # cs) b root_id =
     (if c = b \<or> root_of s c \<noteq> root_id then other_continuity_loop s cs b root_id
      else case has_current_pending s c of (s1, pending) \<Rightarrow>
        if pending \<or> has_current_drain s1 c then (s1, True) else other_continuity_loop s1 cs b root_id)"

definition other_continuity_private ::
  "queue_env \<Rightarrow> execution_queue \<Rightarrow> binding \<Rightarrow> string \<Rightarrow> execution_queue \<times> bool" where
  "other_continuity_private E s b root_id =
     (if root_id = [] then (s, False) else other_continuity_loop s (sort_key (set_rank E) (continuity_keys s)) b root_id)"

definition synchronize_root ::
  "execution_queue \<Rightarrow> binding \<Rightarrow> string \<Rightarrow> execution_queue \<times> (queue_exn + int)" where
  "synchronize_root s b root_id =
     (let s1 = (case map_of (q_root s) b of
                  None \<Rightarrow> s\<lparr>q_root := AList.update b root_id (q_root s),
                            q_epoch := (if map_of (q_epoch s) b = None then AList.update b 1 (q_epoch s) else q_epoch s)\<rparr>
                | Some current \<Rightarrow> if current \<noteq> root_id then fst (invalidate_private s b root_id) else s)
      in (s1, case map_of (q_epoch s1) b of None \<Rightarrow> Inl QueueKeyError | Some n \<Rightarrow> Inr n))"

section \<open>Questions\<close>

definition continuity_pending ::
  "queue_env \<Rightarrow> execution_queue \<Rightarrow> execution_snapshot option \<Rightarrow> string \<Rightarrow> execution_queue \<times> (queue_exn + bool)" where
  "continuity_pending E s snap expected_root =
     (if \<not> on_loop E then (s, Inl NotOnLoop)
      else case snap of
        None \<Rightarrow> (s, Inr False)
      | Some x \<Rightarrow>
          (case as_binding (xs_binding x) of
             Inl ex \<Rightarrow> (s, Inl ex)
           | Inr b \<Rightarrow>
               (let root_id = strip expected_root
                in if \<not> xs_active x \<or> \<not> xs_attached x \<or> strip (xs_root x) \<noteq> root_id then (s, Inr False)
                   else if root_id = [] \<or> root_of s b \<noteq> root_id then (s, Inr False)
                   else case has_current_pending s b of (s1, pending) \<Rightarrow>
                     (s1, Inr (pending \<or> has_current_drain s1 b)))))"

definition has_other_binding_continuity ::
  "queue_env \<Rightarrow> execution_queue \<Rightarrow> binding \<Rightarrow> string \<Rightarrow> execution_queue \<times> (queue_exn + bool)" where
  "has_other_binding_continuity E s value root_id =
     (if \<not> on_loop E then (s, Inl NotOnLoop)
      else case as_binding value of
        Inl ex \<Rightarrow> (s, Inl ex)
      | Inr b \<Rightarrow> map_prod id Inr (other_continuity_private E s b (strip root_id)))"

definition snapshot :: "queue_env \<Rightarrow> execution_queue \<Rightarrow> binding \<Rightarrow> queue_exn + queue_snapshot" where
  "snapshot E s value =
     (if \<not> on_loop E then Inl NotOnLoop
      else bindr (as_binding value) (\<lambda>b. Inr
        \<lparr>qs_binding = b, qs_epoch = epoch_of s b, qs_root = root_of s b,
         qs_pending = length (items_of s b), qs_draining = (active_of s b \<noteq> None),
         qs_cancelled = (case active_of s b of None \<Rightarrow> False | Some d \<Rightarrow> ad_cancel d \<noteq> NotCancelled),
         qs_messages = map qi_message (items_of s b)\<rparr>))"

fun collect :: "('e + 'a) list \<Rightarrow> 'e + 'a list" where
  "collect [] = Inr []"
| "collect (r # rs) = bindr r (\<lambda>x. bindr (collect rs) (\<lambda>xs. Inr (x # xs)))"

definition inventory :: "queue_env \<Rightarrow> execution_queue \<Rightarrow> queue_exn + queue_snapshot list" where
  "inventory E s =
     (if \<not> on_loop E then Inl NotOnLoop
      else collect (map (snapshot E s) (sort (owned_keys s))))"

section \<open>Admission\<close>

definition admit_enqueue_snapshot ::
  "queue_env \<Rightarrow> execution_queue \<Rightarrow> execution_snapshot \<Rightarrow> string \<Rightarrow> string
    \<Rightarrow> execution_queue \<times> (queue_exn + binding \<times> string \<times> int)" where
  "admit_enqueue_snapshot E s x sender preprojection_turn =
     (case as_binding (xs_binding x) of
        Inl ex \<Rightarrow> (s, Inl ex)
      | Inr b \<Rightarrow>
          (let root_id = strip (xs_root x); local_turn = strip preprojection_turn
           in if \<not> xs_active x \<or> \<not> xs_attached x then (s, Inl NotAttached)
              else if root_id = [] then (s, Inl NoRoot)
              else case other_continuity_private E s b root_id of (s1, other) \<Rightarrow>
                if other then (s1, Inl OtherBindingOwnsRoot)
                else if local_turn \<noteq> [] \<and> (xs_inflight x \<or> strip (xs_turn x) \<noteq> []) then (s1, Inl MirrorPresent)
                else bindc (continuity_pending E s1 (Some x) root_id) (\<lambda>s2 has_exact_continuity.
                  if \<not> (xs_inflight x \<or> has_exact_continuity \<or> local_turn \<noteq> []) then (s2, Inl NoContinuity)
                  else if fst b \<noteq> GROUP_SHARED_BINDING_OWNER_ID \<and> fst b \<noteq> strip sender then (s2, Inl ForeignSender)
                  else bindc (synchronize_root s2 b root_id) (\<lambda>s3 n. (s3, Inr (b, root_id, n))))))"

record enqueue_request =
  er_sender :: string
  er_chat :: string
  er_message :: string
  er_actor :: string
  er_origin :: "message_origin option"
  er_text :: string
  er_inputs :: "jdict list"
  er_source :: string
  er_display :: string
  er_surface :: bool

definition new_item ::
  "execution_queue \<Rightarrow> item_kind \<Rightarrow> binding \<Rightarrow> int \<Rightarrow> string \<Rightarrow> enqueue_request \<Rightarrow> execution_queue \<times> queued_item" where
  "new_item s kind b n root_id r =
     (let nonce = q_next_item s + 1
      in (s\<lparr>q_next_item := nonce\<rparr>,
          \<lparr>qi_nonce = nonce, qi_kind = kind, qi_binding = b, qi_epoch = n, qi_root = root_id,
           qi_sender = strip (er_sender r), qi_chat = strip (er_chat r), qi_message = strip (er_message r),
           qi_actor = strip (er_actor r),
           qi_origin = (case er_origin r of None \<Rightarrow> empty_origin | Some m \<Rightarrow> m),
           qi_text = strip (er_text r), qi_inputs = er_inputs r, qi_source = strip (er_source r),
           qi_display = er_display r, qi_surface = er_surface r\<rparr>))"

definition append_item :: "execution_queue \<Rightarrow> queued_item \<Rightarrow> execution_queue \<times> queue_admission" where
  "append_item s item =
     (let is = items_of s (qi_binding item) @ [item]
      in (s\<lparr>q_items := AList.update (qi_binding item) is (q_items s)\<rparr>,
          \<lparr>qa_binding = qi_binding item, qa_root = qi_root item, qa_epoch = qi_epoch item,
           qa_position = length is\<rparr>))"

definition display_modes :: "string list" where
  "display_modes = [''silent'', ''announce'']"

definition enqueue_prompt ::
  "queue_env \<Rightarrow> execution_queue \<Rightarrow> execution_snapshot \<Rightarrow> enqueue_request \<Rightarrow> string
    \<Rightarrow> execution_queue \<times> (queue_exn + queue_admission)" where
  "enqueue_prompt E s x r preprojection_turn =
     (if \<not> on_loop E then (s, Inl NotOnLoop)
      else bindc (admit_enqueue_snapshot E s x (er_sender r) preprojection_turn) (\<lambda>s1 (b, root_id, n).
        let mode = lower (strip (er_display r)); mode = (if mode = [] then ''silent'' else mode)
        in if mode \<notin> set display_modes then (s1, Inl UnknownDisplayMode)
           else case new_item s1 PromptItem b n root_id (r\<lparr>er_display := mode\<rparr>) of (s2, item) \<Rightarrow>
             map_prod id Inr (append_item s2 item)))"

text \<open>A compact item takes the defaults of \<open>_new_item\<close> for what only a prompt has.\<close>

definition enqueue_compact ::
  "queue_env \<Rightarrow> execution_queue \<Rightarrow> execution_snapshot \<Rightarrow> enqueue_request
    \<Rightarrow> execution_queue \<times> (queue_exn + queue_admission)" where
  "enqueue_compact E s x r =
     (if \<not> on_loop E then (s, Inl NotOnLoop)
      else bindc (admit_enqueue_snapshot E s x (er_sender r) []) (\<lambda>s1 (b, root_id, n).
        case new_item s1 CompactItem b n root_id
               (r\<lparr>er_text := [], er_inputs := [], er_source := [], er_display := ''silent'', er_surface := True\<rparr>)
        of (s2, item) \<Rightarrow> map_prod id Inr (append_item s2 item)))"

section \<open>The drain\<close>

definition effect_of :: "active_drain \<Rightarrow> start_effect" where
  "effect_of d =
     (let i = ad_item d
      in case qi_kind i of
           PromptItem \<Rightarrow> StartPrompt
             \<lparr>sp_receipt = ad_receipt d, sp_binding = qi_binding i, sp_root = qi_root i,
              sp_sender = qi_sender i, sp_chat = qi_chat i, sp_message = qi_message i,
              sp_text = qi_text i, sp_actor = qi_actor i, sp_origin = qi_origin i,
              sp_inputs = qi_inputs i, sp_source = qi_source i, sp_display = qi_display i,
              sp_surface = qi_surface i\<rparr>
         | CompactItem \<Rightarrow> StartCompact
             \<lparr>sc_receipt = ad_receipt d, sc_binding = qi_binding i, sc_root = qi_root i,
              sc_sender = qi_sender i, sc_chat = qi_chat i, sc_message = qi_message i,
              sc_actor = qi_actor i, sc_origin = qi_origin i\<rparr>)"

definition setdefault :: "'k \<Rightarrow> 'v \<Rightarrow> ('k, 'v) dict \<Rightarrow> ('k, 'v) dict" where
  "setdefault k v d = (if map_of d k = None then AList.update k v d else d)"

definition claim_head :: "execution_queue \<Rightarrow> binding \<Rightarrow> nat \<Rightarrow> queued_item \<Rightarrow> execution_queue \<times> active_drain" where
  "claim_head s b addr item =
     (let token = q_next_receipt s + 1;
          d = \<lparr>ad_receipt = \<lparr>rc_addr = addr, rc_issuer = q_issuer s, rc_token = token\<rparr>,
               ad_item = item, ad_cancel = NotCancelled\<rparr>
      in (s\<lparr>q_next_receipt := token,
            q_drains := (q_drains s)(token := Some d),
            q_by_binding := AList.update b token (q_by_binding s),
            q_by_receipt := AList.update token token (q_by_receipt s)\<rparr>, d))"

text \<open>\<open>addr\<close> is the address of the receipt object the call creates.\<close>

definition begin_drain ::
  "execution_queue \<Rightarrow> binding \<Rightarrow> execution_snapshot option \<Rightarrow> nat
    \<Rightarrow> execution_queue \<times> (queue_exn + start_effect option)" where
  "begin_drain s value snap addr =
     (case as_binding value of
        Inl ex \<Rightarrow> (s, Inl ex)
      | Inr b \<Rightarrow>
          (case snap of
             None \<Rightarrow> (fst (invalidate_private s b []), Inr None)
           | Some x \<Rightarrow>
               (case as_binding (xs_binding x) of
                  Inl ex \<Rightarrow> (s, Inl ex)
                | Inr b' \<Rightarrow>
                    (let root_id = strip (xs_root x)
                     in if b' \<noteq> b then (s, Inl QueueValueError)
                        else if root_id = [] \<or> \<not> xs_active x \<or> \<not> xs_attached x
                        then (fst (invalidate_private s b []), Inr None)
                        else if map_of (q_root s) b \<noteq> None \<and> root_of s b \<noteq> root_id
                        then (fst (invalidate_private s b root_id), Inr None)
                        else let s1 = s\<lparr>q_root := setdefault b root_id (q_root s), q_epoch := setdefault b 1 (q_epoch s)\<rparr>
                             in if map_of (q_by_binding s1) b \<noteq> None then (s1, Inr None)
                                else if xs_inflight x then (s1, Inr None)
                                else let s2 = drop_stale_heads s1 b
                                     in case items_of s2 b of
                                          [] \<Rightarrow> (s2, Inr None)
                                        | item # _ \<Rightarrow>
                                            (case claim_head s2 b addr item of
                                               (s3, d) \<Rightarrow> (s3, Inr (Some (effect_of d))))))))"

definition begin_terminal_drain ::
  "queue_env \<Rightarrow> execution_queue \<Rightarrow> binding \<Rightarrow> execution_snapshot option \<Rightarrow> nat
    \<Rightarrow> execution_queue \<times> (queue_exn + start_effect option)" where
  "begin_terminal_drain E s value snap addr =
     (if \<not> on_loop E then (s, Inl NotOnLoop) else begin_drain s value snap addr)"

definition claimed_receipt_matches ::
  "queue_env \<Rightarrow> execution_queue \<Rightarrow> drain_receipt option \<Rightarrow> execution_snapshot option \<Rightarrow> bool \<Rightarrow> queue_exn + bool" where
  "claimed_receipt_matches E s receipt snap require_idle =
     (if \<not> on_loop E then Inl NotOnLoop
      else bindr (require_receipt s receipt) (\<lambda>d.
        case snap of
          None \<Rightarrow> Inr False
        | Some x \<Rightarrow>
            if ad_cancel d \<noteq> NotCancelled then Inr False
            else bindr (as_binding (xs_binding x)) (\<lambda>b.
              let item = ad_item d
              in Inr (b = qi_binding item \<and> xs_active x \<and> xs_attached x
                      \<and> (require_idle \<longrightarrow> \<not> xs_inflight x) \<and> strip (xs_root x) = qi_root item
                      \<and> item_is_current s item \<and> head_is_item s item))))"

definition receipt_may_execute ::
  "queue_env \<Rightarrow> execution_queue \<Rightarrow> drain_receipt option \<Rightarrow> execution_snapshot option \<Rightarrow> queue_exn + bool" where
  "receipt_may_execute E s receipt snap = claimed_receipt_matches E s receipt snap True"

definition claimed_receipt_may_mutate ::
  "queue_env \<Rightarrow> execution_queue \<Rightarrow> drain_receipt option \<Rightarrow> execution_snapshot option \<Rightarrow> queue_exn + bool" where
  "claimed_receipt_may_mutate E s receipt snap = claimed_receipt_matches E s receipt snap False"

definition drain_outcomes :: "string list" where
  "drain_outcomes = [''started'', ''known_no_effect_settled'', ''blocked'', ''dropped'']"

text \<open>Both active maps lose the drain, the binding's one only when it is that very drain.\<close>

definition pop_drain :: "execution_queue \<Rightarrow> nat \<Rightarrow> binding \<Rightarrow> execution_queue" where
  "pop_drain s token b =
     (let drain = map_of (q_by_receipt s) token
      in s\<lparr>q_by_receipt := AList.delete token (q_by_receipt s),
           q_by_binding := (if drain \<noteq> None \<and> map_of (q_by_binding s) b = drain
                            then AList.delete b (q_by_binding s) else q_by_binding s)\<rparr>)"

definition settle_head :: "execution_queue \<Rightarrow> queued_item \<Rightarrow> execution_queue" where
  "settle_head s item = put_items s (qi_binding item) (tl (items_of s (qi_binding item)))"

definition completion ::
  "execution_queue \<Rightarrow> active_drain \<Rightarrow> string \<Rightarrow> bool \<Rightarrow> execution_queue \<times> drain_completion" where
  "completion s d outcome invalidated =
     (let item = ad_item d;
          same_epoch = (\<not> invalidated \<and> item_is_current s item);
          (s1, pending) = (if same_epoch then has_current_pending s (qi_binding item) else (s, False));
          blocks = (outcome = ''blocked'' \<and> ad_cancel d \<noteq> Recall)
      in (s1, \<lparr>dc_binding = qi_binding item, dc_root = qi_root item, dc_outcome = outcome,
               dc_invalidated = invalidated,
               dc_continue = (outcome \<noteq> ''started'' \<and> \<not> blocks \<and> same_epoch \<and> pending),
               dc_reconcile_root =
                 (if outcome \<noteq> ''started'' \<and> \<not> blocks \<and> same_epoch \<and> \<not> pending then qi_root item else [])\<rparr>))"

definition complete_drain ::
  "queue_env \<Rightarrow> execution_queue \<Rightarrow> drain_receipt option \<Rightarrow> string
    \<Rightarrow> execution_queue \<times> (queue_exn + drain_completion)" where
  "complete_drain E s receipt outcome =
     (if \<not> on_loop E then (s, Inl NotOnLoop)
      else if outcome \<notin> set drain_outcomes then (s, Inl QueueValueError)
      else case require_receipt s receipt of
        Inl ex \<Rightarrow> (s, Inl ex)
      | Inr d \<Rightarrow>
          (let item = ad_item d;
               s1 = pop_drain s (rc_token (the receipt)) (qi_binding item);
               invalidated = (ad_cancel d = BindingInvalidation \<or> \<not> item_is_current s1 item)
           in if \<not> invalidated \<and> \<not> head_is_item s1 item then (s1, Inl HeadVanished)
              else map_prod id Inr
                (completion (if invalidated then s1 else settle_head s1 item) d outcome invalidated)))"

section \<open>Cancellation\<close>

definition invalidate_binding ::
  "queue_env \<Rightarrow> execution_queue \<Rightarrow> binding \<Rightarrow> execution_queue \<times> (queue_exn + queue_invalidation)" where
  "invalidate_binding E s value =
     (if \<not> on_loop E then (s, Inl NotOnLoop)
      else case as_binding value of
        Inl ex \<Rightarrow> (s, Inl ex)
      | Inr b \<Rightarrow> map_prod id Inr (invalidate_private s b []))"

fun invalidate_loop :: "execution_queue \<Rightarrow> binding list \<Rightarrow> nat \<Rightarrow> execution_queue \<times> nat" where
  "invalidate_loop s [] removed = (s, removed)"
| "invalidate_loop s (b # bs) removed =
     (case invalidate_private s b [] of (s1, v) \<Rightarrow> invalidate_loop s1 bs (removed + iv_removed v))"

definition invalidate_all :: "queue_env \<Rightarrow> execution_queue \<Rightarrow> execution_queue \<times> (queue_exn + nat)" where
  "invalidate_all E s =
     (if \<not> on_loop E then (s, Inl NotOnLoop)
      else map_prod id Inr (invalidate_loop s (sort_key (set_rank E) (owned_keys s)) 0))"

text \<open>
  The scan of one queue: what is kept, how many items count as removed, and whether one of
  them was of the current generation. A claimed head stays; it counts once.
\<close>

fun recall_scan ::
  "(queued_item \<Rightarrow> bool) \<Rightarrow> queued_item option \<Rightarrow> bool \<Rightarrow> string \<Rightarrow> queued_item list
    \<Rightarrow> queued_item list \<times> nat \<times> bool" where
  "recall_scan current act already message [] = ([], 0, False)"
| "recall_scan current act already message (i # is) =
     (case recall_scan current act already message is of (kept, n, cur) \<Rightarrow>
        if qi_message i \<noteq> message then (i # kept, n, cur)
        else if (case act of None \<Rightarrow> False | Some a \<Rightarrow> qi_nonce i = qi_nonce a)
        then (if already then (i # kept, n, cur) else (i # kept, Suc n, current i \<or> cur))
        else (kept, Suc n, current i \<or> cur))"

definition recall_binding ::
  "execution_queue \<Rightarrow> binding \<Rightarrow> queued_item list \<Rightarrow> string \<Rightarrow> recall_outcome \<Rightarrow> execution_queue \<times> recall_outcome" where
  "recall_binding s b is message out =
     (let hit = (case active_of s b of None \<Rightarrow> None
                 | Some d \<Rightarrow> if qi_message (ad_item d) = message then Some d else None);
          s1 = (if hit \<noteq> None then set_cancel s b Recall else s);
          (kept, n, cur) = recall_scan (\<lambda>i. \<not> stale_item s b i) (map_option ad_item hit)
            (case hit of None \<Rightarrow> False | Some d \<Rightarrow> ad_cancel d = Recall) message is;
          current = root_of s b
      in (put_items s1 b kept,
          \<lparr>ro_removed = ro_removed out + n,
           ro_roots = (if kept = [] \<and> n \<noteq> 0 \<and> cur \<and> current \<noteq> [] \<and> current \<notin> set (ro_roots out)
                       then ro_roots out @ [current] else ro_roots out)\<rparr>))"

fun recall_loop ::
  "execution_queue \<Rightarrow> (binding, queued_item list) dict \<Rightarrow> string \<Rightarrow> string \<Rightarrow> recall_outcome
    \<Rightarrow> execution_queue \<times> recall_outcome" where
  "recall_loop s [] chat message out = (s, out)"
| "recall_loop s ((b, is) # rest) chat message out =
     (if chat \<noteq> [] \<and> snd b \<noteq> chat then recall_loop s rest chat message out
      else case recall_binding s b is message out of (s1, out1) \<Rightarrow> recall_loop s1 rest chat message out1)"

definition remove_recalled_message ::
  "queue_env \<Rightarrow> execution_queue \<Rightarrow> string \<Rightarrow> string \<Rightarrow> execution_queue \<times> (queue_exn + recall_outcome)" where
  "remove_recalled_message E s chat_id message_id =
     (if \<not> on_loop E then (s, Inl NotOnLoop)
      else if strip message_id = [] then (s, Inr \<lparr>ro_removed = 0, ro_roots = []\<rparr>)
      else map_prod id Inr
        (recall_loop s (q_items s) (strip chat_id) (strip message_id) \<lparr>ro_removed = 0, ro_roots = []\<rparr>))"

end
