(* ===== verification/Execution_Queue_Lanes.thy ===== *)
theory Execution_Queue_Lanes
  imports Execution_Queue
begin

text \<open>
  The queue seen one binding at a time. The lane of a binding is its generation, its queue
  and its live drain; every operation of the controller changes at most one lane (a recall
  and \<open>invalidate_all\<close> change several, each in the same way), and what it does to the lane
  is a small function on lanes. The invariant of the controller is an invariant of the
  tables, one of every lane, and the exclusive right of one binding to queue for a root.
\<close>

section \<open>Lanes\<close>

record lane =
  ln_epoch :: "int option"
  ln_root :: "string option"
  ln_items :: "queued_item list"
  ln_drain :: "active_drain option"

definition lane_of :: "execution_queue \<Rightarrow> binding \<Rightarrow> lane" where
  "lane_of s b =
     \<lparr>ln_epoch = map_of (q_epoch s) b, ln_root = map_of (q_root s) b,
      ln_items = items_of s b, ln_drain = active_of s b\<rparr>"

definition lane_epoch :: "lane \<Rightarrow> int" where
  "lane_epoch l = (case ln_epoch l of None \<Rightarrow> 0 | Some n \<Rightarrow> n)"

definition lane_invalidate :: "string \<Rightarrow> lane \<Rightarrow> lane" where
  "lane_invalidate r l =
     \<lparr>ln_epoch = Some (lane_epoch l + 1), ln_root = (if r = [] then None else Some r), ln_items = [],
      ln_drain = map_option (\<lambda>d. d\<lparr>ad_cancel := BindingInvalidation\<rparr>) (ln_drain l)\<rparr>"

definition lane_open :: "string \<Rightarrow> lane \<Rightarrow> lane" where
  "lane_open r l =
     l\<lparr>ln_root := Some (case ln_root l of None \<Rightarrow> r | Some r' \<Rightarrow> r'),
       ln_epoch := Some (case ln_epoch l of None \<Rightarrow> 1 | Some n \<Rightarrow> n)\<rparr>"

definition lane_sync :: "string \<Rightarrow> lane \<Rightarrow> lane" where
  "lane_sync r l =
     (if ln_root l = None then lane_open r l
      else if ln_root l = Some r then l else lane_invalidate r l)"

definition lane_claim :: "drain_receipt \<Rightarrow> lane \<Rightarrow> lane" where
  "lane_claim rc l = l\<lparr>ln_drain := Some \<lparr>ad_receipt = rc, ad_item = hd (ln_items l), ad_cancel = NotCancelled\<rparr>\<rparr>"

definition lane_settle :: "lane \<Rightarrow> lane" where
  "lane_settle l =
     (case ln_drain l of
        None \<Rightarrow> l
      | Some d \<Rightarrow> l\<lparr>ln_drain := None,
                    ln_items := (if ln_epoch l = Some (qi_epoch (ad_item d)) then tl (ln_items l) else ln_items l)\<rparr>)"

definition lane_keeps :: "string \<Rightarrow> lane \<Rightarrow> queued_item \<Rightarrow> bool" where
  "lane_keeps m l i =
     (qi_message i \<noteq> m
      \<or> (case ln_drain l of None \<Rightarrow> False | Some d \<Rightarrow> qi_message (ad_item d) = m \<and> qi_nonce i = qi_nonce (ad_item d)))"

lemma lane_keeps_iff:
  "lane_keeps m l i \<longleftrightarrow> qi_message i \<noteq> m
      \<or> (\<exists>d. ln_drain l = Some d \<and> qi_message (ad_item d) = m \<and> qi_nonce i = qi_nonce (ad_item d))"
  by (auto simp: lane_keeps_def split: option.splits)

definition lane_recall :: "string \<Rightarrow> lane \<Rightarrow> lane" where
  "lane_recall m l =
     (if ln_items l = [] then l
      else l\<lparr>ln_items := filter (lane_keeps m l) (ln_items l),
             ln_drain := map_option (\<lambda>d. if qi_message (ad_item d) = m then d\<lparr>ad_cancel := Recall\<rparr> else d) (ln_drain l)\<rparr>)"

section \<open>Invariants\<close>

definition tables_ok :: "execution_queue \<Rightarrow> bool" where
  "tables_ok s =
     (dict_wf (q_epoch s) \<and> dict_wf (q_root s) \<and> dict_wf (q_items s) \<and> dict_wf (q_by_binding s) \<and> dict_wf (q_by_receipt s)
      \<and> (\<forall>b. map_of (q_items s) b \<noteq> Some [])
      \<and> (\<forall>b t. map_of (q_by_binding s) b = Some t \<longrightarrow> map_of (q_by_receipt s) t = Some t
            \<and> (\<exists>d. q_drains s t = Some d \<and> qi_binding (ad_item d) = b
                 \<and> rc_token (ad_receipt d) = t \<and> rc_issuer (ad_receipt d) = q_issuer s))
      \<and> (\<forall>t u. map_of (q_by_receipt s) t = Some u \<longrightarrow> u = t \<and> t \<le> q_next_receipt s
            \<and> (\<exists>b. map_of (q_by_binding s) b = Some t)))"

definition drain_ok :: "lane \<Rightarrow> active_drain \<Rightarrow> bool" where
  "drain_ok l d =
     (\<exists>n. ln_epoch l = Some n \<and> qi_epoch (ad_item d) \<le> n
        \<and> (qi_epoch (ad_item d) = n \<longrightarrow>
             ad_cancel d \<noteq> BindingInvalidation \<and> ln_items l \<noteq> [] \<and> hd (ln_items l) = ad_item d)
        \<and> (ad_cancel d = NotCancelled \<longrightarrow> qi_epoch (ad_item d) = n))"

definition item_ok :: "nat \<Rightarrow> binding \<Rightarrow> lane \<Rightarrow> queued_item \<Rightarrow> bool" where
  "item_ok N b l i =
     (qi_binding i = b \<and> ln_epoch l = Some (qi_epoch i) \<and> ln_root l = Some (qi_root i) \<and> qi_nonce i \<le> N)"

definition lane_ok :: "nat \<Rightarrow> binding \<Rightarrow> lane \<Rightarrow> bool" where
  "lane_ok N b l =
     ((\<forall>r. ln_root l = Some r \<longrightarrow> r \<noteq> [] \<and> ln_epoch l \<noteq> None)
      \<and> (\<forall>n. ln_epoch l = Some n \<longrightarrow> 1 \<le> n)
      \<and> sorted_wrt (<) (map qi_nonce (ln_items l))
      \<and> (\<forall>i \<in> set (ln_items l). item_ok N b l i)
      \<and> (\<forall>d. ln_drain l = Some d \<longrightarrow> drain_ok l d \<and> qi_binding (ad_item d) = b \<and> qi_nonce (ad_item d) \<le> N))"

definition exclusive_roots :: "execution_queue \<Rightarrow> bool" where
  "exclusive_roots s =
     (\<forall>b c. items_of s b \<noteq> [] \<longrightarrow> items_of s c \<noteq> [] \<longrightarrow> root_of s b = root_of s c \<longrightarrow> b = c)"

definition queue_inv :: "execution_queue \<Rightarrow> bool" where
  "queue_inv s = (tables_ok s \<and> (\<forall>b. lane_ok (q_next_item s) b (lane_of s b)) \<and> exclusive_roots s)"

section \<open>Lanes keep their invariant\<close>

lemma lane_ok_invalidate: "lane_ok N b l \<Longrightarrow> lane_ok N b (lane_invalidate r l)"
  by (auto simp: lane_ok_def lane_invalidate_def drain_ok_def lane_epoch_def split: option.splits)

lemma lane_ok_open: "lane_ok N b l \<Longrightarrow> r \<noteq> [] \<Longrightarrow> lane_ok N b (lane_open r l)"
  by (auto simp: lane_ok_def lane_open_def drain_ok_def item_ok_def split: option.splits)

lemma lane_ok_sync: "lane_ok N b l \<Longrightarrow> r \<noteq> [] \<Longrightarrow> lane_ok N b (lane_sync r l)"
  by (simp add: lane_sync_def lane_ok_open lane_ok_invalidate)

lemma lane_ok_mono: "lane_ok N b l \<Longrightarrow> N \<le> M \<Longrightarrow> lane_ok M b l"
  by (auto simp: lane_ok_def item_ok_def intro: order_trans)

lemma lane_ok_push:
  assumes "lane_ok N b l" and "item_ok M b l i" and "N < qi_nonce i"
  shows "lane_ok M b (l\<lparr>ln_items := ln_items l @ [i]\<rparr>)"
proof -
  have le: "N \<le> M" using assms(2,3) by (simp add: item_ok_def)
  have old: "\<forall>j \<in> set (ln_items l). item_ok N b l j" using assms(1) by (simp add: lane_ok_def)
  have "lane_ok M b l" by (rule lane_ok_mono [OF assms(1) le])
  moreover have "sorted_wrt (<) (map qi_nonce (ln_items l @ [i]))"
    using assms(1,3) old by (auto simp: lane_ok_def sorted_wrt_append item_ok_def)
  ultimately show ?thesis
    using assms(2) by (auto simp: lane_ok_def drain_ok_def item_ok_def)
qed

lemma lane_ok_claim:
  assumes "lane_ok N b l" and "ln_items l \<noteq> []"
  shows "lane_ok N b (lane_claim rc l)"
proof -
  have "item_ok N b l (hd (ln_items l))" using assms by (simp add: lane_ok_def)
  then show ?thesis
    using assms by (auto simp: lane_ok_def lane_claim_def drain_ok_def item_ok_def)
qed

lemma lane_ok_settle: "lane_ok N b l \<Longrightarrow> lane_ok N b (lane_settle l)"
  by (cases "ln_items l") (auto simp: lane_ok_def lane_settle_def item_ok_def split: option.splits)

lemma lane_ok_recall:
  assumes ok: "lane_ok N b l"
  shows "lane_ok N b (lane_recall m l)"
proof (cases "ln_items l")
  case Nil
  then show ?thesis using ok by (simp add: lane_recall_def)
next
  case (Cons i rest)
  have srt: "sorted_wrt (<) (map qi_nonce (filter (lane_keeps m l) (ln_items l)))"
    using ok by (simp add: lane_ok_def sorted_wrt_map sorted_wrt_filter)
  have "drain_ok (lane_recall m l) d' \<and> qi_binding (ad_item d') = b \<and> qi_nonce (ad_item d') \<le> N"
    if d': "ln_drain (lane_recall m l) = Some d'" for d'
  proof -
    from d' Cons have "map_option (\<lambda>d. if qi_message (ad_item d) = m then d\<lparr>ad_cancel := Recall\<rparr> else d) (ln_drain l) = Some d'"
      by (simp add: lane_recall_def)
    then obtain d where d: "ln_drain l = Some d" and dd: "d' = (if qi_message (ad_item d) = m then d\<lparr>ad_cancel := Recall\<rparr> else d)"
      unfolding map_option_eq_Some by metis
    have "drain_ok l d" and bn: "qi_binding (ad_item d) = b" "qi_nonce (ad_item d) \<le> N"
      using ok d by (simp_all add: lane_ok_def)
    then have "drain_ok (lane_recall m l) d'"
      using Cons d by (auto simp: drain_ok_def dd lane_recall_def lane_keeps_iff)
    then show ?thesis using bn by (simp add: dd)
  qed
  then have dr: "\<forall>d. ln_drain (lane_recall m l) = Some d \<longrightarrow>
      drain_ok (lane_recall m l) d \<and> qi_binding (ad_item d) = b \<and> qi_nonce (ad_item d) \<le> N" by blast
  have same: "ln_epoch (lane_recall m l) = ln_epoch l" "ln_root (lane_recall m l) = ln_root l"
      "ln_items (lane_recall m l) = filter (lane_keeps m l) (ln_items l)"
    using Cons by (simp_all add: lane_recall_def)
  show ?thesis
    using ok srt dr unfolding lane_ok_def same by (simp add: item_ok_def same)
qed

text \<open>A binding is a pair that is never taken apart here.\<close>

declare split_paired_All [simp del] split_paired_Ex [simp del]

section \<open>What an operation does to the lanes\<close>

lemma update_same: "map_of d k = Some v \<Longrightarrow> AList.update k v d = d"
  by (induction d) (auto split: if_splits)

lemma queue_invD:
  assumes "queue_inv s"
  shows "tables_ok s" and "lane_ok (q_next_item s) b (lane_of s b)" and "exclusive_roots s"
  using assms by (simp_all add: queue_inv_def)

lemma lane_of_simps [simp]:
  "ln_epoch (lane_of s b) = map_of (q_epoch s) b"
  "ln_root (lane_of s b) = map_of (q_root s) b"
  "ln_items (lane_of s b) = items_of s b"
  "ln_drain (lane_of s b) = active_of s b"
  by (simp_all add: lane_of_def)

lemma epoch_of_lane: "epoch_of s b = lane_epoch (lane_of s b)"
  by (simp add: epoch_of_def lane_epoch_def)

lemma inv_item:
  assumes "queue_inv s" and "i \<in> set (items_of s b)"
  shows "item_ok (q_next_item s) b (lane_of s b) i"
  using queue_invD(2) [OF assms(1), of b] assms(2) by (simp add: lane_ok_def)

lemma inv_item_current:
  assumes "queue_inv s" and "i \<in> set (items_of s b)"
  shows "\<not> stale_item s b i"
  using inv_item [OF assms] by (simp add: item_ok_def stale_item_def epoch_of_def root_of_def)

lemma items_of_Some: "tables_ok s \<Longrightarrow> map_of (q_items s) b = (if items_of s b = [] then None else Some (items_of s b))"
  by (auto simp: items_of_def tables_ok_def split: option.splits)

text \<open>No stale head is ever dropped: the guard is there, and never needed.\<close>

lemma drop_stale_heads_id:
  assumes "queue_inv s"
  shows "drop_stale_heads s b = s"
proof (cases "items_of s b")
  case Nil
  then show ?thesis
    using items_of_Some [OF queue_invD(1) [OF assms], of b] by (simp add: drop_stale_heads_def)
next
  case (Cons i rest)
  have "\<not> stale_item s b i" using inv_item_current [OF assms, of i b] Cons by simp
  moreover have m: "map_of (q_items s) b = Some (i # rest)"
    using items_of_Some [OF queue_invD(1) [OF assms], of b] Cons by simp
  ultimately show ?thesis
    by (simp add: drop_stale_heads_def put_items_def update_same [OF m])
qed

lemma has_current_pending_inv: "queue_inv s \<Longrightarrow> has_current_pending s b = (s, items_of s b \<noteq> [])"
  by (simp add: has_current_pending_def drop_stale_heads_id)

lemma inv_drain:
  assumes "queue_inv s" and "active_of s b = Some d"
  shows "drain_ok (lane_of s b) d" and "qi_binding (ad_item d) = b" and "qi_nonce (ad_item d) \<le> q_next_item s"
  using queue_invD(2) [OF assms(1), of b] assms(2) by (simp_all add: lane_ok_def)

lemma current_drain_pending:
  assumes "queue_inv s" and "has_current_drain s b"
  shows "items_of s b \<noteq> []"
proof -
  obtain d where d: "active_of s b = Some d" and h: "head_is_item s (ad_item d)"
    using assms(2) by (auto simp: has_current_drain_def split: option.splits)
  then show ?thesis using inv_drain(2) [OF assms(1) d] by (auto simp: head_is_item_def split: list.splits)
qed

lemma other_continuity_loop_inv:
  "queue_inv s \<Longrightarrow> other_continuity_loop s cs b r = (s, \<exists>c \<in> set cs. c \<noteq> b \<and> root_of s c = r \<and> items_of s c \<noteq> [])"
  by (induction cs) (auto simp: has_current_pending_inv dest: current_drain_pending)

lemma other_continuity_inv:
  assumes inv: "queue_inv s" and r: "r \<noteq> []"
  shows "other_continuity_private E s b r = (s, \<exists>c. c \<noteq> b \<and> root_of s c = r \<and> items_of s c \<noteq> [])"
proof -
  have "c \<in> set (continuity_keys s)" if "items_of s c \<noteq> []" for c
    using that items_of_Some [OF queue_invD(1) [OF inv], of c]
    by (auto simp: continuity_keys_def dkeys_iff)
  then show ?thesis
    using inv r by (auto simp: other_continuity_private_def other_continuity_loop_inv)
qed

lemma continuity_pending_inv:
  assumes "queue_inv s"
  shows "continuity_pending E s snap r =
    (s, if \<not> on_loop E then Inl NotOnLoop
        else case snap of None \<Rightarrow> Inr False
          | Some x \<Rightarrow> bindr (as_binding (xs_binding x)) (\<lambda>b. Inr
              (xs_active x \<and> xs_attached x \<and> strip (xs_root x) = strip r \<and> strip r \<noteq> []
               \<and> root_of s b = strip r \<and> items_of s b \<noteq> [])))"
  using current_drain_pending [OF assms]
  by (auto simp: continuity_pending_def Let_def has_current_pending_inv [OF assms] split: option.splits sum.splits)

section \<open>Tables\<close>

lemma tables_okI:
  assumes "dict_wf (q_epoch s)" and "dict_wf (q_root s)" and "dict_wf (q_items s)"
    and "dict_wf (q_by_binding s)" and "dict_wf (q_by_receipt s)"
    and "\<And>b. map_of (q_items s) b \<noteq> Some []"
    and "\<And>b t. map_of (q_by_binding s) b = Some t \<Longrightarrow> map_of (q_by_receipt s) t = Some t
            \<and> (\<exists>d. q_drains s t = Some d \<and> qi_binding (ad_item d) = b
                 \<and> rc_token (ad_receipt d) = t \<and> rc_issuer (ad_receipt d) = q_issuer s)"
    and "\<And>t u. map_of (q_by_receipt s) t = Some u \<Longrightarrow> u = t \<and> t \<le> q_next_receipt s
            \<and> (\<exists>b. map_of (q_by_binding s) b = Some t)"
  shows "tables_ok s"
  using assms by (simp add: tables_ok_def)

lemma tables_wf:
  assumes "tables_ok s"
  shows "dict_wf (q_epoch s)" and "dict_wf (q_root s)" and "dict_wf (q_items s)"
    and "dict_wf (q_by_binding s)" and "dict_wf (q_by_receipt s)" and "map_of (q_items s) b \<noteq> Some []"
  using assms by (simp_all add: tables_ok_def)

lemma tables_drain:
  assumes "tables_ok s" and "map_of (q_by_binding s) b = Some t"
  obtains d where "map_of (q_by_receipt s) t = Some t" and "q_drains s t = Some d" and "qi_binding (ad_item d) = b"
    and "rc_token (ad_receipt d) = t" and "rc_issuer (ad_receipt d) = q_issuer s" and "active_of s b = Some d"
proof -
  have "map_of (q_by_receipt s) t = Some t
            \<and> (\<exists>d. q_drains s t = Some d \<and> qi_binding (ad_item d) = b
                 \<and> rc_token (ad_receipt d) = t \<and> rc_issuer (ad_receipt d) = q_issuer s)"
    using assms by (simp add: tables_ok_def)
  then show ?thesis using that assms(2) by (auto simp: active_of_def)
qed

lemma tables_token:
  assumes "tables_ok s" and "map_of (q_by_receipt s) t = Some u"
  obtains b where "u = t" and "t \<le> q_next_receipt s" and "map_of (q_by_binding s) b = Some t"
  using assms unfolding tables_ok_def by meson

lemma token_unique:
  assumes "tables_ok s" and "map_of (q_by_binding s) b = Some t" and "map_of (q_by_binding s) c = Some t"
  shows "b = c"
  by (metis assms option.inject tables_drain)

lemma active_None: "tables_ok s \<Longrightarrow> active_of s b = None \<longleftrightarrow> map_of (q_by_binding s) b = None"
  by (auto simp: active_of_def elim: tables_drain split: option.splits)

section \<open>Steps of one lane\<close>

text \<open>\<open>s'\<close> is \<open>s\<close> with the lane of \<open>b\<close> changed by \<open>f\<close>, and nothing else that a lane shows.\<close>

definition lane_step :: "(lane \<Rightarrow> lane) \<Rightarrow> binding \<Rightarrow> execution_queue \<Rightarrow> execution_queue \<Rightarrow> bool" where
  "lane_step f b s s' =
     (tables_ok s' \<and> lane_of s' b = f (lane_of s b) \<and> (\<forall>c. c \<noteq> b \<longrightarrow> lane_of s' c = lane_of s c)
      \<and> q_next_item s \<le> q_next_item s' \<and> q_next_receipt s \<le> q_next_receipt s' \<and> q_issuer s' = q_issuer s)"

lemma lane_stepD:
  assumes "lane_step f b s s'"
  shows "tables_ok s'" and "lane_of s' b = f (lane_of s b)" and "c \<noteq> b \<Longrightarrow> lane_of s' c = lane_of s c"
    and "q_next_item s \<le> q_next_item s'" and "q_next_receipt s \<le> q_next_receipt s'" and "q_issuer s' = q_issuer s"
  using assms by (simp_all add: lane_step_def)

lemma lane_step_refl: "tables_ok s \<Longrightarrow> f (lane_of s b) = lane_of s b \<Longrightarrow> lane_step f b s s"
  by (simp add: lane_step_def)

lemma lane_step_trans: "lane_step f b s s' \<Longrightarrow> lane_step g b s' s'' \<Longrightarrow> lane_step (g \<circ> f) b s s''"
  by (simp add: lane_step_def)

lemma root_of_lane: "root_of s b = (case ln_root (lane_of s b) of None \<Rightarrow> [] | Some r \<Rightarrow> r)"
  by (simp add: root_of_def)

lemma root_of_Some:
  assumes "queue_inv s"
  shows "map_of (q_root s) b = (if root_of s b = [] then None else Some (root_of s b))"
  using queue_invD(2) [OF assms, of b] by (auto simp: lane_ok_def root_of_def split: option.splits)

text \<open>
  The invariant survives a lane step when the lane stays well formed and its queue is empty,
  was not empty under the same root, or belongs to a root nobody else queues for.
\<close>

lemma lane_step_inv:
  assumes inv: "queue_inv s" and st: "lane_step f b s s'"
    and ok: "lane_ok (q_next_item s') b (f (lane_of s b))"
    and ex: "ln_items (f (lane_of s b)) = []
      \<or> (items_of s b \<noteq> [] \<and> ln_root (f (lane_of s b)) = map_of (q_root s) b)
      \<or> (\<forall>c. c \<noteq> b \<longrightarrow> items_of s c \<noteq> [] \<longrightarrow> ln_root (f (lane_of s b)) \<noteq> Some (root_of s c))"
  shows "queue_inv s'"
proof -
  have lanes: "lane_ok (q_next_item s') c (lane_of s' c)" for c
  proof (cases "c = b")
    case False
    then show ?thesis
      using lane_ok_mono [OF queue_invD(2) [OF inv] lane_stepD(4) [OF st]] lane_stepD(3) [OF st False] by simp
  qed (simp add: ok lane_stepD(2) [OF st])
  have old: "exclusive_roots s" by (rule queue_invD(3) [OF inv])
  have it: "items_of s' c = items_of s c" "root_of s' c = root_of s c" if "c \<noteq> b" for c
    using lane_stepD(3) [OF st that] by (metis lane_of_simps(3), metis root_of_lane)
  have itb: "items_of s' b = ln_items (f (lane_of s b))"
    by (metis lane_of_simps(3) lane_stepD(2) [OF st])
  have rb: "ln_root (f (lane_of s b)) = Some (root_of s' b)" if "items_of s' b \<noteq> []"
  proof -
    have "last (items_of s' b) \<in> set (items_of s' b)" using that by simp
    then have "item_ok (q_next_item s') b (lane_of s' b) (last (items_of s' b))" using lanes [of b] by (simp add: lane_ok_def)
    then show ?thesis by (simp add: item_ok_def root_of_lane lane_stepD(2) [OF st])
  qed
  have one: "False" if c: "c \<noteq> b" "items_of s' b \<noteq> []" "items_of s' c \<noteq> []" "root_of s' b = root_of s' c" for c
  proof -
    have "items_of s c \<noteq> []" and r: "root_of s' b = root_of s c" using c it by simp_all
    moreover from this ex have "items_of s b \<noteq> [] \<and> ln_root (f (lane_of s b)) = map_of (q_root s) b"
      using c rb itb by metis
    moreover have "ln_root (f (lane_of s b)) = Some (root_of s' b)" by (rule rb [OF c(2)])
    ultimately have "items_of s b \<noteq> []" and "map_of (q_root s) b = Some (root_of s' b)" by simp_all
    moreover from this(2) have "root_of s b = root_of s' b" by (simp only: root_of_def [of s b] option.case)
    ultimately show False using \<open>items_of s c \<noteq> []\<close> r old c(1) unfolding exclusive_roots_def by metis
  qed
  have "exclusive_roots s'"
    unfolding exclusive_roots_def
  proof (intro allI impI)
    fix c e
    assume a: "items_of s' c \<noteq> []" "items_of s' e \<noteq> []" "root_of s' c = root_of s' e"
    show "c = e"
    proof (rule ccontr)
      assume ne: "c \<noteq> e"
      then have "c \<noteq> b" and "e \<noteq> b" using one a by metis+
      then show False using ne a it old unfolding exclusive_roots_def by metis
    qed
  qed
  then show ?thesis using lanes lane_stepD(1) [OF st] by (simp add: queue_inv_def)
qed

section \<open>The operations as lane steps\<close>

lemma active_of_eq: "map_of (q_by_binding s) b = Some t \<Longrightarrow> active_of s b = q_drains s t"
  by (simp add: active_of_def)

lemma set_cancel_tables:
  assumes "tables_ok s"
  shows "tables_ok (set_cancel s b r)"
proof (cases "map_of (q_by_binding s) b")
  case None
  then show ?thesis using assms by (simp add: set_cancel_def)
next
  case (Some t)
  obtain d where d: "q_drains s t = Some d" by (rule tables_drain [OF assms Some])
  let ?s = "s\<lparr>q_drains := (q_drains s)(t := Some (d\<lparr>ad_cancel := r\<rparr>))\<rparr>"
  have "map_of (q_by_receipt s) u = Some u
          \<and> (\<exists>d. q_drains ?s u = Some d \<and> qi_binding (ad_item d) = c
               \<and> rc_token (ad_receipt d) = u \<and> rc_issuer (ad_receipt d) = q_issuer s)"
    if u: "map_of (q_by_binding s) c = Some u" for c u
  proof -
    obtain e where e: "map_of (q_by_receipt s) u = Some u" "q_drains s u = Some e" "qi_binding (ad_item e) = c"
        "rc_token (ad_receipt e) = u" "rc_issuer (ad_receipt e) = q_issuer s"
      by (rule tables_drain [OF assms u])
    have "q_drains ?s u = Some (if u = t then e\<lparr>ad_cancel := r\<rparr> else e)" using d e(2) by auto
    then show ?thesis using e by auto
  qed
  then have "tables_ok ?s" using assms unfolding tables_ok_def by simp
  then show ?thesis by (simp add: set_cancel_def Some d)
qed

lemma set_cancel_lane:
  assumes "tables_ok s"
  shows "lane_of (set_cancel s b r) c =
    (if c = b then (lane_of s b)\<lparr>ln_drain := map_option (\<lambda>d. d\<lparr>ad_cancel := r\<rparr>) (active_of s b)\<rparr> else lane_of s c)"
proof (cases "map_of (q_by_binding s) b")
  case None
  then show ?thesis by (simp add: set_cancel_def lane_of_def active_of_def)
next
  case (Some t)
  obtain d where d: "q_drains s t = Some d" by (rule tables_drain [OF assms Some])
  have "active_of (set_cancel s b r) c = (if c = b then Some (d\<lparr>ad_cancel := r\<rparr>) else active_of s c)"
  proof (cases "c = b")
    case True
    then show ?thesis using Some d by (simp add: set_cancel_def active_of_def)
  next
    case False
    then have "map_of (q_by_binding s) c \<noteq> Some t" using token_unique [OF assms Some] by blast
    then show ?thesis using False Some d by (simp add: set_cancel_def active_of_def split: option.split)
  qed
  then show ?thesis
    using Some d by (simp add: set_cancel_def lane_of_def items_of_def active_of_def)
qed

lemma set_cancel_frame [simp]:
  "q_epoch (set_cancel s b r) = q_epoch s" "q_root (set_cancel s b r) = q_root s"
  "q_items (set_cancel s b r) = q_items s" "q_next_item (set_cancel s b r) = q_next_item s"
  "q_next_receipt (set_cancel s b r) = q_next_receipt s" "q_issuer (set_cancel s b r) = q_issuer s"
  "q_by_binding (set_cancel s b r) = q_by_binding s" "q_by_receipt (set_cancel s b r) = q_by_receipt s"
  by (simp_all add: set_cancel_def split: option.splits)

text \<open>The queue, epoch and root tables of one binding, replaced.\<close>

lemma tables_replace:
  assumes "tables_ok s"
    and "dict_wf (q_epoch s')" and "dict_wf (q_root s')" and "dict_wf (q_items s')"
    and "\<And>c. map_of (q_items s') c \<noteq> Some []"
    and "q_by_binding s' = q_by_binding s" and "q_by_receipt s' = q_by_receipt s" and "q_drains s' = q_drains s"
    and "q_next_receipt s' = q_next_receipt s" and "q_issuer s' = q_issuer s"
  shows "tables_ok s'"
  using assms(1) assms(2-5) unfolding tables_ok_def assms(6-10) by simp

lemma items_of_update:
  "map_of (q_items s') c = (if c = b then (if is = [] then None else Some is) else map_of (q_items s) c) \<Longrightarrow>
    items_of s' c = (if c = b then is else items_of s c)"
  by (simp add: items_of_def)

lemma active_of_frame:
  "q_by_binding s' = q_by_binding s \<Longrightarrow> q_drains s' = q_drains s \<Longrightarrow> active_of s' b = active_of s b"
  by (auto simp: active_of_def split: option.splits)

lemma active_of_simps [simp]:
  "active_of (s\<lparr>q_epoch := e\<rparr>) b = active_of s b"
  "active_of (s\<lparr>q_root := r\<rparr>) b = active_of s b"
  "active_of (s\<lparr>q_items := is\<rparr>) b = active_of s b"
  "active_of (s\<lparr>q_next_item := n\<rparr>) b = active_of s b"
  by (rule active_of_frame; simp)+

lemma items_of_simps [simp]:
  "items_of (s\<lparr>q_epoch := e\<rparr>) b = items_of s b"
  "items_of (s\<lparr>q_root := r\<rparr>) b = items_of s b"
  "items_of (s\<lparr>q_next_item := n\<rparr>) b = items_of s b"
  "items_of (s\<lparr>q_next_receipt := k\<rparr>) b = items_of s b"
  "items_of (s\<lparr>q_by_binding := x\<rparr>) b = items_of s b"
  "items_of (s\<lparr>q_by_receipt := y\<rparr>) b = items_of s b"
  "items_of (s\<lparr>q_drains := h\<rparr>) b = items_of s b"
  by (simp_all add: items_of_def)

lemma invalidate_step:
  assumes "tables_ok s"
  shows "lane_step (lane_invalidate (strip r)) b s (fst (invalidate_private s b r))"
proof -
  let ?s0 = "s\<lparr>q_items := AList.delete b (q_items s)\<rparr>"
  let ?s1 = "set_cancel ?s0 b BindingInvalidation"
  let ?s' = "fst (invalidate_private s b r)"
  have t0: "tables_ok ?s0"
    by (rule tables_replace [OF assms]) (simp_all add: tables_wf [OF assms] delete_conv')
  have act: "active_of ?s0 c = active_of s c" for c by (rule active_of_frame) simp_all
  have l1: "lane_of ?s1 c = (if c = b then (lane_of s b)\<lparr>ln_items := [], ln_drain := map_option (\<lambda>d. d\<lparr>ad_cancel := BindingInvalidation\<rparr>) (active_of s b)\<rparr> else lane_of s c)" for c
    unfolding set_cancel_lane [OF t0] act
    by (simp add: lane_of_def act items_of_def delete_conv')
  have t': "tables_ok ?s'"
    by (rule tables_replace [OF set_cancel_tables [OF t0]])
      (simp_all add: invalidate_private_def Let_def tables_wf [OF assms] delete_conv')
  have l': "lane_of ?s' c = (if c = b then lane_invalidate (strip r) (lane_of s b) else lane_of s c)" for c
    using l1 [of c]
    by (auto simp: lane_of_def invalidate_private_def Let_def lane_invalidate_def items_of_def
        update_conv' delete_conv' epoch_of_def lane_epoch_def)
  show ?thesis
    using t' l' by (simp add: lane_step_def invalidate_private_def Let_def)
qed

lemma invalidate_report:
  "snd (invalidate_private s b r) =
    \<lparr>iv_binding = b, iv_root = root_of s b, iv_epoch = epoch_of s b + 1, iv_removed = length (items_of s b),
     iv_cancelled = (\<exists>d. active_of s b = Some d \<and> ad_cancel d \<noteq> BindingInvalidation)\<rparr>"
  by (simp add: invalidate_private_def Let_def split: option.splits)

lemma setdefault_get: "map_of (setdefault k v d) k' = (if k' = k \<and> map_of d k = None then Some v else map_of d k')"
  by (simp add: setdefault_def update_conv')

lemma setdefault_wf [simp]: "dict_wf d \<Longrightarrow> dict_wf (setdefault k v d)"
  by (simp add: setdefault_def)

lemma open_step:
  assumes "tables_ok s"
  shows "lane_step (lane_open r) b s (s\<lparr>q_root := setdefault b r (q_root s), q_epoch := setdefault b 1 (q_epoch s)\<rparr>)"
    (is "lane_step _ _ _ ?s'")
proof -
  have "tables_ok ?s'"
    by (rule tables_replace [OF assms]) (simp_all add: tables_wf [OF assms])
  moreover have "active_of ?s' c = active_of s c" for c by (rule active_of_frame) simp_all
  ultimately show ?thesis
    by (simp add: lane_step_def lane_of_def lane_open_def items_of_def setdefault_get split: option.splits)
qed

lemma synchronize_step:
  assumes inv: "queue_inv s" and r: "r \<noteq> []" "strip r = r"
  shows "lane_step (lane_sync r) b s (fst (synchronize_root s b r))
    \<and> snd (synchronize_root s b r) = Inr (lane_epoch (lane_sync r (lane_of s b)))"
proof -
  have t: "tables_ok s" by (rule queue_invD(1) [OF inv])
  have op: "s\<lparr>q_root := AList.update b r (q_root s), q_epoch := setdefault b 1 (q_epoch s)\<rparr>
      = s\<lparr>q_root := setdefault b r (q_root s), q_epoch := setdefault b 1 (q_epoch s)\<rparr>"
    if "map_of (q_root s) b = None" using that by (simp add: setdefault_def)
  have st: "lane_step (lane_sync r) b s (fst (synchronize_root s b r))"
  proof (cases "map_of (q_root s) b")
    case None
    have "fst (synchronize_root s b r) = s\<lparr>q_root := setdefault b r (q_root s), q_epoch := setdefault b 1 (q_epoch s)\<rparr>"
      using None by (simp add: synchronize_root_def Let_def setdefault_def)
    then show ?thesis using open_step [OF t, of r b] None by (simp add: lane_step_def lane_sync_def)
  next
    case (Some q)
    show ?thesis
    proof (cases "q = r")
      case True
      then show ?thesis using Some t by (simp add: synchronize_root_def Let_def lane_step_def lane_sync_def)
    next
      case False
      then show ?thesis
        using Some invalidate_step [OF t, of r b] r by (simp add: synchronize_root_def Let_def lane_step_def lane_sync_def)
    qed
  qed
  let ?s' = "fst (synchronize_root s b r)"
  have ep: "map_of (q_epoch ?s') b = ln_epoch (lane_sync r (lane_of s b))"
    by (metis lane_of_simps(1) lane_stepD(2) [OF st])
  have "ln_epoch (lane_sync r (lane_of s b)) \<noteq> None"
    using queue_invD(2) [OF inv, of b]
    by (auto simp: lane_sync_def lane_open_def lane_invalidate_def lane_ok_def)
  moreover have "snd (synchronize_root s b r) = (case map_of (q_epoch ?s') b of None \<Rightarrow> Inl QueueKeyError | Some n \<Rightarrow> Inr n)"
    by (simp add: synchronize_root_def Let_def)
  ultimately show ?thesis
    using st unfolding ep by (auto simp: lane_epoch_def)
qed

lemma append_step:
  assumes "tables_ok s" and "new_item s kind b n root_id req = (s1, item)" and "append_item s1 item = (s', adm)"
  shows "lane_step (\<lambda>l. l\<lparr>ln_items := ln_items l @ [item]\<rparr>) b s s'"
    and "qi_nonce item = q_next_item s + 1" and "q_next_item s' = q_next_item s + 1"
    and "qi_binding item = b" and "qi_epoch item = n" and "qi_root item = root_id"
    and "qa_position adm = length (items_of s b) + 1" and "qa_epoch adm = n" and "qa_root adm = root_id" and "qa_binding adm = b"
proof -
  show i: "qi_nonce item = q_next_item s + 1" "qi_binding item = b" "qi_epoch item = n" "qi_root item = root_id"
    using assms(2) by (auto simp: new_item_def Let_def)
  have s1: "s1 = s\<lparr>q_next_item := q_next_item s + 1\<rparr>" using assms(2) by (auto simp: new_item_def Let_def)
  have it: "items_of s1 b = items_of s b" by (simp add: s1 items_of_def)
  have s': "s' = s\<lparr>q_next_item := q_next_item s + 1, q_items := AList.update b (items_of s b @ [item]) (q_items s)\<rparr>"
    using assms(3) i(2) it by (auto simp: append_item_def Let_def s1)
  show "q_next_item s' = q_next_item s + 1" by (simp add: s')
  show "qa_position adm = length (items_of s b) + 1" "qa_epoch adm = n" "qa_root adm = root_id" "qa_binding adm = b"
    using assms(3) i it by (auto simp: append_item_def Let_def)
  have "tables_ok s'"
    unfolding s' by (rule tables_replace [OF assms(1)]) (simp_all add: tables_wf [OF assms(1)] update_conv')
  moreover have "active_of s' c = active_of s c" for c by (rule active_of_frame) (simp_all add: s')
  moreover have "items_of s' c = (if c = b then items_of s b @ [item] else items_of s c)" for c
    by (simp add: s' items_of_def update_conv')
  ultimately show "lane_step (\<lambda>l. l\<lparr>ln_items := ln_items l @ [item]\<rparr>) b s s'"
    by (simp add: lane_step_def lane_of_def s')
qed

lemma fresh_token: "tables_ok s \<Longrightarrow> map_of (q_by_receipt s) t = Some u \<Longrightarrow> t \<le> q_next_receipt s"
  by (meson tables_token)

lemma claim_step:
  assumes t: "tables_ok s" and none: "map_of (q_by_binding s) b = None"
    and it: "items_of s b = item # rest" "qi_binding item = b"
    and c: "claim_head s b addr item = (s', d)"
  shows "lane_step (lane_claim (ad_receipt d)) b s s'"
    and "q_next_receipt s' = q_next_receipt s + 1"
    and "ad_receipt d = \<lparr>rc_addr = addr, rc_issuer = q_issuer s, rc_token = q_next_receipt s + 1\<rparr>"
    and "map_of (q_by_receipt s') (q_next_receipt s + 1) = Some (q_next_receipt s + 1)"
    and "q_drains s' (q_next_receipt s + 1) = Some d" and "ad_item d = item" and "ad_cancel d = NotCancelled"
    and "q_next_item s' = q_next_item s"
proof -
  let ?t = "q_next_receipt s + 1"
  have d: "d = \<lparr>ad_receipt = \<lparr>rc_addr = addr, rc_issuer = q_issuer s, rc_token = ?t\<rparr>, ad_item = item, ad_cancel = NotCancelled\<rparr>"
    and s': "s' = s\<lparr>q_next_receipt := ?t, q_drains := (q_drains s)(?t := Some d),
        q_by_binding := AList.update b ?t (q_by_binding s), q_by_receipt := AList.update ?t ?t (q_by_receipt s)\<rparr>"
    using c by (auto simp: claim_head_def Let_def)
  show "q_next_receipt s' = ?t" "q_drains s' ?t = Some d" "ad_item d = item" "ad_cancel d = NotCancelled"
      "ad_receipt d = \<lparr>rc_addr = addr, rc_issuer = q_issuer s, rc_token = ?t\<rparr>" "q_next_item s' = q_next_item s"
    by (simp_all add: s' d)
  show "map_of (q_by_receipt s') ?t = Some ?t" by (simp add: s' update_conv')
  have old: "u \<noteq> ?t" if "map_of (q_by_receipt s) u = Some v" for u v using fresh_token [OF t that] by simp
  have oldb: "u \<noteq> ?t" if u: "map_of (q_by_binding s) e = Some u" for e u
    by (rule tables_drain [OF t u]) (rule old)
  have by_b: "map_of (q_by_binding s') e = (if e = b then Some ?t else map_of (q_by_binding s) e)" for e
    by (simp add: s' update_conv')
  have by_r: "map_of (q_by_receipt s') u = (if u = ?t then Some ?t else map_of (q_by_receipt s) u)" for u
    by (simp add: s' update_conv')
  have "tables_ok s'"
  proof (rule tables_okI)
    fix e u assume u: "map_of (q_by_binding s') e = Some u"
    show "map_of (q_by_receipt s') u = Some u \<and> (\<exists>d. q_drains s' u = Some d \<and> qi_binding (ad_item d) = e
                 \<and> rc_token (ad_receipt d) = u \<and> rc_issuer (ad_receipt d) = q_issuer s')"
    proof (cases "e = b")
      case True
      then have "u = ?t" using u by_b by simp
      then show ?thesis using True it(2) by (simp add: by_r) (simp add: s' d)
    next
      case False
      then have old_u: "map_of (q_by_binding s) e = Some u" using u by_b by simp
      then show ?thesis
        using oldb [OF old_u] by (rule_tac tables_drain [OF t old_u]) (simp add: by_r, simp add: s')
    qed
  next
    fix u v assume u: "map_of (q_by_receipt s') u = Some v"
    show "v = u \<and> u \<le> q_next_receipt s' \<and> (\<exists>e. map_of (q_by_binding s') e = Some u)"
    proof (cases "u = ?t")
      case True
      then show ?thesis using u by_r by_b by (simp add: s') blast
    next
      case False
      then have "map_of (q_by_receipt s) u = Some v" using u by_r by simp
      then obtain e where "v = u" "u \<le> q_next_receipt s" "map_of (q_by_binding s) e = Some u" by (rule tables_token [OF t])
      moreover from this(3) none have "e \<noteq> b" by auto
      ultimately show ?thesis using by_b [of e] by (auto simp: s' intro: exI [of _ e])
    qed
  qed (simp_all add: s' tables_wf [OF t])
  moreover have "active_of s' e = (if e = b then Some d else active_of s e)" for e
  proof (cases "e = b")
    case False
    then show ?thesis using oldb [of e] by (simp add: active_of_def by_b) (simp add: s' split: option.split)
  qed (simp add: active_of_def by_b, simp add: s')
  ultimately show "lane_step (lane_claim (ad_receipt d)) b s s'"
    using it(1) by (simp add: lane_step_def lane_of_def lane_claim_def, simp add: s' d)
qed

lemma require_receiptD:
  assumes "tables_ok s" and "require_receipt s receipt = Inr d"
  obtains rc where "receipt = Some rc" and "rc_issuer rc = q_issuer s" and "rc_addr rc = rc_addr (ad_receipt d)"
    and "rc_token rc = rc_token (ad_receipt d)" and "active_of s (qi_binding (ad_item d)) = Some d"
    and "map_of (q_by_binding s) (qi_binding (ad_item d)) = Some (rc_token rc)"
    and "map_of (q_by_receipt s) (rc_token rc) = Some (rc_token rc)"
proof -
  obtain rc u where rc: "receipt = Some rc" "rc_issuer rc = q_issuer s" "rc_addr rc = rc_addr (ad_receipt d)"
      and u: "map_of (q_by_receipt s) (rc_token rc) = Some u" and du: "q_drains s u = Some d"
    using assms(2) by (auto simp: require_receipt_def split: option.splits if_splits bind_splits)
  obtain b where b: "u = rc_token rc" "map_of (q_by_binding s) b = Some (rc_token rc)"
    by (rule tables_token [OF assms(1) u])
  obtain d' where "q_drains s (rc_token rc) = Some d'" "qi_binding (ad_item d') = b" "rc_token (ad_receipt d') = rc_token rc"
      "active_of s b = Some d'" by (rule tables_drain [OF assms(1) b(2)])
  then have "qi_binding (ad_item d) = b" "rc_token (ad_receipt d) = rc_token rc" "active_of s b = Some d"
    using du b(1) by simp_all
  then show ?thesis using that rc u b by simp
qed

lemma pop_drain_step:
  assumes t: "tables_ok s" and b: "map_of (q_by_binding s) b = Some u"
  shows "lane_step (\<lambda>l. l\<lparr>ln_drain := None\<rparr>) b s (pop_drain s u b)"
    and "map_of (q_by_receipt (pop_drain s u b)) u = None" and "q_next_receipt (pop_drain s u b) = q_next_receipt s"
    and "q_next_item (pop_drain s u b) = q_next_item s"
proof -
  let ?s = "pop_drain s u b"
  have r: "map_of (q_by_receipt s) u = Some u" by (rule tables_drain [OF t b])
  have s': "?s = s\<lparr>q_by_receipt := AList.delete u (q_by_receipt s), q_by_binding := AList.delete b (q_by_binding s)\<rparr>"
    by (simp add: pop_drain_def r b)
  show "map_of (q_by_receipt ?s) u = None" "q_next_receipt ?s = q_next_receipt s" "q_next_item ?s = q_next_item s"
    by (simp_all add: s' delete_conv')
  have "tables_ok ?s"
  proof (rule tables_okI)
    fix c v assume v: "map_of (q_by_binding ?s) c = Some v"
    then have "map_of (q_by_binding s) c = Some v" "c \<noteq> b" by (simp_all add: s' delete_conv' split: if_splits)
    moreover from this have "v \<noteq> u" using token_unique [OF t b] by blast
    ultimately show "map_of (q_by_receipt ?s) v = Some v \<and> (\<exists>d. q_drains ?s v = Some d \<and> qi_binding (ad_item d) = c
                 \<and> rc_token (ad_receipt d) = v \<and> rc_issuer (ad_receipt d) = q_issuer ?s)"
      by (rule_tac tables_drain [OF t, of c v]) (simp_all add: s' delete_conv')
  next
    fix v w assume "map_of (q_by_receipt ?s) v = Some w"
    then have v: "map_of (q_by_receipt s) v = Some w" "v \<noteq> u" by (simp_all add: s' delete_conv' split: if_splits)
    obtain e where e: "w = v" "v \<le> q_next_receipt s" "map_of (q_by_binding s) e = Some v" by (rule tables_token [OF t v(1)])
    then have "e \<noteq> b" using b v(2) by auto
    then have "map_of (q_by_binding ?s) e = Some v" using e(3) by (simp add: s' delete_conv')
    then show "w = v \<and> v \<le> q_next_receipt ?s \<and> (\<exists>e. map_of (q_by_binding ?s) e = Some v)"
      using e by (auto simp: s')
  qed (simp_all add: s' tables_wf [OF t])
  moreover have "lane_of ?s c = (if c = b then (lane_of s b)\<lparr>ln_drain := None\<rparr> else lane_of s c)" for c
    by (simp add: lane_of_def s' active_of_def delete_conv' split: option.split)
  ultimately show "lane_step (\<lambda>l. l\<lparr>ln_drain := None\<rparr>) b s ?s"
    by (simp add: lane_step_def, simp add: s')
qed

lemma put_items_step:
  assumes "tables_ok s"
  shows "lane_step (\<lambda>l. l\<lparr>ln_items := is\<rparr>) b s (put_items s b is)"
proof -
  have "tables_ok (put_items s b is)"
    by (rule tables_replace [OF assms]) (simp_all add: put_items_def tables_wf [OF assms] update_conv' delete_conv')
  moreover have "items_of (put_items s b is) c = (if c = b then is else items_of s c)" for c
    by (simp add: items_of_def put_items_def update_conv' delete_conv')
  moreover have "active_of (put_items s b is) c = active_of s c" for c by (simp add: put_items_def)
  ultimately show ?thesis by (simp add: lane_step_def lane_of_def put_items_def)
qed

lemma put_items_frame [simp]:
  "q_by_receipt (put_items s b is) = q_by_receipt s" "q_next_receipt (put_items s b is) = q_next_receipt s"
  "q_next_item (put_items s b is) = q_next_item s"
  by (simp_all add: put_items_def)

lemma drain_current_iff:
  assumes "queue_inv s" and "active_of s (qi_binding (ad_item d)) = Some d"
  shows "item_is_current s (ad_item d) \<longleftrightarrow> qi_epoch (ad_item d) = epoch_of s (qi_binding (ad_item d))"
    and "qi_epoch (ad_item d) = epoch_of s (qi_binding (ad_item d)) \<Longrightarrow>
      ad_cancel d \<noteq> BindingInvalidation \<and> (\<exists>rest. items_of s (qi_binding (ad_item d)) = ad_item d # rest)"
    and "qi_epoch (ad_item d) \<le> epoch_of s (qi_binding (ad_item d))"
    and "ad_cancel d = NotCancelled \<Longrightarrow> qi_epoch (ad_item d) = epoch_of s (qi_binding (ad_item d))"
proof -
  let ?b = "qi_binding (ad_item d)"
  obtain n where n: "map_of (q_epoch s) ?b = Some n" "qi_epoch (ad_item d) \<le> n"
      "qi_epoch (ad_item d) = n \<Longrightarrow> ad_cancel d \<noteq> BindingInvalidation \<and> items_of s ?b \<noteq> [] \<and> hd (items_of s ?b) = ad_item d"
      "ad_cancel d = NotCancelled \<Longrightarrow> qi_epoch (ad_item d) = n"
    using inv_drain(1) [OF assms] by (auto simp: drain_ok_def)
  have ep: "epoch_of s ?b = n" by (simp add: epoch_of_def n(1))
  show h: "ad_cancel d \<noteq> BindingInvalidation \<and> (\<exists>rest. items_of s ?b = ad_item d # rest)" if "qi_epoch (ad_item d) = epoch_of s ?b"
    using that n(3) unfolding ep by (metis list.collapse)
  show "qi_epoch (ad_item d) \<le> epoch_of s ?b" "ad_cancel d = NotCancelled \<Longrightarrow> qi_epoch (ad_item d) = epoch_of s ?b"
    using n ep by simp_all
  show "item_is_current s (ad_item d) \<longleftrightarrow> qi_epoch (ad_item d) = epoch_of s ?b"
  proof
    assume e: "qi_epoch (ad_item d) = epoch_of s ?b"
    then obtain rest where "items_of s ?b = ad_item d # rest" using h by blast
    then have "\<not> stale_item s ?b (ad_item d)" using inv_item_current [OF assms(1), of "ad_item d" ?b] by simp
    then show "item_is_current s (ad_item d)" by (simp add: stale_item_def item_is_current_def)
  qed (simp add: item_is_current_def)
qed

lemma item_is_current_frame [simp]:
  "item_is_current (pop_drain s u b) i = item_is_current s i"
  "item_is_current (put_items s b is) i = item_is_current s i"
  "head_is_item (pop_drain s u b) i = head_is_item s i"
  "items_of (pop_drain s u b) c = items_of s c"
  by (simp_all add: item_is_current_def epoch_of_def root_of_def pop_drain_def put_items_def head_is_item_def items_of_def Let_def)

text \<open>A live receipt settles: exactly its own lane loses the drain, and the head if it is still current.\<close>

definition completion_report :: "execution_queue \<Rightarrow> active_drain \<Rightarrow> string \<Rightarrow> drain_completion" where
  "completion_report s d outcome =
     (let item = ad_item d; b = qi_binding item;
          live = (qi_epoch item = epoch_of s b); more = (tl (items_of s b) \<noteq> []);
          goes_on = (outcome \<noteq> ''started'' \<and> \<not> (outcome = ''blocked'' \<and> ad_cancel d \<noteq> Recall) \<and> live)
      in \<lparr>dc_binding = b, dc_root = qi_root item, dc_outcome = outcome, dc_invalidated = (\<not> live),
          dc_continue = (goes_on \<and> more), dc_reconcile_root = (if goes_on \<and> \<not> more then qi_root item else [])\<rparr>)"

lemma settled_inv:
  assumes inv: "queue_inv s" and d: "active_of s b = Some d" and st: "lane_step lane_settle b s s'"
  shows "queue_inv s'"
proof (rule lane_step_inv [OF inv st])
  show "lane_ok (q_next_item s') b (lane_settle (lane_of s b))"
    by (rule lane_ok_mono [OF lane_ok_settle [OF queue_invD(2) [OF inv]] lane_stepD(4) [OF st]])
  show "ln_items (lane_settle (lane_of s b)) = []
    \<or> (items_of s b \<noteq> [] \<and> ln_root (lane_settle (lane_of s b)) = map_of (q_root s) b)
    \<or> (\<forall>c. c \<noteq> b \<longrightarrow> items_of s c \<noteq> [] \<longrightarrow> ln_root (lane_settle (lane_of s b)) \<noteq> Some (root_of s c))"
    using d by (cases "items_of s b") (simp_all add: lane_settle_def)
qed

lemma complete_drain_spec:
  assumes inv: "queue_inv s" and rq: "require_receipt s receipt = Inr d"
    and loop: "on_loop E" and out: "outcome \<in> set drain_outcomes"
  shows "\<exists>s'. complete_drain E s receipt outcome = (s', Inr (completion_report s d outcome))
    \<and> queue_inv s' \<and> lane_step lane_settle (qi_binding (ad_item d)) s s'
    \<and> map_of (q_by_receipt s') (rc_token (ad_receipt d)) = None"
proof -
  let ?b = "qi_binding (ad_item d)"
  have t: "tables_ok s" by (rule queue_invD(1) [OF inv])
  obtain rc where rc: "receipt = Some rc" "rc_token rc = rc_token (ad_receipt d)"
      and act: "active_of s ?b = Some d" and bb: "map_of (q_by_binding s) ?b = Some (rc_token rc)"
    by (rule require_receiptD [OF t rq]) blast
  define s1 where "s1 = pop_drain s (rc_token rc) ?b"
  note pop = pop_drain_step [OF t bb, folded s1_def]
  note live = drain_current_iff [OF inv act]
  let ?live = "qi_epoch (ad_item d) = epoch_of s ?b"
  have cur: "item_is_current s1 (ad_item d) = ?live" by (simp add: s1_def live(1))
  have gone: "(ad_cancel d = BindingInvalidation \<or> \<not> item_is_current s1 (ad_item d)) = (\<not> ?live)"
    using live(2) cur by blast
  have ep: "map_of (q_epoch s) ?b = Some (epoch_of s ?b)"
    using inv_drain(1) [OF inv act] by (auto simp: drain_ok_def epoch_of_def)
  define s2 where "s2 = (if ?live then settle_head s1 (ad_item d) else s1)"
  have st: "lane_step lane_settle ?b s s2"
  proof (cases ?live)
    case True
    have "s2 = put_items s1 ?b (tl (items_of s ?b))" by (simp add: s2_def True settle_head_def s1_def)
    then have "lane_step ((\<lambda>l. l\<lparr>ln_items := tl (items_of s ?b)\<rparr>) \<circ> (\<lambda>l. l\<lparr>ln_drain := None\<rparr>)) ?b s s2"
      by (metis lane_step_trans pop(1) put_items_step lane_stepD(1))
    then show ?thesis
      using act ep True by (simp add: lane_step_def lane_settle_def)
  next
    case False
    then have "s2 = s1" by (simp add: s2_def)
    then show ?thesis
      using pop(1) act ep False by (simp add: lane_step_def lane_settle_def)
  qed
  have inv2: "queue_inv s2" by (rule settled_inv [OF inv act st])
  have it2: "items_of s2 ?b = (if ?live then tl (items_of s ?b) else items_of s ?b)"
  proof -
    have "items_of s2 ?b = ln_items (lane_settle (lane_of s ?b))" by (metis lane_of_simps(3) lane_stepD(2) [OF st])
    then show ?thesis using act ep by (auto simp: lane_settle_def)
  qed
  have cur2: "item_is_current s2 (ad_item d) = ?live"
    using cur by (simp add: s2_def settle_head_def)
  have "complete_drain E s receipt outcome = map_prod id Inr (completion s2 d outcome (\<not> ?live))"
  proof -
    have h: "?live \<Longrightarrow> head_is_item s1 (ad_item d)"
      using live(2) by (auto simp: s1_def head_is_item_def)
    have fold: "pop_drain s (rc_token (the receipt)) ?b = s1" by (simp add: s1_def rc(1))
    have "complete_drain E s receipt outcome =
      (if \<not> \<not> ?live \<and> \<not> head_is_item s1 (ad_item d) then (s1, Inl HeadVanished)
       else map_prod id Inr (completion (if \<not> ?live then s1 else settle_head s1 (ad_item d)) d outcome (\<not> ?live)))"
      using loop out unfolding complete_drain_def Let_def rq sum.case fold gone by simp
    then show ?thesis using h by (simp add: s2_def)
  qed
  also have "completion s2 d outcome (\<not> ?live) = (s2, completion_report s d outcome)"
    by (simp add: completion_def completion_report_def Let_def cur2 has_current_pending_inv [OF inv2] it2)
  finally have "complete_drain E s receipt outcome = (s2, Inr (completion_report s d outcome))" by simp
  moreover have "map_of (q_by_receipt s2) (rc_token (ad_receipt d)) = None"
    using pop(2) by (simp add: s2_def settle_head_def rc(2))
  ultimately show ?thesis using inv2 st by blast
qed

lemma complete_drain_error:
  "require_receipt s receipt = Inl ex \<Longrightarrow> \<exists>ex. complete_drain E s receipt outcome = (s, Inl ex)"
  by (simp add: complete_drain_def)

section \<open>Admission and drain on the lanes\<close>

text \<open>When a message may join the queue, read off the state.\<close>

definition root_taken :: "execution_queue \<Rightarrow> binding \<Rightarrow> string \<Rightarrow> bool" where
  "root_taken s b r = (\<exists>c \<in> set (dkeys (q_items s)). c \<noteq> b \<and> root_of s c = r \<and> items_of s c \<noteq> [])"

lemma root_taken_iff: "root_taken s b r \<longleftrightarrow> (\<exists>c. c \<noteq> b \<and> root_of s c = r \<and> items_of s c \<noteq> [])"
proof -
  have "c \<in> set (dkeys (q_items s))" if "items_of s c \<noteq> []" for c
    using that by (auto simp: dkeys_iff items_of_def split: option.splits)
  then show ?thesis by (auto simp: root_taken_def)
qed

definition may_enqueue :: "execution_queue \<Rightarrow> execution_snapshot \<Rightarrow> binding \<Rightarrow> string \<Rightarrow> string \<Rightarrow> queue_exn + unit" where
  "may_enqueue s x b sender local_turn =
     (let r = strip (xs_root x); t = strip local_turn
      in bindr (require NotAttached (xs_active x \<and> xs_attached x)) (\<lambda>_.
         bindr (require NoRoot (r \<noteq> [])) (\<lambda>_.
         bindr (require OtherBindingOwnsRoot (\<not> root_taken s b r)) (\<lambda>_.
         bindr (require MirrorPresent (t = [] \<or> (\<not> xs_inflight x \<and> strip (xs_turn x) = []))) (\<lambda>_.
         bindr (require NoContinuity (xs_inflight x \<or> (root_of s b = r \<and> items_of s b \<noteq> []) \<or> t \<noteq> [])) (\<lambda>_.
         require ForeignSender (fst b = GROUP_SHARED_BINDING_OWNER_ID \<or> fst b = strip sender)))))))"

lemma as_binding_Inr:
  "as_binding v = Inr b \<longleftrightarrow> strip (fst v) \<noteq> [] \<and> strip (snd v) \<noteq> [] \<and> b = (strip (fst v), strip (snd v))"
  by (auto simp: as_binding_def Let_def)

lemma admit_spec:
  assumes inv: "queue_inv s" and loop: "on_loop E" and b: "as_binding (xs_binding x) = Inr b"
  shows "admit_enqueue_snapshot E s x sender lt =
    (case may_enqueue s x b sender lt of
       Inl ex \<Rightarrow> (s, Inl ex)
     | Inr _ \<Rightarrow> bindc (synchronize_root s b (strip (xs_root x))) (\<lambda>s' n. (s', Inr (b, strip (xs_root x), n))))"
  using inv loop b
  by (auto simp: admit_enqueue_snapshot_def may_enqueue_def Let_def root_taken_iff other_continuity_inv continuity_pending_inv
      require_def split: if_splits)

lemma lane_no_root: "lane_ok N b l \<Longrightarrow> ln_root l = None \<Longrightarrow> ln_items l = []"
  by (cases "ln_items l") (auto simp: lane_ok_def item_ok_def)

lemma lane_inv_ok: "queue_inv s \<Longrightarrow> lane_step f b s s' \<Longrightarrow> (\<And>N. lane_ok N b l \<Longrightarrow> lane_ok N b (f l)) \<Longrightarrow>
    l = lane_of s b \<Longrightarrow> lane_ok (q_next_item s') b (f l)"
  by (metis lane_ok_mono lane_stepD(4) queue_invD(2))

lemma invalidate_inv:
  assumes "queue_inv s" and "lane_step (lane_invalidate r) b s s'"
  shows "queue_inv s'"
  by (rule lane_step_inv [OF assms lane_inv_ok [OF assms lane_ok_invalidate refl]]) (simp_all add: lane_invalidate_def)

lemma open_inv:
  assumes "queue_inv s" and "lane_step (lane_open r) b s s'" and "r \<noteq> []"
  shows "queue_inv s'"
proof (rule lane_step_inv [OF assms(1,2)])
  show "lane_ok (q_next_item s') b (lane_open r (lane_of s b))"
    by (rule lane_inv_ok [OF assms(1,2) _ refl]) (rule lane_ok_open [OF _ assms(3)])
  show "ln_items (lane_open r (lane_of s b)) = []
      \<or> (items_of s b \<noteq> [] \<and> ln_root (lane_open r (lane_of s b)) = map_of (q_root s) b)
      \<or> (\<forall>c. c \<noteq> b \<longrightarrow> items_of s c \<noteq> [] \<longrightarrow> ln_root (lane_open r (lane_of s b)) \<noteq> Some (root_of s c))"
  proof (cases "map_of (q_root s) b")
    case None
    then show ?thesis using lane_no_root [OF queue_invD(2) [OF assms(1)], of b] by (simp add: lane_open_def)
  next
    case (Some q)
    then show ?thesis by (cases "items_of s b = []") (simp_all add: lane_open_def)
  qed
qed

lemma sync_cases: "lane_sync r l = lane_open r l \<and> (ln_root l = None \<or> ln_root l = Some r \<and> lane_open r l = l)
    \<or> lane_sync r l = lane_invalidate r l \<or> lane_sync r l = l \<and> ln_root l = Some r"
  by (auto simp: lane_sync_def)

lemma sync_inv:
  assumes "queue_inv s" and "lane_step (lane_sync r) b s s'" and "r \<noteq> []"
  shows "queue_inv s'"
proof -
  consider "lane_step (lane_open r) b s s'" | "lane_step (lane_invalidate r) b s s'"
    | "lane_sync r (lane_of s b) = lane_of s b"
    using assms(2) sync_cases [of r "lane_of s b"] by (fastforce simp: lane_step_def)
  then show ?thesis
  proof cases
    case 3
    show ?thesis
    proof (rule lane_step_inv [OF assms(1,2)])
      show "lane_ok (q_next_item s') b (lane_sync r (lane_of s b))"
        by (rule lane_inv_ok [OF assms(1,2) _ refl]) (rule lane_ok_sync [OF _ assms(3)])
    qed (simp add: 3)
  qed (use assms open_inv invalidate_inv in blast)+
qed

lemma push_inv:
  assumes inv: "queue_inv s" and st: "lane_step (\<lambda>l. l\<lparr>ln_items := ln_items l @ [i]\<rparr>) b s s'"
    and i: "item_ok (q_next_item s') b (lane_of s b) i" "q_next_item s < qi_nonce i"
    and alone: "\<And>c. c \<noteq> b \<Longrightarrow> items_of s c \<noteq> [] \<Longrightarrow> root_of s c \<noteq> qi_root i"
  shows "queue_inv s'"
proof (rule lane_step_inv [OF inv st])
  show "lane_ok (q_next_item s') b ((lane_of s b)\<lparr>ln_items := ln_items (lane_of s b) @ [i]\<rparr>)"
    by (rule lane_ok_push [OF queue_invD(2) [OF inv] i])
  have "map_of (q_root s) b = Some (qi_root i)" using i(1) by (simp add: item_ok_def)
  then have "\<forall>c. c \<noteq> b \<longrightarrow> items_of s c \<noteq> [] \<longrightarrow> map_of (q_root s) b \<noteq> Some (root_of s c)"
    using alone by (metis option.inject)
  then show "ln_items ((lane_of s b)\<lparr>ln_items := ln_items (lane_of s b) @ [i]\<rparr>) = []
      \<or> (items_of s b \<noteq> [] \<and> ln_root ((lane_of s b)\<lparr>ln_items := ln_items (lane_of s b) @ [i]\<rparr>) = map_of (q_root s) b)
      \<or> (\<forall>c. c \<noteq> b \<longrightarrow> items_of s c \<noteq> []
            \<longrightarrow> ln_root ((lane_of s b)\<lparr>ln_items := ln_items (lane_of s b) @ [i]\<rparr>) \<noteq> Some (root_of s c))"
    by simp
qed

lemma claim_lane_inv:
  assumes inv: "queue_inv s" and st: "lane_step (lane_claim rc) b s s'" and ne: "items_of s b \<noteq> []"
  shows "queue_inv s'"
proof (rule lane_step_inv [OF inv st])
  show "lane_ok (q_next_item s') b (lane_claim rc (lane_of s b))"
    by (rule lane_ok_mono [OF lane_ok_claim [OF queue_invD(2) [OF inv]] lane_stepD(4) [OF st]]) (simp add: ne)
qed (simp add: ne lane_claim_def)

section \<open>Beginning a drain\<close>

definition lane_begin :: "execution_snapshot option \<Rightarrow> drain_receipt \<Rightarrow> lane \<Rightarrow> lane \<times> queued_item option" where
  "lane_begin snap rc l =
     (case snap of
        None \<Rightarrow> (lane_invalidate [] l, None)
      | Some x \<Rightarrow>
          (let r = strip (xs_root x)
           in if r = [] \<or> \<not> xs_active x \<or> \<not> xs_attached x then (lane_invalidate [] l, None)
              else if ln_root l \<noteq> None \<and> ln_root l \<noteq> Some r then (lane_invalidate r l, None)
              else if ln_drain l \<noteq> None \<or> xs_inflight x \<or> ln_items l = [] then (lane_open r l, None)
              else (lane_claim rc (lane_open r l), Some (hd (ln_items l)))))"

lemma root_differs:
  "map_of (q_root s) b \<noteq> None \<and> root_of s b \<noteq> r \<longleftrightarrow> map_of (q_root s) b \<noteq> None \<and> map_of (q_root s) b \<noteq> Some r"
  by (auto simp: root_of_def)

lemma lane_step_same: "lane_step f b s s' \<Longrightarrow> f (lane_of s b) = g (lane_of s b) \<Longrightarrow> lane_step g b s s'"
  by (simp add: lane_step_def)

lemma begin_drain_spec:
  assumes inv: "queue_inv s" and b: "as_binding v = Inr b"
    and x: "\<And>x. snap = Some x \<Longrightarrow> as_binding (xs_binding x) = Inr b"
    and rc: "rc = \<lparr>rc_addr = addr, rc_issuer = q_issuer s, rc_token = q_next_receipt s + 1\<rparr>"
  shows "\<exists>s'. begin_drain s v snap addr
      = (s', Inr (map_option (\<lambda>i. effect_of \<lparr>ad_receipt = rc, ad_item = i, ad_cancel = NotCancelled\<rparr>)
                    (snd (lane_begin snap rc (lane_of s b)))))
    \<and> queue_inv s' \<and> lane_step (\<lambda>l. fst (lane_begin snap rc l)) b s s'"
proof -
  have t: "tables_ok s" by (rule queue_invD(1) [OF inv])
  let ?cl = "snap = None \<or> (\<exists>x. snap = Some x \<and> (strip (xs_root x) = [] \<or> \<not> xs_active x \<or> \<not> xs_attached x))"
  show ?thesis
  proof (cases ?cl)
    case True
    have "begin_drain s v snap addr = (fst (invalidate_private s b []), Inr None)"
      using True b x by (auto simp: begin_drain_def Let_def)
    moreover have l: "lane_begin snap rc l = (lane_invalidate [] l, None)" for l
      using True by (auto simp: lane_begin_def Let_def)
    moreover have st: "lane_step (lane_invalidate []) b s (fst (invalidate_private s b []))"
      using invalidate_step [OF t, of "[]" b] by simp
    ultimately show ?thesis using invalidate_inv [OF inv st] by simp
  next
    case False
    then obtain y where y: "snap = Some y" "strip (xs_root y) \<noteq> []" "xs_active y" "xs_attached y" by (cases snap) auto
    let ?r = "strip (xs_root y)"
    have bx: "as_binding (xs_binding y) = Inr b" using x y(1) by simp
    show ?thesis
    proof (cases "map_of (q_root s) b \<noteq> None \<and> map_of (q_root s) b \<noteq> Some ?r")
      case True
      then have "begin_drain s v snap addr = (fst (invalidate_private s b ?r), Inr None)"
        using b bx y unfolding root_differs [symmetric] by (simp add: begin_drain_def Let_def)
      moreover have l: "lane_begin snap rc (lane_of s b) = (lane_invalidate ?r (lane_of s b), None)"
        using True y by (simp add: lane_begin_def Let_def)
      moreover have st: "lane_step (lane_invalidate ?r) b s (fst (invalidate_private s b ?r))"
        using invalidate_step [OF t, of ?r b] by simp
      ultimately show ?thesis using invalidate_inv [OF inv st] by (auto intro: lane_step_same [OF st])
    next
      case same: False
      let ?s1 = "s\<lparr>q_root := setdefault b ?r (q_root s), q_epoch := setdefault b 1 (q_epoch s)\<rparr>"
      note st1 = open_step [OF t, of ?r b]
      have inv1: "queue_inv ?s1" by (rule open_inv [OF inv st1 y(2)])
      have nd: "\<not> (map_of (q_root s) b \<noteq> None \<and> root_of s b \<noteq> ?r)" using same root_differs by blast
      show ?thesis
      proof (cases "active_of s b \<noteq> None \<or> xs_inflight y \<or> items_of s b = []")
        case True
        then have "begin_drain s v snap addr = (?s1, Inr None)"
          using b bx y nd active_None [OF t, of b] drop_stale_heads_id [OF inv1, of b]
          by (auto simp: begin_drain_def Let_def)
        moreover have l: "lane_begin snap rc (lane_of s b) = (lane_open ?r (lane_of s b), None)"
          using True y same by (auto simp: lane_begin_def Let_def)
        ultimately show ?thesis using inv1 by (auto intro: lane_step_same [OF st1])
      next
        case False
        then obtain item rest where it: "items_of s b = item # rest" by (cases "items_of s b") auto
        have none: "map_of (q_by_binding ?s1) b = None" using False active_None [OF t, of b] by simp
        have it1: "items_of ?s1 b = item # rest" by (simp add: it)
        have bi: "qi_binding item = b" using inv_item [OF inv1, of item b] it1 by (simp add: item_ok_def)
        obtain s3 d where cl: "claim_head ?s1 b addr item = (s3, d)" by (cases "claim_head ?s1 b addr item")
        note c = claim_step [OF queue_invD(1) [OF inv1] none it1 bi cl]
        have d: "d = \<lparr>ad_receipt = rc, ad_item = item, ad_cancel = NotCancelled\<rparr>"
          using c(3,6,7) rc by simp
        have "begin_drain s v snap addr = (s3, Inr (Some (effect_of d)))"
          using False b bx y nd none it1 cl drop_stale_heads_id [OF inv1, of b]
          by (simp add: begin_drain_def Let_def)
        moreover have l: "lane_begin snap rc (lane_of s b) = (lane_claim rc (lane_open ?r (lane_of s b)), Some item)"
          using False y same it by (simp add: lane_begin_def Let_def)
        moreover have st: "lane_step (lane_claim rc \<circ> lane_open ?r) b s s3"
          by (rule lane_step_trans [OF st1]) (use c(1) d in simp)
        moreover have "queue_inv s3" by (rule claim_lane_inv [OF inv1 c(1)]) (simp add: it)
        ultimately show ?thesis using d by (auto intro: lane_step_same [OF st])
      qed
    qed
  qed
qed

section \<open>Joining the queue\<close>

definition lane_push :: "string \<Rightarrow> queued_item \<Rightarrow> lane \<Rightarrow> lane" where
  "lane_push r i l = (let l' = lane_sync r l in l'\<lparr>ln_items := ln_items l' @ [i]\<rparr>)"

lemma enqueue_core:
  assumes inv: "queue_inv s" and r: "r \<noteq> []" "strip r = r"
    and alone: "\<And>c. c \<noteq> b \<Longrightarrow> items_of s c \<noteq> [] \<Longrightarrow> root_of s c \<noteq> r"
    and sy: "synchronize_root s b r = (s1, Inr n)"
    and it: "new_item s1 kind b n r req = (s2, item)" and ap: "append_item s2 item = (s3, adm)"
  shows "queue_inv s3 \<and> lane_step (lane_push r item) b s s3 \<and> q_next_item s < qi_nonce item
    \<and> adm = \<lparr>qa_binding = b, qa_root = r, qa_epoch = lane_epoch (lane_sync r (lane_of s b)),
             qa_position = length (ln_items (lane_sync r (lane_of s b))) + 1\<rparr>"
proof -
  have st1: "lane_step (lane_sync r) b s s1" and n: "n = lane_epoch (lane_sync r (lane_of s b))"
    using synchronize_step [OF inv r, of b] sy by simp_all
  have inv1: "queue_inv s1" by (rule sync_inv [OF inv st1 r(1)])
  note ap = append_step [OF queue_invD(1) [OF inv1] it ap]
  have l1: "lane_of s1 b = lane_sync r (lane_of s b)" by (rule lane_stepD(2) [OF st1])
  have r1: "ln_root (lane_of s1 b) = Some r"
    unfolding l1 using r(1) by (auto simp: lane_sync_def lane_open_def lane_invalidate_def)
  then have "ln_epoch (lane_of s1 b) \<noteq> None" using queue_invD(2) [OF inv1, of b] by (simp add: lane_ok_def)
  then have e1: "ln_epoch (lane_of s1 b) = Some n" by (auto simp: n l1 [symmetric] lane_epoch_def)
  have inv3: "queue_inv s3"
  proof (rule push_inv [OF inv1 ap(1)])
    show "item_ok (q_next_item s3) b (lane_of s1 b) item"
      using ap r1 e1 by (simp add: item_ok_def)
    show "q_next_item s1 < qi_nonce item" using ap by simp
    fix c assume c: "c \<noteq> b" "items_of s1 c \<noteq> []"
    then have "items_of s c \<noteq> []" and "root_of s1 c = root_of s c"
      using lane_stepD(3) [OF st1 c(1)] by (metis lane_of_simps(3), metis root_of_lane)
    then show "root_of s1 c \<noteq> qi_root item" using alone c ap by simp
  qed
  have "lane_step (lane_push r item) b s s3"
    by (rule lane_step_same [OF lane_step_trans [OF st1 ap(1)]]) (simp add: lane_push_def Let_def)
  moreover have "items_of s1 b = ln_items (lane_sync r (lane_of s b))" by (metis l1 lane_of_simps(3))
  moreover have "q_next_item s < qi_nonce item" using ap(2) lane_stepD(4) [OF st1] by simp
  ultimately show ?thesis using inv3 ap n by (cases adm) simp
qed

lemma may_enqueue_alone:
  "may_enqueue s x b sender lt = Inr u \<Longrightarrow> c \<noteq> b \<Longrightarrow> items_of s c \<noteq> [] \<Longrightarrow> root_of s c \<noteq> strip (xs_root x)"
  "may_enqueue s x b sender lt = Inr u \<Longrightarrow> strip (xs_root x) \<noteq> []"
  by (auto simp: may_enqueue_def Let_def root_taken_iff bindr_elims)

lemma admitted_spec:
  assumes "queue_inv s" and "on_loop E" and "as_binding (xs_binding x) = Inr b"
    and m: "may_enqueue s x b sender lt = Inr ()"
  shows "\<exists>s1. admit_enqueue_snapshot E s x sender lt
      = (s1, Inr (b, strip (xs_root x), lane_epoch (lane_sync (strip (xs_root x)) (lane_of s b))))
    \<and> synchronize_root s b (strip (xs_root x)) = (s1, Inr (lane_epoch (lane_sync (strip (xs_root x)) (lane_of s b))))"
proof -
  have "snd (synchronize_root s b (strip (xs_root x))) = Inr (lane_epoch (lane_sync (strip (xs_root x)) (lane_of s b)))"
    using synchronize_step [OF assms(1) may_enqueue_alone(2) [OF m], of b] by simp
  then obtain s1 where "synchronize_root s b (strip (xs_root x)) = (s1, Inr (lane_epoch (lane_sync (strip (xs_root x)) (lane_of s b))))"
    by (metis prod.collapse)
  then show ?thesis by (simp add: admit_spec [OF assms(1-3)] m)
qed

definition prompt_display :: "string \<Rightarrow> string" where
  "prompt_display m = (let d = lower (strip m) in if d = [] then ''silent'' else d)"

lemma enqueue_prompt_spec:
  assumes inv: "queue_inv s" and loop: "on_loop E" and b: "as_binding (xs_binding x) = Inr b"
    and m: "may_enqueue s x b (er_sender req) lt = Inr ()" and d: "prompt_display (er_display req) \<in> set display_modes"
  shows "\<exists>s' item. enqueue_prompt E s x req lt = (s', Inr
        \<lparr>qa_binding = b, qa_root = strip (xs_root x), qa_epoch = lane_epoch (lane_sync (strip (xs_root x)) (lane_of s b)),
         qa_position = length (ln_items (lane_sync (strip (xs_root x)) (lane_of s b))) + 1\<rparr>)
    \<and> queue_inv s' \<and> lane_step (lane_push (strip (xs_root x)) item) b s s' \<and> q_next_item s < qi_nonce item
    \<and> qi_kind item = PromptItem \<and> qi_text item = strip (er_text req) \<and> qi_message item = strip (er_message req)"
proof -
  let ?r = "strip (xs_root x)" and ?q = "req\<lparr>er_display := prompt_display (er_display req)\<rparr>"
  obtain s1 where ad: "admit_enqueue_snapshot E s x (er_sender req) lt = (s1, Inr (b, ?r, lane_epoch (lane_sync ?r (lane_of s b))))"
      and sy: "synchronize_root s b ?r = (s1, Inr (lane_epoch (lane_sync ?r (lane_of s b))))"
    using admitted_spec [OF inv loop b m] by blast
  obtain s2 item where it: "new_item s1 PromptItem b (lane_epoch (lane_sync ?r (lane_of s b))) ?r ?q = (s2, item)" by fastforce
  obtain s3 adm where ap: "append_item s2 item = (s3, adm)" by fastforce
  note core = enqueue_core [OF inv may_enqueue_alone(2) [OF m] strip_idem may_enqueue_alone(1) [OF m] sy it ap]
  have "enqueue_prompt E s x req lt = (s3, Inr adm)"
    using loop d ad it ap by (simp add: enqueue_prompt_def prompt_display_def Let_def)
  moreover have "qi_kind item = PromptItem \<and> qi_text item = strip (er_text req) \<and> qi_message item = strip (er_message req)"
    using it by (auto simp: new_item_def Let_def)
  ultimately show ?thesis using core by blast
qed

lemma enqueue_compact_spec:
  assumes inv: "queue_inv s" and loop: "on_loop E" and b: "as_binding (xs_binding x) = Inr b"
    and m: "may_enqueue s x b (er_sender req) [] = Inr ()"
  shows "\<exists>s' item. enqueue_compact E s x req = (s', Inr
        \<lparr>qa_binding = b, qa_root = strip (xs_root x), qa_epoch = lane_epoch (lane_sync (strip (xs_root x)) (lane_of s b)),
         qa_position = length (ln_items (lane_sync (strip (xs_root x)) (lane_of s b))) + 1\<rparr>)
    \<and> queue_inv s' \<and> lane_step (lane_push (strip (xs_root x)) item) b s s' \<and> q_next_item s < qi_nonce item
    \<and> qi_kind item = CompactItem \<and> qi_message item = strip (er_message req)"
proof -
  let ?r = "strip (xs_root x)"
    and ?q = "req\<lparr>er_text := [], er_inputs := [], er_source := [], er_display := ''silent'', er_surface := True\<rparr>"
  obtain s1 where ad: "admit_enqueue_snapshot E s x (er_sender req) [] = (s1, Inr (b, ?r, lane_epoch (lane_sync ?r (lane_of s b))))"
      and sy: "synchronize_root s b ?r = (s1, Inr (lane_epoch (lane_sync ?r (lane_of s b))))"
    using admitted_spec [OF inv loop b m] by blast
  obtain s2 item where it: "new_item s1 CompactItem b (lane_epoch (lane_sync ?r (lane_of s b))) ?r ?q = (s2, item)" by fastforce
  obtain s3 adm where ap: "append_item s2 item = (s3, adm)" by fastforce
  note core = enqueue_core [OF inv may_enqueue_alone(2) [OF m] strip_idem may_enqueue_alone(1) [OF m] sy it ap]
  have "enqueue_compact E s x req = (s3, Inr adm)"
    using loop ad it ap by (simp add: enqueue_compact_def)
  moreover have "qi_kind item = CompactItem \<and> qi_message item = strip (er_message req)"
    using it by (auto simp: new_item_def Let_def)
  ultimately show ?thesis using core by blast
qed

section \<open>Recall\<close>

definition keeps :: "queued_item option \<Rightarrow> string \<Rightarrow> queued_item \<Rightarrow> bool" where
  "keeps act m i = (qi_message i \<noteq> m \<or> (case act of None \<Rightarrow> False | Some a \<Rightarrow> qi_nonce i = qi_nonce a))"

lemma keeps_iff: "keeps act m i \<longleftrightarrow> qi_message i \<noteq> m \<or> (\<exists>a. act = Some a \<and> qi_nonce i = qi_nonce a)"
  by (auto simp: keeps_def split: option.splits)

text \<open>How many items a recall counts: the matching ones, the claimed head only the first time.\<close>

definition recall_count :: "queued_item option \<Rightarrow> bool \<Rightarrow> string \<Rightarrow> queued_item list \<Rightarrow> nat" where
  "recall_count act already m is =
     length (filter (\<lambda>i. qi_message i = m \<and> \<not> (already \<and> keeps act m i)) is)"

lemma recall_scan_spec:
  "recall_scan cur act already m is =
    (filter (keeps act m) is, recall_count act already m is,
     \<exists>i \<in> set is. qi_message i = m \<and> \<not> (already \<and> keeps act m i) \<and> cur i)"
  by (induction "is") (auto simp: keeps_iff recall_count_def split: option.splits)

definition recall_hit :: "execution_queue \<Rightarrow> binding \<Rightarrow> string \<Rightarrow> active_drain option" where
  "recall_hit s b m =
     (case active_of s b of None \<Rightarrow> None | Some d \<Rightarrow> if qi_message (ad_item d) = m then Some d else None)"

lemma lane_keeps_hit: "keeps (map_option ad_item (recall_hit s b m)) m = lane_keeps m (lane_of s b)"
  by (rule ext) (auto simp: keeps_iff lane_keeps_iff recall_hit_def split: option.splits)

definition recall_number :: "execution_queue \<Rightarrow> binding \<Rightarrow> string \<Rightarrow> nat" where
  "recall_number s b m =
     recall_count (map_option ad_item (recall_hit s b m))
       (case recall_hit s b m of None \<Rightarrow> False | Some d \<Rightarrow> ad_cancel d = Recall) m (items_of s b)"

definition recall_root :: "execution_queue \<Rightarrow> binding \<Rightarrow> string \<Rightarrow> string list" where
  "recall_root s b m =
     (if filter (lane_keeps m (lane_of s b)) (items_of s b) = [] \<and> recall_number s b m \<noteq> 0 then [root_of s b] else [])"

lemma recall_binding_state:
  "fst (recall_binding s b is m out) =
    put_items (if recall_hit s b m \<noteq> None then set_cancel s b Recall else s) b
      (filter (lane_keeps m (lane_of s b)) is)"
  unfolding recall_binding_def Let_def recall_hit_def [symmetric]
  by (simp add: recall_scan_spec lane_keeps_hit)

lemma recall_binding_step:
  assumes inv: "queue_inv s" and ne: "items_of s b \<noteq> []"
  shows "lane_step (lane_recall m) b s (fst (recall_binding s b (items_of s b) m out))"
    and "queue_inv (fst (recall_binding s b (items_of s b) m out))"
proof -
  have t: "tables_ok s" by (rule queue_invD(1) [OF inv])
  let ?s1 = "if recall_hit s b m \<noteq> None then set_cancel s b Recall else s"
  let ?g = "\<lambda>l. l\<lparr>ln_drain := map_option (\<lambda>d. if qi_message (ad_item d) = m then d\<lparr>ad_cancel := Recall\<rparr> else d) (ln_drain l)\<rparr>"
  have st1: "lane_step ?g b s ?s1"
  proof (cases "recall_hit s b m")
    case None
    then have "?g (lane_of s b) = lane_of s b"
      by (cases "active_of s b") (auto simp: recall_hit_def lane_of_def split: if_splits)
    then show ?thesis using None t by (simp add: lane_step_def)
  next
    case (Some d)
    then have "active_of s b = Some d" "qi_message (ad_item d) = m"
      by (auto simp: recall_hit_def split: option.splits if_splits)
    then show ?thesis
      using Some set_cancel_tables [OF t, of b Recall]
      by (simp add: lane_step_def set_cancel_lane [OF t])
  qed
  let ?is = "filter (lane_keeps m (lane_of s b)) (items_of s b)"
  have "lane_step ((\<lambda>l. l\<lparr>ln_items := ?is\<rparr>) \<circ> ?g) b s (fst (recall_binding s b (items_of s b) m out))"
    unfolding recall_binding_state
    by (rule lane_step_trans [OF st1 put_items_step [OF lane_stepD(1) [OF st1]]])
  then show st: "lane_step (lane_recall m) b s (fst (recall_binding s b (items_of s b) m out))"
    by (rule lane_step_same) (simp add: lane_recall_def ne)
  show "queue_inv (fst (recall_binding s b (items_of s b) m out))"
  proof (rule lane_step_inv [OF inv st])
    show "lane_ok (q_next_item (fst (recall_binding s b (items_of s b) m out))) b (lane_recall m (lane_of s b))"
      by (rule lane_inv_ok [OF inv st lane_ok_recall refl])
  qed (simp add: ne lane_recall_def)
qed

lemma recall_binding_report:
  assumes inv: "queue_inv s" and ne: "items_of s b \<noteq> []"
  shows "snd (recall_binding s b (items_of s b) m out) =
    \<lparr>ro_removed = ro_removed out + recall_number s b m,
     ro_roots = ro_roots out @ filter (\<lambda>r. r \<notin> set (ro_roots out)) (recall_root s b m)\<rparr>"
proof -
  let ?act = "map_option ad_item (recall_hit s b m)" and ?al = "case recall_hit s b m of None \<Rightarrow> False | Some d \<Rightarrow> ad_cancel d = Recall"
  have cur: "\<not> stale_item s b i" if "i \<in> set (items_of s b)" for i by (rule inv_item_current [OF inv that])
  have "hd (items_of s b) \<in> set (items_of s b)" using ne by simp
  from inv_item [OF inv this] have "map_of (q_root s) b \<noteq> None" by (simp add: item_ok_def)
  then have r: "root_of s b \<noteq> []" using root_of_Some [OF inv, of b] by auto
  have some: "(\<exists>i \<in> set (items_of s b). qi_message i = m \<and> \<not> (?al \<and> keeps ?act m i) \<and> \<not> stale_item s b i)
      = (recall_number s b m \<noteq> 0)"
    using cur by (auto simp: recall_number_def recall_count_def filter_empty_conv)
  show ?thesis
    unfolding recall_binding_def Let_def recall_hit_def [symmetric] recall_scan_spec
    unfolding prod.case some
    using r by (simp add: recall_root_def recall_number_def [symmetric] lane_keeps_hit)
qed

lemma lane_of_eqD: "lane_of s' b = lane_of s b \<Longrightarrow>
    items_of s' b = items_of s b \<and> active_of s' b = active_of s b \<and> map_of (q_epoch s') b = map_of (q_epoch s) b
    \<and> map_of (q_root s') b = map_of (q_root s) b"
  by (simp add: lane_of_def)

lemma recall_number_frame: "lane_of s' b = lane_of s b \<Longrightarrow> recall_number s' b m = recall_number s b m"
  using lane_of_eqD [of s' b s] by (simp add: recall_number_def recall_hit_def)

definition chat_matches :: "string \<Rightarrow> binding \<Rightarrow> bool" where
  "chat_matches chat b = (chat = [] \<or> snd b = chat)"

lemma recall_loop_spec:
  assumes "queue_inv s" and "distinct (map fst ps)" and "\<forall>p \<in> set ps. items_of s (fst p) = snd p \<and> snd p \<noteq> []"
    and "recall_loop s ps chat m out = (s', out')"
  shows "queue_inv s' \<and> q_next_item s \<le> q_next_item s' \<and> q_next_receipt s \<le> q_next_receipt s' \<and> q_issuer s' = q_issuer s
    \<and> (\<forall>c. lane_of s' c = (if c \<in> fst ` set ps \<and> chat_matches chat c then lane_recall m (lane_of s c) else lane_of s c))
    \<and> ro_removed out' = ro_removed out + (\<Sum>p\<leftarrow>ps. if chat_matches chat (fst p) then recall_number s (fst p) m else 0)"
  using assms
proof (induction ps arbitrary: s out)
  case Nil
  then show ?case by simp
next
  case (Cons p ps)
  obtain b q where p: "p = (b, q)" by (cases p)
  have d: "distinct (map fst ps)" and b: "b \<notin> fst ` set ps" using Cons.prems(2) p by auto
  have q: "items_of s b = q" "q \<noteq> []" using Cons.prems(3) p by auto
  show ?case
  proof (cases "chat_matches chat b")
    case False
    then have "recall_loop s ps chat m out = (s', out')" using Cons.prems(4) p by (simp add: chat_matches_def)
    from Cons.IH [OF Cons.prems(1) d _ this] Cons.prems(3) show ?thesis using False p by auto
  next
    case True
    let ?r = "recall_binding s b q m out"
    have st: "lane_step (lane_recall m) b s (fst ?r)" and inv1: "queue_inv (fst ?r)"
      using recall_binding_step [OF Cons.prems(1), of b m out] q by simp_all
    have run: "recall_loop (fst ?r) ps chat m (snd ?r) = (s', out')"
      using Cons.prems(4) True p by (simp add: chat_matches_def case_prod_beta split: if_splits)
    have ne: "fst e \<noteq> b" if "e \<in> set ps" for e using that b by (metis imageI)
    have old: "lane_of (fst ?r) (fst e) = lane_of s (fst e)" if "e \<in> set ps" for e
      by (rule lane_stepD(3) [OF st ne [OF that]])
    have "\<forall>e \<in> set ps. items_of (fst ?r) (fst e) = snd e \<and> snd e \<noteq> []"
      using old lane_of_eqD Cons.prems(3) by (metis list.set_intros(2))
    note IH = Cons.IH [OF inv1 d this run]
    have num: "(\<Sum>e\<leftarrow>ps. if chat_matches chat (fst e) then recall_number (fst ?r) (fst e) m else 0)
        = (\<Sum>e\<leftarrow>ps. if chat_matches chat (fst e) then recall_number s (fst e) m else 0)"
      by (rule arg_cong [of _ _ sum_list], rule map_cong [OF refl]) (simp add: recall_number_frame [OF old])
    have rep: "ro_removed (snd ?r) = ro_removed out + recall_number s b m"
      using recall_binding_report [OF Cons.prems(1), of b m out] q by simp
    have "lane_of s' c = (if c \<in> fst ` set (p # ps) \<and> chat_matches chat c then lane_recall m (lane_of s c) else lane_of s c)" for c
    proof (cases "c = b")
      case c: True
      have "lane_of s' b = lane_of (fst ?r) b" using IH b by auto
      then show ?thesis using True p c lane_stepD(2) [OF st] by simp
    next
      case False
      then have "lane_of (fst ?r) c = lane_of s c" by (rule lane_stepD(3) [OF st])
      then show ?thesis using IH False p by simp
    qed
    then show ?thesis
      using IH rep True p lane_stepD(4-6) [OF st] unfolding num by auto
  qed
qed

lemma remove_recalled_spec:
  assumes inv: "queue_inv s" and loop: "on_loop E" and m: "strip msg \<noteq> []"
  shows "\<exists>s' out. remove_recalled_message E s chat msg = (s', Inr out) \<and> queue_inv s'
    \<and> q_next_item s \<le> q_next_item s' \<and> q_next_receipt s \<le> q_next_receipt s' \<and> q_issuer s' = q_issuer s
    \<and> (\<forall>c. lane_of s' c = (if chat_matches (strip chat) c then lane_recall (strip msg) (lane_of s c) else lane_of s c))
    \<and> ro_removed out = (\<Sum>p\<leftarrow>q_items s. if chat_matches (strip chat) (fst p) then recall_number s (fst p) (strip msg) else 0)"
proof -
  have t: "tables_ok s" by (rule queue_invD(1) [OF inv])
  have d: "distinct (map fst (q_items s))" using tables_wf(3) [OF t] by (simp add: dict_wf_def)
  have "items_of s (fst p) = snd p \<and> snd p \<noteq> []" if "p \<in> set (q_items s)" for p
  proof -
    have "map_of (q_items s) (fst p) = Some (snd p)" using d that by simp
    then show ?thesis using tables_wf(6) [OF t, of "fst p"] by (auto simp: items_of_def)
  qed
  then have pre: "\<forall>p \<in> set (q_items s). items_of s (fst p) = snd p \<and> snd p \<noteq> []" by blast
  obtain s' out where run: "recall_loop s (q_items s) (strip chat) (strip msg) \<lparr>ro_removed = 0, ro_roots = []\<rparr> = (s', out)"
    by fastforce
  note sp = recall_loop_spec [OF inv d pre run]
  have "lane_of s' c = (if chat_matches (strip chat) c then lane_recall (strip msg) (lane_of s c) else lane_of s c)" for c
  proof (cases "c \<in> fst ` set (q_items s)")
    case False
    then have "map_of (q_items s) c = None" by (simp add: map_of_eq_None_iff)
    then have "lane_recall (strip msg) (lane_of s c) = lane_of s c" by (simp add: items_of_def lane_recall_def)
    then show ?thesis using sp False by simp
  qed (use sp in simp)
  then show ?thesis
    using sp loop m run by (simp add: remove_recalled_message_def)
qed

section \<open>Invalidating everything\<close>

lemma invalidate_loop_spec:
  assumes "queue_inv s" and "distinct bs" and "invalidate_loop s bs n = (s', n')"
  shows "queue_inv s' \<and> q_next_item s \<le> q_next_item s' \<and> q_next_receipt s \<le> q_next_receipt s' \<and> q_issuer s' = q_issuer s
    \<and> (\<forall>c. lane_of s' c = (if c \<in> set bs then lane_invalidate [] (lane_of s c) else lane_of s c))
    \<and> n' = n + (\<Sum>b\<leftarrow>bs. length (items_of s b))"
  using assms
proof (induction bs arbitrary: s n)
  case (Cons b bs)
  let ?s1 = "fst (invalidate_private s b [])"
  have st: "lane_step (lane_invalidate []) b s ?s1"
    using invalidate_step [OF queue_invD(1) [OF Cons.prems(1)], of "[]" b] by simp
  have inv1: "queue_inv ?s1" by (rule invalidate_inv [OF Cons.prems(1) st])
  have run: "invalidate_loop ?s1 bs (n + length (items_of s b)) = (s', n')"
    using Cons.prems(3) invalidate_report [of s b "[]"] by (simp add: case_prod_beta)
  note IH = Cons.IH [OF inv1 _ run]
  have old: "lane_of ?s1 c = lane_of s c" if "c \<noteq> b" for c by (rule lane_stepD(3) [OF st that])
  have "(\<Sum>c\<leftarrow>bs. length (items_of ?s1 c)) = (\<Sum>c\<leftarrow>bs. length (items_of s c))"
    using Cons.prems(2) old lane_of_eqD
    by (intro arg_cong [of _ _ sum_list] map_cong refl) (metis distinct.simps(2))
  moreover have "lane_of s' c = (if c \<in> set (b # bs) then lane_invalidate [] (lane_of s c) else lane_of s c)" for c
    using IH old [of c] lane_stepD(2) [OF st] Cons.prems(2) by (cases "c = b") auto
  ultimately show ?case
    using IH Cons.prems(2) lane_stepD(4-6) [OF st] by auto
qed simp

lemma unowned_lane: "tables_ok s \<Longrightarrow> c \<notin> set (owned_keys s) \<Longrightarrow>
    lane_of s c = \<lparr>ln_epoch = None, ln_root = None, ln_items = [], ln_drain = None\<rparr>"
  by (simp add: owned_keys_def dkeys_iff lane_of_def items_of_def active_of_def)

lemma invalidate_all_spec:
  assumes inv: "queue_inv s" and loop: "on_loop E"
  shows "\<exists>s'. invalidate_all E s = (s', Inr (\<Sum>b\<leftarrow>sort_key (set_rank E) (owned_keys s). length (items_of s b))) \<and> queue_inv s'
    \<and> q_next_item s \<le> q_next_item s' \<and> q_next_receipt s \<le> q_next_receipt s' \<and> q_issuer s' = q_issuer s
    \<and> (\<forall>c. lane_of s' c = (if c \<in> set (owned_keys s) then lane_invalidate [] (lane_of s c) else lane_of s c))"
proof -
  obtain s' n where run: "invalidate_loop s (sort_key (set_rank E) (owned_keys s)) 0 = (s', n)" by fastforce
  have "distinct (sort_key (set_rank E) (owned_keys s))" by (simp add: owned_keys_def)
  from invalidate_loop_spec [OF inv this run] show ?thesis
    using loop run by (simp add: invalidate_all_def)
qed

end
