(* ===== verification/Execution_Queue_Properties.thy ===== *)
theory Execution_Queue_Properties
  imports Execution_Queue_Lanes
begin

text \<open>
  The queue controller as a step system over every call with every environment, its
  refinement to independent lanes, and what follows for receipts, generations and order.
\<close>

section \<open>Steps\<close>

datatype queue_op =
    EnqueuePrompt execution_snapshot enqueue_request string
  | EnqueueCompact execution_snapshot enqueue_request
  | BeginDrain binding "execution_snapshot option" nat
  | CompleteDrain "drain_receipt option" string
  | InvalidateBinding binding
  | InvalidateAll
  | RecallMessage string string
  | AskContinuity "execution_snapshot option" string
  | AskOther binding string

fun queue_step :: "execution_queue \<Rightarrow> queue_env \<times> queue_op \<Rightarrow> execution_queue" where
  "queue_step s (E, EnqueuePrompt x req lt) = fst (enqueue_prompt E s x req lt)"
| "queue_step s (E, EnqueueCompact x req) = fst (enqueue_compact E s x req)"
| "queue_step s (E, BeginDrain v snap addr) = fst (begin_terminal_drain E s v snap addr)"
| "queue_step s (E, CompleteDrain rc out) = fst (complete_drain E s rc out)"
| "queue_step s (E, InvalidateBinding v) = fst (invalidate_binding E s v)"
| "queue_step s (E, InvalidateAll) = fst (invalidate_all E s)"
| "queue_step s (E, RecallMessage chat msg) = fst (remove_recalled_message E s chat msg)"
| "queue_step s (E, AskContinuity snap r) = fst (continuity_pending E s snap r)"
| "queue_step s (E, AskOther v r) = fst (has_other_binding_continuity E s v r)"

text \<open>
  What one call may do to one lane: \<open>N\<close> is the largest item nonce and \<open>K\<close> the largest
  receipt number given out before.
\<close>

inductive lane_rel :: "nat \<Rightarrow> nat \<Rightarrow> lane \<Rightarrow> lane \<Rightarrow> bool" for N K where
  Same: "lane_rel N K l l"
| Invalidate: "lane_rel N K l (lane_invalidate r l)"
| Sync: "lane_rel N K l (lane_sync r l)"
| Push: "N < qi_nonce i \<Longrightarrow> lane_rel N K l (lane_push r i l)"
| Begin: "K < rc_token rc \<Longrightarrow> lane_rel N K l (fst (lane_begin snap rc l))"
| Settle: "lane_rel N K l (lane_settle l)"
| Recall: "lane_rel N K l (lane_recall m l)"

inductive_cases lane_relE: "lane_rel N K l l'"

definition queue_advance :: "execution_queue \<Rightarrow> execution_queue \<Rightarrow> bool" where
  "queue_advance s s' =
     (queue_inv s' \<and> q_next_item s \<le> q_next_item s' \<and> q_next_receipt s \<le> q_next_receipt s' \<and> q_issuer s' = q_issuer s
      \<and> (\<forall>c. lane_rel (q_next_item s) (q_next_receipt s) (lane_of s c) (lane_of s' c)))"

lemma advance_refl: "queue_inv s \<Longrightarrow> queue_advance s s"
  by (simp add: queue_advance_def Same)

lemma advance_lane:
  assumes "queue_inv s'" and "lane_step f b s s'"
    and "lane_rel (q_next_item s) (q_next_receipt s) (lane_of s b) (f (lane_of s b))"
  shows "queue_advance s s'"
proof -
  have "lane_rel (q_next_item s) (q_next_receipt s) (lane_of s c) (lane_of s' c)" for c
    using lane_stepD(2,3) [OF assms(2)] assms(3) Same by (cases "c = b") auto
  then show ?thesis using assms(1) lane_stepD(4-6) [OF assms(2)] by (simp add: queue_advance_def)
qed

lemma sync_advance:
  assumes "queue_inv s" and "r \<noteq> []" and "strip r = r"
  shows "queue_advance s (fst (synchronize_root s b r))"
proof -
  have st: "lane_step (lane_sync r) b s (fst (synchronize_root s b r))"
    using synchronize_step [OF assms] by blast
  show ?thesis by (rule advance_lane [OF sync_inv [OF assms(1) st assms(2)] st]) (rule Sync)
qed

lemma enqueue_prompt_advance:
  assumes inv: "queue_inv s"
  shows "queue_advance s (fst (enqueue_prompt E s x req lt))"
proof (cases "on_loop E")
  case loop: True
  show ?thesis
  proof (cases "as_binding (xs_binding x)")
    case (Inl ex)
    then show ?thesis using loop inv by (simp add: enqueue_prompt_def admit_enqueue_snapshot_def advance_refl)
  next
    case (Inr b)
    show ?thesis
    proof (cases "may_enqueue s x b (er_sender req) lt")
      case (Inl ex)
      then show ?thesis
        using loop inv by (simp add: enqueue_prompt_def admit_spec [OF inv loop Inr] advance_refl)
    next
      case m: (Inr u)
      show ?thesis
      proof (cases "prompt_display (er_display req) \<in> set display_modes")
        case True
        obtain s' item where e: "fst (enqueue_prompt E s x req lt) = s'" "queue_inv s'"
            "lane_step (lane_push (strip (xs_root x)) item) b s s'" "q_next_item s < qi_nonce item"
          using enqueue_prompt_spec [OF inv loop Inr, of req lt] m True by fastforce
        show ?thesis unfolding e(1) by (rule advance_lane [OF e(2,3)]) (rule Push [OF e(4)])
      next
        case False
        obtain s1 where "admit_enqueue_snapshot E s x (er_sender req) lt
            = (s1, Inr (b, strip (xs_root x), lane_epoch (lane_sync (strip (xs_root x)) (lane_of s b))))"
          and s1: "s1 = fst (synchronize_root s b (strip (xs_root x)))"
          using admitted_spec [OF inv loop Inr, of "er_sender req" lt] m by fastforce
        then have "fst (enqueue_prompt E s x req lt) = s1"
          using loop False by (simp add: enqueue_prompt_def prompt_display_def Let_def)
        then show ?thesis
          using sync_advance [OF inv may_enqueue_alone(2) [OF m] strip_idem, of b] s1 by simp
      qed
    qed
  qed
qed (simp add: enqueue_prompt_def inv advance_refl)

lemma enqueue_compact_advance:
  assumes inv: "queue_inv s"
  shows "queue_advance s (fst (enqueue_compact E s x req))"
proof (cases "on_loop E")
  case loop: True
  show ?thesis
  proof (cases "as_binding (xs_binding x)")
    case (Inl ex)
    then show ?thesis using loop inv by (simp add: enqueue_compact_def admit_enqueue_snapshot_def advance_refl)
  next
    case (Inr b)
    show ?thesis
    proof (cases "may_enqueue s x b (er_sender req) []")
      case (Inl ex)
      then show ?thesis
        using loop inv by (simp add: enqueue_compact_def admit_spec [OF inv loop Inr] advance_refl)
    next
      case m: (Inr u)
      obtain s' item where e: "fst (enqueue_compact E s x req) = s'" "queue_inv s'"
          "lane_step (lane_push (strip (xs_root x)) item) b s s'" "q_next_item s < qi_nonce item"
        using enqueue_compact_spec [OF inv loop Inr, of req] m by fastforce
      show ?thesis unfolding e(1) by (rule advance_lane [OF e(2,3)]) (rule Push [OF e(4)])
    qed
  qed
qed (simp add: enqueue_compact_def inv advance_refl)

lemma begin_error:
  "as_binding v = Inl ex \<Longrightarrow> begin_drain s v snap addr = (s, Inl ex)"
  "as_binding v = Inr b \<Longrightarrow> snap = Some x \<Longrightarrow> as_binding (xs_binding x) \<noteq> Inr b
    \<Longrightarrow> \<exists>ex. begin_drain s v snap addr = (s, Inl ex)"
  by (auto simp: begin_drain_def split: sum.split)

lemma begin_advance:
  assumes inv: "queue_inv s"
  shows "queue_advance s (fst (begin_drain s v snap addr))"
proof (cases "as_binding v")
  case (Inl ex)
  then show ?thesis by (simp add: begin_error(1) inv advance_refl)
next
  case (Inr b)
  show ?thesis
  proof (cases "\<exists>x. snap = Some x \<and> as_binding (xs_binding x) \<noteq> Inr b")
    case True
    then obtain ex where "begin_drain s v snap addr = (s, Inl ex)" using begin_error(2) [OF Inr] by blast
    then show ?thesis by (simp add: inv advance_refl)
  next
    case False
    let ?rc = "\<lparr>rc_addr = addr, rc_issuer = q_issuer s, rc_token = q_next_receipt s + 1\<rparr>"
    obtain s' where s': "fst (begin_drain s v snap addr) = s'" "queue_inv s'"
        "lane_step (\<lambda>l. fst (lane_begin snap ?rc l)) b s s'"
      using begin_drain_spec [OF inv Inr, of snap ?rc addr] False by fastforce
    show ?thesis unfolding s'(1) by (rule advance_lane [OF s'(2,3)]) (rule Begin, simp)
  qed
qed

lemma complete_advance:
  assumes inv: "queue_inv s"
  shows "queue_advance s (fst (complete_drain E s receipt out))"
proof (cases "on_loop E \<and> out \<in> set drain_outcomes")
  case ok: True
  show ?thesis
  proof (cases "require_receipt s receipt")
    case (Inl ex)
    then obtain ex' where "complete_drain E s receipt out = (s, Inl ex')" using complete_drain_error by blast
    then show ?thesis by (simp add: inv advance_refl)
  next
    case (Inr d)
    obtain s' where s': "fst (complete_drain E s receipt out) = s'" "queue_inv s'"
        "lane_step lane_settle (qi_binding (ad_item d)) s s'"
      using complete_drain_spec [OF inv Inr, of E out] ok by fastforce
    show ?thesis unfolding s'(1) by (rule advance_lane [OF s'(2,3)]) (rule Settle)
  qed
qed (auto simp: complete_drain_def inv advance_refl)

lemma invalidate_advance:
  assumes inv: "queue_inv s"
  shows "queue_advance s (fst (invalidate_private s b r))"
proof -
  have st: "lane_step (lane_invalidate (strip r)) b s (fst (invalidate_private s b r))"
    by (rule invalidate_step [OF queue_invD(1) [OF inv]])
  show ?thesis by (rule advance_lane [OF invalidate_inv [OF inv st] st]) (rule Invalidate)
qed

lemma other_advance:
  assumes inv: "queue_inv s"
  shows "fst (has_other_binding_continuity E s v r) = s"
  by (cases "strip r = []") (auto simp: has_other_binding_continuity_def other_continuity_loop_inv [OF inv]
      other_continuity_private_def split: sum.split)

lemma invalidate_all_advance:
  assumes inv: "queue_inv s"
  shows "queue_advance s (fst (invalidate_all E s))"
proof (cases "on_loop E")
  case loop: True
  obtain s' where s': "fst (invalidate_all E s) = s'" "queue_inv s'" "q_next_item s \<le> q_next_item s'"
      "q_next_receipt s \<le> q_next_receipt s'" "q_issuer s' = q_issuer s"
      "\<forall>c. lane_of s' c = (if c \<in> set (owned_keys s) then lane_invalidate [] (lane_of s c) else lane_of s c)"
    using invalidate_all_spec [OF inv loop] by fastforce
  then show ?thesis by (simp add: queue_advance_def Same Invalidate)
qed (simp add: invalidate_all_def inv advance_refl)

lemma recall_advance:
  assumes inv: "queue_inv s"
  shows "queue_advance s (fst (remove_recalled_message E s chat msg))"
proof (cases "on_loop E \<and> strip msg \<noteq> []")
  case True
  obtain s' where s': "fst (remove_recalled_message E s chat msg) = s'" "queue_inv s'" "q_next_item s \<le> q_next_item s'"
      "q_next_receipt s \<le> q_next_receipt s'" "q_issuer s' = q_issuer s"
      "\<forall>c. lane_of s' c = (if chat_matches (strip chat) c then lane_recall (strip msg) (lane_of s c) else lane_of s c)"
    using remove_recalled_spec [OF inv, of E msg chat] True by fastforce
  then show ?thesis by (simp add: queue_advance_def Same Recall)
qed (auto simp: remove_recalled_message_def inv advance_refl)

lemma queue_step_advance:
  assumes inv: "queue_inv s"
  shows "queue_advance s (queue_step s x)"
proof -
  obtain E p where x: "x = (E, p)" by (cases x)
  show ?thesis
  proof (cases p)
    case (InvalidateBinding v)
    then show ?thesis
      using inv x by (simp add: invalidate_binding_def advance_refl invalidate_advance split: sum.split)
  qed (use inv x in \<open>simp_all add: enqueue_prompt_advance enqueue_compact_advance begin_terminal_drain_def
      begin_advance advance_refl complete_advance invalidate_all_advance recall_advance continuity_pending_inv other_advance\<close>)
qed

lemma new_queue_inv: "queue_inv (new_execution_queue issuer)"
  by (simp add: queue_inv_def tables_ok_def lane_ok_def exclusive_roots_def new_execution_queue_def
      lane_of_def items_of_def active_of_def)

section \<open>The controller as a step system\<close>

lemma lane_rel_epoch:
  assumes "lane_rel N K l l'"
  shows "lane_epoch l \<le> lane_epoch l' \<or> ln_epoch l = None"
  using assms
  by (cases rule: lane_relE)
    (auto simp: lane_epoch_def lane_invalidate_def lane_sync_def lane_open_def lane_push_def lane_begin_def
      lane_claim_def lane_settle_def lane_recall_def Let_def split: option.splits if_splits)

lemma lane_epoch_pos: "lane_ok N b l \<Longrightarrow> 0 \<le> lane_epoch l"
  by (auto simp: lane_ok_def lane_epoch_def split: option.splits)

interpretation queue: epoch_system queue_step "new_execution_queue issuer" queue_inv "\<lambda>s. epoch_of s b"
  for issuer b
proof unfold_locales
  show "queue_inv (new_execution_queue issuer)" by (rule new_queue_inv)
next
  fix s :: execution_queue and x
  assume inv: "queue_inv s"
  then have adv: "queue_advance s (queue_step s x)" by (rule queue_step_advance)
  then show inv': "queue_inv (queue_step s x)" by (simp add: queue_advance_def)
  have "lane_rel (q_next_item s) (q_next_receipt s) (lane_of s b) (lane_of (queue_step s x) b)"
    using adv by (simp add: queue_advance_def)
  from lane_rel_epoch [OF this] lane_epoch_pos [OF queue_invD(2) [OF inv', of b]]
  show "epoch_of s b \<le> epoch_of (queue_step s x) b"
    unfolding epoch_of_lane by (auto simp: lane_epoch_def)
qed

section \<open>Promises about one lane\<close>

text \<open>
  A promise is a property of one lane that every call keeps, once the counters have passed
  the values the promise was made at. The client part lifts it to every later state.
\<close>

locale lane_promise =
  fixes holds :: "lane \<Rightarrow> bool" and b :: binding and N0 K0 :: nat
  assumes kept: "\<lbrakk>lane_ok N b l; N0 \<le> N; K0 \<le> K; holds l; lane_rel N K l l'\<rbrakk> \<Longrightarrow> holds l'"
begin

lemma step_keeps:
  assumes "queue_inv s" and "N0 \<le> q_next_item s" and "K0 \<le> q_next_receipt s" and "holds (lane_of s b)"
  shows "holds (lane_of (queue_step s x) b)"
proof -
  have "lane_rel (q_next_item s) (q_next_receipt s) (lane_of s b) (lane_of (queue_step s x) b)"
    using queue_step_advance [OF assms(1), of x] by (simp add: queue_advance_def)
  then show ?thesis by (rule kept [OF queue_invD(2) [OF assms(1)] assms(2-4)])
qed

lemma run_keeps:
  assumes "queue_inv s" and "N0 \<le> q_next_item s" and "K0 \<le> q_next_receipt s" and "holds (lane_of s b)"
  shows "holds (lane_of (run_ops queue_step s xs) b)"
  using assms
proof (induction xs arbitrary: s)
  case (Cons x xs)
  have adv: "queue_advance s (queue_step s x)" by (rule queue_step_advance [OF Cons.prems(1)])
  show ?case
    using Cons.IH [of "queue_step s x"] adv Cons.prems step_keeps [OF Cons.prems, of x]
    by (simp add: queue_advance_def)
qed simp

end

text \<open>The drain of a lane after a call: the one before, perhaps cancelled, or a new one.\<close>

definition drain_kept :: "lane \<Rightarrow> lane \<Rightarrow> bool" where
  "drain_kept l l' =
     (\<forall>d'. ln_drain l' = Some d' \<longrightarrow>
        (\<exists>d. ln_drain l = Some d \<and> ad_receipt d = ad_receipt d' \<and> ad_item d = ad_item d'
            \<and> (ad_cancel d \<noteq> NotCancelled \<longrightarrow> ad_cancel d' \<noteq> NotCancelled)))"

lemma drain_kept_same: "ln_drain l' = ln_drain l \<Longrightarrow> drain_kept l l'"
  by (simp add: drain_kept_def)

lemma drain_kept_ops:
  "drain_kept l (lane_invalidate r l)" "drain_kept l (lane_open r l)" "drain_kept l (lane_sync r l)"
  "drain_kept l (lane_push r i l)" "drain_kept l (lane_settle l)" "drain_kept l (lane_recall m l)"
proof -
  show i: "drain_kept l (lane_invalidate r l)" by (auto simp: drain_kept_def lane_invalidate_def)
  show o: "drain_kept l (lane_open r l)" by (rule drain_kept_same) (simp add: lane_open_def)
  show s: "drain_kept l (lane_sync r l)" using i o by (simp add: lane_sync_def drain_kept_same)
  show "drain_kept l (lane_push r i l)" using s by (simp add: drain_kept_def lane_push_def Let_def)
  show "drain_kept l (lane_settle l)" by (simp add: drain_kept_def lane_settle_def split: option.split)
  show "drain_kept l (lane_recall m l)" by (auto simp: drain_kept_def lane_recall_def)
qed

lemma lane_rel_drain:
  assumes "lane_rel N K l l'" and "ln_drain l' = Some d'"
  shows "(\<exists>d. ln_drain l = Some d \<and> ad_receipt d = ad_receipt d' \<and> ad_item d = ad_item d'
            \<and> (ad_cancel d \<noteq> NotCancelled \<longrightarrow> ad_cancel d' \<noteq> NotCancelled))
    \<or> (K < rc_token (ad_receipt d') \<and> ln_drain l = None \<and> ln_items l \<noteq> [] \<and> ad_item d' = hd (ln_items l)
       \<and> ln_items l' = ln_items l)"
proof -
  have "drain_kept l l' \<or> (\<exists>rc snap. K < rc_token rc \<and> l' = fst (lane_begin snap rc l))"
    by (rule lane_relE [OF assms(1)]) (auto simp: drain_kept_ops drain_kept_same)
  moreover have "drain_kept l l' \<or> (\<exists>r. l' = lane_claim rc (lane_open r l) \<and> ln_drain l = None \<and> ln_items l \<noteq> [])"
    if "l' = fst (lane_begin snap rc l)" for rc snap
    using that drain_kept_ops by (auto simp: lane_begin_def Let_def split: option.splits)
  ultimately consider "drain_kept l l'"
    | rc r where "K < rc_token rc" "l' = lane_claim rc (lane_open r l)" "ln_drain l = None" "ln_items l \<noteq> []"
    by blast
  then show ?thesis
  proof cases
    case 1
    then show ?thesis using assms(2) unfolding drain_kept_def by blast
  next
    case 2
    then show ?thesis using assms(2) by (auto simp: lane_claim_def lane_open_def)
  qed
qed

text \<open>No item with nonce \<open>n\<close> or less is waiting, except as the head a live drain holds.\<close>

definition lane_past :: "nat \<Rightarrow> lane \<Rightarrow> bool" where
  "lane_past n l =
     (\<forall>i \<in> set (ln_items l). n \<le> qi_nonce i \<and> (qi_nonce i = n \<longrightarrow> (\<exists>d. ln_drain l = Some d \<and> ad_item d = i)))"

lemma lane_past_items:
  "lane_past n l \<Longrightarrow> ln_items l' = ln_items l \<or> ln_items l' = [] \<Longrightarrow>
    map_option ad_item (ln_drain l') = map_option ad_item (ln_drain l) \<Longrightarrow> lane_past n l'"
  by (fastforce simp: lane_past_def)

lemma lane_past_fresh: "lane_past n l \<Longrightarrow> ln_drain l = None \<Longrightarrow> i \<in> set (ln_items l) \<Longrightarrow> n < qi_nonce i"
  by (fastforce simp: lane_past_def)

lemma lane_past_invalidate: "lane_past n l \<Longrightarrow> lane_past n (lane_invalidate r l)"
  by (simp add: lane_past_def lane_invalidate_def)

lemma lane_past_open: "lane_past n l \<Longrightarrow> lane_past n (lane_open r l)"
  by (simp add: lane_past_def lane_open_def)

lemma lane_past_sync: "lane_past n l \<Longrightarrow> lane_past n (lane_sync r l)"
  by (simp add: lane_sync_def lane_past_invalidate lane_past_open)

lemma lane_past_push: "lane_past n l \<Longrightarrow> n < qi_nonce i \<Longrightarrow> lane_past n (lane_push r i l)"
  using lane_past_sync [of n l r] by (auto simp: lane_past_def lane_push_def Let_def)

lemma lane_past_begin:
  assumes "lane_past n l"
  shows "lane_past n (fst (lane_begin snap rc l))"
proof -
  have "lane_past n (lane_claim rc (lane_open r l))" if "ln_drain l = None" for r
    using lane_past_fresh [OF assms that] by (fastforce simp: lane_past_def lane_claim_def lane_open_def)
  then show ?thesis
    using lane_past_invalidate [OF assms] lane_past_open [OF assms]
    by (auto simp: lane_begin_def Let_def split: option.splits)
qed

lemma lane_past_settle:
  assumes ok: "lane_ok N b l" and p: "lane_past n l"
  shows "lane_past n (lane_settle l)"
proof (cases "ln_drain l")
  case None
  then show ?thesis using p by (simp add: lane_settle_def)
next
  case (Some d)
  have dok: "drain_ok l d" using ok Some by (simp add: lane_ok_def)
  have "n < qi_nonce i" if i: "i \<in> set (ln_items (lane_settle l))" for i
  proof (cases "ln_epoch l = Some (qi_epoch (ad_item d))")
    case True
    then obtain rest where it: "ln_items l = ad_item d # rest"
      using dok unfolding drain_ok_def by (metis list.collapse option.inject)
    then have "i \<in> set rest" using i Some True by (simp add: lane_settle_def)
    then have "qi_nonce (ad_item d) < qi_nonce i" using ok it by (simp add: lane_ok_def)
    moreover have "n \<le> qi_nonce (ad_item d)" using p it by (simp add: lane_past_def)
    ultimately show ?thesis by simp
  next
    case False
    then have m: "i \<in> set (ln_items l)" using i Some by (simp add: lane_settle_def)
    then have "ln_epoch l = Some (qi_epoch i)" using ok by (simp add: lane_ok_def item_ok_def)
    then have "ad_item d \<noteq> i" using False by auto
    then show ?thesis using p m Some unfolding lane_past_def by (metis le_neq_implies_less option.inject)
  qed
  then show ?thesis by (fastforce simp: lane_past_def)
qed

lemma lane_past_recall: "lane_past n l \<Longrightarrow> lane_past n (lane_recall m l)"
proof -
  assume p: "lane_past n l"
  have "ln_drain (lane_recall m l) = Some (if qi_message (ad_item d) = m \<and> ln_items l \<noteq> [] then d\<lparr>ad_cancel := Recall\<rparr> else d)"
    if "ln_drain l = Some d" for d using that by (simp add: lane_recall_def)
  moreover have "set (ln_items (lane_recall m l)) \<subseteq> set (ln_items l)" by (simp add: lane_recall_def)
  ultimately show ?thesis using p by (fastforce simp: lane_past_def)
qed

interpretation past: lane_promise "lane_past n" b n 0 for n b
proof
  fix N l K l'
  assume ok: "lane_ok N b l" and n: "n \<le> N" and p: "lane_past n l" and rel: "lane_rel N K l l'"
  show "lane_past n l'"
    by (rule lane_relE [OF rel])
      (simp_all add: p lane_past_invalidate lane_past_sync lane_past_push [OF p le_less_trans [OF n]] lane_past_begin
        lane_past_settle [OF ok] lane_past_recall)
qed

text \<open>No drain of the lane holds a receipt with number \<open>t\<close>.\<close>

definition token_gone :: "nat \<Rightarrow> lane \<Rightarrow> bool" where
  "token_gone t l = (\<forall>d. ln_drain l = Some d \<longrightarrow> rc_token (ad_receipt d) \<noteq> t)"

interpretation gone: lane_promise "token_gone t" b 0 t for t b
proof
  fix N l K l'
  assume t: "t \<le> K" and g: "token_gone t l" and rel: "lane_rel N K l l'"
  show "token_gone t l'"
    unfolding token_gone_def
  proof (intro allI impI)
    fix d' assume "ln_drain l' = Some d'"
    from lane_rel_drain [OF rel this] show "rc_token (ad_receipt d') \<noteq> t"
      using g t by (auto simp: token_gone_def)
  qed
qed

text \<open>The receipt with number \<open>t\<close> is gone, or its drain is cancelled.\<close>

definition token_dead :: "nat \<Rightarrow> lane \<Rightarrow> bool" where
  "token_dead t l = (\<forall>d. ln_drain l = Some d \<longrightarrow> rc_token (ad_receipt d) = t \<longrightarrow> ad_cancel d \<noteq> NotCancelled)"

interpretation dead: lane_promise "token_dead t" b 0 t for t b
proof
  fix N l K l'
  assume t: "t \<le> K" and g: "token_dead t l" and rel: "lane_rel N K l l'"
  show "token_dead t l'"
    unfolding token_dead_def
  proof (intro allI impI)
    fix d' assume "ln_drain l' = Some d'" "rc_token (ad_receipt d') = t"
    with lane_rel_drain [OF rel this(1)] show "ad_cancel d' \<noteq> NotCancelled"
      using g t by (fastforce simp: token_dead_def)
  qed
qed

section \<open>Properties\<close>

definition demo_env :: queue_env where
  "demo_env = \<lparr>on_loop = True, set_rank = (\<lambda>_. 0)\<rparr>"

definition demo_snapshot :: "bool \<Rightarrow> execution_snapshot" where
  "demo_snapshot inflight =
     \<lparr>xs_binding = (''o'', ''c''), xs_root = ''r'', xs_active = True, xs_attached = True,
      xs_inflight = inflight, xs_turn = ''''\<rparr>"

definition demo_request :: "string \<Rightarrow> enqueue_request" where
  "demo_request m =
     \<lparr>er_sender = ''o'', er_chat = ''c'', er_message = m, er_actor = '''', er_origin = None, er_text = ''go'',
      er_inputs = [], er_source = '''', er_display = '''', er_surface = True\<rparr>"

definition demo_ops :: "(queue_env \<times> queue_op) list" where
  "demo_ops =
     [(demo_env, EnqueuePrompt (demo_snapshot True) (demo_request ''m'') ''''),
      (demo_env, EnqueuePrompt (demo_snapshot True) (demo_request ''n'') ''''),
      (demo_env, BeginDrain (''o'', ''c'') (Some (demo_snapshot False)) 7)]"

abbreviation queue_after :: "nat \<Rightarrow> (queue_env \<times> queue_op) list \<Rightarrow> execution_queue" where
  "queue_after issuer xs \<equiv> run_ops queue_step (new_execution_queue issuer) xs"

lemma queue_after_inv: "queue_inv (queue_after issuer xs)"
  by (rule queue.reach_inv)

text \<open>What a successful handout shows.\<close>

lemma handed_out:
  assumes inv: "queue_inv s" and r: "begin_terminal_drain E s v snap addr = (s', Inr (Some e))" and b: "as_binding v = Inr b"
    and d': "active_of s' b = Some d'"
  shows "ln_drain (lane_of s b) = None \<and> ad_item d' \<in> set (ln_items (lane_of s b))"
proof -
  let ?rc = "\<lparr>rc_addr = addr, rc_issuer = q_issuer s, rc_token = q_next_receipt s + 1\<rparr>"
  have r': "begin_drain s v snap addr = (s', Inr (Some e))"
    using r by (simp add: begin_terminal_drain_def split: if_splits)
  have x: "as_binding (xs_binding x) = Inr b" if "snap = Some x" for x
    using begin_error(2) [OF b that, of s addr] r' by auto
  have eq: "map_option (\<lambda>i. effect_of \<lparr>ad_receipt = ?rc, ad_item = i, ad_cancel = NotCancelled\<rparr>) (snd (lane_begin snap ?rc (lane_of s b))) = Some e"
      and st: "lane_of s' b = fst (lane_begin snap ?rc (lane_of s b))"
    using begin_drain_spec [OF inv b x refl, of snap addr] r' by (simp_all add: lane_step_def)
  obtain r where l: "lane_begin snap ?rc (lane_of s b) = (lane_claim ?rc (lane_open r (lane_of s b)), Some (hd (items_of s b)))"
      and n: "active_of s b = None" "items_of s b \<noteq> []"
    using eq by (auto simp: lane_begin_def Let_def split: option.splits if_splits)
  have "Some d' = ln_drain (lane_claim ?rc (lane_open r (lane_of s b)))" using st l d' by (metis fst_conv lane_of_simps(4))
  then show ?thesis using n by (simp add: lane_claim_def lane_open_def)
qed

lemma uncancelled_past:
  assumes inv: "queue_inv s" and d: "active_of s b = Some d" and u: "ad_cancel d = NotCancelled"
  shows "lane_past (qi_nonce (ad_item d)) (lane_of s b)"
proof -
  have b: "qi_binding (ad_item d) = b" by (rule inv_drain(2) [OF inv d])
  obtain rest where it: "items_of s b = ad_item d # rest"
    using drain_current_iff(2,4) [OF inv, of d] d u b by auto
  have "sorted_wrt (<) (map qi_nonce (items_of s b))" using queue_invD(2) [OF inv, of b] by (simp add: lane_ok_def)
  then show ?thesis using it d by (auto simp: lane_past_def)
qed


text \<open>
  C12. One binding per root: two bindings never both hold continuity for the same root.
\<close>

theorem one_binding_continues_a_root:
  assumes "snd (continuity_pending E (run_ops queue_step (new_execution_queue issuer) xs) (Some x) r) = Inr True"
    and "snd (continuity_pending E' (run_ops queue_step (new_execution_queue issuer) xs) (Some y) r) = Inr True"
  shows "as_binding (xs_binding x) = as_binding (xs_binding y)"
proof -
  let ?s = "queue_after issuer xs"
  obtain b c where b: "as_binding (xs_binding x) = Inr b" "items_of ?s b \<noteq> []" "root_of ?s b = strip r"
      and c: "as_binding (xs_binding y) = Inr c" "items_of ?s c \<noteq> []" "root_of ?s c = strip r"
    using assms by (auto simp: continuity_pending_inv [OF queue_after_inv] bindr_elims split: if_splits)
  have "b = c" using queue_invD(3) [OF queue_after_inv [of issuer xs]] b c unfolding exclusive_roots_def by metis
  then show ?thesis using b(1) c(1) by simp
qed

text \<open>
  Admission is decided by the snapshot, the sender and the exact continuity alone: each
  refusal is the first violated condition and changes nothing, and an admitted prompt gets the
  next place behind the queue of its own generation.
\<close>

theorem enqueue_prompt_decided:
  assumes "s = run_ops queue_step (new_execution_queue issuer) xs" and "on_loop E" and "as_binding (xs_binding x) = Inr b"
  shows "case may_enqueue s x b (er_sender req) lt of
      Inl ex \<Rightarrow> enqueue_prompt E s x req lt = (s, Inl ex)
    | Inr _ \<Rightarrow>
        (if prompt_display (er_display req) \<notin> set display_modes
         then snd (enqueue_prompt E s x req lt) = Inl UnknownDisplayMode
         else \<exists>s' item. enqueue_prompt E s x req lt = (s', Inr
                \<lparr>qa_binding = b, qa_root = strip (xs_root x),
                 qa_epoch = lane_epoch (lane_sync (strip (xs_root x)) (lane_of s b)),
                 qa_position = length (ln_items (lane_sync (strip (xs_root x)) (lane_of s b))) + 1\<rparr>)
              \<and> lane_of s' b = lane_push (strip (xs_root x)) item (lane_of s b)
              \<and> (\<forall>c. c \<noteq> b \<longrightarrow> lane_of s' c = lane_of s c)
              \<and> qi_text item = strip (er_text req) \<and> qi_message item = strip (er_message req))"
proof -
  have inv: "queue_inv s" unfolding assms(1) by (rule queue_after_inv)
  show ?thesis
  proof (cases "may_enqueue s x b (er_sender req) lt")
    case (Inl ex)
    then show ?thesis using assms(2) by (simp add: enqueue_prompt_def admit_spec [OF inv assms(2,3)])
  next
    case m: (Inr u)
    show ?thesis
    proof (cases "prompt_display (er_display req) \<in> set display_modes")
      case True
      then show ?thesis
        using enqueue_prompt_spec [OF inv assms(2,3), of req lt] m by (fastforce simp: lane_step_def)
    next
      case False
      then show ?thesis
        using admitted_spec [OF inv assms(2,3), of "er_sender req" lt] m assms(2)
        by (auto simp: enqueue_prompt_def prompt_display_def Let_def)
    qed
  qed
qed

text \<open>
  The drain of a reachable queue is the abstract one: a lost, detached or moved binding
  ends its generation; otherwise the head is handed out exactly when nothing is draining or
  running, with a fresh receipt, and no other binding changes.
\<close>

theorem begin_drain_refines_lane:
  assumes "s = run_ops queue_step (new_execution_queue issuer) xs" and "as_binding v = Inr b"
    and "\<forall>x. snap = Some x \<longrightarrow> as_binding (xs_binding x) = Inr b"
    and "rc = \<lparr>rc_addr = addr, rc_issuer = q_issuer s, rc_token = q_next_receipt s + 1\<rparr>"
  shows "\<exists>s'. begin_drain s v snap addr
      = (s', Inr (map_option (\<lambda>i. effect_of \<lparr>ad_receipt = rc, ad_item = i, ad_cancel = NotCancelled\<rparr>)
                    (snd (lane_begin snap rc (lane_of s b)))))
    \<and> lane_of s' b = fst (lane_begin snap rc (lane_of s b)) \<and> (\<forall>c. c \<noteq> b \<longrightarrow> lane_of s' c = lane_of s c)"
proof -
  have inv: "queue_inv s" unfolding assms(1) by (rule queue_after_inv)
  have x: "as_binding (xs_binding x) = Inr b" if "snap = Some x" for x using assms(3) that by blast
  show ?thesis using begin_drain_spec [OF inv assms(2) x assms(4)] unfolding lane_step_def by blast
qed

text \<open>
  C13. A live receipt always settles: completing it never fails, the report says whether the
  generation ended, whether to continue and which root to reconcile, exactly its own head
  leaves the queue, and only if the generation is still the one that admitted it.
\<close>

theorem live_receipt_settles:
  assumes "s = run_ops queue_step (new_execution_queue issuer) xs" and "require_receipt s receipt = Inr d"
    and "on_loop E" and "outcome \<in> set drain_outcomes"
  shows "\<exists>s'. complete_drain E s receipt outcome = (s', Inr (completion_report s d outcome))
    \<and> lane_of s' (qi_binding (ad_item d)) = lane_settle (lane_of s (qi_binding (ad_item d)))
    \<and> (\<forall>c. c \<noteq> qi_binding (ad_item d) \<longrightarrow> lane_of s' c = lane_of s c)"
proof -
  have inv: "queue_inv s" unfolding assms(1) by (rule queue_after_inv)
  show ?thesis using complete_drain_spec [OF inv assms(2-4)] unfolding lane_step_def by blast
qed

text \<open>
  C14. Order, and no second execution: two items of one binding handed out one after the other
  were admitted in that order, and the second is never the first again, whatever was settled,
  invalidated, recalled or enqueued in between.
\<close>

theorem handed_out_in_order:
  assumes "s = run_ops queue_step (new_execution_queue issuer) xs"
    and "active_of s b = Some d" and "ad_cancel d = NotCancelled"
    and "begin_terminal_drain E (run_ops queue_step s ys) v snap addr = (s', Inr (Some e))" and "as_binding v = Inr b"
    and "active_of s' b = Some d'"
  shows "qi_nonce (ad_item d) < qi_nonce (ad_item d')"
proof -
  let ?t = "run_ops queue_step s ys"
  have inv: "queue_inv s" unfolding assms(1) by (rule queue_after_inv)
  have invt: "queue_inv ?t" by (rule queue.run_inv [OF inv])
  have "lane_past (qi_nonce (ad_item d)) (lane_of ?t b)"
    by (rule past.run_keeps [OF inv inv_drain(3) [OF inv assms(2)] _ uncancelled_past [OF inv assms(2,3)]]) simp
  moreover have "ln_drain (lane_of ?t b) = None \<and> ad_item d' \<in> set (ln_items (lane_of ?t b))"
    by (rule handed_out [OF invt assms(4-6)])
  ultimately show ?thesis using lane_past_fresh by blast
qed

lemma drain_token:
  assumes "tables_ok s" and "active_of s b = Some d"
  shows "map_of (q_by_receipt s) (rc_token (ad_receipt d)) = Some (rc_token (ad_receipt d))"
    and "rc_token (ad_receipt d) \<le> q_next_receipt s"
    and "map_of (q_by_binding s) b = Some (rc_token (ad_receipt d))"
proof -
  obtain t where t: "map_of (q_by_binding s) b = Some t" using assms(2) by (auto simp: active_of_def split: option.splits)
  obtain d' where "map_of (q_by_receipt s) t = Some t" "active_of s b = Some d'" "rc_token (ad_receipt d') = t"
    by (rule tables_drain [OF assms(1) t])
  then show "map_of (q_by_receipt s) (rc_token (ad_receipt d)) = Some (rc_token (ad_receipt d))"
      "rc_token (ad_receipt d) \<le> q_next_receipt s" "map_of (q_by_binding s) b = Some (rc_token (ad_receipt d))"
    using assms t fresh_token [OF assms(1)] by auto
qed

lemma gone_everywhere:
  assumes inv: "queue_inv s" and none: "map_of (q_by_receipt s) t = None" and le: "t \<le> q_next_receipt s"
  shows "require_receipt (run_ops queue_step s ys) (Some rc) \<noteq> Inr d \<or> rc_token rc \<noteq> t"
proof (rule ccontr)
  assume "\<not> ?thesis"
  then have rq: "require_receipt (run_ops queue_step s ys) (Some rc) = Inr d" and tok: "rc_token rc = t" by simp_all
  let ?b = "qi_binding (ad_item d)"
  have "token_gone t (lane_of s ?b)"
    using drain_token(1) [OF queue_invD(1) [OF inv], of ?b] none by (auto simp: token_gone_def)
  then have "token_gone t (lane_of (run_ops queue_step s ys) ?b)" by (rule gone.run_keeps [OF inv _ le, rotated]) simp
  moreover obtain "rc_token rc = rc_token (ad_receipt d)" "active_of (run_ops queue_step s ys) ?b = Some d"
    by (rule require_receiptD [OF queue_invD(1) [OF queue.run_inv [OF inv]] rq]) auto
  ultimately show False using tok by (simp add: token_gone_def)
qed

text \<open>
  A receipt settles once: after its drain is completed, completing it again, and asking
  whether it may execute or mutate, fail in every later state.
\<close>

theorem receipt_settles_once:
  assumes "s = run_ops queue_step (new_execution_queue issuer) xs"
    and "complete_drain E s (Some rc) outcome = (s', Inr report)"
  shows "(\<exists>ex. snd (complete_drain E' (run_ops queue_step s' ys) (Some rc) outcome') = Inl ex)
    \<and> (\<exists>ex. receipt_may_execute E' (run_ops queue_step s' ys) (Some rc) snap = Inl ex)
    \<and> (\<exists>ex. claimed_receipt_may_mutate E' (run_ops queue_step s' ys) (Some rc) snap = Inl ex)"
proof -
  have inv: "queue_inv s" unfolding assms(1) by (rule queue_after_inv)
  have pre: "on_loop E" "outcome \<in> set drain_outcomes" using assms(2) by (auto simp: complete_drain_def split: if_splits)
  obtain d where d: "require_receipt s (Some rc) = Inr d"
    using assms(2) complete_drain_error [of s "Some rc" _ E outcome] by (cases "require_receipt s (Some rc)") auto
  have inv': "queue_inv s'" and none: "map_of (q_by_receipt s') (rc_token (ad_receipt d)) = None"
      and le: "q_next_receipt s \<le> q_next_receipt s'"
    using complete_drain_spec [OF inv d pre] assms(2) by (auto simp: lane_step_def)
  have tok: "rc_token rc = rc_token (ad_receipt d)" and act: "active_of s (qi_binding (ad_item d)) = Some d"
    using require_receiptD [OF queue_invD(1) [OF inv] d] by blast+
  have "rc_token (ad_receipt d) \<le> q_next_receipt s'"
    using drain_token(2) [OF queue_invD(1) [OF inv] act] le by simp
  then obtain ex where ex: "require_receipt (run_ops queue_step s' ys) (Some rc) = Inl ex"
    using gone_everywhere [OF inv' none, of ys rc] tok by (cases "require_receipt (run_ops queue_step s' ys) (Some rc)") auto
  obtain ex' where "complete_drain E' (run_ops queue_step s' ys) (Some rc) outcome' = (run_ops queue_step s' ys, Inl ex')"
    using complete_drain_error [OF ex] by blast
  then show ?thesis
    using ex by (simp add: receipt_may_execute_def claimed_receipt_may_mutate_def claimed_receipt_matches_def)
qed

lemma matches_iff:
  assumes inv: "queue_inv s"
  shows "claimed_receipt_matches E s receipt snap require_idle = Inr True \<longleftrightarrow>
    on_loop E \<and> (\<exists>d x. require_receipt s receipt = Inr d \<and> snap = Some x \<and> ad_cancel d = NotCancelled
      \<and> as_binding (xs_binding x) = Inr (qi_binding (ad_item d)) \<and> xs_active x \<and> xs_attached x
      \<and> (require_idle \<longrightarrow> \<not> xs_inflight x) \<and> strip (xs_root x) = qi_root (ad_item d))"
proof -
  have live: "item_is_current s (ad_item d) \<and> head_is_item s (ad_item d)"
    if rq: "require_receipt s receipt = Inr d" and nc: "ad_cancel d = NotCancelled" for d
  proof -
    obtain "active_of s (qi_binding (ad_item d)) = Some d"
      by (rule require_receiptD [OF queue_invD(1) [OF inv] rq]) auto
    note cur = drain_current_iff [OF inv this]
    then obtain rest where "items_of s (qi_binding (ad_item d)) = ad_item d # rest" using nc by blast
    then show ?thesis using cur(1,4) nc by (simp add: head_is_item_def)
  qed
  show ?thesis
  proof (cases "require_receipt s receipt")
    case (Inl ex)
    then show ?thesis by (simp add: claimed_receipt_matches_def)
  next
    case rq: (Inr d)
    show ?thesis
    proof (cases snap)
      case None
      then show ?thesis using rq by (simp add: claimed_receipt_matches_def)
    next
      case (Some x)
      then show ?thesis
        using rq live [OF rq]
        by (cases "ad_cancel d = NotCancelled"; cases "as_binding (xs_binding x)")
          (simp_all add: claimed_receipt_matches_def Let_def conj_commute)
    qed
  qed
qed

text \<open>
  What a claimed receipt allows: on a reachable queue the capability holds exactly while
  the receipt is the live one, was not cancelled, and the snapshot still shows its binding
  active and attached to its root (and idle, before the start). Epoch and head need no check.
\<close>

theorem receipt_validity_exact:
  assumes "s = run_ops queue_step (new_execution_queue issuer) xs"
  shows "(receipt_may_execute E s receipt snap = Inr True \<longleftrightarrow>
      (\<exists>x. snap = Some x \<and> \<not> xs_inflight x) \<and> claimed_receipt_may_mutate E s receipt snap = Inr True)
    \<and> (claimed_receipt_may_mutate E s receipt snap = Inr True \<longleftrightarrow>
      on_loop E \<and> (\<exists>d x. require_receipt s receipt = Inr d \<and> snap = Some x \<and> ad_cancel d = NotCancelled
        \<and> as_binding (xs_binding x) = Inr (qi_binding (ad_item d)) \<and> xs_active x \<and> xs_attached x
        \<and> strip (xs_root x) = qi_root (ad_item d)))"
proof -
  have inv: "queue_inv s" unfolding assms by (rule queue_after_inv)
  show ?thesis
    by (auto simp: receipt_may_execute_def claimed_receipt_may_mutate_def matches_iff [OF inv])
qed

lemma invalidated_receipt_dead:
  assumes inv: "queue_inv s" and st: "lane_step (lane_invalidate r) b s s'" and inv': "queue_inv s'"
    and d: "active_of s b = Some d" and rc: "rc_token rc = rc_token (ad_receipt d)"
  shows "claimed_receipt_matches E (run_ops queue_step s' ys) (Some rc) snap require_idle \<noteq> Inr True"
proof
  let ?t = "run_ops queue_step s' ys" and ?k = "rc_token (ad_receipt d)"
  have invt: "queue_inv ?t" by (rule queue.run_inv [OF inv'])
  note tok = drain_token [OF queue_invD(1) [OF inv] d]
  have "token_dead ?k (lane_of s' c)" for c
  proof (cases "c = b")
    case True
    then show ?thesis unfolding True lane_stepD(2) [OF st] by (simp add: token_dead_def lane_invalidate_def d)
  next
    case False
    have "rc_token (ad_receipt e) \<noteq> ?k" if e: "active_of s c = Some e" for e
      using drain_token(3) [OF queue_invD(1) [OF inv] e] tok(3) token_unique [OF queue_invD(1) [OF inv]] False by metis
    then show ?thesis unfolding lane_stepD(3) [OF st False] by (simp add: token_dead_def)
  qed
  then have dead: "token_dead ?k (lane_of ?t c)" for c
    by (rule dead.run_keeps [OF inv', rotated 2]) (use tok(2) lane_stepD(5) [OF st] in simp_all)
  assume "claimed_receipt_matches E ?t (Some rc) snap require_idle = Inr True"
  then obtain e where e: "require_receipt ?t (Some rc) = Inr e" "ad_cancel e = NotCancelled"
    unfolding matches_iff [OF invt] by blast
  obtain "rc_token rc = rc_token (ad_receipt e)" "active_of ?t (qi_binding (ad_item e)) = Some e"
    by (rule require_receiptD [OF queue_invD(1) [OF invt] e(1)]) auto
  then show False using dead [of "qi_binding (ad_item e)"] e(2) rc by (simp add: token_dead_def)
qed

text \<open>
  C15. Invalidation is final: after a binding's generation ends, nothing queued in it is ever
  queued again, and the receipt of its drain never allows execution or mutation again.
\<close>

theorem invalidated_work_never_runs:
  assumes "s = run_ops queue_step (new_execution_queue issuer) xs" and "as_binding v = Inr b"
    and "invalidate_binding E s v = (s', Inr report)"
  shows "(\<forall>i \<in> set (items_of s b). i \<notin> set (items_of (run_ops queue_step s' ys) b))
    \<and> (\<forall>d rc. active_of s b = Some d \<longrightarrow> rc_token rc = rc_token (ad_receipt d)
        \<longrightarrow> claimed_receipt_matches E' (run_ops queue_step s' ys) (Some rc) snap require_idle \<noteq> Inr True)"
proof -
  let ?t = "run_ops queue_step s' ys"
  have inv: "queue_inv s" unfolding assms(1) by (rule queue_after_inv)
  have s': "s' = fst (invalidate_private s b [])"
    using assms(2,3) by (auto simp: invalidate_binding_def map_prod_def split: if_splits prod.splits)
  have st: "lane_step (lane_invalidate []) b s s'"
    using invalidate_step [OF queue_invD(1) [OF inv], of "[]" b] s' by simp
  have inv': "queue_inv s'" by (rule invalidate_inv [OF inv st])
  have invt: "queue_inv ?t" by (rule queue.run_inv [OF inv'])
  have ep: "epoch_of s' b = epoch_of s b + 1"
    by (simp add: epoch_of_lane lane_stepD(2) [OF st]) (simp add: lane_invalidate_def lane_epoch_def)
  have "i \<notin> set (items_of ?t b)" if i: "i \<in> set (items_of s b)" for i
  proof
    assume "i \<in> set (items_of ?t b)"
    then have "map_of (q_epoch ?t) b = Some (qi_epoch i)" using inv_item [OF invt] by (simp add: item_ok_def)
    then have "epoch_of ?t b = qi_epoch i" by (simp add: epoch_of_def)
    moreover have "map_of (q_epoch s) b = Some (qi_epoch i)" using inv_item [OF inv i] by (simp add: item_ok_def)
    then have "epoch_of s b = qi_epoch i" by (simp add: epoch_of_def)
    moreover have "epoch_of s' b \<le> epoch_of ?t b" by (rule queue.run_epoch_mono [OF inv'])
    ultimately show False using ep by simp
  qed
  then show ?thesis using invalidated_receipt_dead [OF inv st inv'] by blast
qed

text \<open>
  A recall cancels the message in its chat and nothing else: the other items keep their
  order, the one copy that may stay is the head a live drain holds, that drain is marked
  recalled, the other chats keep their lanes, and the count is the sum over the bindings.
\<close>

theorem recall_cancels_message:
  assumes "s = run_ops queue_step (new_execution_queue issuer) xs" and "on_loop E" and "strip msg \<noteq> []"
  shows "\<exists>s' out. remove_recalled_message E s chat msg = (s', Inr out)
    \<and> ro_removed out = (\<Sum>p\<leftarrow>q_items s. if chat_matches (strip chat) (fst p) then recall_number s (fst p) (strip msg) else 0)
    \<and> (\<forall>b. \<not> chat_matches (strip chat) b \<longrightarrow> lane_of s' b = lane_of s b)
    \<and> (\<forall>b. chat_matches (strip chat) b \<longrightarrow>
          filter (\<lambda>i. qi_message i \<noteq> strip msg) (items_of s' b) = filter (\<lambda>i. qi_message i \<noteq> strip msg) (items_of s b)
          \<and> (\<forall>i \<in> set (items_of s' b). qi_message i = strip msg \<longrightarrow>
                (\<exists>d. active_of s' b = Some d \<and> qi_nonce (ad_item d) = qi_nonce i \<and> ad_cancel d = Recall)))"
proof -
  have inv: "queue_inv s" unfolding assms(1) by (rule queue_after_inv)
  obtain s' out where run: "remove_recalled_message E s chat msg = (s', Inr out)"
      and lanes: "\<forall>c. lane_of s' c = (if chat_matches (strip chat) c then lane_recall (strip msg) (lane_of s c) else lane_of s c)"
      and num: "ro_removed out = (\<Sum>p\<leftarrow>q_items s. if chat_matches (strip chat) (fst p) then recall_number s (fst p) (strip msg) else 0)"
    using remove_recalled_spec [OF inv assms(2,3), of chat] by blast
  have "filter (\<lambda>i. qi_message i \<noteq> strip msg) (items_of s' b) = filter (\<lambda>i. qi_message i \<noteq> strip msg) (items_of s b)
          \<and> (\<forall>i \<in> set (items_of s' b). qi_message i = strip msg \<longrightarrow>
                (\<exists>d. active_of s' b = Some d \<and> qi_nonce (ad_item d) = qi_nonce i \<and> ad_cancel d = Recall))"
    if b: "chat_matches (strip chat) b" for b
  proof -
    have l: "lane_of s' b = lane_recall (strip msg) (lane_of s b)" using lanes b by simp
    have it: "items_of s' b = filter (lane_keeps (strip msg) (lane_of s b)) (items_of s b)"
      and ac: "items_of s b \<noteq> [] \<Longrightarrow> active_of s' b
        = map_option (\<lambda>d. if qi_message (ad_item d) = strip msg then d\<lparr>ad_cancel := Recall\<rparr> else d) (active_of s b)"
      using arg_cong [OF l, of ln_items] arg_cong [OF l, of ln_drain] by (auto simp: lane_recall_def split: if_splits)
    have "filter (\<lambda>i. qi_message i \<noteq> strip msg) (items_of s' b) = filter (\<lambda>i. qi_message i \<noteq> strip msg) (items_of s b)"
      unfolding it filter_filter by (rule filter_cong) (auto simp: lane_keeps_iff)
    moreover have "\<exists>d. active_of s' b = Some d \<and> qi_nonce (ad_item d) = qi_nonce i \<and> ad_cancel d = Recall"
      if i: "i \<in> set (items_of s' b)" "qi_message i = strip msg" for i
    proof -
      have k: "lane_keeps (strip msg) (lane_of s b) i" and ne: "items_of s b \<noteq> []" using i(1) it by auto
      then obtain d where "active_of s b = Some d" "qi_message (ad_item d) = strip msg" "qi_nonce i = qi_nonce (ad_item d)"
        using i(2) by (auto simp: lane_keeps_iff)
      then show ?thesis using ac [OF ne] by simp
    qed
    ultimately show ?thesis by blast
  qed
  then show ?thesis using run lanes num by auto
qed

text \<open>The values a frozen origin can have.\<close>

definition origin_normal :: "message_origin \<Rightarrow> bool" where
  "origin_normal m =
     (strip (mo_chat_type m) = mo_chat_type m \<and> strip (mo_sender_open_id m) = mo_sender_open_id m
      \<and> strip (mo_sender_user_id m) = mo_sender_user_id m \<and> strip (mo_sender_type m) = mo_sender_type m
      \<and> strip (mo_feishu_thread_id m) = mo_feishu_thread_id m \<and> strip (mo_context_mode m) = mo_context_mode m
      \<and> strip (mo_sender_name m) = mo_sender_name m \<and> 0 \<le> mo_created_at m \<and> 0 \<le> mo_seq m)"

lemma map_of_filter_falsy:
  "distinct (map fst d) \<Longrightarrow> map_of (filter (\<lambda>(k, v). \<not> falsy v) d) k =
    (case map_of d k of None \<Rightarrow> None | Some v \<Rightarrow> if falsy v then None else Some v)"
  using map_of_filter_wf [of d "\<lambda>(k, v). \<not> falsy v" k] by (simp add: dict_wf_def split: option.splits)

lemma context_lookup:
  "map_of (message_context m) f =
    (case map_of [(''chat_type'', JStr (mo_chat_type m)), (''sender_open_id'', JStr (mo_sender_open_id m)),
       (''sender_user_id'', JStr (mo_sender_user_id m)), (''sender_type'', JStr (mo_sender_type m)),
       (''thread_id'', JStr (mo_feishu_thread_id m)), (''assistant_context_mode'', JStr (mo_context_mode m)),
       (''created_at'', JInt (mo_created_at m)), (''assistant_context_seq'', JInt (mo_seq m)),
       (''sender_name'', JStr (mo_sender_name m))] f of
       None \<Rightarrow> None | Some v \<Rightarrow> if falsy v then None else Some v)"
  unfolding message_context_def by (rule map_of_filter_falsy) simp

lemma field_text_context: "strip t = t \<Longrightarrow> field_text txt (if t = [] then None else Some (JStr t)) = t"
  by (simp add: field_text_def)

text \<open>
  The frozen origin of a queued message survives the message context it is turned back into.
\<close>

theorem origin_context_roundtrip:
  assumes "origin_normal m"
  shows "origin_of_context txt (Some (message_context m)) = Some m"
proof -
  have i: "int_field (message_context m) ''created_at'' = Some (mo_created_at m)"
      "int_field (message_context m) ''assistant_context_seq'' = Some (mo_seq m)"
    using assms by (simp_all add: int_field_def context_lookup origin_normal_def)
  have t: "field_text txt (map_of (message_context m) ''chat_type'') = mo_chat_type m"
    "field_text txt (map_of (message_context m) ''sender_open_id'') = mo_sender_open_id m"
    "field_text txt (map_of (message_context m) ''sender_user_id'') = mo_sender_user_id m"
    "field_text txt (map_of (message_context m) ''sender_type'') = mo_sender_type m"
    "field_text txt (map_of (message_context m) ''thread_id'') = mo_feishu_thread_id m"
    "field_text txt (map_of (message_context m) ''assistant_context_mode'') = mo_context_mode m"
    "field_text txt (map_of (message_context m) ''sender_name'') = mo_sender_name m"
    using assms by (simp_all add: context_lookup origin_normal_def field_text_context)
  show ?thesis unfolding origin_of_context_def by (simp add: i t)
qed

section \<open>Witnesses\<close>

definition demo_queue :: execution_queue where
  "demo_queue = run_ops queue_step (new_execution_queue 1) demo_ops"

definition demo_waiting :: execution_queue where
  "demo_waiting = run_ops queue_step (new_execution_queue 1) (take 2 demo_ops)"

definition demo_receipt :: drain_receipt where
  "demo_receipt = \<lparr>rc_addr = 7, rc_issuer = 1, rc_token = 1\<rparr>"

theorem one_binding_continues_a_root_witness:
  "as_binding (xs_binding (demo_snapshot True)) = as_binding (xs_binding (demo_snapshot False))"
proof (rule one_binding_continues_a_root)
  show "snd (continuity_pending demo_env (run_ops queue_step (new_execution_queue 1) demo_ops) (Some (demo_snapshot True)) ''r'') = Inr True"
    by code_simp
  show "snd (continuity_pending demo_env (run_ops queue_step (new_execution_queue 1) demo_ops) (Some (demo_snapshot False)) ''r'') = Inr True"
    by code_simp
qed

theorem enqueue_prompt_decided_witness:
  "\<exists>s' adm. enqueue_prompt demo_env demo_queue (demo_snapshot True) (demo_request ''k'') [] = (s', Inr adm) \<and> qa_position adm = 3"
proof -
  have b: "as_binding (xs_binding (demo_snapshot True)) = Inr (''o'', ''c'')" and l: "on_loop demo_env"
    and m: "may_enqueue demo_queue (demo_snapshot True) (''o'', ''c'') (er_sender (demo_request ''k'')) [] = Inr ()"
    and d: "prompt_display (er_display (demo_request ''k'')) \<in> set display_modes"
    and n: "length (ln_items (lane_sync (strip (xs_root (demo_snapshot True))) (lane_of demo_queue (''o'', ''c'')))) = 2"
    by code_simp+
  show ?thesis
    using enqueue_prompt_decided [OF demo_queue_def l b, of "demo_request ''k''" "[]"] m d n by auto
qed

theorem begin_drain_refines_lane_witness:
  "\<exists>s'. begin_drain demo_waiting (''o'', ''c'') (Some (demo_snapshot False)) 7
     = (s', Inr (Some (effect_of \<lparr>ad_receipt = demo_receipt, ad_item = hd (items_of demo_queue (''o'', ''c'')), ad_cancel = NotCancelled\<rparr>)))"
proof -
  have b: "as_binding (''o'', ''c'') = Inr (''o'', ''c'')" by code_simp
  have x: "\<forall>x. Some (demo_snapshot False) = Some x \<longrightarrow> as_binding (xs_binding x) = Inr (''o'', ''c'')"
    using b by (auto simp: demo_snapshot_def)
  have rc: "demo_receipt = \<lparr>rc_addr = 7, rc_issuer = q_issuer demo_waiting, rc_token = q_next_receipt demo_waiting + 1\<rparr>"
    by code_simp
  have l: "snd (lane_begin (Some (demo_snapshot False)) demo_receipt (lane_of demo_waiting (''o'', ''c'')))
      = Some (hd (items_of demo_queue (''o'', ''c'')))"
    by code_simp
  show ?thesis using begin_drain_refines_lane [OF demo_waiting_def b x rc] by (auto simp: l)
qed

theorem live_receipt_settles_witness:
  "\<exists>s'. complete_drain demo_env demo_queue (Some demo_receipt) ''dropped'' = (s', Inr
     \<lparr>dc_binding = (''o'', ''c''), dc_root = ''r'', dc_outcome = ''dropped'', dc_invalidated = False,
      dc_continue = True, dc_reconcile_root = []\<rparr>)"
proof -
  have l: "on_loop demo_env" and o: "''dropped'' \<in> set drain_outcomes" by code_simp+
  obtain d where d: "active_of demo_queue (''o'', ''c'') = Some d"
      and rq: "require_receipt demo_queue (Some demo_receipt) = Inr d"
      and rep: "completion_report demo_queue d ''dropped'' =
        \<lparr>dc_binding = (''o'', ''c''), dc_root = ''r'', dc_outcome = ''dropped'', dc_invalidated = False,
         dc_continue = True, dc_reconcile_root = []\<rparr>"
  proof -
    have "require_receipt demo_queue (Some demo_receipt) = Inr (the (active_of demo_queue (''o'', ''c'')))"
      "active_of demo_queue (''o'', ''c'') = Some (the (active_of demo_queue (''o'', ''c'')))"
      "completion_report demo_queue (the (active_of demo_queue (''o'', ''c''))) ''dropped'' =
        \<lparr>dc_binding = (''o'', ''c''), dc_root = ''r'', dc_outcome = ''dropped'', dc_invalidated = False,
         dc_continue = True, dc_reconcile_root = []\<rparr>"
      by code_simp+
    then show ?thesis using that by blast
  qed
  show ?thesis using live_receipt_settles [OF demo_queue_def rq l o] rep by auto
qed

text \<open>The first item settled and the second handed out.\<close>

definition demo_next :: "(queue_env \<times> queue_op) list" where
  "demo_next = [(demo_env, CompleteDrain (Some demo_receipt) ''dropped'')]"

theorem handed_out_in_order_witness:
  "qi_nonce (ad_item (the (active_of demo_queue (''o'', ''c''))))
    < qi_nonce (ad_item (the (active_of (fst (begin_terminal_drain demo_env (run_ops queue_step demo_queue demo_next)
        (''o'', ''c'') (Some (demo_snapshot False)) 8)) (''o'', ''c''))))"
proof -
  let ?r = "begin_terminal_drain demo_env (run_ops queue_step demo_queue demo_next) (''o'', ''c'') (Some (demo_snapshot False)) 8"
  have a: "active_of demo_queue (''o'', ''c'') = Some (the (active_of demo_queue (''o'', ''c'')))"
    and u: "ad_cancel (the (active_of demo_queue (''o'', ''c''))) = NotCancelled"
    and b: "as_binding (''o'', ''c'') = Inr (''o'', ''c'')"
    and a': "active_of (fst ?r) (''o'', ''c'') = Some (the (active_of (fst ?r) (''o'', ''c'')))"
    by code_simp+
  have e: "snd ?r = Inr (Some (effect_of (the (active_of (fst ?r) (''o'', ''c'')))))" by code_simp
  have r: "?r = (fst ?r, Inr (Some (effect_of (the (active_of (fst ?r) (''o'', ''c''))))))"
    unfolding e [symmetric] by simp
  show ?thesis by (rule handed_out_in_order [OF demo_queue_def a u r b a'])
qed

lemma demo_settled:
  "complete_drain demo_env demo_queue (Some demo_receipt) ''started'' =
    (fst (complete_drain demo_env demo_queue (Some demo_receipt) ''started''), Inr
     \<lparr>dc_binding = (''o'', ''c''), dc_root = ''r'', dc_outcome = ''started'', dc_invalidated = False,
      dc_continue = False, dc_reconcile_root = []\<rparr>)"
proof -
  have "snd (complete_drain demo_env demo_queue (Some demo_receipt) ''started'') = Inr
     \<lparr>dc_binding = (''o'', ''c''), dc_root = ''r'', dc_outcome = ''started'', dc_invalidated = False,
      dc_continue = False, dc_reconcile_root = []\<rparr>" by code_simp
  then show ?thesis by (metis prod.collapse)
qed

theorem receipt_settles_once_witness:
  "\<exists>ex. snd (complete_drain demo_env (run_ops queue_step
       (fst (complete_drain demo_env demo_queue (Some demo_receipt) ''started'')) demo_ops) (Some demo_receipt) ''dropped'') = Inl ex"
  using receipt_settles_once [OF demo_queue_def demo_settled] by blast

theorem receipt_validity_exact_witness:
  "receipt_may_execute demo_env demo_queue (Some demo_receipt) (Some (demo_snapshot False)) = Inr True"
proof -
  have m: "claimed_receipt_may_mutate demo_env demo_queue (Some demo_receipt) (Some (demo_snapshot False)) = Inr True"
    and i: "\<not> xs_inflight (demo_snapshot False)" by code_simp+
  then show ?thesis using receipt_validity_exact [OF demo_queue_def] by blast
qed

lemma demo_invalidated:
  "invalidate_binding demo_env demo_queue (''o'', ''c'') =
    (fst (invalidate_binding demo_env demo_queue (''o'', ''c'')), Inr
      \<lparr>iv_binding = (''o'', ''c''), iv_root = ''r'', iv_epoch = 2, iv_removed = 2, iv_cancelled = True\<rparr>)"
proof -
  have "snd (invalidate_binding demo_env demo_queue (''o'', ''c'')) = Inr
      \<lparr>iv_binding = (''o'', ''c''), iv_root = ''r'', iv_epoch = 2, iv_removed = 2, iv_cancelled = True\<rparr>" by code_simp
  then show ?thesis by (metis prod.collapse)
qed

theorem invalidated_work_never_runs_witness:
  "claimed_receipt_matches demo_env (run_ops queue_step (fst (invalidate_binding demo_env demo_queue (''o'', ''c''))) demo_ops)
     (Some demo_receipt) (Some (demo_snapshot False)) False \<noteq> Inr True"
proof -
  have b: "as_binding (''o'', ''c'') = Inr (''o'', ''c'')"
    and a: "active_of demo_queue (''o'', ''c'') = Some (the (active_of demo_queue (''o'', ''c'')))"
    and t: "rc_token demo_receipt = rc_token (ad_receipt (the (active_of demo_queue (''o'', ''c''))))"
    by code_simp+
  show ?thesis using invalidated_work_never_runs [OF demo_queue_def b demo_invalidated] a t by blast
qed

theorem recall_cancels_message_witness:
  "\<exists>s' out. remove_recalled_message demo_env demo_queue ''c'' ''n'' = (s', Inr out) \<and> ro_removed out = 1"
proof -
  have l: "on_loop demo_env" and m: "strip ''n'' \<noteq> []"
    and n: "(\<Sum>p\<leftarrow>q_items demo_queue. if chat_matches (strip ''c'') (fst p) then recall_number demo_queue (fst p) (strip ''n'') else 0) = 1"
    by code_simp+
  show ?thesis using recall_cancels_message [OF demo_queue_def l m, of "''c''"] unfolding n by blast
qed

theorem origin_context_roundtrip_witness:
  "origin_of_context (\<lambda>_. []) (Some (message_context (empty_origin\<lparr>mo_chat_type := ''p2p'', mo_seq := 4\<rparr>)))
    = Some (empty_origin\<lparr>mo_chat_type := ''p2p'', mo_seq := 4\<rparr>)"
proof -
  have "origin_normal (empty_origin\<lparr>mo_chat_type := ''p2p'', mo_seq := 4\<rparr>)" by code_simp
  then show ?thesis by (rule origin_context_roundtrip)
qed

end
