(* ===== verification/Ingress_Gate.thy ===== *)
theory Ingress_Gate
  imports Focus_Prelude
begin

text \<open>
  The connection-generation gate of the adapter (\<open>bot/adapter_ingress_gate.py\<close>): admission of
  callbacks by websocket generation, permits and the write guard of ordinary requests, the
  disconnect fence of the reader thread, and the fence, invalidation and replacement of a
  backend reset.

  Every critical section is one step. A drain that has to wait gives the lock back
  (\<open>Condition.wait\<close>): the call is then suspended in \<open>ig_waiting\<close> and continues, or times out, in
  a later step. \<open>accept\<close>, \<open>observe_disconnect\<close> and the reset calls run on the RuntimeLoop, so at
  most one of them is suspended; the reader's fence and the write guards run meanwhile.

  The three ports are the environment of a call: whether they raise. \<open>ig_calls\<close> lists the
  port calls made, the invalidation with the number of transports still writing.
\<close>

section \<open>State\<close>

datatype gate_exn =
    GateValueError
  | GateTypeError
  | ForeignPermit
  | RequestBlocked
  | RequestEpochLost
  | GenerationMismatch int int
  | ResetUnavailable
  | CleanupUnfenced
  | CleanupIncomplete
  | NoResetFence
  | NotInvalidated
  | NotAdvanced
  | DrainTimeout
  | NegativeTransports
  | PortFailed

record gate_permit =
  pm_epoch :: int
  pm_method :: string
  pm_token :: nat

record ingress_snapshot =
  is_latest :: int
  is_last_disconnected :: int
  is_blocked :: bool
  is_cleanup :: bool
  is_disconnect_pending :: bool

datatype port_call = InvalidatePrevious int | ActivateEpoch int | PublishReplacement

datatype waiting = AcceptWaits int | ObserveWaits | ResetWaits | FenceWaits

record ingress_gate =
  ig_latest :: int
  ig_last_disconnected :: int
  ig_blocked :: bool
  ig_invalidated :: bool
  ig_cleanup :: bool
  ig_disconnect_cleanup :: int
  ig_epoch :: int
  ig_token :: nat
  ig_active :: int
  ig_live :: bool
  ig_waiting :: "waiting option"
  ig_calls :: "port_call list"

record port_env =
  pe_invalidate_ok :: bool
  pe_activate_ok :: bool
  pe_publish_ok :: bool
  pe_timed_out :: bool

datatype gate_outcome = Returns bool | Finishes | Raises gate_exn | Waits

text \<open>\<open>token\<close> identifies the \<open>object()\<close> of this gate.\<close>

definition new_ingress_gate :: "nat \<Rightarrow> ingress_gate" where
  "new_ingress_gate token =
     \<lparr>ig_latest = 0, ig_last_disconnected = 0, ig_blocked = False, ig_invalidated = False,
      ig_cleanup = False, ig_disconnect_cleanup = 0, ig_epoch = 1, ig_token = token,
      ig_active = 0, ig_live = False, ig_waiting = None, ig_calls = []\<rparr>"

definition gate_snapshot :: "ingress_gate \<Rightarrow> ingress_snapshot" where
  "gate_snapshot g =
     \<lparr>is_latest = ig_latest g, is_last_disconnected = ig_last_disconnected g, is_blocked = ig_blocked g,
      is_cleanup = ig_cleanup g, is_disconnect_pending = (0 < ig_disconnect_cleanup g)\<rparr>"

definition ingress_closed :: "ingress_gate \<Rightarrow> bool" where
  "ingress_closed g = (ig_blocked g \<or> ig_cleanup g \<or> 0 < ig_disconnect_cleanup g)"

section \<open>Ordinary requests\<close>

definition issue_outbound_request :: "ingress_gate \<Rightarrow> string \<Rightarrow> gate_exn + gate_permit" where
  "issue_outbound_request g method =
     (if strip method = [] then Inl GateValueError
      else if ingress_closed g then Inl RequestBlocked
      else Inr \<lparr>pm_epoch = ig_epoch g, pm_method = strip method, pm_token = ig_token g\<rparr>)"

definition validate_permit :: "ingress_gate \<Rightarrow> gate_permit option \<Rightarrow> gate_exn + gate_permit" where
  "validate_permit g permit =
     (case permit of
        None \<Rightarrow> Inl GateTypeError
      | Some p \<Rightarrow> if pm_token p \<noteq> ig_token g then Inl ForeignPermit else Inr p)"

definition permit_stale :: "ingress_gate \<Rightarrow> gate_permit \<Rightarrow> bool" where
  "permit_stale g p = (ingress_closed g \<or> pm_epoch p \<noteq> ig_epoch g)"

text \<open>Entering and leaving \<open>guard_outbound_send\<close>.\<close>

definition guard_enter :: "ingress_gate \<Rightarrow> gate_permit option \<Rightarrow> ingress_gate \<times> (gate_exn + unit)" where
  "guard_enter g permit =
     (case validate_permit g permit of
        Inl ex \<Rightarrow> (g, Inl ex)
      | Inr p \<Rightarrow> if permit_stale g p then (g, Inl RequestBlocked)
                 else (g\<lparr>ig_active := ig_active g + 1\<rparr>, Inr ()))"

definition guard_exit :: "ingress_gate \<Rightarrow> ingress_gate \<times> (gate_exn + unit)" where
  "guard_exit g =
     (g\<lparr>ig_active := ig_active g - 1\<rparr>, if ig_active g - 1 < 0 then Inl NegativeTransports else Inr ())"

definition confirm_outbound_request :: "ingress_gate \<Rightarrow> gate_permit option \<Rightarrow> gate_exn + unit" where
  "confirm_outbound_request g permit =
     bindr (validate_permit g permit) (\<lambda>p. require RequestEpochLost (\<not> permit_stale g p))"

definition require_outbound_request_admitted :: "ingress_gate \<Rightarrow> gate_exn + unit" where
  "require_outbound_request_admitted g = bindr (issue_outbound_request g ''diagnostic/admission'') (\<lambda>_. Inr ())"

text \<open>
  The two critical sections of \<open>resolve_published_backend_endpoint\<close>; the adapter is asked for
  the endpoint between them, without the lock.
\<close>

definition resolve_first :: "ingress_gate \<Rightarrow> int option" where
  "resolve_first g = (if ingress_closed g then None else Some (ig_epoch g))"

definition resolve_second :: "ingress_gate \<Rightarrow> int \<Rightarrow> string \<Rightarrow> string" where
  "resolve_second g admitted_epoch endpoint =
     (if ingress_closed g \<or> admitted_epoch \<noteq> ig_epoch g then [] else strip endpoint)"

definition resolve_published_backend_endpoint :: "ingress_gate \<Rightarrow> ingress_gate \<Rightarrow> string \<Rightarrow> string" where
  "resolve_published_backend_endpoint g g' endpoint =
     (case resolve_first g of None \<Rightarrow> [] | Some n \<Rightarrow> resolve_second g' n endpoint)"

definition capture_existing_connection_generation :: "ingress_gate \<Rightarrow> gate_exn + int" where
  "capture_existing_connection_generation g =
     (if ingress_closed g \<or> \<not> ig_live g \<or> ig_latest g \<le> ig_last_disconnected g then Inl RequestBlocked
      else Inr (ig_latest g))"

definition run_if_connection_generation :: "ingress_gate \<Rightarrow> int \<Rightarrow> 'r \<Rightarrow> gate_exn + 'r" where
  "run_if_connection_generation g expected settled =
     (if expected \<le> 0 then Inl GateValueError
      else if ingress_closed g \<or> \<not> ig_live g \<or> expected \<noteq> ig_latest g \<or> expected \<le> ig_last_disconnected g
      then Inl RequestEpochLost
      else Inr settled)"

section \<open>The invalidation transaction\<close>

definition advance_epoch :: "ingress_gate \<Rightarrow> ingress_gate" where
  "advance_epoch g = g\<lparr>ig_epoch := ig_epoch g + 1\<rparr>"

definition drain_failed :: "ingress_gate \<Rightarrow> ingress_gate" where
  "drain_failed g = g\<lparr>ig_cleanup := True, ig_blocked := True\<rparr>"

text \<open>What follows the drain in \<open>_invalidate_connection_facts_locked\<close>.\<close>

definition run_invalidation :: "port_env \<Rightarrow> ingress_gate \<Rightarrow> ingress_gate \<times> bool" where
  "run_invalidation E g =
     (let g1 = g\<lparr>ig_calls := ig_calls g @ [InvalidatePrevious (ig_active g)]\<rparr>
      in if pe_invalidate_ok E then (g1\<lparr>ig_live := False, ig_cleanup := False\<rparr>, True)
         else (g1\<lparr>ig_blocked := True\<rparr>, False))"

definition activate :: "port_env \<Rightarrow> int \<Rightarrow> ingress_gate \<Rightarrow> ingress_gate \<times> gate_outcome" where
  "activate E generation g =
     (let g1 = g\<lparr>ig_calls := ig_calls g @ [ActivateEpoch generation]\<rparr>
      in if pe_activate_ok E then (g1, Returns True)
         else ((advance_epoch g1)\<lparr>ig_cleanup := True, ig_blocked := True, ig_live := True\<rparr>, Raises PortFailed))"

text \<open>The rest of a call whose drain is complete.\<close>

fun continue_drained :: "port_env \<Rightarrow> waiting \<Rightarrow> ingress_gate \<Rightarrow> ingress_gate \<times> gate_outcome" where
  "continue_drained E (AcceptWaits generation) g =
     (case run_invalidation E g of (g1, ok) \<Rightarrow>
        if ok then activate E generation (g1\<lparr>ig_latest := generation, ig_live := True\<rparr>)
        else (g1, Raises PortFailed))"
| "continue_drained E ObserveWaits g =
     (case run_invalidation E g of (g1, ok) \<Rightarrow>
        (g1\<lparr>ig_disconnect_cleanup := 0\<rparr>, if ok then Returns True else Raises PortFailed))"
| "continue_drained E ResetWaits g =
     (case run_invalidation E g of (g1, ok) \<Rightarrow>
        if ok then (g1\<lparr>ig_disconnect_cleanup := 0, ig_invalidated := True\<rparr>, Finishes)
        else (g1, Raises PortFailed))"
| "continue_drained E FenceWaits g = (g, Finishes)"

text \<open>The rest of a call whose drain timed out; \<open>finally\<close> clears the fence of a disconnect.\<close>

fun fail_drain :: "waiting \<Rightarrow> ingress_gate \<Rightarrow> ingress_gate" where
  "fail_drain ObserveWaits g = (drain_failed g)\<lparr>ig_disconnect_cleanup := 0\<rparr>"
| "fail_drain _ g = drain_failed g"

definition drain :: "port_env \<Rightarrow> waiting \<Rightarrow> ingress_gate \<Rightarrow> ingress_gate \<times> gate_outcome" where
  "drain E w g = (if ig_active g = 0 then continue_drained E w g else (g\<lparr>ig_waiting := Some w\<rparr>, Waits))"

definition invalidate_facts :: "port_env \<Rightarrow> waiting \<Rightarrow> ingress_gate \<Rightarrow> ingress_gate \<times> gate_outcome" where
  "invalidate_facts E w g = drain E w ((advance_epoch g)\<lparr>ig_cleanup := True\<rparr>)"

text \<open>The suspended call wakes up: nothing is writing any more, the deadline has passed, or it waits on.\<close>

definition wake :: "port_env \<Rightarrow> ingress_gate \<Rightarrow> ingress_gate \<times> gate_outcome" where
  "wake E g =
     (case ig_waiting g of
        None \<Rightarrow> (g, Waits)
      | Some w \<Rightarrow>
          (let g1 = g\<lparr>ig_waiting := None\<rparr>
           in if ig_active g = 0 then continue_drained E w g1
              else if pe_timed_out E then (fail_drain w g1, Raises DrainTimeout)
              else (g, Waits)))"

section \<open>Connection callbacks\<close>

definition accept :: "port_env \<Rightarrow> ingress_gate \<Rightarrow> int \<Rightarrow> ingress_gate \<times> gate_outcome" where
  "accept E g generation =
     (if ig_blocked g \<or> ig_disconnect_cleanup g \<noteq> 0 then (g, Returns False)
      else if generation \<le> ig_last_disconnected g then (g, Returns False)
      else if generation < ig_latest g then (g, Returns False)
      else if ig_latest g < generation then
        (if ig_live g then invalidate_facts E (AcceptWaits generation) g
         else activate E generation (g\<lparr>ig_latest := generation, ig_live := True\<rparr>))
      else activate E generation g)"

definition fence_disconnect :: "ingress_gate \<Rightarrow> int \<Rightarrow> ingress_gate \<times> bool" where
  "fence_disconnect g generation =
     (if ig_blocked g then (g, False)
      else if generation \<le> ig_last_disconnected g then (g, False)
      else let g1 = g\<lparr>ig_last_disconnected := generation\<rparr>
           in if generation < ig_latest g then (g1, False)
              else let g2 = g1\<lparr>ig_latest := generation\<rparr>
                   in if ig_disconnect_cleanup g < generation
                      then ((advance_epoch g2)\<lparr>ig_disconnect_cleanup := generation\<rparr>, True)
                      else (g2, True))"

definition observe_disconnect :: "port_env \<Rightarrow> ingress_gate \<Rightarrow> int \<Rightarrow> ingress_gate \<times> gate_outcome" where
  "observe_disconnect E g generation =
     (if ig_blocked g then (g, Returns False)
      else if ig_disconnect_cleanup g \<noteq> 0 then
        (if generation \<noteq> ig_disconnect_cleanup g then (g, Returns False)
         else invalidate_facts E ObserveWaits g)
      else case fence_disconnect g generation of
        (g1, fenced) \<Rightarrow> if fenced then invalidate_facts E ObserveWaits g1 else (g1, Returns False))"

section \<open>Backend reset\<close>

definition begin_backend_reset :: "port_env \<Rightarrow> ingress_gate \<Rightarrow> ingress_gate \<times> gate_outcome" where
  "begin_backend_reset E g =
     (if ig_cleanup g then
        (if \<not> ig_blocked g then (g, Raises CleanupUnfenced) else invalidate_facts E ResetWaits g)
      else invalidate_facts E ResetWaits (g\<lparr>ig_blocked := True, ig_invalidated := False\<rparr>))"

definition fence_backend_reset :: "port_env \<Rightarrow> ingress_gate \<Rightarrow> int option \<Rightarrow> ingress_gate \<times> gate_outcome" where
  "fence_backend_reset E g expected =
     (let fence = drain E FenceWaits ((advance_epoch g)\<lparr>ig_invalidated := False, ig_blocked := True\<rparr>)
      in case expected of
           None \<Rightarrow> fence
         | Some n \<Rightarrow>
             (if n \<le> 0 then (g, Raises GateValueError)
              else if ig_latest g \<noteq> n then (g, Raises (GenerationMismatch n (ig_latest g)))
              else if ingress_closed g then (g, Raises ResetUnavailable)
              else fence))"

definition admit_backend_replacement :: "port_env \<Rightarrow> ingress_gate \<Rightarrow> int \<Rightarrow> ingress_gate \<times> gate_outcome" where
  "admit_backend_replacement E g generation =
     (if generation \<le> 0 then (g, Raises GateValueError)
      else if ig_cleanup g then (g, Raises CleanupIncomplete)
      else if \<not> ig_blocked g then (g, Raises NoResetFence)
      else if \<not> ig_invalidated g then (g, Raises NotInvalidated)
      else if generation \<le> max (ig_latest g) (ig_last_disconnected g) then (g, Raises NotAdvanced)
      else let g1 = g\<lparr>ig_calls := ig_calls g @ [PublishReplacement]\<rparr>
           in if \<not> pe_publish_ok E then (g1, Raises PortFailed)
              else (g1\<lparr>ig_last_disconnected := max (ig_last_disconnected g) (generation - 1),
                       ig_latest := generation, ig_live := True, ig_disconnect_cleanup := 0,
                       ig_blocked := False, ig_invalidated := False\<rparr>, Finishes))"

section \<open>The gate as a step system\<close>

text \<open>The gate and the callers inside the write guard.\<close>

record gate_system =
  gs_gate :: ingress_gate
  gs_inside :: "nat list"

datatype gate_op =
    Enter nat "gate_permit option"
  | Leave nat
  | AcceptCall port_env int
  | ObserveCall port_env int
  | FenceDisconnect int
  | BeginReset port_env
  | FenceReset port_env "int option"
  | Replace port_env int
  | Wake port_env

text \<open>A call of the RuntimeLoop, which starts none while another is suspended.\<close>

definition loop_call :: "(ingress_gate \<Rightarrow> ingress_gate \<times> gate_outcome) \<Rightarrow> gate_system \<Rightarrow> gate_system" where
  "loop_call f s = (if ig_waiting (gs_gate s) \<noteq> None then s else s\<lparr>gs_gate := fst (f (gs_gate s))\<rparr>)"

fun gate_step :: "gate_system \<Rightarrow> gate_op \<Rightarrow> gate_system" where
  "gate_step s (Enter t p) =
     (case guard_enter (gs_gate s) p of
        (g, Inl ex) \<Rightarrow> s
      | (g, Inr u) \<Rightarrow> \<lparr>gs_gate = g, gs_inside = t # gs_inside s\<rparr>)"
| "gate_step s (Leave t) =
     (if t \<in> set (gs_inside s) then \<lparr>gs_gate = fst (guard_exit (gs_gate s)), gs_inside = remove1 t (gs_inside s)\<rparr> else s)"
| "gate_step s (AcceptCall E n) = loop_call (\<lambda>g. accept E g n) s"
| "gate_step s (ObserveCall E n) = loop_call (\<lambda>g. observe_disconnect E g n) s"
| "gate_step s (FenceDisconnect n) = s\<lparr>gs_gate := fst (fence_disconnect (gs_gate s) n)\<rparr>"
| "gate_step s (BeginReset E) = loop_call (begin_backend_reset E) s"
| "gate_step s (FenceReset E n) = loop_call (\<lambda>g. fence_backend_reset E g n) s"
| "gate_step s (Replace E n) = loop_call (\<lambda>g. admit_backend_replacement E g n) s"
| "gate_step s (Wake E) = s\<lparr>gs_gate := fst (wake E (gs_gate s))\<rparr>"

definition new_gate_system :: "nat \<Rightarrow> gate_system" where
  "new_gate_system token = \<lparr>gs_gate = new_ingress_gate token, gs_inside = []\<rparr>"

section \<open>Invariant\<close>

fun waiting_ok :: "ingress_gate \<Rightarrow> waiting option \<Rightarrow> bool" where
  "waiting_ok g None = (ig_cleanup g \<longrightarrow> ig_blocked g)"
| "waiting_ok g (Some ResetWaits) = (ig_cleanup g \<and> ig_blocked g)"
| "waiting_ok g (Some FenceWaits) = ig_blocked g"
| "waiting_ok g (Some w) = ig_cleanup g"

definition gate_ok :: "int \<Rightarrow> ingress_gate \<Rightarrow> bool" where
  "gate_ok k g =
     (ig_active g = k \<and> 1 \<le> ig_epoch g \<and> 0 \<le> ig_last_disconnected g \<and> 0 \<le> ig_disconnect_cleanup g
      \<and> waiting_ok g (ig_waiting g)
      \<and> (ig_invalidated g \<longrightarrow> ig_blocked g \<and> \<not> ig_cleanup g \<and> \<not> ig_live g \<and> ig_waiting g = None \<and> ig_disconnect_cleanup g = 0)
      \<and> (\<forall>n. InvalidatePrevious n \<in> set (ig_calls g) \<longrightarrow> n = 0))"

definition gate_inv :: "gate_system \<Rightarrow> bool" where
  "gate_inv s = gate_ok (int (length (gs_inside s))) (gs_gate s)"

lemma activate_ok:
  assumes "gate_ok k g" and "ig_waiting g = None" and "\<not> ig_invalidated g"
  shows "gate_ok k (fst (activate E n g))"
  using assms by (auto simp: gate_ok_def activate_def Let_def advance_epoch_def)

text \<open>What a continued call needs: nothing writing, and the facts its drain was started with.\<close>

definition drained_ok :: "waiting \<Rightarrow> ingress_gate \<Rightarrow> bool" where
  "drained_ok w g =
     (ig_active g = 0 \<and> 1 \<le> ig_epoch g \<and> 0 \<le> ig_last_disconnected g \<and> 0 \<le> ig_disconnect_cleanup g
      \<and> ig_waiting g = None \<and> \<not> ig_invalidated g \<and> waiting_ok g (Some w)
      \<and> (\<forall>n. InvalidatePrevious n \<in> set (ig_calls g) \<longrightarrow> n = 0))"

lemma continue_ok:
  assumes "drained_ok w g"
  shows "gate_ok 0 (fst (continue_drained E w g))"
proof (cases w)
  case (AcceptWaits n)
  let ?g = "g\<lparr>ig_calls := ig_calls g @ [InvalidatePrevious 0], ig_live := False, ig_cleanup := False, ig_latest := n, ig_live := True\<rparr>"
  have "gate_ok 0 ?g" and "ig_waiting ?g = None" and "\<not> ig_invalidated ?g"
    using assms AcceptWaits by (auto simp: drained_ok_def gate_ok_def)
  then have "gate_ok 0 (fst (activate E n ?g))" by (rule activate_ok)
  moreover have "gate_ok 0 (g\<lparr>ig_calls := ig_calls g @ [InvalidatePrevious 0], ig_blocked := True\<rparr>)"
    using assms AcceptWaits by (auto simp: drained_ok_def gate_ok_def)
  ultimately show ?thesis
    using assms AcceptWaits by (simp add: run_invalidation_def Let_def drained_ok_def)
next
  case ObserveWaits
  then show ?thesis
    using assms by (auto simp: run_invalidation_def Let_def drained_ok_def gate_ok_def)
next
  case ResetWaits
  then show ?thesis
    using assms by (auto simp: run_invalidation_def Let_def drained_ok_def gate_ok_def)
next
  case FenceWaits
  then show ?thesis
    using assms by (auto simp: drained_ok_def gate_ok_def)
qed

lemma gate_drain_ok:
  assumes "ig_active g = k" and "drained_ok w (g\<lparr>ig_active := 0\<rparr>)"
  shows "gate_ok k (fst (drain E w g))"
proof (cases "ig_active g = 0")
  case True
  then have e: "g\<lparr>ig_active := 0\<rparr> = g" by simp
  have "drained_ok w g" using assms(2) unfolding e .
  then show ?thesis using assms(1) True continue_ok [of w g E] by (simp add: drain_def)
next
  case False
  have "waiting_ok (g\<lparr>ig_waiting := Some w\<rparr>) (Some w)"
    using assms(2) by (cases w) (auto simp: drained_ok_def)
  then show ?thesis
    using False assms by (auto simp: drain_def gate_ok_def drained_ok_def)
qed

lemma fence_disconnect_ok: "gate_ok k g \<Longrightarrow> gate_ok k (fst (fence_disconnect g n))"
proof -
  assume ok: "gate_ok k g"
  have "waiting_ok (g\<lparr>ig_last_disconnected := a\<rparr>) w = waiting_ok g w"
       "waiting_ok (g\<lparr>ig_last_disconnected := a, ig_latest := c\<rparr>) w = waiting_ok g w"
       "waiting_ok ((advance_epoch (g\<lparr>ig_last_disconnected := a, ig_latest := c\<rparr>))\<lparr>ig_disconnect_cleanup := d\<rparr>) w = waiting_ok g w"
    for a c d w
    by (cases "(g, w)" rule: waiting_ok.cases; simp add: advance_epoch_def)+
  then show ?thesis
    using ok by (auto simp: fence_disconnect_def gate_ok_def Let_def advance_epoch_def)
qed

lemma invalidate_facts_ok:
  assumes "gate_ok k g" and "ig_waiting g = None" and "\<not> ig_invalidated g" and "w = ResetWaits \<longrightarrow> ig_blocked g"
    and "w \<noteq> FenceWaits"
  shows "gate_ok k (fst (invalidate_facts E w g))"
  unfolding invalidate_facts_def
  by (rule gate_drain_ok) (use assms in \<open>cases w; auto simp: gate_ok_def drained_ok_def advance_epoch_def\<close>)+


lemma accept_ok:
  assumes "gate_ok k g" and "ig_waiting g = None"
  shows "gate_ok k (fst (accept E g n))"
proof (cases "ig_blocked g \<or> ig_disconnect_cleanup g \<noteq> 0 \<or> n \<le> ig_last_disconnected g \<or> n < ig_latest g")
  case True
  then show ?thesis using assms(1) by (auto simp: accept_def)
next
  case False
  then have ni: "\<not> ig_invalidated g" using assms(1) by (auto simp: gate_ok_def)
  have "gate_ok k (fst (activate E n (g\<lparr>ig_latest := n, ig_live := True\<rparr>)))"
    by (rule activate_ok) (use assms ni in \<open>auto simp: gate_ok_def\<close>)
  then show ?thesis
    using False activate_ok [OF assms ni] invalidate_facts_ok [OF assms ni, of "AcceptWaits n"]
    by (simp add: accept_def)
qed

lemma fence_disconnect_frame:
  "ig_waiting (fst (fence_disconnect g n)) = ig_waiting g" "ig_invalidated (fst (fence_disconnect g n)) = ig_invalidated g"
  by (simp_all add: fence_disconnect_def Let_def advance_epoch_def)

lemma observe_ok:
  assumes "gate_ok k g" and "ig_waiting g = None"
  shows "gate_ok k (fst (observe_disconnect E g n))"
proof (cases "ig_blocked g")
  case False
  then have ni: "\<not> ig_invalidated g" using assms(1) by (auto simp: gate_ok_def)
  have "gate_ok k (fst (invalidate_facts E ObserveWaits (fst (fence_disconnect g n))))"
    by (rule invalidate_facts_ok) (simp_all add: fence_disconnect_frame fence_disconnect_ok assms ni)
  then show ?thesis
    using False invalidate_facts_ok [OF assms ni, of ObserveWaits] fence_disconnect_ok [OF assms(1), of n] assms(1)
    by (simp add: observe_disconnect_def case_prod_beta)
qed (simp add: observe_disconnect_def assms)

lemma begin_reset_ok:
  assumes "gate_ok k g" and "ig_waiting g = None"
  shows "gate_ok k (fst (begin_backend_reset E g))"
proof (cases "ig_cleanup g")
  case True
  then have "\<not> ig_invalidated g" using assms(1) by (auto simp: gate_ok_def)
  then show ?thesis
    using True assms invalidate_facts_ok [OF assms, of ResetWaits] by (simp add: begin_backend_reset_def)
next
  case False
  have "gate_ok k (fst (invalidate_facts E ResetWaits (g\<lparr>ig_blocked := True, ig_invalidated := False\<rparr>)))"
    by (rule invalidate_facts_ok) (use assms in \<open>auto simp: gate_ok_def\<close>)
  then show ?thesis using False by (simp add: begin_backend_reset_def)
qed

lemma fence_reset_ok:
  assumes "gate_ok k g" and "ig_waiting g = None"
  shows "gate_ok k (fst (fence_backend_reset E g n))"
proof -
  have "gate_ok k (fst (drain E FenceWaits ((advance_epoch g)\<lparr>ig_invalidated := False, ig_blocked := True\<rparr>)))"
    by (rule gate_drain_ok) (use assms in \<open>auto simp: gate_ok_def drained_ok_def advance_epoch_def\<close>)
  then show ?thesis using assms(1) by (simp add: fence_backend_reset_def Let_def split: option.split)
qed

lemma replace_ok:
  assumes "gate_ok k g" and "ig_waiting g = None"
  shows "gate_ok k (fst (admit_backend_replacement E g n))"
  using assms by (auto simp: admit_backend_replacement_def gate_ok_def Let_def)

lemma wake_ok:
  assumes "gate_ok k g"
  shows "gate_ok k (fst (wake E g))"
proof (cases "ig_waiting g")
  case None
  then show ?thesis using assms by (simp add: wake_def)
next
  case (Some w)
  let ?g = "g\<lparr>ig_waiting := None\<rparr>"
  have w: "waiting_ok ?g (Some w)" using assms Some by (cases w) (auto simp: gate_ok_def)
  show ?thesis
  proof (cases "ig_active g = 0")
    case True
    have "drained_ok w ?g" using assms Some True w by (auto simp: gate_ok_def drained_ok_def)
    then have "gate_ok 0 (fst (continue_drained E w ?g))" by (rule continue_ok)
    then show ?thesis using Some True assms by (simp add: wake_def Let_def) (simp add: gate_ok_def)
  next
    case False
    have "gate_ok k (fail_drain w ?g)"
      using assms Some by (cases w) (auto simp: gate_ok_def drain_failed_def)
    then show ?thesis using Some False assms by (simp add: wake_def Let_def)
  qed
qed

lemma gate_step_inv:
  assumes "gate_inv s"
  shows "gate_inv (gate_step s x)"
proof -
  let ?g = "gs_gate s" and ?k = "int (length (gs_inside s))"
  have ok: "gate_ok ?k ?g" using assms by (simp add: gate_inv_def)
  have loop: "gate_inv (loop_call f s)" if "ig_waiting ?g = None \<Longrightarrow> gate_ok ?k (fst (f ?g))" for f
    using that assms by (simp add: loop_call_def gate_inv_def)
  have shift: "waiting_ok (?g\<lparr>ig_active := a\<rparr>) w = waiting_ok ?g w" for a w
    by (cases "(?g, w)" rule: waiting_ok.cases) simp_all
  show ?thesis
  proof (cases x)
    case (Enter t p)
    then show ?thesis
      using ok assms by (auto simp: guard_enter_def gate_inv_def gate_ok_def shift split: sum.split)
  next
    case (Leave t)
    have "int (length (remove1 t (gs_inside s))) = ?k - 1" if "t \<in> set (gs_inside s)"
      using of_nat_diff [of 1 "length (gs_inside s)", where ?'a = int] length_pos_if_in_set [OF that] that
      by (simp only: length_remove1 if_True Suc_le_eq One_nat_def of_nat_1 of_nat_Suc of_nat_0)
    then show ?thesis
      using Leave ok assms by (auto simp: guard_exit_def gate_inv_def gate_ok_def shift)
  next
    case (FenceDisconnect n)
    then show ?thesis using ok by (simp add: gate_inv_def fence_disconnect_ok)
  next
    case (Wake E)
    then show ?thesis using ok by (simp add: gate_inv_def wake_ok)
  qed (simp_all add: loop accept_ok observe_ok begin_reset_ok fence_reset_ok replace_ok ok)
qed


lemma new_gate_inv: "gate_inv (new_gate_system token)"
  by (simp add: gate_inv_def gate_ok_def new_gate_system_def new_ingress_gate_def)

section \<open>The outbound epoch\<close>

text \<open>The epoch never goes back, and whatever closes the gate advances it.\<close>

definition gate_forward :: "ingress_gate \<Rightarrow> ingress_gate \<Rightarrow> bool" where
  "gate_forward g g' =
     (ig_epoch g \<le> ig_epoch g' \<and> (ingress_closed g' \<longrightarrow> ingress_closed g \<or> ig_epoch g < ig_epoch g')
      \<and> ig_token g' = ig_token g)"

lemma forward_refl [simp]: "gate_forward g g"
  by (simp add: gate_forward_def)

lemma forward_activate: "gate_forward g (fst (activate E n g))"
  by (auto simp: gate_forward_def activate_def Let_def advance_epoch_def ingress_closed_def)

lemma forward_strict:
  "ig_epoch g < ig_epoch g' \<Longrightarrow> ig_token g' = ig_token g \<Longrightarrow> gate_forward g g'"
  by (simp add: gate_forward_def)

lemma continue_epoch:
  "ig_epoch g \<le> ig_epoch (fst (continue_drained E w g)) \<and> ig_token (fst (continue_drained E w g)) = ig_token g"
  by (cases w) (simp_all add: run_invalidation_def activate_def Let_def advance_epoch_def)

lemma drain_epoch:
  "ig_epoch g \<le> ig_epoch (fst (drain E w g)) \<and> ig_token (fst (drain E w g)) = ig_token g"
  using continue_epoch by (simp add: drain_def)

lemma forward_invalidate: "gate_forward g (fst (invalidate_facts E w g))"
  using drain_epoch [of "(advance_epoch g)\<lparr>ig_cleanup := True\<rparr>" E w]
  by (intro forward_strict) (simp_all add: invalidate_facts_def advance_epoch_def)

lemma forward_fence_disconnect: "gate_forward g (fst (fence_disconnect g n))"
  by (auto simp: fence_disconnect_def Let_def advance_epoch_def gate_forward_def ingress_closed_def)

lemma forward_accept: "gate_forward g (fst (accept E g n))"
proof -
  have "gate_forward g (fst (activate E n (g\<lparr>ig_latest := n, ig_live := True\<rparr>)))"
    using forward_activate [of "g\<lparr>ig_latest := n, ig_live := True\<rparr>" E n] by (simp add: gate_forward_def ingress_closed_def)
  then show ?thesis by (simp add: accept_def forward_activate forward_invalidate)
qed

lemma forward_trans: "gate_forward g g' \<Longrightarrow> ig_epoch g' < ig_epoch g'' \<Longrightarrow> ig_token g'' = ig_token g' \<Longrightarrow> gate_forward g g''"
  by (simp add: gate_forward_def)

lemma forward_observe: "gate_forward g (fst (observe_disconnect E g n))"
proof -
  have "gate_forward g (fst (invalidate_facts E ObserveWaits (fst (fence_disconnect g n))))"
    using drain_epoch [of "(advance_epoch (fst (fence_disconnect g n)))\<lparr>ig_cleanup := True\<rparr>" E ObserveWaits]
    by (intro forward_trans [OF forward_fence_disconnect]) (simp_all add: invalidate_facts_def advance_epoch_def)
  then show ?thesis
    by (simp add: observe_disconnect_def forward_invalidate forward_fence_disconnect case_prod_beta)
qed

lemma forward_begin: "gate_forward g (fst (begin_backend_reset E g))"
proof -
  have "gate_forward g (fst (invalidate_facts E ResetWaits (g\<lparr>ig_blocked := True, ig_invalidated := False\<rparr>)))"
    using drain_epoch [of "(advance_epoch (g\<lparr>ig_blocked := True, ig_invalidated := False\<rparr>))\<lparr>ig_cleanup := True\<rparr>" E ResetWaits]
    by (intro forward_strict) (simp_all add: invalidate_facts_def advance_epoch_def)
  then show ?thesis by (simp add: begin_backend_reset_def forward_invalidate)
qed

lemma forward_fence: "gate_forward g (fst (fence_backend_reset E g n))"
proof -
  have "gate_forward g (fst (drain E FenceWaits ((advance_epoch g)\<lparr>ig_invalidated := False, ig_blocked := True\<rparr>)))"
    using drain_epoch [of "(advance_epoch g)\<lparr>ig_invalidated := False, ig_blocked := True\<rparr>" E FenceWaits]
    by (intro forward_strict) (simp_all add: advance_epoch_def)
  then show ?thesis by (simp add: fence_backend_reset_def Let_def split: option.split)
qed

lemma forward_replace: "gate_forward g (fst (admit_backend_replacement E g n))"
  by (auto simp: admit_backend_replacement_def Let_def gate_forward_def ingress_closed_def)

lemma forward_wake: "gate_ok k g \<Longrightarrow> gate_forward g (fst (wake E g))"
proof (cases "ig_waiting g")
  case (Some w)
  assume ok: "gate_ok k g"
  have "ingress_closed g" using ok Some by (cases w) (auto simp: gate_ok_def ingress_closed_def)
  moreover have "ig_epoch (fail_drain w h) = ig_epoch h \<and> ig_token (fail_drain w h) = ig_token h" for h
    by (cases w) (simp_all add: drain_failed_def)
  ultimately show ?thesis
    using Some continue_epoch [of "g\<lparr>ig_waiting := None\<rparr>" E w] by (simp add: wake_def Let_def gate_forward_def)
qed (simp add: wake_def)

lemma gate_step_forward:
  assumes "gate_inv s"
  shows "gate_forward (gs_gate s) (gs_gate (gate_step s x))"
proof (cases x)
  case (Enter t p)
  then show ?thesis
    by (auto simp: guard_enter_def gate_forward_def ingress_closed_def split: sum.split)
next
  case (Leave t)
  then show ?thesis by (simp add: guard_exit_def gate_forward_def ingress_closed_def)
next
  case (Wake E)
  then show ?thesis using forward_wake assms by (simp add: gate_inv_def)
qed (simp_all add: loop_call_def forward_accept forward_observe forward_fence_disconnect forward_begin forward_fence forward_replace)

interpretation gate: epoch_system gate_step "new_gate_system token" gate_inv "\<lambda>s. ig_epoch (gs_gate s)"
  for token
proof
  show "gate_inv (new_gate_system token)" by (rule new_gate_inv)
  fix s x assume "gate_inv s"
  then show "gate_inv (gate_step s x)" "ig_epoch (gs_gate s) \<le> ig_epoch (gs_gate (gate_step s x))"
    using gate_step_inv gate_step_forward by (simp_all add: gate_forward_def)
qed

lemma run_token: "gate_inv s \<Longrightarrow> ig_token (gs_gate (run_ops gate_step s xs)) = ig_token (gs_gate s)"
proof (induction xs arbitrary: s)
  case (Cons x xs)
  then show ?case using Cons.IH [OF gate_step_inv [OF Cons.prems]] gate_step_forward [OF Cons.prems, of x] by (simp add: gate_forward_def)
qed simp

text \<open>An open gate that is at the same epoch later was never closed in between.\<close>

lemma same_epoch_open:
  assumes "gate_inv s" and "\<not> ingress_closed (gs_gate s)"
    and "ig_epoch (gs_gate (run_ops gate_step s (ys @ zs))) = ig_epoch (gs_gate s)"
  shows "ig_epoch (gs_gate (run_ops gate_step s ys)) = ig_epoch (gs_gate s) \<and> \<not> ingress_closed (gs_gate (run_ops gate_step s ys))"
  using assms
proof (induction ys arbitrary: s)
  case Nil
  then show ?case by simp
next
  case (Cons y ys)
  let ?s = "gate_step s y"
  have inv: "gate_inv ?s" by (rule gate_step_inv [OF Cons.prems(1)])
  have "ig_epoch (gs_gate s) \<le> ig_epoch (gs_gate ?s)" and
    "ig_epoch (gs_gate ?s) \<le> ig_epoch (gs_gate (run_ops gate_step ?s (ys @ zs)))"
    using gate.epoch_mono [OF Cons.prems(1)] gate.run_epoch_mono [OF inv] by simp_all
  then have e: "ig_epoch (gs_gate ?s) = ig_epoch (gs_gate s)" using Cons.prems(3) by simp
  then have "\<not> ingress_closed (gs_gate ?s)"
    using gate_step_forward [OF Cons.prems(1), of y] Cons.prems(2) by (simp add: gate_forward_def)
  then show ?case using Cons.IH [OF inv] Cons.prems(3) e by simp
qed

section \<open>Disconnected generations and the reset fence\<close>

lemma last_disconnected_ops:
  "ig_last_disconnected (fst (activate E n g)) = ig_last_disconnected g"
  "ig_last_disconnected (fst (continue_drained E w g)) = ig_last_disconnected g"
  "ig_last_disconnected (fst (drain E w g)) = ig_last_disconnected g"
  "ig_last_disconnected (fst (invalidate_facts E w g)) = ig_last_disconnected g"
  "ig_last_disconnected (fail_drain w g) = ig_last_disconnected g"
  "ig_last_disconnected (fst (wake E g)) = ig_last_disconnected g"
proof -
  show a: "ig_last_disconnected (fst (activate E n g)) = ig_last_disconnected g" for E n g
    by (simp add: activate_def Let_def advance_epoch_def)
  show c: "ig_last_disconnected (fst (continue_drained E w g)) = ig_last_disconnected g" for E w g
    by (cases w) (simp_all add: run_invalidation_def a Let_def)
  show d: "ig_last_disconnected (fst (drain E w g)) = ig_last_disconnected g" for E w g
    by (simp add: drain_def c)
  show "ig_last_disconnected (fst (invalidate_facts E w g)) = ig_last_disconnected g"
    by (simp add: invalidate_facts_def d advance_epoch_def)
  show f: "ig_last_disconnected (fail_drain w g) = ig_last_disconnected g" for w g
    by (cases w) (simp_all add: drain_failed_def)
  show "ig_last_disconnected (fst (wake E g)) = ig_last_disconnected g"
    by (simp add: wake_def Let_def c f split: option.split)
qed

lemma last_disconnected_fence: "ig_last_disconnected g \<le> ig_last_disconnected (fst (fence_disconnect g n))"
  by (simp add: fence_disconnect_def Let_def advance_epoch_def)

lemma last_disconnected_step:
  "ig_last_disconnected (gs_gate s) \<le> ig_last_disconnected (gs_gate (gate_step s x))"
proof (cases x)
  case (Enter t p)
  then show ?thesis by (auto simp: guard_enter_def split: sum.split)
next
  case (AcceptCall E n)
  then show ?thesis by (simp add: loop_call_def accept_def last_disconnected_ops)
next
  case (ObserveCall E n)
  then show ?thesis
    by (simp add: loop_call_def observe_disconnect_def last_disconnected_ops last_disconnected_fence case_prod_beta)
next
  case (BeginReset E)
  then show ?thesis by (simp add: loop_call_def begin_backend_reset_def last_disconnected_ops)
next
  case (FenceReset E n)
  then show ?thesis
    by (simp add: loop_call_def fence_backend_reset_def Let_def last_disconnected_ops advance_epoch_def split: option.split)
next
  case (Replace E n)
  then show ?thesis by (auto simp: loop_call_def admit_backend_replacement_def Let_def)
qed (simp_all add: guard_exit_def last_disconnected_fence last_disconnected_ops)

lemma last_disconnected_run:
  "ig_last_disconnected (gs_gate s) \<le> ig_last_disconnected (gs_gate (run_ops gate_step s xs))"
proof (induction xs arbitrary: s)
  case (Cons x xs)
  show ?case using last_disconnected_step [of s x] Cons [of "gate_step s x"] by simp
qed simp

text \<open>The reset fence comes off by an admitted replacement only.\<close>

lemma blocked_ops:
  "ig_blocked g \<Longrightarrow> ig_blocked (fst (activate E n g))"
  "ig_blocked g \<Longrightarrow> ig_blocked (fst (continue_drained E w g))"
  "ig_blocked g \<Longrightarrow> ig_blocked (fst (drain E w g))"
  "ig_blocked g \<Longrightarrow> ig_blocked (fst (invalidate_facts E w g))"
  "ig_blocked (fail_drain w g)"
  "ig_blocked g \<Longrightarrow> ig_blocked (fst (wake E g))"
proof -
  show a: "ig_blocked g \<Longrightarrow> ig_blocked (fst (activate E n g))" for E n g
    by (simp add: activate_def Let_def advance_epoch_def)
  show c: "ig_blocked g \<Longrightarrow> ig_blocked (fst (continue_drained E w g))" for E w g
    by (cases w) (simp_all add: run_invalidation_def a Let_def)
  show d: "ig_blocked g \<Longrightarrow> ig_blocked (fst (drain E w g))" for E w g
    by (simp add: drain_def c)
  show "ig_blocked g \<Longrightarrow> ig_blocked (fst (invalidate_facts E w g))"
    by (simp add: invalidate_facts_def d advance_epoch_def)
  show f: "ig_blocked (fail_drain w g)" for w g by (cases w) (simp_all add: drain_failed_def)
  show "ig_blocked g \<Longrightarrow> ig_blocked (fst (wake E g))"
    by (simp add: wake_def Let_def c f split: option.split)
qed

definition replaced_by :: "gate_system \<Rightarrow> gate_op \<Rightarrow> bool" where
  "replaced_by s x =
     (\<exists>E n. x = Replace E n \<and> snd (admit_backend_replacement E (gs_gate s) n) = Finishes
        \<and> ig_invalidated (gs_gate s) \<and> \<not> ig_cleanup (gs_gate s) \<and> pe_publish_ok E
        \<and> max (ig_latest (gs_gate s)) (ig_last_disconnected (gs_gate s)) < n)"

lemma blocked_step:
  assumes b: "ig_blocked (gs_gate s)"
  shows "ig_blocked (gs_gate (gate_step s x)) \<or> replaced_by s x"
proof (cases x)
  case (Enter t p)
  then show ?thesis using b by (auto simp: guard_enter_def split: sum.split)
next
  case (BeginReset E)
  then show ?thesis using b by (simp add: loop_call_def begin_backend_reset_def blocked_ops)
next
  case (FenceReset E n)
  then show ?thesis
    using b by (simp add: loop_call_def fence_backend_reset_def Let_def blocked_ops advance_epoch_def split: option.split)
next
  case (Replace E n)
  then show ?thesis
    using b by (auto simp: loop_call_def admit_backend_replacement_def Let_def replaced_by_def)
qed (use b in \<open>simp_all add: guard_exit_def loop_call_def accept_def observe_disconnect_def fence_disconnect_def blocked_ops\<close>)

lemma blocked_run:
  assumes "ig_blocked (gs_gate s)" and "\<not> ig_blocked (gs_gate (run_ops gate_step s xs))"
  shows "\<exists>ys x zs. xs = ys @ x # zs \<and> replaced_by (run_ops gate_step s ys) x"
  using assms
proof (induction xs arbitrary: s)
  case (Cons x xs)
  show ?case
  proof (cases "replaced_by s x")
    case True
    then have "x # xs = [] @ x # xs \<and> replaced_by (run_ops gate_step s []) x" by simp
    then show ?thesis by blast
  next
    case False
    then have "ig_blocked (gs_gate (gate_step s x))" using blocked_step [OF Cons.prems(1)] by blast
    then obtain ys y zs where "xs = ys @ y # zs" "replaced_by (run_ops gate_step (gate_step s x) ys) y"
      using Cons.IH [of "gate_step s x"] Cons.prems(2) by auto
    then have "x # xs = (x # ys) @ y # zs \<and> replaced_by (run_ops gate_step s (x # ys)) y" by simp
    then show ?thesis by blast
  qed
qed simp

section \<open>Properties\<close>

lemma gate_reach: "gate_inv (run_ops gate_step (new_gate_system token) xs)"
  by (rule gate.reach_inv)

text \<open>
  Drained before invalidated: from the start, whatever the callers, ports and timeouts do,
  the transport count is the number of callers inside the write guard, connection facts are
  only ever invalidated while nothing is writing, a suspended call keeps ordinary ingress
  closed, and an incomplete cleanup is behind the reset fence.
\<close>

theorem gate_reachable_inv:
  "gate_inv (run_ops gate_step (new_gate_system token) xs)"
  by (rule gate.reach_inv)

text \<open>
  C16. A permit dies with its epoch: when a request enters the write guard or is confirmed, the
  gate was open and at the permit's epoch at every moment since the permit was issued, however
  disconnects, resets and replacements were interleaved.
\<close>

theorem permit_epoch_uninterrupted:
  assumes "s = run_ops gate_step (new_gate_system token) ws"
    and "issue_outbound_request (gs_gate s) method = Inr p"
    and "snd (guard_enter (gs_gate (run_ops gate_step s xs)) (Some p)) = Inr ()
      \<or> confirm_outbound_request (gs_gate (run_ops gate_step s xs)) (Some p) = Inr ()"
    and "xs = ys @ zs"
  shows "ig_epoch (gs_gate (run_ops gate_step s ys)) = pm_epoch p \<and> \<not> ingress_closed (gs_gate (run_ops gate_step s ys))"
proof -
  have inv: "gate_inv s" unfolding assms(1) by (rule gate_reach)
  have p: "pm_epoch p = ig_epoch (gs_gate s)" and op: "\<not> ingress_closed (gs_gate s)"
    using assms(2) by (auto simp: issue_outbound_request_def split: if_splits)
  have "\<not> permit_stale (gs_gate (run_ops gate_step s xs)) p"
    using assms(3) by (auto simp: guard_enter_def confirm_outbound_request_def validate_permit_def bindr_elims split: if_splits)
  then have "ig_epoch (gs_gate (run_ops gate_step s (ys @ zs))) = ig_epoch (gs_gate s)"
    using p assms(4) by (simp add: permit_stale_def)
  from same_epoch_open [OF inv op this] show ?thesis by (simp add: p)
qed

text \<open>
  The published endpoint: a non-empty endpoint is returned only when the gate stayed open in
  one epoch from the first look to the second, so no reset completed in between.
\<close>

theorem endpoint_from_one_epoch:
  assumes "s = run_ops gate_step (new_gate_system token) ws"
    and "resolve_published_backend_endpoint (gs_gate s) (gs_gate (run_ops gate_step s xs)) endpoint \<noteq> []"
    and "xs = ys @ zs"
  shows "ig_epoch (gs_gate (run_ops gate_step s ys)) = ig_epoch (gs_gate s) \<and> \<not> ingress_closed (gs_gate (run_ops gate_step s ys))"
proof -
  have inv: "gate_inv s" unfolding assms(1) by (rule gate_reach)
  have op: "\<not> ingress_closed (gs_gate s)"
    and e: "ig_epoch (gs_gate (run_ops gate_step s (ys @ zs))) = ig_epoch (gs_gate s)"
    using assms(2,3) by (auto simp: resolve_published_backend_endpoint_def resolve_first_def resolve_second_def split: if_splits)
  show ?thesis by (rule same_epoch_open [OF inv op e])
qed

text \<open>
A disconnected generation stays out: once a generation, or a later one, was recorded as
  disconnected, no callback of it that arrives afterwards is admitted, and asking changes nothing.
\<close>

theorem disconnected_generation_rejected:
  assumes "n \<le> ig_last_disconnected (gs_gate s)"
  shows "accept E (gs_gate (run_ops gate_step s xs)) n = (gs_gate (run_ops gate_step s xs), Returns False)"
  using assms last_disconnected_run [of s xs] by (simp add: accept_def)

text \<open>
  The reset fence is sticky: once closed, the gate opens only when a replacement with a
  strictly newer generation is published and admitted after the old epoch was completely
  invalidated; no callback, disconnect, retry or failure opens it.
\<close>

theorem reset_fence_is_sticky:
  assumes "ig_blocked (gs_gate s)" and "\<not> ig_blocked (gs_gate (run_ops gate_step s xs))"
  shows "\<exists>ys E n zs. xs = ys @ Replace E n # zs
    \<and> snd (admit_backend_replacement E (gs_gate (run_ops gate_step s ys)) n) = Finishes
    \<and> ig_invalidated (gs_gate (run_ops gate_step s ys)) \<and> \<not> ig_cleanup (gs_gate (run_ops gate_step s ys))
    \<and> ig_latest (gs_gate (run_ops gate_step s ys)) < n \<and> ig_last_disconnected (gs_gate (run_ops gate_step s ys)) < n"
  using blocked_run [OF assms] unfolding replaced_by_def by (metis max_less_iff_conj)

section \<open>Witnesses\<close>

definition demo_ports :: port_env where
  "demo_ports = \<lparr>pe_invalidate_ok = True, pe_activate_ok = True, pe_publish_ok = True, pe_timed_out = False\<rparr>"

definition demo_permit :: gate_permit where
  "demo_permit = \<lparr>pm_epoch = 1, pm_method = ''m'', pm_token = 5\<rparr>"

definition demo_open :: gate_system where
  "demo_open = run_ops gate_step (new_gate_system 5) [AcceptCall demo_ports 1]"

theorem permit_epoch_uninterrupted_witness:
  "ig_epoch (gs_gate (run_ops gate_step demo_open [AcceptCall demo_ports 1])) = 1"
proof -
  have i: "issue_outbound_request (gs_gate demo_open) ''m'' = Inr demo_permit" by code_simp
  have e: "snd (guard_enter (gs_gate (run_ops gate_step demo_open [AcceptCall demo_ports 1, FenceDisconnect 0])) (Some demo_permit)) = Inr ()"
    by code_simp
  have p: "pm_epoch demo_permit = 1" by code_simp
  show ?thesis
    using permit_epoch_uninterrupted [OF demo_open_def i disjI1 [OF e], of "[AcceptCall demo_ports 1]" "[FenceDisconnect 0]"] p
    by simp
qed

theorem endpoint_from_one_epoch_witness:
  "\<not> ingress_closed (gs_gate (run_ops gate_step demo_open [AcceptCall demo_ports 1]))"
proof -
  have e: "resolve_published_backend_endpoint (gs_gate demo_open)
      (gs_gate (run_ops gate_step demo_open [AcceptCall demo_ports 1])) ''ws://b '' \<noteq> []" by code_simp
  show ?thesis using endpoint_from_one_epoch [OF demo_open_def e, of "[AcceptCall demo_ports 1]" "[]"] by simp
qed

theorem disconnected_generation_rejected_witness:
  "snd (accept demo_ports (gs_gate (run_ops gate_step (gate_step demo_open (FenceDisconnect 1)) [ObserveCall demo_ports 1])) 1) = Returns False"
proof -
  have "1 \<le> ig_last_disconnected (gs_gate (gate_step demo_open (FenceDisconnect 1)))" by code_simp
  from disconnected_generation_rejected [OF this, of demo_ports "[ObserveCall demo_ports 1]"] show ?thesis by simp
qed

definition demo_reset :: "gate_op list" where
  "demo_reset = [BeginReset demo_ports, Replace demo_ports 2]"

theorem reset_fence_is_sticky_witness:
  "\<exists>ys E n zs. demo_reset = ys @ Replace E n # zs
    \<and> ig_invalidated (gs_gate (run_ops gate_step (gate_step demo_open (FenceReset demo_ports (Some 1))) ys))"
proof -
  have b: "ig_blocked (gs_gate (gate_step demo_open (FenceReset demo_ports (Some 1))))"
    and u: "\<not> ig_blocked (gs_gate (run_ops gate_step (gate_step demo_open (FenceReset demo_ports (Some 1))) demo_reset))"
    by code_simp+
  from reset_fence_is_sticky [OF b u] show ?thesis by blast
qed

text \<open>
  The lock is given back while a drain waits, and \<open>accept\<close> does not look at the fence again
  when it goes on: here generation 2 is admitted and activated although the reader has
  already recorded its disconnect. The pending disconnect cleanup repairs it later.
\<close>

lemma suspended_accept_admits_disconnected:
  "let s = run_ops gate_step demo_open [Enter 0 (Some demo_permit), AcceptCall demo_ports 2, FenceDisconnect 2, Leave 0]
   in snd (wake demo_ports (gs_gate s)) = Returns True \<and> ig_last_disconnected (gs_gate s) = 2
      \<and> last (ig_calls (fst (wake demo_ports (gs_gate s)))) = ActivateEpoch 2"
  by code_simp

end
