(* ===== verification/Binding_Directory.thy ===== *)
theory Binding_Directory
  imports Execution_Queue
begin

text \<open>
  Two small tables keyed by Feishu bindings: the administrative binding ids
  (\<open>bot/binding_identity.py\<close>) and the subscriptions of bindings to threads
  (\<open>bot/thread_subscription_registry.py\<close>). A Python set of bindings is a HOL set; the calls of
  the membership listener, whose exceptions the code swallows, are the list \<open>sr_notified\<close>.
\<close>

section \<open>Binding ids\<close>

definition validate_component :: "string \<Rightarrow> string option" where
  "validate_component value =
     (let n = strip value in if n = [] then None else if CHR '':'' \<in> set n then None else Some n)"

definition is_group_binding :: "binding \<Rightarrow> bool" where
  "is_group_binding b = (fst b = GROUP_SHARED_BINDING_OWNER_ID)"

text \<open>\<open>None\<close> is \<open>ValueError\<close>.\<close>

definition format_binding_id :: "binding \<Rightarrow> string option" where
  "format_binding_id b =
     (case validate_component (snd b) of
        None \<Rightarrow> None
      | Some chat \<Rightarrow>
          if is_group_binding b then Some (''group:'' @ chat)
          else (case validate_component (fst b) of
                  None \<Rightarrow> None
                | Some sender \<Rightarrow> Some (''p2p:'' @ sender @ '':'' @ chat)))"

definition starts_with :: "string \<Rightarrow> string \<Rightarrow> bool" where
  "starts_with p s = (take (length p) s = p)"

text \<open>\<open>s.split(":", 1)\<close>: what is before the first colon, and what is after it if there is one.\<close>

definition split_colon :: "string \<Rightarrow> string \<times> string option" where
  "split_colon s =
     (case dropWhile (\<lambda>c. c \<noteq> CHR '':'') s of [] \<Rightarrow> (s, None) | _ # rest \<Rightarrow> (takeWhile (\<lambda>c. c \<noteq> CHR '':'') s, Some rest))"

definition parse_binding_id :: "string \<Rightarrow> binding option" where
  "parse_binding_id binding_id =
     (let n = strip binding_id
      in if starts_with ''group:'' n
         then map_option (\<lambda>chat. (GROUP_SHARED_BINDING_OWNER_ID, chat)) (validate_component (strip (drop 6 n)))
         else if starts_with ''p2p:'' n
         then (case split_colon (drop 4 n) of
                 (_, None) \<Rightarrow> None
               | (sender, Some chat) \<Rightarrow>
                   (case validate_component sender of
                      None \<Rightarrow> None
                    | Some s \<Rightarrow> map_option (\<lambda>c. (s, c)) (validate_component chat)))
         else None)"

lemma validate_component_Some:
  "validate_component v = Some n \<longleftrightarrow> n = strip v \<and> n \<noteq> [] \<and> CHR '':'' \<notin> set n"
  by (auto simp: validate_component_def Let_def)

lemma strip_append_fixed:
  assumes "c \<noteq> []" and "strip c = c" and "x \<noteq> []" and "\<not> py_space (hd x)"
  shows "strip (x @ c) = x @ c"
  using assms by (auto simp: strip_fix)

lemma split_colon_first:
  "CHR '':'' \<notin> set a \<Longrightarrow> split_colon (a @ CHR '':'' # c) = (a, Some c)"
  by (induction a) (auto simp: split_colon_def split: list.splits)

lemma split_colon_Some:
  assumes "split_colon s = (a, Some c)"
  shows "s = a @ CHR '':'' # c \<and> CHR '':'' \<notin> set a"
proof -
  obtain y where d: "dropWhile (\<lambda>c. c \<noteq> CHR '':'') s = y # c" and a: "a = takeWhile (\<lambda>c. c \<noteq> CHR '':'') s"
    using assms by (auto simp: split_colon_def split: list.splits)
  have "y = CHR '':''" using hd_dropWhile [of "\<lambda>c. c \<noteq> CHR '':''" s] d by auto
  moreover have "s = a @ y # c" using takeWhile_dropWhile_id [of "\<lambda>c. c \<noteq> CHR '':''" s] d a by simp
  moreover have "CHR '':'' \<notin> set a" using a by (auto dest: set_takeWhileD)
  ultimately show ?thesis by simp
qed

lemma group_owner_fixed: "strip GROUP_SHARED_BINDING_OWNER_ID = GROUP_SHARED_BINDING_OWNER_ID"
  by code_simp

lemma parse_formatted:
  assumes "format_binding_id b = Some i"
  shows "parse_binding_id i = Some (strip (fst b), strip (snd b))"
proof -
  let ?c = "strip (snd b)" and ?s = "strip (fst b)"
  have c: "?c \<noteq> []" "CHR '':'' \<notin> set ?c" "validate_component ?c = Some ?c"
    using assms by (auto simp: format_binding_id_def validate_component_Some split: option.splits)
  have g: "\<not> py_space (CHR ''g'')" "\<not> py_space (CHR ''p'')" by code_simp+
  show ?thesis
  proof (cases "is_group_binding b")
    case True
    have i: "i = ''group:'' @ ?c"
      using assms True by (auto simp: format_binding_id_def validate_component_Some split: option.splits)
    have "strip i = i" unfolding i by (rule strip_append_fixed) (simp_all add: c g)
    then show ?thesis
      using True c by (simp add: parse_binding_id_def Let_def i starts_with_def is_group_binding_def group_owner_fixed)
  next
    case False
    have i: "i = ''p2p:'' @ ?s @ '':'' @ ?c" and s: "?s \<noteq> []" "CHR '':'' \<notin> set ?s" "validate_component ?s = Some ?s"
      using assms False by (auto simp: format_binding_id_def validate_component_Some split: option.splits)
    have "strip ((''p2p:'' @ ?s @ '':'') @ ?c) = (''p2p:'' @ ?s @ '':'') @ ?c"
      by (rule strip_append_fixed) (simp_all add: c g)
    then have "strip i = i" by (simp add: i)
    then show ?thesis
      using c s split_colon_first [of ?s ?c] by (simp add: parse_binding_id_def Let_def i starts_with_def)
  qed
qed

lemma format_parsed:
  assumes "parse_binding_id i = Some b"
  shows "\<exists>j. format_binding_id b = Some j"
proof -
  have again: "validate_component v = Some n \<Longrightarrow> validate_component n = Some n" for v n
    by (auto simp: validate_component_Some)
  show ?thesis
    using assms
    by (auto simp: parse_binding_id_def Let_def format_binding_id_def is_group_binding_def
        split: if_splits option.splits prod.splits dest: again)
qed

section \<open>Subscriptions\<close>

record subscription_registry =
  sr_subscribers :: "(string, binding set) dict"
  sr_notified :: "string list"

definition new_subscription_registry :: subscription_registry where
  "new_subscription_registry = \<lparr>sr_subscribers = [], sr_notified = []\<rparr>"

definition subscribed :: "subscription_registry \<Rightarrow> string \<Rightarrow> binding set" where
  "subscribed r t = (case map_of (sr_subscribers r) t of None \<Rightarrow> {} | Some bs \<Rightarrow> bs)"

definition notify_membership_changed :: "subscription_registry \<Rightarrow> string \<Rightarrow> subscription_registry" where
  "notify_membership_changed r t = r\<lparr>sr_notified := sr_notified r @ [t]\<rparr>"

definition subscribe :: "subscription_registry \<Rightarrow> binding \<Rightarrow> string \<Rightarrow> subscription_registry \<times> bool" where
  "subscribe r b thread_id =
     (let t = strip thread_id
      in if t = [] then (r, False)
         else let before = subscribed r t;
                  r1 = r\<lparr>sr_subscribers := AList.update t (insert b before) (sr_subscribers r)\<rparr>
              in (if b \<notin> before then notify_membership_changed r1 t else r1, before = {}))"

definition unsubscribe :: "subscription_registry \<Rightarrow> binding \<Rightarrow> string \<Rightarrow> subscription_registry \<times> bool" where
  "unsubscribe r b thread_id =
     (let t = strip thread_id
      in if t = [] then (r, False)
         else let before = subscribed r t;
                  rest = before - {b};
                  r1 = (if b \<in> before
                        then notify_membership_changed
                               (r\<lparr>sr_subscribers := (if rest = {} then AList.delete t (sr_subscribers r)
                                                      else AList.update t rest (sr_subscribers r))\<rparr>) t
                        else r)
              in (r1, map_of (sr_subscribers r1) t = None))"

definition subscribers :: "subscription_registry \<Rightarrow> string \<Rightarrow> binding list" where
  "subscribers r thread_id = sorted_list_of_set (subscribed r (strip thread_id))"

definition clear_subscriptions :: "subscription_registry \<Rightarrow> subscription_registry" where
  "clear_subscriptions r = \<lparr>sr_subscribers = [], sr_notified = sr_notified r @ dkeys (sr_subscribers r)\<rparr>"

datatype subscription_op = Subscribe binding string | Unsubscribe binding string | ClearAll

fun subscription_step :: "subscription_registry \<Rightarrow> subscription_op \<Rightarrow> subscription_registry" where
  "subscription_step r (Subscribe b t) = fst (subscribe r b t)"
| "subscription_step r (Unsubscribe b t) = fst (unsubscribe r b t)"
| "subscription_step r ClearAll = clear_subscriptions r"

definition subscriptions_inv :: "subscription_registry \<Rightarrow> bool" where
  "subscriptions_inv r =
     (dict_wf (sr_subscribers r)
      \<and> (\<forall>t bs. map_of (sr_subscribers r) t = Some bs \<longrightarrow> t \<noteq> [] \<and> bs \<noteq> {} \<and> finite bs))"

lemma subscription_step_inv: "subscriptions_inv r \<Longrightarrow> subscriptions_inv (subscription_step r x)"
proof (cases x)
  case (Subscribe b t)
  assume "subscriptions_inv r"
  then show ?thesis
    unfolding Subscribe subscriptions_inv_def
    by (auto simp: subscribe_def Let_def notify_membership_changed_def update_conv' subscribed_def split: option.splits)
next
  case (Unsubscribe b t)
  assume "subscriptions_inv r"
  then show ?thesis
    unfolding Unsubscribe subscriptions_inv_def
    by (auto simp: unsubscribe_def Let_def notify_membership_changed_def update_conv' delete_conv' subscribed_def split: option.splits)
next
  case ClearAll
  then show ?thesis by (simp add: clear_subscriptions_def subscriptions_inv_def)
qed

interpretation subscriptions: step_system subscription_step new_subscription_registry subscriptions_inv
proof
  show "subscriptions_inv new_subscription_registry" by (simp add: new_subscription_registry_def subscriptions_inv_def)
qed (rule subscription_step_inv)

text \<open>The abstract registry: the set of (binding, thread) pairs.\<close>

fun spec_subscription :: "(binding \<times> string) set \<Rightarrow> subscription_op \<Rightarrow> (binding \<times> string) set" where
  "spec_subscription R (Subscribe b t) = (if strip t = [] then R else insert (b, strip t) R)"
| "spec_subscription R (Unsubscribe b t) = R - {(b, strip t)}"
| "spec_subscription R ClearAll = {}"

definition pairs_of :: "subscription_registry \<Rightarrow> (binding \<times> string) set" where
  "pairs_of r = {p. fst p \<in> subscribed r (snd p)}"

lemma subscribed_update: "subscribed (r\<lparr>sr_subscribers := AList.update t bs (sr_subscribers r)\<rparr>) t' = (if t' = t then bs else subscribed r t')"
  by (simp add: subscribed_def update_conv')

lemma subscribed_delete: "subscribed (r\<lparr>sr_subscribers := AList.delete t (sr_subscribers r)\<rparr>) t' = (if t' = t then {} else subscribed r t')"
  by (simp add: subscribed_def delete_conv')

lemma subscribed_notify [simp]: "subscribed (notify_membership_changed r t) t' = subscribed r t'"
  by (simp add: subscribed_def notify_membership_changed_def)

lemma subscribed_step:
  assumes "subscriptions_inv r"
  shows "(b, t) \<in> pairs_of (subscription_step r x) \<longleftrightarrow> (b, t) \<in> spec_subscription (pairs_of r) x"
proof -
  have blank: "subscribed r [] = {}"
    using assms by (cases "map_of (sr_subscribers r) []") (auto simp: subscriptions_inv_def subscribed_def)
  show ?thesis
  proof (cases x)
    case (Subscribe c u)
    then show ?thesis by (auto simp: subscribe_def Let_def pairs_of_def subscribed_update split: if_splits)
  next
    case (Unsubscribe c u)
    then show ?thesis
      using blank by (auto simp: unsubscribe_def Let_def pairs_of_def subscribed_update subscribed_delete split: if_splits)
  next
    case ClearAll
    then show ?thesis by (simp add: clear_subscriptions_def pairs_of_def subscribed_def)
  qed
qed

lemma pairs_of_run:
  "subscriptions_inv r \<Longrightarrow> pairs_of (run_ops subscription_step r xs) = run_ops spec_subscription (pairs_of r) xs"
proof (induction xs arbitrary: r)
  case (Cons x xs)
  have "pairs_of (subscription_step r x) = spec_subscription (pairs_of r) x"
    using subscribed_step [OF Cons.prems] by auto
  then show ?case using Cons.IH [OF subscription_step_inv [OF Cons.prems]] by simp
qed simp

section \<open>Properties\<close>

text \<open>
  Binding ids are unambiguous: a formatted id parses back to the normalised binding, and
  the parsed binding has an id of its own that parses to it again.
\<close>

theorem binding_id_roundtrip:
  assumes "format_binding_id b = Some i"
  shows "parse_binding_id i = Some (strip (fst b), strip (snd b))
    \<and> (\<exists>j. format_binding_id (strip (fst b), strip (snd b)) = Some j
          \<and> parse_binding_id j = Some (strip (fst b), strip (snd b)))"
proof -
  have p: "parse_binding_id i = Some (strip (fst b), strip (snd b))" by (rule parse_formatted [OF assms])
  then obtain j where j: "format_binding_id (strip (fst b), strip (snd b)) = Some j" using format_parsed by blast
  with p parse_formatted [OF j] show ?thesis by simp
qed

theorem binding_id_roundtrip_witness:
  "parse_binding_id ''p2p:ou_1:oc_2'' = Some (''ou_1'', ''oc_2'')"
proof -
  have f: "format_binding_id ('' ou_1'', ''oc_2'') = Some ''p2p:ou_1:oc_2''"
    and n: "strip (fst ('' ou_1'', ''oc_2'')) = ''ou_1''" "strip (snd ('' ou_1'', ''oc_2'')) = ''oc_2''"
    by code_simp+
  show ?thesis using binding_id_roundtrip [OF f] unfolding n by blast
qed

text \<open>
  Subscriptions are a set of (binding, thread) pairs: over any calls the registry holds
  exactly the pairs the abstract set operations give, so a thread whose last subscriber left
  is gone, and clearing leaves nothing.
\<close>

theorem subscriptions_refine_pairs:
  "pairs_of (run_ops subscription_step new_subscription_registry xs) = run_ops spec_subscription {} xs"
proof -
  have "pairs_of new_subscription_registry = {}" by (simp add: pairs_of_def subscribed_def new_subscription_registry_def)
  then show ?thesis using pairs_of_run [OF subscriptions.init_inv, of xs] by simp
qed

end
