(* ===== verification/Thread_Create.thy ===== *)
theory Thread_Create
  imports Focus_Prelude
begin

text \<open>
  Creating threads (\<open>bot/thread_create_transaction.py\<close>): one upstream request and its local
  consequences, and the process-local capabilities under which fcodex sends
  \<open>thread/start\<close> itself.

  Objects compared with \<open>is\<close> have an address: \<open>ca_addr\<close> is the identity of an attempt, and
  \<open>ca_authority\<close> that of the token of the transaction that issued it. The adapter, the
  lease, the settings registry, the caller's commit and the id source are the environment of
  a call; the calls made to them are the list \<open>cs_calls\<close>. The id source is a function of how
  many ids were drawn before.
\<close>

datatype failure = PortFailure nat | MissingThreadId | InvalidPage

record create_attempt =
  ca_id :: string
  ca_generation :: int
  ca_authority :: nat
  ca_addr :: nat

datatype create_call = SendCreate | SendFork string | CreateAcquire string | CreateRecord string | CreateCommit string

record create_state =
  cs_authority :: nat
  cs_generation :: int
  cs_attempts :: "(string, create_attempt) dict"
  cs_drawn :: nat
  cs_next_addr :: nat
  cs_calls :: "create_call list"

text \<open>
  \<open>ce_snapshot\<close> is what the adapter returned: \<open>None\<close> when it is not a thread snapshot, and
  otherwise the thread id in its summary. \<open>ce_no_effect\<close> is the classifier of failures;
  \<open>None\<close> when it raises itself.
\<close>

record create_env =
  ce_ids :: "nat \<Rightarrow> string"
  ce_snapshot :: "failure + string option"
  ce_acquire :: "failure option"
  ce_record :: "failure option"
  ce_commit :: "failure option"
  ce_no_effect :: "failure \<Rightarrow> bool option"

datatype create_stage = StageLease | StageSettings | StageOwner | StageSource

datatype create_exn =
    CreateValueError
  | CreateRaised failure
  | CreateOutcomeUnknown string failure
  | CreateCommitFailed string string create_stage failure
  | CreateStale string

definition new_create_state :: "nat \<Rightarrow> create_state" where
  "new_create_state token =
     \<lparr>cs_authority = token, cs_generation = 0, cs_attempts = [], cs_drawn = 0, cs_next_addr = 0, cs_calls = []\<rparr>"

section \<open>Operations\<close>

definition next_attempt_id :: "create_env \<Rightarrow> create_state \<Rightarrow> create_state \<times> (create_exn + string)" where
  "next_attempt_id E s =
     (let i = strip (ce_ids E (cs_drawn s)); s1 = s\<lparr>cs_drawn := cs_drawn s + 1\<rparr>
      in (s1, if i = [] then Inl CreateValueError else Inr i))"

definition create_failure_known :: "create_env \<Rightarrow> failure \<Rightarrow> bool" where
  "create_failure_known E f = (ce_no_effect E f = Some True)"

definition snapshot_thread_id :: "string option \<Rightarrow> string" where
  "snapshot_thread_id snapshot = (case snapshot of None \<Rightarrow> [] | Some t \<Rightarrow> strip t)"

definition create_port :: "create_call \<Rightarrow> create_state \<Rightarrow> create_state" where
  "create_port c s = s\<lparr>cs_calls := cs_calls s @ [c]\<rparr>"

text \<open>The result of a completed create is the thread id of the response.\<close>

definition create_and_commit_thread ::
  "create_env \<Rightarrow> create_state \<Rightarrow> string \<Rightarrow> create_state \<times> (create_exn + string)" where
  "create_and_commit_thread E s fork_from =
     bindc (next_attempt_id E s) (\<lambda>s1 attempt.
       let s2 = create_port (if fork_from \<noteq> [] then SendFork fork_from else SendCreate) s1
       in case ce_snapshot E of
            Inl f \<Rightarrow> (s2, Inl (if create_failure_known E f then CreateRaised f else CreateOutcomeUnknown attempt f))
          | Inr snapshot \<Rightarrow>
              (let t = snapshot_thread_id snapshot
               in if t = [] then (s2, Inl (CreateOutcomeUnknown attempt MissingThreadId))
                  else let s3 = create_port (CreateAcquire t) s2
                  in case ce_acquire E of
                       Some f \<Rightarrow> (s3, Inl (CreateCommitFailed attempt t StageLease f))
                     | None \<Rightarrow>
                         (let s4 = create_port (CreateRecord t) s3
                          in case ce_record E of
                               Some f \<Rightarrow> (s4, Inl (CreateCommitFailed attempt t StageSettings f))
                             | None \<Rightarrow>
                                 (let s5 = create_port (CreateCommit t) s4
                                  in case ce_commit E of
                                       Some f \<Rightarrow> (s5, Inl (CreateCommitFailed attempt t StageOwner f))
                                     | None \<Rightarrow> (s5, Inr t)))))"

text \<open>
  The loop of \<open>begin_external_thread_create\<close> draws until an id is not in use; it need not end
  for every id source, and \<open>None\<close> is that it does not.
\<close>

partial_function (option) draw_unused ::
  "create_env \<Rightarrow> create_state \<Rightarrow> string \<Rightarrow> (create_state \<times> (create_exn + string)) option" where
  "draw_unused E s attempt =
     (if map_of (cs_attempts s) attempt = None then Some (s, Inr attempt)
      else case next_attempt_id E s of
             (s1, Inl ex) \<Rightarrow> Some (s1, Inl ex)
           | (s1, Inr again) \<Rightarrow> draw_unused E s1 again)"

declare draw_unused.simps [code]

definition issue_attempt :: "create_state \<Rightarrow> string \<Rightarrow> create_state \<times> create_attempt" where
  "issue_attempt s i =
     (let a = \<lparr>ca_id = i, ca_generation = cs_generation s, ca_authority = cs_authority s, ca_addr = cs_next_addr s\<rparr>
      in (s\<lparr>cs_attempts := AList.update i a (cs_attempts s), cs_next_addr := cs_next_addr s + 1\<rparr>, a))"

definition begin_external_thread_create ::
  "create_env \<Rightarrow> create_state \<Rightarrow> (create_state \<times> (create_exn + create_attempt)) option" where
  "begin_external_thread_create E s =
     (case next_attempt_id E s of
        (s1, Inl ex) \<Rightarrow> Some (s1, Inl ex)
      | (s1, Inr i) \<Rightarrow>
          (case draw_unused E s1 i of
             None \<Rightarrow> None
           | Some (s2, Inl ex) \<Rightarrow> Some (s2, Inl ex)
           | Some (s2, Inr j) \<Rightarrow> (case issue_attempt s2 j of (s3, a) \<Rightarrow> Some (s3, Inr a))))"

definition consume_external_attempt :: "create_state \<Rightarrow> create_attempt \<Rightarrow> create_state \<times> (create_exn + create_attempt)" where
  "consume_external_attempt s a =
     (if ca_authority a \<noteq> cs_authority s \<or> ca_generation a \<noteq> cs_generation s
         \<or> map_of (cs_attempts s) (ca_id a) \<noteq> Some a
      then (s, Inl (CreateStale (ca_id a)))
      else (s\<lparr>cs_attempts := AList.delete (ca_id a) (cs_attempts s)\<rparr>, Inr a))"

definition mark_external_create_unknown :: "create_state \<Rightarrow> create_attempt \<Rightarrow> create_state \<times> (create_exn + unit)" where
  "mark_external_create_unknown s a = bindc (consume_external_attempt s a) (\<lambda>s1 _. (s1, Inr ()))"

definition commit_external_thread_create ::
  "create_env \<Rightarrow> create_state \<Rightarrow> create_attempt \<Rightarrow> string \<Rightarrow> create_state \<times> (create_exn + string)" where
  "commit_external_thread_create E s a thread_id =
     (let t = strip thread_id
      in if t = [] \<or> 256 < length t then (s, Inl CreateValueError)
         else bindc (consume_external_attempt s a) (\<lambda>s1 consumed.
           let s2 = create_port (CreateCommit t) s1
           in case ce_commit E of
                Some f \<Rightarrow> (s2, Inl (CreateCommitFailed (ca_id consumed) t StageSource f))
              | None \<Rightarrow> (s2, Inr t)))"

definition invalidate_creates :: "create_state \<Rightarrow> create_state" where
  "invalidate_creates s = s\<lparr>cs_generation := cs_generation s + 1, cs_attempts := []\<rparr>"

section \<open>The transaction as a step system\<close>

datatype create_op =
    CreateThread create_env string
  | BeginCreate create_env
  | MarkUnknown create_attempt
  | CommitCreate create_env create_attempt string
  | InvalidateCreates

text \<open>A begin whose loop does not end has changed nothing that another caller sees.\<close>

fun create_step :: "create_state \<Rightarrow> create_op \<Rightarrow> create_state" where
  "create_step s (CreateThread E fork) = fst (create_and_commit_thread E s fork)"
| "create_step s (BeginCreate E) = (case begin_external_thread_create E s of None \<Rightarrow> s | Some r \<Rightarrow> fst r)"
| "create_step s (MarkUnknown a) = fst (mark_external_create_unknown s a)"
| "create_step s (CommitCreate E a t) = fst (commit_external_thread_create E s a t)"
| "create_step s InvalidateCreates = invalidate_creates s"

text \<open>Every stored attempt is under its own id, of the current generation, and was issued here.\<close>

definition creates_inv :: "create_state \<Rightarrow> bool" where
  "creates_inv s =
     (dict_wf (cs_attempts s)
      \<and> (\<forall>i a. map_of (cs_attempts s) i = Some a \<longrightarrow>
           ca_id a = i \<and> ca_generation a = cs_generation s \<and> ca_authority a = cs_authority s \<and> ca_addr a < cs_next_addr s))"

text \<open>What an operation may do to the stored attempts: lose some, or gain one newly issued.\<close>

definition creates_advance :: "create_state \<Rightarrow> create_state \<Rightarrow> bool" where
  "creates_advance s s' =
     (cs_authority s' = cs_authority s \<and> cs_generation s \<le> cs_generation s' \<and> cs_next_addr s \<le> cs_next_addr s'
      \<and> (\<forall>i a. map_of (cs_attempts s') i = Some a \<longrightarrow>
           map_of (cs_attempts s) i = Some a \<and> cs_generation s' = cs_generation s \<or> cs_next_addr s \<le> ca_addr a))"

lemma next_attempt_frame:
  "next_attempt_id E s = (s1, r) \<Longrightarrow> s1 = s\<lparr>cs_drawn := cs_drawn s + 1\<rparr>"
  by (auto simp: next_attempt_id_def Let_def)

lemma create_port_inv [simp]: "creates_inv (create_port c s) = creates_inv s"
  by (simp add: creates_inv_def create_port_def)

lemma create_port_advance [simp]: "creates_advance s (create_port c s') = creates_advance s s'"
  by (simp add: creates_advance_def create_port_def)

lemma drawn_inv [simp]: "creates_inv (s\<lparr>cs_drawn := n\<rparr>) = creates_inv s"
  by (simp add: creates_inv_def)

lemma drawn_advance [simp]: "creates_advance s (s'\<lparr>cs_drawn := n\<rparr>) = creates_advance s s'"
  by (simp add: creates_advance_def)

lemma creates_advance_refl [simp]: "creates_advance s s"
  by (simp add: creates_advance_def)

lemma create_thread_frame:
  "creates_inv (fst (create_and_commit_thread E s fork)) = creates_inv s \<and> creates_advance s (fst (create_and_commit_thread E s fork))"
proof -
  obtain s1 r where n: "next_attempt_id E s = (s1, r)" by (cases "next_attempt_id E s")
  have "s1 = s\<lparr>cs_drawn := cs_drawn s + 1\<rparr>" by (rule next_attempt_frame [OF n])
  then show ?thesis
    by (cases r) (simp_all add: create_and_commit_thread_def n Let_def split: sum.split option.split)
qed

definition draws_only :: "create_state \<Rightarrow> create_state \<times> (create_exn + string) \<Rightarrow> bool" where
  "draws_only s y =
     (fst y = s\<lparr>cs_drawn := cs_drawn (fst y)\<rparr> \<and> (\<forall>j. snd y = Inr j \<longrightarrow> map_of (cs_attempts s) j = None))"

lemma draws_only_step: "draws_only (s\<lparr>cs_drawn := n\<rparr>) y \<Longrightarrow> draws_only s y"
  by (simp add: draws_only_def)

lemma draw_unused_frame:
  assumes "draw_unused E s i = Some y"
  shows "draws_only s y"
proof (rule draw_unused.raw_induct [where P = "\<lambda>E s i y. draws_only s y", OF _ assms])
  fix draw :: "create_env \<Rightarrow> create_state \<Rightarrow> string \<Rightarrow> (create_state \<times> (create_exn + string)) option"
  fix E s i y
  assume IH: "\<And>E s i y. draw E s i = Some y \<Longrightarrow> draws_only s y"
    and eq: "(if map_of (cs_attempts s) i = None then Some (s, Inr i)
        else case next_attempt_id E s of (s1, Inl ex) \<Rightarrow> Some (s1, Inl ex) | (s1, Inr again) \<Rightarrow> draw E s1 again) = Some y"
  obtain s1 r1 where n: "next_attempt_id E s = (s1, r1)" by (cases "next_attempt_id E s")
  have s1: "s1 = s\<lparr>cs_drawn := cs_drawn s + 1\<rparr>" by (rule next_attempt_frame [OF n])
  show "draws_only s y"
  proof (cases "map_of (cs_attempts s) i = None")
    case True
    then have "y = (s, Inr i)" using eq by simp
    then show ?thesis using True by (simp add: draws_only_def)
  next
    case False
    show ?thesis
    proof (cases r1)
      case (Inl ex)
      then have "y = (s1, Inl ex)" using eq False n by simp
      then show ?thesis by (simp add: draws_only_def s1)
    next
      case (Inr again)
      then have "draw E s1 again = Some y" using eq False n by simp
      from IH [OF this] show ?thesis unfolding s1 by (rule draws_only_step)
    qed
  qed
qed

lemma begin_create_frame:
  assumes "creates_inv s" and "begin_external_thread_create E s = Some (s', r)"
  shows "creates_inv s' \<and> creates_advance s s'"
proof -
  obtain s1 r1 where n: "next_attempt_id E s = (s1, r1)" by (cases "next_attempt_id E s")
  have s1: "s1 = s\<lparr>cs_drawn := cs_drawn s + 1\<rparr>" by (rule next_attempt_frame [OF n])
  show ?thesis
  proof (cases r1)
    case (Inl ex)
    then show ?thesis using assms n s1 by (auto simp: begin_external_thread_create_def)
  next
    case (Inr i)
    then obtain s2 r2 where d: "draw_unused E s1 i = Some (s2, r2)"
      using assms(2) n by (cases "draw_unused E s1 i") (auto simp: begin_external_thread_create_def)
    have s2: "s2 = s\<lparr>cs_drawn := cs_drawn s2\<rparr>"
      using draw_unused_frame [OF d] by (simp add: draws_only_def s1)
    have eqs: "cs_attempts s2 = cs_attempts s" "cs_generation s2 = cs_generation s"
        "cs_authority s2 = cs_authority s" "cs_next_addr s2 = cs_next_addr s"
      by (subst s2; simp)+
    show ?thesis
    proof (cases r2)
      case (Inl ex)
      then have "s' = s2" using assms(2) n Inr d by (simp add: begin_external_thread_create_def)
      then show ?thesis using assms(1) s2 by (metis creates_advance_refl drawn_advance drawn_inv)
    next
      case (Inr j)
      then have "s' = fst (issue_attempt s2 j)"
        using assms(2) n \<open>r1 = Inr i\<close> d by (auto simp: begin_external_thread_create_def split: prod.splits)
      then show ?thesis
        using assms(1) by (auto simp: issue_attempt_def Let_def creates_inv_def creates_advance_def eqs update_conv' less_Suc_eq
            intro: dict_wf_update)
    qed
  qed
qed

lemma consume_create_frame:
  assumes "creates_inv s"
  shows "creates_inv (fst (consume_external_attempt s a)) \<and> creates_advance s (fst (consume_external_attempt s a))"
  using assms by (auto simp: consume_external_attempt_def creates_inv_def creates_advance_def delete_conv' split: if_splits)

lemma mark_create_frame:
  assumes "creates_inv s"
  shows "creates_inv (fst (mark_external_create_unknown s a)) \<and> creates_advance s (fst (mark_external_create_unknown s a))"
  using consume_create_frame [OF assms, of a]
  by (cases "consume_external_attempt s a"; cases "snd (consume_external_attempt s a)")
     (auto simp: mark_external_create_unknown_def)

lemma commit_create_frame:
  assumes "creates_inv s"
  shows "creates_inv (fst (commit_external_thread_create E s a t)) \<and> creates_advance s (fst (commit_external_thread_create E s a t))"
  using consume_create_frame [OF assms, of a] assms
  by (cases "consume_external_attempt s a"; cases "snd (consume_external_attempt s a)")
     (auto simp: commit_external_thread_create_def Let_def split: option.split)

lemma invalidate_create_frame:
  "creates_inv s \<Longrightarrow> creates_inv (invalidate_creates s) \<and> creates_advance s (invalidate_creates s)"
  by (simp add: invalidate_creates_def creates_inv_def creates_advance_def)

lemma create_step_frame:
  assumes "creates_inv s"
  shows "creates_inv (create_step s x) \<and> creates_advance s (create_step s x)"
proof (cases x)
  case (BeginCreate E)
  then show ?thesis
    using assms begin_create_frame [OF assms] by (cases "begin_external_thread_create E s") (simp, metis create_step.simps(2) option.simps(5) surj_pair fst_conv)
qed (use assms create_thread_frame mark_create_frame commit_create_frame invalidate_create_frame in auto)

lemma new_creates_inv: "creates_inv (new_create_state token)"
  by (simp add: creates_inv_def new_create_state_def)

interpretation creates: step_system create_step "new_create_state token" creates_inv
  by unfold_locales (use new_creates_inv create_step_frame in blast)+

section \<open>Spent capabilities\<close>

text \<open>An attempt that was issued and is not the stored one of the current generation.\<close>

definition attempt_spent :: "create_attempt \<Rightarrow> create_state \<Rightarrow> bool" where
  "attempt_spent a s = (ca_addr a < cs_next_addr s \<and> map_of (cs_attempts s) (ca_id a) \<noteq> Some a)"

lemma spent_advance: "creates_advance s s' \<Longrightarrow> attempt_spent a s \<Longrightarrow> attempt_spent a s'"
  unfolding attempt_spent_def creates_advance_def by (meson leD le_less_trans less_le_trans)

interpretation spent: standing_fact create_step "new_create_state token" creates_inv "attempt_spent a" "\<lambda>_. True"
  by unfold_locales (use create_step_frame spent_advance in blast)+

lemma spent_run: "creates_inv s \<Longrightarrow> attempt_spent a s \<Longrightarrow> attempt_spent a (run_ops create_step s xs)"
  by (rule spent.fact_run) (simp_all add: list_all_iff)

lemma spent_refused: "attempt_spent a s \<Longrightarrow> consume_external_attempt s a = (s, Inl (CreateStale (ca_id a)))"
  by (simp add: attempt_spent_def consume_external_attempt_def)

text \<open>What ends a capability: a successful consumption, and losing the connection.\<close>

lemma stored_attempt:
  assumes "creates_inv s" and "map_of (cs_attempts s) i = Some a"
  shows "ca_generation a = cs_generation s \<and> ca_authority a = cs_authority s \<and> ca_addr a < cs_next_addr s"
  using assms unfolding creates_inv_def by blast

lemma consumed_is_spent:
  assumes "creates_inv s" and "map_of (cs_attempts s) (ca_id a) = Some a"
  shows "attempt_spent a (s\<lparr>cs_attempts := AList.delete (ca_id a) (cs_attempts s)\<rparr>)"
  using stored_attempt [OF assms] by (simp add: attempt_spent_def delete_conv')

lemma settled_is_spent:
  assumes "creates_inv s" and "map_of (cs_attempts s) (ca_id a) = Some a"
    and "x = MarkUnknown a \<or> x = InvalidateCreates \<or> (\<exists>E t. x = CommitCreate E a t \<and> strip t \<noteq> [] \<and> length (strip t) \<le> 256)"
  shows "attempt_spent a (create_step s x)"
proof -
  let ?rest = "s\<lparr>cs_attempts := AList.delete (ca_id a) (cs_attempts s)\<rparr>"
  have c: "consume_external_attempt s a = (?rest, Inr a)"
    using stored_attempt [OF assms(1,2)] assms(2) by (simp add: consume_external_attempt_def)
  have sp: "attempt_spent a ?rest" by (rule consumed_is_spent [OF assms(1,2)])
  have port: "attempt_spent a (create_port k s1) = attempt_spent a s1" for k s1
    by (simp add: attempt_spent_def create_port_def)
  from assms(3) show ?thesis
  proof (elim disjE exE conjE)
    assume "x = MarkUnknown a"
    then show ?thesis using sp by (simp add: mark_external_create_unknown_def c)
  next
    assume "x = InvalidateCreates"
    then show ?thesis
      using stored_attempt [OF assms(1,2)] by (simp add: invalidate_creates_def attempt_spent_def)
  next
    fix E t
    assume "x = CommitCreate E a t" and "strip t \<noteq> []" and "length (strip t) \<le> 256"
    then show ?thesis
      using sp by (simp add: commit_external_thread_create_def Let_def c port split: option.split)
  qed
qed

section \<open>The loop over the id source\<close>

lemma draw_unused_ends:
  assumes "\<And>k. strip (ce_ids E k) \<noteq> []" and "inj (\<lambda>k. strip (ce_ids E k))"
    and "cs_drawn s = Suc n" and "i = strip (ce_ids E n)"
  shows "\<exists>k j. k \<le> card (fst ` set (cs_attempts s) \<inter> (\<lambda>k. strip (ce_ids E k)) ` {n..})
    \<and> draw_unused E s i = Some (s\<lparr>cs_drawn := Suc n + k\<rparr>, Inr j)"
  using assms(3,4)
proof (induction "card (fst ` set (cs_attempts s) \<inter> (\<lambda>k. strip (ce_ids E k)) ` {n..})" arbitrary: s n i rule: less_induct)
  case less
  let ?f = "\<lambda>k. strip (ce_ids E k)" and ?used = "fst ` set (cs_attempts s)"
  show ?case
  proof (cases "map_of (cs_attempts s) i = None")
    case True
    then have "draw_unused E s i = Some (s\<lparr>cs_drawn := Suc n + 0\<rparr>, Inr i)"
      using less.prems by (simp add: draw_unused.simps)
    then show ?thesis by blast
  next
    case False
    then have used: "?f n \<in> ?used" using less.prems by (auto simp: map_of_eq_None_iff)
    have n: "next_attempt_id E s = (s\<lparr>cs_drawn := Suc (Suc n)\<rparr>, Inr (?f (Suc n)))"
      using less.prems assms(1) by (simp add: next_attempt_id_def Let_def)
    have "?used \<inter> ?f ` {Suc n..} \<subset> ?used \<inter> ?f ` {n..}"
    proof -
      have "?f n \<notin> ?f ` {Suc n..}" using assms(2) by (auto dest!: injD)
      then show ?thesis using used by fastforce
    qed
    then have less_card: "card (?used \<inter> ?f ` {Suc n..}) < card (?used \<inter> ?f ` {n..})"
      by (rule psubset_card_mono [rotated]) simp
    then obtain k j where k: "k \<le> card (?used \<inter> ?f ` {Suc n..})"
      and d: "draw_unused E (s\<lparr>cs_drawn := Suc (Suc n)\<rparr>) (?f (Suc n)) = Some (s\<lparr>cs_drawn := Suc (Suc n) + k\<rparr>, Inr j)"
      using less.hyps [of "s\<lparr>cs_drawn := Suc (Suc n)\<rparr>" "Suc n" "?f (Suc n)"] by auto
    have "draw_unused E s i = Some (s\<lparr>cs_drawn := Suc n + Suc k\<rparr>, Inr j)"
      using False n d by (subst draw_unused.simps) (auto simp del: not_None_eq)
    moreover have "Suc k \<le> card (?used \<inter> ?f ` {n..})" using k less_card by simp
    ultimately show ?thesis by blast
  qed
qed

section \<open>Properties\<close>

text \<open>
  C40. Beginning an external create terminates: when the id source never repeats an id and never
  gives a blank one, the search for an unused id ends after at most one draw more than there are
  outstanding attempts, and issues a capability of the current generation under that id.
\<close>

theorem begin_external_create_terminates:
  assumes "\<And>k. strip (ce_ids E k) \<noteq> []" and "inj (\<lambda>k. strip (ce_ids E k))"
  shows "\<exists>s' a. begin_external_thread_create E s = Some (s', Inr a)
    \<and> cs_drawn s' \<le> cs_drawn s + length (cs_attempts s) + 1
    \<and> map_of (cs_attempts s) (ca_id a) = None \<and> map_of (cs_attempts s') (ca_id a) = Some a
    \<and> ca_generation a = cs_generation s"
proof -
  let ?n = "cs_drawn s" and ?s1 = "s\<lparr>cs_drawn := Suc (cs_drawn s)\<rparr>"
  have n: "next_attempt_id E s = (?s1, Inr (strip (ce_ids E ?n)))"
    using assms(1) by (simp add: next_attempt_id_def Let_def)
  obtain k j where k: "k \<le> card (fst ` set (cs_attempts s) \<inter> (\<lambda>k. strip (ce_ids E k)) ` {?n..})"
    and d: "draw_unused E ?s1 (strip (ce_ids E ?n)) = Some (s\<lparr>cs_drawn := Suc ?n + k\<rparr>, Inr j)"
    using draw_unused_ends [OF assms, of ?s1 ?n] by auto
  have free: "map_of (cs_attempts s) j = None"
    using draw_unused_frame [OF d] by (simp add: draws_only_def)
  have "card (fst ` set (cs_attempts s) \<inter> (\<lambda>k. strip (ce_ids E k)) ` {?n..}) \<le> card (fst ` set (cs_attempts s))"
    by (rule card_mono) auto
  also have "\<dots> \<le> length (cs_attempts s)"
    by (metis card_image_le card_length finite_set le_trans)
  finally have "k \<le> length (cs_attempts s)" using k by simp
  then show ?thesis
    using free by (simp add: begin_external_thread_create_def n d issue_attempt_def Let_def update_conv')
qed

text \<open>
  An external create capability is used once: after it was committed, marked unknown, or its
  connection was lost, no later call accepts it, whatever was begun, settled or invalidated in
  between, and the refused call changes nothing.
\<close>

theorem external_create_one_shot:
  assumes "s = run_ops create_step (new_create_state token) ws"
    and "map_of (cs_attempts s) (ca_id a) = Some a"
    and "x = MarkUnknown a \<or> x = InvalidateCreates \<or> (\<exists>E t. x = CommitCreate E a t \<and> strip t \<noteq> [] \<and> length (strip t) \<le> 256)"
  shows "consume_external_attempt (run_ops create_step (create_step s x) xs) a
      = (run_ops create_step (create_step s x) xs, Inl (CreateStale (ca_id a)))
    \<and> fst (commit_external_thread_create E (run_ops create_step (create_step s x) xs) a t) = run_ops create_step (create_step s x) xs"
proof -
  have inv: "creates_inv s" unfolding assms(1) by (rule creates.reach_inv)
  have sp: "attempt_spent a (create_step s x)" by (rule settled_is_spent [OF inv assms(2,3)])
  have "creates_inv (create_step s x)" using create_step_frame [OF inv] by blast
  from spent_refused [OF spent_run [OF this sp]] show ?thesis
    by (simp add: commit_external_thread_create_def Let_def)
qed

section \<open>Witnesses\<close>

definition demo_create_env :: create_env where
  "demo_create_env =
     \<lparr>ce_ids = (\<lambda>n. replicate (Suc n) (CHR ''a'')), ce_snapshot = Inr (Some ''t''), ce_acquire = None, ce_record = None,
      ce_commit = None, ce_no_effect = (\<lambda>_. Some False)\<rparr>"

lemma strip_letters: "strip (replicate (Suc n) (CHR ''a'')) = replicate (Suc n) (CHR ''a'')"
proof -
  have "\<not> py_space (CHR ''a'')" by code_simp
  then have "dropWhile py_space (replicate (Suc n) (CHR ''a'')) = replicate (Suc n) (CHR ''a'')" for n by simp
  then show ?thesis by (simp only: strip_def strip_by_def rev_replicate)
qed

theorem begin_external_create_terminates_witness:
  "\<exists>s' a. begin_external_thread_create demo_create_env (new_create_state 3) = Some (s', Inr a) \<and> cs_drawn s' \<le> 1"
proof -
  have f: "(\<lambda>k. strip (ce_ids demo_create_env k)) = (\<lambda>n. replicate (Suc n) (CHR ''a''))"
    by (simp add: demo_create_env_def strip_letters del: replicate.simps)
  have "strip (ce_ids demo_create_env k) \<noteq> []" for k using fun_cong [OF f, of k] by simp
  moreover have "inj (\<lambda>k. strip (ce_ids demo_create_env k))" unfolding f by (rule injI) (metis length_replicate nat.inject)
  ultimately show ?thesis
    using begin_external_create_terminates [of demo_create_env "new_create_state 3"] by (auto simp: new_create_state_def)
qed

definition demo_attempt :: create_attempt where
  "demo_attempt = \<lparr>ca_id = ''a'', ca_generation = 0, ca_authority = 3, ca_addr = 0\<rparr>"

definition demo_creating :: create_state where
  "demo_creating = run_ops create_step (new_create_state 3) [BeginCreate demo_create_env]"

theorem external_create_one_shot_witness:
  "snd (consume_external_attempt (run_ops create_step demo_creating [CommitCreate demo_create_env demo_attempt '' t '', BeginCreate demo_create_env]) demo_attempt)
     = Inl (CreateStale ''a'')"
proof -
  have m: "map_of (cs_attempts demo_creating) (ca_id demo_attempt) = Some demo_attempt" by code_simp
  have t: "strip '' t '' \<noteq> [] \<and> length (strip '' t '') \<le> 256" by code_simp
  then have x: "CommitCreate demo_create_env demo_attempt '' t '' = MarkUnknown demo_attempt
      \<or> CommitCreate demo_create_env demo_attempt '' t '' = InvalidateCreates
      \<or> (\<exists>E u. CommitCreate demo_create_env demo_attempt '' t '' = CommitCreate E demo_attempt u \<and> strip u \<noteq> [] \<and> length (strip u) \<le> 256)"
    by blast
  have i: "ca_id demo_attempt = ''a''" by code_simp
  show ?thesis
    using external_create_one_shot [OF demo_creating_def m x, of "[BeginCreate demo_create_env]" demo_create_env "''t''"] i by simp
qed

end
