(* ===== verification/Resume_Authority.thy ===== *)
theory Resume_Authority
  imports Thread_Create Py_Json
begin

text \<open>
  The runtime authority of \<open>bot/thread_runtime_authority.py\<close>: resume and unsubscribe
  transactions of a thread, the fence of \<open>turn/start\<close>, and their invalidation with the
  connection.

  The lock \<open>_receipt_lock\<close> is given back around every call of a port (adapter, lease,
  settings, caller's commit), so an operation is a sequence of critical sections. The first
  part of the theory has the critical sections, one definition each, and the step system in
  which other callers run them in any order. The second part composes the operations: the
  environment of a call says what each port answers and which critical sections of other
  callers run meanwhile (\<open>ae_others\<close>).

  \<open>object()\<close> tokens are numbers, a receipt object compared with \<open>is\<close> has an address. The
  calls of the ports are the list \<open>ra_calls\<close>.
\<close>

section \<open>Receipts and plans\<close>

record resume_claim =
  cl_thread :: string
  cl_generation :: int
  cl_authority :: nat
  cl_token :: nat

record resume_receipt =
  lr_thread :: string
  lr_new :: bool
  lr_generation :: int
  lr_authority :: nat
  lr_token :: nat
  lr_addr :: nat

record unsub_receipt =
  ur_thread :: string
  ur_generation :: int
  ur_authority :: nat
  ur_token :: nat
  ur_addr :: nat

datatype failure_policy = Compensate | Retain

datatype settlement_kind = Compensated | Retained | CleanupPending | StaleSettlement

record resume_settlement =
  st_thread :: string
  st_generation :: int
  st_outcome :: settlement_kind
  st_recovery :: bool

definition resume_settlement_of :: "resume_receipt \<Rightarrow> settlement_kind \<Rightarrow> bool \<Rightarrow> resume_settlement" where
  "resume_settlement_of r outcome recovery =
     \<lparr>st_thread = lr_thread r, st_generation = lr_generation r, st_outcome = outcome, st_recovery = recovery\<rparr>"

text \<open>The settings a resume asks for, and the request of a paged resume.\<close>

record settings_intent =
  in_model :: "string option"
  in_effort :: "json option"
  in_approval :: "string option"
  in_permissions :: "string option"

record page_request =
  pq_limit :: int
  pq_items_view :: string
  pq_model :: "string option"
  pq_provider :: "string option"
  pq_config :: "json option"
  pq_approval :: "string option"
  pq_permissions :: "string option"
  pq_generation :: "int option"

record prepared_resume =
  pp_receipt :: resume_receipt
  pp_request :: page_request
  pp_authority :: nat

record prepared_unsub =
  pu_receipt :: unsub_receipt
  pu_generation :: "int option"
  pu_authority :: nat

datatype adapter_page = ResumePage nat | NotAPage

datatype runtime_exn =
    RuntimeValueError
  | RuntimeTypeError
  | RuntimeAssertion
  | PortRaised failure
  | ResumeInProgress string
  | PreSendRejected string
  | ResumeStale resume_settlement
  | ResumeOutcomeUnknown resume_receipt runtime_exn
  | ResumeCommitFailed resume_receipt runtime_exn failure_policy resume_settlement
  | UnsubscribeInProgress string
  | UnsubscribeStale
  | UnsubscribeOutcomeUnknown unsub_receipt runtime_exn
  | StartBlocked string

datatype runtime_call =
    CallAcquire string
  | CallRelease string
  | CallIntent string settings_intent
  | CallBase string settings_intent
  | CallGuard
  | CallResume string
  | CallResumePage string page_request
  | CallRecord string
  | CallCommit string
  | CallUnsubscribe string "int option"
  | CallClear string
  | CallClearAll
  | CallStart string
  | CallUpdate string settings_intent
  | CallArchive string
  | CallDelete string

section \<open>State\<close>

record runtime_authority =
  ra_token :: nat
  ra_next_token :: nat
  ra_next_addr :: nat
  ra_resume_generation :: "(string, int) dict"
  ra_resume_claim :: "(string, nat) dict"
  ra_acquiring :: "nat set"
  ra_invalid_resume :: "nat set"
  ra_pending_resume :: "(nat, resume_receipt) dict"
  ra_executing_resume :: "nat set"
  ra_unsub_generation :: "(string, int) dict"
  ra_unsub_claim :: "(string, nat) dict"
  ra_pending_unsub :: "(nat, unsub_receipt) dict"
  ra_executing_unsub :: "nat set"
  ra_invalid_unsub :: "nat set"
  ra_starts :: "(string, nat set) dict"
  ra_creates :: create_state
  ra_calls :: "runtime_call list"

definition new_runtime_authority :: "nat \<Rightarrow> nat \<Rightarrow> runtime_authority" where
  "new_runtime_authority token create_token =
     \<lparr>ra_token = token, ra_next_token = 0, ra_next_addr = 0, ra_resume_generation = [], ra_resume_claim = [],
      ra_acquiring = {}, ra_invalid_resume = {}, ra_pending_resume = [], ra_executing_resume = {},
      ra_unsub_generation = [], ra_unsub_claim = [], ra_pending_unsub = [], ra_executing_unsub = {},
      ra_invalid_unsub = {}, ra_starts = [], ra_creates = new_create_state create_token, ra_calls = []\<rparr>"

definition counted :: "(string, int) dict \<Rightarrow> string \<Rightarrow> int" where
  "counted d t = (case map_of d t of None \<Rightarrow> 0 | Some n \<Rightarrow> n)"

definition starts_of :: "runtime_authority \<Rightarrow> string \<Rightarrow> nat set" where
  "starts_of s t = (case map_of (ra_starts s) t of None \<Rightarrow> {} | Some ts \<Rightarrow> ts)"

section \<open>Critical sections of a resume\<close>

definition claim_resume :: "runtime_authority \<Rightarrow> string \<Rightarrow> runtime_authority \<times> (runtime_exn + resume_claim)" where
  "claim_resume s thread_id =
     (let t = strip thread_id
      in if t = [] then (s, Inl RuntimeValueError)
         else if map_of (ra_resume_claim s) t \<noteq> None \<or> map_of (ra_unsub_claim s) t \<noteq> None
         then (s, Inl (ResumeInProgress t))
         else let tok = ra_next_token s; n = counted (ra_resume_generation s) t + 1
              in (s\<lparr>ra_next_token := tok + 1,
                    ra_resume_generation := AList.update t n (ra_resume_generation s),
                    ra_resume_claim := AList.update t tok (ra_resume_claim s),
                    ra_acquiring := insert tok (ra_acquiring s)\<rparr>,
                  Inr \<lparr>cl_thread = t, cl_generation = n, cl_authority = ra_token s, cl_token = tok\<rparr>))"

definition validate_resume_claim :: "runtime_authority \<Rightarrow> resume_claim \<Rightarrow> runtime_exn + unit" where
  "validate_resume_claim s c = require RuntimeValueError (cl_authority c = ra_token s \<and> cl_thread c \<noteq> [])"

definition resume_claim_current :: "runtime_authority \<Rightarrow> resume_claim \<Rightarrow> bool" where
  "resume_claim_current s c =
     (map_of (ra_resume_claim s) (cl_thread c) = Some (cl_token c)
      \<and> cl_token c \<in> ra_acquiring s \<and> cl_token c \<notin> ra_invalid_resume s)"

definition discard_resume_claim :: "runtime_authority \<Rightarrow> string \<Rightarrow> nat \<Rightarrow> runtime_authority" where
  "discard_resume_claim s t tok =
     s\<lparr>ra_acquiring := ra_acquiring s - {tok},
       ra_invalid_resume := ra_invalid_resume s - {tok},
       ra_executing_resume := ra_executing_resume s - {tok},
       ra_resume_claim := (if map_of (ra_resume_claim s) t = Some tok then AList.delete t (ra_resume_claim s)
                           else ra_resume_claim s)\<rparr>"

definition commit_acquired :: "runtime_authority \<Rightarrow> resume_claim \<Rightarrow> bool \<Rightarrow> runtime_authority \<times> resume_receipt option" where
  "commit_acquired s c newly =
     (let s1 = s\<lparr>ra_acquiring := ra_acquiring s - {cl_token c}\<rparr>
      in if map_of (ra_resume_claim s) (cl_thread c) \<noteq> Some (cl_token c) \<or> cl_token c \<in> ra_invalid_resume s
         then (s1, None)
         else let r = \<lparr>lr_thread = cl_thread c, lr_new = newly, lr_generation = cl_generation c,
                       lr_authority = ra_token s, lr_token = cl_token c, lr_addr = ra_next_addr s\<rparr>
              in (s1\<lparr>ra_next_addr := ra_next_addr s + 1,
                     ra_pending_resume := AList.update (cl_token c) r (ra_pending_resume s)\<rparr>, Some r))"

definition abandon_resume_claim :: "runtime_authority \<Rightarrow> resume_claim \<Rightarrow> runtime_authority \<times> (runtime_exn + unit)" where
  "abandon_resume_claim s c =
     (case validate_resume_claim s c of
        Inl ex \<Rightarrow> (s, Inl ex)
      | Inr u \<Rightarrow>
          if map_of (ra_resume_claim s) (cl_thread c) \<noteq> Some (cl_token c) \<or> cl_token c \<notin> ra_acquiring s
          then (s, Inr ())
          else (s\<lparr>ra_acquiring := ra_acquiring s - {cl_token c},
                  ra_invalid_resume := ra_invalid_resume s - {cl_token c},
                  ra_resume_claim := AList.delete (cl_thread c) (ra_resume_claim s)\<rparr>, Inr ()))"

definition validate_resume_receipt :: "runtime_authority \<Rightarrow> resume_receipt \<Rightarrow> runtime_exn + unit" where
  "validate_resume_receipt s r = require RuntimeValueError (lr_authority r = ra_token s \<and> lr_thread r \<noteq> [])"

definition stale_resume :: "resume_receipt \<Rightarrow> runtime_exn" where
  "stale_resume r = ResumeStale (resume_settlement_of r StaleSettlement False)"

text \<open>The removal shared by \<open>_consume_pending_resume\<close> and \<open>_discard_pending_resume\<close>.\<close>

definition drop_pending_resume :: "runtime_authority \<Rightarrow> resume_receipt \<Rightarrow> runtime_authority" where
  "drop_pending_resume s r =
     s\<lparr>ra_pending_resume := AList.delete (lr_token r) (ra_pending_resume s),
       ra_executing_resume := ra_executing_resume s - {lr_token r},
       ra_resume_claim := (if map_of (ra_resume_claim s) (lr_thread r) = Some (lr_token r)
                           then AList.delete (lr_thread r) (ra_resume_claim s) else ra_resume_claim s)\<rparr>"

text \<open>A receipt that is not the stored object loses its entry of the table all the same (\<open>pop\<close>).\<close>

definition consume_pending_resume :: "runtime_authority \<Rightarrow> resume_receipt \<Rightarrow> runtime_authority \<times> (runtime_exn + unit)" where
  "consume_pending_resume s r =
     (case validate_resume_receipt s r of
        Inl ex \<Rightarrow> (s, Inl ex)
      | Inr u \<Rightarrow>
          if map_of (ra_pending_resume s) (lr_token r) = Some r then (drop_pending_resume s r, Inr ())
          else (s\<lparr>ra_pending_resume := AList.delete (lr_token r) (ra_pending_resume s)\<rparr>, Inl (stale_resume r)))"

definition discard_pending_resume :: "runtime_authority \<Rightarrow> resume_receipt \<Rightarrow> runtime_authority" where
  "discard_pending_resume s r =
     (if map_of (ra_pending_resume s) (lr_token r) = Some r then drop_pending_resume s r else s)"

definition claim_resume_execution :: "runtime_authority \<Rightarrow> resume_receipt \<Rightarrow> runtime_authority \<times> (runtime_exn + unit)" where
  "claim_resume_execution s r =
     (case validate_resume_receipt s r of
        Inl ex \<Rightarrow> (s, Inl ex)
      | Inr u \<Rightarrow>
          if map_of (ra_pending_resume s) (lr_token r) \<noteq> Some r then (s, Inl (stale_resume r))
          else if lr_token r \<in> ra_executing_resume s then (s, Inl (ResumeInProgress (lr_thread r)))
          else (s\<lparr>ra_executing_resume := insert (lr_token r) (ra_executing_resume s)\<rparr>, Inr ()))"

definition require_resume_execution :: "runtime_authority \<Rightarrow> resume_receipt \<Rightarrow> runtime_exn + unit" where
  "require_resume_execution s r = require (stale_resume r) (lr_token r \<in> ra_executing_resume s)"

definition require_pending_resume :: "runtime_authority \<Rightarrow> resume_receipt \<Rightarrow> runtime_exn + unit" where
  "require_pending_resume s r =
     bindr (validate_resume_receipt s r) (\<lambda>_.
       require (stale_resume r) (map_of (ra_pending_resume s) (lr_token r) = Some r))"

definition resume_receipt_current :: "runtime_authority \<Rightarrow> resume_receipt \<Rightarrow> bool" where
  "resume_receipt_current s r =
     (map_of (ra_pending_resume s) (lr_token r) = Some r
      \<and> map_of (ra_resume_claim s) (lr_thread r) = Some (lr_token r))"

section \<open>Critical sections of an unsubscribe\<close>

definition positive_or_none :: "int option \<Rightarrow> bool" where
  "positive_or_none n = (case n of None \<Rightarrow> True | Some k \<Rightarrow> 0 < k)"

definition prepare_unsubscribe ::
  "runtime_authority \<Rightarrow> string \<Rightarrow> int option \<Rightarrow> runtime_authority \<times> (runtime_exn + prepared_unsub)" where
  "prepare_unsubscribe s thread_id expected =
     (let t = strip thread_id
      in if t = [] \<or> \<not> positive_or_none expected then (s, Inl RuntimeValueError)
         else if map_of (ra_resume_claim s) t \<noteq> None \<or> map_of (ra_unsub_claim s) t \<noteq> None \<or> starts_of s t \<noteq> {}
         then (s, Inl (UnsubscribeInProgress t))
         else let tok = ra_next_token s; n = counted (ra_unsub_generation s) t + 1;
                  r = \<lparr>ur_thread = t, ur_generation = n, ur_authority = ra_token s, ur_token = tok, ur_addr = ra_next_addr s\<rparr>
              in (s\<lparr>ra_next_token := tok + 1, ra_next_addr := ra_next_addr s + 1,
                    ra_unsub_generation := AList.update t n (ra_unsub_generation s),
                    ra_unsub_claim := AList.update t tok (ra_unsub_claim s),
                    ra_pending_unsub := AList.update tok r (ra_pending_unsub s)\<rparr>,
                  Inr \<lparr>pu_receipt = r, pu_generation = expected, pu_authority = ra_token s\<rparr>))"

definition validate_unsub_receipt :: "runtime_authority \<Rightarrow> unsub_receipt \<Rightarrow> runtime_exn + unit" where
  "validate_unsub_receipt s r = require RuntimeValueError (ur_authority r = ra_token s \<and> ur_thread r \<noteq> [])"

definition validate_prepared_unsub :: "runtime_authority \<Rightarrow> prepared_unsub \<Rightarrow> runtime_exn + unit" where
  "validate_prepared_unsub s p =
     (if pu_authority p \<noteq> ra_token s then Inl RuntimeValueError else validate_unsub_receipt s (pu_receipt p))"

definition claim_unsub_execution :: "runtime_authority \<Rightarrow> unsub_receipt \<Rightarrow> runtime_authority \<times> (runtime_exn + unit)" where
  "claim_unsub_execution s r =
     (case validate_unsub_receipt s r of
        Inl ex \<Rightarrow> (s, Inl ex)
      | Inr u \<Rightarrow>
          if map_of (ra_pending_unsub s) (ur_token r) = Some r \<and> ur_token r \<notin> ra_invalid_unsub s
             \<and> ur_token r \<notin> ra_executing_unsub s
          then (s\<lparr>ra_executing_unsub := insert (ur_token r) (ra_executing_unsub s)\<rparr>, Inr ())
          else if map_of (ra_pending_unsub s) (ur_token r) = Some r \<and> ur_token r \<in> ra_executing_unsub s
          then (s, Inl (UnsubscribeInProgress (ur_thread r)))
          else (s, Inl UnsubscribeStale))"

definition require_unsub_execution :: "runtime_authority \<Rightarrow> unsub_receipt \<Rightarrow> runtime_exn + unit" where
  "require_unsub_execution s r = require UnsubscribeStale (ur_token r \<in> ra_executing_unsub s)"

definition require_pending_unsub :: "runtime_authority \<Rightarrow> unsub_receipt \<Rightarrow> runtime_exn + unit" where
  "require_pending_unsub s r =
     bindr (validate_unsub_receipt s r) (\<lambda>_.
       require UnsubscribeStale
         (\<not> (map_of (ra_pending_unsub s) (ur_token r) \<noteq> Some r
             \<or> map_of (ra_unsub_claim s) (ur_thread r) \<noteq> Some (ur_token r)
             \<or> ur_token r \<in> ra_invalid_unsub s)))"

definition discard_pending_unsub :: "runtime_authority \<Rightarrow> unsub_receipt \<Rightarrow> runtime_authority \<times> (runtime_exn + unit)" where
  "discard_pending_unsub s r =
     (case validate_unsub_receipt s r of
        Inl ex \<Rightarrow> (s, Inl ex)
      | Inr u \<Rightarrow>
          (s\<lparr>ra_pending_unsub := (if map_of (ra_pending_unsub s) (ur_token r) = Some r
                                  then AList.delete (ur_token r) (ra_pending_unsub s) else ra_pending_unsub s),
             ra_executing_unsub := ra_executing_unsub s - {ur_token r},
             ra_invalid_unsub := ra_invalid_unsub s - {ur_token r},
             ra_unsub_claim := (if map_of (ra_unsub_claim s) (ur_thread r) = Some (ur_token r)
                                then AList.delete (ur_thread r) (ra_unsub_claim s) else ra_unsub_claim s)\<rparr>, Inr ()))"

section \<open>Critical sections of a start, and invalidation\<close>

definition claim_direct_start :: "runtime_authority \<Rightarrow> string \<Rightarrow> runtime_authority \<times> (runtime_exn + string \<times> nat)" where
  "claim_direct_start s thread_id =
     (let t = strip thread_id
      in if t = [] then (s, Inl RuntimeValueError)
         else if map_of (ra_unsub_claim s) t \<noteq> None then (s, Inl (StartBlocked t))
         else let tok = ra_next_token s
              in (s\<lparr>ra_next_token := tok + 1,
                    ra_starts := AList.update t (insert tok (starts_of s t)) (ra_starts s)\<rparr>, Inr (t, tok)))"

definition release_direct_start :: "runtime_authority \<Rightarrow> string \<Rightarrow> nat \<Rightarrow> runtime_authority" where
  "release_direct_start s t tok =
     (case map_of (ra_starts s) t of
        None \<Rightarrow> s
      | Some ts \<Rightarrow>
          s\<lparr>ra_starts := (if ts - {tok} = {} then AList.delete t (ra_starts s)
                          else AList.update t (ts - {tok}) (ra_starts s))\<rparr>)"

definition invalidate_resume_claims :: "runtime_authority \<Rightarrow> runtime_authority" where
  "invalidate_resume_claims s =
     s\<lparr>ra_invalid_resume := ra_invalid_resume s \<union> ra_acquiring s,
       ra_resume_claim := filter (\<lambda>p. snd p \<in> ra_acquiring s) (ra_resume_claim s)\<rparr>"

definition invalidate_unsub_claims :: "runtime_authority \<Rightarrow> runtime_authority" where
  "invalidate_unsub_claims s = s\<lparr>ra_invalid_unsub := ra_invalid_unsub s \<union> snd ` set (ra_unsub_claim s)\<rparr>"

definition invalidate_receipts :: "runtime_authority \<Rightarrow> runtime_authority" where
  "invalidate_receipts s =
     (invalidate_unsub_claims (invalidate_resume_claims s))\<lparr>ra_pending_resume := [], ra_executing_resume := {}\<rparr>"

section \<open>The critical sections as a step system\<close>

datatype section_op =
    SecClaimResume string
  | SecDiscardClaim string nat
  | SecCommitAcquired resume_claim bool
  | SecAbandonClaim resume_claim
  | SecConsume resume_receipt
  | SecDiscardResume resume_receipt
  | SecExecuteResume resume_receipt
  | SecPrepareUnsub string "int option"
  | SecExecuteUnsub unsub_receipt
  | SecDiscardUnsub unsub_receipt
  | SecClaimStart string
  | SecReleaseStart string nat
  | SecInvalidate
  | SecCreates create_op
  | SecCall runtime_call

fun section_step :: "runtime_authority \<Rightarrow> section_op \<Rightarrow> runtime_authority" where
  "section_step s (SecClaimResume t) = fst (claim_resume s t)"
| "section_step s (SecDiscardClaim t tok) = discard_resume_claim s t tok"
| "section_step s (SecCommitAcquired c newly) = fst (commit_acquired s c newly)"
| "section_step s (SecAbandonClaim c) = fst (abandon_resume_claim s c)"
| "section_step s (SecConsume r) = fst (consume_pending_resume s r)"
| "section_step s (SecDiscardResume r) = discard_pending_resume s r"
| "section_step s (SecExecuteResume r) = fst (claim_resume_execution s r)"
| "section_step s (SecPrepareUnsub t n) = fst (prepare_unsubscribe s t n)"
| "section_step s (SecExecuteUnsub r) = fst (claim_unsub_execution s r)"
| "section_step s (SecDiscardUnsub r) = fst (discard_pending_unsub s r)"
| "section_step s (SecClaimStart t) = fst (claim_direct_start s t)"
| "section_step s (SecReleaseStart t tok) = release_direct_start s t tok"
| "section_step s SecInvalidate = invalidate_receipts s"
| "section_step s (SecCreates x) = s\<lparr>ra_creates := create_step (ra_creates s) x\<rparr>"
| "section_step s (SecCall c) = s\<lparr>ra_calls := ra_calls s @ [c]\<rparr>"

section \<open>Invariant of the critical sections\<close>

text \<open>
  A thread has at most one transition: a resume claim excludes an unsubscribe claim, and an
  unsubscribe claim excludes running starts. Tokens are issued once, and a stored receipt is
  under its own token, of this authority, with an address that was issued.
\<close>

definition claims_ok :: "runtime_authority \<Rightarrow> bool" where
  "claims_ok s =
     (\<forall>t k. map_of (ra_resume_claim s) t = Some k \<longrightarrow> t \<noteq> [] \<and> k < ra_next_token s \<and> map_of (ra_unsub_claim s) t = None)"

definition unsub_claims_ok :: "runtime_authority \<Rightarrow> bool" where
  "unsub_claims_ok s =
     (\<forall>t k. map_of (ra_unsub_claim s) t = Some k \<longrightarrow> t \<noteq> [] \<and> k < ra_next_token s \<and> map_of (ra_starts s) t = None)"

definition starts_ok :: "runtime_authority \<Rightarrow> bool" where
  "starts_ok s = (\<forall>t ts. map_of (ra_starts s) t = Some ts \<longrightarrow> t \<noteq> [] \<and> ts \<noteq> {} \<and> (\<forall>k\<in>ts. k < ra_next_token s))"

text \<open>The bounds of a receipt stored under \<open>k\<close>: the authority and how many tokens and addresses it issued.\<close>

definition resume_stored :: "nat \<Rightarrow> nat \<Rightarrow> nat \<Rightarrow> nat \<Rightarrow> resume_receipt \<Rightarrow> bool" where
  "resume_stored authority tokens addrs k r =
     (lr_token r = k \<and> lr_addr r < addrs \<and> lr_authority r = authority \<and> lr_thread r \<noteq> [] \<and> k < tokens)"

definition unsub_stored :: "nat \<Rightarrow> nat \<Rightarrow> nat \<Rightarrow> nat \<Rightarrow> unsub_receipt \<Rightarrow> bool" where
  "unsub_stored authority tokens addrs k r =
     (ur_token r = k \<and> ur_addr r < addrs \<and> ur_authority r = authority \<and> ur_thread r \<noteq> [] \<and> k < tokens)"

definition resume_receipts_ok :: "runtime_authority \<Rightarrow> bool" where
  "resume_receipts_ok s =
     (\<forall>k r. map_of (ra_pending_resume s) k = Some r \<longrightarrow> resume_stored (ra_token s) (ra_next_token s) (ra_next_addr s) k r)"

definition unsub_receipts_ok :: "runtime_authority \<Rightarrow> bool" where
  "unsub_receipts_ok s =
     (\<forall>k r. map_of (ra_pending_unsub s) k = Some r \<longrightarrow> unsub_stored (ra_token s) (ra_next_token s) (ra_next_addr s) k r)"

definition dicts_ok :: "runtime_authority \<Rightarrow> bool" where
  "dicts_ok s =
     (dict_wf (ra_resume_claim s) \<and> dict_wf (ra_unsub_claim s) \<and> dict_wf (ra_pending_resume s)
      \<and> dict_wf (ra_pending_unsub s) \<and> dict_wf (ra_starts s) \<and> (\<forall>k\<in>ra_acquiring s \<union> ra_invalid_resume s. k < ra_next_token s))"

definition runtime_inv :: "runtime_authority \<Rightarrow> bool" where
  "runtime_inv s = (claims_ok s \<and> unsub_claims_ok s \<and> starts_ok s \<and> resume_receipts_ok s \<and> unsub_receipts_ok s
      \<and> dicts_ok s \<and> creates_inv (ra_creates s))"

lemmas section_defs =
  claim_resume_def discard_resume_claim_def commit_acquired_def abandon_resume_claim_def consume_pending_resume_def
  discard_pending_resume_def drop_pending_resume_def claim_resume_execution_def prepare_unsubscribe_def
  claim_unsub_execution_def discard_pending_unsub_def claim_direct_start_def release_direct_start_def
  invalidate_receipts_def invalidate_resume_claims_def invalidate_unsub_claims_def

lemma claims_step: "runtime_inv s \<Longrightarrow> claims_ok (section_step s x)"
  by (cases x) (auto simp: runtime_inv_def dicts_ok_def claims_ok_def section_defs Let_def update_conv' delete_conv' map_of_filter_wf less_Suc_eq
      split: if_splits option.splits sum.splits)

lemma started_not_unsub: "unsub_claims_ok s \<Longrightarrow> map_of (ra_starts s) t = Some ts \<Longrightarrow> map_of (ra_unsub_claim s) t = None"
  unfolding unsub_claims_ok_def by (metis option.distinct(1) option.exhaust)

lemma release_start_unsub_ok: "unsub_claims_ok s \<Longrightarrow> unsub_claims_ok (release_direct_start s t tok)"
  using started_not_unsub [of s t]
  by (auto simp: unsub_claims_ok_def release_direct_start_def update_conv' delete_conv' split: option.splits)

lemma unsub_claims_step: "runtime_inv s \<Longrightarrow> unsub_claims_ok (section_step s x)"
proof (cases x)
  case (SecReleaseStart t tok)
  then show "runtime_inv s \<Longrightarrow> ?thesis" by (simp add: runtime_inv_def release_start_unsub_ok)
qed (auto simp: runtime_inv_def unsub_claims_ok_def starts_ok_def starts_of_def section_defs Let_def update_conv' delete_conv' less_Suc_eq
      split: if_splits option.splits sum.splits)

lemma starts_step: "runtime_inv s \<Longrightarrow> starts_ok (section_step s x)"
  by (cases x) (auto simp: runtime_inv_def starts_ok_def starts_of_def section_defs Let_def update_conv' delete_conv' less_Suc_eq
      split: if_splits option.splits sum.splits)

lemma resume_stored_grows [intro]:
  "resume_stored a n m k r \<Longrightarrow> resume_stored a (Suc n) m k r"
  "resume_stored a n m k r \<Longrightarrow> resume_stored a n (Suc m) k r"
  by (auto simp: resume_stored_def)

lemma unsub_stored_grows [intro]:
  "unsub_stored a n m k r \<Longrightarrow> unsub_stored a (Suc n) m k r"
  "unsub_stored a n m k r \<Longrightarrow> unsub_stored a n (Suc m) k r"
  by (auto simp: unsub_stored_def)

lemma commit_acquired_stored:
  assumes "claims_ok s" and "map_of (ra_resume_claim s) (cl_thread c) = Some (cl_token c)"
  shows "resume_stored (ra_token s) (ra_next_token s) (Suc (ra_next_addr s)) (cl_token c)
    \<lparr>lr_thread = cl_thread c, lr_new = newly, lr_generation = cl_generation c, lr_authority = ra_token s,
     lr_token = cl_token c, lr_addr = ra_next_addr s\<rparr>"
  using assms by (auto simp: claims_ok_def resume_stored_def)

lemma resume_receipts_step: "runtime_inv s \<Longrightarrow> resume_receipts_ok (section_step s x)"
  by (cases x) (auto simp: runtime_inv_def resume_receipts_ok_def section_defs Let_def update_conv' delete_conv'
      intro: commit_acquired_stored split: if_splits option.splits sum.splits)

lemma unsub_receipts_step: "runtime_inv s \<Longrightarrow> unsub_receipts_ok (section_step s x)"
proof (cases x)
  case (SecPrepareUnsub t n)
  then show "runtime_inv s \<Longrightarrow> ?thesis"
    by (auto simp: runtime_inv_def unsub_receipts_ok_def section_defs Let_def update_conv')
       (simp_all add: unsub_stored_def)
qed (auto simp: runtime_inv_def unsub_receipts_ok_def section_defs Let_def delete_conv'
      split: if_splits option.splits sum.splits)

lemma dicts_step: "runtime_inv s \<Longrightarrow> dicts_ok (section_step s x)"
  by (cases x) (auto simp: runtime_inv_def dicts_ok_def section_defs Let_def less_Suc_eq
      split: if_splits option.splits sum.splits)

lemma creates_step_ok: "runtime_inv s \<Longrightarrow> creates_inv (ra_creates (section_step s x))"
  by (cases x) (auto simp: runtime_inv_def section_defs Let_def create_step_frame split: if_splits option.splits sum.splits)

lemma section_step_inv: "runtime_inv s \<Longrightarrow> runtime_inv (section_step s x)"
  unfolding runtime_inv_def [of "section_step s x"]
  by (simp add: claims_step unsub_claims_step starts_step resume_receipts_step unsub_receipts_step dicts_step creates_step_ok)

lemma new_runtime_inv: "runtime_inv (new_runtime_authority token create_token)"
  by (simp add: runtime_inv_def claims_ok_def unsub_claims_ok_def starts_ok_def resume_receipts_ok_def
      unsub_receipts_ok_def dicts_ok_def new_runtime_authority_def new_creates_inv)

interpretation sections: step_system section_step "new_runtime_authority token create_token" runtime_inv
  by unfold_locales (use new_runtime_inv section_step_inv in blast)+

end
