(* ===== verification/Resume_Operations.thy ===== *)
theory Resume_Operations
  imports Resume_Authority
begin

text \<open>
  The operations of the runtime authority, composed from the critical sections of
  \<open>Resume_Authority\<close> and the calls of the ports. While a port call runs, the critical sections
  \<open>ae_others\<close> of other callers are executed; between two calls an operation runs through.
\<close>

text \<open>
  \<open>ae_guard\<close> is \<open>None\<close> when the caller gave no guard; \<open>ae_no_effect\<close> is the classifier of
  failures, \<open>None\<close> when it raises itself.
\<close>

record authority_env =
  ae_acquire :: "failure + bool"
  ae_release :: "failure option"
  ae_intent :: "failure option"
  ae_guard :: "(failure + bool) option"
  ae_resume :: "failure option"
  ae_page :: "failure + adapter_page"
  ae_record :: "failure option"
  ae_commit :: "failure option"
  ae_unsub :: "failure option"
  ae_clear :: "failure option"
  ae_clear_all :: "failure option"
  ae_start :: "failure option"
  ae_update :: "failure option"
  ae_archive :: "failure option"
  ae_delete :: "failure option"
  ae_no_effect :: "runtime_exn \<Rightarrow> bool option"
  ae_others :: "runtime_call \<Rightarrow> section_op list"

definition call_port :: "authority_env \<Rightarrow> runtime_call \<Rightarrow> runtime_authority \<Rightarrow> runtime_authority" where
  "call_port E c s = run_ops section_step (section_step s (SecCall c)) (ae_others E c)"

definition port_result :: "failure option \<Rightarrow> runtime_exn + unit" where
  "port_result f = (case f of None \<Rightarrow> Inr () | Some x \<Rightarrow> Inl (PortRaised x))"

definition failure_known_no_effect :: "authority_env \<Rightarrow> runtime_exn \<Rightarrow> bool" where
  "failure_known_no_effect E ex = (ae_no_effect E ex = Some True)"

section \<open>Acquiring and releasing the lease of a resume\<close>

definition acquire_claimed_resume ::
  "authority_env \<Rightarrow> runtime_authority \<Rightarrow> resume_claim \<Rightarrow> runtime_authority \<times> (runtime_exn + resume_receipt)" where
  "acquire_claimed_resume E s c =
     (case validate_resume_claim s c of
        Inl ex \<Rightarrow> (s, Inl ex)
      | Inr u \<Rightarrow>
          (let t = cl_thread c; tok = cl_token c
           in if \<not> resume_claim_current s c then (discard_resume_claim s t tok, Inl (PreSendRejected t))
              else let s1 = call_port E (CallAcquire t) s
              in case ae_acquire E of
                   Inl f \<Rightarrow> (discard_resume_claim s1 t tok, Inl (PortRaised f))
                 | Inr newly \<Rightarrow>
                     (case commit_acquired s1 c newly of
                        (s2, Some r) \<Rightarrow> (s2, Inr r)
                      | (s2, None) \<Rightarrow>
                          (if newly
                           then (discard_resume_claim (call_port E (CallRelease t) s2) t tok,
                                 Inl (case ae_release E of None \<Rightarrow> PreSendRejected t | Some f \<Rightarrow> PortRaised f))
                           else (discard_resume_claim s2 t tok, Inl (PreSendRejected t))))))"

definition acquire_resume_receipt ::
  "authority_env \<Rightarrow> runtime_authority \<Rightarrow> string \<Rightarrow> runtime_authority \<times> (runtime_exn + resume_receipt)" where
  "acquire_resume_receipt E s thread_id = bindc (claim_resume s thread_id) (acquire_claimed_resume E)"

definition release_new_resume_lease :: "authority_env \<Rightarrow> runtime_authority \<Rightarrow> resume_receipt \<Rightarrow> runtime_authority" where
  "release_new_resume_lease E s r =
     (if \<not> resume_receipt_current s r then s
      else discard_pending_resume (if lr_new r then call_port E (CallRelease (lr_thread r)) s else s) r)"

definition abandon_acquired_resume ::
  "authority_env \<Rightarrow> runtime_authority \<Rightarrow> resume_receipt \<Rightarrow> runtime_authority \<times> (runtime_exn + unit)" where
  "abandon_acquired_resume E s r =
     (case validate_resume_receipt s r of
        Inl ex \<Rightarrow> (s, Inl ex)
      | Inr u \<Rightarrow> (release_new_resume_lease E s r, Inr ()))"

section \<open>Settling a resume\<close>

text \<open>\<open>_raise_failed_resume\<close>: the state it leaves and the exception it raises.\<close>

definition raise_failed_resume ::
  "authority_env \<Rightarrow> runtime_authority \<Rightarrow> runtime_exn \<Rightarrow> resume_receipt \<Rightarrow> runtime_authority \<times> runtime_exn" where
  "raise_failed_resume E s ex r =
     (if failure_known_no_effect E ex then (release_new_resume_lease E s r, ex)
      else (discard_pending_resume s r, ResumeOutcomeUnknown r ex))"

fun run_cleanup ::
  "authority_env \<Rightarrow> (runtime_call \<times> failure option) list \<Rightarrow> runtime_authority \<Rightarrow> runtime_authority \<times> bool" where
  "run_cleanup E [] s = (s, True)"
| "run_cleanup E ((c, f) # steps) s =
     (if f = None then run_cleanup E steps (call_port E c s) else (call_port E c s, False))"

definition settle_failed_commit ::
  "authority_env \<Rightarrow> runtime_authority \<Rightarrow> resume_receipt \<Rightarrow> failure_policy \<Rightarrow> runtime_authority \<times> resume_settlement" where
  "settle_failed_commit E s r policy =
     (if policy = Retain then (s, resume_settlement_of r Retained True)
      else if \<not> lr_new r then (s, resume_settlement_of r Retained False)
      else case run_cleanup E
             [(CallUnsubscribe (lr_thread r) None, ae_unsub E), (CallClear (lr_thread r), ae_clear E),
              (CallRelease (lr_thread r), ae_release E)] s of
           (s1, completed) \<Rightarrow>
             (s1, if completed then resume_settlement_of r Compensated False
                  else resume_settlement_of r CleanupPending True))"

definition commit_pending_resume ::
  "authority_env \<Rightarrow> runtime_authority \<Rightarrow> resume_receipt \<Rightarrow> failure_policy \<Rightarrow> runtime_authority \<times> (runtime_exn + unit)" where
  "commit_pending_resume E s r policy =
     bindc (consume_pending_resume s r) (\<lambda>s1 _.
       let s2 = call_port E (CallCommit (lr_thread r)) s1
       in case port_result (ae_commit E) of
            Inr u \<Rightarrow> (s2, Inr ())
          | Inl ex \<Rightarrow>
              (case settle_failed_commit E s2 r policy of
                 (s3, settlement) \<Rightarrow> (s3, Inl (ResumeCommitFailed r ex policy settlement))))"

definition record_or_retain ::
  "authority_env \<Rightarrow> runtime_authority \<Rightarrow> resume_receipt \<Rightarrow> runtime_authority \<times> (runtime_exn + unit)" where
  "record_or_retain E s r =
     (let s1 = call_port E (CallRecord (lr_thread r)) s
      in case port_result (ae_record E) of
           Inr u \<Rightarrow> (s1, Inr ())
         | Inl ex \<Rightarrow>
             bindc (consume_pending_resume s1 r) (\<lambda>s2 _.
               case settle_failed_commit E s2 r Retain of
                 (s3, settlement) \<Rightarrow> (s3, Inl (ResumeCommitFailed r ex Retain settlement))))"

definition require_pre_send_guard ::
  "authority_env \<Rightarrow> runtime_authority \<Rightarrow> string \<Rightarrow> resume_receipt \<Rightarrow> runtime_authority \<times> (runtime_exn + unit)" where
  "require_pre_send_guard E s thread_id r =
     (case ae_guard E of
        None \<Rightarrow> (s, Inr ())
      | Some answer \<Rightarrow>
          (let s1 = call_port E CallGuard s
           in if answer = Inr True then (s1, Inr ())
              else (release_new_resume_lease E s1 r, Inl (PreSendRejected thread_id))))"

definition begin_resume_thread ::
  "authority_env \<Rightarrow> runtime_authority \<Rightarrow> string \<Rightarrow> settings_intent \<Rightarrow> runtime_authority \<times> (runtime_exn + resume_receipt)" where
  "begin_resume_thread E s thread_id intent =
     bindc (acquire_resume_receipt E s thread_id) (\<lambda>s1 r.
       let s2 = call_port E (CallIntent thread_id intent) s1
       in case port_result (ae_intent E) of
            Inl ex \<Rightarrow> (release_new_resume_lease E s2 r, Inl ex)
          | Inr u \<Rightarrow>
              bindc (require_pre_send_guard E s2 thread_id r) (\<lambda>s3 _.
                let s4 = call_port E (CallResume thread_id) s3
                in case port_result (ae_resume E) of
                     Inl ex \<Rightarrow> (case raise_failed_resume E s4 ex r of (s5, raised) \<Rightarrow> (s5, Inl raised))
                   | Inr u' \<Rightarrow> bindc (record_or_retain E s4 r) (\<lambda>s5 _. (s5, Inr r))))"

section \<open>Paged resumes\<close>

definition normalize_page_request ::
  "int \<Rightarrow> json option \<Rightarrow> int option \<Rightarrow> runtime_exn + int \<times> json option" where
  "normalize_page_request limit config expected =
     (if \<not> (case config of None \<Rightarrow> True | Some j \<Rightarrow> is_JObj j) then Inl RuntimeTypeError
      else if \<not> positive_or_none expected then Inl RuntimeValueError
      else Inr (max limit 1, map_option sort_keys config))"

definition or_none :: "string option \<Rightarrow> string option" where
  "or_none x = (if x = Some [] then None else x)"

definition intent_of_request :: "page_request \<Rightarrow> json option \<Rightarrow> settings_intent" where
  "intent_of_request q config =
     \<lparr>in_model = pq_model q,
      in_effort = (case config of Some (JObj ps) \<Rightarrow> map_of ps ''model_reasoning_effort'' | _ \<Rightarrow> None),
      in_approval = pq_approval q, in_permissions = pq_permissions q\<rparr>"

definition complete_claimed_resume ::
  "authority_env \<Rightarrow> runtime_authority \<Rightarrow> resume_receipt \<Rightarrow> page_request \<Rightarrow> runtime_authority \<times> (runtime_exn + prepared_resume)" where
  "complete_claimed_resume E s r q =
     (if pq_items_view q \<notin> {''full'', ''summary''} then (s, Inl RuntimeValueError)
      else case normalize_page_request (pq_limit q) (pq_config q) (pq_generation q) of
             Inl ex \<Rightarrow> (s, Inl ex)
           | Inr (limit, config) \<Rightarrow>
               (case require_pending_resume s r of
                  Inl ex \<Rightarrow> (s, Inl ex)
                | Inr u \<Rightarrow>
                    (let s1 = call_port E (CallIntent (lr_thread r) (intent_of_request q config)) s
                     in case port_result (ae_intent E) of
                          Inl ex \<Rightarrow> (s1, Inl ex)
                        | Inr u' \<Rightarrow>
                            (s1, Inr \<lparr>pp_receipt = r,
                               pp_request = q\<lparr>pq_limit := limit, pq_config := config, pq_model := or_none (pq_model q),
                                 pq_provider := or_none (pq_provider q), pq_approval := or_none (pq_approval q),
                                 pq_permissions := or_none (pq_permissions q)\<rparr>,
                               pp_authority = ra_token s\<rparr>))))"

text \<open>\<open>prepare_resume_thread_page\<close> has no \<open>items_view\<close> argument: it asks for the full view.\<close>

definition prepare_resume_page ::
  "authority_env \<Rightarrow> runtime_authority \<Rightarrow> string \<Rightarrow> page_request \<Rightarrow> runtime_authority \<times> (runtime_exn + prepared_resume)" where
  "prepare_resume_page E s thread_id q =
     (case normalize_page_request (pq_limit q) (pq_config q) (pq_generation q) of
        Inl ex \<Rightarrow> (s, Inl ex)
      | Inr (limit, config) \<Rightarrow>
          bindc (acquire_resume_receipt E s thread_id) (\<lambda>s1 r.
            case complete_claimed_resume E s1 r (q\<lparr>pq_limit := limit, pq_config := config, pq_items_view := ''full''\<rparr>) of
              (s2, Inr p) \<Rightarrow> (s2, Inr p)
            | (s2, Inl ex) \<Rightarrow>
                (case abandon_acquired_resume E s2 r of
                   (s3, Inl raised) \<Rightarrow> (s3, Inl raised)
                 | (s3, Inr u) \<Rightarrow> (s3, Inl ex))))"

definition validate_prepared_resume :: "runtime_authority \<Rightarrow> prepared_resume \<Rightarrow> runtime_exn + unit" where
  "validate_prepared_resume s p =
     (if pp_authority p \<noteq> ra_token s then Inl RuntimeValueError else validate_resume_receipt s (pp_receipt p))"

definition execute_prepared_resume ::
  "authority_env \<Rightarrow> runtime_authority \<Rightarrow> prepared_resume \<Rightarrow> runtime_authority \<times> (runtime_exn + adapter_page)" where
  "execute_prepared_resume E s p =
     (case validate_prepared_resume s p of
        Inl ex \<Rightarrow> (s, Inl ex)
      | Inr u \<Rightarrow>
          bindc (claim_resume_execution s (pp_receipt p)) (\<lambda>s1 _.
            (call_port E (CallResumePage (lr_thread (pp_receipt p)) (pp_request p)) s1,
             case ae_page E of Inl f \<Rightarrow> Inl (PortRaised f) | Inr page \<Rightarrow> Inr page)))"

definition settle_prepared_resume ::
  "authority_env \<Rightarrow> runtime_authority \<Rightarrow> prepared_resume \<Rightarrow> adapter_page option \<Rightarrow> runtime_exn option
    \<Rightarrow> runtime_authority \<times> (runtime_exn + resume_receipt)" where
  "settle_prepared_resume E s p response error =
     (let r = pp_receipt p
      in case validate_prepared_resume s p of
           Inl ex \<Rightarrow> (s, Inl ex)
         | Inr u \<Rightarrow>
             (if (response = None) = (error = None) then (s, Inl RuntimeValueError)
              else case bindr (require_pending_resume s r) (\<lambda>_. require_resume_execution s r) of
                Inl ex \<Rightarrow> (s, Inl ex)
              | Inr u' \<Rightarrow>
                  (case (error, response) of
                     (Some ex, _) \<Rightarrow> (case raise_failed_resume E s ex r of (s1, raised) \<Rightarrow> (s1, Inl raised))
                   | (None, Some (ResumePage n)) \<Rightarrow> bindc (record_or_retain E s r) (\<lambda>s1 _. (s1, Inr r))
                   | (None, _) \<Rightarrow>
                       (case raise_failed_resume E s (PortRaised InvalidPage) r of (s1, raised) \<Rightarrow> (s1, Inl raised)))))"

definition begin_resume_page ::
  "authority_env \<Rightarrow> runtime_authority \<Rightarrow> string \<Rightarrow> page_request \<Rightarrow> runtime_authority \<times> (runtime_exn + resume_receipt)" where
  "begin_resume_page E s thread_id q =
     bindc (prepare_resume_page E s thread_id q) (\<lambda>s1 p.
       case execute_prepared_resume E s1 p of
         (s2, Inl ex) \<Rightarrow> settle_prepared_resume E s2 p None (Some ex)
       | (s2, Inr page) \<Rightarrow> settle_prepared_resume E s2 p (Some page) None)"

section \<open>Unsubscribing\<close>

definition execute_prepared_unsub ::
  "authority_env \<Rightarrow> runtime_authority \<Rightarrow> prepared_unsub \<Rightarrow> runtime_authority \<times> (runtime_exn + unit)" where
  "execute_prepared_unsub E s p =
     (case validate_prepared_unsub s p of
        Inl ex \<Rightarrow> (s, Inl ex)
      | Inr u \<Rightarrow>
          bindc (claim_unsub_execution s (pu_receipt p)) (\<lambda>s1 _.
            (call_port E (CallUnsubscribe (ur_thread (pu_receipt p)) (pu_generation p)) s1, port_result (ae_unsub E))))"

text \<open>The exceptions of \<open>settle_prepared_unsubscribe_thread\<close>, before its \<open>except\<close> retires the receipt.\<close>

definition classify_unsub ::
  "authority_env \<Rightarrow> runtime_authority \<Rightarrow> unsub_receipt \<Rightarrow> bool \<Rightarrow> bool \<Rightarrow> runtime_exn option
    \<Rightarrow> runtime_authority \<times> (runtime_exn + unit)" where
  "classify_unsub E s r succeeded absent error =
     (if length (filter id [succeeded, absent, error \<noteq> None]) \<noteq> 1 then (s, Inl RuntimeValueError)
      else case bindr (require_pending_unsub s r) (\<lambda>_.
             if absent then require UnsubscribeStale (ur_token r \<notin> ra_executing_unsub s)
             else require_unsub_execution s r) of
        Inl ex \<Rightarrow> (s, Inl ex)
      | Inr u \<Rightarrow>
          (case error of
             Some ex \<Rightarrow> (s, Inl (if failure_known_no_effect E ex then ex else UnsubscribeOutcomeUnknown r ex))
           | None \<Rightarrow> (call_port E (CallClear (ur_thread r)) s, port_result (ae_clear E))))"

definition settle_prepared_unsub ::
  "authority_env \<Rightarrow> runtime_authority \<Rightarrow> prepared_unsub \<Rightarrow> bool \<Rightarrow> bool \<Rightarrow> runtime_exn option
    \<Rightarrow> runtime_authority \<times> (runtime_exn + unsub_receipt)" where
  "settle_prepared_unsub E s p succeeded absent error =
     (let r = pu_receipt p
      in case validate_prepared_unsub s p of
           Inl ex \<Rightarrow> (s, Inl ex)
         | Inr u \<Rightarrow>
             (case classify_unsub E s r succeeded absent error of
                (s1, Inl ex) \<Rightarrow> (fst (discard_pending_unsub s1 r), Inl ex)
              | (s1, Inr u') \<Rightarrow> (s1, Inr r)))"

definition abandon_prepared_unsub :: "runtime_authority \<Rightarrow> prepared_unsub \<Rightarrow> runtime_authority \<times> (runtime_exn + unit)" where
  "abandon_prepared_unsub s p =
     (case validate_prepared_unsub s p of
        Inl ex \<Rightarrow> (s, Inl ex)
      | Inr u \<Rightarrow> discard_pending_unsub s (pu_receipt p))"

text \<open>The local commit of the caller is an argument.\<close>

definition commit_pending_unsub ::
  "runtime_authority \<Rightarrow> unsub_receipt \<Rightarrow> (runtime_authority \<Rightarrow> runtime_authority \<times> (runtime_exn + unit))
    \<Rightarrow> runtime_authority \<times> (runtime_exn + unit)" where
  "commit_pending_unsub s r local_commit =
     (case validate_unsub_receipt s r of
        Inl ex \<Rightarrow> (s, Inl ex)
      | Inr u \<Rightarrow>
          (case (case require_pending_unsub s r of Inl ex \<Rightarrow> (s, Inl ex) | Inr u' \<Rightarrow> local_commit s) of
             (s1, result) \<Rightarrow> (fst (discard_pending_unsub s1 r), result)))"

text \<open>The body of the outer \<open>try\<close> of \<open>unsubscribe_thread\<close>; the local commit does nothing.\<close>

definition unsubscribe_body ::
  "authority_env \<Rightarrow> runtime_authority \<Rightarrow> prepared_unsub \<Rightarrow> runtime_authority \<times> (runtime_exn + unit)" where
  "unsubscribe_body E s p =
     (case execute_prepared_unsub E s p of
        (s1, Inl ex) \<Rightarrow> bindc (settle_prepared_unsub E s1 p False False (Some ex)) (\<lambda>s2 _. (s2, Inl RuntimeAssertion))
      | (s1, Inr u) \<Rightarrow>
          bindc (settle_prepared_unsub E s1 p True False None) (\<lambda>s2 r.
            commit_pending_unsub s2 r (\<lambda>s3. (s3, Inr ()))))"

definition unsubscribe_thread ::
  "authority_env \<Rightarrow> runtime_authority \<Rightarrow> string \<Rightarrow> int option \<Rightarrow> runtime_authority \<times> (runtime_exn + unit)" where
  "unsubscribe_thread E s thread_id expected =
     bindc (prepare_unsubscribe s thread_id expected) (\<lambda>s1 p.
       case unsubscribe_body E s1 p of
         (s2, result) \<Rightarrow>
           (case abandon_prepared_unsub s2 p of
              (s3, Inl ex) \<Rightarrow> (s3, Inl ex)
            | (s3, Inr u) \<Rightarrow> (s3, result)))"

section \<open>Starting, settings, removal, and losing the connection\<close>

definition start_turn ::
  "authority_env \<Rightarrow> runtime_authority \<Rightarrow> string \<Rightarrow> settings_intent \<Rightarrow> runtime_authority \<times> (runtime_exn + unit)" where
  "start_turn E s thread_id intent =
     bindc (claim_direct_start s thread_id) (\<lambda>s1 (t, tok).
       let s2 = call_port E (CallIntent t intent) s1
       in case port_result (ae_intent E) of
            Inl ex \<Rightarrow> (release_direct_start s2 t tok, Inl ex)
          | Inr u \<Rightarrow> (release_direct_start (call_port E (CallStart t) s2) t tok, port_result (ae_start E)))"

definition update_thread_settings ::
  "authority_env \<Rightarrow> runtime_authority \<Rightarrow> string \<Rightarrow> settings_intent \<Rightarrow> runtime_authority \<times> (runtime_exn + unit)" where
  "update_thread_settings E s t intent =
     (let s1 = call_port E (CallBase t intent) s
      in case port_result (ae_intent E) of
           Inl ex \<Rightarrow> (s1, Inl ex)
         | Inr u \<Rightarrow> (call_port E (CallUpdate t intent) s1, port_result (ae_update E)))"

definition archive_thread :: "authority_env \<Rightarrow> runtime_authority \<Rightarrow> string \<Rightarrow> runtime_authority \<times> (runtime_exn + unit)" where
  "archive_thread E s t =
     (let s1 = call_port E (CallArchive t) s
      in case port_result (ae_archive E) of
           Inl ex \<Rightarrow> (s1, Inl ex)
         | Inr u \<Rightarrow> (call_port E (CallClear t) s1, port_result (ae_clear E)))"

definition delete_thread :: "authority_env \<Rightarrow> runtime_authority \<Rightarrow> string \<Rightarrow> runtime_authority \<times> (runtime_exn + unit)" where
  "delete_thread E s t =
     (let s1 = call_port E (CallDelete t) s
      in case port_result (ae_delete E) of
           Inl ex \<Rightarrow> (s1, Inl ex)
         | Inr u \<Rightarrow> (call_port E (CallClear t) s1, port_result (ae_clear E)))"

definition invalidate_connection :: "authority_env \<Rightarrow> runtime_authority \<Rightarrow> runtime_authority \<times> (runtime_exn + unit)" where
  "invalidate_connection E s =
     (let s1 = call_port E CallClearAll s;
          s2 = s1\<lparr>ra_creates := invalidate_creates (ra_creates s1)\<rparr>
      in (invalidate_receipts s2, port_result (ae_clear_all E)))"

definition confirm_backend_reset :: "authority_env \<Rightarrow> runtime_authority \<Rightarrow> runtime_authority \<times> (runtime_exn + unit)" where
  "confirm_backend_reset E s =
     (let s1 = call_port E CallClearAll s;
          s2 = s1\<lparr>ra_creates := invalidate_creates (ra_creates s1)\<rparr>
      in (invalidate_receipts s2, port_result (ae_clear_all E)))"

end
