(* ===== verification/Resume_Properties.thy ===== *)
theory Resume_Properties
  imports Resume_Operations
begin

text \<open>
  What the resume and unsubscribe transactions promise. Every operation is a run of critical
  sections, its own and those of the callers that interfere (\<open>section_run\<close>); a fact kept by
  the sections is therefore kept by every operation with any interference.
\<close>

section \<open>Operations are runs of critical sections\<close>

definition section_run :: "(section_op \<Rightarrow> bool) \<Rightarrow> runtime_authority \<Rightarrow> runtime_authority \<Rightarrow> bool" where
  "section_run A s s' = (\<exists>xs. list_all A xs \<and> s' = run_ops section_step s xs)"

definition others_allowed :: "(section_op \<Rightarrow> bool) \<Rightarrow> authority_env \<Rightarrow> bool" where
  "others_allowed A E = (\<forall>c. list_all A (ae_others E c))"

lemma section_run_refl [simp]: "section_run A s s"
  unfolding section_run_def by (intro exI [of _ "[]"]) simp

lemma section_run_trans: "section_run A s s1 \<Longrightarrow> section_run A s1 s2 \<Longrightarrow> section_run A s s2"
  unfolding section_run_def by (metis list_all_append run_ops_append)

lemma section_run_step: "A x \<Longrightarrow> section_run A s s1 \<Longrightarrow> section_run A s (section_step s1 x)"
  by (rule section_run_trans, assumption, unfold section_run_def) (intro exI [of _ "[x]"], simp)

lemma section_run_fst: "section_run A s (fst r) \<Longrightarrow> r = (s1, y) \<Longrightarrow> section_run A s s1"
  by simp

lemma section_run_bindc:
  assumes "section_run A s (fst r)" and "\<And>s1 x. r = (s1, Inr x) \<Longrightarrow> section_run A s s1 \<Longrightarrow> section_run A s (fst (k s1 x))"
  shows "section_run A s (fst (bindc r k))"
  using assms by (cases r; cases "snd r") auto

text \<open>
  A class of critical sections that contains all of them except, perhaps, the removal of
  particular claims.
\<close>

locale section_class =
  fixes A :: "section_op \<Rightarrow> bool"
  assumes usual: "(\<And>t k. x \<noteq> SecDiscardClaim t k) \<Longrightarrow> A x"
begin

lemma run_claim: "section_run A s s1 \<Longrightarrow> section_run A s (fst (claim_resume s1 t))"
  using section_run_step [of A "SecClaimResume t"] usual by simp

lemma run_commit_acquired: "section_run A s s1 \<Longrightarrow> section_run A s (fst (commit_acquired s1 c newly))"
  using section_run_step [of A "SecCommitAcquired c newly"] usual by simp

lemma run_discard_claim: "A (SecDiscardClaim t k) \<Longrightarrow> section_run A s s1 \<Longrightarrow> section_run A s (discard_resume_claim s1 t k)"
  using section_run_step [of A "SecDiscardClaim t k"] by simp

lemma run_abandon_claim: "section_run A s s1 \<Longrightarrow> section_run A s (fst (abandon_resume_claim s1 c))"
  using section_run_step [of A "SecAbandonClaim c"] usual by simp

lemma run_consume: "section_run A s s1 \<Longrightarrow> section_run A s (fst (consume_pending_resume s1 r))"
  using section_run_step [of A "SecConsume r"] usual by simp

lemma run_discard_resume: "section_run A s s1 \<Longrightarrow> section_run A s (discard_pending_resume s1 r)"
  using section_run_step [of A "SecDiscardResume r"] usual by simp

lemma run_execute_resume: "section_run A s s1 \<Longrightarrow> section_run A s (fst (claim_resume_execution s1 r))"
  using section_run_step [of A "SecExecuteResume r"] usual by simp

lemma run_prepare_unsub: "section_run A s s1 \<Longrightarrow> section_run A s (fst (prepare_unsubscribe s1 t n))"
  using section_run_step [of A "SecPrepareUnsub t n"] usual by simp

lemma run_execute_unsub: "section_run A s s1 \<Longrightarrow> section_run A s (fst (claim_unsub_execution s1 r))"
  using section_run_step [of A "SecExecuteUnsub r"] usual by simp

lemma run_discard_unsub: "section_run A s s1 \<Longrightarrow> section_run A s (fst (discard_pending_unsub s1 r))"
  using section_run_step [of A "SecDiscardUnsub r"] usual by simp

lemma run_claim_start: "section_run A s s1 \<Longrightarrow> section_run A s (fst (claim_direct_start s1 t))"
  using section_run_step [of A "SecClaimStart t"] usual by simp

lemma run_release_start: "section_run A s s1 \<Longrightarrow> section_run A s (release_direct_start s1 t k)"
  using section_run_step [of A "SecReleaseStart t k"] usual by simp

lemma run_invalidate: "section_run A s s1 \<Longrightarrow> section_run A s (invalidate_receipts s1)"
  using section_run_step [of A SecInvalidate] usual by simp

lemma run_creates: "section_run A s s1 \<Longrightarrow> section_run A s (s1\<lparr>ra_creates := create_step (ra_creates s1) x\<rparr>)"
  using section_run_step [of A "SecCreates x"] usual by simp

lemma run_port: "others_allowed A E \<Longrightarrow> section_run A s s1 \<Longrightarrow> section_run A s (call_port E c s1)"
proof -
  assume ok: "others_allowed A E" and r: "section_run A s s1"
  have "A (SecCall c)" using usual by simp
  then have "section_run A s1 (call_port E c s1)"
    using ok unfolding call_port_def others_allowed_def section_run_def
    by (intro exI [of _ "SecCall c # ae_others E c"]) simp
  with r show ?thesis by (rule section_run_trans)
qed

lemmas runs = run_claim run_commit_acquired run_abandon_claim run_consume run_discard_resume run_execute_resume
  run_prepare_unsub run_execute_unsub run_discard_unsub run_claim_start run_release_start run_invalidate run_port

lemma run_acquire_claimed:
  assumes "others_allowed A E" and "A (SecDiscardClaim (cl_thread c) (cl_token c))" and "section_run A s s1"
  shows "section_run A s (fst (acquire_claimed_resume E s1 c))"
proof -
  have k: "section_run A s (call_port E (CallAcquire (cl_thread c)) s1)" using assms by (simp add: runs)
  then have "section_run A s (fst (commit_acquired (call_port E (CallAcquire (cl_thread c)) s1) c newly))" for newly
    by (simp add: runs)
  then show ?thesis
    using assms k
    by (auto simp: acquire_claimed_resume_def Let_def split: sum.split prod.split option.split
        intro!: run_discard_claim run_port dest: section_run_fst)
qed

lemma run_release_new:
  assumes "others_allowed A E" and "section_run A s s1"
  shows "section_run A s (release_new_resume_lease E s1 r)"
  using assms by (simp add: release_new_resume_lease_def runs)

lemma run_abandon_acquired:
  assumes "others_allowed A E" and "section_run A s s1"
  shows "section_run A s (fst (abandon_acquired_resume E s1 r))"
  using assms by (auto simp: abandon_acquired_resume_def run_release_new split: sum.split)

lemma run_raise_failed:
  assumes "others_allowed A E" and "section_run A s s1"
  shows "section_run A s (fst (raise_failed_resume E s1 ex r))"
  using assms by (simp add: raise_failed_resume_def run_release_new runs)

lemma run_cleanup_steps:
  assumes "others_allowed A E" and "section_run A s s1"
  shows "section_run A s (fst (run_cleanup E steps s1))"
  using assms by (induction E steps s1 rule: run_cleanup.induct) (simp_all add: runs)

lemma run_settle_failed:
  assumes "others_allowed A E" and "section_run A s s1"
  shows "section_run A s (fst (settle_failed_commit E s1 r policy))"
  using run_cleanup_steps [OF assms] assms(2)
  by (auto simp: settle_failed_commit_def simp del: run_cleanup.simps split: prod.split dest: section_run_fst [rotated])

lemma run_commit_resume:
  assumes "others_allowed A E" and "section_run A s s1"
  shows "section_run A s (fst (commit_pending_resume E s1 r policy))"
  unfolding commit_pending_resume_def
proof (rule section_run_bindc)
  show "section_run A s (fst (consume_pending_resume s1 r))" using assms by (simp add: runs)
next
  fix s2 x
  assume "section_run A s s2"
  then have "section_run A s (call_port E (CallCommit (lr_thread r)) s2)" using assms by (simp add: runs)
  moreover from this have "section_run A s (fst (settle_failed_commit E (call_port E (CallCommit (lr_thread r)) s2) r policy))"
    using assms by (simp add: run_settle_failed)
  ultimately show "section_run A s (fst (let s3 = call_port E (CallCommit (lr_thread r)) s2
       in case port_result (ae_commit E) of
            Inl ex \<Rightarrow> (case settle_failed_commit E s3 r policy of (s4, settlement) \<Rightarrow> (s4, Inl (ResumeCommitFailed r ex policy settlement)))
          | Inr u \<Rightarrow> (s3, Inr ())))"
    by (auto simp: Let_def split: sum.split prod.split)
qed

lemma run_record:
  assumes "others_allowed A E" and "section_run A s s1"
  shows "section_run A s (fst (record_or_retain E s1 r))"
proof -
  have k: "section_run A s (call_port E (CallRecord (lr_thread r)) s1)" using assms by (simp add: runs)
  have "section_run A s (fst (bindc (consume_pending_resume (call_port E (CallRecord (lr_thread r)) s1) r)
      (\<lambda>s2 _. case settle_failed_commit E s2 r Retain of (s3, settlement) \<Rightarrow> (s3, Inl (ResumeCommitFailed r ex Retain settlement)))))" for ex
    using k by (intro section_run_bindc) (auto simp: runs settle_failed_commit_def)
  then show ?thesis using k by (auto simp: record_or_retain_def Let_def split: sum.split)
qed

lemma run_acquire_receipt:
  assumes "others_allowed A E" and "\<And>t. A (SecDiscardClaim t (ra_next_token s))"
  shows "section_run A s (fst (acquire_resume_receipt E s thread_id))"
  unfolding acquire_resume_receipt_def
proof (rule section_run_bindc)
  show "section_run A s (fst (claim_resume s thread_id))" by (simp add: runs)
next
  fix s1 c
  assume "claim_resume s thread_id = (s1, Inr c)" and r: "section_run A s s1"
  then have "cl_token c = ra_next_token s" by (auto simp: claim_resume_def Let_def split: if_splits)
  then show "section_run A s (fst (acquire_claimed_resume E s1 c))" using assms r by (simp add: run_acquire_claimed)
qed

lemma run_guard:
  assumes "others_allowed A E" and "section_run A s s1"
  shows "section_run A s (fst (require_pre_send_guard E s1 t r))"
  using assms by (auto simp: require_pre_send_guard_def Let_def runs run_release_new split: option.split)

lemma run_begin_resume:
  assumes E: "others_allowed A E" and "\<And>t. A (SecDiscardClaim t (ra_next_token s))"
  shows "section_run A s (fst (begin_resume_thread E s thread_id intent))"
  unfolding begin_resume_thread_def
proof (rule section_run_bindc)
  show "section_run A s (fst (acquire_resume_receipt E s thread_id))" by (rule run_acquire_receipt [OF assms])
next
  fix s1 r
  assume "section_run A s s1"
  then have i: "section_run A s (call_port E (CallIntent thread_id intent) s1)" using E by (simp add: runs)
  have "section_run A s (fst (bindc (require_pre_send_guard E (call_port E (CallIntent thread_id intent) s1) thread_id r) (\<lambda>s3 _.
      let s4 = call_port E (CallResume thread_id) s3
      in case port_result (ae_resume E) of
           Inl ex \<Rightarrow> (case raise_failed_resume E s4 ex r of (s5, raised) \<Rightarrow> (s5, Inl raised))
         | Inr u' \<Rightarrow> bindc (record_or_retain E s4 r) (\<lambda>s5 _. (s5, Inr r)))))"
  proof (rule section_run_bindc)
    fix s3 x
    assume "section_run A s s3"
    then have g: "section_run A s (call_port E (CallResume thread_id) s3)" using E by (simp add: runs)
    then have "section_run A s (fst (raise_failed_resume E (call_port E (CallResume thread_id) s3) ex r))" for ex
      using E by (simp add: run_raise_failed)
    then show "section_run A s (fst (let s4 = call_port E (CallResume thread_id) s3
      in case port_result (ae_resume E) of
           Inl ex \<Rightarrow> (case raise_failed_resume E s4 ex r of (s5, raised) \<Rightarrow> (s5, Inl raised))
         | Inr u' \<Rightarrow> bindc (record_or_retain E s4 r) (\<lambda>s5 _. (s5, Inr r))))"
      using E g by (auto simp: Let_def run_record intro!: section_run_bindc split: sum.split prod.split dest: section_run_fst)
  qed (simp add: E i run_guard)
  then show "section_run A s (fst (let s2 = call_port E (CallIntent thread_id intent) s1
       in case port_result (ae_intent E) of
            Inl ex \<Rightarrow> (release_new_resume_lease E s2 r, Inl ex)
          | Inr u \<Rightarrow> bindc (require_pre_send_guard E s2 thread_id r) (\<lambda>s3 _.
                let s4 = call_port E (CallResume thread_id) s3
                in case port_result (ae_resume E) of
                     Inl ex \<Rightarrow> (case raise_failed_resume E s4 ex r of (s5, raised) \<Rightarrow> (s5, Inl raised))
                   | Inr u' \<Rightarrow> bindc (record_or_retain E s4 r) (\<lambda>s5 _. (s5, Inr r)))))"
    using E i by (simp add: Let_def run_release_new split: sum.split)
qed

lemma run_complete:
  assumes "others_allowed A E" and "section_run A s s1"
  shows "section_run A s (fst (complete_claimed_resume E s1 r q))"
  using assms by (auto simp: complete_claimed_resume_def Let_def runs split: sum.split)

lemma run_prepare_page:
  assumes E: "others_allowed A E" and "\<And>t. A (SecDiscardClaim t (ra_next_token s))"
  shows "section_run A s (fst (prepare_resume_page E s thread_id q))"
proof -
  have "section_run A s (fst (bindc (acquire_resume_receipt E s thread_id) (\<lambda>s1 r.
            case complete_claimed_resume E s1 r (q\<lparr>pq_limit := limit, pq_config := config, pq_items_view := ''full''\<rparr>) of
              (s2, Inr p) \<Rightarrow> (s2, Inr p)
            | (s2, Inl ex) \<Rightarrow>
                (case abandon_acquired_resume E s2 r of
                   (s3, Inl raised) \<Rightarrow> (s3, Inl raised)
                 | (s3, Inr u) \<Rightarrow> (s3, Inl ex)))))" for limit config
  proof (rule section_run_bindc)
    show "section_run A s (fst (acquire_resume_receipt E s thread_id))" by (rule run_acquire_receipt [OF assms])
  next
    fix s1 r
    assume "section_run A s s1"
    then have c: "section_run A s (fst (complete_claimed_resume E s1 r (q\<lparr>pq_limit := limit, pq_config := config, pq_items_view := ''full''\<rparr>)))"
      using E by (rule run_complete [rotated])
    obtain s2 y where y: "complete_claimed_resume E s1 r (q\<lparr>pq_limit := limit, pq_config := config, pq_items_view := ''full''\<rparr>) = (s2, y)"
      by fastforce
    have "section_run A s (fst (abandon_acquired_resume E s2 r))"
      using run_abandon_acquired [OF E section_run_fst [OF c y]] .
    then show "section_run A s (fst (case complete_claimed_resume E s1 r (q\<lparr>pq_limit := limit, pq_config := config, pq_items_view := ''full''\<rparr>) of
              (s2, Inr p) \<Rightarrow> (s2, Inr p)
            | (s2, Inl ex) \<Rightarrow>
                (case abandon_acquired_resume E s2 r of
                   (s3, Inl raised) \<Rightarrow> (s3, Inl raised)
                 | (s3, Inr u) \<Rightarrow> (s3, Inl ex))))"
      using section_run_fst [OF c y] by (auto simp: y split: sum.split prod.split dest: section_run_fst)
  qed
  then show ?thesis by (auto simp: prepare_resume_page_def split: sum.split)
qed

lemma run_execute_prepared:
  assumes "others_allowed A E" and "section_run A s s1"
  shows "section_run A s (fst (execute_prepared_resume E s1 p))"
  using assms by (auto simp: execute_prepared_resume_def runs intro!: section_run_bindc split: sum.split)

lemma run_settle_prepared:
  assumes E: "others_allowed A E" and r: "section_run A s s1"
  shows "section_run A s (fst (settle_prepared_resume E s1 p response error))"
proof -
  have "section_run A s (fst (raise_failed_resume E s1 ex (pp_receipt p)))" for ex using E r by (rule run_raise_failed)
  moreover have "section_run A s (fst (bindc (record_or_retain E s1 (pp_receipt p)) (\<lambda>s1 _. (s1, Inr (pp_receipt p)))))"
    using run_record [OF E r] by (intro section_run_bindc) auto
  ultimately show ?thesis
    using r by (auto simp: settle_prepared_resume_def Let_def split: sum.split prod.split option.split adapter_page.split dest: section_run_fst)
qed

lemma run_begin_page:
  assumes E: "others_allowed A E" and "\<And>t. A (SecDiscardClaim t (ra_next_token s))"
  shows "section_run A s (fst (begin_resume_page E s thread_id q))"
  unfolding begin_resume_page_def
proof (rule section_run_bindc)
  show "section_run A s (fst (prepare_resume_page E s thread_id q))" by (rule run_prepare_page [OF assms])
next
  fix s1 p
  assume "section_run A s s1"
  then have "section_run A s (fst (execute_prepared_resume E s1 p))" using E by (rule run_execute_prepared [rotated])
  then show "section_run A s (fst (case execute_prepared_resume E s1 p of
         (s2, Inl ex) \<Rightarrow> settle_prepared_resume E s2 p None (Some ex)
       | (s2, Inr page) \<Rightarrow> settle_prepared_resume E s2 p (Some page) None))"
    using E by (auto simp: run_settle_prepared split: sum.split prod.split dest: section_run_fst)
qed

lemma run_execute_prepared_unsub:
  assumes "others_allowed A E" and "section_run A s s1"
  shows "section_run A s (fst (execute_prepared_unsub E s1 p))"
  using assms by (auto simp: execute_prepared_unsub_def runs intro!: section_run_bindc split: sum.split)

lemma run_settle_unsub:
  assumes "others_allowed A E" and "section_run A s s1"
  shows "section_run A s (fst (settle_prepared_unsub E s1 p succeeded absent error))"
proof -
  have "section_run A s (fst (classify_unsub E s1 (pu_receipt p) succeeded absent error))"
    using assms by (auto simp: classify_unsub_def runs split: sum.split option.split)
  then show ?thesis
    using assms by (auto simp: settle_prepared_unsub_def Let_def runs split: sum.split prod.split dest: section_run_fst)
qed

lemma run_abandon_unsub: "section_run A s s1 \<Longrightarrow> section_run A s (fst (abandon_prepared_unsub s1 p))"
  by (auto simp: abandon_prepared_unsub_def runs split: sum.split)

lemma run_commit_unsub:
  assumes "\<And>s2. section_run A s s2 \<Longrightarrow> section_run A s (fst (local_commit s2))" and "section_run A s s1"
  shows "section_run A s (fst (commit_pending_unsub s1 r local_commit))"
  using assms(1) [OF assms(2)] assms(2)
  by (auto simp: commit_pending_unsub_def runs split: sum.split prod.split dest: section_run_fst)

lemma run_unsubscribe:
  assumes E: "others_allowed A E"
  shows "section_run A s (fst (unsubscribe_thread E s t n))"
  unfolding unsubscribe_thread_def
proof (rule section_run_bindc)
  show "section_run A s (fst (prepare_unsubscribe s t n))" by (simp add: runs)
next
  fix s1 p
  assume "section_run A s s1"
  then have x: "section_run A s (fst (execute_prepared_unsub E s1 p))" using E by (rule run_execute_prepared_unsub [rotated])
  have "section_run A s (fst (unsubscribe_body E s1 p))"
    using E section_run_fst [OF x]
    by (auto simp: unsubscribe_body_def run_settle_unsub intro!: section_run_bindc run_commit_unsub split: sum.split prod.split)
  then show "section_run A s (fst (case unsubscribe_body E s1 p of
         (s2, result) \<Rightarrow> (case abandon_prepared_unsub s2 p of (s3, Inl ex) \<Rightarrow> (s3, Inl ex) | (s3, Inr u) \<Rightarrow> (s3, result))))"
    by (auto split: sum.split prod.split dest!: section_run_fst intro: run_abandon_unsub [THEN section_run_fst])
qed

lemma run_start:
  assumes "others_allowed A E"
  shows "section_run A s (fst (start_turn E s t intent))"
  unfolding start_turn_def using assms
  by (intro section_run_bindc) (auto simp: Let_def runs split: sum.split)

lemma run_invalidate_connection:
  assumes "others_allowed A E"
  shows "section_run A s (fst (invalidate_connection E s))" and "section_run A s (fst (confirm_backend_reset E s))"
  using run_invalidate [OF run_creates [OF run_port [OF assms section_run_refl], where x = InvalidateCreates]]
  by (simp_all add: invalidate_connection_def confirm_backend_reset_def Let_def)

lemma run_settings:
  assumes "others_allowed A E"
  shows "section_run A s (fst (update_thread_settings E s t intent))"
    and "section_run A s (fst (archive_thread E s t))" and "section_run A s (fst (delete_thread E s t))"
  using assms by (auto simp: update_thread_settings_def archive_thread_def delete_thread_def Let_def runs split: sum.split)

end

section \<open>The authority as a step system\<close>

datatype authority_call =
    BeginResume authority_env string settings_intent
  | BeginPage authority_env string page_request
  | PreparePage authority_env string page_request
  | ClaimResume string
  | AcquireClaimed authority_env resume_claim
  | AbandonClaim resume_claim
  | CompleteClaimed authority_env resume_receipt page_request
  | AbandonAcquired authority_env resume_receipt
  | ExecuteResume authority_env prepared_resume
  | SettleResume authority_env prepared_resume "adapter_page option" "runtime_exn option"
  | CommitResume authority_env resume_receipt failure_policy
  | PrepareUnsub string "int option"
  | ExecuteUnsub authority_env prepared_unsub
  | SettleUnsub authority_env prepared_unsub bool bool "runtime_exn option"
  | AbandonUnsub prepared_unsub
  | CommitUnsub authority_env unsub_receipt
  | Unsubscribe authority_env string "int option"
  | StartTurn authority_env string settings_intent
  | UpdateSettings authority_env string settings_intent
  | Archive authority_env string
  | Delete authority_env string
  | InvalidateConnection authority_env
  | ConfirmReset authority_env
  | Creates create_op

fun runtime_step :: "runtime_authority \<Rightarrow> authority_call \<Rightarrow> runtime_authority" where
  "runtime_step s (BeginResume E t i) = fst (begin_resume_thread E s t i)"
| "runtime_step s (BeginPage E t q) = fst (begin_resume_page E s t q)"
| "runtime_step s (PreparePage E t q) = fst (prepare_resume_page E s t q)"
| "runtime_step s (ClaimResume t) = fst (claim_resume s t)"
| "runtime_step s (AcquireClaimed E c) = fst (acquire_claimed_resume E s c)"
| "runtime_step s (AbandonClaim c) = fst (abandon_resume_claim s c)"
| "runtime_step s (CompleteClaimed E r q) = fst (complete_claimed_resume E s r q)"
| "runtime_step s (AbandonAcquired E r) = fst (abandon_acquired_resume E s r)"
| "runtime_step s (ExecuteResume E p) = fst (execute_prepared_resume E s p)"
| "runtime_step s (SettleResume E p response error) = fst (settle_prepared_resume E s p response error)"
| "runtime_step s (CommitResume E r policy) = fst (commit_pending_resume E s r policy)"
| "runtime_step s (PrepareUnsub t n) = fst (prepare_unsubscribe s t n)"
| "runtime_step s (ExecuteUnsub E p) = fst (execute_prepared_unsub E s p)"
| "runtime_step s (SettleUnsub E p succeeded absent error) = fst (settle_prepared_unsub E s p succeeded absent error)"
| "runtime_step s (AbandonUnsub p) = fst (abandon_prepared_unsub s p)"
| "runtime_step s (CommitUnsub E r) =
     fst (commit_pending_unsub s r (\<lambda>s1. (call_port E (CallCommit (ur_thread r)) s1, port_result (ae_commit E))))"
| "runtime_step s (Unsubscribe E t n) = fst (unsubscribe_thread E s t n)"
| "runtime_step s (StartTurn E t i) = fst (start_turn E s t i)"
| "runtime_step s (UpdateSettings E t i) = fst (update_thread_settings E s t i)"
| "runtime_step s (Archive E t) = fst (archive_thread E s t)"
| "runtime_step s (Delete E t) = fst (delete_thread E s t)"
| "runtime_step s (InvalidateConnection E) = fst (invalidate_connection E s)"
| "runtime_step s (ConfirmReset E) = fst (confirm_backend_reset E s)"
| "runtime_step s (Creates x) = s\<lparr>ra_creates := create_step (ra_creates s) x\<rparr>"

text \<open>Calls whose critical sections, and those that interfere with them, are in a class.\<close>

fun call_allowed :: "(section_op \<Rightarrow> bool) \<Rightarrow> authority_call \<Rightarrow> bool" where
  "call_allowed A (BeginResume E t i) = others_allowed A E"
| "call_allowed A (BeginPage E t q) = others_allowed A E"
| "call_allowed A (PreparePage E t q) = others_allowed A E"
| "call_allowed A (AcquireClaimed E c) = (others_allowed A E \<and> A (SecDiscardClaim (cl_thread c) (cl_token c)))"
| "call_allowed A (CompleteClaimed E r q) = others_allowed A E"
| "call_allowed A (AbandonAcquired E r) = others_allowed A E"
| "call_allowed A (ExecuteResume E p) = others_allowed A E"
| "call_allowed A (SettleResume E p response error) = others_allowed A E"
| "call_allowed A (CommitResume E r policy) = others_allowed A E"
| "call_allowed A (ExecuteUnsub E p) = others_allowed A E"
| "call_allowed A (SettleUnsub E p succeeded absent error) = others_allowed A E"
| "call_allowed A (CommitUnsub E r) = others_allowed A E"
| "call_allowed A (Unsubscribe E t n) = others_allowed A E"
| "call_allowed A (StartTurn E t i) = others_allowed A E"
| "call_allowed A (UpdateSettings E t i) = others_allowed A E"
| "call_allowed A (Archive E t) = others_allowed A E"
| "call_allowed A (Delete E t) = others_allowed A E"
| "call_allowed A (InvalidateConnection E) = others_allowed A E"
| "call_allowed A (ConfirmReset E) = others_allowed A E"
| "call_allowed A _ = True"

context section_class
begin

lemma call_is_run:
  assumes "call_allowed A x" and "\<And>t. A (SecDiscardClaim t (ra_next_token s))"
  shows "section_run A s (runtime_step s x)"
proof (cases x)
  case (CommitUnsub E r)
  then show ?thesis using assms by (auto simp: runs intro!: run_commit_unsub)
next
  case (Creates y)
  then show ?thesis using run_creates [of s s y] by simp
qed (use assms in \<open>auto simp: runs run_begin_resume run_begin_page run_prepare_page run_acquire_claimed run_complete run_abandon_acquired
    run_execute_prepared run_settle_prepared run_commit_resume run_execute_prepared_unsub run_settle_unsub run_abandon_unsub
    run_unsubscribe run_start run_settings run_invalidate_connection\<close>)

end

interpretation every_section: section_class "\<lambda>_. True"
  by unfold_locales simp

lemma everything_allowed [simp]: "others_allowed (\<lambda>_. True) E" "call_allowed (\<lambda>_. True) x"
  by (simp add: others_allowed_def list_all_iff) (cases x; simp add: others_allowed_def list_all_iff)

lemma call_run: "section_run (\<lambda>_. True) s (runtime_step s x)"
  by (rule every_section.call_is_run) simp_all

lemma section_run_inv: "section_run A s s' \<Longrightarrow> runtime_inv s \<Longrightarrow> runtime_inv s'"
  by (auto simp: section_run_def intro: sections.run_inv)

interpretation runtime: step_system runtime_step "new_runtime_authority token create_token" runtime_inv
  by unfold_locales (use new_runtime_inv section_run_inv call_run in blast)+

section \<open>Facts that stand once a receipt was used\<close>

text \<open>A receipt of this authority that is not, and so never again, the stored one.\<close>

definition resume_settled :: "resume_receipt \<Rightarrow> runtime_authority \<Rightarrow> bool" where
  "resume_settled r s =
     (lr_addr r < ra_next_addr s \<and> lr_authority r = ra_token s \<and> lr_thread r \<noteq> []
      \<and> map_of (ra_pending_resume s) (lr_token r) \<noteq> Some r)"

text \<open>A receipt whose request was sent: it is settled or marked as executing.\<close>

definition resume_sent :: "resume_receipt \<Rightarrow> runtime_authority \<Rightarrow> bool" where
  "resume_sent r s =
     (lr_addr r < ra_next_addr s \<and> lr_token r < ra_next_token s
      \<and> (map_of (ra_pending_resume s) (lr_token r) = Some r \<longrightarrow> lr_token r \<in> ra_executing_resume s))"

text \<open>The sections that do not retire the claim \<open>k\<close> behind the back of its receipt.\<close>

fun keeps_claim :: "nat \<Rightarrow> section_op \<Rightarrow> bool" where
  "keeps_claim k (SecDiscardClaim t k') = (k' \<noteq> k)"
| "keeps_claim k _ = True"

lemma settled_section: "resume_settled r s \<Longrightarrow> resume_settled r (section_step s x)"
  by (cases x) (auto simp: resume_settled_def section_defs Let_def update_conv' delete_conv'
      split: if_splits option.splits sum.splits)

lemma sent_section: "resume_sent r s \<Longrightarrow> keeps_claim (lr_token r) x \<Longrightarrow> resume_sent r (section_step s x)"
  by (cases x) (auto simp: resume_sent_def section_defs Let_def update_conv' delete_conv'
      split: if_splits option.splits sum.splits)

interpretation settled: standing_fact section_step "new_runtime_authority token create_token" runtime_inv
    "resume_settled r" "\<lambda>_. True"
  by unfold_locales (rule settled_section)

interpretation sent: standing_fact section_step "new_runtime_authority token create_token" runtime_inv
    "resume_sent r" "keeps_claim (lr_token r)"
  by unfold_locales (rule sent_section)

interpretation claim_kept: section_class "keeps_claim k"
  by unfold_locales (metis keeps_claim.elims(3))

lemma settled_section_run: "section_run A s s' \<Longrightarrow> runtime_inv s \<Longrightarrow> resume_settled r s \<Longrightarrow> resume_settled r s'"
  by (auto simp: section_run_def list_all_iff intro: settled.fact_run)

lemma settled_call: "runtime_inv s \<Longrightarrow> resume_settled r s \<Longrightarrow> resume_settled r (runtime_step s x)"
  using settled_section_run [OF call_run] .

lemma sent_call:
  assumes "runtime_inv s" and "resume_sent r s" and "call_allowed (keeps_claim (lr_token r)) x"
  shows "resume_sent r (runtime_step s x)"
proof -
  have "keeps_claim (lr_token r) (SecDiscardClaim t (ra_next_token s))" for t
    using assms(2) by (simp add: resume_sent_def)
  with assms(3) have "section_run (keeps_claim (lr_token r)) s (runtime_step s x)" by (rule claim_kept.call_is_run)
  then show ?thesis using assms(1,2) by (auto simp: section_run_def intro: sent.fact_run)
qed

interpretation settled_calls: standing_fact runtime_step "new_runtime_authority token create_token" runtime_inv
    "resume_settled r" "\<lambda>_. True"
  by unfold_locales (rule settled_call)

interpretation sent_calls: standing_fact runtime_step "new_runtime_authority token create_token" runtime_inv
    "resume_sent r" "call_allowed (keeps_claim (lr_token r))"
  by unfold_locales (rule sent_call)

lemma settled_run: "runtime_inv s \<Longrightarrow> resume_settled r s \<Longrightarrow> resume_settled r (run_ops runtime_step s xs)"
  by (rule settled_calls.fact_run) (simp_all add: list_all_iff)

lemma current_receipt:
  assumes "runtime_inv s" and "map_of (ra_pending_resume s) (lr_token r) = Some r"
  shows "lr_addr r < ra_next_addr s \<and> lr_token r < ra_next_token s \<and> lr_authority r = ra_token s \<and> lr_thread r \<noteq> []"
  using assms unfolding runtime_inv_def resume_receipts_ok_def resume_stored_def by blast

lemma discard_settles:
  assumes "lr_addr r < ra_next_addr s \<and> lr_authority r = ra_token s \<and> lr_thread r \<noteq> []"
  shows "resume_settled r (discard_pending_resume s r)"
  using assms by (simp add: resume_settled_def discard_pending_resume_def drop_pending_resume_def delete_conv')

lemma consume_settles:
  assumes "runtime_inv s" and "map_of (ra_pending_resume s) (lr_token r) = Some r"
  shows "consume_pending_resume s r = (drop_pending_resume s r, Inr ()) \<and> resume_settled r (drop_pending_resume s r)"
  using current_receipt [OF assms] assms(2)
  by (simp add: consume_pending_resume_def validate_resume_receipt_def resume_settled_def drop_pending_resume_def delete_conv')

definition receipt_issued :: "resume_receipt \<Rightarrow> runtime_authority \<Rightarrow> bool" where
  "receipt_issued r s = (lr_addr r < ra_next_addr s \<and> lr_authority r = ra_token s)"

lemma issued_section: "receipt_issued r s \<Longrightarrow> receipt_issued r (section_step s x)"
  by (cases x) (auto simp: receipt_issued_def section_defs Let_def split: if_splits option.splits sum.splits)

interpretation issued: standing_fact section_step "new_runtime_authority token create_token" runtime_inv
    "receipt_issued r" "\<lambda>_. True"
  by unfold_locales (rule issued_section)

lemma issued_port: "runtime_inv s \<Longrightarrow> receipt_issued r s \<Longrightarrow> receipt_issued r (call_port E c s)"
  using issued.fact_run [of "section_step s (SecCall c)" r "ae_others E c"]
  by (simp add: call_port_def list_all_iff issued_section section_step_inv del: section_step.simps)

text \<open>What settles a current receipt, whatever interferes.\<close>

lemma call_settles:
  assumes inv: "runtime_inv s" and cur: "resume_receipt_current s r"
    and x: "x = CommitResume E r policy \<or> x = AbandonAcquired E r \<or> x = InvalidateConnection E \<or> x = ConfirmReset E"
  shows "resume_settled r (runtime_step s x)"
proof -
  have p: "map_of (ra_pending_resume s) (lr_token r) = Some r" using cur by (simp add: resume_receipt_current_def)
  note b = current_receipt [OF inv p]
  have pb: "lr_addr r < ra_next_addr (call_port E c s) \<and> lr_authority r = ra_token (call_port E c s)" for c
    using issued_port [OF inv, of r E c] b by (simp add: receipt_issued_def)
  from x show ?thesis
  proof (elim disjE)
    assume x: "x = CommitResume E r policy"
    let ?s1 = "drop_pending_resume s r"
    let ?s2 = "call_port E (CallCommit (lr_thread r)) ?s1"
    have c: "consume_pending_resume s r = (?s1, Inr ())" and d: "resume_settled r ?s1"
      using consume_settles [OF inv p] by blast+
    have i1: "runtime_inv ?s1"
      using section_step_inv [OF inv, of "SecConsume r"] c by simp
    have r2: "section_run (\<lambda>_. True) ?s1 ?s2" by (simp add: every_section.run_port)
    have i2: "runtime_inv ?s2" and d2: "resume_settled r ?s2"
      using section_run_inv [OF r2 i1] settled_section_run [OF r2 i1 d] by blast+
    have "section_run (\<lambda>_. True) ?s2 (fst (settle_failed_commit E ?s2 r policy))" by (simp add: every_section.run_settle_failed)
    then have "resume_settled r (fst (settle_failed_commit E ?s2 r policy))" using i2 d2 by (rule settled_section_run)
    then show ?thesis
      using d2 by (auto simp: x commit_pending_resume_def c Let_def split: sum.split prod.split)
  next
    assume x: "x = AbandonAcquired E r"
    have "resume_settled r (discard_pending_resume (if lr_new r then call_port E (CallRelease (lr_thread r)) s else s) r)"
      by (rule discard_settles) (use pb b in simp)
    then show ?thesis
      using cur b by (simp add: x abandon_acquired_resume_def validate_resume_receipt_def release_new_resume_lease_def)
  next
    assume "x = InvalidateConnection E"
    then show ?thesis
      using pb [of CallClearAll] b
      by (simp add: invalidate_connection_def Let_def resume_settled_def invalidate_receipts_def
          invalidate_resume_claims_def invalidate_unsub_claims_def)
  next
    assume "x = ConfirmReset E"
    then show ?thesis
      using pb [of CallClearAll] b
      by (simp add: confirm_backend_reset_def Let_def resume_settled_def invalidate_receipts_def
          invalidate_resume_claims_def invalidate_unsub_claims_def)
  qed
qed

text \<open>What a settled receipt can still do: nothing.\<close>

lemma settled_is_inert:
  assumes "resume_settled r s"
  shows "snd (commit_pending_resume E s r policy) = Inl (stale_resume r)"
    and "ra_calls (fst (commit_pending_resume E s r policy)) = ra_calls s"
    and "release_new_resume_lease E s r = s"
    and "fst (execute_prepared_resume E s \<lparr>pp_receipt = r, pp_request = q, pp_authority = n\<rparr>) = s"
  using assms
  by (auto simp: resume_settled_def commit_pending_resume_def consume_pending_resume_def validate_resume_receipt_def
      release_new_resume_lease_def resume_receipt_current_def execute_prepared_resume_def claim_resume_execution_def
      validate_prepared_resume_def)

section \<open>Exclusion of transitions\<close>

definition transitions_exclusive :: "runtime_authority \<Rightarrow> bool" where
  "transitions_exclusive s =
     (\<forall>t. \<not> (map_of (ra_resume_claim s) t \<noteq> None \<and> map_of (ra_unsub_claim s) t \<noteq> None)
        \<and> \<not> (map_of (ra_unsub_claim s) t \<noteq> None \<and> starts_of s t \<noteq> {}))"

lemma inv_exclusive: "runtime_inv s \<Longrightarrow> transitions_exclusive s"
proof -
  assume inv: "runtime_inv s"
  have "map_of (ra_resume_claim s) t = None \<or> map_of (ra_unsub_claim s) t = None" for t
    using inv unfolding runtime_inv_def claims_ok_def by (metis option.exhaust)
  moreover have "map_of (ra_unsub_claim s) t = None \<or> starts_of s t = {}" for t
    using inv unfolding runtime_inv_def unsub_claims_ok_def starts_of_def by (metis option.exhaust option.simps(4))
  ultimately show ?thesis unfolding transitions_exclusive_def by metis
qed

text \<open>
  C17. One transition per thread: over any operations, each interrupted by any critical sections
  of other callers, a thread never has a resume and an unsubscribe under way at the same time,
  and no start runs while its unsubscribe is under way.
\<close>

theorem transitions_exclude_each_other:
  "transitions_exclusive (run_ops runtime_step (new_runtime_authority token create_token) xs)"
  by (rule inv_exclusive [OF runtime.reach_inv])

text \<open>
  C18. A settled resume receipt is dead: once a current receipt was committed or abandoned, or its
  connection was lost, whatever ran in between, committing it again is refused without a call of
  any port, executing it does nothing, and its cleanup never releases the lease a successor holds.
\<close>

theorem settled_resume_receipt_is_dead:
  assumes "s = run_ops runtime_step (new_runtime_authority token create_token) ws"
    and "resume_receipt_current s r"
    and "x = CommitResume E r policy \<or> x = AbandonAcquired E r \<or> x = InvalidateConnection E \<or> x = ConfirmReset E"
    and "s' = run_ops runtime_step (runtime_step s x) xs"
  shows "snd (commit_pending_resume E' s' r policy') = Inl (stale_resume r)
    \<and> ra_calls (fst (commit_pending_resume E' s' r policy')) = ra_calls s'
    \<and> release_new_resume_lease E' s' r = s'
    \<and> fst (execute_prepared_resume E' s' \<lparr>pp_receipt = r, pp_request = q, pp_authority = n\<rparr>) = s'"
proof -
  have inv: "runtime_inv s" unfolding assms(1) by (rule runtime.reach_inv)
  have "resume_settled r s'"
    unfolding assms(4) by (rule settled_run [OF runtime.step_inv [OF inv] call_settles [OF inv assms(2,3)]])
  from settled_is_inert [OF this] show ?thesis by blast
qed

lemma executed_is_sent:
  assumes inv: "runtime_inv s" and "fst (execute_prepared_resume E s p) \<noteq> s"
    and "others_allowed (keeps_claim (lr_token (pp_receipt p))) E"
  shows "resume_sent (pp_receipt p) (fst (execute_prepared_resume E s p))"
proof -
  let ?r = "pp_receipt p" and ?s1 = "fst (claim_resume_execution s (pp_receipt p))"
  have c: "claim_resume_execution s ?r = (?s1, Inr ())" and v: "validate_prepared_resume s p = Inr ()"
    using assms(2) by (auto simp: execute_prepared_resume_def claim_resume_execution_def split: if_splits sum.splits)
  then have p: "map_of (ra_pending_resume s) (lr_token ?r) = Some ?r"
    by (auto simp: claim_resume_execution_def split: if_splits sum.splits)
  have i1: "runtime_inv ?s1" using section_step_inv [OF inv, of "SecExecuteResume ?r"] by simp
  have "resume_sent ?r ?s1"
    using c current_receipt [OF inv p] by (auto simp: claim_resume_execution_def resume_sent_def split: if_splits sum.splits)
  then have "resume_sent ?r (call_port E (CallResumePage (lr_thread ?r) (pp_request p)) ?s1)"
    using sent.fact_run [OF section_step_inv [OF i1] sent_section, of ?r "SecCall (CallResumePage (lr_thread ?r) (pp_request p))"]
      assms(3) by (simp add: call_port_def others_allowed_def)
  then show ?thesis by (simp add: execute_prepared_resume_def v, subst c, simp)
qed

text \<open>
  A resume is sent at most once: once a prepared paged resume went to the adapter, executing
  any plan with the same receipt is refused and changes nothing, whatever happens in between, as
  long as the claim of the receipt is not redeemed a second time.
\<close>

theorem resume_sent_at_most_once:
  assumes "s = run_ops runtime_step (new_runtime_authority token create_token) ws"
    and "fst (execute_prepared_resume E s p) \<noteq> s"
    and "others_allowed (keeps_claim (lr_token (pp_receipt p))) E"
    and "list_all (call_allowed (keeps_claim (lr_token (pp_receipt p)))) xs"
    and "s' = run_ops runtime_step (fst (execute_prepared_resume E s p)) xs" and "pp_receipt p' = pp_receipt p"
  shows "fst (execute_prepared_resume E' s' p') = s' \<and> isl (snd (execute_prepared_resume E' s' p'))"
proof -
  have inv: "runtime_inv s" unfolding assms(1) by (rule runtime.reach_inv)
  have inv': "runtime_inv (fst (execute_prepared_resume E s p))"
    using runtime.step_inv [OF inv, of "ExecuteResume E p"] by simp
  have "resume_sent (pp_receipt p) s'"
    unfolding assms(5) by (rule sent_calls.fact_run [OF inv' executed_is_sent [OF inv assms(2,3)] assms(4)])
  then have "fst (claim_resume_execution s' (pp_receipt p')) = s' \<and> isl (snd (claim_resume_execution s' (pp_receipt p')))"
    using assms(6) by (auto simp: resume_sent_def claim_resume_execution_def split: sum.split)
  then show ?thesis
    by (cases "claim_resume_execution s' (pp_receipt p')"; cases "snd (claim_resume_execution s' (pp_receipt p'))")
       (auto simp: execute_prepared_resume_def split: sum.split)
qed

section \<open>One resume without interference\<close>

datatype begin_verdict = NotAcquired | NotSent | NotEffective | OutcomeLost | RecordLost | Acknowledged

definition begin_verdict_of :: "authority_env \<Rightarrow> begin_verdict" where
  "begin_verdict_of E =
     (case ae_acquire E of
        Inl f \<Rightarrow> NotAcquired
      | Inr newly \<Rightarrow>
          if ae_intent E \<noteq> None \<or> (ae_guard E \<noteq> None \<and> ae_guard E \<noteq> Some (Inr True)) then NotSent
          else case ae_resume E of
                 Some f \<Rightarrow> (if failure_known_no_effect E (PortRaised f) then NotEffective else OutcomeLost)
               | None \<Rightarrow> (if ae_record E \<noteq> None then RecordLost else Acknowledged))"

text \<open>The calls of the ports that a resume with each verdict makes.\<close>

definition begin_calls :: "authority_env \<Rightarrow> string \<Rightarrow> settings_intent \<Rightarrow> runtime_call list" where
  "begin_calls E thread_id intent =
     (let t = strip thread_id; v = begin_verdict_of E;
          guard = (if ae_intent E = None \<and> ae_guard E \<noteq> None then [CallGuard] else []);
          release = (if ae_acquire E = Inr True then [CallRelease t] else [])
      in [CallAcquire t]
         @ (if v = NotAcquired then []
            else [CallIntent thread_id intent] @ guard
              @ (if v = NotSent then release
                 else [CallResume thread_id]
                   @ (if v = NotEffective then release else if v = OutcomeLost then [] else [CallRecord t]))))"

lemma quiet_port: "ae_others E = (\<lambda>_. []) \<Longrightarrow> call_port E c s = s\<lparr>ra_calls := ra_calls s @ [c]\<rparr>"
  by (simp add: call_port_def)

lemma delete_fresh: "map_of d t = None \<Longrightarrow> AList.delete t (AList.update t k d) = d"
  by (induction d) auto

text \<open>A receipt that holds its thread over the tables of \<open>s0\<close>, and the tables without it.\<close>

definition tables_of :: "runtime_authority \<Rightarrow> (string, nat) dict \<times> (nat, resume_receipt) dict \<times> nat set" where
  "tables_of s = (ra_resume_claim s, ra_pending_resume s, ra_acquiring s)"

definition holding :: "runtime_authority \<Rightarrow> resume_receipt \<Rightarrow> runtime_authority \<Rightarrow> bool" where
  "holding s0 r s =
     (tables_of s = (AList.update (lr_thread r) (lr_token r) (ra_resume_claim s0),
                     AList.update (lr_token r) r (ra_pending_resume s0), ra_acquiring s0)
      \<and> map_of (ra_resume_claim s0) (lr_thread r) = None \<and> map_of (ra_pending_resume s0) (lr_token r) = None
      \<and> lr_authority r = ra_token s \<and> lr_thread r \<noteq> [])"

lemma holding_calls [simp]: "holding s0 r (s\<lparr>ra_calls := cs\<rparr>) = holding s0 r s"
  by (simp add: holding_def tables_of_def)

lemma holding_current: "holding s0 r s \<Longrightarrow> resume_receipt_current s r"
  by (simp add: holding_def tables_of_def resume_receipt_current_def update_conv')

lemma holding_drop:
  assumes "holding s0 r s"
  shows "tables_of (drop_pending_resume s r) = tables_of s0" and "ra_calls (drop_pending_resume s r) = ra_calls s"
  using assms by (auto simp: holding_def tables_of_def drop_pending_resume_def update_conv' delete_fresh)

lemma holding_discard: "holding s0 r s \<Longrightarrow> discard_pending_resume s r = drop_pending_resume s r"
  by (simp add: holding_def tables_of_def discard_pending_resume_def update_conv')

lemma holding_consume: "holding s0 r s \<Longrightarrow> consume_pending_resume s r = (drop_pending_resume s r, Inr ())"
  by (simp add: holding_def tables_of_def consume_pending_resume_def validate_resume_receipt_def update_conv')

lemma holding_release:
  assumes "holding s0 r s" and "ae_others E = (\<lambda>_. [])"
  shows "tables_of (release_new_resume_lease E s r) = tables_of s0"
    and "ra_calls (release_new_resume_lease E s r) = ra_calls s @ (if lr_new r then [CallRelease (lr_thread r)] else [])"
proof -
  let ?s = "if lr_new r then call_port E (CallRelease (lr_thread r)) s else s"
  have h: "holding s0 r ?s" using assms by (simp add: quiet_port)
  have e: "release_new_resume_lease E s r = drop_pending_resume ?s r"
    using holding_current [OF assms(1)] holding_discard [OF h] by (simp add: release_new_resume_lease_def)
  show "tables_of (release_new_resume_lease E s r) = tables_of s0"
    and "ra_calls (release_new_resume_lease E s r) = ra_calls s @ (if lr_new r then [CallRelease (lr_thread r)] else [])"
    unfolding e using holding_drop [OF h] assms(2) by (simp_all add: quiet_port)
qed

lemma acquire_quiet:
  assumes inv: "runtime_inv s" and quiet: "ae_others E = (\<lambda>_. [])" and t: "strip thread_id \<noteq> []"
    and free: "map_of (ra_resume_claim s) (strip thread_id) = None" "map_of (ra_unsub_claim s) (strip thread_id) = None"
  obtains f s1 where "ae_acquire E = Inl f" and "acquire_resume_receipt E s thread_id = (s1, Inl (PortRaised f))"
      and "tables_of s1 = tables_of s" and "ra_calls s1 = ra_calls s @ [CallAcquire (strip thread_id)]"
  | newly s1 r where "ae_acquire E = Inr newly" and "acquire_resume_receipt E s thread_id = (s1, Inr r)"
      and "holding s r s1" and "lr_thread r = strip thread_id" and "lr_new r = newly"
      and "ra_calls s1 = ra_calls s @ [CallAcquire (strip thread_id)]"
proof -
  let ?t = "strip thread_id" and ?n = "ra_next_token s"
  have fresh: "?n \<notin> ra_acquiring s" "?n \<notin> ra_invalid_resume s"
    using inv by (auto simp: runtime_inv_def dicts_ok_def)
  have pend: "map_of (ra_pending_resume s) ?n = None"
    using inv by (auto simp: runtime_inv_def resume_receipts_ok_def resume_stored_def intro: ccontr)
  obtain s1 c where c: "claim_resume s thread_id = (s1, Inr c)" and cl: "cl_thread c = ?t" "cl_token c = ?n" "cl_authority c = ra_token s"
    and s1: "tables_of s1 = (AList.update ?t ?n (ra_resume_claim s), ra_pending_resume s, insert ?n (ra_acquiring s))"
      "ra_calls s1 = ra_calls s" "ra_token s1 = ra_token s" "ra_invalid_resume s1 = ra_invalid_resume s"
    using t free by (simp add: claim_resume_def Let_def tables_of_def)
  have cur: "resume_claim_current s1 c"
    using s1 cl fresh by (simp add: resume_claim_current_def tables_of_def update_conv')
  have v: "validate_resume_claim s1 c = Inr ()" using cl t s1 by (simp add: validate_resume_claim_def)
  show ?thesis
  proof (cases "ae_acquire E")
    case (Inl f)
    show ?thesis
    proof (rule that(1) [OF Inl])
      show "acquire_resume_receipt E s thread_id
          = (discard_resume_claim (s1\<lparr>ra_calls := ra_calls s1 @ [CallAcquire ?t]\<rparr>) ?t ?n, Inl (PortRaised f))"
        using c cur v Inl cl quiet by (simp add: acquire_resume_receipt_def acquire_claimed_resume_def Let_def quiet_port)
    qed (use s1 fresh free in \<open>simp_all add: discard_resume_claim_def tables_of_def update_conv' delete_fresh\<close>)
  next
    case (Inr newly)
    let ?r = "\<lparr>lr_thread = ?t, lr_new = newly, lr_generation = cl_generation c, lr_authority = ra_token s1, lr_token = ?n, lr_addr = ra_next_addr s1\<rparr>"
    let ?s1 = "s1\<lparr>ra_calls := ra_calls s1 @ [CallAcquire ?t]\<rparr>"
    obtain s2 where com: "commit_acquired ?s1 c newly = (s2, Some ?r)"
      and s2: "tables_of s2 = (ra_resume_claim s1, AList.update ?n ?r (ra_pending_resume s1), ra_acquiring s1 - {?n})"
        "ra_calls s2 = ra_calls ?s1" "ra_token s2 = ra_token s1"
      using cur cl by (simp add: commit_acquired_def Let_def resume_claim_current_def tables_of_def)
    show ?thesis
    proof (rule that(2) [OF Inr])
      show "acquire_resume_receipt E s thread_id = (s2, Inr ?r)"
        using c cur v Inr cl quiet com by (simp add: acquire_resume_receipt_def acquire_claimed_resume_def Let_def quiet_port)
      show "holding s ?r s2"
        using s1 s2 fresh free pend t by (simp add: holding_def tables_of_def)
    qed (use s1 s2 in simp_all)
  qed
qed

lemma settle_retain [simp]: "settle_failed_commit E s r Retain = (s, resume_settlement_of r Retained True)"
  by (simp add: settle_failed_commit_def)


section \<open>Witnesses\<close>

definition demo_ports_ok :: authority_env where
  "demo_ports_ok =
     \<lparr>ae_acquire = Inr True, ae_release = None, ae_intent = None, ae_guard = None, ae_resume = None,
      ae_page = Inr (ResumePage 0), ae_record = None, ae_commit = None, ae_unsub = None, ae_clear = None,
      ae_clear_all = None, ae_start = None, ae_update = None, ae_archive = None, ae_delete = None,
      ae_no_effect = (\<lambda>_. Some False), ae_others = (\<lambda>_. [])\<rparr>"

definition demo_claim :: resume_claim where
  "demo_claim = \<lparr>cl_thread = ''t'', cl_generation = 1, cl_authority = 7, cl_token = 0\<rparr>"

definition demo_receipt :: resume_receipt where
  "demo_receipt = \<lparr>lr_thread = ''t'', lr_new = True, lr_generation = 1, lr_authority = 7, lr_token = 0, lr_addr = 0\<rparr>"

definition demo_request :: page_request where
  "demo_request =
     \<lparr>pq_limit = 5, pq_items_view = ''full'', pq_model = None, pq_provider = None, pq_config = None, pq_approval = None,
      pq_permissions = None, pq_generation = None\<rparr>"

definition demo_prepared :: prepared_resume where
  "demo_prepared = \<lparr>pp_receipt = demo_receipt, pp_request = demo_request, pp_authority = 7\<rparr>"

definition demo_resuming :: runtime_authority where
  "demo_resuming = run_ops runtime_step (new_runtime_authority 7 8) [ClaimResume '' t'', AcquireClaimed demo_ports_ok demo_claim]"

lemma demo_current: "resume_receipt_current demo_resuming demo_receipt"
  by code_simp

lemma demo_quiet: "ae_others demo_ports_ok = (\<lambda>_. [])"
  by (simp add: demo_ports_ok_def)

theorem settled_resume_receipt_is_dead_witness:
  "release_new_resume_lease demo_ports_ok
     (run_ops runtime_step (runtime_step demo_resuming (InvalidateConnection demo_ports_ok)) [ClaimResume ''t'']) demo_receipt
   = run_ops runtime_step (runtime_step demo_resuming (InvalidateConnection demo_ports_ok)) [ClaimResume ''t'']"
  using settled_resume_receipt_is_dead [OF demo_resuming_def demo_current, of "InvalidateConnection demo_ports_ok" demo_ports_ok Retain
      _ "[ClaimResume ''t'']" demo_ports_ok]
  by blast

theorem resume_sent_at_most_once_witness:
  "isl (snd (execute_prepared_resume demo_ports_ok
     (run_ops runtime_step (fst (execute_prepared_resume demo_ports_ok demo_resuming demo_prepared)) [ClaimResume ''u'']) demo_prepared))"
proof -
  have "ra_calls (fst (execute_prepared_resume demo_ports_ok demo_resuming demo_prepared)) \<noteq> ra_calls demo_resuming" by code_simp
  then have x: "fst (execute_prepared_resume demo_ports_ok demo_resuming demo_prepared) \<noteq> demo_resuming" by auto
  have o: "others_allowed (keeps_claim (lr_token (pp_receipt demo_prepared))) demo_ports_ok"
    by (simp add: others_allowed_def demo_quiet)
  have a: "list_all (call_allowed (keeps_claim (lr_token (pp_receipt demo_prepared)))) [ClaimResume ''u'']" by simp
  show ?thesis using resume_sent_at_most_once [OF demo_resuming_def x o a refl refl] by blast
qed

definition demo_lost :: authority_env where
  "demo_lost = demo_ports_ok\<lparr>ae_resume := Some (PortFailure 3)\<rparr>"


section \<open>A gap in the cleanup barrier\<close>

text \<open>
  \<open>_invalidate_resume_claims_locked\<close> keeps the claim of an acquisition in flight, so that no
  successor is admitted before its lease is given back. Once the acquisition returned and
  sees that it was invalidated, its claim is no longer marked as acquiring: a second
  invalidation (a disconnect and then a confirmed reset) removes the claim while the lease is
  still being released. Here a successor resumes the thread in that window, and the release
  of the first attempt, which is by thread id, ends the lease the successor relies on.
\<close>

definition demo_successor :: resume_claim where
  "demo_successor = \<lparr>cl_thread = ''t'', cl_generation = 2, cl_authority = 7, cl_token = 1\<rparr>"

definition demo_twice_invalidated :: authority_env where
  "demo_twice_invalidated = demo_ports_ok\<lparr>ae_others := (\<lambda>c.
     if c = CallAcquire ''t'' then [SecInvalidate]
     else if c = CallRelease ''t'' then [SecInvalidate, SecClaimResume ''t'', SecCall (CallAcquire ''t''), SecCommitAcquired demo_successor False]
     else [])\<rparr>"

lemma second_invalidation_opens_barrier:
  "let s = runtime_step (run_ops runtime_step (new_runtime_authority 7 8) [ClaimResume ''t'']) (AcquireClaimed demo_twice_invalidated demo_claim)
   in resume_receipt_current s \<lparr>lr_thread = ''t'', lr_new = False, lr_generation = 2, lr_authority = 7, lr_token = 1, lr_addr = 0\<rparr>
      \<and> ra_calls s = [CallAcquire ''t'', CallRelease ''t'', CallAcquire ''t'']"
  by code_simp

text \<open>With one invalidation the barrier holds: the successor is refused until the lease is given back.\<close>

definition demo_once_invalidated :: authority_env where
  "demo_once_invalidated = demo_ports_ok\<lparr>ae_others := (\<lambda>c.
     if c = CallAcquire ''t'' then [SecInvalidate]
     else if c = CallRelease ''t'' then [SecClaimResume ''t''] else [])\<rparr>"

lemma one_invalidation_keeps_barrier:
  "let s = runtime_step (run_ops runtime_step (new_runtime_authority 7 8) [ClaimResume ''t'']) (AcquireClaimed demo_once_invalidated demo_claim)
   in ra_resume_claim s = [] \<and> counted (ra_resume_generation s) ''t'' = 1 \<and> ra_calls s = [CallAcquire ''t'', CallRelease ''t'']"
  by code_simp

end
