(* ===== verification/Effective_Settings.thy ===== *)
theory Effective_Settings
  imports Py_Json
begin

text \<open>
  The connection-local registry of the settings the app server reported
  (\<open>bot/thread_effective_settings.py\<close>): a base per thread, the settings frozen for the active
  turn, a model reroute of that turn, and the threads another connection has changed, about
  which nothing can be known until the backend epoch is replaced.

  Parameters of a notification are JSON values and their objects dictionaries. A method is one
  step; \<open>observe_notification\<close> takes its lock more than once and tests the external marker again
  each time.
\<close>

section \<open>Facts\<close>

text \<open>\<open>EffectiveSettingFact\<close>: not known, or known with a value that may be null.\<close>

datatype setting_fact = UnknownSetting | KnownSetting "string option"

datatype settings_source = FromStart | FromResume | FromSettings

record thread_settings =
  ts_model :: setting_fact
  ts_effort :: setting_fact
  ts_approval :: setting_fact
  ts_permissions :: setting_fact
  ts_source :: settings_source

record turn_settings =
  tu_turn :: string
  tu_settings :: thread_settings

record model_reroute =
  ro_turn :: string
  ro_model :: string

datatype disclosure_source = FromReroute | Inherited | NotKnown

record setting_disclosure =
  sd_value :: string
  sd_source :: disclosure_source

record settings_disclosure =
  dc_model :: setting_disclosure
  dc_effort :: setting_disclosure
  dc_approval :: setting_disclosure
  dc_permissions :: setting_disclosure

record settings_registry =
  es_base :: "(string, thread_settings) dict"
  es_active :: "(string, turn_settings) dict"
  es_reroute :: "(string, model_reroute) dict"
  es_external :: "string set"

definition new_settings_registry :: settings_registry where
  "new_settings_registry = \<lparr>es_base = [], es_active = [], es_reroute = [], es_external = {}\<rparr>"

section \<open>Reading reported values\<close>

text \<open>\<open>None\<close> in these readers is \<open>ValueError\<close>; an absent argument is \<open>JNull\<close>.\<close>

definition event_string :: "json option \<Rightarrow> string" where
  "event_string v = (case v of Some (JStr s) \<Rightarrow> if s = strip s then s else [] | _ \<Rightarrow> [])"

definition known_required_string :: "json \<Rightarrow> setting_fact option" where
  "known_required_string v =
     (case v of JStr s \<Rightarrow> if s = [] \<or> s \<noteq> strip s then None else Some (KnownSetting (Some s)) | _ \<Rightarrow> None)"

definition known_nullable_string :: "json \<Rightarrow> setting_fact option" where
  "known_nullable_string v = (if v = JNull then Some (KnownSetting None) else known_required_string v)"

definition optional_string :: "json \<Rightarrow> setting_fact option" where
  "optional_string v = (if v = JNull then Some UnknownSetting else known_required_string v)"

definition field_or_null :: "jdict \<Rightarrow> string \<Rightarrow> json" where
  "field_or_null d k = (case map_of d k of None \<Rightarrow> JNull | Some v \<Rightarrow> v)"

definition permission_profile :: "json \<Rightarrow> setting_fact option" where
  "permission_profile v =
     (case v of JNull \<Rightarrow> Some UnknownSetting | JObj d \<Rightarrow> known_required_string (field_or_null d ''id'') | _ \<Rightarrow> None)"

definition unknown_settings :: "settings_source \<Rightarrow> thread_settings" where
  "unknown_settings source =
     \<lparr>ts_model = UnknownSetting, ts_effort = UnknownSetting, ts_approval = UnknownSetting,
      ts_permissions = UnknownSetting, ts_source = source\<rparr>"

definition settings_of ::
  "setting_fact option \<Rightarrow> setting_fact option \<Rightarrow> setting_fact option \<Rightarrow> setting_fact option \<Rightarrow> settings_source
    \<Rightarrow> thread_settings option" where
  "settings_of model effort approval permissions source =
     (case (model, effort, approval, permissions) of
        (Some m, Some e, Some a, Some p) \<Rightarrow>
          Some \<lparr>ts_model = m, ts_effort = e, ts_approval = a, ts_permissions = p, ts_source = source\<rparr>
      | _ \<Rightarrow> None)"

definition settings_from_notification :: "json option \<Rightarrow> thread_settings option" where
  "settings_from_notification v =
     (case v of
        Some (JObj d) \<Rightarrow>
          (if {''model'', ''effort'', ''approvalPolicy'', ''activePermissionProfile''} \<subseteq> fst ` set d
           then settings_of (known_required_string (field_or_null d ''model''))
                  (known_nullable_string (field_or_null d ''effort''))
                  (known_required_string (field_or_null d ''approvalPolicy''))
                  (permission_profile (field_or_null d ''activePermissionProfile'')) FromSettings
           else None)
      | _ \<Rightarrow> None)"

section \<open>Responses and requests\<close>

text \<open>\<open>None\<close> is \<open>ValueError\<close>; nothing was changed then.\<close>

definition record_start_or_resume ::
  "settings_registry \<Rightarrow> string \<Rightarrow> json \<Rightarrow> json \<Rightarrow> json \<Rightarrow> json \<Rightarrow> settings_source \<Rightarrow> settings_registry option" where
  "record_start_or_resume s thread_id model effort approval permissions source =
     (let t = strip thread_id
      in if t = [] then None
         else case settings_of (known_required_string model) (known_nullable_string effort)
                (optional_string approval) (optional_string permissions) source of
           None \<Rightarrow> None
         | Some settings \<Rightarrow>
             Some (if t \<in> es_external s then s else s\<lparr>es_base := AList.update t settings (es_base s)\<rparr>))"

definition pop_thread :: "settings_registry \<Rightarrow> string \<Rightarrow> settings_registry" where
  "pop_thread s t =
     s\<lparr>es_base := AList.delete t (es_base s), es_active := AList.delete t (es_active s),
       es_reroute := AList.delete t (es_reroute s)\<rparr>"

definition mark_external_unknown :: "settings_registry \<Rightarrow> string \<Rightarrow> settings_registry \<times> bool" where
  "mark_external_unknown s thread_id =
     (let t = strip thread_id
      in if t = [] then (s, False)
         else ((pop_thread s t)\<lparr>es_external := insert t (es_external s)\<rparr>,
               map_of (es_base s) t \<noteq> None \<or> map_of (es_active s) t \<noteq> None \<or> map_of (es_reroute s) t \<noteq> None
               \<or> t \<notin> es_external s))"

text \<open>The fields a request names, after \<open>_requested_fields\<close>.\<close>

record requested_settings =
  rq_model :: "string option"
  rq_effort :: "string option"
  rq_approval :: "string option"
  rq_permissions :: "string option"

definition requested_field :: "string \<Rightarrow> string option" where
  "requested_field v = (if strip v = [] then None else Some (strip v))"

definition requested_fields :: "string \<Rightarrow> string \<Rightarrow> string \<Rightarrow> string \<Rightarrow> requested_settings" where
  "requested_fields model effort approval permissions =
     \<lparr>rq_model = requested_field model, rq_effort = requested_field effort,
      rq_approval = requested_field approval, rq_permissions = requested_field permissions\<rparr>"

definition nothing_requested :: "requested_settings \<Rightarrow> bool" where
  "nothing_requested q = (rq_model q = None \<and> rq_effort q = None \<and> rq_approval q = None \<and> rq_permissions q = None)"

definition clashes :: "setting_fact \<Rightarrow> string option \<Rightarrow> bool" where
  "clashes f q =
     (case (f, q) of (KnownSetting v, Some w) \<Rightarrow> v \<noteq> Some w | _ \<Rightarrow> False)"

definition forget :: "setting_fact \<Rightarrow> string option \<Rightarrow> setting_fact" where
  "forget f q = (if clashes f q then UnknownSetting else f)"

definition any_clash :: "thread_settings \<Rightarrow> requested_settings \<Rightarrow> bool" where
  "any_clash b q =
     (clashes (ts_model b) (rq_model q) \<or> clashes (ts_effort b) (rq_effort q)
      \<or> clashes (ts_approval b) (rq_approval q) \<or> clashes (ts_permissions b) (rq_permissions q))"

definition forget_settings :: "thread_settings \<Rightarrow> requested_settings \<Rightarrow> thread_settings" where
  "forget_settings b q =
     b\<lparr>ts_model := forget (ts_model b) (rq_model q), ts_effort := forget (ts_effort b) (rq_effort q),
       ts_approval := forget (ts_approval b) (rq_approval q), ts_permissions := forget (ts_permissions b) (rq_permissions q)\<rparr>"

definition invalidate_base_fields :: "settings_registry \<Rightarrow> string \<Rightarrow> requested_settings \<Rightarrow> settings_registry \<times> bool" where
  "invalidate_base_fields s t q =
     (case map_of (es_base s) t of
        None \<Rightarrow> (s, False)
      | Some b \<Rightarrow>
          if any_clash b q then (s\<lparr>es_base := AList.update t (forget_settings b q) (es_base s)\<rparr>, True) else (s, False))"

definition set_active_settings :: "settings_registry \<Rightarrow> string \<Rightarrow> turn_settings \<Rightarrow> thread_settings \<Rightarrow> settings_registry" where
  "set_active_settings s t a settings =
     s\<lparr>es_active := AList.update t (a\<lparr>tu_settings := settings\<rparr>) (es_active s)\<rparr>"

definition forget_active_model :: "settings_registry \<Rightarrow> string \<Rightarrow> turn_settings \<Rightarrow> settings_registry" where
  "forget_active_model s t a = set_active_settings s t a ((tu_settings a)\<lparr>ts_model := UnknownSetting\<rparr>)"

definition drop_reroute :: "settings_registry \<Rightarrow> string \<Rightarrow> settings_registry" where
  "drop_reroute s t = s\<lparr>es_reroute := AList.delete t (es_reroute s)\<rparr>"

definition invalidate_active_fields :: "settings_registry \<times> bool \<Rightarrow> string \<Rightarrow> requested_settings \<Rightarrow> settings_registry \<times> bool" where
  "invalidate_active_fields r t q =
     (case map_of (es_active (fst r)) t of
        None \<Rightarrow> r
      | Some a \<Rightarrow>
          if any_clash (tu_settings a) q
          then (set_active_settings (fst r) t a (forget_settings (tu_settings a) q), True) else r)"

definition invalidate_reroute :: "settings_registry \<times> bool \<Rightarrow> string \<Rightarrow> requested_settings \<Rightarrow> settings_registry \<times> bool" where
  "invalidate_reroute r t q =
     (case (rq_model q, map_of (es_reroute (fst r)) t) of
        (Some m, Some ro) \<Rightarrow>
          (if ro_model ro = m then r
           else (drop_reroute
                   (case map_of (es_active (fst r)) t of
                      None \<Rightarrow> fst r
                    | Some a \<Rightarrow> if tu_turn a = ro_turn ro then forget_active_model (fst r) t a else fst r) t, True))
      | _ \<Rightarrow> r)"

definition invalidate_requested_settings ::
  "settings_registry \<Rightarrow> string \<Rightarrow> requested_settings \<Rightarrow> settings_registry \<times> bool" where
  "invalidate_requested_settings s thread_id q =
     (let t = strip thread_id
      in if t = [] \<or> nothing_requested q then (s, False)
         else invalidate_reroute (invalidate_active_fields (invalidate_base_fields s t q) t q) t q)"

definition invalidate_thread_base ::
  "settings_registry \<Rightarrow> string \<Rightarrow> requested_settings \<Rightarrow> settings_registry \<times> bool" where
  "invalidate_thread_base s thread_id q =
     (let t = strip thread_id
      in if t = [] \<or> nothing_requested q then (s, False) else invalidate_base_fields s t q)"

section \<open>Notifications\<close>

definition as_dict :: "json option \<Rightarrow> jdict" where
  "as_dict v = (case v of Some (JObj d) \<Rightarrow> d | _ \<Rightarrow> [])"

text \<open>\<open>turn.get("id", payload.get("turnId"))\<close>.\<close>

definition notified_turn :: "jdict \<Rightarrow> string" where
  "notified_turn payload =
     (let turn = as_dict (map_of payload ''turn'')
      in event_string (case map_of turn ''id'' of None \<Rightarrow> map_of payload ''turnId'' | Some v \<Rightarrow> Some v))"

definition clear_active_turn :: "settings_registry \<Rightarrow> string \<Rightarrow> settings_registry" where
  "clear_active_turn s t = s\<lparr>es_active := AList.delete t (es_active s), es_reroute := AList.delete t (es_reroute s)\<rparr>"

definition clear_thread_settings :: "settings_registry \<Rightarrow> string \<Rightarrow> settings_registry" where
  "clear_thread_settings s thread_id = (let t = strip thread_id in if t = [] then s else pop_thread s t)"

definition clear_all_settings :: "settings_registry \<Rightarrow> settings_registry" where
  "clear_all_settings s = new_settings_registry"

definition on_settings_updated :: "settings_registry \<Rightarrow> string \<Rightarrow> jdict \<Rightarrow> settings_registry" where
  "on_settings_updated s t payload =
     (let settings = (case settings_from_notification (map_of payload ''threadSettings'') of
                        None \<Rightarrow> unknown_settings FromSettings | Some x \<Rightarrow> x)
      in s\<lparr>es_base := AList.update t settings (es_base s)\<rparr>)"

definition on_turn_started :: "settings_registry \<Rightarrow> string \<Rightarrow> jdict \<Rightarrow> settings_registry" where
  "on_turn_started s t payload =
     (let turn = notified_turn payload
      in if turn = [] then clear_active_turn s t
         else case map_of (es_active s) t of
           Some a \<Rightarrow> if tu_turn a = turn then s
                     else s\<lparr>es_active := AList.update t \<lparr>tu_turn = turn, tu_settings =
                              (case map_of (es_base s) t of None \<Rightarrow> unknown_settings FromSettings | Some b \<Rightarrow> b)\<rparr> (es_active s),
                            es_reroute := AList.delete t (es_reroute s)\<rparr>
         | None \<Rightarrow> s\<lparr>es_active := AList.update t \<lparr>tu_turn = turn, tu_settings =
                              (case map_of (es_base s) t of None \<Rightarrow> unknown_settings FromSettings | Some b \<Rightarrow> b)\<rparr> (es_active s),
                      es_reroute := AList.delete t (es_reroute s)\<rparr>)"

definition on_model_rerouted :: "settings_registry \<Rightarrow> string \<Rightarrow> jdict \<Rightarrow> settings_registry" where
  "on_model_rerouted s t payload =
     (let turn = event_string (map_of payload ''turnId''); model = event_string (map_of payload ''toModel'')
      in if turn = [] then
           drop_reroute (case map_of (es_active s) t of None \<Rightarrow> s | Some a \<Rightarrow> forget_active_model s t a) t
         else case map_of (es_active s) t of
           None \<Rightarrow> s
         | Some a \<Rightarrow>
             (if tu_turn a \<noteq> turn then s
              else if model \<noteq> []
              then s\<lparr>es_reroute := AList.update t \<lparr>ro_turn = turn, ro_model = model\<rparr> (es_reroute s)\<rparr>
              else drop_reroute (forget_active_model s t a) t))"

definition on_turn_completed :: "settings_registry \<Rightarrow> string \<Rightarrow> jdict \<Rightarrow> settings_registry" where
  "on_turn_completed s t payload =
     (let turn = notified_turn payload
      in if turn = [] then clear_active_turn s t
         else case map_of (es_active s) t of
           None \<Rightarrow> s
         | Some a \<Rightarrow> if tu_turn a = turn then clear_active_turn s t else s)"

text \<open>\<open>txt\<close> is \<open>str\<close> of a value that is neither text nor falsy.\<close>

definition on_status_changed :: "(json \<Rightarrow> string) \<Rightarrow> settings_registry \<Rightarrow> string \<Rightarrow> jdict \<Rightarrow> settings_registry" where
  "on_status_changed txt s t payload =
     (let status = field_text txt (map_of (as_dict (map_of payload ''status'')) ''type'')
      in if status = [] then clear_active_turn s t
         else if status = ''notLoaded'' then clear_thread_settings s t
         else if status \<noteq> ''active'' then clear_active_turn s t
         else s)"

definition observe_notification ::
  "(json \<Rightarrow> string) \<Rightarrow> settings_registry \<Rightarrow> string \<Rightarrow> json \<Rightarrow> settings_registry" where
  "observe_notification txt s method params =
     (let event = strip method; payload = as_dict (Some params); t = event_string (map_of payload ''threadId'')
      in if t = [] then s
         else if t \<in> es_external s then pop_thread s t
         else if event = ''thread/settings/updated'' then on_settings_updated s t payload
         else if event = ''turn/started'' then on_turn_started s t payload
         else if event = ''model/rerouted'' then on_model_rerouted s t payload
         else if event = ''turn/completed'' then on_turn_completed s t payload
         else if event = ''thread/status/changed'' then on_status_changed txt s t payload
         else if event \<in> {''thread/closed'', ''thread/archived'', ''thread/deleted''} then clear_thread_settings s t
         else s)"

section \<open>What is told\<close>

definition current_model :: "settings_registry \<Rightarrow> string \<Rightarrow> setting_fact" where
  "current_model s t =
     (case map_of (es_active s) t of
        Some a \<Rightarrow>
          (case map_of (es_reroute s) t of
             Some ro \<Rightarrow> if ro_turn ro = tu_turn a then KnownSetting (Some (ro_model ro)) else ts_model (tu_settings a)
           | None \<Rightarrow> ts_model (tu_settings a))
      | None \<Rightarrow> (case map_of (es_base s) t of Some b \<Rightarrow> ts_model b | None \<Rightarrow> UnknownSetting))"

definition resolve_model_for_request :: "settings_registry \<Rightarrow> string \<Rightarrow> string \<Rightarrow> string option" where
  "resolve_model_for_request s thread_id requested_model =
     (let t = strip thread_id; requested = strip requested_model
      in if t = [] then None
         else case current_model s t of
           KnownSetting (Some v) \<Rightarrow> if requested \<noteq> [] \<and> requested \<noteq> v then None else Some v
         | _ \<Rightarrow> None)"

definition disclose :: "setting_fact \<Rightarrow> setting_disclosure" where
  "disclose f =
     (case f of
        UnknownSetting \<Rightarrow> \<lparr>sd_value = [], sd_source = NotKnown\<rparr>
      | KnownSetting v \<Rightarrow> \<lparr>sd_value = (case v of None \<Rightarrow> [] | Some x \<Rightarrow> x), sd_source = Inherited\<rparr>)"

definition unknown_disclosure :: settings_disclosure where
  "unknown_disclosure =
     (let u = disclose UnknownSetting in \<lparr>dc_model = u, dc_effort = u, dc_approval = u, dc_permissions = u\<rparr>)"

definition disclosure_for_active_turn :: "settings_registry \<Rightarrow> string \<Rightarrow> string \<Rightarrow> settings_disclosure" where
  "disclosure_for_active_turn s thread_id turn_id =
     (let t = strip thread_id; turn = strip turn_id
      in case map_of (es_active s) t of
           None \<Rightarrow> unknown_disclosure
         | Some a \<Rightarrow>
             (if t = [] \<or> turn = [] \<or> tu_turn a \<noteq> turn then unknown_disclosure
              else \<lparr>dc_model = (case map_of (es_reroute s) t of
                       Some ro \<Rightarrow> if ro_turn ro = turn then \<lparr>sd_value = ro_model ro, sd_source = FromReroute\<rparr>
                                  else disclose (ts_model (tu_settings a))
                     | None \<Rightarrow> disclose (ts_model (tu_settings a))),
                    dc_effort = disclose (ts_effort (tu_settings a)),
                    dc_approval = disclose (ts_approval (tu_settings a)),
                    dc_permissions = disclose (ts_permissions (tu_settings a))\<rparr>))"

section \<open>The registry as a step system\<close>

datatype settings_op =
    RecordResponse string json json json json settings_source
  | MarkExternal string
  | InvalidateRequested string requested_settings
  | InvalidateBase string requested_settings
  | Notify string json
  | ClearSettings string
  | ClearAllSettings

fun settings_step :: "(json \<Rightarrow> string) \<Rightarrow> settings_registry \<Rightarrow> settings_op \<Rightarrow> settings_registry" where
  "settings_step txt s (RecordResponse t m e a p source) =
     (case record_start_or_resume s t m e a p source of None \<Rightarrow> s | Some s' \<Rightarrow> s')"
| "settings_step txt s (MarkExternal t) = fst (mark_external_unknown s t)"
| "settings_step txt s (InvalidateRequested t q) = fst (invalidate_requested_settings s t q)"
| "settings_step txt s (InvalidateBase t q) = fst (invalidate_thread_base s t q)"
| "settings_step txt s (Notify m params) = observe_notification txt s m params"
| "settings_step txt s (ClearSettings t) = clear_thread_settings s t"
| "settings_step txt s ClearAllSettings = clear_all_settings s"

lemmas handler_defs =
  on_settings_updated_def on_turn_started_def on_model_rerouted_def on_turn_completed_def on_status_changed_def

lemmas settings_defs =
  record_start_or_resume_def mark_external_unknown_def invalidate_requested_settings_def invalidate_thread_base_def
  invalidate_base_fields_def invalidate_active_fields_def invalidate_reroute_def observe_notification_def
  clear_thread_settings_def clear_all_settings_def pop_thread_def clear_active_turn_def drop_reroute_def
  forget_active_model_def set_active_settings_def new_settings_registry_def

section \<open>A thread another connection has changed\<close>

definition externally_unknown :: "string \<Rightarrow> settings_registry \<Rightarrow> bool" where
  "externally_unknown t s =
     (t \<in> es_external s \<and> map_of (es_base s) t = None \<and> map_of (es_active s) t = None \<and> map_of (es_reroute s) t = None)"

lemma external_set_active:
  "externally_unknown t s \<Longrightarrow> map_of (es_active s) u = Some a \<Longrightarrow> externally_unknown t (set_active_settings s u a settings)"
  by (auto simp: externally_unknown_def set_active_settings_def update_conv')

lemma external_drops:
  assumes "externally_unknown t s"
  shows "externally_unknown t (drop_reroute s u)" and "externally_unknown t (pop_thread s u)"
    and "externally_unknown t (clear_active_turn s u)" and "externally_unknown t (clear_thread_settings s u)"
  using assms by (auto simp: externally_unknown_def drop_reroute_def pop_thread_def clear_active_turn_def
      clear_thread_settings_def Let_def delete_conv')

lemma external_base_fields: "externally_unknown t s \<Longrightarrow> externally_unknown t (fst (invalidate_base_fields s u q))"
  by (auto simp: externally_unknown_def invalidate_base_fields_def update_conv' split: option.split)

lemma external_active_fields:
  "externally_unknown t (fst r) \<Longrightarrow> externally_unknown t (fst (invalidate_active_fields r u q))"
  by (simp add: invalidate_active_fields_def external_set_active split: option.split)

lemma external_reroute:
  "externally_unknown t (fst r) \<Longrightarrow> externally_unknown t (fst (invalidate_reroute r u q))"
  by (simp add: invalidate_reroute_def external_drops forget_active_model_def external_set_active split: option.split)

lemma external_handlers:
  assumes "externally_unknown t s" and "u \<noteq> t"
  shows "externally_unknown t (on_settings_updated s u payload)" and "externally_unknown t (on_turn_started s u payload)"
    and "externally_unknown t (on_model_rerouted s u payload)" and "externally_unknown t (on_turn_completed s u payload)"
    and "externally_unknown t (on_status_changed txt s u payload)"
proof -
  show "externally_unknown t (on_settings_updated s u payload)"
    using assms by (simp add: on_settings_updated_def Let_def externally_unknown_def update_conv')
  have "externally_unknown t (s\<lparr>es_active := AList.update u a (es_active s), es_reroute := AList.delete u (es_reroute s)\<rparr>)" for a
    using assms by (auto simp: externally_unknown_def update_conv' delete_conv')
  then show "externally_unknown t (on_turn_started s u payload)"
    using assms(1) by (simp add: on_turn_started_def Let_def external_drops split: option.split)
  have "externally_unknown t (s\<lparr>es_reroute := AList.update u ro (es_reroute s)\<rparr>)" for ro
    using assms by (simp add: externally_unknown_def update_conv')
  then show "externally_unknown t (on_model_rerouted s u payload)"
    using assms(1) by (simp add: on_model_rerouted_def Let_def external_drops forget_active_model_def external_set_active split: option.split)
  show "externally_unknown t (on_turn_completed s u payload)"
    using assms(1) by (simp add: on_turn_completed_def Let_def external_drops split: option.split)
  show "externally_unknown t (on_status_changed txt s u payload)"
    using assms(1) by (simp add: on_status_changed_def Let_def external_drops)
qed

lemma external_notify: "externally_unknown t s \<Longrightarrow> externally_unknown t (observe_notification txt s m params)"
proof -
  assume x: "externally_unknown t s"
  let ?u = "event_string (map_of (as_dict (Some params)) ''threadId'')"
  show ?thesis
  proof (cases "?u = t")
    case True
    have "t \<in> es_external s" using x by (simp add: externally_unknown_def)
    then show ?thesis
      using x True external_drops(2) [OF x, of t] by (cases "t = []") (simp_all add: observe_notification_def Let_def)
  next
    case False
    then show ?thesis
      using x external_handlers [OF x False] by (simp add: observe_notification_def Let_def external_drops)
  qed
qed

lemma external_step: "externally_unknown t s \<Longrightarrow> x \<noteq> ClearAllSettings \<Longrightarrow> externally_unknown t (settings_step txt s x)"
proof (cases x)
  case (RecordResponse u m e a p source)
  then show "externally_unknown t s \<Longrightarrow> ?thesis"
    by (auto simp: externally_unknown_def record_start_or_resume_def Let_def update_conv' split: option.split)
next
  case (InvalidateRequested u q)
  then show "externally_unknown t s \<Longrightarrow> ?thesis"
    by (simp add: invalidate_requested_settings_def Let_def external_base_fields external_active_fields external_reroute)
next
  case (InvalidateBase u q)
  then show "externally_unknown t s \<Longrightarrow> ?thesis" by (simp add: invalidate_thread_base_def Let_def external_base_fields)
next
  case (MarkExternal u)
  then show "externally_unknown t s \<Longrightarrow> ?thesis"
    by (auto simp: externally_unknown_def mark_external_unknown_def pop_thread_def Let_def delete_conv')
next
  case (ClearSettings u)
  then show "externally_unknown t s \<Longrightarrow> ?thesis"
    by (auto simp: externally_unknown_def clear_thread_settings_def pop_thread_def Let_def delete_conv')
qed (simp_all add: external_notify)

interpretation external: standing_fact "settings_step txt" new_settings_registry "\<lambda>_. True"
    "externally_unknown t" "\<lambda>x. x \<noteq> ClearAllSettings"
  by unfold_locales (auto intro: external_step)

section \<open>The settings frozen for a turn\<close>

text \<open>Operations that only concern later turns.\<close>

fun base_only :: "settings_op \<Rightarrow> bool" where
  "base_only (RecordResponse t m e a p source) = True"
| "base_only (InvalidateBase t q) = True"
| "base_only (Notify method params) = (strip method = ''thread/settings/updated'')"
| "base_only _ = False"

definition turn_frozen :: "string \<Rightarrow> turn_settings \<Rightarrow> settings_registry \<Rightarrow> bool" where
  "turn_frozen t a s = (t \<notin> es_external s \<and> map_of (es_active s) t = Some a \<and> map_of (es_reroute s) t = None)"

lemma frozen_step: "turn_frozen t a s \<Longrightarrow> base_only x \<Longrightarrow> turn_frozen t a (settings_step txt s x)"
  by (cases x) (auto simp: turn_frozen_def record_start_or_resume_def invalidate_thread_base_def invalidate_base_fields_def
      observe_notification_def on_settings_updated_def pop_thread_def Let_def delete_conv' split: option.split)

interpretation frozen: standing_fact "settings_step txt" new_settings_registry "\<lambda>_. True" "turn_frozen t a" base_only
  by unfold_locales (auto intro: frozen_step)

section \<open>Where a known model comes from\<close>

text \<open>The reports that name a model of a thread: a response, a settings notification, a reroute.\<close>

fun reports_model :: "settings_op \<Rightarrow> string \<Rightarrow> string \<Rightarrow> bool" where
  "reports_model (RecordResponse u v e a p source) t m = (strip u = t \<and> v = JStr m)"
| "reports_model (Notify method params) t m =
     (event_string (map_of (as_dict (Some params)) ''threadId'') = t
      \<and> (strip method = ''thread/settings/updated''
           \<and> map_of (as_dict (map_of (as_dict (Some params)) ''threadSettings'')) ''model'' = Some (JStr m)
         \<or> strip method = ''model/rerouted'' \<and> map_of (as_dict (Some params)) ''toModel'' = Some (JStr m)))"
| "reports_model _ t m = False"

definition models_told :: "(string \<times> string) set \<Rightarrow> settings_registry \<Rightarrow> bool" where
  "models_told T s =
     ((\<forall>t b m. map_of (es_base s) t = Some b \<longrightarrow> ts_model b = KnownSetting (Some m) \<longrightarrow> (t, m) \<in> T)
      \<and> (\<forall>t a m. map_of (es_active s) t = Some a \<longrightarrow> ts_model (tu_settings a) = KnownSetting (Some m) \<longrightarrow> (t, m) \<in> T)
      \<and> (\<forall>t ro. map_of (es_reroute s) t = Some ro \<longrightarrow> (t, ro_model ro) \<in> T))"

definition told_by :: "settings_op \<Rightarrow> (string \<times> string) set" where
  "told_by x = {(t, m). reports_model x t m}"

lemma models_told_mono: "models_told T s \<Longrightarrow> T \<subseteq> T' \<Longrightarrow> models_told T' s"
  unfolding models_told_def by blast

lemma told_delete_base: "models_told T s \<Longrightarrow> models_told T (s\<lparr>es_base := AList.delete t (es_base s)\<rparr>)"
  by (auto simp: models_told_def delete_conv')

lemma told_clear_active: "models_told T s \<Longrightarrow> models_told T (clear_active_turn s t)"
  by (auto simp: models_told_def clear_active_turn_def delete_conv')

lemma told_pop: "models_told T s \<Longrightarrow> models_told T (pop_thread s t)"
  by (auto simp: models_told_def pop_thread_def delete_conv')

lemma told_drop_reroute: "models_told T s \<Longrightarrow> models_told T (drop_reroute s t)"
  by (auto simp: models_told_def drop_reroute_def delete_conv')

lemma told_set_base:
  "models_told T s \<Longrightarrow> (\<And>m. ts_model b = KnownSetting (Some m) \<Longrightarrow> (t, m) \<in> T)
    \<Longrightarrow> models_told T (s\<lparr>es_base := AList.update t b (es_base s)\<rparr>)"
  by (auto simp: models_told_def update_conv')

lemma told_set_active:
  "models_told T s \<Longrightarrow> (\<And>m. ts_model settings = KnownSetting (Some m) \<Longrightarrow> (t, m) \<in> T)
    \<Longrightarrow> models_told T (set_active_settings s t a settings)"
  by (auto simp: models_told_def set_active_settings_def update_conv')

lemma forget_Known: "forget f q = KnownSetting v \<Longrightarrow> f = KnownSetting v"
  by (simp add: forget_def split: if_splits)

lemma told_base_fields: "models_told T s \<Longrightarrow> models_told T (fst (invalidate_base_fields s t q))"
proof (cases "map_of (es_base s) t")
  case (Some b)
  assume told: "models_told T s"
  have "(t, m) \<in> T" if "ts_model (forget_settings b q) = KnownSetting (Some m)" for m
    using told Some forget_Known [of "ts_model b" "rq_model q" "Some m"] that by (auto simp: models_told_def forget_settings_def)
  from told_set_base [OF told this] show ?thesis using told Some by (simp add: invalidate_base_fields_def)
qed (simp add: invalidate_base_fields_def)

lemma told_active_fields: "models_told T (fst r) \<Longrightarrow> models_told T (fst (invalidate_active_fields r t q))"
proof (cases "map_of (es_active (fst r)) t")
  case (Some a)
  assume told: "models_told T (fst r)"
  have "(t, m) \<in> T" if "ts_model (forget_settings (tu_settings a) q) = KnownSetting (Some m)" for m
    using told Some forget_Known [of "ts_model (tu_settings a)" "rq_model q" "Some m"] that
    by (auto simp: models_told_def forget_settings_def)
  from told_set_active [OF told this] show ?thesis using told Some by (simp add: invalidate_active_fields_def)
qed (simp add: invalidate_active_fields_def)

lemma told_forget_model: "models_told T s \<Longrightarrow> models_told T (forget_active_model s t a)"
  unfolding forget_active_model_def by (rule told_set_active) simp_all

lemma told_reroute: "models_told T (fst r) \<Longrightarrow> models_told T (fst (invalidate_reroute r t q))"
  by (auto simp: invalidate_reroute_def told_drop_reroute told_forget_model split: option.split)

lemma reader_model:
  "known_required_string v = Some (KnownSetting (Some m)) \<Longrightarrow> v = JStr m"
  by (cases v) (auto simp: known_required_string_def split: if_splits)

lemma notified_model:
  assumes "settings_from_notification v = Some b" and "ts_model b = KnownSetting (Some m)"
  shows "map_of (as_dict v) ''model'' = Some (JStr m)"
proof -
  from assms(1) obtain d where d: "v = Some (JObj d)" and k: "''model'' \<in> fst ` set d"
    and r: "known_required_string (field_or_null d ''model'') = Some (ts_model b)"
    by (auto simp: settings_from_notification_def settings_of_def split: option.splits json.splits if_splits)
  have "field_or_null d ''model'' = JStr m" using reader_model r assms(2) by simp
  then show ?thesis using d k by (auto simp: field_or_null_def as_dict_def split: option.splits)
qed

lemma event_string_text: "event_string v = s \<Longrightarrow> s \<noteq> [] \<Longrightarrow> v = Some (JStr s)"
  by (auto simp: event_string_def split: option.splits json.splits if_splits)

lemma told_started: "models_told T s \<Longrightarrow> models_told T (on_turn_started s t payload)"
proof -
  assume told: "models_told T s"
  have "models_told T (s\<lparr>es_active := AList.update t \<lparr>tu_turn = turn, tu_settings =
          (case map_of (es_base s) t of None \<Rightarrow> unknown_settings FromSettings | Some b \<Rightarrow> b)\<rparr> (es_active s),
        es_reroute := AList.delete t (es_reroute s)\<rparr>)" for turn
    using told by (auto simp: models_told_def update_conv' delete_conv' unknown_settings_def split: option.splits)
  then show ?thesis using told by (auto simp: on_turn_started_def Let_def told_clear_active split: option.split)
qed

lemma told_rerouted:
  assumes told: "models_told T s" and new: "\<And>m. map_of payload ''toModel'' = Some (JStr m) \<Longrightarrow> (t, m) \<in> T"
  shows "models_told T (on_model_rerouted s t payload)"
proof -
  let ?m = "event_string (map_of payload ''toModel'')"
  have "models_told T (s\<lparr>es_reroute := AList.update t \<lparr>ro_turn = turn, ro_model = ?m\<rparr> (es_reroute s)\<rparr>)" if "?m \<noteq> []" for turn
    using told new [OF event_string_text [OF refl that]] by (auto simp: models_told_def update_conv')
  then show ?thesis
    using told by (auto simp: on_model_rerouted_def Let_def told_drop_reroute told_forget_model split: option.split)
qed

lemma told_updated:
  assumes told: "models_told T s"
    and new: "\<And>m. map_of (as_dict (map_of payload ''threadSettings'')) ''model'' = Some (JStr m) \<Longrightarrow> (t, m) \<in> T"
  shows "models_told T (on_settings_updated s t payload)"
  using told new notified_model [of "map_of payload ''threadSettings''"]
  by (auto simp: on_settings_updated_def Let_def unknown_settings_def intro!: told_set_base split: option.splits)

lemma told_clear_thread: "models_told T s \<Longrightarrow> models_told T (clear_thread_settings s t)"
  by (simp add: clear_thread_settings_def Let_def told_pop)

lemma told_status: "models_told T s \<Longrightarrow> models_told T (on_status_changed txt s t payload)"
  by (simp add: on_status_changed_def Let_def told_clear_active told_clear_thread)

lemma told_completed: "models_told T s \<Longrightarrow> models_told T (on_turn_completed s t payload)"
  by (simp add: on_turn_completed_def Let_def told_clear_active split: option.split)

lemma told_step:
  assumes "models_told T s"
  shows "models_told (T \<union> told_by x) (settings_step txt s x)"
proof -
  have told: "models_told (T \<union> told_by x) s" using assms by (rule models_told_mono) blast
  show ?thesis
  proof (cases x)
    case (RecordResponse u v e a p source)
    have "(strip u, m) \<in> T \<union> told_by x" if "known_required_string v = Some f" "f = KnownSetting (Some m)" for f m
      using reader_model that by (auto simp: RecordResponse told_by_def)
    then show ?thesis
      using told by (auto simp: RecordResponse record_start_or_resume_def settings_of_def Let_def intro!: told_set_base split: option.split)
  next
    case (Notify name params)
    let ?p = "as_dict (Some params)"
    let ?t = "event_string (map_of ?p ''threadId'')"
    have u: "(?t, m) \<in> T \<union> told_by x"
      if "strip name = ''thread/settings/updated''" "map_of (as_dict (map_of ?p ''threadSettings'')) ''model'' = Some (JStr m)" for m
      using that by (simp add: Notify told_by_def)
    have r: "(?t, m) \<in> T \<union> told_by x"
      if "strip name = ''model/rerouted''" "map_of ?p ''toModel'' = Some (JStr m)" for m
      using that by (simp add: Notify told_by_def)
    show ?thesis
      using told told_updated [OF told u] told_rerouted [OF told r]
      by (simp add: Notify observe_notification_def Let_def told_pop told_started told_completed told_status told_clear_thread)
  next
    case ClearAllSettings
    then show ?thesis by (simp add: clear_all_settings_def new_settings_registry_def models_told_def)
  next
    case (MarkExternal t)
    have "models_told (T \<union> told_by x) (pop_thread s (strip t))" using told by (rule told_pop)
    then show ?thesis using told by (simp add: MarkExternal mark_external_unknown_def Let_def models_told_def)
  qed (use told in \<open>simp_all add: invalidate_requested_settings_def invalidate_thread_base_def Let_def
      told_base_fields told_active_fields told_reroute told_clear_thread\<close>)
qed

lemma told_run: "models_told T s \<Longrightarrow> models_told (T \<union> (\<Union>x\<in>set xs. told_by x)) (run_ops (settings_step txt) s xs)"
proof (induction xs arbitrary: s T)
  case (Cons x xs)
  from Cons.IH [OF told_step [OF Cons.prems, of x "txt"]] show ?case by (simp add: Un_assoc)
qed simp

section \<open>Properties\<close>

text \<open>
  An external change silences the thread: from the moment another connection is known to
  have changed a thread until the backend epoch is replaced, no response, notification or
  request makes the registry state a model or disclose a setting for it.
\<close>

theorem external_unknown_is_sticky:
  assumes "strip thread_id \<noteq> []" and "list_all (\<lambda>x. x \<noteq> ClearAllSettings) xs"
    and "s' = run_ops (settings_step txt) (fst (mark_external_unknown s thread_id)) xs"
  shows "resolve_model_for_request s' thread_id requested = None
    \<and> disclosure_for_active_turn s' thread_id turn_id = unknown_disclosure"
proof -
  have "externally_unknown (strip thread_id) (fst (mark_external_unknown s thread_id))"
    using assms(1) by (simp add: externally_unknown_def mark_external_unknown_def pop_thread_def Let_def delete_conv')
  then have "externally_unknown (strip thread_id) s'"
    unfolding assms(3) using assms(2) by (intro external.fact_run) simp_all
  then show ?thesis
    by (simp add: externally_unknown_def resolve_model_for_request_def current_model_def disclosure_for_active_turn_def Let_def)
qed

text \<open>
  A turn shows the settings it started with: whatever responses, settings notifications and
  requests for later turns arrive while it is active, what is disclosed for it is exactly the
  base of its thread at its start.
\<close>

theorem turn_settings_are_frozen:
  assumes "map_of (es_base s) t = Some b" and "map_of (es_active s) t = None" and "t \<notin> es_external s"
    and "strip t = t" and "t \<noteq> []" and "strip turn = turn" and "turn \<noteq> []"
    and "list_all base_only xs"
    and "s' = run_ops (settings_step txt) (observe_notification txt s ''turn/started''
            (JObj [(''threadId'', JStr t), (''turnId'', JStr turn)])) xs"
  shows "disclosure_for_active_turn s' t turn
    = \<lparr>dc_model = disclose (ts_model b), dc_effort = disclose (ts_effort b),
       dc_approval = disclose (ts_approval b), dc_permissions = disclose (ts_permissions b)\<rparr>"
proof -
  have m: "strip ''turn/started'' = ''turn/started''" by code_simp
  have "turn_frozen t \<lparr>tu_turn = turn, tu_settings = b\<rparr> (observe_notification txt s ''turn/started''
            (JObj [(''threadId'', JStr t), (''turnId'', JStr turn)]))"
    using assms(1-7) by (simp add: observe_notification_def m as_dict_def event_string_def on_turn_started_def
        notified_turn_def Let_def turn_frozen_def update_conv' delete_conv')
  then have "turn_frozen t \<lparr>tu_turn = turn, tu_settings = b\<rparr> s'"
    unfolding assms(9) using assms(8) by (intro frozen.fact_run) simp_all
  then show ?thesis using assms(4-7) by (simp add: turn_frozen_def disclosure_for_active_turn_def Let_def)
qed

text \<open>
  A request is never taken for a fact: whenever the registry states the model of a thread,
  some response, settings notification or reroute of that thread named this model.
\<close>

theorem stated_model_was_reported:
  assumes "resolve_model_for_request (run_ops (settings_step txt) new_settings_registry xs) thread_id requested = Some m"
  shows "\<exists>x\<in>set xs. reports_model x (strip thread_id) m"
proof -
  let ?s = "run_ops (settings_step txt) new_settings_registry xs"
  have "models_told {} new_settings_registry" by (simp add: models_told_def new_settings_registry_def)
  from told_run [OF this, of xs "txt"] have told: "models_told (\<Union>x\<in>set xs. told_by x) ?s" by simp
  have "current_model ?s (strip thread_id) = KnownSetting (Some m)"
    using assms by (auto simp: resolve_model_for_request_def Let_def split: if_splits setting_fact.splits option.splits)
  then have "(strip thread_id, m) \<in> (\<Union>x\<in>set xs. told_by x)"
    using told unfolding models_told_def by (auto simp: current_model_def split: option.splits if_splits)
  then show ?thesis by (auto simp: told_by_def)
qed

section \<open>Witnesses\<close>

definition demo_settings :: settings_registry where
  "demo_settings =
     run_ops (settings_step (\<lambda>_. [])) new_settings_registry [RecordResponse ''t'' (JStr ''m'') JNull JNull JNull FromResume]"

definition demo_update :: settings_op where
  "demo_update = Notify ''thread/settings/updated'' (JObj [(''threadId'', JStr ''t'')])"

theorem external_unknown_is_sticky_witness:
  "resolve_model_for_request
     (run_ops (settings_step (\<lambda>_. [])) (fst (mark_external_unknown demo_settings '' t '')) [RecordResponse ''t'' (JStr ''m'') JNull JNull JNull FromResume])
     '' t '' [] = None"
proof -
  have t: "strip '' t '' \<noteq> []" by code_simp
  have l: "list_all (\<lambda>x. x \<noteq> ClearAllSettings) [RecordResponse ''t'' (JStr ''m'') JNull JNull JNull FromResume]" by simp
  show ?thesis using external_unknown_is_sticky [OF t l refl] by blast
qed

theorem turn_settings_are_frozen_witness:
  "dc_model (disclosure_for_active_turn
     (run_ops (settings_step (\<lambda>_. [])) (observe_notification (\<lambda>_. []) demo_settings ''turn/started''
        (JObj [(''threadId'', JStr ''t''), (''turnId'', JStr ''u'')])) [demo_update]) ''t'' ''u'')
   = \<lparr>sd_value = ''m'', sd_source = Inherited\<rparr>"
proof -
  let ?b = "\<lparr>ts_model = KnownSetting (Some ''m''), ts_effort = KnownSetting None, ts_approval = UnknownSetting,
      ts_permissions = UnknownSetting, ts_source = FromResume\<rparr>"
  have b: "map_of (es_base demo_settings) ''t'' = Some ?b" and a: "map_of (es_active demo_settings) ''t'' = None"
    and x: "''t'' \<notin> es_external demo_settings" and n: "strip ''t'' = ''t''" "strip ''u'' = ''u''"
    and l: "list_all base_only [demo_update]" and d: "disclose (KnownSetting (Some ''m'')) = \<lparr>sd_value = ''m'', sd_source = Inherited\<rparr>"
    by code_simp+
  show ?thesis using turn_settings_are_frozen [OF b a x n(1) _ n(2) _ l refl, of "\<lambda>_. []"] d by simp
qed

theorem stated_model_was_reported_witness:
  "\<exists>x\<in>{RecordResponse ''t'' (JStr ''m'') JNull JNull JNull FromResume}. reports_model x (strip ''t'') ''m''"
proof -
  have "resolve_model_for_request (run_ops (settings_step (\<lambda>_. [])) new_settings_registry
      [RecordResponse ''t'' (JStr ''m'') JNull JNull JNull FromResume]) ''t'' [] = Some ''m''" by code_simp
  from stated_model_was_reported [OF this] show ?thesis by simp
qed

end
