(* ===== verification/Surface_Dispatch.thy ===== *)
theory Surface_Dispatch
  imports Server_Request_Registry
begin

text \<open>
  The dispatcher of one canonical server request to the surfaces
  (\<open>bot/server_request_surface_dispatcher.py\<close>, \<open>bot/server_request_dispatch.py\<close>): an approval
  is offered to fcodex, the browser and Feishu alike, an ordinary callback of a shared desktop
  thread to both desktop surfaces before Feishu, anything else to one surface.

  The dispatcher has no state. A call of a port is an event of a log, the answers of the ports
  are the record \<open>dispatch_ports\<close>; no port is called twice in one dispatch.
\<close>

section \<open>Outcomes\<close>

datatype dispatch_outcome = DispatchCommitted | KnownNotCommitted | OutcomeUnknown

record dispatch_receipt =
  dr_outcome :: dispatch_outcome
  dr_reason :: string

definition receipt_committed :: dispatch_receipt where
  "receipt_committed = \<lparr>dr_outcome = DispatchCommitted, dr_reason = []\<rparr>"

definition receipt_not_committed :: "string \<Rightarrow> dispatch_receipt" where
  "receipt_not_committed reason = \<lparr>dr_outcome = KnownNotCommitted, dr_reason = strip reason\<rparr>"

definition receipt_unknown :: "string \<Rightarrow> dispatch_receipt" where
  "receipt_unknown reason = \<lparr>dr_outcome = OutcomeUnknown, dr_reason = strip reason\<rparr>"

text \<open>
  What a port may raise: the proof that nothing happened, the conflict of two capabilities
  under one key, or any other exception with the name of its class.
\<close>

datatype dispatch_exn =
    ProvedNoEffect string
  | SurfaceConflict string
  | Unclassified string string

fun exn_text :: "dispatch_exn \<Rightarrow> string" where
  "exn_text (ProvedNoEffect m) = m"
| "exn_text (SurfaceConflict m) = m"
| "exn_text (Unclassified c m) = m"

fun exn_class :: "dispatch_exn \<Rightarrow> string" where
  "exn_class (ProvedNoEffect m) = ''ServerRequestDispatchKnownNotCommitted''"
| "exn_class (SurfaceConflict m) = ''ServerRequestSurfaceIdentityConflict''"
| "exn_class (Unclassified c m) = c"

text \<open>What a surface returns: a claim, or something that is no claim.\<close>

datatype surface_claim = SurfaceClaimed | SurfaceDeclined | NoClaim

definition claim_from_retained :: "json \<Rightarrow> surface_claim" where
  "claim_from_retained retained = (if retained = JBool True then SurfaceClaimed else SurfaceDeclined)"

text \<open>\<open>_claim_outcome(claim) == "claimed"\<close>.\<close>

definition claim_outcome :: "surface_claim \<Rightarrow> dispatch_exn + bool" where
  "claim_outcome c =
     (case c of
        SurfaceClaimed \<Rightarrow> Inr True
      | SurfaceDeclined \<Rightarrow> Inr False
      | NoClaim \<Rightarrow> Inl (Unclassified ''RuntimeError'' ''surface returned an invalid server-request claim''))"

datatype surface = Fcodex | Web | Feishu

fun surface_name :: "surface \<Rightarrow> string" where
  "surface_name Fcodex = ''fcodex''"
| "surface_name Web = ''web''"
| "surface_name Feishu = ''feishu''"

datatype routing_mode = SingleSurface | SharedApproval | SharedInteraction

text \<open>A timing is a capability; only its identity is used.\<close>

type_synonym timing = nat

datatype dispatch_event =
    AskShareApproval nat
  | AskShareDesktop nat
  | Offered surface nat routing_mode "timing option"
  | Scheduled string bool
  | AskPending surface string
  | TimerCancelled string timing

record dispatch_ports =
  dp_share_approval :: "dispatch_exn + bool"
  dp_share_desktop :: "dispatch_exn + bool"
  dp_route :: "surface \<Rightarrow> dispatch_exn + surface_claim"
  dp_schedule :: "dispatch_exn + timing option"
  dp_web_has_pending :: "dispatch_exn + bool"
  dp_feishu_has_pending :: "dispatch_exn + bool"
  dp_cancel :: "dispatch_exn + bool"

type_synonym 'a dispatching = "dispatch_event list \<times> (dispatch_exn + 'a)"

definition ask_port :: "dispatch_event list \<Rightarrow> dispatch_event \<Rightarrow> dispatch_exn + 'a \<Rightarrow> 'a dispatching" where
  "ask_port l ev answer = (l @ [ev], answer)"

section \<open>One dispatch\<close>

definition COMMAND_APPROVAL :: string where "COMMAND_APPROVAL = ''item/commandExecution/requestApproval''"
definition FILE_APPROVAL :: string where "FILE_APPROVAL = ''item/fileChange/requestApproval''"
definition PERMISSIONS_APPROVAL :: string where "PERMISSIONS_APPROVAL = ''item/permissions/requestApproval''"
definition USER_INPUT :: string where "USER_INPUT = ''item/tool/requestUserInput''"

definition shared_approval_methods :: "string set" where
  "shared_approval_methods = {COMMAND_APPROVAL, FILE_APPROVAL, PERMISSIONS_APPROVAL}"

definition wants_auto_resolution :: "server_request_identity \<Rightarrow> bool" where
  "wants_auto_resolution i =
     (sr_method i = USER_INPUT \<and> map_of (sr_params i) ''autoResolutionMs'' \<notin> {None, Some JNull})"

text \<open>
  One round of the loops over surfaces: whether somebody claimed, and the surfaces whose
  outcome is unknown. A proof of no effect counts as a refusal.
\<close>

definition offer_round ::
  "dispatch_ports \<Rightarrow> nat \<Rightarrow> routing_mode \<Rightarrow> timing option \<Rightarrow> surface
    \<Rightarrow> dispatch_event list \<times> bool \<times> (surface \<times> dispatch_exn) list
    \<Rightarrow> dispatch_event list \<times> bool \<times> (surface \<times> dispatch_exn) list" where
  "offer_round p r mode timing su acc =
     (case acc of (l, claimed, unknown) \<Rightarrow>
        (case bindr (dp_route p su) claim_outcome of
           Inl (ProvedNoEffect m) \<Rightarrow> (l @ [Offered su r mode timing], claimed, unknown)
         | Inl x \<Rightarrow> (l @ [Offered su r mode timing], claimed, unknown @ [(su, x)])
         | Inr c \<Rightarrow> (l @ [Offered su r mode timing], claimed \<or> c, unknown)))"

definition offer_all ::
  "dispatch_ports \<Rightarrow> nat \<Rightarrow> routing_mode \<Rightarrow> timing option \<Rightarrow> surface list \<Rightarrow> dispatch_event list
    \<Rightarrow> dispatch_event list \<times> bool \<times> (surface \<times> dispatch_exn) list" where
  "offer_all p r mode timing surfaces l = fold (offer_round p r mode timing) surfaces (l, False, [])"

definition unknown_detail :: "(surface \<times> dispatch_exn) list \<Rightarrow> string" where
  "unknown_detail unknown =
     (let texts = map (\<lambda>(su, x). surface_name su @ '': '' @ exn_class x @ '': '' @ exn_text x) unknown
      in case texts of [] \<Rightarrow> [] | t # ts \<Rightarrow> t @ concat (map (\<lambda>u. ''; '' @ u) ts))"

definition unknown_raise :: "string \<Rightarrow> (surface \<times> dispatch_exn) list \<Rightarrow> dispatch_exn" where
  "unknown_raise kind unknown =
     (if \<exists>p \<in> set unknown. (case snd p of SurfaceConflict m \<Rightarrow> True | _ \<Rightarrow> False) then SurfaceConflict (unknown_detail unknown)
      else Unclassified ''RuntimeError''
             (''shared '' @ kind @ '' surface outcome is unknown ('' @ unknown_detail unknown @ '')''))"

definition dispatch_shared_approval :: "dispatch_ports \<Rightarrow> nat \<Rightarrow> dispatch_event list \<Rightarrow> unit dispatching" where
  "dispatch_shared_approval p r l =
     (case offer_all p r SharedApproval None [Fcodex, Web, Feishu] l of
        (l', claimed, unknown) \<Rightarrow>
          if unknown \<noteq> [] then (l', Inl (unknown_raise ''approval'' unknown))
          else if \<not> claimed then (l', Inl (ProvedNoEffect ''no surface retained the shared approval request''))
          else (l', Inr ()))"

text \<open>\<open>if timing is not None: cancel_auto_resolution(request_key, timing)\<close>.\<close>

definition cancel_timer :: "dispatch_ports \<Rightarrow> string \<Rightarrow> timing option \<Rightarrow> dispatch_event list \<Rightarrow> unit dispatching" where
  "cancel_timer p k timing l =
     (case timing of None \<Rightarrow> (l, Inr ())
      | Some t \<Rightarrow> bindc (ask_port l (TimerCancelled k t) (dp_cancel p)) (\<lambda>l _. (l, Inr ())))"

text \<open>The cancellation of a timer that no local projection can consume.\<close>

definition cancel_unclaimed_timer :: "dispatch_ports \<Rightarrow> string \<Rightarrow> timing option \<Rightarrow> dispatch_event list \<Rightarrow> unit dispatching" where
  "cancel_unclaimed_timer p k timing l =
     (if timing = None then (l, Inr ())
      else bindc (ask_port l (AskPending Web k) (dp_web_has_pending p)) (\<lambda>l web.
        if web then (l, Inr ())
        else bindc (ask_port l (AskPending Feishu k) (dp_feishu_has_pending p)) (\<lambda>l feishu.
          if feishu then (l, Inr ()) else cancel_timer p k timing l)))"

text \<open>\<open>except Exception: cancel; raise\<close>: the cancellation's own exception wins.\<close>

definition cancelling :: "dispatch_ports \<Rightarrow> string \<Rightarrow> timing option \<Rightarrow> 'a dispatching \<Rightarrow> 'a dispatching" where
  "cancelling p k timing c =
     (case c of
        (l, Inl x) \<Rightarrow> bindc (cancel_timer p k timing l) (\<lambda>l _. (l, Inl x))
      | (l, Inr v) \<Rightarrow> (l, Inr v))"

definition offer_feishu :: "dispatch_ports \<Rightarrow> nat \<Rightarrow> timing option \<Rightarrow> dispatch_event list \<Rightarrow> surface_claim dispatching" where
  "offer_feishu p r timing l = ask_port l (Offered Feishu r SingleSurface timing) (dp_route p Feishu)"

text \<open>\<open>route_web\<close>, then \<open>route_feishu\<close> when it declined.\<close>

definition web_then_feishu :: "dispatch_ports \<Rightarrow> nat \<Rightarrow> timing option \<Rightarrow> dispatch_event list \<Rightarrow> surface_claim dispatching" where
  "web_then_feishu p r timing l =
     bindc (ask_port l (Offered Web r SingleSurface timing) (dp_route p Web)) (\<lambda>l claim.
       bindc (l, claim_outcome claim) (\<lambda>l c. if c then (l, Inr claim) else offer_feishu p r timing l))"

definition dispatch_single :: "identity_heap \<Rightarrow> dispatch_ports \<Rightarrow> nat \<Rightarrow> dispatch_event list \<Rightarrow> unit dispatching" where
  "dispatch_single H p r l =
     bindc (ask_port l (Offered Fcodex r SingleSurface None) (dp_route p Fcodex)) (\<lambda>l fcodex.
       bindc (l, claim_outcome fcodex) (\<lambda>l c.
         if c then (l, Inr ())
         else let k = sr_request_key (H r)
              in bindc (ask_port l (Scheduled k (wants_auto_resolution (H r))) (dp_schedule p)) (\<lambda>l timing.
                   bindc (cancelling p k timing (web_then_feishu p r timing l)) (\<lambda>l claim.
                     bindc (cancel_unclaimed_timer p k timing l) (\<lambda>l _.
                       bindc (l, claim_outcome claim) (\<lambda>l c.
                         if c then (l, Inr ()) else (l, Inl (ProvedNoEffect ''no surface retained the server request'')))))))) "

text \<open>Feishu is asked when no desktop surface claimed.\<close>

definition last_resort ::
  "dispatch_ports \<Rightarrow> string \<Rightarrow> nat \<Rightarrow> timing option \<Rightarrow> bool \<Rightarrow> dispatch_event list \<Rightarrow> bool dispatching" where
  "last_resort p k r timing claimed l =
     (if claimed then (l, Inr True)
      else cancelling p k timing
             (bindc (offer_feishu p r timing l) (\<lambda>l claim. (l, claim_outcome claim))))"

definition dispatch_shared_interaction ::
  "identity_heap \<Rightarrow> dispatch_ports \<Rightarrow> nat \<Rightarrow> dispatch_event list \<Rightarrow> unit dispatching" where
  "dispatch_shared_interaction H p r l =
     (let k = sr_request_key (H r)
      in bindc (ask_port l (Scheduled k (wants_auto_resolution (H r))) (dp_schedule p)) (\<lambda>l timing.
           case offer_all p r SharedInteraction timing [Fcodex, Web] l of
             (l, claimed, unknown) \<Rightarrow>
               if unknown \<noteq> []
               then bindc (cancel_unclaimed_timer p k timing l) (\<lambda>l _. (l, Inl (unknown_raise ''interaction'' unknown)))
               else bindc (last_resort p k r timing claimed l) (\<lambda>l claimed.
                      bindc (cancel_unclaimed_timer p k timing l) (\<lambda>l _.
                        if claimed then (l, Inr ())
                        else (l, Inl (ProvedNoEffect ''no surface retained the shared interaction request''))))))"

definition dispatch_once :: "identity_heap \<Rightarrow> dispatch_ports \<Rightarrow> nat \<Rightarrow> unit dispatching" where
  "dispatch_once H p r =
     bindc (if sr_method (H r) \<in> shared_approval_methods
            then ask_port [] (AskShareApproval r) (dp_share_approval p) else ([], Inr False))
       (\<lambda>l approval.
         if approval then dispatch_shared_approval p r l
         else bindc (ask_port l (AskShareDesktop r) (dp_share_desktop p)) (\<lambda>l desktop.
           if desktop then dispatch_shared_interaction H p r l else dispatch_single H p r l))"

definition dispatch :: "identity_heap \<Rightarrow> dispatch_ports \<Rightarrow> nat \<Rightarrow> dispatch_event list \<times> dispatch_receipt" where
  "dispatch H p r =
     (case dispatch_once H p r of
        (l, Inl (ProvedNoEffect m)) \<Rightarrow> (l, receipt_not_committed m)
      | (l, Inl x) \<Rightarrow> (l, receipt_unknown (exn_text x))
      | (l, Inr _) \<Rightarrow> (l, receipt_committed))"

section \<open>What a receipt proves\<close>

text \<open>The surface certainly does not hold the request, or it said that it does.\<close>

definition surely_declined :: "dispatch_ports \<Rightarrow> surface \<Rightarrow> bool" where
  "surely_declined p su =
     (case bindr (dp_route p su) claim_outcome of
        Inl (ProvedNoEffect m) \<Rightarrow> True | Inl x \<Rightarrow> False | Inr c \<Rightarrow> \<not> c)"

definition surely_claimed :: "dispatch_ports \<Rightarrow> surface \<Rightarrow> bool" where
  "surely_claimed p su = (dp_route p su = Inr SurfaceClaimed)"

definition offered :: "dispatch_event list \<Rightarrow> surface \<Rightarrow> bool" where
  "offered l su = list_ex (\<lambda>ev. case ev of Offered su' r mode timing \<Rightarrow> su' = su | _ \<Rightarrow> False) l"

text \<open>Only a surface may prove that nothing happened.\<close>

definition proves_nothing :: "dispatch_exn + 'a \<Rightarrow> bool" where
  "proves_nothing answer = (case answer of Inl (ProvedNoEffect m) \<Rightarrow> False | _ \<Rightarrow> True)"

definition only_surfaces_prove :: "dispatch_ports \<Rightarrow> bool" where
  "only_surfaces_prove p =
     (proves_nothing (dp_share_approval p) \<and> proves_nothing (dp_share_desktop p) \<and> proves_nothing (dp_schedule p)
      \<and> proves_nothing (dp_web_has_pending p) \<and> proves_nothing (dp_feishu_has_pending p) \<and> proves_nothing (dp_cancel p))"

lemma offered_simps [simp]:
  "offered [] su = False"
  "offered (l @ l') su = (offered l su \<or> offered l' su)"
  "offered (AskShareApproval r # l) su = offered l su"
  "offered (AskShareDesktop r # l) su = offered l su"
  "offered (Offered su' r mode timing # l) su = (su' = su \<or> offered l su)"
  "offered (Scheduled k b # l) su = offered l su"
  "offered (AskPending su' k # l) su = offered l su"
  "offered (TimerCancelled k t # l) su = offered l su"
  by (simp_all add: offered_def)

lemma proves_nothing_iff: "proves_nothing answer \<longleftrightarrow> (\<forall>m. answer \<noteq> Inl (ProvedNoEffect m))"
  by (cases answer) (simp_all add: proves_nothing_def split: dispatch_exn.split)

text \<open>The judgement of a finished or raised part of a dispatch, in terms of what was offered so far.\<close>

definition sound_so_far :: "dispatch_ports \<Rightarrow> dispatch_event list \<times> (dispatch_exn + unit) \<Rightarrow> bool" where
  "sound_so_far p c =
     (case c of
        (l, Inr _) \<Rightarrow> \<exists>su. offered l su \<and> surely_claimed p su
      | (l, Inl (ProvedNoEffect m)) \<Rightarrow> \<forall>su. offered l su \<longrightarrow> surely_declined p su
      | (l, Inl x) \<Rightarrow> True)"

lemma cancel_timer_sound:
  assumes "proves_nothing (dp_cancel p)"
  shows "offered (fst (cancel_timer p k timing l)) su = offered l su"
    and "snd (cancel_timer p k timing l) \<noteq> Inl (ProvedNoEffect m)"
proof -
  have "offered (fst (cancel_timer p k timing l)) su = offered l su
      \<and> snd (cancel_timer p k timing l) \<noteq> Inl (ProvedNoEffect m)"
  proof (cases timing)
    case (Some t)
    then show ?thesis
      using assms by (cases "dp_cancel p") (auto simp: cancel_timer_def ask_port_def proves_nothing_def)
  qed (simp add: cancel_timer_def)
  then show "offered (fst (cancel_timer p k timing l)) su = offered l su"
    and "snd (cancel_timer p k timing l) \<noteq> Inl (ProvedNoEffect m)" by blast+
qed

lemma cancel_unclaimed_sound:
  assumes "only_surfaces_prove p"
  shows "offered (fst (cancel_unclaimed_timer p k timing l)) su = offered l su"
    and "snd (cancel_unclaimed_timer p k timing l) \<noteq> Inl (ProvedNoEffect m)"
proof -
  note a = assms [unfolded only_surfaces_prove_def]
  note c = cancel_timer_sound [of p k timing]
  have "offered (fst (cancel_unclaimed_timer p k timing l)) su = offered l su
      \<and> snd (cancel_unclaimed_timer p k timing l) \<noteq> Inl (ProvedNoEffect m)"
    using a c by (cases "dp_web_has_pending p"; cases "dp_feishu_has_pending p")
      (simp_all add: cancel_unclaimed_timer_def ask_port_def proves_nothing_iff)
  then show "offered (fst (cancel_unclaimed_timer p k timing l)) su = offered l su"
    and "snd (cancel_unclaimed_timer p k timing l) \<noteq> Inl (ProvedNoEffect m)" by blast+
qed

lemma bindc_cases:
  "bindc r k = (case snd r of Inl e \<Rightarrow> (fst r, Inl e) | Inr x \<Rightarrow> k (fst r) x)"
  by (auto simp: bindc_def split: prod.splits sum.splits)

lemma sound_after_cancel:
  assumes "only_surfaces_prove p" and "\<And>l'. (\<And>su. offered l' su = offered l su) \<Longrightarrow> sound_so_far p (g l')"
  shows "sound_so_far p (bindc (cancel_unclaimed_timer p k timing l) (\<lambda>l _. g l))"
proof -
  obtain l' o' where c: "cancel_unclaimed_timer p k timing l = (l', o')" by force
  with cancel_unclaimed_sound [OF assms(1), of k timing l]
  have l: "offered l' su = offered l su" and o: "o' \<noteq> Inl (ProvedNoEffect m)" for su m by simp_all
  show ?thesis
  proof (cases o')
    case (Inl x)
    then show ?thesis using c o by (cases x) (simp_all add: sound_so_far_def)
  next
    case (Inr v)
    then show ?thesis using c assms(2) [of l'] l by simp
  qed
qed

lemma claim_outcome_known:
  "claim_outcome c = Inr True \<longleftrightarrow> c = SurfaceClaimed" "claim_outcome c = Inr False \<longleftrightarrow> c = SurfaceDeclined"
  "claim_outcome c \<noteq> Inl (ProvedNoEffect m)"
  by (cases c; simp add: claim_outcome_def)+

lemma offer_round_answer:
  "\<exists>unknown'. offer_round p r mode timing su (l, c, unknown)
      = (l @ [Offered su r mode timing], c \<or> surely_claimed p su, unknown')
    \<and> (unknown' = [] \<longleftrightarrow> unknown = [] \<and> (surely_claimed p su \<or> surely_declined p su))"
proof (cases "dp_route p su")
  case (Inl x)
  then show ?thesis by (cases x) (simp_all add: offer_round_def surely_claimed_def surely_declined_def)
next
  case (Inr c)
  then show ?thesis by (cases c) (simp_all add: offer_round_def surely_claimed_def surely_declined_def claim_outcome_def)
qed

lemma offer_rounds:
  assumes "fold (offer_round p r mode timing) sus (l, c, u) = (l', claimed, unknown)"
  shows "(offered l' su \<longleftrightarrow> offered l su \<or> su \<in> set sus)
    \<and> (claimed \<longleftrightarrow> c \<or> (\<exists>su \<in> set sus. surely_claimed p su))
    \<and> (unknown = [] \<longleftrightarrow> u = [] \<and> (\<forall>su \<in> set sus. surely_claimed p su \<or> surely_declined p su))"
  using assms
proof (induction sus arbitrary: l c u)
  case (Cons x sus)
  obtain u' where r: "offer_round p r mode timing x (l, c, u) = (l @ [Offered x r mode timing], c \<or> surely_claimed p x, u')"
    and u: "u' = [] \<longleftrightarrow> u = [] \<and> (surely_claimed p x \<or> surely_declined p x)"
    using offer_round_answer by blast
  from Cons.prems have "fold (offer_round p r mode timing) sus (l @ [Offered x r mode timing], c \<or> surely_claimed p x, u')
      = (l', claimed, unknown)" by (simp add: r)
  from Cons.IH [OF this] show ?case unfolding u by auto
qed simp

lemma offer_all_sound:
  assumes "offer_all p r mode timing sus l = (l', claimed, unknown)"
  shows "offered l' su \<longleftrightarrow> offered l su \<or> su \<in> set sus"
    and "claimed \<longleftrightarrow> (\<exists>su \<in> set sus. surely_claimed p su)"
    and "unknown = [] \<longleftrightarrow> (\<forall>su \<in> set sus. surely_claimed p su \<or> surely_declined p su)"
  using offer_rounds [OF assms [unfolded offer_all_def]] by simp_all

lemma unknown_raise_sound: "unknown_raise kind u \<noteq> ProvedNoEffect m"
  by (simp add: unknown_raise_def)

text \<open>A raised proof of no effect is right about everything offered so far.\<close>

definition raised_sound :: "dispatch_ports \<Rightarrow> 'a dispatching \<Rightarrow> bool" where
  "raised_sound p c = (\<forall>m. snd c = Inl (ProvedNoEffect m) \<longrightarrow> (\<forall>su. offered (fst c) su \<longrightarrow> surely_declined p su))"

lemma raised_soundI: "(\<And>m. snd c \<noteq> Inl (ProvedNoEffect m)) \<Longrightarrow> raised_sound p c"
  by (simp add: raised_sound_def)

lemma sound_bind:
  assumes "raised_sound p r" and "\<And>l x. r = (l, Inr x) \<Longrightarrow> sound_so_far p (k l x)"
  shows "sound_so_far p (bindc r k)"
proof (cases r)
  case (Pair l c)
  show ?thesis
  proof (cases c)
    case (Inl x)
    then show ?thesis using assms(1) Pair by (cases x) (simp_all add: raised_sound_def sound_so_far_def)
  next
    case (Inr v)
    then show ?thesis using assms(2) Pair by simp
  qed
qed

lemma raised_bind:
  assumes "raised_sound p r" and "\<And>l x. r = (l, Inr x) \<Longrightarrow> raised_sound p (k l x)"
  shows "raised_sound p (bindc r k)"
proof (cases r)
  case (Pair l c)
  show ?thesis using assms Pair by (cases c) (simp_all add: raised_sound_def)
qed

lemma cancelling_result: "cancelling p k timing c = (l, Inr v) \<Longrightarrow> c = (l, Inr v)"
  by (auto simp: cancelling_def bindc_def split: prod.splits sum.splits)

lemma cancelling_sound:
  assumes "only_surfaces_prove p" and "raised_sound p c"
  shows "raised_sound p (cancelling p k timing c)"
proof (cases c)
  case (Pair l x)
  show ?thesis
  proof (cases x)
    case (Inl y)
    obtain l' z where t: "cancel_timer p k timing l = (l', z)" by force
    have "proves_nothing (dp_cancel p)" using assms(1) by (simp add: only_surfaces_prove_def)
    note cancel_timer_sound [OF this, of k timing l, unfolded t fst_conv snd_conv]
    then show ?thesis using assms(2) Pair Inl t by (cases z) (simp_all add: cancelling_def raised_sound_def)
  next
    case (Inr v)
    then show ?thesis using Pair by (simp add: cancelling_def raised_sound_def)
  qed
qed

lemma route_raised:
  assumes "\<And>su'. offered l su' \<Longrightarrow> surely_declined p su'"
  shows "raised_sound p (ask_port l (Offered su r mode timing) (dp_route p su))"
  using assms by (auto simp: raised_sound_def ask_port_def surely_declined_def)

lemma claim_raised: "raised_sound p (l, claim_outcome c)"
  by (rule raised_soundI) (simp add: claim_outcome_known)

lemma declined_by: "dp_route p su = Inr c \<Longrightarrow> claim_outcome c = Inr False \<Longrightarrow> surely_declined p su"
  by (simp add: surely_declined_def)

lemma claimed_by: "dp_route p su = Inr c \<Longrightarrow> claim_outcome c = Inr True \<Longrightarrow> surely_claimed p su"
  by (simp add: surely_claimed_def claim_outcome_known)

lemma port_raised: "proves_nothing answer \<Longrightarrow> raised_sound p (ask_port l ev answer)"
  by (rule raised_soundI) (simp add: ask_port_def proves_nothing_iff)

lemma ask_port_result: "ask_port l ev answer = (l', Inr x) \<longleftrightarrow> l' = l @ [ev] \<and> answer = Inr x"
  by (auto simp: ask_port_def)

lemma web_then_feishu_sound:
  assumes "\<And>su. offered l su \<Longrightarrow> surely_declined p su"
  shows "raised_sound p (web_then_feishu p r timing l)"
  unfolding web_then_feishu_def offer_feishu_def
proof (rule raised_bind [OF route_raised])
  fix l1 claim
  assume 1: "ask_port l (Offered Web r SingleSurface timing) (dp_route p Web) = (l1, Inr claim)"
  show "raised_sound p (bindc (l1, claim_outcome claim) (\<lambda>l c. if c then (l, Inr claim)
      else ask_port l (Offered Feishu r SingleSurface timing) (dp_route p Feishu)))"
  proof (rule raised_bind [OF claim_raised])
    fix l2 c
    assume 2: "(l1, claim_outcome claim) = (l2, Inr c)"
    show "raised_sound p (if c then (l2, Inr claim) else ask_port l2 (Offered Feishu r SingleSurface timing) (dp_route p Feishu))"
    proof (cases c)
      case False
      have "surely_declined p su" if "offered l2 su" for su
        using that assms 1 2 False declined_by [of p Web claim] by (auto simp: ask_port_result)
      then show ?thesis using False by (simp add: route_raised)
    qed (simp add: raised_soundI)
  qed
qed (use assms in blast)

text \<open>After the two surfaces: who was offered, and whose claim is returned.\<close>

lemma web_then_feishu_result:
  assumes "web_then_feishu p r timing l = (l', Inr claim)"
  shows "claim_outcome claim = Inr True \<Longrightarrow> \<exists>su. offered l' su \<and> surely_claimed p su"
    and "claim_outcome claim = Inr False \<Longrightarrow> offered l' su \<Longrightarrow> offered l su \<or> surely_declined p su"
  using assms declined_by [of p] claimed_by [of p]
  unfolding web_then_feishu_def offer_feishu_def
  by (auto simp: bindc_eq_Inr ask_port_result split: if_splits)

lemma final_verdict_sound:
  assumes "claim_outcome claim = Inr True \<Longrightarrow> \<exists>su. offered l su \<and> surely_claimed p su"
    and "\<And>su. claim_outcome claim = Inr False \<Longrightarrow> offered l su \<Longrightarrow> surely_declined p su"
  shows "sound_so_far p (bindc (l, claim_outcome claim) (\<lambda>l c. if c then (l, Inr ()) else (l, Inl (ProvedNoEffect m))))"
  by (rule sound_bind [OF claim_raised]) (use assms in \<open>auto simp: sound_so_far_def\<close>)

lemma single_sound:
  assumes p: "only_surfaces_prove p" and l: "\<And>su. \<not> offered l su"
  shows "sound_so_far p (dispatch_single H p r l)"
  unfolding dispatch_single_def Let_def
proof (rule sound_bind [OF route_raised])
  fix l1 fc
  assume 1: "ask_port l (Offered Fcodex r SingleSurface None) (dp_route p Fcodex) = (l1, Inr fc)"
  let ?k = "sr_request_key (H r)"
  let ?tail = "\<lambda>l timing. bindc (cancelling p ?k timing (web_then_feishu p r timing l)) (\<lambda>l claim.
      bindc (cancel_unclaimed_timer p ?k timing l) (\<lambda>l _. bindc (l, claim_outcome claim)
        (\<lambda>l c. if c then (l, Inr ()) else (l, Inl (ProvedNoEffect ''no surface retained the server request'')))))"
  have tail: "sound_so_far p (?tail l2 timing)" if d: "\<And>su. offered l2 su \<Longrightarrow> surely_declined p su" for l2 timing
  proof (rule sound_bind [OF cancelling_sound [OF p web_then_feishu_sound [OF d]]])
    fix l3 claim
    assume "cancelling p ?k timing (web_then_feishu p r timing l2) = (l3, Inr claim)"
    then have w: "web_then_feishu p r timing l2 = (l3, Inr claim)" by (rule cancelling_result)
    show "sound_so_far p (bindc (cancel_unclaimed_timer p ?k timing l3) (\<lambda>l _. bindc (l, claim_outcome claim)
        (\<lambda>l c. if c then (l, Inr ()) else (l, Inl (ProvedNoEffect ''no surface retained the server request'')))))"
      by (rule sound_after_cancel [OF p], rule final_verdict_sound) (use web_then_feishu_result [OF w] d in \<open>auto\<close>)
  qed
  show "sound_so_far p (bindc (l1, claim_outcome fc) (\<lambda>l c. if c then (l, Inr ())
      else bindc (ask_port l (Scheduled ?k (wants_auto_resolution (H r))) (dp_schedule p)) ?tail))"
  proof (rule sound_bind [OF claim_raised])
    fix l2 c
    assume 2: "(l1, claim_outcome fc) = (l2, Inr c)"
    show "sound_so_far p (if c then (l2, Inr ())
        else bindc (ask_port l2 (Scheduled ?k (wants_auto_resolution (H r))) (dp_schedule p)) ?tail)"
    proof (cases c)
      case True
      then show ?thesis using 1 2 claimed_by [of p Fcodex fc] by (auto simp: ask_port_result sound_so_far_def)
    next
      case False
      have d: "surely_declined p su" if "offered l2 su" for su
        using that 1 2 False l declined_by [of p Fcodex fc] by (auto simp: ask_port_result)
      have "sound_so_far p (bindc (ask_port l2 (Scheduled ?k (wants_auto_resolution (H r))) (dp_schedule p)) ?tail)"
        by (rule sound_bind [OF port_raised tail])
          (use p d in \<open>auto simp: only_surfaces_prove_def ask_port_result\<close>)
      then show ?thesis using False by simp
    qed
  qed
qed (use l in blast)

lemma unknown_verdict_sound: "sound_so_far p (l, Inl (unknown_raise kind u))"
  by (cases "unknown_raise kind u") (simp_all add: sound_so_far_def unknown_raise_sound)

lemma approval_sound: "sound_so_far p (dispatch_shared_approval p r l)" if "\<And>su. \<not> offered l su"
proof -
  obtain l' c u where o: "offer_all p r SharedApproval None [Fcodex, Web, Feishu] l = (l', c, u)" by (metis prod_cases3)
  note d = offer_all_sound [OF o]
  show ?thesis
  proof (cases "u = []")
    case True
    then have "\<And>su. offered l' su \<Longrightarrow> surely_claimed p su \<or> surely_declined p su" using d that by auto
    then show ?thesis using o d that True
      by (auto simp: dispatch_shared_approval_def sound_so_far_def)
  qed (use o unknown_verdict_sound in \<open>simp add: dispatch_shared_approval_def\<close>)
qed

lemma last_resort_sound:
  assumes p: "only_surfaces_prove p" and nc: "\<not> claimed \<Longrightarrow> (\<And>su. offered l su \<Longrightarrow> surely_declined p su)"
  shows "raised_sound p (last_resort p k r timing claimed l)"
proof (cases claimed)
  case False
  have "raised_sound p (bindc (offer_feishu p r timing l) (\<lambda>l claim. (l, claim_outcome claim)))"
    unfolding offer_feishu_def by (rule raised_bind [OF route_raised claim_raised]) (use nc False in blast)
  then show ?thesis using False cancelling_sound [OF p] by (simp add: last_resort_def)
qed (simp add: last_resort_def raised_soundI)

lemma last_resort_result:
  assumes "last_resort p k r timing claimed l = (l', Inr c)"
  shows "c \<Longrightarrow> claimed \<or> (offered l' Feishu \<and> surely_claimed p Feishu)"
    and "offered l su \<Longrightarrow> offered l' su"
    and "\<not> c \<Longrightarrow> \<not> claimed \<and> (offered l' su \<longrightarrow> offered l su \<or> surely_declined p su)"
proof -
  have "\<not> claimed \<Longrightarrow> bindc (offer_feishu p r timing l) (\<lambda>l claim. (l, claim_outcome claim)) = (l', Inr c)"
    using assms by (auto simp: last_resort_def dest: cancelling_result)
  then have f: "\<not> claimed \<Longrightarrow> \<exists>claim. dp_route p Feishu = Inr claim \<and> claim_outcome claim = Inr c
      \<and> l' = l @ [Offered Feishu r SingleSurface timing]"
    by (auto simp: bindc_eq_Inr offer_feishu_def ask_port_result)
  have t: "claimed \<Longrightarrow> l' = l \<and> c" using assms by (auto simp: last_resort_def)
  show "c \<Longrightarrow> claimed \<or> (offered l' Feishu \<and> surely_claimed p Feishu)"
    using f claimed_by [of p Feishu] by auto
  show "offered l su \<Longrightarrow> offered l' su" using f t by (cases claimed) auto
  show "\<not> c \<Longrightarrow> \<not> claimed \<and> (offered l' su \<longrightarrow> offered l su \<or> surely_declined p su)"
    using f t declined_by [of p Feishu] by (cases claimed) auto
qed

lemma interaction_sound:
  assumes p: "only_surfaces_prove p" and l: "\<And>su. \<not> offered l su"
  shows "sound_so_far p (dispatch_shared_interaction H p r l)"
  unfolding dispatch_shared_interaction_def Let_def
proof (rule sound_bind [OF port_raised])
  let ?k = "sr_request_key (H r)"
  fix l1 timing
  assume 1: "ask_port l (Scheduled ?k (wants_auto_resolution (H r))) (dp_schedule p) = (l1, Inr timing)"
  obtain l2 claimed u where o: "offer_all p r SharedInteraction timing [Fcodex, Web] l1 = (l2, claimed, u)" by (metis prod_cases3)
  note d = offer_all_sound [OF o]
  have l1: "\<not> offered l1 su" for su using 1 l by (auto simp: ask_port_result)
  have u1: "sound_so_far p (bindc (cancel_unclaimed_timer p ?k timing l2) (\<lambda>l _. (l, Inl (unknown_raise ''interaction'' u))))"
    by (rule sound_after_cancel [OF p unknown_verdict_sound])
  have "sound_so_far p (bindc (last_resort p ?k r timing claimed l2) (\<lambda>l claimed.
      bindc (cancel_unclaimed_timer p ?k timing l) (\<lambda>l _. if claimed then (l, Inr ())
        else (l, Inl (ProvedNoEffect ''no surface retained the shared interaction request'')))))" if "u = []"
  proof (rule sound_bind [OF last_resort_sound [OF p]])
    show "surely_declined p su" if "\<not> claimed" "offered l2 su" for su
      using that \<open>u = []\<close> d l1 by auto
    fix l3 c
    assume r3: "last_resort p ?k r timing claimed l2 = (l3, Inr c)"
    note lr = last_resort_result [OF r3]
    have yes: "\<exists>su. offered l3 su \<and> surely_claimed p su" if c
    proof (cases claimed)
      case True
      then obtain su where "su \<in> set [Fcodex, Web]" "surely_claimed p su" using d(2) by blast
      then show ?thesis using d(1) lr(2) by blast
    qed (use lr(1) that in blast)
    have no: "surely_declined p su" if "\<not> c" "offered l3 su" for su
      using lr(3) [OF that(1), of su] that(2) d l1 \<open>u = []\<close> by auto
    show "sound_so_far p (bindc (cancel_unclaimed_timer p ?k timing l3) (\<lambda>l _. if c then (l, Inr ())
        else (l, Inl (ProvedNoEffect ''no surface retained the shared interaction request''))))"
      by (rule sound_after_cancel [OF p]) (use yes no in \<open>cases c; auto simp: sound_so_far_def\<close>)
  qed
  then show "sound_so_far p (case offer_all p r SharedInteraction timing [Fcodex, Web] l1 of (l, claimed, unknown) \<Rightarrow>
      if unknown \<noteq> []
      then bindc (cancel_unclaimed_timer p ?k timing l) (\<lambda>l _. (l, Inl (unknown_raise ''interaction'' unknown)))
      else bindc (last_resort p ?k r timing claimed l) (\<lambda>l claimed.
             bindc (cancel_unclaimed_timer p ?k timing l) (\<lambda>l _. if claimed then (l, Inr ())
               else (l, Inl (ProvedNoEffect ''no surface retained the shared interaction request'')))))"
    using u1 by (simp add: o)
qed (use p in \<open>simp add: only_surfaces_prove_def\<close>)

lemma dispatch_once_sound:
  assumes p: "only_surfaces_prove p"
  shows "sound_so_far p (dispatch_once H p r)"
  unfolding dispatch_once_def
proof (rule sound_bind)
  let ?a = "if sr_method (H r) \<in> shared_approval_methods then ask_port [] (AskShareApproval r) (dp_share_approval p)
    else ([], Inr False)"
  show "raised_sound p ?a" using p by (auto simp: only_surfaces_prove_def intro: port_raised raised_soundI)
  fix l a
  assume "?a = (l, Inr a)"
  then have l: "\<not> offered l su" for su by (auto simp: ask_port_result split: if_splits)
  have "sound_so_far p (bindc (ask_port l (AskShareDesktop r) (dp_share_desktop p)) (\<lambda>l desktop.
      if desktop then dispatch_shared_interaction H p r l else dispatch_single H p r l))"
    by (rule sound_bind [OF port_raised])
      (use p l in \<open>auto simp: only_surfaces_prove_def ask_port_result intro!: interaction_sound single_sound\<close>)
  then show "sound_so_far p (if a then dispatch_shared_approval p r l
      else bindc (ask_port l (AskShareDesktop r) (dp_share_desktop p)) (\<lambda>l desktop.
        if desktop then dispatch_shared_interaction H p r l else dispatch_single H p r l))"
    using approval_sound l by simp
qed

section \<open>Timers\<close>

text \<open>Nobody cancelled a timer so far.\<close>

definition no_cancel :: "dispatch_event list \<Rightarrow> bool" where
  "no_cancel l = list_all (\<lambda>ev. case ev of TimerCancelled k t \<Rightarrow> False | _ \<Rightarrow> True) l"

lemma no_cancel_simps [simp]:
  "no_cancel []" "no_cancel (l @ l') \<longleftrightarrow> no_cancel l \<and> no_cancel l'"
  "no_cancel (AskShareApproval r # l) = no_cancel l"
  "no_cancel (AskShareDesktop r # l) = no_cancel l"
  "no_cancel (Offered su r mode timing # l) = no_cancel l"
  "no_cancel (Scheduled k b # l) = no_cancel l"
  "no_cancel (AskPending su k # l) = no_cancel l"
  "no_cancel (TimerCancelled k t # l) = False"
  by (simp_all add: no_cancel_def)

text \<open>
  The judgement of a dispatch from its schedule on, where \<open>pending\<close> is what the two local
  projections answer.
\<close>

definition timer_settled :: "string \<Rightarrow> timing \<Rightarrow> bool \<Rightarrow> 'a dispatching \<Rightarrow> bool" where
  "timer_settled k t pending c =
     (if pending then (case snd c of Inl x \<Rightarrow> True | Inr v \<Rightarrow> no_cancel (fst c))
      else TimerCancelled k t \<in> set (fst c))"

lemma cancel_unclaimed_result:
  assumes "dp_web_has_pending p = Inr web" and "dp_feishu_has_pending p = Inr feishu"
    and "cancel_unclaimed_timer p k (Some t) l = (l', c)"
  shows "web \<or> feishu \<Longrightarrow> c = Inr () \<and> (no_cancel l \<longrightarrow> no_cancel l')"
    and "\<not> web \<Longrightarrow> \<not> feishu \<Longrightarrow> TimerCancelled k t \<in> set l'"
proof -
  show "web \<or> feishu \<Longrightarrow> c = Inr () \<and> (no_cancel l \<longrightarrow> no_cancel l')"
    using assms by (auto simp: cancel_unclaimed_timer_def ask_port_def split: if_splits)
  show "\<not> web \<Longrightarrow> \<not> feishu \<Longrightarrow> TimerCancelled k t \<in> set l'"
    using assms by (cases "dp_cancel p") (auto simp: cancel_unclaimed_timer_def cancel_timer_def ask_port_def)
qed

lemma settled_after_unclaimed:
  assumes "dp_web_has_pending p = Inr web" and "dp_feishu_has_pending p = Inr feishu" and "no_cancel l"
    and "\<And>l. fst (g l) = l"
  shows "timer_settled k t (web \<or> feishu) (bindc (cancel_unclaimed_timer p k (Some t) l) (\<lambda>l _. g l))"
proof -
  obtain l' c where c: "cancel_unclaimed_timer p k (Some t) l = (l', c)" by force
  note r = cancel_unclaimed_result [OF assms(1,2) c]
  show ?thesis
    using r assms(3) assms(4) [of l'] by (cases c) (auto simp: timer_settled_def c split: sum.split)
qed

lemma settled_after_cancelling:
  assumes "dp_web_has_pending p = Inr web" and "dp_feishu_has_pending p = Inr feishu"
    and "\<And>l' v. c = (l', Inr v) \<Longrightarrow> timer_settled k t pending (g l' v)"
  shows "timer_settled k t pending (bindc (cancelling p k (Some t) c) g)"
proof (cases c)
  case (Pair l x)
  show ?thesis
  proof (cases x)
    case (Inl y)
    then show ?thesis
      using Pair by (cases "dp_cancel p") (simp_all add: cancelling_def cancel_timer_def ask_port_def timer_settled_def)
  next
    case (Inr v)
    then show ?thesis using Pair assms(3) by (simp add: cancelling_def)
  qed
qed

lemma web_then_feishu_log: "web_then_feishu p r timing l = (l', c) \<Longrightarrow> no_cancel l \<Longrightarrow> no_cancel l'"
  unfolding web_then_feishu_def offer_feishu_def ask_port_def bindc_def
  by (auto split: sum.splits if_splits)

lemma offer_all_log: "offer_all p r mode timing sus l = (l', c, u) \<Longrightarrow> no_cancel l \<Longrightarrow> no_cancel l'"
proof -
  have "fold (offer_round p r mode timing) sus (l, c0, u0) = (l', c, u) \<Longrightarrow> no_cancel l \<Longrightarrow> no_cancel l'" for l c0 u0
  proof (induction sus arbitrary: l c0 u0)
    case (Cons x sus)
    obtain c1 u1 where r: "offer_round p r mode timing x (l, c0, u0) = (l @ [Offered x r mode timing], c1, u1)"
      using offer_round_answer by blast
    show ?case using Cons.IH [of "l @ [Offered x r mode timing]" c1 u1] Cons.prems r by simp
  qed simp
  then show "offer_all p r mode timing sus l = (l', c, u) \<Longrightarrow> no_cancel l \<Longrightarrow> no_cancel l'"
    by (simp add: offer_all_def)
qed

lemma verdict_log: "fst (bindc (l, claim_outcome claim) (\<lambda>l c. if c then (l, Inr ()) else (l, Inl x))) = l"
  by (cases claim) (simp_all add: claim_outcome_def)

definition schedules :: "dispatch_event list \<Rightarrow> bool" where
  "schedules l = list_ex (\<lambda>ev. case ev of Scheduled k b \<Rightarrow> True | _ \<Rightarrow> False) l"

lemma schedules_simps [simp]:
  "\<not> schedules []" "schedules (l @ l') \<longleftrightarrow> schedules l \<or> schedules l'"
  "schedules (AskShareApproval r # l) = schedules l"
  "schedules (AskShareDesktop r # l) = schedules l"
  "schedules (Offered su r mode timing # l) = schedules l"
  "schedules (Scheduled k b # l)"
  by (simp_all add: schedules_def)

lemma single_timer:
  assumes "dp_schedule p = Inr (Some t)" and w: "dp_web_has_pending p = Inr web" "dp_feishu_has_pending p = Inr feishu"
    and "no_cancel l" and "\<not> schedules l" and "schedules (fst (dispatch_single H p r l))"
  shows "timer_settled (sr_request_key (H r)) t (web \<or> feishu) (dispatch_single H p r l)"
proof -
  let ?k = "sr_request_key (H r)"
  let ?tail = "\<lambda>l timing. bindc (cancelling p ?k timing (web_then_feishu p r timing l)) (\<lambda>l claim.
      bindc (cancel_unclaimed_timer p ?k timing l) (\<lambda>l _. bindc (l, claim_outcome claim)
        (\<lambda>l c. if c then (l, Inr ()) else (l, Inl (ProvedNoEffect ''no surface retained the server request'')))))"
  have tail: "timer_settled ?k t (web \<or> feishu) (?tail l' (Some t))" if "no_cancel l'" for l'
    by (rule settled_after_cancelling [OF w], rule settled_after_unclaimed [OF w _ verdict_log])
      (use that in \<open>auto dest: web_then_feishu_log\<close>)
  obtain fc where f: "dp_route p Fcodex = Inr fc" "claim_outcome fc = Inr False"
    using assms(5,6) by (auto simp: dispatch_single_def ask_port_def bindc_def split: sum.splits if_splits)
  show ?thesis
    using tail [of "l @ [Offered Fcodex r SingleSurface None, Scheduled ?k (wants_auto_resolution (H r))]"] assms(1,4) f
    by (simp add: dispatch_single_def ask_port_def Let_def)
qed

lemma interaction_timer:
  assumes "dp_schedule p = Inr (Some t)" and w: "dp_web_has_pending p = Inr web" "dp_feishu_has_pending p = Inr feishu"
    and "no_cancel l"
  shows "timer_settled (sr_request_key (H r)) t (web \<or> feishu) (dispatch_shared_interaction H p r l)"
proof -
  let ?k = "sr_request_key (H r)"
  let ?l = "l @ [Scheduled ?k (wants_auto_resolution (H r))]"
  obtain l2 claimed u where o: "offer_all p r SharedInteraction (Some t) [Fcodex, Web] ?l = (l2, claimed, u)" by (metis prod_cases3)
  have l2: "no_cancel l2" using offer_all_log [OF o] assms(4) by simp
  have "timer_settled ?k t (web \<or> feishu) (bindc (cancel_unclaimed_timer p ?k (Some t) l2)
      (\<lambda>l _. (l, Inl (unknown_raise ''interaction'' u) :: dispatch_exn + unit)))"
    by (rule settled_after_unclaimed [OF w l2]) simp
  moreover have "timer_settled ?k t (web \<or> feishu) (bindc (last_resort p ?k r (Some t) claimed l2) (\<lambda>l claimed.
      bindc (cancel_unclaimed_timer p ?k (Some t) l) (\<lambda>l _. if claimed then (l, Inr ())
        else (l, Inl (ProvedNoEffect ''no surface retained the shared interaction request'')))))"
  proof (cases claimed)
    case True
    then show ?thesis using settled_after_unclaimed [OF w l2, of "\<lambda>l. (l, Inr ())"] by (simp add: last_resort_def)
  next
    case False
    have "no_cancel l'" if "bindc (offer_feishu p r (Some t) l2) (\<lambda>l claim. (l, claim_outcome claim)) = (l', Inr c)" for l' c
      using that l2 by (auto simp: bindc_eq_Inr offer_feishu_def ask_port_result)
    then show ?thesis using False
      by (auto simp: last_resort_def intro!: settled_after_cancelling [OF w] settled_after_unclaimed [OF w])
  qed
  ultimately show ?thesis using assms(1) o by (simp add: dispatch_shared_interaction_def ask_port_def Let_def)
qed

section \<open>Properties\<close>

text \<open>
  C10. A receipt is what the surfaces said: a dispatch is reported as committed only when a
  surface that was asked returned its claim, and as certainly without effect only when every
  surface that was asked refused or proved that nothing happened. In every other case, a claim
  next to a failure included, the outcome is reported as unknown.
\<close>

theorem dispatch_receipt_sound:
  assumes "only_surfaces_prove p" and "dispatch H p r = (l, receipt)"
  shows "(dr_outcome receipt = DispatchCommitted \<longrightarrow> (\<exists>su. offered l su \<and> surely_claimed p su))
    \<and> (dr_outcome receipt = KnownNotCommitted \<longrightarrow> (\<forall>su. offered l su \<longrightarrow> surely_declined p su))"
proof -
  obtain l' c where o: "dispatch_once H p r = (l', c)" by force
  have s: "sound_so_far p (l', c)" using dispatch_once_sound [OF assms(1), of H r] o by simp
  note d = assms(2) [unfolded dispatch_def o]
  show ?thesis
    using s d by (auto simp: sound_so_far_def receipt_not_committed_def receipt_committed_def receipt_unknown_def
        split: sum.splits dispatch_exn.splits)
qed

text \<open>
  No orphan timer and no lost one: when a dispatch scheduled an automatic resolution and
  neither local projection holds the request afterwards, the timer is cancelled, on every
  path, raised exceptions included; when the dispatch committed and one of them holds the
  request, the timer is left alone.
\<close>

theorem auto_resolution_timer_settled:
  assumes "dispatch H p r = (l, receipt)" and "schedules l" and "dp_schedule p = Inr (Some t)"
    and "dp_web_has_pending p = Inr web" and "dp_feishu_has_pending p = Inr feishu"
  shows "(\<not> web \<and> \<not> feishu \<longrightarrow> TimerCancelled (sr_request_key (H r)) t \<in> set l)
    \<and> (dr_outcome receipt = DispatchCommitted \<and> (web \<or> feishu) \<longrightarrow> no_cancel l)"
proof -
  have log: "fst (dispatch_once H p r) = l"
    and ok: "dr_outcome receipt = DispatchCommitted \<Longrightarrow> snd (dispatch_once H p r) = Inr ()"
    using assms(1) by (auto simp: dispatch_def receipt_not_committed_def receipt_unknown_def split: prod.splits sum.splits dispatch_exn.splits)
  have "timer_settled (sr_request_key (H r)) t (web \<or> feishu) (dispatch_once H p r)"
  proof -
    have approval: "\<not> schedules (fst (dispatch_shared_approval p r l'))" if "\<not> schedules l'" for l'
      using that by (auto simp: dispatch_shared_approval_def offer_all_def offer_round_def split: sum.splits dispatch_exn.splits)
    let ?a = "if sr_method (H r) \<in> shared_approval_methods then ask_port [] (AskShareApproval r) (dp_share_approval p)
      else ([], Inr False)"
    obtain l0 a where a: "?a = (l0, a)" by force
    then have l0: "no_cancel l0" "\<not> schedules l0" by (auto simp: ask_port_def split: if_splits)
    show ?thesis
      using assms(2) a l0 approval [of l0] single_timer [OF assms(3,4,5), of "l0 @ [AskShareDesktop r]" H r]
        interaction_timer [OF assms(3,4,5), of "l0 @ [AskShareDesktop r]" H r]
      unfolding dispatch_once_def log [symmetric]
      by (cases a; cases "dp_share_desktop p") (auto simp: ask_port_def split: if_splits)
  qed
  then show ?thesis using log ok by (auto simp: timer_settled_def split: if_splits)
qed

section \<open>Witnesses\<close>

text \<open>A desktop request: fcodex fails, the browser holds the request and its timer.\<close>

definition demo_surfaces :: dispatch_ports where
  "demo_surfaces =
     \<lparr>dp_share_approval = Inr False, dp_share_desktop = Inr False,
      dp_route = (\<lambda>su. if su = Web then Inr SurfaceClaimed else Inr SurfaceDeclined),
      dp_schedule = Inr (Some 7), dp_web_has_pending = Inr True, dp_feishu_has_pending = Inr False,
      dp_cancel = Inr True\<rparr>"

definition demo_log :: "dispatch_event list" where
  "demo_log = [AskShareDesktop 0, Offered Fcodex 0 SingleSurface None, Scheduled ''integer:1'' False,
     Offered Web 0 SingleSurface (Some 7), AskPending Web ''integer:1'']"

lemma demo_dispatch: "dispatch demo_identities demo_surfaces 0 = (demo_log, receipt_committed)"
  by (simp add: dispatch_def dispatch_once_def dispatch_single_def demo_surfaces_def demo_identities_def demo_log_def
      shared_approval_methods_def COMMAND_APPROVAL_def FILE_APPROVAL_def PERMISSIONS_APPROVAL_def ask_port_def
      claim_outcome_def cancelling_def web_then_feishu_def cancel_unclaimed_timer_def wants_auto_resolution_def
      USER_INPUT_def Let_def)

theorem dispatch_receipt_sound_witness: "\<exists>su. offered demo_log su \<and> surely_claimed demo_surfaces su"
proof -
  have "only_surfaces_prove demo_surfaces"
    by (simp add: only_surfaces_prove_def proves_nothing_def demo_surfaces_def)
  from dispatch_receipt_sound [OF this demo_dispatch] show ?thesis by (simp add: receipt_committed_def)
qed

theorem auto_resolution_timer_settled_witness: "no_cancel demo_log"
proof -
  have "schedules demo_log" by (simp add: demo_log_def)
  from auto_resolution_timer_settled [OF demo_dispatch this, of 7 True False] show ?thesis
    by (simp add: demo_surfaces_def receipt_committed_def)
qed

end
