(* ===== verification/Request_Coordinator.thy ===== *)
theory Request_Coordinator
  imports Surface_Dispatch
begin

text \<open>
  The owner of the app server's callbacks (\<open>bot/server_request_coordinator.py\<close>): it registers a
  callback, has the dispatcher of \<open>Surface_Dispatch\<close> project it to the surfaces, sends at most one
  response for it, lets the fcodex proxy claim that response instead, and removes every local
  projection when upstream resolves the callback.

  The coordinator runs on the runtime loop, one call at a time; but a surface may call it back
  while it dispatches a request, and the adapter while a response is being sent. An operation
  therefore takes the operations that run \<open>during\<close> its port call, which may again contain
  operations. The port calls are events of a log; the log also records when the connection epoch
  changes.

  Identities are objects compared with \<open>is\<close>: the \<open>n\<close>-th object the coordinator constructs is the
  reference \<open>n\<close>, and \<open>H n\<close> are its fields.
\<close>

section \<open>State, ports, reports\<close>

datatype send_outcome = SendOk | SendPreSendError | SendFailed

datatype removal_outcome = RemovalInvalid | RemovalNotResolved | RemovalMissing | RemovalMismatch | RemovalDone

record local_removal =
  lr_outcome :: removal_outcome
  lr_request_key :: string
  lr_thread_id :: string
  lr_root_thread_id :: string

datatype coord_event =
    EpochChanged
  | Dispatched nat
  | Sent nat send_outcome
  | ProxyClaimed nat
  | AutoCancelled string
  | RemovedFrom surface nat
  | RootReconciled string
  | WebRevoked nat
  | AutoEpochInvalidated
  | AutoShutdown

text \<open>
  The next reference is \<open>co_next\<close>. The ports of a resolution: the answer of each surface to the
  removal of an identity, \<open>None\<close> when it raises.
\<close>

record coordinator =
  co_registry :: server_request_registry
  co_next :: nat
  co_log :: "coord_event list"

type_synonym removal_ports = "surface \<Rightarrow> nat \<Rightarrow> local_removal option"

datatype routing_outcome =
    RouteCommitted | RouteReplayed | RouteResponsePending | RouteSuppressed | RouteConflict
  | RouteDispatchFailed | RouteEpochMismatch

record routing_report =
  rr_outcome :: routing_outcome
  rr_request_key :: string
  rr_thread_id :: string
  rr_dispatch :: "dispatch_outcome option"
  rr_phase :: "response_phase option"
  rr_revoked :: bool

record resolution_report =
  rs_outcome :: settlement_outcome
  rs_request_key :: string
  rs_thread_id :: string
  rs_removals :: "local_removal list"
  rs_roots :: "string set"

datatype response_outcome =
    RespSubmitted | RespSuperseded | RespNotPending | RespConflict | RespProcessing | RespUnknown

record response_report =
  rp_outcome :: response_outcome
  rp_request_key :: string
  rp_thread_id :: string

text \<open>The exceptions of the coordinator; those of the registry pass through.\<close>

datatype coord_exn =
    CoordValueError
  | CoordRuntimeError
  | SendRaised send_outcome
  | ResponseSuperseded response_report
  | ResponseNotAdmitted response_report
  | PortRaised

definition of_registry_exn :: "registry_exn \<Rightarrow> coord_exn" where
  "of_registry_exn x = (case x of RegistryValueError \<Rightarrow> CoordValueError | RegistryRuntimeError \<Rightarrow> CoordRuntimeError)"

definition new_coordinator :: "server_request_registry \<Rightarrow> coordinator" where
  "new_coordinator g = \<lparr>co_registry = g, co_next = 0, co_log = []\<rparr>"

definition tell :: "coord_event list \<Rightarrow> coordinator \<Rightarrow> coordinator" where
  "tell evs s = s\<lparr>co_log := co_log s @ evs\<rparr>"

definition with_registry :: "coordinator \<Rightarrow> server_request_registry \<Rightarrow> coordinator" where
  "with_registry s g = s\<lparr>co_registry := g\<rparr>"

text \<open>The constructor of an identity; \<open>None\<close> is \<open>ValueError\<close>. \<open>build\<close> are its parameters.\<close>

type_synonym identity_builder = "json \<Rightarrow> int \<Rightarrow> string \<Rightarrow> json \<Rightarrow> server_request_identity option"

definition new_identity :: "coordinator \<Rightarrow> coordinator \<times> nat" where
  "new_identity s = (s\<lparr>co_next := co_next s + 1\<rparr>, co_next s)"

section \<open>Epochs\<close>

definition co_activate_epoch :: "coordinator \<Rightarrow> int \<Rightarrow> coordinator \<times> (coord_exn + unit)" where
  "co_activate_epoch s generation =
     (case activate_connection_epoch (co_registry s) generation of
        (g, Inl x) \<Rightarrow> (with_registry s g, Inl (of_registry_exn x))
      | (g, Inr _) \<Rightarrow>
          (if rg_connection_generation g = rg_connection_generation (co_registry s) then (with_registry s g, Inr ())
           else (tell [EpochChanged] (with_registry s g), Inr ())))"

definition retire_connection_epoch :: "coordinator \<Rightarrow> bool \<Rightarrow> coordinator \<times> (coord_exn + nat list)" where
  "retire_connection_epoch s raises =
     (let s1 = tell [AutoEpochInvalidated] s
      in if raises then (s1, Inl PortRaised)
         else case clear_connection_epoch (co_registry s1) of
           (g, cleared) \<Rightarrow> (tell [EpochChanged] (with_registry s1 g), Inr cleared))"

definition coordinator_shutdown :: "coordinator \<Rightarrow> coordinator" where
  "coordinator_shutdown s = tell [AutoShutdown] s"

section \<open>Routing\<close>

definition routing_of :: "routing_outcome \<Rightarrow> server_request_identity \<Rightarrow> routing_report" where
  "routing_of out i =
     \<lparr>rr_outcome = out, rr_request_key = sr_request_key i, rr_thread_id = sr_thread_id i,
      rr_dispatch = None, rr_phase = None, rr_revoked = False\<rparr>"

text \<open>
  The part of \<open>route_request\<close> that decides without calling a surface: \<open>Inl\<close> is the report it
  returns, \<open>Inr\<close> the canonical identity that is dispatched.
\<close>

definition route_admission ::
  "identity_heap \<Rightarrow> server_request_registry \<Rightarrow> nat \<Rightarrow> registration_outcome \<Rightarrow> nat option
    \<Rightarrow> registry_exn + (routing_report + nat)" where
  "route_admission H g observed out identity =
     (case (out, identity) of
        (RegEpochMismatch, _) \<Rightarrow> Inr (Inl (routing_of RouteEpochMismatch (H observed)))
      | (RegResolved, _) \<Rightarrow> Inr (Inl (routing_of RouteSuppressed (H observed)))
      | (RegConflict, _) \<Rightarrow> Inr (Inl (routing_of RouteConflict (H observed)))
      | (_, None) \<Rightarrow> Inr (Inl (routing_of RouteConflict (H observed)))
      | (_, Some r) \<Rightarrow>
          bindr (response_phase_of H g r) (\<lambda>phase.
            let revoked = response_authority_is_revoked H g r
            in Inr (if revoked \<or> phase \<in> {Some PhaseProcessing, Some PhaseSubmitted, Some PhaseUnknown}
                    then Inl ((routing_of RouteResponsePending (H r))\<lparr>rr_phase := phase, rr_revoked := revoked\<rparr>)
                    else if dispatch_is_unknown H g r
                    then Inl ((routing_of RouteDispatchFailed (H r))\<lparr>rr_dispatch := Some OutcomeUnknown\<rparr>)
                    else Inr r)))"

definition finish_route ::
  "identity_heap \<Rightarrow> coordinator \<Rightarrow> nat \<Rightarrow> registration_outcome \<Rightarrow> dispatch_receipt
    \<Rightarrow> coordinator \<times> routing_report" where
  "finish_route H s r out receipt =
     (case dr_outcome receipt of
        DispatchCommitted \<Rightarrow>
          (s, (routing_of (if out = RegReplay then RouteReplayed else RouteCommitted) (H r))
                \<lparr>rr_dispatch := Some DispatchCommitted\<rparr>)
      | OutcomeUnknown \<Rightarrow>
          (with_registry s (fst (mark_dispatch_unknown H (co_registry s) r)),
           (routing_of RouteDispatchFailed (H r))\<lparr>rr_dispatch := Some OutcomeUnknown\<rparr>)
      | KnownNotCommitted \<Rightarrow>
          (s, (routing_of RouteDispatchFailed (H r))\<lparr>rr_dispatch := Some KnownNotCommitted\<rparr>))"

definition malformed_report :: routing_report where
  "malformed_report =
     \<lparr>rr_outcome = RouteConflict, rr_request_key = [], rr_thread_id = [], rr_dispatch = None, rr_phase = None,
      rr_revoked = False\<rparr>"

definition route_request ::
  "identity_builder \<Rightarrow> identity_heap \<Rightarrow> (coordinator \<Rightarrow> coordinator) \<Rightarrow> dispatch_ports \<Rightarrow> coordinator
    \<Rightarrow> int \<Rightarrow> json \<Rightarrow> string \<Rightarrow> json \<Rightarrow> coordinator \<times> (coord_exn + routing_report)" where
  "route_request build H during ports s generation request_id method params =
     (if build request_id generation method params = None then (s, Inr malformed_report)
      else case new_identity s of (s1, observed) \<Rightarrow>
        (case register H (co_registry s1) observed of (g, out, identity) \<Rightarrow>
          (let s2 = with_registry s1 g
           in case route_admission H g observed out identity of
                Inl x \<Rightarrow> (s2, Inl (of_registry_exn x))
              | Inr (Inl report) \<Rightarrow> (s2, Inr report)
              | Inr (Inr r) \<Rightarrow>
                  (case finish_route H (during (tell [Dispatched r] s2)) r out (snd (dispatch H ports r)) of
                     (s3, report) \<Rightarrow> (s3, Inr report)))))"

section \<open>Resolution\<close>

definition root_for_identity :: "server_request_identity \<Rightarrow> string" where
  "root_for_identity i = strip (sr_thread_id i)"

text \<open>One surface is asked to remove an identity: the removals reported so far, the roots affected,
  and whether this identity's root was found.\<close>

definition remove_from ::
  "removal_ports \<Rightarrow> nat \<Rightarrow> surface \<Rightarrow> local_removal list \<times> string list \<times> bool
    \<Rightarrow> local_removal list \<times> string list \<times> bool" where
  "remove_from ports r su acc =
     (case acc of (removals, roots, found) \<Rightarrow>
        (case ports su r of
           None \<Rightarrow> acc
         | Some x \<Rightarrow>
             (let root_id = strip (lr_root_thread_id x)
              in if lr_outcome x = RemovalDone \<and> root_id \<noteq> [] then (removals @ [x], roots @ [root_id], True)
                 else (removals @ [x], roots, found))))"

definition removers :: "surface list" where
  "removers = [Web, Fcodex, Feishu]"

definition remove_identity ::
  "identity_heap \<Rightarrow> removal_ports \<Rightarrow> nat \<Rightarrow> coord_event list \<times> local_removal list \<times> string list
    \<Rightarrow> coord_event list \<times> local_removal list \<times> string list" where
  "remove_identity H ports r acc =
     (case acc of (evs, removals, roots) \<Rightarrow>
        (case fold (remove_from ports r) removers (removals, roots, False) of
           (removals, roots, found) \<Rightarrow>
             (evs @ AutoCancelled (sr_request_key (H r)) # map (\<lambda>su. RemovedFrom su r) removers, removals,
              if found \<or> root_for_identity (H r) = [] then roots else roots @ [root_for_identity (H r)])))"

text \<open>The removals, the affected roots, and the calls made; exceptions are only logged.\<close>

definition remove_local_projections ::
  "identity_heap \<Rightarrow> removal_ports \<Rightarrow> coordinator \<Rightarrow> nat list \<Rightarrow> coordinator \<times> local_removal list \<times> string set" where
  "remove_local_projections H ports s identities =
     (case fold (remove_identity H ports) identities ([], [], []) of
        (evs, removals, roots) \<Rightarrow>
          (tell (evs @ map RootReconciled (sort (remdups roots))) s, removals, set roots))"

definition resolution_of :: "settlement_outcome \<Rightarrow> string \<Rightarrow> string \<Rightarrow> resolution_report" where
  "resolution_of out k t =
     \<lparr>rs_outcome = out, rs_request_key = k, rs_thread_id = t, rs_removals = [], rs_roots = {}\<rparr>"

definition handle_server_request_resolved ::
  "(pyfloat \<Rightarrow> string) \<Rightarrow> (json \<Rightarrow> string) \<Rightarrow> identity_heap \<Rightarrow> removal_ports \<Rightarrow> coordinator \<Rightarrow> jdict
    \<Rightarrow> coordinator \<times> resolution_report" where
  "handle_server_request_resolved float_repr txt H ports s params =
     (let k = optional_jsonrpc_id_key float_repr (case map_of params ''requestId'' of None \<Rightarrow> JNull | Some v \<Rightarrow> v);
          t = field_text txt (map_of params ''threadId'')
      in case settle H (co_registry s) k t of
           (g, out, identity) \<Rightarrow>
             (let s1 = with_registry s g
              in if out \<in> {SettleConflict, SettleInvalid} \<or> identity = None
                 then (tell [AutoCancelled k] s1, resolution_of out k t)
                 else case remove_local_projections H ports s1 [the identity] of
                   (s2, removals, roots) \<Rightarrow>
                     (s2, (resolution_of out k t)\<lparr>rs_removals := removals, rs_roots := roots\<rparr>)))"

definition lifecycle_methods :: "string set" where
  "lifecycle_methods =
     {''turn/started'', ''turn/completed'', ''turn/aborted'', ''thread/closed'', ''thread/archived'', ''thread/deleted''}"

definition ends_requests :: "(json \<Rightarrow> string) \<Rightarrow> string \<Rightarrow> jdict \<Rightarrow> bool" where
  "ends_requests txt event params =
     (if event = ''thread/status/changed''
      then (case map_of params ''status'' of
              Some (JObj status) \<Rightarrow> field_text txt (map_of status ''type'') \<in> {''idle'', ''notLoaded''}
            | _ \<Rightarrow> False)
      else event \<in> lifecycle_methods)"

definition handle_notification ::
  "(pyfloat \<Rightarrow> string) \<Rightarrow> (json \<Rightarrow> string) \<Rightarrow> identity_heap \<Rightarrow> removal_ports \<Rightarrow> coordinator \<Rightarrow> string \<Rightarrow> jdict
    \<Rightarrow> coordinator \<times> resolution_report option" where
  "handle_notification float_repr txt H ports s method params =
     (let event = strip method; t = field_text txt (map_of params ''threadId'')
      in if event = ''serverRequest/resolved''
         then map_prod id Some (handle_server_request_resolved float_repr txt H ports s params)
         else if \<not> ends_requests txt event params \<or> t = [] then (s, None)
         else case settle_thread H (co_registry s) t of
           (g, settled) \<Rightarrow> (fst (remove_local_projections H ports (with_registry s g) settled), None))"

section \<open>The proxy\<close>

text \<open>\<open>Inl\<close> is \<open>ValueError\<close>; the second component is the reason of a refusal or the admission.\<close>

definition claim_proxy_response ::
  "identity_builder \<Rightarrow> identity_heap \<Rightarrow> coordinator \<Rightarrow> json \<Rightarrow> string \<Rightarrow> json
    \<Rightarrow> coordinator \<times> (coord_exn + nat option \<times> (registration_outcome + admission_outcome))" where
  "claim_proxy_response build H s request_id method params =
     (let generation = rg_connection_generation (co_registry s)
      in if generation \<le> 0 then (s, Inr (None, Inl RegEpochMismatch))
         else if build request_id generation method params = None then (s, Inl CoordValueError)
         else case new_identity s of (s1, observed) \<Rightarrow>
           (case register H (co_registry s1) observed of (g, out, identity) \<Rightarrow>
             (let s2 = with_registry s1 g
              in case (out \<in> {RegNew, RegReplay}, identity) of
                   (True, Some r) \<Rightarrow>
                     (case begin_response H (co_registry s2) r of
                        (g', Inl x) \<Rightarrow> (with_registry s2 g', Inl (of_registry_exn x))
                      | (g', Inr (admission, _)) \<Rightarrow>
                          (tell (if admission = Admitted then [ProxyClaimed r] else []) (with_registry s2 g'),
                           Inr (Some r, Inr admission)))
                 | _ \<Rightarrow> (s2, Inr (None, Inl out)))))"

definition finish_proxy_response ::
  "identity_heap \<Rightarrow> coordinator \<Rightarrow> nat \<Rightarrow> finish_outcome \<Rightarrow> coordinator \<times> (coord_exn + bool)" where
  "finish_proxy_response H s r out =
     (if out = NotSent then (s, Inl CoordValueError)
      else case finish_response H (co_registry s) r out of (g, ok) \<Rightarrow> (with_registry s g, Inr ok))"

definition resolve_proxy_request ::
  "(pyfloat \<Rightarrow> string) \<Rightarrow> (json \<Rightarrow> string) \<Rightarrow> identity_builder \<Rightarrow> identity_heap \<Rightarrow> removal_ports \<Rightarrow> coordinator
    \<Rightarrow> json \<Rightarrow> string \<Rightarrow> json \<Rightarrow> coordinator \<times> (coord_exn + unit)" where
  "resolve_proxy_request float_repr txt build H ports s request_id method params =
     (let generation = rg_connection_generation (co_registry s)
      in if generation \<le> 0 then (s, Inr ())
         else if build request_id generation method params = None then (s, Inl CoordValueError)
         else case new_identity s of (s1, observed) \<Rightarrow>
           (case register H (co_registry s1) observed of (g, out, identity) \<Rightarrow>
             (let s2 = with_registry s1 g
              in if out \<in> {RegNew, RegReplay, RegResolved}
                 then (fst (handle_server_request_resolved float_repr txt H ports s2
                         [(''requestId'', request_id), (''threadId'', JStr (sr_thread_id (H observed)))]), Inr ())
                 else (s2, Inr ()))))"

section \<open>Responses\<close>

definition response_of :: "response_outcome \<Rightarrow> server_request_identity \<Rightarrow> response_report" where
  "response_of out i = \<lparr>rp_outcome = out, rp_request_key = sr_request_key i, rp_thread_id = sr_thread_id i\<rparr>"

text \<open>What a refused admission is reported as.\<close>

definition refused_outcome :: "admission_outcome \<Rightarrow> response_outcome" where
  "refused_outcome a =
     (case a of
        NotPending \<Rightarrow> RespNotPending
      | AdmissionConflict \<Rightarrow> RespConflict
      | AdmissionRevoked \<Rightarrow> RespSuperseded
      | AdmissionPhase PhaseSubmitted \<Rightarrow> RespSuperseded
      | AdmissionPhase PhaseUnknown \<Rightarrow> RespUnknown
      | _ \<Rightarrow> RespProcessing)"

definition finish_of :: "send_outcome \<Rightarrow> finish_outcome" where
  "finish_of o' = (case o' of SendOk \<Rightarrow> FinishSubmitted | SendPreSendError \<Rightarrow> NotSent | SendFailed \<Rightarrow> FinishUnknown)"

text \<open>\<open>_finish_response\<close>: a response state that changed meanwhile is a \<open>RuntimeError\<close>.\<close>

definition co_finish_response ::
  "identity_heap \<Rightarrow> coordinator \<Rightarrow> nat \<Rightarrow> finish_outcome \<Rightarrow> coordinator \<times> (coord_exn + unit)" where
  "co_finish_response H s r out =
     (case finish_response H (co_registry s) r out of
        (g, ok) \<Rightarrow> (with_registry s g, if ok then Inr () else Inl CoordRuntimeError))"

definition submit_response ::
  "identity_heap \<Rightarrow> (coordinator \<Rightarrow> coordinator) \<Rightarrow> send_outcome \<Rightarrow> coordinator \<Rightarrow> nat
    \<Rightarrow> coordinator \<times> (coord_exn + response_report)" where
  "submit_response H during outcome s r =
     (case begin_response H (co_registry s) r of
        (g, Inl x) \<Rightarrow> (with_registry s g, Inl (of_registry_exn x))
      | (g, Inr (admission, _)) \<Rightarrow>
          (let s1 = with_registry s g
           in if admission \<noteq> Admitted then (s1, Inr (response_of (refused_outcome admission) (H r)))
              else bindc (co_finish_response H (during (tell [Sent r outcome] s1)) r (finish_of outcome))
                     (\<lambda>s2 _. (s2, if outcome = SendOk then Inr (response_of RespSubmitted (H r))
                                 else Inl (SendRaised outcome)))))"

text \<open>The report of a surface whose object is not the pending one.\<close>

definition stale_response :: "identity_heap \<Rightarrow> server_request_registry \<Rightarrow> nat \<Rightarrow> response_report" where
  "stale_response H g r =
     (let k = sr_request_key (H r)
      in case active_identity g k of
           Some current \<Rightarrow> \<lparr>rp_outcome = RespConflict, rp_request_key = k, rp_thread_id = sr_thread_id (H current)\<rparr>
         | None \<Rightarrow>
             (case resolved_identity g k of
                None \<Rightarrow> \<lparr>rp_outcome = RespNotPending, rp_request_key = k, rp_thread_id = []\<rparr>
              | Some x \<Rightarrow>
                  \<lparr>rp_outcome = (if x = r then RespSuperseded else RespConflict), rp_request_key = k,
                   rp_thread_id = sr_thread_id (H x)\<rparr>))"

definition surface_result :: "response_report \<Rightarrow> coord_exn + unit" where
  "surface_result report =
     (case rp_outcome report of
        RespSubmitted \<Rightarrow> Inr ()
      | RespSuperseded \<Rightarrow> Inl (ResponseSuperseded report)
      | _ \<Rightarrow> Inl (ResponseNotAdmitted report))"

definition submit_surface_response ::
  "identity_heap \<Rightarrow> (coordinator \<Rightarrow> coordinator) \<Rightarrow> send_outcome \<Rightarrow> coordinator \<Rightarrow> nat
    \<Rightarrow> coordinator \<times> (coord_exn + unit)" where
  "submit_surface_response H during outcome s r =
     (if active_identity (co_registry s) (sr_request_key (H r)) = Some r
      then bindc (submit_response H during outcome s r) (\<lambda>s1 report. (s1, surface_result report))
      else (s, surface_result (stale_response H (co_registry s) r)))"

text \<open>The browser is told; its exception is only logged.\<close>

definition revoke_surface_response_authority :: "identity_heap \<Rightarrow> coordinator \<Rightarrow> nat \<Rightarrow> coordinator \<times> bool" where
  "revoke_surface_response_authority H s r =
     (case revoke_response_authority H (co_registry s) r of
        (g, revoked) \<Rightarrow>
          (if revoked then (tell [WebRevoked r] (with_registry s g), True) else (with_registry s g, False)))"

definition pending_request_keys_for_root :: "identity_heap \<Rightarrow> coordinator \<Rightarrow> string \<Rightarrow> string set" where
  "pending_request_keys_for_root H s root_thread_id =
     (let root_id = strip root_thread_id
      in if root_id = [] then {}
         else fst ` set (filter (\<lambda>(k, r). root_for_identity (H r) = root_id) (rg_pending (co_registry s))))"

definition has_pending_request_for_root :: "identity_heap \<Rightarrow> coordinator \<Rightarrow> string \<Rightarrow> bool" where
  "has_pending_request_for_root H s root_thread_id = (pending_request_keys_for_root H s root_thread_id \<noteq> {})"

section \<open>The coordinator as a step system\<close>

text \<open>
  An operation with what its ports answer. A dispatch and a send contain the operations that
  run during the port call.
\<close>

datatype coord_op =
    ActivateConnection int
  | RouteRequest int json string json dispatch_ports "coord_op list"
  | Notification string jdict removal_ports
  | ClaimProxy json string json
  | FinishProxy nat finish_outcome
  | ResolveProxy json string json removal_ports
  | Resolved jdict removal_ports
  | SubmitResponse nat send_outcome "coord_op list"
  | SubmitSurface nat send_outcome "coord_op list"
  | RevokeSurface nat
  | RetireConnection bool
  | Shutdown

record coord_world =
  cw_float_repr :: "pyfloat \<Rightarrow> string"
  cw_txt :: "json \<Rightarrow> string"
  cw_heap :: identity_heap
  cw_build :: identity_builder

fun coord_step :: "coord_world \<Rightarrow> coordinator \<Rightarrow> coord_op \<Rightarrow> coordinator"
  and coord_steps :: "coord_world \<Rightarrow> coordinator \<Rightarrow> coord_op list \<Rightarrow> coordinator" where
  "coord_step W s (ActivateConnection g) = fst (co_activate_epoch s g)"
| "coord_step W s (RouteRequest g i m p ports nested) =
     fst (route_request (cw_build W) (cw_heap W) (\<lambda>s. coord_steps W s nested) ports s g i m p)"
| "coord_step W s (Notification m p ports) =
     fst (handle_notification (cw_float_repr W) (cw_txt W) (cw_heap W) ports s m p)"
| "coord_step W s (ClaimProxy i m p) = fst (claim_proxy_response (cw_build W) (cw_heap W) s i m p)"
| "coord_step W s (FinishProxy r out) = fst (finish_proxy_response (cw_heap W) s r out)"
| "coord_step W s (ResolveProxy i m p ports) =
     fst (resolve_proxy_request (cw_float_repr W) (cw_txt W) (cw_build W) (cw_heap W) ports s i m p)"
| "coord_step W s (Resolved p ports) =
     fst (handle_server_request_resolved (cw_float_repr W) (cw_txt W) (cw_heap W) ports s p)"
| "coord_step W s (SubmitResponse r out nested) =
     fst (submit_response (cw_heap W) (\<lambda>s. coord_steps W s nested) out s r)"
| "coord_step W s (SubmitSurface r out nested) =
     fst (submit_surface_response (cw_heap W) (\<lambda>s. coord_steps W s nested) out s r)"
| "coord_step W s (RevokeSurface r) = fst (revoke_surface_response_authority (cw_heap W) s r)"
| "coord_step W s (RetireConnection raises) = fst (retire_connection_epoch s raises)"
| "coord_step W s Shutdown = coordinator_shutdown s"
| "coord_steps W s [] = s"
| "coord_steps W s (x # xs) = coord_steps W (coord_step W s x) xs"

end
