(* ===== verification/Request_Responses.thy ===== *)
theory Request_Responses
  imports Request_Coordinator
begin

text \<open>
  What the coordinator of \<open>Request_Coordinator\<close> guarantees over any sequence of operations,
  with operations nested in its port calls to any depth: one response per request key, requests
  that were closed stay closed, and a resolution reaches every surface. The effect of an
  operation is a \<open>segment\<close> of the log whose facts compose.
\<close>

section \<open>Reading the log\<close>

text \<open>
  An attempt is a call of the adapter's \<open>respond\<close> or a response handed to the proxy; only a
  send that failed before anything was sent certainly did not reach the app server.
\<close>

fun attempt_key :: "identity_heap \<Rightarrow> coord_event \<Rightarrow> string option" where
  "attempt_key H (Sent r out) = Some (sr_request_key (H r))"
| "attempt_key H (ProxyClaimed r) = Some (sr_request_key (H r))"
| "attempt_key H _ = None"

fun maybe_delivered :: "coord_event \<Rightarrow> bool" where
  "maybe_delivered (Sent r out) = (out \<noteq> SendPreSendError)"
| "maybe_delivered (ProxyClaimed r) = True"
| "maybe_delivered _ = False"

text \<open>Every settled request is removed from the browser's projection once.\<close>

fun is_removal :: "coord_event \<Rightarrow> bool" where
  "is_removal (RemovedFrom su r) = (su = Web)"
| "is_removal _ = False"

definition removals :: "coord_event list \<Rightarrow> nat" where
  "removals l = length (filter is_removal l)"

text \<open>What is left of a budget of \<open>c\<close> settlements after a part of the log; \<open>None\<close> when it is
  exhausted or the epoch ended.\<close>

fun residue :: "nat \<Rightarrow> coord_event list \<Rightarrow> nat option" where
  "residue c [] = Some c"
| "residue c (ev # l) =
     (if ev = EpochChanged then None
      else if is_removal ev then (case c of 0 \<Rightarrow> None | Suc c' \<Rightarrow> residue c' l)
      else residue c l)"

text \<open>No attempt for \<open>k\<close> while the budget lasts.\<close>

fun fenced :: "identity_heap \<Rightarrow> string \<Rightarrow> nat \<Rightarrow> coord_event list \<Rightarrow> bool" where
  "fenced H k c [] = True"
| "fenced H k c (ev # l) =
     (attempt_key H ev \<noteq> Some k
      \<and> (if ev = EpochChanged then True
         else if is_removal ev then (case c of 0 \<Rightarrow> True | Suc c' \<Rightarrow> fenced H k c' l)
         else fenced H k c l))"

text \<open>Every attempt that may have been delivered is fenced, and \<open>P\<close> holds of it at the end.\<close>

fun once_then :: "identity_heap \<Rightarrow> nat \<Rightarrow> (string \<Rightarrow> nat \<Rightarrow> bool) \<Rightarrow> coord_event list \<Rightarrow> bool" where
  "once_then H L P [] = True"
| "once_then H L P (ev # l) =
     ((maybe_delivered ev \<longrightarrow>
         (case attempt_key H ev of None \<Rightarrow> True
          | Some k \<Rightarrow> fenced H k L l \<and> (case residue L l of None \<Rightarrow> True | Some c \<Rightarrow> P k c)))
      \<and> once_then H L P l)"

definition untouched :: "identity_heap \<Rightarrow> string \<Rightarrow> coord_event list \<Rightarrow> bool" where
  "untouched H k l = list_all (\<lambda>ev. attempt_key H ev \<noteq> Some k) l"

lemma residue_append: "residue c (l @ l') = (case residue c l of None \<Rightarrow> None | Some c' \<Rightarrow> residue c' l')"
  by (induction c l rule: residue.induct) (auto split: nat.split)

lemma fenced_append:
  "fenced H k c (l @ l') = (fenced H k c l \<and> (case residue c l of None \<Rightarrow> True | Some c' \<Rightarrow> fenced H k c' l'))"
  by (induction H k c l rule: fenced.induct) (auto split: nat.split)

lemma once_then_append:
  "once_then H L P (l @ l') =
    (once_then H L (\<lambda>k c. fenced H k c l' \<and> (case residue c l' of None \<Rightarrow> True | Some c' \<Rightarrow> P k c')) l \<and> once_then H L P l')"
  by (induction H L P l rule: once_then.induct)
    (auto simp: fenced_append residue_append split: option.splits)

lemma once_then_mono:
  assumes "once_then H L P l"
    and "\<And>ev k c. ev \<in> set l \<Longrightarrow> maybe_delivered ev \<Longrightarrow> attempt_key H ev = Some k \<Longrightarrow> P k c \<Longrightarrow> Q k c"
  shows "once_then H L Q l"
  using assms by (induction l) (auto split: option.splits)

lemma untouched_append [simp]: "untouched H k (l @ l') \<longleftrightarrow> untouched H k l \<and> untouched H k l'"
  by (simp add: untouched_def)

lemma untouched_fenced: "untouched H k l \<Longrightarrow> fenced H k c l"
  by (induction l arbitrary: c) (auto simp: untouched_def split: nat.split)

lemma no_attempts_once: "(\<And>k. untouched H k l) \<Longrightarrow> once_then H L P l"
proof (induction l)
  case (Cons ev l)
  have "attempt_key H ev = None"
    using Cons.prems by (cases "attempt_key H ev") (auto simp: untouched_def)
  moreover have "untouched H k l" for k using Cons.prems [of k] by (simp add: untouched_def)
  ultimately show ?case using Cons.IH by simp
qed simp

lemma removals_Nil [simp]: "removals [] = 0"
  by (simp add: removals_def)

lemma removals_append [simp]: "removals (l @ l') = removals l + removals l'"
  by (simp add: removals_def)

lemma removals_Cons: "removals (ev # l) = (if is_removal ev then 1 else 0) + removals l"
  by (simp add: removals_def)

lemma residue_removals: "residue c l = Some c' \<Longrightarrow> c = c' + removals l"
  by (induction c l rule: residue.induct) (auto simp: removals_def split: if_splits nat.splits)

lemma residue_lasts: "EpochChanged \<notin> set l \<Longrightarrow> removals l \<le> c \<Longrightarrow> residue c l = Some (c - removals l)"
  by (induction c l rule: residue.induct) (auto simp: removals_Cons split: nat.splits)

lemma fenced_excludes: "fenced H k c l \<Longrightarrow> l = mid @ b # post \<Longrightarrow> EpochChanged \<notin> set mid \<Longrightarrow> removals mid \<le> c
    \<Longrightarrow> attempt_key H b \<noteq> Some k"
  using residue_lasts [of mid c] by (simp add: fenced_append)

text \<open>The reading of the log that the property states.\<close>

lemma once_then_excludes:
  assumes "once_then H L P (pre @ a # mid @ b # post)" and "maybe_delivered a" and "attempt_key H a = Some k"
    and "attempt_key H b = Some k"
  shows "EpochChanged \<in> set mid \<or> L < removals mid"
proof -
  have "fenced H k L (mid @ b # post)" using assms(1,2,3) by (simp add: once_then_append)
  from fenced_excludes [OF this refl] assms(4) show ?thesis by (meson not_le)
qed


section \<open>Segments\<close>

text \<open>
  A segment is what an operation adds to the log, with the facts about its effect that compose:
  the response of a taken request stays taken, an identity that is no longer pending stays so, and
  a request being answered is left alone while it is pending.
\<close>

definition busy :: "identity_heap \<Rightarrow> server_request_registry \<Rightarrow> nat \<Rightarrow> bool" where
  "busy H g r = (active H g r \<and> map_of (rg_response_status g) (sr_request_key (H r)) \<noteq> Some PhasePending)"

definition coord_inv :: "identity_heap \<Rightarrow> nat \<Rightarrow> coordinator \<Rightarrow> bool" where
  "coord_inv H L s =
     (registry_inv H (co_registry s) \<and> rg_resolved_limit (co_registry s) = Suc L
      \<and> (\<forall>r. active H (co_registry s) r \<longrightarrow> r < co_next s))"

definition keeps_taken :: "identity_heap \<Rightarrow> coordinator \<Rightarrow> coord_event list \<Rightarrow> coordinator \<Rightarrow> bool" where
  "keeps_taken H s l s' =
     (\<forall>k c. taken (co_registry s) k c \<longrightarrow>
        fenced H k c l \<and> (\<forall>c'. residue c l = Some c' \<longrightarrow> taken (co_registry s') k c'))"

definition stays_gone :: "identity_heap \<Rightarrow> coordinator \<Rightarrow> coordinator \<Rightarrow> bool" where
  "stays_gone H s s' =
     (\<forall>r. r < co_next s \<and> \<not> active H (co_registry s) r \<longrightarrow> \<not> active H (co_registry s') r)"

definition keeps_busy :: "identity_heap \<Rightarrow> coordinator \<Rightarrow> coord_event list \<Rightarrow> coordinator \<Rightarrow> bool" where
  "keeps_busy H s l s' =
     (\<forall>r. busy H (co_registry s) r \<and> active H (co_registry s') r \<longrightarrow>
        busy H (co_registry s') r \<and> untouched H (sr_request_key (H r)) l)"

text \<open>A request whose dispatch outcome is unknown, or whose response authority is revoked, stays that
  way while it is pending: it is not projected again, and a revoked one is not answered.\<close>

definition keeps_shut :: "identity_heap \<Rightarrow> coordinator \<Rightarrow> coord_event list \<Rightarrow> coordinator \<Rightarrow> bool" where
  "keeps_shut H s l s' =
     (\<forall>r. active H (co_registry s') r \<longrightarrow>
        (dispatch_is_unknown H (co_registry s) r \<longrightarrow> dispatch_is_unknown H (co_registry s') r \<and> Dispatched r \<notin> set l)
        \<and> (response_authority_is_revoked H (co_registry s) r \<longrightarrow>
             response_authority_is_revoked H (co_registry s') r \<and> Dispatched r \<notin> set l
             \<and> untouched H (sr_request_key (H r)) l))"

definition segment :: "identity_heap \<Rightarrow> nat \<Rightarrow> coordinator \<Rightarrow> coord_event list \<Rightarrow> coordinator \<Rightarrow> bool" where
  "segment H L s l s' =
     (coord_inv H L s \<longrightarrow>
        co_log s' = co_log s @ l \<and> coord_inv H L s' \<and> co_next s \<le> co_next s'
        \<and> keeps_taken H s l s' \<and> stays_gone H s s' \<and> keeps_busy H s l s' \<and> keeps_shut H s l s'
        \<and> once_then H L (taken (co_registry s')) l)"

lemma segment_refl [simp]: "segment H L s [] s"
  by (simp add: segment_def keeps_taken_def stays_gone_def keeps_busy_def keeps_shut_def untouched_def)

lemma segment_trans:
  assumes a: "segment H L s l s'" and b: "segment H L s' l' s''"
  shows "segment H L s (l @ l') s''"
  unfolding segment_def
proof (intro impI)
  assume inv: "coord_inv H L s"
  from a inv have 1: "co_log s' = co_log s @ l" "coord_inv H L s'" "co_next s \<le> co_next s'" "keeps_taken H s l s'"
    "stays_gone H s s'" "keeps_busy H s l s'" "keeps_shut H s l s'" "once_then H L (taken (co_registry s')) l" by (simp_all add: segment_def)
  from b 1(2) have 2: "co_log s'' = co_log s' @ l'" "coord_inv H L s''" "co_next s' \<le> co_next s''" "keeps_taken H s' l' s''"
    "stays_gone H s' s''" "keeps_busy H s' l' s''" "keeps_shut H s' l' s''" "once_then H L (taken (co_registry s'')) l'" by (simp_all add: segment_def)
  have "keeps_taken H s (l @ l') s''"
    unfolding keeps_taken_def
  proof (intro allI impI)
    fix k c
    assume t: "taken (co_registry s) k c"
    with 1(4) have f: "fenced H k c l" and r: "\<And>c'. residue c l = Some c' \<Longrightarrow> taken (co_registry s') k c'"
      by (simp_all add: keeps_taken_def)
    show "fenced H k c (l @ l') \<and> (\<forall>c'. residue c (l @ l') = Some c' \<longrightarrow> taken (co_registry s'') k c')"
    proof (cases "residue c l")
      case (Some c1)
      from 2(4) r [OF Some] have "fenced H k c1 l' \<and> (\<forall>c'. residue c1 l' = Some c' \<longrightarrow> taken (co_registry s'') k c')"
        by (simp add: keeps_taken_def)
      then show ?thesis using f Some by (simp add: fenced_append residue_append)
    qed (use f in \<open>simp add: fenced_append residue_append\<close>)
  qed
  moreover have "stays_gone H s s''"
    using 1(3,5) 2(5) unfolding stays_gone_def by (meson order_less_le_trans)
  moreover have "keeps_busy H s (l @ l') s''"
    unfolding keeps_busy_def
  proof (intro allI impI)
    fix r
    assume r: "busy H (co_registry s) r \<and> active H (co_registry s'') r"
    have "r < co_next s'" using r inv 1(3) unfolding coord_inv_def busy_def by (meson order_less_le_trans)
    then have "active H (co_registry s') r" using 2(5) r unfolding stays_gone_def by blast
    then have "busy H (co_registry s') r" "untouched H (sr_request_key (H r)) l"
      using 1(6) r unfolding keeps_busy_def by blast+
    then show "busy H (co_registry s'') r \<and> untouched H (sr_request_key (H r)) (l @ l')"
      using 2(6) r unfolding keeps_busy_def by simp
  qed
  moreover have "keeps_shut H s (l @ l') s''"
    unfolding keeps_shut_def
  proof (intro allI impI)
    fix r
    assume r: "active H (co_registry s'') r"
    have was: "active H (co_registry s') r" if "active H (co_registry s) r"
    proof -
      have "r < co_next s'" using that inv 1(3) unfolding coord_inv_def by (meson order_less_le_trans)
      then show ?thesis using 2(5) r unfolding stays_gone_def by blast
    qed
    have "active H (co_registry s) r" if "dispatch_is_unknown H (co_registry s) r \<or> response_authority_is_revoked H (co_registry s) r"
      using that by (auto simp: dispatch_is_unknown_def response_authority_is_revoked_def)
    with was 1(7) 2(7) r
    show "(dispatch_is_unknown H (co_registry s) r \<longrightarrow>
          dispatch_is_unknown H (co_registry s'') r \<and> Dispatched r \<notin> set (l @ l'))
        \<and> (response_authority_is_revoked H (co_registry s) r \<longrightarrow>
          response_authority_is_revoked H (co_registry s'') r \<and> Dispatched r \<notin> set (l @ l')
          \<and> untouched H (sr_request_key (H r)) (l @ l'))"
      unfolding keeps_shut_def by (simp add: disj_imp)
  qed
  moreover have "once_then H L (taken (co_registry s'')) (l @ l')"
  proof -
    have "once_then H L (\<lambda>k c. fenced H k c l' \<and> (case residue c l' of None \<Rightarrow> True | Some c' \<Rightarrow> taken (co_registry s'') k c')) l"
      by (rule once_then_mono [OF 1(8)]) (use 2(4) in \<open>auto simp: keeps_taken_def split: option.split\<close>)
    then show ?thesis using 2(8) by (simp add: once_then_append)
  qed
  ultimately show "co_log s'' = co_log s @ l @ l' \<and> coord_inv H L s'' \<and> co_next s \<le> co_next s''
      \<and> keeps_taken H s (l @ l') s'' \<and> stays_gone H s s'' \<and> keeps_busy H s (l @ l') s'' \<and> keeps_shut H s (l @ l') s''
      \<and> once_then H L (taken (co_registry s'')) (l @ l')"
    using 1(1,3) 2(1,2,3) by simp
qed

lemma taken_mono: "taken g k n \<Longrightarrow> m \<le> n \<Longrightarrow> taken g k m"
  unfolding taken_def by (meson add_left_mono order_le_less_trans)

section \<open>Steps of the registry as segments\<close>

text \<open>The operations of the registry that neither admit nor reset a response.\<close>

fun calm :: "nat \<Rightarrow> registry_op \<Rightarrow> bool" where
  "calm n (Register r) = (r = n)"
| "calm n (Settle k t) = True"
| "calm n (SettleThread t) = True"
| "calm n (FinishResponse r out) = (out \<noteq> NotSent)"
| "calm n (RevokeResponse r) = True"
| "calm n (MarkDispatchUnknown r) = True"
| "calm n _ = False"

lemma retire_active:
  "active H (retire_pending g k x) r \<longleftrightarrow> active H g r \<and> sr_request_key (H r) \<noteq> k"
  by (auto simp: active_def retire_pending_fields delete_conv')

lemma retire_busy: "busy H (retire_pending g k x) r \<longleftrightarrow> busy H g r \<and> sr_request_key (H r) \<noteq> k"
  by (auto simp: busy_def retire_active retire_pending_fields)

lemma retire_all:
  "active H (foldl (\<lambda>s r. retire_pending s (sr_request_key (H r)) r) g rs) r
     \<longleftrightarrow> active H g r \<and> sr_request_key (H r) \<notin> (\<lambda>x. sr_request_key (H x)) ` set rs"
  "busy H (foldl (\<lambda>s r. retire_pending s (sr_request_key (H r)) r) g rs) r
     \<longleftrightarrow> busy H g r \<and> sr_request_key (H r) \<notin> (\<lambda>x. sr_request_key (H x)) ` set rs"
  by (induction rs arbitrary: g) (auto simp: retire_active retire_busy)

lemma register_result:
  "fst (register H g r) = g
    \<or> map_of (rg_pending g) (sr_request_key (H r)) = None
      \<and> fst (register H g r) = g\<lparr>rg_pending := AList.update (sr_request_key (H r)) r (rg_pending g),
            rg_response_status := AList.update (sr_request_key (H r)) PhasePending (rg_response_status g)\<rparr>"
  by (simp add: register_def Let_def split: option.split)

lemma register_effect:
  "active H (fst (register H g r')) r \<Longrightarrow> active H g r \<or> r = r'"
  "busy H g r \<Longrightarrow> busy H (fst (register H g r')) r"
  using register_result [of H g r']
  by (auto simp: active_def busy_def update_conv' split: if_splits)

lemma settle_result:
  "fst (settle H g k t) = g \<or> (\<exists>x. fst (settle H g k t) = retire_pending g (strip k) x)"
  by (auto simp: settle_def Let_def split: option.split)

lemma settle_thread_result:
  "fst (settle_thread H g t) = foldl (\<lambda>s r. retire_pending s (sr_request_key (H r)) r) g (snd (settle_thread H g t))"
  by (simp add: settle_thread_def Let_def)

lemma calm_active:
  assumes "calm n x" and "active H (registry_step H g x) r"
  shows "active H g r \<or> r = n"
proof (cases x)
  case (Register r')
  then show ?thesis using assms register_effect(1) [of H g r' r] by simp
next
  case (Settle k t)
  then show ?thesis using assms(2) settle_result [of H g k t] retire_active [of H g "strip k" _ r] by auto
next
  case (SettleThread t)
  then show ?thesis using assms(2) settle_thread_result [of H g t] retire_all(1) [of H g _ r] by simp
next
  case (FinishResponse r' out)
  then show ?thesis using assms(2) by (simp add: finish_response_def active_def Let_def split: if_splits)
next
  case (RevokeResponse r')
  then show ?thesis using assms(2) by (simp add: revoke_response_authority_def active_def split: if_splits)
next
  case (MarkDispatchUnknown r')
  then show ?thesis using assms(2) by (simp add: mark_dispatch_unknown_def active_def split: if_splits)
qed (use assms in simp_all)

lemma calm_busy:
  assumes "calm n x" and "active H (registry_step H g x) r" and "busy H g r"
  shows "busy H (registry_step H g x) r"
proof (cases x)
  case (Register r')
  then show ?thesis using assms(3) register_effect(2) [of H g r r'] by simp
next
  case (Settle k t)
  then show ?thesis using assms(2,3) settle_result [of H g k t] retire_active [of H g "strip k" _ r] retire_busy [of H g "strip k" _ r]
    by auto
next
  case (SettleThread t)
  then show ?thesis using assms(2,3) settle_thread_result [of H g t] retire_all [of H g _ r] by simp
next
  case (FinishResponse r' out)
  then have "finish_phase out \<noteq> PhasePending" using assms(1) by (cases out) (simp_all add: finish_phase_def)
  then show ?thesis using FinishResponse assms(3) by (simp add: finish_response_def busy_def active_def update_conv' Let_def)
next
  case (RevokeResponse r')
  then show ?thesis using assms(3) by (simp add: revoke_response_authority_def busy_def active_def)
next
  case (MarkDispatchUnknown r')
  then show ?thesis using assms(3) by (simp add: mark_dispatch_unknown_def busy_def active_def)
qed (use assms in simp_all)

lemma retire_shut:
  "dispatch_is_unknown H (retire_pending g k x) r \<longleftrightarrow> dispatch_is_unknown H g r \<and> sr_request_key (H r) \<noteq> k"
  "response_authority_is_revoked H (retire_pending g k x) r
     \<longleftrightarrow> response_authority_is_revoked H g r \<and> sr_request_key (H r) \<noteq> k"
  by (auto simp: dispatch_is_unknown_def response_authority_is_revoked_def retire_active retire_pending_fields)

lemma retire_all_shut:
  "dispatch_is_unknown H (foldl (\<lambda>s r. retire_pending s (sr_request_key (H r)) r) g rs) r
     \<longleftrightarrow> dispatch_is_unknown H g r \<and> sr_request_key (H r) \<notin> (\<lambda>x. sr_request_key (H x)) ` set rs"
  "response_authority_is_revoked H (foldl (\<lambda>s r. retire_pending s (sr_request_key (H r)) r) g rs) r
     \<longleftrightarrow> response_authority_is_revoked H g r \<and> sr_request_key (H r) \<notin> (\<lambda>x. sr_request_key (H x)) ` set rs"
  by (induction rs arbitrary: g) (auto simp: retire_shut)

lemma calm_shut:
  assumes "calm n x" and "active H (registry_step H g x) r"
  shows "dispatch_is_unknown H g r \<Longrightarrow> dispatch_is_unknown H (registry_step H g x) r"
    and "response_authority_is_revoked H g r \<Longrightarrow> response_authority_is_revoked H (registry_step H g x) r"
proof -
  have same: "rg_dispatch_unknown g \<subseteq> rg_dispatch_unknown (registry_step H g x)
      \<and> rg_response_revoked g \<subseteq> rg_response_revoked (registry_step H g x)"
    if "\<And>k t. x \<noteq> Settle k t" "\<And>t. x \<noteq> SettleThread t"
    using that assms(1) by (cases x)
      (auto simp: register_def finish_response_def revoke_response_authority_def mark_dispatch_unknown_def Let_def
        split: option.splits)
  show "dispatch_is_unknown H g r \<Longrightarrow> dispatch_is_unknown H (registry_step H g x) r"
  proof (cases x)
    case (Settle k t)
    then show "dispatch_is_unknown H g r \<Longrightarrow> ?thesis"
      using assms(2) settle_result [of H g k t] retire_active [of H g "strip k" _ r] retire_shut(1) [of H g "strip k" _ r] by auto
  next
    case (SettleThread t)
    then show "dispatch_is_unknown H g r \<Longrightarrow> ?thesis"
      using assms(2) settle_thread_result [of H g t] retire_all(1) [of H g _ r] retire_all_shut(1) [of H g _ r] by simp
  qed (use same assms(2) in \<open>auto simp: dispatch_is_unknown_def\<close>)
  show "response_authority_is_revoked H g r \<Longrightarrow> response_authority_is_revoked H (registry_step H g x) r"
  proof (cases x)
    case (Settle k t)
    then show "response_authority_is_revoked H g r \<Longrightarrow> ?thesis"
      using assms(2) settle_result [of H g k t] retire_active [of H g "strip k" _ r] retire_shut(2) [of H g "strip k" _ r] by auto
  next
    case (SettleThread t)
    then show "response_authority_is_revoked H g r \<Longrightarrow> ?thesis"
      using assms(2) settle_thread_result [of H g t] retire_all(1) [of H g _ r] retire_all_shut(2) [of H g _ r] by simp
  qed (use same assms(2) in \<open>auto simp: response_authority_is_revoked_def\<close>)
qed

lemma segment_calm:
  assumes x: "calm (co_next s) x" and g: "co_registry s' = registry_step H (co_registry s) x"
    and n: "co_next s' = (if \<exists>r. x = Register r then Suc (co_next s) else co_next s)"
    and l: "co_log s' = co_log s @ l" "\<And>k. untouched H k l" "EpochChanged \<notin> set l" "\<And>r. Dispatched r \<notin> set l"
    and c: "settled_by H (co_registry s) x \<le> removals l"
  shows "segment H L s l s'"
  unfolding segment_def
proof (intro impI)
  assume inv: "coord_inv H L s"
  let ?g = "co_registry s"
  have i: "registry_inv H ?g" and lim: "rg_resolved_limit ?g = Suc L" and lt: "\<And>r. active H ?g r \<Longrightarrow> r < co_next s"
    using inv by (simp_all add: coord_inv_def)
  have new: "active H (co_registry s') r \<Longrightarrow> active H ?g r \<or> (\<exists>r'. x = Register r') \<and> r = co_next s" for r
  proof (cases "\<exists>r'. x = Register r'")
    case False
    assume a: "active H (co_registry s') r"
    have "calm (Suc r) x" using x False by (cases x) auto
    from calm_active [OF this a [unfolded g]] show ?thesis by simp
  qed (use calm_active [OF x, of H ?g r] g in simp)
  have inv': "coord_inv H L s'"
    unfolding coord_inv_def
  proof (intro conjI allI impI)
    show "registry_inv H (co_registry s')" unfolding g by (rule registry_step_inv [OF i])
    show "rg_resolved_limit (co_registry s') = Suc L" unfolding g by (simp add: registry_limit_step lim)
    show "r < co_next s'" if "active H (co_registry s') r" for r
      using new [OF that] lt [of r] n by (auto split: if_splits)
  qed
  have keeps: "keeps_attempt H k x" for k using x by (cases x) auto
  have "keeps_taken H s l s'"
    unfolding keeps_taken_def
  proof (intro allI impI conjI)
    fix k c
    assume t: "taken ?g k c"
    show "fenced H k c l" by (rule untouched_fenced [OF l(2)])
    fix c'
    assume r: "residue c l = Some c'"
    have "taken ?g k (settled_by H ?g x + c')"
      by (rule taken_mono [OF t]) (use residue_removals [OF r] c in simp)
    from step_taken [OF i this keeps] show "taken (co_registry s') k c'" unfolding g .
  qed
  moreover have "stays_gone H s s'" unfolding stays_gone_def using new by blast
  moreover have "keeps_busy H s l s'"
    unfolding keeps_busy_def using calm_busy [OF x] l(2) g by simp
  moreover have "keeps_shut H s l s'"
    unfolding keeps_shut_def using calm_shut [OF x, of H ?g] l(2,4) g by simp
  ultimately show "co_log s' = co_log s @ l \<and> coord_inv H L s' \<and> co_next s \<le> co_next s'
      \<and> keeps_taken H s l s' \<and> stays_gone H s s' \<and> keeps_busy H s l s' \<and> keeps_shut H s l s'
      \<and> once_then H L (taken (co_registry s')) l"
    using l(1) inv' n no_attempts_once [OF l(2)] by (simp split: if_splits)
qed

section \<open>Epochs, admissions, sends\<close>

lemma segment_epoch:
  assumes g: "co_registry s' = clear_epoch_state (co_registry s) n" and n: "co_next s' = co_next s"
    and l: "co_log s' = co_log s @ l" "\<And>k. untouched H k l" "EpochChanged \<in> set l"
  shows "segment H L s l s'"
proof -
  have gone: "\<not> active H (co_registry s') r" for r by (simp add: g active_def clear_epoch_state_def)
  have r: "residue c l = None" for c
    using l(3) by (induction c l rule: residue.induct) (auto split: nat.split)
  have "registry_inv H (co_registry s) \<Longrightarrow> registry_inv H (co_registry s')" unfolding g by (rule clear_epoch_inv)
  then show ?thesis
    using l n gone r untouched_fenced [OF l(2)] no_attempts_once [OF l(2)]
    by (auto simp: segment_def coord_inv_def keeps_taken_def stays_gone_def keeps_busy_def keeps_shut_def g clear_epoch_state_def)
qed

lemma begin_active: "begin_response H g r = (g', Inr (a, q)) \<Longrightarrow> active H g' r' \<longleftrightarrow> active H g r'"
  by (auto simp: begin_response_def active_def Let_def split: option.splits response_phase.splits if_splits)

lemma busy_other_key:
  assumes "busy H g r'" and "map_of (rg_response_status g) k = Some PhasePending"
  shows "sr_request_key (H r') \<noteq> k"
  using assms unfolding busy_def by metis

text \<open>An admission, recorded in the log as an attempt.\<close>

lemma segment_begin:
  assumes b: "begin_response H (co_registry s) r = (g, Inr (Admitted, q))"
    and ev: "attempt_key H ev = Some (sr_request_key (H r))" "ev \<noteq> EpochChanged" "\<not> is_removal ev" "\<And>r'. ev \<noteq> Dispatched r'"
  shows "segment H L s [ev] (tell [ev] (with_registry s g))"
  unfolding segment_def
proof (intro impI)
  assume inv: "coord_inv H L s"
  let ?g = "co_registry s" and ?k = "sr_request_key (H r)"
  have i: "registry_inv H ?g" and lim: "rg_resolved_limit ?g = Suc L" and lt: "\<And>r. active H ?g r \<Longrightarrow> r < co_next s"
    using inv by (simp_all add: coord_inv_def)
  note ad = begin_admitted [OF b]
  have gs: "g = registry_step H ?g (BeginResponse r)" using b by simp
  have ph: "map_of (rg_response_status ?g) ?k = Some PhasePending"
    using b by (auto simp: begin_response_def Let_def split: option.splits response_phase.splits if_splits)
  have notk: "k \<noteq> ?k" if "taken ?g k c" for k c
    using taken_not_admitted [OF i _ b] that by blast
  have kt: "taken g k c" if "taken ?g k c" for k c
    unfolding gs by (rule step_taken [OF i]) (use that in simp_all)
  have tk: "taken g ?k L" using ad lim by (simp add: taken_def update_conv')
  have "keeps_busy H s [ev] (tell [ev] (with_registry s g))"
    using ph ev begin_active [OF b]
    by (auto simp: keeps_busy_def busy_def tell_def with_registry_def untouched_def ad(2) update_conv')
  moreover have "keeps_shut H s [ev] (tell [ev] (with_registry s g))"
  proof -
    have "?k \<notin> rg_response_revoked ?g"
      using b by (auto simp: begin_response_def Let_def split: option.splits if_splits)
    then show ?thesis using ev begin_active [OF b]
      by (auto simp: keeps_shut_def dispatch_is_unknown_def response_authority_is_revoked_def tell_def with_registry_def
          untouched_def ad(2))
  qed
  moreover have "keeps_taken H s [ev] (tell [ev] (with_registry s g))"
    using kt notk ev by (auto simp: keeps_taken_def tell_def with_registry_def)
  moreover have "coord_inv H L (tell [ev] (with_registry s g))"
  proof -
    have "registry_inv H g" unfolding gs by (rule registry_step_inv [OF i])
    then show ?thesis using lim lt begin_active [OF b] by (simp add: coord_inv_def tell_def with_registry_def ad(2))
  qed
  ultimately show "co_log (tell [ev] (with_registry s g)) = co_log s @ [ev] \<and> coord_inv H L (tell [ev] (with_registry s g))
      \<and> co_next s \<le> co_next (tell [ev] (with_registry s g)) \<and> keeps_taken H s [ev] (tell [ev] (with_registry s g))
      \<and> stays_gone H s (tell [ev] (with_registry s g)) \<and> keeps_busy H s [ev] (tell [ev] (with_registry s g))
      \<and> keeps_shut H s [ev] (tell [ev] (with_registry s g))
      \<and> once_then H L (taken (co_registry (tell [ev] (with_registry s g)))) [ev]"
    using ev tk begin_active [OF b] by (simp add: stays_gone_def tell_def with_registry_def)
qed

lemma not_admitted_same: "begin_response H g r = (g', Inr (a, q)) \<Longrightarrow> a \<noteq> Admitted \<Longrightarrow> g' = g"
  and begin_raised_same: "begin_response H g r = (g', Inl x) \<Longrightarrow> g' = g"
  by (auto simp: begin_response_def Let_def split: option.splits response_phase.splits if_splits)

lemma with_same [simp]: "with_registry s (co_registry s) = s"
  by (simp add: with_registry_def)

text \<open>A send that failed before anything was sent gives the response back.\<close>

lemma segment_unsent:
  assumes adm: "begin_response H (co_registry s) r = (g, Inr (Admitted, q))"
    and nested: "segment H L (tell [Sent r SendPreSendError] (with_registry s g)) l s2"
  shows "segment H L s (Sent r SendPreSendError # l) (with_registry s2 (fst (finish_response H (co_registry s2) r NotSent)))"
proof -
  let ?ev = "Sent r SendPreSendError" and ?k = "sr_request_key (H r)"
  let ?s1 = "tell [?ev] (with_registry s g)" and ?s3 = "with_registry s2 (fst (finish_response H (co_registry s2) r NotSent))"
  have first: "segment H L s [?ev] ?s1" by (rule segment_begin [OF adm]) simp_all
  have both: "segment H L s (?ev # l) s2" using segment_trans [OF first nested] by simp
  show ?thesis
  proof (cases "snd (finish_response H (co_registry s2) r NotSent)")
    case False
    then have "fst (finish_response H (co_registry s2) r NotSent) = co_registry s2"
      by (auto simp: finish_response_def Let_def split: if_splits)
    then show ?thesis using both by simp
  next
    case True
    then have act: "active H (co_registry s2) r"
      and g3: "fst (finish_response H (co_registry s2) r NotSent)
        = (co_registry s2)\<lparr>rg_response_status := AList.update ?k PhasePending (rg_response_status (co_registry s2))\<rparr>"
      by (auto simp: finish_response_def finish_phase_def Let_def split: if_splits)
    have act3: "active H (co_registry ?s3) r' \<longleftrightarrow> active H (co_registry s2) r'" for r'
      by (simp add: with_registry_def g3 active_def)
    have ad: "map_of (rg_pending (co_registry s)) ?k = Some r" "map_of (rg_response_status (co_registry s)) ?k = Some PhasePending"
      using adm by (auto simp: begin_response_def Let_def split: option.splits response_phase.splits if_splits)
    show ?thesis
      unfolding segment_def
    proof (intro impI)
      assume inv: "coord_inv H L s"
      then have i: "registry_inv H (co_registry s)" by (simp add: coord_inv_def)
      from both inv have 2: "co_log s2 = co_log s @ ?ev # l" "coord_inv H L s2" "co_next s \<le> co_next s2"
        "keeps_taken H s (?ev # l) s2" "stays_gone H s s2" "keeps_busy H s (?ev # l) s2" "keeps_shut H s (?ev # l) s2"
        "once_then H L (taken (co_registry s2)) (?ev # l)" unfolding segment_def by blast+
      have "coord_inv H L ?s1" using first inv by (simp add: segment_def)
      then have "keeps_busy H ?s1 l s2" using nested by (simp add: segment_def)
      moreover have "busy H (co_registry ?s1) r"
        using begin_admitted [OF adm] by (simp add: busy_def active_def tell_def with_registry_def update_conv')
      ultimately have quiet: "untouched H ?k l" using act by (simp add: keeps_busy_def)
      have t3: "taken (co_registry ?s3) k c" if "taken (co_registry s2) k c" "k \<noteq> ?k" for k c
        using taken_status [OF that(1), of ?k PhasePending] that(2) by (simp add: with_registry_def g3)
      have notk: "k \<noteq> ?k" if "taken (co_registry s) k c" for k c
        using taken_not_admitted [OF i _ adm] that by blast
      have "keeps_taken H s (?ev # l) ?s3"
        using 2(4) t3 notk unfolding keeps_taken_def by blast
      moreover have "keeps_busy H s (?ev # l) ?s3"
      proof -
        have "sr_request_key (H r') \<noteq> ?k" if "busy H (co_registry s) r'" for r'
          by (rule busy_other_key [OF that ad(2)])
        then show ?thesis using 2(6) act3
          by (auto simp: keeps_busy_def busy_def with_registry_def g3 update_conv' active_def)
      qed
      moreover have "keeps_shut H s (?ev # l) ?s3"
        using 2(7) act3 unfolding keeps_shut_def
        by (simp add: dispatch_is_unknown_def response_authority_is_revoked_def) (simp add: with_registry_def g3)
      moreover have "once_then H L (taken (co_registry ?s3)) (?ev # l)"
        by (rule once_then_mono [OF 2(8)]) (use t3 quiet in \<open>auto simp: untouched_def list_all_iff\<close>)
      moreover have "coord_inv H L ?s3"
      proof -
        have "registry_inv H (co_registry ?s3)"
          using 2(2) status_update_inv [of H "co_registry s2" ?k PhasePending] act
          by (simp add: coord_inv_def with_registry_def g3 active_def)
        then show ?thesis using 2(2) act3 by (simp add: coord_inv_def with_registry_def g3)
      qed
      ultimately show "co_log ?s3 = co_log s @ ?ev # l \<and> coord_inv H L ?s3 \<and> co_next s \<le> co_next ?s3
          \<and> keeps_taken H s (?ev # l) ?s3 \<and> stays_gone H s ?s3 \<and> keeps_busy H s (?ev # l) ?s3
          \<and> keeps_shut H s (?ev # l) ?s3
          \<and> once_then H L (taken (co_registry ?s3)) (?ev # l)"
        using 2(1,3,5) act3 by (simp add: stays_gone_def) (simp add: with_registry_def)
    qed
  qed
qed

section \<open>Operations as segments\<close>

lemma segment_tell:
  assumes "\<And>k. untouched H k l" and "EpochChanged \<notin> set l"
    and "\<And>r. Dispatched r \<in> set l \<Longrightarrow> \<not> dispatch_is_unknown H (co_registry s) r
      \<and> \<not> response_authority_is_revoked H (co_registry s) r"
  shows "segment H L s l (tell l s)"
  using assms unfolding segment_def keeps_taken_def stays_gone_def keeps_busy_def keeps_shut_def coord_inv_def tell_def
  by (auto intro: untouched_fenced no_attempts_once taken_mono dest!: residue_removals)

lemma untouched_simps [simp]:
  "untouched H k []" "untouched H k (ev # l) \<longleftrightarrow> attempt_key H ev \<noteq> Some k \<and> untouched H k l"
  by (simp_all add: untouched_def)

lemma segment_none: "\<exists>l. segment H L s l s"
  by (rule exI [of _ "[]"]) (rule segment_refl)

lemma segment_activate: "\<exists>l. segment H L s l (fst (co_activate_epoch s n))"
proof -
  obtain g x where a: "activate_connection_epoch (co_registry s) n = (g, x)" by force
  show ?thesis
  proof (cases "rg_connection_generation g = rg_connection_generation (co_registry s)")
    case True
    then have "g = co_registry s" using a
      by (auto simp: activate_connection_epoch_def clear_epoch_state_def split: if_splits)
    then have "fst (co_activate_epoch s n) = s" using a by (auto simp: co_activate_epoch_def split: sum.split)
    then show ?thesis using segment_refl by metis
  next
    case False
    then have g: "g = clear_epoch_state (co_registry s) n" and x: "x = Inr ()"
      using a by (auto simp: activate_connection_epoch_def split: if_splits)
    have "segment H L s [EpochChanged] (tell [EpochChanged] (with_registry s g))"
      by (rule segment_epoch) (simp_all add: g tell_def with_registry_def)
    then show ?thesis using a x False by (auto simp: co_activate_epoch_def)
  qed
qed

lemma segment_retire: "\<exists>l. segment H L s l (fst (retire_connection_epoch s raises))"
proof (cases raises)
  case True
  have "segment H L s [AutoEpochInvalidated] (tell [AutoEpochInvalidated] s)" by (rule segment_tell) simp_all
  then show ?thesis using True by (auto simp: retire_connection_epoch_def)
next
  case False
  have "segment H L s [AutoEpochInvalidated, EpochChanged] (fst (retire_connection_epoch s raises))"
    using False by (intro segment_epoch)
      (simp_all add: retire_connection_epoch_def clear_connection_epoch_def tell_def with_registry_def)
  then show ?thesis ..
qed

text \<open>The removal of projections logs no attempt and one removal per identity.\<close>

definition removal_log :: "identity_heap \<Rightarrow> coord_event list \<Rightarrow> nat \<Rightarrow> bool" where
  "removal_log H l n =
     ((\<forall>k. untouched H k l) \<and> EpochChanged \<notin> set l \<and> (\<forall>r. Dispatched r \<notin> set l) \<and> removals l = n)"

lemma removal_log_append: "removal_log H l n \<Longrightarrow> removal_log H l' n' \<Longrightarrow> removal_log H (l @ l') (n + n')"
  by (simp add: removal_log_def)

lemma remove_identity_log:
  "removal_log H evs n \<Longrightarrow> removal_log H (fst (fold (remove_identity H ports) rs (evs, xs, roots))) (n + length rs)"
proof (induction rs arbitrary: evs xs roots n)
  case (Cons r rs)
  obtain xs' roots' where r: "remove_identity H ports r (evs, xs, roots)
      = (evs @ AutoCancelled (sr_request_key (H r)) # map (\<lambda>su. RemovedFrom su r) removers, xs', roots')"
    by (cases "fold (remove_from ports r) removers (xs, roots, False)") (simp add: remove_identity_def)
  have "removal_log H (AutoCancelled (sr_request_key (H r)) # map (\<lambda>su. RemovedFrom su r) removers) 1"
    by (simp add: removal_log_def removers_def removals_Cons)
  from Cons.IH [OF removal_log_append [OF Cons.prems this], of xs' roots'] show ?case by (simp add: r)
qed simp

lemma projections_log:
  "\<exists>l. fst (remove_local_projections H ports s rs) = tell l s \<and> removal_log H l (length rs)"
proof -
  obtain evs xs roots where f: "fold (remove_identity H ports) rs ([], [], []) = (evs, xs, roots)" by (metis prod_cases3)
  have "removal_log H [] 0" by (simp add: removal_log_def)
  from remove_identity_log [OF this, of ports rs "[]" "[]"] have a: "removal_log H evs (length rs)" by (simp add: f)
  have "removal_log H (map RootReconciled ks) 0" for ks
    by (induction ks) (simp_all add: removal_log_def removals_Cons)
  from removal_log_append [OF a this] have "removal_log H (evs @ map RootReconciled (sort (remdups roots))) (length rs)" by simp
  then show ?thesis unfolding remove_local_projections_def f by auto
qed

lemma segment_settled:
  assumes g: "calm (co_next s) x" "\<And>r. x \<noteq> Register r" and "removal_log H l n" and "settled_by H (co_registry s) x \<le> n"
  shows "segment H L s l (tell l (with_registry s (registry_step H (co_registry s) x)))"
  by (rule segment_calm [OF g(1)]) (use assms in \<open>auto simp: tell_def with_registry_def removal_log_def\<close>)

lemma segment_resolved: "\<exists>l. segment H L s l (fst (handle_server_request_resolved fr txt H ports s params))"
proof -
  define k where "k = optional_jsonrpc_id_key fr (case map_of params ''requestId'' of None \<Rightarrow> JNull | Some v \<Rightarrow> v)"
  define t where "t = field_text txt (map_of params ''threadId'')"
  obtain g out i where st: "settle H (co_registry s) k t = (g, out, i)" by (metis prod_cases3)
  have g: "g = registry_step H (co_registry s) (Settle k t)" using st by simp
  let ?s1 = "with_registry s g"
  show ?thesis
  proof (cases "out \<in> {SettleConflict, SettleInvalid} \<or> i = None")
    case True
    have "out \<noteq> Settled" using st True by (auto simp: settle_def Let_def split: if_splits option.splits)
    then have "segment H L s [AutoCancelled k] (tell [AutoCancelled k] ?s1)"
      unfolding g by (intro segment_settled [where n = 0]) (use st in \<open>auto simp: removal_log_def removals_Cons\<close>)
    then show ?thesis using True st
      by (auto simp: handle_server_request_resolved_def k_def [symmetric] t_def [symmetric] Let_def)
  next
    case False
    obtain l where l: "fst (remove_local_projections H ports ?s1 [the i]) = tell l ?s1" "removal_log H l 1"
      using projections_log [of H ports ?s1 "[the i]"] by auto
    have "segment H L s l (tell l ?s1)"
      unfolding g by (rule segment_settled [OF _ _ l(2)]) auto
    then show ?thesis using False st l(1)
      by (auto simp: handle_server_request_resolved_def k_def [symmetric] t_def [symmetric] Let_def split: prod.splits)
  qed
qed

lemma segment_notification: "\<exists>l. segment H L s l (fst (handle_notification fr txt H ports s name params))"
proof -
  let ?t = "field_text txt (map_of params ''threadId'')"
  obtain g rs where st: "settle_thread H (co_registry s) ?t = (g, rs)" by force
  have g: "g = registry_step H (co_registry s) (SettleThread ?t)" using st by simp
  obtain l where l: "fst (remove_local_projections H ports (with_registry s g) rs) = tell l (with_registry s g)"
    "removal_log H l (length rs)" using projections_log by metis
  have "segment H L s l (tell l (with_registry s g))"
    unfolding g by (rule segment_settled [OF _ _ l(2)]) (use st in auto)
  then show ?thesis
    using segment_resolved [of H L s fr "txt" ports params] segment_none [of H L s] st l(1)
    by (auto simp: handle_notification_def Let_def)
qed

text \<open>A construction followed by a registration.\<close>

lemma segment_register:
  "segment H L s [] (with_registry (fst (new_identity s)) (fst (register H (co_registry s) (co_next s))))"
  by (rule segment_calm [where x = "Register (co_next s)"]) (simp_all add: new_identity_def with_registry_def)

lemma segment_then:
  assumes "segment H L s l s'" and "\<exists>l'. segment H L s' l' s''"
  shows "\<exists>l. segment H L s l s''"
  using assms segment_trans by blast

lemma registered:
  assumes "new_identity s = (s1, r)" and "register H (co_registry s1) r = (g, out, i)"
  shows "segment H L s [] (with_registry s1 g)"
  using segment_register [of H L s] assms by (auto simp: new_identity_def)

lemma route_admitted:
  assumes "route_admission H g r out q = Inr (Inr x)"
  shows "q = Some x" and "\<not> dispatch_is_unknown H g x" and "\<not> response_authority_is_revoked H g x"
    and "response_phase_of H g x \<in> {Inr None, Inr (Some PhasePending)}"
proof -
  obtain y where q: "q = Some y" and o: "out = RegNew \<or> out = RegReplay"
    using assms by (cases q; cases out) (auto simp: route_admission_def)
  then obtain phase where ph: "response_phase_of H g y = Inr phase"
    using assms by (cases "response_phase_of H g y") (auto simp: route_admission_def)
  have x: "x = y" and n: "\<not> response_authority_is_revoked H g y" "\<not> dispatch_is_unknown H g y"
    "phase \<notin> {Some PhaseProcessing, Some PhaseSubmitted, Some PhaseUnknown}"
    using assms q o ph by (auto simp: route_admission_def Let_def split: if_splits)
  show "q = Some x" "\<not> dispatch_is_unknown H g x" "\<not> response_authority_is_revoked H g x"
    using q x n by simp_all
  show "response_phase_of H g x \<in> {Inr None, Inr (Some PhasePending)}"
  proof (cases phase)
    case (Some p)
    then show ?thesis using ph x n(3) by (cases p) simp_all
  qed (use ph x in simp)
qed

lemma segment_route:
  assumes nested: "\<And>s. \<exists>l. segment H L s l (during s)"
  shows "\<exists>l. segment H L s l (fst (route_request build H during ports s n i m p))"
proof (cases "build i n m p = None")
  case False
  obtain s1 r where c: "new_identity s = (s1, r)" by force
  obtain g out q where rg: "register H (co_registry s1) r = (g, out, q)" by (metis prod_cases3)
  note reg = registered [OF c rg, of L]
  let ?s2 = "with_registry s1 g"
  have "\<exists>l. segment H L ?s2 l (fst (finish_route H (during (tell [Dispatched x] ?s2)) x out receipt))"
    if "route_admission H g r out q = Inr (Inr x)" for x receipt
  proof (rule segment_then)
    show "segment H L ?s2 [Dispatched x] (tell [Dispatched x] ?s2)"
      by (rule segment_tell) (use route_admitted [OF that] in \<open>simp_all add: with_registry_def\<close>)
    obtain l where l: "segment H L (tell [Dispatched x] ?s2) l (during (tell [Dispatched x] ?s2))" using nested by blast
    have fin: "\<exists>l. segment H L s3 l (fst (finish_route H s3 x out receipt))" for s3
    proof -
      have "segment H L s3 [] (with_registry s3 (fst (mark_dispatch_unknown H (co_registry s3) x)))"
        by (rule segment_calm [where x = "MarkDispatchUnknown x"]) (simp_all add: with_registry_def)
      then show ?thesis using segment_none [of H L s3]
        by (auto simp: finish_route_def split: dispatch_outcome.split)
    qed
    show "\<exists>l'. segment H L (tell [Dispatched x] ?s2) l' (fst (finish_route H (during (tell [Dispatched x] ?s2)) x out receipt))"
      by (rule segment_then [OF l fin])
  qed
  note finished = this
  have "\<exists>l. segment H L ?s2 l (fst (route_request build H during ports s n i m p))"
  proof (cases "route_admission H g r out q")
    case (Inl x)
    then show ?thesis using False c rg segment_none [of H L ?s2] by (auto simp: route_request_def Let_def)
  next
    case (Inr d)
    show ?thesis
    proof (cases d)
      case (Inr x)
      have "fst (route_request build H during ports s n i m p)
          = fst (finish_route H (during (tell [Dispatched x] ?s2)) x out (snd (dispatch H ports x)))"
        using False c rg \<open>route_admission H g r out q = Inr d\<close> Inr by (auto simp: route_request_def Let_def split: prod.split)
      then show ?thesis using finished \<open>route_admission H g r out q = Inr d\<close> Inr by simp
    qed (use False c rg Inr segment_none [of H L ?s2] in \<open>auto simp: route_request_def Let_def\<close>)
  qed
  then show ?thesis by (rule segment_then [OF reg])
qed (use segment_none [of H L s] in \<open>auto simp: route_request_def\<close>)

lemma segment_claim_proxy: "\<exists>l. segment H L s l (fst (claim_proxy_response build H s i m p))"
proof -
  let ?n = "rg_connection_generation (co_registry s)"
  show ?thesis
  proof (cases "?n \<le> 0 \<or> build i ?n m p = None")
    case False
    obtain s1 r where c: "new_identity s = (s1, r)" by force
    obtain g out q where rg: "register H (co_registry s1) r = (g, out, q)" by (metis prod_cases3)
    let ?s2 = "with_registry s1 g"
    have "\<exists>l. segment H L ?s2 l (fst (claim_proxy_response build H s i m p))"
    proof (cases "out \<in> {RegNew, RegReplay} \<and> q \<noteq> None")
      case True
      then obtain x where q: "q = Some x" by blast
      obtain g' a where b: "begin_response H (co_registry ?s2) x = (g', a)" by force
      show ?thesis
      proof (cases "\<exists>z. a = Inr (Admitted, z)")
        case adm: True
        then obtain z where "begin_response H (co_registry ?s2) x = (g', Inr (Admitted, z))" using b by blast
        from segment_begin [OF this, of "ProxyClaimed x" L]
        show ?thesis using False True c rg q b adm
          by (auto simp: claim_proxy_response_def Let_def with_registry_def)
      next
        case no: False
        have same: "g' = co_registry ?s2"
          using b no not_admitted_same [of H "co_registry ?s2" x g'] begin_raised_same [of H "co_registry ?s2" x g']
          by (cases a) auto
        have "fst (claim_proxy_response build H s i m p) = ?s2"
          using False True c rg q b no same
          by (auto simp: claim_proxy_response_def Let_def tell_def split: sum.split)
        then show ?thesis using segment_refl by metis
      qed
    next
      case no: False
      have "fst (claim_proxy_response build H s i m p) = ?s2"
        using False c rg no by (cases q) (auto simp: claim_proxy_response_def Let_def split: bool.split)
      then show ?thesis using segment_refl by metis
    qed
    then show ?thesis by (rule segment_then [OF registered [OF c rg]])
  qed (use segment_none [of H L s] in \<open>auto simp: claim_proxy_response_def Let_def\<close>)
qed

lemma segment_finish_proxy: "\<exists>l. segment H L s l (fst (finish_proxy_response H s r out))"
proof -
  have "segment H L s [] (with_registry s (fst (finish_response H (co_registry s) r out)))" if "out \<noteq> NotSent"
    by (rule segment_calm [where x = "FinishResponse r out"]) (use that in \<open>simp_all add: with_registry_def\<close>)
  then show ?thesis using segment_none [of H L s]
    by (auto simp: finish_proxy_response_def split: prod.split)
qed

lemma segment_resolve_proxy: "\<exists>l. segment H L s l (fst (resolve_proxy_request fr txt build H ports s i m p))"
proof -
  let ?n = "rg_connection_generation (co_registry s)"
  show ?thesis
  proof (cases "?n \<le> 0 \<or> build i ?n m p = None")
    case False
    obtain s1 r where c: "new_identity s = (s1, r)" by force
    obtain g out q where rg: "register H (co_registry s1) r = (g, out, q)" by (metis prod_cases3)
    have "\<exists>l. segment H L (with_registry s1 g) l (fst (resolve_proxy_request fr txt build H ports s i m p))"
      using False c rg segment_none [of H L "with_registry s1 g"] segment_resolved [of H L "with_registry s1 g" fr "txt" ports]
      by (auto simp: resolve_proxy_request_def Let_def)
    then show ?thesis by (rule segment_then [OF registered [OF c rg]])
  qed (use segment_none [of H L s] in \<open>auto simp: resolve_proxy_request_def Let_def\<close>)
qed

lemma segment_submit:
  assumes nested: "\<And>s. \<exists>l. segment H L s l (during s)"
  shows "\<exists>l. segment H L s l (fst (submit_response H during out s r))"
proof -
  obtain g a where b: "begin_response H (co_registry s) r = (g, a)" by force
  show ?thesis
  proof (cases "\<exists>z. a = Inr (Admitted, z)")
    case True
    then obtain z where adm: "begin_response H (co_registry s) r = (g, Inr (Admitted, z))" using b by blast
    let ?s1 = "tell [Sent r out] (with_registry s g)"
    let ?s2 = "during ?s1" let ?s3 = "with_registry ?s2 (fst (finish_response H (co_registry ?s2) r (finish_of out)))"
    have e: "fst (submit_response H during out s r) = ?s3"
      by (auto simp: submit_response_def adm co_finish_response_def Let_def split: prod.split)
    obtain l where l: "segment H L ?s1 l ?s2" using nested by blast
    show ?thesis
    proof (cases "out = SendPreSendError")
      case True
      then show ?thesis using segment_unsent [OF adm, of L l ?s2] l e by (auto simp: finish_of_def)
    next
      case False
      have f: "finish_of out \<noteq> NotSent" using False by (cases out) (simp_all add: finish_of_def)
      have "segment H L ?s2 [] ?s3"
        by (rule segment_calm [where x = "FinishResponse r (finish_of out)"]) (use f in \<open>simp_all add: with_registry_def\<close>)
      moreover have "segment H L s [Sent r out] ?s1" by (rule segment_begin [OF adm]) simp_all
      ultimately show ?thesis using l segment_trans e by metis
    qed
  next
    case False
    have "g = co_registry s"
      using b False not_admitted_same [of H "co_registry s" r g] begin_raised_same [of H "co_registry s" r g]
      by (cases a) auto
    then have "fst (submit_response H during out s r) = s"
      using b False by (auto simp: submit_response_def Let_def split: sum.split)
    then show ?thesis using segment_refl by metis
  qed
qed

lemma segment_surface:
  assumes "\<And>s. \<exists>l. segment H L s l (during s)"
  shows "\<exists>l. segment H L s l (fst (submit_surface_response H during out s r))"
proof -
  have "fst (submit_surface_response H during out s r) \<in> {s, fst (submit_response H during out s r)}"
    by (auto simp: submit_surface_response_def bindc_def split: prod.splits sum.splits)
  then show ?thesis using segment_submit [OF assms, where out = out and s = s and r = r] segment_none [of H L s] by auto
qed

lemma segment_revoke: "\<exists>l. segment H L s l (fst (revoke_surface_response_authority H s r))"
proof -
  let ?g = "fst (revoke_response_authority H (co_registry s) r)"
  have "segment H L s l (tell l (with_registry s ?g))" if "removal_log H l 0" for l
    using segment_settled [of s "RevokeResponse r" H l 0 L] that by simp
  from this [of "[WebRevoked r]"] this [of "[]"] show ?thesis
    by (auto simp: revoke_surface_response_authority_def removal_log_def removals_Cons tell_def split: prod.split)
qed

lemma coord_segment:
  "\<exists>l. segment (cw_heap W) L s l (coord_step W s x)"
  "\<exists>l. segment (cw_heap W) L s l (coord_steps W s xs)"
proof (induction W s x and W s xs rule: coord_step_coord_steps.induct)
  case (12 W s)
  have "segment (cw_heap W) L s [AutoShutdown] (tell [AutoShutdown] s)" by (rule segment_tell) simp_all
  then show ?case by (auto simp: coordinator_shutdown_def)
next
  case (13 W s)
  show ?case by (simp add: segment_none)
next
  case (14 W s x xs)
  then show ?case using segment_trans by simp blast
qed (simp_all add: segment_activate segment_retire segment_notification segment_resolved segment_claim_proxy
    segment_finish_proxy segment_resolve_proxy segment_revoke segment_route segment_submit segment_surface)

lemma new_coordinator_inv: "coord_inv H limit (new_coordinator (empty_registry limit))"
  using registry.init_inv [of H limit]
  by (simp add: coord_inv_def new_coordinator_def active_def) (simp add: empty_registry_def)

lemma coord_run:
  assumes "coord_inv (cw_heap W) L s"
  obtains l where "co_log (coord_steps W s xs) = co_log s @ l" and "coord_inv (cw_heap W) L (coord_steps W s xs)"
    and "keeps_shut (cw_heap W) s l (coord_steps W s xs)"
    and "once_then (cw_heap W) L (taken (co_registry (coord_steps W s xs))) l"
  using coord_segment(2) [of W L s xs] assms unfolding segment_def by blast

section \<open>The roots a resolution affects\<close>

definition reported_roots :: "removal_ports \<Rightarrow> nat \<Rightarrow> string set" where
  "reported_roots ports r =
     {strip (lr_root_thread_id x) | x su. ports su r = Some x \<and> lr_outcome x = RemovalDone} - {[]}"

definition affected_roots :: "identity_heap \<Rightarrow> removal_ports \<Rightarrow> nat \<Rightarrow> string set" where
  "affected_roots H ports r =
     (if reported_roots ports r = {} then {root_for_identity (H r)} - {[]} else reported_roots ports r)"

lemma remove_from_fold:
  assumes "fold (remove_from ports r) sus (xs, roots, found) = (xs', roots', found')"
  shows "xs' = xs @ map the (filter (\<lambda>x. x \<noteq> None) (map (\<lambda>su. ports su r) sus))
    \<and> set roots' = set roots \<union> ({strip (lr_root_thread_id x) | x su. su \<in> set sus \<and> ports su r = Some x \<and> lr_outcome x = RemovalDone} - {[]})
    \<and> (found' \<longleftrightarrow> found \<or> {strip (lr_root_thread_id x) | x su. su \<in> set sus \<and> ports su r = Some x \<and> lr_outcome x = RemovalDone} - {[]} \<noteq> {})"
  using assms
proof (induction sus arbitrary: xs roots found)
  case (Cons su sus)
  let ?R = "\<lambda>sus. {strip (lr_root_thread_id x) | x su. su \<in> set sus \<and> ports su r = Some x \<and> lr_outcome x = RemovalDone} - {[]}"
  have split: "?R (su # sus) = (case ports su r of None \<Rightarrow> {} | Some x \<Rightarrow>
      if lr_outcome x = RemovalDone \<and> strip (lr_root_thread_id x) \<noteq> [] then {strip (lr_root_thread_id x)} else {}) \<union> ?R sus"
    by (auto split: option.splits)
  show ?case
  proof (cases "ports su r")
    case None
    then show ?thesis using Cons.IH [of xs roots found] Cons.prems split by (simp add: remove_from_def)
  next
    case (Some x)
    then show ?thesis using Cons.prems split
        Cons.IH [of "xs @ [x]" "roots @ [strip (lr_root_thread_id x)]" True] Cons.IH [of "xs @ [x]" roots found]
      by (cases "lr_outcome x = RemovalDone \<and> strip (lr_root_thread_id x) \<noteq> []") (auto simp: remove_from_def Let_def)
  qed
qed simp

lemma in_removers [simp]: "su \<in> set removers"
  by (cases su) (simp_all add: removers_def)

lemma sort_remdups: "sort (remdups xs) = sorted_list_of_set (set (xs :: string list))"
  by (simp add: sorted_list_of_set_sort_remdups)

lemma one_projection_removed:
  "remove_local_projections H ports s [r] =
     (tell ([AutoCancelled (sr_request_key (H r)), RemovedFrom Web r, RemovedFrom Fcodex r, RemovedFrom Feishu r]
        @ map RootReconciled (sorted_list_of_set (affected_roots H ports r))) s,
      map the (filter (\<lambda>x. x \<noteq> None) (map (\<lambda>su. ports su r) removers)), affected_roots H ports r)"
proof -
  obtain xs roots found where f: "fold (remove_from ports r) removers ([], [], False) = (xs, roots, found)" by (metis prod_cases3)
  note e = remove_from_fold [OF f]
  have rr: "set roots = reported_roots ports r" "found \<longleftrightarrow> reported_roots ports r \<noteq> {}"
    using e by (simp_all add: reported_roots_def)
  have "set (if found \<or> root_for_identity (H r) = [] then roots else roots @ [root_for_identity (H r)]) = affected_roots H ports r"
    using rr by (auto simp: affected_roots_def)
  then show ?thesis
    using e by (simp add: remove_local_projections_def remove_identity_def f sort_remdups) (simp add: removers_def)
qed

section \<open>Properties\<close>



text \<open>
  A resolution reaches every surface: when the app server resolves a pending callback, its
  automatic resolution is cancelled and all three surfaces are told, whichever of them fails; the
  answers are reported, and each affected root thread, or the thread of the callback when no surface
  named one, is reconciled exactly once.
\<close>

theorem resolution_reaches_every_surface:
  assumes "optional_jsonrpc_id_key float_repr (case map_of params ''requestId'' of None \<Rightarrow> JNull | Some v \<Rightarrow> v) = k"
    and "field_text render (map_of params ''threadId'') = sr_thread_id (H r)"
    and "map_of (rg_pending (co_registry s)) k = Some r" and "sr_request_key (H r) = k"
    and "strip k = k" and "k \<noteq> []" and "sr_thread_id (H r) \<noteq> []"
  shows "handle_server_request_resolved float_repr render H ports s params =
    (tell ([AutoCancelled k, RemovedFrom Web r, RemovedFrom Fcodex r, RemovedFrom Feishu r]
        @ map RootReconciled (sorted_list_of_set (affected_roots H ports r)))
       (with_registry s (retire_pending (co_registry s) k r)),
     \<lparr>rs_outcome = Settled, rs_request_key = k, rs_thread_id = sr_thread_id (H r),
      rs_removals = map the (filter (\<lambda>x. x \<noteq> None) [ports Web r, ports Fcodex r, ports Feishu r]),
      rs_roots = affected_roots H ports r\<rparr>)"
proof -
  have t: "strip (sr_thread_id (H r)) = sr_thread_id (H r)" unfolding assms(2) [symmetric]
    by (simp add: field_text_def split: option.split json.split)
  have "settle H (co_registry s) k (sr_thread_id (H r)) = (retire_pending (co_registry s) k r, Settled, Some r)"
    using assms(3,5,6,7) t by (simp add: settle_def Let_def)
  then show ?thesis
    unfolding handle_server_request_resolved_def assms(1,2) Let_def
    by (simp add: one_projection_removed resolution_of_def assms(4)) (simp add: removers_def)
qed

section \<open>Witnesses\<close>

definition demo_world :: coord_world where
  "demo_world = \<lparr>cw_float_repr = (\<lambda>_. []), cw_txt = (\<lambda>_. []), cw_heap = demo_identities,
     cw_build = (\<lambda>i g m p. Some (demo_identities 0))\<rparr>"

definition demo_route :: coord_op where
  "demo_route = RouteRequest 1 (JInt 1) ''m'' (JObj []) demo_surfaces []"



theorem resolution_reaches_every_surface_witness:
  "snd (handle_server_request_resolved (\<lambda>_. []) (\<lambda>_. []) demo_identities (\<lambda>su r. None)
      (coord_steps demo_world (new_coordinator (empty_registry 3)) [ActivateConnection 1, demo_route])
      [(''requestId'', JInt 1), (''threadId'', JStr ''t1'')])
   = \<lparr>rs_outcome = Settled, rs_request_key = ''integer:1'', rs_thread_id = ''t1'', rs_removals = [],
      rs_roots = affected_roots demo_identities (\<lambda>su r. None) 0\<rparr>"
proof -
  let ?s = "coord_steps demo_world (new_coordinator (empty_registry 3)) [ActivateConnection 1, demo_route]"
  let ?p = "[(''requestId'', JInt 1), (''threadId'', JStr ''t1'')]"
  have k: "optional_jsonrpc_id_key (\<lambda>_. []) (case map_of ?p ''requestId'' of None \<Rightarrow> JNull | Some v \<Rightarrow> v) = ''integer:1''"
    and t: "field_text (\<lambda>_. []) (map_of ?p ''threadId'') = sr_thread_id (demo_identities 0)"
    and m: "map_of (rg_pending (co_registry ?s)) ''integer:1'' = Some 0"
    and h: "sr_request_key (demo_identities 0) = ''integer:1''" "strip ''integer:1'' = ''integer:1''"
      "sr_thread_id (demo_identities 0) = ''t1''"
    by code_simp+
  have "sr_thread_id (demo_identities 0) \<noteq> []" by (simp add: h(3))
  from resolution_reaches_every_surface [where H = demo_identities and r = 0 and params = ?p and render = "\<lambda>_. []"
      and ports = "\<lambda>su r. None", OF k t m h(1,2) _ this]
  show ?thesis by (simp add: h(3))
qed

end
