(* ===== verification/Backend_Reset.thy ===== *)
theory Backend_Reset
  imports Interaction_Lease_Ledger Thread_Runtime_Ledger Ingress_Gate Request_Coordinator Request_Authority
    Resume_Operations Effective_Settings
begin

text \<open>
  The replacement of the owned app server (\<open>bot/backend_reset/coordinator.py\<close>,
  \<open>bot/backend_reset/contract.py\<close>) as one transaction over the modelled authorities: the ingress
  gate, the two lease stores, the request coordinator, the response authority and the runtime
  authority with the reported settings.

  The reset runs on the runtime loop. While the gate waits for running writes to drain, other
  threads go on: the writers leave, the reader thread records disconnects, the waiting call wakes
  up. These are the gate operations \<open>re_fence_wait\<close> and \<open>re_reset_wait\<close>; when they end before the
  drain does, the reset has not returned. \<open>re_foreign\<close> is what other processes do to the lease file while the
  backend stops. Every other port succeeds or raises by the environment; its calls are listed in
  \<open>bs_calls\<close>.
\<close>

section \<open>The contract\<close>

definition max_safe_generation :: int where
  "max_safe_generation = 9007199254740991"

text \<open>\<open>None\<close> is \<open>ValueError\<close>.\<close>

definition require_reset_generation :: "json \<Rightarrow> int option" where
  "require_reset_generation v =
     (case v of JInt n \<Rightarrow> if n \<le> 0 \<or> max_safe_generation < n then None else Some n | _ \<Rightarrow> None)"

record reset_result =
  rt_force :: bool
  rt_detached :: "string list"
  rt_interrupted :: "string list"
  rt_retired_requests :: int
  rt_purged :: "string list"
  rt_warnings :: "string list"
  rt_url :: string

definition decode_reset_force :: "jdict \<Rightarrow> bool option" where
  "decode_reset_force values =
     (case map_of values ''force'' of None \<Rightarrow> Some False | Some (JBool b) \<Rightarrow> Some b | Some _ \<Rightarrow> None)"

definition decode_result_text :: "json \<Rightarrow> string option" where
  "decode_result_text v = (case v of JStr s \<Rightarrow> if strip s = [] then None else Some (strip s) | _ \<Rightarrow> None)"

definition decode_result_list :: "json \<Rightarrow> string list option" where
  "decode_result_list v = (case v of JArr xs \<Rightarrow> those (map decode_result_text xs) | _ \<Rightarrow> None)"

definition result_fields :: "string set" where
  "result_fields =
     {''force'', ''detached_binding_ids'', ''interrupted_binding_ids'', ''retired_request_count'', ''purged_thread_ids'',
      ''projection_warnings'', ''app_server_url''}"

definition result_field :: "jdict \<Rightarrow> string \<Rightarrow> json" where
  "result_field raw k = (case map_of raw k of None \<Rightarrow> JNull | Some v \<Rightarrow> v)"

definition decode_result_count :: "json \<Rightarrow> int option" where
  "decode_result_count v = (case v of JInt n \<Rightarrow> if n < 0 then None else Some n | _ \<Rightarrow> None)"

text \<open>\<open>None\<close> is \<open>BackendResetResultContractError\<close>.\<close>

definition decode_reset_result :: "json \<Rightarrow> bool \<Rightarrow> reset_result option" where
  "decode_reset_result v expected_force =
     (case v of
        JObj raw \<Rightarrow>
          (if fst ` set raw \<noteq> result_fields then None
           else if result_field raw ''force'' \<noteq> JBool expected_force then None
           else case (decode_result_count (result_field raw ''retired_request_count''),
                      decode_result_text (result_field raw ''app_server_url''),
                      decode_result_list (result_field raw ''detached_binding_ids''),
                      decode_result_list (result_field raw ''interrupted_binding_ids''),
                      decode_result_list (result_field raw ''purged_thread_ids''),
                      decode_result_list (result_field raw ''projection_warnings'')) of
             (Some n, Some url, Some detached, Some interrupted, Some purged, Some warnings) \<Rightarrow>
               Some \<lparr>rt_force = expected_force, rt_detached = detached, rt_interrupted = interrupted,
                     rt_retired_requests = n, rt_purged = purged, rt_warnings = warnings, rt_url = url\<rparr>
           | _ \<Rightarrow> None)
      | _ \<Rightarrow> None)"

section \<open>State and environment\<close>

datatype reset_call =
    StopCalled | FcodexSettled | WebRetired | ProjectionRetired | RootsRetired | FeishuRetired | CardsDispatched
  | AuthorityRotated | OwnerClosed | StartCalled | GenerationAsked | EndpointAsked

datatype reset_exn =
    GateFailed gate_exn
  | LeasesFailed store_exn
  | RequestsFailed coord_exn
  | RuntimeFailed runtime_exn
  | ResetPortFailed reset_call
  | InvalidProjection
  | InvalidReplacementGeneration
  | NoReplacementEndpoint
  | StaleGeneration int "int option" string
  | ResetNotAvailable
  | ResetValueError
  | StillWaiting

record backend_system =
  bs_gate :: gate_system
  bs_leases :: disk
  bs_runtime_leases :: disk
  bs_requests :: coordinator
  bs_authority :: authority_registry
  bs_runtime :: runtime_authority
  bs_settings :: settings_registry
  bs_instance :: string
  bs_calls :: "reset_call list"

datatype projection_answer = ProjectionReceipt | ProjectionInvalid | ProjectionRaises

record reset_env =
  re_fence :: port_env
  re_fence_wait :: "gate_op list"
  re_lease :: lease_env
  re_procs :: proc_env
  re_foreign :: "disk \<Rightarrow> disk"
  re_ok :: "reset_call \<Rightarrow> bool"
  re_requests_raise :: bool
  re_projection :: projection_answer
  re_reset :: port_env
  re_reset_wait :: "gate_op list"
  re_runtime :: authority_env
  re_generation :: int
  re_endpoint :: string
  re_replace :: port_env

record reset_receipt =
  rc_generation :: int
  rc_leases :: backend_stop_receipt
  rc_requests :: "nat list"
  rc_rotation :: rotation_receipt
  rc_cleared_threads :: "string list"

type_synonym 'a resetting = "backend_system \<times> (reset_exn + 'a)"

section \<open>Calls of the authorities\<close>

text \<open>A drain that waits: the other threads, until the suspended call returns.\<close>

fun await :: "gate_system \<Rightarrow> gate_op list \<Rightarrow> gate_system \<times> (reset_exn + unit)" where
  "await gs [] = (gs, Inl StillWaiting)"
| "await gs (x # xs) =
     (case x of
        Wake E \<Rightarrow>
          (case wake E (gs_gate gs) of
             (g, Waits) \<Rightarrow> await (gs\<lparr>gs_gate := g\<rparr>) xs
           | (g, Raises ex) \<Rightarrow> (gs\<lparr>gs_gate := g\<rparr>, Inl (GateFailed ex))
           | (g, _) \<Rightarrow> (gs\<lparr>gs_gate := g\<rparr>, Inr ()))
      | _ \<Rightarrow> await (gate_step gs x) xs)"

definition run_gate ::
  "(ingress_gate \<Rightarrow> ingress_gate \<times> gate_outcome) \<Rightarrow> gate_op list \<Rightarrow> gate_system \<Rightarrow> gate_system \<times> (reset_exn + unit)" where
  "run_gate f waiting gs =
     (case f (gs_gate gs) of
        (g, Waits) \<Rightarrow> await (gs\<lparr>gs_gate := g\<rparr>) waiting
      | (g, Raises ex) \<Rightarrow> (gs\<lparr>gs_gate := g\<rparr>, Inl (GateFailed ex))
      | (g, _) \<Rightarrow> (gs\<lparr>gs_gate := g\<rparr>, Inr ()))"

definition gate_stage ::
  "(ingress_gate \<Rightarrow> ingress_gate \<times> gate_outcome) \<Rightarrow> gate_op list \<Rightarrow> backend_system \<Rightarrow> unit resetting" where
  "gate_stage f waiting s = (case run_gate f waiting (bs_gate s) of (gs, r) \<Rightarrow> (s\<lparr>bs_gate := gs\<rparr>, r))"

definition port_stage :: "reset_env \<Rightarrow> reset_call \<Rightarrow> backend_system \<Rightarrow> unit resetting" where
  "port_stage E c s = (s\<lparr>bs_calls := bs_calls s @ [c]\<rparr>, if re_ok E c then Inr () else Inl (ResetPortFailed c))"

definition capture_stage :: "reset_env \<Rightarrow> backend_system \<Rightarrow> backend_stop_capture resetting" where
  "capture_stage E s =
     (case il_capture_for_backend_stop (re_lease E) (bs_leases s) of
        (d, r) \<Rightarrow> (s\<lparr>bs_leases := d\<rparr>, map_sum LeasesFailed id r))"

definition stop_stage :: "reset_env \<Rightarrow> backend_system \<Rightarrow> unit resetting" where
  "stop_stage E s = port_stage E StopCalled (s\<lparr>bs_leases := re_foreign E (bs_leases s)\<rparr>)"

definition retire_leases_stage :: "reset_env \<Rightarrow> backend_stop_capture \<Rightarrow> backend_system \<Rightarrow> backend_stop_receipt resetting" where
  "retire_leases_stage E c s =
     (case il_retire_after_backend_stop (re_lease E) c (bs_leases s) of
        (d, r) \<Rightarrow> (s\<lparr>bs_leases := d\<rparr>, map_sum LeasesFailed id r))"

definition retire_requests_stage :: "reset_env \<Rightarrow> backend_system \<Rightarrow> nat list resetting" where
  "retire_requests_stage E s =
     (case retire_connection_epoch (bs_requests s) (re_requests_raise E) of
        (c, r) \<Rightarrow> (s\<lparr>bs_requests := c\<rparr>, map_sum RequestsFailed id r))"

definition projection_stage :: "reset_env \<Rightarrow> backend_system \<Rightarrow> unit resetting" where
  "projection_stage E s =
     (let s1 = s\<lparr>bs_calls := bs_calls s @ [ProjectionRetired]\<rparr>
      in case re_projection E of
           ProjectionReceipt \<Rightarrow> (s1, Inr ())
         | ProjectionInvalid \<Rightarrow> (s1, Inl InvalidProjection)
         | ProjectionRaises \<Rightarrow> (s1, Inl (ResetPortFailed ProjectionRetired)))"

definition rotate_stage :: "reset_env \<Rightarrow> backend_system \<Rightarrow> rotation_receipt resetting" where
  "rotate_stage E s =
     bindc (port_stage E AuthorityRotated s) (\<lambda>s _.
       case rotate_after_backend_stop (bs_authority s) of (a, receipt) \<Rightarrow> (s\<lparr>bs_authority := a\<rparr>, Inr receipt))"

definition purge_stage :: "reset_env \<Rightarrow> backend_system \<Rightarrow> string list resetting" where
  "purge_stage E s =
     (case trl_purge_all_for_instance (re_procs E) (bs_instance s) (bs_runtime_leases s) of
        (d, r) \<Rightarrow> (s\<lparr>bs_runtime_leases := d\<rparr>, map_sum LeasesFailed sort r))"

text \<open>The runtime authority clears the reported settings through its port.\<close>

definition confirm_stage :: "reset_env \<Rightarrow> backend_system \<Rightarrow> unit resetting" where
  "confirm_stage E s =
     (case confirm_backend_reset (re_runtime E) (bs_runtime s) of
        (a, r) \<Rightarrow> (s\<lparr>bs_runtime := a, bs_settings :=
           (if ae_clear_all (re_runtime E) = None then clear_all_settings (bs_settings s) else bs_settings s)\<rparr>, map_sum RuntimeFailed id r))"

section \<open>The transaction\<close>

text \<open>Everything after \<open>adapter.stop()\<close> that retires the old epoch; the card projection may fail.\<close>

definition retire_old_epoch ::
  "reset_env \<Rightarrow> backend_stop_capture \<Rightarrow> backend_system
    \<Rightarrow> (backend_stop_receipt \<times> nat list \<times> rotation_receipt) resetting" where
  "retire_old_epoch E capture s =
     bindc (retire_leases_stage E capture s) (\<lambda>s leases.
     bindc (retire_requests_stage E s) (\<lambda>s requests.
     bindc (port_stage E FcodexSettled s) (\<lambda>s _.
     bindc (port_stage E WebRetired s) (\<lambda>s _.
     bindc (projection_stage E s) (\<lambda>s _.
     bindc (port_stage E RootsRetired s) (\<lambda>s _.
     bindc (port_stage E FeishuRetired s) (\<lambda>s _.
     bindc (rotate_stage E (fst (port_stage E CardsDispatched s))) (\<lambda>s rotation.
       (s, Inr (leases, requests, rotation))))))))))"

text \<open>The invalidation of the connection and of what this machine holds.\<close>

definition clear_machine :: "reset_env \<Rightarrow> backend_system \<Rightarrow> string list resetting" where
  "clear_machine E s =
     bindc (gate_stage (begin_backend_reset (re_reset E)) (re_reset_wait E) s) (\<lambda>s _.
     bindc (purge_stage E s) (\<lambda>s cleared.
     bindc (port_stage E OwnerClosed s) (\<lambda>s _.
     bindc (confirm_stage E s) (\<lambda>s _. (s, Inr cleared)))))"

definition admit_replacement :: "reset_env \<Rightarrow> backend_system \<Rightarrow> unit resetting" where
  "admit_replacement E s =
     bindc (port_stage E StartCalled s) (\<lambda>s _.
     bindc (port_stage E GenerationAsked s) (\<lambda>s _.
       if re_generation E \<le> 0 then (s, Inl InvalidReplacementGeneration)
       else bindc (port_stage E EndpointAsked s) (\<lambda>s _.
         if strip (re_endpoint E) = [] then (s, Inl NoReplacementEndpoint)
         else gate_stage (\<lambda>g. admit_backend_replacement (re_replace E) g (re_generation E)) [] s)))"

definition replace_owned_backend :: "reset_env \<Rightarrow> backend_system \<Rightarrow> reset_receipt resetting" where
  "replace_owned_backend E s =
     bindc (gate_stage (\<lambda>g. fence_backend_reset (re_fence E) g None) (re_fence_wait E) s) (\<lambda>s _.
     bindc (capture_stage E s) (\<lambda>s capture.
     bindc (stop_stage E s) (\<lambda>s _.
     bindc (retire_old_epoch E capture s) (\<lambda>s retired.
     bindc (clear_machine E s) (\<lambda>s cleared.
     bindc (admit_replacement E s) (\<lambda>s _.
       (s, Inr \<lparr>rc_generation = re_generation E, rc_leases = fst retired, rc_requests = fst (snd retired),
                rc_rotation = snd (snd retired), rc_cleared_threads = cleared\<rparr>)))))))"

section \<open>Preview and fence\<close>

text \<open>\<open>physical\<close> is the adapter's answer, \<open>None\<close> when it raises.\<close>

definition preview_connection_generation :: "json option \<Rightarrow> backend_system \<Rightarrow> reset_exn + int" where
  "preview_connection_generation physical s =
     (case physical of
        None \<Rightarrow> Inl ResetNotAvailable
      | Some v \<Rightarrow>
          (case require_reset_generation v of
             None \<Rightarrow> Inl ResetNotAvailable
           | Some n \<Rightarrow>
               (let gate = gate_snapshot (gs_gate (bs_gate s))
                in if is_latest gate \<noteq> n \<or> is_blocked gate \<or> is_cleanup gate \<or> is_disconnect_pending gate
                   then Inl ResetNotAvailable else Inr n)))"

text \<open>What the adapter does with the generation: run the callback, or refuse before it.\<close>

datatype physical_fence = PhysicalMatches | PhysicalMismatch "int option" | PhysicalPreSend

definition fence_failure :: "int \<Rightarrow> reset_exn \<Rightarrow> reset_exn" where
  "fence_failure expected ex =
     (case ex of
        GateFailed (GenerationMismatch n observed) \<Rightarrow> StaleGeneration expected (Some observed) ''ingress''
      | GateFailed ResetUnavailable \<Rightarrow> ResetNotAvailable
      | _ \<Rightarrow> ex)"

definition fence_ingress ::
  "reset_env \<Rightarrow> physical_fence \<Rightarrow> json option \<Rightarrow> backend_system \<Rightarrow> unit resetting" where
  "fence_ingress E physical expected s =
     (case expected of
        None \<Rightarrow> gate_stage (\<lambda>g. fence_backend_reset (re_fence E) g None) (re_fence_wait E) s
      | Some v \<Rightarrow>
          (case require_reset_generation v of
             None \<Rightarrow> (s, Inl ResetValueError)
           | Some n \<Rightarrow>
               (case physical of
                  PhysicalMismatch observed \<Rightarrow> (s, Inl (StaleGeneration n observed ''physical''))
                | PhysicalPreSend \<Rightarrow> (s, Inl ResetNotAvailable)
                | PhysicalMatches \<Rightarrow>
                    (case gate_stage (\<lambda>g. fence_backend_reset (re_fence E) g (Some n)) (re_fence_wait E) s of
                       (s1, r) \<Rightarrow> (s1, map_sum (fence_failure n) id r)))))"

end
