(* ===== verification/Backend_Reset_Stages.thy ===== *)
theory Backend_Reset_Stages
  imports Backend_Reset
begin

text \<open>
  The stages of the backend reset: what each leaves alone, the gate while a drain waits, the order in
  which the authorities change, and what a completed stage has done.
\<close>

section \<open>Frames\<close>

lemma bindc_keeps:
  assumes "f (fst r) = v" and "\<And>s x. r = (s, Inr x) \<Longrightarrow> f s = v \<Longrightarrow> f (fst (k s x)) = v"
  shows "f (fst (bindc r k)) = v"
  using assms by (auto simp: bindc_def split: prod.splits sum.splits)

lemma port_frame [simp]:
  "bs_gate (fst (port_stage E c s)) = bs_gate s" "bs_leases (fst (port_stage E c s)) = bs_leases s"
  "bs_runtime_leases (fst (port_stage E c s)) = bs_runtime_leases s" "bs_requests (fst (port_stage E c s)) = bs_requests s"
  "bs_authority (fst (port_stage E c s)) = bs_authority s" "bs_runtime (fst (port_stage E c s)) = bs_runtime s"
  "bs_settings (fst (port_stage E c s)) = bs_settings s" "bs_instance (fst (port_stage E c s)) = bs_instance s"
  by (simp_all add: port_stage_def)

lemma port_result: "port_stage E c s = (s', Inr x) \<Longrightarrow> s' = s\<lparr>bs_calls := bs_calls s @ [c]\<rparr>"
  by (simp add: port_stage_def split: if_splits)

text \<open>The parts of the state that a group of stages leaves alone.\<close>

definition same_gate :: "backend_system \<Rightarrow> backend_system \<Rightarrow> bool" where
  "same_gate s s' = (bs_gate s' = bs_gate s \<and> bs_instance s' = bs_instance s)"

definition same_authorities :: "backend_system \<Rightarrow> backend_system \<Rightarrow> bool" where
  "same_authorities s s' =
     (bs_runtime_leases s' = bs_runtime_leases s \<and> bs_requests s' = bs_requests s \<and> bs_authority s' = bs_authority s
      \<and> bs_runtime s' = bs_runtime s \<and> bs_settings s' = bs_settings s)"

lemma gate_stage_frame: "same_authorities s (fst (gate_stage f w s)) \<and> bs_leases (fst (gate_stage f w s)) = bs_leases s
    \<and> bs_instance (fst (gate_stage f w s)) = bs_instance s"
  by (simp add: gate_stage_def same_authorities_def split: prod.split)

lemma capture_frame:
  "same_gate s (fst (capture_stage E s))" "same_authorities s (fst (capture_stage E s))"
  by (simp_all add: capture_stage_def same_authorities_def same_gate_def split: prod.split)

lemma stop_frame:
  "same_gate s (fst (stop_stage E s))" "same_authorities s (fst (stop_stage E s))"
  by (simp_all add: stop_stage_def same_authorities_def same_gate_def)

lemma retire_stage_frames:
  "same_gate s (fst (retire_leases_stage E c s))" "same_gate s (fst (retire_requests_stage E s))"
  "same_gate s (fst (projection_stage E s))" "same_gate s (fst (port_stage E p s))"
  by (simp_all add: same_gate_def retire_leases_stage_def retire_requests_stage_def projection_stage_def port_stage_def Let_def
      split: prod.split projection_answer.split)

lemma rotate_frame: "same_gate s (fst (rotate_stage E s))"
proof -
  obtain s1 r1 where "port_stage E AuthorityRotated s = (s1, r1)" by force
  moreover have "same_gate s s1" using calculation retire_stage_frames(4) by (metis fst_conv)
  ultimately show ?thesis
    by (auto simp: rotate_stage_def bindc_def same_gate_def split: sum.splits prod.splits)
qed

text \<open>A relation between the states before and after a stage that composes along a transaction.\<close>

locale stage_frame =
  fixes F :: "backend_system \<Rightarrow> backend_system \<Rightarrow> bool"
  assumes frame_refl: "F s s" and frame_trans: "F s s' \<Longrightarrow> F s' s'' \<Longrightarrow> F s s''"
begin

lemma bindc_frame:
  assumes "F s0 (fst r)" and "\<And>s x. F s (fst (k s x))"
  shows "F s0 (fst (bindc r k))"
proof (cases r)
  case (Pair s1 res)
  then show ?thesis
    using assms(1) assms(2) [of s1] frame_trans by (cases res) auto
qed

lemma unchanged: "F s (fst (s, x))"
  by (simp add: frame_refl)

end

interpretation gate_frame: stage_frame same_gate
  by unfold_locales (auto simp: same_gate_def)

lemma retire_frame: "same_gate s (fst (retire_old_epoch E c s))"
  unfolding retire_old_epoch_def
  by (intro gate_frame.bindc_frame retire_stage_frames gate_frame.frame_trans [OF _ rotate_frame]) (simp add: gate_frame.frame_refl)

section \<open>The gate during a reset\<close>

text \<open>While a reset call is suspended or finished, the fence stays and no generation is admitted.\<close>

definition reset_frame :: "ingress_gate \<Rightarrow> ingress_gate \<Rightarrow> bool" where
  "reset_frame g g' =
     (ig_blocked g' \<and> ig_latest g' = ig_latest g \<and> ig_last_disconnected g' = ig_last_disconnected g \<and> ig_epoch g \<le> ig_epoch g')"

definition reset_waiting :: "ingress_gate \<Rightarrow> bool" where
  "reset_waiting g = (ig_blocked g \<and> (ig_waiting g = Some FenceWaits \<or> ig_waiting g = Some ResetWaits))"

lemma reset_frame_trans: "reset_frame g g' \<Longrightarrow> reset_frame g' g'' \<Longrightarrow> reset_frame g g''"
  by (auto simp: reset_frame_def)

lemma waiting_step:
  assumes "reset_waiting (gs_gate gs)" and "\<And>E. x \<noteq> Wake E"
  shows "reset_waiting (gs_gate (gate_step gs x)) \<and> reset_frame (gs_gate gs) (gs_gate (gate_step gs x))"
  using assms
  by (cases x) (auto simp: reset_waiting_def reset_frame_def loop_call_def guard_enter_def guard_exit_def fence_disconnect_def
      split: sum.splits)

lemma wake_frame:
  assumes "reset_waiting g" and "wake E g = (g', out)"
  shows "reset_frame g g' \<and> (out = Waits \<longrightarrow> reset_waiting g') \<and> (out \<noteq> Waits \<longrightarrow> ig_waiting g' = None)"
  using assms
  by (auto simp: wake_def reset_waiting_def reset_frame_def run_invalidation_def drain_failed_def Let_def
      split: if_splits)

lemma await_frame:
  assumes "reset_waiting (gs_gate gs)" and "await gs xs = (gs', r)"
  shows "reset_frame (gs_gate gs) (gs_gate gs') \<and> (r = Inr () \<longrightarrow> ig_waiting (gs_gate gs') = None)"
  using assms
proof (induction xs arbitrary: gs)
  case Nil
  then show ?case by (auto simp: reset_frame_def reset_waiting_def)
next
  case (Cons x xs)
  show ?case
  proof (cases "\<exists>E. x = Wake E")
    case True
    then obtain E where x: "x = Wake E" by blast
    obtain g out where w: "wake E (gs_gate gs) = (g, out)" by force
    note f = wake_frame [OF Cons.prems(1) w]
    show ?thesis
    proof (cases out)
      case Waits
      then have "await (gs\<lparr>gs_gate := g\<rparr>) xs = (gs', r)" using Cons.prems(2) x w by simp
      moreover have "reset_waiting (gs_gate (gs\<lparr>gs_gate := g\<rparr>))" using f Waits by simp
      ultimately have "reset_frame (gs_gate (gs\<lparr>gs_gate := g\<rparr>)) (gs_gate gs') \<and> (r = Inr () \<longrightarrow> ig_waiting (gs_gate gs') = None)"
        by (intro Cons.IH)
      then show ?thesis using f reset_frame_trans by fastforce
    qed (use Cons.prems(2) x w f in auto)
  next
    case False
    then have s: "await (gate_step gs x) xs = (gs', r)" using Cons.prems(2) by (cases x) simp_all
    have st: "reset_waiting (gs_gate (gate_step gs x)) \<and> reset_frame (gs_gate gs) (gs_gate (gate_step gs x))"
      using waiting_step [OF Cons.prems(1)] False by blast
    from Cons.IH [OF _ s] st show ?thesis using reset_frame_trans by blast
  qed
qed

lemma run_gate_frame:
  assumes "run_gate f w gs = (gs', r)"
    and "\<And>g out. f (gs_gate gs) = (g, out) \<Longrightarrow> reset_frame (gs_gate gs) g \<and> (out = Waits \<longrightarrow> reset_waiting g)
      \<and> (out \<noteq> Waits \<longrightarrow> ig_waiting g = None)"
  shows "reset_frame (gs_gate gs) (gs_gate gs') \<and> (r = Inr () \<longrightarrow> ig_waiting (gs_gate gs') = None)"
proof -
  obtain g out where f: "f (gs_gate gs) = (g, out)" by force
  note a = assms(2) [OF f]
  show ?thesis
  proof (cases out)
    case Waits
    then have "await (gs\<lparr>gs_gate := g\<rparr>) w = (gs', r)" using assms(1) f by (simp add: run_gate_def)
    moreover have "reset_waiting (gs_gate (gs\<lparr>gs_gate := g\<rparr>))" using a Waits by simp
    ultimately show ?thesis using await_frame reset_frame_trans a by fastforce
  qed (use assms(1) f a in \<open>auto simp: run_gate_def\<close>)
qed

lemma fence_frame:
  assumes "ig_waiting g = None" and "fence_backend_reset E g None = (g', out)"
  shows "reset_frame g g' \<and> ig_epoch g < ig_epoch g' \<and> (out = Waits \<longrightarrow> reset_waiting g') \<and> (out \<noteq> Waits \<longrightarrow> ig_waiting g' = None)"
  using assms by (auto simp: fence_backend_reset_def drain_def reset_frame_def reset_waiting_def advance_epoch_def Let_def split: if_splits)

lemma begin_frame:
  assumes "ig_waiting g = None" and "ig_blocked g" and "begin_backend_reset E g = (g', out)"
  shows "reset_frame g g' \<and> (out = Waits \<longrightarrow> reset_waiting g') \<and> (out \<noteq> Waits \<longrightarrow> ig_waiting g' = None)"
  using assms
  by (auto simp: begin_backend_reset_def invalidate_facts_def drain_def reset_frame_def reset_waiting_def advance_epoch_def
      run_invalidation_def Let_def split: if_splits)

lemma fence_stage:
  assumes "ig_waiting (gs_gate (bs_gate s)) = None"
    and "gate_stage (\<lambda>g. fence_backend_reset E g None) w s = (s', r)"
  shows "reset_frame (gs_gate (bs_gate s)) (gs_gate (bs_gate s')) \<and> ig_epoch (gs_gate (bs_gate s)) < ig_epoch (gs_gate (bs_gate s'))
    \<and> (r = Inr () \<longrightarrow> ig_waiting (gs_gate (bs_gate s')) = None)"
proof -
  let ?g = "gs_gate (bs_gate s)"
  obtain gs' where g: "run_gate (\<lambda>g. fence_backend_reset E g None) w (bs_gate s) = (gs', r)" "bs_gate s' = gs'"
    using assms(2) by (auto simp: gate_stage_def split: prod.splits)
  have "reset_frame ?g (gs_gate gs') \<and> (r = Inr () \<longrightarrow> ig_waiting (gs_gate gs') = None)"
    by (rule run_gate_frame [OF g(1)]) (use fence_frame [OF assms(1)] in blast)
  moreover have "ig_epoch ?g < ig_epoch (gs_gate gs')"
  proof -
    obtain g1 out where f: "fence_backend_reset E ?g None = (g1, out)" by force
    note ff = fence_frame [OF assms(1) f]
    show ?thesis
    proof (cases out)
      case Waits
      then have "await ((bs_gate s)\<lparr>gs_gate := g1\<rparr>) w = (gs', r)" using g(1) f by (simp add: run_gate_def)
      moreover have "reset_waiting (gs_gate ((bs_gate s)\<lparr>gs_gate := g1\<rparr>))" using ff Waits by simp
      ultimately have "reset_frame g1 (gs_gate gs')" using await_frame by fastforce
      then show ?thesis using ff by (simp add: reset_frame_def)
    qed (use g(1) f ff in \<open>auto simp: run_gate_def\<close>)
  qed
  ultimately show ?thesis using g(2) by simp
qed

lemma begin_stage:
  assumes "ig_waiting (gs_gate (bs_gate s)) = None" and "ig_blocked (gs_gate (bs_gate s))"
    and "gate_stage (begin_backend_reset E) w s = (s', r)"
  shows "reset_frame (gs_gate (bs_gate s)) (gs_gate (bs_gate s')) \<and> (r = Inr () \<longrightarrow> ig_waiting (gs_gate (bs_gate s')) = None)"
proof -
  obtain gs' where g: "run_gate (begin_backend_reset E) w (bs_gate s) = (gs', r)" "bs_gate s' = gs'"
    using assms(3) by (auto simp: gate_stage_def split: prod.splits)
  have "reset_frame (gs_gate (bs_gate s)) (gs_gate gs') \<and> (r = Inr () \<longrightarrow> ig_waiting (gs_gate gs') = None)"
    by (rule run_gate_frame [OF g(1)]) (use begin_frame [OF assms(1,2)] in blast)
  then show ?thesis using g(2) by simp
qed

lemma admit_gate:
  assumes "admit_backend_replacement E g n = (g', out)" and "ig_blocked g"
  shows "out = Finishes \<longrightarrow> \<not> ig_blocked g' \<and> \<not> ig_cleanup g' \<and> ig_disconnect_cleanup g' = 0 \<and> ig_latest g' = n
      \<and> ig_live g' \<and> ig_latest g < n \<and> ig_last_disconnected g < n \<and> ig_epoch g' = ig_epoch g \<and> ig_last_disconnected g' < n"
    and "out \<noteq> Finishes \<longrightarrow> ig_blocked g' \<and> (\<exists>x. out = Raises x)"
  using assms by (auto simp: admit_backend_replacement_def Let_def split: if_splits)

section \<open>Outcomes of a stage\<close>

definition outcome :: "'s \<times> ('e + 'a) \<Rightarrow> ('s \<Rightarrow> 'a \<Rightarrow> bool) \<Rightarrow> ('s \<Rightarrow> bool) \<Rightarrow> bool" where
  "outcome r Q R = (case r of (s, Inl x) \<Rightarrow> R s | (s, Inr a) \<Rightarrow> Q s a)"

lemma outcome_bindc:
  assumes "outcome r P R" and "\<And>s a. P s a \<Longrightarrow> outcome (k s a) Q R"
  shows "outcome (bindc r k) Q R"
proof (cases r)
  case (Pair s q)
  then show ?thesis using assms(1) assms(2) [of s] by (cases q) (simp_all add: outcome_def bindc_def)
qed

lemma outcome_return: "Q s a \<Longrightarrow> outcome (s, Inr a) Q R"
  by (simp add: outcome_def)

definition closed_and_idle :: "backend_system \<Rightarrow> bool" where
  "closed_and_idle s = (ig_blocked (gs_gate (bs_gate s)) \<and> ig_waiting (gs_gate (bs_gate s)) = None)"

definition gate_shut :: "backend_system \<Rightarrow> bool" where
  "gate_shut s = ig_blocked (gs_gate (bs_gate s))"

lemma same_gate_fenced:
  assumes "same_gate s (fst r)" and "closed_and_idle s"
  shows "outcome r (\<lambda>s' _. closed_and_idle s') gate_shut"
  using assms by (auto simp: outcome_def same_gate_def closed_and_idle_def gate_shut_def split: prod.splits sum.splits)

lemma fence_fenced:
  assumes "ig_waiting (gs_gate (bs_gate s)) = None"
  shows "outcome (gate_stage (\<lambda>g. fence_backend_reset E g None) w s) (\<lambda>s' _. closed_and_idle s') gate_shut"
  using fence_stage [OF assms]
  by (auto simp: outcome_def closed_and_idle_def gate_shut_def reset_frame_def split: prod.splits sum.splits)

lemma begin_fenced:
  assumes "closed_and_idle s"
  shows "outcome (gate_stage (begin_backend_reset E) w s) (\<lambda>s' _. closed_and_idle s') gate_shut"
  using begin_stage [of s E w] assms
  by (auto simp: outcome_def closed_and_idle_def gate_shut_def reset_frame_def split: prod.splits sum.splits)

lemma clear_stage_frames:
  "same_gate s (fst (purge_stage E s))" "same_gate s (fst (confirm_stage E s))"
  by (simp_all add: same_gate_def purge_stage_def confirm_stage_def split: prod.split)

lemma clear_fenced:
  assumes "closed_and_idle s"
  shows "outcome (clear_machine E s) (\<lambda>s' _. closed_and_idle s') gate_shut"
  unfolding clear_machine_def
  by (rule outcome_bindc [OF begin_fenced [OF assms]], rule outcome_bindc [OF same_gate_fenced [OF clear_stage_frames(1)]],
      assumption, rule outcome_bindc [OF same_gate_fenced [OF retire_stage_frames(4)]], assumption,
      rule outcome_bindc [OF same_gate_fenced [OF clear_stage_frames(2)]], assumption, rule outcome_return, assumption)

lemma admit_stage_shut:
  assumes "closed_and_idle s"
  shows "outcome (gate_stage (\<lambda>g. admit_backend_replacement P g n) [] s) (\<lambda>_ _. True) gate_shut"
proof -
  obtain g out where a: "admit_backend_replacement P (gs_gate (bs_gate s)) n = (g, out)" by force
  have b: "ig_blocked (gs_gate (bs_gate s))" using assms by (simp add: closed_and_idle_def)
  show ?thesis using a admit_gate [OF a b]
    by (cases out) (auto simp: outcome_def gate_shut_def gate_stage_def run_gate_def)
qed

lemma admit_shut:
  assumes "closed_and_idle s"
  shows "outcome (admit_replacement E s) (\<lambda>_ _. True) gate_shut"
proof -
  have rest: "outcome (if strip (re_endpoint E) = [] then (s, Inl NoReplacementEndpoint)
      else gate_stage (\<lambda>g. admit_backend_replacement (re_replace E) g (re_generation E)) [] s) (\<lambda>_ _. True) gate_shut"
    if "closed_and_idle s" for s
    using that admit_stage_shut [OF that] by (auto simp: outcome_def gate_shut_def closed_and_idle_def)
  have ask: "outcome (if re_generation E \<le> 0 then (s, Inl InvalidReplacementGeneration)
      else bindc (port_stage E EndpointAsked s) (\<lambda>s _. if strip (re_endpoint E) = [] then (s, Inl NoReplacementEndpoint)
        else gate_stage (\<lambda>g. admit_backend_replacement (re_replace E) g (re_generation E)) [] s)) (\<lambda>_ _. True) gate_shut"
    if "closed_and_idle s" for s
  proof (cases "re_generation E \<le> 0")
    case False
    have "outcome (bindc (port_stage E EndpointAsked s) (\<lambda>s _. if strip (re_endpoint E) = [] then (s, Inl NoReplacementEndpoint)
        else gate_stage (\<lambda>g. admit_backend_replacement (re_replace E) g (re_generation E)) [] s)) (\<lambda>_ _. True) gate_shut"
      by (rule outcome_bindc [OF same_gate_fenced [OF retire_stage_frames(4) that] rest])
    then show ?thesis using False by simp
  qed (use that in \<open>simp add: outcome_def gate_shut_def closed_and_idle_def\<close>)
  show ?thesis
    unfolding admit_replacement_def
    by (rule outcome_bindc [OF same_gate_fenced [OF retire_stage_frames(4) assms]],
        rule outcome_bindc [OF same_gate_fenced [OF retire_stage_frames(4)] ask])
qed

lemma replace_shut:
  assumes "ig_waiting (gs_gate (bs_gate s)) = None"
  shows "outcome (replace_owned_backend E s) (\<lambda>_ _. True) gate_shut"
  unfolding replace_owned_backend_def
  by (rule outcome_bindc [OF fence_fenced [OF assms]], rule outcome_bindc [OF same_gate_fenced [OF capture_frame(1)]],
      assumption, rule outcome_bindc [OF same_gate_fenced [OF stop_frame(1)]], assumption,
      rule outcome_bindc [OF same_gate_fenced [OF retire_frame]], assumption, rule outcome_bindc [OF clear_fenced],
      assumption, rule outcome_bindc [OF admit_shut], assumption, rule outcome_return, rule TrueI)

section \<open>What a completed stage has done\<close>

lemma capture_complete:
  assumes "capture_stage E s = (s', Inr c)" and "il_stored (re_lease E) (bs_leases s) t = Some l"
    and "current_process_incarnation (re_lease E) = Inr (ih_owner_pid (il_holder l), ih_owner_process_identity (il_holder l))"
  shows "l \<in> set (bc_leases c)"
proof -
  let ?e = "re_lease E"
  have mem: "x \<in> set ls" if "leases_of ?e data = Inr ls" and "map_of data t = Some j" and "decode_at ?e t j = Inr (Some x)"
    for data ls j x
    using that by (induction data arbitrary: ls) (auto split: sum.splits option.splits if_splits)
  obtain d r where "il_capture_for_backend_stop ?e (bs_leases s) = (d, Inr c)"
    using assms(1) by (auto simp: capture_stage_def map_sum_def split: prod.splits sum.splits)
  then obtain data where d: "il_locked_raw ?e (bs_leases s) = (d, Inr data)"
    and k: "(case leases_of ?e data of Inl ex \<Rightarrow> Inl ex
      | Inr ls \<Rightarrow> (if \<exists>x \<in> set ls. ih_owner_pid (il_holder x) = ih_owner_pid (il_holder l)
                       \<and> ih_owner_process_identity (il_holder x) = []
                   then Inl (Unavailable ''current-PID lease has no process incarnation'')
                   else Inr \<lparr>bc_owner_pid = ih_owner_pid (il_holder l),
                             bc_owner_process_identity = ih_owner_process_identity (il_holder l),
                             bc_leases = sort_key il_thread_id
                               (filter (\<lambda>x. ih_owner_pid (il_holder x) = ih_owner_pid (il_holder l)
                                  \<and> ih_owner_process_identity (il_holder x) = ih_owner_process_identity (il_holder l)) ls)\<rparr>))
      = Inr c"
    using assms(3) by (auto simp: il_capture_for_backend_stop_def bindc_eq_Inr)
  obtain ls where ls: "leases_of ?e data = Inr ls" using k by (cases "leases_of ?e data") simp_all
  have c: "set (bc_leases c) = {x \<in> set ls. ih_owner_pid (il_holder x) = ih_owner_pid (il_holder l)
      \<and> ih_owner_process_identity (il_holder x) = ih_owner_process_identity (il_holder l)}"
    using k unfolding ls by (auto split: if_splits)
  from no_prune_view [OF d] assms(2) have "record_view (lease_from_data ?e) (\<lambda>_. True) data t = Some l" by metis
  then obtain j where "map_of data t = Some j" "decode_at ?e t j = Inr (Some l)"
    by (auto simp: record_view_def decode_at_def split: option.splits sum.splits)
  from mem [OF ls this] show ?thesis by (simp add: c)
qed

lemma stage_result:
  "retire_leases_stage E c s = (s', Inr l) \<Longrightarrow>
    \<exists>d. il_retire_after_backend_stop (re_lease E) c (bs_leases s) = (d, Inr l) \<and> s' = s\<lparr>bs_leases := d\<rparr>"
  "retire_requests_stage E s = (s', Inr q) \<Longrightarrow>
    \<exists>d. retire_connection_epoch (bs_requests s) (re_requests_raise E) = (d, Inr q) \<and> s' = s\<lparr>bs_requests := d\<rparr>"
  "projection_stage E s = (s', Inr u) \<Longrightarrow> s' = s\<lparr>bs_calls := bs_calls s @ [ProjectionRetired]\<rparr>"
  "purge_stage E s = (s', Inr p) \<Longrightarrow>
    \<exists>d raw. trl_purge_all_for_instance (re_procs E) (bs_instance s) (bs_runtime_leases s) = (d, Inr raw) \<and> p = sort raw
      \<and> s' = s\<lparr>bs_runtime_leases := d\<rparr>"
  "confirm_stage E s = (s', Inr u) \<Longrightarrow>
    \<exists>a. confirm_backend_reset (re_runtime E) (bs_runtime s) = (a, Inr u) \<and> ae_clear_all (re_runtime E) = None
      \<and> s' = s\<lparr>bs_runtime := a, bs_settings := new_settings_registry\<rparr>"
  by (auto simp: retire_leases_stage_def retire_requests_stage_def projection_stage_def purge_stage_def confirm_stage_def
      map_sum_def Let_def confirm_backend_reset_def port_result_def clear_all_settings_def
      split: prod.splits sum.splits projection_answer.splits option.splits)

lemma rotate_result:
  assumes "rotate_stage E s = (s', Inr ro)"
  shows "rotate_after_backend_stop (bs_authority s) = (bs_authority s', ro) \<and> bs_leases s' = bs_leases s
    \<and> bs_runtime_leases s' = bs_runtime_leases s \<and> bs_requests s' = bs_requests s
    \<and> bs_runtime s' = bs_runtime s \<and> bs_settings s' = bs_settings s"
proof -
  obtain s1 q where p: "port_stage E AuthorityRotated s = (s1, q)" by force
  show ?thesis
  proof (cases q)
    case (Inr u)
    show ?thesis
      using assms port_result [OF p [unfolded Inr]]
      by (auto simp: rotate_stage_def p Inr bindc_def split: prod.splits)
  qed (use assms p in \<open>simp add: rotate_stage_def bindc_def\<close>)
qed

lemma retire_result:
  assumes "retire_old_epoch E c s = (s', Inr (l, q, ro))"
  shows "il_retire_after_backend_stop (re_lease E) c (bs_leases s) = (bs_leases s', Inr l)"
    and "retire_connection_epoch (bs_requests s) (re_requests_raise E) = (bs_requests s', Inr q)"
    and "rotate_after_backend_stop (bs_authority s) = (bs_authority s', ro)"
    and "bs_runtime_leases s' = bs_runtime_leases s" and "bs_runtime s' = bs_runtime s" and "bs_settings s' = bs_settings s"
proof -
  obtain s1 s2 s3 s4 s5 s6 s7 where 1: "retire_leases_stage E c s = (s1, Inr l)" and 2: "retire_requests_stage E s1 = (s2, Inr q)"
    and 3: "port_stage E FcodexSettled s2 = (s3, Inr ())" and 4: "port_stage E WebRetired s3 = (s4, Inr ())"
    and 5: "projection_stage E s4 = (s5, Inr ())" and 6: "port_stage E RootsRetired s5 = (s6, Inr ())"
    and 7: "port_stage E FeishuRetired s6 = (s7, Inr ())"
    and 8: "rotate_stage E (fst (port_stage E CardsDispatched s7)) = (s', Inr ro)"
    using assms by (auto simp: retire_old_epoch_def bindc_eq_Inr)
  obtain d where d: "il_retire_after_backend_stop (re_lease E) c (bs_leases s) = (d, Inr l)" and s1: "s1 = s\<lparr>bs_leases := d\<rparr>"
    using stage_result(1) [OF 1] by blast
  obtain k where k: "retire_connection_epoch (bs_requests s1) (re_requests_raise E) = (k, Inr q)" and s2: "s2 = s1\<lparr>bs_requests := k\<rparr>"
    using stage_result(2) [OF 2] by blast
  note frames = port_result [OF 3] port_result [OF 4] stage_result(3) [OF 5] port_result [OF 6] port_result [OF 7]
  note rot = rotate_result [OF 8]
  show "il_retire_after_backend_stop (re_lease E) c (bs_leases s) = (bs_leases s', Inr l)"
    and "retire_connection_epoch (bs_requests s) (re_requests_raise E) = (bs_requests s', Inr q)"
    and "rotate_after_backend_stop (bs_authority s) = (bs_authority s', ro)"
    and "bs_runtime_leases s' = bs_runtime_leases s" and "bs_runtime s' = bs_runtime s" and "bs_settings s' = bs_settings s"
    using rot d k by (simp_all add: frames s1 s2)
qed

lemma clear_result:
  assumes "clear_machine E s = (s', Inr cleared)"
  shows "\<exists>raw. trl_purge_all_for_instance (re_procs E) (bs_instance s) (bs_runtime_leases s) = (bs_runtime_leases s', Inr raw)
      \<and> cleared = sort raw"
    and "confirm_backend_reset (re_runtime E) (bs_runtime s) = (bs_runtime s', Inr ())"
    and "bs_settings s' = new_settings_registry" and "bs_leases s' = bs_leases s" and "bs_requests s' = bs_requests s"
    and "bs_authority s' = bs_authority s"
    and "\<exists>t. gate_stage (begin_backend_reset (re_reset E)) (re_reset_wait E) s = (t, Inr ()) \<and> bs_gate s' = bs_gate t"
proof -
  obtain s1 s2 s3 where 1: "gate_stage (begin_backend_reset (re_reset E)) (re_reset_wait E) s = (s1, Inr ())"
    and 2: "purge_stage E s1 = (s2, Inr cleared)" and 3: "port_stage E OwnerClosed s2 = (s3, Inr ())"
    and 4: "confirm_stage E s3 = (s', Inr ())"
    using assms by (auto simp: clear_machine_def bindc_eq_Inr)
  have f: "bs_leases s1 = bs_leases s" "bs_runtime_leases s1 = bs_runtime_leases s" "bs_requests s1 = bs_requests s"
    "bs_authority s1 = bs_authority s" "bs_runtime s1 = bs_runtime s" "bs_instance s1 = bs_instance s"
    using gate_stage_frame [of s "begin_backend_reset (re_reset E)" "re_reset_wait E"] 1 by (auto simp: same_authorities_def)
  note s3 = port_result [OF 3]
  show "\<exists>raw. trl_purge_all_for_instance (re_procs E) (bs_instance s) (bs_runtime_leases s) = (bs_runtime_leases s', Inr raw)
      \<and> cleared = sort raw"
    and "confirm_backend_reset (re_runtime E) (bs_runtime s) = (bs_runtime s', Inr ())"
    and "bs_settings s' = new_settings_registry" and "bs_leases s' = bs_leases s" and "bs_requests s' = bs_requests s"
    and "bs_authority s' = bs_authority s"
    using stage_result(4) [OF 2] stage_result(5) [OF 4] f by (auto simp: s3)
  have "bs_gate s' = bs_gate s1" using stage_result(4) [OF 2] stage_result(5) [OF 4] by (auto simp: s3)
  then show "\<exists>t. gate_stage (begin_backend_reset (re_reset E)) (re_reset_wait E) s = (t, Inr ()) \<and> bs_gate s' = bs_gate t"
    using 1 by blast
qed

lemma admit_result:
  assumes "admit_replacement E s = (s', Inr ())" and "closed_and_idle s"
  shows "bs_leases s' = bs_leases s" and "bs_runtime_leases s' = bs_runtime_leases s" and "bs_requests s' = bs_requests s"
    and "bs_authority s' = bs_authority s" and "bs_runtime s' = bs_runtime s" and "bs_settings s' = bs_settings s"
    and "admit_backend_replacement (re_replace E) (gs_gate (bs_gate s)) (re_generation E) = (gs_gate (bs_gate s'), Finishes)"
proof -
  let ?f = "\<lambda>g. admit_backend_replacement (re_replace E) g (re_generation E)"
  obtain s1 s2 s3 where 1: "port_stage E StartCalled s = (s1, Inr ())" and 2: "port_stage E GenerationAsked s1 = (s2, Inr ())"
    and 3: "port_stage E EndpointAsked s2 = (s3, Inr ())" and 4: "gate_stage ?f [] s3 = (s', Inr ())"
    using assms(1) by (auto simp: admit_replacement_def bindc_eq_Inr split: if_splits)
  note s3 = port_result [OF 1] port_result [OF 2] port_result [OF 3]
  show "bs_leases s' = bs_leases s" and "bs_runtime_leases s' = bs_runtime_leases s" and "bs_requests s' = bs_requests s"
    and "bs_authority s' = bs_authority s" and "bs_runtime s' = bs_runtime s" and "bs_settings s' = bs_settings s"
    using gate_stage_frame [of s3 ?f "[]"] 4 by (auto simp: same_authorities_def s3)
  obtain g out where a: "?f (gs_gate (bs_gate s)) = (g, out)" by force
  have b: "ig_blocked (gs_gate (bs_gate s))" using assms(2) by (simp add: closed_and_idle_def)
  have "out = Finishes" using a admit_gate(2) [OF a b] 4
    by (cases out) (auto simp: gate_stage_def run_gate_def s3)
  then show "?f (gs_gate (bs_gate s)) = (gs_gate (bs_gate s'), Finishes)"
    using a 4 by (auto simp: gate_stage_def run_gate_def s3)
qed

lemma begin_epoch:
  assumes "gate_stage (begin_backend_reset E) w s = (s', Inr u)" and "closed_and_idle s"
  shows "ig_epoch (gs_gate (bs_gate s)) < ig_epoch (gs_gate (bs_gate s'))"
proof -
  let ?g = "gs_gate (bs_gate s)"
  obtain g out where b: "begin_backend_reset E ?g = (g, out)" by force
  have bl: "ig_blocked ?g" "ig_waiting ?g = None" using assms(2) by (simp_all add: closed_and_idle_def)
  have e: "ig_epoch ?g < ig_epoch g"
    using b by (auto simp: begin_backend_reset_def bl invalidate_facts_def drain_def advance_epoch_def run_invalidation_def
        Let_def split: if_splits)
  show ?thesis
  proof (cases out)
    case Waits
    have w: "reset_waiting (gs_gate ((bs_gate s)\<lparr>gs_gate := g\<rparr>))" using begin_frame [OF bl(2,1) b] Waits by simp
    obtain gs' where "await ((bs_gate s)\<lparr>gs_gate := g\<rparr>) w = (gs', Inr u)" "bs_gate s' = gs'"
      using assms(1) b Waits by (auto simp: gate_stage_def run_gate_def split: prod.splits)
    with await_frame [OF w this(1)] e show ?thesis by (simp add: reset_frame_def)
  qed (use assms(1) b e in \<open>auto simp: gate_stage_def run_gate_def\<close>)
qed

section \<open>What a reset that stops half-way has changed\<close>

lemma outcome_frame: "I (fst r) \<Longrightarrow> outcome r (\<lambda>s _. I s) I"
  by (auto simp: outcome_def split: prod.splits sum.splits)

lemma outcome_weaken: "outcome r Q R \<Longrightarrow> (\<And>s a. Q s a \<Longrightarrow> Q' s a) \<Longrightarrow> (\<And>s. R s \<Longrightarrow> R' s) \<Longrightarrow> outcome r Q' R'"
  by (auto simp: outcome_def split: prod.splits sum.splits)

definition same_machine :: "backend_system \<Rightarrow> backend_system \<Rightarrow> bool" where
  "same_machine s s' = (bs_runtime_leases s' = bs_runtime_leases s \<and> bs_runtime s' = bs_runtime s \<and> bs_settings s' = bs_settings s)"

definition epoch_retired :: "backend_system \<Rightarrow> backend_system \<Rightarrow> bool" where
  "epoch_retired s s' =
     (rg_pending (co_registry (bs_requests s')) = [] \<and> au_generations (bs_authority s') = []
      \<and> au_epoch (bs_authority s') = au_epoch (bs_authority s) + 1)"

definition in_order :: "reset_env \<Rightarrow> backend_system \<Rightarrow> backend_system \<Rightarrow> bool" where
  "in_order E s s' =
     ((same_authorities s s' \<or> re_ok E StopCalled) \<and> (same_machine s s' \<or> re_ok E StopCalled \<and> epoch_retired s s'))"

lemma same_machineI: "same_authorities s s' \<Longrightarrow> same_machine s s'"
  by (simp add: same_authorities_def same_machine_def)

interpretation authority_frame: stage_frame same_authorities
  by unfold_locales (auto simp: same_authorities_def)

lemma untouched_order: "same_authorities s s' \<Longrightarrow> in_order E s s'"
  by (simp add: in_order_def same_machineI)

lemma fence_order:
  assumes "same_authorities s (fst r)"
  shows "outcome r (\<lambda>s' _. same_authorities s s') (in_order E s)"
  by (rule outcome_weaken [OF outcome_frame, of "same_authorities s", OF assms]) (simp_all add: untouched_order)

lemma stop_order:
  assumes "same_authorities s s1"
  shows "outcome (stop_stage E s1) (\<lambda>s' _. same_machine s s' \<and> bs_authority s' = bs_authority s \<and> re_ok E StopCalled) (in_order E s)"
proof -
  have "same_authorities s (fst (stop_stage E s1))" using assms stop_frame(2) authority_frame.frame_trans by blast
  then show ?thesis
    by (auto simp: outcome_def stop_stage_def port_stage_def untouched_order same_machine_def same_authorities_def)
qed

lemma retire_machine_frames:
  "same_machine s (fst (retire_leases_stage E c s))" "same_machine s (fst (retire_requests_stage E s))"
  "same_machine s (fst (projection_stage E s))" "same_machine s (fst (port_stage E p s))"
  by (simp_all add: same_machine_def retire_leases_stage_def retire_requests_stage_def projection_stage_def port_stage_def Let_def
      split: prod.split projection_answer.split)

interpretation machine_frame: stage_frame same_machine
  by unfold_locales (auto simp: same_machine_def)

lemma rotate_machine: "same_machine s (fst (rotate_stage E s))"
proof -
  obtain s1 r1 where "port_stage E AuthorityRotated s = (s1, r1)" by force
  moreover have "same_machine s s1" using calculation retire_machine_frames(4) by (metis fst_conv)
  ultimately show ?thesis
    by (auto simp: rotate_stage_def bindc_def same_machine_def split: sum.splits prod.splits)
qed

lemma retire_machine: "same_machine s (fst (retire_old_epoch E c s))"
  unfolding retire_old_epoch_def
  by (intro machine_frame.bindc_frame retire_machine_frames machine_frame.frame_trans [OF _ rotate_machine]) (simp add: machine_frame.frame_refl)

lemma requests_retired:
  "retire_connection_epoch c b = (c', Inr q) \<Longrightarrow>
    rg_pending (co_registry c') = [] \<and> q = map snd (rg_pending (co_registry c))"
  by (auto simp: retire_connection_epoch_def clear_connection_epoch_def clear_epoch_state_def with_registry_def tell_def
      Let_def split: if_splits)

lemma authority_rotated:
  "rotate_after_backend_stop a = (a', ro) \<Longrightarrow> au_generations a' = [] \<and> au_epoch a' = au_epoch a + 1"
  by (auto simp: rotate_after_backend_stop_def)

lemma retire_order:
  assumes "same_machine s s1 \<and> bs_authority s1 = bs_authority s \<and> re_ok E StopCalled"
  shows "outcome (retire_old_epoch E c s1) (\<lambda>s' _. re_ok E StopCalled \<and> epoch_retired s s') (in_order E s)"
proof -
  obtain s' r where r: "retire_old_epoch E c s1 = (s', r)" by force
  have m: "same_machine s s'" using assms retire_machine [of s1 E c] r machine_frame.frame_trans by (metis fst_conv)
  show ?thesis
  proof (cases r)
    case (Inl x)
    then show ?thesis using m assms r by (simp add: outcome_def in_order_def)
  next
    case (Inr a)
    obtain l q ro where a: "a = (l, q, ro)" by (cases a)
    note t = retire_result(2,3) [OF r [unfolded Inr a]]
    have "epoch_retired s s'"
      using assms requests_retired [OF t(1)] authority_rotated [OF t(2)] by (simp add: epoch_retired_def)
    then show ?thesis using r Inr assms by (simp add: outcome_def)
  qed
qed

definition same_wire :: "backend_system \<Rightarrow> backend_system \<Rightarrow> bool" where
  "same_wire s s' = (bs_requests s' = bs_requests s \<and> bs_authority s' = bs_authority s)"

lemma wire_frames:
  "same_wire s (fst (gate_stage f w s))" "same_wire s (fst (purge_stage E s))" "same_wire s (fst (confirm_stage E s))"
  "same_wire s (fst (port_stage E p s))"
  by (simp_all add: same_wire_def gate_stage_def purge_stage_def confirm_stage_def split: prod.split)

interpretation wire_frame: stage_frame same_wire
  by unfold_locales (auto simp: same_wire_def)

lemma clear_wire: "same_wire s (fst (clear_machine E s))"
  unfolding clear_machine_def by (intro wire_frame.bindc_frame wire_frames) (simp add: same_wire_def)

lemma admit_wire: "same_wire s (fst (admit_replacement E s))"
proof -
  have e: "same_wire s s" for s by (simp add: same_wire_def)
  have rest: "same_wire s (fst (if strip (re_endpoint E) = [] then (s, Inl NoReplacementEndpoint)
      else gate_stage (\<lambda>g. admit_backend_replacement (re_replace E) g (re_generation E)) [] s))" for s
    by (auto simp: wire_frames e)
  have ask: "same_wire s (fst (if re_generation E \<le> 0 then (s, Inl InvalidReplacementGeneration)
      else bindc (port_stage E EndpointAsked s) (\<lambda>s _. if strip (re_endpoint E) = [] then (s, Inl NoReplacementEndpoint)
        else gate_stage (\<lambda>g. admit_backend_replacement (re_replace E) g (re_generation E)) [] s)))" for s
    using wire_frame.bindc_frame [OF wire_frames(4) rest] by (simp add: e)
  show ?thesis unfolding admit_replacement_def by (intro wire_frame.bindc_frame wire_frames ask)
qed

lemma wire_order:
  assumes "re_ok E StopCalled \<and> epoch_retired s s1" and "same_wire s1 (fst r)"
  shows "outcome r (\<lambda>s' _. re_ok E StopCalled \<and> epoch_retired s s') (in_order E s)"
  using assms by (auto simp: outcome_def in_order_def same_wire_def epoch_retired_def split: prod.splits sum.splits)

lemma replace_in_order: "outcome (replace_owned_backend E s) (\<lambda>s' _. in_order E s s') (in_order E s)"
proof -
  have f: "same_authorities s (fst (gate_stage (\<lambda>g. fence_backend_reset (re_fence E) g None) (re_fence_wait E) s))"
    using gate_stage_frame [of s] by blast
  have c: "same_authorities s (fst (capture_stage E s1))" if "same_authorities s s1" for s1
    using that capture_frame(2) authority_frame.frame_trans by blast
  show ?thesis
    unfolding replace_owned_backend_def
    by (rule outcome_bindc [OF fence_order [OF f]], rule outcome_bindc [OF fence_order [OF c]], assumption,
        rule outcome_bindc [OF stop_order], assumption, rule outcome_bindc [OF retire_order], assumption,
        rule outcome_bindc [OF wire_order [OF _ clear_wire]], assumption, rule outcome_bindc [OF wire_order [OF _ admit_wire]],
        assumption, rule outcome_return) (simp add: in_order_def)
qed

end
