(* ===== verification/Backend_Reset_Properties.thy ===== *)
theory Backend_Reset_Properties
  imports Backend_Reset_Stages Request_Responses Resume_Properties
begin

text \<open>
  The properties of the backend reset: it fails closed, it clears in order, what a completed reset has
  cleared, when it completes, and the generations of the preview and of the conditional fence.
\<close>

section \<open>A completed reset\<close>

lemma retired_from_file:
  assumes "capture_stage E s = (s1, Inr c)" and "il_retire_after_backend_stop (re_lease E) c d = (d', Inr receipt)"
    and "il_readable (re_lease E) d" and "il_stored (re_lease E) (bs_leases s) t = Some l"
    and "current_process_incarnation (re_lease E) = Inr (ih_owner_pid (il_holder l), ih_owner_process_identity (il_holder l))"
  shows "il_stored (re_lease E) d' t \<noteq> Some l"
proof -
  have "distinct (map il_thread_id (bc_leases c))" and "il_retire (re_lease E) (bc_leases c) [] [] d = (d', Inr receipt)"
    using assms(2) by (auto simp: il_retire_after_backend_stop_def valid_capture_def split: sum.splits prod.splits if_splits)
  note gone = il_retire_result [OF this(2) assms(3) this(1)]
  have "il_thread_id l = t" using il_raw.ledger_wf [OF assms(4)] by simp
  then show ?thesis using gone capture_complete [OF assms(1,4,5)] by (auto simp: without_leases_def)
qed

lemma capture_readable:
  assumes "capture_stage E s = (s', Inr c)"
  shows "il_readable (re_lease E) (bs_leases s')"
proof -
  obtain d where c: "il_capture_for_backend_stop (re_lease E) (bs_leases s) = (d, Inr c)" and s': "s' = s\<lparr>bs_leases := d\<rparr>"
    using assms by (auto simp: capture_stage_def map_sum_def split: prod.splits sum.splits)
  obtain data where "il_locked_raw (re_lease E) (bs_leases s) = (d, Inr data)"
    using c by (cases "current_process_incarnation (re_lease E)")
      (auto simp: il_capture_for_backend_stop_def bindc_eq_Inr split: prod.splits)
  with no_prune_view s' show ?thesis by fastforce
qed

lemma purged_instance:
  assumes "trl_purge_all_for_instance e i d = (d', Inr raw)" and "trl_readable e d" and "strip i \<noteq> []"
    and "trl_ledger e d' t = Some l" and "h \<in> set (trl_holders l)"
  shows "trh_instance_name h \<noteq> lower (strip i)"
proof -
  let ?P = "\<lambda>h. trh_instance_name h \<noteq> lower (strip i)"
  have "trl_ledger e d' = spec_sweep (\<lambda>_. True) ?P (trl_ledger e d)"
    using trl_purge_all_outcome [OF assms(1,2,3)] by (simp add: sweeps_or_keeps_def)
  then obtain l0 where "keep_holders ?P l0 = Some l"
    using assms(4) by (auto simp: spec_sweep_def split: option.splits)
  then show ?thesis using assms(5)
    by (auto simp: keep_holders_def retained_lease_def list_all_iff Let_def split: if_splits)
qed

lemma pending_resumes_dropped:
  "confirm_backend_reset E a = (a', Inr u) \<Longrightarrow> ra_pending_resume a' = [] \<and> ra_executing_resume a' = {}"
  by (auto simp: confirm_backend_reset_def invalidate_receipts_def Let_def)

definition renewed_gate :: "ingress_gate \<Rightarrow> ingress_gate \<Rightarrow> int \<Rightarrow> bool" where
  "renewed_gate g g' n =
     (\<not> ingress_closed g' \<and> ig_latest g' = n \<and> ig_latest g < n \<and> ig_last_disconnected g < n \<and> ig_epoch g < ig_epoch g')"

lemma completed_stages:
  assumes run: "replace_owned_backend E s = (s', Inr rc)" and idle: "ig_waiting (gs_gate (bs_gate s)) = None"
  obtains s1 s2 c raw where "capture_stage E s1 = (s2, Inr c)" and "bs_leases s1 = bs_leases s"
    and "il_retire_after_backend_stop (re_lease E) c (re_foreign E (bs_leases s2)) = (bs_leases s', Inr (rc_leases rc))"
    and "retire_connection_epoch (bs_requests s) (re_requests_raise E) = (bs_requests s', Inr (rc_requests rc))"
    and "rotate_after_backend_stop (bs_authority s) = (bs_authority s', rc_rotation rc)"
    and "trl_purge_all_for_instance (re_procs E) (bs_instance s) (bs_runtime_leases s) = (bs_runtime_leases s', Inr raw)"
    and "rc_cleared_threads rc = sort raw"
    and "confirm_backend_reset (re_runtime E) (bs_runtime s) = (bs_runtime s', Inr ())"
    and "bs_settings s' = new_settings_registry"
    and "renewed_gate (gs_gate (bs_gate s)) (gs_gate (bs_gate s')) (rc_generation rc)"
proof -
  obtain s1 s2 s3 s4 s5 c l q ro cleared where f: "gate_stage (\<lambda>g. fence_backend_reset (re_fence E) g None) (re_fence_wait E) s = (s1, Inr ())"
    and c: "capture_stage E s1 = (s2, Inr c)" and st: "stop_stage E s2 = (s3, Inr ())"
    and re: "retire_old_epoch E c s3 = (s4, Inr (l, q, ro))" and cl: "clear_machine E s4 = (s5, Inr cleared)"
    and ad: "admit_replacement E s5 = (s', Inr ())"
    and rc: "rc = \<lparr>rc_generation = re_generation E, rc_leases = l, rc_requests = q, rc_rotation = ro, rc_cleared_threads = cleared\<rparr>"
    using run by (auto simp: replace_owned_backend_def bindc_eq_Inr)
  have f1: "bs_leases s1 = bs_leases s" "same_authorities s s1" "bs_instance s1 = bs_instance s"
    using gate_stage_frame [of s "\<lambda>g. fence_backend_reset (re_fence E) g None" "re_fence_wait E"] f by simp_all
  have f3: "bs_leases s3 = re_foreign E (bs_leases s2)" using st by (simp add: stop_stage_def port_stage_def split: if_splits) force
  have g13: "same_gate s1 s3" "same_gate s3 s4" and s03: "same_authorities s s3"
    using capture_frame [of s1 E] stop_frame [of s2 E] retire_frame [of s3 E c] c st re f1(2)
    by (auto simp: same_gate_def same_authorities_def)
  have g4: "bs_gate s4 = bs_gate s1" "bs_instance s4 = bs_instance s" using g13 f1(3) by (simp_all add: same_gate_def)
  have s1: "closed_and_idle s1" "ig_epoch (gs_gate (bs_gate s)) < ig_epoch (gs_gate (bs_gate s1))" "reset_frame (gs_gate (bs_gate s)) (gs_gate (bs_gate s1))"
    using fence_stage [OF idle f] by (auto simp: closed_and_idle_def reset_frame_def)
  note ret = retire_result [OF re] and clr = clear_result [OF cl]
  obtain w where b: "gate_stage (begin_backend_reset (re_reset E)) (re_reset_wait E) s4 = (w, Inr ())" and w: "bs_gate s5 = bs_gate w"
    using clr(7) by blast
  have s5: "reset_frame (gs_gate (bs_gate s1)) (gs_gate (bs_gate s5))" "closed_and_idle s5"
    using begin_stage [OF _ _ b] s1(1) by (auto simp: closed_and_idle_def w g4 reset_frame_def)
  note adm = admit_result [OF ad s5(2)]
  have "ig_blocked (gs_gate (bs_gate s5))" using s5(2) by (simp add: closed_and_idle_def)
  from admit_gate(1) [OF adm(7) this] have "renewed_gate (gs_gate (bs_gate s)) (gs_gate (bs_gate s')) (re_generation E)"
    using s1 s5 by (simp add: renewed_gate_def ingress_closed_def reset_frame_def)
  moreover obtain raw where "trl_purge_all_for_instance (re_procs E) (bs_instance s4) (bs_runtime_leases s4) = (bs_runtime_leases s5, Inr raw)"
    and "cleared = sort raw" using clr(1) by blast
  ultimately show ?thesis
    using that [OF c f1(1)] ret clr(2-6) adm(1-6) s03 f3 by (simp add: rc g4(2) same_authorities_def)
qed

section \<open>Generations\<close>

lemma safe_generation:
  "require_reset_generation v = Some n \<longleftrightarrow> v = JInt n \<and> 0 < n \<and> n < 2 ^ 53"
  by (auto simp: require_reset_generation_def max_safe_generation_def split: json.splits)

lemma gate_stage_same:
  "f (gs_gate (bs_gate s)) = (gs_gate (bs_gate s), Raises x) \<Longrightarrow> gate_stage f w s = (s, Inl (GateFailed x))"
  by (simp add: gate_stage_def run_gate_def)

lemma fence_refused:
  assumes "ig_latest (gs_gate (bs_gate s)) \<noteq> n \<or> ingress_closed (gs_gate (bs_gate s))" and "0 < n"
  shows "fst (gate_stage (\<lambda>g. fence_backend_reset E g (Some n)) w s) = s"
proof -
  obtain x where "fence_backend_reset E (gs_gate (bs_gate s)) (Some n) = (gs_gate (bs_gate s), Raises x)"
    using assms by (cases "ig_latest (gs_gate (bs_gate s)) = n") (simp_all add: fence_backend_reset_def)
  then show ?thesis using gate_stage_same [of "\<lambda>g. fence_backend_reset E g (Some n)"] by simp
qed

text \<open>Once the fence stands, the call can only time out.\<close>

definition known_no_effect :: "reset_exn \<Rightarrow> bool" where
  "known_no_effect x = (x = ResetNotAvailable \<or> x = ResetValueError \<or> (\<exists>n observed src. x = StaleGeneration n observed src))"

lemma fence_waits_step:
  assumes "ig_waiting (gs_gate gs) = Some FenceWaits" and "\<And>E. x \<noteq> Wake E"
  shows "ig_waiting (gs_gate (gate_step gs x)) = Some FenceWaits"
  using assms
  by (cases x) (auto simp: loop_call_def guard_enter_def guard_exit_def fence_disconnect_def Let_def advance_epoch_def
      split: sum.splits prod.splits)

lemma await_fence:
  assumes "ig_waiting (gs_gate gs) = Some FenceWaits" and "await gs xs = (gs', Inl x)"
  shows "x = GateFailed DrainTimeout \<or> x = StillWaiting"
  using assms
proof (induction xs arbitrary: gs)
  case (Cons y ys)
  show ?case
  proof (cases "\<exists>E. y = Wake E")
    case True
    then obtain E where y: "y = Wake E" by blast
    obtain g out where w: "wake E (gs_gate gs) = (g, out)" by force
    from w Cons.prems(1) have "out = Finishes \<or> out = Raises DrainTimeout \<or> out = Waits \<and> g = gs_gate gs"
      by (auto simp: wake_def Let_def split: if_splits)
    then show ?thesis using Cons.prems Cons.IH [of gs] by (auto simp: y w)
  next
    case False
    then have "await (gate_step gs y) ys = (gs', Inl x)" using Cons.prems(2) by (cases y) simp_all
    with Cons.IH [OF fence_waits_step [OF Cons.prems(1)]] False show ?thesis by blast
  qed
qed simp

lemma fence_ends:
  assumes "0 < n" and "ig_latest (gs_gate (bs_gate s)) = n" and "\<not> ingress_closed (gs_gate (bs_gate s))"
    and st: "gate_stage (\<lambda>g. fence_backend_reset E g (Some n)) w s = (s', q)"
  shows "\<forall>x. q = Inl x \<longrightarrow> x = GateFailed DrainTimeout \<or> x = StillWaiting"
proof -
  obtain g out where f: "fence_backend_reset E (gs_gate (bs_gate s)) (Some n) = (g, out)" by force
  have o: "out = Finishes \<or> out = Waits \<and> ig_waiting g = Some FenceWaits"
    using f assms(1,2,3) by (auto simp: fence_backend_reset_def drain_def Let_def split: if_splits)
  then show ?thesis
  proof
    assume "out = Waits \<and> ig_waiting g = Some FenceWaits"
    then have "\<exists>gs'. await ((bs_gate s)\<lparr>gs_gate := g\<rparr>) w = (gs', q)" and "ig_waiting (gs_gate ((bs_gate s)\<lparr>gs_gate := g\<rparr>)) = Some FenceWaits"
      using st f by (auto simp: gate_stage_def run_gate_def split: prod.splits)
    then show ?thesis using await_fence by blast
  qed (use st f in \<open>auto simp: gate_stage_def run_gate_def\<close>)
qed

section \<open>Nothing in the way: the stages return\<close>

lemma leases_of_runs:
  assumes "\<forall>p \<in> set data. decode_at e (fst p) (snd p) = Inr (f (fst p))"
  shows "leases_of e data = Inr (List.map_filter f (map fst data))"
  using assms by (induction data) (auto simp: List.map_filter_simps split: option.splits)

lemma ids_of_filter:
  assumes "\<And>k l. f k = Some l \<Longrightarrow> il_thread_id l = k"
  shows "map il_thread_id (List.map_filter f ks) = filter (\<lambda>k. f k \<noteq> None) ks"
  by (induction ks) (auto simp: List.map_filter_simps assms split: option.splits)

lemma sort_key_distinct: "distinct (map f (sort_key g xs)) = distinct (map f xs)"
  by (simp add: distinct_map)

lemma capture_returns:
  assumes rd: "il_readable e d" and ok: "faults d = []" and inc: "current_process_incarnation e = Inr (pid, ident)"
    and own: "\<And>t l. il_stored e d t = Some l \<Longrightarrow> ih_owner_pid (il_holder l) = pid \<Longrightarrow> ih_owner_process_identity (il_holder l) \<noteq> []"
  shows "\<exists>c. il_capture_for_backend_stop e d = (d, Inr c) \<and> valid_capture e c = Inr ()"
proof -
  let ?mine = "\<lambda>l. ih_owner_pid (il_holder l) = pid \<and> ih_owner_process_identity (il_holder l) = ident"
  obtain data where l: "il_locked_raw e d = (d, Inr data)" and at: "\<forall>t. lease_at e data t = Inr (il_stored e d t)"
    using il_locked_raw_runs [OF rd ok] by blast
  have wf: "dict_wf data" using no_prune_view [OF l] by (simp add: records_ok_def)
  have "\<forall>p \<in> set data. decode_at e (fst p) (snd p) = Inr (il_stored e d (fst p))"
  proof
    fix p assume "p \<in> set data"
    then have "map_of data (fst p) = Some (snd p)" using wf by (simp add: dict_wf_def)
    then show "decode_at e (fst p) (snd p) = Inr (il_stored e d (fst p))"
      using at [THEN spec, of "fst p"] by (simp add: lease_at_def)
  qed
  then have ls: "leases_of e data = Inr (List.map_filter (il_stored e d) (map fst data))" by (rule leases_of_runs)
  let ?ls = "List.map_filter (il_stored e d) (map fst data)"
  have stored: "\<exists>t. il_stored e d t = Some x" if "x \<in> set ?ls" for x
    using that by (auto simp: List.map_filter_def)
  have "map il_thread_id ?ls = filter (\<lambda>k. il_stored e d k \<noteq> None) (map fst data)"
    by (rule ids_of_filter) (use il_raw.ledger_wf in blast)
  then have dist: "distinct (map il_thread_id ?ls)" using wf by (simp add: dict_wf_def)
  have none: "\<not> (\<exists>x \<in> set ?ls. ih_owner_pid (il_holder x) = pid \<and> ih_owner_process_identity (il_holder x) = [])"
    using stored own by blast
  let ?c = "\<lparr>bc_owner_pid = pid, bc_owner_process_identity = ident, bc_leases = sort_key il_thread_id (filter ?mine ?ls)\<rparr>"
  have "il_capture_for_backend_stop e d = (d, Inr ?c)"
    by (simp only: il_capture_for_backend_stop_def inc l ls none bindc_def sum.case prod.case if_False)
  moreover have "valid_capture e ?c = Inr ()"
    by (simp add: valid_capture_def inc sort_key_distinct distinct_map_filter [OF dist])
  ultimately show ?thesis by blast
qed

lemma purge_all_returns:
  assumes "trl_readable e d" and "faults d = []"
  shows "\<exists>d' changed. trl_purge_all_for_instance e inst d = (d', Inr changed)"
proof -
  have "\<exists>d' ch. run_sweep e (sweep_instance e (lower (strip inst))) d = (d', Inr ch)"
    by (rule run_sweep_returns [OF assms]) (simp add: sweep_instance_def Let_def)
  then show ?thesis by (auto simp: trl_purge_all_for_instance_def Let_def)
qed

lemma fence_returns:
  assumes "ig_active g = 0" and "gs_gate gs = g"
  shows "run_gate (\<lambda>g. fence_backend_reset E g None) w gs = (gs\<lparr>gs_gate := (advance_epoch g)\<lparr>ig_invalidated := False, ig_blocked := True\<rparr>\<rparr>, Inr ())"
  using assms by (simp add: run_gate_def fence_backend_reset_def drain_def advance_epoch_def Let_def)

definition invalidated_gate :: "ingress_gate \<Rightarrow> bool" where
  "invalidated_gate g = (ig_blocked g \<and> ig_invalidated g \<and> \<not> ig_cleanup g)"

lemma begin_finishes:
  assumes "ig_active g = 0" and "ig_blocked g" and "pe_invalidate_ok E"
  shows "\<exists>g'. begin_backend_reset E g = (g', Finishes) \<and> invalidated_gate g' \<and> ig_latest g' = ig_latest g
    \<and> ig_last_disconnected g' = ig_last_disconnected g"
  using assms
  by (cases "ig_cleanup g")
    (simp_all add: begin_backend_reset_def invalidate_facts_def drain_def advance_epoch_def run_invalidation_def Let_def
      invalidated_gate_def)

lemma begin_returns:
  assumes "ig_active (gs_gate gs) = 0" and "ig_blocked (gs_gate gs)" and "pe_invalidate_ok E"
  obtains gs' where "run_gate (begin_backend_reset E) w gs = (gs', Inr ())" and "invalidated_gate (gs_gate gs')"
    and "ig_latest (gs_gate gs') = ig_latest (gs_gate gs)" and "ig_last_disconnected (gs_gate gs') = ig_last_disconnected (gs_gate gs)"
proof -
  obtain g' where "begin_backend_reset E (gs_gate gs) = (g', Finishes)" and "invalidated_gate g'"
    and "ig_latest g' = ig_latest (gs_gate gs)" "ig_last_disconnected g' = ig_last_disconnected (gs_gate gs)"
    using begin_finishes [OF assms] by blast
  then show ?thesis using that [of "gs\<lparr>gs_gate := g'\<rparr>"] by (simp add: run_gate_def)
qed

lemma admit_returns:
  assumes "invalidated_gate (gs_gate gs)" and "0 < n" and "ig_latest (gs_gate gs) < n" and "ig_last_disconnected (gs_gate gs) < n"
    and "pe_publish_ok E"
  shows "\<exists>gs'. run_gate (\<lambda>g. admit_backend_replacement E g n) w gs = (gs', Inr ())"
proof -
  have "\<not> n \<le> max (ig_latest (gs_gate gs)) (ig_last_disconnected (gs_gate gs))" using assms(3,4) by simp
  then show ?thesis
    using assms(1,2,5) by (simp add: run_gate_def admit_backend_replacement_def invalidated_gate_def Let_def)
qed

lemma port_returns: "re_ok E c \<Longrightarrow> port_stage E c s = (s\<lparr>bs_calls := bs_calls s @ [c]\<rparr>, Inr ())"
  by (simp add: port_stage_def)

lemma retire_returns:
  assumes "il_readable (re_lease E) (bs_leases s)" and "faults (bs_leases s) = []" and "valid_capture (re_lease E) c = Inr ()"
    and ports: "\<And>p. p \<noteq> CardsDispatched \<Longrightarrow> re_ok E p" and "\<not> re_requests_raise E" and "re_projection E = ProjectionReceipt"
  shows "\<exists>s' x. retire_old_epoch E c s = (s', Inr x)"
proof -
  obtain d receipt where l: "il_retire (re_lease E) (bc_leases c) [] [] (bs_leases s) = (d, Inr receipt)"
    using il_retire_returns [OF assms(1,2)] by blast
  have ok: "re_ok E FcodexSettled" "re_ok E WebRetired" "re_ok E RootsRetired" "re_ok E FeishuRetired" "re_ok E AuthorityRotated"
    using ports by simp_all
  have fst_cards: "fst (port_stage E CardsDispatched t) = t\<lparr>bs_calls := bs_calls t @ [CardsDispatched]\<rparr>" for t
    by (simp add: port_stage_def)
  show ?thesis
    using assms(5)
    by (auto simp: retire_old_epoch_def retire_leases_stage_def il_retire_after_backend_stop_def assms(3,6) l retire_requests_stage_def
        retire_connection_epoch_def clear_connection_epoch_def projection_stage_def rotate_stage_def rotate_after_backend_stop_def
        port_returns ok fst_cards Let_def bindc_def)
qed


lemma clear_returns:
  assumes gate: "ig_active (gs_gate (bs_gate s)) = 0" "ig_blocked (gs_gate (bs_gate s))" "pe_invalidate_ok (re_reset E)"
    and leases: "trl_readable (re_procs E) (bs_runtime_leases s)" "faults (bs_runtime_leases s) = []"
    and ports: "re_ok E OwnerClosed" "ae_clear_all (re_runtime E) = None"
  obtains s' x where "clear_machine E s = (s', Inr x)" and "invalidated_gate (gs_gate (bs_gate s'))"
    and "ig_latest (gs_gate (bs_gate s')) = ig_latest (gs_gate (bs_gate s))"
    and "ig_last_disconnected (gs_gate (bs_gate s')) = ig_last_disconnected (gs_gate (bs_gate s))"
proof -
  obtain gs' where b: "run_gate (begin_backend_reset (re_reset E)) (re_reset_wait E) (bs_gate s) = (gs', Inr ())"
    and g: "invalidated_gate (gs_gate gs')" "ig_latest (gs_gate gs') = ig_latest (gs_gate (bs_gate s))"
    "ig_last_disconnected (gs_gate gs') = ig_last_disconnected (gs_gate (bs_gate s))"
    by (rule begin_returns [OF gate])
  obtain d' ch where p: "trl_purge_all_for_instance (re_procs E) (bs_instance s) (bs_runtime_leases s) = (d', Inr ch)"
    using purge_all_returns [OF leases] by blast
  obtain a where c: "confirm_backend_reset (re_runtime E) (bs_runtime s) = (a, Inr ())"
    by (simp add: confirm_backend_reset_def ports(2) port_result_def Let_def)
  show ?thesis
    using that g by (simp add: clear_machine_def gate_stage_def b purge_stage_def p port_returns ports(1) confirm_stage_def c bindc_def)
qed

lemma admission_returns:
  assumes "re_ok E StartCalled" and "re_ok E GenerationAsked" and "re_ok E EndpointAsked" and "strip (re_endpoint E) \<noteq> []"
    and "invalidated_gate (gs_gate (bs_gate s))" and "0 < re_generation E" and "ig_latest (gs_gate (bs_gate s)) < re_generation E"
    and "ig_last_disconnected (gs_gate (bs_gate s)) < re_generation E" and "pe_publish_ok (re_replace E)"
  shows "\<exists>s'. admit_replacement E s = (s', Inr ())"
proof -
  obtain gs' where "run_gate (\<lambda>g. admit_backend_replacement (re_replace E) g (re_generation E)) [] (bs_gate s) = (gs', Inr ())"
    using admit_returns [OF assms(5-9)] by blast
  then have "gate_stage (\<lambda>g. admit_backend_replacement (re_replace E) g (re_generation E)) []
      (s\<lparr>bs_calls := bs_calls s @ [StartCalled, GenerationAsked, EndpointAsked]\<rparr>)
    = (s\<lparr>bs_calls := bs_calls s @ [StartCalled, GenerationAsked, EndpointAsked], bs_gate := gs'\<rparr>, Inr ())"
    by (simp add: gate_stage_def)
  moreover have "\<not> re_generation E \<le> 0" using assms(6) by simp
  ultimately show ?thesis
    using assms(4) by (simp add: admit_replacement_def port_returns assms(1,2,3))
qed

definition reset_ready :: "reset_env \<Rightarrow> backend_system \<Rightarrow> bool" where
  "reset_ready E s =
     (ig_active (gs_gate (bs_gate s)) = 0 \<and> pe_invalidate_ok (re_reset E) \<and> pe_publish_ok (re_replace E)
      \<and> (\<forall>c. c = CardsDispatched \<or> re_ok E c) \<and> \<not> re_requests_raise E \<and> re_projection E = ProjectionReceipt
      \<and> ae_clear_all (re_runtime E) = None
      \<and> il_readable (re_lease E) (bs_leases s) \<and> faults (bs_leases s) = []
      \<and> il_readable (re_lease E) (re_foreign E (bs_leases s)) \<and> faults (re_foreign E (bs_leases s)) = []
      \<and> trl_readable (re_procs E) (bs_runtime_leases s) \<and> faults (bs_runtime_leases s) = []
      \<and> (\<exists>pid ident. current_process_incarnation (re_lease E) = Inr (pid, ident)
          \<and> (\<forall>t l. il_stored (re_lease E) (bs_leases s) t = Some l \<longrightarrow>
               ih_owner_pid (il_holder l) \<noteq> pid \<or> ih_owner_process_identity (il_holder l) \<noteq> []))
      \<and> 0 < re_generation E \<and> ig_latest (gs_gate (bs_gate s)) < re_generation E
      \<and> ig_last_disconnected (gs_gate (bs_gate s)) < re_generation E \<and> strip (re_endpoint E) \<noteq> [])"

lemma ready_reset_runs:
  assumes "reset_ready E s"
  shows "\<exists>s' rc. replace_owned_backend E s = (s', Inr rc)"
proof -
  note r = assms [unfolded reset_ready_def]
  let ?g = "gs_gate (bs_gate s)"
  define s1 where "s1 = s\<lparr>bs_gate := (bs_gate s)\<lparr>gs_gate := (advance_epoch ?g)\<lparr>ig_invalidated := False, ig_blocked := True\<rparr>\<rparr>\<rparr>"
  have f: "gate_stage (\<lambda>g. fence_backend_reset (re_fence E) g None) (re_fence_wait E) s = (s1, Inr ())"
    using fence_returns [of ?g "bs_gate s" "re_fence E" "re_fence_wait E"] r by (simp add: gate_stage_def s1_def)
  obtain pid ident where inc: "current_process_incarnation (re_lease E) = Inr (pid, ident)"
    and own: "\<forall>t l. il_stored (re_lease E) (bs_leases s) t = Some l \<longrightarrow>
      ih_owner_pid (il_holder l) \<noteq> pid \<or> ih_owner_process_identity (il_holder l) \<noteq> []"
    using r by (elim conjE exE) simp
  obtain c where c: "il_capture_for_backend_stop (re_lease E) (bs_leases s) = (bs_leases s, Inr c)" "valid_capture (re_lease E) c = Inr ()"
    using capture_returns [OF _ _ inc, of "bs_leases s"] own r by metis
  have cs: "capture_stage E s1 = (s1, Inr c)" using c(1) by (simp add: capture_stage_def s1_def)
  define s3 where "s3 = s1\<lparr>bs_leases := re_foreign E (bs_leases s), bs_calls := bs_calls s @ [StopCalled]\<rparr>"
  have st: "stop_stage E s1 = (s3, Inr ())" using r by (auto simp: stop_stage_def port_stage_def s3_def s1_def)
  have ports: "p \<noteq> CardsDispatched \<Longrightarrow> re_ok E p" for p using r by blast
  have "il_readable (re_lease E) (bs_leases s3)" and "faults (bs_leases s3) = []" and "\<not> re_requests_raise E"
    and "re_projection E = ProjectionReceipt" using r by (simp_all add: s3_def)
  from retire_returns [OF this(1,2) c(2) ports this(3,4)] obtain s4 x where re: "retire_old_epoch E c s3 = (s4, Inr x)"
    by blast
  have g4: "bs_gate s4 = bs_gate s1" using retire_frame [of s3 E c] re by (simp add: same_gate_def s3_def)
  have l4: "bs_runtime_leases s4 = bs_runtime_leases s" using retire_result(4) [of E c s3 s4] re by (cases x) (simp add: s3_def s1_def)
  obtain s5 y where cl: "clear_machine E s4 = (s5, Inr y)" and g5: "invalidated_gate (gs_gate (bs_gate s5))"
    "ig_latest (gs_gate (bs_gate s5)) = ig_latest ?g" "ig_last_disconnected (gs_gate (bs_gate s5)) = ig_last_disconnected ?g"
    by (rule clear_returns [of s4 E]) (use r in \<open>auto simp: g4 l4 s1_def advance_epoch_def\<close>)
  obtain s6 where "admit_replacement E s5 = (s6, Inr ())"
    using admission_returns [of E s5] g5 r by auto
  then show ?thesis by (simp add: replace_owned_backend_def f cs st re cl bindc_def)
qed

section \<open>Concrete inputs\<close>

definition demo_requests :: coordinator where
  "demo_requests = coord_steps demo_world (new_coordinator (empty_registry 3)) [ActivateConnection 1, demo_route]"

definition demo_system :: backend_system where
  "demo_system =
     \<lparr>bs_gate = demo_open, bs_leases = demo_held_disk, bs_runtime_leases = demo_runtime_disk, bs_requests = demo_requests,
      bs_authority = \<lparr>au_epoch = 0, au_generations = [(IntKey 1, {1})], au_consumed = {}\<rparr>,
      bs_runtime = demo_resuming, bs_settings = new_settings_registry, bs_instance = ''i1'', bs_calls = []\<rparr>"

definition demo_reset_env :: reset_env where
  "demo_reset_env =
     \<lparr>re_fence = demo_ports, re_fence_wait = [], re_lease = demo_env, re_procs = demo_procs,
      re_foreign = (\<lambda>d. d), re_ok = (\<lambda>_. True), re_requests_raise = False, re_projection = ProjectionReceipt,
      re_reset = demo_ports, re_reset_wait = [], re_runtime = demo_ports_ok, re_generation = 2,
      re_endpoint = ''http'', re_replace = demo_ports\<rparr>"

text \<open>The same reset, whose \<open>stop\<close> raises; a writer leaves while the fence drains.\<close>

definition demo_stop_fails :: reset_env where
  "demo_stop_fails = demo_reset_env\<lparr>re_fence_wait := [Leave 0, Wake demo_ports], re_ok := (\<lambda>c. c \<noteq> StopCalled)\<rparr>"

definition demo_busy :: gate_system where
  "demo_busy = gate_step demo_open (Enter 0 (Some demo_permit))"

definition demo_writing :: backend_system where
  "demo_writing = demo_system\<lparr>bs_gate := demo_busy, bs_leases := demo_disk\<rparr>"

lemma demo_gate: "ig_active (gs_gate demo_open) = 0" "ig_waiting (gs_gate demo_open) = None" "ig_latest (gs_gate demo_open) = 1"
  "ig_last_disconnected (gs_gate demo_open) = 0" "ig_epoch (gs_gate demo_open) = 1" "\<not> ingress_closed (gs_gate demo_open)"
  by code_simp+

lemma demo_incarnation: "current_process_incarnation demo_env = Inr (7, ''linux:b1:42'')"
  by code_simp

lemma demo_owner: "ih_owner_pid (il_holder demo_lease) = 7" "ih_owner_process_identity (il_holder demo_lease) = ''linux:b1:42''"
  by (simp_all add: demo_lease_def new_lease_def demo_web_def)

lemma demo_endpoint: "strip ''http'' \<noteq> []"
  by code_simp

lemma demo_no_faults: "faults demo_held_disk = []" "faults demo_runtime_disk = []"
  by (simp_all add: demo_held_disk_def demo_runtime_disk_def demo_fields)

lemma demo_ready: "reset_ready demo_reset_env demo_system"
  by (simp add: reset_ready_def demo_reset_env_def demo_system_def demo_gate demo_ports_def demo_ports_ok_def demo_held(1,3)
      demo_runtime_ledger(1) demo_incarnation demo_owner demo_endpoint demo_no_faults)

lemma demo_stop_raises: "\<exists>s'. replace_owned_backend demo_stop_fails demo_writing = (s', Inl (ResetPortFailed StopCalled))"
proof -
  have g: "snd (run_gate (\<lambda>g. fence_backend_reset demo_ports g None) [Leave 0, Wake demo_ports] demo_busy) = Inr ()"
    by code_simp
  then obtain gs where g: "run_gate (\<lambda>g. fence_backend_reset demo_ports g None) [Leave 0, Wake demo_ports] demo_busy = (gs, Inr ())"
    by (metis prod.collapse)
  have "il_stored demo_env demo_disk = Map.empty"
    by (auto simp: ledger_def read_all_def read_versioned_records_def demo_disk_def record_view_def)
  then obtain c where c: "il_capture_for_backend_stop demo_env demo_disk = (demo_disk, Inr c)"
    using capture_returns [OF demo_readable demo_fields(2) demo_incarnation] by auto
  show ?thesis
    unfolding replace_owned_backend_def
    by (simp add: gate_stage_def demo_stop_fails_def demo_reset_env_def demo_writing_def g capture_stage_def
        demo_system_def c stop_stage_def port_stage_def)
qed

lemma conditional_fence:
  assumes "fence_ingress E physical (Some v) s = (s', r)"
  shows "(s' \<noteq> s \<longrightarrow> (\<exists>n. v = JInt n \<and> 0 < n \<and> n < 2 ^ 53 \<and> physical = PhysicalMatches
      \<and> ig_latest (gs_gate (bs_gate s)) = n \<and> \<not> ingress_closed (gs_gate (bs_gate s))))
    \<and> (\<forall>x. r = Inl x \<longrightarrow> known_no_effect x \<longrightarrow> s' = s)"
proof (cases "require_reset_generation v")
  case None
  then show ?thesis using assms by (auto simp: fence_ingress_def)
next
  case (Some n)
  then have n: "v = JInt n" "0 < n" "n < 2 ^ 53" by (simp_all add: safe_generation)
  let ?stage = "gate_stage (\<lambda>g. fence_backend_reset (re_fence E) g (Some n)) (re_fence_wait E) s"
  obtain s1 q where st: "?stage = (s1, q)" by force
  show ?thesis
  proof (cases "physical = PhysicalMatches")
    case False
    then show ?thesis using assms Some by (cases physical) (auto simp: fence_ingress_def)
  next
    case True
    then have s': "s' = s1" and r: "r = map_sum (fence_failure n) id q"
      using assms Some st by (auto simp: fence_ingress_def)
    show ?thesis
    proof (cases "ig_latest (gs_gate (bs_gate s)) \<noteq> n \<or> ingress_closed (gs_gate (bs_gate s))")
      case True
      then have "s1 = s" using fence_refused [OF _ n(2), of s "re_fence E" "re_fence_wait E"] st by simp
      then show ?thesis by (simp add: s')
    next
      case False
      then have "\<forall>x. q = Inl x \<longrightarrow> x = GateFailed DrainTimeout \<or> x = StillWaiting"
        using fence_ends [OF n(2) _ _ st] by auto
      then show ?thesis using False n \<open>physical = PhysicalMatches\<close>
        by (cases q) (auto simp: r fence_failure_def known_no_effect_def)
    qed
  qed
qed

section \<open>Properties\<close>

lemma replace_generation: "replace_owned_backend E s = (s', Inr rc) \<Longrightarrow> rc_generation rc = re_generation E"
  by (auto simp: replace_owned_backend_def bindc_eq_Inr)

lemma fence_gate:
  "require_reset_generation v = Some n \<Longrightarrow> bs_gate (fst (fence_ingress E PhysicalMatches (Some v) s))
    = fst (run_gate (\<lambda>g. fence_backend_reset (re_fence E) g (Some n)) (re_fence_wait E) (bs_gate s))"
  by (simp add: fence_ingress_def gate_stage_def split: prod.split)

text \<open>
  C20. A reset fails closed: whatever fails on the way, and also when a drain has not come to an end,
  the gate stays blocked; every callback of a connection is refused without a change, and no
  ordinary request is admitted.
\<close>

theorem failed_reset_keeps_ingress_closed:
  assumes "replace_owned_backend E s = (s', Inl x)" and "ig_waiting (gs_gate (bs_gate s)) = None"
  shows "ig_blocked (gs_gate (bs_gate s'))
    \<and> accept A (gs_gate (bs_gate s')) n = (gs_gate (bs_gate s'), Returns False)
    \<and> (\<exists>y. issue_outbound_request (gs_gate (bs_gate s')) m = Inl y)
    \<and> preview_connection_generation physical s' = Inl ResetNotAvailable"
proof -
  have "gate_shut s'" using replace_shut [OF assms(2), of E] assms(1) by (simp add: outcome_def)
  then show ?thesis
    by (auto simp: gate_shut_def accept_def issue_outbound_request_def ingress_closed_def preview_connection_generation_def
        gate_snapshot_def split: option.splits)
qed


text \<open>
  C22. A completed reset: the gate is open at a generation above every one seen, in a new epoch, so that
  the permits issued before are dead; no request is pending, and the receipt names those that were; the response
  authority is in the next epoch, with nothing remembered; every interaction lease this process held when
  the backend stopped is gone from the file, and no runtime lease of the instance is left; no resume
  is pending and no reported setting survives.
\<close>

theorem completed_reset:
  assumes run: "replace_owned_backend E s = (s', Inr rc)" and idle: "ig_waiting (gs_gate (bs_gate s)) = None"
    and others: "\<And>d. il_readable (re_lease E) d \<Longrightarrow> il_readable (re_lease E) (re_foreign E d)"
    and runtime: "trl_readable (re_procs E) (bs_runtime_leases s)" and inst: "strip (bs_instance s) \<noteq> []"
  shows "\<not> ingress_closed (gs_gate (bs_gate s')) \<and> ig_latest (gs_gate (bs_gate s')) = rc_generation rc
    \<and> ig_latest (gs_gate (bs_gate s)) < rc_generation rc \<and> ig_last_disconnected (gs_gate (bs_gate s)) < rc_generation rc
    \<and> (\<forall>p. pm_epoch p \<le> ig_epoch (gs_gate (bs_gate s)) \<longrightarrow> permit_stale (gs_gate (bs_gate s')) p)
    \<and> epoch_retired s s' \<and> rc_requests rc = map snd (rg_pending (co_registry (bs_requests s)))
    \<and> (\<forall>t l. il_stored (re_lease E) (bs_leases s) t = Some l
        \<longrightarrow> current_process_incarnation (re_lease E) = Inr (ih_owner_pid (il_holder l), ih_owner_process_identity (il_holder l))
        \<longrightarrow> il_stored (re_lease E) (bs_leases s') t \<noteq> Some l)
    \<and> (\<forall>u k h. trl_ledger (re_procs E) (bs_runtime_leases s') u = Some k \<longrightarrow> h \<in> set (trl_holders k)
        \<longrightarrow> trh_instance_name h \<noteq> lower (strip (bs_instance s)))
    \<and> ra_pending_resume (bs_runtime s') = [] \<and> bs_settings s' = new_settings_registry"
proof -
  obtain s1 s2 c raw where c: "capture_stage E s1 = (s2, Inr c)" "bs_leases s1 = bs_leases s"
    and le: "il_retire_after_backend_stop (re_lease E) c (re_foreign E (bs_leases s2)) = (bs_leases s', Inr (rc_leases rc))"
    and rq: "retire_connection_epoch (bs_requests s) (re_requests_raise E) = (bs_requests s', Inr (rc_requests rc))"
    and ro: "rotate_after_backend_stop (bs_authority s) = (bs_authority s', rc_rotation rc)"
    and pu: "trl_purge_all_for_instance (re_procs E) (bs_instance s) (bs_runtime_leases s) = (bs_runtime_leases s', Inr raw)"
    and cf: "confirm_backend_reset (re_runtime E) (bs_runtime s) = (bs_runtime s', Inr ())"
    and se: "bs_settings s' = new_settings_registry"
    and g: "renewed_gate (gs_gate (bs_gate s)) (gs_gate (bs_gate s')) (rc_generation rc)"
    using run idle by (rule completed_stages)
  have "\<forall>t l. il_stored (re_lease E) (bs_leases s) t = Some l
      \<longrightarrow> current_process_incarnation (re_lease E) = Inr (ih_owner_pid (il_holder l), ih_owner_process_identity (il_holder l))
      \<longrightarrow> il_stored (re_lease E) (bs_leases s') t \<noteq> Some l"
    using retired_from_file [OF c(1) le others [OF capture_readable [OF c(1)]]] by (simp add: c(2))
  moreover have "\<forall>p. pm_epoch p \<le> ig_epoch (gs_gate (bs_gate s)) \<longrightarrow> permit_stale (gs_gate (bs_gate s')) p"
    using g by (auto simp: renewed_gate_def permit_stale_def)
  ultimately show ?thesis
    using g requests_retired [OF rq] authority_rotated [OF ro] purged_instance [OF pu runtime inst] pending_resumes_dropped [OF cf]
    by (auto simp: renewed_gate_def epoch_retired_def se)
qed

text \<open>
  The generation a preview shows is a positive safe integer, the one the adapter reports and the gate
  has admitted, and the gate is open.
\<close>

theorem previewed_generation_bounds:
  "preview_connection_generation physical s = Inr n \<longleftrightarrow>
     physical = Some (JInt n) \<and> 0 < n \<and> n < 2 ^ 53 \<and> ig_latest (gs_gate (bs_gate s)) = n
     \<and> \<not> ingress_closed (gs_gate (bs_gate s))"
proof (cases physical)
  case (Some v)
  show ?thesis
  proof (cases "require_reset_generation v")
    case None
    with safe_generation [of v n] show ?thesis by (auto simp: preview_connection_generation_def Some)
  next
    case (Some k)
    then show ?thesis
      using safe_generation [of v k]
      by (auto simp: preview_connection_generation_def \<open>physical = Some v\<close> gate_snapshot_def ingress_closed_def Let_def)
  qed
qed (simp add: preview_connection_generation_def)

text \<open>
  A conditional fence without effect says so, and has an effect only on the current epoch: when anything
  changes, the expected generation is a positive safe integer, the adapter found it to be the one of its
  connection, and the gate, open, has it as its latest; each of the refusals that stand for a known
  absence of effect leaves everything as it was.
\<close>

theorem conditional_fence_is_exact:
  assumes "fence_ingress E physical (Some v) s = (s', r)"
  shows "(s' \<noteq> s \<longrightarrow> (\<exists>n. v = JInt n \<and> 0 < n \<and> n < 2 ^ 53 \<and> physical = PhysicalMatches
      \<and> ig_latest (gs_gate (bs_gate s)) = n \<and> \<not> ingress_closed (gs_gate (bs_gate s))))
    \<and> (\<forall>x. r = Inl x \<longrightarrow> known_no_effect x \<longrightarrow> s' = s)"
  using assms by (rule conditional_fence)

text \<open>
  C23. A reset completes: when no ordinary request is writing, the ports succeed (the card projection need not), the
  lease files are readable and can be written, every lease of this process has an incarnation, and the
  replacement has an endpoint and a generation above those seen, the reset returns its receipt.
\<close>

theorem reset_completes:
  assumes "reset_ready E s"
  shows "\<exists>s' rc. replace_owned_backend E s = (s', Inr rc) \<and> rc_generation rc = re_generation E"
  using ready_reset_runs [OF assms] replace_generation by blast

subsection \<open>At concrete inputs\<close>

theorem failed_reset_keeps_ingress_closed_witness:
  "\<exists>s'. replace_owned_backend demo_stop_fails demo_writing = (s', Inl (ResetPortFailed StopCalled))
    \<and> accept demo_ports (gs_gate (bs_gate s')) 2 = (gs_gate (bs_gate s'), Returns False)"
proof -
  obtain s' where r: "replace_owned_backend demo_stop_fails demo_writing = (s', Inl (ResetPortFailed StopCalled))"
    using demo_stop_raises by blast
  have "ig_waiting (gs_gate demo_busy) = None" by code_simp
  then have "ig_waiting (gs_gate (bs_gate demo_writing)) = None" by (simp add: demo_writing_def)
  from failed_reset_keeps_ingress_closed [OF r this] r show ?thesis by blast
qed


theorem completed_reset_witness:
  "\<exists>s' rc. replace_owned_backend demo_reset_env demo_system = (s', Inr rc) \<and> rc_requests rc = [0]
    \<and> ig_latest (gs_gate (bs_gate s')) = rc_generation rc \<and> il_stored demo_env (bs_leases s') ''t1'' \<noteq> Some demo_lease
    \<and> trl_ledger demo_procs (bs_runtime_leases s') ''t1'' \<noteq> Some (first_lease ''t1'' demo_holder)"
proof -
  obtain s' rc where r: "replace_owned_backend demo_reset_env demo_system = (s', Inr rc)"
    using ready_reset_runs [OF demo_ready] by blast
  have f: "re_foreign demo_reset_env = (\<lambda>d. d)" "re_lease demo_reset_env = demo_env" "re_procs demo_reset_env = demo_procs"
    "bs_gate demo_system = demo_open" "bs_leases demo_system = demo_held_disk" "bs_runtime_leases demo_system = demo_runtime_disk"
    "bs_instance demo_system = ''i1''" "bs_requests demo_system = demo_requests"
    by (simp_all add: demo_reset_env_def demo_system_def)
  have i: "strip ''i1'' = ''i1''" "lower ''i1'' = ''i1''" and q: "map snd (rg_pending (co_registry demo_requests)) = [0]"
    by code_simp+
  have h: "demo_holder \<in> set (trl_holders (first_lease ''t1'' demo_holder))" "trh_instance_name demo_holder = ''i1''"
    by (simp_all add: first_lease_def demo_holder_def)
  note c = completed_reset [OF r, unfolded f i q, OF demo_gate(2) _ demo_runtime_ledger(1), simplified]
  show ?thesis
  proof (intro exI conjI, rule r)
    show "rc_requests rc = [0]" "ig_latest (gs_gate (bs_gate s')) = rc_generation rc" using c by simp_all
    show "il_stored demo_env (bs_leases s') ''t1'' \<noteq> Some demo_lease"
      using c by (auto simp: demo_held(3) demo_incarnation demo_owner)
    show "trl_ledger demo_procs (bs_runtime_leases s') ''t1'' \<noteq> Some (first_lease ''t1'' demo_holder)"
      using c h by blast
  qed
qed

theorem reset_completes_witness:
  "\<exists>s' rc. replace_owned_backend demo_reset_env demo_system = (s', Inr rc) \<and> rc_generation rc = 2"
  using reset_completes [OF demo_ready] by (simp add: demo_reset_env_def)

theorem conditional_fence_is_exact_witness:
  "\<exists>s' r. fence_ingress demo_reset_env PhysicalMatches (Some (JInt 1)) demo_system = (s', r)
    \<and> ig_latest (gs_gate (bs_gate demo_system)) = 1 \<and> s' \<noteq> demo_system"
proof -
  obtain s' r where f: "fence_ingress demo_reset_env PhysicalMatches (Some (JInt 1)) demo_system = (s', r)" by force
  have g: "require_reset_generation (JInt 1) = Some 1" by (simp add: require_reset_generation_def max_safe_generation_def)
  have e: "re_fence demo_reset_env = demo_ports" "re_fence_wait demo_reset_env = []" "bs_gate demo_system = demo_open"
    by (simp_all add: demo_reset_env_def demo_system_def)
  have "bs_gate s' = fst (run_gate (\<lambda>g. fence_backend_reset demo_ports g (Some 1)) [] demo_open)"
    using fence_gate [OF g, of demo_reset_env demo_system] unfolding f fst_conv e .
  moreover have "ig_blocked (gs_gate (fst (run_gate (\<lambda>g. fence_backend_reset demo_ports g (Some 1)) [] demo_open)))"
    and "\<not> ig_blocked (gs_gate demo_open)" by code_simp+
  ultimately have "s' \<noteq> demo_system" by (auto simp: demo_system_def)
  with conditional_fence_is_exact [OF f] f show ?thesis by auto
qed

end
