(* ===== verification/Backend_Reset_Service.thy ===== *)
theory Backend_Reset_Service
  imports Backend_Reset_Properties Execution_Queue_Properties Binding_Directory
begin

text \<open>
  The product-level reset of one instance (\<open>bot/backend_reset/service.py\<close>,
  \<open>bot/backend_reset/interaction_coordinator.py\<close>) and the command that asks for it
  (\<open>bot/backend_reset/cli.py\<close>): policy, the conditional fence, the Feishu execution queues, the
  projections that follow the stop, and the result the command decodes.

  The queues are the modelled controller and the pending requests those of the modelled coordinator.
  The binding runtime (sessions, their interruption and detachment), the policy preview and the
  published endpoint are the environment; \<open>None\<close> is an exception of a port. \<open>sv_log\<close> lists
  the effects on the bindings.
\<close>

section \<open>State and environment\<close>

record bound_session =
  bn_binding :: binding
  bn_thread :: string
  bn_anchor :: bool

datatype projection_event =
    SessionInterrupted binding
  | ExecutionFinalized binding
  | ThreadDetached string
  | TimersCancelled "nat list"

datatype interrupt_answer = InterruptRaises | NothingActive | Interrupted

record service_env =
  se_preview :: "(string \<times> string) option"
  se_physical :: physical_fence
  se_fence :: port_env
  se_fence_wait :: "gate_op list"
  se_queue :: queue_env
  se_sessions :: "bound_session list option"
  se_interrupt :: "bound_session \<Rightarrow> interrupt_answer"
  se_finalize :: "bound_session \<Rightarrow> string option"
  se_detach :: "string \<Rightarrow> (string list \<times> nat list) option"
  se_reset :: reset_env
  se_url :: "string option"

datatype service_exn =
    ServiceValueError
  | PreviewRaised
  | PolicyRejected string
  | ResetFailed reset_exn
  | QueueFailed queue_exn
  | InventoryRaised
  | InvalidPendingCount
  | UrlRaised

record service_state =
  sv_backend :: backend_system
  sv_queue :: execution_queue
  sv_log :: "projection_event list"

record local_projection =
  lp_detached :: "string list"
  lp_interrupted :: "string list"
  lp_warnings :: "string list"

section \<open>The pending requests\<close>

definition checked_pending_count :: "json \<Rightarrow> int option" where
  "checked_pending_count v = (case v of JInt n \<Rightarrow> if n < 0 then None else Some n | _ \<Rightarrow> None)"

definition prepare_all :: "backend_system \<Rightarrow> int option" where
  "prepare_all b = checked_pending_count (JInt (int (pending_count (co_registry (bs_requests b)))))"

section \<open>The projections after the stop\<close>

definition finalize_warning :: "string \<Rightarrow> string \<Rightarrow> string list" where
  "finalize_warning i err = (if err = [] then [] else [''finalize '' @ i @ '': '' @ err])"

text \<open>The effects, and the interrupted ids with the warnings unless a port raised.\<close>

fun interrupt_active_bindings ::
  "service_env \<Rightarrow> bound_session list \<Rightarrow> projection_event list \<times> (string list \<times> string list) option" where
  "interrupt_active_bindings E [] = ([], Some ([], []))"
| "interrupt_active_bindings E (x # xs) =
     (case se_interrupt E x of
        InterruptRaises \<Rightarrow> ([], None)
      | NothingActive \<Rightarrow> interrupt_active_bindings E xs
      | Interrupted \<Rightarrow>
          (case (format_binding_id (bn_binding x), se_finalize E x) of
             (None, _) \<Rightarrow> ([SessionInterrupted (bn_binding x)], None)
           | (Some i, None) \<Rightarrow> ([SessionInterrupted (bn_binding x)], None)
           | (Some i, Some err) \<Rightarrow>
               (case interrupt_active_bindings E xs of
                  (evs, r) \<Rightarrow>
                    (SessionInterrupted (bn_binding x) # ExecutionFinalized (bn_binding x) # evs,
                     map_option (\<lambda>(ids, ws). (i # ids, finalize_warning i err @ ws)) r))))"

text \<open>The detached threads, the timers collected so far, and the ids unless a port raised.\<close>

fun detach_threads :: "service_env \<Rightarrow> string list \<Rightarrow> projection_event list \<times> nat list \<times> string list option" where
  "detach_threads E [] = ([], [], Some [])"
| "detach_threads E (t # ts) =
     (case se_detach E t of
        None \<Rightarrow> ([], [], None)
      | Some (ids, timers) \<Rightarrow>
          (case detach_threads E ts of
             (evs, later, r) \<Rightarrow> (ThreadDetached t # evs, timers @ later, map_option ((@) ids) r)))"

definition detach_bound_threads :: "service_env \<Rightarrow> string list \<Rightarrow> projection_event list \<times> string list option" where
  "detach_bound_threads E ts = (case detach_threads E ts of (evs, timers, r) \<Rightarrow> (evs @ [TimersCancelled timers], r))"

definition retire_local_projection ::
  "service_env \<Rightarrow> bound_session list \<Rightarrow> string list \<Rightarrow> projection_event list \<times> local_projection option" where
  "retire_local_projection E sessions ts =
     (case interrupt_active_bindings E sessions of
        (evs, None) \<Rightarrow> (evs, None)
      | (evs, Some (ids, ws)) \<Rightarrow>
          (case detach_bound_threads E ts of
             (evs', None) \<Rightarrow> (evs @ evs', None)
           | (evs', Some detached) \<Rightarrow>
               (evs @ evs', Some \<lparr>lp_detached = sort (remdups detached), lp_interrupted = sort (remdups ids), lp_warnings = ws\<rparr>)))"

section \<open>The reset\<close>

type_synonym 'a serving = "service_state \<times> (service_exn + 'a)"

definition fence_stage_of :: "service_env \<Rightarrow> json option \<Rightarrow> service_state \<Rightarrow> unit serving" where
  "fence_stage_of E expected s =
     (case fence_ingress ((se_reset E)\<lparr>re_fence := se_fence E, re_fence_wait := se_fence_wait E\<rparr>) (se_physical E) expected
             (sv_backend s) of
        (b, r) \<Rightarrow> (s\<lparr>sv_backend := b\<rparr>, map_sum ResetFailed id r))"

definition binding_inventory :: "service_env \<Rightarrow> service_state \<Rightarrow> (bound_session list \<times> string list) serving" where
  "binding_inventory E s =
     (case invalidate_all (se_queue E) (sv_queue s) of
        (q, Inl x) \<Rightarrow> (s\<lparr>sv_queue := q\<rparr>, Inl (QueueFailed x))
      | (q, Inr n) \<Rightarrow>
          (s\<lparr>sv_queue := q\<rparr>,
           case se_sessions E of
             None \<Rightarrow> Inl InventoryRaised
           | Some ss \<Rightarrow> Inr (filter bn_anchor ss, sort (remdups (filter (\<lambda>t. t \<noteq> []) (map (\<lambda>x. strip (bn_thread x)) ss))))))"

definition prepare_stage :: "service_state \<Rightarrow> int serving" where
  "prepare_stage s = (s, case prepare_all (sv_backend s) of None \<Rightarrow> Inl InvalidPendingCount | Some n \<Rightarrow> Inr n)"

text \<open>
  The projection runs inside the replacement, after the web surfaces are retired; it does not touch
  the backend authorities, so that its answer is the environment of the replacement.
\<close>

definition with_projection :: "service_env \<Rightarrow> local_projection option \<Rightarrow> reset_env" where
  "with_projection E p = (se_reset E)\<lparr>re_projection := (if p = None then ProjectionRaises else ProjectionReceipt)\<rparr>"

definition new_calls :: "backend_system \<Rightarrow> backend_system \<Rightarrow> reset_call list" where
  "new_calls b b' = drop (length (bs_calls b)) (bs_calls b')"

definition replace_stage ::
  "service_env \<Rightarrow> bound_session list \<Rightarrow> string list \<Rightarrow> service_state \<Rightarrow> (reset_receipt \<times> local_projection) serving" where
  "replace_stage E sessions ts s =
     (case retire_local_projection E sessions ts of
        (evs, p) \<Rightarrow>
          (case replace_owned_backend (with_projection E p) (sv_backend s) of
             (b, r) \<Rightarrow>
               (s\<lparr>sv_backend := b,
                  sv_log := sv_log s @ (if ProjectionRetired \<in> set (new_calls (sv_backend s) b) then evs else [])\<rparr>,
                case (r, p) of
                  (Inl x, _) \<Rightarrow> Inl (ResetFailed x)
                | (Inr rc, None) \<Rightarrow> Inl (ResetFailed InvalidProjection)
                | (Inr rc, Some receipt) \<Rightarrow> Inr (rc, receipt))))"

definition reset_payload :: "bool \<Rightarrow> int \<Rightarrow> reset_receipt \<Rightarrow> local_projection \<Rightarrow> string \<Rightarrow> jdict" where
  "reset_payload force n rc p url =
     [(''force'', JBool force),
      (''detached_binding_ids'', JArr (map JStr (lp_detached p))),
      (''interrupted_binding_ids'', JArr (map JStr (lp_interrupted p))),
      (''retired_request_count'', JInt n),
      (''purged_thread_ids'', JArr (map JStr (rc_cleared_threads rc))),
      (''projection_warnings'', JArr (map JStr (lp_warnings p))),
      (''app_server_url'', JStr url)]"

definition policy_rejects :: "string \<Rightarrow> bool \<Rightarrow> bool" where
  "policy_rejects status force = (status = ''blocked'' \<or> status = ''force-only'' \<and> \<not> force)"

definition reset_current_instance :: "service_env \<Rightarrow> bool \<Rightarrow> json option \<Rightarrow> service_state \<Rightarrow> jdict serving" where
  "reset_current_instance E force expected s =
     (if \<exists>v. expected = Some v \<and> require_reset_generation v = None then (s, Inl ServiceValueError)
      else case se_preview E of
        None \<Rightarrow> (s, Inl PreviewRaised)
      | Some (status, reason) \<Rightarrow>
          (if policy_rejects status force then (s, Inl (PolicyRejected reason))
           else
             bindc (fence_stage_of E expected s) (\<lambda>s _.
             bindc (binding_inventory E s) (\<lambda>s inventory.
             bindc (prepare_stage s) (\<lambda>s n.
             bindc (replace_stage E (fst inventory) (snd inventory) s) (\<lambda>s reset.
               (s, case se_url E of
                     None \<Rightarrow> Inl UrlRaised
                   | Some url \<Rightarrow> Inr (reset_payload force n (fst reset) (snd reset) url))))))))"

section \<open>The command\<close>

datatype cli_outcome = CliValueError | CliRequestFailed | CliOutcomeUnknown | CliReset reset_result

text \<open>\<open>answer\<close> is what the control request returns, \<open>None\<close> when it raises; the lines printed are left out.\<close>

definition reset_service_backend :: "bool \<Rightarrow> string \<Rightarrow> json option \<Rightarrow> cli_outcome" where
  "reset_service_backend force instance_name answer =
     (if strip instance_name = [] then CliValueError
      else case answer of
        None \<Rightarrow> CliRequestFailed
      | Some raw \<Rightarrow>
          (case decode_reset_result raw force of
             None \<Rightarrow> CliOutcomeUnknown
           | Some result \<Rightarrow> CliReset result))"

end
