(* ===== verification/Instance_Reset.thy ===== *)
theory Instance_Reset
  imports Backend_Reset_Service
begin

text \<open>
  The properties of the product-level reset: what a failure leaves behind, that the command accepts the
  result and what the result says, and what is settled around the backend.
\<close>

section \<open>Text\<close>

lemma strip_by_blank: "strip_by p s = [] \<longleftrightarrow> (\<forall>c \<in> set s. p c)"
proof
  assume "strip_by p s = []"
  then have "\<forall>c \<in> set (dropWhile p s). p c" by (simp add: strip_by_def dropWhile_eq_Nil_conv)
  then have "dropWhile p s = []" by (metis dropWhile_eq_Nil_conv dropWhile_idem)
  then show "\<forall>c \<in> set s. p c" by (simp add: dropWhile_eq_Nil_conv)
qed (auto simp: strip_by_def dropWhile_eq_Nil_conv dest: set_dropWhileD)

lemma strip_blank: "strip s = [] \<longleftrightarrow> (\<forall>c \<in> set s. py_space c)"
  by (simp add: strip_def strip_by_blank)

lemma letters_not_blank: "\<not> py_space (CHR ''g'')" "\<not> py_space (CHR ''p'')" "\<not> py_space (CHR ''f'')"
  by code_simp+

lemma formatted_not_blank: "format_binding_id b = Some i \<Longrightarrow> strip i \<noteq> []"
  using letters_not_blank by (auto simp: format_binding_id_def strip_blank split: option.splits if_splits)

lemma warning_not_blank: "w \<in> set (finalize_warning i err) \<Longrightarrow> strip w \<noteq> []"
  using letters_not_blank by (auto simp: finalize_warning_def strip_blank split: if_splits)

definition not_blank :: "string list \<Rightarrow> bool" where
  "not_blank xs = (\<forall>x \<in> set xs. strip x \<noteq> [])"

lemma decode_texts: "not_blank xs \<Longrightarrow> decode_result_list (JArr (map JStr xs)) = Some (map strip xs)"
proof (induction xs)
  case (Cons x xs)
  then have "those (map decode_result_text (map JStr xs)) = Some (map strip xs)" "strip x \<noteq> []"
    by (simp_all add: not_blank_def decode_result_list_def)
  then show ?case by (simp add: decode_result_list_def decode_result_text_def)
qed (simp add: decode_result_list_def)

lemma decode_payload:
  assumes "not_blank (lp_detached p)" and "not_blank (lp_interrupted p)" and "not_blank (lp_warnings p)"
    and "not_blank (rc_cleared_threads rc)" and "strip url \<noteq> []" and "0 \<le> n"
  shows "decode_reset_result (JObj (reset_payload force n rc p url)) force =
    Some \<lparr>rt_force = force, rt_detached = map strip (lp_detached p), rt_interrupted = map strip (lp_interrupted p),
      rt_retired_requests = n, rt_purged = map strip (rc_cleared_threads rc), rt_warnings = map strip (lp_warnings p),
      rt_url = strip url\<rparr>"
proof -
  have f: "fst ` set (reset_payload force n rc p url) = result_fields"
    by (auto simp: reset_payload_def result_fields_def)
  have l: "result_field (reset_payload force n rc p url) ''force'' = JBool force"
    "result_field (reset_payload force n rc p url) ''retired_request_count'' = JInt n"
    "result_field (reset_payload force n rc p url) ''app_server_url'' = JStr url"
    "result_field (reset_payload force n rc p url) ''detached_binding_ids'' = JArr (map JStr (lp_detached p))"
    "result_field (reset_payload force n rc p url) ''interrupted_binding_ids'' = JArr (map JStr (lp_interrupted p))"
    "result_field (reset_payload force n rc p url) ''purged_thread_ids'' = JArr (map JStr (rc_cleared_threads rc))"
    "result_field (reset_payload force n rc p url) ''projection_warnings'' = JArr (map JStr (lp_warnings p))"
    by (simp_all add: result_field_def reset_payload_def)
  show ?thesis
    using assms(5,6) by (simp add: decode_reset_result_def f l decode_texts assms(1-4) decode_result_count_def decode_result_text_def)
qed

section \<open>The projections\<close>

lemma interrupted_texts:
  "interrupt_active_bindings E xs = (evs, Some (ids, ws)) \<Longrightarrow> not_blank ids \<and> not_blank ws"
proof (induction xs arbitrary: evs ids ws)
  case (Cons x xs)
  show ?case
  proof (cases "se_interrupt E x")
    case Interrupted
    then obtain i err evs1 ids1 ws1 where f: "format_binding_id (bn_binding x) = Some i"
      and r: "interrupt_active_bindings E xs = (evs1, Some (ids1, ws1))"
      and e: "ids = i # ids1" "ws = finalize_warning i err @ ws1"
      using Cons.prems by (auto split: option.splits prod.splits)
    from Cons.IH [OF r] formatted_not_blank [OF f] warning_not_blank [of _ i err] show ?thesis
      by (auto simp: e not_blank_def)
  qed (use Cons in auto)
qed (simp add: not_blank_def)

lemma detached_texts:
  assumes "\<And>t ids timers. se_detach E t = Some (ids, timers) \<Longrightarrow> not_blank ids"
  shows "detach_threads E ts = (evs, timers, Some ids) \<Longrightarrow> not_blank ids"
proof (induction ts arbitrary: evs timers ids)
  case (Cons t ts)
  then obtain ids0 tm0 evs1 tm1 ids1 where d: "se_detach E t = Some (ids0, tm0)" and r: "detach_threads E ts = (evs1, tm1, Some ids1)"
    and e: "ids = ids0 @ ids1"
    by (auto split: option.splits prod.splits)
  from Cons.IH [OF r] assms [OF d] show ?case by (auto simp: e not_blank_def)
qed (simp add: not_blank_def)

lemma projection_texts:
  assumes "retire_local_projection E sessions ts = (evs, Some p)"
    and "\<And>t ids timers. se_detach E t = Some (ids, timers) \<Longrightarrow> not_blank ids"
  shows "not_blank (lp_detached p)" "not_blank (lp_interrupted p)" "not_blank (lp_warnings p)"
proof -
  obtain evs1 ids ws evs2 det where i: "interrupt_active_bindings E sessions = (evs1, Some (ids, ws))"
    and d: "detach_bound_threads E ts = (evs2, Some det)"
    and p: "p = \<lparr>lp_detached = sort (remdups det), lp_interrupted = sort (remdups ids), lp_warnings = ws\<rparr>"
    using assms(1) by (auto simp: retire_local_projection_def split: prod.splits option.splits)
  obtain evs3 tm where "detach_threads E ts = (evs3, tm, Some det)"
    using d by (auto simp: detach_bound_threads_def split: prod.splits)
  then have "not_blank det" by (rule detached_texts [OF assms(2), rotated])
  then show "not_blank (lp_detached p)" "not_blank (lp_interrupted p)" "not_blank (lp_warnings p)"
    using interrupted_texts [OF i] by (auto simp: p not_blank_def)
qed

section \<open>The fence of the service\<close>

lemma fence_expected:
  assumes "gate_stage (\<lambda>g. fence_backend_reset E g (Some n)) w s = (s', r)"
  shows "(s' = s \<and> (\<exists>x. r = Inl (GateFailed x))) \<or> gate_stage (\<lambda>g. fence_backend_reset E g None) w s = (s', r)"
proof (cases "n \<le> 0 \<or> ig_latest (gs_gate (bs_gate s)) \<noteq> n \<or> ingress_closed (gs_gate (bs_gate s))")
  case True
  then obtain x where "fence_backend_reset E (gs_gate (bs_gate s)) (Some n) = (gs_gate (bs_gate s), Raises x)"
    by (cases "n \<le> 0"; cases "ig_latest (gs_gate (bs_gate s)) = n") (simp_all add: fence_backend_reset_def)
  from gate_stage_same [of "\<lambda>g. fence_backend_reset E g (Some n)", OF this] assms show ?thesis by auto
next
  case False
  then have "fence_backend_reset E (gs_gate (bs_gate s)) (Some n) = fence_backend_reset E (gs_gate (bs_gate s)) None"
    by (simp add: fence_backend_reset_def Let_def)
  then show ?thesis using assms by (simp add: gate_stage_def run_gate_def)
qed

lemma fence_ingress_cases:
  assumes "fence_ingress E physical expected s = (s', r)"
  shows "(s' = s \<and> r \<noteq> Inr ()) \<or> (\<exists>q. gate_stage (\<lambda>g. fence_backend_reset (re_fence E) g None) (re_fence_wait E) s = (s', q)
    \<and> (q = Inr () \<longleftrightarrow> r = Inr ()))"
proof (cases expected)
  case (Some v)
  show ?thesis
  proof (cases "require_reset_generation v")
    case (Some n)
    show ?thesis
    proof (cases "physical = PhysicalMatches")
      case True
      obtain s1 q where g: "gate_stage (\<lambda>g. fence_backend_reset (re_fence E) g (Some n)) (re_fence_wait E) s = (s1, q)" by force
      then have "s' = s1" "r = map_sum (fence_failure n) id q"
        using assms \<open>expected = Some v\<close> Some True by (simp_all add: fence_ingress_def)
      then show ?thesis using fence_expected [OF g] by (cases q) auto
    qed (use assms \<open>expected = Some v\<close> Some in \<open>cases physical; auto simp: fence_ingress_def\<close>)
  qed (use assms Some in \<open>auto simp: fence_ingress_def\<close>)
qed (use assms in \<open>auto simp: fence_ingress_def\<close>)

lemma fence_ingress_frame:
  "same_authorities s (fst (fence_ingress E physical expected s))
   \<and> bs_leases (fst (fence_ingress E physical expected s)) = bs_leases s
   \<and> bs_instance (fst (fence_ingress E physical expected s)) = bs_instance s"
proof -
  obtain s' r where f: "fence_ingress E physical expected s = (s', r)" by force
  have "s' = s \<or> (\<exists>q. gate_stage (\<lambda>g. fence_backend_reset (re_fence E) g None) (re_fence_wait E) s = (s', q))"
    using fence_ingress_cases [OF f] by blast
  then show ?thesis
    using gate_stage_frame [of s "\<lambda>g. fence_backend_reset (re_fence E) g None" "re_fence_wait E"] f
    by (auto simp: same_authorities_def)
qed

lemma fence_ingress_closes:
  assumes "fence_ingress E physical expected s = (s', r)" and "ig_waiting (gs_gate (bs_gate s)) = None"
  shows "s' = s \<or> gate_shut s'" and "r = Inr () \<Longrightarrow> closed_and_idle s'"
proof -
  note c = fence_ingress_cases [OF assms(1)]
  note f = fence_fenced [OF assms(2), of "re_fence E" "re_fence_wait E"]
  have closed: "gate_shut s' \<and> (q = Inr () \<longrightarrow> closed_and_idle s')"
    if "gate_stage (\<lambda>g. fence_backend_reset (re_fence E) g None) (re_fence_wait E) s = (s', q)" for q
    using f that by (cases q) (auto simp: outcome_def gate_shut_def closed_and_idle_def)
  show "s' = s \<or> gate_shut s'" using c closed by blast
  show "r = Inr () \<Longrightarrow> closed_and_idle s'" using c closed by blast
qed

section \<open>The calls of a replacement\<close>

definition calls_kept :: "backend_system \<Rightarrow> backend_system \<Rightarrow> bool" where
  "calls_kept s s' = (\<exists>cs. bs_calls s' = bs_calls s @ cs)"

interpretation calls_frame: stage_frame calls_kept
  by unfold_locales (auto simp: calls_kept_def)

lemma calls_frames:
  "calls_kept s (fst (gate_stage f w s))" "calls_kept s (fst (capture_stage E s))" "calls_kept s (fst (stop_stage E s))"
  "calls_kept s (fst (port_stage E c s))" "calls_kept s (fst (retire_leases_stage E cap s))" "calls_kept s (fst (retire_requests_stage E s))"
  "calls_kept s (fst (projection_stage E s))" "calls_kept s (fst (purge_stage E s))" "calls_kept s (fst (confirm_stage E s))"
  by (simp_all add: calls_kept_def gate_stage_def capture_stage_def stop_stage_def port_stage_def retire_leases_stage_def
      retire_requests_stage_def projection_stage_def purge_stage_def confirm_stage_def Let_def split: prod.split projection_answer.split)

lemma rotate_calls: "calls_kept s (fst (rotate_stage E s))"
proof -
  have "calls_kept t (fst (case rotate_after_backend_stop (bs_authority t) of (a, receipt) \<Rightarrow> (t\<lparr>bs_authority := a\<rparr>, Inr receipt)))" for t
    by (simp add: calls_kept_def split: prod.split)
  then show ?thesis unfolding rotate_stage_def by (intro calls_frame.bindc_frame calls_frames)
qed

lemma clear_calls: "calls_kept s (fst (clear_machine E s))"
  unfolding clear_machine_def by (intro calls_frame.bindc_frame calls_frames calls_frame.unchanged)

lemma admit_calls: "calls_kept s (fst (admit_replacement E s))"
proof -
  have rest: "calls_kept s (fst (if strip (re_endpoint E) = [] then (s, Inl NoReplacementEndpoint)
      else gate_stage (\<lambda>g. admit_backend_replacement (re_replace E) g (re_generation E)) [] s))" for s
    by (auto simp: calls_frames calls_frame.frame_refl)
  have ask: "calls_kept s (fst (if re_generation E \<le> 0 then (s, Inl InvalidReplacementGeneration)
      else bindc (port_stage E EndpointAsked s) (\<lambda>s _. if strip (re_endpoint E) = [] then (s, Inl NoReplacementEndpoint)
        else gate_stage (\<lambda>g. admit_backend_replacement (re_replace E) g (re_generation E)) [] s)))" for s
    using calls_frame.bindc_frame [OF calls_frames(4) rest] by (simp add: calls_frame.frame_refl)
  show ?thesis unfolding admit_replacement_def by (intro calls_frame.bindc_frame calls_frames ask)
qed

definition called :: "reset_call \<Rightarrow> backend_system \<Rightarrow> backend_system \<Rightarrow> bool" where
  "called c s s' = (\<exists>cs. bs_calls s' = bs_calls s @ cs \<and> c \<in> set cs)"

lemma calledI:
  "calls_kept s s1 \<Longrightarrow> called c s1 s2 \<Longrightarrow> called c s s2" "called c s s1 \<Longrightarrow> calls_kept s1 s2 \<Longrightarrow> called c s s2"
  by (auto simp: called_def calls_kept_def)

lemma called_new: "called c s s' \<Longrightarrow> c \<in> set (new_calls s s')"
  by (auto simp: called_def new_calls_def)

lemma bindc_called:
  assumes "bindc r k = (s', Inr y)" and "calls_kept s (fst r)" and "\<And>s1 x. k s1 x = (s', Inr y) \<Longrightarrow> called c s1 s'"
  shows "called c s s'"
proof -
  obtain s1 x where "r = (s1, Inr x)" and "k s1 x = (s', Inr y)" using assms(1) unfolding bindc_eq_Inr by blast
  then show ?thesis using assms(2,3) calledI(1) by fastforce
qed

lemma bindc_called_first:
  assumes "bindc r k = (s', Inr y)" and "\<And>s1 x. r = (s1, Inr x) \<Longrightarrow> called c s s1" and "\<And>s x. calls_kept s (fst (k s x))"
  shows "called c s s'"
proof -
  obtain s1 x where "r = (s1, Inr x)" and "k s1 x = (s', Inr y)" using assms(1) unfolding bindc_eq_Inr by blast
  then show ?thesis using assms(2) assms(3) [of s1 x] calledI(2) by fastforce
qed

lemma projection_called: "called ProjectionRetired s (fst (projection_stage E s))"
  by (simp add: called_def projection_stage_def Let_def split: projection_answer.split)

lemma retire_called: "retire_old_epoch E c s = (s', Inr x) \<Longrightarrow> called ProjectionRetired s s'"
  unfolding retire_old_epoch_def
  apply (erule bindc_called, rule calls_frames)
  apply (erule bindc_called, rule calls_frames)
  apply (erule bindc_called, rule calls_frames)
  apply (erule bindc_called, rule calls_frames)
  apply (erule bindc_called_first)
  subgoal using projection_called by (metis fst_conv)
  subgoal
    by (intro calls_frame.bindc_frame calls_frames calls_frame.frame_trans [OF _ rotate_calls] calls_frame.unchanged)
  done

lemma replace_called: "replace_owned_backend E s = (s', Inr rc) \<Longrightarrow> ProjectionRetired \<in> set (new_calls s s')"
proof (rule called_new)
  assume run: "replace_owned_backend E s = (s', Inr rc)"
  show "called ProjectionRetired s s'"
    using run unfolding replace_owned_backend_def
    apply (rule bindc_called, intro calls_frames)
    apply (erule bindc_called, intro calls_frames)
    apply (erule bindc_called, intro calls_frames)
    apply (erule bindc_called_first)
    subgoal by (rule retire_called)
    subgoal by (intro calls_frame.bindc_frame clear_calls admit_calls calls_frame.unchanged)
    done
qed

section \<open>What a replacement raises\<close>

definition raises :: "'s \<times> (reset_exn + 'a) \<Rightarrow> bool" where
  "raises r = (\<forall>s x. r = (s, Inl x) \<longrightarrow> \<not> known_no_effect x)"

lemma raises_bindc: "raises r \<Longrightarrow> (\<And>s x. raises (k s x)) \<Longrightarrow> raises (bindc r k)"
  unfolding raises_def bindc_eq_Inl by blast

lemma raises_return: "raises (s, Inr x)"
  by (simp add: raises_def)

lemma await_raises: "raises (await gs xs)"
proof (induction xs arbitrary: gs)
  case (Cons x xs)
  show ?case
  proof (cases "\<exists>E. x = Wake E")
    case True
    then obtain E where x: "x = Wake E" by blast
    obtain g out where w: "wake E (gs_gate gs) = (g, out)" by force
    show ?thesis using Cons.IH by (cases out) (auto simp: x w raises_def known_no_effect_def)
  next
    case False
    then have "await gs (x # xs) = await (gate_step gs x) xs" by (cases x) simp_all
    then show ?thesis using Cons.IH by simp
  qed
qed (simp add: raises_def known_no_effect_def)

lemma run_gate_raises: "raises (run_gate f w gs)"
proof -
  obtain g out where f: "f (gs_gate gs) = (g, out)" by force
  show ?thesis
    using await_raises by (cases out) (auto simp: run_gate_def f raises_def known_no_effect_def)
qed

lemma stage_raises:
  "raises (gate_stage f w s)" "raises (capture_stage E s)" "raises (stop_stage E s)" "raises (port_stage E c s)"
  "raises (retire_leases_stage E cap s)" "raises (retire_requests_stage E s)" "raises (projection_stage E s)"
  "raises (purge_stage E s)" "raises (confirm_stage E s)"
proof -
  show "raises (gate_stage f w s)"
    using run_gate_raises [of f w "bs_gate s"] by (auto simp: raises_def gate_stage_def split: prod.splits)
qed (auto simp: raises_def known_no_effect_def capture_stage_def stop_stage_def port_stage_def retire_leases_stage_def
    retire_requests_stage_def projection_stage_def purge_stage_def confirm_stage_def Let_def map_sum_def
    split: prod.splits sum.splits projection_answer.splits if_splits)

lemma rotate_raises: "raises (rotate_stage E s)"
  unfolding rotate_stage_def by (rule raises_bindc [OF stage_raises(4)]) (simp add: raises_def split: prod.split)

lemma retire_raises: "raises (retire_old_epoch E c s)"
  unfolding retire_old_epoch_def by (intro raises_bindc stage_raises rotate_raises raises_return)

lemma clear_raises: "raises (clear_machine E s)"
  unfolding clear_machine_def by (intro raises_bindc stage_raises raises_return)

lemma admit_raises: "raises (admit_replacement E s)"
proof -
  have rest: "raises (if strip (re_endpoint E) = [] then (s, Inl NoReplacementEndpoint)
      else gate_stage (\<lambda>g. admit_backend_replacement (re_replace E) g (re_generation E)) [] s)" for s
    using stage_raises(1) [of "\<lambda>g. admit_backend_replacement (re_replace E) g (re_generation E)" "[]" s]
    by (auto simp: raises_def known_no_effect_def)
  have ask: "raises (if re_generation E \<le> 0 then (s, Inl InvalidReplacementGeneration)
      else bindc (port_stage E EndpointAsked s) (\<lambda>s _. if strip (re_endpoint E) = [] then (s, Inl NoReplacementEndpoint)
        else gate_stage (\<lambda>g. admit_backend_replacement (re_replace E) g (re_generation E)) [] s))" for s
    using raises_bindc [OF stage_raises(4) rest] by (simp add: raises_def known_no_effect_def)
  show ?thesis unfolding admit_replacement_def by (intro raises_bindc stage_raises ask)
qed

lemma replace_raises: "raises (replace_owned_backend E s)"
  unfolding replace_owned_backend_def
  by (intro raises_bindc stage_raises retire_raises clear_raises admit_raises raises_return)

lemma fence_known_no_effect:
  assumes "fence_ingress E physical expected s = (s', Inl x)" and "known_no_effect x"
  shows "s' = s"
proof (cases expected)
  case None
  then show ?thesis
    using assms stage_raises(1) [of "\<lambda>g. fence_backend_reset (re_fence E) g None" "re_fence_wait E" s]
    by (auto simp: fence_ingress_def raises_def)
next
  case (Some v)
  from conditional_fence [OF assms(1) [unfolded Some]] assms(2) show ?thesis by blast
qed

section \<open>The service\<close>

lemma completed_service:
  assumes "reset_current_instance E force expected s = (s', Inr payload)"
  obtains status reason b1 k ss evs p rc url where "se_preview E = Some (status, reason)" and "\<not> policy_rejects status force"
    and "fence_ingress ((se_reset E)\<lparr>re_fence := se_fence E, re_fence_wait := se_fence_wait E\<rparr>) (se_physical E) expected
      (sv_backend s) = (b1, Inr ())"
    and "invalidate_all (se_queue E) (sv_queue s) = (sv_queue s', Inr k)" and "se_sessions E = Some ss"
    and "retire_local_projection E (filter bn_anchor ss)
      (sort (remdups (filter (\<lambda>t. t \<noteq> []) (map (\<lambda>x. strip (bn_thread x)) ss)))) = (evs, Some p)"
    and "replace_owned_backend (with_projection E (Some p)) b1 = (sv_backend s', Inr rc)"
    and "sv_log s' = sv_log s @ evs" and "se_url E = Some url"
    and "payload = reset_payload force (int (length (rg_pending (co_registry (bs_requests b1))))) rc p url"
proof -
  obtain status reason where pv: "se_preview E = Some (status, reason)" "\<not> policy_rejects status force"
    and run: "bindc (fence_stage_of E expected s) (\<lambda>s _.
             bindc (binding_inventory E s) (\<lambda>s inventory.
             bindc (prepare_stage s) (\<lambda>s n.
             bindc (replace_stage E (fst inventory) (snd inventory) s) (\<lambda>s reset.
               (s, case se_url E of
                     None \<Rightarrow> Inl UrlRaised
                   | Some url \<Rightarrow> Inr (reset_payload force n (fst reset) (snd reset) url)))))) = (s', Inr payload)"
    using assms by (auto simp: reset_current_instance_def split: if_splits option.splits)
  obtain s1 s2 inv n s4 rs where f: "fence_stage_of E expected s = (s1, Inr ())" and i: "binding_inventory E s1 = (s2, Inr inv)"
    and pr: "prepare_stage s2 = (s2, Inr n)" and re: "replace_stage E (fst inv) (snd inv) s2 = (s', Inr rs)"
    and u: "(case se_url E of None \<Rightarrow> Inl UrlRaised | Some url \<Rightarrow> Inr (reset_payload force n (fst rs) (snd rs) url)) = Inr payload"
    using run by (auto simp: bindc_eq_Inr prepare_stage_def)
  obtain b1 where fi: "fence_ingress ((se_reset E)\<lparr>re_fence := se_fence E, re_fence_wait := se_fence_wait E\<rparr>) (se_physical E) expected
      (sv_backend s) = (b1, Inr ())" and s1: "s1 = s\<lparr>sv_backend := b1\<rparr>"
    using f by (auto simp: fence_stage_of_def map_sum_def split: prod.splits sum.splits)
  obtain q k ss where q: "invalidate_all (se_queue E) (sv_queue s) = (q, Inr k)" and s2: "s2 = s1\<lparr>sv_queue := q\<rparr>" and ss: "se_sessions E = Some ss"
    and inv: "inv = (filter bn_anchor ss, sort (remdups (filter (\<lambda>t. t \<noteq> []) (map (\<lambda>x. strip (bn_thread x)) ss))))"
    using i by (auto simp: binding_inventory_def s1 split: prod.splits sum.splits option.splits)
  obtain evs p where pj: "retire_local_projection E (fst inv) (snd inv) = (evs, p)" by force
  obtain b r where rp: "replace_owned_backend (with_projection E p) b1 = (b, r)" by force
  have s': "sv_backend s' = b" "sv_queue s' = q"
    "sv_log s' = sv_log s @ (if ProjectionRetired \<in> set (new_calls b1 b) then evs else [])"
    and rr: "(case (r, p) of (Inl x, _) \<Rightarrow> Inl (ResetFailed x) | (Inr rc, None) \<Rightarrow> Inl (ResetFailed InvalidProjection)
      | (Inr rc, Some receipt) \<Rightarrow> Inr (rc, receipt)) = Inr rs"
    using re by (auto simp: replace_stage_def pj rp s1 s2)
  obtain rc p0 where r: "r = Inr rc" "p = Some p0" "rs = (rc, p0)"
    using rr by (auto split: sum.splits option.splits)
  have "ProjectionRetired \<in> set (new_calls b1 b)" using replace_called rp r(1) by blast
  then have l: "sv_log s' = sv_log s @ evs" using s'(3) by simp
  have n: "n = int (length (rg_pending (co_registry (bs_requests b1))))"
    using pr by (simp add: prepare_stage_def prepare_all_def checked_pending_count_def pending_count_def s1 s2)
  obtain url where url: "se_url E = Some url" "payload = reset_payload force n rc p0 url"
    using u r(3) by (cases "se_url E") auto
  show ?thesis
    by (rule that [OF pv fi _ ss _ _ l url(1)]) (use q s' pj rp r url(2) n inv in auto)
qed

lemma purged_threads:
  assumes "trl_purge_all_for_instance e i d = (d', Inr raw)" and "trl_readable e d" and "strip i \<noteq> []"
  shows "set raw = {t. \<exists>l h. trl_ledger e d t = Some l \<and> h \<in> set (trl_holders l) \<and> trh_instance_name h = lower (strip i)}"
    and "\<forall>t \<in> set raw. strip t = t \<and> t \<noteq> []"
proof -
  have r: "set raw = swept (\<lambda>_. True) (\<lambda>h. trh_instance_name h \<noteq> lower (strip i)) (trl_ledger e d)"
    using trl_purge_all_outcome [OF assms] by (simp add: sweeps_or_keeps_def)
  then show "set raw = {t. \<exists>l h. trl_ledger e d t = Some l \<and> h \<in> set (trl_holders l) \<and> trh_instance_name h = lower (strip i)}"
    by (auto simp: swept_def list_all_iff)
  show "\<forall>t \<in> set raw. strip t = t \<and> t \<noteq> []"
  proof
    fix t assume "t \<in> set raw"
    then obtain l where "trl_ledger e d t = Some l" using r by (auto simp: swept_def)
    from trl_ledger_wf [OF this] show "strip t = t \<and> t \<noteq> []" by (auto simp: runtime_lease_wf_def)
  qed
qed

definition without_effect :: "service_exn \<Rightarrow> bool" where
  "without_effect x =
     (x = ServiceValueError \<or> x = PreviewRaised \<or> (\<exists>reason. x = PolicyRejected reason) \<or> (\<exists>y. x = ResetFailed y \<and> known_no_effect y))"

lemma stage_backends:
  "sv_backend (fst (binding_inventory E s)) = sv_backend s" "sv_backend (fst (prepare_stage s)) = sv_backend s"
  by (simp_all add: binding_inventory_def prepare_stage_def split: prod.split sum.split)

lemma retire_needs_projection: "retire_old_epoch E c s = (s', Inr x) \<Longrightarrow> re_projection E = ProjectionReceipt"
  by (cases "re_projection E") (auto simp: retire_old_epoch_def bindc_eq_Inr projection_stage_def Let_def)

lemma replace_needs_projection: "replace_owned_backend E s = (s', Inr rc) \<Longrightarrow> re_projection E = ProjectionReceipt"
  unfolding replace_owned_backend_def bindc_eq_Inr using retire_needs_projection by blast

lemma failed_replacement:
  assumes "replace_stage E xs ts s = (s', Inl x)" and "closed_and_idle (sv_backend s)"
  shows "gate_shut (sv_backend s')" and "\<not> without_effect x"
proof -
  obtain evs p where pj: "retire_local_projection E xs ts = (evs, p)" by force
  obtain b r where rp: "replace_owned_backend (with_projection E p) (sv_backend s) = (b, r)" by force
  have s': "sv_backend s' = b" and x: "(case (r, p) of (Inl y, _) \<Rightarrow> Inl (ResetFailed y) | (Inr rc, None) \<Rightarrow> Inl (ResetFailed InvalidProjection)
      | (Inr rc, Some receipt) \<Rightarrow> Inr (rc, receipt)) = Inl x"
    using assms(1) by (auto simp: replace_stage_def pj rp)
  have none: "p \<noteq> None" if "r = Inr rc" for rc
    using replace_needs_projection [of "with_projection E p" "sv_backend s" b rc] rp that by (cases p) (auto simp: with_projection_def)
  obtain y where y: "r = Inl y" "x = ResetFailed y" using x none by (cases r; cases p) auto
  have idle: "ig_waiting (gs_gate (bs_gate (sv_backend s))) = None" using assms(2) by (simp add: closed_and_idle_def)
  show "gate_shut (sv_backend s')"
    using replace_shut [OF idle, of "with_projection E p", unfolded rp] by (simp add: outcome_def s' y(1))
  show "\<not> without_effect x"
    using replace_raises [of "with_projection E p" "sv_backend s", unfolded rp] y by (auto simp: without_effect_def raises_def)
qed

lemma service_failure:
  assumes run: "reset_current_instance E force expected s = (s', Inl x)" and idle: "ig_waiting (gs_gate (bs_gate (sv_backend s))) = None"
  shows "(s' = s \<or> gate_shut (sv_backend s') \<or> x = UrlRaised) \<and> (without_effect x \<longrightarrow> s' = s)"
proof (cases "s' = s")
  case False
  then have run: "bindc (fence_stage_of E expected s) (\<lambda>s _.
             bindc (binding_inventory E s) (\<lambda>s inventory.
             bindc (prepare_stage s) (\<lambda>s n.
             bindc (replace_stage E (fst inventory) (snd inventory) s) (\<lambda>s reset.
               (s, case se_url E of
                     None \<Rightarrow> Inl UrlRaised
                   | Some url \<Rightarrow> Inr (reset_payload force n (fst reset) (snd reset) url)))))) = (s', Inl x)"
    using run by (auto simp: reset_current_instance_def split: if_splits option.splits)
  let ?RE = "(se_reset E)\<lparr>re_fence := se_fence E, re_fence_wait := se_fence_wait E\<rparr>"
  obtain b1 r1 where f: "fence_ingress ?RE (se_physical E) expected (sv_backend s) = (b1, r1)" by force
  have fs: "fence_stage_of E expected s = (s\<lparr>sv_backend := b1\<rparr>, map_sum ResetFailed id r1)"
    by (simp add: fence_stage_of_def f)
  have same: "s\<lparr>sv_backend := sv_backend s\<rparr> = s" by simp
  show ?thesis
  proof (cases r1)
    case (Inl y)
    then have e: "s' = s\<lparr>sv_backend := b1\<rparr>" "x = ResetFailed y" using run by (simp_all add: fs)
    have "b1 \<noteq> sv_backend s" using False e(1) same by metis
    then have "gate_shut b1" using fence_ingress_closes(1) [OF f idle] by blast
    moreover have "\<not> known_no_effect y" using fence_known_no_effect f Inl \<open>b1 \<noteq> sv_backend s\<close> by blast
    ultimately show ?thesis by (auto simp: e without_effect_def)
  next
    case (Inr u)
    then have "r1 = Inr ()" by simp
    then have c1: "closed_and_idle b1" by (rule fence_ingress_closes(2) [OF f idle])
    obtain s2 r2 where i: "binding_inventory E (s\<lparr>sv_backend := b1\<rparr>) = (s2, r2)" by force
    have b2: "sv_backend s2 = b1" using stage_backends(1) [of E "s\<lparr>sv_backend := b1\<rparr>"] by (simp add: i)
    show ?thesis
    proof (cases r2)
      case (Inl y)
      then have "s' = s2" "x = y" using run by (simp_all add: fs Inr i)
      moreover have "\<not> without_effect y" using i Inl
        by (auto simp: binding_inventory_def without_effect_def split: prod.splits sum.splits option.splits)
      ultimately show ?thesis using c1 b2 by (simp add: gate_shut_def closed_and_idle_def)
    next
      case (Inr inv)
      obtain n where pr: "prepare_stage s2 = (s2, Inr n)"
        by (simp add: prepare_stage_def prepare_all_def checked_pending_count_def)
      obtain s4 r4 where re: "replace_stage E (fst inv) (snd inv) s2 = (s4, r4)" by force
      show ?thesis
      proof (cases r4)
        case (Inl y)
        then have "s' = s4" "x = y" using run by (simp_all add: fs \<open>r1 = Inr u\<close> i Inr pr re)
        with failed_replacement [OF re [unfolded Inl]] c1 b2 show ?thesis by simp
      next
        case (Inr z)
        then have "x = UrlRaised" using run by (simp add: fs \<open>r1 = Inr u\<close> i \<open>r2 = Inr inv\<close> pr re split: option.splits)
        then show ?thesis by (simp add: without_effect_def)
      qed
    qed
  qed
qed simp

section \<open>The events of a projection\<close>

definition detached_timers :: "service_env \<Rightarrow> projection_event list \<Rightarrow> nat list" where
  "detached_timers E evs =
     concat (map (\<lambda>v. case v of ThreadDetached t \<Rightarrow> (case se_detach E t of None \<Rightarrow> [] | Some x \<Rightarrow> snd x) | _ \<Rightarrow> []) evs)"

lemma detach_events:
  "detach_threads E ts = (evs, timers, r) \<Longrightarrow>
    timers = detached_timers E evs \<and> (\<exists>done_ts later. ts = done_ts @ later \<and> evs = map ThreadDetached done_ts \<and> (r \<noteq> None \<longleftrightarrow> later = []))"
proof (induction ts arbitrary: evs timers r)
  case (Cons t ts)
  show ?case
  proof (cases "se_detach E t")
    case None
    then show ?thesis using Cons.prems by (auto simp: detached_timers_def)
  next
    case (Some x)
    obtain ids tm where x: "x = (ids, tm)" by force
    obtain evs1 tm1 r1 where d: "detach_threads E ts = (evs1, tm1, r1)" by (metis prod_cases3)
    have e: "evs = ThreadDetached t # evs1" "timers = tm @ tm1" "r = map_option ((@) ids) r1"
      using Cons.prems by (simp_all add: Some x d)
    from Cons.IH [OF d] obtain done_ts later where "tm1 = detached_timers E evs1" "ts = done_ts @ later"
      "evs1 = map ThreadDetached done_ts" "r1 \<noteq> None \<longleftrightarrow> later = []" by blast
    then show ?thesis
      by (intro conjI exI [of _ "t # done_ts"] exI [of _ later]) (auto simp: e detached_timers_def Some x)
  qed
qed (simp add: detached_timers_def)

definition interrupts :: "service_env \<Rightarrow> bound_session list \<Rightarrow> bound_session list" where
  "interrupts E xs = filter (\<lambda>x. se_interrupt E x = Interrupted) xs"

lemma interrupt_events:
  "interrupt_active_bindings E xs = (evs, Some (ids, ws)) \<Longrightarrow>
    evs = concat (map (\<lambda>x. [SessionInterrupted (bn_binding x), ExecutionFinalized (bn_binding x)]) (interrupts E xs))
    \<and> map Some ids = map (\<lambda>x. format_binding_id (bn_binding x)) (interrupts E xs)
    \<and> (\<forall>x \<in> set xs. se_interrupt E x \<noteq> InterruptRaises)"
proof (induction xs arbitrary: evs ids ws)
  case (Cons x xs)
  show ?case
  proof (cases "se_interrupt E x")
    case Interrupted
    then obtain i err evs1 ids1 ws1 where "format_binding_id (bn_binding x) = Some i"
      and r: "interrupt_active_bindings E xs = (evs1, Some (ids1, ws1))"
      and "evs = SessionInterrupted (bn_binding x) # ExecutionFinalized (bn_binding x) # evs1" "ids = i # ids1"
      using Cons.prems by (auto split: option.splits prod.splits)
    with Cons.IH [OF r] Interrupted show ?thesis by (simp add: interrupts_def)
  next
    case NothingActive
    then have "interrupt_active_bindings E xs = (evs, Some (ids, ws))" using Cons.prems by simp
    from Cons.IH [OF this] NothingActive show ?thesis by (simp add: interrupts_def)
  qed (use Cons.prems in simp)
qed (simp add: interrupts_def)

section \<open>Concrete inputs\<close>

definition demo_session :: bound_session where
  "demo_session = \<lparr>bn_binding = (''o'', ''c''), bn_thread = '' t1'', bn_anchor = True\<rparr>"

definition demo_service_env :: service_env where
  "demo_service_env =
     \<lparr>se_preview = Some (''available'', []), se_physical = PhysicalMatches, se_fence = demo_ports, se_fence_wait = [],
      se_queue = Execution_Queue_Properties.demo_env, se_sessions = Some [demo_session], se_interrupt = (\<lambda>_. Interrupted),
      se_finalize = (\<lambda>_. Some ''late''), se_detach = (\<lambda>t. Some ([''p2p:o:c''], [3])), se_reset = demo_reset_env, se_url = Some '' http''\<rparr>"

definition demo_service :: service_state where
  "demo_service = \<lparr>sv_backend = demo_system, sv_queue = demo_queue, sv_log = []\<rparr>"

definition demo_fenced_gate :: gate_system where
  "demo_fenced_gate = fst (run_gate (\<lambda>g. fence_backend_reset demo_ports g (Some 1)) [] demo_open)"

lemma demo_fenced: "snd (run_gate (\<lambda>g. fence_backend_reset demo_ports g (Some 1)) [] demo_open) = Inr ()"
  "ig_active (gs_gate demo_fenced_gate) = 0" "ig_latest (gs_gate demo_fenced_gate) = 1"
  "ig_last_disconnected (gs_gate demo_fenced_gate) = 0"
  by code_simp+

lemma demo_fence_run:
  "fence_ingress ((se_reset demo_service_env)\<lparr>re_fence := se_fence demo_service_env, re_fence_wait := se_fence_wait demo_service_env\<rparr>)
     (se_physical demo_service_env) (Some (JInt 1)) demo_system = (demo_system\<lparr>bs_gate := demo_fenced_gate\<rparr>, Inr ())"
proof -
  have g: "run_gate (\<lambda>g. fence_backend_reset demo_ports g (Some 1)) [] demo_open = (demo_fenced_gate, Inr ())"
    using demo_fenced(1) by (simp add: demo_fenced_gate_def prod_eq_iff)
  have r: "require_reset_generation (JInt 1) = Some 1" by (simp add: require_reset_generation_def max_safe_generation_def)
  have b: "bs_gate demo_system = demo_open" by (simp add: demo_system_def)
  show ?thesis
    by (simp add: fence_ingress_def demo_service_env_def r gate_stage_def b g)
qed

lemma demo_ready_again:
  assumes "re_projection E = ProjectionReceipt" and "E = with_projection demo_service_env (Some p)"
  shows "reset_ready E (demo_system\<lparr>bs_gate := demo_fenced_gate\<rparr>)"
  using demo_ready assms(1)
  by (simp add: reset_ready_def assms(2) with_projection_def demo_service_env_def demo_fenced demo_gate demo_system_def demo_reset_env_def)

lemma demo_queue_inv: "queue_inv demo_queue"
  unfolding demo_queue_def by (rule queue_after_inv)

lemma demo_service_runs: "\<exists>s' payload. reset_current_instance demo_service_env False (Some (JInt 1)) demo_service = (s', Inr payload)"
proof -
  obtain q n where q: "invalidate_all Execution_Queue_Properties.demo_env demo_queue = (q, Inr n)"
    using invalidate_all_spec [OF demo_queue_inv, of Execution_Queue_Properties.demo_env]
    by (auto simp: Execution_Queue_Properties.demo_env_def)
  have f: "format_binding_id (''o'', ''c'') = Some ''p2p:o:c''" by code_simp
  obtain evs p where pj: "retire_local_projection demo_service_env [demo_session] [''t1''] = (evs, Some p)"
    by (simp add: retire_local_projection_def demo_service_env_def demo_session_def f detach_bound_threads_def)
  obtain s' rc where rp: "replace_owned_backend (with_projection demo_service_env (Some p)) (demo_system\<lparr>bs_gate := demo_fenced_gate\<rparr>) = (s', Inr rc)"
    using ready_reset_runs [OF demo_ready_again [OF _ refl]] by (auto simp: with_projection_def)
  have st: "strip '' t1'' = ''t1''" by code_simp
  have fs: "fence_stage_of demo_service_env (Some (JInt 1)) demo_service
      = (demo_service\<lparr>sv_backend := demo_system\<lparr>bs_gate := demo_fenced_gate\<rparr>\<rparr>, Inr ())"
    using demo_fence_run by (simp add: fence_stage_of_def demo_service_def)
  have iv: "binding_inventory demo_service_env (demo_service\<lparr>sv_backend := b\<rparr>)
      = (demo_service\<lparr>sv_backend := b, sv_queue := q\<rparr>, Inr ([demo_session], [''t1'']))" for b
    using q by (simp add: binding_inventory_def demo_service_env_def demo_service_def demo_session_def st)
  have re: "\<exists>t. replace_stage demo_service_env [demo_session] [''t1''] (demo_service\<lparr>sv_backend := demo_system\<lparr>bs_gate := demo_fenced_gate\<rparr>, sv_queue := q\<rparr>)
      = (t, Inr (rc, p))"
    by (simp add: replace_stage_def pj rp)
  have "\<not> (\<exists>v. Some (JInt 1) = Some v \<and> require_reset_generation v = None)"
    by (simp add: require_reset_generation_def max_safe_generation_def)
  moreover have "se_preview demo_service_env = Some (''available'', [])" "\<not> policy_rejects ''available'' False" "se_url demo_service_env = Some '' http''"
    by (simp_all add: demo_service_env_def policy_rejects_def)
  ultimately show ?thesis
    using fs iv re
    by (auto simp: reset_current_instance_def prepare_stage_def prepare_all_def checked_pending_count_def)
qed

section \<open>Properties\<close>

lemma with_projection_procs [simp]: "re_procs (with_projection E p) = re_procs (se_reset E)"
  by (simp add: with_projection_def)

lemma invalidated_lane:
  assumes "queue_inv q" and "lane_of q' b = (if b \<in> set (owned_keys q) then lane_invalidate [] (lane_of q b) else lane_of q b)"
  shows "items_of q' b = [] \<and> (\<forall>d. active_of q' b = Some d \<longrightarrow> ad_cancel d = BindingInvalidation)"
proof -
  have "lane_of q' b = \<lparr>ln_epoch = map_of (q_epoch q') b, ln_root = map_of (q_root q') b, ln_items = items_of q' b, ln_drain = active_of q' b\<rparr>"
    by (simp add: lane_of_def)
  then show ?thesis
    using assms(2) unowned_lane [OF queue_invD(1) [OF assms(1)], of b]
    by (cases "b \<in> set (owned_keys q)") (auto simp: lane_invalidate_def)
qed

text \<open>
  A failed reset of the instance either did nothing or left the ingress closed, unless the published
  endpoint cannot be read after the reset is complete; each refusal that stands for a known absence of
  effect did nothing.
\<close>

theorem failed_instance_reset:
  assumes "reset_current_instance E force expected s = (s', Inl x)" and "ig_waiting (gs_gate (bs_gate (sv_backend s))) = None"
  shows "(s' = s \<or> ig_blocked (gs_gate (bs_gate (sv_backend s'))) \<or> x = UrlRaised) \<and> (without_effect x \<longrightarrow> s' = s)"
  using service_failure [OF assms] by (simp add: gate_shut_def)

text \<open>
  The result of a reset is one the command accepts, and it says what happened: for binding ids and an endpoint that are not
  blank, the command decodes the returned object; the count is the number of requests pending before
  the reset, which are the ones retired, and the purged threads are exactly those with a runtime holder
  of the instance.
\<close>

theorem reset_result_is_decoded:
  assumes run: "reset_current_instance E force expected s = (s', Inr payload)" and idle: "ig_waiting (gs_gate (bs_gate (sv_backend s))) = None"
    and ids: "\<And>t ids timers. se_detach E t = Some (ids, timers) \<Longrightarrow> not_blank ids"
    and url: "\<And>url. se_url E = Some url \<Longrightarrow> strip url \<noteq> []"
    and runtime: "trl_readable (re_procs (se_reset E)) (bs_runtime_leases (sv_backend s))"
    and inst: "strip (bs_instance (sv_backend s)) \<noteq> []" and name: "strip instance_name \<noteq> []"
  shows "\<exists>r. reset_service_backend force instance_name (Some (JObj payload)) = CliReset r \<and> rt_force r = force
    \<and> rt_retired_requests r = int (length (rg_pending (co_registry (bs_requests (sv_backend s)))))
    \<and> set (rt_purged r) = {t. \<exists>l h. trl_ledger (re_procs (se_reset E)) (bs_runtime_leases (sv_backend s)) t = Some l
        \<and> h \<in> set (trl_holders l) \<and> trh_instance_name h = lower (strip (bs_instance (sv_backend s)))}"
proof -
  obtain b1 ss evs p rc u where fe: "fence_ingress ((se_reset E)\<lparr>re_fence := se_fence E, re_fence_wait := se_fence_wait E\<rparr>)
      (se_physical E) expected (sv_backend s) = (b1, Inr ())"
    and pj: "retire_local_projection E (filter bn_anchor ss)
      (sort (remdups (filter (\<lambda>t. t \<noteq> []) (map (\<lambda>x. strip (bn_thread x)) ss)))) = (evs, Some p)"
    and rp: "replace_owned_backend (with_projection E (Some p)) b1 = (sv_backend s', Inr rc)"
    and u: "se_url E = Some u" and pl: "payload = reset_payload force (int (length (rg_pending (co_registry (bs_requests b1))))) rc p u"
    by (rule completed_service [OF run])
  have same: "bs_runtime_leases b1 = bs_runtime_leases (sv_backend s)" "bs_requests b1 = bs_requests (sv_backend s)"
    "bs_instance b1 = bs_instance (sv_backend s)"
    using fence_ingress_frame [of "sv_backend s"] fe by (metis fst_conv same_authorities_def)+
  have idle1: "ig_waiting (gs_gate (bs_gate b1)) = None" using fence_ingress_closes(2) [OF fe idle] by (simp add: closed_and_idle_def)
  obtain raw where pu: "trl_purge_all_for_instance (re_procs (se_reset E)) (bs_instance (sv_backend s)) (bs_runtime_leases (sv_backend s))
      = (bs_runtime_leases (sv_backend s'), Inr raw)" and cl: "rc_cleared_threads rc = sort raw"
    by (rule completed_stages [OF rp idle1]) (use that same in simp)
  note raw = purged_threads [OF pu runtime inst]
  have "not_blank (rc_cleared_threads rc)" using raw(2) by (auto simp: cl not_blank_def)
  note dec = decode_payload [OF projection_texts [OF pj ids] this url [OF u] of_nat_0_le_iff, where force = force]
  have "map strip (sort raw) = sort raw" by (rule map_idI) (use raw(2) in simp)
  then show ?thesis
    using name raw(1) by (simp add: reset_service_backend_def pl dec cl same(2))
qed

text \<open>
  What a completed reset has settled around the backend: no Feishu prompt is queued and
  every running drain is cancelled; exactly the sessions with an execution that were still active are
  interrupted and finalised, in order; every bound thread is detached once, in order, and the
  timers of the detached bindings are cancelled last.
\<close>

theorem completed_instance_reset:
  assumes "reset_current_instance E force expected s = (s', Inr payload)" and "queue_inv (sv_queue s)" and "on_loop (se_queue E)"
  shows "(\<forall>b. items_of (sv_queue s') b = [] \<and> (\<forall>d. active_of (sv_queue s') b = Some d \<longrightarrow> ad_cancel d = BindingInvalidation))
    \<and> (\<exists>ss ts. se_sessions E = Some ss \<and> sorted ts \<and> distinct ts \<and> set ts = {t. t \<noteq> [] \<and> (\<exists>x \<in> set ss. t = strip (bn_thread x))}
        \<and> sv_log s' = sv_log s
            @ concat (map (\<lambda>x. [SessionInterrupted (bn_binding x), ExecutionFinalized (bn_binding x)]) (interrupts E (filter bn_anchor ss)))
            @ map ThreadDetached ts @ [TimersCancelled (detached_timers E (map ThreadDetached ts))])"
proof -
  obtain k ss evs p where iv: "invalidate_all (se_queue E) (sv_queue s) = (sv_queue s', Inr k)" and ss: "se_sessions E = Some ss"
    and pj: "retire_local_projection E (filter bn_anchor ss)
      (sort (remdups (filter (\<lambda>t. t \<noteq> []) (map (\<lambda>x. strip (bn_thread x)) ss)))) = (evs, Some p)"
    and l: "sv_log s' = sv_log s @ evs"
    by (rule completed_service [OF assms(1)])
  let ?ts = "sort (remdups (filter (\<lambda>t. t \<noteq> []) (map (\<lambda>x. strip (bn_thread x)) ss)))"
  obtain evs1 ids ws evs2 det tm where i: "interrupt_active_bindings E (filter bn_anchor ss) = (evs1, Some (ids, ws))"
    and d: "detach_threads E ?ts = (evs2, tm, Some det)" and e: "evs = evs1 @ evs2 @ [TimersCancelled tm]"
    using pj by (auto simp: retire_local_projection_def detach_bound_threads_def split: prod.splits option.splits)
  have "\<forall>b. lane_of (sv_queue s') b = (if b \<in> set (owned_keys (sv_queue s)) then lane_invalidate [] (lane_of (sv_queue s) b) else lane_of (sv_queue s) b)"
    using invalidate_all_spec [OF assms(2,3)] iv by auto
  then have "items_of (sv_queue s') b = [] \<and> (\<forall>d. active_of (sv_queue s') b = Some d \<longrightarrow> ad_cancel d = BindingInvalidation)" for b
    by (intro invalidated_lane [OF assms(2)]) (rule spec)
  moreover have "evs2 = map ThreadDetached ?ts" "tm = detached_timers E evs2" using detach_events [OF d] by auto
  ultimately show ?thesis
    using interrupt_events [OF i]
    by (intro conjI exI [of _ ss] exI [of _ ?ts]) (auto simp: l e ss)
qed

subsection \<open>At concrete inputs\<close>

theorem failed_instance_reset_witness:
  "\<exists>x. reset_current_instance (demo_service_env\<lparr>se_preview := Some (''blocked'', ''active turn'')\<rparr>) True None demo_service = (demo_service, Inl x)
    \<and> x = PolicyRejected ''active turn''"
proof -
  let ?E = "demo_service_env\<lparr>se_preview := Some (''blocked'', ''active turn'')\<rparr>"
  obtain s' where r: "reset_current_instance ?E True None demo_service = (s', Inl (PolicyRejected ''active turn''))"
    by (simp add: reset_current_instance_def policy_rejects_def)
  have "ig_waiting (gs_gate (bs_gate (sv_backend demo_service))) = None"
    by (simp add: demo_service_def demo_system_def demo_gate)
  from failed_instance_reset [OF r this] r show ?thesis by (simp add: without_effect_def)
qed

theorem reset_result_is_decoded_witness:
  "\<exists>s' payload r. reset_current_instance demo_service_env False (Some (JInt 1)) demo_service = (s', Inr payload)
    \<and> reset_service_backend False ''i1'' (Some (JObj payload)) = CliReset r \<and> rt_retired_requests r = 1 \<and> ''t1'' \<in> set (rt_purged r)"
proof -
  obtain s' payload where r: "reset_current_instance demo_service_env False (Some (JInt 1)) demo_service = (s', Inr payload)"
    using demo_service_runs by blast
  have f: "sv_backend demo_service = demo_system" "bs_gate demo_system = demo_open" "bs_runtime_leases demo_system = demo_runtime_disk"
    "re_procs (se_reset demo_service_env) = demo_procs" "bs_instance demo_system = ''i1''" "bs_requests demo_system = demo_requests"
    by (simp_all add: demo_service_def demo_system_def demo_service_env_def demo_reset_env_def)
  have i: "strip ''i1'' = ''i1''" "lower ''i1'' = ''i1''" "strip '' http'' \<noteq> []" "strip ''p2p:o:c'' \<noteq> []"
    and n: "length (rg_pending (co_registry demo_requests)) = 1"
    by code_simp+
  have d: "not_blank ids" if "se_detach demo_service_env t = Some (ids, timers)" for t ids timers
    using that i(4) by (auto simp: demo_service_env_def not_blank_def)
  have u: "strip url \<noteq> []" if "se_url demo_service_env = Some url" for url
    using that i(3) by (auto simp: demo_service_env_def)
  have h: "demo_holder \<in> set (trl_holders (first_lease ''t1'' demo_holder))" "trh_instance_name demo_holder = ''i1''"
    by (simp_all add: first_lease_def demo_holder_def)
  have x: "strip ''i1'' \<noteq> []" by (simp add: i)
  have "\<exists>c. reset_service_backend False ''i1'' (Some (JObj payload)) = CliReset c \<and> rt_force c = False
    \<and> rt_retired_requests c = int (length (rg_pending (co_registry (bs_requests (sv_backend demo_service)))))
    \<and> set (rt_purged c) = {t. \<exists>l h. trl_ledger (re_procs (se_reset demo_service_env)) (bs_runtime_leases (sv_backend demo_service)) t = Some l
        \<and> h \<in> set (trl_holders l) \<and> trh_instance_name h = lower (strip (bs_instance (sv_backend demo_service)))}"
    by (rule reset_result_is_decoded [OF r _ d u]) (simp_all add: f x demo_gate demo_runtime_ledger(1))
  then obtain c where c: "reset_service_backend False ''i1'' (Some (JObj payload)) = CliReset c" "rt_retired_requests c = 1"
    and p: "set (rt_purged c) = {t. \<exists>l h. trl_ledger demo_procs demo_runtime_disk t = Some l \<and> h \<in> set (trl_holders l)
      \<and> trh_instance_name h = lower (strip ''i1'')}"
    by (auto simp: f n)
  have "''t1'' \<in> set (rt_purged c)"
    unfolding p using h by (auto simp: demo_runtime_ledger(2) i)
  then show ?thesis using r c by blast
qed

theorem completed_instance_reset_witness:
  "\<exists>s' payload. reset_current_instance demo_service_env False (Some (JInt 1)) demo_service = (s', Inr payload)
    \<and> items_of (sv_queue s') (''o'', ''c'') = [] \<and> SessionInterrupted (''o'', ''c'') \<in> set (sv_log s')"
proof -
  obtain s' payload where r: "reset_current_instance demo_service_env False (Some (JInt 1)) demo_service = (s', Inr payload)"
    using demo_service_runs by blast
  have q: "queue_inv (sv_queue demo_service)" "on_loop (se_queue demo_service_env)"
    using demo_queue_inv by (simp_all add: demo_service_def demo_service_env_def Execution_Queue_Properties.demo_env_def)
  have s: "se_sessions demo_service_env = Some [demo_session]" "interrupts demo_service_env [demo_session] = [demo_session]"
    "bn_binding demo_session = (''o'', ''c'')" "bn_anchor demo_session"
    by (simp_all add: demo_service_env_def demo_session_def interrupts_def)
  from completed_instance_reset [OF r q] r show ?thesis by (auto simp: s)
qed

end
