(* ===== verification/Access_Policy.thy ===== *)
theory Access_Policy
  imports Interaction_Lease_Ledger Binding_Directory
begin

text \<open>
  Who may write to a thread (\<open>bot/thread_access_policy.py\<close>) and which threads a frontend may name
  directly (\<open>bot/direct_thread_target_policy.py\<close>).

  The policy reads the group mode of a chat, the subscribers of a thread and its interaction lease,
  which are the environment of a check; \<open>access_of\<close> takes the last two from the modelled
  subscription registry and lease store. A refusal is its reason code, the wording is left out. Then
  the properties of both.
\<close>

section \<open>The checks\<close>

datatype access_check = Allow | Deny string

abbreviation "denied_sharing \<equiv> ''prompt_denied_by_group_all_mode_sharing''"
abbreviation "denied_other_all \<equiv> ''prompt_denied_by_other_group_all_owner''"
abbreviation "denied_owner \<equiv> ''prompt_denied_by_interaction_owner''"
abbreviation "denied_running \<equiv> ''prompt_denied_by_running_turn''"

definition group_owner :: string where
  "group_owner = ''__group__''"

record access_env =
  ac_is_group :: "string \<Rightarrow> string \<Rightarrow> bool"
  ac_group_mode :: "string \<Rightarrow> string"
  ac_subscribers :: "string \<Rightarrow> binding list"
  ac_lease :: "string \<Rightarrow> interaction_lease option"
  ac_holder :: "binding \<Rightarrow> interaction_lease_holder"
  ac_procs :: proc_env

definition mode_word :: "string \<Rightarrow> string" where
  "mode_word m = lower (strip m)"

definition chat_mode :: "access_env \<Rightarrow> string \<Rightarrow> string \<Rightarrow> string option \<Rightarrow> string" where
  "chat_mode E chat message current =
     (let m = (case current of None \<Rightarrow> [] | Some s \<Rightarrow> mode_word s)
      in if m = [] \<and> ac_is_group E chat message then mode_word (ac_group_mode E chat) else m)"

definition other_all_group :: "access_env \<Rightarrow> string \<Rightarrow> binding \<Rightarrow> bool" where
  "other_all_group E chat b =
     (snd b \<noteq> chat \<and> fst b = group_owner \<and> mode_word (ac_group_mode E (snd b)) = ''all'')"

definition all_mode_exclusivity_check ::
  "access_env \<Rightarrow> string \<Rightarrow> string \<Rightarrow> string \<Rightarrow> string option \<Rightarrow> access_check" where
  "all_mode_exclusivity_check E chat_id thread_id message current =
     (let t = strip thread_id; chat = strip chat_id
      in if t = [] \<or> chat = [] then Allow
         else let mode = chat_mode E chat message current; subs = ac_subscribers E t
              in if mode = ''all'' \<and> (\<exists>b \<in> set subs. snd b \<noteq> chat) then Deny denied_sharing
                 else if \<exists>b \<in> set subs. other_all_group E chat b then Deny denied_other_all
                 else Allow)"

definition validate_group_mode_change :: "access_env \<Rightarrow> string \<Rightarrow> string \<Rightarrow> string \<Rightarrow> string \<Rightarrow> access_check" where
  "validate_group_mode_change E chat_id mode thread_id message =
     (if mode_word mode \<noteq> ''all'' \<or> strip thread_id = [] then Allow
      else all_mode_exclusivity_check E chat_id (strip thread_id) message (Some ''all''))"

definition prompt_write_check ::
  "access_env \<Rightarrow> binding \<Rightarrow> string \<Rightarrow> string \<Rightarrow> string \<Rightarrow> string option \<Rightarrow> access_check" where
  "prompt_write_check E b chat_id thread_id message current =
     (case all_mode_exclusivity_check E chat_id thread_id message current of
        Deny r \<Rightarrow> Deny r
      | Allow \<Rightarrow>
          (case ac_lease E thread_id of
             None \<Rightarrow> Allow
           | Some l \<Rightarrow> if \<not> same_holder (il_holder l) (ac_holder E b) then Deny denied_owner else Allow))"

definition is_exact_local_turn :: "proc_env \<Rightarrow> interaction_lease \<Rightarrow> string \<Rightarrow> string \<Rightarrow> bool" where
  "is_exact_local_turn e l thread_id turn_id =
     (let t = strip thread_id; turn = strip turn_id; h = il_holder l;
          recorded = strip (ih_owner_process_identity h); current = process_identity e (self_pid e)
      in t \<noteq> [] \<and> turn \<noteq> [] \<and> il_thread_id l = t \<and> il_turn_id l = turn
         \<and> (ih_kind h = ''web'' \<or> ih_kind h = ''fcodex'') \<and> ih_owner_pid h = self_pid e
         \<and> recorded \<noteq> [] \<and> current \<noteq> [] \<and> recorded = current)"

definition prompt_queue_check ::
  "access_env \<Rightarrow> binding \<Rightarrow> string \<Rightarrow> string \<Rightarrow> string \<Rightarrow> string \<Rightarrow> string option \<Rightarrow> bool \<Rightarrow> access_check" where
  "prompt_queue_check E b chat_id thread_id turn_id message current continuity =
     (case all_mode_exclusivity_check E chat_id thread_id message current of
        Deny r \<Rightarrow> Deny r
      | Allow \<Rightarrow>
          (if continuity then Allow
           else case ac_lease E thread_id of
             None \<Rightarrow> if strip turn_id \<noteq> [] then Allow else Deny denied_running
           | Some l \<Rightarrow>
               (if same_holder (il_holder l) (ac_holder E b) then Allow
                else if is_exact_local_turn (ac_procs E) l thread_id turn_id then Allow
                else Deny denied_owner)))"

definition current_process_local_turn_id :: "access_env \<Rightarrow> string \<Rightarrow> string" where
  "current_process_local_turn_id E thread_id =
     (let t = strip thread_id
      in if t = [] then []
         else case ac_lease E t of
           None \<Rightarrow> []
         | Some l \<Rightarrow> if \<not> is_exact_local_turn (ac_procs E) l t (il_turn_id l) then [] else strip (il_turn_id l))"

definition external_control_check :: "access_env \<Rightarrow> string \<Rightarrow> interaction_lease_holder option \<Rightarrow> access_check" where
  "external_control_check E thread_id writer =
     (let t = strip thread_id
      in if t = [] then Allow
         else case ac_lease E t of
           None \<Rightarrow> Allow
         | Some l \<Rightarrow>
             (if case writer of None \<Rightarrow> True | Some w \<Rightarrow> \<not> same_holder (il_holder l) w then Deny denied_owner else Allow))"

text \<open>The checks over the modelled registry and a readable lease file.\<close>

definition access_of ::
  "subscription_registry \<Rightarrow> lease_env \<Rightarrow> disk \<Rightarrow> (string \<Rightarrow> string \<Rightarrow> bool) \<Rightarrow> (string \<Rightarrow> string)
    \<Rightarrow> (binding \<Rightarrow> interaction_lease_holder) \<Rightarrow> access_env" where
  "access_of R e d groups modes holder =
     \<lparr>ac_is_group = groups, ac_group_mode = modes, ac_subscribers = subscribers R,
      ac_lease = (\<lambda>t. if strip t = [] then None else il_ledger e d (strip t)), ac_holder = holder, ac_procs = procs e\<rparr>"

section \<open>Direct targets\<close>

text \<open>The fields of a \<open>ThreadSummary\<close> the policy reads; \<open>tn_subagent\<close> is empty for \<open>None\<close>.\<close>

record thread_note =
  tn_thread :: string
  tn_source :: string
  tn_subagent :: string
  tn_known :: bool

definition direct_sources :: "string set" where
  "direct_sources = {''cli'', ''vscode'', ''exec'', ''appServer''}"

definition direct_target_denied :: "thread_note \<Rightarrow> bool" where
  "direct_target_denied n =
     (let source = strip (tn_source n); kind = strip (tn_subagent n)
      in kind = ''threadSpawn''
         \<or> (\<not> tn_known n \<or> source \<notin> insert ''subAgent'' direct_sources
            \<or> source = ''subAgent'' \<and> kind = [] \<or> source \<noteq> ''subAgent'' \<and> kind \<noteq> []))"

datatype target_exn = TargetUnconfirmed | TargetDenied | TargetEmpty | TargetTypeError | ReadFailed

definition remember_target :: "string set \<Rightarrow> thread_note option \<Rightarrow> string set \<times> (target_exn + unit)" where
  "remember_target ids summary =
     (case summary of
        None \<Rightarrow> (ids, Inl TargetTypeError)
      | Some n \<Rightarrow>
          (let t = strip (tn_thread n)
           in if t = [] then (ids, Inl TargetUnconfirmed)
              else if direct_target_denied n then (ids - {t}, Inr ())
              else (insert t ids, Inr ())))"

definition target_is_known :: "string set \<Rightarrow> string \<Rightarrow> bool" where
  "target_is_known ids t = (strip t \<in> ids)"

definition forget_target :: "string set \<Rightarrow> string \<Rightarrow> string set" where
  "forget_target ids t = ids - {strip t}"

definition require_direct_target :: "thread_note \<Rightarrow> string \<Rightarrow> target_exn + thread_note" where
  "require_direct_target n expected =
     (if strip expected \<noteq> [] \<and> strip (tn_thread n) \<noteq> strip expected then Inl TargetUnconfirmed
      else if direct_target_denied n then Inl TargetDenied
      else Inr n)"

text \<open>\<open>read_thread\<close> raises (\<open>Inl\<close>), or returns a snapshot with a summary or something else (\<open>None\<close>).\<close>

definition read_direct_target :: "string \<Rightarrow> (string \<Rightarrow> unit + thread_note option) \<Rightarrow> target_exn + thread_note" where
  "read_direct_target thread_id read_thread =
     (if strip thread_id = [] then Inl TargetEmpty
      else case read_thread (strip thread_id) of
        Inl _ \<Rightarrow> Inl ReadFailed
      | Inr None \<Rightarrow> Inl TargetUnconfirmed
      | Inr (Some n) \<Rightarrow> require_direct_target n (strip thread_id))"

datatype target_op = Remember "thread_note option" | Forget string | ClearTargets

fun target_step :: "string set \<Rightarrow> target_op \<Rightarrow> string set" where
  "target_step ids (Remember n) = fst (remember_target ids n)"
| "target_step ids (Forget t) = forget_target ids t"
| "target_step ids ClearTargets = {}"

section \<open>Exclusive groups\<close>

lemma reach_subscribed: "set (subscribers (run_ops subscription_step new_subscription_registry xs) t)
    = {b. (b, strip t) \<in> run_ops spec_subscription {} xs}"
proof -
  let ?R = "run_ops subscription_step new_subscription_registry xs"
  have p: "pairs_of ?R = run_ops spec_subscription {} xs"
    using pairs_of_run [OF subscriptions.init_inv, of xs] by (simp add: pairs_of_def subscribed_def new_subscription_registry_def)
  have "finite (subscribed ?R (strip t))"
    using subscriptions.reach_inv [of xs] by (auto simp: subscriptions_inv_def subscribed_def split: option.splits)
  then have "set (subscribers ?R t) = subscribed ?R (strip t)" by (simp add: subscribers_def)
  also have "\<dots> = {b. (b, strip t) \<in> pairs_of ?R}" by (simp add: pairs_of_def)
  finally show ?thesis by (simp add: p)
qed

lemma exclusive_others_denied:
  assumes "(group_owner, c) \<in> set (ac_subscribers E (strip t))" and "mode_word (ac_group_mode E c) = ''all''"
    and "strip chat \<noteq> c" and "strip chat \<noteq> []" and "strip t \<noteq> []"
  shows "\<exists>r. all_mode_exclusivity_check E chat t m current = Deny r"
proof -
  have "other_all_group E (strip chat) (group_owner, c)" using assms(2,3) by (simp add: other_all_group_def)
  then have "\<exists>b \<in> set (ac_subscribers E (strip t)). other_all_group E (strip chat) b" using assms(1) by blast
  then show ?thesis using assms(4,5) by (auto simp: all_mode_exclusivity_check_def Let_def)
qed

lemma all_mode_denied:
  assumes "b \<in> set (ac_subscribers E (strip t))" and "snd b \<noteq> strip chat" and "chat_mode E (strip chat) m current = ''all''"
    and "strip chat \<noteq> []" and "strip t \<noteq> []"
  shows "all_mode_exclusivity_check E chat t m current = Deny denied_sharing"
  using assms by (auto simp: all_mode_exclusivity_check_def Let_def)

lemma exclusivity_denies:
  assumes "all_mode_exclusivity_check E chat t m current = Deny r"
  shows "prompt_write_check E b chat t m current = Deny r"
    and "prompt_queue_check E b chat t turn m current continuity = Deny r"
  using assms by (simp_all add: prompt_write_check_def prompt_queue_check_def)

section \<open>The lease decides\<close>

lemma lease_denies:
  assumes "ac_lease E t = Some l" and "\<not> same_holder (il_holder l) (ac_holder E b)"
  shows "prompt_write_check E b chat t m current \<noteq> Allow"
  using assms by (simp add: prompt_write_check_def split: access_check.split)

lemma held_access:
  assumes "held e l d" and "strip t = il_thread_id l" and "il_thread_id l \<noteq> []"
  obtains l' where "ac_lease (access_of R e d groups modes holder) t = Some l'" and "same_generation l l'"
  using assms by (auto simp: held_def access_of_def)

lemma held_thread: "held e l d \<Longrightarrow> il_thread_id l \<noteq> []"
  using il.ledger_wf by (fastforce simp: held_def lease_wf_def)

section \<open>Direct targets\<close>

definition removes_target :: "string \<Rightarrow> target_op \<Rightarrow> bool" where
  "removes_target t x =
     (case x of
        Remember (Some n) \<Rightarrow> strip (tn_thread n) = t \<and> direct_target_denied n
      | Remember None \<Rightarrow> False
      | Forget u \<Rightarrow> strip u = t
      | ClearTargets \<Rightarrow> True)"

definition proves_target :: "string \<Rightarrow> target_op \<Rightarrow> bool" where
  "proves_target t x = (\<exists>n. x = Remember (Some n) \<and> strip (tn_thread n) = t \<and> t \<noteq> [] \<and> \<not> direct_target_denied n)"

lemma target_step_in:
  "t \<in> target_step ids x \<longleftrightarrow> t \<noteq> [] \<and> proves_target t x \<or> (t \<in> ids \<and> \<not> (removes_target t x \<and> \<not> (t = [] \<and> (\<exists>n. x = Remember (Some n)))))"
  by (cases x) (auto simp: remember_target_def forget_target_def proves_target_def removes_target_def Let_def split: option.splits)

interpretation targets: step_system target_step "{}" "\<lambda>ids. [] \<notin> ids"
proof
  fix ids x assume "[] \<notin> (ids :: string set)"
  then show "[] \<notin> target_step ids x"
    by (cases x) (auto simp: remember_target_def forget_target_def Let_def split: option.splits)
qed simp

lemma known_since:
  "t \<in> run_ops target_step ids xs \<Longrightarrow> [] \<notin> ids \<Longrightarrow>
    (t \<in> ids \<and> (\<forall>x \<in> set xs. \<not> removes_target t x)) \<or>
    (\<exists>ys x zs. xs = ys @ x # zs \<and> proves_target t x \<and> (\<forall>z \<in> set zs. \<not> removes_target t z))"
proof (induction xs arbitrary: ids)
  case (Cons x xs)
  have n: "[] \<notin> target_step ids x" using targets.step_inv [OF Cons.prems(2)] .
  from Cons.IH [OF _ n] Cons.prems(1) consider
      (old) "t \<in> target_step ids x" "\<forall>x \<in> set xs. \<not> removes_target t x"
    | (later) "\<exists>ys y zs. xs = ys @ y # zs \<and> proves_target t y \<and> (\<forall>z \<in> set zs. \<not> removes_target t z)"
    by auto
  then show ?case
  proof cases
    case old
    have "t \<noteq> []" using old(1) n by blast
    with old(1) have "proves_target t x \<or> t \<in> ids \<and> \<not> removes_target t x" by (auto simp: target_step_in)
    then show ?thesis
    proof
      assume "proves_target t x"
      then show ?thesis using old(2) by (intro disjI2 exI [of _ "[]"] exI [of _ x] exI [of _ xs]) simp
    qed (use old(2) in simp)
  next
    case later
    then obtain ys y zs where "xs = ys @ y # zs" "proves_target t y" "\<forall>z \<in> set zs. \<not> removes_target t z" by blast
    then show ?thesis by (intro disjI2 exI [of _ "x # ys"] exI [of _ y] exI [of _ zs]) simp
  qed
qed auto

section \<open>Properties\<close>

text \<open>
  C38. A group in \<open>all\<close> mode shares its thread with nobody: as long as it and a binding of another chat are
  both subscribed, over whatever subscriptions came before, neither of the two chats may
  write or queue, whatever the leases say.
\<close>

theorem all_mode_threads_are_exclusive:
  assumes reg: "R = run_ops subscription_step new_subscription_registry xs" and E: "E = access_of R e d groups modes holder"
    and group: "((group_owner, c), strip t) \<in> run_ops spec_subscription {} xs" and mode: "mode_word (modes c) = ''all''"
    and other: "(b, strip t) \<in> run_ops spec_subscription {} xs" "snd b \<noteq> c"
    and clean: "strip c = c" "c \<noteq> []" "strip (snd b) = snd b" "snd b \<noteq> []" "strip t \<noteq> []" and is_group: "groups c m"
  shows "(\<exists>r. prompt_write_check E b (snd b) t m current = Deny r) \<and> (\<exists>r. prompt_queue_check E b (snd b) t turn m current continuity = Deny r)
    \<and> prompt_write_check E (group_owner, c) c t m None = Deny denied_sharing
    \<and> prompt_queue_check E (group_owner, c) c t turn m None continuity = Deny denied_sharing"
proof -
  have subs: "set (ac_subscribers E (strip t)) = {b. (b, strip t) \<in> run_ops spec_subscription {} xs}"
    using reach_subscribed [of xs "strip t"] by (simp add: E access_of_def reg)
  have modes: "ac_group_mode E = modes" "ac_is_group E = groups" by (simp_all add: E access_of_def)
  obtain r where r: "all_mode_exclusivity_check E (snd b) t m current = Deny r"
    using exclusive_others_denied [of c E t "snd b" m current] subs group mode other(2) clean by (auto simp: modes)
  have "chat_mode E (strip c) m None = ''all''" using is_group mode clean(1) by (simp add: chat_mode_def modes)
  then have "all_mode_exclusivity_check E c t m None = Deny denied_sharing"
    using all_mode_denied [of b E t c m None] subs other clean by auto
  with r show ?thesis by (simp add: exclusivity_denies)
qed

text \<open>
  The lease is the licence to write: once an acquisition is granted, then after any sequence of store
  operations that does not itself end that lease, a Feishu binding with another holder may not write to the
  thread, and an external control call may write only as that holder.
\<close>

theorem granted_lease_licenses_writes:
  assumes acq: "il_acquire e t holder fresh now d = (d1, Inr res)" "ar_granted res" "ar_lease res = Some l" "il_readable e d"
    "op_ok e (OpAcquire t holder fresh now)"
    and ops: "\<forall>x \<in> set xs. op_ok e x \<and> \<not> may_end x l" and E: "E = access_of R e (run_ops (il_step e) d1 xs) groups modes hs"
    and u: "strip u = strip t"
  shows "(\<not> same_holder (il_holder l) (hs b) \<longrightarrow> prompt_write_check E b chat u m current \<noteq> Allow)
    \<and> external_control_check E u None = Deny denied_owner
    \<and> (external_control_check E u (Some w) = Allow \<longleftrightarrow> same_holder (il_holder l) w)"
proof -
  have h: "held e l d1" and t: "il_thread_id l = strip t"
    using acquired_held [OF acq(1,4,5,2)] acq(3) by auto
  have hx: "held e l (run_ops (il_step e) d1 xs)" by (rule run_held [OF h ops])
  have ne: "strip u \<noteq> []" using held_thread [OF hx] by (simp add: t u)
  obtain l' where l': "ac_lease E u = Some l'" "ac_lease E (strip u) = Some l'" and g: "same_generation l l'"
    using held_access [OF hx, of u R groups modes hs] ne by (auto simp: E t u access_of_def)
  have hs: "ac_holder E = hs" by (simp add: E access_of_def)
  have same: "same_holder (il_holder l') w \<longleftrightarrow> same_holder (il_holder l) w" for w
    using g by (auto simp: same_generation_def same_holder_def)
  show ?thesis
    using lease_denies [OF l'(1), of b chat m current] l'(2) ne same by (simp add: external_control_check_def hs Let_def)
qed

text \<open>
  Who may append to a running conversation: exactly a binding that passes the group rule and
  either continues its queue, or holds the lease, or names the turn that runs without a lease, or names the
  turn a browser or terminal of this very process runs.
\<close>

theorem queue_admission_decided:
  "prompt_queue_check E b chat t turn m current continuity = Allow \<longleftrightarrow>
     all_mode_exclusivity_check E chat t m current = Allow
     \<and> (continuity \<or> (ac_lease E t = None \<and> strip turn \<noteq> [])
        \<or> (\<exists>l. ac_lease E t = Some l \<and> (same_holder (il_holder l) (ac_holder E b)
            \<or> il_thread_id l = strip t \<and> strip t \<noteq> [] \<and> il_turn_id l = strip turn \<and> strip turn \<noteq> []
              \<and> ih_kind (il_holder l) \<in> {''web'', ''fcodex''} \<and> ih_owner_pid (il_holder l) = self_pid (ac_procs E)
              \<and> strip (ih_owner_process_identity (il_holder l)) = process_identity (ac_procs E) (self_pid (ac_procs E))
              \<and> process_identity (ac_procs E) (self_pid (ac_procs E)) \<noteq> [])))"
  by (auto simp: prompt_queue_check_def is_exact_local_turn_def Let_def split: access_check.splits option.splits)

text \<open>
  A known direct target was proved to be one: over any calls, an id counts as a root only if a
  summary with that id and a root source was remembered after which nothing forgot or denied it.
\<close>

theorem known_targets_were_proved:
  assumes "target_is_known (run_ops target_step {} xs) t"
  shows "\<exists>ys n zs. xs = ys @ Remember (Some n) # zs \<and> strip (tn_thread n) = strip t \<and> tn_known n
    \<and> strip (tn_subagent n) \<noteq> ''threadSpawn'' \<and> (strip (tn_source n) \<in> direct_sources \<or> strip (tn_source n) = ''subAgent'')
    \<and> (\<forall>z \<in> set zs. \<not> removes_target (strip t) z)"
proof -
  obtain ys x zs where "xs = ys @ x # zs" "proves_target (strip t) x" "\<forall>z \<in> set zs. \<not> removes_target (strip t) z"
    using known_since [of "strip t" "{}" xs] assms by (auto simp: target_is_known_def)
  then show ?thesis by (auto simp: proves_target_def direct_target_denied_def Let_def)
qed

section \<open>Witnesses\<close>

definition demo_subscriptions :: "subscription_op list" where
  "demo_subscriptions = [Subscribe (group_owner, ''g1'') ''t1'', Subscribe (''ou1'', ''g2'') ''t1'']"

definition demo_note :: thread_note where
  "demo_note = \<lparr>tn_thread = ''t1'', tn_source = ''cli'', tn_subagent = [], tn_known = True\<rparr>"

lemma demo_subscribed: "(group_owner, ''g1'') \<in> {b. (b, strip ''t1'') \<in> run_ops spec_subscription {} demo_subscriptions}"
  "((''ou1'', ''g2''), strip ''t1'') \<in> run_ops spec_subscription {} demo_subscriptions"
  by (simp_all add: demo_subscriptions_def demo_strip)

theorem all_mode_threads_are_exclusive_witness:
  "prompt_write_check (access_of (run_ops subscription_step new_subscription_registry demo_subscriptions) demo_env demo_disk
      (\<lambda>_ _. True) (\<lambda>_. ''all'') (\<lambda>_. demo_web)) (group_owner, ''g1'') ''g1'' ''t1'' ''m1'' None = Deny denied_sharing"
proof -
  have m: "mode_word ''all'' = ''all''" and c: "strip ''g1'' = ''g1''" "strip ''g2'' = ''g2''" "strip ''t1'' = ''t1''"
    by code_simp+
  show ?thesis
    using all_mode_threads_are_exclusive [OF refl refl, of "''g1''" "''t1''" demo_subscriptions "\<lambda>_. ''all''" "(''ou1'', ''g2'')"
        "\<lambda>_ _. True" "''m1''" demo_env demo_disk "\<lambda>_. demo_web" None] demo_subscribed m c by simp
qed

theorem granted_lease_licenses_writes_witness:
  "external_control_check (access_of new_subscription_registry demo_env demo_held_disk (\<lambda>_ _. True) (\<lambda>_. ''all'')
      (\<lambda>_. demo_feishu)) ''t1'' None = Deny denied_owner"
  using granted_lease_licenses_writes [OF demo_acquired _ _ demo_readable demo_op_ok(1), where xs = "[]" and u = "''t1''"]
  by (simp add: demo_held_disk_def)

theorem known_targets_were_proved_witness:
  "\<exists>n :: thread_note. tn_known n \<and> strip (tn_thread n) = strip ''t1'' \<and> strip (tn_subagent n) \<noteq> ''threadSpawn''"
proof -
  have "target_is_known (run_ops target_step {} [Remember (Some demo_note)]) ''t1''" by code_simp
  from known_targets_were_proved [OF this] show ?thesis by blast
qed

end
