(* ===== verification/Binding_Owner.thy ===== *)
theory Binding_Owner
  imports Binding_Directory
begin

text \<open>
  Who may change a binding (\<open>bot/binding_owner_authority.py\<close>), and the phase of the binding manager that
  settles the loss of a binding's owner before the binding changes (\<open>_settle_binding_owner_loss_locked\<close>,
  \<open>preflight_detach_thread_bindings_locked\<close> and the receipt checks of \<open>bot/binding_runtime_manager.py\<close>).

  Receipts are immutable objects compared with \<open>is\<close>: a record with its address stands for the
  object. A command is compared both ways: \<open>==\<close> (\<open>command_eq\<close>) leaves the address out. The settler
  and the runtime state are the environment of a call; the lock is re-entrant, so the settler
  may run any operations of the authority (\<open>se_nested\<close>).
\<close>

section \<open>Receipts and commands\<close>

record owner_receipt =
  ow_issuer :: nat
  ow_binding :: binding
  ow_incarnation :: int
  ow_revision :: int
  ow_thread :: string
  ow_addr :: nat

datatype disposition = Abandon | Terminal

record loss_command =
  lc_owner :: owner_receipt
  lc_reason :: string
  lc_disposition :: disposition
  lc_addr :: nat

definition command_eq :: "loss_command \<Rightarrow> loss_command \<Rightarrow> bool" where
  "command_eq c c' = (lc_owner c = lc_owner c' \<and> lc_reason c = lc_reason c' \<and> lc_disposition c = lc_disposition c')"

record loss_settlement =
  ls_command :: loss_command
  ls_settler :: int
  ls_transaction :: int

record detach_receipt =
  dr_issuer :: nat
  dr_nonce :: int
  dr_thread :: string
  dr_owners :: "owner_receipt list"
  dr_settlements :: "loss_settlement list"
  dr_addr :: nat

record owner_generation =
  og_incarnation :: int
  og_revision :: int
  og_receipt :: "owner_receipt option"
  og_reserved :: "loss_command option"

record owner_authority =
  oa_issuer :: nat
  oa_next_incarnation :: int
  oa_generations :: "(binding, owner_generation) dict"
  oa_next_detach :: int
  oa_detaches :: "(int, detach_receipt) dict"
  oa_next_addr :: nat

datatype owner_exn =
    OwnerExpired | OwnerForeign | OwnerReplaced
  | LossExpired | LossPending | LossUnreserved
  | DetachIncomplete | DetachForged | DetachMismatch
  | DispositionInvalid | SettlerMissing | SettlerInexact | SettlerRaised nat
  | PreflightNoThread | PreflightNoBinding | DetachUnavailable

definition new_owner_authority :: "nat \<Rightarrow> owner_authority" where
  "new_owner_authority issuer =
     \<lparr>oa_issuer = issuer, oa_next_incarnation = 0, oa_generations = [], oa_next_detach = 0, oa_detaches = [], oa_next_addr = 0\<rparr>"

definition generation_of :: "owner_authority \<Rightarrow> binding \<Rightarrow> owner_generation option" where
  "generation_of s b = map_of (oa_generations s) b"

definition put_generation :: "owner_authority \<Rightarrow> binding \<Rightarrow> owner_generation \<Rightarrow> owner_authority" where
  "put_generation s b g = s\<lparr>oa_generations := AList.update b g (oa_generations s)\<rparr>"

section \<open>The authority\<close>

definition ensure_generation :: "owner_authority \<Rightarrow> binding \<Rightarrow> owner_authority \<times> owner_generation" where
  "ensure_generation s b =
     (case generation_of s b of
        Some g \<Rightarrow> (s, g)
      | None \<Rightarrow>
          (let n = oa_next_incarnation s + 1;
               g = \<lparr>og_incarnation = n, og_revision = 0, og_receipt = None, og_reserved = None\<rparr>
           in (put_generation (s\<lparr>oa_next_incarnation := n\<rparr>) b g, g)))"

definition issue_owner ::
  "binding \<Rightarrow> string \<Rightarrow> string \<Rightarrow> owner_authority \<Rightarrow> owner_authority \<times> (owner_exn + owner_receipt)" where
  "issue_owner b expected_thread current_thread s =
     (let expected = strip expected_thread; current = strip current_thread
      in if expected \<noteq> current then (s, Inl OwnerExpired)
         else case ensure_generation s b of (s1, g) \<Rightarrow>
           (let fresh = \<lparr>ow_issuer = oa_issuer s1, ow_binding = b, ow_incarnation = og_incarnation g,
                  ow_revision = og_revision g, ow_thread = expected, ow_addr = oa_next_addr s1\<rparr>;
                issued = (put_generation s1 b (g\<lparr>og_receipt := Some fresh\<rparr>))\<lparr>oa_next_addr := oa_next_addr s1 + 1\<rparr>
            in case og_receipt g of
                 Some r \<Rightarrow> if ow_thread r = expected \<and> ow_revision r = og_revision g then (s1, Inr r)
                           else (issued, Inr fresh)
               | None \<Rightarrow> (issued, Inr fresh)))"

definition require_owner_current :: "owner_receipt \<Rightarrow> string \<Rightarrow> owner_authority \<Rightarrow> owner_exn + unit" where
  "require_owner_current r current_thread s =
     (if ow_issuer r \<noteq> oa_issuer s then Inl OwnerForeign
      else case generation_of s (ow_binding r) of
        None \<Rightarrow> Inl OwnerReplaced
      | Some g \<Rightarrow>
          (if og_receipt g \<noteq> Some r \<or> og_incarnation g \<noteq> ow_incarnation r \<or> og_revision g \<noteq> ow_revision r
              \<or> strip current_thread \<noteq> ow_thread r
           then Inl OwnerReplaced else Inr ()))"

definition reserve_owner_loss :: "loss_command \<Rightarrow> owner_authority \<Rightarrow> owner_authority \<times> (owner_exn + unit)" where
  "reserve_owner_loss c s =
     (case generation_of s (ow_binding (lc_owner c)) of
        None \<Rightarrow> (s, Inl LossExpired)
      | Some g \<Rightarrow>
          (if og_receipt g \<noteq> Some (lc_owner c) then (s, Inl LossExpired)
           else case og_reserved g of
             Some r \<Rightarrow> if \<not> command_eq r c then (s, Inl LossPending) else (s, Inr ())
           | None \<Rightarrow> (put_generation s (ow_binding (lc_owner c)) (g\<lparr>og_reserved := Some c\<rparr>), Inr ())))"

definition require_owner_loss_not_pending :: "owner_receipt \<Rightarrow> owner_authority \<Rightarrow> owner_exn + unit" where
  "require_owner_loss_not_pending r s =
     (case generation_of s (ow_binding r) of
        None \<Rightarrow> Inl LossPending
      | Some g \<Rightarrow> if og_receipt g \<noteq> Some r \<or> og_reserved g \<noteq> None then Inl LossPending else Inr ())"

definition consume_reservation :: "owner_generation \<Rightarrow> loss_command option \<Rightarrow> owner_exn + owner_generation" where
  "consume_reservation g settled =
     (case og_reserved g of
        None \<Rightarrow> if settled \<noteq> None then Inl LossUnreserved else Inr g
      | Some r \<Rightarrow>
          (case settled of
             None \<Rightarrow> Inl LossPending
           | Some c \<Rightarrow> if \<not> command_eq r c then Inl LossPending else Inr (g\<lparr>og_reserved := None\<rparr>)))"

definition owns_binding :: "detach_receipt \<Rightarrow> binding \<Rightarrow> bool" where
  "owns_binding r b = (b \<in> ow_binding ` set (dr_owners r))"

definition discard_detach_for :: "binding \<Rightarrow> owner_authority \<Rightarrow> owner_authority" where
  "discard_detach_for b s = s\<lparr>oa_detaches := filter (\<lambda>p. \<not> owns_binding (snd p) b) (oa_detaches s)\<rparr>"

text \<open>\<open>_ensure_generation\<close> stays done when the reservation refuses.\<close>

definition advance_owner :: "binding \<Rightarrow> loss_command option \<Rightarrow> owner_authority \<Rightarrow> owner_authority \<times> (owner_exn + unit)" where
  "advance_owner b settled s =
     (case ensure_generation s b of (s1, g) \<Rightarrow>
        (case consume_reservation g settled of
           Inl x \<Rightarrow> (s1, Inl x)
         | Inr g1 \<Rightarrow>
             (discard_detach_for b (put_generation s1 b (g1\<lparr>og_revision := og_revision g1 + 1, og_receipt := None\<rparr>)), Inr ())))"

definition retire_owner :: "binding \<Rightarrow> loss_command option \<Rightarrow> owner_authority \<Rightarrow> owner_authority \<times> (owner_exn + unit)" where
  "retire_owner b settled s =
     (case generation_of s b of
        None \<Rightarrow> (discard_detach_for b s, Inr ())
      | Some g \<Rightarrow>
          (case consume_reservation g settled of
             Inl x \<Rightarrow> (s, Inl x)
           | Inr _ \<Rightarrow> (discard_detach_for b (s\<lparr>oa_generations := AList.delete b (oa_generations s)\<rparr>), Inr ())))"

definition issue_detach ::
  "string \<Rightarrow> owner_receipt list \<Rightarrow> loss_settlement list \<Rightarrow> owner_authority
    \<Rightarrow> owner_authority \<times> (owner_exn + detach_receipt)" where
  "issue_detach thread_id owners settlements s =
     (if strip thread_id = [] \<or> owners = [] \<or> length owners \<noteq> length settlements then (s, Inl DetachIncomplete)
      else let s1 = foldl (\<lambda>s r. discard_detach_for (ow_binding r) s) s owners;
               n = oa_next_detach s1 + 1;
               r = \<lparr>dr_issuer = oa_issuer s1, dr_nonce = n, dr_thread = strip thread_id, dr_owners = owners,
                    dr_settlements = settlements, dr_addr = oa_next_addr s1\<rparr>
           in (s1\<lparr>oa_next_detach := n, oa_detaches := AList.update n r (oa_detaches s1), oa_next_addr := oa_next_addr s1 + 1\<rparr>,
               Inr r))"

definition settles :: "disposition \<Rightarrow> owner_receipt \<times> loss_settlement \<Rightarrow> bool" where
  "settles disp p =
     (lc_owner (ls_command (snd p)) = fst p \<and> lc_disposition (ls_command (snd p)) = disp
      \<and> lc_reason (ls_command (snd p)) = ''binding_detached'')"

definition consume_detach ::
  "detach_receipt \<Rightarrow> string \<Rightarrow> binding list \<Rightarrow> disposition \<Rightarrow> owner_authority
    \<Rightarrow> owner_authority \<times> (owner_exn + owner_receipt list)" where
  "consume_detach r thread_id bindings disp s =
     (if dr_issuer r \<noteq> oa_issuer s \<or> map_of (oa_detaches s) (dr_nonce r) \<noteq> Some r \<or> dr_thread r \<noteq> strip thread_id
         \<or> map ow_binding (dr_owners r) \<noteq> bindings \<or> length (dr_owners r) \<noteq> length (dr_settlements r)
      then (s, Inl DetachForged)
      else if \<not> list_all (settles disp) (zip (dr_owners r) (dr_settlements r)) then (s, Inl DetachMismatch)
      else (s\<lparr>oa_detaches := AList.delete (dr_nonce r) (oa_detaches s)\<rparr>, Inr (dr_owners r)))"

definition discard_detach :: "detach_receipt \<Rightarrow> owner_authority \<Rightarrow> owner_authority" where
  "discard_detach r s =
     (if map_of (oa_detaches s) (dr_nonce r) = Some r \<and> dr_issuer r = oa_issuer s
      then s\<lparr>oa_detaches := AList.delete (dr_nonce r) (oa_detaches s)\<rparr> else s)"

section \<open>Sequences of operations\<close>

datatype owner_op =
    IssueOwner binding string string
  | ReserveLoss loss_command
  | AdvanceOwner binding "loss_command option"
  | RetireOwner binding "loss_command option"
  | IssueDetach string "owner_receipt list" "loss_settlement list"
  | ConsumeDetach detach_receipt string "binding list" disposition
  | DiscardDetach detach_receipt

fun owner_step :: "owner_authority \<Rightarrow> owner_op \<Rightarrow> owner_authority" where
  "owner_step s (IssueOwner b expected current) = fst (issue_owner b expected current s)"
| "owner_step s (ReserveLoss c) = fst (reserve_owner_loss c s)"
| "owner_step s (AdvanceOwner b settled) = fst (advance_owner b settled s)"
| "owner_step s (RetireOwner b settled) = fst (retire_owner b settled s)"
| "owner_step s (IssueDetach t owners settlements) = fst (issue_detach t owners settlements s)"
| "owner_step s (ConsumeDetach r t bs disp) = fst (consume_detach r t bs disp s)"
| "owner_step s (DiscardDetach r) = discard_detach r s"

section \<open>Settling the loss of an owner\<close>

text \<open>
  \<open>se_threads\<close> is \<open>binding_owner_thread_id_locked\<close> before the settler runs, \<open>se_threads_after\<close>
  after it. \<open>se_settle\<close> is \<open>None\<close> when no settler is installed; its answer is \<open>None\<close> when it
  is not a settlement receipt.
\<close>

record settle_env =
  se_threads :: "binding \<Rightarrow> string"
  se_settle :: "(loss_command \<Rightarrow> nat + loss_settlement option) option"
  se_nested :: "owner_op list"
  se_threads_after :: "binding \<Rightarrow> string"

definition normalize_disposition :: "string \<Rightarrow> owner_exn + disposition" where
  "normalize_disposition v =
     (if strip v = ''abandon'' then Inr Abandon else if strip v = ''terminal'' then Inr Terminal else Inl DispositionInvalid)"

definition lift_check :: "owner_authority \<Rightarrow> owner_exn + 'a \<Rightarrow> owner_authority \<times> (owner_exn + 'a)" where
  "lift_check s r = (s, r)"

definition ask_settler :: "settle_env \<Rightarrow> string \<Rightarrow> loss_command \<Rightarrow> owner_authority
    \<Rightarrow> owner_authority \<times> (owner_exn + loss_settlement option)" where
  "ask_settler E thread c s =
     (if thread = [] then (s, Inr (Some \<lparr>ls_command = c, ls_settler = 0, ls_transaction = 0\<rparr>))
      else case se_settle E of
        None \<Rightarrow> (s, Inl SettlerMissing)
      | Some f \<Rightarrow> (run_ops owner_step s (se_nested E),
                   case f c of Inl n \<Rightarrow> Inl (SettlerRaised n) | Inr r \<Rightarrow> Inr r))"

definition check_settled ::
  "settle_env \<Rightarrow> owner_receipt \<Rightarrow> loss_command \<Rightarrow> loss_settlement option \<Rightarrow> owner_authority
    \<Rightarrow> owner_exn + owner_receipt \<times> loss_settlement" where
  "check_settled E w c answer s =
     (case answer of
        None \<Rightarrow> Inl SettlerInexact
      | Some m \<Rightarrow>
          (if ls_command m \<noteq> c then Inl SettlerInexact
           else bindr (require_owner_current w (se_threads_after E (ow_binding w)) s) (\<lambda>_. Inr (w, m))))"

definition settle_binding_owner_loss ::
  "settle_env \<Rightarrow> binding \<Rightarrow> string \<Rightarrow> string \<Rightarrow> string \<Rightarrow> owner_authority
    \<Rightarrow> owner_authority \<times> (owner_exn + owner_receipt \<times> loss_settlement)" where
  "settle_binding_owner_loss E b thread_id reason disp s =
     bindc (issue_owner b (strip thread_id) (se_threads E b) s) (\<lambda>s1 w.
     bindc (lift_check s1 (normalize_disposition disp)) (\<lambda>s1 d.
       (let c = \<lparr>lc_owner = w, lc_reason = strip reason, lc_disposition = d, lc_addr = oa_next_addr s1\<rparr>
        in bindc (reserve_owner_loss c (s1\<lparr>oa_next_addr := oa_next_addr s1 + 1\<rparr>)) (\<lambda>s2 _.
           bindc (ask_settler E (strip thread_id) c s2) (\<lambda>s3 answer.
             lift_check s3 (check_settled E w c answer s3))))))"

text \<open>
  The preflight of a detach: every attached binding is settled in turn, all owners are still
  current at the end, and one receipt stands for them.
\<close>

fun settle_each ::
  "(binding \<times> settle_env) list \<Rightarrow> string \<Rightarrow> string \<Rightarrow> owner_authority
    \<Rightarrow> owner_authority \<times> (owner_exn + (owner_receipt \<times> loss_settlement) list)" where
  "settle_each [] thread disp s = (s, Inr [])"
| "settle_each ((b, E) # rest) thread disp s =
     bindc (settle_binding_owner_loss E b thread ''binding_detached'' disp s) (\<lambda>s1 p.
     bindc (settle_each rest thread disp s1) (\<lambda>s2 ps. (s2, Inr (p # ps))))"

fun require_all_current :: "(binding \<Rightarrow> string) \<Rightarrow> owner_receipt list \<Rightarrow> owner_authority \<Rightarrow> owner_exn + unit" where
  "require_all_current threads [] s = Inr ()"
| "require_all_current threads (w # ws) s =
     bindr (require_owner_current w (threads (ow_binding w)) s) (\<lambda>_. require_all_current threads ws s)"

text \<open>
  \<open>pf_bound\<close> and \<open>pf_attached\<close> are the bindings of the runtime states that point at the thread
  and those that are attached, each with the environment of its settlement; \<open>pf_available\<close>
  is the verdict of \<open>detach_availability\<close>.
\<close>

record preflight_env =
  pf_bound :: "binding list"
  pf_attached :: "(binding \<times> settle_env) list"
  pf_available :: bool
  pf_threads :: "binding \<Rightarrow> string"

fun disposition_text :: "disposition \<Rightarrow> string" where
  "disposition_text Abandon = ''abandon''"
| "disposition_text Terminal = ''terminal''"

definition preflight_detach ::
  "preflight_env \<Rightarrow> string \<Rightarrow> string \<Rightarrow> owner_authority \<Rightarrow> owner_authority \<times> (owner_exn + detach_receipt option)" where
  "preflight_detach E thread_id disp s =
     bindc (lift_check s (normalize_disposition disp)) (\<lambda>s d.
       if strip thread_id = [] then (s, Inl PreflightNoThread)
       else if pf_bound E = [] then (s, Inl PreflightNoBinding)
       else if pf_attached E \<noteq> [] \<and> \<not> pf_available E then (s, Inl DetachUnavailable)
       else bindc (settle_each (pf_attached E) (strip thread_id) (disposition_text d) s) (\<lambda>s1 ps.
         if ps = [] then (s1, Inr None)
         else bindc (lift_check s1 (require_all_current (pf_threads E) (map fst ps) s1)) (\<lambda>s1 _.
              bindc (issue_detach (strip thread_id) (map fst ps) (map snd ps) s1) (\<lambda>s2 r. (s2, Inr (Some r))))))"

text \<open>The other end, at the commit of the detach.\<close>

definition require_detach_current ::
  "(binding \<Rightarrow> string) \<Rightarrow> detach_receipt \<Rightarrow> string \<Rightarrow> binding list \<Rightarrow> disposition \<Rightarrow> owner_authority
    \<Rightarrow> owner_authority \<times> (owner_exn + owner_receipt list)" where
  "require_detach_current threads r thread_id bindings disp s =
     bindc (consume_detach r thread_id bindings disp s) (\<lambda>s1 ws.
     bindc (lift_check s1 (require_all_current threads ws s1)) (\<lambda>s1 _. (s1, Inr ws)))"

end
