(* ===== verification/Binding_Owner_Facts.thy ===== *)
theory Binding_Owner_Facts
  imports Binding_Owner
begin

text \<open>
  The invariant of the owner authority, what one operation may change of one binding's generation, and the
  facts that last over any operations: a dead receipt, a pinned loss, a spent detach receipt, a
  detach receipt whose owners have not moved.
\<close>

section \<open>The invariant\<close>

definition generation_ok :: "owner_authority \<Rightarrow> binding \<Rightarrow> owner_generation \<Rightarrow> bool" where
  "generation_ok s b g =
     (0 < og_incarnation g \<and> og_incarnation g \<le> oa_next_incarnation s
      \<and> (\<forall>r. og_receipt g = Some r \<longrightarrow> ow_binding r = b \<and> ow_incarnation r = og_incarnation g
             \<and> ow_revision r = og_revision g \<and> ow_issuer r = oa_issuer s \<and> ow_addr r < oa_next_addr s)
      \<and> (\<forall>c. og_reserved g = Some c \<longrightarrow> ow_binding (lc_owner c) = b \<and> ow_incarnation (lc_owner c) = og_incarnation g
             \<and> ow_revision (lc_owner c) = og_revision g))"

definition detach_ok :: "owner_authority \<Rightarrow> int \<Rightarrow> detach_receipt \<Rightarrow> bool" where
  "detach_ok s n r = (dr_nonce r = n \<and> n \<le> oa_next_detach s \<and> dr_issuer r = oa_issuer s \<and> dr_addr r < oa_next_addr s)"

definition apart :: "detach_receipt \<Rightarrow> detach_receipt \<Rightarrow> bool" where
  "apart r q = (\<forall>w \<in> set (dr_owners r). \<not> owns_binding q (ow_binding w))"

definition owner_inv :: "owner_authority \<Rightarrow> bool" where
  "owner_inv s =
     (0 \<le> oa_next_incarnation s \<and> dict_wf (oa_detaches s)
      \<and> (\<forall>b g. generation_of s b = Some g \<longrightarrow> generation_ok s b g)
      \<and> (\<forall>n r. map_of (oa_detaches s) n = Some r \<longrightarrow> detach_ok s n r)
      \<and> (\<forall>n r m q. map_of (oa_detaches s) n = Some r \<longrightarrow> map_of (oa_detaches s) m = Some q \<longrightarrow> n \<noteq> m \<longrightarrow> apart r q))"

lemma generation_put [simp]: "generation_of (put_generation s b g) c = (if c = b then Some g else generation_of s c)"
  by (simp add: generation_of_def put_generation_def update_conv')

lemma put_fields [simp]:
  "oa_issuer (put_generation s b g) = oa_issuer s" "oa_next_incarnation (put_generation s b g) = oa_next_incarnation s"
  "oa_next_detach (put_generation s b g) = oa_next_detach s" "oa_detaches (put_generation s b g) = oa_detaches s"
  "oa_next_addr (put_generation s b g) = oa_next_addr s"
  by (simp_all add: put_generation_def)

lemma generation_frame [simp]:
  "generation_of (s\<lparr>oa_next_incarnation := n\<rparr>) b = generation_of s b"
  "generation_of (s\<lparr>oa_next_addr := a\<rparr>) b = generation_of s b"
  "generation_of (s\<lparr>oa_next_detach := n\<rparr>) b = generation_of s b"
  "generation_of (s\<lparr>oa_detaches := ds\<rparr>) b = generation_of s b"
  "generation_of (s\<lparr>oa_generations := AList.delete c (oa_generations s)\<rparr>) b = (if b = c then None else generation_of s b)"
  by (simp_all add: generation_of_def delete_conv')

lemma discard_fields [simp]:
  "generation_of (discard_detach_for c s) b = generation_of s b" "oa_issuer (discard_detach_for c s) = oa_issuer s"
  "oa_next_incarnation (discard_detach_for c s) = oa_next_incarnation s"
  "oa_next_detach (discard_detach_for c s) = oa_next_detach s" "oa_next_addr (discard_detach_for c s) = oa_next_addr s"
  by (simp_all add: discard_detach_for_def)

lemma owner_discard_lookup:
  "dict_wf (oa_detaches s) \<Longrightarrow> map_of (oa_detaches (discard_detach_for b s)) n = Some r
    \<longleftrightarrow> map_of (oa_detaches s) n = Some r \<and> \<not> owns_binding r b"
  by (auto simp: discard_detach_for_def map_of_filter_wf split: option.splits if_splits)

lemma owner_discard_wf [simp]: "dict_wf (oa_detaches s) \<Longrightarrow> dict_wf (oa_detaches (discard_detach_for b s))"
  by (simp add: discard_detach_for_def)

definition discard_owners :: "owner_receipt list \<Rightarrow> owner_authority \<Rightarrow> owner_authority" where
  "discard_owners ws s = foldl (\<lambda>s r. discard_detach_for (ow_binding r) s) s ws"

lemma discard_owners_fields:
  "generation_of (discard_owners ws s) b = generation_of s b \<and> oa_issuer (discard_owners ws s) = oa_issuer s
    \<and> oa_next_incarnation (discard_owners ws s) = oa_next_incarnation s
    \<and> oa_next_detach (discard_owners ws s) = oa_next_detach s \<and> oa_next_addr (discard_owners ws s) = oa_next_addr s"
  by (induction ws arbitrary: s) (simp_all add: discard_owners_def)

lemma discard_owners_detaches:
  "dict_wf (oa_detaches s) \<Longrightarrow> dict_wf (oa_detaches (discard_owners ws s)) \<and>
    (map_of (oa_detaches (discard_owners ws s)) n = Some r
      \<longleftrightarrow> map_of (oa_detaches s) n = Some r \<and> (\<forall>w \<in> set ws. \<not> owns_binding r (ow_binding w)))"
  by (induction ws arbitrary: s) (auto simp: discard_owners_def owner_discard_lookup)

text \<open>Replacing a generation, moving a counter and dropping detach receipts keep the invariant.\<close>

lemma generation_wf: "owner_inv s \<Longrightarrow> generation_of s b = Some g \<Longrightarrow> generation_ok s b g"
  unfolding owner_inv_def by blast

lemma detach_wf: "owner_inv s \<Longrightarrow> map_of (oa_detaches s) n = Some r \<Longrightarrow> detach_ok s n r"
  unfolding owner_inv_def by blast

lemma counters_inv:
  assumes i: "owner_inv s" and f: "\<And>b. generation_of s' b = generation_of s b" "oa_issuer s' = oa_issuer s" "oa_detaches s' = oa_detaches s"
    and le: "oa_next_incarnation s \<le> oa_next_incarnation s'" "oa_next_detach s \<le> oa_next_detach s'" "oa_next_addr s \<le> oa_next_addr s'"
  shows "owner_inv s'"
proof -
  have "generation_ok s' b g" if "generation_of s b = Some g" for b g
    using generation_wf [OF i that] f le by (fastforce simp: generation_ok_def)
  moreover have "detach_ok s' n r" if "map_of (oa_detaches s) n = Some r" for n r
    using detach_wf [OF i that] f le by (simp add: detach_ok_def)
  ultimately show ?thesis using i f le unfolding owner_inv_def by (simp del: split_paired_All)
qed

lemma put_inv:
  assumes i: "owner_inv s" and g: "generation_ok s b g"
  shows "owner_inv (put_generation s b g)"
proof -
  have "generation_ok (put_generation s b g) c h = generation_ok s c h" for c h by (simp add: generation_ok_def)
  moreover have "detach_ok (put_generation s b g) n r = detach_ok s n r" for n r by (simp add: detach_ok_def)
  ultimately show ?thesis using i g unfolding owner_inv_def by (simp del: split_paired_All)
qed

lemma addr_inv: "owner_inv s \<Longrightarrow> owner_inv (s\<lparr>oa_next_addr := oa_next_addr s + 1\<rparr>)"
  by (erule counters_inv) simp_all

lemma drop_inv:
  assumes "owner_inv s" and "dict_wf ds" and "\<And>n r. map_of ds n = Some r \<Longrightarrow> map_of (oa_detaches s) n = Some r"
  shows "owner_inv (s\<lparr>oa_detaches := ds\<rparr>)"
  using assms unfolding owner_inv_def generation_ok_def detach_ok_def by (simp, meson)

lemma discard_inv: "owner_inv s \<Longrightarrow> owner_inv (discard_detach_for b s)"
proof -
  assume i: "owner_inv s"
  then have wf: "dict_wf (oa_detaches s)" by (simp add: owner_inv_def)
  show ?thesis unfolding discard_detach_for_def
    by (rule drop_inv [OF i]) (use wf owner_discard_lookup [OF wf] in \<open>auto simp: discard_detach_for_def\<close>)
qed

lemma delete_generation_inv:
  assumes i: "owner_inv s"
  shows "owner_inv (s\<lparr>oa_generations := AList.delete b (oa_generations s)\<rparr>)"
proof -
  let ?s = "s\<lparr>oa_generations := AList.delete b (oa_generations s)\<rparr>"
  have "generation_ok ?s c h = generation_ok s c h" for c h by (simp add: generation_ok_def)
  moreover have "detach_ok ?s n r = detach_ok s n r" for n r by (simp add: detach_ok_def)
  ultimately show ?thesis using i unfolding owner_inv_def by (simp del: split_paired_All)
qed

lemma discard_owners_inv: "owner_inv s \<Longrightarrow> owner_inv (discard_owners ws s)"
  by (induction ws arbitrary: s) (auto simp: discard_owners_def discard_inv)

lemma apart_sym: "apart r q \<longleftrightarrow> apart q r"
  by (simp add: apart_def owns_binding_def image_iff) metis

lemma incarnation_inv: "owner_inv s \<Longrightarrow> oa_next_incarnation s \<le> n \<Longrightarrow> owner_inv (s\<lparr>oa_next_incarnation := n\<rparr>)"
  by (erule counters_inv) simp_all

lemma ensure_cases:
  assumes "owner_inv s" and "ensure_generation s b = (s1, g)"
  obtains (present) "generation_of s b = Some g" "s1 = s" "generation_ok s b g" "owner_inv s1"
  | (new) "generation_of s b = None" "og_receipt g = None" "og_reserved g = None" "owner_inv s1" "generation_ok s1 b g"
      "s1 = put_generation (s\<lparr>oa_next_incarnation := oa_next_incarnation s + 1\<rparr>) b g"
proof (cases "generation_of s b")
  case (Some h)
  then show ?thesis using assms by (intro present) (auto simp: ensure_generation_def dest: generation_wf)
next
  case None
  let ?s = "s\<lparr>oa_next_incarnation := oa_next_incarnation s + 1\<rparr>"
  have e: "s1 = put_generation ?s b g"
      "g = \<lparr>og_incarnation = oa_next_incarnation s + 1, og_revision = 0, og_receipt = None, og_reserved = None\<rparr>"
    using assms(2) None by (auto simp: ensure_generation_def Let_def)
  have i: "owner_inv ?s" using incarnation_inv [OF assms(1)] by simp
  have g: "generation_ok ?s b g" using assms(1) by (simp add: e(2) generation_ok_def owner_inv_def)
  have "owner_inv s1" unfolding e(1) by (rule put_inv [OF i g])
  moreover have "generation_ok s1 b g" using g by (simp add: e(1) generation_ok_def)
  ultimately show ?thesis using None e by (intro new) simp_all
qed

lemma consume_ok:
  assumes "consume_reservation g m = Inr g1" and "generation_ok s b g"
  shows "og_incarnation g1 = og_incarnation g" "og_revision g1 = og_revision g" "og_reserved g1 = None"
    and "og_receipt g1 = og_receipt g" and "case og_reserved g of None \<Rightarrow> m = None | Some r \<Rightarrow> \<exists>c. m = Some c \<and> command_eq r c"
  using assms by (auto simp: consume_reservation_def split: option.splits if_splits)

section \<open>Every operation keeps it\<close>

lemma issue_owner_inv: "owner_inv s \<Longrightarrow> owner_inv (fst (issue_owner b e c s))"
proof -
  assume i: "owner_inv s"
  show ?thesis
  proof (cases "ensure_generation s b")
    case (Pair s1 g)
    have "owner_inv s1 \<and> generation_ok s1 b g" using ensure_cases [OF i Pair] by metis
    then have i1: "owner_inv (s1\<lparr>oa_next_addr := oa_next_addr s1 + 1\<rparr>)" and s1: "owner_inv s1" and g: "generation_ok s1 b g"
      using addr_inv by blast+
    let ?w = "\<lparr>ow_issuer = oa_issuer s1, ow_binding = b, ow_incarnation = og_incarnation g,
                  ow_revision = og_revision g, ow_thread = strip e, ow_addr = oa_next_addr s1\<rparr>"
    have ok: "generation_ok (s1\<lparr>oa_next_addr := oa_next_addr s1 + 1\<rparr>) b (g\<lparr>og_receipt := Some ?w\<rparr>)"
      using g by (simp add: generation_ok_def)
    have c: "(put_generation s1 b x)\<lparr>oa_next_addr := n\<rparr> = put_generation (s1\<lparr>oa_next_addr := n\<rparr>) b x" for x n
      by (simp add: put_generation_def)
    have "owner_inv ((put_generation s1 b (g\<lparr>og_receipt := Some ?w\<rparr>))\<lparr>oa_next_addr := oa_next_addr s1 + 1\<rparr>)"
      unfolding c by (rule put_inv [OF i1 ok])
    then show ?thesis using i s1 Pair by (auto simp: issue_owner_def Let_def split: option.split)
  qed
qed

lemma reserve_inv: "owner_inv s \<Longrightarrow> owner_inv (fst (reserve_owner_loss c s))"
proof -
  assume i: "owner_inv s"
  let ?b = "ow_binding (lc_owner c)"
  have "owner_inv (put_generation s ?b (g\<lparr>og_reserved := Some c\<rparr>))"
    if "generation_of s ?b = Some g" "og_receipt g = Some (lc_owner c)" for g
    using generation_wf [OF i that(1)] that(2) by (intro put_inv [OF i]) (simp add: generation_ok_def)
  then show ?thesis using i by (simp add: reserve_owner_loss_def split: option.split)
qed

lemma advance_inv: "owner_inv s \<Longrightarrow> owner_inv (fst (advance_owner b m s))"
proof -
  assume i: "owner_inv s"
  obtain s1 g where e: "ensure_generation s b = (s1, g)" by fastforce
  have s1: "owner_inv s1" and g: "generation_ok s1 b g" using ensure_cases [OF i e] by metis+
  have "owner_inv (discard_detach_for b (put_generation s1 b (g1\<lparr>og_revision := og_revision g1 + 1, og_receipt := None\<rparr>)))"
    if "consume_reservation g m = Inr g1" for g1
    using consume_ok [OF that g] g by (intro discard_inv put_inv [OF s1]) (simp add: generation_ok_def)
  then show ?thesis using s1 by (simp add: advance_owner_def e split: sum.split)
qed

lemma owner_retire_inv: "owner_inv s \<Longrightarrow> owner_inv (fst (retire_owner b m s))"
  by (simp add: retire_owner_def discard_inv delete_generation_inv split: option.split sum.split)

lemma remove_detach_inv: "owner_inv s \<Longrightarrow> owner_inv (s\<lparr>oa_detaches := AList.delete n (oa_detaches s)\<rparr>)"
  by (rule drop_inv) (auto simp: owner_inv_def delete_conv' split: if_splits)

lemma consume_detach_inv: "owner_inv s \<Longrightarrow> owner_inv (fst (consume_detach r t bs d s))"
  by (simp add: consume_detach_def remove_detach_inv)

lemma discard_detach_inv: "owner_inv s \<Longrightarrow> owner_inv (discard_detach r s)"
  by (simp add: discard_detach_def remove_detach_inv)

lemma issue_detach_shape:
  assumes "strip t \<noteq> []" "ws \<noteq> []" "length ws = length ms"
  shows "issue_detach t ws ms s =
    (let s1 = discard_owners ws s;
         r = \<lparr>dr_issuer = oa_issuer s1, dr_nonce = oa_next_detach s1 + 1, dr_thread = strip t, dr_owners = ws,
              dr_settlements = ms, dr_addr = oa_next_addr s1\<rparr>
     in (s1\<lparr>oa_next_detach := oa_next_detach s1 + 1, oa_detaches := AList.update (oa_next_detach s1 + 1) r (oa_detaches s1),
            oa_next_addr := oa_next_addr s1 + 1\<rparr>, Inr r))"
  using assms by (simp add: issue_detach_def discard_owners_def Let_def)

lemma add_detach_inv:
  assumes i: "owner_inv s" and r: "dr_issuer r = oa_issuer s" "dr_nonce r = oa_next_detach s + 1" "dr_addr r = oa_next_addr s"
    and d: "\<And>n q. map_of (oa_detaches s) n = Some q \<Longrightarrow> apart r q"
  shows "owner_inv (s\<lparr>oa_next_detach := oa_next_detach s + 1, oa_detaches := AList.update (oa_next_detach s + 1) r (oa_detaches s),
            oa_next_addr := oa_next_addr s + 1\<rparr>)"
proof -
  have g: "generation_ok s b g" if "generation_of s b = Some g" for b g using generation_wf [OF i that] .
  have k: "detach_ok s n q" if "map_of (oa_detaches s) n = Some q" for n q using i that unfolding owner_inv_def by blast
  show ?thesis
    unfolding owner_inv_def
  proof (intro conjI allI impI)
    fix b g assume "generation_of (s\<lparr>oa_next_detach := oa_next_detach s + 1,
      oa_detaches := AList.update (oa_next_detach s + 1) r (oa_detaches s), oa_next_addr := oa_next_addr s + 1\<rparr>) b = Some g"
    then have "generation_of s b = Some g" by (simp add: generation_of_def)
    from g [OF this] show "generation_ok (s\<lparr>oa_next_detach := oa_next_detach s + 1,
      oa_detaches := AList.update (oa_next_detach s + 1) r (oa_detaches s), oa_next_addr := oa_next_addr s + 1\<rparr>) b g"
      by (fastforce simp: generation_ok_def)
  next
    fix n q assume "map_of (oa_detaches (s\<lparr>oa_next_detach := oa_next_detach s + 1,
      oa_detaches := AList.update (oa_next_detach s + 1) r (oa_detaches s), oa_next_addr := oa_next_addr s + 1\<rparr>)) n = Some q"
    then show "detach_ok (s\<lparr>oa_next_detach := oa_next_detach s + 1,
      oa_detaches := AList.update (oa_next_detach s + 1) r (oa_detaches s), oa_next_addr := oa_next_addr s + 1\<rparr>) n q"
      using k [of n q] r by (auto simp: detach_ok_def update_conv' split: if_splits)
  next
    fix n q m p
    assume "map_of (oa_detaches (s\<lparr>oa_next_detach := oa_next_detach s + 1,
      oa_detaches := AList.update (oa_next_detach s + 1) r (oa_detaches s), oa_next_addr := oa_next_addr s + 1\<rparr>)) n = Some q"
      "map_of (oa_detaches (s\<lparr>oa_next_detach := oa_next_detach s + 1,
      oa_detaches := AList.update (oa_next_detach s + 1) r (oa_detaches s), oa_next_addr := oa_next_addr s + 1\<rparr>)) m = Some p"
      "n \<noteq> m"
    then show "apart q p"
      using i d [of n q] d [of m p] apart_sym [of r q] unfolding owner_inv_def
      by (auto simp: update_conv' split: if_splits)
  qed (use i in \<open>simp_all add: owner_inv_def\<close>)
qed

lemma issue_detach_inv: "owner_inv s \<Longrightarrow> owner_inv (fst (issue_detach t ws ms s))"
proof -
  assume i: "owner_inv s"
  show ?thesis
  proof (cases "strip t = [] \<or> ws = [] \<or> length ws \<noteq> length ms")
    case True
    then show ?thesis using i by (auto simp: issue_detach_def)
  next
    case False
    have wf: "dict_wf (oa_detaches s)" using i by (simp add: owner_inv_def)
    have d: "apart r q" if "map_of (oa_detaches (discard_owners ws s)) n = Some q" "dr_owners r = ws" for r n q
      using that discard_owners_detaches [OF wf, of ws n q] by (simp add: apart_sym [of r] apart_def owns_binding_def image_iff)
    show ?thesis
      using False add_detach_inv [OF discard_owners_inv [OF i], where ws1 = ws] d by (simp add: issue_detach_shape Let_def)
  qed
qed

lemma owner_step_inv: "owner_inv s \<Longrightarrow> owner_inv (owner_step s x)"
  by (cases x) (simp_all add: issue_owner_inv reserve_inv advance_inv owner_retire_inv issue_detach_inv consume_detach_inv discard_detach_inv)

lemma new_owner_inv: "owner_inv (new_owner_authority n)"
  by (simp add: owner_inv_def new_owner_authority_def generation_of_def)

interpretation owners: step_system owner_step "new_owner_authority issuer" owner_inv for issuer
  by unfold_locales (simp_all add: new_owner_inv owner_step_inv)

section \<open>What an operation may change\<close>

text \<open>
  The four facts that outlive an operation: a receipt no generation names, a reservation, a
  detach receipt that is not registered, and a detach receipt whose owners have not moved.
\<close>

definition owner_dead :: "owner_receipt \<Rightarrow> owner_authority \<Rightarrow> bool" where
  "owner_dead w s = (ow_addr w < oa_next_addr s \<and> (\<forall>b g. generation_of s b = Some g \<longrightarrow> og_receipt g \<noteq> Some w))"

definition loss_pinned :: "loss_command \<Rightarrow> owner_authority \<Rightarrow> bool" where
  "loss_pinned c s =
     (\<exists>g. generation_of s (ow_binding (lc_owner c)) = Some g \<and> og_reserved g = Some c
        \<and> og_incarnation g = ow_incarnation (lc_owner c) \<and> og_revision g = ow_revision (lc_owner c))"

definition detach_dead :: "detach_receipt \<Rightarrow> owner_authority \<Rightarrow> bool" where
  "detach_dead r s = (dr_addr r < oa_next_addr s \<and> (\<forall>n. map_of (oa_detaches s) n \<noteq> Some r))"

definition owner_stands :: "owner_receipt \<Rightarrow> owner_authority \<Rightarrow> bool" where
  "owner_stands w s =
     (\<exists>g. generation_of s (ow_binding w) = Some g \<and> og_incarnation g = ow_incarnation w \<and> og_revision g = ow_revision w)"

definition detach_covered :: "detach_receipt \<Rightarrow> owner_authority \<Rightarrow> bool" where
  "detach_covered r s =
     (dr_addr r < oa_next_addr s \<and> (map_of (oa_detaches s) (dr_nonce r) = Some r \<longrightarrow> (\<forall>w \<in> set (dr_owners r). owner_stands w s)))"

text \<open>Which operation settles a command.\<close>

fun settles_command :: "loss_command \<Rightarrow> owner_op \<Rightarrow> bool" where
  "settles_command c (AdvanceOwner b (Some m)) = (b = ow_binding (lc_owner c) \<and> command_eq c m)"
| "settles_command c (RetireOwner b (Some m)) = (b = ow_binding (lc_owner c) \<and> command_eq c m)"
| "settles_command c x = False"

text \<open>
  One operation, seen from one binding: its generation stays, is created, is issued a new receipt,
  is reserved, moves to the next revision or is retired.
\<close>

inductive generation_move :: "owner_authority \<Rightarrow> owner_op \<Rightarrow> binding \<Rightarrow> owner_generation option \<Rightarrow> owner_generation option \<Rightarrow> bool"
  for s x b where
  same: "generation_move s x b h h"
| created: "og_receipt g = None \<Longrightarrow> og_reserved g = None \<Longrightarrow> generation_move s x b None (Some g)"
| issued: "og_receipt g' \<noteq> None \<Longrightarrow> ow_addr (the (og_receipt g')) = oa_next_addr s \<Longrightarrow> og_reserved g' = og_reserved g
    \<Longrightarrow> og_incarnation g' = og_incarnation g \<Longrightarrow> og_revision g' = og_revision g
    \<Longrightarrow> generation_move s x b (Some g) (Some g')"
| first_issued: "og_receipt g' \<noteq> None \<Longrightarrow> ow_addr (the (og_receipt g')) = oa_next_addr s \<Longrightarrow> og_reserved g' = None
    \<Longrightarrow> generation_move s x b None (Some g')"
| reserved: "x = ReserveLoss c \<Longrightarrow> og_receipt g = Some (lc_owner c) \<Longrightarrow> ow_binding (lc_owner c) = b \<Longrightarrow> og_reserved g = None
    \<Longrightarrow> generation_move s x b (Some g) (Some (g\<lparr>og_reserved := Some c\<rparr>))"
| advanced: "x = AdvanceOwner b m \<Longrightarrow> consume_reservation g m = Inr g1
    \<Longrightarrow> generation_move s x b (Some g) (Some (g1\<lparr>og_revision := og_revision g1 + 1, og_receipt := None\<rparr>))"
| retired: "x = RetireOwner b m \<Longrightarrow> consume_reservation g m = Inr g1 \<Longrightarrow> generation_move s x b (Some g) None"

lemma ensure_shape:
  assumes "ensure_generation s b = (s1, g)"
  shows "generation_of s1 b = Some g" "c \<noteq> b \<Longrightarrow> generation_of s1 c = generation_of s c"
    "oa_next_addr s1 = oa_next_addr s" "oa_detaches s1 = oa_detaches s" "oa_issuer s1 = oa_issuer s" "oa_next_detach s1 = oa_next_detach s"
    "generation_of s b = Some g \<or> generation_of s b = None \<and> og_receipt g = None \<and> og_reserved g = None"
  using assms by (auto simp: ensure_generation_def Let_def split: option.splits)

lemma issue_move: "generation_move s (IssueOwner b e t) c (generation_of s c) (generation_of (fst (issue_owner b e t s)) c)"
proof -
  obtain s1 g where e: "ensure_generation s b = (s1, g)" by fastforce
  note f = ensure_shape [OF e]
  show ?thesis
  proof (cases "strip e = strip t")
    case False
    then show ?thesis by (simp add: issue_owner_def Let_def generation_move.same)
  next
    case t: True
    show ?thesis
    proof (cases "c = b")
      case False
      then have "generation_of (fst (issue_owner b e t s)) c = generation_of s c"
        using ensure_shape [OF e] t by (simp add: issue_owner_def e Let_def split: option.split)
      then show ?thesis by (simp add: generation_move.same)
    next
      case True
      then have cb: "c = b" .
      let ?w = "\<lparr>ow_issuer = oa_issuer s1, ow_binding = b, ow_incarnation = og_incarnation g,
                  ow_revision = og_revision g, ow_thread = strip e, ow_addr = oa_next_addr s1\<rparr>"
      from f(7) show ?thesis
      proof
        assume g: "generation_of s b = Some g"
        have "generation_move s (IssueOwner b e t) b (Some g) (Some (g\<lparr>og_receipt := Some ?w\<rparr>))"
          by (rule generation_move.issued) (simp_all add: f(3))
        with g show ?thesis
          using f(1) t by (simp add: issue_owner_def e Let_def cb generation_move.same split: option.split)
      next
        assume g: "generation_of s b = None \<and> og_receipt g = None \<and> og_reserved g = None"
        have "generation_move s (IssueOwner b e t) b None (Some (g\<lparr>og_receipt := Some ?w\<rparr>))"
          by (rule generation_move.first_issued) (simp_all add: f(3) g)
        with g show ?thesis using t by (simp add: issue_owner_def e Let_def cb)
      qed
    qed
  qed
qed

lemma advance_move:
  "generation_move s (AdvanceOwner b m) c (generation_of s c) (generation_of (fst (advance_owner b m s)) c)"
proof -
  obtain s1 g where e: "ensure_generation s b = (s1, g)" by fastforce
  note f = ensure_shape [OF e]
  show ?thesis
  proof (cases "c = b")
    case False
    then have "generation_of (fst (advance_owner b m s)) c = generation_of s c"
      using f by (simp add: advance_owner_def e split: sum.split)
    then show ?thesis by (simp add: generation_move.same)
  next
    case True
    from f(7) show ?thesis
    proof
      assume g: "generation_of s b = Some g"
      have "generation_move s (AdvanceOwner b m) b (Some g) (Some (g1\<lparr>og_revision := og_revision g1 + 1, og_receipt := None\<rparr>))"
        if "consume_reservation g m = Inr g1" for g1
        using that by (rule generation_move.advanced [OF refl])
      with g show ?thesis
        using f(1) True by (simp add: advance_owner_def e generation_move.same split: sum.split)
    next
      assume g: "generation_of s b = None \<and> og_receipt g = None \<and> og_reserved g = None"
      then have "consume_reservation g m = Inr g1 \<Longrightarrow> g1 = g" for g1
        by (auto simp: consume_reservation_def split: if_splits)
      moreover have "generation_move s (AdvanceOwner b m) b None (Some (g\<lparr>og_revision := og_revision g + 1, og_receipt := None\<rparr>))"
        by (rule generation_move.created) (simp_all add: g)
      moreover have "generation_move s (AdvanceOwner b m) b None (Some g)" by (rule generation_move.created) (simp_all add: g)
      ultimately show ?thesis
        using f(1) g True by (cases "consume_reservation g m") (simp_all add: advance_owner_def e)
    qed
  qed
qed

lemma retire_move:
  "generation_move s (RetireOwner b m) c (generation_of s c) (generation_of (fst (retire_owner b m s)) c)"
  by (cases "generation_of s b"; cases "c = b")
    (auto simp: retire_owner_def intro: generation_move.intros split: sum.split)

lemma reserve_move:
  "generation_move s (ReserveLoss x) c (generation_of s c) (generation_of (fst (reserve_owner_loss x s)) c)"
  by (cases "generation_of s (ow_binding (lc_owner x))"; cases "c = ow_binding (lc_owner x)")
    (auto simp: reserve_owner_loss_def intro: generation_move.intros split: option.split)

lemma detach_generations:
  "generation_of (fst (issue_detach t ws ms s)) c = generation_of s c"
  "generation_of (fst (consume_detach r u bs d s)) c = generation_of s c"
  "generation_of (discard_detach r s) c = generation_of s c"
  using discard_owners_fields [of ws s]
  by (auto simp: issue_detach_def Let_def discard_owners_def [symmetric] consume_detach_def discard_detach_def generation_of_def
      simp del: discard_fields)

lemma owner_move: "generation_move s x c (generation_of s c) (generation_of (owner_step s x) c)"
  by (cases x) (simp_all add: issue_move advance_move retire_move reserve_move detach_generations generation_move.same)

inductive_cases created_from: "generation_move s x b None h"
inductive_cases moved_from: "generation_move s x b (Some g) h"

lemma next_addr_mono: "oa_next_addr s \<le> oa_next_addr (owner_step s x)"
proof (cases x)
  case (IssueOwner b e t)
  obtain s1 g where k: "ensure_generation s b = (s1, g)" by fastforce
  then show ?thesis using ensure_shape [OF k] IssueOwner by (simp add: issue_owner_def Let_def split: option.split)
next
  case (AdvanceOwner b m)
  obtain s1 g where k: "ensure_generation s b = (s1, g)" by fastforce
  then show ?thesis using ensure_shape [OF k] AdvanceOwner by (simp add: advance_owner_def split: sum.split)
next
  case (IssueDetach t ws ms)
  then show ?thesis using discard_owners_fields [of ws s]
    by (simp add: issue_detach_def Let_def discard_owners_def [symmetric])
qed (simp_all add: reserve_owner_loss_def retire_owner_def consume_detach_def discard_detach_def split: option.split sum.split)

section \<open>The facts last\<close>

lemma dead_step: "owner_dead w s \<Longrightarrow> owner_dead w (owner_step s x)"
proof -
  assume d: "owner_dead w s"
  have "og_receipt g' \<noteq> Some w" if g': "generation_of (owner_step s x) b = Some g'" for b g'
  proof
    assume w: "og_receipt g' = Some w"
    have mv: "generation_move s x b (generation_of s b) (Some g')" using owner_move [of s x b] g' by simp
    have no: "generation_of s b = Some g \<Longrightarrow> og_receipt g \<noteq> Some w" for g
      using d unfolding owner_dead_def by blast
    have a: "ow_addr w \<noteq> oa_next_addr s" using d by (simp add: owner_dead_def)
    show False
      using mv w no a by (cases "generation_of s b") (auto elim!: created_from moved_from)
  qed
  then show ?thesis using d next_addr_mono [of s x] unfolding owner_dead_def by fastforce
qed

lemma pinned_step: "loss_pinned c s \<Longrightarrow> \<not> settles_command c x \<Longrightarrow> loss_pinned c (owner_step s x)"
proof -
  assume p: "loss_pinned c s" and x: "\<not> settles_command c x"
  let ?b = "ow_binding (lc_owner c)"
  obtain g where g: "generation_of s ?b = Some g" "og_reserved g = Some c"
      "og_incarnation g = ow_incarnation (lc_owner c)" "og_revision g = ow_revision (lc_owner c)"
    using p by (auto simp: loss_pinned_def)
  have "\<exists>g'. generation_of (owner_step s x) ?b = Some g' \<and> og_reserved g' = Some c
      \<and> og_incarnation g' = og_incarnation g \<and> og_revision g' = og_revision g"
    using owner_move [of s x ?b] unfolding g(1)
    by (rule moved_from) (use g(2) x in \<open>auto simp: consume_reservation_def split: option.splits if_splits\<close>)
  then show ?thesis using g by (auto simp: loss_pinned_def)
qed

lemma detaches_step:
  assumes "dict_wf (oa_detaches s)" and "map_of (oa_detaches (owner_step s x)) n = Some q"
  shows "map_of (oa_detaches s) n = Some q \<or> dr_addr q = oa_next_addr s"
proof (cases x)
  case (IssueOwner b e t)
  obtain s1 g where k: "ensure_generation s b = (s1, g)" by fastforce
  then show ?thesis using ensure_shape [OF k] IssueOwner assms(2)
    by (auto simp: issue_owner_def Let_def split: option.splits if_splits)
next
  case (AdvanceOwner b m)
  obtain s1 g where k: "ensure_generation s b = (s1, g)" by fastforce
  have wf: "dict_wf (oa_detaches (put_generation s1 b h))" for h using ensure_shape [OF k] assms(1) by simp
  show ?thesis using ensure_shape [OF k] AdvanceOwner assms(2) owner_discard_lookup [OF wf]
    by (auto simp: advance_owner_def k split: sum.splits)
next
  case (RetireOwner b m)
  have wf: "dict_wf (oa_detaches (s\<lparr>oa_generations := h\<rparr>))" for h using assms(1) by simp
  show ?thesis using RetireOwner assms(2) owner_discard_lookup [OF wf] owner_discard_lookup [OF assms(1)]
    by (auto simp: retire_owner_def split: option.splits sum.splits)
next
  case (IssueDetach t ws ms)
  then show ?thesis using assms(2) discard_owners_detaches [OF assms(1), of ws] discard_owners_fields [of ws s]
    by (auto simp: issue_detach_def Let_def discard_owners_def [symmetric] update_conv' split: if_splits)
qed (use assms(2) in \<open>auto simp: reserve_owner_loss_def consume_detach_def discard_detach_def delete_conv' split: option.splits if_splits\<close>)

lemma detach_dead_step: "owner_inv s \<Longrightarrow> detach_dead r s \<Longrightarrow> detach_dead r (owner_step s x)"
  using detaches_step [of s x] next_addr_mono [of s x] by (fastforce simp: detach_dead_def owner_inv_def)

text \<open>A move of an owner's generation takes the detach receipts of that owner with it.\<close>

lemma advance_discards:
  assumes "owner_inv s" and "snd (advance_owner b m s) = Inr ()" and "map_of (oa_detaches (fst (advance_owner b m s))) n = Some r"
  shows "\<not> owns_binding r b"
proof -
  obtain s1 g where k: "ensure_generation s b = (s1, g)" by fastforce
  have wf: "dict_wf (oa_detaches (put_generation s1 b h))" for h using ensure_shape [OF k] assms(1) by (simp add: owner_inv_def)
  show ?thesis using assms(2,3) owner_discard_lookup [OF wf] by (auto simp: advance_owner_def k split: sum.splits)
qed

lemma retire_discards:
  assumes "owner_inv s" and "snd (retire_owner b m s) = Inr ()" and "map_of (oa_detaches (fst (retire_owner b m s))) n = Some r"
  shows "\<not> owns_binding r b"
proof -
  have wf: "dict_wf (oa_detaches (s\<lparr>oa_generations := h\<rparr>))" "dict_wf (oa_detaches s)" for h
    using assms(1) by (simp_all add: owner_inv_def)
  show ?thesis using assms(2,3) owner_discard_lookup [OF wf(1)] owner_discard_lookup [OF wf(2)]
    by (auto simp: retire_owner_def split: option.splits sum.splits)
qed

lemma advance_succeeds:
  "generation_of s b = Some g \<Longrightarrow> snd (advance_owner b m s) = Inr () \<longleftrightarrow> (\<exists>g1. consume_reservation g m = Inr g1)"
  by (auto simp: advance_owner_def ensure_generation_def split: sum.splits)

lemma retire_succeeds:
  "generation_of s b = Some g \<Longrightarrow> snd (retire_owner b m s) = Inr () \<longleftrightarrow> (\<exists>g1. consume_reservation g m = Inr g1)"
  by (auto simp: retire_owner_def split: sum.splits)

lemma stands_step:
  assumes i: "owner_inv s" and w: "owner_stands w s" and keep: "owner_stands w (owner_step s x) \<Longrightarrow> thesis"
    and gone: "(\<And>n r. map_of (oa_detaches (owner_step s x)) n = Some r \<Longrightarrow> \<not> owns_binding r (ow_binding w)) \<Longrightarrow> thesis"
  shows thesis
proof -
  let ?b = "ow_binding w"
  obtain g where g: "generation_of s ?b = Some g" "og_incarnation g = ow_incarnation w" "og_revision g = ow_revision w"
    using w by (auto simp: owner_stands_def)
  from owner_move [of s x ?b] show thesis unfolding g(1)
  proof (rule moved_from)
    fix m g1 assume x: "x = AdvanceOwner ?b m" and c: "consume_reservation g m = Inr g1"
    show thesis by (rule gone) (use advance_discards [OF i, where b = ?b] advance_succeeds [OF g(1)] c x in auto)
  next
    fix m g1 assume x: "x = RetireOwner ?b m" and c: "consume_reservation g m = Inr g1"
    show thesis by (rule gone) (use retire_discards [OF i, where b = ?b] retire_succeeds [OF g(1)] c x in auto)
  qed (use g keep in \<open>auto simp: owner_stands_def\<close>)
qed

lemma covered_step:
  assumes i: "owner_inv s" and c: "detach_covered r s"
  shows "detach_covered r (owner_step s x)"
proof -
  have "owner_stands w (owner_step s x)"
    if reg: "map_of (oa_detaches (owner_step s x)) (dr_nonce r) = Some r" and w: "w \<in> set (dr_owners r)" for w
  proof -
    have "map_of (oa_detaches s) (dr_nonce r) = Some r"
      using detaches_step [OF _ reg] c i by (auto simp: detach_covered_def owner_inv_def)
    then have "owner_stands w s" using c w by (auto simp: detach_covered_def)
    then show ?thesis
      by (rule stands_step [OF i, of w x]) (use reg w in \<open>auto simp: owns_binding_def\<close>)
  qed
  then show ?thesis using c next_addr_mono [of s x] by (auto simp: detach_covered_def)
qed

interpretation owner_gone: standing_fact owner_step "new_owner_authority issuer" owner_inv "owner_dead w" "\<lambda>_. True" for issuer w
  by unfold_locales (rule dead_step)

interpretation pinned: standing_fact owner_step "new_owner_authority issuer" owner_inv "loss_pinned c" "\<lambda>x. \<not> settles_command c x"
  for issuer c
  by unfold_locales (rule pinned_step)

interpretation detach_gone: standing_fact owner_step "new_owner_authority issuer" owner_inv "detach_dead r" "\<lambda>_. True" for issuer r
  by unfold_locales (rule detach_dead_step)

interpretation covered: standing_fact owner_step "new_owner_authority issuer" owner_inv "detach_covered r" "\<lambda>_. True" for issuer r
  by unfold_locales (rule covered_step)

end
