(* ===== verification/Binding_Owner_Properties.thy ===== *)
theory Binding_Owner_Properties
  imports Binding_Owner_Facts
begin

text \<open>What the lasting facts mean for a call, the settlement and the preflight, and the properties.\<close>

section \<open>What the facts mean for a call\<close>

lemma require_owner_iff:
  assumes "owner_inv s"
  shows "require_owner_current w t s = Inr () \<longleftrightarrow>
    (\<exists>g. generation_of s (ow_binding w) = Some g \<and> og_receipt g = Some w) \<and> strip t = ow_thread w"
proof (cases "generation_of s (ow_binding w)")
  case (Some g)
  then show ?thesis
    using generation_wf [OF assms Some] by (auto simp: require_owner_current_def generation_ok_def)
qed (auto simp: require_owner_current_def)

lemma dead_owner_refused:
  assumes "owner_inv s" and "owner_dead w s"
  shows "require_owner_current w t s \<noteq> Inr ()" and "require_owner_loss_not_pending w s = Inl LossPending"
    and "lc_owner c = w \<Longrightarrow> snd (reserve_owner_loss c s) = Inl LossExpired"
    and "snd (issue_owner b e u s) \<noteq> Inr w"
proof -
  have no: "generation_of s b = Some g \<Longrightarrow> og_receipt g \<noteq> Some w" for b g
    using assms(2) unfolding owner_dead_def by blast
  show "require_owner_current w t s \<noteq> Inr ()" using no by (auto simp: require_owner_iff [OF assms(1)])
  show "require_owner_loss_not_pending w s = Inl LossPending"
    using no by (auto simp: require_owner_loss_not_pending_def split: option.split)
  show "lc_owner c = w \<Longrightarrow> snd (reserve_owner_loss c s) = Inl LossExpired"
    using no by (auto simp: reserve_owner_loss_def split: option.split)
  obtain s1 g where k: "ensure_generation s b = (s1, g)" by fastforce
  then have "og_receipt g \<noteq> Some w" "ow_addr w \<noteq> oa_next_addr s1"
    using no [of b] assms(2) ensure_shape(3,7) [OF k] by (auto simp: owner_dead_def)
  then show "snd (issue_owner b e u s) \<noteq> Inr w"
    by (auto simp: issue_owner_def k Let_def split: option.split)
qed

lemma all_current_each: "require_all_current th ws s = Inr () \<longleftrightarrow> (\<forall>w \<in> set ws. require_owner_current w (th (ow_binding w)) s = Inr ())"
  by (induction ws) (auto simp: bindr_eq_Inr)

lemma owner_moved:
  assumes i: "owner_inv s" and cur: "require_owner_current w t s = Inr ()"
    and x: "x = AdvanceOwner (ow_binding w) m \<and> snd (advance_owner (ow_binding w) m s) = Inr ()
      \<or> x = RetireOwner (ow_binding w) m \<and> snd (retire_owner (ow_binding w) m s) = Inr ()"
  shows "owner_dead w (owner_step s x)"
proof -
  let ?b = "ow_binding w"
  obtain g where g: "generation_of s ?b = Some g" "og_receipt g = Some w"
    using cur by (auto simp: require_owner_iff [OF i])
  have a: "ow_addr w < oa_next_addr s" using generation_wf [OF i g(1)] g(2) by (simp add: generation_ok_def)
  have "og_receipt g' \<noteq> Some w" if g': "generation_of (owner_step s x) b = Some g'" for b g'
  proof (cases "b = ?b")
    case True
    then show ?thesis
      using x g' g(1) advance_succeeds [OF g(1), of m] retire_succeeds [OF g(1), of m]
      by (auto simp: advance_owner_def ensure_generation_def retire_owner_def)
  next
    case False
    have "og_receipt g' \<noteq> Some w" if "generation_ok (owner_step s x) b g'"
      using that False by (auto simp: generation_ok_def)
    then show ?thesis using generation_wf [OF owner_step_inv [OF i] g'] by blast
  qed
  then show ?thesis using a next_addr_mono [of s x] unfolding owner_dead_def by fastforce
qed

lemma command_eq_refl [simp]: "command_eq c c"
  by (simp add: command_eq_def)

lemma command_eq_trans: "command_eq a b \<Longrightarrow> command_eq b c \<Longrightarrow> command_eq a c"
  by (simp add: command_eq_def)

lemma command_eq_sym: "command_eq a b \<longleftrightarrow> command_eq b a"
  by (auto simp: command_eq_def)

lemma settles_same: "command_eq c d \<Longrightarrow> settles_command c x = settles_command d x"
  by (cases "(c, x)" rule: settles_command.cases) (auto simp: command_eq_def)

lemma reserve_pins:
  assumes i: "owner_inv s" and r: "reserve_owner_loss c s = (s1, Inr ())"
  obtains d where "command_eq d c" and "loss_pinned d s1"
proof -
  let ?b = "ow_binding (lc_owner c)"
  obtain g where g: "generation_of s ?b = Some g" "og_receipt g = Some (lc_owner c)"
    using r by (auto simp: reserve_owner_loss_def split: option.splits if_splits)
  have ok: "og_incarnation g = ow_incarnation (lc_owner c)" "og_revision g = ow_revision (lc_owner c)"
    using generation_wf [OF i g(1)] g(2) by (auto simp: generation_ok_def)
  show ?thesis
  proof (cases "og_reserved g")
    case None
    then have "loss_pinned c s1" using r g ok by (auto simp: reserve_owner_loss_def loss_pinned_def)
    then show ?thesis using that [of c] by simp
  next
    case (Some d)
    then have "command_eq d c" "s1 = s" using r g by (auto simp: reserve_owner_loss_def split: if_splits)
    moreover from this have "loss_pinned d s1" using g ok Some by (auto simp: loss_pinned_def command_eq_def)
    ultimately show ?thesis using that [of d] by blast
  qed
qed

lemma pinned_calls:
  assumes "loss_pinned d s"
  defines "b \<equiv> ow_binding (lc_owner d)"
  shows "snd (advance_owner b m s) = Inr () \<longleftrightarrow> (\<exists>k. m = Some k \<and> command_eq d k)"
    and "snd (retire_owner b m s) = Inr () \<longleftrightarrow> (\<exists>k. m = Some k \<and> command_eq d k)"
    and "ow_binding (lc_owner k) = b \<Longrightarrow> snd (reserve_owner_loss k s) = Inr () \<Longrightarrow> command_eq d k"
    and "ow_binding w = b \<Longrightarrow> require_owner_loss_not_pending w s = Inl LossPending"
    and "owner_stands (lc_owner d) s"
proof -
  obtain g where g: "generation_of s b = Some g" "og_reserved g = Some d"
      "og_incarnation g = ow_incarnation (lc_owner d)" "og_revision g = ow_revision (lc_owner d)"
    using assms by (auto simp: loss_pinned_def)
  have c: "(\<exists>g1. consume_reservation g m = Inr g1) \<longleftrightarrow> (\<exists>k. m = Some k \<and> command_eq d k)"
    by (auto simp: consume_reservation_def g(2) split: option.split)
  show "snd (advance_owner b m s) = Inr () \<longleftrightarrow> (\<exists>k. m = Some k \<and> command_eq d k)"
    "snd (retire_owner b m s) = Inr () \<longleftrightarrow> (\<exists>k. m = Some k \<and> command_eq d k)"
    by (simp_all add: advance_succeeds [OF g(1)] retire_succeeds [OF g(1)] c)
  show "ow_binding (lc_owner k) = b \<Longrightarrow> snd (reserve_owner_loss k s) = Inr () \<Longrightarrow> command_eq d k"
    using g by (auto simp: reserve_owner_loss_def split: if_splits)
  show "ow_binding w = b \<Longrightarrow> require_owner_loss_not_pending w s = Inl LossPending"
    using g by (simp add: require_owner_loss_not_pending_def)
  show "owner_stands (lc_owner d) s" using g by (simp add: owner_stands_def b_def)
qed

lemma detach_refused: "detach_dead r s \<Longrightarrow> snd (consume_detach r t bs d s) = Inl DetachForged"
  by (auto simp: detach_dead_def consume_detach_def)

lemma consumed_dead:
  assumes i: "owner_inv s" and c: "consume_detach r t bs d s = (s1, Inr ws)"
  shows "detach_dead r s1 \<and> ws = dr_owners r \<and> map ow_binding ws = bs \<and> dr_thread r = strip t
    \<and> map_of (oa_detaches s) (dr_nonce r) = Some r \<and> list_all (settles d) (zip ws (dr_settlements r))"
proof -
  have reg: "map_of (oa_detaches s) (dr_nonce r) = Some r" and s1: "s1 = s\<lparr>oa_detaches := AList.delete (dr_nonce r) (oa_detaches s)\<rparr>"
    and rest: "ws = dr_owners r" "map ow_binding ws = bs" "dr_thread r = strip t" "list_all (settles d) (zip ws (dr_settlements r))"
    using c by (auto simp: consume_detach_def split: if_splits)
  have "map_of (oa_detaches s1) n \<noteq> Some r" for n
    using detach_wf [OF i, of n r] by (auto simp: s1 delete_conv' detach_ok_def)
  moreover have "dr_addr r < oa_next_addr s1" using detach_wf [OF i reg] by (simp add: s1 detach_ok_def)
  ultimately show ?thesis using reg rest by (simp add: detach_dead_def)
qed

lemma issued_for:
  assumes i: "owner_inv s" and o: "issue_owner b e t s = (s1, Inr w)"
  shows "ow_binding w = b" and "ow_thread w = strip e"
proof -
  obtain s0 g where k: "ensure_generation s b = (s0, g)" by fastforce
  have g: "generation_ok s0 b g" using ensure_cases [OF i k] by metis
  show "ow_binding w = b" "ow_thread w = strip e"
    using o g by (auto simp: issue_owner_def k Let_def generation_ok_def split: option.splits if_splits)
qed

section \<open>The settlement of a loss\<close>

lemma settle_parts:
  assumes i: "owner_inv s" and run: "settle_binding_owner_loss E b t reason disp s = (s', Inr (w, m))"
  shows "ow_binding w = b \<and> ow_thread w = strip t \<and> lc_owner (ls_command m) = w \<and> lc_reason (ls_command m) = strip reason
    \<and> normalize_disposition disp = Inr (lc_disposition (ls_command m)) \<and> owner_inv s'
    \<and> require_owner_current w (se_threads_after E b) s' = Inr ()
    \<and> (\<exists>s1 s2 xs. owner_inv s1 \<and> reserve_owner_loss (ls_command m) s1 = (s2, Inr ()) \<and> s' = run_ops owner_step s2 xs)"
proof -
  obtain s1 where o: "issue_owner b (strip t) (se_threads E b) s = (s1, Inr w)"
    using run by (auto simp: settle_binding_owner_loss_def bindc_eq_Inr lift_check_def check_settled_def bindr_eq_Inr Let_def
        split: option.splits if_splits)
  obtain d where d: "normalize_disposition disp = Inr d"
    using run by (auto simp: settle_binding_owner_loss_def bindc_eq_Inr lift_check_def)
  let ?c = "\<lparr>lc_owner = w, lc_reason = strip reason, lc_disposition = d, lc_addr = oa_next_addr s1\<rparr>"
  let ?s = "s1\<lparr>oa_next_addr := oa_next_addr s1 + 1\<rparr>"
  obtain s2 answer where r: "reserve_owner_loss ?c ?s = (s2, Inr ())"
      and a: "ask_settler E (strip t) ?c s2 = (s', Inr answer)" and k: "check_settled E w ?c answer s' = Inr (w, m)"
    using run by (auto simp: settle_binding_owner_loss_def bindc_eq_Inr lift_check_def o d Let_def)
  have i1: "owner_inv ?s" using addr_inv [of s1] issue_owner_inv [OF i, of b "strip t" "se_threads E b"] by (simp add: o)
  have i2: "owner_inv s2" using reserve_inv [OF i1, of ?c] unfolding r by simp
  obtain xs where xs: "s' = run_ops owner_step s2 xs"
    using a that [of "[]"] by (auto simp: ask_settler_def split: if_splits option.splits)
  have w: "ow_binding w = b \<and> ow_thread w = strip t" using issued_for [OF i o] by simp
  have m: "ls_command m = ?c" and cur: "require_owner_current w (se_threads_after E b) s' = Inr ()"
    using k w by (auto simp: check_settled_def bindr_eq_Inr split: option.splits if_splits)
  show ?thesis using w m d cur r i1 xs owners.run_inv [OF i2, of xs] by auto
qed

text \<open>The reservation a settlement makes is still there when it returns, and the owner still current.\<close>

text \<open>
  A receipt that is current and once reserved is still reserved: whatever moves the generation
  takes the receipt with it.
\<close>

definition reserved_while_current :: "loss_command \<Rightarrow> owner_authority \<Rightarrow> bool" where
  "reserved_while_current c s =
     (ow_addr (lc_owner c) < oa_next_addr s \<and>
      (\<forall>g. generation_of s (ow_binding (lc_owner c)) = Some g \<longrightarrow> og_receipt g = Some (lc_owner c) \<longrightarrow> og_reserved g = Some c))"

lemma while_current_step:
  assumes "reserved_while_current c s"
  shows "reserved_while_current c (owner_step s x)"
proof -
  let ?b = "ow_binding (lc_owner c)"
  have "og_reserved g' = Some c" if g': "generation_of (owner_step s x) ?b = Some g'" and w: "og_receipt g' = Some (lc_owner c)" for g'
  proof -
    have mv: "generation_move s x ?b (generation_of s ?b) (Some g')" using owner_move [of s x ?b] g' by simp
    have a: "ow_addr (lc_owner c) \<noteq> oa_next_addr s" using assms by (simp add: reserved_while_current_def)
    have old: "generation_of s ?b = Some g \<Longrightarrow> og_receipt g = Some (lc_owner c) \<Longrightarrow> og_reserved g = Some c" for g
      using assms by (simp add: reserved_while_current_def)
    show ?thesis
      using mv w a old by (cases "generation_of s ?b") (auto elim!: created_from moved_from)
  qed
  then show ?thesis using assms next_addr_mono [of s x] by (simp add: reserved_while_current_def)
qed

interpretation while_current: standing_fact owner_step "new_owner_authority issuer" owner_inv "reserved_while_current c" "\<lambda>_. True"
  for issuer c
  by unfold_locales (rule while_current_step)

lemma settled_pins:
  assumes i: "owner_inv s" and run: "settle_binding_owner_loss E b t reason disp s = (s', Inr (w, m))"
  obtains d where "command_eq d (ls_command m)" and "loss_pinned d s'"
proof -
  obtain s1 s2 xs where i1: "owner_inv s1" and r: "reserve_owner_loss (ls_command m) s1 = (s2, Inr ())"
      and xs: "s' = run_ops owner_step s2 xs" and w: "lc_owner (ls_command m) = w" and cur: "require_owner_current w (se_threads_after E b) s' = Inr ()"
      and i': "owner_inv s'"
    using settle_parts [OF i run] by blast
  obtain d where d: "command_eq d (ls_command m)" "loss_pinned d s2" using reserve_pins [OF i1 r] by blast
  have w': "lc_owner d = w" using d(1) w by (simp add: command_eq_def)
  have i2: "owner_inv s2" using reserve_inv [OF i1, of "ls_command m"] by (simp add: r)
  obtain g1 where g1: "generation_of s1 (ow_binding w) = Some g1" "og_receipt g1 = Some w"
    using r w by (auto simp: reserve_owner_loss_def split: option.splits if_splits)
  have a: "oa_next_addr s2 = oa_next_addr s1" using r by (auto simp: reserve_owner_loss_def split: option.splits if_splits)
  have "reserved_while_current d s2"
    using d(2) generation_wf [OF i1 g1(1)] g1(2) by (auto simp: reserved_while_current_def loss_pinned_def w' a generation_ok_def)
  then have "reserved_while_current d s'" unfolding xs by (rule while_current.fact_run [OF i2]) (simp add: list_all_iff)
  moreover obtain g where g: "generation_of s' (ow_binding w) = Some g" "og_receipt g = Some w"
    using cur by (auto simp: require_owner_iff [OF i'])
  ultimately have "og_reserved g = Some d" by (simp add: reserved_while_current_def w')
  then have "loss_pinned d s'"
    using g generation_wf [OF i' g(1)] by (simp add: loss_pinned_def w' generation_ok_def)
  then show ?thesis using d(1) that by blast
qed

section \<open>The detach of a thread\<close>

lemma strip_detached: "strip ''binding_detached'' = ''binding_detached''"
  by code_simp

lemma disposition_text_ok:
  "normalize_disposition (disposition_text Abandon) = Inr Abandon" "normalize_disposition (disposition_text Terminal) = Inr Terminal"
  by code_simp+

lemma settle_each_parts:
  "owner_inv s \<Longrightarrow> settle_each es t disp s = (s', Inr ps) \<Longrightarrow>
    owner_inv s' \<and> map (ow_binding \<circ> fst) ps = map fst es
    \<and> (\<forall>p \<in> set ps. lc_owner (ls_command (snd p)) = fst p \<and> lc_reason (ls_command (snd p)) = strip ''binding_detached''
         \<and> normalize_disposition disp = Inr (lc_disposition (ls_command (snd p))))"
proof (induction es t disp s arbitrary: s' ps rule: settle_each.induct)
  case (2 b E rest t disp s)
  obtain s1 w m qs where one: "settle_binding_owner_loss E b t ''binding_detached'' disp s = (s1, Inr (w, m))"
      and more: "settle_each rest t disp s1 = (s', Inr qs)" and ps: "ps = (w, m) # qs"
    using "2.prems"(2) by (auto simp: bindc_eq_Inr)
  note k = settle_parts [OF "2.prems"(1) one]
  with "2.IH" [OF _ more] show ?case by (auto simp: ps)
qed simp

lemma preflight_parts:
  assumes i: "owner_inv s" and run: "preflight_detach E t disp s = (s', Inr (Some r))"
  shows "owner_inv s'" and "detach_covered r s'" and "map_of (oa_detaches s') (dr_nonce r) = Some r"
    and "map ow_binding (dr_owners r) = map fst (pf_attached E)" and "dr_thread r = strip t" and "length (dr_owners r) = length (dr_settlements r)"
    and "\<forall>p \<in> set (zip (dr_owners r) (dr_settlements r)). \<forall>d. normalize_disposition disp = Inr d \<longrightarrow> settles d p"
proof -
  obtain d where d: "normalize_disposition disp = Inr d" and ne: "strip t \<noteq> []"
    using run by (auto simp: preflight_detach_def bindc_eq_Inr lift_check_def split: if_splits)
  have dd: "normalize_disposition (disposition_text d) = Inr d" using disposition_text_ok by (cases d) simp_all
  obtain s1 ps where each: "settle_each (pf_attached E) (strip t) (disposition_text d) s = (s1, Inr ps)" and ps: "ps \<noteq> []"
      and cur: "require_all_current (pf_threads E) (map fst ps) s1 = Inr ()"
      and iss: "issue_detach (strip t) (map fst ps) (map snd ps) s1 = (s', Inr r)"
    using run d by (auto simp: preflight_detach_def bindc_eq_Inr lift_check_def split: if_splits)
  have k: "owner_inv s1" "map (ow_binding \<circ> fst) ps = map fst (pf_attached E)"
      "\<forall>p \<in> set ps. settles d p"
    using settle_each_parts [OF i each] dd by (auto simp: settles_def strip_detached)
  show i': "owner_inv s'" using issue_detach_inv [OF k(1)] iss by (metis fst_conv)
  let ?s = "discard_owners (map fst ps) s1"
  have s': "s' = ?s\<lparr>oa_next_detach := oa_next_detach ?s + 1, oa_detaches := AList.update (oa_next_detach ?s + 1) r (oa_detaches ?s),
      oa_next_addr := oa_next_addr ?s + 1\<rparr>"
    and r: "r = \<lparr>dr_issuer = oa_issuer ?s, dr_nonce = oa_next_detach ?s + 1, dr_thread = strip t, dr_owners = map fst ps,
              dr_settlements = map snd ps, dr_addr = oa_next_addr ?s\<rparr>"
    using iss ne ps by (auto simp: issue_detach_shape Let_def)
  show "map_of (oa_detaches s') (dr_nonce r) = Some r" by (subst s') (simp add: update_conv' r)
  show "map ow_binding (dr_owners r) = map fst (pf_attached E)" "dr_thread r = strip t"
    "length (dr_owners r) = length (dr_settlements r)"
    "\<forall>p \<in> set (zip (dr_owners r) (dr_settlements r)). \<forall>d. normalize_disposition disp = Inr d \<longrightarrow> settles d p"
    using k d by (auto simp: r zip_map_map zip_same_conv_map)
  have "owner_stands w s'" if w: "w \<in> set (dr_owners r)" for w
  proof -
    have "require_owner_current w (pf_threads E (ow_binding w)) s1 = Inr ()"
      using cur w by (auto simp: all_current_each r)
    then obtain g where g: "generation_of s1 (ow_binding w) = Some g" "og_receipt g = Some w"
      by (auto simp: require_owner_iff [OF k(1)])
    have "generation_of s' (ow_binding w) = Some g"
      using g(1) discard_owners_fields [of "map fst ps" s1] by (simp add: s' generation_of_def)
    then show ?thesis using generation_wf [OF k(1) g(1)] g(2) by (simp add: owner_stands_def generation_ok_def)
  qed
  moreover have "dr_addr r < oa_next_addr s'" by (simp add: s' r)
  ultimately show "detach_covered r s'" by (simp add: detach_covered_def)
qed

section \<open>Properties\<close>

text \<open>
  C35. A superseded owner is dead for good: once the generation it was current for advanced or
  was retired, its receipt is refused by every check, it can neither reserve the loss nor be
  issued again, whatever operations follow, the same binding and thread coming back included.
\<close>

theorem superseded_owner_is_dead:
  assumes s: "s = run_ops owner_step (new_owner_authority n) xs" and cur: "require_owner_current w t s = Inr ()"
    and moved: "x = AdvanceOwner (ow_binding w) m \<and> snd (advance_owner (ow_binding w) m s) = Inr ()
      \<or> x = RetireOwner (ow_binding w) m \<and> snd (retire_owner (ow_binding w) m s) = Inr ()"
    and s': "s' = run_ops owner_step (owner_step s x) ys"
  shows "require_owner_current w t' s' \<noteq> Inr () \<and> require_owner_loss_not_pending w s' = Inl LossPending
    \<and> snd (reserve_owner_loss (c\<lparr>lc_owner := w\<rparr>) s') = Inl LossExpired \<and> snd (issue_owner b e u s') \<noteq> Inr w"
proof -
  have i: "owner_inv s" unfolding s by (rule owners.reach_inv)
  have "owner_dead w s'"
    unfolding s' by (rule owner_gone.fact_run [OF owner_step_inv [OF i] owner_moved [OF i cur moved]]) (simp add: list_all_iff)
  moreover have "owner_inv s'" unfolding s' by (rule owners.run_inv [OF owner_step_inv [OF i]])
  ultimately show ?thesis using dead_owner_refused [of s' w] by simp
qed

text \<open>
  A reserved loss pins its owner: until that very command (or an equal one) settles it, the
  binding keeps its incarnation and revision, it advances or retires for that command and for
  no other, no other command is reserved, and every mutation that needs a quiet owner is refused.
\<close>

theorem reserved_loss_pins_owner:
  assumes s: "s = run_ops owner_step (new_owner_authority n) xs" and r: "reserve_owner_loss c s = (s1, Inr ())"
    and ops: "list_all (\<lambda>x. \<not> settles_command c x) ys" and s2: "s2 = run_ops owner_step s1 ys" and b: "b = ow_binding (lc_owner c)"
  shows "owner_stands (lc_owner c) s2
    \<and> (snd (advance_owner b m s2) = Inr () \<longleftrightarrow> (\<exists>k. m = Some k \<and> command_eq c k))
    \<and> (snd (retire_owner b m s2) = Inr () \<longleftrightarrow> (\<exists>k. m = Some k \<and> command_eq c k))
    \<and> (ow_binding (lc_owner k) = b \<and> snd (reserve_owner_loss k s2) = Inr () \<longrightarrow> command_eq c k)
    \<and> (ow_binding w = b \<longrightarrow> require_owner_loss_not_pending w s2 = Inl LossPending)"
proof -
  have i: "owner_inv s" unfolding s by (rule owners.reach_inv)
  obtain d where d: "command_eq d c" "loss_pinned d s1" using reserve_pins [OF i r] by blast
  have i1: "owner_inv s1" using reserve_inv [OF i, of c] by (simp add: r)
  have "loss_pinned d s2"
    unfolding s2 using ops by (intro pinned.fact_run [OF i1 d(2)]) (simp add: settles_same [OF d(1)])
  moreover have "lc_owner d = lc_owner c" "\<And>k. command_eq d k = command_eq c k" using d(1) by (auto simp: command_eq_def)
  ultimately show ?thesis using pinned_calls [of d s2] by (simp add: b)
qed

text \<open>
  The detach receipt is a one-shot capability: after it was consumed no operation makes it
  consumable again, so the commit it licensed cannot be repeated.
\<close>

theorem detach_receipt_is_one_shot:
  assumes s: "s = run_ops owner_step (new_owner_authority n) xs" and c: "consume_detach r t bs d s = (s1, Inr ws)"
  shows "snd (consume_detach r t' bs' d' (run_ops owner_step s1 ys)) = Inl DetachForged"
proof -
  have i: "owner_inv s" unfolding s by (rule owners.reach_inv)
  have i1: "owner_inv s1" using consume_detach_inv [OF i, of r t bs d] by (simp add: c)
  have "detach_dead r (run_ops owner_step s1 ys)"
    by (rule detach_gone.fact_run [OF i1]) (use consumed_dead [OF i c] in \<open>simp_all add: list_all_iff\<close>)
  then show ?thesis by (rule detach_refused)
qed

text \<open>
  C36. A settled loss can be committed: when the settlement returns, whatever the settler did
  through the re-entrant lock, its owner is the current one of the requested thread and the
  command is reserved; after any operations that do not settle it, the binding still advances
  with that command and with no other.
\<close>

theorem settled_loss_commits:
  assumes s: "s = run_ops owner_step (new_owner_authority n) xs"
    and run: "settle_binding_owner_loss E b t reason disp s = (s1, Inr (w, m))"
    and ops: "list_all (\<lambda>x. \<not> settles_command (ls_command m) x) ys" and s2: "s2 = run_ops owner_step s1 ys"
  shows "require_owner_current w (se_threads_after E b) s1 = Inr () \<and> ow_binding w = b \<and> ow_thread w = strip t
    \<and> lc_owner (ls_command m) = w \<and> lc_reason (ls_command m) = strip reason \<and> owner_stands w s2
    \<and> (snd (advance_owner b k s2) = Inr () \<longleftrightarrow> (\<exists>c. k = Some c \<and> command_eq (ls_command m) c))"
proof -
  have i: "owner_inv s" unfolding s by (rule owners.reach_inv)
  note p = settle_parts [OF i run]
  obtain d where d: "command_eq d (ls_command m)" "loss_pinned d s1" using settled_pins [OF i run] by blast
  have "loss_pinned d s2"
    unfolding s2 using ops p by (intro pinned.fact_run [OF _ d(2)]) (auto simp: settles_same [OF d(1)])
  moreover have "lc_owner d = w" "\<And>k. command_eq d k = command_eq (ls_command m) k" using d(1) p by (auto simp: command_eq_def)
  ultimately show ?thesis using pinned_calls(1,5) [of d s2] p by simp
qed

text \<open>
  C37. What a detach commits was settled before the unsubscribe: if a preflight receipt is consumed
  after any operations that ran during the remote call, then its owners are those of the
  bindings attached at the preflight, none of them has advanced or been retired since, and each
  was settled for a detach of that thread with that disposition.
\<close>

theorem consumed_detach_was_settled:
  assumes s: "s = run_ops owner_step (new_owner_authority n) xs"
    and pre: "preflight_detach E t disp s = (s1, Inr (Some r))"
    and c: "consume_detach r u bs d (run_ops owner_step s1 ys) = (s2, Inr ws)" and w: "w \<in> set ws"
  shows "owner_stands w s2 \<and> bs = map fst (pf_attached E) \<and> strip u = strip t \<and> ws = dr_owners r
    \<and> list_all (settles d) (zip ws (dr_settlements r)) \<and> length ws = length (dr_settlements r)
    \<and> normalize_disposition disp = Inr d"
proof -
  have i: "owner_inv s" unfolding s by (rule owners.reach_inv)
  note p = preflight_parts [OF i pre]
  let ?s = "run_ops owner_step s1 ys"
  have i': "owner_inv ?s" by (rule owners.run_inv [OF p(1)])
  note k = consumed_dead [OF i' c]
  have "detach_covered r ?s" by (rule covered.fact_run [OF p(1,2)]) (simp add: list_all_iff)
  then have "owner_stands w ?s" using k w by (simp add: detach_covered_def)
  moreover have "generation_of s2 b = generation_of ?s b" for b
    using detach_generations(2) [of r u bs d ?s b] by (simp add: c)
  ultimately have "owner_stands w s2" by (simp add: owner_stands_def)
  moreover have "normalize_disposition disp = Inr d"
  proof -
    obtain d0 where d0: "normalize_disposition disp = Inr d0"
      using pre by (auto simp: preflight_detach_def bindc_eq_Inr lift_check_def)
    have "dr_owners r \<noteq> []" using w k by auto
    then obtain q where q: "q \<in> set (zip (dr_owners r) (dr_settlements r))"
      using p(6) by (cases "dr_owners r"; cases "dr_settlements r") auto
    then have "settles d0 q" "settles d q" using p(7) d0 k by (auto simp: list_all_iff)
    then show ?thesis using d0 by (simp add: settles_def)
  qed
  ultimately show ?thesis using k p(4-6) by (elim conjE) (intro conjI, simp_all)
qed

section \<open>Concrete inputs\<close>

definition demo_binding :: binding where
  "demo_binding = (''ou1'', ''oc1'')"

definition demo_owner_receipt :: owner_receipt where
  "demo_owner_receipt = \<lparr>ow_issuer = 0, ow_binding = demo_binding, ow_incarnation = 1, ow_revision = 0, ow_thread = ''t1'', ow_addr = 0\<rparr>"

definition demo_command :: loss_command where
  "demo_command = \<lparr>lc_owner = demo_owner_receipt, lc_reason = ''binding_detached'', lc_disposition = Abandon, lc_addr = 1\<rparr>"

definition demo_settlement :: loss_settlement where
  "demo_settlement = \<lparr>ls_command = demo_command, ls_settler = 1, ls_transaction = 1\<rparr>"

definition demo_detach :: detach_receipt where
  "demo_detach = \<lparr>dr_issuer = 0, dr_nonce = 1, dr_thread = ''t1'', dr_owners = [demo_owner_receipt], dr_settlements = [demo_settlement], dr_addr = 2\<rparr>"

definition demo_owner_issue :: "owner_op list" where
  "demo_owner_issue = [IssueOwner demo_binding ''t1'' ''t1'']"

definition demo_settler :: settle_env where
  "demo_settler = \<lparr>se_threads = (\<lambda>_. ''t1''), se_settle = Some (\<lambda>c. Inr (Some \<lparr>ls_command = c, ls_settler = 1, ls_transaction = 1\<rparr>)),
     se_nested = [], se_threads_after = (\<lambda>_. ''t1'')\<rparr>"

definition demo_preflight :: preflight_env where
  "demo_preflight = \<lparr>pf_bound = [demo_binding], pf_attached = [(demo_binding, demo_settler)], pf_available = True,
     pf_threads = (\<lambda>_. ''t1'')\<rparr>"

abbreviation "demo_authority \<equiv> run_ops owner_step (new_owner_authority 0) demo_owner_issue"

abbreviation "demo_detaching \<equiv> run_ops owner_step (new_owner_authority 0)
  [IssueOwner demo_binding ''t1'' ''t1'', ReserveLoss demo_command, IssueDetach ''t1'' [demo_owner_receipt] [demo_settlement]]"

definition demo_one_shot :: detach_receipt where
  "demo_one_shot = demo_detach\<lparr>dr_addr := 1\<rparr>"

lemma demo_owner_current: "require_owner_current demo_owner_receipt ''t1'' demo_authority = Inr ()"
  "snd (advance_owner (ow_binding demo_owner_receipt) None demo_authority) = Inr ()"
  "snd (reserve_owner_loss demo_command demo_authority) = Inr ()"
  by code_simp+

lemma demo_loss: "settle_binding_owner_loss demo_settler demo_binding ''t1'' ''binding_detached'' ''abandon'' (run_ops owner_step (new_owner_authority 0) [])
    = (fst (settle_binding_owner_loss demo_settler demo_binding ''t1'' ''binding_detached'' ''abandon'' (new_owner_authority 0)),
       Inr (demo_owner_receipt, demo_settlement))"
  by code_simp

lemma demo_preflighted: "preflight_detach demo_preflight ''t1'' ''abandon'' (run_ops owner_step (new_owner_authority 0) [])
    = (fst (preflight_detach demo_preflight ''t1'' ''abandon'' (new_owner_authority 0)), Inr (Some demo_detach))"
  by code_simp

lemma demo_consumed: "consume_detach demo_detach ''t1'' [demo_binding] Abandon
      (run_ops owner_step (fst (preflight_detach demo_preflight ''t1'' ''abandon'' (new_owner_authority 0))) [])
    = (fst (consume_detach demo_detach ''t1'' [demo_binding] Abandon
        (fst (preflight_detach demo_preflight ''t1'' ''abandon'' (new_owner_authority 0)))), Inr [demo_owner_receipt])"
  by code_simp

theorem superseded_owner_is_dead_witness:
  "require_owner_current demo_owner_receipt ''t1''
     (run_ops owner_step (owner_step demo_authority (AdvanceOwner demo_binding None)) demo_owner_issue) \<noteq> Inr ()"
  using superseded_owner_is_dead [OF refl demo_owner_current(1) _ refl, of "AdvanceOwner demo_binding None" None "''t1''" demo_owner_issue]
    demo_owner_current(2)
  by (simp add: demo_owner_receipt_def)

theorem reserved_loss_pins_owner_witness:
  "snd (advance_owner demo_binding None (fst (reserve_owner_loss demo_command demo_authority))) \<noteq> Inr ()"
proof -
  have r: "reserve_owner_loss demo_command demo_authority = (fst (reserve_owner_loss demo_command demo_authority), Inr ())"
    using demo_owner_current(3) by (metis prod.collapse)
  have b: "ow_binding (lc_owner demo_command) = demo_binding" by (simp add: demo_command_def demo_owner_receipt_def)
  show ?thesis
    using reserved_loss_pins_owner [OF refl r, where ys = "[]" and m = None, OF _ refl refl] by (simp add: b)
qed

theorem detach_receipt_is_one_shot_witness:
  "snd (consume_detach demo_one_shot ''t1'' [demo_binding] Abandon
     (run_ops owner_step (fst (consume_detach demo_one_shot ''t1'' [demo_binding] Abandon demo_detaching)) [])) = Inl DetachForged"
proof -
  have c: "consume_detach demo_one_shot ''t1'' [demo_binding] Abandon demo_detaching
      = (fst (consume_detach demo_one_shot ''t1'' [demo_binding] Abandon demo_detaching), Inr [demo_owner_receipt])"
    by code_simp
  show ?thesis by (rule detach_receipt_is_one_shot [OF refl c])
qed

theorem settled_loss_commits_witness:
  "snd (advance_owner demo_binding (Some demo_command)
     (fst (settle_binding_owner_loss demo_settler demo_binding ''t1'' ''binding_detached'' ''abandon'' (new_owner_authority 0)))) = Inr ()"
  using settled_loss_commits [OF refl demo_loss, where ys = "[]" and k = "Some demo_command", OF _ refl]
  by (simp add: demo_settlement_def)

theorem consumed_detach_was_settled_witness:
  "owner_stands demo_owner_receipt (fst (consume_detach demo_detach ''t1'' [demo_binding] Abandon
      (fst (preflight_detach demo_preflight ''t1'' ''abandon'' (new_owner_authority 0)))))"
  by (rule consumed_detach_was_settled [OF refl demo_preflighted demo_consumed, of demo_owner_receipt, THEN conjunct1]) simp

end
