(* ===== verification/Execution_Transcript.thy ===== *)
theory Execution_Transcript
  imports Focus_Prelude
begin

text \<open>
  The transcript of a running execution (\<open>bot/execution_transcript.py\<close>): the reply segments and process
  blocks shown on Feishu cards, with the cursors and the evidence of a completed reply.

  The mutable object is a record, a method returns it updated. A divider segment never has a
  text. An item of an upstream snapshot is given by what the code reads of it: its type
  and its text as \<open>str(... or "")\<close>, and whether the text is a \<open>str\<close>.
\<close>

section \<open>Segments and cursors\<close>

datatype segment = Assistant string | Divider

fun seg_text :: "segment \<Rightarrow> string" where
  "seg_text (Assistant s) = s"
| "seg_text Divider = []"

fun is_assistant :: "segment \<Rightarrow> bool" where
  "is_assistant (Assistant s) = True"
| "is_assistant Divider = False"

record reply_coordinate =
  rc_item :: string
  rc_raw :: string
  rc_start :: int
  rc_end :: int

datatype transcript_exn = CoordinateInvalid | SnapshotInvalid | RangeInvalid | RangeExceeds | ProjectionInvalid

definition make_coordinate :: "string \<Rightarrow> string \<Rightarrow> int \<Rightarrow> int \<Rightarrow> transcript_exn + reply_coordinate" where
  "make_coordinate item raw lo hi =
     (if lo < 0 \<or> hi \<le> lo \<or> hi - lo \<noteq> int (length raw) then Inl CoordinateInvalid
      else Inr \<lparr>rc_item = item, rc_raw = raw, rc_start = lo, rc_end = hi\<rparr>)"

record transcript =
  tr_segments :: "segment list"
  tr_blocks :: "string list"
  tr_active_reply :: "nat option"
  tr_active_process :: "nat option"
  tr_pending_divider :: bool
  tr_had_output :: bool
  tr_completed :: "string option"
  tr_error :: "string option"
  tr_coordinate :: "reply_coordinate option"

definition new_transcript :: transcript where
  "new_transcript = \<lparr>tr_segments = [], tr_blocks = [], tr_active_reply = None, tr_active_process = None, tr_pending_divider = False,
     tr_had_output = False, tr_completed = None, tr_error = None, tr_coordinate = None\<rparr>"

section \<open>Reading\<close>

fun join_texts :: "string list \<Rightarrow> string" where
  "join_texts [] = []"
| "join_texts [s] = s"
| "join_texts (s # rest) = s @ [CHR 0x0A, CHR 0x0A] @ join_texts rest"

definition reply_text :: "transcript \<Rightarrow> string" where
  "reply_text t = join_texts (map seg_text (filter (\<lambda>s. is_assistant s \<and> seg_text s \<noteq> []) (tr_segments t)))"

definition reply_chars :: "transcript \<Rightarrow> int" where
  "reply_chars t = sum_list (map (\<lambda>s. int (length (seg_text s))) (filter is_assistant (tr_segments t)))"

definition process_text :: "transcript \<Rightarrow> string" where
  "process_text t = concat (filter (\<lambda>b. b \<noteq> []) (tr_blocks t))"

definition has_reply_output :: "transcript \<Rightarrow> bool" where
  "has_reply_output t = (\<exists>s \<in> set (tr_segments t). is_assistant s \<and> seg_text s \<noteq> [])"

definition has_process_output :: "transcript \<Rightarrow> bool" where
  "has_process_output t = (\<exists>b \<in> set (tr_blocks t). b \<noteq> [])"

datatype reply_evidence = AgentReply string | ErrorReply string

definition terminal_reply_evidence :: "transcript \<Rightarrow> reply_evidence option" where
  "terminal_reply_evidence t =
     (case tr_completed t of
        Some s \<Rightarrow> if strip s \<noteq> [] then Some (AgentReply s)
                  else (case tr_error t of Some e \<Rightarrow> Some (ErrorReply e) | None \<Rightarrow> Some (AgentReply []))
      | None \<Rightarrow> map_option ErrorReply (tr_error t))"

definition trailing_reply_interval :: "transcript \<Rightarrow> string \<Rightarrow> (int \<times> int) option" where
  "trailing_reply_interval t expected =
     (if expected = [] then None
      else case find is_assistant (rev (tr_segments t)) of
        None \<Rightarrow> None
      | Some s \<Rightarrow> if seg_text s \<noteq> expected then None
                  else Some (reply_chars t - int (length expected), reply_chars t))"

datatype match_reason = Matched | CoordinateUnavailable | RawTextMismatch | NotTrailing

definition terminal_agent_reply_interval :: "transcript \<Rightarrow> string \<Rightarrow> (int \<times> int) option \<times> match_reason" where
  "terminal_agent_reply_interval t expected =
     (case tr_coordinate t of
        None \<Rightarrow> (None, CoordinateUnavailable)
      | Some c \<Rightarrow>
          (if rc_raw c \<noteq> expected then (None, RawTextMismatch)
           else if trailing_reply_interval t (rc_raw c) \<noteq> Some (rc_start c, rc_end c) then (None, NotTrailing)
           else (Some (rc_start c, rc_end c), Matched)))"

text \<open>One half-open range of the assistant text. \<open>p\<close> is \<open>pending_divider\<close>, \<open>r\<close> what is rendered so far.\<close>

definition render_overlap :: "int \<Rightarrow> int \<Rightarrow> int \<Rightarrow> string \<Rightarrow> bool \<Rightarrow> segment list \<Rightarrow> bool \<times> segment list" where
  "render_overlap lo hi offset s p r =
     (let a = max lo offset; b = min hi (offset + int (length s))
      in if a < b
         then (False, (if p \<and> r \<noteq> [] then r @ [Divider] else r)
                 @ [Assistant (take (nat (b - a)) (drop (nat (a - offset)) s))])
         else (p, r))"

fun walk_segments :: "segment list \<Rightarrow> int \<Rightarrow> int \<Rightarrow> int \<Rightarrow> bool \<Rightarrow> segment list \<Rightarrow> int \<times> segment list" where
  "walk_segments [] lo hi offset p r = (offset, r)"
| "walk_segments (Divider # rest) lo hi offset p r = walk_segments rest lo hi offset (p \<or> r \<noteq> []) r"
| "walk_segments (Assistant s # rest) lo hi offset p r =
     (case render_overlap lo hi offset s p r of (p', r') \<Rightarrow>
        (let offset' = offset + int (length s)
         in if hi \<le> offset' then (offset', r') else walk_segments rest lo hi offset' p' r'))"

definition segments_between :: "segment list \<Rightarrow> int \<Rightarrow> int \<Rightarrow> transcript_exn + segment list" where
  "segments_between segs lo hi =
     (if lo < 0 \<or> hi < lo then Inl RangeInvalid
      else case walk_segments segs lo hi 0 False [] of (offset, r) \<Rightarrow>
        (if offset < hi then Inl RangeExceeds else Inr r))"

definition reply_segments_between :: "transcript \<Rightarrow> int \<Rightarrow> int \<Rightarrow> transcript_exn + segment list" where
  "reply_segments_between t lo hi = segments_between (tr_segments t) lo hi"

text \<open>\<open>ExecutionTranscriptTrailingReplyProjection\<close>: the same coordinates with the end hidden.\<close>

definition make_projection :: "transcript \<Rightarrow> int \<Rightarrow> transcript_exn + (transcript \<times> int)" where
  "make_projection t retained =
     (if 0 \<le> retained \<and> retained \<le> reply_chars t then Inr (t, retained) else Inl ProjectionInvalid)"

definition projected_between :: "transcript \<times> int \<Rightarrow> int \<Rightarrow> int \<Rightarrow> transcript_exn + segment list" where
  "projected_between v lo hi =
     (if lo < 0 \<or> hi < lo then Inl RangeInvalid
      else if reply_chars (fst v) < hi then Inl RangeExceeds
      else let visible = min hi (snd v)
           in if visible \<le> lo then Inr [] else reply_segments_between (fst v) lo visible)"

section \<open>Snapshots\<close>

definition index_ok :: "nat option \<Rightarrow> nat \<Rightarrow> bool" where
  "index_ok i n = (case i of None \<Rightarrow> True | Some k \<Rightarrow> k < n)"

text \<open>
  The snapshot has the fields of the transcript with deeply immutable containers, which the
  model's values are anyway; its constructor checks the cursors.
\<close>

definition snapshot_checks :: "transcript \<Rightarrow> bool" where
  "snapshot_checks t =
     (index_ok (tr_active_reply t) (length (tr_segments t)) \<and> index_ok (tr_active_process t) (length (tr_blocks t))
      \<and> (case tr_active_reply t of None \<Rightarrow> True | Some i \<Rightarrow> is_assistant (tr_segments t ! i))
      \<and> \<not> (tr_active_reply t \<noteq> None \<and> tr_active_process t \<noteq> None))"

definition transcript_snapshot :: "transcript \<Rightarrow> transcript_exn + transcript" where
  "transcript_snapshot t = (if snapshot_checks t then Inr t else Inl SnapshotInvalid)"

definition from_snapshot :: "transcript \<Rightarrow> transcript" where
  "from_snapshot p =
     \<lparr>tr_segments = tr_segments p, tr_blocks = tr_blocks p, tr_active_reply = tr_active_reply p,
      tr_active_process = tr_active_process p, tr_pending_divider = tr_pending_divider p, tr_had_output = tr_had_output p,
      tr_completed = tr_completed p, tr_error = tr_error p, tr_coordinate = tr_coordinate p\<rparr>"

section \<open>Writing\<close>

definition record_terminal_error :: "string \<Rightarrow> transcript \<Rightarrow> transcript" where
  "record_terminal_error s t = (if strip s \<noteq> [] then t\<lparr>tr_error := Some (strip s)\<rparr> else t)"

definition record_unavailable_completion :: "transcript \<Rightarrow> transcript" where
  "record_unavailable_completion t = t\<lparr>tr_completed := None, tr_active_reply := None, tr_coordinate := None\<rparr>"

definition set_reply_text :: "string \<Rightarrow> transcript \<Rightarrow> transcript" where
  "set_reply_text s t =
     t\<lparr>tr_segments := (if s \<noteq> [] then [Assistant s] else []), tr_active_reply := None, tr_pending_divider := False,
       tr_had_output := (s \<noteq> []), tr_coordinate := None\<rparr>"

definition work_item_types :: "string set" where
  "work_item_types = {''collabAgentToolCall'', ''commandExecution'', ''contextCompaction'', ''dynamicToolCall'',
     ''enteredReviewMode'', ''exitedReviewMode'', ''fileChange'', ''imageView'', ''imageGeneration'', ''mcpToolCall'',
     ''patchApply'', ''plan'', ''reasoning'', ''sleep'', ''webSearch''}"

definition is_work_item_type :: "string \<Rightarrow> bool" where
  "is_work_item_type s = (strip s \<in> work_item_types)"

definition is_terminal_invalidating_type :: "string \<Rightarrow> bool" where
  "is_terminal_invalidating_type s = (strip s \<in> work_item_types - {''imageGeneration''})"

text \<open>\<open>phase\<close>: absent, a text, or another value.\<close>

definition can_be_terminal_candidate :: "string option option \<Rightarrow> bool" where
  "can_be_terminal_candidate phase =
     (case phase of None \<Rightarrow> True | Some None \<Rightarrow> False | Some (Some s) \<Rightarrow> lower (strip s) = ''final_answer'')"

record snapshot_item =
  si_type :: string
  si_text :: string
  si_is_text :: bool

definition item_type :: "snapshot_item \<Rightarrow> string" where
  "item_type i = strip (si_type i)"

fun last_text_index :: "snapshot_item list \<Rightarrow> nat \<Rightarrow> nat option \<Rightarrow> nat option" where
  "last_text_index [] n acc = acc"
| "last_text_index (i # rest) n acc =
     last_text_index rest (Suc n) (if item_type i = ''agentMessage'' \<and> strip (si_text i) \<noteq> [] then Some n else acc)"

text \<open>The second loop; the state is \<open>(rebuilt, saw_assistant, saw_work_since_assistant)\<close>.\<close>

definition rebuild_item :: "nat option \<Rightarrow> nat \<Rightarrow> snapshot_item \<Rightarrow> segment list \<times> bool \<times> bool \<Rightarrow> segment list \<times> bool \<times> bool" where
  "rebuild_item dropped n i s =
     (case s of (built, saw, work) \<Rightarrow>
        (if item_type i = ''agentMessage''
         then (let text = (if si_is_text i then si_text i else [])
               in if strip text = [] \<or> dropped = Some n then s
                  else (built @ (if saw \<and> work then [Divider] else []) @ [Assistant text], True, False))
         else if saw \<and> is_work_item_type (item_type i) then (built, saw, True) else s))"

fun rebuild_items ::
  "nat option \<Rightarrow> nat \<Rightarrow> snapshot_item list \<Rightarrow> segment list \<times> bool \<times> bool \<Rightarrow> segment list \<times> bool \<times> bool" where
  "rebuild_items dropped n [] s = s"
| "rebuild_items dropped n (i # rest) s = rebuild_items dropped (Suc n) rest (rebuild_item dropped n i s)"

definition rebuild_reply :: "snapshot_item list \<Rightarrow> string \<Rightarrow> bool \<Rightarrow> transcript \<Rightarrow> transcript \<times> bool" where
  "rebuild_reply items fallback drop_last t =
     (case rebuild_items (if drop_last then last_text_index items 0 None else None) 0 items ([], False, False) of
        (built, saw, work) \<Rightarrow>
          (if built \<noteq> []
           then (t\<lparr>tr_segments := built, tr_active_reply := None, tr_pending_divider := (saw \<and> work),
                   tr_had_output := (\<exists>s \<in> set built. is_assistant s \<and> seg_text s \<noteq> []), tr_coordinate := None\<rparr>, True)
           else if fallback \<noteq> [] then (set_reply_text fallback t, True)
           else (t, False)))"

text \<open>The divider owed before a new assistant segment, and that segment.\<close>

definition open_segment :: "string \<Rightarrow> transcript \<Rightarrow> transcript" where
  "open_segment s t =
     t\<lparr>tr_segments := tr_segments t @ (if tr_pending_divider t \<and> tr_had_output t then [Divider] else []) @ [Assistant s],
       tr_pending_divider := False\<rparr>"

definition append_assistant_delta :: "string \<Rightarrow> transcript \<Rightarrow> transcript" where
  "append_assistant_delta delta t =
     (if delta = [] then t
      else let t1 = t\<lparr>tr_coordinate := None, tr_active_process := None\<rparr>;
               t2 = (case tr_active_reply t1 of
                       Some _ \<Rightarrow> t1
                     | None \<Rightarrow> (let u = open_segment [] (t1\<lparr>tr_completed := None\<rparr>)
                               in u\<lparr>tr_active_reply := Some (length (tr_segments u) - 1)\<rparr>));
               i = the (tr_active_reply t2)
           in t2\<lparr>tr_segments := (tr_segments t2)[i := Assistant (seg_text (tr_segments t2 ! i) @ delta)], tr_had_output := True\<rparr>)"

definition reconcile_assistant_text :: "string \<Rightarrow> bool \<Rightarrow> string \<Rightarrow> transcript \<Rightarrow> transcript \<times> (transcript_exn + bool)" where
  "reconcile_assistant_text s candidate item t =
     (let id = strip item
      in if candidate \<and> id \<noteq> [] \<and> (case tr_coordinate t of None \<Rightarrow> False | Some c \<Rightarrow> rc_item c = id \<and> rc_raw c = s)
         then (t, Inr True)
         else let t1 = (if \<not> candidate then t\<lparr>tr_completed := None, tr_coordinate := None\<rparr> else t)
           in if strip s = []
              then ((if candidate then t1\<lparr>tr_completed := Some []\<rparr> else t1)\<lparr>tr_coordinate := None, tr_active_reply := None\<rparr>, Inr True)
              else let t2 = (case tr_active_reply t1 of
                               None \<Rightarrow> open_segment s t1
                             | Some i \<Rightarrow> t1\<lparr>tr_segments := (tr_segments t1)[i := Assistant s]\<rparr>)
                            \<lparr>tr_active_reply := None, tr_had_output := True\<rparr>
                in if \<not> candidate then (t2, Inr True)
                   else let t3 = t2\<lparr>tr_completed := Some s, tr_error := None\<rparr>; hi = reply_chars t3
                     in (case make_coordinate id s (hi - int (length s)) hi of
                           Inl x \<Rightarrow> (t3, Inl x)
                         | Inr c \<Rightarrow> (t3\<lparr>tr_coordinate := Some c\<rparr>, Inr True)))"

definition append_display_only :: "string \<Rightarrow> transcript \<Rightarrow> transcript" where
  "append_display_only s t =
     (if strip s = [] then t
      else t\<lparr>tr_segments := tr_segments t @ (if has_reply_output t then [Divider] else []) @ [Assistant (strip s)],
             tr_active_reply := None, tr_pending_divider := False, tr_had_output := True, tr_coordinate := None\<rparr>)"

text \<open>What marked work does to the evidence, and the divider it owes.\<close>

definition forget_candidate :: "bool \<Rightarrow> transcript \<Rightarrow> transcript" where
  "forget_candidate marks_work t = (if marks_work then t\<lparr>tr_completed := None, tr_coordinate := None\<rparr> else t)"

definition owe_divider :: "bool \<Rightarrow> transcript \<Rightarrow> transcript" where
  "owe_divider marks_work t = (if marks_work \<and> tr_had_output t then t\<lparr>tr_pending_divider := True\<rparr> else t)"

definition start_process_block :: "string \<Rightarrow> bool \<Rightarrow> transcript \<Rightarrow> transcript" where
  "start_process_block s marks_work t =
     (let t1 = forget_candidate marks_work (t\<lparr>tr_active_reply := None, tr_active_process := None\<rparr>)
      in owe_divider marks_work (t1\<lparr>tr_blocks := tr_blocks t1 @ [s], tr_active_process := Some (length (tr_blocks t1))\<rparr>))"

definition append_process_delta :: "string \<Rightarrow> transcript \<Rightarrow> transcript" where
  "append_process_delta s t =
     (if s = [] then t
      else let t1 = (if tr_active_process t = None then start_process_block [] False t else t); i = the (tr_active_process t1)
           in t1\<lparr>tr_blocks := (tr_blocks t1)[i := tr_blocks t1 ! i @ s]\<rparr>)"

definition mark_process_work :: "transcript \<Rightarrow> transcript" where
  "mark_process_work t = owe_divider True (forget_candidate True (t\<lparr>tr_active_reply := None\<rparr>))"

definition finish_process_block :: "string \<Rightarrow> bool \<Rightarrow> transcript \<Rightarrow> transcript" where
  "finish_process_block suffix marks_work t =
     (let t1 = (if marks_work then mark_process_work t else t)
      in (append_process_delta suffix t1)\<lparr>tr_active_process := None\<rparr>)"

definition append_process_note :: "string \<Rightarrow> bool \<Rightarrow> transcript \<Rightarrow> transcript" where
  "append_process_note s marks_work t =
     (if s = []
      then (if marks_work
            then owe_divider True (forget_candidate True (t\<lparr>tr_active_reply := None, tr_active_process := None\<rparr>)) else t)
      else let t1 = forget_candidate marks_work (t\<lparr>tr_active_reply := None, tr_active_process := None\<rparr>)
           in owe_divider marks_work (t1\<lparr>tr_blocks := tr_blocks t1 @ [s]\<rparr>))"

section \<open>Sequences of operations\<close>

datatype transcript_op =
    ResetTranscript
  | TerminalError string
  | UnavailableCompletion
  | SetReply string
  | RebuildReply "snapshot_item list" string bool
  | AssistantDelta string
  | ReconcileText string bool string
  | DisplayOnly string
  | StartProcess string bool
  | ProcessDelta string
  | MarkWork
  | FinishProcess string bool
  | ProcessNote string bool

fun transcript_step :: "transcript \<Rightarrow> transcript_op \<Rightarrow> transcript" where
  "transcript_step t ResetTranscript = new_transcript"
| "transcript_step t (TerminalError s) = record_terminal_error s t"
| "transcript_step t UnavailableCompletion = record_unavailable_completion t"
| "transcript_step t (SetReply s) = set_reply_text s t"
| "transcript_step t (RebuildReply items fallback dropped) = fst (rebuild_reply items fallback dropped t)"
| "transcript_step t (AssistantDelta s) = append_assistant_delta s t"
| "transcript_step t (ReconcileText s candidate item) = fst (reconcile_assistant_text s candidate item t)"
| "transcript_step t (DisplayOnly s) = append_display_only s t"
| "transcript_step t (StartProcess s w) = start_process_block s w t"
| "transcript_step t (ProcessDelta s) = append_process_delta s t"
| "transcript_step t MarkWork = mark_process_work t"
| "transcript_step t (FinishProcess s w) = finish_process_block s w t"
| "transcript_step t (ProcessNote s w) = append_process_note s w t"

end
