(* ===== verification/Execution_Transcript_Facts.thy ===== *)
theory Execution_Transcript_Facts
  imports Execution_Transcript
begin

text \<open>
  Lemmas on the transcript: a slice of the reply is exactly the characters of its range, the invariant of
  the reachable transcripts (\<open>transcript_inv\<close>, kept by every operation), the coordinate of a completed
  reply, and what withdraws it.
\<close>

section \<open>Slices of the assistant text\<close>

definition text_of :: "segment list \<Rightarrow> string" where
  "text_of segs = concat (map seg_text segs)"

lemma text_of_simps [simp]:
  "text_of [] = []" "text_of (s # segs) = seg_text s @ text_of segs" "text_of (xs @ ys) = text_of xs @ text_of ys"
  by (simp_all add: text_of_def)

lemma reply_chars_text: "reply_chars t = int (length (text_of (tr_segments t)))"
proof -
  have "sum_list (map (\<lambda>s. int (length (seg_text s))) (filter is_assistant segs)) = int (length (text_of segs))" for segs
  proof (induction segs)
    case (Cons s segs)
    then show ?case by (cases s) simp_all
  qed simp
  then show ?thesis by (simp add: reply_chars_def)
qed

definition slice :: "int \<Rightarrow> int \<Rightarrow> string \<Rightarrow> string" where
  "slice lo hi s = take (nat (hi - lo)) (drop (nat lo) s)"

text \<open>What of the text from \<open>offset\<close> on lies in the range.\<close>

definition rest_slice :: "int \<Rightarrow> int \<Rightarrow> int \<Rightarrow> string \<Rightarrow> string" where
  "rest_slice lo hi offset s = take (nat (hi - max lo offset)) (drop (nat (lo - offset)) s)"

lemma rest_slice_start: "0 \<le> lo \<Longrightarrow> rest_slice lo hi 0 s = slice lo hi s"
  by (simp add: rest_slice_def slice_def max_def)

lemma rest_slice_append:
  "rest_slice lo hi offset (s @ u) =
    (let a = max lo offset; b = min hi (offset + int (length s))
     in (if a < b then take (nat (b - a)) (drop (nat (a - offset)) s) else []))
    @ rest_slice lo hi (offset + int (length s)) u"
proof -
  let ?n = "nat (lo - offset)" and ?a = "max lo offset" and ?l = "offset + int (length s)"
  have n: "nat (?a - offset) = ?n" by (simp add: max_def)
  have "take (nat (hi - ?a)) (drop ?n s) = (if ?a < min hi ?l then take (nat (min hi ?l - ?a)) (drop ?n s) else [])"
  proof (cases "?a < min hi ?l")
    case True
    show ?thesis
    proof (cases "hi \<le> ?l")
      case False
      have "length (drop ?n s) \<le> nat (min hi ?l - ?a)" "length (drop ?n s) \<le> nat (hi - ?a)"
        using False by (auto simp: max_def min_def)
      then show ?thesis using True by simp
    qed (use True in \<open>simp add: min_def\<close>)
  next
    case False
    then show ?thesis by (auto simp: max_def min_def split: if_splits)
  qed
  moreover have "take (nat (hi - ?a) - (length s - ?n)) (drop (?n - length s) u) = rest_slice lo hi ?l u"
  proof -
    have "nat (hi - ?a) - (length s - ?n) = nat (hi - max lo ?l)" by (auto simp: max_def)
    moreover have "?n - length s = nat (lo - ?l)" by linarith
    ultimately show ?thesis by (simp add: rest_slice_def)
  qed
  ultimately show ?thesis by (simp add: rest_slice_def Let_def n)
qed

lemma rest_slice_done: "hi \<le> offset \<Longrightarrow> rest_slice lo hi offset s = []"
  by (simp add: rest_slice_def max_def)

lemma overlap_text:
  "text_of (snd (render_overlap lo hi offset s p r)) @ rest_slice lo hi (offset + int (length s)) u
     = text_of r @ rest_slice lo hi offset (s @ u)"
  by (simp add: render_overlap_def rest_slice_append Let_def)

lemma walk_text:
  assumes "offset \<le> hi" and "walk_segments segs lo hi offset p r = (offset', r')"
  shows "text_of r' = text_of r @ rest_slice lo hi offset (text_of segs)
    \<and> (hi \<le> offset' \<longleftrightarrow> hi \<le> offset + int (length (text_of segs)))"
  using assms
proof (induction segs lo hi offset p r arbitrary: offset' r' rule: walk_segments.induct)
  case (1 lo hi offset p r)
  then show ?case by (simp add: rest_slice_def)
next
  case (2 rest lo hi offset p r)
  then show ?case by simp
next
  case (3 s rest lo hi offset p r)
  obtain p1 r1 where o: "render_overlap lo hi offset s p r = (p1, r1)" by fastforce
  let ?l = "offset + int (length s)"
  have t: "text_of r1 @ rest_slice lo hi ?l (text_of rest) = text_of r @ rest_slice lo hi offset (s @ text_of rest)"
    using overlap_text [of lo hi offset s p r "text_of rest"] o by simp
  show ?case
  proof (cases "hi \<le> ?l")
    case True
    then show ?thesis using "3.prems"(2) t o rest_slice_done [OF True] by auto
  next
    case False
    have w: "walk_segments rest lo hi ?l p1 r1 = (offset', r')" using "3.prems"(2) o False by simp
    have "text_of r' = text_of r1 @ rest_slice lo hi ?l (text_of rest) \<and> (hi \<le> offset' \<longleftrightarrow> hi \<le> ?l + int (length (text_of rest)))"
      by (rule "3.IH" [OF o [symmetric] refl]) (use False w in simp_all)
    then show ?thesis using t by (simp add: add.assoc)
  qed
qed

text \<open>Nothing empty is rendered, and dividers only stand between assistant segments.\<close>

definition tidy :: "segment list \<Rightarrow> bool" where
  "tidy r =
     ((r \<noteq> [] \<longrightarrow> is_assistant (hd r) \<and> is_assistant (last r)) \<and> successively (\<lambda>x y. is_assistant x \<or> is_assistant y) r
      \<and> (\<forall>s \<in> set r. is_assistant s \<longrightarrow> seg_text s \<noteq> []))"

lemma tidy_snoc: "tidy r \<Longrightarrow> x \<noteq> [] \<Longrightarrow> tidy ((if p \<and> r \<noteq> [] then r @ [Divider] else r) @ [Assistant x])"
  by (cases "r = []") (auto simp: tidy_def successively_append_iff)

lemma overlap_tidy: "tidy r \<Longrightarrow> tidy (snd (render_overlap lo hi offset s p r))"
proof -
  assume t: "tidy r"
  let ?a = "max lo offset" and ?b = "min hi (offset + int (length s))"
  show ?thesis
  proof (cases "?a < ?b")
    case True
    then have "nat (?a - offset) < length s" "0 < nat (?b - ?a)" by linarith+
    then have "take (nat (?b - ?a)) (drop (nat (?a - offset)) s) \<noteq> []" by (metis drop_eq_Nil less_numeral_extra(3) not_less take_eq_Nil)
    from tidy_snoc [OF t this] show ?thesis using True by (simp only: render_overlap_def Let_def if_True snd_conv)
  next
    case False
    then show ?thesis using t by (simp only: render_overlap_def Let_def if_False snd_conv)
  qed
qed

lemma walk_tidy: "tidy r \<Longrightarrow> tidy (snd (walk_segments segs lo hi offset p r))"
proof (induction segs lo hi offset p r rule: walk_segments.induct)
  case (3 s rest lo hi offset p r)
  obtain p1 r1 where o: "render_overlap lo hi offset s p r = (p1, r1)" by fastforce
  have "tidy r1" using overlap_tidy [OF "3.prems", of lo hi offset s p] o by simp
  then show ?case using "3.IH" [OF o [symmetric] refl] by (simp add: o Let_def)
qed simp_all

lemma segments_between_text:
  "segments_between segs lo hi = Inr r \<longleftrightarrow>
    0 \<le> lo \<and> lo \<le> hi \<and> hi \<le> int (length (text_of segs)) \<and> r = snd (walk_segments segs lo hi 0 False [])"
proof (cases "0 \<le> lo \<and> lo \<le> hi")
  case True
  obtain off r' where w: "walk_segments segs lo hi 0 False [] = (off, r')" by fastforce
  then show ?thesis using walk_text [OF _ w] True by (auto simp: segments_between_def)
qed (auto simp: segments_between_def)

lemma between_slice:
  assumes "segments_between segs lo hi = Inr r"
  shows "text_of r = slice lo hi (text_of segs) \<and> tidy r"
proof -
  obtain off r' where w: "walk_segments segs lo hi 0 False [] = (off, r')" by fastforce
  have b: "0 \<le> lo" "lo \<le> hi" "r = r'" using assms w by (auto simp: segments_between_text)
  have "text_of r' = rest_slice lo hi 0 (text_of segs)" using walk_text [OF _ w] b by simp
  moreover have "tidy (snd (walk_segments segs lo hi 0 False []))" by (rule walk_tidy) (simp add: tidy_def)
  ultimately show ?thesis using b w by (simp add: rest_slice_start)
qed

lemma slice_join: "0 \<le> a \<Longrightarrow> a \<le> b \<Longrightarrow> b \<le> c \<Longrightarrow> slice a b s @ slice b c s = slice a c s"
proof -
  assume h: "0 \<le> a" "a \<le> b" "b \<le> c"
  have "nat (c - a) = nat (b - a) + nat (c - b)" "nat b = nat (b - a) + nat a" using h by auto
  then show ?thesis by (simp add: slice_def take_add)
qed

lemma slice_all: "slice 0 (int (length s)) s = s"
  by (simp add: slice_def)

section \<open>The reachable transcripts\<close>

definition coordinate_ok :: "transcript \<Rightarrow> reply_coordinate \<Rightarrow> bool" where
  "coordinate_ok t c =
     (tr_segments t \<noteq> [] \<and> last (tr_segments t) = Assistant (rc_raw c) \<and> strip (rc_raw c) \<noteq> []
      \<and> rc_end c = reply_chars t \<and> rc_start c = reply_chars t - int (length (rc_raw c))
      \<and> tr_completed t = Some (rc_raw c) \<and> tr_active_reply t = None)"

definition transcript_inv :: "transcript \<Rightarrow> bool" where
  "transcript_inv t =
     (tidy (tr_segments t) \<and> (tr_had_output t \<longleftrightarrow> tr_segments t \<noteq> [])
      \<and> (\<forall>i. tr_active_reply t = Some i \<longrightarrow> Suc i = length (tr_segments t) \<and> tr_active_process t = None)
      \<and> (\<forall>i. tr_active_process t = Some i \<longrightarrow> Suc i = length (tr_blocks t))
      \<and> (\<forall>c. tr_coordinate t = Some c \<longrightarrow> coordinate_ok t c))"

lemma tidy_single: "s \<noteq> [] \<Longrightarrow> tidy [Assistant s]"
  by (simp add: tidy_def)

lemma tidy_Nil [simp]: "tidy []"
  by (simp add: tidy_def)

lemma tidy_open: "tidy r \<Longrightarrow> s \<noteq> [] \<Longrightarrow> tidy (r @ (if p \<and> r \<noteq> [] then [Divider] else []) @ [Assistant s])"
  using tidy_snoc [of r s p] by (cases "p \<and> r \<noteq> []") auto

lemma tidy_last:
  assumes "tidy r" and "Suc i = length r" and "s \<noteq> []"
  shows "r[i := Assistant s] = butlast r @ [Assistant s]" and "tidy (r[i := Assistant s])"
proof -
  obtain xs x where r: "r = xs @ [x]" using assms(2) by (cases r rule: rev_cases) auto
  then obtain a where a: "x = Assistant a" using assms(1) by (cases x) (auto simp: tidy_def)
  show u: "r[i := Assistant s] = butlast r @ [Assistant s]" using assms(2) by (simp add: r list_update_append)
  have "tidy (xs @ [Assistant s])"
    using assms(1,3) by (cases "xs = []") (auto simp: r a tidy_def successively_append_iff)
  then show "tidy (r[i := Assistant s])" using u by (simp add: r)
qed

lemma coordinate_cong:
  "coordinate_ok t c \<Longrightarrow> tr_segments u = tr_segments t \<Longrightarrow> tr_completed u = tr_completed t \<Longrightarrow> tr_active_reply u = tr_active_reply t
    \<Longrightarrow> coordinate_ok u c"
  by (simp add: coordinate_ok_def reply_chars_def)

lemma new_transcript_inv: "transcript_inv new_transcript"
  by (simp add: transcript_inv_def new_transcript_def)

text \<open>What does not touch the reply segments, the cursors and the evidence at once.\<close>

lemma set_reply_inv: "transcript_inv t \<Longrightarrow> transcript_inv (set_reply_text s t)"
  by (simp add: transcript_inv_def set_reply_text_def tidy_single)

lemma unavailable_inv: "transcript_inv t \<Longrightarrow> transcript_inv (record_unavailable_completion t)"
  by (simp add: transcript_inv_def record_unavailable_completion_def)

lemma error_inv: "transcript_inv t \<Longrightarrow> transcript_inv (record_terminal_error s t)"
  by (auto simp: transcript_inv_def record_terminal_error_def intro: coordinate_cong)

lemma owe_inv: "transcript_inv t \<Longrightarrow> transcript_inv (owe_divider w t)"
  by (auto simp: transcript_inv_def owe_divider_def intro: coordinate_cong)

lemma forget_inv: "transcript_inv t \<Longrightarrow> transcript_inv (forget_candidate w t)"
  by (simp add: transcript_inv_def forget_candidate_def)

lemma no_cursor_inv: "transcript_inv t \<Longrightarrow> transcript_inv (t\<lparr>tr_active_reply := None\<rparr>)"
  by (auto simp: transcript_inv_def coordinate_ok_def reply_chars_def)

lemma no_process_inv: "transcript_inv t \<Longrightarrow> transcript_inv (t\<lparr>tr_active_process := None\<rparr>)"
  by (auto simp: transcript_inv_def intro: coordinate_cong)

lemma block_inv:
  "transcript_inv t \<Longrightarrow> tr_active_reply t = None \<Longrightarrow> tr_active_process t = None
    \<Longrightarrow> transcript_inv (t\<lparr>tr_blocks := bs\<rparr>)"
  by (auto simp: transcript_inv_def intro: coordinate_cong)

lemma start_inv: "transcript_inv t \<Longrightarrow> transcript_inv (start_process_block s w t)"
proof -
  assume i: "transcript_inv t"
  let ?t = "forget_candidate w (t\<lparr>tr_active_reply := None, tr_active_process := None\<rparr>)"
  have "transcript_inv ?t" using no_process_inv [OF no_cursor_inv [OF i]] by (intro forget_inv) simp
  then have "transcript_inv (?t\<lparr>tr_blocks := tr_blocks ?t @ [s], tr_active_process := Some (length (tr_blocks ?t))\<rparr>)"
    by (auto simp: transcript_inv_def forget_candidate_def intro: coordinate_cong)
  then show ?thesis unfolding start_process_block_def Let_def by (rule owe_inv)
qed

lemma process_delta_inv: "transcript_inv t \<Longrightarrow> transcript_inv (append_process_delta s t)"
proof -
  assume i: "transcript_inv t"
  have k: "transcript_inv u \<Longrightarrow> transcript_inv (u\<lparr>tr_blocks := (tr_blocks u)[j := x]\<rparr>)" for u j x
    by (auto simp: transcript_inv_def intro: coordinate_cong)
  show ?thesis
    unfolding append_process_delta_def Let_def using i k start_inv [OF i] by simp
qed

lemma mark_work_inv: "transcript_inv t \<Longrightarrow> transcript_inv (mark_process_work t)"
  unfolding mark_process_work_def by (intro owe_inv forget_inv no_cursor_inv)

lemma finish_inv: "transcript_inv t \<Longrightarrow> transcript_inv (finish_process_block s w t)"
  unfolding finish_process_block_def Let_def by (simp add: no_process_inv process_delta_inv mark_work_inv)

lemma note_inv: "transcript_inv t \<Longrightarrow> transcript_inv (append_process_note s w t)"
proof -
  assume i: "transcript_inv t"
  let ?t = "forget_candidate w (t\<lparr>tr_active_reply := None, tr_active_process := None\<rparr>)"
  have k: "transcript_inv ?t" using no_process_inv [OF no_cursor_inv [OF i]] by (intro forget_inv) simp
  have "transcript_inv (owe_divider w (?t\<lparr>tr_blocks := tr_blocks ?t @ [s]\<rparr>))"
    by (intro owe_inv block_inv [OF k]) (simp_all add: forget_candidate_def)
  then show ?thesis using i owe_inv [OF k, of True] by (cases w) (simp_all add: append_process_note_def Let_def)
qed

lemma display_inv: "transcript_inv t \<Longrightarrow> transcript_inv (append_display_only s t)"
proof -
  assume i: "transcript_inv t"
  have "has_reply_output t \<longleftrightarrow> tr_segments t \<noteq> []"
  proof
    assume "tr_segments t \<noteq> []"
    then have "hd (tr_segments t) \<in> set (tr_segments t) \<and> is_assistant (hd (tr_segments t))"
      using i by (simp add: transcript_inv_def tidy_def)
    then show "has_reply_output t" using i by (auto simp: has_reply_output_def transcript_inv_def tidy_def)
  qed (auto simp: has_reply_output_def)
  then show ?thesis
    using i tidy_open [of "tr_segments t" "strip s" True] by (auto simp: append_display_only_def transcript_inv_def)
qed

lemma delta_inv: "transcript_inv t \<Longrightarrow> transcript_inv (append_assistant_delta s t)"
proof (cases "s = []")
  case False
  assume i: "transcript_inv t"
  show ?thesis
  proof (cases "tr_active_reply t")
    case None
    then show ?thesis
      using i False tidy_open [of "tr_segments t" s "tr_pending_divider t"]
      by (auto simp: append_assistant_delta_def open_segment_def Let_def transcript_inv_def nth_append list_update_append)
  next
    case (Some k)
    have l: "Suc k = length (tr_segments t)" "tidy (tr_segments t)" using i Some by (auto simp: transcript_inv_def)
    then show ?thesis
      using i Some False tidy_last(2) [OF l(2,1), of "seg_text (tr_segments t ! k) @ s"]
      by (auto simp: append_assistant_delta_def Let_def transcript_inv_def)
  qed
qed (simp add: append_assistant_delta_def)

lemma coordinate_made:
  assumes "tr_segments t = xs @ [Assistant s]" and "s \<noteq> []"
  shows "make_coordinate i s (reply_chars t - int (length s)) (reply_chars t)
    = Inr \<lparr>rc_item = i, rc_raw = s, rc_start = reply_chars t - int (length s), rc_end = reply_chars t\<rparr>"
proof -
  have "int (length s) \<le> reply_chars t" by (simp add: reply_chars_text assms(1))
  then show ?thesis using assms(2) by (simp add: make_coordinate_def)
qed

lemma strip_nonempty: "strip s \<noteq> [] \<Longrightarrow> s \<noteq> []"
  by auto

text \<open>The reply segments after a completion: the open one replaced, or a new one.\<close>

definition settle_segment :: "string \<Rightarrow> transcript \<Rightarrow> transcript" where
  "settle_segment s t =
     (case tr_active_reply t of
        None \<Rightarrow> open_segment s t
      | Some i \<Rightarrow> t\<lparr>tr_segments := (tr_segments t)[i := Assistant s]\<rparr>)\<lparr>tr_active_reply := None, tr_had_output := True\<rparr>"

lemma settle_segment_ok:
  assumes i: "transcript_inv t" and s: "s \<noteq> []"
  shows "\<exists>xs. tr_segments (settle_segment s t) = xs @ [Assistant s]" and "tidy (tr_segments (settle_segment s t))"
    and "tr_active_reply (settle_segment s t) = None" and "tr_had_output (settle_segment s t)"
    and "tr_blocks (settle_segment s t) = tr_blocks t" and "tr_active_process (settle_segment s t) = tr_active_process t"
proof -
  have t: "tidy (tr_segments t)" "tr_had_output t \<longleftrightarrow> tr_segments t \<noteq> []"
    and l: "tr_active_reply t = Some k \<Longrightarrow> Suc k = length (tr_segments t)" for k
    using i by (auto simp: transcript_inv_def)
  show "\<exists>xs. tr_segments (settle_segment s t) = xs @ [Assistant s]"
    using tidy_last(1) [OF t(1) l s] by (auto simp: settle_segment_def open_segment_def split: option.split)
  show "tidy (tr_segments (settle_segment s t))"
    using tidy_last(2) [OF t(1) l s] tidy_open [OF t(1) s, of "tr_pending_divider t"] t(2)
    by (auto simp: settle_segment_def open_segment_def split: option.split)
qed (auto simp: settle_segment_def open_segment_def split: option.split)

lemma reconcile_ok:
  assumes i: "transcript_inv t"
  shows "snd (reconcile_assistant_text s candidate item t) = Inr True \<and> transcript_inv (fst (reconcile_assistant_text s candidate item t))"
proof -
  define t1 where "t1 = (if \<not> candidate then t\<lparr>tr_completed := None, tr_coordinate := None\<rparr> else t)"
  have i1: "transcript_inv t1" using i by (simp add: t1_def transcript_inv_def)
  define same where "same = (candidate \<and> strip item \<noteq> [] \<and>
    (case tr_coordinate t of None \<Rightarrow> False | Some c \<Rightarrow> rc_item c = strip item \<and> rc_raw c = s))"
  have shape: "reconcile_assistant_text s candidate item t =
     (if same then (t, Inr True)
      else if strip s = []
        then ((if candidate then t1\<lparr>tr_completed := Some []\<rparr> else t1)\<lparr>tr_coordinate := None, tr_active_reply := None\<rparr>, Inr True)
        else let t2 = settle_segment s t1
          in if \<not> candidate then (t2, Inr True)
             else let t3 = t2\<lparr>tr_completed := Some s, tr_error := None\<rparr>; hi = reply_chars t3
               in (case make_coordinate (strip item) s (hi - int (length s)) hi of
                     Inl x \<Rightarrow> (t3, Inl x)
                   | Inr c \<Rightarrow> (t3\<lparr>tr_coordinate := Some c\<rparr>, Inr True)))"
    by (simp add: reconcile_assistant_text_def t1_def same_def settle_segment_def Let_def)
  show ?thesis
  proof (cases "same \<or> strip s = []")
    case True
    then show ?thesis using i i1 by (auto simp: shape transcript_inv_def)
  next
    case False
    then have s: "s \<noteq> []" "strip s \<noteq> []" by auto
    note k = settle_segment_ok [OF i1 s(1)]
    obtain xs where xs: "tr_segments (settle_segment s t1) = xs @ [Assistant s]" using k(1) by blast
    let ?t = "(settle_segment s t1)\<lparr>tr_completed := Some s, tr_error := None\<rparr>"
    have m: "make_coordinate (strip item) s (reply_chars ?t - int (length s)) (reply_chars ?t)
        = Inr \<lparr>rc_item = strip item, rc_raw = s, rc_start = reply_chars ?t - int (length s), rc_end = reply_chars ?t\<rparr>"
      using xs s(1) by (intro coordinate_made) simp_all
    have nc: "\<not> candidate \<Longrightarrow> tr_coordinate (settle_segment s t1) = None"
      by (auto simp: settle_segment_def open_segment_def t1_def split: option.split)
    have c: "coordinate_ok (?t\<lparr>tr_coordinate := Some c\<rparr>) c"
      if "c = \<lparr>rc_item = strip item, rc_raw = s, rc_start = reply_chars ?t - int (length s), rc_end = reply_chars ?t\<rparr>" for c
      using that xs s k by (simp add: coordinate_ok_def reply_chars_def)
    have "transcript_inv (?t\<lparr>tr_coordinate := Some c\<rparr>)"
      if "c = \<lparr>rc_item = strip item, rc_raw = s, rc_start = reply_chars ?t - int (length s), rc_end = reply_chars ?t\<rparr>" for c
      using c [OF that] k xs i1 by (auto simp: transcript_inv_def)
    moreover have "\<not> candidate \<Longrightarrow> transcript_inv (settle_segment s t1)"
      using nc k xs i1 by (auto simp: transcript_inv_def)
    ultimately show ?thesis using False m by (auto simp: shape Let_def)
  qed
qed

lemma rebuild_items_tidy:
  "rebuild_items dropped n items (built, saw, work) = (built', saw', work') \<Longrightarrow> tidy built \<Longrightarrow> (saw \<longleftrightarrow> built \<noteq> [])
    \<Longrightarrow> tidy built' \<and> (saw' \<longleftrightarrow> built' \<noteq> [])"
proof (induction items arbitrary: n built saw work)
  case (Cons i items)
  obtain b1 s1 w1 where o: "rebuild_item dropped n i (built, saw, work) = (b1, s1, w1)" by (metis prod_cases3)
  have "tidy b1 \<and> (s1 \<longleftrightarrow> b1 \<noteq> [])"
    using o Cons.prems(2,3) tidy_open [of built _ "saw \<and> work"] strip_nonempty [of "si_text i"]
    by (auto simp: rebuild_item_def Let_def split: if_splits)
  then show ?case using Cons.IH [of "Suc n" b1 s1 w1] Cons.prems(1) o by simp
qed simp

lemma tidy_output: "tidy r \<Longrightarrow> (\<exists>s \<in> set r. is_assistant s \<and> seg_text s \<noteq> []) \<longleftrightarrow> r \<noteq> []"
  unfolding tidy_def by (metis list.set_sel(1) empty_iff list.set(1))

lemma rebuild_inv: "transcript_inv t \<Longrightarrow> transcript_inv (fst (rebuild_reply items fallback dropped t))"
proof -
  assume i: "transcript_inv t"
  obtain b s w where o: "rebuild_items (if dropped then last_text_index items 0 None else None) 0 items ([], False, False) = (b, s, w)"
    by (metis prod_cases3)
  then have b: "tidy b" using rebuild_items_tidy [OF o] by simp
  then have "b \<noteq> [] \<Longrightarrow> transcript_inv (t\<lparr>tr_segments := b, tr_active_reply := None, tr_pending_divider := (s \<and> w),
                   tr_had_output := (\<exists>s \<in> set b. is_assistant s \<and> seg_text s \<noteq> []), tr_coordinate := None\<rparr>)"
    using i tidy_output [OF b] by (simp add: transcript_inv_def)
  then show ?thesis unfolding rebuild_reply_def o by (simp add: i set_reply_inv)
qed

lemma transcript_step_inv: "transcript_inv t \<Longrightarrow> transcript_inv (transcript_step t x)"
  by (cases x) (simp_all add: new_transcript_inv error_inv unavailable_inv set_reply_inv rebuild_inv delta_inv reconcile_ok display_inv
      start_inv process_delta_inv mark_work_inv finish_inv note_inv)

interpretation transcripts: step_system transcript_step new_transcript transcript_inv
  by unfold_locales (simp_all add: new_transcript_inv transcript_step_inv)

section \<open>The completed reply\<close>

lemma walk_skips:
  "offset + int (length (text_of xs)) \<le> lo \<Longrightarrow> lo < hi \<Longrightarrow>
    walk_segments (xs @ ys) lo hi offset False [] = walk_segments ys lo hi (offset + int (length (text_of xs))) False []"
proof (induction xs arbitrary: offset)
  case (Cons x xs)
  then show ?case by (cases x) (simp_all add: render_overlap_def Let_def add.assoc)
qed simp

lemma last_segment_alone:
  assumes "segs = xs @ [Assistant s]" and "s \<noteq> []" and "hi = int (length (text_of segs))"
  shows "segments_between segs (hi - int (length s)) hi = Inr [Assistant s]"
proof -
  let ?n = "int (length (text_of xs))"
  have "walk_segments segs (hi - int (length s)) hi 0 False [] = walk_segments [Assistant s] ?n hi ?n False []"
    using assms walk_skips [of 0 xs ?n hi "[Assistant s]"] by simp
  also have "\<dots> = (hi, [Assistant s])" using assms by (simp add: render_overlap_def Let_def)
  finally show ?thesis using assms by (simp add: segments_between_def)
qed

lemma completed_interval:
  assumes "transcript_inv t" and "tr_coordinate t = Some c"
  shows "terminal_agent_reply_interval t (rc_raw c) = (Some (rc_start c, rc_end c), Matched)"
    and "reply_segments_between t (rc_start c) (rc_end c) = Inr [Assistant (rc_raw c)]"
    and "terminal_reply_evidence t = Some (AgentReply (rc_raw c))"
proof -
  have k: "coordinate_ok t c" using assms by (simp add: transcript_inv_def)
  then obtain xs where xs: "tr_segments t = xs @ [Assistant (rc_raw c)]"
    by (metis append_butlast_last_id coordinate_ok_def)
  have n: "rc_raw c \<noteq> []" using k by (auto simp: coordinate_ok_def)
  show "terminal_agent_reply_interval t (rc_raw c) = (Some (rc_start c, rc_end c), Matched)"
    using k n by (simp add: terminal_agent_reply_interval_def assms(2) trailing_reply_interval_def xs coordinate_ok_def)
  show "reply_segments_between t (rc_start c) (rc_end c) = Inr [Assistant (rc_raw c)]"
    using last_segment_alone [OF xs n] k by (simp add: reply_segments_between_def coordinate_ok_def reply_chars_text)
  show "terminal_reply_evidence t = Some (AgentReply (rc_raw c))"
    using k by (simp add: terminal_reply_evidence_def coordinate_ok_def)
qed

text \<open>After marked work there is no agent evidence until a candidate completes.\<close>

definition no_candidate :: "transcript \<Rightarrow> bool" where
  "no_candidate t = (tr_completed t = None \<and> tr_coordinate t = None)"

fun completes_candidate :: "transcript_op \<Rightarrow> bool" where
  "completes_candidate (ReconcileText s candidate item) = candidate"
| "completes_candidate x = False"

fun marks_work :: "transcript_op \<Rightarrow> bool" where
  "marks_work (StartProcess s w) = w"
| "marks_work MarkWork = True"
| "marks_work (FinishProcess s w) = w"
| "marks_work (ProcessNote s w) = w"
| "marks_work x = False"

lemmas evidence_defs = record_terminal_error_def record_unavailable_completion_def set_reply_text_def open_segment_def
  append_assistant_delta_def append_display_only_def forget_candidate_def owe_divider_def start_process_block_def
  append_process_delta_def mark_process_work_def finish_process_block_def append_process_note_def new_transcript_def Let_def

lemma reconcile_no_candidate:
  "no_candidate t \<Longrightarrow> no_candidate (fst (reconcile_assistant_text s False item t))"
  by (auto simp: no_candidate_def reconcile_assistant_text_def open_segment_def Let_def split: option.split)

lemma rebuild_no_candidate: "no_candidate t \<Longrightarrow> no_candidate (fst (rebuild_reply items fallback dropped t))"
  by (auto simp: no_candidate_def rebuild_reply_def set_reply_text_def split: prod.split)

lemma no_candidate_step: "no_candidate t \<Longrightarrow> \<not> completes_candidate x \<Longrightarrow> no_candidate (transcript_step t x)"
proof (cases x)
  case (ReconcileText s candidate item)
  then show "no_candidate t \<Longrightarrow> \<not> completes_candidate x \<Longrightarrow> ?thesis" by (simp add: reconcile_no_candidate)
next
  case (RebuildReply items fallback dropped)
  then show "no_candidate t \<Longrightarrow> \<not> completes_candidate x \<Longrightarrow> ?thesis" by (simp add: rebuild_no_candidate)
qed (auto simp: no_candidate_def evidence_defs split: option.split)

lemma work_no_candidate: "marks_work x \<Longrightarrow> no_candidate (transcript_step t x)"
  by (cases x) (auto simp: no_candidate_def evidence_defs split: option.split)

interpretation work_done: standing_fact transcript_step new_transcript transcript_inv no_candidate "\<lambda>x. \<not> completes_candidate x"
  by unfold_locales (rule no_candidate_step)

end
