(* ===== verification/Execution_Pages.thy ===== *)
theory Execution_Pages
  imports Execution_Transcript
begin

text \<open>
  The cards on which a running execution is shown (\<open>bot/execution_pages.py\<close>): an immutable ledger of
  pages, each a range of the transcript. A page is compared with \<open>is\<close>, so it has an address; a
  transition creates its new pages at the addresses from its argument \<open>a\<close> on. The checks of the
  constructors (\<open>__post_init__\<close>) run on every new page and ledger; \<open>replace\<close> keeps the identity
  token, which nothing compares.
\<close>

section \<open>Cursors\<close>

record page_cursor =
  cu_process :: int
  cu_reply :: int

datatype page_exn =
    CursorInvalid | TextEmpty | PageInvalid | LedgerInvalid
  | NotEmptyLedger | NoActivePage | RolloverStuck | OpeningStale | RolloverStale | UnknownStale
  | MessageReplaced | AlreadyAttempted | UnresolvedPage | PendingRollover | BeforeActive | TranscriptRegressed
  | ReceiptDuplicate | ReceiptGap | IntervalInvalid

definition make_cursor :: "int \<Rightarrow> int \<Rightarrow> page_exn + page_cursor" where
  "make_cursor p r = (if p < 0 \<or> r < 0 then Inl CursorInvalid else Inr \<lparr>cu_process = p, cu_reply = r\<rparr>)"

definition zero_cursor :: page_cursor where
  "zero_cursor = \<lparr>cu_process = 0, cu_reply = 0\<rparr>"

definition transcript_end :: "transcript \<Rightarrow> page_cursor" where
  "transcript_end t = \<lparr>cu_process = int (length (process_text t)), cu_reply = reply_chars t\<rparr>"

definition follows :: "page_cursor \<Rightarrow> page_cursor \<Rightarrow> bool" where
  "follows c d = (cu_process d \<le> cu_process c \<and> cu_reply d \<le> cu_reply c)"

definition strictly_follows :: "page_cursor \<Rightarrow> page_cursor \<Rightarrow> bool" where
  "strictly_follows c d = (follows c d \<and> c \<noteq> d)"

definition require_text :: "string \<Rightarrow> bool \<Rightarrow> page_exn + string" where
  "require_text s allow_empty = (if strip s = [] \<and> \<not> allow_empty then Inl TextEmpty else Inr (strip s))"

section \<open>Confirmed receipts\<close>

record page_receipt =
  rp_message :: string
  rp_start :: page_cursor
  rp_end :: page_cursor

definition make_receipt :: "string \<Rightarrow> page_cursor \<Rightarrow> page_cursor \<Rightarrow> page_exn + page_receipt" where
  "make_receipt m a b =
     bindr (require_text m False) (\<lambda>m. if \<not> follows b a then Inl PageInvalid else Inr \<lparr>rp_message = m, rp_start = a, rp_end = b\<rparr>)"

fun scan_receipts :: "page_receipt list \<Rightarrow> string list \<Rightarrow> page_cursor option \<Rightarrow> page_exn + unit" where
  "scan_receipts [] seen prev = Inr ()"
| "scan_receipts (r # rest) seen prev =
     (if rp_message r \<in> set seen then Inl ReceiptDuplicate
      else if (case prev of None \<Rightarrow> False | Some c \<Rightarrow> rp_start r \<noteq> c) then Inl ReceiptGap
      else scan_receipts rest (rp_message r # seen) (Some (rp_end r)))"

definition require_receipts :: "page_receipt list \<Rightarrow> page_exn + page_receipt list" where
  "require_receipts rs = bindr (scan_receipts rs [] None) (\<lambda>_. Inr rs)"

definition meets :: "int \<Rightarrow> int \<Rightarrow> page_receipt \<Rightarrow> bool" where
  "meets lo hi r = (lo < cu_reply (rp_end r) \<and> cu_reply (rp_start r) < hi)"

fun cover_until :: "page_receipt list \<Rightarrow> int \<Rightarrow> int \<Rightarrow> int" where
  "cover_until [] hi covered = covered"
| "cover_until (r # rest) hi covered =
     (if covered < cu_reply (rp_start r) then covered
      else let c = max covered (cu_reply (rp_end r)) in if hi \<le> c then c else cover_until rest hi c)"

definition terminal_reply_coverage :: "page_receipt list \<Rightarrow> int \<Rightarrow> int \<Rightarrow> page_exn + page_receipt list \<times> bool" where
  "terminal_reply_coverage rs lo hi =
     bindr (require_receipts rs) (\<lambda>rs.
       if lo < 0 \<or> hi \<le> lo then Inl IntervalInvalid
       else let m = filter (meets lo hi) rs in Inr (m, hi \<le> cover_until m hi lo))"

section \<open>Pages and ledgers\<close>

datatype page_status = Opening | ActivePage | Sealed | SendUnknown

record page =
  pg_generation :: int
  pg_attempt :: string
  pg_message :: string
  pg_start :: page_cursor
  pg_end :: "page_cursor option"
  pg_status :: page_status
  pg_reconciled :: bool
  pg_addr :: nat

definition make_page :: "page \<Rightarrow> page_exn + page" where
  "make_page p =
     (if pg_generation p < 1 then Inl PageInvalid
      else bindr (require_text (pg_attempt p) False) (\<lambda>attempt.
           bindr (require_text (pg_message p) True) (\<lambda>message.
             let q = p\<lparr>pg_attempt := attempt, pg_message := message\<rparr>
             in if pg_reconciled q \<and> pg_status q \<noteq> SendUnknown then Inl PageInvalid
                else if pg_status q = Sealed
                then (if message = [] then Inl PageInvalid
                      else case pg_end q of
                        None \<Rightarrow> Inl PageInvalid
                      | Some c \<Rightarrow> if \<not> follows c (pg_start q) then Inl PageInvalid else Inr q)
                else if pg_end q \<noteq> None then Inl PageInvalid
                else if pg_status q = ActivePage \<and> message = [] then Inl PageInvalid
                else Inr q)))"

type_synonym ledger = "page list"

text \<open>The loop of the ledger's constructor: the cursor expected next and the live pages, latest last.\<close>

fun scan_pages :: "page list \<Rightarrow> int \<Rightarrow> page_cursor \<Rightarrow> string list \<Rightarrow> string list \<Rightarrow> page list \<Rightarrow> page_exn + page_cursor \<times> page list" where
  "scan_pages [] i expected attempts messages live = Inr (expected, live)"
| "scan_pages (p # rest) i expected attempts messages live =
     (if pg_generation p \<noteq> i \<or> pg_attempt p \<in> set attempts \<or> pg_message p \<noteq> [] \<and> pg_message p \<in> set messages then Inl LedgerInvalid
      else let ms = (if pg_message p \<noteq> [] then pg_message p # messages else messages)
        in if pg_status p = Sealed
           then (if live \<noteq> [] \<or> pg_start p \<noteq> expected then Inl LedgerInvalid
                 else case pg_end p of
                   None \<Rightarrow> Inl LedgerInvalid
                 | Some c \<Rightarrow> scan_pages rest (i + 1) c (pg_attempt p # attempts) ms live)
           else scan_pages rest (i + 1) expected (pg_attempt p # attempts) ms (live @ [p]))"

definition allowed_live :: "page_status list set" where
  "allowed_live = {[Opening], [ActivePage], [SendUnknown], [ActivePage, Opening], [ActivePage, SendUnknown]}"

definition make_ledger :: "page list \<Rightarrow> page_exn + ledger" where
  "make_ledger ps =
     bindr (scan_pages ps 1 zero_cursor [] [] []) (\<lambda>(expected, live).
       if live \<noteq> [] \<and> map pg_status live \<notin> allowed_live then Inl LedgerInvalid
       else if live \<noteq> [] \<and> pg_start (hd live) \<noteq> expected then Inl LedgerInvalid
       else if length live = 2 \<and> \<not> strictly_follows (pg_start (live ! 1)) (pg_start (live ! 0)) then Inl LedgerInvalid
       else Inr ps)"

definition empty_ledger :: ledger where
  "empty_ledger = []"

definition current_page :: "ledger \<Rightarrow> page option" where
  "current_page l = (if l = [] then None else if pg_status (last l) = Sealed then None else Some (last l))"

fun first_live :: "page list \<Rightarrow> page option" where
  "first_live [] = None"
| "first_live (p # rest) =
     (if pg_status p = ActivePage then Some p else if pg_status p = Sealed then None else first_live rest)"

definition active_page :: "ledger \<Rightarrow> page option" where
  "active_page l = first_live (rev l)"

definition pending_page :: "ledger \<Rightarrow> page option" where
  "pending_page l =
     (case current_page l of
        None \<Rightarrow> None
      | Some p \<Rightarrow> if pg_status p = Opening \<or> pg_status p = SendUnknown then Some p else None)"

definition current_message_id :: "ledger \<Rightarrow> string" where
  "current_message_id l = (case active_page l of Some p \<Rightarrow> pg_message p | None \<Rightarrow> [])"

definition last_message_id :: "ledger \<Rightarrow> string" where
  "last_message_id l = (case find (\<lambda>p. pg_status p = Sealed) (rev l) of Some p \<Rightarrow> pg_message p | None \<Rightarrow> [])"

definition effective_message_id :: "ledger \<Rightarrow> string" where
  "effective_message_id l = (if current_message_id l \<noteq> [] then current_message_id l else last_message_id l)"

definition has_execution_anchor :: "ledger \<Rightarrow> bool" where
  "has_execution_anchor l = (current_page l \<noteq> None)"

definition has_unresolved_send :: "ledger \<Rightarrow> bool" where
  "has_unresolved_send l = (pending_page l \<noteq> None)"

definition send_outcome_unknown :: "ledger \<Rightarrow> bool" where
  "send_outcome_unknown l = (case pending_page l of None \<Rightarrow> False | Some p \<Rightarrow> pg_status p = SendUnknown)"

definition active_projection_end :: "ledger \<Rightarrow> transcript \<Rightarrow> page_exn + page_cursor option" where
  "active_projection_end l t =
     (case active_page l of
        None \<Rightarrow> Inr None
      | Some p \<Rightarrow>
          (let c = (case pending_page l of Some q \<Rightarrow> pg_start q | None \<Rightarrow> transcript_end t)
           in if \<not> follows c (pg_start p) then Inl TranscriptRegressed else Inr (Some c)))"

definition page_for_message_id :: "ledger \<Rightarrow> string \<Rightarrow> page_exn + page option" where
  "page_for_message_id l m = bindr (require_text m False) (\<lambda>m. Inr (find (\<lambda>p. pg_message p = m) (rev l)))"

section \<open>Transitions\<close>

definition with_page :: "page list \<Rightarrow> page \<Rightarrow> page_exn + ledger" where
  "with_page ps p = bindr (make_page p) (\<lambda>p. make_ledger (ps @ [p]))"

definition prepare_initial :: "string \<Rightarrow> string \<Rightarrow> nat \<Rightarrow> ledger \<Rightarrow> page_exn + ledger" where
  "prepare_initial attempt known a l =
     (if l \<noteq> [] then Inl NotEmptyLedger
      else with_page [] \<lparr>pg_generation = 1, pg_attempt = attempt, pg_message = known, pg_start = zero_cursor, pg_end = None,
             pg_status = Opening, pg_reconciled = False, pg_addr = a\<rparr>)"

definition require_initial_opening :: "page \<Rightarrow> ledger \<Rightarrow> page_exn + page" where
  "require_initial_opening p l =
     (if current_page l \<noteq> Some p \<or> pg_status p \<noteq> Opening \<or> active_page l \<noteq> None then Inl OpeningStale else Inr p)"

definition require_rollover_opening :: "page \<Rightarrow> page \<Rightarrow> ledger \<Rightarrow> page_exn + page \<times> page" where
  "require_rollover_opening active opening l =
     (if length l < 2 then Inl RolloverStale
      else let x = l ! (length l - 2); y = l ! (length l - 1)
        in if x \<noteq> active \<or> pg_status x \<noteq> ActivePage \<or> y \<noteq> opening \<or> pg_status y \<noteq> Opening then Inl RolloverStale
           else Inr (x, y))"

definition require_send_unknown :: "page \<Rightarrow> ledger \<Rightarrow> page_exn + page option \<times> page" where
  "require_send_unknown p l =
     (if pending_page l \<noteq> Some p \<or> pg_status p \<noteq> SendUnknown then Inl UnknownStale else Inr (active_page l, p))"

definition activate_opening :: "page \<Rightarrow> string \<Rightarrow> nat \<Rightarrow> ledger \<Rightarrow> page_exn + ledger" where
  "activate_opening expected message a l =
     bindr (require_initial_opening expected l) (\<lambda>p.
     bindr (require_text message False) (\<lambda>m.
       with_page (butlast l) (p\<lparr>pg_message := m, pg_status := ActivePage, pg_addr := a\<rparr>)))"

definition mark_send_unknown :: "page \<Rightarrow> nat \<Rightarrow> ledger \<Rightarrow> page_exn + ledger" where
  "mark_send_unknown expected a l =
     bindr (require_initial_opening expected l) (\<lambda>p. with_page (butlast l) (p\<lparr>pg_status := SendUnknown, pg_addr := a\<rparr>))"

definition discard_opening :: "page \<Rightarrow> ledger \<Rightarrow> page_exn + ledger" where
  "discard_opening expected l = bindr (require_initial_opening expected l) (\<lambda>_. make_ledger (butlast l))"

definition prepare_rollover :: "string \<Rightarrow> page_cursor \<Rightarrow> nat \<Rightarrow> ledger \<Rightarrow> page_exn + ledger" where
  "prepare_rollover attempt c a l =
     (case active_page l of
        None \<Rightarrow> Inl NoActivePage
      | Some p \<Rightarrow>
          (if pending_page l \<noteq> None then Inl NoActivePage
           else if \<not> strictly_follows c (pg_start p) then Inl RolloverStuck
           else with_page l \<lparr>pg_generation = int (length l) + 1, pg_attempt = attempt, pg_message = [], pg_start = c, pg_end = None,
                  pg_status = Opening, pg_reconciled = False, pg_addr = a\<rparr>))"

definition activate_rollover :: "page \<Rightarrow> page \<Rightarrow> string \<Rightarrow> nat \<Rightarrow> ledger \<Rightarrow> page_exn + ledger" where
  "activate_rollover expected_active expected_opening message a l =
     bindr (require_rollover_opening expected_active expected_opening l) (\<lambda>(active, opening).
     bindr (make_page (active\<lparr>pg_end := Some (pg_start opening), pg_status := Sealed, pg_addr := a\<rparr>)) (\<lambda>q.
     bindr (require_text message False) (\<lambda>m.
       with_page (butlast (butlast l) @ [q]) (opening\<lparr>pg_message := m, pg_status := ActivePage, pg_addr := a + 1\<rparr>))))"

definition mark_rollover_send_unknown :: "page \<Rightarrow> page \<Rightarrow> nat \<Rightarrow> ledger \<Rightarrow> page_exn + ledger" where
  "mark_rollover_send_unknown expected_active expected_opening a l =
     bindr (require_rollover_opening expected_active expected_opening l) (\<lambda>(_, opening).
       with_page (butlast l) (opening\<lparr>pg_status := SendUnknown, pg_addr := a\<rparr>))"

definition discard_rollover_opening :: "page \<Rightarrow> page \<Rightarrow> ledger \<Rightarrow> page_exn + ledger" where
  "discard_rollover_opening expected_active expected_opening l =
     bindr (require_rollover_opening expected_active expected_opening l) (\<lambda>_. make_ledger (butlast l))"

definition confirm_send_unknown :: "page \<Rightarrow> string \<Rightarrow> nat \<Rightarrow> ledger \<Rightarrow> page_exn + ledger" where
  "confirm_send_unknown expected message a l =
     bindr (require_send_unknown expected l) (\<lambda>(active, pending).
     bindr (require_text message False) (\<lambda>m.
       if pg_message pending \<noteq> [] \<and> pg_message pending \<noteq> m then Inl MessageReplaced
       else bindr (make_page (pending\<lparr>pg_message := m, pg_status := ActivePage, pg_reconciled := False, pg_addr := a\<rparr>)) (\<lambda>p.
         case active of
           None \<Rightarrow> make_ledger (butlast l @ [p])
         | Some x \<Rightarrow>
             bindr (make_page (x\<lparr>pg_end := Some (pg_start pending), pg_status := Sealed, pg_addr := a + 1\<rparr>)) (\<lambda>q.
               make_ledger (butlast (butlast l) @ [q, p])))))"

definition reject_send_unknown :: "page \<Rightarrow> ledger \<Rightarrow> page_exn + ledger" where
  "reject_send_unknown expected l = bindr (require_send_unknown expected l) (\<lambda>_. make_ledger (butlast l))"

definition retain_send_unknown :: "page \<Rightarrow> nat \<Rightarrow> ledger \<Rightarrow> page_exn + ledger" where
  "retain_send_unknown expected a l =
     bindr (require_send_unknown expected l) (\<lambda>(_, pending).
       if pg_reconciled pending then Inl AlreadyAttempted
       else with_page (butlast l) (pending\<lparr>pg_reconciled := True, pg_addr := a\<rparr>))"

definition seal_active :: "page_cursor \<Rightarrow> nat \<Rightarrow> ledger \<Rightarrow> page_exn + ledger" where
  "seal_active c a l =
     (case active_page l of
        None \<Rightarrow> if current_page l \<noteq> None then Inl UnresolvedPage else Inr l
      | Some p \<Rightarrow>
          (if pending_page l \<noteq> None then Inl PendingRollover
           else with_page (butlast l) (p\<lparr>pg_end := Some c, pg_status := Sealed, pg_addr := a\<rparr>)))"

definition drop_pending :: "page list \<Rightarrow> page list" where
  "drop_pending l = (if l \<noteq> [] \<and> (pg_status (last l) = Opening \<or> pg_status (last l) = SendUnknown) then butlast l else l)"

definition retire_pages :: "page_cursor \<Rightarrow> nat \<Rightarrow> ledger \<Rightarrow> page_exn + ledger" where
  "retire_pages c a l =
     (let ps = drop_pending l
      in if ps \<noteq> [] \<and> pg_status (last ps) = ActivePage
         then (if \<not> follows c (pg_start (last ps)) then Inl BeforeActive
               else with_page (butlast ps) ((last ps)\<lparr>pg_end := Some c, pg_status := Sealed, pg_addr := a\<rparr>))
         else make_ledger ps)"

definition clear_known_pages :: "ledger \<Rightarrow> page_exn + ledger" where
  "clear_known_pages l =
     (case current_page l of
        Some p \<Rightarrow> if pg_status p = Opening \<or> pg_status p = SendUnknown then Inl UnresolvedPage else Inr empty_ledger
      | None \<Rightarrow> Inr empty_ledger)"

section \<open>Sequences of transitions\<close>

datatype page_op =
    PrepareInitial string string
  | ActivateOpening page string
  | MarkUnknown page
  | DiscardOpening page
  | PrepareRollover string page_cursor
  | ActivateRollover page page string
  | MarkRolloverUnknown page page
  | DiscardRollover page page
  | ConfirmUnknown page string
  | RejectUnknown page
  | RetainUnknown page
  | SealActive page_cursor
  | RetirePages page_cursor
  | ClearPages

fun page_transition :: "page_op \<Rightarrow> nat \<Rightarrow> ledger \<Rightarrow> page_exn + ledger" where
  "page_transition (PrepareInitial attempt known) a l = prepare_initial attempt known a l"
| "page_transition (ActivateOpening p m) a l = activate_opening p m a l"
| "page_transition (MarkUnknown p) a l = mark_send_unknown p a l"
| "page_transition (DiscardOpening p) a l = discard_opening p l"
| "page_transition (PrepareRollover attempt c) a l = prepare_rollover attempt c a l"
| "page_transition (ActivateRollover p q m) a l = activate_rollover p q m a l"
| "page_transition (MarkRolloverUnknown p q) a l = mark_rollover_send_unknown p q a l"
| "page_transition (DiscardRollover p q) a l = discard_rollover_opening p q l"
| "page_transition (ConfirmUnknown p m) a l = confirm_send_unknown p m a l"
| "page_transition (RejectUnknown p) a l = reject_send_unknown p l"
| "page_transition (RetainUnknown p) a l = retain_send_unknown p a l"
| "page_transition (SealActive c) a l = seal_active c a l"
| "page_transition (RetirePages c) a l = retire_pages c a l"
| "page_transition ClearPages a l = clear_known_pages l"

text \<open>The owner keeps the ledger a transition returns, and the old one when it raises.\<close>

record page_state =
  ps_ledger :: ledger
  ps_next_addr :: nat

definition new_page_state :: page_state where
  "new_page_state = \<lparr>ps_ledger = empty_ledger, ps_next_addr = 0\<rparr>"

definition page_step :: "page_state \<Rightarrow> page_op \<Rightarrow> page_state" where
  "page_step s x =
     (case page_transition x (ps_next_addr s) (ps_ledger s) of
        Inl _ \<Rightarrow> s\<lparr>ps_next_addr := ps_next_addr s + 2\<rparr>
      | Inr l \<Rightarrow> \<lparr>ps_ledger = l, ps_next_addr = ps_next_addr s + 2\<rparr>)"

end
