(* ===== verification/Execution_Page_Facts.thy ===== *)
theory Execution_Page_Facts
  imports Execution_Pages
begin

text \<open>
  Lemmas on the page ledger: what the two constructors accept (\<open>page_wf\<close>, \<open>ledger_wf\<close>: a contiguous
  chain of sealed pages and a live suffix), that every transition but the clearing keeps the sealed pages and
  rewrites only the live suffix, and what an unresolved send blocks.
\<close>

section \<open>Well-formed pages and ledgers\<close>

definition page_wf :: "page \<Rightarrow> bool" where
  "page_wf p =
     (1 \<le> pg_generation p \<and> strip (pg_attempt p) = pg_attempt p \<and> pg_attempt p \<noteq> [] \<and> strip (pg_message p) = pg_message p
      \<and> (pg_reconciled p \<longrightarrow> pg_status p = SendUnknown)
      \<and> (if pg_status p = Sealed then pg_message p \<noteq> [] \<and> (\<exists>c. pg_end p = Some c \<and> follows c (pg_start p)) else pg_end p = None)
      \<and> (pg_status p = ActivePage \<longrightarrow> pg_message p \<noteq> []))"

lemma require_text_iff: "require_text s e = Inr r \<longleftrightarrow> r = strip s \<and> (strip s \<noteq> [] \<or> e)"
  by (auto simp: require_text_def)

lemma make_page_iff:
  "make_page p = Inr q \<longleftrightarrow> q = p\<lparr>pg_attempt := strip (pg_attempt p), pg_message := strip (pg_message p)\<rparr> \<and> page_wf q"
proof -
  let ?q = "p\<lparr>pg_attempt := strip (pg_attempt p), pg_message := strip (pg_message p)\<rparr>"
  have "make_page p = Inr q \<longleftrightarrow> page_wf ?q \<and> q = ?q"
    unfolding make_page_def page_wf_def Let_def
    by (cases "pg_end p"; cases "pg_status p"; cases "strip (pg_attempt p) = []"; cases "strip (pg_message p) = []")
      (auto simp: require_text_def bindr_def)
  then show ?thesis by auto
qed

lemma make_page_fix: "page_wf p \<Longrightarrow> make_page p = Inr p"
  by (simp add: make_page_iff page_wf_def)

text \<open>The ids of a ledger: contiguous generations, no attempt and no message twice.\<close>

fun ids_from :: "page list \<Rightarrow> int \<Rightarrow> string set \<Rightarrow> string set \<Rightarrow> bool" where
  "ids_from [] i attempts messages = True"
| "ids_from (p # rest) i attempts messages =
     (pg_generation p = i \<and> pg_attempt p \<notin> attempts \<and> (pg_message p \<noteq> [] \<longrightarrow> pg_message p \<notin> messages)
      \<and> ids_from rest (i + 1) (insert (pg_attempt p) attempts) (if pg_message p \<noteq> [] then insert (pg_message p) messages else messages))"

definition attempts_of :: "page list \<Rightarrow> string set" where
  "attempts_of l = pg_attempt ` set l"

definition messages_of :: "page list \<Rightarrow> string set" where
  "messages_of l = pg_message ` set l - {[]}"

lemma ids_snoc:
  "ids_from (xs @ [p]) i A M \<longleftrightarrow>
    ids_from xs i A M \<and> pg_generation p = i + int (length xs) \<and> pg_attempt p \<notin> A \<union> attempts_of xs
      \<and> (pg_message p \<noteq> [] \<longrightarrow> pg_message p \<notin> M \<union> messages_of xs)"
  by (induction xs arbitrary: i A M) (auto simp: attempts_of_def messages_of_def)

definition ids_ok :: "page list \<Rightarrow> bool" where
  "ids_ok l = ids_from l 1 {} {}"

lemma ids_ok_snoc:
  "ids_ok (xs @ [p]) \<longleftrightarrow> ids_ok xs \<and> pg_generation p = int (length xs) + 1 \<and> pg_attempt p \<notin> attempts_of xs
      \<and> (pg_message p \<noteq> [] \<longrightarrow> pg_message p \<notin> messages_of xs)"
  by (auto simp: ids_ok_def ids_snoc)

lemma ids_ok_Nil [simp]: "ids_ok []"
  by (simp add: ids_ok_def)

lemma of_snoc [simp]:
  "attempts_of (xs @ [p]) = insert (pg_attempt p) (attempts_of xs)"
  "messages_of (xs @ [p]) = (if pg_message p \<noteq> [] then insert (pg_message p) (messages_of xs) else messages_of xs)"
  by (auto simp: attempts_of_def messages_of_def)

text \<open>The ranges: a chain of sealed pages, and a live suffix that starts where it ends.\<close>

fun sealed_chain :: "page_cursor \<Rightarrow> page list \<Rightarrow> page_cursor \<Rightarrow> bool" where
  "sealed_chain c [] e = (c = e)"
| "sealed_chain c (p # rest) e =
     (pg_status p = Sealed \<and> pg_start p = c \<and> (case pg_end p of None \<Rightarrow> False | Some d \<Rightarrow> sealed_chain d rest e))"

fun live_ok :: "page_cursor \<Rightarrow> page list \<Rightarrow> bool" where
  "live_ok e [] = True"
| "live_ok e [p] = (pg_status p \<noteq> Sealed \<and> pg_start p = e)"
| "live_ok e [p, q] =
     (pg_status p = ActivePage \<and> (pg_status q = Opening \<or> pg_status q = SendUnknown) \<and> pg_start p = e
      \<and> strictly_follows (pg_start q) (pg_start p))"
| "live_ok e (p # q # r # rest) = False"

lemma chain_append:
  "sealed_chain c (xs @ ys) e \<longleftrightarrow> (\<exists>d. sealed_chain c xs d \<and> sealed_chain d ys e)"
  by (induction xs arbitrary: c) (auto split: option.splits)

lemma chain_sealed: "sealed_chain c ss e \<Longrightarrow> p \<in> set ss \<Longrightarrow> pg_status p = Sealed"
  by (induction ss arbitrary: c) (auto split: option.splits)

lemma scan_live:
  "live \<noteq> [] \<Longrightarrow> scan_pages ps i c att ms live = Inr (e, live') \<longleftrightarrow>
    ids_from ps i (set att) (set ms) \<and> (\<forall>p \<in> set ps. pg_status p \<noteq> Sealed) \<and> e = c \<and> live' = live @ ps"
  by (induction ps arbitrary: i att ms live) (auto simp: Let_def)

lemma scan_iff:
  "scan_pages ps i c att ms [] = Inr (e, live) \<longleftrightarrow>
    ids_from ps i (set att) (set ms) \<and> (\<exists>ss. ps = ss @ live \<and> sealed_chain c ss e \<and> (\<forall>p \<in> set live. pg_status p \<noteq> Sealed))"
proof (induction ps arbitrary: i c att ms)
  case Nil
  then show ?case by auto
next
  case (Cons p ps)
  show ?case
  proof (cases "pg_status p = Sealed")
    case True
    have "(\<exists>ss. p # ps = ss @ live \<and> sealed_chain c ss e \<and> (\<forall>q \<in> set live. pg_status q \<noteq> Sealed)) \<longleftrightarrow>
      pg_start p = c \<and> (\<exists>d ss. pg_end p = Some d \<and> ps = ss @ live \<and> sealed_chain d ss e \<and> (\<forall>q \<in> set live. pg_status q \<noteq> Sealed))"
      using True by (auto simp: Cons_eq_append_conv split: option.splits)
    then show ?thesis using Cons.IH True by (auto simp: Let_def split: option.splits)
  next
    case False
    have "(\<exists>ss. p # ps = ss @ live \<and> sealed_chain c ss e \<and> (\<forall>q \<in> set live. pg_status q \<noteq> Sealed)) \<longleftrightarrow>
      live = p # ps \<and> e = c \<and> (\<forall>q \<in> set ps. pg_status q \<noteq> Sealed)"
      using False by (auto simp: Cons_eq_append_conv)
    then show ?thesis using False by (auto simp: Let_def scan_live)
  qed
qed

lemma allowed_iff:
  "(live = [] \<or> map pg_status live \<in> allowed_live \<and> pg_start (hd live) = e
      \<and> \<not> (length live = 2 \<and> \<not> strictly_follows (pg_start (live ! 1)) (pg_start (live ! 0)))) \<longleftrightarrow> live_ok e live"
proof -
  have "pg_status p = Opening \<or> pg_status p = ActivePage \<or> pg_status p = SendUnknown \<longleftrightarrow> pg_status p \<noteq> Sealed" for p
    by (cases "pg_status p") auto
  then show ?thesis
    by (cases "(e, live)" rule: live_ok.cases) (auto simp: allowed_live_def)
qed

lemma live_unsealed: "live_ok e live \<Longrightarrow> p \<in> set live \<Longrightarrow> pg_status p \<noteq> Sealed"
  by (cases "(e, live)" rule: live_ok.cases) auto

definition ledger_wf :: "ledger \<Rightarrow> bool" where
  "ledger_wf l =
     ((\<forall>p \<in> set l. page_wf p) \<and> ids_ok l
      \<and> (\<exists>ss e live. l = ss @ live \<and> sealed_chain zero_cursor ss e \<and> live_ok e live))"

lemma make_ledger_iff:
  "make_ledger ps = Inr l \<longleftrightarrow>
    l = ps \<and> ids_ok ps \<and> (\<exists>ss e live. ps = ss @ live \<and> sealed_chain zero_cursor ss e \<and> live_ok e live)"
proof -
  have "make_ledger ps = Inr l \<longleftrightarrow> l = ps \<and> (\<exists>e live. scan_pages ps 1 zero_cursor [] [] [] = Inr (e, live) \<and> live_ok e live)"
  proof (cases "scan_pages ps 1 zero_cursor [] [] []")
    case (Inr r)
    obtain e live where r: "r = (e, live)" by fastforce
    show ?thesis using Inr allowed_iff [of live e] by (auto simp: make_ledger_def r)
  qed (simp add: make_ledger_def)
  also have "\<dots> \<longleftrightarrow> l = ps \<and> ids_ok ps \<and> (\<exists>ss e live. ps = ss @ live \<and> sealed_chain zero_cursor ss e \<and> live_ok e live)"
    using live_unsealed by (simp add: scan_iff ids_ok_def) blast
  finally show ?thesis .
qed

lemma make_ledger_wf: "make_ledger ps = Inr l \<Longrightarrow> (\<And>p. p \<in> set ps \<Longrightarrow> page_wf p) \<Longrightarrow> l = ps \<and> ledger_wf l"
  by (auto simp: make_ledger_iff ledger_wf_def)

lemma make_ledger_fix: "ledger_wf l \<Longrightarrow> make_ledger l = Inr l"
  by (simp add: make_ledger_iff ledger_wf_def)

section \<open>What a transition changes\<close>

lemma first_live_sealed: "sealed_chain c ss e \<Longrightarrow> first_live (rev ss) = None"
  by (induction ss arbitrary: e rule: rev_induct) (auto simp: chain_append)

lemma views:
  assumes "sealed_chain c ss e" and "live_ok e live"
  shows "current_page (ss @ live) = (if live = [] then None else Some (last live))"
    and "active_page (ss @ live) = (if live = [] then None else if pg_status (hd live) = ActivePage then Some (hd live) else None)"
    and "pending_page (ss @ live) =
      (if live \<noteq> [] \<and> (pg_status (last live) = Opening \<or> pg_status (last live) = SendUnknown) then Some (last live) else None)"
proof -
  have s: "ss \<noteq> [] \<Longrightarrow> pg_status (last ss) = Sealed" using chain_sealed [OF assms(1)] by simp
  show c: "current_page (ss @ live) = (if live = [] then None else Some (last live))"
    using s live_unsealed [OF assms(2)] by (auto simp: current_page_def)
  show "active_page (ss @ live) = (if live = [] then None else if pg_status (hd live) = ActivePage then Some (hd live) else None)"
    using first_live_sealed [OF assms(1)] assms(2)
    by (cases "(e, live)" rule: live_ok.cases) (auto simp: active_page_def)
  show "pending_page (ss @ live) =
      (if live \<noteq> [] \<and> (pg_status (last live) = Opening \<or> pg_status (last live) = SendUnknown) then Some (last live) else None)"
    by (simp add: pending_page_def c)
qed

lemma with_page_iff:
  "with_page ps p = Inr l \<longleftrightarrow>
    (\<exists>q. q = p\<lparr>pg_attempt := strip (pg_attempt p), pg_message := strip (pg_message p)\<rparr> \<and> page_wf q \<and> l = ps @ [q] \<and> make_ledger l = Inr l)"
  by (auto simp: with_page_def bindr_eq_Inr make_page_iff make_ledger_iff)

definition made_at :: "nat \<Rightarrow> page list \<Rightarrow> page \<Rightarrow> bool" where
  "made_at a l p = (page_wf p \<and> (p \<in> set l \<or> pg_addr p = a \<or> pg_addr p = a + 1))"

lemma live_shape:
  assumes "live_ok e live" and "live \<noteq> []"
  obtains (one) p where "live = [p]" | (two) p q where "live = [p, q]"
  using assms by (cases "(e, live)" rule: live_ok.cases) auto

text \<open>Every transition but the clearing keeps the sealed pages and rewrites the live suffix.\<close>

definition retailed :: "page list \<Rightarrow> page list \<Rightarrow> nat \<Rightarrow> ledger \<Rightarrow> bool" where
  "retailed ss live a l' = (\<exists>rest. l' = ss @ rest \<and> (\<forall>p \<in> set rest. made_at a live p) \<and> make_ledger l' = Inr l')"

lemma retailed_with:
  assumes "with_page (ss @ keep) p = Inr l'" and "\<And>q. q \<in> set keep \<Longrightarrow> made_at a live q" and "pg_addr p = a \<or> pg_addr p = a + 1"
  shows "retailed ss live a l'"
proof -
  obtain q where q: "q = p\<lparr>pg_attempt := strip (pg_attempt p), pg_message := strip (pg_message p)\<rparr>" "page_wf q"
      "l' = (ss @ keep) @ [q]" "make_ledger l' = Inr l'"
    using assms(1) unfolding with_page_iff by blast
  have "made_at a live q" using q(1,2) assms(3) by (auto simp: made_at_def)
  then show ?thesis using q(3,4) assms(2) by (auto simp: retailed_def intro!: exI [of _ "keep @ [q]"])
qed

lemma retailed_made:
  assumes "make_ledger (ss @ rest) = Inr l'" and "\<And>q. q \<in> set rest \<Longrightarrow> made_at a live q"
  shows "retailed ss live a l'"
proof -
  have "l' = ss @ rest" using assms(1) by (simp add: make_ledger_iff)
  then show ?thesis using assms by (auto simp: retailed_def)
qed

lemma old_made: "page_wf p \<Longrightarrow> p \<in> set live \<Longrightarrow> made_at a live p"
  by (simp add: made_at_def)

lemma new_made: "make_page p = Inr q \<Longrightarrow> pg_addr p = a \<or> pg_addr p = a + 1 \<Longrightarrow> made_at a live q"
  by (auto simp: make_page_iff made_at_def)

lemma rollover_pages:
  assumes "require_rollover_opening p q l = Inr r"
  shows "r = (p, q) \<and> 2 \<le> length l \<and> l ! (length l - 2) = p \<and> l ! (length l - 1) = q \<and> pg_status p = ActivePage \<and> pg_status q = Opening"
  using assms by (auto simp: require_rollover_opening_def Let_def split: if_splits)

lemma rollover_live:
  assumes "require_rollover_opening p q (ss @ live) = Inr r" and "sealed_chain c ss e" and "live_ok e live"
  shows "live = [p, q] \<and> r = (p, q)"
proof -
  note k = rollover_pages [OF assms(1)]
  have un: "pg_status p \<noteq> Sealed" "pg_status q \<noteq> Sealed" using k by auto
  have ne: "live \<noteq> []"
  proof
    assume "live = []"
    then have "q \<in> set ss" using k nth_mem [of "length ss - 1" ss] by auto
    then show False using chain_sealed [OF assms(2)] un by blast
  qed
  from assms(3) ne show ?thesis
  proof (cases rule: live_shape)
    case (one x)
    then have "p \<in> set ss" using k nth_mem [of "length ss - 1" ss] by (auto simp: nth_append split: if_splits)
    then show ?thesis using chain_sealed [OF assms(2)] un by blast
  next
    case (two x y)
    then show ?thesis using k by (auto simp: nth_append)
  qed
qed

lemma transition_tail:
  assumes run: "page_transition x a (ss @ live) = Inr l'" and c: "sealed_chain zero_cursor ss e" and ok: "live_ok e live"
    and wf: "\<And>p. p \<in> set live \<Longrightarrow> page_wf p" and ne: "x \<noteq> ClearPages" and whole: "make_ledger (ss @ live) = Inr (ss @ live)"
  shows "retailed ss live a l'"
proof -
  note v = views [OF c ok]
  have bl: "live \<noteq> [] \<Longrightarrow> butlast (ss @ live) = ss @ butlast live" by (simp add: butlast_append)
  have old: "q \<in> set live \<Longrightarrow> made_at a live q" for q using wf old_made by blast
  have oldb: "q \<in> set (butlast live) \<Longrightarrow> made_at a live q" for q using old in_set_butlastD by metis
  have keep: "retailed ss live a (ss @ live)" by (rule retailed_made [OF whole old])
  show ?thesis
  proof (cases x)
    case (PrepareInitial attempt known)
    then have "with_page (ss @ []) \<lparr>pg_generation = 1, pg_attempt = attempt, pg_message = known, pg_start = zero_cursor, pg_end = None,
             pg_status = Opening, pg_reconciled = False, pg_addr = a\<rparr> = Inr l'"
      using run by (auto simp: prepare_initial_def split: if_splits)
    then show ?thesis by (rule retailed_with) simp_all
  next
    case (ActivateOpening p m)
    then have o: "live \<noteq> []" and w: "with_page (butlast (ss @ live)) (p\<lparr>pg_message := strip m, pg_status := ActivePage, pg_addr := a\<rparr>) = Inr l'"
      using run v by (auto simp: activate_opening_def bindr_eq_Inr require_initial_opening_def require_text_iff split: if_splits)
    from w [unfolded bl [OF o]] oldb show ?thesis by (rule retailed_with) simp_all
  next
    case (MarkUnknown p)
    then have o: "live \<noteq> []" and w: "with_page (butlast (ss @ live)) (p\<lparr>pg_status := SendUnknown, pg_addr := a\<rparr>) = Inr l'"
      using run v by (auto simp: mark_send_unknown_def bindr_eq_Inr require_initial_opening_def split: if_splits)
    from w [unfolded bl [OF o]] oldb show ?thesis by (rule retailed_with) simp_all
  next
    case (DiscardOpening p)
    then have o: "live \<noteq> []" and w: "make_ledger (butlast (ss @ live)) = Inr l'"
      using run v by (auto simp: discard_opening_def bindr_eq_Inr require_initial_opening_def split: if_splits)
    from w [unfolded bl [OF o]] oldb show ?thesis by (rule retailed_made)
  next
    case (PrepareRollover attempt d)
    then have "with_page (ss @ live) \<lparr>pg_generation = int (length (ss @ live)) + 1, pg_attempt = attempt, pg_message = [], pg_start = d,
         pg_end = None, pg_status = Opening, pg_reconciled = False, pg_addr = a\<rparr> = Inr l'"
      using run by (auto simp: prepare_rollover_def split: option.splits if_splits)
    then show ?thesis using old by (rule retailed_with) simp_all
  next
    case (ActivateRollover p q m)
    then obtain r where r: "require_rollover_opening p q (ss @ live) = Inr r"
      using run by (auto simp: activate_rollover_def bindr_eq_Inr)
    have l: "live = [p, q]" "r = (p, q)" using rollover_live [OF r c ok] by auto
    obtain u where u: "make_page (p\<lparr>pg_end := Some (pg_start q), pg_status := Sealed, pg_addr := a\<rparr>) = Inr u"
        and w: "with_page (ss @ [u]) (q\<lparr>pg_message := strip m, pg_status := ActivePage, pg_addr := a + 1\<rparr>) = Inr l'"
      using run ActivateRollover l r by (auto simp: activate_rollover_def bindr_eq_Inr require_text_iff butlast_append)
    from w show ?thesis by (rule retailed_with) (use new_made [OF u] in auto)
  next
    case (MarkRolloverUnknown p q)
    then obtain r where r: "require_rollover_opening p q (ss @ live) = Inr r"
      using run by (auto simp: mark_rollover_send_unknown_def bindr_eq_Inr)
    have l: "live = [p, q]" "r = (p, q)" using rollover_live [OF r c ok] by auto
    have w: "with_page (ss @ [p]) (q\<lparr>pg_status := SendUnknown, pg_addr := a\<rparr>) = Inr l'"
      using run MarkRolloverUnknown l r by (auto simp: mark_rollover_send_unknown_def bindr_eq_Inr butlast_append)
    from w show ?thesis by (rule retailed_with) (use old l in auto)
  next
    case (DiscardRollover p q)
    then obtain r where r: "require_rollover_opening p q (ss @ live) = Inr r"
      using run by (auto simp: discard_rollover_opening_def bindr_eq_Inr)
    have l: "live = [p, q]" using rollover_live [OF r c ok] by auto
    have w: "make_ledger (ss @ [p]) = Inr l'"
      using run DiscardRollover l r by (auto simp: discard_rollover_opening_def bindr_eq_Inr butlast_append)
    from w show ?thesis by (rule retailed_made) (use old l in auto)
  next
    case (ConfirmUnknown p m)
    then have o: "live \<noteq> []" "p = last live" "pg_status p = SendUnknown"
      using run v by (auto simp: confirm_send_unknown_def bindr_eq_Inr require_send_unknown_def split: if_splits)
    obtain u where u: "make_page (p\<lparr>pg_message := strip m, pg_status := ActivePage, pg_reconciled := False, pg_addr := a\<rparr>) = Inr u"
        and w: "(case active_page (ss @ live) of None \<Rightarrow> make_ledger (butlast (ss @ live) @ [u])
         | Some y \<Rightarrow> bindr (make_page (y\<lparr>pg_end := Some (pg_start p), pg_status := Sealed, pg_addr := a + 1\<rparr>)) (\<lambda>q.
               make_ledger (butlast (butlast (ss @ live)) @ [q, u]))) = Inr l'"
      using run ConfirmUnknown by (auto simp: confirm_send_unknown_def bindr_eq_Inr require_send_unknown_def require_text_iff split: if_splits)
    from ok o(1) show ?thesis
    proof (cases rule: live_shape)
      case (one y)
      then have "make_ledger (ss @ [u]) = Inr l'" using w v o by (auto simp: butlast_append)
      then show ?thesis by (rule retailed_made) (use new_made [OF u] in auto)
    next
      case (two y z)
      then obtain q where q: "make_page (y\<lparr>pg_end := Some (pg_start p), pg_status := Sealed, pg_addr := a + 1\<rparr>) = Inr q"
          and w': "make_ledger (ss @ [q, u]) = Inr l'"
        using w v o ok by (auto simp: butlast_append bindr_eq_Inr)
      from w' show ?thesis by (rule retailed_made) (use new_made [OF u] new_made [OF q] in auto)
    qed
  next
    case (RejectUnknown p)
    then have o: "live \<noteq> []" and w: "make_ledger (butlast (ss @ live)) = Inr l'"
      using run v by (auto simp: reject_send_unknown_def bindr_eq_Inr require_send_unknown_def split: if_splits)
    from w [unfolded bl [OF o]] oldb show ?thesis by (rule retailed_made)
  next
    case (RetainUnknown p)
    then have o: "live \<noteq> []" and w: "with_page (butlast (ss @ live)) (p\<lparr>pg_reconciled := True, pg_addr := a\<rparr>) = Inr l'"
      using run v by (auto simp: retain_send_unknown_def bindr_eq_Inr require_send_unknown_def split: if_splits)
    from w [unfolded bl [OF o]] oldb show ?thesis by (rule retailed_with) simp_all
  next
    case (SealActive d)
    show ?thesis
    proof (cases "active_page (ss @ live)")
      case None
      then show ?thesis using run SealActive keep by (auto simp: seal_active_def split: if_splits)
    next
      case (Some p)
      then have o: "live \<noteq> []" and w: "with_page (butlast (ss @ live)) (p\<lparr>pg_end := Some d, pg_status := Sealed, pg_addr := a\<rparr>) = Inr l'"
        using run SealActive v by (auto simp: seal_active_def split: if_splits)
      from w [unfolded bl [OF o]] oldb show ?thesis by (rule retailed_with) simp_all
    qed
  next
    case (RetirePages d)
    have s: "ss \<noteq> [] \<Longrightarrow> pg_status (last ss) = Sealed" using chain_sealed [OF c] by simp
    obtain live' where d': "drop_pending (ss @ live) = ss @ live'" and sub: "set live' \<subseteq> set live"
    proof (cases "live = []")
      case True
      then show ?thesis using that [of "[]"] s by (cases "ss = []") (simp_all add: drop_pending_def)
    next
      case False
      show ?thesis
        by (rule that [of "if pg_status (last live) = Opening \<or> pg_status (last live) = SendUnknown then butlast live else live"])
          (use False in \<open>auto simp: drop_pending_def butlast_append dest: in_set_butlastD\<close>)
    qed
    show ?thesis
    proof (cases "ss @ live' \<noteq> [] \<and> pg_status (last (ss @ live')) = ActivePage")
      case True
      then have l: "live' \<noteq> []" using s by auto
      then have "with_page (ss @ butlast live') ((last (ss @ live'))\<lparr>pg_end := Some d, pg_status := Sealed, pg_addr := a\<rparr>) = Inr l'"
        using run RetirePages True by (auto simp: retire_pages_def d' Let_def butlast_append split: if_splits)
      then show ?thesis by (rule retailed_with) (use sub old in \<open>auto dest: in_set_butlastD\<close>)
    next
      case False
      then have "make_ledger (ss @ live') = Inr l'" using run RetirePages by (auto simp: retire_pages_def d' Let_def)
      then show ?thesis by (rule retailed_made) (use sub old in auto)
    qed
  qed (use ne in simp)
qed

section \<open>Reachable ledgers\<close>

definition sealed_of :: "ledger \<Rightarrow> page list" where
  "sealed_of l = takeWhile (\<lambda>p. pg_status p = Sealed) l"

lemma wf_shape:
  assumes "ledger_wf l"
  obtains e live where "l = sealed_of l @ live" and "sealed_chain zero_cursor (sealed_of l) e" and "live_ok e live"
proof -
  obtain ss e live where h: "l = ss @ live" "sealed_chain zero_cursor ss e" "live_ok e live"
    using assms by (auto simp: ledger_wf_def)
  have "sealed_of l = ss"
  proof -
    have "takeWhile (\<lambda>p. pg_status p = Sealed) live = []"
      using live_unsealed [OF h(3)] by (cases live) auto
    then show ?thesis using chain_sealed [OF h(2)] by (simp add: sealed_of_def h(1) takeWhile_append2)
  qed
  then show ?thesis using that [of live e] h by simp
qed

lemma transition_ok:
  assumes wf: "ledger_wf l" and run: "page_transition x a l = Inr l'" and x: "x \<noteq> ClearPages"
  shows "ledger_wf l'" and "\<exists>rest. l' = sealed_of l @ rest \<and> (\<forall>p \<in> set rest. p \<in> set l \<or> pg_addr p = a \<or> pg_addr p = a + 1)"
proof -
  obtain e live where s: "l = sealed_of l @ live" "sealed_chain zero_cursor (sealed_of l) e" "live_ok e live"
    using wf_shape [OF wf] by blast
  have w: "p \<in> set l \<Longrightarrow> page_wf p" for p using wf by (simp add: ledger_wf_def)
  have live: "p \<in> set live \<Longrightarrow> p \<in> set l" for p by (subst s(1)) simp
  have "retailed (sealed_of l) live a l'"
    by (rule transition_tail [OF _ s(2,3) _ x]) (use run s(1) w live make_ledger_fix [OF wf] in auto)
  then obtain rest where r: "l' = sealed_of l @ rest" "\<forall>p \<in> set rest. made_at a live p" "make_ledger l' = Inr l'"
    by (auto simp: retailed_def)
  have sealed: "p \<in> set (sealed_of l) \<Longrightarrow> p \<in> set l" for p by (subst s(1)) simp
  have "page_wf p" if "p \<in> set l'" for p using that r w sealed by (auto simp: made_at_def)
  then show "ledger_wf l'" using make_ledger_wf [OF r(3)] by blast
  show "\<exists>rest. l' = sealed_of l @ rest \<and> (\<forall>p \<in> set rest. p \<in> set l \<or> pg_addr p = a \<or> pg_addr p = a + 1)"
    using r live by (auto simp: made_at_def)
qed

lemma empty_wf: "ledger_wf []"
  by (auto simp: ledger_wf_def intro!: exI [of _ "[]"])

definition page_inv :: "page_state \<Rightarrow> bool" where
  "page_inv s = (ledger_wf (ps_ledger s) \<and> (\<forall>p \<in> set (ps_ledger s). pg_addr p < ps_next_addr s))"

lemma page_step_inv: "page_inv s \<Longrightarrow> page_inv (page_step s x)"
proof -
  assume i: "page_inv s"
  let ?l = "ps_ledger s" and ?a = "ps_next_addr s"
  show ?thesis
  proof (cases "page_transition x ?a ?l")
    case (Inl y)
    then show ?thesis using i by (fastforce simp: page_step_def page_inv_def)
  next
    case (Inr l')
    show ?thesis
    proof (cases "x = ClearPages")
      case True
      then show ?thesis using Inr by (auto simp: page_step_def page_inv_def clear_known_pages_def empty_ledger_def empty_wf split: option.splits if_splits)
    next
      case False
      have wf: "ledger_wf ?l" using i by (simp add: page_inv_def)
      obtain rest where r: "l' = sealed_of ?l @ rest" "\<forall>p \<in> set rest. p \<in> set ?l \<or> pg_addr p = ?a \<or> pg_addr p = ?a + 1"
        using transition_ok(2) [OF wf Inr False] by blast
      have "p \<in> set (sealed_of ?l) \<Longrightarrow> p \<in> set ?l" for p by (auto simp: sealed_of_def dest: set_takeWhileD)
      then have "pg_addr p < ?a + 2" if "p \<in> set l'" for p using that r i by (fastforce simp: page_inv_def)
      then show ?thesis using transition_ok(1) [OF wf Inr False] by (simp add: page_step_def Inr page_inv_def)
    qed
  qed
qed

lemma page_init_inv: "page_inv new_page_state"
  by (simp add: new_page_state_def page_inv_def empty_ledger_def empty_wf)

interpretation ledgers: step_system page_step new_page_state page_inv
  by unfold_locales (rule page_init_inv, rule page_step_inv)

lemma sealed_of_sealed: "\<forall>p \<in> set (sealed_of l). pg_status p = Sealed"
  by (auto simp: sealed_of_def dest: set_takeWhileD)

lemma sealed_append: "(\<forall>p \<in> set ss. pg_status p = Sealed) \<Longrightarrow> \<exists>more. sealed_of (ss @ rest) = ss @ more"
  by (simp add: sealed_of_def takeWhile_append2)

lemma sealed_step:
  assumes "page_inv s" and "x \<noteq> ClearPages"
  shows "\<exists>more. sealed_of (ps_ledger (page_step s x)) = sealed_of (ps_ledger s) @ more"
proof (cases "page_transition x (ps_next_addr s) (ps_ledger s)")
  case (Inr l')
  obtain rest where "l' = sealed_of (ps_ledger s) @ rest"
    using transition_ok(2) [OF _ Inr assms(2)] assms(1) by (auto simp: page_inv_def)
  then show ?thesis using sealed_append [OF sealed_of_sealed, of "ps_ledger s" rest] by (simp add: page_step_def Inr)
qed (simp add: page_step_def)

lemma sealed_run:
  "page_inv s \<Longrightarrow> ClearPages \<notin> set xs \<Longrightarrow> \<exists>more. sealed_of (ps_ledger (run_ops page_step s xs)) = sealed_of (ps_ledger s) @ more"
proof (induction xs arbitrary: s)
  case (Cons x xs)
  obtain m1 where m1: "sealed_of (ps_ledger (page_step s x)) = sealed_of (ps_ledger s) @ m1"
    using sealed_step [of s x] Cons.prems by auto
  obtain m2 where "sealed_of (ps_ledger (run_ops page_step (page_step s x) xs)) = sealed_of (ps_ledger (page_step s x)) @ m2"
    using Cons.IH [OF page_step_inv [OF Cons.prems(1)]] Cons.prems(2) by auto
  with m1 show ?case by simp
qed simp

section \<open>An unresolved send\<close>

fun names_page :: "page_op \<Rightarrow> page \<Rightarrow> bool" where
  "names_page (ActivateOpening p m) q = (p = q)"
| "names_page (MarkUnknown p) q = (p = q)"
| "names_page (DiscardOpening p) q = (p = q)"
| "names_page (ActivateRollover p p' m) q = (p' = q)"
| "names_page (MarkRolloverUnknown p p') q = (p' = q)"
| "names_page (DiscardRollover p p') q = (p' = q)"
| "names_page (ConfirmUnknown p m) q = (p = q)"
| "names_page (RejectUnknown p) q = (p = q)"
| "names_page (RetainUnknown p) q = (p = q)"
| "names_page (RetirePages c) q = True"
| "names_page x q = False"

lemma pending_last:
  assumes "pending_page l = Some p"
  shows "l \<noteq> []" and "current_page l = Some p" and "last l = p" and "pg_status p \<noteq> Sealed" and "pg_status p \<noteq> ActivePage"
  using assms by (auto simp: pending_page_def current_page_def split: option.splits if_splits)

lemma unresolved_blocks:
  assumes p: "pending_page l = Some p" and x: "\<not> names_page x p"
  shows "\<exists>e. page_transition x a l = Inl e"
proof -
  note k = pending_last [OF p]
  show ?thesis
  proof (cases x)
    case (PrepareInitial attempt known)
    then show ?thesis using k by (simp add: prepare_initial_def)
  next
    case (ActivateOpening q m)
    then show ?thesis using k x by (simp add: activate_opening_def require_initial_opening_def)
  next
    case (MarkUnknown q)
    then show ?thesis using k x by (simp add: mark_send_unknown_def require_initial_opening_def)
  next
    case (DiscardOpening q)
    then show ?thesis using k x by (simp add: discard_opening_def require_initial_opening_def)
  next
    case (PrepareRollover attempt c)
    then show ?thesis using p by (simp add: prepare_rollover_def split: option.split)
  next
    case (ActivateRollover y q m)
    then show ?thesis using k x by (simp add: activate_rollover_def require_rollover_opening_def Let_def last_conv_nth)
  next
    case (MarkRolloverUnknown y q)
    then show ?thesis using k x by (simp add: mark_rollover_send_unknown_def require_rollover_opening_def Let_def last_conv_nth)
  next
    case (DiscardRollover y q)
    then show ?thesis using k x by (simp add: discard_rollover_opening_def require_rollover_opening_def Let_def last_conv_nth)
  next
    case (ConfirmUnknown q m)
    then show ?thesis using p x by (simp add: confirm_send_unknown_def require_send_unknown_def)
  next
    case (RejectUnknown q)
    then show ?thesis using p x by (simp add: reject_send_unknown_def require_send_unknown_def)
  next
    case (RetainUnknown q)
    then show ?thesis using p x by (simp add: retain_send_unknown_def require_send_unknown_def)
  next
    case (SealActive c)
    then show ?thesis using p k by (simp add: seal_active_def split: option.split)
  next
    case ClearPages
    then show ?thesis using k p by (auto simp: clear_known_pages_def pending_page_def split: if_splits)
  qed (use x in simp)
qed

end
