(* ===== verification/Execution_Cards.thy ===== *)
theory Execution_Cards
  imports Execution_Pages
begin

text \<open>
  The cards of the pages (\<open>bot/runtime_card_publisher.py\<close>): the part of the process log and of the reply
  between two cursors, and the longest part that fits a page. How a card is rendered to JSON
  (\<open>cards.py\<close>) is not modelled: the size of a rendered card, its bytes and its components, is a function
  of the budget.
\<close>

section \<open>What a card shows\<close>

text \<open>\<open>_ExecutionTranscriptProjection\<close>: the transcript, or the transcript with its trailing reply hidden.\<close>

datatype card_view = WholeView transcript | TrailingView transcript int

fun view_transcript :: "card_view \<Rightarrow> transcript" where
  "view_transcript (WholeView t) = t"
| "view_transcript (TrailingView t n) = t"

fun view_segments :: "card_view \<Rightarrow> int \<Rightarrow> int \<Rightarrow> transcript_exn + segment list" where
  "view_segments (WholeView t) lo hi = reply_segments_between t lo hi"
| "view_segments (TrailingView t n) lo hi = projected_between (t, n) lo hi"

text \<open>A Python slice, negative indices included.\<close>

definition py_slice :: "int \<Rightarrow> int \<Rightarrow> string \<Rightarrow> string" where
  "py_slice lo hi s =
     (let n = int (length s); clip = (\<lambda>i. min n (if i < 0 then max 0 (i + n) else i))
      in take (nat (clip hi - clip lo)) (drop (nat (clip lo)) s))"

record card_model =
  cm_log :: string
  cm_segments :: "segment list"
  cm_running :: bool
  cm_elapsed :: int
  cm_cancelled :: bool
  cm_cancelable :: bool

datatype card_exn = RangeUnordered | CursorExceeds | SliceRaised transcript_exn | LimitInvalid | BudgetExceeded

definition build_execution_card_model ::
  "card_view \<Rightarrow> bool \<Rightarrow> int \<Rightarrow> bool \<Rightarrow> bool \<Rightarrow> page_cursor option \<Rightarrow> page_cursor option \<Rightarrow> card_exn + card_model" where
  "build_execution_card_model v running elapsed cancelled cancelable cursor_start cursor_end =
     (let a = (case cursor_start of None \<Rightarrow> zero_cursor | Some c \<Rightarrow> c);
          b = (case cursor_end of None \<Rightarrow> transcript_end (view_transcript v) | Some c \<Rightarrow> c)
      in if \<not> follows b a then Inl RangeUnordered
         else if \<not> follows (transcript_end (view_transcript v)) b then Inl CursorExceeds
         else (case view_segments v (cu_reply a) (cu_reply b) of
            Inl x \<Rightarrow> Inl (SliceRaised x)
          | Inr segs \<Rightarrow> Inr \<lparr>cm_log = py_slice (cu_process a) (cu_process b) (process_text (view_transcript v)), cm_segments = segs,
              cm_running = running, cm_elapsed = elapsed, cm_cancelled = (cancelled \<and> \<not> running), cm_cancelable = cancelable\<rparr>))"

section \<open>What fits a page\<close>

record page_budget =
  pb_metrics :: "card_model \<Rightarrow> int \<times> int"
  pb_payload :: int
  pb_components :: int

definition execution_card_model_fits_page :: "page_budget \<Rightarrow> card_model \<Rightarrow> card_exn + bool" where
  "execution_card_model_fits_page B m =
     (if pb_payload B < 1 \<or> pb_components B < 1 then Inl LimitInvalid
      else Inr (fst (pb_metrics B m) \<le> pb_payload B \<and> snd (pb_metrics B m) \<le> pb_components B))"

text \<open>The cursor some characters after the start, the process log first.\<close>

definition cursor_at :: "page_cursor \<Rightarrow> int \<Rightarrow> int \<Rightarrow> page_cursor" where
  "cursor_at c process_chars progress =
     \<lparr>cu_process = cu_process c + min progress process_chars, cu_reply = cu_reply c + max (progress - process_chars) 0\<rparr>"

text \<open>The binary search for the longest prefix that fits.\<close>

function fit_search :: "(int \<Rightarrow> card_exn + bool) \<Rightarrow> int \<Rightarrow> int \<Rightarrow> int \<Rightarrow> card_exn + int" where
  "fit_search fits low high best =
     (if high < low then Inr best
      else case fits ((low + high) div 2) of
        Inl x \<Rightarrow> Inl x
      | Inr b \<Rightarrow> if b then fit_search fits ((low + high) div 2 + 1) high ((low + high) div 2)
                 else fit_search fits low ((low + high) div 2 - 1) best)"
  by pat_completeness auto
termination
  by (relation "measure (\<lambda>(fits, low, high, best). nat (high + 1 - low))") auto

declare fit_search.simps [simp del]

definition fits_at ::
  "page_budget \<Rightarrow> card_view \<Rightarrow> bool \<Rightarrow> int \<Rightarrow> bool \<Rightarrow> bool \<Rightarrow> page_cursor \<Rightarrow> int \<Rightarrow> int \<Rightarrow> card_exn + bool" where
  "fits_at B v running elapsed cancelled cancelable a process_chars progress =
     bindr (build_execution_card_model v running elapsed cancelled cancelable (Some a) (Some (cursor_at a process_chars progress)))
       (execution_card_model_fits_page B)"

definition fit_execution_card_page_end ::
  "page_budget \<Rightarrow> card_view \<Rightarrow> bool \<Rightarrow> int \<Rightarrow> bool \<Rightarrow> bool \<Rightarrow> page_cursor \<Rightarrow> page_cursor \<Rightarrow> card_exn + page_cursor" where
  "fit_execution_card_page_end B v running elapsed cancelled cancelable a b =
     (if \<not> follows b a then Inl RangeUnordered
      else let process_chars = cu_process b - cu_process a; total = process_chars + (cu_reply b - cu_reply a);
               fits = fits_at B v running elapsed cancelled cancelable a process_chars
        in bindr (fits 0) (\<lambda>shell. if \<not> shell then Inl BudgetExceeded
           else bindr (fit_search fits 1 total 0) (\<lambda>best.
             if total \<noteq> 0 \<and> best = 0 then Inl BudgetExceeded else Inr (cursor_at a process_chars best))))"

text \<open>Where the search ends lies in the range it searched.\<close>

lemma fit_search_range:
  "fit_search fits low high best = Inr n \<Longrightarrow> best < low \<Longrightarrow> low \<le> high + 1 \<Longrightarrow>
     n = best \<or> low \<le> n \<and> n \<le> high \<and> fits n = Inr True"
proof (induction fits low high best rule: fit_search.induct)
  case (1 fits low high best)
  let ?m = "(low + high) div 2"
  show ?case
  proof (cases "high < low")
    case True
    then show ?thesis using "1.prems"(1) by (simp add: fit_search.simps [of fits low])
  next
    case False
    then have m: "low \<le> ?m" "?m \<le> high" by auto
    obtain b where b: "fits ?m = Inr b" using "1.prems"(1) False by (cases "fits ?m") (simp_all add: fit_search.simps [of fits low])
    show ?thesis
    proof (cases b)
      case True
      then have r: "fit_search fits (?m + 1) high ?m = Inr n"
        using "1.prems"(1) False b by (simp add: fit_search.simps [of fits low])
      have "n = ?m \<or> ?m + 1 \<le> n \<and> n \<le> high \<and> fits n = Inr True"
        using "1.IH"(1) [OF False b True r] m by auto
      then show ?thesis using m b True by auto
    next
      case False': False
      then have r: "fit_search fits low (?m - 1) best = Inr n"
        using "1.prems"(1) False b by (simp add: fit_search.simps [of fits low])
      have "n = best \<or> low \<le> n \<and> n \<le> ?m - 1 \<and> fits n = Inr True"
        using "1.IH"(2) [OF False b False' r] "1.prems"(2) m by auto
      then show ?thesis using m by auto
    qed
  qed
qed

end
