(* ===== verification/Terminal_Pages.thy ===== *)
theory Terminal_Pages
  imports Execution_Cards
begin

text \<open>
  The presentation of a completed turn (\<open>present_terminal_execution_card\<close> of
  \<open>bot/execution_output_controller.py\<close>): the cards of a captured ledger, whose pages are closed, continued on new pages while the rest
  does not fit, and reported as receipts. It changes no runtime state; its effects on Feishu are
  the log it returns. The environment \<open>terminal_env\<close> answers the n-th patch and the n-th send.
\<close>

section \<open>Outbound effects\<close>

text \<open>A send's outcome (\<open>FeishuOutboundResult\<close>), whose constructor strips the message id and wants one for a confirmed effect.\<close>

datatype outbound_effect = EffectConfirmed | EffectRejected | EffectUnknown

record outbound =
  ob_effect :: outbound_effect
  ob_message :: string

definition make_outbound :: "outbound_effect \<Rightarrow> string \<Rightarrow> outbound option" where
  "make_outbound e m = (if e = EffectConfirmed \<and> strip m = [] then None else Some \<lparr>ob_effect = e, ob_message = strip m\<rparr>)"

definition outbound_ok :: "outbound \<Rightarrow> bool" where
  "outbound_ok r = (ob_effect r = EffectConfirmed)"

datatype patch_status = FullApplied | MinimalApplied | PatchRetryable | PatchFailed | PatchUnknown

datatype send_outcome = SendConfirmed | SendRejected | SendOutcomeUnknown

datatype terminal_exn = StillRunning | Regressed | CardFailed card_exn | PageFailed page_exn | PaginationStuck | PublishFailed

datatype terminal_effect =
    PagePublished string card_model bool
  | PlaceholderPatched string string
  | PageSent string

record terminal_env =
  te_budget :: page_budget
  te_elapsed :: int
  te_publish :: "nat \<Rightarrow> bool"
  te_uuid :: "nat \<Rightarrow> string"
  te_send :: "nat \<Rightarrow> (outbound_effect \<times> string) option"
  te_patch :: "patch_status option"

type_synonym terminal_log = "terminal_effect list"

text \<open>A send that raised, also in the constructor of its result, is None.\<close>

definition send_card :: "terminal_env \<Rightarrow> string \<Rightarrow> terminal_log \<Rightarrow> terminal_log \<times> outbound option" where
  "send_card E attempt g =
     (g @ [PageSent attempt],
      case te_send E (length g) of None \<Rightarrow> None | Some (e, m) \<Rightarrow> make_outbound e m)"

definition publish_execution_model :: "terminal_env \<Rightarrow> string \<Rightarrow> card_model \<Rightarrow> terminal_log \<Rightarrow> terminal_log \<times> bool" where
  "publish_execution_model E message m g = (g @ [PagePublished message m (te_publish E (length g))], te_publish E (length g))"

definition reconcile_send_unknown_page_effect ::
  "terminal_env \<Rightarrow> page \<Rightarrow> terminal_log \<Rightarrow> terminal_log \<times> send_outcome \<times> string" where
  "reconcile_send_unknown_page_effect E p g =
     (if pg_message p \<noteq> []
      then (g @ [PlaceholderPatched (pg_message p) (pg_attempt p)],
            case te_patch E of
              None \<Rightarrow> (SendOutcomeUnknown, [])
            | Some s \<Rightarrow> if s = FullApplied \<or> s = MinimalApplied then (SendConfirmed, pg_message p)
                        else if s = PatchRetryable \<or> s = PatchUnknown then (SendOutcomeUnknown, []) else (SendRejected, []))
      else case send_card E (pg_attempt p) g of (g1, r) \<Rightarrow>
           (g1, case r of
              None \<Rightarrow> (SendOutcomeUnknown, [])
            | Some r \<Rightarrow> if outbound_ok r then (SendConfirmed, ob_message r)
                        else if ob_effect r = EffectUnknown then (SendOutcomeUnknown, []) else (SendRejected, [])))"

section \<open>Receipts\<close>

text \<open>
  The confirmed receipts a terminal presentation starts from: one for every sealed page.
\<close>

definition sealed_receipt :: "page \<Rightarrow> page_exn + page_receipt" where
  "sealed_receipt p = (case pg_end p of None \<Rightarrow> Inl PageInvalid | Some c \<Rightarrow> make_receipt (pg_message p) (pg_start p) c)"

fun sealed_receipts :: "ledger \<Rightarrow> page_exn + page_receipt list" where
  "sealed_receipts [] = Inr []"
| "sealed_receipts (p # rest) =
     (if pg_status p \<noteq> Sealed then sealed_receipts rest
      else bindr (sealed_receipt p) (\<lambda>r. bindr (sealed_receipts rest) (\<lambda>rs. Inr (r # rs))))"


text \<open>\<open>confirmed_receipts\<close>: what is reported is checked again.\<close>

definition confirmed_receipts :: "terminal_log \<Rightarrow> page_receipt list \<Rightarrow> terminal_log \<times> (terminal_exn + page_receipt list)" where
  "confirmed_receipts g rs = (g, map_sum PageFailed id (require_receipts rs))"

text \<open>One page: its card is built and published, and its receipt appended.\<close>

definition publish_page ::
  "terminal_env \<Rightarrow> transcript \<Rightarrow> bool \<Rightarrow> string \<Rightarrow> page_cursor \<Rightarrow> page_cursor \<Rightarrow> terminal_log \<Rightarrow> terminal_log \<times> (terminal_exn + page_receipt)" where
  "publish_page E t cancelled message a b g =
     (case build_execution_card_model (WholeView t) False (te_elapsed E) cancelled True (Some a) (Some b) of
        Inl x \<Rightarrow> (g, Inl (CardFailed x))
      | Inr m \<Rightarrow>
          (case publish_execution_model E message m g of (g1, ok) \<Rightarrow>
             (g1, if \<not> ok then Inl PublishFailed else map_sum PageFailed id (make_receipt message a b))))"

section \<open>The pages after the captured ones\<close>

datatype page_turn =
    Finished terminal_log "terminal_exn + page_receipt list"
  | NextPage string page_cursor "page_receipt list" "string list" terminal_log

text \<open>One turn of the \<open>while True\<close> loop.\<close>

definition full_page_fits :: "terminal_env \<Rightarrow> transcript \<Rightarrow> bool \<Rightarrow> page_cursor \<Rightarrow> card_exn + bool" where
  "full_page_fits E t cancelled a =
     bindr (build_execution_card_model (WholeView t) False (te_elapsed E) cancelled True (Some a) (Some (transcript_end t)))
       (execution_card_model_fits_page (te_budget E))"

definition finish_pages :: "terminal_log \<times> (terminal_exn + page_receipt list) \<Rightarrow> page_turn" where
  "finish_pages r = Finished (fst r) (snd r)"

definition next_page ::
  "terminal_env \<Rightarrow> page_receipt list \<Rightarrow> string list \<Rightarrow> page_cursor \<Rightarrow> terminal_log \<Rightarrow> page_turn" where
  "next_page E rs confirmed a g =
     (case send_card E (te_uuid E (length g)) g of (g1, sent) \<Rightarrow>
        (case sent of
           None \<Rightarrow> finish_pages (confirmed_receipts g1 rs)
         | Some r \<Rightarrow>
             (if \<not> outbound_ok r \<or> ob_message r = [] then finish_pages (confirmed_receipts g1 rs)
              else if ob_message r \<in> set confirmed then finish_pages (confirmed_receipts g1 rs)
              else NextPage (ob_message r) a rs confirmed g1)))"

definition present_page ::
  "terminal_env \<Rightarrow> transcript \<Rightarrow> bool \<Rightarrow> string \<Rightarrow> page_cursor \<Rightarrow> page_receipt list \<Rightarrow> string list \<Rightarrow> terminal_log \<Rightarrow> page_turn" where
  "present_page E t cancelled message a rs confirmed g =
     (case full_page_fits E t cancelled a of
        Inl x \<Rightarrow> Finished g (Inl (CardFailed x))
      | Inr True \<Rightarrow>
          (case publish_page E t cancelled message a (transcript_end t) g of
             (g1, Inl x) \<Rightarrow> Finished g1 (Inl x)
           | (g1, Inr r) \<Rightarrow> finish_pages (confirmed_receipts g1 (rs @ [r])))
      | Inr False \<Rightarrow>
          (case fit_execution_card_page_end (te_budget E) (WholeView t) False (te_elapsed E) False True a (transcript_end t) of
             Inl x \<Rightarrow> Finished g (Inl (CardFailed x))
           | Inr b \<Rightarrow>
               (if \<not> strictly_follows b a then Finished g (Inl PaginationStuck)
                else case publish_page E t False message a b g of
                    (g1, Inl x) \<Rightarrow> Finished g1 (Inl x)
                  | (g1, Inr r) \<Rightarrow> next_page E (rs @ [r]) (message # confirmed) b g1)))"

text \<open>Every turn moves the cursor forward inside the transcript, so the loop ends.\<close>

lemma fit_page_end_range:
  assumes "fit_execution_card_page_end B v running n cancelled cancelable a b = Inr c"
  shows "follows c a" and "follows b c"
proof -
  let ?p = "cu_process b - cu_process a" and ?r = "cu_reply b - cu_reply a"
  have o: "0 \<le> ?p" "0 \<le> ?r" using assms by (auto simp: fit_execution_card_page_end_def follows_def split: if_splits)
  obtain k where k: "fit_search (fits_at B v running n cancelled cancelable a ?p) 1 (?p + ?r) 0 = Inr k" "c = cursor_at a ?p k"
    using assms by (auto simp: fit_execution_card_page_end_def Let_def bindr_eq_Inr split: if_splits)
  have "0 \<le> k \<and> k \<le> ?p + ?r" using fit_search_range [OF k(1)] o by auto
  then show "follows c a" "follows b c" using o by (auto simp: k(2) cursor_at_def follows_def min_def max_def)
qed

lemma present_page_advances:
  assumes "present_page E t cancelled message a rs confirmed g = NextPage message' b rs' confirmed' g'"
  shows "strictly_follows b a" and "follows (transcript_end t) b"
  using assms fit_page_end_range(2)
  by (auto simp: present_page_def finish_pages_def next_page_def split: sum.splits bool.splits if_splits prod.splits option.splits)

function present_pages ::
  "terminal_env \<Rightarrow> transcript \<Rightarrow> bool \<Rightarrow> string \<Rightarrow> page_cursor \<Rightarrow> page_receipt list \<Rightarrow> string list \<Rightarrow> terminal_log
     \<Rightarrow> terminal_log \<times> (terminal_exn + page_receipt list)" where
  "present_pages E t cancelled message a rs confirmed g =
     (case present_page E t cancelled message a rs confirmed g of
        Finished g1 r \<Rightarrow> (g1, r)
      | NextPage message1 b rs1 confirmed1 g1 \<Rightarrow> present_pages E t cancelled message1 b rs1 confirmed1 g1)"
  by pat_completeness auto
termination
proof (relation "measure (\<lambda>(E, t, cancelled, message, a, rs, confirmed, g).
    nat (cu_process (transcript_end t) - cu_process a) + nat (cu_reply (transcript_end t) - cu_reply a))")
  fix E t cancelled message a rs confirmed g message1 b rs1 confirmed1 g1
  assume "present_page E t cancelled message a rs confirmed g = NextPage message1 b rs1 confirmed1 g1"
  from present_page_advances [OF this]
  have "follows b a" "b \<noteq> a" "follows (transcript_end t) b" by (simp_all add: strictly_follows_def)
  then show "((E, t, cancelled, message1, b, rs1, confirmed1, g1), E, t, cancelled, message, a, rs, confirmed, g)
      \<in> measure (\<lambda>(E, t, cancelled, message, a, rs, confirmed, g).
        nat (cu_process (transcript_end t) - cu_process a) + nat (cu_reply (transcript_end t) - cu_reply a))"
    by (cases a; cases b) (auto simp: follows_def)
qed simp

declare present_pages.simps [simp del]

section \<open>The presentation\<close>

text \<open>From the active page of the ledger on.\<close>

definition present_active ::
  "terminal_env \<Rightarrow> transcript \<Rightarrow> bool \<Rightarrow> ledger \<Rightarrow> page_receipt list \<Rightarrow> string list \<Rightarrow> terminal_log
     \<Rightarrow> terminal_log \<times> (terminal_exn + page_receipt list)" where
  "present_active E t cancelled l rs confirmed g =
     (case active_page l of
        None \<Rightarrow> confirmed_receipts g rs
      | Some p \<Rightarrow>
          (if \<not> follows (transcript_end t) (pg_start p) then (g, Inl Regressed)
           else present_pages E t cancelled (pg_message p) (pg_start p) rs confirmed g))"

text \<open>A pending page whose send is unknown is asked for once more, under its own attempt id.\<close>

definition settle_pending ::
  "terminal_env \<Rightarrow> transcript \<Rightarrow> bool \<Rightarrow> ledger \<Rightarrow> page \<Rightarrow> page_receipt list \<Rightarrow> string list \<Rightarrow> terminal_log
     \<Rightarrow> terminal_log \<times> (terminal_exn + page_receipt list)" where
  "settle_pending E t cancelled l q rs confirmed g =
     (if pg_status q \<noteq> SendUnknown \<or> pg_reconciled q then confirmed_receipts g rs
      else case reconcile_send_unknown_page_effect E q g of (g1, outcome, message) \<Rightarrow>
        (if outcome \<noteq> SendConfirmed then confirmed_receipts g1 rs
         else if message \<in> set confirmed then confirmed_receipts g1 rs
         else case confirm_send_unknown q message 0 l of
             Inl x \<Rightarrow> (g1, Inl (PageFailed x))
           | Inr l1 \<Rightarrow> present_active E t cancelled l1 rs confirmed g1))"

definition present_terminal_execution_card ::
  "terminal_env \<Rightarrow> bool \<Rightarrow> ledger \<Rightarrow> transcript \<Rightarrow> bool \<Rightarrow> terminal_log \<times> (terminal_exn + page_receipt list)" where
  "present_terminal_execution_card E running l t cancelled =
     (if running then ([], Inl StillRunning)
      else case sealed_receipts l of
        Inl x \<Rightarrow> ([], Inl (PageFailed x))
      | Inr rs \<Rightarrow>
          (let confirmed = map pg_message (filter (\<lambda>p. pg_status p = Sealed) l)
           in case pending_page l of
                None \<Rightarrow> present_active E t cancelled l rs confirmed []
              | Some q \<Rightarrow>
                  (if \<not> follows (transcript_end t) (pg_start q) then ([], Inl Regressed)
                   else case active_page l of
                       None \<Rightarrow> settle_pending E t cancelled l q rs confirmed []
                     | Some p \<Rightarrow>
                         (case publish_page E t False (pg_message p) (pg_start p) (pg_start q) [] of
                            (g, Inl x) \<Rightarrow> (g, Inl x)
                          | (g, Inr r) \<Rightarrow> settle_pending E t cancelled l q (rs @ [r]) (pg_message p # confirmed) g))))"

end
