(* ===== verification/Page_Receipts.thy ===== *)
theory Page_Receipts
  imports Execution_Transcript_Facts Execution_Page_Facts Terminal_Pages
begin

text \<open>
  Chains of receipts: contiguous ranges of the transcript under distinct messages. The sealed pages of a
  ledger give one, a chain is accepted by the check of the receipts, its coverage of an interval is
  decided by its end, and its cards put together are the transcript up to there.
\<close>

section \<open>Chains of receipts\<close>

fun receipt_chain :: "page_cursor \<Rightarrow> page_receipt list \<Rightarrow> page_cursor \<Rightarrow> bool" where
  "receipt_chain c [] e = (c = e)"
| "receipt_chain c (r # rs) e = (rp_start r = c \<and> follows (rp_end r) c \<and> receipt_chain (rp_end r) rs e)"

lemma receipts_append: "receipt_chain c (xs @ ys) e \<longleftrightarrow> (\<exists>d. receipt_chain c xs d \<and> receipt_chain d ys e)"
  by (induction xs arbitrary: c) auto

lemma follows_refl [simp]: "follows c c"
  by (simp add: follows_def)

lemma follows_trans: "follows c b \<Longrightarrow> follows b a \<Longrightarrow> follows c a"
  by (auto simp: follows_def)

lemma receipts_mono: "receipt_chain c rs e \<Longrightarrow> follows e c"
  by (induction rs arbitrary: c) (auto intro: follows_trans)

lemma chain_scan:
  "receipt_chain c rs e \<Longrightarrow> distinct (map rp_message rs) \<Longrightarrow> \<forall>r \<in> set rs. rp_message r \<notin> set seen \<Longrightarrow> prev = None \<or> prev = Some c
     \<Longrightarrow> scan_receipts rs seen prev = Inr ()"
proof (induction rs arbitrary: c seen prev)
  case (Cons r rs)
  have n: "rp_message q \<noteq> rp_message r" if "q \<in> set rs" for q
    using Cons.prems(2) imageI [OF that, of rp_message] by force
  have "scan_receipts rs (rp_message r # seen) (Some (rp_end r)) = Inr ()"
    by (rule Cons.IH) (use Cons.prems n in simp_all)
  then show ?case using Cons.prems by auto
qed simp

lemma chain_required: "receipt_chain c rs e \<Longrightarrow> distinct (map rp_message rs) \<Longrightarrow> require_receipts rs = Inr rs"
  using chain_scan [of c rs e "[]" None] by (simp add: require_receipts_def)

lemma ids_prefix: "ids_from (xs @ ys) i A M \<Longrightarrow> ids_from xs i A M"
  by (induction xs arbitrary: i A M) auto

lemma ids_messages:
  "ids_from ps i A M \<Longrightarrow> \<forall>p \<in> set ps. pg_message p \<noteq> [] \<Longrightarrow> distinct (map pg_message ps) \<and> (\<forall>p \<in> set ps. pg_message p \<notin> M)"
proof (induction ps arbitrary: i A M)
  case (Cons p ps)
  then show ?case using Cons.IH [of "i + 1" "insert (pg_attempt p) A" "insert (pg_message p) M"] by force
qed simp

definition receipt_of :: "page \<Rightarrow> page_receipt" where
  "receipt_of p = \<lparr>rp_message = pg_message p, rp_start = pg_start p, rp_end = the (pg_end p)\<rparr>"

lemma receipt_of_simps [simp]:
  "rp_message (receipt_of p) = pg_message p" "rp_start (receipt_of p) = pg_start p" "rp_end (receipt_of p) = the (pg_end p)"
  by (simp_all add: receipt_of_def)

lemma sealed_receipt_wf:
  assumes "page_wf p" and "pg_status p = Sealed"
  shows "sealed_receipt p = Inr (receipt_of p)"
  using assms by (auto simp: sealed_receipt_def make_receipt_def page_wf_def require_text_def receipt_of_def)

lemma receipts_of_sealed:
  "(\<forall>p \<in> set ss. page_wf p \<and> pg_status p = Sealed) \<Longrightarrow> (\<forall>p \<in> set live. pg_status p \<noteq> Sealed) \<Longrightarrow>
     sealed_receipts (ss @ live) = Inr (map receipt_of ss)"
proof (induction ss)
  case Nil
  then show ?case by (induction live) simp_all
qed (simp add: sealed_receipt_wf)

lemma chain_receipts:
  "sealed_chain c ss e \<Longrightarrow> \<forall>p \<in> set ss. page_wf p \<and> pg_status p = Sealed \<Longrightarrow> receipt_chain c (map receipt_of ss) e"
proof (induction ss arbitrary: c)
  case (Cons p ss)
  then obtain d where "pg_end p = Some d" "sealed_chain d ss e" "pg_start p = c" by (auto split: option.splits)
  moreover have "follows d c" using Cons.prems(2) calculation by (auto simp: page_wf_def)
  ultimately show ?case using Cons.IH [of d] Cons.prems(2) by simp
qed simp

lemma wf_sealed:
  assumes "ledger_wf l"
  obtains e where "sealed_chain zero_cursor (sealed_of l) e" and "sealed_receipts l = Inr (map receipt_of (sealed_of l))"
    and "require_receipts (map receipt_of (sealed_of l)) = Inr (map receipt_of (sealed_of l))"
    and "\<forall>p \<in> set (sealed_of l). page_wf p \<and> pg_status p = Sealed"
proof -
  obtain e live where s: "l = sealed_of l @ live" "sealed_chain zero_cursor (sealed_of l) e" "live_ok e live"
    using wf_shape [OF assms] by blast
  have sub: "set (sealed_of l) \<subseteq> set l" by (auto simp: sealed_of_def dest: set_takeWhileD)
  have w: "\<forall>p \<in> set (sealed_of l). page_wf p \<and> pg_status p = Sealed"
    using assms sub sealed_of_sealed by (auto simp: ledger_wf_def)
  then have m: "\<forall>p \<in> set (sealed_of l). pg_message p \<noteq> []" by (simp add: page_wf_def)
  have "ids_from (sealed_of l @ live) 1 {} {}" using assms s(1) by (simp add: ledger_wf_def ids_ok_def)
  then have d: "distinct (map pg_message (sealed_of l))" using ids_messages [OF ids_prefix m] by blast
  have "sealed_receipts (sealed_of l @ live) = Inr (map receipt_of (sealed_of l))"
    by (rule receipts_of_sealed [OF w]) (use live_unsealed [OF s(3)] in blast)
  then have r: "sealed_receipts l = Inr (map receipt_of (sealed_of l))" using s(1) by simp
  have q: "require_receipts (map receipt_of (sealed_of l)) = Inr (map receipt_of (sealed_of l))"
    using chain_required [OF chain_receipts [OF s(2) w]] d by (simp add: comp_def)
  show ?thesis by (rule that [OF s(2) r q w])
qed

section \<open>Coverage\<close>

definition covers :: "page_receipt list \<Rightarrow> int \<Rightarrow> bool" where
  "covers rs n = (\<exists>r \<in> set rs. cu_reply (rp_start r) \<le> n \<and> n < cu_reply (rp_end r))"

definition ordered_receipt :: "page_receipt \<Rightarrow> bool" where
  "ordered_receipt r = (cu_reply (rp_start r) \<le> cu_reply (rp_end r))"

lemma cover_until_exact:
  "sorted (map (\<lambda>r. cu_reply (rp_start r)) rs) \<Longrightarrow> hi \<le> cover_until rs hi lo \<longleftrightarrow> (\<forall>n. lo \<le> n \<longrightarrow> n < hi \<longrightarrow> covers rs n)"
proof (induction rs arbitrary: lo)
  case Nil
  then show ?case by (auto simp: covers_def)
next
  case (Cons r rs)
  let ?s = "cu_reply (rp_start r)" and ?e = "cu_reply (rp_end r)"
  show ?case
  proof (cases "lo < ?s")
    case True
    have "\<not> covers (r # rs) lo" using True Cons.prems by (force simp: covers_def)
    then show ?thesis using True by (auto simp: covers_def)
  next
    case False
    have c: "covers (r # rs) n \<longleftrightarrow> ?s \<le> n \<and> n < ?e \<or> covers rs n" for n by (simp add: covers_def)
    show ?thesis
    proof (cases "hi \<le> max lo ?e")
      case True
      then show ?thesis using False by (auto simp: c Let_def max_def split: if_splits)
    next
      case less: False
      have "hi \<le> cover_until rs hi (max lo ?e) \<longleftrightarrow> (\<forall>n. max lo ?e \<le> n \<longrightarrow> n < hi \<longrightarrow> covers rs n)"
        using Cons by simp
      also have "\<dots> \<longleftrightarrow> (\<forall>n. lo \<le> n \<longrightarrow> n < hi \<longrightarrow> covers (r # rs) n)"
      proof (intro iffI allI impI)
        fix n
        assume "\<forall>n. max lo ?e \<le> n \<longrightarrow> n < hi \<longrightarrow> covers rs n" "lo \<le> n" "n < hi"
        then show "covers (r # rs) n" using False by (cases "n < ?e") (auto simp: c)
      next
        fix n
        assume "\<forall>n. lo \<le> n \<longrightarrow> n < hi \<longrightarrow> covers (r # rs) n" "max lo ?e \<le> n" "n < hi"
        then show "covers rs n" by (auto simp: c)
      qed
      finally show ?thesis using False less by (simp add: Let_def)
    qed
  qed
qed

lemma scan_sorted:
  "scan_receipts rs seen prev = Inr () \<Longrightarrow> list_all ordered_receipt rs \<Longrightarrow>
    sorted (map (\<lambda>r. cu_reply (rp_start r)) rs) \<and> (\<forall>c. prev = Some c \<longrightarrow> (\<forall>r \<in> set rs. cu_reply c \<le> cu_reply (rp_start r)))"
proof (induction rs arbitrary: seen prev)
  case (Cons r rs)
  have k: "scan_receipts rs (rp_message r # seen) (Some (rp_end r)) = Inr ()" and p: "prev = None \<or> prev = Some (rp_start r)"
    using Cons.prems by (auto split: if_splits option.splits)
  have "cu_reply (rp_start r) \<le> cu_reply (rp_end r)" using Cons.prems(2) by (simp add: ordered_receipt_def)
  then show ?case using Cons.IH [OF k] Cons.prems(2) p by force
qed simp

lemma covers_meets: "lo \<le> n \<Longrightarrow> n < hi \<Longrightarrow> covers (filter (meets lo hi) rs) n \<longleftrightarrow> covers rs n"
  by (auto simp: covers_def meets_def)

lemma coverage_exact:
  assumes "terminal_reply_coverage rs lo hi = Inr (m, full)" and "list_all ordered_receipt rs"
  shows "full \<longleftrightarrow> (\<forall>n. lo \<le> n \<longrightarrow> n < hi \<longrightarrow> covers rs n)"
proof -
  have s: "scan_receipts rs [] None = Inr ()" and m: "m = filter (meets lo hi) rs" "full = (hi \<le> cover_until m hi lo)"
    using assms(1) by (auto simp: terminal_reply_coverage_def require_receipts_def bindr_eq_Inr Let_def split: if_splits)
  have "sorted (map (\<lambda>r. cu_reply (rp_start r)) m)" using scan_sorted [OF s assms(2)] by (simp add: m(1) sorted_filter)
  from cover_until_exact [OF this] show ?thesis using covers_meets [of lo _ hi rs] by (auto simp: m)
qed

lemma ordered_chain: "receipt_chain c rs e \<Longrightarrow> list_all ordered_receipt rs"
  by (induction rs arbitrary: c) (auto simp: ordered_receipt_def follows_def)

lemma chain_covers: "receipt_chain c rs e \<Longrightarrow> covers rs n \<longleftrightarrow> cu_reply c \<le> n \<and> n < cu_reply e"
proof (induction rs arbitrary: c)
  case Nil
  then show ?case by (simp add: covers_def)
next
  case (Cons r rs)
  have "cu_reply c \<le> cu_reply (rp_end r)" "cu_reply (rp_end r) \<le> cu_reply e"
    using Cons.prems receipts_mono [of "rp_end r" rs e] by (auto simp: follows_def)
  moreover have "covers rs n \<longleftrightarrow> cu_reply (rp_end r) \<le> n \<and> n < cu_reply e" using Cons by simp
  ultimately show ?case using Cons.prems by (auto simp: covers_def)
qed

lemma chain_coverage:
  assumes c: "receipt_chain zero_cursor rs e" and d: "require_receipts rs = Inr rs" and "0 \<le> lo" and "lo < hi"
  shows "terminal_reply_coverage rs lo hi = Inr (filter (meets lo hi) rs, hi \<le> cu_reply e)"
proof -
  let ?m = "filter (meets lo hi) rs"
  have run: "terminal_reply_coverage rs lo hi = Inr (?m, hi \<le> cover_until ?m hi lo)"
    using d assms(3,4) by (simp add: terminal_reply_coverage_def Let_def)
  have "(hi \<le> cover_until ?m hi lo) \<longleftrightarrow> (\<forall>i. lo \<le> i \<longrightarrow> i < hi \<longrightarrow> covers rs i)" by (rule coverage_exact [OF run ordered_chain [OF c]])
  also have "\<dots> \<longleftrightarrow> (\<forall>i. lo \<le> i \<longrightarrow> i < hi \<longrightarrow> 0 \<le> i \<and> i < cu_reply e)" by (simp add: chain_covers [OF c] zero_cursor_def)
  also have "\<dots> \<longleftrightarrow> hi \<le> cu_reply e"
  proof
    assume "\<forall>i. lo \<le> i \<longrightarrow> i < hi \<longrightarrow> 0 \<le> i \<and> i < cu_reply e"
    from this [rule_format, of "hi - 1"] show "hi \<le> cu_reply e" using assms(4) by simp
  qed (use assms(3) in simp)
  finally show ?thesis using run by simp
qed

section \<open>The pages and the transcript\<close>

text \<open>The cursor the sealed pages have reached.\<close>

definition sealed_end :: "ledger \<Rightarrow> page_cursor" where
  "sealed_end l = (if sealed_of l = [] then zero_cursor else the (pg_end (last (sealed_of l))))"

lemma chain_end: "sealed_chain c ss e \<Longrightarrow> e = (if ss = [] then c else the (pg_end (last ss)))"
  by (induction ss arbitrary: c) (auto split: option.splits if_splits)

text \<open>The card of a confirmed page, whatever its state line shows.\<close>

definition page_card :: "transcript \<Rightarrow> bool \<Rightarrow> int \<Rightarrow> bool \<Rightarrow> bool \<Rightarrow> page_receipt \<Rightarrow> card_exn + card_model" where
  "page_card t running n cancelled cancelable r =
     build_execution_card_model (WholeView t) running n cancelled cancelable (Some (rp_start r)) (Some (rp_end r))"

lemma py_slice_in: "0 \<le> a \<Longrightarrow> a \<le> b \<Longrightarrow> b \<le> int (length s) \<Longrightarrow> py_slice a b s = slice a b s"
  by (simp add: py_slice_def slice_def Let_def min_def)

lemma sealed_card_ok:
  assumes "follows a zero_cursor" and "follows b a" and "follows (transcript_end t) b"
  shows "\<exists>m. build_execution_card_model (WholeView t) running n cancelled cancelable (Some a) (Some b) = Inr m
     \<and> cm_log m = slice (cu_process a) (cu_process b) (process_text t)
     \<and> text_of (cm_segments m) = slice (cu_reply a) (cu_reply b) (text_of (tr_segments t)) \<and> tidy (cm_segments m)"
proof -
  have o: "0 \<le> cu_reply a" "cu_reply a \<le> cu_reply b" "cu_reply b \<le> reply_chars t"
    and q: "0 \<le> cu_process a" "cu_process a \<le> cu_process b" "cu_process b \<le> int (length (process_text t))"
    using assms by (simp_all add: follows_def zero_cursor_def transcript_end_def)
  obtain r where r: "reply_segments_between t (cu_reply a) (cu_reply b) = Inr r"
    using segments_between_text o by (auto simp: reply_segments_between_def reply_chars_text)
  then show ?thesis
    using assms between_slice [of "tr_segments t"] py_slice_in [OF q]
    by (simp add: build_execution_card_model_def reply_segments_between_def)
qed

lemma slice_empty: "slice a a s = []"
  by (simp add: slice_def)

lemma chain_cards:
  "receipt_chain c rs e \<Longrightarrow> follows c zero_cursor \<Longrightarrow> follows (transcript_end t) e \<Longrightarrow>
     \<exists>ms. map (page_card t running n cancelled cancelable) rs = map Inr ms
       \<and> concat (map cm_log ms) = slice (cu_process c) (cu_process e) (process_text t)
       \<and> concat (map (\<lambda>m. text_of (cm_segments m)) ms) = slice (cu_reply c) (cu_reply e) (text_of (tr_segments t))"
proof (induction rs arbitrary: c)
  case Nil
  then show ?case by (intro exI [of _ "[]"]) (simp add: slice_empty)
next
  case (Cons r rs)
  let ?d = "rp_end r"
  have d: "rp_start r = c" "receipt_chain ?d rs e" and o: "follows ?d c" using Cons.prems(1) by simp_all
  have o': "follows e ?d" by (rule receipts_mono [OF d(2)])
  have z: "follows ?d zero_cursor" and u: "follows (transcript_end t) ?d"
    using o o' Cons.prems(2,3) by (auto intro: follows_trans)
  obtain m where m: "page_card t running n cancelled cancelable r = Inr m"
      "cm_log m = slice (cu_process c) (cu_process ?d) (process_text t)"
      "text_of (cm_segments m) = slice (cu_reply c) (cu_reply ?d) (text_of (tr_segments t))"
    using sealed_card_ok [OF Cons.prems(2) o u, of running n cancelled cancelable] d by (auto simp: page_card_def)
  obtain ms where ms: "map (page_card t running n cancelled cancelable) rs = map Inr ms"
      "concat (map cm_log ms) = slice (cu_process ?d) (cu_process e) (process_text t)"
      "concat (map (\<lambda>m. text_of (cm_segments m)) ms) = slice (cu_reply ?d) (cu_reply e) (text_of (tr_segments t))"
    using Cons.IH [OF d(2) z Cons.prems(3)] by auto
  have "slice (cu_process c) (cu_process ?d) s @ slice (cu_process ?d) (cu_process e) s = slice (cu_process c) (cu_process e) s"
    "slice (cu_reply c) (cu_reply ?d) s @ slice (cu_reply ?d) (cu_reply e) s = slice (cu_reply c) (cu_reply e) s" for s
    using o o' Cons.prems(2) by (auto simp: follows_def zero_cursor_def intro!: slice_join)
  then show ?case using m ms by (intro exI [of _ "m # ms"]) simp
qed

lemma sealed_reach:
  fixes xs :: "page_op list"
  defines "l \<equiv> ps_ledger (run_ops page_step new_page_state xs)"
  shows "sealed_chain zero_cursor (sealed_of l) (sealed_end l)"
    and "sealed_receipts l = Inr (map receipt_of (sealed_of l))"
    and "require_receipts (map receipt_of (sealed_of l)) = Inr (map receipt_of (sealed_of l))"
    and "\<forall>p \<in> set (sealed_of l). page_wf p \<and> pg_status p = Sealed"
proof -
  have "ledger_wf l" using ledgers.reach_inv [of xs] by (simp add: page_inv_def l_def)
  then obtain e where e: "sealed_chain zero_cursor (sealed_of l) e" "sealed_receipts l = Inr (map receipt_of (sealed_of l))"
      "require_receipts (map receipt_of (sealed_of l)) = Inr (map receipt_of (sealed_of l))"
      "\<forall>p \<in> set (sealed_of l). page_wf p \<and> pg_status p = Sealed"
    by (rule wf_sealed)
  then show "sealed_chain zero_cursor (sealed_of l) (sealed_end l)" using chain_end [OF e(1)] by (simp add: sealed_end_def)
  show "sealed_receipts l = Inr (map receipt_of (sealed_of l))"
    "require_receipts (map receipt_of (sealed_of l)) = Inr (map receipt_of (sealed_of l))"
    "\<forall>p \<in> set (sealed_of l). page_wf p \<and> pg_status p = Sealed" using e by simp_all
qed

end
