(* ===== verification/Execution_Properties.thy ===== *)
theory Execution_Properties
  imports Page_Receipts
begin

text \<open>
  The properties of the presentation of a running execution: the transcript alone, the page ledger alone,
  and both together, where the cards of the confirmed pages tile the transcript.
\<close>

section \<open>Properties of the transcript\<close>

text \<open>
  C34. A slice of the reply raises exactly when its range is not inside the transcript, and otherwise
  holds precisely the characters of the range, with no empty segment and a divider only between two
  assistant segments.
\<close>

theorem slices_are_exact:
  "(case reply_segments_between t lo hi of
      Inl x \<Rightarrow> x = (if lo < 0 \<or> hi < lo then RangeInvalid else RangeExceeds) \<and> \<not> (0 \<le> lo \<and> lo \<le> hi \<and> hi \<le> reply_chars t)
    | Inr r \<Rightarrow> 0 \<le> lo \<and> lo \<le> hi \<and> hi \<le> reply_chars t \<and> text_of r = slice lo hi (text_of (tr_segments t)) \<and> tidy r)"
proof (cases "reply_segments_between t lo hi")
  case (Inl x)
  then have "\<not> (0 \<le> lo \<and> lo \<le> hi \<and> hi \<le> reply_chars t)"
    using segments_between_text [of "tr_segments t" lo hi "snd (walk_segments (tr_segments t) lo hi 0 False [])"]
    by (simp add: reply_segments_between_def reply_chars_text)
  then show ?thesis
    using Inl by (auto simp: reply_segments_between_def segments_between_def split: if_splits prod.splits)
next
  case (Inr r)
  then have "segments_between (tr_segments t) lo hi = Inr r" by (simp add: reply_segments_between_def)
  from between_slice [OF this] segments_between_text [THEN iffD1, OF this] show ?thesis
    by (simp add: Inr reply_chars_text)
qed

text \<open>
  After any sequence of operations the transcript passes the checks of its snapshot, which restores it
  unchanged; a completion never raises, whatever it is given; and the segments stay tidy.
\<close>

theorem reachable_transcript:
  "let t = run_ops transcript_step new_transcript xs in
     transcript_snapshot t = Inr t \<and> from_snapshot t = t \<and> tidy (tr_segments t)
      \<and> (\<forall>s candidate item. snd (reconcile_assistant_text s candidate item t) = Inr True)"
proof -
  let ?t = "run_ops transcript_step new_transcript xs"
  have i: "transcript_inv ?t" by (rule transcripts.reach_inv)
  have a: "is_assistant (tr_segments ?t ! k)" if k: "tr_active_reply ?t = Some k" for k
  proof -
    have l: "Suc k = length (tr_segments ?t)" "tidy (tr_segments ?t)" using i k by (auto simp: transcript_inv_def)
    then have "tr_segments ?t ! k = last (tr_segments ?t)" by (metis diff_Suc_1 last_conv_nth length_0_conv nat.simps(3))
    then show ?thesis using l by (auto simp: tidy_def)
  qed
  have "index_ok (tr_active_reply ?t) (length (tr_segments ?t))"
    using i by (auto simp: transcript_inv_def index_ok_def split: option.split)
  moreover have "index_ok (tr_active_process ?t) (length (tr_blocks ?t))"
    using i by (auto simp: transcript_inv_def index_ok_def split: option.split)
  moreover have "tr_active_reply ?t = None \<or> tr_active_process ?t = None"
    using i by (cases "tr_active_reply ?t") (auto simp: transcript_inv_def)
  ultimately have "snapshot_checks ?t"
    using a by (auto simp: snapshot_checks_def split: option.split)
  then show ?thesis
    using i reconcile_ok [OF i] by (simp add: Let_def transcript_snapshot_def from_snapshot_def transcript_inv_def)
qed

text \<open>
  C30. Where a reachable transcript holds the coordinate of a completed reply, the interval it names matches
  the reply exactly: the slice is that one reply and nothing else, it ends the transcript, and the
  terminal evidence is that reply, not an error.
\<close>

theorem completed_reply_is_trailing:
  assumes "tr_coordinate (run_ops transcript_step new_transcript xs) = Some c"
  shows "let t = run_ops transcript_step new_transcript xs in
     terminal_agent_reply_interval t (rc_raw c) = (Some (rc_start c, rc_end c), Matched) \<and> rc_end c = reply_chars t
      \<and> reply_segments_between t (rc_start c) (rc_end c) = Inr [Assistant (rc_raw c)]
      \<and> terminal_reply_evidence t = Some (AgentReply (rc_raw c))"
proof -
  have i: "transcript_inv (run_ops transcript_step new_transcript xs)" by (rule transcripts.reach_inv)
  then have "coordinate_ok (run_ops transcript_step new_transcript xs) c" using assms by (simp add: transcript_inv_def)
  then show ?thesis using completed_interval [OF i assms] by (simp add: Let_def coordinate_ok_def)
qed

text \<open>
  C31. Marked work withdraws a completed reply: after it, until another candidate completes, the transcript has
  no agent evidence and no reply interval, whatever else is written.
\<close>

theorem work_withdraws_the_reply:
  assumes "marks_work x" and "list_all (\<lambda>x. \<not> completes_candidate x) ys"
  shows "let t = run_ops transcript_step new_transcript (xs @ x # ys) in
     (case terminal_reply_evidence t of Some (AgentReply s) \<Rightarrow> False | _ \<Rightarrow> True)
      \<and> terminal_agent_reply_interval t s = (None, CoordinateUnavailable)"
proof -
  let ?u = "transcript_step (run_ops transcript_step new_transcript xs) x"
  have i: "transcript_inv ?u" by (rule transcript_step_inv [OF transcripts.reach_inv])
  have "no_candidate (run_ops transcript_step ?u ys)"
    by (rule work_done.fact_run [OF i work_no_candidate [OF assms(1)] assms(2)])
  then show ?thesis
    by (auto simp: run_ops_append Let_def no_candidate_def terminal_reply_evidence_def terminal_agent_reply_interval_def
        split: option.split)
qed

section \<open>Witnesses for the transcript\<close>

text \<open>A reply in two deltas, completed as a candidate, and then work.\<close>

definition demo_reply :: "transcript_op list" where
  "demo_reply = [AssistantDelta ''he'', StartProcess ''ls'' True, AssistantDelta ''y'', AssistantDelta ''o'',
     ReconcileText ''yo!'' True ''i1'']"

lemma demo_reply_coordinate:
  "tr_coordinate (run_ops transcript_step new_transcript demo_reply) = Some \<lparr>rc_item = ''i1'', rc_raw = ''yo!'', rc_start = 2, rc_end = 5\<rparr>"
  by code_simp

lemma completed_reply_is_trailing_witness:
  "\<exists>t :: transcript. reply_segments_between t 2 5 = Inr [Assistant ''yo!'']
     \<and> terminal_reply_evidence t = Some (AgentReply ''yo!'')"
  using completed_reply_is_trailing [OF demo_reply_coordinate] unfolding Let_def by auto

lemma work_withdraws_the_reply_witness:
  "terminal_agent_reply_interval (run_ops transcript_step new_transcript (demo_reply @ [MarkWork, TerminalError ''boom''])) ''yo!''
     = (None, CoordinateUnavailable)"
proof -
  have "marks_work MarkWork" "list_all (\<lambda>x. \<not> completes_candidate x) [TerminalError ''boom'']" by simp_all
  from work_withdraws_the_reply [OF this, of demo_reply "''yo!''"] show ?thesis unfolding Let_def by blast
qed

section \<open>Properties of the pages\<close>

text \<open>
  C29. Whatever is asked of a ledger that was not cleared, its sealed pages stay as they were, in
  front of any later ones; and every reachable ledger and each of its pages passes its constructor again.
\<close>

theorem sealed_pages_are_permanent:
  fixes xs ys :: "page_op list"
  defines "l \<equiv> ps_ledger (run_ops page_step new_page_state xs)" and "l' \<equiv> ps_ledger (run_ops page_step new_page_state (xs @ ys))"
  assumes "ClearPages \<notin> set ys"
  shows "(\<exists>later. sealed_of l' = sealed_of l @ later) \<and> make_ledger l' = Inr l' \<and> (\<forall>p. p \<in> set l' \<longrightarrow> make_page p = Inr p)"
proof -
  have w: "ledger_wf l'" using ledgers.reach_inv [of "xs @ ys"] by (simp add: l'_def page_inv_def)
  then have "\<forall>p. p \<in> set l' \<longrightarrow> make_page p = Inr p" by (simp add: ledger_wf_def make_page_fix)
  then show ?thesis
    using sealed_run [OF ledgers.reach_inv assms(3), of xs] make_ledger_fix [OF w] by (simp add: l_def l'_def run_ops_append)
qed


text \<open>
  C33. The coverage of a terminal reply is exact: over receipts in order, its verdict is true precisely when every
  character of the reply lies in the range of some confirmed page.
\<close>

theorem coverage_is_exact:
  assumes "list_all (\<lambda>r. make_receipt (rp_message r) (rp_start r) (rp_end r) = Inr r) rs"
    and "terminal_reply_coverage rs lo hi = Inr (m, full)"
  shows "full \<longleftrightarrow> (\<forall>n. lo \<le> n \<and> n < hi \<longrightarrow> (\<exists>r. r \<in> set rs \<and> cu_reply (rp_start r) \<le> n \<and> n < cu_reply (rp_end r)))"
proof -
  have "list_all ordered_receipt rs"
    using assms(1) by (auto simp: list_all_iff make_receipt_def bindr_eq_Inr ordered_receipt_def follows_def split: if_splits)
  from coverage_exact [OF assms(2) this] show ?thesis by (auto simp: covers_def)
qed

text \<open>
  The confirmed pages of a reachable ledger tile the transcript: their receipts are accepted, their cards put
  together are the process log and the reply up to the last sealed cursor, character by character,
  and the coverage of a reply is full precisely when the reply ends there or before.
\<close>

theorem sealed_pages_tile_the_transcript:
  fixes xs :: "page_op list"
  defines "l \<equiv> ps_ledger (run_ops page_step new_page_state xs)"
  assumes "follows (transcript_end t) (sealed_end l)" and "0 \<le> lo" and "lo < hi"
  shows "\<exists>rs ms m. sealed_receipts l = Inr rs \<and> map (page_card t running n cancelled cancelable) rs = map Inr ms
     \<and> concat (map cm_log ms) = slice 0 (cu_process (sealed_end l)) (process_text t)
     \<and> concat (map (\<lambda>m. text_of (cm_segments m)) ms) = slice 0 (cu_reply (sealed_end l)) (text_of (tr_segments t))
     \<and> terminal_reply_coverage rs lo hi = Inr (m, hi \<le> cu_reply (sealed_end l))"
proof -
  let ?rs = "map receipt_of (sealed_of l)"
  note k = sealed_reach [of xs, folded l_def]
  have c: "receipt_chain zero_cursor ?rs (sealed_end l)" by (rule chain_receipts [OF k(1,4)])
  from chain_cards [OF c follows_refl assms(2), of running n cancelled cancelable] k(2) chain_coverage [OF c k(3) assms(3,4)]
  show ?thesis by (auto simp: zero_cursor_def)
qed

section \<open>Witnesses for the pages\<close>

text \<open>Two pages: the first sealed by a rollover at the third reply character, the second opened.\<close>

definition demo_opening :: page where
  "demo_opening = \<lparr>pg_generation = 1, pg_attempt = ''a1'', pg_message = [], pg_start = zero_cursor, pg_end = None,
     pg_status = Opening, pg_reconciled = False, pg_addr = 0\<rparr>"

definition demo_active :: page where
  "demo_active = demo_opening\<lparr>pg_message := ''m1'', pg_status := ActivePage, pg_addr := 2\<rparr>"

definition demo_rollover :: page where
  "demo_rollover = \<lparr>pg_generation = 2, pg_attempt = ''a2'', pg_message = [], pg_start = \<lparr>cu_process = 1, cu_reply = 3\<rparr>, pg_end = None,
     pg_status = Opening, pg_reconciled = False, pg_addr = 4\<rparr>"

definition demo_pages :: "page_op list" where
  "demo_pages = [PrepareInitial ''a1'' [], ActivateOpening demo_opening ''m1'', PrepareRollover ''a2'' \<lparr>cu_process = 1, cu_reply = 3\<rparr>]"

definition demo_rolled :: "page_op list" where
  "demo_rolled = [ActivateRollover demo_active demo_rollover ''m2'', SealActive \<lparr>cu_process = 2, cu_reply = 5\<rparr>]"

definition demo_sealed :: "page list" where
  "demo_sealed =
     [demo_active\<lparr>pg_end := Some \<lparr>cu_process = 1, cu_reply = 3\<rparr>, pg_status := Sealed, pg_addr := 6\<rparr>,
      demo_rollover\<lparr>pg_message := ''m2'', pg_end := Some \<lparr>cu_process = 2, cu_reply = 5\<rparr>, pg_status := Sealed, pg_addr := 8\<rparr>]"

lemma demo_transitions:
  "page_transition (PrepareInitial ''a1'' []) 0 [] = Inr [demo_opening]"
  "page_transition (ActivateOpening demo_opening ''m1'') 2 [demo_opening] = Inr [demo_active]"
  "page_transition (PrepareRollover ''a2'' \<lparr>cu_process = 1, cu_reply = 3\<rparr>) 4 [demo_active] = Inr [demo_active, demo_rollover]"
  "page_transition (ActivateRollover demo_active demo_rollover ''m2'') 6 [demo_active, demo_rollover]
     = Inr [demo_sealed ! 0, demo_rollover\<lparr>pg_message := ''m2'', pg_status := ActivePage, pg_addr := 7\<rparr>]"
  "page_transition (SealActive \<lparr>cu_process = 2, cu_reply = 5\<rparr>) 8
     [demo_sealed ! 0, demo_rollover\<lparr>pg_message := ''m2'', pg_status := ActivePage, pg_addr := 7\<rparr>] = Inr demo_sealed"
  by code_simp+

lemma demo_pages_run: "run_ops page_step new_page_state demo_pages = \<lparr>ps_ledger = [demo_active, demo_rollover], ps_next_addr = 6\<rparr>"
  using demo_transitions by (simp add: demo_pages_def page_step_def new_page_state_def empty_ledger_def del: add_2_eq_Suc add_2_eq_Suc')

lemma demo_rolled_run:
  "ps_ledger (run_ops page_step new_page_state (demo_pages @ demo_rolled)) = demo_sealed"
  using demo_transitions by (simp add: run_ops_append demo_pages_run demo_rolled_def page_step_def del: add_2_eq_Suc add_2_eq_Suc')

lemma demo_sealed_of: "sealed_of demo_sealed = demo_sealed" "map pg_message demo_sealed = [''m1'', ''m2'']"
  "sealed_end demo_sealed = \<lparr>cu_process = 2, cu_reply = 5\<rparr>"
  by code_simp+

lemma sealed_pages_are_permanent_witness:
  "\<exists>later. demo_sealed = sealed_of [demo_active, demo_rollover] @ later"
proof -
  have "ClearPages \<notin> set demo_rolled" by (simp add: demo_rolled_def)
  from sealed_pages_are_permanent [OF this, of demo_pages] show ?thesis
    by (simp add: demo_rolled_run demo_pages_run demo_sealed_of)
qed


definition demo_receipts :: "page_receipt list" where
  "demo_receipts = [\<lparr>rp_message = ''m1'', rp_start = zero_cursor, rp_end = \<lparr>cu_process = 1, cu_reply = 3\<rparr>\<rparr>,
     \<lparr>rp_message = ''m2'', rp_start = \<lparr>cu_process = 1, cu_reply = 3\<rparr>, rp_end = \<lparr>cu_process = 2, cu_reply = 5\<rparr>\<rparr>]"

lemma coverage_is_exact_witness:
  "\<exists>r. r \<in> set demo_receipts \<and> cu_reply (rp_start r) \<le> 4 \<and> 4 < cu_reply (rp_end r)"
proof -
  have a: "list_all (\<lambda>r. make_receipt (rp_message r) (rp_start r) (rp_end r) = Inr r) demo_receipts" by code_simp
  have b: "terminal_reply_coverage demo_receipts 2 5 = Inr (demo_receipts, True)" by code_simp
  from coverage_is_exact [OF a b] show ?thesis by auto
qed

lemma sealed_pages_tile_the_transcript_witness:
  "\<exists>ms :: card_model list. concat (map cm_log ms) = ''ls'' \<and> concat (map (\<lambda>m. text_of (cm_segments m)) ms) = ''heyo!''"
proof -
  let ?t = "run_ops transcript_step new_transcript [AssistantDelta ''he'', StartProcess ''ls'' True, AssistantDelta ''yo!'']"
  have f: "follows (transcript_end ?t) \<lparr>cu_process = 2, cu_reply = 5\<rparr>" by code_simp
  have e: "follows (transcript_end ?t) (sealed_end (ps_ledger (run_ops page_step new_page_state (demo_pages @ demo_rolled))))"
    unfolding demo_rolled_run demo_sealed_of by (rule f)
  have v: "slice 0 2 (process_text ?t) = ''ls''" "slice 0 5 (text_of (tr_segments ?t)) = ''heyo!''" by code_simp+
  have b: "(0::int) \<le> 2" "(2::int) < 5" by simp_all
  from sealed_pages_tile_the_transcript [OF e b, of False 0 False True]
  show ?thesis unfolding demo_rolled_run demo_sealed_of page_cursor.simps v by blast
qed

end
