(* ===== verification/Terminal_Pages_Facts.thy ===== *)
theory Terminal_Pages_Facts
  imports Page_Receipts
begin

text \<open>
  Lemmas on the presentation of a completed turn: the binary search, one published page, one turn of the
  loop and the whole loop (\<open>good_end\<close>), a pending page that is confirmed, and the presentation as a
  whole (\<open>sound_end\<close>, \<open>complete_end\<close>).
\<close>

section \<open>The longest part that fits\<close>

lemma fit_search_best:
  assumes "\<And>k. low \<le> k \<Longrightarrow> k \<le> high \<Longrightarrow> fits k = Inr (P k)"
    and "\<And>i j. 0 \<le> i \<Longrightarrow> i \<le> j \<Longrightarrow> j \<le> N \<Longrightarrow> P j \<Longrightarrow> P i"
    and "P best" and "0 \<le> best" and "low = best + 1" and "high \<le> N" and "\<And>k. high < k \<Longrightarrow> k \<le> N \<Longrightarrow> \<not> P k"
  shows "\<exists>n. fit_search fits low high best = Inr n \<and> best \<le> n \<and> P n \<and> (\<forall>k. n < k \<longrightarrow> k \<le> N \<longrightarrow> \<not> P k)"
  using assms
proof (induction fits low high best rule: fit_search.induct)
  case (1 fits low high best)
  let ?m = "(low + high) div 2"
  show ?case
  proof (cases "high < low")
    case True
    then have "fit_search fits low high best = Inr best" by (simp add: fit_search.simps [of fits low])
    then show ?thesis using "1.prems"(3,5,7) True by (intro exI [of _ best]) auto
  next
    case False
    then have m: "low \<le> ?m" "?m \<le> high" by auto
    then have f: "fits ?m = Inr (P ?m)" using "1.prems"(1) by blast
    show ?thesis
    proof (cases "P ?m")
      case True
      have "\<exists>n. fit_search fits (?m + 1) high ?m = Inr n \<and> ?m \<le> n \<and> P n \<and> (\<forall>k. n < k \<longrightarrow> k \<le> N \<longrightarrow> \<not> P k)"
        by (rule "1.IH"(1) [OF False f True]) (use "1.prems" True m in auto)
      moreover have "fit_search fits low high best = fit_search fits (?m + 1) high ?m"
        using False f True by (simp add: fit_search.simps [of fits low])
      ultimately show ?thesis using m "1.prems"(5) by (auto intro: order_trans)
    next
      case F: False
      have "\<exists>n. fit_search fits low (?m - 1) best = Inr n \<and> best \<le> n \<and> P n \<and> (\<forall>k. n < k \<longrightarrow> k \<le> N \<longrightarrow> \<not> P k)"
      proof (rule "1.IH"(2) [OF False f F])
        show "\<not> P k" if "?m - 1 < k" "k \<le> N" for k
          using that F "1.prems"(2) [of ?m k] m "1.prems"(4,5) by auto
      qed (use "1.prems" m in auto)
      moreover have "fit_search fits low high best = fit_search fits low (?m - 1) best"
        using False f F by (simp add: fit_search.simps [of fits low])
      ultimately show ?thesis by simp
    qed
  qed
qed

lemma build_in_range:
  assumes "follows a zero_cursor" and "follows b a" and "follows (transcript_end t) b"
  shows "\<exists>m. build_execution_card_model (WholeView t) running n cancelled cancelable (Some a) (Some b) = Inr m"
  using sealed_card_ok [OF assms] by blast

lemma fits_at_total:
  assumes "follows a zero_cursor" and "follows b a" and "follows (transcript_end t) b"
    and "1 \<le> pb_payload B" and "1 \<le> pb_components B"
    and "0 \<le> k" and "k \<le> (cu_process b - cu_process a) + (cu_reply b - cu_reply a)"
  shows "\<exists>f. fits_at B (WholeView t) running n cancelled cancelable a (cu_process b - cu_process a) k = Inr f"
proof -
  let ?c = "cursor_at a (cu_process b - cu_process a) k"
  have "follows ?c a" "follows b ?c" using assms(2,6,7) by (auto simp: follows_def cursor_at_def min_def max_def)
  then obtain m where "build_execution_card_model (WholeView t) running n cancelled cancelable (Some a) (Some ?c) = Inr m"
    using build_in_range [OF assms(1)] follows_trans [OF assms(3)] by blast
  then show ?thesis using assms(4,5) by (simp add: fits_at_def execution_card_model_fits_page_def)
qed

lemma cursor_at_inj: "cursor_at a p i = cursor_at a p j \<Longrightarrow> 0 \<le> p \<Longrightarrow> 0 \<le> i \<Longrightarrow> 0 \<le> j \<Longrightarrow> i = j"
  by (auto simp: cursor_at_def min_def max_def split: if_splits)

lemma cursor_at_zero: "0 \<le> p \<Longrightarrow> cursor_at a p 0 = a"
  by (simp add: cursor_at_def)

section \<open>One published page\<close>

definition shown_in :: "transcript \<Rightarrow> terminal_log \<Rightarrow> page_receipt \<Rightarrow> bool" where
  "shown_in t g r =
     (\<exists>n cancelled m. page_card t False n cancelled True r = Inr m \<and> PagePublished (rp_message r) m True \<in> set g)"

lemma shown_mono: "shown_in t g r \<Longrightarrow> shown_in t (g @ h) r"
  by (auto simp: shown_in_def)

definition proper_id :: "string \<Rightarrow> bool" where
  "proper_id m = (strip m = m \<and> m \<noteq> [])"

lemma publish_page_ok:
  assumes "follows a zero_cursor" and "follows b a" and "follows (transcript_end t) b" and "proper_id message"
  obtains m ok where "publish_page E t cancelled message a b g = (g @ [PagePublished message m ok],
      if \<not> ok then Inl PublishFailed else Inr \<lparr>rp_message = message, rp_start = a, rp_end = b\<rparr>)"
    and "ok \<Longrightarrow> shown_in t (g @ [PagePublished message m ok]) \<lparr>rp_message = message, rp_start = a, rp_end = b\<rparr>"
proof -
  obtain m where m: "build_execution_card_model (WholeView t) False (te_elapsed E) cancelled True (Some a) (Some b) = Inr m"
    using build_in_range [OF assms(1-3)] by blast
  have r: "make_receipt message a b = Inr \<lparr>rp_message = message, rp_start = a, rp_end = b\<rparr>"
    using assms(2,4) by (simp add: make_receipt_def require_text_def proper_id_def)
  show ?thesis
    by (rule that [of m "te_publish E (length g)"])
      (use m r in \<open>auto simp: publish_page_def publish_execution_model_def shown_in_def page_card_def\<close>)
qed

section \<open>The loop\<close>

definition allowed_failure :: "terminal_exn \<Rightarrow> bool" where
  "allowed_failure x = (x \<in> {CardFailed LimitInvalid, CardFailed BudgetExceeded, PaginationStuck, PublishFailed})"

text \<open>The receipts so far, the page the next card goes to, and the ids it must not repeat.\<close>

definition turn_inv :: "transcript \<Rightarrow> string \<Rightarrow> page_cursor \<Rightarrow> page_receipt list \<Rightarrow> string list \<Rightarrow> bool" where
  "turn_inv t message a rs confirmed =
     (receipt_chain zero_cursor rs a \<and> follows (transcript_end t) a \<and> distinct (map rp_message rs)
      \<and> set (map rp_message rs) \<subseteq> set confirmed \<and> message \<notin> set confirmed \<and> proper_id message)"

definition unconfirmed_end :: "terminal_log \<Rightarrow> bool" where
  "unconfirmed_end g = (g \<noteq> [] \<and> (case last g of PageSent attempt \<Rightarrow> True | _ \<Rightarrow> False))"

text \<open>How a presentation may end, having appended receipts to those in \<open>rs\<close> from the log \<open>g\<close> on.\<close>

definition good_end ::
  "transcript \<Rightarrow> page_cursor \<Rightarrow> page_receipt list \<Rightarrow> terminal_log \<Rightarrow> terminal_log \<times> (terminal_exn + page_receipt list) \<Rightarrow> bool" where
  "good_end t a rs g r =
     ((\<exists>h. fst r = g @ h) \<and>
      (case snd r of
         Inl x \<Rightarrow> allowed_failure x
       | Inr rs' \<Rightarrow> require_receipts rs' = Inr rs' \<and> (\<exists>new e. rs' = rs @ new \<and> receipt_chain a new e \<and> follows (transcript_end t) e
           \<and> (\<forall>q \<in> set new. shown_in t (fst r) q) \<and> (e = transcript_end t \<or> unconfirmed_end (fst r)))))"

lemma map_sum_required: "require_receipts rs = Inr rs \<Longrightarrow> confirmed_receipts g rs = (g, Inr rs)"
  by (simp add: confirmed_receipts_def)

lemma chain_zero: "receipt_chain zero_cursor rs a \<Longrightarrow> follows a zero_cursor"
  by (rule receipts_mono)

lemma turn_extended:
  assumes i: "turn_inv t message a rs confirmed" and b: "follows b a" "follows (transcript_end t) b"
  defines "r \<equiv> \<lparr>rp_message = message, rp_start = a, rp_end = b\<rparr>"
  shows "receipt_chain zero_cursor (rs @ [r]) b" and "distinct (map rp_message (rs @ [r]))"
    and "require_receipts (rs @ [r]) = Inr (rs @ [r])" and "receipt_chain a [r] b"
    and "set (map rp_message (rs @ [r])) \<subseteq> set (message # confirmed)"
proof -
  show c: "receipt_chain zero_cursor (rs @ [r]) b" using i b by (simp add: turn_inv_def r_def receipts_append)
  show d: "distinct (map rp_message (rs @ [r]))" using i by (auto simp: turn_inv_def r_def)
  show "require_receipts (rs @ [r]) = Inr (rs @ [r])" by (rule chain_required [OF c d])
  show "receipt_chain a [r] b" using b by (simp add: r_def)
  show "set (map rp_message (rs @ [r])) \<subseteq> set (message # confirmed)" using i by (auto simp: turn_inv_def r_def)
qed

lemma budget_failure: "execution_card_model_fits_page B m = Inl x \<Longrightarrow> x = LimitInvalid"
  by (auto simp: execution_card_model_fits_page_def split: if_splits)

lemma full_page_failure:
  assumes "follows a zero_cursor" and "follows (transcript_end t) a" and "full_page_fits E t cancelled a = Inl x"
  shows "allowed_failure (CardFailed x)"
proof -
  obtain m where "build_execution_card_model (WholeView t) False (te_elapsed E) cancelled True (Some a) (Some (transcript_end t)) = Inr m"
    using build_in_range [OF assms(1,2) follows_refl] by blast
  then show ?thesis using assms(3) budget_failure by (auto simp: full_page_fits_def allowed_failure_def)
qed

lemma fit_search_failure: "fit_search fits low high best = Inl x \<Longrightarrow> \<exists>k. low \<le> k \<and> k \<le> high \<and> fits k = Inl x"
proof (induction fits low high best rule: fit_search.induct)
  case (1 fits low high best)
  let ?m = "(low + high) div 2"
  have n: "\<not> high < low" using "1.prems" by (auto simp: fit_search.simps [of fits low])
  then have m: "low \<le> ?m" "?m \<le> high" by auto
  show ?case
  proof (cases "fits ?m")
    case (Inl y)
    then have "y = x" using "1.prems" n by (simp add: fit_search.simps [of fits low])
    then show ?thesis using Inl m by blast
  next
    case (Inr b)
    show ?thesis
    proof (cases b)
      case True
      then have "fit_search fits (?m + 1) high ?m = Inl x" using "1.prems" n Inr by (simp add: fit_search.simps [of fits low])
      then obtain k where k: "?m + 1 \<le> k" "k \<le> high" "fits k = Inl x" using "1.IH"(1) [OF n Inr True] by blast
      show ?thesis by (rule exI [of _ k]) (use k m in simp)
    next
      case False
      then have "fit_search fits low (?m - 1) best = Inl x" using "1.prems" n Inr by (simp add: fit_search.simps [of fits low])
      then obtain k where k: "low \<le> k" "k \<le> ?m - 1" "fits k = Inl x" using "1.IH"(2) [OF n Inr False] by blast
      show ?thesis by (rule exI [of _ k]) (use k m in simp)
    qed
  qed
qed

lemma fit_page_failure:
  assumes z: "follows a zero_cursor" and o: "follows b a" and u: "follows (transcript_end t) b"
    and run: "fit_execution_card_page_end B (WholeView t) running n cancelled cancelable a b = Inl x"
  shows "x = LimitInvalid \<or> x = BudgetExceeded"
proof -
  let ?p = "cu_process b - cu_process a" and ?r = "cu_reply b - cu_reply a"
  have at: "y = LimitInvalid" if k: "0 \<le> k" "k \<le> ?p + ?r" and f: "fits_at B (WholeView t) running n cancelled cancelable a ?p k = Inl y" for k y
  proof -
    have "follows (cursor_at a ?p k) a" "follows b (cursor_at a ?p k)"
      using o k by (auto simp: follows_def cursor_at_def min_def max_def)
    then obtain m where "build_execution_card_model (WholeView t) running n cancelled cancelable (Some a) (Some (cursor_at a ?p k)) = Inr m"
      using build_in_range [OF z] follows_trans [OF u] by blast
    then show ?thesis using f budget_failure by (simp add: fits_at_def)
  qed
  have t: "0 \<le> ?p + ?r" using o by (simp add: follows_def)
  let ?fits = "fits_at B (WholeView t) running n cancelled cancelable a ?p"
  show ?thesis
  proof (cases "?fits 0")
    case (Inl y)
    then show ?thesis using run o at [of 0] t by (simp add: fit_execution_card_page_end_def Let_def)
  next
    case (Inr shell)
    show ?thesis
    proof (cases "fit_search ?fits 1 (?p + ?r) 0")
      case (Inl y)
      then obtain k where "1 \<le> k" "k \<le> ?p + ?r" "?fits k = Inl y" using fit_search_failure by blast
      then have "y = LimitInvalid" using at [of k y] by simp
      then show ?thesis using run o Inr Inl by (auto simp: fit_execution_card_page_end_def Let_def split: if_splits)
    next
      case (Inr best)
      then show ?thesis using run o \<open>?fits 0 = Inr shell\<close>
        by (auto simp: fit_execution_card_page_end_def Let_def split: if_splits)
    qed
  qed
qed

lemma good_failure: "allowed_failure x \<Longrightarrow> good_end t a rs g (g @ h, Inl x)"
  by (simp add: good_end_def)

lemma good_receipts:
  assumes "require_receipts (rs @ new) = Inr (rs @ new)" and "receipt_chain a new e" and "follows (transcript_end t) e"
    and "\<forall>q \<in> set new. shown_in t (g @ h) q" and "e = transcript_end t \<or> unconfirmed_end (g @ h)"
  shows "good_end t a rs g (confirmed_receipts (g @ h) (rs @ new))"
  using assms by (auto simp: good_end_def confirmed_receipts_def)

text \<open>What one turn of the loop does.\<close>

definition turn_result ::
  "transcript \<Rightarrow> page_cursor \<Rightarrow> page_receipt list \<Rightarrow> terminal_log \<Rightarrow> page_turn \<Rightarrow> bool" where
  "turn_result t a rs g turn =
     (case turn of
        Finished g1 r \<Rightarrow> good_end t a rs g (g1, r)
      | NextPage message b rs1 confirmed g1 \<Rightarrow>
          turn_inv t message b rs1 confirmed
          \<and> (\<exists>h q. g1 = g @ h \<and> rs1 = rs @ [q] \<and> receipt_chain a [q] b \<and> shown_in t g1 q))"

lemma made_proper: "make_outbound e m = Some r \<Longrightarrow> ob_message r \<noteq> [] \<Longrightarrow> proper_id (ob_message r)"
  by (auto simp: make_outbound_def proper_id_def split: if_splits)

lemma next_page_result:
  assumes i: "turn_inv t message a rs confirmed" and b: "follows b a" "follows (transcript_end t) b"
    and s: "shown_in t g1 \<lparr>rp_message = message, rp_start = a, rp_end = b\<rparr>" and g: "g1 = g @ h"
  shows "turn_result t a rs g (next_page E (rs @ [\<lparr>rp_message = message, rp_start = a, rp_end = b\<rparr>]) (message # confirmed) b g1)"
proof -
  let ?r = "\<lparr>rp_message = message, rp_start = a, rp_end = b\<rparr>" and ?at = "te_uuid E (length g1)"
  note x = turn_extended [OF i b]
  obtain sent where sent: "send_card E ?at g1 = (g1 @ [PageSent ?at], sent)" by (simp add: send_card_def)
  have sh: "shown_in t (g1 @ [PageSent ?at]) ?r" by (rule shown_mono [OF s])
  have stop: "turn_result t a rs g (finish_pages (confirmed_receipts (g1 @ [PageSent ?at]) (rs @ [?r])))"
    using good_receipts [OF x(3,4) b(2), of g "h @ [PageSent ?at]"] sh g
    by (simp add: turn_result_def finish_pages_def unconfirmed_end_def)
  show ?thesis
  proof (cases "sent = None \<or> \<not> outbound_ok (the sent) \<or> ob_message (the sent) = [] \<or> ob_message (the sent) \<in> set (message # confirmed)")
    case True
    then have "next_page E (rs @ [?r]) (message # confirmed) b g1 = finish_pages (confirmed_receipts (g1 @ [PageSent ?at]) (rs @ [?r]))"
      by (cases sent) (auto simp: next_page_def sent)
    then show ?thesis using stop by simp
  next
    case False
    then obtain r where r: "sent = Some r" "outbound_ok r" "ob_message r \<noteq> []" "ob_message r \<notin> set (message # confirmed)" by auto
    then obtain e m where "make_outbound e m = Some r" using sent by (auto simp: send_card_def split: option.splits prod.splits)
    then have p: "proper_id (ob_message r)" using made_proper r(3) by blast
    have n: "next_page E (rs @ [?r]) (message # confirmed) b g1
        = NextPage (ob_message r) b (rs @ [?r]) (message # confirmed) (g1 @ [PageSent ?at])"
      using r by (simp add: next_page_def sent)
    have v: "turn_inv t (ob_message r) b (rs @ [?r]) (message # confirmed)"
      unfolding turn_inv_def using x(1,2,5) b(2) r(4) p by blast
    show ?thesis unfolding n turn_result_def page_turn.case
      using v x(4) sh g by (auto intro!: exI [of _ "h @ [PageSent ?at]"])
  qed
qed

lemma present_page_result:
  assumes i: "turn_inv t message a rs confirmed"
  shows "turn_result t a rs g (present_page E t cancelled message a rs confirmed g)"
proof -
  have z: "follows a zero_cursor" and u: "follows (transcript_end t) a" and p: "proper_id message"
    using i chain_zero by (auto simp: turn_inv_def)
  show ?thesis
  proof (cases "full_page_fits E t cancelled a")
    case (Inl x)
    then show ?thesis using full_page_failure [OF z u Inl] good_failure [of _ t a rs g "[]"]
      by (simp add: present_page_def turn_result_def)
  next
    case (Inr full)
    show ?thesis
    proof (cases full)
      case True
      obtain m ok where pub: "publish_page E t cancelled message a (transcript_end t) g = (g @ [PagePublished message m ok],
          if \<not> ok then Inl PublishFailed else Inr \<lparr>rp_message = message, rp_start = a, rp_end = transcript_end t\<rparr>)"
        and sh: "ok \<Longrightarrow> shown_in t (g @ [PagePublished message m ok]) \<lparr>rp_message = message, rp_start = a, rp_end = transcript_end t\<rparr>"
        using publish_page_ok [OF z u follows_refl p] by blast
      note x = turn_extended [OF i u follows_refl]
      show ?thesis
        using True Inr pub sh good_receipts [OF x(3,4) follows_refl, of g "[PagePublished message m ok]"] good_failure [of PublishFailed t a rs g "[PagePublished message m ok]"]
        by (cases ok) (simp_all add: present_page_def turn_result_def finish_pages_def allowed_failure_def)
    next
      case False
      show ?thesis
      proof (cases "fit_execution_card_page_end (te_budget E) (WholeView t) False (te_elapsed E) False True a (transcript_end t)")
        case (Inl x)
        then have "allowed_failure (CardFailed x)" using fit_page_failure [OF z u follows_refl Inl] by (auto simp: allowed_failure_def)
        then show ?thesis using False Inr Inl good_failure [of _ t a rs g "[]"] by (simp add: present_page_def turn_result_def)
      next
        case fit: (Inr b)
        show ?thesis
        proof (cases "strictly_follows b a")
          case False': False
          then show ?thesis using False Inr fit good_failure [of PaginationStuck t a rs g "[]"]
            by (simp add: present_page_def turn_result_def allowed_failure_def)
        next
          case True
          then have b: "follows b a" "follows (transcript_end t) b" using fit_page_end_range [OF fit] by (auto simp: strictly_follows_def)
          obtain m ok where pub: "publish_page E t False message a b g = (g @ [PagePublished message m ok],
              if \<not> ok then Inl PublishFailed else Inr \<lparr>rp_message = message, rp_start = a, rp_end = b\<rparr>)"
            and sh: "ok \<Longrightarrow> shown_in t (g @ [PagePublished message m ok]) \<lparr>rp_message = message, rp_start = a, rp_end = b\<rparr>"
            using publish_page_ok [OF z b p] by blast
          show ?thesis
          proof (cases ok)
            case True': True
            from next_page_result [OF i b sh [OF True'] refl] show ?thesis
              using False Inr fit True pub True' by (simp add: present_page_def)
          next
            case F: False
            then show ?thesis using False Inr fit True pub good_failure [of PublishFailed t a rs g "[PagePublished message m ok]"]
              by (simp add: present_page_def turn_result_def allowed_failure_def)
          qed
        qed
      qed
    qed
  qed
qed

lemma good_later:
  assumes "good_end t b (rs @ [q]) (g @ h) r" and "receipt_chain a [q] b" and "shown_in t (g @ h) q"
  shows "good_end t a rs g r"
proof (cases "snd r")
  case (Inl x)
  then show ?thesis using assms(1) by (auto simp: good_end_def)
next
  case (Inr rs')
  then obtain k new e where n: "fst r = (g @ h) @ k" "require_receipts rs' = Inr rs'" "rs' = (rs @ [q]) @ new" "receipt_chain b new e"
      "follows (transcript_end t) e" "\<forall>q \<in> set new. shown_in t (fst r) q" "e = transcript_end t \<or> unconfirmed_end (fst r)"
    using assms(1) unfolding good_end_def by auto
  have c: "receipt_chain a (q # new) e" using assms(2) n(4) by auto
  have s: "\<forall>x \<in> set (q # new). shown_in t (fst r) x" using n(1,6) shown_mono [OF assms(3), of k] by simp
  have "rs' = rs @ (q # new)" using n(3) by simp
  then have "\<exists>new e. rs' = rs @ new \<and> receipt_chain a new e \<and> follows (transcript_end t) e
      \<and> (\<forall>q \<in> set new. shown_in t (fst r) q) \<and> (e = transcript_end t \<or> unconfirmed_end (fst r))"
    using c s n(5,7) by blast
  then show ?thesis using n(1,2) Inr by (simp add: good_end_def)
qed

lemma present_pages_end:
  "turn_inv t message a rs confirmed \<Longrightarrow> good_end t a rs g (present_pages E t cancelled message a rs confirmed g)"
proof (induction E t cancelled message a rs confirmed g rule: present_pages.induct)
  case (1 E t cancelled message a rs confirmed g)
  note k = present_page_result [OF "1.prems", of g E cancelled]
  show ?case
  proof (cases "present_page E t cancelled message a rs confirmed g")
    case (Finished g1 r)
    then show ?thesis using k by (simp add: turn_result_def present_pages.simps [of E])
  next
    case (NextPage m1 b rs1 c1 g1)
    then obtain h q where q: "turn_inv t m1 b rs1 c1" "g1 = g @ h" "rs1 = rs @ [q]" "receipt_chain a [q] b" "shown_in t g1 q"
      using k by (auto simp: turn_result_def)
    have e: "present_pages E t cancelled message a rs confirmed g = present_pages E t cancelled m1 b rs1 c1 g1"
      using NextPage by (simp add: present_pages.simps [of E t cancelled message])
    have "good_end t b rs1 g1 (present_pages E t cancelled m1 b rs1 c1 g1)" by (rule "1.IH" [OF NextPage q(1)])
    then have "good_end t a rs g (present_pages E t cancelled m1 b rs1 c1 g1)"
      unfolding q(2,3) by (rule good_later [OF _ q(4)]) (use q(2,5) in simp)
    then show ?thesis using e by simp
  qed
qed

section \<open>The whole presentation\<close>

definition sound_end :: "transcript \<Rightarrow> page_receipt list \<Rightarrow> terminal_log \<times> (terminal_exn + page_receipt list) \<Rightarrow> bool" where
  "sound_end t rs r =
     (case snd r of
        Inl x \<Rightarrow> x = StillRunning \<or> x = Regressed \<or> allowed_failure x
      | Inr rs' \<Rightarrow> require_receipts rs' = Inr rs' \<and> (\<exists>new e. rs' = rs @ new \<and> receipt_chain zero_cursor rs' e
           \<and> (\<forall>q \<in> set new. shown_in t (fst r) q)))"

definition complete_end :: "transcript \<Rightarrow> terminal_log \<times> (terminal_exn + page_receipt list) \<Rightarrow> bool" where
  "complete_end t r =
     (case snd r of
        Inl x \<Rightarrow> True
      | Inr rs \<Rightarrow> receipt_chain zero_cursor rs (transcript_end t) \<or> unconfirmed_end (fst r))"

lemma good_sound:
  assumes c: "receipt_chain zero_cursor (rs @ before) a" and s: "\<forall>q \<in> set before. shown_in t g q"
    and good: "good_end t a (rs @ before) g r"
  shows "sound_end t rs r" and "complete_end t r"
proof -
  have "sound_end t rs r \<and> complete_end t r"
  proof (cases "snd r")
    case (Inl x)
    then show ?thesis using good by (simp add: good_end_def sound_end_def complete_end_def)
  next
    case (Inr rs')
    then obtain h new e where n: "fst r = g @ h" "require_receipts rs' = Inr rs'" "rs' = (rs @ before) @ new" "receipt_chain a new e"
        "\<forall>q \<in> set new. shown_in t (fst r) q" "e = transcript_end t \<or> unconfirmed_end (fst r)"
      using good unfolding good_end_def by auto
    have ch: "receipt_chain zero_cursor rs' e" unfolding n(3) receipts_append using c n(4) by (auto simp: receipts_append)
    have "\<forall>q \<in> set (before @ new). shown_in t (fst r) q" using s n(1,5) shown_mono by auto
    then have "sound_end t rs r" using Inr n(2,3) ch by (auto simp: sound_end_def intro!: exI [of _ "before @ new"])
    moreover have "complete_end t r" using Inr n(6) ch by (auto simp: complete_end_def)
    ultimately show ?thesis by blast
  qed
  then show "sound_end t rs r" "complete_end t r" by simp_all
qed

lemma stop_sound:
  assumes "receipt_chain zero_cursor (rs @ before) a" and "distinct (map rp_message (rs @ before))" and "\<forall>q \<in> set before. shown_in t g q"
  shows "sound_end t rs (confirmed_receipts g (rs @ before))"
  using assms chain_required [OF assms(1,2)] by (auto simp: map_sum_required sound_end_def)

text \<open>The pages of a well-formed ledger as receipts, and what a proper id of another page needs.\<close>

lemma wf_members:
  assumes "ledger_wf l"
  shows "p \<in> set l \<Longrightarrow> page_wf p"
  using assms by (simp add: ledger_wf_def)

lemma active_proper: "page_wf p \<Longrightarrow> pg_status p = ActivePage \<Longrightarrow> proper_id (pg_message p)"
  by (simp add: page_wf_def proper_id_def)

lemma sealed_filter:
  assumes "sealed_chain c ss e" and "live_ok d live"
  shows "filter (\<lambda>p. pg_status p = Sealed) (ss @ live) = ss"
proof -
  have "filter (\<lambda>p. pg_status p = Sealed) ss = ss" using chain_sealed [OF assms(1)] by simp
  moreover have "filter (\<lambda>p. pg_status p = Sealed) live = []" using live_unsealed [OF assms(2)] by (simp add: filter_empty_conv)
  ultimately show ?thesis by simp
qed

text \<open>The active page against the pages before it.\<close>

definition settled_ledger :: "ledger \<Rightarrow> page_receipt list \<Rightarrow> string list \<Rightarrow> bool" where
  "settled_ledger l rs confirmed =
     (\<exists>a. receipt_chain zero_cursor rs a \<and> distinct (map rp_message rs) \<and> set (map rp_message rs) \<subseteq> set confirmed
      \<and> (\<forall>p. active_page l = Some p \<longrightarrow> pg_start p = a \<and> proper_id (pg_message p) \<and> pg_message p \<notin> set confirmed))"

lemma present_active_end:
  assumes k: "settled_ledger l (rs @ before) confirmed" and s: "\<forall>q \<in> set before. shown_in t g q"
  shows "sound_end t rs (present_active E t cancelled l (rs @ before) confirmed g)"
    and "active_page l \<noteq> None \<Longrightarrow> complete_end t (present_active E t cancelled l (rs @ before) confirmed g)"
proof -
  obtain a where a: "receipt_chain zero_cursor (rs @ before) a" "distinct (map rp_message (rs @ before))"
      "set (map rp_message (rs @ before)) \<subseteq> set confirmed"
      "\<And>p. active_page l = Some p \<Longrightarrow> pg_start p = a \<and> proper_id (pg_message p) \<and> pg_message p \<notin> set confirmed"
    using k unfolding settled_ledger_def by blast
  let ?r = "present_active E t cancelled l (rs @ before) confirmed g"
  have "sound_end t rs ?r \<and> (active_page l \<noteq> None \<longrightarrow> complete_end t ?r)"
  proof (cases "active_page l")
    case None
    then show ?thesis using stop_sound [OF a(1,2) s] by (simp add: present_active_def)
  next
    case (Some p)
    show ?thesis
    proof (cases "follows (transcript_end t) (pg_start p)")
      case False
      then show ?thesis by (simp add: present_active_def Some sound_end_def complete_end_def)
    next
      case True
      then have "turn_inv t (pg_message p) a (rs @ before) confirmed" using a Some by (simp add: turn_inv_def)
      from present_pages_end [OF this] have "good_end t a (rs @ before) g ?r" using True a(4) [OF Some] by (simp add: present_active_def Some)
      from good_sound [OF a(1) s this] show ?thesis by simp
    qed
  qed
  then show "sound_end t rs ?r" "active_page l \<noteq> None \<Longrightarrow> complete_end t ?r" by simp_all
qed

section \<open>A pending page confirmed\<close>

lemma pending_live:
  assumes "sealed_chain zero_cursor ss e" and "live_ok e live" and "pending_page (ss @ live) = Some q"
  obtains (alone) "live = [q]" "active_page (ss @ live) = None" "pg_start q = e"
    | (behind) p where "live = [p, q]" "active_page (ss @ live) = Some p" "pg_status p = ActivePage" "pg_start p = e"
        "strictly_follows (pg_start q) (pg_start p)"
proof -
  note v = views [OF assms(1,2)]
  have l: "live \<noteq> []" "last live = q" "pg_status q = Opening \<or> pg_status q = SendUnknown"
    using assms(3) v(3) by (auto split: if_splits)
  from assms(2) l(1) show ?thesis
  proof (cases rule: live_shape)
    case (one p)
    then show ?thesis using l v(2) assms(2) by (auto intro: alone)
  next
    case (two p q')
    then show ?thesis using l v(2) assms(2) by (auto intro: behind)
  qed
qed

lemma ids_replace_last:
  assumes "ids_ok (xs @ [q])" and "pg_generation q' = pg_generation q" and "pg_attempt q' = pg_attempt q"
    and "pg_message q' \<noteq> [] \<Longrightarrow> pg_message q' \<notin> messages_of xs"
  shows "ids_ok (xs @ [q'])"
  using assms by (simp add: ids_ok_snoc)

lemma activated_wf:
  "page_wf q \<Longrightarrow> proper_id m \<Longrightarrow> pg_status q = SendUnknown \<Longrightarrow>
     page_wf (q\<lparr>pg_message := m, pg_status := ActivePage, pg_reconciled := False, pg_addr := n\<rparr>)"
  by (simp add: page_wf_def proper_id_def)

lemma sealed_wf:
  "page_wf p \<Longrightarrow> pg_status p = ActivePage \<Longrightarrow> follows c (pg_start p) \<Longrightarrow> page_wf (p\<lparr>pg_end := Some c, pg_status := Sealed, pg_addr := n\<rparr>)"
  by (simp add: page_wf_def)

lemma confirm_ok:
  assumes wf: "ledger_wf l" and q: "pending_page l = Some q" "pg_status q = SendUnknown"
    and m: "proper_id m" "pg_message q \<noteq> [] \<Longrightarrow> pg_message q = m" "\<And>p. p \<in> set (butlast l) \<Longrightarrow> pg_message p \<noteq> m"
  obtains l' q' where "confirm_send_unknown q m 0 l = Inr l'" and "active_page l' = Some q'"
    and "pg_start q' = pg_start q" and "pg_message q' = m"
proof -
  obtain e live where s: "l = sealed_of l @ live" "sealed_chain zero_cursor (sealed_of l) e" "live_ok e live"
    using wf_shape [OF wf] by blast
  define ss where "ss = sealed_of l"
  have l: "l = ss @ live" and c: "sealed_chain zero_cursor ss e" using s by (simp_all add: ss_def)
  have w: "page_wf x" if "x \<in> set l" for x using wf_members [OF wf that] .
  have ids: "ids_ok (ss @ live)" using wf l by (simp add: ledger_wf_def)
  let ?q = "q\<lparr>pg_message := m, pg_status := ActivePage, pg_reconciled := False, pg_addr := 0\<rparr>"
  have t: "require_text m False = Inr m" using m(1) by (simp add: require_text_def proper_id_def)
  have keep: "\<not> (pg_message q \<noteq> [] \<and> pg_message q \<noteq> m)" using m(2) by blast
  from c s(3) q(1)[unfolded l] show ?thesis
  proof (cases rule: pending_live)
    case alone
    have "page_wf q" using w l alone by simp
    then have p: "make_page ?q = Inr ?q" by (rule make_page_fix [OF activated_wf [OF _ m(1) q(2)]])
    have mm: "m \<notin> messages_of ss" using m(3) l alone by (auto simp: messages_of_def butlast_append)
    have "ids_ok (ss @ [?q])" by (rule ids_replace_last [of ss q]) (use ids alone mm in simp_all)
    moreover have ok: "live_ok e [?q]" using alone by simp
    ultimately have "make_ledger (ss @ [?q]) = Inr (ss @ [?q])" using c unfolding make_ledger_iff by blast
    then have "confirm_send_unknown q m 0 l = Inr (ss @ [?q])"
      using q alone p t keep l by (simp add: confirm_send_unknown_def require_send_unknown_def butlast_append)
    then show ?thesis by (rule that [of _ ?q]) (simp_all add: views(2) [OF c ok])
  next
    case (behind p)
    let ?p = "p\<lparr>pg_end := Some (pg_start q), pg_status := Sealed, pg_addr := 0 + 1\<rparr>"
    have "page_wf q" "page_wf p" using w l behind by simp_all
    then have p: "make_page ?q = Inr ?q" "make_page ?p = Inr ?p"
      using make_page_fix [OF activated_wf [OF _ m(1) q(2)]] make_page_fix [OF sealed_wf [OF _ behind(3)]] behind(5)
      by (simp_all add: strictly_follows_def)
    have mm: "m \<notin> messages_of (ss @ [p])" using m(3) l behind by (auto simp: messages_of_def butlast_append)
    have "ids_ok ((ss @ [p]) @ [?q])" by (rule ids_replace_last [of "ss @ [p]" q]) (use ids behind mm in simp_all)
    then have "ids_ok ((ss @ [?p]) @ [?q])" unfolding ids_ok_snoc of_snoc by (auto split: if_splits)
    moreover have ok: "live_ok (pg_start q) [?q]" by simp
    moreover have c': "sealed_chain zero_cursor (ss @ [?p]) (pg_start q)" using c behind by (auto simp: chain_append)
    ultimately have "make_ledger ((ss @ [?p]) @ [?q]) = Inr ((ss @ [?p]) @ [?q])" unfolding make_ledger_iff by blast
    then have "confirm_send_unknown q m 0 l = Inr ((ss @ [?p]) @ [?q])"
      using q behind p t keep l by (simp add: confirm_send_unknown_def require_send_unknown_def butlast_append)
    then show ?thesis by (rule that [of _ ?q]) (use views(2) [OF c' ok] in simp_all)
  qed
qed

lemma reconciled_id:
  assumes "reconcile_send_unknown_page_effect E q g = (g1, SendConfirmed, m)" and "page_wf q"
  shows "proper_id m" and "pg_message q \<noteq> [] \<Longrightarrow> pg_message q = m" and "\<exists>h. g1 = g @ h"
proof -
  have "proper_id m \<and> (pg_message q \<noteq> [] \<longrightarrow> pg_message q = m) \<and> (\<exists>h. g1 = g @ h)"
  proof (cases "pg_message q = []")
    case True
    then obtain e s r where "te_send E (length g) = Some (e, s)" "make_outbound e s = Some r" "outbound_ok r" "m = ob_message r"
      "g1 = g @ [PageSent (pg_attempt q)]"
      using assms(1) by (auto simp: reconcile_send_unknown_page_effect_def send_card_def split: option.splits if_splits)
    then show ?thesis using True by (auto simp: make_outbound_def outbound_ok_def proper_id_def split: if_splits)
  next
    case False
    then show ?thesis using assms
      by (auto simp: reconcile_send_unknown_page_effect_def proper_id_def page_wf_def split: option.splits if_splits)
  qed
  then show "proper_id m" "pg_message q \<noteq> [] \<Longrightarrow> pg_message q = m" "\<exists>h. g1 = g @ h" by simp_all
qed

lemma settle_pending_end:
  assumes wf: "ledger_wf l" and q: "pending_page l = Some q"
    and r: "receipt_chain zero_cursor (rs @ before) (pg_start q)" "distinct (map rp_message (rs @ before))"
    and c: "set confirmed = set (map rp_message (rs @ before))" "set (map rp_message (rs @ before)) = pg_message ` set (butlast l)"
    and s: "\<forall>x \<in> set before. shown_in t g x"
  shows "sound_end t rs (settle_pending E t cancelled l q (rs @ before) confirmed g)"
proof (cases "pg_status q \<noteq> SendUnknown \<or> pg_reconciled q")
  case True
  then show ?thesis using stop_sound [OF r s] by (simp add: settle_pending_def)
next
  case False
  obtain g1 outcome m where o: "reconcile_send_unknown_page_effect E q g = (g1, outcome, m)" by (metis prod_cases3)
  obtain h where h: "g1 = g @ h"
    using o by (auto simp: reconcile_send_unknown_page_effect_def send_card_def split: if_splits)
  have s1: "\<forall>x \<in> set before. shown_in t g1 x" using s shown_mono h by auto
  show ?thesis
  proof (cases "outcome \<noteq> SendConfirmed \<or> m \<in> set confirmed")
    case True
    then show ?thesis using False o stop_sound [OF r s1] by (auto simp: settle_pending_def)
  next
    case F: False
    have w: "page_wf q" using pending_last(1,3) [OF q] wf_members [OF wf] last_in_set by metis
    have "outcome = SendConfirmed" using F by simp
    note i = reconciled_id [OF o [unfolded this] w]
    have n: "p \<in> set (butlast l) \<Longrightarrow> pg_message p \<noteq> m" for p using F c by auto
    obtain l' q' where l': "confirm_send_unknown q m 0 l = Inr l'" "active_page l' = Some q'" "pg_start q' = pg_start q" "pg_message q' = m"
      using confirm_ok [OF wf q _ i(1,2) n] False F o by blast
    have "settled_ledger l' (rs @ before) confirmed"
      using r c(1) l' i(1) F by (auto simp: settled_ledger_def)
    from present_active_end(1) [OF this s1] show ?thesis using False F o l'(1) by (simp add: settle_pending_def)
  qed
qed

lemma wf_receipts:
  assumes "ledger_wf l"
  obtains e live where "l = sealed_of l @ live" and "live_ok e live" and "sealed_chain zero_cursor (sealed_of l) e"
    and "sealed_receipts l = Inr (map receipt_of (sealed_of l))"
    and "receipt_chain zero_cursor (map receipt_of (sealed_of l)) e" and "distinct (map pg_message (sealed_of l))"
    and "\<And>p. p \<in> set live \<Longrightarrow> pg_message p \<noteq> [] \<Longrightarrow> pg_message p \<notin> pg_message ` set (sealed_of l)"
proof -
  obtain e live where s: "l = sealed_of l @ live" "sealed_chain zero_cursor (sealed_of l) e" "live_ok e live"
    using wf_shape [OF assms] by blast
  obtain e' where k: "sealed_receipts l = Inr (map receipt_of (sealed_of l))" "\<forall>p \<in> set (sealed_of l). page_wf p \<and> pg_status p = Sealed"
    using wf_sealed [OF assms] by blast
  have m: "\<forall>p \<in> set (sealed_of l). pg_message p \<noteq> []" using k(2) by (simp add: page_wf_def)
  have i: "ids_from (sealed_of l @ live) 1 {} {}" using assms s(1) by (simp add: ledger_wf_def ids_ok_def)
  have d: "distinct (map pg_message (sealed_of l))" using ids_messages [OF ids_prefix [OF i] m] by blast
  have fresh: "pg_message p \<notin> pg_message ` set (sealed_of l)" if p: "p \<in> set live" "pg_message p \<noteq> []" for p
  proof -
    obtain xs ys where xy: "live = xs @ p # ys" using p(1) by (meson split_list)
    have "ids_from ((sealed_of l @ xs) @ [p]) 1 {} {}" using ids_prefix [of "(sealed_of l @ xs) @ [p]" ys] i xy by simp
    then have "pg_message p \<notin> messages_of (sealed_of l @ xs)" using p(2) unfolding ids_snoc by blast
    then show ?thesis using p(2) by (auto simp: messages_of_def)
  qed
  show ?thesis by (rule that [OF s(1,3,2) k(1) chain_receipts [OF s(2) k(2)] d fresh])
qed

lemma present_terminal_end:
  fixes E :: terminal_env and t :: transcript and running cancelled :: bool
  assumes wf: "ledger_wf l"
  defines "rs \<equiv> map receipt_of (sealed_of l)" and "r \<equiv> present_terminal_execution_card E running l t cancelled"
  shows "sealed_receipts l = Inr rs" and "sound_end t rs r"
    and "active_page l \<noteq> None \<Longrightarrow> pending_page l = None \<Longrightarrow> complete_end t r"
proof -
  obtain e live where s: "l = sealed_of l @ live" "live_ok e live" "sealed_chain zero_cursor (sealed_of l) e"
    and k': "sealed_receipts l = Inr (map receipt_of (sealed_of l))" "receipt_chain zero_cursor (map receipt_of (sealed_of l)) e"
      "distinct (map pg_message (sealed_of l))"
    and fresh: "\<And>p. p \<in> set live \<Longrightarrow> pg_message p \<noteq> [] \<Longrightarrow> pg_message p \<notin> pg_message ` set (sealed_of l)"
  proof (rule wf_receipts [OF wf])
    fix e live
    assume a: "l = sealed_of l @ live" "live_ok e live" "sealed_chain zero_cursor (sealed_of l) e"
      "sealed_receipts l = Inr (map receipt_of (sealed_of l))" "receipt_chain zero_cursor (map receipt_of (sealed_of l)) e"
      "distinct (map pg_message (sealed_of l))"
      and f: "\<And>p. p \<in> set live \<Longrightarrow> pg_message p \<noteq> [] \<Longrightarrow> pg_message p \<notin> pg_message ` set (sealed_of l)"
    show thesis by (rule that [OF a f])
  qed
  note k = k' [folded rs_def]
  define ss where "ss = sealed_of l"
  have l: "l = ss @ live" and c: "sealed_chain zero_cursor ss e" using s by (simp_all only: ss_def)
  have filt: "filter (\<lambda>p. pg_status p = Sealed) l = sealed_of l" using sealed_filter [OF c s(2)] l ss_def by metis
  have v: "current_page l = (if live = [] then None else Some (last live))"
    "active_page l = (if live = [] then None else if pg_status (hd live) = ActivePage then Some (hd live) else None)"
    "pending_page l = (if live \<noteq> [] \<and> (pg_status (last live) = Opening \<or> pg_status (last live) = SendUnknown) then Some (last live) else None)"
    using views [OF c s(2)] unfolding l by simp_all
  have d: "distinct (map rp_message rs)" and ms: "map rp_message rs = map pg_message (sealed_of l)"
    using k(3) by (simp_all add: rs_def comp_def)
  have mem: "p \<in> set live \<Longrightarrow> page_wf p" for p using wf_members [OF wf, of p] unfolding l by simp
  show "sealed_receipts l = Inr rs" by (rule k(1))
  have "sound_end t rs r \<and> (active_page l \<noteq> None \<longrightarrow> pending_page l = None \<longrightarrow> complete_end t r)"
  proof (cases running)
    case True
    then show ?thesis by (simp add: r_def present_terminal_execution_card_def sound_end_def complete_end_def)
  next
    case not_running: False
    show ?thesis
    proof (cases "pending_page l")
      case None
      have r: "r = present_active E t cancelled l (rs @ []) (map pg_message (sealed_of l)) []"
        using not_running None by (simp add: r_def present_terminal_execution_card_def k(1) filt)
      have "settled_ledger l (rs @ []) (map pg_message (sealed_of l))"
        unfolding settled_ledger_def
      proof (intro exI [of _ e] conjI allI impI)
        fix p
        assume p: "active_page l = Some p"
        then have q: "live \<noteq> []" "p = hd live" "pg_status p = ActivePage" using v(2) by (auto split: if_splits)
        then have n: "pg_message p \<noteq> []" "proper_id (pg_message p)" and h: "p \<in> set live"
          using active_proper [OF mem] by (auto simp: proper_id_def)
        show "proper_id (pg_message p)" by (rule n(2))
        show "pg_message p \<notin> set (map pg_message (sealed_of l))" using fresh [OF h n(1)] by simp
        show "pg_start p = e" using s(2) q(1,2) by (cases "(e, live)" rule: live_ok.cases) auto
      qed (use k d ms in simp_all)
      from present_active_end [OF this, of t "[]" E cancelled] r show ?thesis by auto
    next
      case (Some q)
      show ?thesis
      proof (cases "follows (transcript_end t) (pg_start q)")
        case False
        then show ?thesis using not_running Some
          by (simp add: r_def present_terminal_execution_card_def k(1) sound_end_def Let_def)
      next
        case follow: True
        have q: "pending_page (ss @ live) = Some q" using Some unfolding l .
        from c s(2) q show ?thesis
        proof (cases rule: pending_live)
          case alone
          have b: "set (map rp_message (rs @ [])) = pg_message ` set (butlast l)"
            by (simp add: ms ss_def [symmetric]) (simp add: l alone(1) butlast_append)
          have a: "active_page l = None" using alone(2) unfolding l .
          have "sound_end t rs (settle_pending E t cancelled l q (rs @ []) (map pg_message (sealed_of l)) [])"
            by (rule settle_pending_end [OF wf Some]) (use k d alone ms b in auto)
          then show ?thesis using not_running Some follow a by (simp add: r_def present_terminal_execution_card_def k(1) filt Let_def)
        next
          case (behind p)
          have a: "active_page l = Some p" using behind(2) unfolding l .
          have h: "p \<in> set live" using behind by simp
          have n: "proper_id (pg_message p)" "pg_message p \<noteq> []" using active_proper [OF mem [OF h] behind(3)] by (auto simp: proper_id_def)
          have f: "pg_message p \<notin> set (map rp_message rs)" using fresh [OF h n(2)] ms by simp
          have i: "turn_inv t (pg_message p) e rs (map rp_message rs)"
            using k(2) d n(1) f behind(4,5) follow by (auto simp: turn_inv_def strictly_follows_def intro: follows_trans)
          have o: "follows (pg_start q) e" using behind(4,5) by (simp add: strictly_follows_def)
          note x = turn_extended [OF i o follow]
          obtain m ok where pub: "publish_page E t False (pg_message p) e (pg_start q) [] = ([] @ [PagePublished (pg_message p) m ok],
              if \<not> ok then Inl PublishFailed else Inr \<lparr>rp_message = pg_message p, rp_start = e, rp_end = pg_start q\<rparr>)"
            and sh: "ok \<Longrightarrow> shown_in t ([] @ [PagePublished (pg_message p) m ok]) \<lparr>rp_message = pg_message p, rp_start = e, rp_end = pg_start q\<rparr>"
            using publish_page_ok [OF chain_zero [OF k(2)] o follow n(1)] by blast
          show ?thesis
          proof (cases ok)
            case True
            let ?r = "\<lparr>rp_message = pg_message p, rp_start = e, rp_end = pg_start q\<rparr>" and ?g = "[PagePublished (pg_message p) m ok]"
            have b: "set (map rp_message (rs @ [?r])) = pg_message ` set (butlast l)"
              by (simp add: ms ss_def [symmetric]) (simp add: l behind(1) butlast_append)
            have "sound_end t rs (settle_pending E t cancelled l q (rs @ [?r]) (pg_message p # map pg_message (sealed_of l)) ?g)"
              by (rule settle_pending_end [OF wf Some x(1,2) _ b]) (use ms sh True in auto)
            then show ?thesis using not_running Some follow a pub True behind(4)
              by (simp add: r_def present_terminal_execution_card_def k(1) filt Let_def)
          next
            case False
            then show ?thesis using not_running Some follow a pub behind(4)
              by (simp add: r_def present_terminal_execution_card_def k(1) filt Let_def sound_end_def allowed_failure_def)
          qed
        qed
      qed
    qed
  qed
  then show "sound_end t rs r" "active_page l \<noteq> None \<Longrightarrow> pending_page l = None \<Longrightarrow> complete_end t r" by auto
qed

end
