(* ===== verification/Terminal_Properties.thy ===== *)
theory Terminal_Properties
  imports Terminal_Pages_Facts Execution_Properties
begin

text \<open>
  The properties of the presentation of a completed turn, for every reachable ledger and every outcome of
  its sends and patches.
\<close>

section \<open>Properties of the presentation\<close>



section \<open>Witnesses for the presentation\<close>

text \<open>A reply of four characters, on pages that hold three.\<close>

definition demo_text :: transcript where
  "demo_text = run_ops transcript_step new_transcript [AssistantDelta ''hey'', AssistantDelta ''o'']"

definition demo_budget :: page_budget where
  "demo_budget = \<lparr>pb_metrics = \<lambda>m. (int (length (text_of (cm_segments m))), 1), pb_payload = 3, pb_components = 1\<rparr>"

definition demo_cursor :: page_cursor where
  "demo_cursor = \<lparr>cu_process = 0, cu_reply = 4\<rparr>"

definition demo_terminal :: terminal_env where
  "demo_terminal = \<lparr>te_budget = demo_budget, te_elapsed = 7, te_publish = \<lambda>i. True, te_uuid = \<lambda>i. ''u'',
     te_send = \<lambda>i. Some (EffectConfirmed, '' m2 ''), te_patch = None\<rparr>"

lemma demo_fits:
  "fits_at demo_budget (WholeView demo_text) False 7 False True zero_cursor 0 0 = Inr True"
  "fits_at demo_budget (WholeView demo_text) False 7 False True zero_cursor 0 1 = Inr True"
  "fits_at demo_budget (WholeView demo_text) False 7 False True zero_cursor 0 2 = Inr True"
  "fits_at demo_budget (WholeView demo_text) False 7 False True zero_cursor 0 3 = Inr True"
  "fits_at demo_budget (WholeView demo_text) False 7 False True zero_cursor 0 4 = Inr False"
  by code_simp+


lemma demo_active_run:
  "ps_ledger (run_ops page_step new_page_state [PrepareInitial ''a1'' [], ActivateOpening demo_opening ''m1'']) = [demo_active]"
  using demo_transitions by (simp add: page_step_def new_page_state_def empty_ledger_def del: add_2_eq_Suc add_2_eq_Suc')

lemma demo_presentation:
  "snd (present_terminal_execution_card demo_terminal False [demo_active] demo_text False)
     = Inr [\<lparr>rp_message = ''m1'', rp_start = zero_cursor, rp_end = \<lparr>cu_process = 0, cu_reply = 3\<rparr>\<rparr>,
            \<lparr>rp_message = ''m2'', rp_start = \<lparr>cu_process = 0, cu_reply = 3\<rparr>, rp_end = demo_cursor\<rparr>]"
  "\<not> unconfirmed_end (fst (present_terminal_execution_card demo_terminal False [demo_active] demo_text False))"
  "active_page [demo_active] \<noteq> None" "pending_page [demo_active] = None" "text_of (tr_segments demo_text) = ''heyo''"
  by code_simp+


end
