(* ===== verification/Terminal_Snapshot.thy ===== *)
theory Terminal_Snapshot
  imports Execution_Transcript
begin

text \<open>
  What an upstream snapshot says of a turn's last reply (\<open>snapshot_reply\<close> of
  \<open>bot/execution_recovery_controller.py\<close>), and the choice between it and the evidence of the transcript
  (\<open>_select_terminal_reply\<close>).

  A turn and its items are given by what the code reads of them; texts read as
  \<open>str(... or "")\<close> are strings, \<open>ti_is_text\<close> says whether an item's text is a \<open>str\<close>, and an
  item id that is no \<open>str\<close> is empty. \<open>status_is_authoritative\<close> is true on every path of the code.
\<close>

section \<open>Snapshots\<close>

record turn_item =
  ti_type :: string
  ti_text :: string
  ti_is_text :: bool
  ti_status :: string
  ti_id :: string
  ti_phase :: "string option option"

record snapshot_turn =
  st_id :: string
  st_status :: string
  st_items :: "turn_item list"
  st_error :: string
  st_details :: string

record reply_item =
  ri_type :: string
  ri_text :: string
  ri_available :: bool

datatype reply_kind = AgentText | AgentEmpty | TurnError | Unavailable

record reply_projection =
  sp_kind :: reply_kind
  sp_full :: string
  sp_final :: string
  sp_items :: "reply_item list"
  sp_turn :: string
  sp_status :: string
  sp_invalidates :: bool
  sp_item :: string

definition reply_item_of :: "turn_item \<Rightarrow> reply_item" where
  "reply_item_of i = \<lparr>ri_type = strip (ti_type i), ri_text = ti_text i, ri_available = (ti_type i \<noteq> ''agentMessage'' \<or> ti_is_text i)\<rparr>"

definition agent_text :: "turn_item \<Rightarrow> string" where
  "agent_text i = (if ti_is_text i then ti_text i else [])"

definition is_agent :: "turn_item \<Rightarrow> bool" where
  "is_agent i = (ti_type i = ''agentMessage'')"

definition is_invalidating :: "turn_item \<Rightarrow> bool" where
  "is_invalidating i = is_terminal_invalidating_type (ti_type i)"

section \<open>One turn\<close>

text \<open>The agent messages with their indices, latest last.\<close>

definition agent_items :: "turn_item list \<Rightarrow> (nat \<times> turn_item) list" where
  "agent_items items = filter (\<lambda>p. is_agent (snd p)) (enumerate 0 items)"

definition status_of :: "snapshot_turn \<Rightarrow> string" where
  "status_of u = lower (strip (st_status u))"

definition turn_in_progress :: "snapshot_turn \<Rightarrow> bool" where
  "turn_in_progress u = (status_of u \<in> {''active'', ''inprogress'', ''in_progress'', ''pending''})"

definition item_in_progress :: "turn_item \<Rightarrow> bool" where
  "item_in_progress i = (lower (strip (ti_status i)) \<in> {''inprogress'', ''in_progress'', ''pending'', ''started''})"

definition work_follows :: "turn_item list \<Rightarrow> bool" where
  "work_follows items =
     (let ags = agent_items items; start = (if ags = [] then 0 else Suc (fst (last ags)))
      in \<exists>i \<in> set (drop start items). is_invalidating i)"

definition work_between :: "turn_item list \<Rightarrow> bool" where
  "work_between items =
     (let ags = agent_items items
      in 2 \<le> length ags \<and>
         (let a = fst (ags ! (length ags - 2)); b = fst (last ags)
          in \<exists>i \<in> set (take (b - Suc a) (drop (Suc a) items)). is_invalidating i))"

definition terminal_candidate :: "snapshot_turn \<Rightarrow> bool" where
  "terminal_candidate u =
     (let ags = agent_items (st_items u); i = snd (last ags)
      in ags \<noteq> [] \<and> \<not> (turn_in_progress u \<or> item_in_progress i \<or> work_follows (st_items u)
           \<or> \<not> ti_is_text i \<or> \<not> can_be_terminal_candidate (ti_phase i)))"

definition final_message :: "snapshot_turn \<Rightarrow> string" where
  "final_message u = (let ags = agent_items (st_items u) in if ags = [] then [] else agent_text (snd (last ags)))"

definition invalidates_local :: "snapshot_turn \<Rightarrow> bool" where
  "invalidates_local u =
     (let items = st_items u; ags = agent_items items; i = snd (last ags)
      in work_follows items
         \<or> (ags \<noteq> [] \<and> \<not> ti_is_text i)
         \<or> (ags \<noteq> [] \<and> \<not> can_be_terminal_candidate (ti_phase i))
         \<or> (2 \<le> length ags \<and> strip (final_message u) = []
             \<and> (work_between items \<or> strip (agent_text (snd (ags ! (length ags - 2)))) \<noteq> []))
         \<or> (terminal_candidate u \<and> strip (final_message u) = [])
         \<or> (ags = [] \<and> (\<exists>i \<in> set items. is_invalidating i)))"

definition visible_text :: "snapshot_turn \<Rightarrow> string" where
  "visible_text u =
     join_texts (filter (\<lambda>s. strip s \<noteq> []) (map (\<lambda>p. agent_text (snd p)) (agent_items (st_items u))))"

definition error_text :: "snapshot_turn \<Rightarrow> string" where
  "error_text u =
     (let message = strip (st_error u); details = strip (st_details u)
      in if details \<noteq> [] then (if message \<noteq> [] then strip (message @ [CHR 0x0A] @ details) else details) else message)"

text \<open>What one turn projects to; None where the loop goes on to the turn before.\<close>

definition turn_projection :: "snapshot_turn \<Rightarrow> reply_projection option" where
  "turn_projection u =
     (let ags = agent_items (st_items u); items = map reply_item_of (st_items u); turn = strip (st_id u); status = status_of u;
          inval = invalidates_local u; item = (if ags = [] then [] else strip (ti_id (snd (last ags)))); final = final_message u
      in if terminal_candidate u \<and> strip final \<noteq> []
         then Some \<lparr>sp_kind = AgentText, sp_full = visible_text u, sp_final = final, sp_items = items, sp_turn = turn, sp_status = status,
                sp_invalidates = inval, sp_item = item\<rparr>
         else if error_text u \<noteq> [] \<and> \<not> turn_in_progress u
         then Some \<lparr>sp_kind = TurnError, sp_full = error_text u, sp_final = error_text u, sp_items = items, sp_turn = turn, sp_status = status,
                sp_invalidates = inval, sp_item = []\<rparr>
         else if terminal_candidate u
         then Some \<lparr>sp_kind = AgentEmpty, sp_full = visible_text u, sp_final = [], sp_items = items, sp_turn = turn, sp_status = status,
                sp_invalidates = inval, sp_item = item\<rparr>
         else if ags \<noteq> []
         then Some \<lparr>sp_kind = Unavailable, sp_full = visible_text u, sp_final = [], sp_items = items, sp_turn = turn, sp_status = status,
                sp_invalidates = inval, sp_item = []\<rparr>
         else None)"

section \<open>A snapshot\<close>

text \<open>What the loop keeps for the case that no turn projects: id, status, items, and the first turn's verdict.\<close>

record turn_fallback =
  tf_turn :: string
  tf_status :: string
  tf_items :: "reply_item list"
  tf_invalidates :: "bool option"

definition no_fallback :: turn_fallback where
  "no_fallback = \<lparr>tf_turn = [], tf_status = [], tf_items = [], tf_invalidates = None\<rparr>"

definition note_fallback :: "snapshot_turn \<Rightarrow> turn_fallback \<Rightarrow> turn_fallback" where
  "note_fallback u f =
     \<lparr>tf_turn = (if tf_turn f = [] then strip (st_id u) else tf_turn f),
      tf_status = (if tf_turn f = [] then status_of u else tf_status f),
      tf_items = (if tf_items f = [] then map reply_item_of (st_items u) else tf_items f),
      tf_invalidates = (case tf_invalidates f of None \<Rightarrow> Some (invalidates_local u) | Some b \<Rightarrow> Some b)\<rparr>"

fun scan_turns :: "snapshot_turn list \<Rightarrow> turn_fallback \<Rightarrow> reply_projection" where
  "scan_turns [] f =
     \<lparr>sp_kind = Unavailable, sp_full = [], sp_final = [], sp_items = tf_items f, sp_turn = tf_turn f, sp_status = tf_status f,
      sp_invalidates = (tf_invalidates f = Some True), sp_item = []\<rparr>"
| "scan_turns (u # rest) f = (case turn_projection u of Some p \<Rightarrow> p | None \<Rightarrow> scan_turns rest (note_fallback u f))"

definition matched_turns :: "snapshot_turn list \<Rightarrow> string \<Rightarrow> snapshot_turn list" where
  "matched_turns turns turn = filter (\<lambda>u. strip (st_id u) = strip turn) turns"

definition snapshot_reply :: "snapshot_turn list \<Rightarrow> string \<Rightarrow> reply_projection" where
  "snapshot_reply turns turn =
     (if strip turn = [] then scan_turns (rev turns) no_fallback
      else if matched_turns turns turn = []
      then \<lparr>sp_kind = Unavailable, sp_full = [], sp_final = [], sp_items = [], sp_turn = [], sp_status = [], sp_invalidates = False, sp_item = []\<rparr>
      else scan_turns [last (matched_turns turns turn)] no_fallback)"

section \<open>The choice\<close>

datatype reply_source = FromSnapshot | FromLocal | FromNone

record reply_selection =
  sel_kind :: reply_kind
  sel_source :: reply_source
  sel_text :: string

fun reply_rank :: "reply_kind \<Rightarrow> nat" where
  "reply_rank Unavailable = 0"
| "reply_rank AgentEmpty = 1"
| "reply_rank TurnError = 2"
| "reply_rank AgentText = 3"

definition local_reply :: "reply_evidence option \<Rightarrow> reply_kind \<times> string" where
  "local_reply e =
     (case e of
        None \<Rightarrow> (Unavailable, [])
      | Some (ErrorReply s) \<Rightarrow> (TurnError, s)
      | Some (AgentReply s) \<Rightarrow> (if strip s \<noteq> [] then AgentText else AgentEmpty, s))"

definition select_terminal_reply :: "reply_projection \<Rightarrow> reply_evidence option \<Rightarrow> reply_selection" where
  "select_terminal_reply p e =
     (case local_reply e of (kind0, text0) \<Rightarrow>
        (let drop_local = (sp_invalidates p \<and> (kind0 = AgentText \<or> kind0 = AgentEmpty));
             kind = (if drop_local then Unavailable else kind0); text = (if drop_local then [] else text0)
         in if sp_kind p \<noteq> Unavailable \<and> reply_rank kind \<le> reply_rank (sp_kind p)
            then \<lparr>sel_kind = sp_kind p, sel_source = FromSnapshot, sel_text = sp_final p\<rparr>
            else if kind \<noteq> Unavailable then \<lparr>sel_kind = kind, sel_source = FromLocal, sel_text = text\<rparr>
            else \<lparr>sel_kind = Unavailable, sel_source = FromNone, sel_text = []\<rparr>))"

end
