(* ===== verification/Terminal_Reconcile.thy ===== *)
theory Terminal_Reconcile
  imports Terminal_Pages Terminal_Snapshot
begin

text \<open>
  The reconciliation of a completed turn (\<open>bot/execution_recovery_controller.py\<close>, from
  \<open>run_terminal_execution_reconcile\<close> down): the terminal reply is chosen, published as a result card
  of its own, and then taken off the pages that already show it.

  Effects are the log the functions thread through; the environment \<open>recover_env\<close> answers the n-th effect. A port that
  raises and is not caught ends the call with \<open>Inl\<close>. The outcomes that are only
  logged by the code are returned; the text shown when there is no valid reply is a field of the environment.
\<close>

section \<open>Targets and ports\<close>

record reconcile_target =
  rt_turn :: string
  rt_card :: string
  rt_transcript :: transcript
  rt_start :: page_cursor
  rt_end :: page_cursor
  rt_cancelled :: bool
  rt_elapsed :: int
  rt_receipts :: "page_receipt list"

datatype recover_exn = CardRaised card_exn | DispatchRaised | PublishRaised | CoverageRaised page_exn | ProjectionRaised transcript_exn

datatype recover_effect =
    CardDispatched string card_view card_model bool
  | ResultPublished string bool
  | ImagesDelivered

type_synonym recover_log = "recover_effect list"

record recover_env =
  rv_dispatch :: "nat \<Rightarrow> bool"
  rv_recorded :: "string \<Rightarrow> bool"
  rv_publish :: "nat \<Rightarrow> bool option"
  rv_no_reply :: string
  rv_attempts :: nat
  rv_stop :: "nat \<Rightarrow> bool"
  rv_read :: "nat \<Rightarrow> snapshot_turn list option"

definition dispatch_card ::
  "recover_env \<Rightarrow> string \<Rightarrow> card_view \<Rightarrow> int \<Rightarrow> bool \<Rightarrow> page_cursor \<Rightarrow> page_cursor \<Rightarrow> recover_log \<Rightarrow> recover_log \<times> (recover_exn + unit)" where
  "dispatch_card E message v elapsed cancelled a b g =
     (case build_execution_card_model v False elapsed cancelled True (Some a) (Some b) of
        Inl x \<Rightarrow> (g, Inl (CardRaised x))
      | Inr m \<Rightarrow> (g @ [CardDispatched message v m (rv_dispatch E (length g))],
                  if rv_dispatch E (length g) then Inr () else Inl DispatchRaised))"

section \<open>Taking the reply off the pages\<close>

datatype cleanup_status = CleanupScheduled | CleanupPartial | CleanupRetained

datatype cleanup_reason =
    CarrierUnavailable | NonAgentTerminal | LocalCoordinateUnavailable | ItemIdentityMismatch | RawTextDiffers
  | SnapshotProjectionMismatch | TerminalNotTrailing | ReceiptsMissing | IntervalNotCovered | PatchDispatchPartial
  | CleanupDone

record cleanup_outcome =
  co_status :: cleanup_status
  co_reason :: cleanup_reason
  co_attempted :: nat
  co_scheduled :: nat

definition retained :: "cleanup_reason \<Rightarrow> cleanup_outcome" where
  "retained r = \<lparr>co_status = CleanupRetained, co_reason = r, co_attempted = 0, co_scheduled = 0\<rparr>"

text \<open>The loop over the receipts; \<open>meeting\<close> are the message ids of the intersecting ones.\<close>

fun clean_pages ::
  "recover_env \<Rightarrow> transcript \<Rightarrow> int \<Rightarrow> string set \<Rightarrow> bool \<Rightarrow> int \<Rightarrow> bool \<Rightarrow> page_receipt list \<Rightarrow> nat \<Rightarrow> nat \<Rightarrow> recover_log
     \<Rightarrow> recover_log \<times> nat \<times> nat" where
  "clean_pages E t lo meeting refresh_all elapsed cancelled [] attempted scheduled g = (g, attempted, scheduled)"
| "clean_pages E t lo meeting refresh_all elapsed cancelled (r # rest) attempted scheduled g =
     (if rp_message r \<notin> meeting \<and> \<not> refresh_all
      then clean_pages E t lo meeting refresh_all elapsed cancelled rest attempted scheduled g
      else case dispatch_card E (rp_message r) (if rp_message r \<in> meeting then TrailingView t lo else WholeView t) elapsed cancelled
             (rp_start r) (rp_end r) g of
          (g1, Inl x) \<Rightarrow> clean_pages E t lo meeting refresh_all elapsed cancelled rest (Suc attempted) scheduled g1
        | (g1, Inr u) \<Rightarrow> clean_pages E t lo meeting refresh_all elapsed cancelled rest (Suc attempted) (Suc scheduled) g1)"

definition cleanup_result :: "nat \<Rightarrow> nat \<Rightarrow> bool \<Rightarrow> cleanup_outcome" where
  "cleanup_result attempted scheduled full =
     (if scheduled < attempted
      then \<lparr>co_status = CleanupPartial, co_reason = PatchDispatchPartial, co_attempted = attempted, co_scheduled = scheduled\<rparr>
      else if \<not> full
      then \<lparr>co_status = CleanupPartial, co_reason = IntervalNotCovered, co_attempted = attempted, co_scheduled = scheduled\<rparr>
      else \<lparr>co_status = CleanupScheduled, co_reason = CleanupDone, co_attempted = attempted, co_scheduled = scheduled\<rparr>)"

definition remove_terminal_reply ::
  "recover_env \<Rightarrow> page_receipt list \<Rightarrow> transcript \<Rightarrow> int \<times> int \<Rightarrow> bool \<Rightarrow> int \<Rightarrow> bool \<Rightarrow> recover_log
     \<Rightarrow> recover_log \<times> (recover_exn + cleanup_outcome)" where
  "remove_terminal_reply E rs t interval cancelled elapsed refresh_all g =
     (case interval of (lo, hi) \<Rightarrow>
        (if rs = [] then (g, Inr (retained ReceiptsMissing))
         else if lo < 0 \<or> hi \<le> lo \<or> hi \<noteq> reply_chars t then (g, Inr (retained TerminalNotTrailing))
         else case terminal_reply_coverage rs lo hi of
             Inl x \<Rightarrow> (g, Inl (CoverageRaised x))
           | Inr (met, full) \<Rightarrow>
               (if met = [] then (g, Inr (retained IntervalNotCovered))
                else case make_projection t lo of
                    Inl x \<Rightarrow> (g, Inl (ProjectionRaised x))
                  | Inr v \<Rightarrow>
                      (case clean_pages E t lo (rp_message ` set met) refresh_all elapsed cancelled rs 0 0 g of
                         (g1, attempted, scheduled) \<Rightarrow> (g1, Inr (cleanup_result attempted scheduled full))))))"

fun refresh_confirmed_page_status ::
  "recover_env \<Rightarrow> page_receipt list \<Rightarrow> transcript \<Rightarrow> bool \<Rightarrow> int \<Rightarrow> recover_log \<Rightarrow> recover_log" where
  "refresh_confirmed_page_status E [] t cancelled elapsed g = g"
| "refresh_confirmed_page_status E (r # rest) t cancelled elapsed g =
     refresh_confirmed_page_status E rest t cancelled elapsed
       (fst (dispatch_card E (rp_message r) (WholeView t) elapsed cancelled (rp_start r) (rp_end r) g))"

section \<open>Other presentations\<close>

definition display_changed :: "transcript \<Rightarrow> transcript \<Rightarrow> bool" where
  "display_changed t u = (tr_blocks t \<noteq> tr_blocks u \<or> tr_segments t \<noteq> tr_segments u)"

definition can_remove_terminal_only :: "transcript \<Rightarrow> string \<Rightarrow> bool" where
  "can_remove_terminal_only t final =
     (\<not> has_process_output t \<and> strip final \<noteq> []
      \<and> map (\<lambda>s. strip (seg_text s)) (filter (\<lambda>s. is_assistant s \<and> strip (seg_text s) \<noteq> []) (tr_segments t)) = [strip final])"

definition snapshot_item_of :: "reply_item \<Rightarrow> snapshot_item" where
  "snapshot_item_of i =
     \<lparr>si_type = ri_type i, si_text = (if ri_available i then ri_text i else []), si_is_text = ri_available i\<rparr>"

definition transcript_from_snapshot :: "transcript \<Rightarrow> reply_projection \<Rightarrow> bool \<Rightarrow> transcript" where
  "transcript_from_snapshot base p drop_last =
     fst (rebuild_reply (map snapshot_item_of (sp_items p)) (if drop_last then [] else sp_full p) drop_last (set_reply_text [] base))"

definition clip_cursor :: "page_cursor \<Rightarrow> page_cursor \<Rightarrow> page_cursor" where
  "clip_cursor c limit = \<lparr>cu_process = min (cu_process c) (cu_process limit), cu_reply = min (cu_reply c) (cu_reply limit)\<rparr>"

definition join_cursor :: "page_cursor \<Rightarrow> page_cursor \<Rightarrow> page_cursor" where
  "join_cursor a b = \<lparr>cu_process = max (cu_process a) (cu_process b), cu_reply = max (cu_reply a) (cu_reply b)\<rparr>"

definition present_no_valid_reply ::
  "recover_env \<Rightarrow> reconcile_target \<Rightarrow> transcript \<Rightarrow> bool \<Rightarrow> int \<Rightarrow> recover_log \<Rightarrow> recover_log \<times> (recover_exn + unit)" where
  "present_no_valid_reply E T t cancelled elapsed g =
     (let d = append_display_only (rv_no_reply E) t
      in dispatch_card E (rt_card T) (WholeView d) elapsed cancelled (clip_cursor (rt_start T) (transcript_end d)) (transcript_end d) g)"

definition refresh_card_if_changed ::
  "recover_env \<Rightarrow> string \<Rightarrow> transcript \<Rightarrow> transcript \<Rightarrow> bool \<Rightarrow> bool \<Rightarrow> int \<Rightarrow> page_cursor \<Rightarrow> page_cursor \<Rightarrow> recover_log
     \<Rightarrow> recover_log \<times> (recover_exn + bool)" where
  "refresh_card_if_changed E message current d current_cancelled cancelled elapsed a b g =
     (if \<not> (display_changed current d \<or> current_cancelled \<noteq> cancelled) then (g, Inr False)
      else let stop = transcript_end d; start = clip_cursor a stop
        in bindc (dispatch_card E message (WholeView d) elapsed cancelled start (join_cursor start (clip_cursor b stop)) g)
             (\<lambda>g u. (g, Inr True)))"

text \<open>The result card: recorded already, or published now. The recording port is given the execution of the target.\<close>

definition publish_result_if_needed :: "recover_env \<Rightarrow> string \<Rightarrow> recover_log \<Rightarrow> recover_log \<times> (recover_exn + bool)" where
  "publish_result_if_needed E final g =
     (if strip final = [] then (g, Inr False)
      else if rv_recorded E final then (g, Inr True)
      else case rv_publish E (length g) of
          None \<Rightarrow> (g, Inl PublishRaised)
        | Some ok \<Rightarrow> (g @ [ResultPublished final ok], Inr ok))"

section \<open>The interval to hide\<close>

fun cleanup_reason_of :: "match_reason \<Rightarrow> cleanup_reason" where
  "cleanup_reason_of Matched = CleanupDone"
| "cleanup_reason_of CoordinateUnavailable = LocalCoordinateUnavailable"
| "cleanup_reason_of RawTextMismatch = RawTextDiffers"
| "cleanup_reason_of NotTrailing = TerminalNotTrailing"

definition coordinate_interval :: "transcript \<Rightarrow> string \<Rightarrow> (int \<times> int) option \<times> cleanup_reason" where
  "coordinate_interval t expected = map_prod id cleanup_reason_of (terminal_agent_reply_interval t expected)"

definition snapshot_interval :: "transcript \<Rightarrow> transcript \<Rightarrow> reply_projection \<Rightarrow> (int \<times> int) option \<times> cleanup_reason" where
  "snapshot_interval pages snap p =
     (let fallback = (if tr_segments pages \<noteq> tr_segments snap then (None, SnapshotProjectionMismatch)
                      else case trailing_reply_interval snap (sp_final p) of
                          None \<Rightarrow> (None, TerminalNotTrailing)
                        | Some i \<Rightarrow> (Some i, CleanupDone))
      in case tr_coordinate pages of
           None \<Rightarrow> fallback
         | Some c \<Rightarrow>
             (if rc_item c \<noteq> [] \<and> sp_item p \<noteq> []
              then (if rc_item c \<noteq> sp_item p then (None, ItemIdentityMismatch) else coordinate_interval pages (sp_final p))
              else if rc_raw c \<noteq> sp_final p then (None, RawTextDiffers)
              else fallback))"

section \<open>Applying a reply\<close>

definition apply_snapshot_projection ::
  "recover_env \<Rightarrow> reconcile_target \<Rightarrow> transcript \<Rightarrow> bool \<Rightarrow> bool \<Rightarrow> int \<Rightarrow> reply_projection \<Rightarrow> recover_log
     \<Rightarrow> recover_log \<times> (recover_exn + bool)" where
  "apply_snapshot_projection E T current current_cancelled cancelled elapsed p g =
     (let full = transcript_from_snapshot current p False; changed = (current_cancelled \<noteq> cancelled)
      in bindc (publish_result_if_needed E (sp_final p) g) (\<lambda>g carrier.
         if carrier
         then bindc (if sp_kind p = AgentText
                     then (case snapshot_interval current full p of (interval, reason) \<Rightarrow>
                        (case interval of
                           Some i \<Rightarrow> remove_terminal_reply E (rt_receipts T) current i cancelled elapsed changed g
                         | None \<Rightarrow> (g, Inr (retained reason))))
                     else (g, Inr (retained NonAgentTerminal)))
           (\<lambda>g outcome.
              (if co_status outcome = CleanupRetained \<and> changed
               then refresh_confirmed_page_status E (rt_receipts T) current cancelled elapsed g else g, Inr True))
         else if changed \<and> rt_receipts T \<noteq> [] \<and> \<not> display_changed current full
         then (refresh_confirmed_page_status E (rt_receipts T) current cancelled elapsed g, Inr False)
         else bindc (refresh_card_if_changed E (rt_card T) current full current_cancelled cancelled elapsed (rt_start T) (transcript_end full) g)
           (\<lambda>g u. (g, Inr carrier))))"

text \<open>What of the reply is taken off the pages when the evidence is local; True where the call returns at once.\<close>

definition clean_local ::
  "recover_env \<Rightarrow> reconcile_target \<Rightarrow> transcript \<Rightarrow> bool \<Rightarrow> bool \<Rightarrow> int \<Rightarrow> string \<Rightarrow> recover_log \<Rightarrow> recover_log \<times> (recover_exn + bool)" where
  "clean_local E T t current_cancelled cancelled elapsed final g =
     (case fst (coordinate_interval t final) of
        None \<Rightarrow> (g, Inr False)
      | Some i \<Rightarrow>
          bindc (remove_terminal_reply E (rt_receipts T) t i cancelled elapsed (current_cancelled \<noteq> cancelled) g)
            (\<lambda>g outcome. (g, Inr (co_status outcome \<noteq> CleanupRetained))))"

definition finish_local ::
  "recover_env \<Rightarrow> reconcile_target \<Rightarrow> transcript \<Rightarrow> bool \<Rightarrow> bool \<Rightarrow> bool \<Rightarrow> int \<Rightarrow> bool \<Rightarrow> bool \<Rightarrow> recover_log \<Rightarrow> recover_log \<times> (recover_exn + bool)" where
  "finish_local E T t drop_reply current_cancelled cancelled elapsed same published g =
     (let d = (if drop_reply then set_reply_text [] t else t); changed = (current_cancelled \<noteq> cancelled)
      in if \<not> same
         then (if changed then refresh_confirmed_page_status E (rt_receipts T) (from_snapshot (rt_transcript T)) cancelled elapsed g else g, Inr published)
         else if changed \<and> rt_receipts T \<noteq> [] \<and> \<not> drop_reply
         then (refresh_confirmed_page_status E (rt_receipts T) t cancelled elapsed g, Inr published)
         else bindc (refresh_card_if_changed E (rt_card T) t d current_cancelled cancelled elapsed (rt_start T) (rt_end T) g)
           (\<lambda>g u. (g, Inr published)))"

definition apply_local_evidence ::
  "recover_env \<Rightarrow> reconcile_target \<Rightarrow> transcript \<Rightarrow> bool \<Rightarrow> bool \<Rightarrow> int \<Rightarrow> reply_evidence option \<Rightarrow> recover_log
     \<Rightarrow> recover_log \<times> (recover_exn + bool)" where
  "apply_local_evidence E T t current_cancelled cancelled elapsed evidence g =
     (let e = (case evidence of None \<Rightarrow> terminal_reply_evidence t | Some e \<Rightarrow> Some e)
      in case e of
           None \<Rightarrow> bindc (present_no_valid_reply E T t cancelled elapsed g) (\<lambda>g u. (g, Inr False))
         | Some (AgentReply final) \<Rightarrow>
             (if strip final = [] then bindc (present_no_valid_reply E T t cancelled elapsed g) (\<lambda>g u. (g, Inr False))
              else let receipt = from_snapshot (rt_transcript T); same = (tr_segments t = tr_segments receipt \<and> tr_blocks t = tr_blocks receipt)
                in bindc (publish_result_if_needed E final g) (\<lambda>g published.
                   bindc (if published \<and> same then clean_local E T t current_cancelled cancelled elapsed final g else (g, Inr False)) (\<lambda>g cleaned.
                     if cleaned then (g, Inr True)
                     else finish_local E T t False current_cancelled cancelled elapsed same published g)))
         | Some (ErrorReply final) \<Rightarrow>
             (let receipt = from_snapshot (rt_transcript T); same = (tr_segments t = tr_segments receipt \<and> tr_blocks t = tr_blocks receipt)
              in bindc (publish_result_if_needed E final g) (\<lambda>g published.
                   finish_local E T t (published \<and> same \<and> can_remove_terminal_only t final) current_cancelled cancelled elapsed same published g)))"

definition evidence_of_selection :: "reply_selection \<Rightarrow> reply_evidence" where
  "evidence_of_selection s = (if sel_kind s = AgentText then AgentReply (sel_text s) else ErrorReply (sel_text s))"

definition apply_reply_selection ::
  "recover_env \<Rightarrow> reconcile_target \<Rightarrow> transcript \<Rightarrow> bool \<Rightarrow> bool \<Rightarrow> int \<Rightarrow> reply_projection \<Rightarrow> reply_evidence option
     \<Rightarrow> transcript option \<Rightarrow> recover_log \<Rightarrow> recover_log \<times> (recover_exn + reply_selection \<times> bool)" where
  "apply_reply_selection E T t current_cancelled cancelled elapsed p evidence local_t g =
     (let s = select_terminal_reply p evidence; u = (case local_t of None \<Rightarrow> t | Some u \<Rightarrow> u);
          text_or_error = (sel_kind s = AgentText \<or> sel_kind s = TurnError)
      in if sel_source s = FromSnapshot \<and> text_or_error
         then bindc (apply_snapshot_projection E T t current_cancelled cancelled elapsed p g) (\<lambda>g ok. (g, Inr (s, ok)))
         else if sel_source s = FromLocal \<and> text_or_error
         then bindc (apply_local_evidence E T u current_cancelled cancelled elapsed (Some (evidence_of_selection s)) g) (\<lambda>g ok. (g, Inr (s, ok)))
         else bindc (present_no_valid_reply E T (if sel_source s = FromLocal then u else t) cancelled elapsed g) (\<lambda>g w. (g, Inr (s, False))))"

section \<open>The reconciliation\<close>

datatype read_result = StopAsked | ReadFailed | ReadAs reply_projection

text \<open>
  The attempts to read a snapshot with a verdict. The n-th attempt asks for a stop before the read, after it, and (through
  the delay) before the next attempt: the answers \<open>3n\<close>, \<open>3n + 1\<close>, \<open>3n + 2\<close> of \<open>rv_stop\<close>. A read that fails
  leaves the projection of an earlier attempt in place.
\<close>

fun read_snapshots :: "recover_env \<Rightarrow> string \<Rightarrow> reply_evidence option \<Rightarrow> nat \<Rightarrow> nat \<Rightarrow> reply_projection option \<Rightarrow> read_result" where
  "read_snapshots E turn evidence n 0 found = (case found of None \<Rightarrow> ReadFailed | Some p \<Rightarrow> ReadAs p)"
| "read_snapshots E turn evidence n (Suc left) found =
     (if rv_stop E (3 * n) then StopAsked
      else case rv_read E n of
          None \<Rightarrow> (case found of None \<Rightarrow> ReadFailed | Some p \<Rightarrow> ReadAs p)
        | Some turns \<Rightarrow>
            (let p = snapshot_reply turns turn
             in if rv_stop E (3 * n + 1) then StopAsked
                else if sel_kind (select_terminal_reply p evidence) \<noteq> Unavailable then ReadAs p
                else if left = 0 then ReadAs p
                else if rv_stop E (3 * n + 2) then StopAsked
                else read_snapshots E turn evidence (Suc n) left (Some p)))"

definition run_terminal_reconcile ::
  "recover_env \<Rightarrow> reconcile_target \<Rightarrow> recover_log \<times> (recover_exn + unit)" where
  "run_terminal_reconcile E T =
     (let t = from_snapshot (rt_transcript T); evidence = terminal_reply_evidence t
      in case read_snapshots E (rt_turn T) evidence 0 (max (rv_attempts E) 1) None of
           StopAsked \<Rightarrow> ([], Inr ())
         | ReadFailed \<Rightarrow>
             (if rv_stop E (3 * max (rv_attempts E) 1) then ([], Inr ())
              else bindc (apply_local_evidence E T t (rt_cancelled T) (rt_cancelled T) (rt_elapsed T) None []) (\<lambda>g ok. (g, Inr ())))
         | ReadAs p \<Rightarrow>
             (if rv_stop E (3 * max (rv_attempts E) 1) then ([], Inr ())
              else let cancelled = (rt_cancelled T \<or> sp_status p = ''interrupted'')
                in bindc (apply_reply_selection E T t (rt_cancelled T) cancelled (rt_elapsed T) p evidence None []) (\<lambda>g r.
                     (if (sel_kind (fst r) = AgentText \<or> sel_kind (fst r) = TurnError) \<and> \<not> snd r then g else g @ [ImagesDelivered], Inr ()))))"

end
