(* ===== verification/Terminal_Reconcile_Facts.thy ===== *)
theory Terminal_Reconcile_Facts
  imports Page_Receipts Terminal_Reconcile
begin

text \<open>
  Lemmas on the cleaning of pages: what a page shows after a sequence of dispatches (\<open>page_text\<close>), what one dispatch shows,
  and what the loop over the receipts leaves on every page.
\<close>

section \<open>What the pages show\<close>

text \<open>The reply text a page shows after the effects of a log, given what it showed before.\<close>

definition page_after :: "recover_effect \<Rightarrow> page_receipt \<Rightarrow> string \<Rightarrow> string" where
  "page_after x r s =
     (case x of
        CardDispatched m v c ok \<Rightarrow> if ok \<and> m = rp_message r then text_of (cm_segments c) else s
      | _ \<Rightarrow> s)"

fun page_text :: "recover_log \<Rightarrow> page_receipt \<Rightarrow> string \<Rightarrow> string" where
  "page_text [] r s = s"
| "page_text (x # g) r s = page_text g r (page_after x r s)"

lemma page_text_append: "page_text (g @ h) r s = page_text h r (page_text g r s)"
  by (induction g arbitrary: s) simp_all

text \<open>The part of the reply on a page, whole and with what begins at \<open>lo\<close> hidden.\<close>

definition full_part :: "transcript \<Rightarrow> page_receipt \<Rightarrow> string" where
  "full_part t r = slice (cu_reply (rp_start r)) (cu_reply (rp_end r)) (text_of (tr_segments t))"

definition kept_part :: "transcript \<Rightarrow> int \<Rightarrow> page_receipt \<Rightarrow> string" where
  "kept_part t lo r = slice (cu_reply (rp_start r)) (min (cu_reply (rp_end r)) lo) (text_of (tr_segments t))"

lemma slice_past: "b \<le> a \<Longrightarrow> slice a b s = []"
  by (simp add: slice_def)

definition page_in :: "transcript \<Rightarrow> page_receipt \<Rightarrow> bool" where
  "page_in t r = (follows (rp_start r) zero_cursor \<and> follows (rp_end r) (rp_start r) \<and> follows (transcript_end t) (rp_end r))"

lemma chain_pages_in:
  "receipt_chain c rs e \<Longrightarrow> follows c zero_cursor \<Longrightarrow> follows (transcript_end t) e \<Longrightarrow> r \<in> set rs \<Longrightarrow> page_in t r"
proof (induction rs arbitrary: c)
  case (Cons q rs)
  have q: "rp_start q = c" "follows (rp_end q) c" "receipt_chain (rp_end q) rs e" using Cons.prems(1) by simp_all
  have "follows e (rp_end q)" by (rule receipts_mono [OF q(3)])
  then show ?case
    using Cons.IH [OF q(3)] Cons.prems q follows_trans [OF q(2)] follows_trans [OF Cons.prems(3)]
    by (auto simp: page_in_def)
qed simp

lemma hidden_segments:
  assumes "page_in t r" and "0 \<le> lo"
  shows "\<exists>segs. view_segments (TrailingView t lo) (cu_reply (rp_start r)) (cu_reply (rp_end r)) = Inr segs \<and> text_of segs = kept_part t lo r"
proof -
  let ?a = "cu_reply (rp_start r)" and ?b = "cu_reply (rp_end r)"
  have o: "0 \<le> ?a" "?a \<le> ?b" "?b \<le> reply_chars t"
    using assms(1) by (simp_all add: page_in_def follows_def zero_cursor_def transcript_end_def)
  show ?thesis
  proof (cases "min ?b lo \<le> ?a")
    case True
    then show ?thesis using o by (simp add: projected_between_def Let_def kept_part_def slice_past)
  next
    case False
    then have "0 \<le> ?a" "?a \<le> min ?b lo" "min ?b lo \<le> reply_chars t" using o by auto
    then obtain segs where s: "reply_segments_between t ?a (min ?b lo) = Inr segs"
      using segments_between_text by (auto simp: reply_segments_between_def reply_chars_text)
    then have "text_of segs = kept_part t lo r" using between_slice by (simp add: reply_segments_between_def kept_part_def)
    then show ?thesis using s False o by (simp add: projected_between_def Let_def)
  qed
qed

lemma whole_segments:
  assumes "page_in t r"
  shows "\<exists>segs. view_segments (WholeView t) (cu_reply (rp_start r)) (cu_reply (rp_end r)) = Inr segs \<and> text_of segs = full_part t r"
proof -
  let ?a = "cu_reply (rp_start r)" and ?b = "cu_reply (rp_end r)"
  have o: "0 \<le> ?a" "?a \<le> ?b" "?b \<le> reply_chars t"
    using assms(1) by (simp_all add: page_in_def follows_def zero_cursor_def transcript_end_def)
  then obtain segs where s: "reply_segments_between t ?a ?b = Inr segs"
    using segments_between_text by (auto simp: reply_segments_between_def reply_chars_text)
  then have "text_of segs = full_part t r" using between_slice by (simp add: reply_segments_between_def full_part_def)
  then show ?thesis using s by simp
qed

lemma dispatch_page:
  assumes "page_in t r" and v: "v = TrailingView t lo \<and> 0 \<le> lo \<or> v = WholeView t"
  obtains m where "dispatch_card E (rp_message r) v n cancelled (rp_start r) (rp_end r) g
      = (g @ [CardDispatched (rp_message r) v m (rv_dispatch E (length g))], if rv_dispatch E (length g) then Inr () else Inl DispatchRaised)"
    and "text_of (cm_segments m) = (if v = WholeView t then full_part t r else kept_part t lo r)"
proof -
  have t: "view_transcript v = t" using v by auto
  have f: "follows (rp_end r) (rp_start r)" "follows (transcript_end t) (rp_end r)" using assms(1) by (simp_all add: page_in_def)
  obtain segs where s: "view_segments v (cu_reply (rp_start r)) (cu_reply (rp_end r)) = Inr segs"
      "text_of segs = (if v = WholeView t then full_part t r else kept_part t lo r)"
    using hidden_segments [OF assms(1), of lo] whole_segments [OF assms(1)] v by (cases v) auto
  obtain m where m: "build_execution_card_model v False n cancelled True (Some (rp_start r)) (Some (rp_end r)) = Inr m" "cm_segments m = segs"
    using s(1) t f by (simp add: build_execution_card_model_def)
  show ?thesis by (rule that [of m]) (use m s(2) in \<open>simp_all add: dispatch_card_def\<close>)
qed

section \<open>The cleaning of the pages\<close>

definition other_page :: "recover_effect \<Rightarrow> page_receipt \<Rightarrow> bool" where
  "other_page x r = (case x of CardDispatched m v c ok \<Rightarrow> m \<noteq> rp_message r | _ \<Rightarrow> True)"

lemma page_text_other: "\<forall>x \<in> set g. other_page x r \<Longrightarrow> page_text g r s = s"
proof (induction g arbitrary: s)
  case (Cons x g)
  then have "page_after x r s = s" by (cases x) (auto simp: other_page_def page_after_def)
  then show ?case using Cons by simp
qed simp

lemma clean_pages_ext:
  "\<exists>h. fst (clean_pages E t lo meeting refresh n cancelled rs a s g) = g @ h
     \<and> (\<forall>x \<in> set h. \<exists>m v c ok. x = CardDispatched m v c ok \<and> m \<in> rp_message ` set rs \<and> (v = TrailingView t lo \<or> v = WholeView t))"
proof (induction rs arbitrary: a s g)
  case (Cons r rs)
  let ?v = "if rp_message r \<in> meeting then TrailingView t lo else WholeView t"
  show ?case
  proof (cases "rp_message r \<notin> meeting \<and> \<not> refresh")
    case True
    then show ?thesis using Cons [of a s g] by fastforce
  next
    case False
    obtain g1 o1 where d: "dispatch_card E (rp_message r) ?v n cancelled (rp_start r) (rp_end r) g = (g1, o1)" by fastforce
    then obtain k where k: "g1 = g @ k" "\<forall>x \<in> set k. \<exists>c ok. x = CardDispatched (rp_message r) ?v c ok"
      by (auto simp: dispatch_card_def split: sum.splits)
    obtain h where h: "fst (clean_pages E t lo meeting refresh n cancelled (r # rs) a s g) = g1 @ h"
        "\<forall>x \<in> set h. \<exists>m v c ok. x = CardDispatched m v c ok \<and> m \<in> rp_message ` set rs \<and> (v = TrailingView t lo \<or> v = WholeView t)"
      using False d Cons [of "Suc a" s g1] Cons [of "Suc a" "Suc s" g1] by (cases o1) (auto simp del: split_paired_All split_paired_Ex)
    have "\<forall>x \<in> set (k @ h). \<exists>m v c ok. x = CardDispatched m v c ok \<and> m \<in> rp_message ` set (r # rs) \<and> (v = TrailingView t lo \<or> v = WholeView t)"
    proof
      fix x
      assume "x \<in> set (k @ h)"
      then consider "x \<in> set k" | "x \<in> set h" by auto
      then show "\<exists>m v c ok. x = CardDispatched m v c ok \<and> m \<in> rp_message ` set (r # rs) \<and> (v = TrailingView t lo \<or> v = WholeView t)"
      proof cases
        case 1
        then show ?thesis using k(2) by (auto split: if_splits)
      next
        case 2
        then show ?thesis using h(2) by fastforce
      qed
    qed
    then show ?thesis using h(1) k(1) by (intro exI [of _ "k @ h"]) simp
  qed
qed simp

lemma clean_pages_counts:
  "clean_pages E t lo meeting refresh n cancelled rs a s g = (g', a', s') \<Longrightarrow> s \<le> a \<Longrightarrow> s \<le> s' \<and> s' - s \<le> a' - a \<and> a \<le> a'"
proof (induction rs arbitrary: a s g)
  case (Cons r rs)
  let ?v = "if rp_message r \<in> meeting then TrailingView t lo else WholeView t"
  obtain g1 o1 where d: "dispatch_card E (rp_message r) ?v n cancelled (rp_start r) (rp_end r) g = (g1, o1)" by fastforce
  show ?case
    using Cons.prems d Cons.IH [of a s g] Cons.IH [of "Suc a" s g1] Cons.IH [of "Suc a" "Suc s" g1]
    by (cases o1) (auto split: if_splits)
qed simp

text \<open>The log of the pages after the first page does not touch it.\<close>

lemma clean_pages_texts:
  assumes "\<forall>r \<in> set rs. page_in t r" and "distinct (map rp_message rs)" and "0 \<le> lo" and "s \<le> a"
    and "clean_pages E t lo meeting refresh n cancelled rs a s g = (g @ h, a', s')"
  shows "(\<forall>r \<in> set rs. page_text h r (full_part t r) = full_part t r \<or> page_text h r (full_part t r) = kept_part t lo r \<and> rp_message r \<in> meeting)
    \<and> (a' - a = s' - s \<longrightarrow> (\<forall>r \<in> set rs. rp_message r \<in> meeting \<longrightarrow> page_text h r (full_part t r) = kept_part t lo r))"
  using assms
proof (induction rs arbitrary: a s g h)
  case (Cons r rs)
  let ?v = "if rp_message r \<in> meeting then TrailingView t lo else WholeView t"
  have later: "page_text k r x = x"
    if "clean_pages E t lo meeting refresh n cancelled rs b b' g1 = (g1 @ k, c, c')" for b b' c c' g1 k x
  proof (rule page_text_other, rule ballI)
    fix y
    assume y: "y \<in> set k"
    from clean_pages_ext [of E t lo meeting refresh n cancelled rs b b' g1]
    obtain h' where h': "fst (clean_pages E t lo meeting refresh n cancelled rs b b' g1) = g1 @ h'"
        "\<forall>x \<in> set h'. \<exists>m v c ok. x = CardDispatched m v c ok \<and> m \<in> rp_message ` set rs \<and> (v = TrailingView t lo \<or> v = WholeView t)"
      by (elim exE conjE)
    have "k = h'" using h'(1) that by simp
    then have "y \<in> set h'" using y by simp
    from bspec [OF h'(2) this] obtain m v card ok where "y = CardDispatched m v card ok" "m \<in> rp_message ` set rs" by (elim exE conjE)
    moreover have "rp_message r \<notin> rp_message ` set rs" using Cons.prems(2) by simp
    ultimately have "m \<noteq> rp_message r" by metis
    with \<open>y = CardDispatched m v card ok\<close> show "other_page y r" by (simp add: other_page_def)
  qed
  show ?case
  proof (cases "rp_message r \<notin> meeting \<and> \<not> refresh")
    case True
    then have run: "clean_pages E t lo meeting refresh n cancelled rs a s g = (g @ h, a', s')" using Cons.prems(5) by simp
    from Cons.IH [OF _ _ Cons.prems(3,4) run] later [OF run] True Cons.prems(1,2) show ?thesis by auto
  next
    case False
    have v: "?v = TrailingView t lo \<and> 0 \<le> lo \<or> ?v = WholeView t" using Cons.prems(3) by simp
    have p: "page_in t r" using Cons.prems(1) by simp
    obtain m where d: "dispatch_card E (rp_message r) ?v n cancelled (rp_start r) (rp_end r) g
        = (g @ [CardDispatched (rp_message r) ?v m (rv_dispatch E (length g))], if rv_dispatch E (length g) then Inr () else Inl DispatchRaised)"
      and m: "text_of (cm_segments m) = (if ?v = WholeView t then full_part t r else kept_part t lo r)"
      by (rule dispatch_page [OF p v])
    let ?x = "CardDispatched (rp_message r) ?v m (rv_dispatch E (length g))"
    let ?s = "if rv_dispatch E (length g) then Suc s else s"
    have run: "clean_pages E t lo meeting refresh n cancelled rs (Suc a) ?s (g @ [?x]) = (g @ h, a', s')"
      using Cons.prems(5) False d by (auto split: if_splits)
    obtain k where k: "g @ h = (g @ [?x]) @ k"
      using clean_pages_ext [of E t lo meeting refresh n cancelled rs "Suc a" ?s "g @ [?x]"] run by auto
    then have h: "h = ?x # k" by simp
    note run' = run [unfolded k]
    have le: "?s \<le> Suc a" using Cons.prems(4) by simp
    note ih = Cons.IH [OF _ _ Cons.prems(3) le run']
    have counts: "?s \<le> s'" "s' - ?s \<le> a' - Suc a" "Suc a \<le> a'" using clean_pages_counts [OF run' le] by auto
    have first: "page_text h r (full_part t r) = page_after ?x r (full_part t r)" using later [OF run'] by (simp add: h)
    have rest: "page_text h q (full_part t q) = page_text k q (full_part t q)" if "q \<in> set rs" for q
      using that Cons.prems(2) by (auto simp: h page_after_def)
    have one: "page_text h r (full_part t r) = full_part t r \<or> page_text h r (full_part t r) = kept_part t lo r \<and> rp_message r \<in> meeting"
      unfolding first by (simp add: page_after_def m)
    have all: "rp_message r \<in> meeting \<longrightarrow> page_text h r (full_part t r) = kept_part t lo r" if "a' - a = s' - s"
    proof -
      have "rv_dispatch E (length g)" using that counts by (auto split: if_splits)
      then show ?thesis unfolding first by (simp add: page_after_def m)
    qed
    have eq: "a' - Suc a = s' - ?s" if "a' - a = s' - s"
    proof -
      have "rv_dispatch E (length g)" using that counts by (auto split: if_splits)
      then show ?thesis using that counts by auto
    qed
    show ?thesis using ih rest one all eq Cons.prems(1,2) by auto
  qed
qed simp

end
