(* ===== verification/Terminal_Snapshot_Facts.thy ===== *)
theory Terminal_Snapshot_Facts
  imports Terminal_Snapshot
begin

text \<open>
  When a snapshot yields the terminal text of a turn: the exact conditions on the turn and its last agent message.
\<close>

section \<open>The last agent message of a turn\<close>

lemma agent_items_append: "agent_items (xs @ ys) = agent_items xs @ map (\<lambda>(n, i). (n + length xs, i)) (agent_items ys)"
proof -
  have "enumerate (length xs) ys = map (\<lambda>(n, i). (n + length xs, i)) (enumerate 0 ys)"
    by (simp add: enumerate_eq_zip zip_map1 [symmetric] map_add_upt add.commute)
  then show ?thesis by (simp add: agent_items_def enumerate_append_eq filter_map comp_def case_prod_unfold)
qed

lemma agent_items_Cons:
  "agent_items (i # items) = (if is_agent i then [(0, i)] else []) @ map (\<lambda>(n, i). (n + 1, i)) (agent_items items)"
  using agent_items_append [of "[i]" items] by (simp add: agent_items_def)

lemma no_agents: "agent_items items = [] \<longleftrightarrow> (\<forall>i \<in> set items. \<not> is_agent i)"
  by (induction items) (auto simp: agent_items_def [of "[]"] agent_items_Cons)

lemma last_agent:
  assumes "is_agent i" and "\<forall>j \<in> set ys. \<not> is_agent j"
  shows "agent_items (xs @ i # ys) \<noteq> []" and "last (agent_items (xs @ i # ys)) = (length xs, i)"
proof -
  have "agent_items (xs @ i # ys) = agent_items xs @ [(length xs, i)]"
    using assms no_agents [of ys] by (simp add: agent_items_append agent_items_Cons)
  then show "agent_items (xs @ i # ys) \<noteq> []" "last (agent_items (xs @ i # ys)) = (length xs, i)" by simp_all
qed

lemma split_last_agent:
  assumes "agent_items items \<noteq> []"
  obtains xs i ys where "items = xs @ i # ys" and "is_agent i" and "\<forall>j \<in> set ys. \<not> is_agent j"
proof -
  have "\<exists>i \<in> set items. is_agent i" using assms no_agents [of items] by blast
  then show ?thesis using split_list_last_prop [of items is_agent] that by blast
qed

text \<open>What makes a message the terminal one of its turn.\<close>

definition closes_turn :: "snapshot_turn \<Rightarrow> turn_item list \<Rightarrow> turn_item \<Rightarrow> turn_item list \<Rightarrow> bool" where
  "closes_turn u xs i ys =
     (st_items u = xs @ i # ys \<and> is_agent i \<and> (\<forall>j \<in> set ys. \<not> is_agent j \<and> \<not> is_invalidating j)
      \<and> ti_is_text i \<and> can_be_terminal_candidate (ti_phase i) \<and> \<not> item_in_progress i \<and> \<not> turn_in_progress u)"

lemma candidate_iff: "terminal_candidate u \<longleftrightarrow> (\<exists>xs i ys. closes_turn u xs i ys)"
proof
  assume c: "terminal_candidate u"
  then have "agent_items (st_items u) \<noteq> []" by (simp add: terminal_candidate_def Let_def)
  then obtain xs i ys where s: "st_items u = xs @ i # ys" "is_agent i" "\<forall>j \<in> set ys. \<not> is_agent j" by (rule split_last_agent)
  note l = last_agent [OF s(2,3), of xs, folded s(1)]
  have "closes_turn u xs i ys"
    using c s l by (auto simp: terminal_candidate_def closes_turn_def work_follows_def Let_def)
  then show "\<exists>xs i ys. closes_turn u xs i ys" by blast
next
  assume "\<exists>xs i ys. closes_turn u xs i ys"
  then obtain xs i ys where c: "closes_turn u xs i ys" by blast
  then have s: "st_items u = xs @ i # ys" "is_agent i" "\<forall>j \<in> set ys. \<not> is_agent j" by (auto simp: closes_turn_def)
  note l = last_agent [OF s(2,3), of xs, folded s(1)]
  show "terminal_candidate u"
    using c s l by (auto simp: terminal_candidate_def closes_turn_def work_follows_def Let_def)
qed

lemma closing_message:
  assumes "closes_turn u xs i ys"
  shows "final_message u = ti_text i"
proof -
  have s: "st_items u = xs @ i # ys" "is_agent i" "\<forall>j \<in> set ys. \<not> is_agent j" "ti_is_text i" using assms by (auto simp: closes_turn_def)
  note l = last_agent [OF s(2,3), of xs, folded s(1)]
  show ?thesis using l s(4) by (simp add: final_message_def agent_text_def)
qed

lemma agent_projection:
  "(\<exists>p. turn_projection u = Some p \<and> sp_kind p = AgentText \<and> sp_final p = s) \<longleftrightarrow>
     strip s \<noteq> [] \<and> (\<exists>xs i ys. closes_turn u xs i ys \<and> ti_text i = s)"
proof -
  have "(\<exists>p. turn_projection u = Some p \<and> sp_kind p = AgentText \<and> sp_final p = s) \<longleftrightarrow>
      terminal_candidate u \<and> strip s \<noteq> [] \<and> final_message u = s"
    by (auto simp: turn_projection_def Let_def)
  then show ?thesis using candidate_iff [of u] closing_message [of u] by metis
qed

lemma scan_one: "scan_turns [u] f = (case turn_projection u of Some p \<Rightarrow> p | None \<Rightarrow> scan_turns [] (note_fallback u f))"
  by simp

lemma scan_agent:
  "sp_kind (scan_turns [u] f) = AgentText \<and> sp_final (scan_turns [u] f) = s \<longleftrightarrow>
     (\<exists>p. turn_projection u = Some p \<and> sp_kind p = AgentText \<and> sp_final p = s)"
  by (cases "turn_projection u") auto

lemma last_match:
  "(\<exists>us u vs. turns = us @ u # vs \<and> strip (st_id u) = strip turn \<and> (\<forall>v \<in> set vs. strip (st_id v) \<noteq> strip turn) \<and> P u) \<longleftrightarrow>
     matched_turns turns turn \<noteq> [] \<and> P (last (matched_turns turns turn))"
proof (induction turns rule: rev_induct)
  case Nil
  then show ?case by (simp add: matched_turns_def)
next
  case (snoc v turns)
  show ?case
  proof (cases "strip (st_id v) = strip turn")
    case True
    then have "matched_turns (turns @ [v]) turn = matched_turns turns turn @ [v]" by (simp add: matched_turns_def)
    moreover have "(\<exists>us u vs. turns @ [v] = us @ u # vs \<and> strip (st_id u) = strip turn \<and> (\<forall>v \<in> set vs. strip (st_id v) \<noteq> strip turn) \<and> P u) \<longleftrightarrow> P v"
    proof
      assume "P v"
      then show "\<exists>us u vs. turns @ [v] = us @ u # vs \<and> strip (st_id u) = strip turn \<and> (\<forall>v \<in> set vs. strip (st_id v) \<noteq> strip turn) \<and> P u"
        using True by (intro exI [of _ turns] exI [of _ v] exI [of _ "[]"]) simp
    next
      assume "\<exists>us u vs. turns @ [v] = us @ u # vs \<and> strip (st_id u) = strip turn \<and> (\<forall>v \<in> set vs. strip (st_id v) \<noteq> strip turn) \<and> P u"
      then obtain us u vs where h: "turns @ [v] = us @ u # vs" "\<forall>v \<in> set vs. strip (st_id v) \<noteq> strip turn" "P u" by blast
      then show "P v" using True by (cases vs rule: rev_cases) auto
    qed
    ultimately show ?thesis by simp
  next
    case False
    then have m: "matched_turns (turns @ [v]) turn = matched_turns turns turn" by (simp add: matched_turns_def)
    have "(\<exists>us u vs. turns @ [v] = us @ u # vs \<and> strip (st_id u) = strip turn \<and> (\<forall>v \<in> set vs. strip (st_id v) \<noteq> strip turn) \<and> P u) \<longleftrightarrow>
      (\<exists>us u vs. turns = us @ u # vs \<and> strip (st_id u) = strip turn \<and> (\<forall>v \<in> set vs. strip (st_id v) \<noteq> strip turn) \<and> P u)" (is "?A \<longleftrightarrow> ?B")
    proof
      assume ?A
      then obtain us u vs where h: "turns @ [v] = us @ u # vs" "strip (st_id u) = strip turn" "\<forall>v \<in> set vs. strip (st_id v) \<noteq> strip turn" "P u" by blast
      then obtain ws where "vs = ws @ [v]" "turns = us @ u # ws" using False by (cases vs rule: rev_cases) auto
      then show ?B using h by auto
    next
      assume ?B
      then obtain us u vs where "turns = us @ u # vs" "strip (st_id u) = strip turn" "\<forall>v \<in> set vs. strip (st_id v) \<noteq> strip turn" "P u" by blast
      then show ?A using False by (intro exI [of _ us] exI [of _ u] exI [of _ "vs @ [v]"]) auto
    qed
    then show ?thesis using snoc m by simp
  qed
qed

text \<open>
  C27. A snapshot yields an agent text for a turn exactly when the last turn of that id is finished, its last agent message is
  finished, textual, not marked as commentary, not blank and not followed by work; and then it is that text.
\<close>

theorem snapshot_agent_text_is_exact:
  assumes "strip turn \<noteq> []"
  shows "sp_kind (snapshot_reply turns turn) = AgentText \<and> sp_final (snapshot_reply turns turn) = s \<longleftrightarrow>
     strip s \<noteq> [] \<and> (\<exists>us u vs xs i ys. turns = us @ u # vs \<and> strip (st_id u) = strip turn \<and> (\<forall>v \<in> set vs. strip (st_id v) \<noteq> strip turn)
       \<and> closes_turn u xs i ys \<and> ti_text i = s)"
proof -
  let ?P = "\<lambda>u. \<exists>xs i ys. closes_turn u xs i ys \<and> ti_text i = s"
  have "sp_kind (snapshot_reply turns turn) = AgentText \<and> sp_final (snapshot_reply turns turn) = s \<longleftrightarrow>
      matched_turns turns turn \<noteq> [] \<and> strip s \<noteq> [] \<and> ?P (last (matched_turns turns turn))"
  proof (cases "matched_turns turns turn = []")
    case True
    then show ?thesis using assms by (simp add: snapshot_reply_def)
  next
    case False
    then have "snapshot_reply turns turn = scan_turns [last (matched_turns turns turn)] no_fallback" using assms by (simp add: snapshot_reply_def)
    then show ?thesis using False scan_agent agent_projection by simp
  qed
  also have "\<dots> \<longleftrightarrow> strip s \<noteq> [] \<and> (\<exists>us u vs. turns = us @ u # vs \<and> strip (st_id u) = strip turn \<and> (\<forall>v \<in> set vs. strip (st_id v) \<noteq> strip turn) \<and> ?P u)"
    using last_match [of turns turn ?P] by blast
  finally show ?thesis by blast
qed

definition demo_turns :: "snapshot_turn list" where
  "demo_turns =
     [\<lparr>st_id = ''t1'', st_status = ''completed'',
       st_items = [\<lparr>ti_type = ''commandExecution'', ti_text = [], ti_is_text = False, ti_status = [], ti_id = ''c'', ti_phase = None\<rparr>,
         \<lparr>ti_type = ''agentMessage'', ti_text = ''yo!'', ti_is_text = True, ti_status = ''completed'', ti_id = ''i1'', ti_phase = None\<rparr>],
       st_error = [], st_details = []\<rparr>]"

lemma snapshot_agent_text_is_exact_witness:
  "\<exists>u xs i ys. u \<in> set demo_turns \<and> closes_turn u xs i ys \<and> ti_text i = ''yo!''"
proof -
  have t: "strip ''t1'' \<noteq> []" by code_simp
  have "sp_kind (snapshot_reply demo_turns ''t1'') = AgentText \<and> sp_final (snapshot_reply demo_turns ''t1'') = ''yo!''" by code_simp
  then obtain us u vs xs i ys where u: "demo_turns = us @ u # vs" "closes_turn u xs i ys" "ti_text i = ''yo!''"
    using snapshot_agent_text_is_exact [OF t, of demo_turns "''yo!''"] by blast
  then have "u \<in> set demo_turns" by (metis in_set_conv_decomp)
  with u(2,3) show ?thesis by blast
qed

end
