(* ===== verification/Terminal_Reconcile_Properties.thy ===== *)
theory Terminal_Reconcile_Properties
  imports Terminal_Reconcile_Facts Terminal_Snapshot_Facts
begin

text \<open>
  The properties of the reconciliation: the cleaning hides the terminal reply and nothing else, and no reply is hidden
  before it was published (\<open>carried\<close>, lifted through every path of a reconciliation).
\<close>

lemma kept_concat:
  "receipt_chain c rs e \<Longrightarrow> follows c zero_cursor \<Longrightarrow> concat (map (kept_part t lo) rs) = slice (cu_reply c) (min (cu_reply e) lo) (text_of (tr_segments t))"
proof (induction rs arbitrary: c)
  case Nil
  then show ?case by (simp add: slice_past)
next
  case (Cons r rs)
  let ?d = "rp_end r"
  have d: "rp_start r = c" "receipt_chain ?d rs e" and o: "follows ?d c" using Cons.prems(1) by simp_all
  have o': "follows e ?d" by (rule receipts_mono [OF d(2)])
  have n: "0 \<le> cu_reply c" "cu_reply c \<le> cu_reply ?d" "cu_reply ?d \<le> cu_reply e"
    using o o' Cons.prems(2) by (auto simp: follows_def zero_cursor_def)
  have ih: "concat (map (kept_part t lo) rs) = slice (cu_reply ?d) (min (cu_reply e) lo) (text_of (tr_segments t))"
    by (rule Cons.IH [OF d(2) follows_trans [OF o Cons.prems(2)]])
  show ?case
  proof (cases "lo \<le> cu_reply ?d")
    case True
    then have "min (cu_reply e) lo = min (cu_reply ?d) lo" using n by simp
    then show ?thesis using ih True d(1) by (simp add: kept_part_def slice_past)
  next
    case False
    then have "min (cu_reply ?d) lo = cu_reply ?d" "cu_reply ?d \<le> min (cu_reply e) lo" using n by auto
    moreover have "kept_part t lo r = slice (cu_reply c) (cu_reply ?d) (text_of (tr_segments t))"
      using calculation(1) d(1) by (simp add: kept_part_def)
    ultimately show ?thesis using ih slice_join [OF n(1,2), of "min (cu_reply e) lo" "text_of (tr_segments t)"] by simp
  qed
qed

lemma kept_outside:
  assumes "page_in t r" and "\<not> meets lo (reply_chars t) r"
  shows "full_part t r = kept_part t lo r"
proof (cases "cu_reply (rp_end r) \<le> lo")
  case True
  then show ?thesis by (simp add: full_part_def kept_part_def min_def)
next
  case False
  then have "reply_chars t \<le> cu_reply (rp_start r)" using assms(2) by (simp add: meets_def)
  then have "cu_reply (rp_end r) \<le> cu_reply (rp_start r)" using assms(1) by (auto simp: page_in_def follows_def transcript_end_def)
  then show ?thesis by (simp add: full_part_def kept_part_def slice_past)
qed

lemma ids_of_met:
  assumes "distinct (map rp_message rs)" and "r \<in> set rs" and "rp_message r \<in> rp_message ` set (filter P rs)"
  shows "P r"
  using assms by (auto simp: distinct_map inj_on_def)

text \<open>
  C25. Taking a published reply off its pages loses nothing else: whatever dispatches fail, every page shows its part of the reply, or
  its part without what belongs to the terminal reply; the call never raises; and when it reports that the cleaning
  was scheduled, the pages together show exactly the reply up to the terminal one, so that with the
  result card the whole reply is shown once.
\<close>

theorem cleanup_hides_only_the_reply:
  assumes "receipt_chain zero_cursor rs e" and "distinct (map rp_message rs)" and "follows (transcript_end t) e"
    and "0 \<le> lo" and "lo < reply_chars t"
  shows "case remove_terminal_reply E rs t (lo, reply_chars t) cancelled n refresh [] of
      (g, Inl x) \<Rightarrow> False
    | (g, Inr outcome) \<Rightarrow>
        (\<forall>r \<in> set rs. page_text g r (full_part t r) = full_part t r \<or> page_text g r (full_part t r) = kept_part t lo r)
        \<and> (co_status outcome = CleanupScheduled \<longrightarrow>
            concat (map (\<lambda>r. page_text g r (full_part t r)) rs) @ slice lo (reply_chars t) (text_of (tr_segments t)) = text_of (tr_segments t))"
proof -
  let ?hi = "reply_chars t" and ?met = "filter (meets lo (reply_chars t)) rs"
  have pages: "\<forall>r \<in> set rs. page_in t r" using chain_pages_in [OF assms(1) follows_refl assms(3)] by blast
  have cov: "terminal_reply_coverage rs lo ?hi = Inr (?met, ?hi \<le> cu_reply e)" by (rule chain_coverage [OF assms(1) chain_required [OF assms(1,2)] assms(4,5)])
  have proj: "make_projection t lo = Inr (t, lo)" using assms(4,5) by (simp add: make_projection_def)
  have hi: "\<not> (lo < 0 \<or> ?hi \<le> lo \<or> ?hi \<noteq> reply_chars t)" using assms(4,5) by simp
  show ?thesis
  proof (cases "rs = [] \<or> ?met = []")
    case True
    then show ?thesis using hi cov by (cases "rs = []") (simp_all add: remove_terminal_reply_def retained_def)
  next
    case False
    obtain g a s where run: "clean_pages E t lo (rp_message ` set ?met) refresh n cancelled rs 0 0 [] = (g, a, s)" by (metis prod_cases3)
    have texts: "(\<forall>r \<in> set rs. page_text g r (full_part t r) = full_part t r \<or> page_text g r (full_part t r) = kept_part t lo r \<and> rp_message r \<in> rp_message ` set ?met)
        \<and> (a - 0 = s - 0 \<longrightarrow> (\<forall>r \<in> set rs. rp_message r \<in> rp_message ` set ?met \<longrightarrow> page_text g r (full_part t r) = kept_part t lo r))"
    proof -
      have run': "clean_pages E t lo (rp_message ` set ?met) refresh n cancelled rs 0 0 [] = ([] @ g, a, s)" using run by simp
      show ?thesis by (rule clean_pages_texts [OF pages assms(2,4) order_refl run'])
    qed
    have counts: "s \<le> a" using clean_pages_counts [OF run] by simp
    have res: "remove_terminal_reply E rs t (lo, ?hi) cancelled n refresh [] = (g, Inr (cleanup_result a s (?hi \<le> cu_reply e)))"
      using False hi cov proj run by (simp add: remove_terminal_reply_def)
    have whole: "concat (map (\<lambda>r. page_text g r (full_part t r)) rs) @ slice lo ?hi (text_of (tr_segments t)) = text_of (tr_segments t)"
      if "co_status (cleanup_result a s (?hi \<le> cu_reply e)) = CleanupScheduled"
    proof -
      have k: "a = s" "?hi \<le> cu_reply e" using that counts by (auto simp: cleanup_result_def split: if_splits)
      have each: "page_text g r (full_part t r) = kept_part t lo r" if r: "r \<in> set rs" for r
      proof (cases "rp_message r \<in> rp_message ` set ?met")
        case True
        then show ?thesis using texts k(1) r by blast
      next
        case False
        then have "\<not> meets lo ?hi r" using r by auto
        then have "full_part t r = kept_part t lo r" using kept_outside pages r by blast
        then show ?thesis using texts r by metis
      qed
      have "concat (map (\<lambda>r. page_text g r (full_part t r)) rs) = concat (map (kept_part t lo) rs)" using each by (simp cong: map_cong)
      also have "\<dots> = slice 0 lo (text_of (tr_segments t))"
        using kept_concat [OF assms(1) follows_refl, of t lo] k(2) assms(5) by (simp add: zero_cursor_def)
      finally show ?thesis
        using slice_join [of 0 lo ?hi] slice_all [of "text_of (tr_segments t)"] assms(4,5) by (simp add: reply_chars_text)
    qed
    show ?thesis using res texts whole by auto
  qed
qed

section \<open>Nothing is hidden that is not published\<close>

definition available :: "recover_env \<Rightarrow> string \<Rightarrow> recover_log \<Rightarrow> bool" where
  "available E s g = (rv_recorded E s \<or> ResultPublished s True \<in> set g)"

text \<open>Every card with a hidden reply shows the target's transcript, and the hidden text was available before it.\<close>

definition hides :: "recover_effect \<Rightarrow> (transcript \<times> int) option" where
  "hides x = (case x of CardDispatched m (TrailingView u lo) c ok \<Rightarrow> Some (u, lo) | _ \<Rightarrow> None)"

definition hidden_text :: "transcript \<Rightarrow> int \<Rightarrow> string" where
  "hidden_text t lo = slice lo (reply_chars t) (text_of (tr_segments t))"

definition carried :: "recover_env \<Rightarrow> transcript \<Rightarrow> recover_log \<Rightarrow> bool" where
  "carried E t g =
     (\<forall>pre x post u lo. g = pre @ x # post \<longrightarrow> hides x = Some (u, lo) \<longrightarrow> u = t \<and> strip (hidden_text t lo) \<noteq> [] \<and> available E (hidden_text t lo) pre)"

lemma carried_Nil [simp]: "carried E t []"
  by (simp add: carried_def)

lemma available_mono: "available E s g \<Longrightarrow> available E s (g @ h)"
  by (auto simp: available_def)

lemma carried_append:
  assumes "carried E t g"
    and "\<And>x u lo. x \<in> set h \<Longrightarrow> hides x = Some (u, lo) \<Longrightarrow> u = t \<and> strip (hidden_text t lo) \<noteq> [] \<and> available E (hidden_text t lo) g"
  shows "carried E t (g @ h)"
  unfolding carried_def
proof (intro allI impI)
  fix pre x post u lo
  assume s: "g @ h = pre @ x # post" and x: "hides x = Some (u, lo)"
  then consider zs where "g = pre @ x # zs" | zs where "pre = g @ zs" "h = zs @ x # post"
    by (auto simp: append_eq_append_conv2 append_eq_Cons_conv)
  then show "u = t \<and> strip (hidden_text t lo) \<noteq> [] \<and> available E (hidden_text t lo) pre"
  proof cases
    case 1
    then show ?thesis using assms(1) x unfolding carried_def by blast
  next
    case 2
    then show ?thesis using assms(2) [of x u lo] x available_mono by auto
  qed
qed

text \<open>A log that only grew by effects that hide nothing.\<close>

definition plain :: "recover_log \<Rightarrow> recover_log \<Rightarrow> bool" where
  "plain g g' = (\<exists>h. g' = g @ h \<and> (\<forall>x \<in> set h. hides x = None))"

lemma plain_refl [simp]: "plain g g"
  by (simp add: plain_def)

lemma plain_trans: "plain f g \<Longrightarrow> plain g h \<Longrightarrow> plain f h"
  unfolding plain_def by (metis Un_iff append.assoc set_append)

lemma plain_carried: "plain g g' \<Longrightarrow> carried E t g \<Longrightarrow> carried E t g'"
  using carried_append by (fastforce simp: plain_def)

lemma plain_available: "plain g g' \<Longrightarrow> available E s g \<Longrightarrow> available E s g'"
  by (auto simp: plain_def available_def)

lemma dispatch_plain: "plain g (fst (dispatch_card E m (WholeView t) n cancelled a b g))"
  by (auto simp: dispatch_card_def plain_def hides_def split: sum.split)

lemma refresh_plain: "plain g (refresh_confirmed_page_status E rs t cancelled n g)"
proof (induction rs arbitrary: g)
  case (Cons r rs)
  show ?case unfolding refresh_confirmed_page_status.simps by (rule plain_trans [OF dispatch_plain Cons])
qed simp

lemma changed_plain: "plain g (fst (refresh_card_if_changed E m t d cc cancelled n a b g))"
proof -
  let ?d = "dispatch_card E m (WholeView d) n cancelled (clip_cursor a (transcript_end d))
      (join_cursor (clip_cursor a (transcript_end d)) (clip_cursor b (transcript_end d))) g"
  have "fst (bindc ?d (\<lambda>g u. (g, Inr True))) = fst ?d" by (cases ?d; cases "snd ?d") auto
  then show ?thesis using dispatch_plain by (simp add: refresh_card_if_changed_def Let_def)
qed

lemma no_valid_plain: "plain g (fst (present_no_valid_reply E T t cancelled n g))"
  unfolding present_no_valid_reply_def Let_def by (rule dispatch_plain)

lemma publish_plain:
  assumes "publish_result_if_needed E s g = (g', r)"
  shows "plain g g'" and "r = Inr True \<Longrightarrow> strip s \<noteq> [] \<and> available E s g'"
  using assms by (auto simp: publish_result_if_needed_def plain_def hides_def available_def split: if_splits option.splits)

lemma fst_bindc: "fst (bindc (g, r) k) = (case r of Inl x \<Rightarrow> g | Inr y \<Rightarrow> fst (k g y))"
  by (simp add: bindc_def split: sum.split)

text \<open>The intervals to hide end with the transcript and hold the reply that was matched.\<close>

lemma find_split: "find P xs = Some x \<Longrightarrow> \<exists>ys zs. xs = ys @ x # zs \<and> (\<forall>y \<in> set ys. \<not> P y)"
proof (induction xs)
  case (Cons a xs)
  show ?case
  proof (cases "P a")
    case True
    then have "a = x" using Cons.prems by simp
    then show ?thesis by (intro exI [of _ "[]"] exI [of _ xs]) simp
  next
    case False
    then obtain ys zs where "xs = ys @ x # zs" "\<forall>y \<in> set ys. \<not> P y" using Cons by auto
    then show ?thesis using False by (intro exI [of _ "a # ys"] exI [of _ zs]) simp
  qed
qed simp

lemma dividers_text: "\<forall>y \<in> set ys. \<not> is_assistant y \<Longrightarrow> text_of ys = []"
proof (induction ys)
  case (Cons y ys)
  then show ?case by (cases y) simp_all
qed simp

lemma trailing_found:
  assumes "trailing_reply_interval t s = Some (lo, hi)"
  obtains x where "find is_assistant (rev (tr_segments t)) = Some x" "seg_text x = s" "s \<noteq> []"
      and "lo = reply_chars t - int (length s)" "hi = reply_chars t"
proof (cases "find is_assistant (rev (tr_segments t))")
  case None
  then show ?thesis using assms by (simp add: trailing_reply_interval_def split: if_splits)
next
  case (Some x)
  then have "s \<noteq> []" "seg_text x = s" "lo = reply_chars t - int (length s)" "hi = reply_chars t"
    using assms unfolding trailing_reply_interval_def by (simp_all split: if_splits)
  then show ?thesis using that Some by blast
qed

lemma trailing_interval:
  assumes "trailing_reply_interval t s = Some (lo, hi)"
  shows "hi = reply_chars t" and "hidden_text t lo = s"
proof -
  obtain x where x: "find is_assistant (rev (tr_segments t)) = Some x" "seg_text x = s" "s \<noteq> []"
      and i: "lo = reply_chars t - int (length s)" "hi = reply_chars t"
    by (rule trailing_found [OF assms])
  obtain ys zs where ys: "rev (tr_segments t) = ys @ x # zs" "\<forall>y \<in> set ys. \<not> is_assistant y"
    using find_split [OF x(1)] by blast
  have "tr_segments t = rev (ys @ x # zs)" by (simp add: ys(1) [symmetric])
  then have "text_of (tr_segments t) = text_of (rev zs) @ s" using dividers_text [of "rev ys"] ys(2) x(2) by simp
  then show "hidden_text t lo = s" using i by (simp add: hidden_text_def slice_def reply_chars_text)
  show "hi = reply_chars t" by (rule i(2))
qed

lemma bindc_carried:
  assumes "carried E t (fst r)" and "\<And>g x. carried E t g \<Longrightarrow> r = (g, Inr x) \<Longrightarrow> carried E t (fst (k g x))"
  shows "carried E t (fst (bindc r k))"
  using assms by (cases r; cases "snd r") auto

lemma hidden_pages:
  assumes "x = CardDispatched m v c ok" and "v = TrailingView t lo \<or> v = WholeView t" and "hides x = Some (u, l)"
  shows "u = t \<and> l = lo"
  using assms by (auto simp: hides_def)

lemma remove_carried:
  assumes c: "carried E t g" and a: "available E (hidden_text t lo) g" and s: "strip (hidden_text t lo) \<noteq> []"
  shows "carried E t (fst (remove_terminal_reply E rs t (lo, hi) cancelled n refresh g))"
proof -
  have clean: "carried E t (fst (clean_pages E t lo meeting refresh n cancelled rs k j g))" for meeting k j
  proof -
    from clean_pages_ext [of E t lo meeting refresh n cancelled rs k j g]
    obtain h where h: "fst (clean_pages E t lo meeting refresh n cancelled rs k j g) = g @ h"
        "\<forall>x \<in> set h. \<exists>m v c ok. x = CardDispatched m v c ok \<and> m \<in> rp_message ` set rs \<and> (v = TrailingView t lo \<or> v = WholeView t)"
      by (elim exE conjE)
    have "carried E t (g @ h)"
    proof (rule carried_append [OF c])
      fix x u l
      assume x: "x \<in> set h" "hides x = Some (u, l)"
      from bspec [OF h(2) x(1)] obtain m v cc ok where v: "x = CardDispatched m v cc ok" "v = TrailingView t lo \<or> v = WholeView t"
        by (elim exE conjE)
      from hidden_pages [OF v x(2)] show "u = t \<and> strip (hidden_text t l) \<noteq> [] \<and> available E (hidden_text t l) g" using a s by simp
    qed
    then show ?thesis using h(1) by simp
  qed
  show ?thesis
    using c clean [of "rp_message ` set (fst (projr (terminal_reply_coverage rs lo hi)))" 0 0]
    by (auto simp: remove_terminal_reply_def split: sum.split prod.split)
qed

lemma coordinate_hidden: "coordinate_interval t s = (Some (lo, hi), r) \<Longrightarrow> hidden_text t lo = s"
  using trailing_interval(2)
  by (auto simp: coordinate_interval_def terminal_agent_reply_interval_def split: option.splits if_splits)

lemma trailing_same: "tr_segments t = tr_segments u \<Longrightarrow> trailing_reply_interval t s = trailing_reply_interval u s"
  by (simp add: trailing_reply_interval_def reply_chars_def split: option.split)

lemma fallback_hidden:
  assumes "(if tr_segments pages \<noteq> tr_segments snap then (None, SnapshotProjectionMismatch)
     else case trailing_reply_interval snap s of None \<Rightarrow> (None, TerminalNotTrailing) | Some i \<Rightarrow> (Some i, CleanupDone)) = (Some (lo, hi), r)"
  shows "hidden_text pages lo = s"
proof -
  have "trailing_reply_interval pages s = Some (lo, hi)"
    using assms trailing_same [of pages snap s] by (auto split: if_splits option.splits)
  then show ?thesis by (rule trailing_interval(2))
qed

lemma snapshot_hidden: "snapshot_interval pages snap p = (Some (lo, hi), r) \<Longrightarrow> hidden_text pages lo = sp_final p"
  using fallback_hidden [of pages snap "sp_final p" lo hi r] coordinate_hidden [of pages "sp_final p" lo hi r]
  unfolding snapshot_interval_def Let_def by (auto split: option.splits if_splits simp del: split_paired_All)

lemma snapshot_carried:
  assumes "carried E t g"
  shows "carried E t (fst (apply_snapshot_projection E T t cc cancelled n p g))"
proof -
  obtain g1 r where pub: "publish_result_if_needed E (sp_final p) g = (g1, r)" by fastforce
  note k = publish_plain [OF pub]
  have c1: "carried E t g1" by (rule plain_carried [OF k(1) assms])
  note rest = plain_carried [OF refresh_plain] plain_carried [OF changed_plain]
  have clean: "carried E t (fst (remove_terminal_reply E (rt_receipts T) t i cancelled n changed g1))"
    if "snapshot_interval t full p = (Some i, reason)" "r = Inr True" for full i reason changed
  proof -
    obtain lo hi where i: "i = (lo, hi)" by fastforce
    have "hidden_text t lo = sp_final p" using snapshot_hidden that(1) unfolding i by blast
    then show ?thesis using remove_carried [OF c1] k(2) [OF that(2)] unfolding i by simp
  qed
  show ?thesis
    unfolding apply_snapshot_projection_def Let_def pub
  proof (rule bindc_carried)
    show "carried E t (fst (g1, r))" using c1 by simp
  next
    fix g2 carrier
    assume g2: "(g1, r) = (g2, Inr carrier)"
    show "carried E t (fst (if carrier
         then bindc (if sp_kind p = AgentText
                     then (case snapshot_interval t (transcript_from_snapshot t p False) p of (interval, reason) \<Rightarrow>
                        (case interval of
                           Some i \<Rightarrow> remove_terminal_reply E (rt_receipts T) t i cancelled n (cc \<noteq> cancelled) g2
                         | None \<Rightarrow> (g2, Inr (retained reason))))
                     else (g2, Inr (retained NonAgentTerminal)))
           (\<lambda>g outcome.
              (if co_status outcome = CleanupRetained \<and> cc \<noteq> cancelled
               then refresh_confirmed_page_status E (rt_receipts T) t cancelled n g else g, Inr True))
         else if cc \<noteq> cancelled \<and> rt_receipts T \<noteq> [] \<and> \<not> display_changed t (transcript_from_snapshot t p False)
         then (refresh_confirmed_page_status E (rt_receipts T) t cancelled n g2, Inr False)
         else bindc (refresh_card_if_changed E (rt_card T) t (transcript_from_snapshot t p False) cc cancelled n (rt_start T)
             (transcript_end (transcript_from_snapshot t p False)) g2)
           (\<lambda>g u. (g, Inr carrier))))"
    proof (cases carrier)
      case False
      have c2: "carried E t g2" using g2 c1 by simp
      then show ?thesis using False rest by (auto intro!: bindc_carried)
    next
      case True
      let ?r = "if sp_kind p = AgentText
                     then (case snapshot_interval t (transcript_from_snapshot t p False) p of (interval, reason) \<Rightarrow>
                        (case interval of
                           Some i \<Rightarrow> remove_terminal_reply E (rt_receipts T) t i cancelled n (cc \<noteq> cancelled) g2
                         | None \<Rightarrow> (g2, Inr (retained reason))))
                     else (g2, Inr (retained NonAgentTerminal))"
      have "carried E t (fst ?r)"
        using c1 clean g2 True by (auto split: prod.split option.split)
      then show ?thesis unfolding if_P [OF True]
      proof (rule bindc_carried)
        fix g3 outcome
        assume "carried E t g3"
        then show "carried E t (fst (if co_status outcome = CleanupRetained \<and> cc \<noteq> cancelled
               then refresh_confirmed_page_status E (rt_receipts T) t cancelled n g3 else g3, Inr True))"
          using rest(1) by simp
      qed
    qed
  qed
qed

lemma finish_plain: "plain g (fst (finish_local E T t drop_reply cc cancelled n same published g))"
proof -
  have c: "plain g (fst (bindc (refresh_card_if_changed E m t d cc b n a z g) (\<lambda>g u. (g, Inr published))))" for m d b a z
  proof -
    let ?c = "refresh_card_if_changed E m t d cc b n a z g"
    have "fst (bindc ?c (\<lambda>g u. (g, Inr published))) = fst ?c" by (cases ?c; cases "snd ?c") auto
    then show ?thesis using changed_plain by simp
  qed
  show ?thesis using c refresh_plain by (auto simp: finish_local_def Let_def)
qed

lemma clean_local_carried:
  assumes "carried E t g" and "available E s g" and "strip s \<noteq> []"
  shows "carried E t (fst (clean_local E T t cc cancelled n s g))"
proof (cases "coordinate_interval t s")
  case (Pair i r)
  show ?thesis
  proof (cases i)
    case None
    then show ?thesis using assms(1) Pair by (simp add: clean_local_def)
  next
    case (Some b)
    obtain lo hi where b: "b = (lo, hi)" by fastforce
    have "hidden_text t lo = s" using coordinate_hidden Pair Some b by blast
    then have "carried E t (fst (remove_terminal_reply E (rt_receipts T) t (lo, hi) cancelled n (cc \<noteq> cancelled) g))"
      using remove_carried assms by simp
    then show ?thesis unfolding clean_local_def Pair fst_conv Some b option.case by (rule bindc_carried) simp
  qed
qed

lemma local_carried:
  assumes "carried E t g"
  shows "carried E t (fst (apply_local_evidence E T t cc cancelled n evidence g))"
proof -
  define e where "e = (case evidence of None \<Rightarrow> terminal_reply_evidence t | Some e \<Rightarrow> Some e)"
  let ?same = "tr_segments t = tr_segments (from_snapshot (rt_transcript T)) \<and> tr_blocks t = tr_blocks (from_snapshot (rt_transcript T))"
  have none: "carried E t (fst (bindc (present_no_valid_reply E T t cancelled n g) (\<lambda>g u. (g, Inr False))))"
    by (rule bindc_carried) (use plain_carried [OF no_valid_plain assms] in auto)
  consider (no) "e = None" | (agent) s where "e = Some (AgentReply s)" | (err) s where "e = Some (ErrorReply s)"
    by (metis option.exhaust reply_evidence.exhaust)
  then show ?thesis
  proof cases
    case no
    then show ?thesis using none by (simp add: apply_local_evidence_def e_def [symmetric])
  next
    case (err s)
    obtain g1 r where pub: "publish_result_if_needed E s g = (g1, r)" by fastforce
    have c1: "carried E t g1" using plain_carried [OF publish_plain(1) [OF pub] assms] .
    have "carried E t (fst (bindc (g1, r) (\<lambda>g published.
        finish_local E T t (published \<and> ?same \<and> can_remove_terminal_only t s) cc cancelled n ?same published g)))"
      by (rule bindc_carried) (use c1 plain_carried [OF finish_plain] in auto)
    then show ?thesis by (simp add: apply_local_evidence_def e_def [symmetric] err pub Let_def)
  next
    case (agent s)
    show ?thesis
    proof (cases "strip s = []")
      case True
      then show ?thesis using none by (simp add: apply_local_evidence_def e_def [symmetric] agent)
    next
      case False
      obtain g1 r where pub: "publish_result_if_needed E s g = (g1, r)" by fastforce
      note k = publish_plain [OF pub]
      have c1: "carried E t g1" by (rule plain_carried [OF k(1) assms])
      have "carried E t (fst (bindc (g1, r) (\<lambda>g published.
                   bindc (if published \<and> ?same then clean_local E T t cc cancelled n s g else (g, Inr False)) (\<lambda>g cleaned.
                     if cleaned then (g, Inr True)
                     else finish_local E T t False cc cancelled n ?same published g))))"
      proof (rule bindc_carried)
        show "carried E t (fst (g1, r))" using c1 by simp
      next
        fix g2 published
        assume g2: "(g1, r) = (g2, Inr published)"
        show "carried E t (fst (bindc (if published \<and> ?same then clean_local E T t cc cancelled n s g2 else (g2, Inr False)) (\<lambda>g cleaned.
                     if cleaned then (g, Inr True)
                     else finish_local E T t False cc cancelled n ?same published g)))"
        proof (rule bindc_carried)
          show c: "carried E t (fst (if published \<and> ?same then clean_local E T t cc cancelled n s g2 else (g2, Inr False)))"
            using g2 c1 k(2) clean_local_carried [of E t g1 s] by auto
          fix g3 cleaned
          assume "carried E t g3"
          then show "carried E t (fst (if cleaned then (g3, Inr True) else finish_local E T t False cc cancelled n ?same published g3))"
            using plain_carried [OF finish_plain] by simp
        qed
      qed
      then show ?thesis using False by (simp add: apply_local_evidence_def e_def [symmetric] agent pub Let_def)
    qed
  qed
qed

lemma selection_carried:
  assumes "carried E t g"
  shows "carried E t (fst (apply_reply_selection E T t cc cancelled n p evidence None g))"
  unfolding apply_reply_selection_def Let_def option.case
  by (auto intro!: bindc_carried snapshot_carried [OF assms] local_carried [OF assms] plain_carried [OF no_valid_plain assms] dest: arg_cong [of _ _ fst])


section \<open>Witnesses\<close>

text \<open>The reply of the transcript is on two pages; the snapshot confirms it.\<close>

definition demo_final :: transcript where
  "demo_final = run_ops transcript_step new_transcript
     [AssistantDelta ''he'', StartProcess ''ls'' True, AssistantDelta ''y'', ReconcileText ''yo!'' True ''i1'']"

definition demo_final_receipts :: "page_receipt list" where
  "demo_final_receipts = [\<lparr>rp_message = ''m1'', rp_start = zero_cursor, rp_end = \<lparr>cu_process = 1, cu_reply = 3\<rparr>\<rparr>,
     \<lparr>rp_message = ''m2'', rp_start = \<lparr>cu_process = 1, cu_reply = 3\<rparr>, rp_end = \<lparr>cu_process = 2, cu_reply = 5\<rparr>\<rparr>]"

definition demo_target :: reconcile_target where
  "demo_target = \<lparr>rt_turn = ''t1'', rt_card = ''m2'', rt_transcript = demo_final, rt_start = \<lparr>cu_process = 1, cu_reply = 3\<rparr>,
     rt_end = \<lparr>cu_process = 2, cu_reply = 5\<rparr>, rt_cancelled = False, rt_elapsed = 7, rt_receipts = demo_final_receipts\<rparr>"

definition demo_recover :: recover_env where
  "demo_recover = \<lparr>rv_dispatch = \<lambda>i. True, rv_recorded = \<lambda>s. False, rv_publish = \<lambda>i. Some True, rv_no_reply = ''none'',
     rv_attempts = 3, rv_stop = \<lambda>i. False, rv_read = \<lambda>i. Some demo_turns\<rparr>"

definition demo_card :: "string \<Rightarrow> segment list \<Rightarrow> card_model" where
  "demo_card s segs = \<lparr>cm_log = s, cm_segments = segs, cm_running = False, cm_elapsed = 7, cm_cancelled = False, cm_cancelable = True\<rparr>"

lemma demo_reconcile_run:
  "fst (run_terminal_reconcile demo_recover demo_target) =
     [ResultPublished ''yo!'' True] @ CardDispatched ''m1'' (TrailingView demo_final 2) (demo_card ''l'' [Assistant ''he'']) True
       # [CardDispatched ''m2'' (TrailingView demo_final 2) (demo_card ''s'' []) True, ImagesDelivered]"
  by code_simp


lemma demo_cleanup_run:
  "remove_terminal_reply demo_recover demo_final_receipts demo_final (2, reply_chars demo_final) False 7 False []
     = ([CardDispatched ''m1'' (TrailingView demo_final 2) (demo_card ''l'' [Assistant ''he'']) True,
         CardDispatched ''m2'' (TrailingView demo_final 2) (demo_card ''s'' []) True],
        Inr \<lparr>co_status = CleanupScheduled, co_reason = CleanupDone, co_attempted = 2, co_scheduled = 2\<rparr>)"
  by code_simp

lemma cleanup_hides_only_the_reply_witness:
  "\<exists>shown. shown @ slice 2 (reply_chars demo_final) (text_of (tr_segments demo_final)) = text_of (tr_segments demo_final)"
proof -
  have c: "receipt_chain zero_cursor demo_final_receipts \<lparr>cu_process = 2, cu_reply = 5\<rparr>" "distinct (map rp_message demo_final_receipts)"
    "follows (transcript_end demo_final) \<lparr>cu_process = 2, cu_reply = 5\<rparr>" "(0::int) \<le> 2" "2 < reply_chars demo_final"
    by code_simp+
  from cleanup_hides_only_the_reply [OF c, of demo_recover False 7 False, unfolded demo_cleanup_run prod.case sum.case cleanup_outcome.select_convs]
  show ?thesis by blast
qed

end
