(* ===== verification/Spec2Isabelle.thy ===== *)
theory Spec2Isabelle
  imports Interaction_Lease_Ledger Thread_Runtime_Ledger Runtime_Coordination Jsonrpc_Id
    Server_Request_Registry Request_Authority Execution_Queue_Properties
    Ingress_Gate Binding_Directory Resume_Properties Effective_Settings Request_Responses
    Instance_Reset Access_Policy Binding_Owner_Properties Execution_Properties Terminal_Properties
    Terminal_Reconcile_Properties
begin

text \<open>
  A verification development for FOCUS (\<open>bot/\<close>), a service that lets several frontends (Feishu
  chats, browsers, the fcodex terminal) share the threads of a Codex app server. The core
  of the program is the question who may act on a thread, and what of that survives a restart, a
  lost connection or a backend reset; that core is what is modelled.

  \<^bold>\<open>The parts and how they interact.\<close>
  A frontend that wants to act on a thread takes the machine-wide interaction lease of the
  thread (\<open>stores/interaction_lease_store.py\<close>), and the service instance holds the runtime lease
  (\<open>stores/thread_runtime_lease_store.py\<close>) after it asked the other running instances whether
  the thread is loaded there (\<open>thread_runtime_coordination.py\<close>). Both stores are JSON files
  under a file lock that drop the records of dead processes. Resuming, unsubscribing and
  starting a thread go through the runtime authority (\<open>thread_runtime_authority.py\<close>), creating one
  through \<open>thread_create_transaction.py\<close>. Every ordinary request and callback of the app
  server passes the ingress gate (\<open>adapter_ingress_gate.py\<close>), which closes on disconnect and
  backend reset. Requests the app server sends to the user are kept in the registry
  (\<open>server_request_registry.py\<close>), projected to the frontends and answered through
  \<open>server_request_coordinator.py\<close> and its dispatcher, and the right to answer one is claimed from
  \<open>codex_protocol/server_request_authority.py\<close>. Prompts that arrive from Feishu while a turn runs
  wait in the execution queue (\<open>feishu_execution_queue.py\<close>). What a running turn says is collected in
  a transcript (\<open>execution_transcript.py\<close>) and shown on a sequence of cards
  (\<open>execution_pages.py\<close>); when the turn has completed, its presentation
  (\<open>execution_output_controller.py\<close>) and its reconciliation with the app server's snapshot
  (\<open>execution_recovery_controller.py\<close>) bring the cards to their final form and publish the reply. A backend reset
  (\<open>backend_reset/\<close>) is the one transaction that goes through all of them: it fences the gate, stops the app server and
  retires, in a fixed order, what the old backend left in each.

  \<^bold>\<open>Theories.\<close>
  \<^item> \<open>Focus_Prelude\<close>: Python text, insertion-ordered dictionaries, calls that may raise, and the
    interfaces \<open>step_system\<close> (operations keep an invariant), \<open>standing_fact\<close> (a fact holds from
    some moment on) and \<open>epoch_system\<close> (a counter never moves back), which every stateful
    component interprets on its own operations.
  \<^item> \<open>Py_Json\<close>, \<open>Py_Uuid\<close>, \<open>Process_Utils\<close>: the standard library the stores use and the process
    identity of \<open>process_utils.py\<close>.
  \<^item> \<open>Versioned_Records\<close>: \<open>stores/versioned_records.py\<close> and \<open>atomic_file.py\<close>; the interface
    \<open>record_view\<close> gives the ledger of a record file and is interpreted by both lease stores.
  \<^item> \<open>Interaction_Lease\<close> (operations) and \<open>Interaction_Lease_Ledger\<close> (refinement of an abstract
    ledger, exclusion over any sequence, exact release and retirement, failing closed,
    the file round trip).
  \<^item> \<open>Thread_Runtime_Lease\<close> and \<open>Thread_Runtime_Ledger\<close>: the same for the runtime leases, with one
    service generation per thread as the reachable invariant.
  \<^item> \<open>Runtime_Coordination\<close>: the loaded gate and the agreement of preview and acquisition.
  \<^item> \<open>Jsonrpc_Id\<close>, \<open>Server_Request_Registry\<close>, \<open>Request_Authority\<close>: request keys are injective, the
    registry's reachable invariant, and one-shot answers across reconnects and resets.
  \<^item> \<open>Surface_Dispatch\<close>: \<open>server_request_surface_dispatcher.py\<close>, what a dispatch receipt proves and
    that no timer is orphaned. \<open>Request_Coordinator\<close> (operations of
    \<open>server_request_coordinator.py\<close>) and \<open>Request_Responses\<close>: one response per request over any
    nested operations, closed requests stay closed, resolutions reach every surface.
  \<^item> \<open>Execution_Queue\<close> (operations), \<open>Execution_Queue_Lanes\<close> (one abstract lane per binding and the
    simulation), \<open>Execution_Queue_Properties\<close> (order, settlement, invalidation).
  \<^item> \<open>Ingress_Gate\<close>: the gate, with a drain of running writes as a suspended call.
  \<^item> \<open>Thread_Create\<close>, \<open>Resume_Authority\<close> (critical sections and their invariant),
    \<open>Resume_Operations\<close> (the operations, interrupted at every port call), \<open>Resume_Properties\<close>.
  \<^item> \<open>Effective_Settings\<close>: the reported settings of \<open>thread_effective_settings.py\<close>: what is stated was
    reported, a turn shows the settings it started with, an external change silences the thread.
  \<^item> \<open>Backend_Reset\<close>: the reset transaction of \<open>backend_reset/coordinator.py\<close> over the gate, both lease
    stores, the request coordinator, the response authority, the runtime authority and the settings;
    \<open>Backend_Reset_Stages\<close> (what each stage leaves alone, with the interface \<open>stage_frame\<close>, and the
    order of the stages) and \<open>Backend_Reset_Properties\<close> (it fails closed, clears in order, completes).
    \<open>Backend_Reset_Service\<close> and \<open>Instance_Reset\<close>: the service around it with the execution queues
    (\<open>backend_reset/service.py\<close>), and the command that decodes its result (\<open>backend_reset/cli.py\<close>).
  \<^item> \<open>Binding_Directory\<close>: \<open>binding_identity.py\<close> and \<open>thread_subscription_registry.py\<close>.
  \<^item> \<open>Access_Policy\<close>: \<open>thread_access_policy.py\<close> over the modelled subscriptions and leases, and
    \<open>direct_thread_target_policy.py\<close>: who may write to a thread or append to its queue.
  \<^item> \<open>Binding_Owner\<close> (operations of \<open>binding_owner_authority.py\<close> and the settlement and preflight of
    \<open>binding_runtime_manager.py\<close>), \<open>Binding_Owner_Facts\<close> (invariant and lasting facts),
    \<open>Binding_Owner_Properties\<close>: dead receipts, pinned losses, one-shot detach capabilities.
  \<^item> \<open>Execution_Transcript\<close> (operations of \<open>execution_transcript.py\<close>) and \<open>Execution_Transcript_Facts\<close>:
    slices of the segments are slices of the reply, the snapshot keeps the transcript, the
    coordinate of a completed reply is trailing, work withdraws the evidence of it.
  \<^item> \<open>Execution_Pages\<close> (the ledger of \<open>execution_pages.py\<close>), \<open>Execution_Page_Facts\<close> (every transition keeps
    what the constructor checks, sealed pages stay, an unresolved send blocks) and
    \<open>Execution_Cards\<close> (\<open>runtime_card_publisher.py\<close>: a card's content, the longest part that fits).
    \<open>Page_Receipts\<close>: contiguous receipts, coverage of an interval, their cards put together.
    \<open>Execution_Properties\<close>: the properties of reachable transcripts and ledgers.
  \<^item> \<open>Terminal_Pages\<close> (\<open>present_terminal_execution_card\<close>), \<open>Terminal_Pages_Facts\<close>, \<open>Terminal_Properties\<close>: the
    presentation reports contiguous accepted receipts of published pages, and is complete unless a
    send stays unconfirmed.
  \<^item> \<open>Terminal_Snapshot\<close> and \<open>Terminal_Snapshot_Facts\<close>: which reply a snapshot gives and when;
    \<open>Terminal_Reconcile\<close> (\<open>run_terminal_execution_reconcile\<close> down to the cards), \<open>Terminal_Reconcile_Facts\<close>,
    \<open>Terminal_Reconcile_Properties\<close>: no reply is hidden before it was published, and the cleaning
    hides the reply and nothing else.

  \<^bold>\<open>Conventions.\<close>
  A method is a function from the object's state (a record with the fields of \<open>__init__\<close>) and the
  arguments to the state after the call and either the exception (\<open>Inl\<close>) or the result
  (\<open>Inr\<close>). What the code gets from outside, such as the file system, the kernel's process table,
  clocks, fresh UUIDs, ports and callbacks, is an environment record of the call. Objects compared with
  \<open>is\<close> carry an address; \<open>object()\<close> tokens are numbers handed out in order. A lock makes its critical
  section one step; where a method gives the lock back (a condition variable, a port call) the
  model does too: the suspended call of the ingress gate, the \<open>ae_others\<close> of the runtime
  authority, the nested operations of the request coordinator, the gate operations during the drains of a reset. Sets that the code walks in arbitrary order are ordered by the environment.

  \<^bold>\<open>Bounds, loops, fuel.\<close>
  No definition uses fuel. Loops over a list or a dictionary are structural recursions; the
  search of \<open>draw_unused\<close> for an unused id is a partial function whose termination for sources
  of distinct ids is a theorem. The binary search for the part of a transcript that fits a card
  (\<open>fit_search\<close>) and the loop that continues it on new cards (\<open>present_pages\<close>) terminate by the
  interval and by the rest of the transcript. The size of a rendered card is a parameter of the page
  budget, since the rendering to JSON is not modelled. Python integers are \<open>int\<close> or \<open>nat\<close> and do not overflow; a
  finite float is its exact rational value. Characters are code points below 256, the range on
  which \<open>strip\<close> and \<open>lower\<close> are exact.

  \<^bold>\<open>Not modelled.\<close>
  The frontends (\<open>web_runtime\<close>, \<open>fcodex\<close>, Feishu controllers and card rendering), the transport to the
  app server (\<open>adapters\<close>, the rest of \<open>codex_protocol\<close>), the live page flow and the watchdog of a running
  turn (the rest of \<open>execution_output_controller.py\<close> and \<open>execution_recovery_controller.py\<close>), the composition in
  \<open>focus_runtime\<close>, administration and installation, the operation-owner registry, the turn execution of
  a binding, and the remaining stores. They are I/O, presentation, threads and timers, or wiring around the parts
  above; where a modelled part calls them, the call is answered by its environment. Wording of messages and log
  lines is left out everywhere.

  \<^bold>\<open>What modelling showed.\<close>
  \<open>Ingress_Gate.suspended_accept_admits_disconnected\<close>: an accept that waited for writes to drain
  admits a generation whose disconnect was recorded meanwhile.
  \<open>Resume_Properties.second_invalidation_opens_barrier\<close>: invalidating the connection twice
  removes the barrier behind which an invalidated acquisition gives its lease back.
\<close>

end
